(* ===== verification/Prelude.thy ===== *)
theory Prelude
  imports Main "HOL-Library.Word" "HOL-Library.AList" "HOL-Library.Multiset"
begin

text \<open>
  The vocabulary the component theories share.
  \<^item> Machine integers: \<open>u8\<close>, \<open>u16\<close>, \<open>u32\<close>, \<open>u64\<close> are words of that width;
    collection lengths (\<^verbatim>\<open>usize\<close>) are \<open>nat\<close>, since a Rust collection never holds
    more than \<^verbatim>\<open>isize::MAX\<close> items.
  \<^item> Clock: \<^verbatim>\<open>Instant\<close> and \<^verbatim>\<open>Duration\<close> are \<open>nat\<close>; an operation that reads
    the clock takes the reading as an argument, and \<^verbatim>\<open>duration_since\<close>/\<^verbatim>\<open>elapsed\<close>,
    which saturate at zero, are the subtraction of \<open>nat\<close>.
  \<^item> \<^verbatim>\<open>HashMap\<close>: an association list without a repeated key (\<open>hm_wf\<close>). Its order
    stands for the unspecified iteration order of the hash map, so a statement about every
    list is a statement about every iteration order.
  \<^item> \<^verbatim>\<open>Result\<close>: a sum, \<open>Inl\<close> the error and \<open>Inr\<close> the value.
  \<^item> Text: the list of its bytes; white space is the ASCII white space.
  The theory also holds the decimal printer and parser of the standard library, the
  splitting functions on strings, and the locale of machines that are driven by a sequence
  of operations.
\<close>

type_synonym u8 = "8 word"
type_synonym u16 = "16 word"
type_synonym u32 = "32 word"
type_synonym u64 = "64 word"
type_synonym bytes = "u8 list"
type_synonym instant = nat
type_synonym duration = nat
type_synonym ('k, 'v) hmap = "('k \<times> 'v) list"
type_synonym ('e, 'a) result = "'e + 'a"

named_theorems hm_simps \<open>facts on hash maps kept as association lists\<close>

section \<open>Hash maps\<close>

abbreviation hm_get :: "('k, 'v) hmap \<Rightarrow> 'k \<Rightarrow> 'v option" where
  "hm_get m k \<equiv> map_of m k"

abbreviation hm_insert :: "'k \<Rightarrow> 'v \<Rightarrow> ('k, 'v) hmap \<Rightarrow> ('k, 'v) hmap" where
  "hm_insert \<equiv> AList.update"

abbreviation hm_remove :: "'k \<Rightarrow> ('k, 'v) hmap \<Rightarrow> ('k, 'v) hmap" where
  "hm_remove \<equiv> AList.delete"

definition hm_contains :: "('k, 'v) hmap \<Rightarrow> 'k \<Rightarrow> bool" where
  "hm_contains m k = (case hm_get m k of None \<Rightarrow> False | Some _ \<Rightarrow> True)"

definition hm_retain :: "('k \<Rightarrow> 'v \<Rightarrow> bool) \<Rightarrow> ('k, 'v) hmap \<Rightarrow> ('k, 'v) hmap" where
  "hm_retain P m = filter (\<lambda>(k, v). P k v) m"

definition hm_values :: "('k, 'v) hmap \<Rightarrow> 'v list" where
  "hm_values m = map snd m"

definition hm_map_values :: "('v \<Rightarrow> 'w) \<Rightarrow> ('k, 'v) hmap \<Rightarrow> ('k, 'w) hmap" where
  "hm_map_values f m = map (\<lambda>(k, v). (k, f v)) m"

definition hm_wf :: "('k, 'v) hmap \<Rightarrow> bool" where
  "hm_wf m = distinct (map fst m)"

lemma in_keysI: "(k, v) \<in> set m \<Longrightarrow> k \<in> fst ` set m"
  by (force simp: image_iff)

lemma in_valuesI: "(k, v) \<in> set m \<Longrightarrow> v \<in> snd ` set m"
  by (force simp: image_iff)

lemma hm_wf_Nil [simp]: "hm_wf []"
  by (simp add: hm_wf_def)

lemma hm_wf_insert [simp, intro]: "hm_wf m \<Longrightarrow> hm_wf (hm_insert k v m)"
  by (simp add: hm_wf_def distinct_update)

lemma hm_wf_remove [simp, intro]: "hm_wf m \<Longrightarrow> hm_wf (hm_remove k m)"
  by (simp add: hm_wf_def distinct_delete)

lemma hm_wf_filter [simp, intro]: "hm_wf m \<Longrightarrow> hm_wf (filter P m)"
  by (simp add: hm_wf_def distinct_map_filter)

lemma hm_wf_retain [simp, intro]: "hm_wf m \<Longrightarrow> hm_wf (hm_retain P m)"
  by (simp add: hm_retain_def)

lemma keys_map_values [simp]: "map fst (hm_map_values f m) = map fst m"
  by (simp add: hm_map_values_def case_prod_beta comp_def)

lemma hm_wf_map_values [simp]: "hm_wf (hm_map_values f m) = hm_wf m"
  unfolding hm_wf_def by simp

lemma hm_get_insert [hm_simps, simp]:
  "hm_get (hm_insert k v m) = (hm_get m)(k \<mapsto> v)"
  by (rule update_conv')

lemma hm_get_remove [hm_simps, simp]:
  "hm_get (hm_remove k m) = (hm_get m)(k := None)"
  by (rule delete_conv')

lemma hm_get_map_values [hm_simps, simp]:
  "hm_get (hm_map_values f m) k = map_option f (hm_get m k)"
  by (induction m) (auto simp: hm_map_values_def)

lemma hm_contains_iff: "hm_contains m k \<longleftrightarrow> k \<in> fst ` set m"
proof -
  have "hm_contains m k \<longleftrightarrow> hm_get m k \<noteq> None"
    by (simp add: hm_contains_def split: option.splits)
  then show ?thesis by (simp add: map_of_eq_None_iff)
qed

lemma hm_get_retain:
  assumes "hm_wf m"
  shows "hm_get (hm_retain P m) k =
    (case hm_get m k of Some v \<Rightarrow> if P k v then Some v else None | None \<Rightarrow> None)"
  using assms
proof (induction m)
  case Nil
  then show ?case by (simp add: hm_retain_def)
next
  case (Cons e m)
  obtain k' v' where e: "e = (k', v')" by (cases e)
  from Cons.prems have wf: "hm_wf m" and new: "k' \<notin> fst ` set m"
    by (simp_all add: e hm_wf_def)
  from new have "hm_get m k' = None" by (simp add: map_of_eq_None_iff)
  with Cons.IH [OF wf] show ?case
    by (auto simp: e hm_retain_def split: option.splits)
qed

lemma hm_set_eq_get: "hm_wf m \<Longrightarrow> (k, v) \<in> set m \<longleftrightarrow> hm_get m k = Some v"
  by (simp add: hm_wf_def)

lemma length_hm_insert:
  "length (hm_insert k v m) = (if k \<in> fst ` set m then length m else Suc (length m))"
proof -
  have "length (map fst (hm_insert k v m)) =
      length (if k \<in> set (map fst m) then map fst m else map fst m @ [k])"
    by (simp only: update_keys)
  then show ?thesis by (auto split: if_splits)
qed

lemma length_hm_remove_le: "length (hm_remove k m) \<le> length m"
  by (rule length_delete_le)

lemma length_hm_remove:
  assumes "hm_wf m" and "k \<in> fst ` set m"
  shows "Suc (length (hm_remove k m)) = length m"
proof -
  have "length (hm_remove k m) = length (removeAll k (map fst m))"
    using delete_keys [of k m] by (metis length_map)
  also have "\<dots> = length (remove1 k (map fst m))"
    using assms(1) by (simp add: hm_wf_def distinct_remove1_removeAll)
  finally have "length (hm_remove k m) = length m - 1"
    using assms(2) by (simp add: length_remove1)
  moreover have "0 < length m" using assms(2) by (cases m) auto
  ultimately show ?thesis by simp
qed

lemma set_hm_insert_subset: "set (hm_insert k v m) \<subseteq> insert (k, v) (set m)"
  by (induction m) auto

lemma set_hm_remove_subset: "set (hm_remove k m) \<subseteq> set m"
  by (auto simp: AList.delete_eq)

lemma keys_hm_insert: "fst ` set (hm_insert k v m) = insert k (fst ` set m)"
  by (simp add: dom_update)

lemma keys_hm_remove: "fst ` set (hm_remove k m) = fst ` set m - {k}"
  by (auto simp: AList.delete_eq)

section \<open>Searching a list\<close>

lemma find_SomeD: "List.find P xs = Some x \<Longrightarrow> x \<in> set xs \<and> P x"
  by (induction xs) (auto split: if_splits)

lemma find_Some_split:
  "List.find P xs = Some x \<Longrightarrow>
    \<exists>ys zs. xs = ys @ x # zs \<and> P x \<and> (\<forall>y \<in> set ys. \<not> P y)"
proof (induction xs)
  case Nil
  then show ?case by simp
next
  case (Cons a xs)
  show ?case
  proof (cases "P a")
    case True
    with Cons.prems have "a # xs = [] @ x # xs \<and> P x" by simp
    then show ?thesis by fastforce
  next
    case False
    with Cons.prems Cons.IH obtain ys zs
      where "xs = ys @ x # zs" and "P x" and "\<forall>y \<in> set ys. \<not> P y" by auto
    with False have "a # xs = (a # ys) @ x # zs \<and> P x \<and> (\<forall>y \<in> set (a # ys). \<not> P y)"
      by simp
    then show ?thesis by blast
  qed
qed

lemma find_None_all: "List.find P xs = None \<longleftrightarrow> (\<forall>x \<in> set xs. \<not> P x)"
  by (auto simp: find_None_iff)

section \<open>Loops that may return an error\<close>

text \<open>A \<^verbatim>\<open>for\<close> loop whose body can leave the function with \<^verbatim>\<open>return Err(..)\<close> or \<^verbatim>\<open>?\<close>.\<close>

fun fold_result :: "('a \<Rightarrow> 's \<Rightarrow> ('e, 's) result) \<Rightarrow> 'a list \<Rightarrow> 's \<Rightarrow> ('e, 's) result" where
  "fold_result f [] s = Inr s"
| "fold_result f (x # xs) s = (case f x s of Inl e \<Rightarrow> Inl e | Inr s' \<Rightarrow> fold_result f xs s')"

lemma fold_result_append:
  "fold_result f (xs @ ys) s = (case fold_result f xs s of Inl e \<Rightarrow> Inl e | Inr s' \<Rightarrow> fold_result f ys s')"
  by (induction xs arbitrary: s) (auto split: sum.splits)

lemma fold_result_nested:
  "fold_result (\<lambda>x. fold_result f (g x)) xs s = fold_result f (concat (map g xs)) s"
  by (induction xs arbitrary: s) (auto simp: fold_result_append split: sum.splits)

lemma fold_result_map: "fold_result f (map g xs) s = fold_result (\<lambda>x. f (g x)) xs s"
  by (induction xs arbitrary: s) (auto split: sum.splits)

lemma fold_result_inv:
  assumes "fold_result f xs s = Inr s'" and "P s"
    and "\<And>x s s'. x \<in> set xs \<Longrightarrow> P s \<Longrightarrow> f x s = Inr s' \<Longrightarrow> P s'"
  shows "P s'"
  using assms
proof (induction xs arbitrary: s)
  case Nil
  then show ?case by simp
next
  case (Cons x xs)
  then obtain s1 where "f x s = Inr s1" and rest: "fold_result f xs s1 = Inr s'"
    by (auto split: sum.splits)
  then have "P s1" using Cons.prems(3) [of x s s1] Cons.prems(2) by simp
  with rest show ?case using Cons.IH Cons.prems(3) by (meson list.set_intros(2))
qed

section \<open>Saturating arithmetic\<close>

lemma unat_of_nat_small: "n < 2 ^ LENGTH('a :: len) \<Longrightarrow> unat (of_nat n :: 'a word) = n"
  by (simp add: unat_of_nat)

lemma unat_bound: "unat (w :: 'a :: len word) < 2 ^ LENGTH('a)"
  by (rule unsigned_less)

lemma unat_plus_one:
  "Suc (unat w) < 2 ^ LENGTH('a) \<Longrightarrow> unat (w + 1) = Suc (unat (w :: 'a :: len word))"
  by (simp add: unat_word_ariths)

lemma of_nat_small_inj:
  assumes "m < 2 ^ LENGTH('a :: len)" and "n < 2 ^ LENGTH('a)"
  shows "(of_nat m :: 'a word) = of_nat n \<longleftrightarrow> m = n"
  using assms unat_of_nat_small by metis

definition sat_add64 :: "u64 \<Rightarrow> u64 \<Rightarrow> u64" where
  "sat_add64 a b = (if unat a + unat b < 2 ^ 64 then a + b else - 1)"

definition sat_sub64 :: "u64 \<Rightarrow> u64 \<Rightarrow> u64" where
  "sat_sub64 a b = (if b \<le> a then a - b else 0)"

lemma unat_sat_add64: "unat (sat_add64 a b) = min (unat a + unat b) (2 ^ 64 - 1)"
proof (cases "unat a + unat b < 2 ^ 64")
  case True
  then show ?thesis by (simp add: sat_add64_def unat_word_ariths)
next
  case False
  have "unat (- 1 :: u64) = 2 ^ 64 - 1"
    by (simp add: unsigned_minus_1_eq_mask mask_eq_exp_minus_1)
  with False show ?thesis by (simp add: sat_add64_def)
qed

lemma unat_sat_sub64: "unat (sat_sub64 a b) = unat a - unat b"
  by (auto simp: sat_sub64_def word_le_nat_alt unat_sub)

section \<open>Bytes\<close>

text \<open>A byte string read as a big-endian number, and \<^verbatim>\<open>to_be_bytes\<close>.\<close>

fun be_nat :: "bytes \<Rightarrow> nat" where
  "be_nat [] = 0"
| "be_nat (b # bs) = unat b * 256 ^ length bs + be_nat bs"

lemma be_nat_bound: "be_nat bs < 256 ^ length bs"
proof (induction bs)
  case Nil
  then show ?case by simp
next
  case (Cons b bs)
  have "unat b \<le> 255" using unat_bound [of b] by simp
  then have "unat b * 256 ^ length bs \<le> 255 * 256 ^ length bs" by (rule mult_right_mono) simp
  then have "unat b * 256 ^ length bs + be_nat bs < 255 * 256 ^ length bs + 256 ^ length bs"
    using Cons by (rule add_le_less_mono)
  then show ?case by simp
qed

lemma be_nat_leading_zeros [simp]: "be_nat (replicate n 0 @ bs) = be_nat bs"
  by (induction n) simp_all

lemma be_nat_zero: "be_nat bs = 0 \<longleftrightarrow> (\<forall>b \<in> set bs. b = 0)"
  by (induction bs) (auto simp: unat_eq_0)

primrec be_bytes :: "nat \<Rightarrow> nat \<Rightarrow> bytes" where
  "be_bytes 0 v = []"
| "be_bytes (Suc n) v = be_bytes n (v div 256) @ [of_nat (v mod 256)]"

definition u32_to_be_bytes :: "u32 \<Rightarrow> bytes" where
  "u32_to_be_bytes w = be_bytes 4 (unat w)"

definition u64_to_be_bytes :: "u64 \<Rightarrow> bytes" where
  "u64_to_be_bytes w = be_bytes 8 (unat w)"

lemma length_be_bytes [simp]: "length (be_bytes n v) = n"
  by (induction n arbitrary: v) simp_all

lemma be_nat_snoc: "be_nat (bs @ [b]) = be_nat bs * 256 + unat b"
  by (induction bs) (simp_all add: algebra_simps)

lemma be_nat_be_bytes: "v < 256 ^ n \<Longrightarrow> be_nat (be_bytes n v) = v"
proof (induction n arbitrary: v)
  case 0
  then show ?case by simp
next
  case (Suc n)
  then have "v div 256 < 256 ^ n" by (simp add: less_mult_imp_div_less mult.commute)
  then have "be_nat (be_bytes n (v div 256)) = v div 256" by (rule Suc.IH)
  moreover have "unat (of_nat (v mod 256) :: u8) = v mod 256" by (rule unat_of_nat_small) simp
  ultimately show ?case by (simp add: be_nat_snoc del: unat_of_nat)
qed

lemma be_bytes_inj: "be_bytes n v = be_bytes n w \<Longrightarrow> v < 256 ^ n \<Longrightarrow> w < 256 ^ n \<Longrightarrow> v = w"
  by (metis be_nat_be_bytes)

lemma length_to_be_bytes [simp]: "length (u32_to_be_bytes w) = 4" "length (u64_to_be_bytes x) = 8"
  by (simp_all add: u32_to_be_bytes_def u64_to_be_bytes_def)

lemma u32_to_be_bytes_inj [simp]: "u32_to_be_bytes v = u32_to_be_bytes w \<longleftrightarrow> v = w"
  using be_bytes_inj [of 4 "unat v" "unat w"] unat_bound [of v] unat_bound [of w]
  by (auto simp: u32_to_be_bytes_def intro: unsigned_word_eqI)

lemma u64_to_be_bytes_inj [simp]: "u64_to_be_bytes v = u64_to_be_bytes w \<longleftrightarrow> v = w"
  using be_bytes_inj [of 8 "unat v" "unat w"] unat_bound [of v] unat_bound [of w]
  by (auto simp: u64_to_be_bytes_def intro: unsigned_word_eqI)

text \<open>
  A field preceded by its length as a 32-bit integer. Two sequences that start with such a
  field have the same field and the same rest.
\<close>

definition len_prefixed :: "bytes \<Rightarrow> bytes" where
  "len_prefixed bs = u32_to_be_bytes (of_nat (length bs)) @ bs"

lemma len_prefixed_cancel:
  assumes "len_prefixed xs @ r = len_prefixed ys @ t" and "length xs < 2 ^ 32" and "length ys < 2 ^ 32"
  shows "xs = ys \<and> r = t"
proof -
  have "u32_to_be_bytes (of_nat (length xs)) = u32_to_be_bytes (of_nat (length ys))"
    and eq: "xs @ r = ys @ t"
    using assms(1) by (simp_all add: len_prefixed_def append_eq_append_conv)
  then have "(of_nat (length xs) :: u32) = of_nat (length ys)" by simp
  with assms(2,3) have "length xs = length ys" by (simp add: of_nat_small_inj)
  with eq show ?thesis by simp
qed

section \<open>Text\<close>

definition str_as_bytes :: "string \<Rightarrow> bytes" where
  "str_as_bytes s = map (\<lambda>c. of_nat (of_char c)) s"

lemma str_as_bytes_inj [simp]: "str_as_bytes s = str_as_bytes t \<longleftrightarrow> s = t"
proof -
  have "inj (\<lambda>c. of_nat (of_char c) :: u8)"
  proof (rule injI)
    fix c d :: char
    have "(of_char c :: nat) < 256" "(of_char d :: nat) < 256" using range_nat_of_char by auto
    then show "c = d" if "of_nat (of_char c) = (of_nat (of_char d) :: u8)"
      using that by (simp add: of_nat_small_inj)
  qed
  then show ?thesis by (auto simp: str_as_bytes_def inj_map_eq_map)
qed


definition is_space :: "char \<Rightarrow> bool" where
  "is_space c = (c \<in> {CHR '' '', CHR 0x09, CHR 0x0A, CHR 0x0B, CHR 0x0C, CHR 0x0D})"

definition str_trim :: "string \<Rightarrow> string" where
  "str_trim s = rev (dropWhile is_space (rev (dropWhile is_space s)))"

fun split_on :: "char \<Rightarrow> string \<Rightarrow> string list" where
  "split_on sep [] = [[]]"
| "split_on sep (c # cs) =
     (if c = sep then [] # split_on sep cs
      else case split_on sep cs of [] \<Rightarrow> [[c]] | w # ws \<Rightarrow> (c # w) # ws)"

fun split_once :: "char \<Rightarrow> string \<Rightarrow> (string \<times> string) option" where
  "split_once sep [] = None"
| "split_once sep (c # cs) =
     (if c = sep then Some ([], cs)
      else case split_once sep cs of None \<Rightarrow> None | Some (a, b) \<Rightarrow> Some (c # a, b))"

fun str_join :: "char \<Rightarrow> string list \<Rightarrow> string" where
  "str_join sep [] = []"
| "str_join sep [s] = s"
| "str_join sep (s # t # ts) = s @ sep # str_join sep (t # ts)"

lemma split_on_neq_Nil [simp]: "split_on sep s \<noteq> []"
  by (induction s) (auto split: list.splits)

lemma split_on_single [simp]: "sep \<notin> set s \<Longrightarrow> split_on sep s = [s]"
  by (induction s) auto

lemma split_on_append: "sep \<notin> set s \<Longrightarrow> split_on sep (s @ sep # t) = s # split_on sep t"
  by (induction s) auto

lemma split_on_join:
  "ps \<noteq> [] \<Longrightarrow> \<forall>p \<in> set ps. sep \<notin> set p \<Longrightarrow> split_on sep (str_join sep ps) = ps"
  by (induction sep ps rule: str_join.induct) (auto simp: split_on_append)

lemma split_once_append: "sep \<notin> set s \<Longrightarrow> split_once sep (s @ sep # t) = Some (s, t)"
  by (induction s) auto

lemma split_once_None_iff: "split_once sep s = None \<longleftrightarrow> sep \<notin> set s"
  by (induction s) (auto split: option.splits)

lemma str_trim_id: "\<forall>c \<in> set s. \<not> is_space c \<Longrightarrow> str_trim s = s"
proof -
  assume s: "\<forall>c \<in> set s. \<not> is_space c"
  then have "dropWhile is_space s = s" by (cases s) auto
  moreover have "dropWhile is_space (rev s) = rev s"
    using s by (cases "rev s") (auto dest: arg_cong [where f = set])
  ultimately show ?thesis by (simp add: str_trim_def)
qed

subsection \<open>Decimal numbers\<close>

definition digit_char :: "nat \<Rightarrow> char" where
  "digit_char d = char_of (48 + d)"

definition digit_val :: "char \<Rightarrow> nat option" where
  "digit_val c = (let n = of_char c :: nat in if 48 \<le> n \<and> n \<le> 57 then Some (n - 48) else None)"

fun show_nat :: "nat \<Rightarrow> string" where
  "show_nat n = (if n < 10 then [digit_char n] else show_nat (n div 10) @ [digit_char (n mod 10)])"

declare show_nat.simps [simp del]

fun digits_val :: "nat \<Rightarrow> string \<Rightarrow> nat option" where
  "digits_val acc [] = Some acc"
| "digits_val acc (c # cs) =
     (case digit_val c of None \<Rightarrow> None | Some d \<Rightarrow> digits_val (acc * 10 + d) cs)"

text \<open>\<^verbatim>\<open>str::parse\<close> at an unsigned type whose largest value is \<open>mx\<close>.\<close>

definition parse_uint :: "nat \<Rightarrow> string \<Rightarrow> nat option" where
  "parse_uint mx s =
     (let body = (case s of c # cs \<Rightarrow> if c = CHR ''+'' then cs else s | [] \<Rightarrow> [])
      in if body = [] then None
         else case digits_val 0 body of
                None \<Rightarrow> None
              | Some v \<Rightarrow> if v \<le> mx then Some v else None)"

lemma digit_val_digit_char: "d < 10 \<Longrightarrow> digit_val (digit_char d) = Some d"
  by (simp add: digit_val_def digit_char_def Let_def)

lemma of_char_digit_char: "d < 10 \<Longrightarrow> (of_char (digit_char d) :: nat) = 48 + d"
  by (simp add: digit_char_def)

lemma digit_char_neq: "d < 10 \<Longrightarrow> (of_char c :: nat) < 48 \<or> 57 < (of_char c :: nat) \<Longrightarrow> digit_char d \<noteq> c"
  using of_char_digit_char [of d] by auto

lemma digit_char_sound:
  assumes "d < 10"
  shows "digit_char d \<noteq> CHR ''+''" and "digit_char d \<noteq> CHR '':''" and "digit_char d \<noteq> CHR '',''"
    and "digit_char d \<noteq> CHR ''-''" and "digit_char d \<noteq> CHR ''/''" and "\<not> is_space (digit_char d)"
  using assms by (simp_all add: digit_char_neq is_space_def)

lemma digits_val_append:
  "digits_val acc (s @ t) =
    (case digits_val acc s of None \<Rightarrow> None | Some v \<Rightarrow> digits_val v t)"
  by (induction s arbitrary: acc) (auto split: option.splits)

lemma digits_val_show_nat: "digits_val 0 (show_nat n) = Some n"
proof (induction n rule: show_nat.induct)
  case (1 n)
  show ?case
  proof (cases "n < 10")
    case True
    then show ?thesis by (simp add: show_nat.simps [of n] digit_val_digit_char)
  next
    case False
    with 1 have "digits_val 0 (show_nat (n div 10)) = Some (n div 10)" by simp
    with False show ?thesis
      by (simp add: show_nat.simps [of n] digits_val_append digit_val_digit_char)
  qed
qed

lemma show_nat_chars:
  "c \<in> set (show_nat n) \<Longrightarrow> \<exists>d<10. c = digit_char d"
proof (induction n rule: show_nat.induct)
  case (1 n)
  show ?case
  proof (cases "n < 10")
    case True
    with 1 show ?thesis by (auto simp: show_nat.simps [of n])
  next
    case False
    with 1 have "c \<in> set (show_nat (n div 10)) \<or> c = digit_char (n mod 10)"
      by (auto simp: show_nat.simps [of n])
    with False "1.IH" show ?thesis by (metis mod_less_divisor zero_less_numeral)
  qed
qed

lemma show_nat_neq_Nil [simp]: "show_nat n \<noteq> []"
  by (subst show_nat.simps) simp

lemma show_nat_clean:
  assumes "c \<in> set (show_nat n)"
  shows "c \<noteq> CHR ''+''" and "c \<noteq> CHR '':''" and "c \<noteq> CHR '',''"
    and "c \<noteq> CHR ''-''" and "c \<noteq> CHR ''/''" and "\<not> is_space c"
proof -
  obtain d where "d < 10" and "c = digit_char d" using show_nat_chars [OF assms] by blast
  then show "c \<noteq> CHR ''+''" "c \<noteq> CHR '':''" "c \<noteq> CHR '',''" "c \<noteq> CHR ''-''"
    "c \<noteq> CHR ''/''" "\<not> is_space c"
    using digit_char_sound [of d] by simp_all
qed

lemma parse_uint_show_nat: "n \<le> mx \<Longrightarrow> parse_uint mx (show_nat n) = Some n"
proof -
  assume "n \<le> mx"
  obtain c cs where s: "show_nat n = c # cs" by (cases "show_nat n") auto
  then have "c \<noteq> CHR ''+''" using show_nat_clean [of c n] by simp
  then have "(case show_nat n of c # cs \<Rightarrow> if c = CHR ''+'' then cs else show_nat n | [] \<Rightarrow> [])
      = show_nat n"
    by (simp add: s)
  with \<open>n \<le> mx\<close> show ?thesis
    unfolding parse_uint_def Let_def by (simp add: digits_val_show_nat)
qed

lemma parse_uint_bound: "parse_uint mx s = Some v \<Longrightarrow> v \<le> mx"
  by (auto simp: parse_uint_def Let_def split: if_splits option.splits)

text \<open>Signed numbers: the printer, and \<^verbatim>\<open>str::parse\<close> at \<^verbatim>\<open>i64\<close>.\<close>

definition show_int :: "int \<Rightarrow> string" where
  "show_int i = (if i < 0 then CHR ''-'' # show_nat (nat (- i)) else show_nat (nat i))"

definition parse_i64 :: "string \<Rightarrow> int option" where
  "parse_i64 s = (case s of
     c # cs \<Rightarrow> if c = CHR ''-'' then (if cs = [] then None else
         case digits_val 0 cs of None \<Rightarrow> None | Some v \<Rightarrow> if v \<le> 2 ^ 63 then Some (- int v) else None)
       else map_option int (parse_uint (2 ^ 63 - 1) s)
   | [] \<Rightarrow> None)"

lemma parse_show_int:
  assumes "- (2 ^ 63) \<le> i" and "i < 2 ^ 63"
  shows "parse_i64 (show_int i) = Some i"
proof (cases "i < 0")
  case True
  then have "nat (- i) \<le> 2 ^ 63" using assms(1) by (simp add: nat_le_iff)
  with True show ?thesis by (simp add: show_int_def parse_i64_def digits_val_show_nat)
next
  case False
  obtain c cs where s: "show_nat (nat i) = c # cs" by (cases "show_nat (nat i)") auto
  then have "c \<noteq> CHR ''-''" using show_nat_clean [of c "nat i"] by simp
  moreover have "nat i \<le> 2 ^ 63 - 1" using assms(2) by (simp add: nat_le_iff)
  then have "parse_uint (2 ^ 63 - 1) (show_nat (nat i)) = Some (nat i)" by (rule parse_uint_show_nat)
  ultimately show ?thesis using False s by (simp add: show_int_def parse_i64_def)
qed

section \<open>Keyed tables\<close>

text \<open>
  The contract of a table with removal: what a lookup returns after a removal, on states that
  satisfy the table's invariant. Its clients remove the members of a computed list of keys.
\<close>

locale keyed_table =
  fixes lookup :: "'s \<Rightarrow> 'k \<Rightarrow> 'v option"
    and remove :: "'k \<Rightarrow> 's \<Rightarrow> 's"
    and inv :: "'s \<Rightarrow> bool"
  assumes inv_remove: "inv s \<Longrightarrow> inv (remove k s)"
    and lookup_remove: "inv s \<Longrightarrow> lookup (remove k s) k' = (if k' = k then None else lookup s k')"
begin

lemma inv_remove_all: "inv s \<Longrightarrow> inv (fold remove ks s)"
  by (induction ks arbitrary: s) (simp_all add: inv_remove)

lemma lookup_remove_all:
  "inv s \<Longrightarrow> lookup (fold remove ks s) k = (if k \<in> set ks then None else lookup s k)"
  by (induction ks arbitrary: s) (simp_all add: inv_remove lookup_remove)

end

text \<open>
  The contract extended by an insertion that always succeeds.
\<close>

locale keyed_store = keyed_table lookup remove inv
  for lookup :: "'s \<Rightarrow> 'k \<Rightarrow> 'v option"
    and remove :: "'k \<Rightarrow> 's \<Rightarrow> 's"
    and inv :: "'s \<Rightarrow> bool" +
  fixes insert :: "'k \<Rightarrow> 'v \<Rightarrow> 's \<Rightarrow> 's"
  assumes inv_insert: "inv s \<Longrightarrow> inv (insert k v s)"
    and lookup_insert: "inv s \<Longrightarrow> lookup (insert k v s) k' = (if k' = k then Some v else lookup s k')"
begin

lemma inv_insert_all: "inv s \<Longrightarrow> inv (fold (\<lambda>(k, v). insert k v) kvs s)"
  by (induction kvs arbitrary: s) (auto simp: inv_insert)

lemma lookup_insert_all:
  "inv s \<Longrightarrow> lookup (fold (\<lambda>(k, v). insert k v) kvs s) k =
    (case map_of (rev kvs) k of Some v \<Rightarrow> Some v | None \<Rightarrow> lookup s k)"
proof (induction kvs arbitrary: s)
  case Nil
  then show ?case by simp
next
  case (Cons kv kvs)
  obtain k0 v0 where kv: "kv = (k0, v0)" by (cases kv)
  have "lookup (fold (\<lambda>(k, v). insert k v) kvs (insert k0 v0 s)) k =
      (case map_of (rev kvs) k of Some v \<Rightarrow> Some v | None \<Rightarrow> lookup (insert k0 v0 s) k)"
    using Cons.prems by (intro Cons.IH inv_insert)
  with Cons.prems show ?case
    by (auto simp: kv lookup_insert map_add_def split: option.splits)
qed

end

interpretation hmap_store: keyed_store hm_get hm_remove hm_wf hm_insert
  by unfold_locales (auto split: if_splits)

section \<open>Machines driven by operations\<close>

text \<open>
  A component whose public operations are the constructors of \<open>'op\<close>: an invariant that
  holds of the initial states and that every operation keeps holds after every sequence of
  operations. Each stateful component interprets this locale on its own operations.
\<close>

locale op_machine =
  fixes init :: "'s \<Rightarrow> bool"
    and step :: "'op \<Rightarrow> 's \<Rightarrow> 's"
    and inv :: "'s \<Rightarrow> bool"
  assumes inv_init: "init s \<Longrightarrow> inv s"
    and inv_step: "inv s \<Longrightarrow> inv (step p s)"
begin

lemma inv_steps: "inv s \<Longrightarrow> inv (fold step ps s)"
  by (induction ps arbitrary: s) (auto intro: inv_step)

lemma inv_run: "init s \<Longrightarrow> inv (fold step ps s)"
  by (intro inv_steps inv_init)

lemma inv_prefix: "init s \<Longrightarrow> inv (fold step (take n ps) s)"
  by (rule inv_run)

end

end
