(* ===== verification/Cid.thy ===== *)
theory Cid
  imports Prelude
begin

unbundle bit_operations_syntax

text \<open>
  Self-describing content identifiers: \<^verbatim>\<open>a3net-types/src/multihash_local.rs\<close> (hash codes,
  multihashes and their variable-length integers) and \<^verbatim>\<open>a3net-types/src/cid.rs\<close> (codecs,
  CIDs of version 0 and 1, their binary and text forms, Base58 and Base32).
  \<^item> A multihash is a record of its \<^verbatim>\<open>u64\<close> code and its digest; a CID adds the version byte and
    the codec. Both decoders of variable-length integers are modelled, since the two files
    differ: the one of the multihash reads at most nine bytes, the one of the CID reads on and
    shifts by the amount modulo 64, as a release build does.
  \<^item> Parameters: the BLAKE3 and SHA-256 functions, \<^verbatim>\<open>hex::decode\<close> and \<^verbatim>\<open>base32::decode\<close>.
  \<^item> A panic (\<^verbatim>\<open>expect\<close>, \<^verbatim>\<open>unwrap\<close>) is \<open>None\<close>. Text is the list of its bytes.
  The lemmas: the integers decode to what was encoded and both loops end; multihashes and CIDs
  come back from their bytes; Base58 inverts on data without a leading zero; the text of a CID
  of version 0 is 46 characters starting with \<open>Qm\<close> and parses back to it.
\<close>

section \<open>Hash codes\<close>

datatype multihash_error = DigestTooShort nat nat | InvalidEncoding | InvalidCode u64
  | UnsupportedHash | InvalidDigest

datatype hash_code = Identity | Sha256 | Sha512 | Blake3 | Sha1 | Md5

fun HashCode_digest_len :: "hash_code \<Rightarrow> nat" where
  "HashCode_digest_len Identity = 32"
| "HashCode_digest_len Sha256 = 32"
| "HashCode_digest_len Sha512 = 64"
| "HashCode_digest_len Blake3 = 32"
| "HashCode_digest_len Sha1 = 20"
| "HashCode_digest_len Md5 = 16"

definition HashCode_from_u64 :: "u64 \<Rightarrow> hash_code option" where
  "HashCode_from_u64 code =
    (if code = 0x00 then Some Identity else if code = 0x11 then Some Sha1
     else if code = 0x12 then Some Sha256 else if code = 0x13 then Some Sha512
     else if code = 0xd5 then Some Md5 else if code = 0x1e then Some Blake3 else None)"

fun HashCode_to_u64 :: "hash_code \<Rightarrow> u64" where
  "HashCode_to_u64 Identity = 0x00"
| "HashCode_to_u64 Sha256 = 0x12"
| "HashCode_to_u64 Sha512 = 0x13"
| "HashCode_to_u64 Blake3 = 0x1e"
| "HashCode_to_u64 Sha1 = 0x11"
| "HashCode_to_u64 Md5 = 0xd5"

fun HashCode_name :: "hash_code \<Rightarrow> string" where
  "HashCode_name Identity = ''identity''"
| "HashCode_name Sha256 = ''sha2-256''"
| "HashCode_name Sha512 = ''sha2-512''"
| "HashCode_name Blake3 = ''blake3''"
| "HashCode_name Sha1 = ''sha1''"
| "HashCode_name Md5 = ''md5''"

definition HashCode_from_name :: "string \<Rightarrow> hash_code option" where
  "HashCode_from_name name =
    (if name = ''identity'' then Some Identity
     else if name = ''sha2-256'' \<or> name = ''sha256'' then Some Sha256
     else if name = ''sha2-512'' \<or> name = ''sha512'' then Some Sha512
     else if name = ''blake3'' then Some Blake3
     else if name = ''sha1'' then Some Sha1
     else if name = ''md5'' then Some Md5 else None)"

lemma HashCode_from_to [simp]: "HashCode_from_u64 (HashCode_to_u64 c) = Some c"
  by (cases c) (simp_all add: HashCode_from_u64_def)

lemma HashCode_from_name_name: "HashCode_from_name (HashCode_name c) = Some c"
  by (cases c) (simp_all add: HashCode_from_name_def)

section \<open>Variable-length integers\<close>

function encode_varint :: "u64 \<Rightarrow> bytes \<Rightarrow> bytes" where
  "encode_varint v acc =
    (let byte = (ucast (v AND 0x7f) :: u8); v' = drop_bit 7 v
     in if v' = 0 then acc @ [byte] else encode_varint v' (acc @ [byte OR 0x80]))"
  by auto

lemma unat_drop7: "unat (drop_bit 7 (v :: u64)) = unat v div 128"
  by (simp add: drop_bit_eq_div unat_div_distrib)

termination encode_varint
proof (relation "measure (\<lambda>(v, _). unat v)")
  fix v :: u64 and acc :: bytes and x :: u8 and xa
  assume "xa = drop_bit 7 v" and "xa \<noteq> 0"
  then have "unat v div 128 \<noteq> 0" by (metis unat_drop7 unat_eq_zero)
  then have "unat v div 128 < unat v" by (intro div_less_dividend) (auto intro: gr0I)
  with \<open>xa = drop_bit 7 v\<close> show "((xa, acc @ [x OR 0x80]), (v, acc)) \<in> measure (\<lambda>(v, _). unat v)"
    by (simp add: unat_drop7)
qed simp

declare encode_varint.simps [simp del]

fun decode_varint_loop :: "bytes \<Rightarrow> u64 \<Rightarrow> nat \<Rightarrow> nat \<Rightarrow> u64 \<times> nat" where
  "decode_varint_loop [] result shift len = (0, 0)"
| "decode_varint_loop (byte # bs) result shift len =
    (let result' = result OR push_bit shift (ucast (byte AND 0x7f))
     in if byte AND 0x80 = 0 then (result', len + 1)
        else decode_varint_loop bs result' (shift + 7) (len + 1))"

definition decode_varint :: "bytes \<Rightarrow> u64 \<times> nat" where
  "decode_varint bytes = decode_varint_loop (take 9 bytes) 0 0 0"

definition varint_len :: "u64 \<Rightarrow> nat" where
  "varint_len value =
    (if value < 0x80 then 1 else if value < 0x4000 then 2 else if value < 0x200000 then 3
     else if value < 0x10000000 then 4 else 5)"

text \<open>The decoder of \<^verbatim>\<open>cid.rs\<close>: no limit on the number of bytes, and data that ends inside an
  integer is no error. The amount of a shift is taken modulo 64.\<close>

fun Cid_decode_loop :: "bytes \<Rightarrow> nat \<Rightarrow> u64 \<Rightarrow> nat \<Rightarrow> u64 \<times> nat" where
  "Cid_decode_loop [] i result consumed = (result, consumed)"
| "Cid_decode_loop (b # bs) i result consumed =
    (let result' = result OR push_bit (i * 7 mod 64) (ucast (b AND 0x7f))
     in if b AND 0x80 = 0 then (result', i + 1)
        else Cid_decode_loop bs (i + 1) result' (i + 1))"

definition Cid_decode_varint :: "bytes \<Rightarrow> u64 \<times> nat" where
  "Cid_decode_varint data = Cid_decode_loop data 0 0 0"

section \<open>Multihashes\<close>

record multihash =
  mh_code :: u64
  mh_digest :: bytes

definition Multihash_new :: "hash_code \<Rightarrow> bytes \<Rightarrow> (multihash_error, multihash) result" where
  "Multihash_new code digest =
    (let expected_len = HashCode_digest_len code
     in if length digest \<noteq> expected_len then Inl (DigestTooShort expected_len (length digest))
        else Inr \<lparr>mh_code = HashCode_to_u64 code, mh_digest = digest\<rparr>)"

definition Multihash_from_bytes :: "bytes \<Rightarrow> (multihash_error, multihash) result" where
  "Multihash_from_bytes bytes =
    (if length bytes < 2 then Inl InvalidEncoding
     else let (code, code_len) = decode_varint bytes
     in if code_len = 0 \<or> length bytes \<le> code_len then Inl InvalidEncoding
     else let (len, len_len) = decode_varint (drop code_len bytes)
     in if len_len = 0 \<or> length bytes < code_len + len_len + unat len then Inl InvalidEncoding
     else let digest_start = code_len + len_len
     in Inr \<lparr>mh_code = code, mh_digest = take (unat len) (drop digest_start bytes)\<rparr>)"

definition Multihash_to_bytes :: "multihash \<Rightarrow> bytes" where
  "Multihash_to_bytes m =
    encode_varint (of_nat (length (mh_digest m))) (encode_varint (mh_code m) []) @ mh_digest m"

definition Multihash_code_typed :: "multihash \<Rightarrow> hash_code option" where
  "Multihash_code_typed m = HashCode_from_u64 (mh_code m)"

definition Multihash_name :: "multihash \<Rightarrow> string option" where
  "Multihash_name m = map_option HashCode_name (Multihash_code_typed m)"

definition Multihash_encoded_len :: "multihash \<Rightarrow> nat" where
  "Multihash_encoded_len m =
    varint_len (mh_code m) + varint_len (of_nat (length (mh_digest m))) + length (mh_digest m)"

definition Multihash_from_blake3 :: "bytes \<Rightarrow> (multihash_error, multihash) result" where
  "Multihash_from_blake3 digest = Multihash_new Blake3 digest"

definition Multihash_from_sha256 :: "bytes \<Rightarrow> (multihash_error, multihash) result" where
  "Multihash_from_sha256 digest = Multihash_new Sha256 digest"

text \<open>\<^verbatim>\<open>sha256\<close> and \<^verbatim>\<open>blake3_hash\<close> unwrap the result of \<^verbatim>\<open>Multihash::new\<close>.\<close>

definition unwrap :: "('e, 'a) result \<Rightarrow> 'a option" where
  "unwrap r = (case r of Inl _ \<Rightarrow> None | Inr x \<Rightarrow> Some x)"

definition sha256_multihash :: "(bytes \<Rightarrow> bytes) \<Rightarrow> bytes \<Rightarrow> multihash option" where
  "sha256_multihash sha bytes = unwrap (Multihash_new Sha256 (sha bytes))"

definition blake3_hash :: "(bytes \<Rightarrow> bytes) \<Rightarrow> bytes \<Rightarrow> multihash option" where
  "blake3_hash H bytes = unwrap (Multihash_new Blake3 (H bytes))"

section \<open>Base58 and Base32\<close>

datatype cid_error = InvalidFormat | UnsupportedVersion u8 | InvalidCodec u64
  | MultihashErr multihash_error | InvalidBase58 | Cidv0NotSha256 | NotBlake3
  | UnsupportedContentCodec u64

definition BASE58_ALPHABET :: string where
  "BASE58_ALPHABET = ''123456789ABCDEFGHJKLMNPQRSTUVWXYZabcdefghijkmnopqrstuvwxyz''"

definition BASE58_VALUES :: "(char \<times> int) list" where
  "BASE58_VALUES = [
    (CHR ''1'', 0), (CHR ''2'', 1), (CHR ''3'', 2), (CHR ''4'', 3), (CHR ''5'', 4), (CHR ''6'', 5),
    (CHR ''7'', 6), (CHR ''8'', 7), (CHR ''9'', 8), (CHR ''A'', 9), (CHR ''B'', 10), (CHR ''C'', 11),
    (CHR ''D'', 12), (CHR ''E'', 13), (CHR ''F'', 14), (CHR ''G'', 15), (CHR ''H'', 16), (CHR ''J'', 17),
    (CHR ''K'', 18), (CHR ''L'', 19), (CHR ''M'', 20), (CHR ''N'', 21), (CHR ''P'', 22), (CHR ''Q'', 23),
    (CHR ''R'', 24), (CHR ''S'', 25), (CHR ''T'', 26), (CHR ''U'', 27), (CHR ''V'', 28), (CHR ''W'', 29),
    (CHR ''X'', 30), (CHR ''Y'', 31), (CHR ''Z'', 32), (CHR ''a'', 33), (CHR ''b'', 34), (CHR ''c'', 35),
    (CHR ''d'', 36), (CHR ''e'', 37), (CHR ''f'', 38), (CHR ''g'', 39), (CHR ''h'', 40), (CHR ''i'', 41),
    (CHR ''j'', 42), (CHR ''k'', 43), (CHR ''m'', 44), (CHR ''n'', 45), (CHR ''o'', 46), (CHR ''p'', 47),
    (CHR ''q'', 48), (CHR ''r'', 49), (CHR ''s'', 50), (CHR ''t'', 51), (CHR ''u'', 52), (CHR ''v'', 53),
    (CHR ''w'', 54), (CHR ''x'', 55), (CHR ''y'', 56), (CHR ''z'', 57)]"

definition char_to_val :: "char \<Rightarrow> int" where
  "char_to_val c = (case map_of BASE58_VALUES c of Some v \<Rightarrow> v | None \<Rightarrow> - 1)"

text \<open>The inner loop runs from the last byte to the first and leaves a carry.\<close>

fun mul58_add :: "bytes \<Rightarrow> nat \<Rightarrow> bytes \<times> nat" where
  "mul58_add [] carry = ([], carry)"
| "mul58_add (b # bs) carry =
    (let (bs', c) = mul58_add bs carry; c' = c + unat b * 58
     in (of_nat (c' mod 256) # bs', c' div 256))"

fun push_carry :: "nat \<Rightarrow> bytes \<Rightarrow> bytes" where
  "push_carry carry result =
    (if 0 < carry then push_carry (carry div 256) (of_nat (carry mod 256) # result) else result)"

declare push_carry.simps [simp del]

definition decode_base58_char :: "char \<Rightarrow> bytes \<Rightarrow> (cid_error, bytes) result" where
  "decode_base58_char c result =
    (let val = char_to_val c
     in if val < 0 then Inl InvalidBase58
        else let (result', carry) = mul58_add result (nat val) in Inr (push_carry carry result'))"

definition decode_base58 :: "string \<Rightarrow> (cid_error, bytes) result" where
  "decode_base58 s =
    (if s = [] then Inr []
     else let leading_ones = length (takeWhile (\<lambda>c. c = CHR ''1'') s);
              s_without_ones = drop leading_ones s
     in if s_without_ones = [] then Inr (replicate leading_ones 0)
        else (case fold_result decode_base58_char s_without_ones [0] of
            Inl e \<Rightarrow> Inl e
          | Inr result \<Rightarrow> Inr (replicate leading_ones 0 @ result)))"

text \<open>One pass of the long division: the quotient bytes and the remainder. The carry, a
  \<^verbatim>\<open>u64\<close>, stays below \<open>58 * 256\<close>.\<close>

fun div58 :: "bytes \<Rightarrow> nat \<Rightarrow> bytes \<times> nat" where
  "div58 [] carry = ([], carry)"
| "div58 (b # bs) carry =
    (let c = carry * 256 + unat b; (q, r) = div58 bs (c mod 58)
     in (of_nat (c div 58) # q, r))"

definition strip_zeros :: "bytes \<Rightarrow> bytes" where
  "strip_zeros bs = dropWhile (\<lambda>b. b = 0) bs"

lemma length_div58 [simp]: "length (fst (div58 bs c)) = length bs"
  by (induction bs arbitrary: c) (simp_all add: Let_def case_prod_beta)

lemma long_division_step:
  "d * 58 + m = n \<Longrightarrow> q * 58 + r = m * p + v \<Longrightarrow> (d * p + q) * 58 + r = n * p + (v :: nat)"
  by (auto simp: algebra_simps)

lemma div58_value:
  "c < 58 \<Longrightarrow> be_nat (fst (div58 bs c)) * 58 + snd (div58 bs c) = c * 256 ^ length bs + be_nat bs
    \<and> snd (div58 bs c) < 58"
proof (induction bs arbitrary: c)
  case (Cons b bs)
  let ?n = "c * 256 + unat b" and ?p = "(256 :: nat) ^ length bs"
  from Cons.prems unat_bound [of b] have "?n div 58 < 256" by simp
  then have q: "unat (of_nat (?n div 58) :: u8) = ?n div 58" by (simp add: unat_of_nat_small)
  from Cons.IH [of "?n mod 58"]
  have ih: "be_nat (fst (div58 bs (?n mod 58))) * 58 + snd (div58 bs (?n mod 58)) = ?n mod 58 * ?p + be_nat bs"
    and r: "snd (div58 bs (?n mod 58)) < 58" by simp_all
  from long_division_step [OF div_mult_mod_eq ih]
  have "(?n div 58 * ?p + be_nat (fst (div58 bs (?n mod 58)))) * 58 + snd (div58 bs (?n mod 58))
      = ?n * ?p + be_nat bs" .
  with r q show ?case by (simp add: Let_def case_prod_beta add_mult_distrib mult.assoc)
qed simp

lemma be_nat_strip_zeros [simp]: "be_nat (strip_zeros bs) = be_nat bs"
  unfolding strip_zeros_def by (induction bs) simp_all

lemma strip_zeros_le: "length (strip_zeros bs) \<le> length bs"
  unfolding strip_zeros_def by (rule length_dropWhile_le)

lemma strip_zeros_Nil: "strip_zeros bs = [] \<longleftrightarrow> be_nat bs = 0"
  by (simp add: strip_zeros_def be_nat_zero dropWhile_eq_Nil_conv)

function base58_digits :: "bytes \<Rightarrow> string \<Rightarrow> string" where
  "base58_digits num result =
    (if num = [] then result
     else let (quotient, carry) = div58 num 0
     in base58_digits (strip_zeros quotient) (result @ [BASE58_ALPHABET ! carry]))"
  by auto

lemma div58_decreases:
  assumes "num \<noteq> []"
  shows "be_nat (strip_zeros (fst (div58 num 0))) + length (strip_zeros (fst (div58 num 0))) < be_nat num + length num"
proof (cases "be_nat num = 0")
  case True
  then have "be_nat (fst (div58 num 0)) = 0" using div58_value [of 0 num] by simp
  then have "strip_zeros (fst (div58 num 0)) = []" by (simp add: strip_zeros_Nil)
  with assms True show ?thesis by simp
next
  case False
  then have "be_nat (fst (div58 num 0)) < be_nat num" using div58_value [of 0 num] by simp
  moreover have "length (strip_zeros (fst (div58 num 0))) \<le> length num"
    using strip_zeros_le [of "fst (div58 num 0)"] by simp
  ultimately show ?thesis by simp
qed

termination base58_digits
proof (relation "measure (\<lambda>(num, _). be_nat num + length num)")
  fix num :: bytes and result x xa y
  assume "num \<noteq> []" and "x = div58 num 0" and "(xa, y) = x"
  then have "xa = fst (div58 num 0)" and "num \<noteq> []" by (metis fst_conv)+
  then show "((strip_zeros xa, result @ [BASE58_ALPHABET ! y]), (num, result))
      \<in> measure (\<lambda>(num, _). be_nat num + length num)"
    using div58_decreases [of num] by simp
qed simp

declare base58_digits.simps [simp del]

definition encode_base58 :: "bytes \<Rightarrow> string" where
  "encode_base58 data =
    (if data = [] then []
     else let zeros = takeWhile (\<lambda>b. b = 0) data; num = drop (length zeros) data
     in rev (base58_digits num (replicate (length zeros) (CHR ''1''))))"

definition BASE32_ALPHABET :: string where
  "BASE32_ALPHABET = ''abcdefghijklmnopqrstuvwxyz234567''"

fun base32_drain :: "u32 \<Rightarrow> nat \<Rightarrow> string \<Rightarrow> nat \<times> string" where
  "base32_drain bits bit_count result =
    (if 5 \<le> bit_count
     then base32_drain bits (bit_count - 5)
       (result @ [BASE32_ALPHABET ! unat (drop_bit (bit_count - 5) bits AND 0x1F)])
     else (bit_count, result))"

declare base32_drain.simps [simp del]

fun base32_loop :: "bytes \<Rightarrow> u32 \<Rightarrow> nat \<Rightarrow> string \<Rightarrow> string" where
  "base32_loop [] bits bit_count result =
    (if 0 < bit_count
     then result @ [BASE32_ALPHABET ! unat (push_bit (5 - bit_count) bits AND 0x1F)] else result)"
| "base32_loop (b # bs) bits bit_count result =
    (let bits' = push_bit 8 bits OR ucast b; (bit_count', result') = base32_drain bits' (bit_count + 8) result
     in base32_loop bs bits' bit_count' result')"

definition encode_base32 :: "bytes \<Rightarrow> string" where
  "encode_base32 data = base32_loop data 0 0 []"

section \<open>Content identifiers\<close>

datatype codec = DagPb | DagCbor | Raw | DagJson

fun Codec_code :: "codec \<Rightarrow> u64" where
  "Codec_code DagPb = 0x70"
| "Codec_code DagCbor = 0x71"
| "Codec_code Raw = 0x55"
| "Codec_code DagJson = 0x85"

definition Codec_from_code :: "u64 \<Rightarrow> codec option" where
  "Codec_from_code code =
    (if code = 0x55 then Some Raw else if code = 0x70 then Some DagPb
     else if code = 0x71 then Some DagCbor else if code = 0x85 then Some DagJson else None)"

fun Codec_name :: "codec \<Rightarrow> string" where
  "Codec_name DagPb = ''dag-pb''"
| "Codec_name DagCbor = ''dag-cbor''"
| "Codec_name Raw = ''raw''"
| "Codec_name DagJson = ''dag-json''"

definition Codec_from_name :: "string \<Rightarrow> codec option" where
  "Codec_from_name name =
    (if name = ''dag-pb'' \<or> name = ''protobuf'' then Some DagPb
     else if name = ''dag-cbor'' \<or> name = ''cbor'' then Some DagCbor
     else if name = ''raw'' then Some Raw
     else if name = ''dag-json'' \<or> name = ''json'' then Some DagJson else None)"

datatype version = V0 | V1

fun Version_code :: "version \<Rightarrow> u8" where
  "Version_code V0 = 0"
| "Version_code V1 = 1"

record cid =
  cid_version :: u8
  cid_codec :: u64
  cid_multihash :: multihash

definition Cid_new_v0 :: "multihash \<Rightarrow> (cid_error, cid) result" where
  "Cid_new_v0 mh =
    (if mh_code mh \<noteq> HashCode_to_u64 Sha256 then Inl Cidv0NotSha256
     else Inr \<lparr>cid_version = 0, cid_codec = 0, cid_multihash = mh\<rparr>)"

definition Cid_new_v1 :: "codec \<Rightarrow> multihash \<Rightarrow> cid" where
  "Cid_new_v1 cd mh = \<lparr>cid_version = 1, cid_codec = Codec_code cd, cid_multihash = mh\<rparr>"

definition Cid_new_v1_dag_pb :: "multihash \<Rightarrow> cid" where
  "Cid_new_v1_dag_pb mh = Cid_new_v1 DagPb mh"

definition Cid_new_v1_dag_cbor :: "multihash \<Rightarrow> cid" where
  "Cid_new_v1_dag_cbor mh = Cid_new_v1 DagCbor mh"

definition Cid_new_v1_raw :: "multihash \<Rightarrow> cid" where
  "Cid_new_v1_raw mh = Cid_new_v1 Raw mh"

text \<open>The part \<^verbatim>\<open>from_bytes\<close> and \<^verbatim>\<open>from_v1_str\<close> share, after the version byte is known to be 1.\<close>

definition Cid_v1_body :: "bytes \<Rightarrow> (cid_error, cid) result" where
  "Cid_v1_body bytes =
    (if length bytes < 3 then Inl InvalidFormat
     else let (cd, codec_len) = Cid_decode_varint (drop 1 bytes)
     in if codec_len = 0 then Inl InvalidFormat
     else (case Multihash_from_bytes (drop (1 + codec_len) bytes) of
         Inl e \<Rightarrow> Inl (MultihashErr e)
       | Inr mh \<Rightarrow> Inr \<lparr>cid_version = 1, cid_codec = cd, cid_multihash = mh\<rparr>))"

definition Cid_from_bytes :: "bytes \<Rightarrow> (cid_error, cid) result" where
  "Cid_from_bytes bytes =
    (if bytes = [] then Inl InvalidFormat
     else if bytes ! 0 = 0
     then (case Multihash_from_bytes (drop 1 bytes) of
         Inl e \<Rightarrow> Inl (MultihashErr e)
       | Inr mh \<Rightarrow> Cid_new_v0 mh)
     else if bytes ! 0 \<noteq> 1 then Inl (UnsupportedVersion (bytes ! 0))
     else Cid_v1_body bytes)"

definition Cid_from_content_hash :: "bytes \<Rightarrow> cid option" where
  "Cid_from_content_hash hash_bytes =
    map_option (\<lambda>mh. \<lparr>cid_version = 1, cid_codec = Codec_code Raw, cid_multihash = mh\<rparr>)
      (unwrap (Multihash_from_blake3 hash_bytes))"

definition Cid_from_content_blake3 :: "(bytes \<Rightarrow> bytes) \<Rightarrow> bytes \<Rightarrow> cid option" where
  "Cid_from_content_blake3 H data = Cid_from_content_hash (H data)"

definition Cid_from_content_blake3_with_codec :: "(bytes \<Rightarrow> bytes) \<Rightarrow> bytes \<Rightarrow> codec \<Rightarrow> cid option" where
  "Cid_from_content_blake3_with_codec H data cd =
    map_option (Cid_new_v1 cd) (unwrap (Multihash_from_blake3 (H data)))"

definition Cid_from_content_sha256 :: "(bytes \<Rightarrow> bytes) \<Rightarrow> bytes \<Rightarrow> cid option" where
  "Cid_from_content_sha256 sha data =
    map_option (\<lambda>h. case Cid_new_v0 h of Inr c \<Rightarrow> c | Inl _ \<Rightarrow> Cid_new_v1 DagPb h)
      (sha256_multihash sha data)"

definition Cid_from_v0_str :: "string \<Rightarrow> (cid_error, cid) result" where
  "Cid_from_v0_str s =
    (if length s \<noteq> 46 then Inl InvalidFormat
     else case decode_base58 s of
       Inl e \<Rightarrow> Inl e
     | Inr bytes \<Rightarrow>
         (case Multihash_from_bytes bytes of
            Inl e \<Rightarrow> Inl (MultihashErr e)
          | Inr mh \<Rightarrow>
              if mh_code mh \<noteq> HashCode_to_u64 Sha256 then Inl Cidv0NotSha256
              else Inr \<lparr>cid_version = 0, cid_codec = 0, cid_multihash = mh\<rparr>))"

definition starts_with :: "string \<Rightarrow> string \<Rightarrow> bool" where
  "starts_with s p = (take (length p) s = p)"

definition Cid_from_v1_str :: "(string \<Rightarrow> bytes option) \<Rightarrow> string \<Rightarrow> (cid_error, cid) result" where
  "Cid_from_v1_str b32 s =
    (let text = (if starts_with s ''bafy'' \<or> starts_with s ''bagy'' \<or> starts_with s ''baer''
                   \<or> starts_with s ''baga'' then drop 4 s
                 else if starts_with s ''b'' \<and> 4 < length s then drop 1 s else s)
     in case b32 text of
          None \<Rightarrow> Inl InvalidBase58
        | Some bytes \<Rightarrow>
            if bytes = [] then Inl InvalidFormat
            else if bytes ! 0 \<noteq> 1 then Inl (UnsupportedVersion (bytes ! 0))
            else Cid_v1_body bytes)"

definition Cid_to_bytes :: "cid \<Rightarrow> bytes" where
  "Cid_to_bytes c =
    (if cid_version c = 0 then Multihash_to_bytes (cid_multihash c)
     else encode_varint (cid_codec c) [1] @ Multihash_to_bytes (cid_multihash c))"

definition Cid_to_v0_string :: "cid \<Rightarrow> string option" where
  "Cid_to_v0_string c =
    (if cid_version c = 0 then Some (encode_base58 (Multihash_to_bytes (cid_multihash c)))
     else if mh_code (cid_multihash c) = HashCode_to_u64 Sha256
     then Some (encode_base58 (Multihash_to_bytes (cid_multihash c))) else None)"

definition Cid_parse ::
  "(string \<Rightarrow> bytes option) \<Rightarrow> (string \<Rightarrow> bytes option) \<Rightarrow> string \<Rightarrow> (cid_error, cid) result"
where
  "Cid_parse hexd b32 s =
    (if starts_with s ''Qm'' \<and> length s = 46 then Cid_from_v0_str s
     else if starts_with s ''bafy'' \<or> starts_with s ''bagy'' \<or> starts_with s ''baer''
     then Cid_from_v1_str b32 s
     else case (case hexd s of None \<Rightarrow> Inl InvalidFormat | Some bytes \<Rightarrow> Cid_from_bytes bytes) of
         Inr c \<Rightarrow> Inr c
       | Inl _ \<Rightarrow> Cid_from_v1_str b32 s)"

definition Cid_get_version :: "cid \<Rightarrow> version" where
  "Cid_get_version c = (if cid_version c = 0 then V0 else V1)"

definition Cid_get_codec :: "cid \<Rightarrow> codec option" where
  "Cid_get_codec c = Codec_from_code (cid_codec c)"

definition Cid_verify_content :: "(bytes \<Rightarrow> bytes) \<Rightarrow> cid \<Rightarrow> bytes \<Rightarrow> bool" where
  "Cid_verify_content H c content =
    (let stored_digest = mh_digest (cid_multihash c); computed_digest = H content;
         compare_len = min (length stored_digest) (length computed_digest)
     in take compare_len stored_digest = take compare_len computed_digest)"

definition Cid_is_v0 :: "cid \<Rightarrow> bool" where
  "Cid_is_v0 c = (cid_version c = 0)"

definition Cid_is_v1 :: "cid \<Rightarrow> bool" where
  "Cid_is_v1 c = (cid_version c = 1)"

definition Cid_display :: "cid \<Rightarrow> string" where
  "Cid_display c =
    (case Cid_to_v0_string c of
       Some v0 \<Rightarrow> v0
     | None \<Rightarrow> ''bafy'' @ encode_base32 (Cid_to_bytes c))"

section \<open>Lemmas: variable-length integers\<close>

lemma encode_varint_acc: "encode_varint v acc = acc @ encode_varint v []"
proof (induction "unat v" arbitrary: v acc rule: less_induct)
  case less
  show ?case
  proof (cases "drop_bit 7 v = 0")
    case False
    then have "unat v div 128 \<noteq> 0" by (metis unat_drop7 unat_eq_zero)
    then have "unat (drop_bit 7 v) < unat v" by (auto simp: unat_drop7)
    note ih = less [OF this]
    from False show ?thesis
      by (subst (1 2) encode_varint.simps) (simp add: Let_def ih [of "acc @ x" for x] ih [of "[x]" for x])
  qed (simp add: encode_varint.simps)
qed

lemma encode_varint_last: "drop_bit 7 v = 0 \<Longrightarrow> encode_varint v [] = [ucast (v AND 0x7f)]"
  by (simp add: encode_varint.simps)

lemma encode_varint_more:
  "drop_bit 7 v \<noteq> 0 \<Longrightarrow>
    encode_varint v [] = (ucast (v AND 0x7f) OR 0x80) # encode_varint (drop_bit 7 v) []"
  by (subst encode_varint.simps) (simp add: Let_def encode_varint_acc [of _ "[x]" for x])

lemma mask7: "(0x7f :: 'a :: len word) = mask 7"
  by (simp add: mask_eq_exp_minus_1)

lemma bit_0x80: "bit (0x80 :: 'a :: len word) n \<longleftrightarrow> n = 7 \<and> 7 < LENGTH('a)"
proof -
  have "bit (2 ^ 7 :: 'a word) n \<longleftrightarrow> n = 7 \<and> 7 < LENGTH('a)"
    by (auto simp only: bit_exp_iff) (simp_all add: possible_bit_def)
  then show ?thesis by simp
qed

lemma or_0x80_and: "((b :: u8) OR 0x80) AND 0x7f = b AND 0x7f" "(b AND 0x7f) AND 0x80 = 0"
  by (simp_all add: bit.conj_disj_distrib2 and.assoc)

lemma low_seven: "(ucast (v AND 0x7f) :: u8) = ucast (v AND 0x7f :: u64) AND 0x7f"
  "(ucast (ucast (v AND 0x7f) AND 0x7f :: u8) :: u64) = v AND 0x7f"
  unfolding mask7 by (rule bit_eqI; auto simp: bit_simps)+

lemma seven_bits:
  "(ucast (ucast (v AND 0x7f) AND 0x7f :: u8) :: u64) = v AND 0x7f"
  "(ucast ((ucast (v AND 0x7f) OR 0x80) AND 0x7f :: u8) :: u64) = v AND 0x7f"
  "(ucast (v AND 0x7f) :: u8) AND 0x80 = 0"
  by (simp_all only: low_seven(2) or_0x80_and(1)) (subst low_seven(1), rule or_0x80_and(2))

lemma continuation_bit: "((b :: u8) OR 0x80) AND 0x80 \<noteq> 0"
proof
  assume "(b OR 0x80) AND 0x80 = 0"
  then have "\<not> bit ((b OR 0x80) AND 0x80) 7" by simp
  then show False by (simp add: bit_0x80 bit_simps)
qed

lemma split_seven_bits: "push_bit n (v AND 0x7f) OR push_bit (n + 7) (drop_bit 7 v) = push_bit n (v :: u64)"
proof (rule bit_eqI)
  fix m
  have "7 + (m - (n + 7)) = m - n" if "\<not> m - n < 7" using that by simp
  then show "bit (push_bit n (v AND 0x7f) OR push_bit (n + 7) (drop_bit 7 v)) m = bit (push_bit n v) m"
    unfolding mask7 by (cases "m - n < 7") (auto simp: bit_simps)
qed

text \<open>Both decoders, started anywhere in an integer, read the rest of its encoding.\<close>

lemma decode_encode_loop:
  "decode_varint_loop (encode_varint v [] @ rest) result shift len =
    (result OR push_bit shift v, len + length (encode_varint v []))"
proof (induction "unat v" arbitrary: v result shift len rule: less_induct)
  case less
  show ?case
  proof (cases "drop_bit 7 v = 0")
    case True
    then show ?thesis using split_seven_bits [of shift v]
      by (simp add: encode_varint_last seven_bits)
  next
    case False
    then have "unat v div 128 \<noteq> 0" by (metis unat_drop7 unat_eq_zero)
    then have "unat (drop_bit 7 v) < unat v" by (auto simp: unat_drop7)
    from less [OF this] False show ?thesis using split_seven_bits [of shift v]
      by (simp add: encode_varint_more seven_bits continuation_bit Let_def or.assoc)
  qed
qed

lemma length_encode_varint: "unat v < 128 ^ Suc k \<Longrightarrow> length (encode_varint v []) \<le> Suc k"
proof (induction k arbitrary: v)
  case 0
  then have "drop_bit 7 v = 0" by (simp add: unat_drop7 flip: unat_eq_zero)
  then show ?case by (simp add: encode_varint_last)
next
  case (Suc k)
  then have "unat (drop_bit 7 v) < 128 ^ Suc k" by (simp add: unat_drop7 less_mult_imp_div_less mult.commute)
  from Suc.IH [OF this] show ?case
    by (cases "drop_bit 7 v = 0") (simp_all add: encode_varint_last encode_varint_more)
qed

lemma encode_varint_neq_Nil [simp]: "encode_varint v [] \<noteq> []"
  by (cases "drop_bit 7 v = 0") (simp_all add: encode_varint_last encode_varint_more)

lemma encode_varint_le_10: "length (encode_varint v []) \<le> 10"
  using length_encode_varint [of v 9] unat_bound [of v] by simp

lemma decode_varint_encode:
  assumes "unat v < 2 ^ 63"
  shows "decode_varint (encode_varint v [] @ rest) = (v, length (encode_varint v []))"
proof -
  from assms have "length (encode_varint v []) \<le> 9" using length_encode_varint [of v 8] by simp
  then have "take 9 (encode_varint v [] @ rest) = encode_varint v [] @ take (9 - length (encode_varint v [])) rest"
    by simp
  then show ?thesis by (simp add: decode_varint_def decode_encode_loop)
qed

lemma length_encode_varint_ge: "128 ^ k \<le> unat v \<Longrightarrow> k < length (encode_varint v [])"
proof (induction k arbitrary: v)
  case (Suc k)
  then have le: "128 ^ k \<le> unat (drop_bit 7 v)"
    by (simp add: unat_drop7 less_eq_div_iff_mult_less_eq mult.commute)
  then have "unat (drop_bit 7 v) \<noteq> 0" by (metis not_one_le_zero one_le_numeral one_le_power order_trans)
  then have "drop_bit 7 v \<noteq> 0" by auto
  with Suc.IH [OF le] show ?case by (simp add: encode_varint_more)
qed simp

lemma decode_loop_truncated:
  "k < length (encode_varint v []) \<Longrightarrow>
    decode_varint_loop (take k (encode_varint v [])) result shift len = (0, 0)"
proof (induction k arbitrary: v result shift len)
  case (Suc k)
  then have "drop_bit 7 v \<noteq> 0" by (auto simp: encode_varint_last)
  with Suc show ?case by (simp add: encode_varint_more continuation_bit Let_def)
qed simp

text \<open>
  What the decoder of the multihash makes of an encoded \<^verbatim>\<open>u64\<close>, whatever follows it: the
  value and its length when the value is below \<open>2 ^ 63\<close>, and failure (no byte consumed) for
  the larger half, whose encodings have ten bytes while the decoder reads nine.
\<close>

theorem varint_round_trip:
  "decode_varint (encode_varint v [] @ rest) =
    (if unat v < 2 ^ 63 then (v, length (encode_varint v [])) else (0, 0))"
proof (cases "unat v < 2 ^ 63")
  case False
  then have "9 < length (encode_varint v [])" using length_encode_varint_ge [of 9 v] by simp
  with False show ?thesis by (simp add: decode_varint_def decode_loop_truncated)
qed (simp add: decode_varint_encode)

lemma varint_len_correct:
  assumes "unat v < 2 ^ 35"
  shows "varint_len v = length (encode_varint v [])"
proof -
  have "length (encode_varint v []) = Suc k" if "128 ^ k \<le> unat v" "unat v < 128 ^ Suc k" for k
    using length_encode_varint_ge [OF that(1)] length_encode_varint [OF that(2)] by simp
  from this [of 1] this [of 2] this [of 3] this [of 4] this [of 0] length_encode_varint [of v 0] assms
  show ?thesis unfolding varint_len_def
    by (simp add: word_less_nat_alt) (cases "unat v = 0", auto simp: Suc_le_eq le_Suc_eq)
qed

lemma Cid_decode_more:
  "Cid_decode_loop ((ucast (v AND 0x7f) OR 0x80) # bs) i result consumed =
    Cid_decode_loop bs (i + 1) (result OR push_bit (i * 7 mod 64) (v AND 0x7f)) (i + 1)"
  by (simp only: Cid_decode_loop.simps Let_def seven_bits continuation_bit if_False)

lemma Cid_decode_encode_loop:
  assumes "i + length (encode_varint v []) \<le> 10"
  shows "Cid_decode_loop (encode_varint v [] @ rest) i result consumed =
    (result OR push_bit (7 * i) v, i + length (encode_varint v []))"
  using assms
proof (induction "unat v" arbitrary: v result i consumed rule: less_induct)
  case less
  have i: "i * 7 mod 64 = 7 * i" using less.prems by (cases "encode_varint v []") auto
  show ?case
  proof (cases "drop_bit 7 v = 0")
    case True
    then show ?thesis using split_seven_bits [of "7 * i" v]
      by (simp add: encode_varint_last seven_bits i)
  next
    case False
    then have "unat v div 128 \<noteq> 0" by (metis unat_drop7 unat_eq_zero)
    then have "unat (drop_bit 7 v) < unat v" by (auto simp: unat_drop7)
    from less.hyps [OF this, of "Suc i"] less.prems False show ?thesis using split_seven_bits [of "7 * i" v]
      by (simp add: encode_varint_more Cid_decode_more or.assoc i add.commute del: Cid_decode_loop.simps)
  qed
qed

lemma Cid_decode_varint_encode:
  "Cid_decode_varint (encode_varint v [] @ rest) = (v, length (encode_varint v []))"
  using Cid_decode_encode_loop [of 0 v rest 0 0] encode_varint_le_10 [of v] by (simp add: Cid_decode_varint_def)

section \<open>Lemmas: multihashes and the binary form\<close>

lemma multihash_bytes_round_trip:
  assumes "unat (mh_code m) < 2 ^ 63" and "length (mh_digest m) < 2 ^ 63"
  shows "Multihash_from_bytes (Multihash_to_bytes m @ rest) = Inr m"
proof -
  define n :: u64 where "n = of_nat (length (mh_digest m))"
  define x where "x = encode_varint (mh_code m) []"
  define y where "y = encode_varint n []"
  have n: "unat n = length (mh_digest m)" using assms(2) by (simp add: n_def unat_of_nat_small)
  have bytes: "Multihash_to_bytes m @ rest = x @ y @ mh_digest m @ rest"
    by (simp add: Multihash_to_bytes_def x_def y_def n_def encode_varint_acc [of _ "encode_varint c []" for c])
  have "0 < length x" "0 < length y" by (simp_all add: x_def y_def)
  moreover have "decode_varint (x @ r) = (mh_code m, length x)" for r
    using assms(1) unfolding x_def by (rule decode_varint_encode)
  moreover have "decode_varint (y @ r) = (n, length y)" for r
    using assms(2) n unfolding y_def by (intro decode_varint_encode) simp
  moreover from calculation(1,2) have "\<not> length (x @ y @ mh_digest m @ rest) < 2" by (simp del: length_greater_0_conv)
  ultimately show ?thesis unfolding bytes Multihash_from_bytes_def by (simp add: n)
qed

lemma Cid_v1_bytes:
  assumes "cid_version c = 1"
  shows "Cid_to_bytes c = 1 # encode_varint (cid_codec c) [] @ Multihash_to_bytes (cid_multihash c)"
  using assms by (simp add: Cid_to_bytes_def encode_varint_acc [of _ "[1]"])

lemma Multihash_to_bytes_neq_Nil [simp]: "Multihash_to_bytes m \<noteq> []"
  by (simp add: Multihash_to_bytes_def encode_varint_acc [of _ "encode_varint c []" for c])

lemma Cid_v1_body_to_bytes:
  assumes "cid_version c = 1"
    and "unat (mh_code (cid_multihash c)) < 2 ^ 63" and "length (mh_digest (cid_multihash c)) < 2 ^ 63"
  shows "Cid_v1_body (Cid_to_bytes c @ rest) = Inr c"
proof -
  let ?k = "encode_varint (cid_codec c) []" and ?m = "Multihash_to_bytes (cid_multihash c) @ rest"
  have "0 < length ?k" "0 < length (Multihash_to_bytes (cid_multihash c))" by simp_all
  then have "\<not> length (1 # ?k @ ?m) < 3" by (simp del: length_greater_0_conv)
  moreover have "Cid_decode_varint (?k @ ?m) = (cid_codec c, length ?k)" by (rule Cid_decode_varint_encode)
  moreover have "Multihash_from_bytes ?m = Inr (cid_multihash c)"
    by (rule multihash_bytes_round_trip) (rule assms)+
  moreover have "Cid_to_bytes c @ rest = 1 # ?k @ ?m" using Cid_v1_bytes [OF assms(1)] by simp
  ultimately show ?thesis unfolding Cid_v1_body_def using assms(1) by simp
qed

section \<open>Lemmas: Base58\<close>

lemma alphabet_values: "i < 58 \<Longrightarrow> char_to_val (BASE58_ALPHABET ! i) = int i"
proof -
  have "list_all (\<lambda>i. char_to_val (BASE58_ALPHABET ! i) = int i) [0..<58]" by code_simp
  then show "i < 58 \<Longrightarrow> char_to_val (BASE58_ALPHABET ! i) = int i" by (simp add: list_all_iff)
qed

lemma multiply_step:
  "m + d * 256 = s + b * 58 \<Longrightarrow> B + s * p = v * 58 + k \<Longrightarrow>
    m * p + B + d * (256 * p) = (b * p + v) * 58 + (k :: nat)"
proof -
  assume m: "m + d * 256 = s + b * 58" and "B + s * p = v * 58 + k"
  have "m * p + B + d * (256 * p) = (m + d * 256) * p + B" by (simp add: algebra_simps)
  also have "\<dots> = B + s * p + b * 58 * p" unfolding m by (simp add: algebra_simps)
  also have "\<dots> = (b * p + v) * 58 + k" unfolding \<open>B + s * p = v * 58 + k\<close> by (simp add: algebra_simps)
  finally show ?thesis .
qed

lemma mul58_value:
  "be_nat (fst (mul58_add bs c)) + snd (mul58_add bs c) * 256 ^ length bs = be_nat bs * 58 + c
    \<and> length (fst (mul58_add bs c)) = length bs"
proof (induction bs)
  case (Cons b bs)
  let ?c = "snd (mul58_add bs c) + unat b * 58" and ?p = "(256 :: nat) ^ length bs"
  have u: "unat (of_nat (?c mod 256) :: u8) = ?c mod 256" by (intro unat_of_nat_small) simp
  from Cons have "be_nat (fst (mul58_add bs c)) + snd (mul58_add bs c) * ?p = be_nat bs * 58 + c" by simp
  from multiply_step [OF mod_div_mult_eq this]
  have "?c mod 256 * ?p + be_nat (fst (mul58_add bs c)) + ?c div 256 * (256 * ?p) = (unat b * ?p + be_nat bs) * 58 + c" .
  with Cons u show ?case by (simp add: Let_def case_prod_beta)
qed simp

lemma push_carry_value: "be_nat (push_carry c bs) = c * 256 ^ length bs + be_nat bs"
proof (induction c bs rule: push_carry.induct)
  case (1 c bs)
  have u: "unat (of_nat (c mod 256) :: u8) = c mod 256" by (intro unat_of_nat_small) simp
  have "c div 256 * (256 * 256 ^ length bs) + c mod 256 * 256 ^ length bs = (c div 256 * 256 + c mod 256) * 256 ^ length bs"
    by (simp only: add_mult_distrib mult.assoc)
  with 1 u show ?case by (subst push_carry.simps) simp
qed

lemma push_carry_hd: "0 < c \<Longrightarrow> push_carry c bs \<noteq> [] \<and> hd (push_carry c bs) \<noteq> 0"
proof (induction c bs rule: push_carry.induct)
  case (1 c bs)
  show ?case
  proof (cases "c div 256 = 0")
    case True
    then have "c < 256" by simp
    with "1.prems" have "(of_nat c :: u8) \<noteq> 0" using unat_of_nat_small [of c, where 'a = 8] by (auto simp flip: unat_eq_zero)
    with True "1.prems" show ?thesis by (subst (1 2) push_carry.simps) (simp add: push_carry.simps [of 0])
  next
    case False
    with 1 show ?thesis by (subst (1 2) push_carry.simps) simp
  qed
qed

text \<open>Numbers without leading zero bytes.\<close>

lemma hd_nonzero_iff: "bs \<noteq> [] \<Longrightarrow> hd bs \<noteq> 0 \<longleftrightarrow> 256 ^ (length bs - 1) \<le> be_nat bs"
proof (cases bs)
  case (Cons b r)
  have "256 ^ length r \<le> unat b * 256 ^ length r" if "b \<noteq> 0"
    using that by (simp add: Suc_le_eq unat_gt_0)
  moreover have "be_nat r < 256 ^ length r" by (rule be_nat_bound)
  ultimately show ?thesis using Cons by (cases "b = 0") (simp_all add: trans_le_add1)
qed simp

lemma mixed_radix_inj:
  assumes "a < p" "b < p" "x * p + a = y * p + (b :: nat)"
  shows "x = y \<and> a = b"
proof -
  have "(x * p + a) div p = x" "(y * p + b) div p = y" using assms(1,2) by simp_all
  with assms(3) show ?thesis by simp
qed

lemma be_nat_inj: "length a = length b \<Longrightarrow> be_nat a = be_nat b \<Longrightarrow> a = b"
proof (induction a b rule: list_induct2)
  case (Cons x xs y ys)
  let ?p = "(256 :: nat) ^ length xs"
  have "be_nat xs < ?p" "be_nat ys < ?p" using be_nat_bound [of xs] be_nat_bound [of ys] Cons by simp_all
  moreover have "unat x * ?p + be_nat xs = unat y * ?p + be_nat ys" using Cons by simp
  ultimately have "unat x = unat y" and "be_nat xs = be_nat ys" using mixed_radix_inj by blast+
  with Cons.IH show ?case by (simp add: word_unat_eq_iff)
qed simp

lemma canonical_unique:
  assumes "a \<noteq> []" "hd a \<noteq> 0" "b \<noteq> []" "hd b \<noteq> 0" "be_nat a = be_nat b"
  shows "a = b"
proof -
  have "length a \<le> length b" if "x = be_nat a" "y = be_nat b" "x = y" "a \<noteq> []" "hd a \<noteq> 0" for a b x y
  proof -
    from that have "256 ^ (length a - 1) < (256 :: nat) ^ length b"
      using hd_nonzero_iff [of a] le_less_trans [OF _ be_nat_bound [of b]] by metis
    then have "length a - 1 < length b" by (rule power_less_imp_less_exp [rotated]) simp
    then show ?thesis by simp
  qed
  from this [of _ a _ b] this [of _ b _ a] assms have "length a = length b" by (simp add: le_antisym)
  then show ?thesis using assms(5) by (rule be_nat_inj)
qed

text \<open>The digits of a number to base 58, the lowest first.\<close>

fun digits58 :: "nat \<Rightarrow> nat list" where
  "digits58 n = (if n = 0 then [] else (n mod 58) # digits58 (n div 58))"

declare digits58.simps [simp del]

lemma digits58_0 [simp]: "digits58 0 = []"
  by (simp add: digits58.simps)

lemma digits58_less: "d \<in> set (digits58 n) \<Longrightarrow> d < 58"
  by (induction n rule: digits58.induct) (subst (asm) (2) digits58.simps, auto split: if_splits)

lemma digits58_last: "0 < n \<Longrightarrow> digits58 n \<noteq> [] \<and> last (digits58 n) \<noteq> 0"
proof (induction n rule: digits58.induct)
  case (1 n)
  then show ?case by (cases "n div 58 = 0") (simp_all add: digits58.simps [of n])
qed

lemma digits58_value: "foldr (\<lambda>d v. v * 58 + d) (digits58 n) 0 = n"
proof (induction n rule: digits58.induct)
  case (1 n)
  then show ?case by (cases "n = 0") (simp_all add: digits58.simps [of n])
qed

lemma base58_digits_spec:
  "num = [] \<or> hd num \<noteq> 0 \<Longrightarrow>
    base58_digits num acc = acc @ map ((!) BASE58_ALPHABET) (digits58 (be_nat num))"
proof (induction num acc rule: base58_digits.induct)
  case (1 num acc)
  show ?case
  proof (cases "num = []")
    case False
    obtain q r where qr: "div58 num 0 = (q, r)" by fastforce
    from div58_value [of 0 num] have v: "be_nat q * 58 + r = be_nat num" and r: "r < 58" by (simp_all add: qr)
    from r have "(be_nat q * 58 + r) div 58 = be_nat q" "(be_nat q * 58 + r) mod 58 = r" by simp_all
    then have q: "be_nat q = be_nat num div 58" and r: "r = be_nat num mod 58" by (simp_all only: v)
    have pos: "be_nat num \<noteq> 0" using "1.prems" False by (cases num) (auto simp: unat_gt_0)
    have "strip_zeros q = [] \<or> hd (strip_zeros q) \<noteq> 0"
      by (metis (mono_tags, lifting) hd_dropWhile strip_zeros_def)
    from "1.IH" [OF False qr [symmetric] refl this]
    show ?thesis using False pos
      by (subst base58_digits.simps) (simp add: qr q r digits58.simps [of "be_nat num"])
  qed (simp add: base58_digits.simps)
qed

lemma decode_step:
  assumes "d < 58" and "r \<noteq> []" and "hd r \<noteq> 0 \<or> r = [0] \<and> 0 < d"
  shows "\<exists>r'. decode_base58_char (BASE58_ALPHABET ! d) r = Inr r' \<and> be_nat r' = be_nat r * 58 + d
    \<and> r' \<noteq> [] \<and> hd r' \<noteq> 0"
proof -
  obtain m c where mc: "mul58_add r d = (m, c)" by fastforce
  from mul58_value [of r d] have v: "be_nat m + c * 256 ^ length r = be_nat r * 58 + d" and l: "length m = length r"
    by (simp_all add: mc)
  have "push_carry c m \<noteq> [] \<and> hd (push_carry c m) \<noteq> 0"
  proof (cases "c = 0")
    case True
    from assms(3) have "256 ^ (length r - 1) \<le> be_nat r * 58 + d"
      using hd_nonzero_iff [OF assms(2)] by auto
    with True v l assms(2) have "m \<noteq> []" and "256 ^ (length m - 1) \<le> be_nat m" by auto
    with hd_nonzero_iff [of m] True show ?thesis by (simp add: push_carry.simps)
  qed (simp add: push_carry_hd)
  moreover have "be_nat (push_carry c m) = be_nat r * 58 + d" using v l by (simp add: push_carry_value)
  ultimately show ?thesis using assms(1) by (simp add: decode_base58_char_def alphabet_values mc)
qed

lemma decode_digits:
  assumes "\<forall>d \<in> set ds. d < 58" and "ds = [] \<or> hd ds \<noteq> 0 \<or> r \<noteq> [0]" and "r \<noteq> []" and "hd r \<noteq> 0 \<or> r = [0]"
    and "ds \<noteq> [] \<or> hd r \<noteq> 0"
  shows "\<exists>r'. fold_result decode_base58_char (map ((!) BASE58_ALPHABET) ds) r = Inr r'
    \<and> be_nat r' = fold (\<lambda>d v. v * 58 + d) ds (be_nat r) \<and> r' \<noteq> [] \<and> hd r' \<noteq> 0"
  using assms
proof (induction ds arbitrary: r)
  case (Cons d ds)
  from Cons.prems have "hd r \<noteq> 0 \<or> r = [0] \<and> 0 < d" by auto
  from decode_step [OF _ Cons.prems(3) this] Cons.prems(1)
  obtain r' where r': "decode_base58_char (BASE58_ALPHABET ! d) r = Inr r'" "be_nat r' = be_nat r * 58 + d"
    "r' \<noteq> []" "hd r' \<noteq> 0" by auto
  from r' have "r' \<noteq> [0]" by auto
  with Cons.IH [of r'] r' Cons.prems(1) show ?case by simp
qed simp

lemma encode_base58_zeros:
  assumes "bs \<noteq> []" and "hd bs \<noteq> 0"
  shows "encode_base58 (replicate k 0 @ bs) = map ((!) BASE58_ALPHABET) (rev (digits58 (be_nat bs)) @ replicate k 0)"
proof -
  have "takeWhile (\<lambda>b. b = 0) bs = []" using assms by (cases bs) simp_all
  then have z: "takeWhile (\<lambda>b. b = 0) (replicate k 0 @ bs) = replicate k 0"
    by (subst takeWhile_append2) auto
  have one: "BASE58_ALPHABET ! 0 = CHR ''1''" by (simp add: BASE58_ALPHABET_def)
  show ?thesis using assms base58_digits_spec [of bs] unfolding encode_base58_def Let_def z
    by (simp add: one rev_map)
qed

lemma alphabet_one_iff: "d < 58 \<Longrightarrow> BASE58_ALPHABET ! d = CHR ''1'' \<longleftrightarrow> d = 0"
  using alphabet_values [of d] alphabet_values [of 0] by (auto simp: BASE58_ALPHABET_def)

lemma decode_base58_digits:
  assumes "\<forall>d \<in> set ds. d < 58" and "ds \<noteq> []" and "hd ds \<noteq> 0"
  shows "\<exists>r. decode_base58 (map ((!) BASE58_ALPHABET) ds) = Inr r
    \<and> be_nat r = fold (\<lambda>d v. v * 58 + d) ds 0 \<and> r \<noteq> [] \<and> hd r \<noteq> 0"
proof -
  have "takeWhile (\<lambda>c. c = CHR ''1'') (map ((!) BASE58_ALPHABET) ds) = []"
    using assms by (cases ds) (simp_all add: alphabet_one_iff)
  with decode_digits [of ds "[0]"] assms show ?thesis by (auto simp: decode_base58_def Let_def)
qed

lemma hd_rev_digits58: "0 < n \<Longrightarrow> rev (digits58 n) \<noteq> [] \<and> hd (rev (digits58 n)) \<noteq> 0"
  using digits58_last [of n] by (simp add: hd_rev)

lemma base58_inverts:
  assumes "bs \<noteq> []" and "hd bs \<noteq> 0"
  shows "decode_base58 (encode_base58 bs) = Inr bs"
    and "\<exists>r. decode_base58 (encode_base58 (replicate k 0 @ bs)) = Inr r \<and> r \<noteq> [] \<and> hd r \<noteq> 0"
proof -
  let ?ds = "rev (digits58 (be_nat bs))"
  have "0 < be_nat bs" using assms by (cases bs) (auto simp: unat_gt_0)
  note ds = hd_rev_digits58 [OF this]
  have lt: "\<forall>d \<in> set ?ds. d < 58" using digits58_less by auto
  from decode_base58_digits [OF this] ds digits58_value [of "be_nat bs"]
  obtain r where r: "decode_base58 (map ((!) BASE58_ALPHABET) ?ds) = Inr r" "be_nat r = be_nat bs"
    "r \<noteq> []" "hd r \<noteq> 0" by (auto simp: foldr_conv_fold)
  with canonical_unique [OF r(3,4) assms r(2)] show "decode_base58 (encode_base58 bs) = Inr bs"
    using encode_base58_zeros [OF assms, of 0] by simp
  have "\<forall>d \<in> set (?ds @ replicate k 0). d < 58" "hd (?ds @ replicate k 0) \<noteq> 0" using lt ds by auto
  with decode_base58_digits [of "?ds @ replicate k 0"] ds encode_base58_zeros [OF assms, of k]
  show "\<exists>r. decode_base58 (encode_base58 (replicate k 0 @ bs)) = Inr r \<and> r \<noteq> [] \<and> hd r \<noteq> 0" by auto
qed

lemma base58_all_zero: "decode_base58 (encode_base58 (replicate k 0)) = Inr (replicate k 0)"
  by (simp add: encode_base58_def decode_base58_def base58_digits.simps takeWhile_replicate)

text \<open>
  Exactly the byte strings without a leading zero byte, and the strings of zeros, come back
  from \<open>encode_base58\<close> and \<open>decode_base58\<close>: the characters for leading zeros are pushed first
  and reversed with the digits, so that they end up at the end of the text.
\<close>

theorem base58_round_trip_iff:
  "decode_base58 (encode_base58 data) = Inr data \<longleftrightarrow> data = [] \<or> hd data \<noteq> 0 \<or> list_all (\<lambda>b. b = 0) data"
proof (cases "list_all (\<lambda>b. b = 0) data")
  case True
  then have "data = replicate (length data) 0" by (simp add: list_all_iff replicate_eqI)
  with base58_all_zero [of "length data"] True show ?thesis by metis
next
  case False
  let ?k = "length (takeWhile (\<lambda>b. b = 0) data)" and ?r = "dropWhile (\<lambda>b. b = 0) data"
  have "takeWhile (\<lambda>b. b = 0) data = replicate ?k 0" by (rule replicate_eqI) (auto dest: set_takeWhileD)
  then have data: "data = replicate ?k 0 @ ?r" by (metis takeWhile_dropWhile_id)
  from False have r1: "?r \<noteq> []" by (auto simp: list_all_iff)
  from hd_dropWhile [OF r1] have r2: "hd ?r \<noteq> 0" .
  note r = r1 r2
  show ?thesis
  proof (cases "hd data = 0")
    case True
    from base58_inverts(2) [OF r, of ?k]
    obtain x where "decode_base58 (encode_base58 data) = Inr x" "hd x \<noteq> 0"
      unfolding data [symmetric] by blast
    then have "decode_base58 (encode_base58 data) \<noteq> Inr data" using True by auto
    with False True show ?thesis by auto
  next
    case nz: False
    have "data \<noteq> []" using False by auto
    from base58_inverts(1) [OF this nz] nz show ?thesis by simp
  qed
qed

section \<open>Lemmas: Base32\<close>

text \<open>The format of RFC 4648 on the bits of the data, the highest first, and a decoder for it.\<close>

primrec bits_val :: "bool list \<Rightarrow> nat" where
  "bits_val [] = 0"
| "bits_val (b # bs) = of_bool b * 2 ^ length bs + bits_val bs"

definition low_bits :: "nat \<Rightarrow> 'a :: len word \<Rightarrow> bool list" where
  "low_bits k w = map (bit w) (rev [0..<k])"

fun rfc4648 :: "bool list \<Rightarrow> string" where
  "rfc4648 (a # b # c # d # e # xs) = BASE32_ALPHABET ! bits_val [a, b, c, d, e] # rfc4648 xs"
| "rfc4648 [] = []"
| "rfc4648 xs = [BASE32_ALPHABET ! bits_val (xs @ replicate (5 - length xs) False)]"

definition byte_bits :: "bytes \<Rightarrow> bool list" where
  "byte_bits bs = concat (map (low_bits 8) bs)"

lemma low_bits_0 [simp]: "low_bits 0 w = []" and low_bits_Suc: "low_bits (Suc k) w = bit w k # low_bits k w"
  and length_low_bits [simp]: "length (low_bits k w) = k"
  by (simp_all add: low_bits_def)

lemma bits_val_low_bits: "bits_val (low_bits k w) = take_bit k (unat w)"
  by (induction k) (simp_all add: low_bits_Suc take_bit_Suc_from_most bit_unsigned_iff bit_imp_le_length of_bool_def)

lemma low_five: "unat (w AND 0x1F :: u32) = bits_val (low_bits 5 w)"
proof -
  have "(0x1F :: u32) = mask 5" by (simp add: mask_eq_exp_minus_1)
  then have "w AND 0x1F = take_bit 5 w" by (simp add: take_bit_eq_mask)
  then show ?thesis by (simp add: bits_val_low_bits unsigned_take_bit_eq)
qed

lemma low_bits_add: "low_bits (m + k) w = low_bits m (drop_bit k w) @ low_bits k w"
  by (induction m) (simp_all add: low_bits_Suc bit_drop_bit_eq add.commute)

lemma low_bits_5: "low_bits 5 w = [bit w 4, bit w 3, bit w 2, bit w 1, bit w 0]"
  by (simp add: low_bits_Suc numeral_eq_Suc)

lemma base32_drain_spec:
  "\<exists>r out. base32_drain w k result = (r, result @ out) \<and> r < 5 \<and> r \<le> k
    \<and> (\<forall>ys. rfc4648 (low_bits k w @ ys) = out @ rfc4648 (low_bits r w @ ys))"
proof (induction w k result rule: base32_drain.induct)
  case (1 w k result)
  show ?case
  proof (cases "5 \<le> k")
    case True
    let ?c = "BASE32_ALPHABET ! unat (drop_bit (k - 5) w AND 0x1F)"
    from "1.IH" [OF True] obtain r out where
      d: "base32_drain w (k - 5) (result @ [?c]) = (r, (result @ [?c]) @ out)" "r < 5" "r \<le> k - 5"
      "\<And>ys. rfc4648 (low_bits (k - 5) w @ ys) = out @ rfc4648 (low_bits r w @ ys)" by blast
    have "low_bits k w = low_bits 5 (drop_bit (k - 5) w) @ low_bits (k - 5) w"
      using low_bits_add [of 5 "k - 5" w] True by simp
    then have "rfc4648 (low_bits k w @ ys) = ?c # rfc4648 (low_bits (k - 5) w @ ys)" for ys
      unfolding low_five low_bits_5 by simp
    with d True show ?thesis
      by (intro exI [of _ r] exI [of _ "?c # out"]) (subst base32_drain.simps, simp)
  qed (auto simp: base32_drain.simps)
qed

lemma low_bits_push:
  assumes "k + 8 \<le> 32"
  shows "low_bits (k + 8) (push_bit 8 w OR ucast (b :: u8) :: u32) = low_bits k w @ low_bits 8 b"
proof -
  let ?w = "push_bit 8 w OR ucast b :: u32"
  have b: "\<not> bit b (i + 8)" for i using bit_imp_le_length [of b "i + 8"] by auto
  have "bit (drop_bit 8 ?w) i = bit w i" if "i < k" for i
    using that assms by (simp add: bit_simps b add.commute)
  then have hi: "low_bits k (drop_bit 8 ?w) = low_bits k w" by (simp add: low_bits_def)
  have lo: "low_bits 8 ?w = low_bits 8 b" by (simp add: low_bits_def bit_simps)
  show ?thesis unfolding low_bits_add hi lo ..
qed

lemma rfc_tail:
  assumes "k < 5" and "0 < k"
  shows "rfc4648 (low_bits k w) = [BASE32_ALPHABET ! unat (push_bit (5 - k) w AND 0x1F :: u32)]"
proof -
  have "low_bits 5 (push_bit (5 - k) w) = low_bits k w @ replicate (5 - k) False"
  proof -
    have "low_bits 5 (push_bit (5 - k) w) = low_bits k (drop_bit (5 - k) (push_bit (5 - k) w)) @ low_bits (5 - k) (push_bit (5 - k) w)"
      using low_bits_add [of k "5 - k" "push_bit (5 - k) w"] assms by simp
    moreover have "low_bits (5 - k) (push_bit (5 - k) w) = replicate (5 - k) False"
      by (rule nth_equalityI) (auto simp: low_bits_def bit_simps rev_nth)
    moreover have "low_bits k (drop_bit (5 - k) (push_bit (5 - k) w)) = low_bits k w"
      using assms by (auto simp: low_bits_def bit_simps)
    ultimately show ?thesis by simp
  qed
  moreover from assms consider "k = 1" | "k = 2" | "k = 3" | "k = 4" by linarith
  then have "rfc4648 (low_bits k w) = [BASE32_ALPHABET ! bits_val (low_bits k w @ replicate (5 - k) False)]"
    by cases (simp_all add: low_bits_Suc numeral_eq_Suc)
  ultimately show ?thesis by (simp add: low_five)
qed

lemma base32_loop_spec:
  "k < 5 \<Longrightarrow> base32_loop bs w k result = result @ rfc4648 (low_bits k w @ byte_bits bs)"
proof (induction bs arbitrary: w k result)
  case Nil
  then show ?case by (cases "k = 0") (simp_all add: byte_bits_def rfc_tail)
next
  case (Cons b bs)
  let ?w = "push_bit 8 w OR ucast b :: u32"
  from base32_drain_spec [of ?w "k + 8" result] obtain r out where
    d: "base32_drain ?w (k + 8) result = (r, result @ out)" "r < 5"
    "\<And>ys. rfc4648 (low_bits (k + 8) ?w @ ys) = out @ rfc4648 (low_bits r ?w @ ys)" by blast
  from d(3) [of "byte_bits bs"] Cons.prems have "rfc4648 (low_bits k w @ byte_bits (b # bs)) = out @ rfc4648 (low_bits r ?w @ byte_bits bs)"
    by (simp add: low_bits_push byte_bits_def)
  with Cons.IH [OF d(2), of ?w "result @ out"] d(1) show ?case by simp
qed

lemma encode_base32_rfc4648: "encode_base32 bs = rfc4648 (byte_bits bs)"
  by (simp add: encode_base32_def base32_loop_spec)

fun group8 :: "bool list \<Rightarrow> bytes" where
  "group8 (a # b # c # d # e # f # g # h # xs) = of_nat (bits_val [a, b, c, d, e, f, g, h]) # group8 xs"
| "group8 _ = []"

definition rfc4648_value :: "char \<Rightarrow> nat" where
  "rfc4648_value c = length (takeWhile (\<lambda>x. x \<noteq> c) BASE32_ALPHABET)"

definition rfc4648_decode :: "string \<Rightarrow> bytes option" where
  "rfc4648_decode s =
    (if list_all (\<lambda>c. rfc4648_value c < 32) s
     then Some (group8 (concat (map (\<lambda>c. low_bits 5 (of_nat (rfc4648_value c) :: u8)) s))) else None)"

lemma rfc4648_value_nth: "length xs = 5 \<Longrightarrow>
  low_bits 5 (of_nat (rfc4648_value (BASE32_ALPHABET ! bits_val xs)) :: u8) = xs \<and> rfc4648_value (BASE32_ALPHABET ! bits_val xs) < 32"
proof -
  have "list_all (\<lambda>xs. low_bits 5 (of_nat (rfc4648_value (BASE32_ALPHABET ! bits_val xs)) :: u8) = xs \<and>
      rfc4648_value (BASE32_ALPHABET ! bits_val xs) < 32) (List.n_lists 5 [False, True])" by code_simp
  then show "length xs = 5 \<Longrightarrow> ?thesis" by (simp add: list_all_iff set_n_lists) (metis (full_types) UNIV_bool subset_UNIV insert_commute)
qed

definition rfc4648_unpacks :: "bool list \<Rightarrow> bool" where
  "rfc4648_unpacks xs =
    (\<exists>p < 5. concat (map (\<lambda>c. low_bits 5 (of_nat (rfc4648_value c) :: u8)) (rfc4648 xs)) = xs @ replicate p False
      \<and> list_all (\<lambda>c. rfc4648_value c < 32) (rfc4648 xs))"

lemma rfc4648_unpacks_short: "length xs < 5 \<Longrightarrow> rfc4648_unpacks xs"
proof (cases "xs = []")
  case False
  assume "length xs < 5"
  with False have "rfc4648 xs = [BASE32_ALPHABET ! bits_val (xs @ replicate (5 - length xs) False)]"
    by (cases xs rule: rfc4648.cases) simp_all
  with False rfc4648_value_nth [of "xs @ replicate (5 - length xs) False"] \<open>length xs < 5\<close>
  show ?thesis unfolding rfc4648_unpacks_def by (intro exI [of _ "5 - length xs"]) simp
qed (simp add: rfc4648_unpacks_def)

lemma rfc4648_unpacks_all: "rfc4648_unpacks xs"
proof (induction xs rule: rfc4648.induct)
  case (1 a b c d e xs)
  with rfc4648_value_nth [of "[a, b, c, d, e]"] show ?case by (auto simp: rfc4648_unpacks_def)
qed (rule rfc4648_unpacks_short, simp)+

lemma low_bits_8: "low_bits 8 w = [bit w 7, bit w 6, bit w 5, bit w 4, bit w 3, bit w 2, bit w 1, bit w 0]"
  by (simp add: low_bits_Suc numeral_eq_Suc)

lemma group8_byte_bits: "length ys < 8 \<Longrightarrow> group8 (byte_bits bs @ ys) = bs"
proof (induction bs)
  case Nil
  then show ?case by (cases ys rule: group8.cases) (simp_all add: byte_bits_def)
next
  case (Cons b bs)
  have "group8 (low_bits 8 b @ zs) = of_nat (bits_val (low_bits 8 b)) # group8 zs" for zs
    unfolding low_bits_8 by simp
  moreover have "(of_nat (bits_val (low_bits 8 b)) :: u8) = b" using unat_bound [of b]
    by (simp add: bits_val_low_bits take_bit_nat_eq_self)
  ultimately show ?case using Cons by (simp add: byte_bits_def)
qed

text \<open>The Base32 encoder is that of RFC 4648 (five bits at a time, the last group filled with
  zeros), so a decoder of that format inverts it.\<close>

lemma rfc4648_decode_encode: "rfc4648_decode (encode_base32 bs) = Some bs"
proof -
  from rfc4648_unpacks_all [of "byte_bits bs"] obtain p where "p < 5"
    and "concat (map (\<lambda>c. low_bits 5 (of_nat (rfc4648_value c) :: u8)) (rfc4648 (byte_bits bs))) = byte_bits bs @ replicate p False"
    and "list_all (\<lambda>c. rfc4648_value c < 32) (rfc4648 (byte_bits bs))"
    unfolding rfc4648_unpacks_def by blast
  with group8_byte_bits [of "replicate p False" bs] show ?thesis
    by (simp add: rfc4648_decode_def encode_base32_rfc4648)
qed

section \<open>Lemmas: the text form\<close>

lemma length_digits58: "58 ^ k \<le> n \<Longrightarrow> n < 58 ^ Suc k \<Longrightarrow> length (digits58 n) = Suc k"
proof (induction k arbitrary: n)
  case 0
  then show ?case by (simp add: digits58.simps [of n])
next
  case (Suc k)
  from Suc.prems have "58 ^ k \<le> n div 58" "n div 58 < 58 ^ Suc k"
    by (simp_all add: less_eq_div_iff_mult_less_eq less_mult_imp_div_less mult.commute)
  from Suc.IH [OF this] Suc.prems show ?case by (simp add: digits58.simps [of n])
qed

lemma nth_digits58: "i < length (digits58 n) \<Longrightarrow> digits58 n ! i = n div 58 ^ i mod 58"
proof (induction i arbitrary: n)
  case (Suc i)
  then have "n \<noteq> 0" by (cases "n = 0") simp_all
  with Suc.IH [of "n div 58"] Suc.prems show ?case by (simp add: digits58.simps [of n] div_mult2_eq)
qed (auto simp: digits58.simps)

lemma sha256_bytes:
  "mh_code m = HashCode_to_u64 Sha256 \<Longrightarrow> length (mh_digest m) = 32 \<Longrightarrow>
    Multihash_to_bytes m = 18 # 32 # mh_digest m"
  by (simp add: Multihash_to_bytes_def encode_varint.simps)

lemma sha256_value_bounds:
  assumes "length d = 32"
  shows "be_nat (18 # 32 # d) div 58 ^ 44 = 1378"
proof -
  have "be_nat d < 256 ^ 32" using be_nat_bound [of d] assms by simp
  then have "1378 * 58 ^ 44 \<le> be_nat (18 # 32 # d)" "be_nat (18 # 32 # d) < 1379 * 58 ^ 44" using assms by simp_all
  then show ?thesis by (simp add: div_nat_eqI)
qed

text \<open>The Base58 text of a SHA-256 multihash has 46 characters and starts with \<open>Qm\<close>.\<close>

lemma sha256_text:
  assumes "length d = 32"
  shows "length (encode_base58 (18 # 32 # d)) = 46" and "starts_with (encode_base58 (18 # 32 # d)) ''Qm''"
proof -
  let ?n = "be_nat (18 # 32 # d)"
  have v: "?n div 58 ^ 44 = 1378" by (rule sha256_value_bounds [OF assms])
  have top: "?n div 58 ^ 45 = 23"
    using v div_mult2_eq [of ?n "58 ^ 44" 58] by (simp flip: power_Suc2)
  have bounds: "58 ^ 45 \<le> ?n" "?n < 58 ^ Suc 45"
    using top by (simp_all add: dividend_less_times_div)
  note len = length_digits58 [OF bounds]
  have enc: "encode_base58 (18 # 32 # d) = map ((!) BASE58_ALPHABET) (rev (digits58 ?n))"
    using encode_base58_zeros [of "18 # 32 # d" 0] by simp
  then show "length (encode_base58 (18 # 32 # d)) = 46" using len by simp
  have "digits58 ?n ! 45 = 23" "digits58 ?n ! 44 = 44" using len top v by (simp_all add: nth_digits58)
  then have "take 2 (rev (digits58 ?n)) = [23, 44]"
    using len by (simp add: numeral_2_eq_2 take_Suc_conv_app_nth rev_nth)
  then have "take 2 (encode_base58 (18 # 32 # d)) = map ((!) BASE58_ALPHABET) [23, 44]"
    unfolding enc take_map by simp
  also have "\<dots> = ''Qm''" by (simp add: BASE58_ALPHABET_def)
  finally show "starts_with (encode_base58 (18 # 32 # d)) ''Qm''" by (simp add: starts_with_def numeral_2_eq_2)
qed

lemma sha256_from_text:
  assumes "mh_code m = HashCode_to_u64 Sha256" and "length (mh_digest m) = 32"
  shows "Cid_parse hexd b32 (encode_base58 (Multihash_to_bytes m)) = Inr \<lparr>cid_version = 0, cid_codec = 0, cid_multihash = m\<rparr>"
proof -
  note bs = sha256_bytes [OF assms] and qm = sha256_text [OF assms(2)]
  have "decode_base58 (encode_base58 (Multihash_to_bytes m)) = Inr (Multihash_to_bytes m)"
    by (rule base58_inverts) (simp_all add: bs)
  moreover have "Multihash_from_bytes (Multihash_to_bytes m) = Inr m"
    using multihash_bytes_round_trip [of m "[]"] assms by simp
  ultimately show ?thesis using qm assms unfolding Cid_parse_def Cid_from_v0_str_def bs by simp
qed

lemma starts_with_append [simp]: "starts_with (p @ s) p"
  by (simp add: starts_with_def)

lemma base32_text:
  assumes "b32 (encode_base32 (Cid_to_bytes c)) = Some (Cid_to_bytes c)" and "cid_version c = 1"
    and "unat (mh_code (cid_multihash c)) < 2 ^ 63" and "length (mh_digest (cid_multihash c)) < 2 ^ 63"
  shows "Cid_parse hexd b32 (''bafy'' @ encode_base32 (Cid_to_bytes c)) = Inr c"
proof -
  have "Cid_from_v1_str b32 (''bafy'' @ encode_base32 (Cid_to_bytes c)) = Inr c"
    using Cid_v1_body_to_bytes [OF assms(2-4), of "[]"] assms(1) Cid_v1_bytes [OF assms(2)]
    by (simp add: Cid_from_v1_str_def starts_with_def)
  then show ?thesis by (simp add: Cid_parse_def starts_with_def)
qed

text \<open>
  The binary form of a CID. A CID of version 1 comes back from its bytes, whatever its codec
  and whatever follows, as long as its hash code and digest length are below \<open>2 ^ 63\<close>. The bytes
  of a SHA-256 CID of version 0 are refused: \<^verbatim>\<open>to_bytes\<close> writes the bare multihash, while
  \<^verbatim>\<open>from_bytes\<close> expects a zero byte before it and reads the hash code as the version.
\<close>

theorem cid_bytes_round_trip:
  assumes "unat (mh_code (cid_multihash c)) < 2 ^ 63" and "length (mh_digest (cid_multihash c)) < 2 ^ 63"
    and "cid_version c = 1 \<or> cid_version c = 0 \<and> mh_code (cid_multihash c) = HashCode_to_u64 Sha256"
  shows "Cid_from_bytes (Cid_to_bytes c @ rest) =
    (if cid_version c = 1 then Inr c else Inl (UnsupportedVersion 0x12))"
proof (cases "cid_version c = 1")
  case True
  with Cid_v1_body_to_bytes [OF True assms(1,2), of rest] Cid_v1_bytes [OF True] show ?thesis
    by (simp add: Cid_from_bytes_def)
next
  case False
  with assms(3) have v0: "cid_version c = 0" and sha: "mh_code (cid_multihash c) = 18" by simp_all
  have "encode_varint 18 [] = [18]" by (simp add: encode_varint.simps)
  then have "Cid_to_bytes c @ rest =
      18 # encode_varint (of_nat (length (mh_digest (cid_multihash c)))) [] @ mh_digest (cid_multihash c) @ rest"
    using encode_varint_acc [of _ "[18]"] by (simp add: Cid_to_bytes_def v0 Multihash_to_bytes_def sha)
  with False show ?thesis by (simp add: Cid_from_bytes_def)
qed

definition demo_cid :: cid where
  "demo_cid = Cid_new_v1 Raw \<lparr>mh_code = 0x1e, mh_digest = replicate 32 7\<rparr>"

theorem cid_bytes_round_trip_witness:
  "Cid_from_bytes (Cid_to_bytes demo_cid @ [9]) = Inr demo_cid"
  using cid_bytes_round_trip [of demo_cid "[9]"] by (simp add: demo_cid_def Cid_new_v1_def)

text \<open>
  C28. The text form of a CID, as \<^verbatim>\<open>Display\<close> prints it and \<^verbatim>\<open>parse\<close> reads it. A CID of version 0
  and one of version 1 whose hash is not SHA-256 come back, the latter when \<^verbatim>\<open>base32::decode\<close>
  inverts the Base32 encoder on its bytes. A SHA-256 CID of version 1 is printed as a CID of
  version 0, so what comes back has lost its version and its codec.
\<close>

theorem cid_text_round_trip:
  assumes base32_inverts: "\<forall>bs. b32 (encode_base32 bs) = Some bs"
    and "unat (mh_code (cid_multihash c)) < 2 ^ 63" and "length (mh_digest (cid_multihash c)) < 2 ^ 63"
    and "cid_version c = 1 \<or> cid_version c = 0 \<and> cid_codec c = 0 \<and> mh_code (cid_multihash c) = HashCode_to_u64 Sha256"
    and "mh_code (cid_multihash c) = HashCode_to_u64 Sha256 \<Longrightarrow> length (mh_digest (cid_multihash c)) = 32"
  shows "Cid_parse hexd b32 (Cid_display c) =
    (if mh_code (cid_multihash c) = HashCode_to_u64 Sha256
     then Inr \<lparr>cid_version = 0, cid_codec = 0, cid_multihash = cid_multihash c\<rparr> else Inr c)"
proof (cases "mh_code (cid_multihash c) = HashCode_to_u64 Sha256")
  case True
  then have "Cid_display c = encode_base58 (Multihash_to_bytes (cid_multihash c))"
    by (simp add: Cid_display_def Cid_to_v0_string_def)
  with sha256_from_text [OF True assms(5) [OF True]] True show ?thesis by simp
next
  case False
  with assms(4) have "cid_version c = 1" by blast
  with False have "Cid_display c = ''bafy'' @ encode_base32 (Cid_to_bytes c)"
    by (simp add: Cid_display_def Cid_to_v0_string_def)
  with base32_text [of b32 c hexd] base32_inverts \<open>cid_version c = 1\<close> assms(2,3) False show ?thesis by simp
qed

theorem cid_text_round_trip_witness:
  "Cid_parse (\<lambda>_. None) rfc4648_decode (Cid_display demo_cid) = Inr demo_cid"
  using cid_text_round_trip [of rfc4648_decode demo_cid "\<lambda>_. None"] rfc4648_decode_encode
  by (simp add: demo_cid_def Cid_new_v1_def)

section \<open>Lemmas: checking content against an identifier\<close>

lemma from_content_blake3_cases:
  "Cid_from_content_blake3 H data =
    (if length (H data) = 32
     then Some \<lparr>cid_version = 1, cid_codec = 0x55, cid_multihash = \<lparr>mh_code = 0x1e, mh_digest = H data\<rparr>\<rparr>
     else None)"
  by (simp add: Cid_from_content_blake3_def Cid_from_content_hash_def Multihash_from_blake3_def
      Multihash_new_def unwrap_def)

text \<open>
  With a hash of 32 bytes, \<^verbatim>\<open>from_content_blake3\<close> does not panic, its CID comes back from its
  text, and \<^verbatim>\<open>verify_content\<close> accepts exactly the contents of equal hash.
\<close>

theorem content_cid_verifies:
  assumes blake3_length: "\<forall>bs. length (H bs) = 32"
    and base32_inverts: "\<forall>bs. b32 (encode_base32 bs) = Some bs"
  shows "\<exists>c. Cid_from_content_blake3 H data = Some c \<and> Cid_parse hexd b32 (Cid_display c) = Inr c
    \<and> (\<forall>content. Cid_verify_content H c content \<longleftrightarrow> H content = H data)"
proof -
  let ?c = "\<lparr>cid_version = 1, cid_codec = 0x55, cid_multihash = \<lparr>mh_code = 0x1e, mh_digest = H data\<rparr>\<rparr>"
  have "Cid_display ?c = ''bafy'' @ encode_base32 (Cid_to_bytes ?c)"
    by (simp add: Cid_display_def Cid_to_v0_string_def)
  then have "Cid_parse hexd b32 (Cid_display ?c) = Inr ?c"
    using base32_text [of b32 ?c hexd] assms by simp
  moreover have "Cid_verify_content H ?c content \<longleftrightarrow> H content = H data" for content
    using blake3_length by (auto simp: Cid_verify_content_def Let_def)
  ultimately show ?thesis using blake3_length by (simp add: from_content_blake3_cases)
qed

theorem content_cid_verifies_witness:
  "\<exists>c. Cid_from_content_blake3 (\<lambda>bs. replicate 32 (fold (+) bs 0)) [1, 2] = Some c
    \<and> Cid_verify_content (\<lambda>bs. replicate 32 (fold (+) bs 0)) c [2, 1]"
  using content_cid_verifies [of "\<lambda>bs. replicate 32 (fold (+) bs 0)" rfc4648_decode "[1, 2]" "\<lambda>_. None"]
    rfc4648_decode_encode by (auto simp: add.commute)

text \<open>
  A CID received as bytes may carry a digest of any length under any hash code, and
  \<^verbatim>\<open>verify_content\<close> compares only as many bytes as the shorter digest has: for every content
  there is a CID that parses, claims BLAKE3 and is accepted for that content and for every other.
\<close>

theorem empty_digest_verifies_everything:
  "\<exists>c. Cid_from_bytes [0x01, 0x55, 0x1e, 0x00] = Inr c
    \<and> Multihash_code_typed (cid_multihash c) = Some Blake3 \<and> Cid_get_codec c = Some Raw
    \<and> (\<forall>H content. Cid_verify_content H c content)"
proof -
  let ?c = "\<lparr>cid_version = 1, cid_codec = 0x55, cid_multihash = \<lparr>mh_code = 0x1e, mh_digest = []\<rparr>\<rparr>"
  have "Cid_from_bytes [0x01, 0x55, 0x1e, 0x00] = Inr ?c" by code_simp
  then show ?thesis
    by (simp add: Multihash_code_typed_def HashCode_from_u64_def Cid_get_codec_def Codec_from_code_def
        Cid_verify_content_def)
qed

text \<open>
  A multihash made by \<^verbatim>\<open>Multihash::new\<close> has a known code and the digest length of that code,
  and so it keeps them through its bytes; \<^verbatim>\<open>new\<close> fails exactly on the other lengths.
\<close>

theorem multihash_new_typed:
  "(case Multihash_new code digest of
      Inl e \<Rightarrow> e = DigestTooShort (HashCode_digest_len code) (length digest)
        \<and> length digest \<noteq> HashCode_digest_len code
    | Inr m \<Rightarrow> Multihash_code_typed m = Some code \<and> length (mh_digest m) = HashCode_digest_len code
        \<and> Multihash_from_bytes (Multihash_to_bytes m) = Inr m
        \<and> length (Multihash_to_bytes m) = Multihash_encoded_len m)"
proof (cases "length digest = HashCode_digest_len code")
  case True
  let ?m = "\<lparr>mh_code = HashCode_to_u64 code, mh_digest = digest\<rparr>"
  from True have small: "unat (mh_code ?m) < 2 ^ 35" "length (mh_digest ?m) < 2 ^ 35"
    by (cases code; simp)+
  then have "Multihash_from_bytes (Multihash_to_bytes ?m @ []) = Inr ?m"
    by (intro multihash_bytes_round_trip) simp_all
  moreover have "length (Multihash_to_bytes ?m) = Multihash_encoded_len ?m" using small
    by (simp add: Multihash_encoded_len_def Multihash_to_bytes_def varint_len_correct unat_of_nat_small
        encode_varint_acc [of _ "encode_varint c []" for c])
  ultimately show ?thesis using True by (simp add: Multihash_new_def Multihash_code_typed_def)
qed (simp add: Multihash_new_def)

text \<open>\<^verbatim>\<open>encoded_len\<close> is wrong from \<open>2 ^ 35\<close> on, where an integer takes six bytes and more.\<close>

lemma encoded_len_too_small:
  "Multihash_encoded_len \<lparr>mh_code = 2 ^ 35, mh_digest = []\<rparr> = 6
    \<and> length (Multihash_to_bytes \<lparr>mh_code = 2 ^ 35, mh_digest = []\<rparr>) = 7"
  by code_simp

end
