(* ===== verification/Node.thy ===== *)
theory Node
  imports Prelude
begin

text \<open>
  Addressing (\<^verbatim>\<open>crates/a3net-types/src/node.rs\<close>): node identifiers, kept by the code as
  the text of 64 hexadecimal digits, their XOR distance, and the socket addresses of the
  standard library. The \<^verbatim>\<open>hex\<close> crate is not part of the repository: its encoder and
  decoder are the parameters \<open>hex_encode\<close> and \<open>hex_decode\<close>.
\<close>

section \<open>Addresses of the standard library\<close>

datatype ip_addr = V4 "32 word" | V6 "128 word"

type_synonym socket_addr = "ip_addr \<times> u16"

section \<open>Node identifiers\<close>

type_synonym node_id = string
type_synonym hex_decoder = "string \<Rightarrow> bytes option"
type_synonym hex_encoder = "bytes \<Rightarrow> string"

definition NODE_ID_BYTES :: nat where
  "NODE_ID_BYTES = 32"

definition NODE_ID_HEX_LEN :: nat where
  "NODE_ID_HEX_LEN = NODE_ID_BYTES * 2"

datatype adnet_error = InvalidNodeId string | InvalidNodeIdLen nat nat

definition is_ascii_hexdigit :: "char \<Rightarrow> bool" where
  "is_ascii_hexdigit c = (let n = of_char c :: nat in
     (48 \<le> n \<and> n \<le> 57) \<or> (97 \<le> n \<and> n \<le> 102) \<or> (65 \<le> n \<and> n \<le> 70))"

definition to_ascii_lowercase_char :: "char \<Rightarrow> char" where
  "to_ascii_lowercase_char c = (let n = of_char c :: nat in
     if 65 \<le> n \<and> n \<le> 90 then char_of (n + 32) else c)"

definition to_ascii_lowercase :: "string \<Rightarrow> string" where
  "to_ascii_lowercase s = map to_ascii_lowercase_char s"

definition NodeId_from_bytes :: "hex_encoder \<Rightarrow> bytes \<Rightarrow> (adnet_error, node_id) result" where
  "NodeId_from_bytes hex_encode bs =
     (if length bs \<noteq> NODE_ID_BYTES then Inl (InvalidNodeIdLen NODE_ID_BYTES (length bs))
      else Inr (hex_encode bs))"

definition NodeId_from_hex :: "string \<Rightarrow> (adnet_error, node_id) result" where
  "NodeId_from_hex s =
     (if length s \<noteq> NODE_ID_HEX_LEN then Inl (InvalidNodeIdLen NODE_ID_HEX_LEN (length s))
      else if \<not> list_all is_ascii_hexdigit s then Inl (InvalidNodeId s)
      else Inr (to_ascii_lowercase s))"

definition NodeId_short :: "node_id \<Rightarrow> string" where
  "NodeId_short n = take (min 12 (length n)) n"

definition byte_at :: "bytes \<Rightarrow> nat \<Rightarrow> u8" where
  "byte_at bs i = (if i < length bs then bs ! i else 0)"

definition xor_distance :: "hex_decoder \<Rightarrow> node_id \<Rightarrow> node_id \<Rightarrow> bytes" where
  "xor_distance hex_decode self other =
     (let a = (case hex_decode self of Some v \<Rightarrow> v | None \<Rightarrow> []);
          b = (case hex_decode other of Some v \<Rightarrow> v | None \<Rightarrow> []);
          len = max (max (length a) (length b)) NODE_ID_BYTES
      in map (\<lambda>i. xor (byte_at a i) (byte_at b i)) [0..<len])"

lemma length_xor_distance: "NODE_ID_BYTES \<le> length (xor_distance hx a b)"
  by (simp add: xor_distance_def Let_def)

lemma length_xor_distance_32:
  assumes "\<And>x. x \<in> {a, b} \<Longrightarrow> \<exists>v. hx x = Some v \<and> length v = NODE_ID_BYTES"
  shows "length (xor_distance hx a b) = NODE_ID_BYTES"
  using assms [of a] assms [of b] by (auto simp: xor_distance_def Let_def)

lemma xor_distance_comm: "xor_distance hx a b = xor_distance hx b a"
  unfolding xor_distance_def Let_def
  by (intro map_cong arg_cong [where f = "\<lambda>n. [0..<n]"])
    (simp_all add: max.commute xor.commute)

lemma xor_distance_self: "x \<in> set (xor_distance hx a a) \<Longrightarrow> x = 0"
  by (auto simp: xor_distance_def Let_def)

lemma word_xor_eq_0_iff: "xor (x :: 'a :: len word) y = 0 \<longleftrightarrow> x = y"
proof
  assume "xor x y = 0"
  then have "xor (xor x y) y = xor 0 y" by simp
  then show "x = y" by (simp add: xor.assoc)
qed simp

text \<open>
  Two identifiers that decode to equally many bytes are at distance zero exactly when they
  decode to the same bytes.
\<close>

lemma xor_distance_zero_iff:
  assumes "hx a = Some va" and "hx b = Some vb" and "length va = length vb"
  shows "(\<forall>x \<in> set (xor_distance hx a b). x = 0) \<longleftrightarrow> va = vb"
proof -
  have "(\<forall>x \<in> set (xor_distance hx a b). x = 0) \<longleftrightarrow>
      (\<forall>i < max (length va) NODE_ID_BYTES. byte_at va i = byte_at vb i)"
    using assms by (auto simp: xor_distance_def Let_def word_xor_eq_0_iff)
  also have "\<dots> \<longleftrightarrow> va = vb"
    using assms(3) by (auto simp: byte_at_def intro!: nth_equalityI)
  finally show ?thesis .
qed

text \<open>A parsed identifier has 64 lower-case hexadecimal digits; parsing it again gives it back.\<close>

lemma lowercase_idem: "to_ascii_lowercase_char (to_ascii_lowercase_char c) = to_ascii_lowercase_char c"
  by (auto simp: to_ascii_lowercase_char_def Let_def)

lemma lowercase_hexdigit: "is_ascii_hexdigit c \<Longrightarrow> is_ascii_hexdigit (to_ascii_lowercase_char c)"
  by (auto simp: to_ascii_lowercase_char_def is_ascii_hexdigit_def Let_def)

lemma NodeId_from_hex_idem:
  "NodeId_from_hex s = Inr n \<Longrightarrow> NodeId_from_hex n = Inr n \<and> length n = 64"
  by (auto simp: NodeId_from_hex_def to_ascii_lowercase_def lowercase_idem comp_def
      list_all_iff lowercase_hexdigit NODE_ID_HEX_LEN_def NODE_ID_BYTES_def split: if_splits)

end
