(* ===== verification/Dht_Routing.thy ===== *)
theory Dht_Routing
  imports Node "HOL-Library.List_Lexorder"
begin

text \<open>
  The Kademlia routing table (\<^verbatim>\<open>crates/a3net-dht/src/bucket.rs\<close>): contacts, k-buckets
  kept from the least to the most recently seen contact, and the table of 256 buckets. Each
  operation that reads the clock takes the reading \<open>now\<close>; node identifiers are decoded by
  the parameter \<open>hx\<close>, the decoder of the \<^verbatim>\<open>hex\<close> crate. Distances are compared as the code
  compares \<^verbatim>\<open>Vec<u8>\<close>, lexicographically.
\<close>

definition KBUCKET_SIZE :: nat where
  "KBUCKET_SIZE = 20"

record contact =
  c_id :: node_id
  c_addrs :: "socket_addr list"
  c_last_contacted :: instant
  c_last_seen :: instant
  c_trusted :: bool

definition Contact_new :: "node_id \<Rightarrow> socket_addr \<Rightarrow> instant \<Rightarrow> contact" where
  "Contact_new i addr now = \<lparr>c_id = i, c_addrs = [addr], c_last_contacted = now,
     c_last_seen = now, c_trusted = False\<rparr>"

definition Contact_add_addr :: "socket_addr \<Rightarrow> contact \<Rightarrow> contact" where
  "Contact_add_addr addr c =
     (if addr \<notin> set (c_addrs c) then c\<lparr>c_addrs := c_addrs c @ [addr]\<rparr> else c)"

definition Contact_mark_seen :: "instant \<Rightarrow> contact \<Rightarrow> contact" where
  "Contact_mark_seen now c = c\<lparr>c_last_seen := now\<rparr>"

definition Contact_is_alive :: "duration \<Rightarrow> instant \<Rightarrow> contact \<Rightarrow> bool" where
  "Contact_is_alive timeout now c = (now - c_last_seen c < timeout)"

record kbucket =
  kb_contacts :: "contact list"
  kb_pending :: "node_id option"
  kb_last_refresh :: instant

datatype insert_error = BucketFull | SelfContact

definition KBucket_new :: "instant \<Rightarrow> kbucket" where
  "KBucket_new now = \<lparr>kb_contacts = [], kb_pending = None, kb_last_refresh = now\<rparr>"

definition KBucket_is_full :: "kbucket \<Rightarrow> bool" where
  "KBucket_is_full kb = (length (kb_contacts kb) \<ge> KBUCKET_SIZE)"

definition KBucket_set_pending :: "node_id \<Rightarrow> kbucket \<Rightarrow> kbucket" where
  "KBucket_set_pending i kb = kb\<lparr>kb_pending := Some i\<rparr>"

definition KBucket_clear_pending :: "kbucket \<Rightarrow> kbucket" where
  "KBucket_clear_pending kb = kb\<lparr>kb_pending := None\<rparr>"

definition KBucket_find :: "kbucket \<Rightarrow> node_id \<Rightarrow> contact option" where
  "KBucket_find kb i = List.find (\<lambda>c. c_id c = i) (kb_contacts kb)"

definition KBucket_contains :: "kbucket \<Rightarrow> node_id \<Rightarrow> bool" where
  "KBucket_contains kb i = (KBucket_find kb i \<noteq> None)"

fun replace_first :: "node_id \<Rightarrow> contact \<Rightarrow> contact list \<Rightarrow> contact list" where
  "replace_first i c [] = []"
| "replace_first i c (x # xs) = (if c_id x = i then c # xs else x # replace_first i c xs)"

definition KBucket_insert :: "contact \<Rightarrow> kbucket \<Rightarrow> (insert_error, unit) result \<times> kbucket" where
  "KBucket_insert contact kb =
     (case KBucket_find kb (c_id contact) of
        Some existing \<Rightarrow>
          (let c = contact\<lparr>c_last_seen := c_last_seen existing, c_last_contacted := c_last_contacted existing\<rparr>
           in (Inr (), kb\<lparr>kb_contacts := replace_first (c_id contact) c (kb_contacts kb)\<rparr>))
      | None \<Rightarrow>
          if length (kb_contacts kb) \<ge> KBUCKET_SIZE then (Inl BucketFull, kb)
          else (Inr (), kb\<lparr>kb_contacts := kb_contacts kb @ [contact]\<rparr>))"

fun remove_first :: "node_id \<Rightarrow> contact list \<Rightarrow> contact list" where
  "remove_first i [] = []"
| "remove_first i (x # xs) = (if c_id x = i then xs else x # remove_first i xs)"

definition KBucket_mark_seen :: "node_id \<Rightarrow> instant \<Rightarrow> kbucket \<Rightarrow> kbucket" where
  "KBucket_mark_seen i now kb =
     (case KBucket_find kb i of
        None \<Rightarrow> kb
      | Some c \<Rightarrow> kb\<lparr>kb_contacts := remove_first i (kb_contacts kb) @ [Contact_mark_seen now c]\<rparr>)"

definition KBucket_remove :: "node_id \<Rightarrow> kbucket \<Rightarrow> bool \<times> kbucket" where
  "KBucket_remove i kb =
     (case KBucket_find kb i of
        Some _ \<Rightarrow> (True, kb\<lparr>kb_contacts := remove_first i (kb_contacts kb)\<rparr>)
      | None \<Rightarrow> (False, kb))"

definition KBucket_needs_refresh :: "duration \<Rightarrow> instant \<Rightarrow> kbucket \<Rightarrow> bool" where
  "KBucket_needs_refresh interval now kb = (now - kb_last_refresh kb \<ge> interval)"

definition KBucket_oldest :: "kbucket \<Rightarrow> contact option" where
  "KBucket_oldest kb = (case kb_contacts kb of [] \<Rightarrow> None | c # _ \<Rightarrow> Some c)"

definition KBucket_evict_oldest :: "kbucket \<Rightarrow> contact option \<times> kbucket" where
  "KBucket_evict_oldest kb = (KBucket_oldest kb, kb\<lparr>kb_contacts := tl (kb_contacts kb)\<rparr>)"

definition KBucket_closest_to :: "hex_decoder \<Rightarrow> node_id \<Rightarrow> kbucket \<Rightarrow> contact list" where
  "KBucket_closest_to hx target kb = sort_key (\<lambda>c. xor_distance hx (c_id c) target) (kb_contacts kb)"

definition KBucket_mark_refreshed :: "instant \<Rightarrow> kbucket \<Rightarrow> kbucket" where
  "KBucket_mark_refreshed now kb = kb\<lparr>kb_last_refresh := now\<rparr>"

section \<open>The table\<close>

record routing_table =
  rt_local_id :: node_id
  rt_buckets :: "kbucket list"
  rt_bootstrap_nodes :: "contact list"
  rt_contact_timeout :: duration
  rt_refresh_interval :: duration

definition RoutingTable_new :: "node_id \<Rightarrow> instant \<Rightarrow> routing_table" where
  "RoutingTable_new local_id now = \<lparr>rt_local_id = local_id,
     rt_buckets = replicate 256 (KBucket_new now), rt_bootstrap_nodes = [],
     rt_contact_timeout = 600, rt_refresh_interval = 300\<rparr>"

definition set_local_id :: "node_id \<Rightarrow> routing_table \<Rightarrow> routing_table" where
  "set_local_id i rt = rt\<lparr>rt_local_id := i\<rparr>"

definition add_bootstrap_node :: "contact \<Rightarrow> routing_table \<Rightarrow> routing_table" where
  "add_bootstrap_node contact rt =
     rt\<lparr>rt_bootstrap_nodes := rt_bootstrap_nodes rt @ [contact\<lparr>c_trusted := True\<rparr>]\<rparr>"

definition top_set_bit :: "u8 \<Rightarrow> nat option" where
  "top_set_bit byte = List.find (\<lambda>k. and (drop_bit k byte) 1 = 1) (rev [0..<8])"

fun bucket_scan :: "nat \<Rightarrow> bytes \<Rightarrow> nat" where
  "bucket_scan i [] = 255"
| "bucket_scan i (byte # rest) =
     (if byte \<noteq> 0
      then case top_set_bit byte of
             Some k \<Rightarrow> min (i * 8 + (7 - k) + 1) 255
           | None \<Rightarrow> bucket_scan (Suc i) rest
      else bucket_scan (Suc i) rest)"

definition bucket_index :: "hex_decoder \<Rightarrow> node_id \<Rightarrow> node_id \<Rightarrow> nat" where
  "bucket_index hx a b = bucket_scan 0 (xor_distance hx a b)"

definition slot_of :: "hex_decoder \<Rightarrow> routing_table \<Rightarrow> node_id \<Rightarrow> nat" where
  "slot_of hx rt i = min (bucket_index hx (rt_local_id rt) i) 255"

definition bucket_for :: "hex_decoder \<Rightarrow> routing_table \<Rightarrow> node_id \<Rightarrow> kbucket" where
  "bucket_for hx rt i = rt_buckets rt ! slot_of hx rt i"

definition update_bucket :: "nat \<Rightarrow> kbucket \<Rightarrow> routing_table \<Rightarrow> routing_table" where
  "update_bucket k kb rt = rt\<lparr>rt_buckets := (rt_buckets rt)[k := kb]\<rparr>"

definition RoutingTable_contains :: "hex_decoder \<Rightarrow> routing_table \<Rightarrow> node_id \<Rightarrow> bool" where
  "RoutingTable_contains hx rt i =
     (KBucket_find (bucket_for hx rt i) i \<noteq> None \<or> list_ex (\<lambda>c. c_id c = i) (rt_bootstrap_nodes rt))"

definition RoutingTable_insert ::
  "hex_decoder \<Rightarrow> contact \<Rightarrow> routing_table \<Rightarrow> (insert_error, unit) result \<times> routing_table" where
  "RoutingTable_insert hx contact rt =
     (if c_id contact = rt_local_id rt then (Inl SelfContact, rt)
      else let (r, kb) = KBucket_insert contact (bucket_for hx rt (c_id contact))
           in (r, update_bucket (slot_of hx rt (c_id contact)) kb rt))"

definition RoutingTable_mark_seen :: "hex_decoder \<Rightarrow> node_id \<Rightarrow> instant \<Rightarrow> routing_table \<Rightarrow> routing_table" where
  "RoutingTable_mark_seen hx i now rt =
     update_bucket (slot_of hx rt i) (KBucket_mark_seen i now (bucket_for hx rt i)) rt"

definition RoutingTable_remove :: "hex_decoder \<Rightarrow> node_id \<Rightarrow> routing_table \<Rightarrow> bool \<times> routing_table" where
  "RoutingTable_remove hx i rt =
     (let (r, kb) = KBucket_remove i (bucket_for hx rt i) in (r, update_bucket (slot_of hx rt i) kb rt))"

definition all_contacts :: "routing_table \<Rightarrow> contact list" where
  "all_contacts rt = concat (map kb_contacts (rt_buckets rt)) @ rt_bootstrap_nodes rt"

definition closest :: "hex_decoder \<Rightarrow> node_id \<Rightarrow> nat \<Rightarrow> routing_table \<Rightarrow> contact list" where
  "closest hx target k rt =
     take k (sort_key (\<lambda>c. xor_distance hx (c_id c) target)
       (filter (\<lambda>c. c_id c \<noteq> rt_local_id rt) (all_contacts rt)))"

definition num_contacts :: "routing_table \<Rightarrow> nat" where
  "num_contacts rt =
     sum_list (map (\<lambda>b. length (kb_contacts b)) (rt_buckets rt)) + length (rt_bootstrap_nodes rt)"

definition buckets_needing_refresh :: "instant \<Rightarrow> routing_table \<Rightarrow> nat list" where
  "buckets_needing_refresh now rt =
     map fst (filter (\<lambda>(i, b). KBucket_needs_refresh (rt_refresh_interval rt) now b)
       (enumerate 0 (rt_buckets rt)))"

definition bucket_dead :: "duration \<Rightarrow> instant \<Rightarrow> kbucket \<Rightarrow> node_id list" where
  "bucket_dead timeout now kb =
     map c_id (filter (\<lambda>c. \<not> Contact_is_alive timeout now c) (kb_contacts kb))"

definition bucket_remove_dead :: "duration \<Rightarrow> instant \<Rightarrow> kbucket \<Rightarrow> kbucket" where
  "bucket_remove_dead timeout now kb =
     fold (\<lambda>i b. snd (KBucket_remove i b)) (bucket_dead timeout now kb) kb"

definition remove_dead_contacts :: "instant \<Rightarrow> routing_table \<Rightarrow> node_id list \<times> routing_table" where
  "remove_dead_contacts now rt =
     (concat (map (bucket_dead (rt_contact_timeout rt) now) (rt_buckets rt)),
      rt\<lparr>rt_buckets := map (bucket_remove_dead (rt_contact_timeout rt) now) (rt_buckets rt)\<rparr>)"

definition mark_bucket_refreshed :: "nat \<Rightarrow> instant \<Rightarrow> routing_table \<Rightarrow> routing_table" where
  "mark_bucket_refreshed idx now rt =
     (if idx < 256 then update_bucket idx (KBucket_mark_refreshed now (rt_buckets rt ! idx)) rt else rt)"

section \<open>Bucket invariant\<close>

definition KBucket_inv :: "kbucket \<Rightarrow> bool" where
  "KBucket_inv kb = (distinct (map c_id (kb_contacts kb)) \<and> length (kb_contacts kb) \<le> KBUCKET_SIZE)"

lemma find_id_Some:
  "distinct (map c_id cs) \<Longrightarrow> List.find (\<lambda>c. c_id c = i) cs = Some c \<longleftrightarrow> c \<in> set cs \<and> c_id c = i"
  by (induction cs) (auto simp: image_iff)

lemma find_id_None: "List.find (\<lambda>c. c_id c = i) cs = None \<longleftrightarrow> i \<notin> c_id ` set cs"
  by (auto simp: find_None_iff)

lemma remove_first_filter:
  "distinct (map c_id cs) \<Longrightarrow> remove_first i cs = filter (\<lambda>c. c_id c \<noteq> i) cs"
proof (induction cs)
  case Nil
  then show ?case by simp
next
  case (Cons c cs)
  have "filter (\<lambda>x. c_id x \<noteq> c_id c) cs = cs" if "c_id c \<notin> c_id ` set cs"
    using that by (intro filter_True ballI) (metis imageI)
  with Cons show ?case by auto
qed

lemma map_id_replace_first: "c_id c = i \<Longrightarrow> map c_id (replace_first i c cs) = map c_id cs"
  by (induction cs) auto

lemma find_replace_first:
  "c_id c = i \<Longrightarrow> List.find (\<lambda>x. c_id x = j) (replace_first i c cs) =
    (if j = i \<and> i \<in> c_id ` set cs then Some c else List.find (\<lambda>x. c_id x = j) cs)"
  by (induction cs) auto

lemma find_filter_id:
  "List.find (\<lambda>c. c_id c = j) (filter (\<lambda>c. c_id c \<noteq> i) cs) =
    (if j = i then None else List.find (\<lambda>c. c_id c = j) cs)"
  by (induction cs) auto

lemma find_append: "List.find P (xs @ ys) = (case List.find P xs of Some x \<Rightarrow> Some x | None \<Rightarrow> List.find P ys)"
  by (induction xs) auto

lemma KBucket_remove_contacts:
  "distinct (map c_id (kb_contacts kb)) \<Longrightarrow>
    kb_contacts (snd (KBucket_remove i kb)) = filter (\<lambda>c. c_id c \<noteq> i) (kb_contacts kb)"
  by (auto simp: KBucket_remove_def KBucket_find_def remove_first_filter find_id_None
      split: option.splits intro!: filter_True [symmetric])

lemma distinct_map_filter_id: "distinct (map f xs) \<Longrightarrow> distinct (map f (filter P xs))"
  by (induction xs) auto

lemma KBucket_inv_remove: "KBucket_inv kb \<Longrightarrow> KBucket_inv (snd (KBucket_remove i kb))"
  by (auto simp: KBucket_inv_def KBucket_remove_contacts distinct_map_filter_id
      intro: le_trans [OF length_filter_le])

lemma KBucket_find_remove:
  "KBucket_inv kb \<Longrightarrow>
    KBucket_find (snd (KBucket_remove i kb)) j = (if j = i then None else KBucket_find kb j)"
  by (simp add: KBucket_inv_def KBucket_find_def KBucket_remove_contacts find_filter_id)

interpretation bucket_table: keyed_table KBucket_find "\<lambda>i kb. snd (KBucket_remove i kb)" KBucket_inv
  by unfold_locales (simp_all add: KBucket_inv_remove KBucket_find_remove)

lemma KBucket_inv_insert: "KBucket_inv kb \<Longrightarrow> KBucket_inv (snd (KBucket_insert c kb))"
proof -
  assume inv: "KBucket_inv kb"
  show ?thesis
  proof (cases "KBucket_find kb (c_id c)")
    case None
    then have "c_id c \<notin> c_id ` set (kb_contacts kb)" by (simp add: KBucket_find_def find_id_None)
    with None inv show ?thesis by (simp add: KBucket_inv_def KBucket_insert_def)
  next
    case (Some e)
    let ?c = "c\<lparr>c_last_seen := c_last_seen e, c_last_contacted := c_last_contacted e\<rparr>"
    have "map c_id (replace_first (c_id c) ?c (kb_contacts kb)) = map c_id (kb_contacts kb)"
      by (rule map_id_replace_first) simp
    moreover from this have "length (replace_first (c_id c) ?c (kb_contacts kb)) = length (kb_contacts kb)"
      by (metis length_map)
    ultimately show ?thesis using inv Some by (simp add: KBucket_inv_def KBucket_insert_def)
  qed
qed

lemma KBucket_find_insert:
  assumes "KBucket_inv kb" and "fst (KBucket_insert c kb) = Inr ()"
  shows "KBucket_find (snd (KBucket_insert c kb)) j =
    (if j = c_id c
     then Some (case KBucket_find kb (c_id c) of
        None \<Rightarrow> c
      | Some e \<Rightarrow> c\<lparr>c_last_seen := c_last_seen e, c_last_contacted := c_last_contacted e\<rparr>)
     else KBucket_find kb j)"
proof (cases "KBucket_find kb (c_id c)")
  case None
  with assms(2) show ?thesis
    by (auto simp: KBucket_insert_def KBucket_find_def find_append split: if_splits option.splits)
next
  case (Some e)
  then have "c_id c \<in> c_id ` set (kb_contacts kb)"
    by (metis KBucket_find_def find_id_None option.distinct(1))
  with Some show ?thesis
    by (simp add: KBucket_insert_def KBucket_find_def find_replace_first Let_def)
qed

lemma length_remove_first:
  "i \<in> c_id ` set cs \<Longrightarrow> Suc (length (remove_first i cs)) = length cs"
  by (induction cs) auto

lemma KBucket_inv_mark_seen:
  assumes "KBucket_inv kb"
  shows "KBucket_inv (KBucket_mark_seen i now kb)"
proof (cases "KBucket_find kb i")
  case None
  then show ?thesis using assms by (simp add: KBucket_mark_seen_def)
next
  case (Some c)
  then have c: "c \<in> set (kb_contacts kb)" "c_id c = i"
    by (auto simp: KBucket_find_def dest: find_SomeD)
  have "i \<in> c_id ` set (kb_contacts kb)" using c by blast
  then have len: "Suc (length (remove_first i (kb_contacts kb))) = length (kb_contacts kb)"
    by (rule length_remove_first)
  then show ?thesis
    using assms c Some
    by (auto simp: KBucket_inv_def KBucket_mark_seen_def remove_first_filter distinct_map_filter_id
        Contact_mark_seen_def)
qed

lemma KBucket_find_mark_seen:
  assumes "KBucket_inv kb"
  shows "KBucket_find (KBucket_mark_seen i now kb) j =
    (if j = i then map_option (Contact_mark_seen now) (KBucket_find kb i) else KBucket_find kb j)"
proof (cases "KBucket_find kb i")
  case None
  then show ?thesis by (simp add: KBucket_mark_seen_def)
next
  case (Some c)
  then have "c_id (Contact_mark_seen now c) = i"
    by (auto simp: KBucket_find_def Contact_mark_seen_def dest: find_SomeD)
  with Some assms show ?thesis
    by (auto simp: KBucket_inv_def KBucket_mark_seen_def KBucket_find_def remove_first_filter
        find_append find_filter_id split: option.splits)
qed


section \<open>Bucket index\<close>

text \<open>
  The distance read as a big-endian number. The position of the first set bit, counted from
  the most significant one, is the bucket index less one.
\<close>

lemma ex_log2: "0 < n \<Longrightarrow> \<exists>k. 2 ^ k \<le> n \<and> n < (2::nat) ^ Suc k"
  using ex_power_ivl1 [of 2 n] by simp

lemma find_rev_upt:
  "List.find P (rev [0..<m]) = Some k \<longleftrightarrow> k < m \<and> P k \<and> (\<forall>j. k < j \<and> j < m \<longrightarrow> \<not> P j)"
  by (induction m) (auto simp: less_Suc_eq)

lemma bit_test: "and (drop_bit k byte) 1 = (1 :: u8) \<longleftrightarrow> odd (unat byte div 2 ^ k)" if "k < 8"
proof -
  have "and (drop_bit k byte) 1 = (1 :: u8) \<longleftrightarrow> bit byte k"
    by (simp only: bit_iff_and_drop_bit_eq_1)
  also have "\<dots> \<longleftrightarrow> bit (unat byte) k"
    using that by (simp add: bit_unsigned_iff possible_bit_def)
  finally show ?thesis by (simp add: bit_iff_odd)
qed

lemma top_set_bit_Some:
  assumes "byte \<noteq> 0"
  shows "\<exists>k. top_set_bit byte = Some k \<and> k < 8 \<and> 2 ^ k \<le> unat byte \<and> unat byte < 2 ^ Suc k"
proof -
  have "0 < unat byte" using assms by (simp add: unat_gt_0)
  then obtain k where k: "2 ^ k \<le> unat byte" "unat byte < 2 ^ Suc k" using ex_log2 by blast
  have "(2::nat) ^ k < 2 ^ 8" using k(1) unat_bound [of byte] by simp
  then have "k < 8" by (rule power_less_imp_less_exp [rotated]) simp
  have "unat byte div 2 ^ k = 1"
    using k by (intro div_nat_eqI) simp_all
  then have "odd (unat byte div 2 ^ k)" by simp
  moreover have "\<not> odd (unat byte div 2 ^ j)" if "k < j" for j
  proof -
    have "(2::nat) ^ Suc k \<le> 2 ^ j" using that by (intro power_increasing) auto
    with k(2) have "unat byte div 2 ^ j = 0" by simp
    then show ?thesis by simp
  qed
  ultimately have "top_set_bit byte = Some k"
    unfolding top_set_bit_def find_rev_upt using \<open>k < 8\<close> bit_test by simp
  with k \<open>k < 8\<close> show ?thesis by blast
qed

lemma bucket_scan_log:
  assumes "be_nat bs \<noteq> 0"
  shows "\<exists>m. 2 ^ m \<le> be_nat bs \<and> be_nat bs < 2 ^ Suc m \<and> m < 8 * length bs \<and>
    bucket_scan i bs = min (8 * i + 8 * length bs - m) 255"
  using assms
proof (induction bs arbitrary: i)
  case Nil
  then show ?case by simp
next
  case (Cons b bs)
  show ?case
  proof (cases "b = 0")
    case True
    with Cons obtain m where "2 ^ m \<le> be_nat bs" "be_nat bs < 2 ^ Suc m" "m < 8 * length bs"
      "bucket_scan (Suc i) bs = min (8 * Suc i + 8 * length bs - m) 255" by fastforce
    with True show ?thesis by (intro exI [of _ m]) (simp add: algebra_simps)
  next
    case False
    then obtain k where k: "top_set_bit b = Some k" "k < 8" "2 ^ k \<le> unat b" "unat b < 2 ^ Suc k"
      using top_set_bit_Some by blast
    let ?m = "8 * length bs + k"
    have pow: "(256::nat) ^ length bs = 2 ^ (8 * length bs)" by (simp add: power_mult)
    have "2 ^ ?m = 2 ^ k * (256::nat) ^ length bs" by (simp add: pow power_add)
    also have "\<dots> \<le> unat b * 256 ^ length bs" using k(3) by (rule mult_right_mono) simp
    finally have lo: "2 ^ ?m \<le> be_nat (b # bs)" by simp
    have "be_nat (b # bs) < (unat b + 1) * 256 ^ length bs" using be_nat_bound [of bs] by simp
    also have "\<dots> \<le> 2 ^ Suc k * 256 ^ length bs" using k(4) by (intro mult_right_mono) simp_all
    also have "\<dots> = 2 ^ Suc ?m" by (simp add: pow power_add)
    finally have hi: "be_nat (b # bs) < 2 ^ Suc ?m" .
    have "bucket_scan i (b # bs) = min (8 * i + 8 * length (b # bs) - ?m) 255"
      using False k(1,2) by simp
    with lo hi k(2) show ?thesis by (intro exI [of _ ?m]) simp
  qed
qed

lemma bucket_scan_zero: "be_nat bs = 0 \<Longrightarrow> bucket_scan i bs = 255"
  by (induction bs arbitrary: i) (auto simp: unat_eq_0)

lemma bucket_scan_bounds: "1 \<le> bucket_scan i bs \<and> bucket_scan i bs \<le> 255"
proof (cases "be_nat bs = 0")
  case True
  then show ?thesis by (simp add: bucket_scan_zero)
next
  case False
  then show ?thesis using bucket_scan_log [of bs i] by auto
qed

lemma log2_mono:
  assumes "2 ^ m \<le> x" and "y < (2::nat) ^ Suc n" and "x \<le> y"
  shows "m \<le> n"
proof -
  have "(2::nat) ^ m < 2 ^ Suc n" using assms by linarith
  then have "m < Suc n" using power_less_imp_less_exp [of "2::nat" m "Suc n"] by simp
  then show ?thesis by simp
qed

lemma bucket_scan_antimono:
  assumes "length xs = length ys" and "be_nat xs \<le> be_nat ys"
  shows "bucket_scan i ys \<le> bucket_scan i xs"
proof (cases "be_nat xs = 0")
  case True
  then show ?thesis using bucket_scan_bounds by (simp add: bucket_scan_zero)
next
  case False
  with assms(2) have "be_nat ys \<noteq> 0" by linarith
  obtain m where m: "2 ^ m \<le> be_nat xs" "bucket_scan i xs = min (8 * i + 8 * length xs - m) 255"
    using bucket_scan_log [OF False] by blast
  obtain n where n: "be_nat ys < 2 ^ Suc n" "bucket_scan i ys = min (8 * i + 8 * length ys - n) 255"
    using bucket_scan_log [OF \<open>be_nat ys \<noteq> 0\<close>] by blast
  have "m \<le> n" using log2_mono [OF m(1) n(1) assms(2)] .
  with m(2) n(2) assms(1) show ?thesis by simp
qed


section \<open>Table invariant\<close>

lemma bucket_index_bounds: "1 \<le> bucket_index hx a b" "bucket_index hx a b \<le> 255"
  using bucket_scan_bounds by (simp_all add: bucket_index_def)

lemma slot_of_eq: "slot_of hx rt i = bucket_index hx (rt_local_id rt) i"
  using bucket_index_bounds(2) by (simp add: slot_of_def)

text \<open>
  Every bucket satisfies the bucket invariant, and every contact is in the bucket its distance
  to the local node selects and is not the local node.
\<close>

definition RoutingTable_inv :: "hex_decoder \<Rightarrow> routing_table \<Rightarrow> bool" where
  "RoutingTable_inv hx rt = (length (rt_buckets rt) = 256 \<and>
     (\<forall>k < 256. KBucket_inv (rt_buckets rt ! k) \<and>
        (\<forall>c \<in> set (kb_contacts (rt_buckets rt ! k)).
           c_id c \<noteq> rt_local_id rt \<and> bucket_index hx (rt_local_id rt) (c_id c) = k)))"

lemma inv_update_bucket:
  assumes "RoutingTable_inv hx rt" and "k < 256" and "KBucket_inv kb"
    and "\<And>c. c \<in> set (kb_contacts kb) \<Longrightarrow>
      c_id c \<noteq> rt_local_id rt \<and> bucket_index hx (rt_local_id rt) (c_id c) = k"
  shows "RoutingTable_inv hx (update_bucket k kb rt)"
  using assms by (auto simp: RoutingTable_inv_def update_bucket_def nth_list_update)

lemma slot_less: "slot_of hx rt i < 256"
  using bucket_index_bounds(2) [of hx "rt_local_id rt" i] by (simp add: slot_of_eq)

lemma KBucket_insert_ids: "c_id ` set (kb_contacts (snd (KBucket_insert c kb))) \<subseteq> insert (c_id c) (c_id ` set (kb_contacts kb))"
proof (cases "KBucket_find kb (c_id c)")
  case None
  then show ?thesis by (auto simp: KBucket_insert_def)
next
  case (Some e)
  let ?c = "c\<lparr>c_last_seen := c_last_seen e, c_last_contacted := c_last_contacted e\<rparr>"
  have "map c_id (replace_first (c_id c) ?c (kb_contacts kb)) = map c_id (kb_contacts kb)"
    by (rule map_id_replace_first) simp
  then have "c_id ` set (replace_first (c_id c) ?c (kb_contacts kb)) = c_id ` set (kb_contacts kb)"
    by (metis set_map)
  with Some show ?thesis by (auto simp: KBucket_insert_def)
qed

lemma set_remove_first: "set (remove_first i cs) \<subseteq> set cs"
  by (induction cs) auto

lemma KBucket_mark_seen_ids:
  "c_id ` set (kb_contacts (KBucket_mark_seen i now kb)) \<subseteq> c_id ` set (kb_contacts kb)"
  using set_remove_first [of i "kb_contacts kb"]
  by (auto simp: KBucket_mark_seen_def KBucket_find_def Contact_mark_seen_def split: option.splits
      dest!: find_SomeD)

lemma KBucket_remove_ids:
  "c_id ` set (kb_contacts (snd (KBucket_remove i kb))) \<subseteq> c_id ` set (kb_contacts kb)"
  using set_remove_first [of i "kb_contacts kb"]
  by (auto simp: KBucket_remove_def split: option.splits)

lemma bucket_for_inv:
  assumes "RoutingTable_inv hx rt"
  shows "KBucket_inv (bucket_for hx rt i)"
    and "c \<in> set (kb_contacts (bucket_for hx rt i)) \<Longrightarrow>
      c_id c \<noteq> rt_local_id rt \<and> bucket_index hx (rt_local_id rt) (c_id c) = slot_of hx rt i"
  using assms slot_less [of hx rt i] by (simp_all add: RoutingTable_inv_def bucket_for_def)

lemma inv_bucket_ids:
  assumes "RoutingTable_inv hx rt" and "KBucket_inv kb"
    and "c_id ` set (kb_contacts kb) \<subseteq> insert j (c_id ` set (kb_contacts (bucket_for hx rt i)))"
    and "j \<noteq> rt_local_id rt \<and> bucket_index hx (rt_local_id rt) j = slot_of hx rt i"
  shows "RoutingTable_inv hx (update_bucket (slot_of hx rt i) kb rt)"
proof (rule inv_update_bucket [OF assms(1) slot_less assms(2)])
  fix c assume "c \<in> set (kb_contacts kb)"
  then have "c_id c = j \<or> (\<exists>d \<in> set (kb_contacts (bucket_for hx rt i)). c_id c = c_id d)"
    using assms(3) by blast
  then show "c_id c \<noteq> rt_local_id rt \<and> bucket_index hx (rt_local_id rt) (c_id c) = slot_of hx rt i"
    using assms(4) bucket_for_inv(2) [OF assms(1)] by metis
qed

lemma inv_same_ids:
  assumes "RoutingTable_inv hx rt" and "KBucket_inv kb"
    and "c_id ` set (kb_contacts kb) \<subseteq> c_id ` set (kb_contacts (bucket_for hx rt i))"
  shows "RoutingTable_inv hx (update_bucket (slot_of hx rt i) kb rt)"
proof (rule inv_update_bucket [OF assms(1) slot_less assms(2)])
  fix c assume "c \<in> set (kb_contacts kb)"
  then obtain d where "d \<in> set (kb_contacts (bucket_for hx rt i))" "c_id c = c_id d"
    using assms(3) by blast
  then show "c_id c \<noteq> rt_local_id rt \<and> bucket_index hx (rt_local_id rt) (c_id c) = slot_of hx rt i"
    using bucket_for_inv(2) [OF assms(1)] by metis
qed

lemma inv_RoutingTable_new: "RoutingTable_inv hx (RoutingTable_new i now)"
  by (simp add: RoutingTable_inv_def RoutingTable_new_def KBucket_new_def KBucket_inv_def)

lemma RoutingTable_insert_eq:
  "c_id c \<noteq> rt_local_id rt \<Longrightarrow> RoutingTable_insert hx c rt =
    (fst (KBucket_insert c (bucket_for hx rt (c_id c))),
     update_bucket (slot_of hx rt (c_id c)) (snd (KBucket_insert c (bucket_for hx rt (c_id c)))) rt)"
  by (simp add: RoutingTable_insert_def split: prod.splits)

lemma inv_RoutingTable_insert:
  assumes "RoutingTable_inv hx rt"
  shows "RoutingTable_inv hx (snd (RoutingTable_insert hx c rt))"
proof (cases "c_id c = rt_local_id rt")
  case True
  then show ?thesis using assms by (simp add: RoutingTable_insert_def)
next
  case False
  then show ?thesis
    using assms inv_bucket_ids [OF assms KBucket_inv_insert [OF bucket_for_inv(1) [OF assms]] KBucket_insert_ids]
    by (simp add: RoutingTable_insert_eq slot_of_eq)
qed

lemma inv_RoutingTable_mark_seen:
  "RoutingTable_inv hx rt \<Longrightarrow> RoutingTable_inv hx (RoutingTable_mark_seen hx i now rt)"
  unfolding RoutingTable_mark_seen_def
  by (intro inv_same_ids KBucket_inv_mark_seen KBucket_mark_seen_ids bucket_for_inv(1))

lemma RoutingTable_remove_eq:
  "snd (RoutingTable_remove hx i rt) =
    update_bucket (slot_of hx rt i) (snd (KBucket_remove i (bucket_for hx rt i))) rt"
  by (simp add: RoutingTable_remove_def split: prod.splits)

lemma inv_RoutingTable_remove:
  "RoutingTable_inv hx rt \<Longrightarrow> RoutingTable_inv hx (snd (RoutingTable_remove hx i rt))"
  unfolding RoutingTable_remove_eq
  by (intro inv_same_ids KBucket_inv_remove KBucket_remove_ids bucket_for_inv(1))

lemma inv_mark_bucket_refreshed:
  "RoutingTable_inv hx rt \<Longrightarrow> RoutingTable_inv hx (mark_bucket_refreshed k now rt)"
  by (auto simp: mark_bucket_refreshed_def RoutingTable_inv_def update_bucket_def nth_list_update
      KBucket_mark_refreshed_def KBucket_inv_def)

lemma inv_add_bootstrap_node:
  "RoutingTable_inv hx rt \<Longrightarrow> RoutingTable_inv hx (add_bootstrap_node c rt)"
  by (simp add: add_bootstrap_node_def RoutingTable_inv_def)

text \<open>Removing the dead contacts of a bucket leaves exactly the live ones.\<close>

lemma fold_remove_contacts:
  "distinct (map c_id (kb_contacts kb)) \<Longrightarrow>
    kb_contacts (fold (\<lambda>i b. snd (KBucket_remove i b)) is kb) =
      filter (\<lambda>c. c_id c \<notin> set is) (kb_contacts kb)"
  by (induction "is" arbitrary: kb)
    (simp_all add: KBucket_remove_contacts distinct_map_filter_id conj_commute)

lemma bucket_remove_dead_contacts:
  assumes "KBucket_inv kb"
  shows "kb_contacts (bucket_remove_dead t now kb) = filter (Contact_is_alive t now) (kb_contacts kb)"
proof -
  have d: "distinct (map c_id (kb_contacts kb))" using assms by (simp add: KBucket_inv_def)
  have "c_id c \<notin> set (bucket_dead t now kb) \<longleftrightarrow> Contact_is_alive t now c"
    if "c \<in> set (kb_contacts kb)" for c
    using d that by (auto simp: bucket_dead_def distinct_map dest: inj_onD)
  then show ?thesis
    unfolding bucket_remove_dead_def fold_remove_contacts [OF d] by (intro filter_cong) simp_all
qed

lemma inv_remove_dead_contacts:
  assumes "RoutingTable_inv hx rt"
  shows "RoutingTable_inv hx (snd (remove_dead_contacts now rt))"
proof -
  have "KBucket_inv (bucket_remove_dead t now kb)" if "KBucket_inv kb" for t kb
    using bucket_table.inv_remove_all [OF that] by (simp add: bucket_remove_dead_def)
  with assms show ?thesis
    by (auto simp: RoutingTable_inv_def remove_dead_contacts_def bucket_remove_dead_contacts)
qed

datatype routing_op =
    SetLocalId node_id
  | AddBootstrap contact
  | Insert contact
  | MarkSeen node_id instant
  | RemoveContact node_id
  | RemoveDead instant
  | MarkRefreshed nat instant

fun RoutingTable_step :: "hex_decoder \<Rightarrow> routing_op \<Rightarrow> routing_table \<Rightarrow> routing_table" where
  "RoutingTable_step hx (SetLocalId i) rt = set_local_id i rt"
| "RoutingTable_step hx (AddBootstrap c) rt = add_bootstrap_node c rt"
| "RoutingTable_step hx (Insert c) rt = snd (RoutingTable_insert hx c rt)"
| "RoutingTable_step hx (MarkSeen i now) rt = RoutingTable_mark_seen hx i now rt"
| "RoutingTable_step hx (RemoveContact i) rt = snd (RoutingTable_remove hx i rt)"
| "RoutingTable_step hx (RemoveDead now) rt = snd (remove_dead_contacts now rt)"
| "RoutingTable_step hx (MarkRefreshed k now) rt = mark_bucket_refreshed k now rt"

text \<open>
  The shape of the table, which every operation keeps. The place of the contacts depends on the
  local identifier: it is kept as long as the identifier is not changed while contacts are held.
\<close>

definition RoutingTable_shape :: "routing_table \<Rightarrow> bool" where
  "RoutingTable_shape rt = (length (rt_buckets rt) = 256 \<and> list_all KBucket_inv (rt_buckets rt))"

fun rehomes :: "hex_decoder \<Rightarrow> routing_op list \<Rightarrow> routing_table \<Rightarrow> bool" where
  "rehomes hx [] rt = False"
| "rehomes hx (p # ps) rt =
     ((case p of SetLocalId i \<Rightarrow> list_ex (\<lambda>b. kb_contacts b \<noteq> []) (rt_buckets rt) | _ \<Rightarrow> False) \<or>
      rehomes hx ps (RoutingTable_step hx p rt))"

lemma shape_bucket_for: "RoutingTable_shape rt \<Longrightarrow> KBucket_inv (bucket_for hx rt i)"
  using slot_less [of hx rt i] by (simp add: RoutingTable_shape_def bucket_for_def list_all_length)

lemma shape_update: "RoutingTable_shape rt \<Longrightarrow> KBucket_inv kb \<Longrightarrow> RoutingTable_shape (update_bucket k kb rt)"
  using set_update_subset_insert [of "rt_buckets rt" k kb] by (auto simp: RoutingTable_shape_def update_bucket_def list_all_iff)

lemma inv_shape: "RoutingTable_inv hx rt \<Longrightarrow> RoutingTable_shape rt"
  by (simp add: RoutingTable_inv_def RoutingTable_shape_def list_all_length)

lemma shape_RoutingTable_insert: "RoutingTable_shape rt \<Longrightarrow> RoutingTable_shape (snd (RoutingTable_insert hx c rt))"
  by (cases "c_id c = rt_local_id rt")
    (auto simp: RoutingTable_insert_eq intro!: shape_update KBucket_inv_insert shape_bucket_for, simp add: RoutingTable_insert_def)

lemma shape_remove_dead: "RoutingTable_shape rt \<Longrightarrow> RoutingTable_shape (snd (remove_dead_contacts now rt))"
  by (auto simp: RoutingTable_shape_def remove_dead_contacts_def list_all_iff bucket_remove_dead_def intro!: bucket_table.inv_remove_all)

lemma shape_mark_refreshed: "RoutingTable_shape rt \<Longrightarrow> RoutingTable_shape (mark_bucket_refreshed k now rt)"
  by (auto simp: mark_bucket_refreshed_def RoutingTable_shape_def list_all_length KBucket_mark_refreshed_def KBucket_inv_def
      update_bucket_def nth_list_update)

interpretation routing_ops: op_machine "\<lambda>rt. \<exists>i now. rt = RoutingTable_new i now"
  "RoutingTable_step hx" RoutingTable_shape for hx
proof
  show "RoutingTable_shape s" if "\<exists>i now. s = RoutingTable_new i now" for s
    using that inv_shape [OF inv_RoutingTable_new] by blast
  show "RoutingTable_shape (RoutingTable_step hx p s)" if "RoutingTable_shape s" for p s
    using that
    by (cases p) (simp_all add: shape_RoutingTable_insert shape_remove_dead shape_mark_refreshed RoutingTable_mark_seen_def
        RoutingTable_remove_eq shape_update shape_bucket_for KBucket_inv_mark_seen KBucket_inv_remove,
        simp_all add: RoutingTable_shape_def set_local_id_def add_bootstrap_node_def)
qed

lemma inv_set_local_id:
  "RoutingTable_inv hx rt \<Longrightarrow> \<not> list_ex (\<lambda>b. kb_contacts b \<noteq> []) (rt_buckets rt) \<Longrightarrow> RoutingTable_inv hx (set_local_id i rt)"
  by (auto simp: RoutingTable_inv_def set_local_id_def list_ex_length)

lemma inv_RoutingTable_step:
  assumes "RoutingTable_inv hx rt" and "\<not> rehomes hx [p] rt"
  shows "RoutingTable_inv hx (RoutingTable_step hx p rt)"
  using assms
  by (cases p) (simp_all add: inv_set_local_id inv_add_bootstrap_node inv_RoutingTable_insert
      inv_RoutingTable_mark_seen inv_RoutingTable_remove inv_remove_dead_contacts inv_mark_bucket_refreshed)

lemma inv_RoutingTable_run:
  "RoutingTable_inv hx rt \<Longrightarrow> \<not> rehomes hx ops rt \<Longrightarrow> RoutingTable_inv hx (fold (RoutingTable_step hx) ops rt)"
  by (induction ops arbitrary: rt) (simp_all add: inv_RoutingTable_step)


section \<open>Lookups\<close>

definition RoutingTable_find :: "hex_decoder \<Rightarrow> routing_table \<Rightarrow> node_id \<Rightarrow> contact option" where
  "RoutingTable_find hx rt i = KBucket_find (bucket_for hx rt i) i"

lemma update_bucket_local [simp]: "rt_local_id (update_bucket k kb rt) = rt_local_id rt"
  by (simp add: update_bucket_def)

lemma find_update_bucket:
  assumes "RoutingTable_inv hx rt"
  shows "RoutingTable_find hx (update_bucket (slot_of hx rt i) kb rt) j =
    (if slot_of hx rt j = slot_of hx rt i then KBucket_find kb j else RoutingTable_find hx rt j)"
proof -
  have "length (rt_buckets rt) = 256" using assms by (simp add: RoutingTable_inv_def)
  moreover have "slot_of hx (update_bucket (slot_of hx rt i) kb rt) j = slot_of hx rt j"
    by (simp add: slot_of_eq)
  ultimately show ?thesis
    using slot_less [of hx rt]
    by (simp add: RoutingTable_find_def bucket_for_def update_bucket_def nth_list_update)
qed

lemma bucket_for_cong: "slot_of hx rt j = slot_of hx rt i \<Longrightarrow> bucket_for hx rt j = bucket_for hx rt i"
  by (simp add: bucket_for_def)

lemma RoutingTable_find_remove:
  assumes "RoutingTable_inv hx rt"
  shows "RoutingTable_find hx (snd (RoutingTable_remove hx i rt)) j =
    (if j = i then None else RoutingTable_find hx rt j)"
  using bucket_for_cong [of hx rt j i]
  by (simp add: RoutingTable_remove_eq find_update_bucket [OF assms]
      KBucket_find_remove [OF bucket_for_inv(1) [OF assms]])
    (simp add: RoutingTable_find_def)

interpretation routing_lookup: keyed_table "RoutingTable_find hx"
  "\<lambda>i rt. snd (RoutingTable_remove hx i rt)" "RoutingTable_inv hx" for hx
  by unfold_locales (simp_all add: inv_RoutingTable_remove RoutingTable_find_remove)

lemma RoutingTable_find_insert:
  assumes "RoutingTable_inv hx rt" and "fst (RoutingTable_insert hx c rt) = Inr ()"
  shows "RoutingTable_find hx (snd (RoutingTable_insert hx c rt)) j =
    (if j = c_id c
     then Some (case RoutingTable_find hx rt (c_id c) of
        None \<Rightarrow> c
      | Some e \<Rightarrow> c\<lparr>c_last_seen := c_last_seen e, c_last_contacted := c_last_contacted e\<rparr>)
     else RoutingTable_find hx rt j)"
proof -
  have ne: "c_id c \<noteq> rt_local_id rt"
    using assms(2) by (auto simp: RoutingTable_insert_def)
  then have ok: "fst (KBucket_insert c (bucket_for hx rt (c_id c))) = Inr ()"
    using assms(2) by (simp add: RoutingTable_insert_eq)
  show ?thesis
    using bucket_for_cong [of hx rt j "c_id c"] KBucket_find_insert [OF bucket_for_inv(1) [OF assms(1)] ok]
    by (simp add: RoutingTable_insert_eq [OF ne] find_update_bucket [OF assms(1)])
      (simp add: RoutingTable_find_def)
qed

lemma RoutingTable_find_iff:
  assumes "RoutingTable_inv hx rt"
  shows "RoutingTable_find hx rt i = Some c \<longleftrightarrow>
    c \<in> set (concat (map kb_contacts (rt_buckets rt))) \<and> c_id c = i"
proof
  assume "RoutingTable_find hx rt i = Some c"
  then have "c \<in> set (kb_contacts (bucket_for hx rt i))" and "c_id c = i"
    by (auto simp: RoutingTable_find_def KBucket_find_def dest: find_SomeD)
  moreover have "bucket_for hx rt i \<in> set (rt_buckets rt)"
    using assms slot_less [of hx rt i] by (simp add: bucket_for_def RoutingTable_inv_def)
  ultimately show "c \<in> set (concat (map kb_contacts (rt_buckets rt))) \<and> c_id c = i" by auto
next
  assume c: "c \<in> set (concat (map kb_contacts (rt_buckets rt))) \<and> c_id c = i"
  then obtain b where "b \<in> set (rt_buckets rt)" and "c \<in> set (kb_contacts b)" by auto
  then obtain k where k: "k < 256" "c \<in> set (kb_contacts (rt_buckets rt ! k))"
    using assms by (metis RoutingTable_inv_def in_set_conv_nth)
  then have "bucket_index hx (rt_local_id rt) i = k"
    using assms c by (auto simp: RoutingTable_inv_def)
  then have "bucket_for hx rt i = rt_buckets rt ! k" by (simp add: bucket_for_def slot_of_eq)
  moreover have "KBucket_inv (rt_buckets rt ! k)" using assms k by (simp add: RoutingTable_inv_def)
  ultimately show "RoutingTable_find hx rt i = Some c"
    using k c by (simp add: RoutingTable_find_def KBucket_find_def KBucket_inv_def find_id_Some)
qed

section \<open>Properties\<close>

definition demo_decoder :: hex_decoder where
  "demo_decoder s = (if s = ''a'' then Some (replicate 31 0 @ [1])
     else if s = ''b'' then Some (replicate 31 0 @ [2])
     else if s = ''c'' then Some (128 # replicate 31 0) else None)"

definition demo_contact :: "node_id \<Rightarrow> instant \<Rightarrow> contact" where
  "demo_contact i t = Contact_new i (V4 1, 4000) t"

text \<open>
  \<^verbatim>\<open>bucket_index\<close> is symmetric, always in 1..255, and antitone in the XOR distance: of two
  identifiers with distances of equal byte length, the closer one has the larger index. The
  documentation calls bucket 1 the closest and 255 the furthest; it is the other way round.
\<close>

theorem bucket_index_antitone:
  assumes "length (xor_distance hx a b) = length (xor_distance hx a c)"
    and "be_nat (xor_distance hx a b) \<le> be_nat (xor_distance hx a c)"
  shows "bucket_index hx a c \<le> bucket_index hx a b \<and> bucket_index hx a b = bucket_index hx b a \<and>
    1 \<le> bucket_index hx a c \<and> bucket_index hx a b \<le> 255"
  using assms bucket_scan_antimono [of "xor_distance hx a b" "xor_distance hx a c" 0]
    bucket_index_bounds [of hx] xor_distance_comm [of hx a b]
  by (simp add: bucket_index_def)

theorem bucket_index_antitone_witness:
  "bucket_index demo_decoder ''a'' ''c'' \<le> bucket_index demo_decoder ''a'' ''b'' \<and>
   bucket_index demo_decoder ''a'' ''b'' = bucket_index demo_decoder ''b'' ''a'' \<and>
   1 \<le> bucket_index demo_decoder ''a'' ''c'' \<and> bucket_index demo_decoder ''a'' ''b'' \<le> 255"
proof (rule bucket_index_antitone)
  have "demo_decoder ''a'' = Some (replicate 31 0 @ [1])" "demo_decoder ''b'' = Some (replicate 31 0 @ [2])"
    "demo_decoder ''c'' = Some (128 # replicate 31 0)" by (simp_all add: demo_decoder_def)
  then have b: "xor_distance demo_decoder ''a'' ''b'' = replicate 31 0 @ [3]"
    and c: "xor_distance demo_decoder ''a'' ''c'' = 128 # replicate 30 0 @ [1]"
    by (simp_all add: xor_distance_def byte_at_def NODE_ID_BYTES_def nth_append nth_Cons'
        numeral_eq_Suc)
  show "length (xor_distance demo_decoder ''a'' ''b'') = length (xor_distance demo_decoder ''a'' ''c'')"
    by (simp add: b c)
  show "be_nat (xor_distance demo_decoder ''a'' ''b'') \<le> be_nat (xor_distance demo_decoder ''a'' ''c'')"
    by (simp add: b c)
qed

text \<open>
  C9. The routing table stays well formed under every sequence of its operations: there are always
  256 buckets of at most 20 contacts with distinct identifiers. If in addition the local identifier
  was never changed while a bucket held a contact, each contact is in the bucket that its distance
  to the local node selects and no contact is the local node. (What \<^verbatim>\<open>set_local_id\<close> does to a table
  that holds contacts is shown by \<open>set_local_id_loses_contacts\<close>.)
\<close>

theorem routing_reachable_inv:
  "let rt = fold (RoutingTable_step hx) ops (RoutingTable_new local_id now)
   in length (rt_buckets rt) = 256 \<and>
      (\<forall>b \<in> set (rt_buckets rt). length (kb_contacts b) \<le> 20 \<and> distinct (map c_id (kb_contacts b))) \<and>
      (\<not> rehomes hx ops (RoutingTable_new local_id now) \<longrightarrow> RoutingTable_inv hx rt)"
proof -
  let ?rt = "fold (RoutingTable_step hx) ops (RoutingTable_new local_id now)"
  have "RoutingTable_shape ?rt" by (rule routing_ops.inv_run) blast
  moreover have "\<not> rehomes hx ops (RoutingTable_new local_id now) \<Longrightarrow> RoutingTable_inv hx ?rt"
    by (rule inv_RoutingTable_run [OF inv_RoutingTable_new])
  ultimately show ?thesis by (simp add: Let_def RoutingTable_shape_def list_all_iff KBucket_inv_def KBUCKET_SIZE_def)
qed

theorem routing_reachable_inv_witness:
  "RoutingTable_inv demo_decoder (fold (RoutingTable_step demo_decoder) [SetLocalId ''a'', Insert (demo_contact ''b'' 0)] (RoutingTable_new ''c'' 0))"
proof -
  have "\<not> rehomes demo_decoder [SetLocalId ''a'', Insert (demo_contact ''b'' 0)] (RoutingTable_new ''c'' 0)" by code_simp
  then show ?thesis
    using routing_reachable_inv [of demo_decoder "[SetLocalId ''a'', Insert (demo_contact ''b'' 0)]" "''c''" 0]
    by (simp add: Let_def del: fold_simps rehomes.simps)
qed

text \<open>
  Lookups after an insertion: a successful insertion makes exactly the inserted identifier
  resolve to the new contact, which keeps the time stamps of a contact it replaces, and changes
  no other lookup; a removal makes exactly that identifier unknown.
\<close>

theorem routing_lookup_laws:
  assumes "RoutingTable_inv hx rt" and "fst (RoutingTable_insert hx c rt) = Inr ()"
  shows "RoutingTable_find hx (snd (RoutingTable_insert hx c rt)) j =
      (if j = c_id c
       then Some (case RoutingTable_find hx rt (c_id c) of
          None \<Rightarrow> c
        | Some e \<Rightarrow> c\<lparr>c_last_seen := c_last_seen e, c_last_contacted := c_last_contacted e\<rparr>)
       else RoutingTable_find hx rt j) \<and>
    RoutingTable_find hx (snd (RoutingTable_remove hx i rt)) j =
      (if j = i then None else RoutingTable_find hx rt j)"
  using RoutingTable_find_insert [OF assms] routing_lookup.lookup_remove [OF assms(1)] by blast

theorem routing_lookup_laws_witness:
  "RoutingTable_find demo_decoder
     (snd (RoutingTable_insert demo_decoder (demo_contact ''b'' 5) (RoutingTable_new ''a'' 0))) ''b'' =
     Some (demo_contact ''b'' 5)"
proof -
  have inv: "RoutingTable_inv demo_decoder (RoutingTable_new ''a'' 0)"
    by (rule inv_RoutingTable_new)
  have kb: "bucket_for demo_decoder (RoutingTable_new ''a'' 0) ''b'' = KBucket_new 0"
    using slot_less [of demo_decoder "RoutingTable_new ''a'' 0" "''b''"]
    by (simp add: bucket_for_def RoutingTable_new_def)
  have "fst (RoutingTable_insert demo_decoder (demo_contact ''b'' 5) (RoutingTable_new ''a'' 0)) = Inr ()"
    using kb by (simp add: RoutingTable_insert_def demo_contact_def Contact_new_def RoutingTable_new_def
        KBucket_insert_def KBucket_find_def KBucket_new_def KBUCKET_SIZE_def split: prod.splits)
  from routing_lookup_laws [OF inv this, of "''b''" "''z''"] kb show ?thesis
    by (simp add: demo_contact_def Contact_new_def RoutingTable_find_def KBucket_find_def KBucket_new_def)
qed

text \<open>
  C22. \<^verbatim>\<open>closest\<close> returns known contacts other than the local node, in order of XOR distance to
  the target, as many as asked for and available, and every known contact it leaves out is
  at least as far from the target as every contact it returns.
\<close>

theorem closest_correct:
  fixes hx target k rt
  defines "dist \<equiv> \<lambda>c. xor_distance hx (c_id c) target"
    and "known \<equiv> filter (\<lambda>c. c_id c \<noteq> rt_local_id rt) (all_contacts rt)"
  shows "sorted (map dist (closest hx target k rt)) \<and>
    length (closest hx target k rt) = min k (length known) \<and>
    (\<exists>rest. mset known = mset (closest hx target k rt) + mset rest \<and>
       list_all (\<lambda>c. list_all (\<lambda>d. dist c \<le> dist d) rest) (closest hx target k rt))"
proof -
  let ?s = "sort_key dist known"
  have cl: "closest hx target k rt = take k ?s"
    by (simp add: closest_def dist_def known_def)
  have split: "?s = take k ?s @ drop k ?s" by simp
  have sorted: "sorted (map dist ?s)" by simp
  then have "sorted (map dist (take k ?s))" by (metis sorted_wrt_take take_map)
  moreover have "mset known = mset (take k ?s) + mset (drop k ?s)"
    by (metis append_take_drop_id mset_append mset_sort)
  moreover have "dist c \<le> dist d" if "c \<in> set (take k ?s)" and "d \<in> set (drop k ?s)" for c d
  proof -
    have "sorted (map dist (take k ?s) @ map dist (drop k ?s))"
      using sorted split by (metis map_append)
    with that show ?thesis by (auto simp: sorted_append)
  qed
  ultimately show ?thesis
    unfolding cl by (auto simp: list_all_iff intro!: exI [of _ "drop k ?s"])
qed

text \<open>
  \<^verbatim>\<open>remove_dead_contacts\<close> leaves in the buckets exactly the contacts seen within the timeout,
  reports exactly the identifiers of the others, and never touches the bootstrap nodes.
\<close>

theorem remove_dead_exact:
  assumes "RoutingTable_inv hx rt"
  shows "map kb_contacts (rt_buckets (snd (remove_dead_contacts now rt))) =
      map (\<lambda>b. filter (Contact_is_alive (rt_contact_timeout rt) now) (kb_contacts b)) (rt_buckets rt) \<and>
    fst (remove_dead_contacts now rt) =
      map c_id (filter (\<lambda>c. \<not> Contact_is_alive (rt_contact_timeout rt) now c)
        (concat (map kb_contacts (rt_buckets rt)))) \<and>
    rt_bootstrap_nodes (snd (remove_dead_contacts now rt)) = rt_bootstrap_nodes rt"
proof -
  have "KBucket_inv b" if "b \<in> set (rt_buckets rt)" for b
    using assms that by (metis RoutingTable_inv_def in_set_conv_nth)
  moreover have "concat (map (bucket_dead t now) bs) =
      map c_id (filter (\<lambda>c. \<not> Contact_is_alive t now c) (concat (map kb_contacts bs)))" for t bs
    by (induction bs) (simp_all add: bucket_dead_def)
  ultimately show ?thesis
    by (simp add: remove_dead_contacts_def bucket_remove_dead_contacts)
qed

theorem remove_dead_exact_witness:
  "fst (remove_dead_contacts 700 (RoutingTable_new ''a'' 0)) = []"
  using remove_dead_exact [OF inv_RoutingTable_new [of demo_decoder "''a''" 0], of 700]
  by (simp add: RoutingTable_new_def KBucket_new_def)

text \<open>
  \<^verbatim>\<open>set_local_id\<close> keeps the buckets as they are, so a contact can be left in a bucket its
  distance no longer selects: here a table that holds the contact \<open>b\<close> no longer contains it
  once the local identifier is changed.
\<close>

theorem set_local_id_loses_contacts:
  "let rt = snd (RoutingTable_insert demo_decoder (demo_contact ''b'' 0) (RoutingTable_new ''a'' 0))
   in RoutingTable_contains demo_decoder rt ''b'' \<and>
     RoutingTable_contains demo_decoder (set_local_id ''c'' rt) ''b'' = False"
  by code_simp

end
