(* ===== verification/Dht_Record.thy ===== *)
theory Dht_Record
  imports Node
begin

text \<open>
  DHT records (\<^verbatim>\<open>crates/a3net-dht/src/record.rs\<close>): keys, provider announcements, mutable
  IPNS records and generic values, with their expiry and the byte strings that are signed.
  \<^verbatim>\<open>now_secs\<close> is the argument \<open>now\<close>. The traits \<^verbatim>\<open>Signer\<close> and \<^verbatim>\<open>Verifier\<close> and the
  \<^verbatim>\<open>hex\<close> crate are function arguments. An operation that panics on an identifier that is
  not hexadecimal returns \<open>None\<close> there.
\<close>

section \<open>Keys\<close>

type_synonym dht_key = bytes

definition DhtKey_from_content_hash_hex :: "hex_decoder \<Rightarrow> string \<Rightarrow> dht_key" where
  "DhtKey_from_content_hash_hex hx s = (case hx s of Some bs \<Rightarrow> bs | None \<Rightarrow> [])"

definition DhtKey_xor_distance :: "dht_key \<Rightarrow> dht_key \<Rightarrow> bytes" where
  "DhtKey_xor_distance a b = map (\<lambda>(x, y). xor x y) (zip a b)"

definition DhtKey_log_distance :: "dht_key \<Rightarrow> dht_key \<Rightarrow> u8 option" where
  "DhtKey_log_distance a b =
     (case List.find (\<lambda>(i, byte). byte \<noteq> 0 \<and> list_ex (\<lambda>k. and (drop_bit k byte) 1 = 1) [0..<8])
             (rev (enumerate 0 (DhtKey_xor_distance a b))) of
        Some (i, byte) \<Rightarrow>
          (case List.find (\<lambda>k. and (drop_bit k byte) 1 = 1) (rev [0..<8]) of
             Some k \<Rightarrow> Some (of_nat (i * 8 + (7 - k)))
           | None \<Rightarrow> Some 0)
      | None \<Rightarrow> Some 0)"

section \<open>Provider records\<close>

record provider_record =
  pr_key :: dht_key
  pr_provider_id :: node_id
  pr_provider_addr :: string
  pr_ttl_secs :: u64
  pr_created_at :: u64
  pr_signature :: "bytes option"

definition default_ttl :: u64 where
  "default_ttl = 86400"

definition ProviderRecord_new :: "dht_key \<Rightarrow> node_id \<Rightarrow> string \<Rightarrow> u64 \<Rightarrow> provider_record" where
  "ProviderRecord_new key provider_id provider_addr now = \<lparr>pr_key = key, pr_provider_id = provider_id,
     pr_provider_addr = provider_addr, pr_ttl_secs = default_ttl, pr_created_at = now,
     pr_signature = None\<rparr>"

definition ProviderRecord_is_expired :: "u64 \<Rightarrow> provider_record \<Rightarrow> bool" where
  "ProviderRecord_is_expired now r = (sat_add64 (pr_created_at r) (pr_ttl_secs r) < now)"

definition ProviderRecord_remaining_ttl :: "u64 \<Rightarrow> provider_record \<Rightarrow> u64" where
  "ProviderRecord_remaining_ttl now r =
     (let expires_at = sat_add64 (pr_created_at r) (pr_ttl_secs r)
      in if expires_at \<le> now then 0 else expires_at - now)"

definition ProviderRecord_signing_data :: "hex_decoder \<Rightarrow> provider_record \<Rightarrow> bytes option" where
  "ProviderRecord_signing_data hx r =
     (case hx (pr_provider_id r) of
        None \<Rightarrow> None
      | Some provider_id_bytes \<Rightarrow> Some (
          u32_to_be_bytes (of_nat (length (pr_key r))) @ pr_key r @
          u32_to_be_bytes (of_nat (length provider_id_bytes)) @ provider_id_bytes @
          u32_to_be_bytes (of_nat (length (str_as_bytes (pr_provider_addr r)))) @
            str_as_bytes (pr_provider_addr r) @
          u64_to_be_bytes (pr_ttl_secs r)))"

definition ProviderRecord_sign ::
  "hex_decoder \<Rightarrow> (bytes \<Rightarrow> bytes) \<Rightarrow> provider_record \<Rightarrow> provider_record option" where
  "ProviderRecord_sign hx sign r =
     map_option (\<lambda>d. r\<lparr>pr_signature := Some (sign d)\<rparr>) (ProviderRecord_signing_data hx r)"

definition ProviderRecord_verify_signature ::
  "hex_decoder \<Rightarrow> (bytes \<Rightarrow> bytes \<Rightarrow> bool) \<Rightarrow> provider_record \<Rightarrow> bool option" where
  "ProviderRecord_verify_signature hx verify r =
     (case pr_signature r of
        Some sig \<Rightarrow> map_option (\<lambda>d. verify d sig) (ProviderRecord_signing_data hx r)
      | None \<Rightarrow> Some False)"

section \<open>IPNS records and values\<close>

record ipn_record =
  ipn_name :: dht_key
  ipn_value :: string
  ipn_sequence :: u64
  ipn_ttl_secs :: u64
  ipn_created :: u64
  ipn_expires :: u64
  ipn_signature :: bytes

definition IpnRecord_new :: "dht_key \<Rightarrow> string \<Rightarrow> u64 \<Rightarrow> ipn_record" where
  "IpnRecord_new nm v now = \<lparr>ipn_name = nm, ipn_value = v, ipn_sequence = 1,
     ipn_ttl_secs = default_ttl, ipn_created = now, ipn_expires = now + default_ttl,
     ipn_signature = []\<rparr>"

definition IpnRecord_update :: "string \<Rightarrow> u64 \<Rightarrow> ipn_record \<Rightarrow> ipn_record" where
  "IpnRecord_update v now r = r\<lparr>ipn_value := v, ipn_sequence := sat_add64 (ipn_sequence r) 1,
     ipn_created := now, ipn_expires := sat_add64 now (ipn_ttl_secs r)\<rparr>"

definition IpnRecord_is_expired :: "u64 \<Rightarrow> ipn_record \<Rightarrow> bool" where
  "IpnRecord_is_expired now r = (ipn_expires r < now)"

definition IpnRecord_signing_data :: "ipn_record \<Rightarrow> bytes" where
  "IpnRecord_signing_data r =
     u32_to_be_bytes (of_nat (length (ipn_name r))) @ ipn_name r @
     u32_to_be_bytes (of_nat (length (str_as_bytes (ipn_value r)))) @ str_as_bytes (ipn_value r) @
     u64_to_be_bytes (ipn_sequence r) @ u64_to_be_bytes (ipn_created r) @
     u64_to_be_bytes (ipn_expires r)"

definition IpnRecord_verify :: "(bytes \<Rightarrow> bytes \<Rightarrow> bool) \<Rightarrow> ipn_record \<Rightarrow> bool" where
  "IpnRecord_verify verify r = verify (IpnRecord_signing_data r) (ipn_signature r)"

record dht_value =
  dv_data :: bytes
  dv_timestamp :: u64
  dv_ttl_secs :: u64

section \<open>Expiry\<close>

lemma provider_expired_iff:
  "ProviderRecord_is_expired now r \<longleftrightarrow>
    unat (pr_created_at r) + unat (pr_ttl_secs r) < unat now"
proof -
  have "unat now < 2 ^ 64" using unat_bound [of now] by simp
  then show ?thesis
    by (auto simp: ProviderRecord_is_expired_def word_less_nat_alt unat_sat_add64)
qed

lemma provider_remaining_ttl:
  "unat (ProviderRecord_remaining_ttl now r) =
    min (unat (pr_created_at r) + unat (pr_ttl_secs r)) (2 ^ 64 - 1) - unat now"
proof -
  let ?e = "sat_add64 (pr_created_at r) (pr_ttl_secs r)"
  have "unat (?e - now) = unat ?e - unat now" if "\<not> ?e \<le> now"
    using that by (intro unat_sub) simp
  then show ?thesis
    by (auto simp: ProviderRecord_remaining_ttl_def Let_def word_le_nat_alt unat_sat_add64)
qed

lemma ipn_update_sequence:
  "ipn_sequence r < - 1 \<Longrightarrow> ipn_sequence r < ipn_sequence (IpnRecord_update v now r)"
proof -
  assume "ipn_sequence r < - 1"
  then have "unat (ipn_sequence r) < 2 ^ 64 - 1"
    by (simp add: word_less_nat_alt unsigned_minus_1_eq_mask mask_eq_exp_minus_1)
  then show ?thesis
    by (simp add: IpnRecord_update_def word_less_nat_alt unat_sat_add64)
qed

section \<open>Signed bytes\<close>

definition provider_fields_small :: "hex_decoder \<Rightarrow> provider_record \<Rightarrow> bool" where
  "provider_fields_small hx r = (length (pr_key r) < 2 ^ 32 \<and> length (pr_provider_addr r) < 2 ^ 32 \<and>
     (\<exists>bs. hx (pr_provider_id r) = Some bs \<and> length bs < 2 ^ 32))"

lemma length_str_as_bytes [simp]: "length (str_as_bytes s) = length s"
  by (simp add: str_as_bytes_def)

lemma provider_signing_fields:
  "ProviderRecord_signing_data hx r = map_option (\<lambda>bs.
     len_prefixed (pr_key r) @ len_prefixed bs @ len_prefixed (str_as_bytes (pr_provider_addr r)) @
     u64_to_be_bytes (pr_ttl_secs r)) (hx (pr_provider_id r))"
  by (simp add: ProviderRecord_signing_data_def len_prefixed_def split: option.splits)

lemma ipn_signing_fields:
  "IpnRecord_signing_data r =
     len_prefixed (ipn_name r) @ len_prefixed (str_as_bytes (ipn_value r)) @
     u64_to_be_bytes (ipn_sequence r) @ u64_to_be_bytes (ipn_created r) @
     u64_to_be_bytes (ipn_expires r)"
  by (simp add: IpnRecord_signing_data_def len_prefixed_def)

section \<open>Properties\<close>

text \<open>
  The signed bytes of a provider record determine the signed fields: two records whose
  fields are shorter than 4 GiB and that have the same signing data agree on key, provider
  (as decoded bytes), address and time to live, so no field can be spliced into another.
\<close>

theorem provider_signing_data_injective:
  assumes "ProviderRecord_signing_data hx r = ProviderRecord_signing_data hx q"
    and "provider_fields_small hx r" and "provider_fields_small hx q"
  shows "pr_key r = pr_key q \<and> hx (pr_provider_id r) = hx (pr_provider_id q) \<and>
    pr_provider_addr r = pr_provider_addr q \<and> pr_ttl_secs r = pr_ttl_secs q"
proof -
  obtain bs cs where b: "hx (pr_provider_id r) = Some bs" "length bs < 2 ^ 32"
    and c: "hx (pr_provider_id q) = Some cs" "length cs < 2 ^ 32"
    using assms(2,3) by (auto simp: provider_fields_small_def)
  have small: "length (pr_key r) < 2 ^ 32" "length (pr_key q) < 2 ^ 32"
    "length (str_as_bytes (pr_provider_addr r)) < 2 ^ 32"
    "length (str_as_bytes (pr_provider_addr q)) < 2 ^ 32"
    using assms(2,3) by (simp_all add: provider_fields_small_def)
  have eq: "len_prefixed (pr_key r) @ len_prefixed bs @ len_prefixed (str_as_bytes (pr_provider_addr r)) @
      u64_to_be_bytes (pr_ttl_secs r) =
    len_prefixed (pr_key q) @ len_prefixed cs @ len_prefixed (str_as_bytes (pr_provider_addr q)) @
      u64_to_be_bytes (pr_ttl_secs q)"
    using assms(1) b(1) c(1) by (simp add: provider_signing_fields)
  note key = len_prefixed_cancel [OF eq small(1,2)]
  note ids = len_prefixed_cancel [OF conjunct2 [OF key] b(2) c(2)]
  note addr = len_prefixed_cancel [OF conjunct2 [OF ids] small(3,4)]
  from key ids addr b(1) c(1) show ?thesis by simp
qed

theorem provider_signing_data_injective_witness:
  "pr_key (ProviderRecord_new [1] ''ab'' ''x'' 0) = [1] \<and>
    (\<lambda>s. Some (str_as_bytes s)) (pr_provider_id (ProviderRecord_new [1] ''ab'' ''x'' 0)) =
      Some (str_as_bytes ''ab'')"
  using provider_signing_data_injective [of "\<lambda>s. Some (str_as_bytes s)"
      "ProviderRecord_new [1] ''ab'' ''x'' 0" "(ProviderRecord_new [1] ''ab'' ''x'' 0)\<lparr>pr_created_at := 7\<rparr>"]
  by (simp add: ProviderRecord_new_def provider_fields_small_def provider_signing_fields)

text \<open>
  The signing data of an IPNS record determines its name, value, sequence number, creation
  and expiry times (fields shorter than 4 GiB).
\<close>

theorem ipn_signing_data_injective:
  assumes "IpnRecord_signing_data r = IpnRecord_signing_data q"
    and "length (ipn_name r) < 2 ^ 32" and "length (ipn_name q) < 2 ^ 32"
    and "length (ipn_value r) < 2 ^ 32" and "length (ipn_value q) < 2 ^ 32"
  shows "ipn_name r = ipn_name q \<and> ipn_value r = ipn_value q \<and> ipn_sequence r = ipn_sequence q \<and>
    ipn_created r = ipn_created q \<and> ipn_expires r = ipn_expires q"
proof -
  have v: "length (str_as_bytes (ipn_value r)) < 2 ^ 32" "length (str_as_bytes (ipn_value q)) < 2 ^ 32"
    using assms(4,5) by simp_all
  note nm = len_prefixed_cancel [OF assms(1) [unfolded ipn_signing_fields] assms(2,3)]
  note val = len_prefixed_cancel [OF conjunct2 [OF nm] v]
  from nm val show ?thesis by (simp add: append_eq_append_conv)
qed

theorem ipn_signing_data_injective_witness:
  "ipn_sequence (IpnRecord_new [1] ''v'' 0) = ipn_sequence ((IpnRecord_new [1] ''v'' 0)\<lparr>ipn_ttl_secs := 5\<rparr>)"
  using ipn_signing_data_injective [of "IpnRecord_new [1] ''v'' 0" "(IpnRecord_new [1] ''v'' 0)\<lparr>ipn_ttl_secs := 5\<rparr>"]
  by (simp add: IpnRecord_new_def IpnRecord_signing_data_def)

text \<open>
  The signature of a provider record does not cover the creation time: whoever holds a
  signed record that verifies can set a later creation time, and the record still verifies
  and expires correspondingly later.
\<close>

theorem provider_signature_survives_redating:
  assumes "ProviderRecord_verify_signature hx verify r = Some True"
    and "unat t + unat (pr_ttl_secs r) \<ge> unat now"
  shows "ProviderRecord_verify_signature hx verify (r\<lparr>pr_created_at := t\<rparr>) = Some True \<and>
    ProviderRecord_is_expired now (r\<lparr>pr_created_at := t\<rparr>) = False"
  using assms
  by (auto simp: ProviderRecord_verify_signature_def ProviderRecord_signing_data_def
      provider_expired_iff split: option.splits)

theorem provider_signature_survives_redating_witness:
  "ProviderRecord_is_expired 100000
     ((the (ProviderRecord_sign (\<lambda>s. Some (str_as_bytes s)) id (ProviderRecord_new [1] ''ab'' ''x'' 0)))
       \<lparr>pr_created_at := 50000\<rparr>) = False"
  using provider_signature_survives_redating [of "\<lambda>s. Some (str_as_bytes s)" "(=)"
      "the (ProviderRecord_sign (\<lambda>s. Some (str_as_bytes s)) id (ProviderRecord_new [1] ''ab'' ''x'' 0))"
      100000 50000]
  by (simp add: ProviderRecord_sign_def ProviderRecord_new_def default_ttl_def
      ProviderRecord_verify_signature_def ProviderRecord_signing_data_def)

end
