(* ===== verification/Dht_Store.thy ===== *)
theory Dht_Store
  imports Dht_Record
begin

text \<open>
  DHT storage (\<^verbatim>\<open>crates/a3net-dht/src/store.rs\<close>): the in-memory store, the RocksDB store and
  the two-level store, the three implementations of the trait \<^verbatim>\<open>DhtStorage\<close>. RocksDB and
  \<^verbatim>\<open>serde_json\<close> are not part of the repository: their operations are the fields of the record
  \<open>rocksdb_api\<close>, the argument of every operation of that store. Sums of 64-bit times that the
  code writes with \<^verbatim>\<open>+\<close> wrap, as in a release build.
\<close>

section \<open>In-memory store\<close>

record in_memory_store =
  ms_providers :: "(dht_key, provider_record list) hmap"
  ms_ipns :: "(dht_key, ipn_record) hmap"
  ms_values :: "(dht_key, dht_value) hmap"

definition InMemory_new :: in_memory_store where
  "InMemory_new = \<lparr>ms_providers = [], ms_ipns = [], ms_values = []\<rparr>"

definition InMemory_put_provider :: "dht_key \<Rightarrow> provider_record \<Rightarrow> in_memory_store \<Rightarrow> bool \<times> in_memory_store" where
  "InMemory_put_provider key r s =
     (let entry = (case hm_get (ms_providers s) key of Some rs \<Rightarrow> rs | None \<Rightarrow> [])
      in (True, s\<lparr>ms_providers := hm_insert key
            (filter (\<lambda>q. pr_provider_id q \<noteq> pr_provider_id r) entry @ [r]) (ms_providers s)\<rparr>))"

definition InMemory_get_providers :: "u64 \<Rightarrow> dht_key \<Rightarrow> in_memory_store \<Rightarrow> provider_record list" where
  "InMemory_get_providers now key s =
     (case hm_get (ms_providers s) key of
        Some rs \<Rightarrow> filter (\<lambda>r. \<not> ProviderRecord_is_expired now r) rs
      | None \<Rightarrow> [])"

definition InMemory_remove_expired_providers :: "u64 \<Rightarrow> in_memory_store \<Rightarrow> nat \<times> in_memory_store" where
  "InMemory_remove_expired_providers now s =
     (let live = hm_map_values (filter (\<lambda>r. \<not> ProviderRecord_is_expired now r)) (ms_providers s)
      in (sum_list (map (\<lambda>(k, rs). length rs -
             length (filter (\<lambda>r. \<not> ProviderRecord_is_expired now r) rs)) (ms_providers s)),
          s\<lparr>ms_providers := hm_retain (\<lambda>_ rs. rs \<noteq> []) live\<rparr>))"

definition InMemory_put_ipns :: "dht_key \<Rightarrow> ipn_record \<Rightarrow> in_memory_store \<Rightarrow> bool \<times> in_memory_store" where
  "InMemory_put_ipns nm r s =
     (case hm_get (ms_ipns s) nm of
        Some existing \<Rightarrow>
          if ipn_sequence existing \<ge> ipn_sequence r then (False, s)
          else (True, s\<lparr>ms_ipns := hm_insert nm r (ms_ipns s)\<rparr>)
      | None \<Rightarrow> (True, s\<lparr>ms_ipns := hm_insert nm r (ms_ipns s)\<rparr>))"

definition InMemory_get_ipns :: "dht_key \<Rightarrow> in_memory_store \<Rightarrow> ipn_record option" where
  "InMemory_get_ipns nm s = hm_get (ms_ipns s) nm"

definition InMemory_put_value :: "dht_key \<Rightarrow> dht_value \<Rightarrow> in_memory_store \<Rightarrow> bool \<times> in_memory_store" where
  "InMemory_put_value key v s = (True, s\<lparr>ms_values := hm_insert key v (ms_values s)\<rparr>)"

definition InMemory_get_value :: "dht_key \<Rightarrow> in_memory_store \<Rightarrow> dht_value option" where
  "InMemory_get_value key s = hm_get (ms_values s) key"

definition InMemory_len :: "in_memory_store \<Rightarrow> nat" where
  "InMemory_len s = length (ms_providers s) + length (ms_ipns s) + length (ms_values s)"

definition InMemory_get_all_provider_count :: "in_memory_store \<Rightarrow> nat" where
  "InMemory_get_all_provider_count s = sum_list (map length (hm_values (ms_providers s)))"

definition InMemory_remove_expired_values :: "u64 \<Rightarrow> in_memory_store \<Rightarrow> nat \<times> in_memory_store" where
  "InMemory_remove_expired_values now s =
     (let live = hm_retain (\<lambda>_ v. \<not> dv_timestamp v + dv_ttl_secs v < now) (ms_values s)
      in (length (filter (\<lambda>(_, v). dv_timestamp v + dv_ttl_secs v < now) (ms_values s)),
          s\<lparr>ms_values := live\<rparr>))"

definition InMemory_clear :: "in_memory_store \<Rightarrow> in_memory_store" where
  "InMemory_clear s = \<lparr>ms_providers = [], ms_ipns = [], ms_values = []\<rparr>"

section \<open>RocksDB store\<close>

record 'db rocksdb_api =
  db_put :: "bytes \<Rightarrow> bytes \<Rightarrow> 'db \<Rightarrow> bool \<times> 'db"
  db_get :: "'db \<Rightarrow> bytes \<Rightarrow> bytes option"
  db_delete :: "bytes \<Rightarrow> 'db \<Rightarrow> bool \<times> 'db"
  db_prefix_iterator :: "'db \<Rightarrow> bytes \<Rightarrow> (bytes \<times> bytes) list"
  provider_to_vec :: "provider_record \<Rightarrow> bytes option"
  provider_from_slice :: "bytes \<Rightarrow> provider_record option"
  ipn_to_vec :: "ipn_record \<Rightarrow> bytes option"
  ipn_from_slice :: "bytes \<Rightarrow> ipn_record option"
  value_to_vec :: "dht_value \<Rightarrow> bytes option"
  value_from_slice :: "bytes \<Rightarrow> dht_value option"

definition make_key :: "u8 \<Rightarrow> dht_key \<Rightarrow> bytes" where
  "make_key pfx key = pfx # key"

definition RocksDb_put_provider :: "'db rocksdb_api \<Rightarrow> dht_key \<Rightarrow> provider_record \<Rightarrow> 'db \<Rightarrow> bool \<times> 'db" where
  "RocksDb_put_provider api key r db =
     (case provider_to_vec api r of
        Some v \<Rightarrow> db_put api (make_key 80 key) v db
      | None \<Rightarrow> (False, db))"

definition RocksDb_get_providers ::
  "'db rocksdb_api \<Rightarrow> u64 \<Rightarrow> dht_key \<Rightarrow> 'db \<Rightarrow> provider_record list \<times> 'db" where
  "RocksDb_get_providers api now key db =
     (case db_get api db (make_key 80 key) of
        Some bs \<Rightarrow>
          (case provider_from_slice api bs of
             Some r \<Rightarrow>
               if ProviderRecord_is_expired now r then ([], snd (db_delete api (make_key 80 key) db))
               else ([r], db)
           | None \<Rightarrow> ([], db))
      | None \<Rightarrow> ([], db))"

definition RocksDb_remove_where ::
  "'db rocksdb_api \<Rightarrow> bytes \<Rightarrow> (bytes \<Rightarrow> bool) \<Rightarrow> 'db \<Rightarrow> nat \<times> 'db" where
  "RocksDb_remove_where api pfx expd db =
     fold (\<lambda>(k, v) (removed, d).
        if expd v
        then (let (ok, d') = db_delete api k d in (if ok then removed + 1 else removed, d'))
        else (removed, d)) (db_prefix_iterator api db pfx) (0, db)"

definition RocksDb_remove_expired_providers :: "'db rocksdb_api \<Rightarrow> u64 \<Rightarrow> 'db \<Rightarrow> nat \<times> 'db" where
  "RocksDb_remove_expired_providers api now =
     RocksDb_remove_where api [80] (\<lambda>v. case provider_from_slice api v of
        Some r \<Rightarrow> ProviderRecord_is_expired now r | None \<Rightarrow> False)"

definition RocksDb_put_ipns :: "'db rocksdb_api \<Rightarrow> dht_key \<Rightarrow> ipn_record \<Rightarrow> 'db \<Rightarrow> bool \<times> 'db" where
  "RocksDb_put_ipns api nm r db =
     (case ipn_to_vec api r of
        Some v \<Rightarrow> db_put api (make_key 73 nm) v db
      | None \<Rightarrow> (False, db))"

definition RocksDb_get_ipns :: "'db rocksdb_api \<Rightarrow> dht_key \<Rightarrow> 'db \<Rightarrow> ipn_record option" where
  "RocksDb_get_ipns api nm db =
     (case db_get api db (make_key 73 nm) of Some bs \<Rightarrow> ipn_from_slice api bs | None \<Rightarrow> None)"

definition RocksDb_put_value :: "'db rocksdb_api \<Rightarrow> dht_key \<Rightarrow> dht_value \<Rightarrow> 'db \<Rightarrow> bool \<times> 'db" where
  "RocksDb_put_value api key v db =
     (case value_to_vec api v of
        Some bs \<Rightarrow> db_put api (make_key 86 key) bs db
      | None \<Rightarrow> (False, db))"

definition RocksDb_get_value :: "'db rocksdb_api \<Rightarrow> dht_key \<Rightarrow> 'db \<Rightarrow> dht_value option" where
  "RocksDb_get_value api key db =
     (case db_get api db (make_key 86 key) of Some bs \<Rightarrow> value_from_slice api bs | None \<Rightarrow> None)"

definition RocksDb_remove_expired_values :: "'db rocksdb_api \<Rightarrow> u64 \<Rightarrow> 'db \<Rightarrow> nat \<times> 'db" where
  "RocksDb_remove_expired_values api now =
     RocksDb_remove_where api [86] (\<lambda>bs. case value_from_slice api bs of
        Some v \<Rightarrow> dv_timestamp v + dv_ttl_secs v < now | None \<Rightarrow> False)"

definition RocksDb_len :: "'db rocksdb_api \<Rightarrow> 'db \<Rightarrow> nat" where
  "RocksDb_len api db = length (db_prefix_iterator api db [80]) +
     length (db_prefix_iterator api db [73]) + length (db_prefix_iterator api db [86])"

definition RocksDb_clear :: "'db rocksdb_api \<Rightarrow> 'db \<Rightarrow> 'db" where
  "RocksDb_clear api db =
     fold (\<lambda>p d. fold (\<lambda>(k, _) d'. snd (db_delete api k d')) (db_prefix_iterator api d [p]) d)
       [80, 73, 86] db"

section \<open>Two-level store\<close>

record 'db tiered_store =
  ts_memory :: in_memory_store
  ts_rocksdb :: 'db

definition Tiered_put_provider ::
  "'db rocksdb_api \<Rightarrow> dht_key \<Rightarrow> provider_record \<Rightarrow> 'db tiered_store \<Rightarrow> bool \<times> 'db tiered_store" where
  "Tiered_put_provider api key r s =
     (let m = snd (InMemory_put_provider key r (ts_memory s));
          (ok, db) = RocksDb_put_provider api key r (ts_rocksdb s)
      in (ok, \<lparr>ts_memory = m, ts_rocksdb = db\<rparr>))"

definition Tiered_get_providers ::
  "'db rocksdb_api \<Rightarrow> u64 \<Rightarrow> dht_key \<Rightarrow> 'db tiered_store \<Rightarrow> provider_record list \<times> 'db tiered_store" where
  "Tiered_get_providers api now key s =
     (let l1 = InMemory_get_providers now key (ts_memory s)
      in if l1 \<noteq> [] then (l1, s)
         else let (l2, db) = RocksDb_get_providers api now key (ts_rocksdb s)
              in (l2, \<lparr>ts_memory = fold (\<lambda>r m. snd (InMemory_put_provider key r m)) l2 (ts_memory s),
                       ts_rocksdb = db\<rparr>))"

definition Tiered_remove_expired_providers ::
  "'db rocksdb_api \<Rightarrow> u64 \<Rightarrow> 'db tiered_store \<Rightarrow> nat \<times> 'db tiered_store" where
  "Tiered_remove_expired_providers api now s =
     (let (n, m) = InMemory_remove_expired_providers now (ts_memory s);
          (k, db) = RocksDb_remove_expired_providers api now (ts_rocksdb s)
      in (n + k, \<lparr>ts_memory = m, ts_rocksdb = db\<rparr>))"

definition Tiered_put_ipns ::
  "'db rocksdb_api \<Rightarrow> dht_key \<Rightarrow> ipn_record \<Rightarrow> 'db tiered_store \<Rightarrow> bool \<times> 'db tiered_store" where
  "Tiered_put_ipns api nm r s =
     (let m = snd (InMemory_put_ipns nm r (ts_memory s));
          (ok, db) = RocksDb_put_ipns api nm r (ts_rocksdb s)
      in (ok, \<lparr>ts_memory = m, ts_rocksdb = db\<rparr>))"

definition Tiered_get_ipns :: "'db rocksdb_api \<Rightarrow> dht_key \<Rightarrow> 'db tiered_store \<Rightarrow> ipn_record option" where
  "Tiered_get_ipns api nm s =
     (case InMemory_get_ipns nm (ts_memory s) of
        Some r \<Rightarrow> Some r
      | None \<Rightarrow> RocksDb_get_ipns api nm (ts_rocksdb s))"

definition Tiered_put_value ::
  "'db rocksdb_api \<Rightarrow> dht_key \<Rightarrow> dht_value \<Rightarrow> 'db tiered_store \<Rightarrow> bool \<times> 'db tiered_store" where
  "Tiered_put_value api key v s =
     (let m = snd (InMemory_put_value key v (ts_memory s));
          (ok, db) = RocksDb_put_value api key v (ts_rocksdb s)
      in (ok, \<lparr>ts_memory = m, ts_rocksdb = db\<rparr>))"

definition Tiered_get_value :: "'db rocksdb_api \<Rightarrow> dht_key \<Rightarrow> 'db tiered_store \<Rightarrow> dht_value option" where
  "Tiered_get_value api key s =
     (case InMemory_get_value key (ts_memory s) of
        Some v \<Rightarrow> Some v
      | None \<Rightarrow> RocksDb_get_value api key (ts_rocksdb s))"

definition Tiered_remove_expired_values ::
  "'db rocksdb_api \<Rightarrow> u64 \<Rightarrow> 'db tiered_store \<Rightarrow> nat \<times> 'db tiered_store" where
  "Tiered_remove_expired_values api now s =
     (let (n, m) = InMemory_remove_expired_values now (ts_memory s);
          (k, db) = RocksDb_remove_expired_values api now (ts_rocksdb s)
      in (n + k, \<lparr>ts_memory = m, ts_rocksdb = db\<rparr>))"

definition Tiered_clear :: "'db rocksdb_api \<Rightarrow> 'db tiered_store \<Rightarrow> 'db tiered_store" where
  "Tiered_clear api s = \<lparr>ts_memory = InMemory_clear (ts_memory s), ts_rocksdb = RocksDb_clear api (ts_rocksdb s)\<rparr>"


section \<open>Contracts of the trait\<close>

fun put_all :: "('k \<Rightarrow> 'v \<Rightarrow> 's \<Rightarrow> bool \<times> 's) \<Rightarrow> ('k \<times> 'v) list \<Rightarrow> 's \<Rightarrow> bool \<times> 's" where
  "put_all put [] s = (True, s)"
| "put_all put ((k, v) # kvs) s =
     (fst (put k v s) \<and> fst (put_all put kvs (snd (put k v s))), snd (put_all put kvs (snd (put k v s))))"

text \<open>
  The generic values of a \<^verbatim>\<open>DhtStorage\<close>: a put that reports success is seen by every later
  get of that key and by no other. The three implementations satisfy it.
\<close>

locale value_store =
  fixes put :: "dht_key \<Rightarrow> dht_value \<Rightarrow> 's \<Rightarrow> bool \<times> 's"
    and get :: "dht_key \<Rightarrow> 's \<Rightarrow> dht_value option"
    and ok :: "'s \<Rightarrow> bool"
  assumes ok_put: "ok s \<Longrightarrow> ok (snd (put k v s))"
    and get_put: "ok s \<Longrightarrow> fst (put k v s) \<Longrightarrow>
      get k' (snd (put k v s)) = (if k' = k then Some v else get k' s)"
begin

lemma get_put_all:
  "ok s \<Longrightarrow> fst (put_all put kvs s) \<Longrightarrow> get k (snd (put_all put kvs s)) =
    (case map_of (rev kvs) k of Some v \<Rightarrow> Some v | None \<Rightarrow> get k s)"
proof (induction kvs arbitrary: s)
  case Nil
  then show ?case by simp
next
  case (Cons kv kvs)
  obtain k0 v0 where kv: "kv = (k0, v0)" by (cases kv)
  have ok: "fst (put k0 v0 s)" "fst (put_all put kvs (snd (put k0 v0 s)))"
    using Cons.prems(2) by (simp_all add: kv)
  have "get k (snd (put_all put (kv # kvs) s)) =
      (case map_of (rev kvs) k of Some v \<Rightarrow> Some v | None \<Rightarrow> get k (snd (put k0 v0 s)))"
    using Cons.IH [OF ok_put [OF Cons.prems(1)] ok(2)] by (simp add: kv)
  then show ?case
    using get_put [OF Cons.prems(1) ok(1), of k]
    by (auto simp: kv map_add_def split: option.splits)
qed

end

text \<open>
  The mutable records: a put is accepted exactly when its sequence number is larger than that
  of the record it replaces. The in-memory store satisfies it; the RocksDB store does not.
\<close>

locale ipns_store =
  fixes put :: "dht_key \<Rightarrow> ipn_record \<Rightarrow> 's \<Rightarrow> bool \<times> 's"
    and get :: "dht_key \<Rightarrow> 's \<Rightarrow> ipn_record option"
  assumes accepts: "fst (put k r s) \<longleftrightarrow>
      (case get k s of None \<Rightarrow> True | Some e \<Rightarrow> ipn_sequence e < ipn_sequence r)"
    and get_accepted: "fst (put k r s) \<Longrightarrow> get k' (snd (put k r s)) = (if k' = k then Some r else get k' s)"
    and get_rejected: "\<not> fst (put k r s) \<Longrightarrow> get k' (snd (put k r s)) = get k' s"
begin

lemma sequence_mono:
  assumes "get k s = Some e"
  shows "\<exists>e'. get k (snd (put n r s)) = Some e' \<and> ipn_sequence e \<le> ipn_sequence e'"
proof (cases "fst (put n r s)")
  case True
  then show ?thesis
    using assms accepts [of n r s] get_accepted [of n r s k] by (cases "k = n") auto
next
  case False
  then show ?thesis using assms get_rejected [of n r s k] by simp
qed

end

definition rocksdb_laws :: "'db rocksdb_api \<Rightarrow> bool" where
  "rocksdb_laws api =
     ((\<forall>k v db k'. fst (db_put api k v db) \<longrightarrow>
         db_get api (snd (db_put api k v db)) k' = (if k' = k then Some v else db_get api db k')) \<and>
      (\<forall>v bs. value_to_vec api v = Some bs \<longrightarrow> value_from_slice api bs = Some v) \<and>
      (\<forall>r bs. ipn_to_vec api r = Some bs \<longrightarrow> ipn_from_slice api bs = Some r) \<and>
      (\<forall>r bs. provider_to_vec api r = Some bs \<longrightarrow>
         provider_from_slice api bs = Some (r\<lparr>pr_signature := None\<rparr>)))"

lemma rocksdb_put_get:
  assumes "rocksdb_laws api" and "fst (db_put api k v db)"
  shows "db_get api (snd (db_put api k v db)) k' = (if k' = k then Some v else db_get api db k')"
  using assms by (simp add: rocksdb_laws_def)

lemma make_key_eq [simp]: "make_key p k = make_key p' k' \<longleftrightarrow> p = p' \<and> k = k'"
  by (simp add: make_key_def)

lemma RocksDb_get_put_value:
  assumes "rocksdb_laws api" and "fst (RocksDb_put_value api k v db)"
  shows "RocksDb_get_value api k' (snd (RocksDb_put_value api k v db)) =
    (if k' = k then Some v else RocksDb_get_value api k' db)"
  using assms
  by (auto simp: RocksDb_put_value_def RocksDb_get_value_def rocksdb_put_get [OF assms(1)]
      rocksdb_laws_def split: option.splits)

lemma RocksDb_get_put_ipns:
  assumes "rocksdb_laws api" and "fst (RocksDb_put_ipns api k r db)"
  shows "RocksDb_get_ipns api k' (snd (RocksDb_put_ipns api k r db)) =
    (if k' = k then Some r else RocksDb_get_ipns api k' db)"
  using assms
  by (auto simp: RocksDb_put_ipns_def RocksDb_get_ipns_def rocksdb_put_get [OF assms(1)]
      rocksdb_laws_def split: option.splits)

lemma RocksDb_get_put_provider:
  assumes "rocksdb_laws api" and "fst (RocksDb_put_provider api k r db)"
    and "\<not> ProviderRecord_is_expired now r"
  shows "fst (RocksDb_get_providers api now k (snd (RocksDb_put_provider api k r db))) =
    [r\<lparr>pr_signature := None\<rparr>]"
proof -
  obtain bs where bs: "provider_to_vec api r = Some bs" and put: "fst (db_put api (make_key 80 k) bs db)"
    using assms(2) by (auto simp: RocksDb_put_provider_def split: option.splits)
  then have "provider_from_slice api bs = Some (r\<lparr>pr_signature := None\<rparr>)"
    using assms(1) by (simp add: rocksdb_laws_def)
  with bs put assms(3) show ?thesis
    by (simp add: RocksDb_put_provider_def RocksDb_get_providers_def rocksdb_put_get [OF assms(1)]
        ProviderRecord_is_expired_def)
qed

lemma Tiered_put_value_parts:
  "fst (Tiered_put_value api k v s) = fst (RocksDb_put_value api k v (ts_rocksdb s))"
  "snd (Tiered_put_value api k v s) = \<lparr>ts_memory = snd (InMemory_put_value k v (ts_memory s)),
     ts_rocksdb = snd (RocksDb_put_value api k v (ts_rocksdb s))\<rparr>"
  by (simp_all add: Tiered_put_value_def Let_def split: prod.splits)

lemma Tiered_put_ipns_parts:
  "fst (Tiered_put_ipns api k r s) = fst (RocksDb_put_ipns api k r (ts_rocksdb s))"
  "snd (Tiered_put_ipns api k r s) = \<lparr>ts_memory = snd (InMemory_put_ipns k r (ts_memory s)),
     ts_rocksdb = snd (RocksDb_put_ipns api k r (ts_rocksdb s))\<rparr>"
  by (simp_all add: Tiered_put_ipns_def Let_def split: prod.splits)

interpretation memory_values: value_store InMemory_put_value InMemory_get_value "\<lambda>_. True"
  by unfold_locales (auto simp: InMemory_put_value_def InMemory_get_value_def)

interpretation rocksdb_values: value_store "RocksDb_put_value api" "RocksDb_get_value api"
  "\<lambda>_. rocksdb_laws api" for api
  by unfold_locales (simp_all add: RocksDb_get_put_value)

interpretation tiered_values: value_store "Tiered_put_value api" "Tiered_get_value api"
  "\<lambda>_. rocksdb_laws api" for api
  by unfold_locales
    (auto simp: Tiered_put_value_parts Tiered_get_value_def RocksDb_get_put_value
      InMemory_put_value_def InMemory_get_value_def split: option.splits)

interpretation memory_ipns: ipns_store InMemory_put_ipns InMemory_get_ipns
  by unfold_locales
    (auto simp: InMemory_put_ipns_def InMemory_get_ipns_def split: option.splits if_splits)

section \<open>Invariant of the in-memory store\<close>

definition InMemory_inv :: "in_memory_store \<Rightarrow> bool" where
  "InMemory_inv s = (hm_wf (ms_providers s) \<and> hm_wf (ms_ipns s) \<and> hm_wf (ms_values s) \<and>
     (\<forall>(k, rs) \<in> set (ms_providers s). rs \<noteq> [] \<and> distinct (map pr_provider_id rs)))"

datatype dht_store_op =
    PutProvider dht_key provider_record
  | RemoveExpiredProviders u64
  | PutIpns dht_key ipn_record
  | PutValue dht_key dht_value
  | RemoveExpiredValues u64
  | ClearStore

fun InMemory_step :: "dht_store_op \<Rightarrow> in_memory_store \<Rightarrow> in_memory_store" where
  "InMemory_step (PutProvider k r) s = snd (InMemory_put_provider k r s)"
| "InMemory_step (RemoveExpiredProviders now) s = snd (InMemory_remove_expired_providers now s)"
| "InMemory_step (PutIpns k r) s = snd (InMemory_put_ipns k r s)"
| "InMemory_step (PutValue k v) s = snd (InMemory_put_value k v s)"
| "InMemory_step (RemoveExpiredValues now) s = snd (InMemory_remove_expired_values now s)"
| "InMemory_step ClearStore s = InMemory_clear s"

lemma distinct_map_filter_provider:
  "distinct (map pr_provider_id rs) \<Longrightarrow> distinct (map pr_provider_id (filter P rs))"
  by (induction rs) auto

lemma inv_put_provider:
  assumes "InMemory_inv s"
  shows "InMemory_inv (snd (InMemory_put_provider k r s))"
proof -
  let ?old = "case hm_get (ms_providers s) k of Some rs \<Rightarrow> rs | None \<Rightarrow> []"
  let ?new = "filter (\<lambda>q. pr_provider_id q \<noteq> pr_provider_id r) ?old @ [r]"
  have "distinct (map pr_provider_id ?old)"
    using assms by (auto simp: InMemory_inv_def split: option.splits dest: map_of_SomeD)
  then have "distinct (map pr_provider_id ?new)" by (auto simp: distinct_map_filter_provider)
  then have "\<forall>(k', rs) \<in> set (hm_insert k ?new (ms_providers s)). rs \<noteq> [] \<and> distinct (map pr_provider_id rs)"
    using assms set_hm_insert_subset [of k ?new "ms_providers s"] by (auto simp: InMemory_inv_def)
  then show ?thesis
    using assms by (simp add: InMemory_inv_def InMemory_put_provider_def Let_def)
qed

lemma inv_remove_expired_providers:
  "InMemory_inv s \<Longrightarrow> InMemory_inv (snd (InMemory_remove_expired_providers now s))"
  by (auto simp: InMemory_inv_def InMemory_remove_expired_providers_def Let_def hm_retain_def
      hm_map_values_def hm_wf_def distinct_map_filter_provider comp_def case_prod_beta
      intro!: distinct_map_filter)

interpretation memory_store_ops: op_machine "\<lambda>s. s = InMemory_new" InMemory_step InMemory_inv
proof
  show "InMemory_inv s" if "s = InMemory_new" for s
    using that by (simp add: InMemory_inv_def InMemory_new_def)
  show "InMemory_inv (InMemory_step p s)" if "InMemory_inv s" for p s
  proof (cases p)
    case (PutIpns k r)
    then show ?thesis
      using that by (auto simp: InMemory_inv_def InMemory_put_ipns_def split: option.splits)
  qed (use that in \<open>simp_all add: inv_put_provider inv_remove_expired_providers\<close>,
       simp_all add: InMemory_inv_def InMemory_put_value_def InMemory_remove_expired_values_def
         InMemory_clear_def Let_def)
qed

lemma step_ipns_mono:
  assumes "p \<noteq> ClearStore" and "InMemory_get_ipns k s = Some e"
  shows "\<exists>e'. InMemory_get_ipns k (InMemory_step p s) = Some e' \<and> ipn_sequence e \<le> ipn_sequence e'"
proof (cases p)
  case (PutIpns n r)
  then show ?thesis using memory_ipns.sequence_mono [OF assms(2), of n r] by simp
qed (use assms in \<open>simp_all add: InMemory_get_ipns_def InMemory_put_provider_def
      InMemory_remove_expired_providers_def InMemory_put_value_def InMemory_remove_expired_values_def
      Let_def\<close>)


section \<open>Properties\<close>

text \<open>
  A small database for the examples: an association list whose codecs serialise two IPNS
  records, one value and one provider record and fail on everything else.
\<close>

definition demo_ipn :: "u64 \<Rightarrow> ipn_record" where
  "demo_ipn n = (IpnRecord_new [1] ''v'' 0)\<lparr>ipn_sequence := n\<rparr>"

definition demo_value :: dht_value where
  "demo_value = \<lparr>dv_data = [7], dv_timestamp = 10, dv_ttl_secs = 5\<rparr>"

definition demo_provider :: provider_record where
  "demo_provider = (ProviderRecord_new [1] ''ab'' ''x'' 0)\<lparr>pr_signature := Some [9]\<rparr>"

definition demo_api :: "(bytes, bytes) hmap rocksdb_api" where
  "demo_api = \<lparr>db_put = (\<lambda>k v db. (True, hm_insert k v db)), db_get = hm_get,
     db_delete = (\<lambda>k db. (True, hm_remove k db)),
     db_prefix_iterator = (\<lambda>db pfx. filter (\<lambda>(k, _). take (length pfx) k = pfx) db),
     provider_to_vec = (\<lambda>r. if r = demo_provider then Some [1] else None),
     provider_from_slice = (\<lambda>_. Some (demo_provider\<lparr>pr_signature := None\<rparr>)),
     ipn_to_vec = (\<lambda>r. if r = demo_ipn 1 then Some [1] else if r = demo_ipn 2 then Some [2] else None),
     ipn_from_slice = (\<lambda>bs. if bs = [1] then Some (demo_ipn 1) else Some (demo_ipn 2)),
     value_to_vec = (\<lambda>v. if v = demo_value then Some [1] else None),
     value_from_slice = (\<lambda>_. Some demo_value)\<rparr>"

lemma demo_api_laws: "rocksdb_laws demo_api"
  by (auto simp: rocksdb_laws_def demo_api_def split: if_splits)

text \<open>
  Last write wins in the two-level store: after a sequence of puts that all report success,
  a get of any key returns the value last put under it, or what it returned before if the
  sequence does not mention the key.
\<close>

theorem tiered_last_write_wins:
  assumes "rocksdb_laws api" and "fst (put_all (Tiered_put_value api) kvs s)"
  shows "Tiered_get_value api k (snd (put_all (Tiered_put_value api) kvs s)) =
    (case map_of (rev kvs) k of Some v \<Rightarrow> Some v | None \<Rightarrow> Tiered_get_value api k s)"
  using assms by (rule tiered_values.get_put_all)

theorem tiered_last_write_wins_witness:
  "Tiered_get_value demo_api [5] (snd (put_all (Tiered_put_value demo_api) [([5], demo_value)]
     \<lparr>ts_memory = InMemory_new, ts_rocksdb = []\<rparr>)) = Some demo_value"
  using tiered_last_write_wins [OF demo_api_laws, of "[([5], demo_value)]"
      "\<lparr>ts_memory = InMemory_new, ts_rocksdb = []\<rparr>" "[5]"]
  by (simp add: Tiered_put_value_parts RocksDb_put_value_def demo_api_def)

text \<open>
  IPNS records in memory never go back: whatever sequence of operations other than
  \<^verbatim>\<open>clear\<close> is run, a name that has a record keeps one, and its sequence number never decreases.
\<close>

theorem memory_ipns_sequence_monotone:
  assumes "InMemory_get_ipns k s = Some e" and "ClearStore \<notin> set ops"
  shows "\<exists>e'. InMemory_get_ipns k (fold InMemory_step ops s) = Some e' \<and> ipn_sequence e \<le> ipn_sequence e'"
  using assms
proof (induction ops arbitrary: s e)
  case Nil
  then show ?case by simp
next
  case (Cons p ops)
  then obtain e1 where e1: "InMemory_get_ipns k (InMemory_step p s) = Some e1"
    and le: "ipn_sequence e \<le> ipn_sequence e1"
    using step_ipns_mono [of p k s e] by auto
  obtain e' where "InMemory_get_ipns k (fold InMemory_step ops (InMemory_step p s)) = Some e'"
    and "ipn_sequence e1 \<le> ipn_sequence e'"
    using Cons.IH [OF e1] Cons.prems(2) by auto
  with le show ?case by auto
qed

theorem memory_ipns_sequence_monotone_witness:
  "\<exists>e'. InMemory_get_ipns [1] (fold InMemory_step [PutIpns [1] (demo_ipn 1)]
      (snd (InMemory_put_ipns [1] (demo_ipn 2) InMemory_new))) = Some e' \<and> ipn_sequence (demo_ipn 2) \<le> ipn_sequence e'"
  by (rule memory_ipns_sequence_monotone)
    (simp_all add: InMemory_put_ipns_def InMemory_get_ipns_def InMemory_new_def)

text \<open>
  The persistent level has no such check: in the two-level store a stale IPNS record that
  the memory level rejects overwrites the newer one on disk, the put reports success, and
  after a restart with an empty memory level the stale record is served.
\<close>

theorem tiered_ipns_rollback_after_restart:
  assumes "rocksdb_laws api" and "ipn_sequence old < ipn_sequence new"
    and "fst (Tiered_put_ipns api k new s)" and "InMemory_get_ipns k (ts_memory s) = None"
    and "fst (Tiered_put_ipns api k old (snd (Tiered_put_ipns api k new s)))"
  shows "let s' = snd (Tiered_put_ipns api k old (snd (Tiered_put_ipns api k new s)))
    in Tiered_get_ipns api k s' = Some new \<and>
      Tiered_get_ipns api k (s'\<lparr>ts_memory := InMemory_new\<rparr>) = Some old"
proof -
  let ?s1 = "snd (Tiered_put_ipns api k new s)"
  have m: "InMemory_get_ipns k (ts_memory ?s1) = Some new"
    using assms(4) by (simp add: Tiered_put_ipns_parts InMemory_put_ipns_def InMemory_get_ipns_def)
  have "InMemory_get_ipns k (ts_memory (snd (Tiered_put_ipns api k old ?s1))) = Some new"
    using memory_ipns.get_rejected [of k old "ts_memory ?s1" k]
      memory_ipns.accepts [of k old "ts_memory ?s1"] m assms(2)
    by (simp add: Tiered_put_ipns_parts(2) [of api k old])
  moreover have "RocksDb_get_ipns api k (ts_rocksdb (snd (Tiered_put_ipns api k old ?s1))) = Some old"
    using RocksDb_get_put_ipns [OF assms(1)] assms(5)
    by (simp add: Tiered_put_ipns_parts [of api k old])
  ultimately show ?thesis
    by (simp add: Tiered_get_ipns_def Let_def) (simp add: InMemory_get_ipns_def InMemory_new_def)
qed

theorem tiered_ipns_rollback_after_restart_witness:
  "let s = \<lparr>ts_memory = InMemory_new, ts_rocksdb = []\<rparr>;
       s' = snd (Tiered_put_ipns demo_api [1] (demo_ipn 1) (snd (Tiered_put_ipns demo_api [1] (demo_ipn 2) s)))
   in Tiered_get_ipns demo_api [1] s' = Some (demo_ipn 2) \<and>
     Tiered_get_ipns demo_api [1] (s'\<lparr>ts_memory := InMemory_new\<rparr>) = Some (demo_ipn 1)"
proof -
  let ?s = "\<lparr>ts_memory = InMemory_new, ts_rocksdb = []\<rparr>"
  have "fst (Tiered_put_ipns demo_api [1] (demo_ipn n) t)" if "n = 1 \<or> n = 2" for n t
    using that by (auto simp: Tiered_put_ipns_parts RocksDb_put_ipns_def demo_api_def)
  moreover have "ipn_sequence (demo_ipn 1) < ipn_sequence (demo_ipn 2)" by (simp add: demo_ipn_def)
  moreover have "InMemory_get_ipns [1] (ts_memory ?s) = None"
    by (simp add: InMemory_get_ipns_def InMemory_new_def)
  ultimately show ?thesis
    using tiered_ipns_rollback_after_restart [OF demo_api_laws, of "demo_ipn 1" "demo_ipn 2" "[1]" ?s]
    by (simp only: Let_def) simp
qed

text \<open>
  The persistent level loses provider signatures: the signature field is skipped by the
  serialiser, so a provider record read back from RocksDB never verifies.
\<close>

theorem rocksdb_provider_signature_lost:
  assumes "rocksdb_laws api" and "fst (RocksDb_put_provider api k r db)"
    and "\<not> ProviderRecord_is_expired now r"
  shows "map (ProviderRecord_verify_signature hx verify)
      (fst (RocksDb_get_providers api now k (snd (RocksDb_put_provider api k r db)))) = [Some False]"
  using RocksDb_get_put_provider [OF assms] by (simp add: ProviderRecord_verify_signature_def)

theorem rocksdb_provider_signature_lost_witness:
  "map (ProviderRecord_verify_signature (\<lambda>s. Some (str_as_bytes s)) (\<lambda>_ _. True))
     (fst (RocksDb_get_providers demo_api 100 [1] (snd (RocksDb_put_provider demo_api [1] demo_provider [])))) =
     [Some False]"
  by (rule rocksdb_provider_signature_lost [OF demo_api_laws])
    (simp_all add: RocksDb_put_provider_def demo_api_def demo_provider_def ProviderRecord_is_expired_def
      ProviderRecord_new_def default_ttl_def sat_add64_def)

text \<open>
  Providers in memory: a put replaces the record of the same provider, keeps the others in
  order, and the query returns exactly the unexpired ones; in every reachable state each key
  lists each provider once and no list is empty.
\<close>

theorem memory_provider_put_get:
  "InMemory_get_providers now k' (snd (InMemory_put_provider k r s)) =
    (if k' = k
     then filter (\<lambda>q. pr_provider_id q \<noteq> pr_provider_id r) (InMemory_get_providers now k s) @
       (if ProviderRecord_is_expired now r then [] else [r])
     else InMemory_get_providers now k' s) \<and>
   InMemory_inv (fold InMemory_step ops InMemory_new)"
  using memory_store_ops.inv_run [of InMemory_new ops]
  by (auto simp: InMemory_get_providers_def InMemory_put_provider_def Let_def conj_commute
      split: option.splits intro: filter_cong)

text \<open>
  The two expiry rules disagree at the end of the range of 64-bit times: the sum in
  \<^verbatim>\<open>remove_expired_values\<close> wraps, so a value whose time to live is the largest integer is
  removed as soon as it is stored, while a provider record with the same times never expires.
\<close>

theorem value_with_max_ttl_expires_at_once:
  assumes "hm_get (ms_values s) k = Some v" and "hm_wf (ms_values s)"
    and "dv_ttl_secs v = - 1" and "0 < dv_timestamp v" and "dv_timestamp v \<le> now"
    and "pr_ttl_secs r = dv_ttl_secs v" and "pr_created_at r = dv_timestamp v"
  shows "InMemory_get_value k (snd (InMemory_remove_expired_values now s)) = None \<and>
    ProviderRecord_is_expired now r = False"
proof
  have "dv_timestamp v + dv_ttl_secs v = dv_timestamp v - 1" using assms(3) by simp
  also have "\<dots> < dv_timestamp v"
    using assms(4) unat_sub [of 1 "dv_timestamp v"] by (simp add: word_less_nat_alt word_le_nat_alt)
  also have "\<dots> \<le> now" by (rule assms(5))
  finally have "dv_timestamp v + dv_ttl_secs v < now" .
  with assms(1,2) show "InMemory_get_value k (snd (InMemory_remove_expired_values now s)) = None"
    by (simp add: InMemory_get_value_def InMemory_remove_expired_values_def Let_def hm_get_retain)
  have "unat now < 2 ^ 64" using unat_bound [of now] by simp
  moreover have "unat (pr_ttl_secs r) = 2 ^ 64 - 1"
    using assms(3,6) by (simp add: unsigned_minus_1_eq_mask mask_eq_exp_minus_1)
  ultimately show "ProviderRecord_is_expired now r = False" by (simp add: provider_expired_iff)
qed

theorem value_with_max_ttl_expires_at_once_witness:
  "InMemory_get_value [1] (snd (InMemory_remove_expired_values 10
     (snd (InMemory_put_value [1] \<lparr>dv_data = [], dv_timestamp = 10, dv_ttl_secs = - 1\<rparr> InMemory_new)))) = None"
  using value_with_max_ttl_expires_at_once [of
      "snd (InMemory_put_value [1] \<lparr>dv_data = [], dv_timestamp = 10, dv_ttl_secs = - 1\<rparr> InMemory_new)" "[1]"
      "\<lparr>dv_data = [], dv_timestamp = 10, dv_ttl_secs = - 1\<rparr>" 10
      "(ProviderRecord_new [1] ''ab'' ''x'' 10)\<lparr>pr_ttl_secs := - 1\<rparr>"]
  by (simp add: InMemory_put_value_def InMemory_new_def ProviderRecord_new_def hm_wf_def)

end
