(* ===== verification/Dht_Handler.thy ===== *)
theory Dht_Handler
  imports Dht_Routing Dht_Store
begin

text \<open>
  The DHT protocol and its server side: the messages of \<^verbatim>\<open>a3net-dht/src/protocol.rs\<close>, the
  handler of inbound messages of \<^verbatim>\<open>handler.rs\<close> and the adapter of \<^verbatim>\<open>transport.rs\<close>.
  \<^item> \<open>dht_env\<close> collects what these files use of other code: the \<^verbatim>\<open>hex\<close> and \<^verbatim>\<open>blake3\<close> crates,
    the fallback \<^verbatim>\<open>NodeId::random()\<close>, the text of socket addresses, and \<^verbatim>\<open>serde_json\<close> on messages.
  \<^item> The trait object \<^verbatim>\<open>SharedDhtStore\<close> is a record of operations \<open>dht_storage\<close> over a store
    state; \<open>memory_storage\<close> and \<open>tiered_storage\<close> are the modelled stores as such objects.
  \<^item> A handler operation takes the clock readings and returns the new handler state with the
    response. A channel to a waiting caller is a number; what is sent on it is returned.
  The lemmas: no inbound message adds a peer, every sequence of messages and table operations
  keeps the tables well formed and bounded, an answer carries the identifier of its request,
  a value put over the wire is what later requests get, and an announcement is stored without
  any check of its signature.
\<close>

section \<open>Messages\<close>

definition MAX_NODES :: nat where
  "MAX_NODES = 20"

definition MAX_PROVIDERS :: nat where
  "MAX_PROVIDERS = 20"

type_synonym request_id = string

record node_contact =
  nc_id :: node_id
  nc_addrs :: "string list"

record provider_record_wire =
  pw_provider_id :: node_id
  pw_addrs :: "string list"
  pw_ttl_secs :: u64
  pw_signature :: "bytes option"

record value_data =
  vd_data :: bytes
  vd_timestamp :: u64
  vd_ttl_secs :: u64

record find_node_payload =
  fn_key :: bytes
  fn_request_id :: request_id
  fn_sender_id :: node_id

record nodes_payload =
  np_request_id :: request_id
  np_nodes :: "node_contact list"

record get_providers_payload =
  gp_key :: bytes
  gp_request_id :: request_id
  gp_sender_id :: node_id

record providers_payload =
  pp_request_id :: request_id
  pp_providers :: "provider_record_wire list"

record add_provider_payload =
  ap_key :: bytes
  ap_provider :: provider_record_wire
  ap_request_id :: request_id
  ap_sender_id :: node_id

record add_provider_ack_payload =
  aa_request_id :: request_id
  aa_accepted :: bool
  aa_error :: "string option"

record get_value_payload =
  gv_key :: bytes
  gv_request_id :: request_id
  gv_sender_id :: node_id

record value_payload =
  vp_request_id :: request_id
  vp_value :: "value_data option"

record put_value_payload =
  pv_key :: bytes
  pv_value :: value_data
  pv_request_id :: request_id
  pv_sender_id :: node_id

record put_ack_payload =
  pa_request_id :: request_id
  pa_success :: bool
  pa_error :: "string option"

record ping_payload =
  pi_request_id :: request_id
  pi_sender_id :: node_id

record pong_payload =
  po_request_id :: request_id
  po_sender_id :: node_id

datatype dht_wire_message =
    FindNode find_node_payload
  | Nodes nodes_payload
  | GetProviders get_providers_payload
  | Providers providers_payload
  | AddProvider add_provider_payload
  | AddProviderAck add_provider_ack_payload
  | GetValue get_value_payload
  | Value value_payload
  | PutValue put_value_payload
  | PutAck put_ack_payload
  | Ping ping_payload
  | Pong pong_payload

fun message_type :: "dht_wire_message \<Rightarrow> string" where
  "message_type (FindNode _) = ''find_node''"
| "message_type (Nodes _) = ''nodes''"
| "message_type (GetProviders _) = ''get_providers''"
| "message_type (Providers _) = ''providers''"
| "message_type (AddProvider _) = ''add_provider''"
| "message_type (AddProviderAck _) = ''add_provider_ack''"
| "message_type (GetValue _) = ''get_value''"
| "message_type (Value _) = ''value''"
| "message_type (PutValue _) = ''put_value''"
| "message_type (PutAck _) = ''put_ack''"
| "message_type (Ping _) = ''ping''"
| "message_type (Pong _) = ''pong''"

text \<open>The builders take the fresh request identifier as an argument.\<close>

definition DhtCodec_find_node :: "request_id \<Rightarrow> bytes \<Rightarrow> node_id \<Rightarrow> dht_wire_message" where
  "DhtCodec_find_node rid key sender_id =
    FindNode \<lparr>fn_key = key, fn_request_id = rid, fn_sender_id = sender_id\<rparr>"

definition DhtCodec_get_providers :: "request_id \<Rightarrow> bytes \<Rightarrow> node_id \<Rightarrow> dht_wire_message" where
  "DhtCodec_get_providers rid key sender_id =
    GetProviders \<lparr>gp_key = key, gp_request_id = rid, gp_sender_id = sender_id\<rparr>"

definition DhtCodec_ping :: "request_id \<Rightarrow> node_id \<Rightarrow> dht_wire_message" where
  "DhtCodec_ping rid sender_id = Ping \<lparr>pi_request_id = rid, pi_sender_id = sender_id\<rparr>"

definition Builder_add_provider ::
  "request_id \<Rightarrow> node_id \<Rightarrow> bytes \<Rightarrow> node_id \<Rightarrow> string list \<Rightarrow> u64 \<Rightarrow> dht_wire_message"
where
  "Builder_add_provider rid sender_id key provider_id addrs ttl_secs =
    AddProvider \<lparr>ap_key = key,
      ap_provider = \<lparr>pw_provider_id = provider_id, pw_addrs = addrs, pw_ttl_secs = ttl_secs, pw_signature = None\<rparr>,
      ap_request_id = rid, ap_sender_id = sender_id\<rparr>"

text \<open>The identifier a response carries, as the two \<^verbatim>\<open>handle_response\<close> functions read it.\<close>

fun response_id :: "dht_wire_message \<Rightarrow> request_id option" where
  "response_id (Nodes p) = Some (np_request_id p)"
| "response_id (Providers p) = Some (pp_request_id p)"
| "response_id (AddProviderAck p) = Some (aa_request_id p)"
| "response_id (Value p) = Some (vp_request_id p)"
| "response_id (PutAck p) = Some (pa_request_id p)"
| "response_id (Pong p) = Some (po_request_id p)"
| "response_id _ = None"

section \<open>Environment and storage\<close>

record dht_env =
  env_hex_decode :: hex_decoder
  env_hex_encode :: hex_encoder
  env_blake3 :: "bytes \<Rightarrow> bytes"
  env_random_id :: node_id
  env_parse_addr :: "string \<Rightarrow> socket_addr option"
  env_show_addr :: "socket_addr \<Rightarrow> string"
  env_encode :: "dht_wire_message \<Rightarrow> (string, bytes) result"
  env_decode :: "bytes \<Rightarrow> (string, dht_wire_message) result"

definition node_id_from_key :: "dht_env \<Rightarrow> dht_key \<Rightarrow> node_id" where
  "node_id_from_key env key =
    (let arr = (if 32 \<le> length key then take 32 key else env_blake3 env key)
     in case NodeId_from_bytes (env_hex_encode env) arr of
          Inr n \<Rightarrow> n
        | Inl _ \<Rightarrow> env_random_id env)"

record 's dht_storage =
  st_put_provider :: "dht_key \<Rightarrow> provider_record \<Rightarrow> 's \<Rightarrow> bool \<times> 's"
  st_get_providers :: "u64 \<Rightarrow> dht_key \<Rightarrow> 's \<Rightarrow> provider_record list \<times> 's"
  st_put_value :: "dht_key \<Rightarrow> dht_value \<Rightarrow> 's \<Rightarrow> bool \<times> 's"
  st_get_value :: "dht_key \<Rightarrow> 's \<Rightarrow> dht_value option"

definition memory_storage :: "in_memory_store dht_storage" where
  "memory_storage = \<lparr>st_put_provider = InMemory_put_provider,
     st_get_providers = (\<lambda>now key s. (InMemory_get_providers now key s, s)),
     st_put_value = InMemory_put_value, st_get_value = InMemory_get_value\<rparr>"

definition tiered_storage :: "'db rocksdb_api \<Rightarrow> 'db tiered_store dht_storage" where
  "tiered_storage api = \<lparr>st_put_provider = Tiered_put_provider api,
     st_get_providers = Tiered_get_providers api,
     st_put_value = Tiered_put_value api, st_get_value = Tiered_get_value api\<rparr>"

section \<open>The handler\<close>

definition MAX_PENDING_REQUESTS :: nat where
  "MAX_PENDING_REQUESTS = 100"

definition REQUEST_TIMEOUT :: duration where
  "REQUEST_TIMEOUT = 5"

datatype pending_request_error = TableFull nat

record pending_request =
  pq_sent_at :: instant
  pq_response_tx :: nat

record 's dht_handler =
  h_local_id :: node_id
  h_routing_table :: routing_table
  h_store :: 's
  h_pending :: "(request_id, pending_request) hmap"

text \<open>The clock: the instant that marks a contact as seen, and the seconds since the epoch.\<close>

record clock =
  clk_instant :: instant
  clk_secs :: u64

definition DhtProtocolHandler_new :: "node_id \<Rightarrow> routing_table \<Rightarrow> 's \<Rightarrow> 's dht_handler" where
  "DhtProtocolHandler_new local_id rt store = \<lparr>h_local_id = local_id, h_routing_table = rt,
     h_store = store, h_pending = []\<rparr>"

definition update_routing_table ::
  "dht_env \<Rightarrow> clock \<Rightarrow> node_id \<Rightarrow> socket_addr option \<Rightarrow> 's dht_handler \<Rightarrow> 's dht_handler"
where
  "update_routing_table env clk peer_id addr h =
    (if peer_id = h_local_id h then h
     else case addr of
         Some socket \<Rightarrow>
           (let rt = snd (RoutingTable_insert (env_hex_decode env)
                        (Contact_new peer_id socket (clk_instant clk)) (h_routing_table h))
            in h\<lparr>h_routing_table := RoutingTable_mark_seen (env_hex_decode env) peer_id (clk_instant clk) rt\<rparr>)
       | None \<Rightarrow>
           h\<lparr>h_routing_table :=
             RoutingTable_mark_seen (env_hex_decode env) peer_id (clk_instant clk) (h_routing_table h)\<rparr>)"

definition to_node_contact :: "dht_env \<Rightarrow> contact \<Rightarrow> node_contact" where
  "to_node_contact env c = \<lparr>nc_id = c_id c, nc_addrs = map (env_show_addr env) (c_addrs c)\<rparr>"

definition handle_find_node ::
  "dht_env \<Rightarrow> clock \<Rightarrow> find_node_payload \<Rightarrow> 's dht_handler \<Rightarrow> dht_wire_message \<times> 's dht_handler"
where
  "handle_find_node env clk p h =
    (let h' = update_routing_table env clk (fn_sender_id p) None h;
         target_id = node_id_from_key env (fn_key p);
         cs = closest (env_hex_decode env) target_id 20 (h_routing_table h')
     in (Nodes \<lparr>np_request_id = fn_request_id p, np_nodes = map (to_node_contact env) cs\<rparr>, h'))"

definition to_provider_wire :: "provider_record \<Rightarrow> provider_record_wire" where
  "to_provider_wire r = \<lparr>pw_provider_id = pr_provider_id r, pw_addrs = [pr_provider_addr r],
     pw_ttl_secs = pr_ttl_secs r, pw_signature = pr_signature r\<rparr>"

definition handle_get_providers ::
  "dht_env \<Rightarrow> 's dht_storage \<Rightarrow> clock \<Rightarrow> get_providers_payload \<Rightarrow> 's dht_handler \<Rightarrow>
    dht_wire_message \<times> 's dht_handler"
where
  "handle_get_providers env st clk p h =
    (let h1 = update_routing_table env clk (gp_sender_id p) None h;
         (rs, s) = st_get_providers st (clk_secs clk) (gp_key p) (h_store h1)
     in (Providers \<lparr>pp_request_id = gp_request_id p, pp_providers = map to_provider_wire rs\<rparr>,
         h1\<lparr>h_store := s\<rparr>))"

definition handle_add_provider ::
  "dht_env \<Rightarrow> 's dht_storage \<Rightarrow> clock \<Rightarrow> add_provider_payload \<Rightarrow> 's dht_handler \<Rightarrow>
    dht_wire_message \<times> 's dht_handler"
where
  "handle_add_provider env st clk p h =
    (let h1 = update_routing_table env clk (ap_sender_id p) None h;
         record = \<lparr>pr_key = ap_key p, pr_provider_id = pw_provider_id (ap_provider p),
           pr_provider_addr = (case pw_addrs (ap_provider p) of a # _ \<Rightarrow> a | [] \<Rightarrow> []),
           pr_ttl_secs = pw_ttl_secs (ap_provider p), pr_created_at = clk_secs clk,
           pr_signature = pw_signature (ap_provider p)\<rparr>;
         s = snd (st_put_provider st (ap_key p) record (h_store h1))
     in (AddProviderAck \<lparr>aa_request_id = ap_request_id p, aa_accepted = True, aa_error = None\<rparr>,
         h1\<lparr>h_store := s\<rparr>))"

definition handle_get_value ::
  "dht_env \<Rightarrow> 's dht_storage \<Rightarrow> clock \<Rightarrow> get_value_payload \<Rightarrow> 's dht_handler \<Rightarrow>
    dht_wire_message \<times> 's dht_handler"
where
  "handle_get_value env st clk p h =
    (let h1 = update_routing_table env clk (gv_sender_id p) None h;
         v = map_option (\<lambda>v. \<lparr>vd_data = dv_data v, vd_timestamp = dv_timestamp v, vd_ttl_secs = dv_ttl_secs v\<rparr>)
           (st_get_value st (gv_key p) (h_store h1))
     in (Value \<lparr>vp_request_id = gv_request_id p, vp_value = v\<rparr>, h1))"

definition handle_put_value ::
  "dht_env \<Rightarrow> 's dht_storage \<Rightarrow> clock \<Rightarrow> put_value_payload \<Rightarrow> 's dht_handler \<Rightarrow>
    dht_wire_message \<times> 's dht_handler"
where
  "handle_put_value env st clk p h =
    (let h1 = update_routing_table env clk (pv_sender_id p) None h;
         value = \<lparr>dv_data = vd_data (pv_value p), dv_timestamp = vd_timestamp (pv_value p),
           dv_ttl_secs = vd_ttl_secs (pv_value p)\<rparr>;
         (success, s) = st_put_value st (pv_key p) value (h_store h1)
     in (PutAck \<lparr>pa_request_id = pv_request_id p, pa_success = success,
           pa_error = (if success then None else Some ''Storage failed'')\<rparr>, h1\<lparr>h_store := s\<rparr>))"

definition handle_ping ::
  "dht_env \<Rightarrow> clock \<Rightarrow> ping_payload \<Rightarrow> 's dht_handler \<Rightarrow> dht_wire_message \<times> 's dht_handler"
where
  "handle_ping env clk p h =
    (let h1 = update_routing_table env clk (pi_sender_id p) None h
     in (Pong \<lparr>po_request_id = pi_request_id p, po_sender_id = h_local_id h1\<rparr>, h1))"

fun dispatch ::
  "dht_env \<Rightarrow> 's dht_storage \<Rightarrow> clock \<Rightarrow> dht_wire_message \<Rightarrow> 's dht_handler \<Rightarrow>
    dht_wire_message option \<times> 's dht_handler"
where
  "dispatch env st clk (FindNode p) h = map_prod Some id (handle_find_node env clk p h)"
| "dispatch env st clk (GetProviders p) h = map_prod Some id (handle_get_providers env st clk p h)"
| "dispatch env st clk (AddProvider p) h = map_prod Some id (handle_add_provider env st clk p h)"
| "dispatch env st clk (GetValue p) h = map_prod Some id (handle_get_value env st clk p h)"
| "dispatch env st clk (PutValue p) h = map_prod Some id (handle_put_value env st clk p h)"
| "dispatch env st clk (Ping p) h = map_prod Some id (handle_ping env clk p h)"
| "dispatch env st clk _ h = (None, h)"

text \<open>The response is encoded; a response that cannot be encoded is dropped.\<close>

definition handle_message ::
  "dht_env \<Rightarrow> 's dht_storage \<Rightarrow> clock \<Rightarrow> dht_wire_message \<Rightarrow> 's dht_handler \<Rightarrow> bytes option \<times> 's dht_handler"
where
  "handle_message env st clk msg h =
    (let (r, h') = dispatch env st clk msg h
     in (case r of
           Some m \<Rightarrow> (case env_encode env m of Inr b \<Rightarrow> Some b | Inl _ \<Rightarrow> None)
         | None \<Rightarrow> None, h'))"

definition handle_frame ::
  "dht_env \<Rightarrow> 's dht_storage \<Rightarrow> clock \<Rightarrow> bytes \<Rightarrow> 's dht_handler \<Rightarrow> bytes option \<times> 's dht_handler"
where
  "handle_frame env st clk frame_data h =
    (case env_decode env frame_data of
       Inl _ \<Rightarrow> (None, h)
     | Inr msg \<Rightarrow> handle_message env st clk msg h)"

definition register_request ::
  "instant \<Rightarrow> request_id \<Rightarrow> nat \<Rightarrow> 's dht_handler \<Rightarrow> (pending_request_error, unit) result \<times> 's dht_handler"
where
  "register_request now rid tx h =
    (if MAX_PENDING_REQUESTS \<le> length (h_pending h) then (Inl (TableFull MAX_PENDING_REQUESTS), h)
     else (Inr (), h\<lparr>h_pending := hm_insert rid \<lparr>pq_sent_at = now, pq_response_tx = tx\<rparr> (h_pending h)\<rparr>))"

definition handle_response ::
  "dht_env \<Rightarrow> dht_wire_message \<Rightarrow> 's dht_handler \<Rightarrow> (nat \<times> (string, bytes) result) option \<times> 's dht_handler"
where
  "handle_response env msg h =
    (case response_id msg of
       None \<Rightarrow> (None, h)
     | Some rid \<Rightarrow>
         (case hm_get (h_pending h) rid of
            None \<Rightarrow> (None, h\<lparr>h_pending := hm_remove rid (h_pending h)\<rparr>)
          | Some q \<Rightarrow> (Some (pq_response_tx q, env_encode env msg),
              h\<lparr>h_pending := hm_remove rid (h_pending h)\<rparr>)))"

definition cleanup_timeout :: "instant \<Rightarrow> 's dht_handler \<Rightarrow> 's dht_handler" where
  "cleanup_timeout now h =
    h\<lparr>h_pending := hm_retain (\<lambda>_ q. now - pq_sent_at q < REQUEST_TIMEOUT) (h_pending h)\<rparr>"

section \<open>The transport adapter\<close>

text \<open>\<^verbatim>\<open>DhtTransportAdapter::handle_message\<close>: \<open>peer_addr\<close> is the direct endpoint the transport
  knows for the peer, when its text parses as a socket address.\<close>

definition update_routing ::
  "dht_env \<Rightarrow> instant \<Rightarrow> node_id \<Rightarrow> socket_addr option \<Rightarrow> routing_table \<Rightarrow> routing_table"
where
  "update_routing env now peer_id peer_addr rt =
    (case peer_addr of
       Some a \<Rightarrow> snd (RoutingTable_insert (env_hex_decode env) (Contact_new peer_id a now) rt)
     | None \<Rightarrow> rt)"

definition adapter_respond ::
  "dht_env \<Rightarrow> dht_wire_message \<Rightarrow> routing_table \<Rightarrow> (string, bytes option) result \<times> routing_table"
where
  "adapter_respond env m rt = (case env_encode env m of Inl e \<Rightarrow> Inl e | Inr b \<Rightarrow> Inr (Some b), rt)"

definition adapter_handle_message ::
  "dht_env \<Rightarrow> node_id \<Rightarrow> instant \<Rightarrow> node_id \<Rightarrow> socket_addr option \<Rightarrow> bytes \<Rightarrow> routing_table \<Rightarrow>
    (string, bytes option) result \<times> routing_table"
where
  "adapter_handle_message env local_id now peer_id peer_addr data rt =
    (case env_decode env data of
       Inl e \<Rightarrow> (Inl e, rt)
     | Inr (FindNode p) \<Rightarrow>
         (let rt' = update_routing env now peer_id peer_addr rt;
              cs = closest (env_hex_decode env) (node_id_from_key env (fn_key p)) 20 rt'
          in adapter_respond env
               (Nodes \<lparr>np_request_id = fn_request_id p, np_nodes = map (to_node_contact env) cs\<rparr>) rt')
     | Inr (GetProviders p) \<Rightarrow>
         adapter_respond env (Providers \<lparr>pp_request_id = gp_request_id p, pp_providers = []\<rparr>)
           (update_routing env now peer_id peer_addr rt)
     | Inr (Ping p) \<Rightarrow>
         adapter_respond env (Pong \<lparr>po_request_id = pi_request_id p, po_sender_id = local_id\<rparr>) rt
     | Inr _ \<Rightarrow> (Inr None, rt))"

section \<open>Lemmas: what a message can change\<close>

named_theorems handler_defs \<open>the handlers of the six requests\<close>

lemmas handler_unfold [handler_defs] =
  handle_find_node_def handle_get_providers_def handle_add_provider_def handle_get_value_def
  handle_put_value_def handle_ping_def

lemma update_routing_table_frame [simp]:
  "h_local_id (update_routing_table env clk i a h) = h_local_id h"
  "h_store (update_routing_table env clk i a h) = h_store h"
  "h_pending (update_routing_table env clk i a h) = h_pending h"
  by (simp_all add: update_routing_table_def Let_def split: option.splits)

lemma dispatch_frame [simp]:
  "h_local_id (snd (dispatch env st clk m h)) = h_local_id h"
  "h_pending (snd (dispatch env st clk m h)) = h_pending h"
  by (cases m; simp add: handler_defs Let_def case_prod_beta)+

text \<open>The sender of a request, and the routing table after it: only a refreshed time stamp.\<close>

fun sender_of :: "dht_wire_message \<Rightarrow> node_id option" where
  "sender_of (FindNode p) = Some (fn_sender_id p)"
| "sender_of (GetProviders p) = Some (gp_sender_id p)"
| "sender_of (AddProvider p) = Some (ap_sender_id p)"
| "sender_of (GetValue p) = Some (gv_sender_id p)"
| "sender_of (PutValue p) = Some (pv_sender_id p)"
| "sender_of (Ping p) = Some (pi_sender_id p)"
| "sender_of _ = None"

fun request_id_of :: "dht_wire_message \<Rightarrow> request_id option" where
  "request_id_of (FindNode p) = Some (fn_request_id p)"
| "request_id_of (GetProviders p) = Some (gp_request_id p)"
| "request_id_of (AddProvider p) = Some (ap_request_id p)"
| "request_id_of (GetValue p) = Some (gv_request_id p)"
| "request_id_of (PutValue p) = Some (pv_request_id p)"
| "request_id_of (Ping p) = Some (pi_request_id p)"
| "request_id_of _ = None"

lemma dispatch_routing_table:
  "h_routing_table (snd (dispatch env st clk m h)) =
    (case sender_of m of
       Some i \<Rightarrow> if i = h_local_id h then h_routing_table h
         else RoutingTable_mark_seen (env_hex_decode env) i (clk_instant clk) (h_routing_table h)
     | None \<Rightarrow> h_routing_table h)"
  by (cases m) (simp_all add: handler_defs update_routing_table_def Let_def case_prod_beta)

lemma dispatch_answers:
  "map_option response_id (fst (dispatch env st clk m h)) = map_option Some (request_id_of m)"
  by (cases m) (simp_all add: handler_defs Let_def case_prod_beta)

lemma KBucket_mark_seen_same_ids:
  assumes "KBucket_inv kb"
  shows "c_id ` set (kb_contacts (KBucket_mark_seen i now kb)) = c_id ` set (kb_contacts kb)"
proof (cases "KBucket_find kb i")
  case (Some c)
  then have c: "c \<in> set (kb_contacts kb)" "c_id c = i" by (auto simp: KBucket_find_def dest: find_SomeD)
  have "set (remove_first i (kb_contacts kb)) = {x \<in> set (kb_contacts kb). c_id x \<noteq> i}"
    using assms by (simp add: KBucket_inv_def remove_first_filter)
  then show ?thesis using Some c by (auto simp: KBucket_mark_seen_def Contact_mark_seen_def)
qed (simp add: KBucket_mark_seen_def)

lemma UN_list_update:
  assumes "f y = f (xs ! k)" and "k < length xs"
  shows "(\<Union>x \<in> set (xs[k := y]). f x) = (\<Union>x \<in> set xs. f x)"
proof -
  have "set (map f (xs[k := y])) = set (map f xs)"
    using assms by (metis list_update_id map_update nth_map)
  then show ?thesis unfolding set_map by (rule arg_cong)
qed

lemma mark_seen_same_ids:
  assumes "RoutingTable_inv hx rt"
  shows "c_id ` set (all_contacts (RoutingTable_mark_seen hx i now rt)) = c_id ` set (all_contacts rt)"
proof -
  let ?k = "slot_of hx rt i" and ?kb = "KBucket_mark_seen i now (bucket_for hx rt i)"
  have k: "?k < length (rt_buckets rt)" using assms slot_less [of hx rt i] by (simp add: RoutingTable_inv_def)
  have "c_id ` set (kb_contacts ?kb) = c_id ` set (kb_contacts (rt_buckets rt ! ?k))"
    using KBucket_mark_seen_same_ids [OF bucket_for_inv(1) [OF assms]] by (simp add: bucket_for_def)
  then have "(\<Union>b \<in> set ((rt_buckets rt)[?k := ?kb]). c_id ` set (kb_contacts b)) =
      (\<Union>b \<in> set (rt_buckets rt). c_id ` set (kb_contacts b))"
    using k by (rule UN_list_update)
  then show ?thesis
    by (simp add: all_contacts_def RoutingTable_mark_seen_def update_bucket_def image_Un image_UN)
qed

section \<open>Lemmas: every sequence of operations\<close>

datatype handler_op =
    Inbound clock dht_wire_message
  | Register instant request_id nat
  | Respond dht_wire_message
  | Cleanup instant

fun handler_step :: "dht_env \<Rightarrow> 's dht_storage \<Rightarrow> handler_op \<Rightarrow> 's dht_handler \<Rightarrow> 's dht_handler" where
  "handler_step env st (Inbound clk m) h = snd (handle_message env st clk m h)"
| "handler_step env st (Register now rid tx) h = snd (register_request now rid tx h)"
| "handler_step env st (Respond m) h = snd (handle_response env m h)"
| "handler_step env st (Cleanup now) h = cleanup_timeout now h"

lemma handle_message_state [simp]: "snd (handle_message env st clk m h) = snd (dispatch env st clk m h)"
  by (simp add: handle_message_def case_prod_beta)

lemma handle_response_frame [simp]:
  "h_local_id (snd (handle_response env m h)) = h_local_id h"
  "h_routing_table (snd (handle_response env m h)) = h_routing_table h"
  "h_store (snd (handle_response env m h)) = h_store h"
  by (simp_all add: handle_response_def split: option.splits)

lemma handle_response_pending:
  "h_pending (snd (handle_response env m h)) =
    (case response_id m of Some rid \<Rightarrow> hm_remove rid (h_pending h) | None \<Rightarrow> h_pending h)"
  by (simp add: handle_response_def split: option.splits)

definition handler_inv :: "dht_env \<Rightarrow> node_id set \<Rightarrow> 's dht_handler \<Rightarrow> bool" where
  "handler_inv env ids h \<longleftrightarrow>
    RoutingTable_inv (env_hex_decode env) (h_routing_table h) \<and>
    c_id ` set (all_contacts (h_routing_table h)) = ids \<and>
    hm_wf (h_pending h) \<and> length (h_pending h) \<le> MAX_PENDING_REQUESTS"

lemma length_filter_le_bound: "length xs \<le> n \<Longrightarrow> length (filter P xs) \<le> n"
  by (rule le_trans [OF length_filter_le])

lemma handler_inv_step:
  assumes "handler_inv env ids h"
  shows "handler_inv env ids (handler_step env st p h)"
proof (cases p)
  case (Inbound clk m)
  then show ?thesis using assms
    by (auto simp: handler_inv_def dispatch_routing_table inv_RoutingTable_mark_seen mark_seen_same_ids
        split: option.splits)
next
  case (Register now rid tx)
  then show ?thesis using assms
    by (auto simp: handler_inv_def register_request_def MAX_PENDING_REQUESTS_def length_hm_insert)
next
  case (Respond m)
  then show ?thesis using assms
    by (auto simp: handler_inv_def handle_response_pending split: option.splits
        intro: le_trans [OF length_hm_remove_le])
next
  case (Cleanup now)
  then show ?thesis using assms
    by (auto simp: handler_inv_def cleanup_timeout_def hm_retain_def intro: length_filter_le_bound)
qed

interpretation handler_ops: op_machine
  "\<lambda>h. \<exists>rt s. RoutingTable_inv (env_hex_decode env) rt \<and> ids = c_id ` set (all_contacts rt)
     \<and> h = DhtProtocolHandler_new i rt s"
  "handler_step env st" "handler_inv env ids"
proof
  fix h assume "\<exists>rt s. RoutingTable_inv (env_hex_decode env) rt \<and> ids = c_id ` set (all_contacts rt)
     \<and> h = DhtProtocolHandler_new i rt s"
  then show "handler_inv env ids h" by (auto simp: handler_inv_def DhtProtocolHandler_new_def)
qed (rule handler_inv_step)

section \<open>Lemmas: values over the wire\<close>

definition puts :: "dht_key \<Rightarrow> dht_wire_message \<Rightarrow> bool" where
  "puts k m = (case m of PutValue p \<Rightarrow> pv_key p = k | _ \<Rightarrow> False)"

text \<open>What the handler relies on for values: a put that reports success is seen by later gets,
  and the operations on providers leave the values alone.\<close>

locale storage_object =
  fixes st :: "'s dht_storage"
  assumes get_put_value: "fst (st_put_value st k v s) \<Longrightarrow>
      st_get_value st k' (snd (st_put_value st k v s)) = (if k' = k then Some v else st_get_value st k' s)"
    and get_put_provider: "st_get_value st k (snd (st_put_provider st k' r s)) = st_get_value st k s"
    and get_get_providers: "st_get_value st k (snd (st_get_providers st now k' s)) = st_get_value st k s"
    and put_value_total: "fst (st_put_value st k v s)"
begin

lemma dispatch_value:
  "\<not> puts k m \<Longrightarrow> st_get_value st k (h_store (snd (dispatch env st clk m h))) = st_get_value st k (h_store h)"
  by (cases m) (simp_all add: puts_def handler_defs Let_def case_prod_beta get_put_value [OF put_value_total]
      get_put_provider get_get_providers)

lemma steps_value:
  "\<forall>clk m. Inbound clk m \<in> set ops \<longrightarrow> \<not> puts k m \<Longrightarrow>
    st_get_value st k (h_store (fold (handler_step env st) ops h)) = st_get_value st k (h_store h)"
proof (induction ops arbitrary: h)
  case (Cons p ops)
  have "st_get_value st k (h_store (handler_step env st p h)) = st_get_value st k (h_store h)"
    using Cons.prems by (cases p) (simp_all add: dispatch_value register_request_def cleanup_timeout_def)
  with Cons show ?case by simp
qed simp

lemma put_then_get:
  assumes "\<forall>clk m. Inbound clk m \<in> set ops \<longrightarrow> \<not> puts (pv_key p) m" and "gv_key g = pv_key p"
  shows "fst (dispatch env st clk' (GetValue g)
      (fold (handler_step env st) ops (handler_step env st (Inbound clk (PutValue p)) h))) =
    Some (Value \<lparr>vp_request_id = gv_request_id g, vp_value = Some (pv_value p)\<rparr>)"
proof -
  let ?v = "\<lparr>dv_data = vd_data (pv_value p), dv_timestamp = vd_timestamp (pv_value p),
           dv_ttl_secs = vd_ttl_secs (pv_value p)\<rparr>"
  have "st_get_value st (pv_key p) (h_store (handler_step env st (Inbound clk (PutValue p)) h)) = Some ?v"
    by (simp add: handle_put_value_def Let_def case_prod_beta get_put_value [OF put_value_total])
  then show ?thesis using steps_value [OF assms(1)] assms(2)
    by (simp add: handle_get_value_def Let_def)
qed

end

interpretation memory_object: storage_object memory_storage
  by unfold_locales (simp_all add: memory_storage_def InMemory_put_value_def InMemory_get_value_def
      InMemory_put_provider_def Let_def)

section \<open>Properties\<close>

text \<open>
  Whatever messages arrive, whatever requests are registered, answered and cleaned up, in any
  order: the routing table stays well formed and knows exactly the peers it knew at the start
  (an inbound message refreshes a contact and never adds one), and the table of pending requests
  has no repeated identifier and at most \<open>MAX_PENDING_REQUESTS\<close> entries.
\<close>

theorem handler_reachable_inv:
  assumes "RoutingTable_inv (env_hex_decode env) rt"
  shows "let h = fold (handler_step env st) ops (DhtProtocolHandler_new i rt s)
    in RoutingTable_inv (env_hex_decode env) (h_routing_table h)
      \<and> c_id ` set (all_contacts (h_routing_table h)) = c_id ` set (all_contacts rt)
      \<and> hm_wf (h_pending h) \<and> length (h_pending h) \<le> 100"
proof -
  have "handler_inv env (c_id ` set (all_contacts rt)) (fold (handler_step env st) ops (DhtProtocolHandler_new i rt s))"
    using assms by (intro handler_ops.inv_run) blast
  then show ?thesis by (simp add: handler_inv_def MAX_PENDING_REQUESTS_def Let_def)
qed

definition demo_env :: dht_env where
  "demo_env = \<lparr>env_hex_decode = demo_decoder, env_hex_encode = (\<lambda>_. ''a''), env_blake3 = (\<lambda>_. replicate 32 0),
     env_random_id = ''r'', env_parse_addr = (\<lambda>_. Some (V4 1, 1)), env_show_addr = (\<lambda>_. ''addr''),
     env_encode = (\<lambda>_. Inr []), env_decode = (\<lambda>_. Inl [])\<rparr>"

theorem handler_reachable_inv_witness:
  "length (h_pending (fold (handler_step demo_env memory_storage)
     [Register 0 ''q'' 1, Inbound \<lparr>clk_instant = 1, clk_secs = 1\<rparr> (Ping \<lparr>pi_request_id = ''z'', pi_sender_id = ''b''\<rparr>)]
     (DhtProtocolHandler_new ''a'' (RoutingTable_new ''a'' 0) InMemory_new))) \<le> 100"
  using handler_reachable_inv [OF inv_RoutingTable_new, of demo_env memory_storage
      "[Register 0 ''q'' 1, Inbound \<lparr>clk_instant = 1, clk_secs = 1\<rparr> (Ping \<lparr>pi_request_id = ''z'', pi_sender_id = ''b''\<rparr>)]"
      "''a''" "''a''" 0 InMemory_new] unfolding Let_def by blast

text \<open>
  Values over the wire: after a \<^verbatim>\<open>PutValue\<close> request, and after any further operations of the
  handler without another \<^verbatim>\<open>PutValue\<close> for that key, a \<^verbatim>\<open>GetValue\<close> request for the key is answered
  with its own identifier and with exactly the value that was put.
\<close>

theorem wire_put_then_get:
  assumes "\<forall>clk m. Inbound clk m \<in> set ops \<longrightarrow> \<not> puts (pv_key p) m" and "gv_key g = pv_key p"
  shows "fst (dispatch env memory_storage clk' (GetValue g)
      (fold (handler_step env memory_storage) ops (handler_step env memory_storage (Inbound clk (PutValue p)) h))) =
    Some (Value \<lparr>vp_request_id = gv_request_id g, vp_value = Some (pv_value p)\<rparr>)"
  using assms by (rule memory_object.put_then_get)

definition demo_put :: "bytes \<Rightarrow> put_value_payload" where
  "demo_put k = \<lparr>pv_key = k, pv_value = \<lparr>vd_data = [7], vd_timestamp = 1, vd_ttl_secs = 2\<rparr>,
     pv_request_id = ''p'', pv_sender_id = ''b''\<rparr>"

definition demo_clock :: clock where
  "demo_clock = \<lparr>clk_instant = 1, clk_secs = 1\<rparr>"

definition demo_handler :: "in_memory_store dht_handler" where
  "demo_handler = DhtProtocolHandler_new ''a'' (RoutingTable_new ''a'' 0) InMemory_new"

theorem wire_put_then_get_witness:
  "fst (dispatch demo_env memory_storage demo_clock
      (GetValue \<lparr>gv_key = [1], gv_request_id = ''g'', gv_sender_id = ''c''\<rparr>)
      (fold (handler_step demo_env memory_storage) [Inbound demo_clock (PutValue (demo_put [2])), Cleanup 9]
        (handler_step demo_env memory_storage (Inbound demo_clock (PutValue (demo_put [1]))) demo_handler))) =
    Some (Value \<lparr>vp_request_id = ''g'', vp_value = Some \<lparr>vd_data = [7], vd_timestamp = 1, vd_ttl_secs = 2\<rparr>\<rparr>)"
  using wire_put_then_get [of "[Inbound demo_clock (PutValue (demo_put [2])), Cleanup 9]" "demo_put [1]"
      "\<lparr>gv_key = [1], gv_request_id = ''g'', gv_sender_id = ''c''\<rparr>"]
  by (simp add: puts_def demo_put_def)

text \<open>
  Provider announcements are not authenticated. Whoever sends an \<^verbatim>\<open>AddProvider\<close> message, with
  whatever signature or none, for whatever provider: it is acknowledged as accepted, and as long
  as the lifetime it states has not passed, a request for the key is answered with that record
  as the only one of the provider, so it also replaces the provider's own record.
\<close>

theorem forged_announcement_replaces_genuine:
  fixes h :: "in_memory_store dht_handler"
  assumes "\<not> unat (clk_secs clk) + unat (pw_ttl_secs (ap_provider p)) < unat (clk_secs clk')"
  shows "fst (dispatch env memory_storage clk (AddProvider p) h) =
      Some (AddProviderAck \<lparr>aa_request_id = ap_request_id p, aa_accepted = True, aa_error = None\<rparr>) \<and>
    (\<exists>ps. fst (dispatch env memory_storage clk' (GetProviders
        \<lparr>gp_key = ap_key p, gp_request_id = rid, gp_sender_id = i\<rparr>)
        (snd (dispatch env memory_storage clk (AddProvider p) h))) =
      Some (Providers \<lparr>pp_request_id = rid, pp_providers = ps\<rparr>) \<and>
    filter (\<lambda>w. pw_provider_id w = pw_provider_id (ap_provider p)) ps =
      [(ap_provider p)\<lparr>pw_addrs := [case pw_addrs (ap_provider p) of a # _ \<Rightarrow> a | [] \<Rightarrow> []]\<rparr>])"
proof -
  define d where "d = dispatch env memory_storage clk (AddProvider p) h"
  let ?r = "\<lparr>pr_key = ap_key p, pr_provider_id = pw_provider_id (ap_provider p),
           pr_provider_addr = (case pw_addrs (ap_provider p) of a # _ \<Rightarrow> a | [] \<Rightarrow> []),
           pr_ttl_secs = pw_ttl_secs (ap_provider p), pr_created_at = clk_secs clk,
           pr_signature = pw_signature (ap_provider p)\<rparr>"
  have d: "fst d = Some (AddProviderAck \<lparr>aa_request_id = ap_request_id p, aa_accepted = True, aa_error = None\<rparr>)"
    and s: "h_store (snd d) = snd (InMemory_put_provider (ap_key p) ?r (h_store h))"
    by (simp_all add: d_def handle_add_provider_def Let_def memory_storage_def)
  have live: "\<not> ProviderRecord_is_expired (clk_secs clk') ?r" using assms(1) by (simp add: provider_expired_iff)
  obtain old where g: "InMemory_get_providers (clk_secs clk') (ap_key p) (h_store (snd d)) = old @ [?r]"
    "\<forall>q \<in> set old. pr_provider_id q \<noteq> pr_provider_id ?r"
    using live by (auto simp: s InMemory_get_providers_def InMemory_put_provider_def Let_def)
  have w: "to_provider_wire ?r = (ap_provider p)\<lparr>pw_addrs := [case pw_addrs (ap_provider p) of a # _ \<Rightarrow> a | [] \<Rightarrow> []]\<rparr>"
    by (simp add: to_provider_wire_def)
  have "filter (\<lambda>w. pw_provider_id w = pw_provider_id (ap_provider p)) (map to_provider_wire old) = []"
    using g(2) by (auto simp: filter_empty_conv to_provider_wire_def)
  with g(1) d show ?thesis unfolding d_def [symmetric]
    by (intro conjI exI [of _ "map to_provider_wire (old @ [?r])"])
      (simp_all add: handle_get_providers_def Let_def memory_storage_def w)
qed

theorem forged_announcement_replaces_genuine_witness:
  "\<exists>ps. fst (dispatch demo_env memory_storage demo_clock (GetProviders
        \<lparr>gp_key = [1], gp_request_id = ''g'', gp_sender_id = ''c''\<rparr>)
      (snd (dispatch demo_env memory_storage demo_clock (AddProvider \<lparr>ap_key = [1],
         ap_provider = \<lparr>pw_provider_id = ''b'', pw_addrs = [''evil''], pw_ttl_secs = 9, pw_signature = None\<rparr>,
         ap_request_id = ''x'', ap_sender_id = ''mallory''\<rparr>) demo_handler))) =
      Some (Providers \<lparr>pp_request_id = ''g'', pp_providers = ps\<rparr>) \<and>
      filter (\<lambda>w. pw_provider_id w = ''b'') ps =
        [\<lparr>pw_provider_id = ''b'', pw_addrs = [''evil''], pw_ttl_secs = 9, pw_signature = None\<rparr>]"
  using forged_announcement_replaces_genuine [of demo_clock "\<lparr>ap_key = [1],
         ap_provider = \<lparr>pw_provider_id = ''b'', pw_addrs = [''evil''], pw_ttl_secs = 9, pw_signature = None\<rparr>,
         ap_request_id = ''x'', ap_sender_id = ''mallory''\<rparr>" demo_clock demo_env demo_handler "''g''" "''c''"]
  by (simp add: demo_clock_def)

text \<open>
  A request that was registered is answered on its own channel exactly once: after any inbound
  messages, the first response with its identifier is delivered to the channel it was registered
  with, and the next one with that identifier is delivered to nobody.
\<close>

theorem response_delivered_once:
  assumes "length (h_pending h) < MAX_PENDING_REQUESTS" and "response_id m = Some rid" and "response_id m' = Some rid"
  shows "let h1 = fold (handler_step env st) (map (\<lambda>(clk, m). Inbound clk m) msgs) (snd (register_request now rid tx h))
    in fst (handle_response env m h1) = Some (tx, env_encode env m)
      \<and> fst (handle_response env m' (snd (handle_response env m h1))) = None"
proof -
  define h1 where "h1 = fold (handler_step env st) (map (\<lambda>(clk, m). Inbound clk m) msgs) (snd (register_request now rid tx h))"
  have "h_pending h1 = h_pending (snd (register_request now rid tx h))"
    unfolding h1_def by (induction msgs arbitrary: h rule: rev_induct) auto
  then have "hm_get (h_pending h1) rid = Some \<lparr>pq_sent_at = now, pq_response_tx = tx\<rparr>"
    using assms(1) by (simp add: register_request_def)
  then show ?thesis using assms(2,3) unfolding h1_def [symmetric] by (simp add: handle_response_def Let_def)
qed

theorem response_delivered_once_witness:
  "fst (handle_response demo_env (Pong \<lparr>po_request_id = ''q'', po_sender_id = ''b''\<rparr>)
     (snd (register_request 0 ''q'' 5 demo_handler))) = Some (5, Inr [])"
  using response_delivered_once [of demo_handler "Pong \<lparr>po_request_id = ''q'', po_sender_id = ''b''\<rparr>" "''q''"
      "Pong \<lparr>po_request_id = ''q'', po_sender_id = ''b''\<rparr>" demo_env memory_storage "[]" 0 5]
  by (simp add: demo_handler_def DhtProtocolHandler_new_def MAX_PENDING_REQUESTS_def demo_env_def Let_def)

text \<open>The adapter of \<^verbatim>\<open>transport.rs\<close> answers every request for providers with an empty list.\<close>

lemma adapter_returns_no_provider:
  assumes "env_decode env data = Inr (GetProviders p)"
  shows "fst (adapter_handle_message env local_id now peer_id peer_addr data rt) =
    (case env_encode env (Providers \<lparr>pp_request_id = gp_request_id p, pp_providers = []\<rparr>) of
       Inl e \<Rightarrow> Inl e | Inr b \<Rightarrow> Inr (Some b))"
  using assms by (simp add: adapter_handle_message_def adapter_respond_def)

end
