(* ===== verification/Dht_Query.thy ===== *)
theory Dht_Query
  imports Dht_Handler
begin

text \<open>
  The Kademlia lookups of \<^verbatim>\<open>a3net-dht/src/query.rs\<close>: the iterative \<^verbatim>\<open>find_node\<close> and
  \<^verbatim>\<open>get_providers\<close> of \<^verbatim>\<open>DhtQuery\<close>, its announcements and values.
  \<^item> The network is an argument: \<open>net i peer\<close> is what the request to \<open>peer\<close> in round \<open>i\<close> ends
    in, \<open>None\<close> when the request timeout passes first. A round waits for all its requests
    (\<^verbatim>\<open>join_all\<close> keeps their order), so a round is one step of the loop.
  \<^item> \<open>elapsed 0\<close> is the time \<^verbatim>\<open>is_timed_out\<close> reads before the lookup starts and \<open>elapsed (Suc i)\<close>
    the one it reads before round \<open>i\<close>; \<open>now\<close> is the time new contacts are stamped with.
  \<^item> The state of a lookup records, beside the variables of the loop, the batches of peers that
    were asked; the requests are its visible effect.
  The lemmas: the loops end within the configured number of rounds, no peer is asked again in a
  later round, what a lookup returns was reported by a peer it asked and is sorted, and where
  the loops fall short of a Kademlia lookup.
\<close>

definition ALPHA :: nat where
  "ALPHA = 3"

definition CLOSEST_PEERS :: nat where
  "CLOSEST_PEERS = KBUCKET_SIZE"

definition MAX_ITERATIONS :: nat where
  "MAX_ITERATIONS = 20"

record query_config =
  qc_query_timeout :: duration
  qc_request_timeout :: duration
  qc_parallelism :: nat
  qc_max_iterations :: nat
  qc_continue_on_error :: bool

definition QueryConfig_default :: query_config where
  "QueryConfig_default = \<lparr>qc_query_timeout = 30, qc_request_timeout = 5, qc_parallelism = ALPHA,
     qc_max_iterations = MAX_ITERATIONS, qc_continue_on_error = True\<rparr>"

datatype query_error = Network string | Timeout | PeerNotFound | InvalidResponse

type_synonym reply = "(query_error, dht_wire_message) result option"

record node_info =
  ni_id :: node_id
  ni_addrs :: "string list"

record query_result =
  qr_peers :: "node_info list"
  qr_providers :: "provider_record list"
  qr_timed_out :: bool

record 's dht_query =
  q_local_id :: node_id
  q_routing_table :: routing_table
  q_store :: 's
  q_config :: query_config

definition is_timed_out :: "query_config \<Rightarrow> duration \<Rightarrow> bool" where
  "is_timed_out cfg elapsed = (qc_query_timeout cfg \<le> elapsed)"

section \<open>One round of requests\<close>

definition parse_addr :: "dht_env \<Rightarrow> string list \<Rightarrow> socket_addr" where
  "parse_addr env addrs =
    (case (case addrs of a # _ \<Rightarrow> env_parse_addr env a | [] \<Rightarrow> None) of
       Some s \<Rightarrow> s
     | None \<Rightarrow> (V4 0x7f000001, 0))"

definition contacts_of_reply :: "dht_env \<Rightarrow> instant \<Rightarrow> reply \<Rightarrow> contact list option" where
  "contacts_of_reply env now r =
    (case r of
       Some (Inr (Nodes p)) \<Rightarrow> Some (map (\<lambda>nc. Contact_new (nc_id nc) (parse_addr env (nc_addrs nc)) now) (np_nodes p))
     | Some (Inr (Providers p)) \<Rightarrow>
         Some (concat (map (\<lambda>pw. case pw_addrs pw of
             [] \<Rightarrow> []
           | addr # _ \<Rightarrow> [Contact_new (pw_provider_id pw)
               (case env_parse_addr env addr of Some s \<Rightarrow> s | None \<Rightarrow> (V4 0x7f000001, 0)) now]) (pp_providers p)))
     | _ \<Rightarrow> None)"

definition query_batch_with_timeout ::
  "dht_env \<Rightarrow> instant \<Rightarrow> (contact \<Rightarrow> reply) \<Rightarrow> contact list \<Rightarrow> (node_id \<times> contact list option) list"
where
  "query_batch_with_timeout env now send peers = map (\<lambda>p. (c_id p, contacts_of_reply env now (send p))) peers"

definition providers_of_reply :: "dht_key \<Rightarrow> u64 \<Rightarrow> reply \<Rightarrow> provider_record list option" where
  "providers_of_reply key secs r =
    (case r of
       Some (Inr (Providers p)) \<Rightarrow>
         Some (concat (map (\<lambda>pw. case pw_addrs pw of
             [] \<Rightarrow> []
           | addr # _ \<Rightarrow> [ProviderRecord_new key (pw_provider_id pw) addr secs]) (pp_providers p)))
     | _ \<Rightarrow> None)"

definition query_providers_batch_with_timeout ::
  "dht_key \<Rightarrow> u64 \<Rightarrow> (contact \<Rightarrow> reply) \<Rightarrow> contact list \<Rightarrow> (node_id \<times> provider_record list option) list"
where
  "query_providers_batch_with_timeout key secs send peers =
    map (\<lambda>p. (c_id p, providers_of_reply key secs (send p))) peers"

section \<open>FIND\_NODE\<close>

record lookup =
  lk_candidates :: "contact list"
  lk_queried :: "node_id set"
  lk_all_closest :: "contact list"
  lk_iterations :: nat
  lk_timed_out :: bool
  lk_batches :: "contact list list"

text \<open>\<^verbatim>\<open>for contact in contacts\<close>, and \<^verbatim>\<open>for (peer_id, result) in results\<close>.\<close>

definition absorb_contact :: "contact \<Rightarrow> lookup \<Rightarrow> lookup" where
  "absorb_contact c lk =
    (if c_id c \<notin> lk_queried lk
     then lk\<lparr>lk_candidates := lk_candidates lk @ [c], lk_all_closest := lk_all_closest lk @ [c]\<rparr> else lk)"

definition absorb_result :: "node_id \<times> contact list option \<Rightarrow> lookup \<Rightarrow> lookup" where
  "absorb_result r lk =
    (let lk1 = lk\<lparr>lk_queried := insert (fst r) (lk_queried lk)\<rparr>
     in case snd r of Some cs \<Rightarrow> fold absorb_contact cs lk1 | None \<Rightarrow> lk1)"

definition next_batch :: "query_config \<Rightarrow> lookup \<Rightarrow> contact list" where
  "next_batch cfg lk =
    filter (\<lambda>c. c_id c \<notin> lk_queried lk) (take (min (qc_parallelism cfg) (length (lk_candidates lk))) (lk_candidates lk))"

definition query_round :: "dht_env \<Rightarrow> instant \<Rightarrow> (nat \<Rightarrow> contact \<Rightarrow> reply) \<Rightarrow> query_config \<Rightarrow> lookup \<Rightarrow> lookup" where
  "query_round env now net cfg lk =
    (let batch = next_batch cfg lk;
         lk1 = lk\<lparr>lk_candidates := drop (min (qc_parallelism cfg) (length (lk_candidates lk))) (lk_candidates lk),
                  lk_iterations := lk_iterations lk + 1, lk_batches := lk_batches lk @ [batch]\<rparr>;
         lk2 = fold absorb_result (query_batch_with_timeout env now (net (lk_iterations lk)) batch) lk1
     in lk2\<lparr>lk_queried := lk_queried lk2 \<union> c_id ` set batch\<rparr>)"

lemma fold_frame: "(\<And>x s. f (g x s) = f s) \<Longrightarrow> f (fold g xs s) = f s"
  by (induction xs arbitrary: s) simp_all

lemma absorb_frame [simp]:
  "lk_iterations (absorb_contact c lk) = lk_iterations lk" "lk_batches (absorb_contact c lk) = lk_batches lk"
  "lk_timed_out (absorb_contact c lk) = lk_timed_out lk" "lk_queried (absorb_contact c lk) = lk_queried lk"
  by (simp_all add: absorb_contact_def)

lemma absorb_result_frame [simp]:
  "lk_iterations (absorb_result r lk) = lk_iterations lk" "lk_batches (absorb_result r lk) = lk_batches lk"
  "lk_timed_out (absorb_result r lk) = lk_timed_out lk"
  "lk_queried (absorb_result r lk) = insert (fst r) (lk_queried lk)"
  by (simp_all add: absorb_result_def Let_def fold_frame split: option.splits)

lemma query_round_frame [simp]:
  "lk_iterations (query_round env now net cfg lk) = lk_iterations lk + 1"
  "lk_batches (query_round env now net cfg lk) = lk_batches lk @ [next_batch cfg lk]"
  "lk_timed_out (query_round env now net cfg lk) = lk_timed_out lk"
  by (simp_all add: query_round_def Let_def fold_frame)

function find_loop ::
  "dht_env \<Rightarrow> instant \<Rightarrow> (nat \<Rightarrow> contact \<Rightarrow> reply) \<Rightarrow> (nat \<Rightarrow> duration) \<Rightarrow> query_config \<Rightarrow> lookup \<Rightarrow> lookup"
where
  "find_loop env now net elapsed cfg lk =
    (if lk_candidates lk = [] \<or> qc_max_iterations cfg \<le> lk_iterations lk then lk
     else if is_timed_out cfg (elapsed (Suc (lk_iterations lk))) then lk\<lparr>lk_timed_out := True\<rparr>
     else if next_batch cfg lk = []
     then lk\<lparr>lk_candidates := drop (min (qc_parallelism cfg) (length (lk_candidates lk))) (lk_candidates lk),
             lk_iterations := lk_iterations lk + 1\<rparr>
     else find_loop env now net elapsed cfg (query_round env now net cfg lk))"
  by auto

termination find_loop
  by (relation "measure (\<lambda>(env, now, net, elapsed, cfg, lk). qc_max_iterations cfg - lk_iterations lk)") auto

declare find_loop.simps [simp del]

definition lookup_init :: "dht_env \<Rightarrow> dht_key \<Rightarrow> 's dht_query \<Rightarrow> lookup" where
  "lookup_init env key q =
    \<lparr>lk_candidates = closest (env_hex_decode env) (node_id_from_key env key) CLOSEST_PEERS (q_routing_table q),
     lk_queried = {q_local_id q}, lk_all_closest = [], lk_iterations = 0, lk_timed_out = False, lk_batches = []\<rparr>"

definition to_node_info :: "dht_env \<Rightarrow> contact \<Rightarrow> node_info" where
  "to_node_info env c = \<lparr>ni_id = c_id c, ni_addrs = map (env_show_addr env) (c_addrs c)\<rparr>"

text \<open>\<^verbatim>\<open>find_node\<close> returns the result and, for the statements below, the peers asked in each round.\<close>

definition find_node ::
  "dht_env \<Rightarrow> instant \<Rightarrow> (nat \<Rightarrow> contact \<Rightarrow> reply) \<Rightarrow> (nat \<Rightarrow> duration) \<Rightarrow> dht_key \<Rightarrow> 's dht_query \<Rightarrow>
    query_result \<times> contact list list"
where
  "find_node env now net elapsed key q =
    (if is_timed_out (q_config q) (elapsed 0) then (\<lparr>qr_peers = [], qr_providers = [], qr_timed_out = True\<rparr>, [])
     else let lk = find_loop env now net elapsed (q_config q) (lookup_init env key q);
              sorted = sort_key (\<lambda>c. xor_distance (env_hex_decode env) (c_id c) (node_id_from_key env key))
                (lk_all_closest lk)
     in (\<lparr>qr_peers = map (to_node_info env) (take CLOSEST_PEERS sorted), qr_providers = [],
          qr_timed_out = lk_timed_out lk\<rparr>, lk_batches lk))"

section \<open>GET\_PROVIDERS\<close>

record provider_lookup =
  pl_candidates :: "contact list"
  pl_queried :: "node_id set"
  pl_all :: "provider_record list"
  pl_iterations :: nat
  pl_timed_out :: bool
  pl_batches :: "contact list list"

definition absorb_providers :: "node_id \<times> provider_record list option \<Rightarrow> provider_lookup \<Rightarrow> provider_lookup" where
  "absorb_providers r pl =
    (let pl1 = pl\<lparr>pl_queried := insert (fst r) (pl_queried pl)\<rparr>
     in case snd r of Some ps \<Rightarrow> pl1\<lparr>pl_all := pl_all pl1 @ ps\<rparr> | None \<Rightarrow> pl1)"

definition pl_batch :: "query_config \<Rightarrow> provider_lookup \<Rightarrow> contact list" where
  "pl_batch cfg pl =
    filter (\<lambda>c. c_id c \<notin> pl_queried pl) (take (min (qc_parallelism cfg) (length (pl_candidates pl))) (pl_candidates pl))"

definition provider_round ::
  "dht_key \<Rightarrow> u64 \<Rightarrow> (nat \<Rightarrow> contact \<Rightarrow> reply) \<Rightarrow> query_config \<Rightarrow> provider_lookup \<Rightarrow> provider_lookup"
where
  "provider_round key secs net cfg pl =
    (let batch = pl_batch cfg pl;
         pl1 = pl\<lparr>pl_candidates := drop (min (qc_parallelism cfg) (length (pl_candidates pl))) (pl_candidates pl),
                  pl_iterations := pl_iterations pl + 1, pl_batches := pl_batches pl @ [batch]\<rparr>;
         pl2 = fold absorb_providers (query_providers_batch_with_timeout key secs (net (pl_iterations pl)) batch) pl1
     in pl2\<lparr>pl_queried := pl_queried pl2 \<union> c_id ` set batch\<rparr>)"

lemma absorb_providers_frame [simp]:
  "pl_iterations (absorb_providers r pl) = pl_iterations pl" "pl_batches (absorb_providers r pl) = pl_batches pl"
  "pl_candidates (absorb_providers r pl) = pl_candidates pl" "pl_timed_out (absorb_providers r pl) = pl_timed_out pl"
  by (simp_all add: absorb_providers_def Let_def split: option.splits)

lemma provider_round_frame [simp]:
  "pl_iterations (provider_round key secs net cfg pl) = pl_iterations pl + 1"
  "pl_batches (provider_round key secs net cfg pl) = pl_batches pl @ [pl_batch cfg pl]"
  "pl_candidates (provider_round key secs net cfg pl) =
    drop (min (qc_parallelism cfg) (length (pl_candidates pl))) (pl_candidates pl)"
  by (simp_all add: provider_round_def Let_def fold_frame)

function provider_loop ::
  "dht_key \<Rightarrow> u64 \<Rightarrow> (nat \<Rightarrow> contact \<Rightarrow> reply) \<Rightarrow> (nat \<Rightarrow> duration) \<Rightarrow> query_config \<Rightarrow> provider_lookup \<Rightarrow> provider_lookup"
where
  "provider_loop key secs net elapsed cfg pl =
    (if pl_candidates pl = [] \<or> 20 \<le> length (pl_all pl) \<or> qc_max_iterations cfg \<le> pl_iterations pl then pl
     else if is_timed_out cfg (elapsed (Suc (pl_iterations pl))) then pl\<lparr>pl_timed_out := True\<rparr>
     else if pl_batch cfg pl = []
     then pl\<lparr>pl_candidates := drop (min (qc_parallelism cfg) (length (pl_candidates pl))) (pl_candidates pl),
             pl_iterations := pl_iterations pl + 1\<rparr>
     else provider_loop key secs net elapsed cfg (provider_round key secs net cfg pl))"
  by auto

termination provider_loop
  by (relation "measure (\<lambda>(key, secs, net, elapsed, cfg, pl). qc_max_iterations cfg - pl_iterations pl)") auto

declare provider_loop.simps [simp del]

text \<open>\<^verbatim>\<open>retain(|p| seen.insert(p.provider_id))\<close>: the first record of each provider.\<close>

fun dedup_providers :: "node_id set \<Rightarrow> provider_record list \<Rightarrow> provider_record list" where
  "dedup_providers seen [] = []"
| "dedup_providers seen (p # ps) =
    (if pr_provider_id p \<in> seen then dedup_providers seen ps
     else p # dedup_providers (insert (pr_provider_id p) seen) ps)"

definition get_providers ::
  "dht_env \<Rightarrow> 's dht_storage \<Rightarrow> u64 \<Rightarrow> (nat \<Rightarrow> contact \<Rightarrow> reply) \<Rightarrow> (nat \<Rightarrow> duration) \<Rightarrow> dht_key \<Rightarrow> 's dht_query \<Rightarrow>
    (query_result \<times> contact list list) \<times> 's dht_query"
where
  "get_providers env st secs net elapsed key q =
    (let (own, s) = st_get_providers st secs key (q_store q); q' = q\<lparr>q_store := s\<rparr>
     in if is_timed_out (q_config q) (elapsed 0) then ((\<lparr>qr_peers = [], qr_providers = own, qr_timed_out = True\<rparr>, []), q')
        else let pl = provider_loop key secs net elapsed (q_config q)
                   \<lparr>pl_candidates = closest (env_hex_decode env) (node_id_from_key env key) CLOSEST_PEERS (q_routing_table q),
                    pl_queried = {q_local_id q}, pl_all = own, pl_iterations = 0, pl_timed_out = False, pl_batches = []\<rparr>
             in ((\<lparr>qr_peers = [], qr_providers = dedup_providers {} (pl_all pl), qr_timed_out = pl_timed_out pl\<rparr>,
                  pl_batches pl), q'))"

section \<open>Announcements and values\<close>

definition announce_targets :: "dht_env \<Rightarrow> dht_key \<Rightarrow> 's dht_query \<Rightarrow> contact list" where
  "announce_targets env key q =
    filter (\<lambda>c. c_id c \<noteq> q_local_id q)
      (take KBUCKET_SIZE (closest (env_hex_decode env) (node_id_from_key env key) CLOSEST_PEERS (q_routing_table q)))"

text \<open>The sends of an announcement are returned; a failed send is only logged.\<close>

definition add_provider ::
  "dht_env \<Rightarrow> 's dht_storage \<Rightarrow> u64 \<Rightarrow> dht_key \<Rightarrow> string \<Rightarrow> 's dht_query \<Rightarrow>
    (contact \<times> provider_record) list \<times> 's dht_query"
where
  "add_provider env st secs key addr q =
    (let record = ProviderRecord_new key (q_local_id q) addr secs;
         s = snd (st_put_provider st key record (q_store q))
     in (map (\<lambda>c. (c, record)) (announce_targets env key q), q\<lparr>q_store := s\<rparr>))"

definition put_value ::
  "dht_env \<Rightarrow> 's dht_storage \<Rightarrow> u64 \<Rightarrow> dht_key \<Rightarrow> bytes \<Rightarrow> u64 \<Rightarrow> 's dht_query \<Rightarrow>
    (contact \<times> dht_value) list \<times> 's dht_query"
where
  "put_value env st secs key data ttl q =
    (let value = \<lparr>dv_data = data, dv_timestamp = secs, dv_ttl_secs = ttl\<rparr>;
         s = snd (st_put_value st key value (q_store q))
     in (map (\<lambda>c. (c, value)) (announce_targets env key q), q\<lparr>q_store := s\<rparr>))"

text \<open>\<^verbatim>\<open>get_value\<close>: the result of the lookup it runs is dropped.\<close>

definition get_value ::
  "dht_env \<Rightarrow> 's dht_storage \<Rightarrow> instant \<Rightarrow> (nat \<Rightarrow> contact \<Rightarrow> reply) \<Rightarrow> (nat \<Rightarrow> duration) \<Rightarrow> dht_key \<Rightarrow> 's dht_query \<Rightarrow>
    bytes option \<times> contact list list"
where
  "get_value env st now net elapsed key q =
    (case st_get_value st key (q_store q) of
       Some v \<Rightarrow> (Some (dv_data v), [])
     | None \<Rightarrow> (None, snd (find_node env now net elapsed key q)))"

section \<open>Lemmas: a round\<close>

lemma absorb_contacts:
  "lk_candidates (fold absorb_contact cs lk) = lk_candidates lk @ filter (\<lambda>c. c_id c \<notin> lk_queried lk) cs"
  "lk_all_closest (fold absorb_contact cs lk) = lk_all_closest lk @ filter (\<lambda>c. c_id c \<notin> lk_queried lk) cs"
  by (induction cs arbitrary: lk) (simp_all add: absorb_contact_def)

lemma absorb_result_all:
  "lk_all_closest (absorb_result r lk) = lk_all_closest lk @
    (case snd r of Some cs \<Rightarrow> filter (\<lambda>c. c_id c \<notin> insert (fst r) (lk_queried lk)) cs | None \<Rightarrow> [])"
  "lk_candidates (absorb_result r lk) = lk_candidates lk @
    (case snd r of Some cs \<Rightarrow> filter (\<lambda>c. c_id c \<notin> insert (fst r) (lk_queried lk)) cs | None \<Rightarrow> [])"
  by (simp_all add: absorb_result_def Let_def absorb_contacts split: option.splits)

lemma absorb_results_queried: "lk_queried (fold absorb_result rs lk) = lk_queried lk \<union> fst ` set rs"
  by (induction rs arbitrary: lk) auto

lemma absorb_results_candidates: "\<exists>new. lk_candidates (fold absorb_result rs lk) = lk_candidates lk @ new"
proof (induction rs arbitrary: lk)
  case (Cons r rs)
  from Cons.IH [of "absorb_result r lk"] show ?case by (auto simp: absorb_result_all)
qed simp

lemma absorb_results_all:
  "c \<in> set (lk_all_closest (fold absorb_result rs lk)) \<Longrightarrow> c \<in> set (lk_all_closest lk) \<or>
    c_id c \<notin> lk_queried lk \<and> (\<exists>(i, res) \<in> set rs. \<exists>cs. res = Some cs \<and> c \<in> set cs)"
proof (induction rs arbitrary: lk)
  case (Cons r rs)
  from Cons.prems Cons.IH [of "absorb_result r lk"]
  consider "c \<in> set (lk_all_closest (absorb_result r lk))"
    | "c_id c \<notin> lk_queried lk" "\<exists>(i, res) \<in> set rs. \<exists>cs. res = Some cs \<and> c \<in> set cs" by auto
  then show ?case
  proof cases
    case 1
    then show ?thesis by (cases r) (auto simp: absorb_result_all split: option.splits)
  qed auto
qed simp

lemma query_round_queried:
  "lk_queried (query_round env now net cfg lk) = lk_queried lk \<union> c_id ` set (next_batch cfg lk)"
  by (auto simp: query_round_def Let_def absorb_results_queried query_batch_with_timeout_def)

lemma query_round_all:
  assumes "c \<in> set (lk_all_closest (query_round env now net cfg lk))"
  shows "c \<in> set (lk_all_closest lk) \<or> c_id c \<notin> lk_queried lk \<and>
    (\<exists>p \<in> set (next_batch cfg lk). \<exists>cs. contacts_of_reply env now (net (lk_iterations lk) p) = Some cs \<and> c \<in> set cs)"
proof -
  let ?rs = "query_batch_with_timeout env now (net (lk_iterations lk)) (next_batch cfg lk)"
  let ?lk = "lk\<lparr>lk_candidates := drop (min (qc_parallelism cfg) (length (lk_candidates lk))) (lk_candidates lk),
                  lk_iterations := lk_iterations lk + 1, lk_batches := lk_batches lk @ [next_batch cfg lk]\<rparr>"
  from assms have "c \<in> set (lk_all_closest (fold absorb_result ?rs ?lk))" by (simp add: query_round_def Let_def)
  from absorb_results_all [OF this] show ?thesis by (auto simp: query_batch_with_timeout_def)
qed

lemma next_batch_ids: "p \<in> set (next_batch cfg lk) \<Longrightarrow> c_id p \<notin> lk_queried lk \<and> p \<in> set (lk_candidates lk)"
  by (auto simp: next_batch_def dest: in_set_takeD)

lemma length_next_batch: "length (next_batch cfg lk) \<le> qc_parallelism cfg"
  unfolding next_batch_def by (rule le_trans [OF length_filter_le]) simp

section \<open>Lemmas: the loop\<close>

text \<open>An invariant of the batches, the asked peers and the learned contacts: kept by a round, it
  holds at the end of the loop, which made one round for every batch.\<close>

lemma find_loop_rule:
  assumes start: "P lk" and len: "lk_iterations lk = length (lk_batches lk)"
    and le: "lk_iterations lk \<le> qc_max_iterations cfg"
    and frame: "\<And>lk ca it. P lk \<Longrightarrow> P (lk\<lparr>lk_candidates := ca, lk_iterations := it\<rparr>)"
      "\<And>lk. P lk \<Longrightarrow> P (lk\<lparr>lk_timed_out := True\<rparr>)"
    and step: "\<And>lk. P lk \<Longrightarrow> lk_iterations lk = length (lk_batches lk) \<Longrightarrow> next_batch cfg lk \<noteq> [] \<Longrightarrow>
      P (query_round env now net cfg lk)"
  shows "P (find_loop env now net elapsed cfg lk) \<and>
    length (lk_batches (find_loop env now net elapsed cfg lk)) \<le> qc_max_iterations cfg"
  using start len le
proof (induction "qc_max_iterations cfg - lk_iterations lk" arbitrary: lk rule: less_induct)
  case less
  show ?case
  proof (cases "lk_candidates lk = [] \<or> qc_max_iterations cfg \<le> lk_iterations lk \<or> is_timed_out cfg (elapsed (Suc (lk_iterations lk)))
      \<or> next_batch cfg lk = []")
    case True
    with less.prems frame show ?thesis by (subst (1 2) find_loop.simps) auto
  next
    case False
    let ?lk = "query_round env now net cfg lk"
    have "find_loop env now net elapsed cfg lk = find_loop env now net elapsed cfg ?lk"
      using False by (subst find_loop.simps) simp
    moreover have "P ?lk" using step less.prems False by blast
    ultimately show ?thesis using less.hyps [of ?lk] less.prems False by auto
  qed
qed

definition batch_ids :: "contact list \<Rightarrow> node_id set" where
  "batch_ids b = c_id ` set b"

text \<open>A contact that the reply of an asked peer names, in the round the peer was asked.\<close>

definition reported :: "dht_env \<Rightarrow> instant \<Rightarrow> (nat \<Rightarrow> contact \<Rightarrow> reply) \<Rightarrow> contact list list \<Rightarrow> contact \<Rightarrow> bool" where
  "reported env now net bs c \<longleftrightarrow>
    (\<exists>i < length bs. \<exists>p \<in> set (bs ! i). \<exists>cs. contacts_of_reply env now (net i p) = Some cs \<and> c \<in> set cs)"

lemma reported_mono: "reported env now net bs c \<Longrightarrow> reported env now net (bs @ [b]) c"
  unfolding reported_def by (metis length_append_singleton less_Suc_eq nth_append)

lemma reported_last:
  "p \<in> set b \<Longrightarrow> contacts_of_reply env now (net (length bs) p) = Some cs \<Longrightarrow> c \<in> set cs \<Longrightarrow>
    reported env now net (bs @ [b]) c"
  unfolding reported_def by (rule exI [of _ "length bs"]) auto

definition lookup_sound :: "dht_env \<Rightarrow> instant \<Rightarrow> (nat \<Rightarrow> contact \<Rightarrow> reply) \<Rightarrow> query_config \<Rightarrow> node_id \<Rightarrow> lookup \<Rightarrow> bool" where
  "lookup_sound env now net cfg self lk \<longleftrightarrow>
    lk_queried lk = insert self (\<Union>b \<in> set (lk_batches lk). batch_ids b) \<and>
    (\<forall>b \<in> set (lk_batches lk). b \<noteq> [] \<and> length b \<le> qc_parallelism cfg \<and> self \<notin> batch_ids b) \<and>
    (\<forall>j < length (lk_batches lk). \<forall>i < j. batch_ids (lk_batches lk ! i) \<inter> batch_ids (lk_batches lk ! j) = {}) \<and>
    (\<forall>c \<in> set (lk_all_closest lk). c_id c \<noteq> self \<and> reported env now net (lk_batches lk) c)"

lemma lookup_sound_round:
  assumes "lookup_sound env now net cfg self lk" and len: "lk_iterations lk = length (lk_batches lk)"
    and ne: "next_batch cfg lk \<noteq> []"
  shows "lookup_sound env now net cfg self (query_round env now net cfg lk)"
proof -
  let ?bs = "lk_batches lk" and ?b = "next_batch cfg lk"
  have q: "lk_queried lk = insert self (\<Union>b \<in> set ?bs. batch_ids b)"
    using assms(1) by (simp add: lookup_sound_def)
  have fresh: "batch_ids ?b \<inter> lk_queried lk = {}" using next_batch_ids by (fastforce simp: batch_ids_def)
  have "batch_ids (?bs ! i) \<inter> batch_ids ?b = {}" if "i < length ?bs" for i
    using fresh that q by (auto dest: nth_mem)
  with assms(1) have disj: "\<forall>j < Suc (length ?bs). \<forall>i < j. batch_ids ((?bs @ [?b]) ! i) \<inter> batch_ids ((?bs @ [?b]) ! j) = {}"
    by (auto simp: lookup_sound_def nth_append less_Suc_eq)
  have all: "c_id c \<noteq> self \<and> reported env now net (?bs @ [?b]) c"
    if "c \<in> set (lk_all_closest (query_round env now net cfg lk))" for c
    using query_round_all [OF that]
  proof
    assume "c \<in> set (lk_all_closest lk)"
    with assms(1) show ?thesis by (simp add: lookup_sound_def reported_mono)
  next
    assume "c_id c \<notin> lk_queried lk \<and> (\<exists>p \<in> set ?b. \<exists>cs. contacts_of_reply env now (net (lk_iterations lk) p) = Some cs \<and> c \<in> set cs)"
    then show ?thesis using q len by (auto intro: reported_last)
  qed
  have "self \<notin> batch_ids ?b" using fresh q by auto
  with assms(1) q disj all ne length_next_batch [of cfg lk] show ?thesis
    unfolding lookup_sound_def by (auto simp: query_round_queried batch_ids_def)
qed

lemma find_loop_sound:
  "lookup_sound env now net cfg (q_local_id q) (find_loop env now net elapsed cfg (lookup_init env key q)) \<and>
    length (lk_batches (find_loop env now net elapsed cfg (lookup_init env key q))) \<le> qc_max_iterations cfg"
  by (rule find_loop_rule [where P = "lookup_sound env now net cfg (q_local_id q)"])
    (auto simp: lookup_sound_round, simp_all add: lookup_sound_def lookup_init_def)

lemma length_concat_le: "(\<And>x. x \<in> set xs \<Longrightarrow> length x \<le> n) \<Longrightarrow> length (concat xs) \<le> length xs * n"
  by (induction xs) (auto intro: add_mono)

section \<open>Properties of FIND\_NODE\<close>

text \<open>
  C37. A lookup ends: it makes at most \<open>max_iterations\<close> rounds of at least one and at most
  \<open>parallelism\<close> requests each, so at most 60 with the default configuration, never asks the
  local node, and never asks in one round a peer it asked in an earlier round.
\<close>

theorem find_node_bounded:
  "let bs = snd (find_node env now net elapsed key q)
   in length bs \<le> qc_max_iterations (q_config q)
    \<and> length (concat bs) \<le> qc_max_iterations (q_config q) * qc_parallelism (q_config q)
    \<and> list_all (\<lambda>b. b \<noteq> [] \<and> length b \<le> qc_parallelism (q_config q) \<and> q_local_id q \<notin> batch_ids b) bs
    \<and> (\<forall>j i. \<not> (i < j \<and> j < length bs \<and> batch_ids (bs ! i) \<inter> batch_ids (bs ! j) \<noteq> {}))"
proof (cases "is_timed_out (q_config q) (elapsed 0)")
  case False
  let ?lk = "find_loop env now net elapsed (q_config q) (lookup_init env key q)"
  have sound: "lookup_sound env now net (q_config q) (q_local_id q) ?lk"
    and len: "length (lk_batches ?lk) \<le> qc_max_iterations (q_config q)" using find_loop_sound by blast+
  have "length (concat (lk_batches ?lk)) \<le> length (lk_batches ?lk) * qc_parallelism (q_config q)"
    using sound unfolding lookup_sound_def by (intro length_concat_le) auto
  also have "\<dots> \<le> qc_max_iterations (q_config q) * qc_parallelism (q_config q)" using len by simp
  finally show ?thesis using sound len False
    by (auto simp: find_node_def Let_def lookup_sound_def list_all_iff)
qed (simp add: find_node_def)

lemma find_node_peers:
  assumes "p \<in> set (qr_peers (fst (find_node env now net elapsed key q)))"
  shows "\<exists>c. p = to_node_info env c \<and> c_id c \<noteq> q_local_id q \<and>
    reported env now net (snd (find_node env now net elapsed key q)) c"
proof (cases "is_timed_out (q_config q) (elapsed 0)")
  case False
  let ?lk = "find_loop env now net elapsed (q_config q) (lookup_init env key q)"
  let ?d = "\<lambda>c. xor_distance (env_hex_decode env) (c_id c) (node_id_from_key env key)"
  from assms False obtain c where p: "p = to_node_info env c" and "c \<in> set (take CLOSEST_PEERS (sort_key ?d (lk_all_closest ?lk)))"
    by (auto simp: find_node_def Let_def)
  from this(2) have "c \<in> set (lk_all_closest ?lk)" by (metis in_set_takeD set_sort)
  with p False find_loop_sound [of env now net "q_config q" q elapsed key] show ?thesis
    by (auto simp: find_node_def Let_def lookup_sound_def)
qed (use assms in \<open>simp add: find_node_def\<close>)

text \<open>
  C36. What a lookup returns: at most 20 peers, the nearer ones first, each of them named in the
  reply of a peer the lookup asked (in the round it asked it) and none of them the local node.
\<close>

theorem find_node_sound:
  "let (r, bs) = find_node env now net elapsed key q;
       dist = (\<lambda>p. xor_distance (env_hex_decode env) (ni_id p) (node_id_from_key env key))
   in length (qr_peers r) \<le> 20 \<and> sorted (map dist (qr_peers r))
    \<and> list_all (\<lambda>p. \<exists>c. p = to_node_info env c \<and> c_id c \<noteq> q_local_id q \<and> reported env now net bs c) (qr_peers r)"
proof -
  let ?lk = "find_loop env now net elapsed (q_config q) (lookup_init env key q)"
  let ?d = "\<lambda>c. xor_distance (env_hex_decode env) (c_id c) (node_id_from_key env key)"
  have "sorted (map ?d (take CLOSEST_PEERS (sort_key ?d (lk_all_closest ?lk))))"
    by (simp flip: take_map add: sorted_wrt_take)
  then have "sorted (map (\<lambda>p. xor_distance (env_hex_decode env) (ni_id p) (node_id_from_key env key))
      (qr_peers (fst (find_node env now net elapsed key q))))"
    by (simp add: find_node_def Let_def to_node_info_def comp_def)
  moreover have "length (qr_peers (fst (find_node env now net elapsed key q))) \<le> 20"
    by (simp add: find_node_def Let_def CLOSEST_PEERS_def KBUCKET_SIZE_def)
  ultimately show ?thesis using find_node_peers [of _ env now net elapsed key q]
    by (simp add: Let_def case_prod_beta list_all_iff)
qed

text \<open>The peers of the own routing table are asked but never returned: with peers that report
  nobody the answer is empty, whatever the table holds.\<close>

lemma find_node_ignores_own_table:
  assumes "\<And>i p. contacts_of_reply env now (net i p) \<in> {None, Some []}"
  shows "qr_peers (fst (find_node env now net elapsed key q)) = []"
proof (rule ccontr)
  assume "qr_peers (fst (find_node env now net elapsed key q)) \<noteq> []"
  then obtain p where "p \<in> set (qr_peers (fst (find_node env now net elapsed key q)))" by (meson list.set_sel(1))
  from find_node_peers [OF this] obtain i peer cs c where
    "contacts_of_reply env now (net i peer) = Some cs" "c \<in> set cs" by (auto simp: reported_def)
  with assms [of i peer] show False by auto
qed

lemma find_loop_unfold:
  "lk_batches (find_loop env now net elapsed cfg lk) = lk_batches lk \<or>
    next_batch cfg lk \<noteq> [] \<and> find_loop env now net elapsed cfg lk = find_loop env now net elapsed cfg (query_round env now net cfg lk)"
  by (subst (1 2) find_loop.simps) auto

lemma query_round_candidates:
  "\<exists>new. lk_candidates (query_round env now net cfg lk) = drop (qc_parallelism cfg) (lk_candidates lk) @ new"
proof -
  let ?rs = "query_batch_with_timeout env now (net (lk_iterations lk)) (next_batch cfg lk)"
  let ?lk = "lk\<lparr>lk_candidates := drop (min (qc_parallelism cfg) (length (lk_candidates lk))) (lk_candidates lk),
                  lk_iterations := lk_iterations lk + 1, lk_batches := lk_batches lk @ [next_batch cfg lk]\<rparr>"
  from absorb_results_candidates [of ?rs ?lk] obtain new where
    "lk_candidates (fold absorb_result ?rs ?lk) = lk_candidates ?lk @ new" by blast
  then show ?thesis by (simp add: query_round_def Let_def min_def)
qed

text \<open>A loop that meets a batch of peers it has all asked stops, whatever candidates remain.\<close>

lemma repeated_candidates_stop:
  assumes "lk_candidates lk = replicate (2 * qc_parallelism cfg) a @ rest" and "c_id a \<notin> lk_queried lk"
  shows "\<exists>bs. lk_batches (find_loop env now net elapsed cfg lk) = lk_batches lk @ bs \<and> (\<forall>b \<in> set bs. set b \<subseteq> {a})"
proof -
  let ?p = "qc_parallelism cfg" and ?lk = "query_round env now net cfg lk"
  have b: "next_batch cfg lk = replicate ?p a" using assms by (simp add: next_batch_def min_def)
  show ?thesis
    using find_loop_unfold [of env now net elapsed cfg lk]
  proof
    assume "lk_batches (find_loop env now net elapsed cfg lk) = lk_batches lk"
    then show ?thesis by (intro exI [of _ "[]"]) simp
  next
    assume *: "next_batch cfg lk \<noteq> [] \<and> find_loop env now net elapsed cfg lk = find_loop env now net elapsed cfg ?lk"
    obtain new where "lk_candidates ?lk = drop ?p (lk_candidates lk) @ new" using query_round_candidates by blast
    then have "take ?p (lk_candidates ?lk) = replicate ?p a" using assms(1) by (simp add: mult_2 replicate_add)
    moreover have "c_id a \<in> lk_queried ?lk" using * b by (simp add: query_round_queried)
    ultimately have "next_batch cfg ?lk = []"
      by (auto simp: next_batch_def min_def filter_empty_conv dest: in_set_takeD)
    then have "lk_batches (find_loop env now net elapsed cfg ?lk) = lk_batches ?lk"
      using find_loop_unfold [of env now net elapsed cfg ?lk] by blast
    with * b show ?thesis by (intro exI [of _ "[replicate ?p a]"]) auto
  qed
qed

text \<open>
  One peer can end a lookup. When the only known peer \<open>m\<close> answers with one contact repeated
  twice as often as the parallelism and the rest of the network after it, the lookup asks \<open>m\<close> and
  that contact and stops: candidates are not deduplicated, and a batch in which every peer has been
  asked already ends the loop instead of moving on to the candidates behind it.
\<close>

theorem repeated_contact_stalls_lookup:
  assumes "closest (env_hex_decode env) (node_id_from_key env key) CLOSEST_PEERS (q_routing_table q) = [m]"
    and "contacts_of_reply env now (net 0 m) = Some (replicate (2 * qc_parallelism (q_config q)) a @ others)"
    and "c_id a \<noteq> c_id m" and "c_id a \<noteq> q_local_id q" and "c_id m \<noteq> q_local_id q"
  shows "list_all (\<lambda>b. batch_ids b \<subseteq> {c_id m, c_id a}) (snd (find_node env now net elapsed key q))"
proof -
  let ?cfg = "q_config q" and ?lk = "lookup_init env key q"
  let ?lk1 = "query_round env now net ?cfg ?lk"
  have cand: "lk_candidates ?lk = [m]" "lk_queried ?lk = {q_local_id q}" "lk_batches ?lk = []" "lk_iterations ?lk = 0"
    using assms(1) by (simp_all add: lookup_init_def)
  have "\<exists>bs. lk_batches (find_loop env now net elapsed ?cfg ?lk) = bs \<and> (\<forall>b \<in> set bs. set b \<subseteq> {m, a})"
    using find_loop_unfold [of env now net elapsed ?cfg ?lk]
  proof
    assume "next_batch ?cfg ?lk \<noteq> [] \<and> find_loop env now net elapsed ?cfg ?lk = find_loop env now net elapsed ?cfg ?lk1"
    then have loop: "find_loop env now net elapsed ?cfg ?lk = find_loop env now net elapsed ?cfg ?lk1"
      and ne: "next_batch ?cfg ?lk \<noteq> []" by blast+
    have p: "0 < qc_parallelism ?cfg" using ne length_next_batch [of ?cfg ?lk] by (cases "qc_parallelism ?cfg") auto
    then have b: "next_batch ?cfg ?lk = [m]" using assms(5) cand by (simp add: next_batch_def min_def)
    have "lk_candidates ?lk1 = replicate (2 * qc_parallelism ?cfg) a @
        filter (\<lambda>c. c_id c \<notin> {c_id m, q_local_id q}) others"
      using assms(2-4) cand p
      by (simp add: query_round_def Let_def b query_batch_with_timeout_def absorb_result_all min_def
          filter_replicate)
    moreover have "c_id a \<notin> lk_queried ?lk1" using assms(3,4) cand b by (simp add: query_round_queried)
    ultimately obtain bs where "lk_batches (find_loop env now net elapsed ?cfg ?lk1) = lk_batches ?lk1 @ bs"
      "\<forall>b \<in> set bs. set b \<subseteq> {a}" using repeated_candidates_stop by blast
    with loop cand b show ?thesis by auto
  qed (simp add: cand)
  then show ?thesis by (auto simp: find_node_def Let_def list_all_iff batch_ids_def)
qed

definition demo_query :: "in_memory_store dht_query" where
  "demo_query = \<lparr>q_local_id = ''a'', q_routing_table = add_bootstrap_node (demo_contact ''b'' 0) (RoutingTable_new ''a'' 0),
     q_store = InMemory_new, q_config = QueryConfig_default\<rparr>"

definition demo_net :: "nat \<Rightarrow> contact \<Rightarrow> reply" where
  "demo_net i p = Some (Inr (Nodes \<lparr>np_request_id = [],
     np_nodes = replicate 6 \<lparr>nc_id = ''c'', nc_addrs = []\<rparr> @ [\<lparr>nc_id = ''d'', nc_addrs = []\<rparr>]\<rparr>))"

lemma all_contacts_new [simp]: "all_contacts (RoutingTable_new i now) = []"
  by (simp add: all_contacts_def RoutingTable_new_def KBucket_new_def)

lemma all_contacts_bootstrap [simp]: "all_contacts (add_bootstrap_node c rt) = all_contacts rt @ [c\<lparr>c_trusted := True\<rparr>]"
  by (simp add: all_contacts_def add_bootstrap_node_def)

lemma demo_query_candidates:
  "closest hx target CLOSEST_PEERS (q_routing_table demo_query) = [(demo_contact ''b'' 0)\<lparr>c_trusted := True\<rparr>]"
  by (simp add: closest_def demo_query_def demo_contact_def Contact_new_def CLOSEST_PEERS_def KBUCKET_SIZE_def
      add_bootstrap_node_def RoutingTable_new_def all_contacts_def KBucket_new_def)

theorem repeated_contact_stalls_lookup_witness:
  "list_all (\<lambda>b. batch_ids b \<subseteq> {''b'', ''c''}) (snd (find_node demo_env 0 demo_net (\<lambda>_. 0) [1] demo_query))"
  using repeated_contact_stalls_lookup [of demo_env "[1]" demo_query "(demo_contact ''b'' 0)\<lparr>c_trusted := True\<rparr>" 0 demo_net
      "Contact_new ''c'' (V4 0x7f000001, 0) 0" "[Contact_new ''d'' (V4 0x7f000001, 0) 0]" "\<lambda>_. 0"] demo_query_candidates
  by (simp add: demo_net_def contacts_of_reply_def demo_query_def QueryConfig_default_def ALPHA_def Contact_new_def
      demo_contact_def parse_addr_def)

section \<open>Properties of GET\_PROVIDERS\<close>

lemma absorb_providers_all:
  "pl_all (absorb_providers r pl) = pl_all pl @ (case snd r of Some ps \<Rightarrow> ps | None \<Rightarrow> [])"
  "pl_queried (absorb_providers r pl) = insert (fst r) (pl_queried pl)"
  by (simp_all add: absorb_providers_def Let_def split: option.splits)

lemma absorb_providers_fold:
  "pl_all (fold absorb_providers rs pl) = pl_all pl @ concat (map (\<lambda>r. case snd r of Some ps \<Rightarrow> ps | None \<Rightarrow> []) rs)"
  by (induction rs arbitrary: pl) (simp_all add: absorb_providers_all)

lemma provider_round_all:
  "pl_all (provider_round key secs net cfg pl) = pl_all pl @
    concat (map (\<lambda>p. case providers_of_reply key secs (net (pl_iterations pl) p) of Some ps \<Rightarrow> ps | None \<Rightarrow> []) (pl_batch cfg pl))"
  by (simp add: provider_round_def Let_def absorb_providers_fold query_providers_batch_with_timeout_def comp_def)

definition from_network :: "dht_key \<Rightarrow> u64 \<Rightarrow> provider_record \<Rightarrow> bool" where
  "from_network key secs p \<longleftrightarrow>
    pr_signature p = None \<and> pr_ttl_secs p = default_ttl \<and> pr_created_at p = secs \<and> pr_key p = key"

lemma providers_of_reply_unsigned:
  "Some ps = providers_of_reply key secs r \<Longrightarrow> p \<in> set ps \<Longrightarrow> from_network key secs p"
  by (auto simp: from_network_def providers_of_reply_def ProviderRecord_new_def split: option.splits sum.splits
      dht_wire_message.splits list.splits)

definition provider_sound :: "dht_key \<Rightarrow> u64 \<Rightarrow> query_config \<Rightarrow> contact list \<Rightarrow> provider_record list \<Rightarrow> provider_lookup \<Rightarrow> bool" where
  "provider_sound key secs cfg known own pl \<longleftrightarrow>
    set (pl_candidates pl) \<subseteq> set known \<and> (\<forall>b \<in> set (pl_batches pl). set b \<subseteq> set known \<and> length b \<le> qc_parallelism cfg) \<and>
    (\<exists>new. pl_all pl = own @ new \<and> (\<forall>p \<in> set new. from_network key secs p)) \<and>
    length (pl_batches pl) \<le> pl_iterations pl"

lemma provider_sound_round:
  assumes "provider_sound key secs cfg known own pl"
  shows "provider_sound key secs cfg known own (provider_round key secs net cfg pl)"
proof -
  let ?new = "concat (map (\<lambda>p. case providers_of_reply key secs (net (pl_iterations pl) p) of Some ps \<Rightarrow> ps | None \<Rightarrow> []) (pl_batch cfg pl))"
  have "from_network key secs p" if "p \<in> set ?new" for p
    using that by (auto split: option.splits intro: providers_of_reply_unsigned)
  moreover have "set (pl_batch cfg pl) \<subseteq> set known" "length (pl_batch cfg pl) \<le> qc_parallelism cfg"
    using assms by (auto simp: provider_sound_def pl_batch_def dest: in_set_takeD intro: le_trans [OF length_filter_le])
  ultimately show ?thesis using assms
    by (auto simp: provider_sound_def provider_round_all dest: in_set_dropD intro: providers_of_reply_unsigned)
qed

lemma provider_loop_sound:
  "provider_sound key secs cfg known own pl \<Longrightarrow> pl_iterations pl \<le> qc_max_iterations cfg \<Longrightarrow>
    provider_sound key secs cfg known own (provider_loop key secs net elapsed cfg pl) \<and>
    pl_iterations (provider_loop key secs net elapsed cfg pl) \<le> qc_max_iterations cfg"
proof (induction key secs net elapsed cfg pl rule: provider_loop.induct)
  case (1 key secs net elapsed cfg pl)
  show ?case
  proof (cases "pl_candidates pl = [] \<or> 20 \<le> length (pl_all pl) \<or> qc_max_iterations cfg \<le> pl_iterations pl
      \<or> is_timed_out cfg (elapsed (Suc (pl_iterations pl))) \<or> pl_batch cfg pl = []")
    case True
    with "1.prems" show ?thesis
      by (subst (1 2) provider_loop.simps) (auto simp: provider_sound_def dest: in_set_dropD)
  next
    case False
    then have "provider_loop key secs net elapsed cfg pl = provider_loop key secs net elapsed cfg (provider_round key secs net cfg pl)"
      by (subst provider_loop.simps) simp
    with "1.IH" "1.prems" False provider_sound_round [OF "1.prems"(1)] show ?thesis by auto
  qed
qed

lemma dedup_providers_props:
  "distinct (map pr_provider_id (dedup_providers seen ps)) \<and> set (dedup_providers seen ps) \<subseteq> set ps \<and>
    pr_provider_id ` set (dedup_providers seen ps) = pr_provider_id ` set ps - seen"
  by (induction seen ps rule: dedup_providers.induct) (auto simp: image_iff)

text \<open>
  A lookup for providers asks only peers of the own routing table (it never follows the peers
  it learns about), in at most \<open>max_iterations\<close> rounds; it returns one record per provider,
  covers every provider the own store knows, and whatever it learned from the network has lost
  its signature and its lifetime: such a record carries none and the default lifetime.
\<close>

theorem get_providers_sound:
  "let own = fst (st_get_providers st secs key (q_store q));
       ((r, bs), q') = get_providers env st secs net elapsed key q
   in length bs \<le> qc_max_iterations (q_config q)
    \<and> set (concat bs) \<subseteq> set (closest (env_hex_decode env) (node_id_from_key env key) 20 (q_routing_table q))
    \<and> (is_timed_out (q_config q) (elapsed 0) \<or> distinct (map pr_provider_id (qr_providers r)))
    \<and> pr_provider_id ` set own \<subseteq> pr_provider_id ` set (qr_providers r)
    \<and> set (qr_providers r) \<subseteq> set own \<union> {p. from_network key secs p}"
proof (cases "is_timed_out (q_config q) (elapsed 0)")
  case False
  let ?own = "fst (st_get_providers st secs key (q_store q))"
  let ?known = "closest (env_hex_decode env) (node_id_from_key env key) CLOSEST_PEERS (q_routing_table q)"
  let ?pl = "\<lparr>pl_candidates = ?known, pl_queried = {q_local_id q}, pl_all = ?own, pl_iterations = 0,
     pl_timed_out = False, pl_batches = []\<rparr>"
  let ?fin = "provider_loop key secs net elapsed (q_config q) ?pl"
  have "provider_sound key secs (q_config q) ?known ?own ?pl" by (simp add: provider_sound_def)
  then have snd: "provider_sound key secs (q_config q) ?known ?own ?fin"
    and it: "pl_iterations ?fin \<le> qc_max_iterations (q_config q)"
    using provider_loop_sound [of key secs "q_config q" ?known ?own ?pl net elapsed] by simp_all
  have res: "fst (get_providers env st secs net elapsed key q) =
      (\<lparr>qr_peers = [], qr_providers = dedup_providers {} (pl_all ?fin), qr_timed_out = pl_timed_out ?fin\<rparr>, pl_batches ?fin)"
    using False by (simp add: get_providers_def Let_def case_prod_beta)
  from snd obtain new where all: "pl_all ?fin = ?own @ new" "\<forall>p \<in> set new. from_network key secs p"
    by (auto simp: provider_sound_def)
  have "length (pl_batches ?fin) \<le> qc_max_iterations (q_config q)" using snd it by (simp add: provider_sound_def)
  moreover have "set (concat (pl_batches ?fin)) \<subseteq> set ?known" using snd by (auto simp: provider_sound_def)
  moreover have "p \<in> set ?own \<or> from_network key secs p" if "p \<in> set (dedup_providers {} (pl_all ?fin))" for p
    using that dedup_providers_props [of "{}" "pl_all ?fin"] all by auto
  moreover have "pr_provider_id ` set ?own \<subseteq> pr_provider_id ` set (dedup_providers {} (pl_all ?fin))"
    using dedup_providers_props [of "{}" "pl_all ?fin"] all(1) by (auto simp: image_Un)
  ultimately show ?thesis using res dedup_providers_props [of "{}" "pl_all ?fin"]
    unfolding Let_def case_prod_beta CLOSEST_PEERS_def KBUCKET_SIZE_def by auto
qed (simp add: get_providers_def Let_def case_prod_beta)

text \<open>A value is found only in the own store: what the lookup in \<^verbatim>\<open>get_value\<close> finds is dropped.\<close>

lemma get_value_local_only:
  "fst (get_value env st now net elapsed key q) = map_option dv_data (st_get_value st key (q_store q))"
  by (simp add: get_value_def split: option.splits)

end
