(* ===== verification/Dht_Node.thy ===== *)
theory Dht_Node
  imports Dht_Query Complex_Main
begin

text \<open>
  The client side of the DHT: the retry policy and the per-peer cooldown of
  \<^verbatim>\<open>a3net-dht/src/retry.rs\<close>, the request loop of \<^verbatim>\<open>network.rs\<close>, the node of \<^verbatim>\<open>node.rs\<close> that puts
  table, store and network together, and the persistence of \<^verbatim>\<open>service.rs\<close>.
  \<^item> Times of the retry policy are milliseconds. The code computes the cooldown in \<^verbatim>\<open>f64\<close>; the
    model computes it in the rationals, which agrees where \<^verbatim>\<open>f64\<close> is exact, as for the default
    policy (integral multiplier, products below \<open>2 ^ 53\<close>). The jittered backoff only delays the
    next attempt; its effect is the clock reading of that attempt, an argument.
  \<^item> A request to a peer has an outcome that is an argument (the transport and the peer); the
    requests a node sends are returned.
  \<^item> The background loops are their bodies, one step per tick.
\<close>

section \<open>Retry policy and failure tracker\<close>

record retry_policy =
  rp_max_attempts :: nat
  rp_initial_backoff :: duration
  rp_max_backoff :: duration
  rp_backoff_multiplier :: rat
  rp_jitter_ratio :: rat
  rp_peer_cooldown_threshold :: nat
  rp_peer_cooldown_min :: duration
  rp_peer_cooldown_max :: duration

definition RetryPolicy_default :: retry_policy where
  "RetryPolicy_default = \<lparr>rp_max_attempts = 3, rp_initial_backoff = 500, rp_max_backoff = 30000,
     rp_backoff_multiplier = 2, rp_jitter_ratio = 1 / 5, rp_peer_cooldown_threshold = 2,
     rp_peer_cooldown_min = 5000, rp_peer_cooldown_max = 300000\<rparr>"

definition should_retry :: "retry_policy \<Rightarrow> nat \<Rightarrow> bool" where
  "should_retry p attempt = (attempt < rp_max_attempts p)"

definition peer_cooldown :: "retry_policy \<Rightarrow> nat \<Rightarrow> duration" where
  "peer_cooldown p failure_count =
    (if failure_count < rp_peer_cooldown_threshold p then 0
     else let exponent = failure_count - rp_peer_cooldown_threshold p;
              raw_ms = of_nat (rp_peer_cooldown_min p) * rp_backoff_multiplier p ^ min exponent 16
     in nat \<lfloor>min raw_ms (of_nat (rp_peer_cooldown_max p))\<rfloor>)"

definition is_transient :: "query_error \<Rightarrow> bool" where
  "is_transient e = (case e of Timeout \<Rightarrow> True | Network _ \<Rightarrow> True | _ \<Rightarrow> False)"

record peer_state =
  ps_consecutive_failures :: nat
  ps_cooldown_until :: "instant option"

record failure_tracker =
  ft_state :: "(node_id, peer_state) hmap"
  ft_policy :: retry_policy

definition PeerFailureTracker_new :: "retry_policy \<Rightarrow> failure_tracker" where
  "PeerFailureTracker_new p = \<lparr>ft_state = [], ft_policy = p\<rparr>"

definition tracked_peers :: "failure_tracker \<Rightarrow> nat" where
  "tracked_peers t = length (ft_state t)"

definition peer_entry :: "failure_tracker \<Rightarrow> node_id \<Rightarrow> peer_state" where
  "peer_entry t peer =
    (case hm_get (ft_state t) peer of
       Some e \<Rightarrow> e
     | None \<Rightarrow> \<lparr>ps_consecutive_failures = 0, ps_cooldown_until = None\<rparr>)"

definition try_acquire :: "instant \<Rightarrow> node_id \<Rightarrow> failure_tracker \<Rightarrow> (duration, nat) result \<times> failure_tracker" where
  "try_acquire now peer t =
    (let entry = peer_entry t peer; t1 = t\<lparr>ft_state := hm_insert peer entry (ft_state t)\<rparr>
     in case ps_cooldown_until entry of
          Some until \<Rightarrow>
            if now < until then (Inl (until - now), t1)
            else (Inr (ps_consecutive_failures entry + 1),
                  t\<lparr>ft_state := hm_insert peer (entry\<lparr>ps_cooldown_until := None\<rparr>) (ft_state t)\<rparr>)
        | None \<Rightarrow> (Inr (ps_consecutive_failures entry + 1), t1))"

definition record_failure :: "instant \<Rightarrow> node_id \<Rightarrow> failure_tracker \<Rightarrow> failure_tracker" where
  "record_failure now peer t =
    (let entry = peer_entry t peer;
         n = min (ps_consecutive_failures entry + 1) (2 ^ 32 - 1);
         cooldown = peer_cooldown (ft_policy t) n;
         entry' = (if cooldown \<noteq> 0 then \<lparr>ps_consecutive_failures = n, ps_cooldown_until = Some (now + cooldown)\<rparr>
                   else entry\<lparr>ps_consecutive_failures := n\<rparr>)
     in t\<lparr>ft_state := hm_insert peer entry' (ft_state t)\<rparr>)"

definition record_success :: "node_id \<Rightarrow> failure_tracker \<Rightarrow> failure_tracker" where
  "record_success peer t = t\<lparr>ft_state := hm_remove peer (ft_state t)\<rparr>"

section \<open>Requests with retries\<close>

text \<open>
  \<^verbatim>\<open>DhtNetworkSender::find_node\<close> and \<^verbatim>\<open>get_providers\<close>, which share their loop. Attempt \<open>i\<close> (from 1)
  asks the tracker at \<open>t_acquire i\<close>, ends in \<open>outcome i\<close>, and a failure is recorded at
  \<open>t_fail i\<close>. The result comes with the number of requests sent.
\<close>

function send_loop ::
  "retry_policy \<Rightarrow> (nat \<Rightarrow> instant) \<Rightarrow> (nat \<Rightarrow> instant) \<Rightarrow> (nat \<Rightarrow> (query_error, 'p) result) \<Rightarrow> node_id \<Rightarrow>
    nat \<Rightarrow> query_error option \<Rightarrow> failure_tracker \<Rightarrow> ((query_error, 'p) result \<times> nat) \<times> failure_tracker"
where
  "send_loop policy t_acquire t_fail outcome peer attempt last_err t =
    (let attempt' = Suc attempt; (r, t1) = try_acquire (t_acquire attempt') peer t
     in case r of
          Inl _ \<Rightarrow> ((Inl (case last_err of Some e \<Rightarrow> e | None \<Rightarrow> Timeout), attempt), t1)
        | Inr _ \<Rightarrow>
            (case outcome attempt' of
               Inr payload \<Rightarrow> ((Inr payload, attempt'), record_success peer t1)
             | Inl e \<Rightarrow>
                 (let t2 = record_failure (t_fail attempt') peer t1
                  in if \<not> is_transient e then ((Inl e, attempt'), t2)
                     else if \<not> should_retry policy attempt' then ((Inl e, attempt'), t2)
                     else send_loop policy t_acquire t_fail outcome peer attempt' (Some e) t2)))"
  by auto

termination send_loop
  by (relation "measure (\<lambda>(policy, _, _, _, _, attempt, _). rp_max_attempts policy - attempt)")
    (auto simp: should_retry_def)

declare send_loop.simps [simp del]

definition send_with_retry ::
  "retry_policy \<Rightarrow> (nat \<Rightarrow> instant) \<Rightarrow> (nat \<Rightarrow> instant) \<Rightarrow> (nat \<Rightarrow> (query_error, 'p) result) \<Rightarrow> node_id \<Rightarrow>
    failure_tracker \<Rightarrow> ((query_error, 'p) result \<times> nat) \<times> failure_tracker"
where
  "send_with_retry policy t_acquire t_fail outcome peer t = send_loop policy t_acquire t_fail outcome peer 0 None t"

section \<open>The node\<close>

record dht_config =
  dc_local_id :: node_id
  dc_bootstrap_nodes :: "(node_id \<times> string) list"
  dc_provider_interval :: duration
  dc_refresh_interval :: duration
  dc_contact_timeout :: duration
  dc_k :: nat

record 's dht_node =
  n_config :: dht_config
  n_routing_table :: routing_table
  n_store :: 's
  n_providers :: "(dht_key, provider_record) hmap"
  n_has_sender :: bool
  n_local_addr :: "string option"
  n_query :: "'s dht_query option"

definition DhtNode_with_store :: "dht_config \<Rightarrow> instant \<Rightarrow> 's \<Rightarrow> 's dht_node" where
  "DhtNode_with_store config now store = \<lparr>n_config = config,
     n_routing_table = RoutingTable_new (dc_local_id config) now, n_store = store, n_providers = [],
     n_has_sender = False, n_local_addr = None, n_query = None\<rparr>"

definition DhtNode_new :: "dht_config \<Rightarrow> instant \<Rightarrow> in_memory_store dht_node" where
  "DhtNode_new config now = DhtNode_with_store config now InMemory_new"

definition DhtNode_with_id :: "node_id \<Rightarrow> instant \<Rightarrow> in_memory_store dht_node" where
  "DhtNode_with_id local_id now = DhtNode_new \<lparr>dc_local_id = local_id, dc_bootstrap_nodes = [], dc_provider_interval = 3600,
    dc_refresh_interval = 300, dc_contact_timeout = 600, dc_k = 20\<rparr> now"

definition set_local_addr :: "string \<Rightarrow> 's dht_node \<Rightarrow> 's dht_node" where
  "set_local_addr addr n = n\<lparr>n_local_addr := Some addr\<rparr>"

definition attach_sender :: "bool \<Rightarrow> 's dht_node \<Rightarrow> 's dht_node" where
  "attach_sender b n = n\<lparr>n_has_sender := b\<rparr>"

definition node_add_bootstrap_node :: "dht_env \<Rightarrow> instant \<Rightarrow> node_id \<Rightarrow> string \<Rightarrow> 's dht_node \<Rightarrow> 's dht_node" where
  "node_add_bootstrap_node env now i addr n =
    n\<lparr>n_routing_table := add_bootstrap_node
       (Contact_new i (case env_parse_addr env addr of Some a \<Rightarrow> a | None \<Rightarrow> (V4 0x7f000001, 0)) now) (n_routing_table n)\<rparr>"

definition add_peer :: "dht_env \<Rightarrow> instant \<Rightarrow> node_id \<Rightarrow> socket_addr \<Rightarrow> 's dht_node \<Rightarrow> 's dht_node" where
  "add_peer env now i addr n =
    n\<lparr>n_routing_table := snd (RoutingTable_insert (env_hex_decode env) (Contact_new i addr now) (n_routing_table n))\<rparr>"

definition node_local_addr :: "'s dht_node \<Rightarrow> string" where
  "node_local_addr n = (case n_local_addr n of Some a \<Rightarrow> a | None \<Rightarrow> ''/ip4/127.0.0.1/tcp/0'')"

text \<open>\<^verbatim>\<open>announce_content\<close> returns the peers it sends an \<^verbatim>\<open>AddProvider\<close> to.\<close>

definition announce_content ::
  "dht_env \<Rightarrow> 's dht_storage \<Rightarrow> u64 \<Rightarrow> dht_key \<Rightarrow> 's dht_node \<Rightarrow> (node_id \<times> provider_record) list \<times> 's dht_node"
where
  "announce_content env st secs key n =
    (let record = ProviderRecord_new key (dc_local_id (n_config n)) (node_local_addr n) secs;
         n1 = n\<lparr>n_providers := hm_insert key record (n_providers n),
                n_store := snd (st_put_provider st key record (n_store n))\<rparr>;
         closest_peers = closest (env_hex_decode env) (node_id_from_key env key) (dc_k (n_config n)) (n_routing_table n)
     in (if n_has_sender n then map (\<lambda>c. (c_id c, record)) (take (dc_k (n_config n)) closest_peers) else [], n1))"

text \<open>\<^verbatim>\<open>find_providers\<close>: \<open>net\<close> is the outcome of \<^verbatim>\<open>sender.get_providers\<close> for a peer. The peers asked are
  returned with the records.\<close>

definition record_of_wire :: "u64 \<Rightarrow> dht_key \<Rightarrow> provider_record_wire \<Rightarrow> provider_record" where
  "record_of_wire secs key w = \<lparr>pr_key = key, pr_provider_id = pw_provider_id w,
     pr_provider_addr = (case pw_addrs w of a # _ \<Rightarrow> a | [] \<Rightarrow> ''127.0.0.1:0''),
     pr_ttl_secs = pw_ttl_secs w, pr_created_at = secs, pr_signature = pw_signature w\<rparr>"

definition take_provider ::
  "'s dht_storage \<Rightarrow> u64 \<Rightarrow> dht_key \<Rightarrow> provider_record_wire \<Rightarrow> provider_record list \<times> 's \<Rightarrow> provider_record list \<times> 's"
where
  "take_provider st secs key w acc =
    (let record = record_of_wire secs key w
     in (fst acc @ [record], snd (st_put_provider st key record (snd acc))))"

definition ask_peer ::
  "'s dht_storage \<Rightarrow> u64 \<Rightarrow> dht_key \<Rightarrow> (node_id \<Rightarrow> (query_error, providers_payload) result) \<Rightarrow> contact \<Rightarrow>
    provider_record list \<times> 's \<Rightarrow> provider_record list \<times> 's"
where
  "ask_peer st secs key net peer acc =
    (case net (c_id peer) of
       Inr payload \<Rightarrow> fold (take_provider st secs key) (pp_providers payload) acc
     | Inl _ \<Rightarrow> acc)"

definition find_providers ::
  "dht_env \<Rightarrow> 's dht_storage \<Rightarrow> u64 \<Rightarrow> (node_id \<Rightarrow> (query_error, providers_payload) result) \<Rightarrow> dht_key \<Rightarrow> 's dht_node \<Rightarrow>
    (provider_record list \<times> node_id list) \<times> 's dht_node"
where
  "find_providers env st secs net key n =
    (let (own, s) = st_get_providers st secs key (n_store n); n1 = n\<lparr>n_store := s\<rparr>
     in if own \<noteq> [] then ((own, []), n1)
        else if \<not> n_has_sender n then (([], []), n1)
        else let peers = take 3 (closest (env_hex_decode env) (node_id_from_key env key) 20 (n_routing_table n));
                 (ps, s') = fold (ask_peer st secs key net) peers ([], s)
        in ((ps, map c_id peers), n1\<lparr>n_store := s'\<rparr>))"

definition node_find_node :: "dht_env \<Rightarrow> dht_key \<Rightarrow> 's dht_node \<Rightarrow> query_result" where
  "node_find_node env key n =
    \<lparr>qr_peers = map (\<lambda>c. \<lparr>ni_id = c_id c, ni_addrs = []\<rparr>)
       (closest (env_hex_decode env) (node_id_from_key env key) KBUCKET_SIZE (n_routing_table n)),
     qr_providers = [], qr_timed_out = False\<rparr>"

text \<open>\<^verbatim>\<open>query\<close>: the engine is built once, over a new routing table of its own.\<close>

definition node_query :: "instant \<Rightarrow> 's dht_node \<Rightarrow> 's dht_query option \<times> 's dht_node" where
  "node_query now n =
    (case n_query n of
       Some q \<Rightarrow> (Some q, n)
     | None \<Rightarrow>
         if n_has_sender n
         then let q = \<lparr>q_local_id = dc_local_id (n_config n),
                       q_routing_table = RoutingTable_new (dc_local_id (n_config n)) now,
                       q_store = n_store n, q_config = QueryConfig_default\<rparr>
              in (Some q, n\<lparr>n_query := Some q\<rparr>)
         else (None, n))"

definition node_get_value :: "'s dht_storage \<Rightarrow> dht_key \<Rightarrow> 's dht_node \<Rightarrow> dht_value option" where
  "node_get_value st key n = st_get_value st key (n_store n)"

definition node_put_value :: "'s dht_storage \<Rightarrow> dht_key \<Rightarrow> dht_value \<Rightarrow> 's dht_node \<Rightarrow> 's dht_node" where
  "node_put_value st key v n = n\<lparr>n_store := snd (st_put_value st key v (n_store n))\<rparr>"

definition refresh_tick :: "instant \<Rightarrow> 's dht_node \<Rightarrow> 's dht_node" where
  "refresh_tick now n =
    n\<lparr>n_routing_table := fold (\<lambda>i rt. mark_bucket_refreshed i now rt) [0..<256]
       (snd (remove_dead_contacts now (n_routing_table n)))\<rparr>"

section \<open>Persistence of the routing table\<close>

record serializable_contact =
  sc_node_id :: bytes
  sc_addrs :: "string list"
  sc_last_contacted :: u64
  sc_last_seen :: u64
  sc_trusted :: bool

definition save_contact :: "dht_env \<Rightarrow> instant \<Rightarrow> u64 \<Rightarrow> contact \<Rightarrow> serializable_contact option" where
  "save_contact env inow secs c =
    map_option (\<lambda>bs. \<lparr>sc_node_id = bs, sc_addrs = map (env_show_addr env) (c_addrs c),
       sc_last_contacted = sat_sub64 secs (of_nat (inow - c_last_contacted c)),
       sc_last_seen = sat_sub64 secs (of_nat (inow - c_last_seen c)), sc_trusted = c_trusted c\<rparr>)
      (env_hex_decode env (c_id c))"

definition save_routing_table :: "dht_env \<Rightarrow> instant \<Rightarrow> u64 \<Rightarrow> routing_table \<Rightarrow> serializable_contact list option" where
  "save_routing_table env inow secs rt = those (map (save_contact env inow secs) (all_contacts rt))"

definition secs_before :: "instant \<Rightarrow> u64 \<Rightarrow> u64 \<Rightarrow> instant" where
  "secs_before inow secs t =
    (let ago = unat (sat_sub64 secs t) in if ago \<le> inow then inow - ago else inow)"

definition load_addr ::
  "dht_env \<Rightarrow> instant \<Rightarrow> u64 \<Rightarrow> serializable_contact \<Rightarrow> node_id \<Rightarrow> string \<Rightarrow> routing_table \<Rightarrow> routing_table"
where
  "load_addr env inow secs sc i addr_str rt =
    (case env_parse_addr env addr_str of
       None \<Rightarrow> rt
     | Some addr \<Rightarrow>
         snd (RoutingTable_insert (env_hex_decode env)
           ((Contact_new i addr inow)\<lparr>c_trusted := sc_trusted sc,
              c_last_contacted := secs_before inow secs (sc_last_contacted sc),
              c_last_seen := secs_before inow secs (sc_last_seen sc)\<rparr>) rt))"

definition load_contact :: "dht_env \<Rightarrow> instant \<Rightarrow> u64 \<Rightarrow> serializable_contact \<Rightarrow> routing_table \<Rightarrow> routing_table" where
  "load_contact env inow secs sc rt =
    (case NodeId_from_bytes (env_hex_encode env) (sc_node_id sc) of
       Inl _ \<Rightarrow> rt
     | Inr i \<Rightarrow> fold (load_addr env inow secs sc i) (sc_addrs sc) rt)"

definition load_routing_table ::
  "dht_env \<Rightarrow> instant \<Rightarrow> u64 \<Rightarrow> serializable_contact list \<Rightarrow> routing_table \<Rightarrow> routing_table"
where
  "load_routing_table env inow secs contacts rt = fold (load_contact env inow secs) contacts rt"

text \<open>One refresh: the contacts a peer reports are inserted.\<close>

definition refresh_insert :: "dht_env \<Rightarrow> instant \<Rightarrow> nodes_payload \<Rightarrow> routing_table \<Rightarrow> routing_table" where
  "refresh_insert env now response rt =
    fold (\<lambda>nc rt. snd (RoutingTable_insert (env_hex_decode env) (Contact_new (nc_id nc) (parse_addr env (nc_addrs nc)) now) rt))
      (np_nodes response) rt"

record local_announcements =
  la_providers :: "(dht_key, instant) hmap"
  la_ttl :: duration

definition service_announce :: "instant \<Rightarrow> dht_key \<Rightarrow> local_announcements \<Rightarrow> local_announcements" where
  "service_announce now key s = s\<lparr>la_providers := hm_insert key (now + la_ttl s) (la_providers s)\<rparr>"

definition get_local_providers :: "instant \<Rightarrow> local_announcements \<Rightarrow> dht_key list" where
  "get_local_providers now s = map fst (filter (\<lambda>(_, expiry). now < expiry) (la_providers s))"

section \<open>Lemmas: retries\<close>

lemma send_loop_cooldown:
  "fst (try_acquire (ta (Suc n)) peer t) = Inl d \<Longrightarrow>
    fst (send_loop policy ta tf out peer n le t) = (Inl (case le of Some e \<Rightarrow> e | None \<Rightarrow> Timeout), n)"
  by (subst send_loop.simps) (simp add: Let_def case_prod_beta)

lemma send_loop_again:
  "try_acquire (ta (Suc n)) peer t = (Inr k, t1) \<Longrightarrow> out (Suc n) = Inl e \<Longrightarrow> is_transient e \<Longrightarrow>
    should_retry policy (Suc n) \<Longrightarrow>
    send_loop policy ta tf out peer n le t = send_loop policy ta tf out peer (Suc n) (Some e) (record_failure (tf (Suc n)) peer t1)"
  by (subst send_loop.simps) (simp add: Let_def)

lemma send_loop_stop:
  "try_acquire (ta (Suc n)) peer t = (Inr k, t1) \<Longrightarrow>
    (\<And>e. out (Suc n) = Inl e \<Longrightarrow> \<not> (is_transient e \<and> should_retry policy (Suc n))) \<Longrightarrow>
    fst (send_loop policy ta tf out peer n le t) = (out (Suc n), Suc n)"
  by (subst send_loop.simps) (auto simp: Let_def split: sum.splits)

lemma send_loop_count:
  "n \<le> snd (fst (send_loop policy ta tf out peer n le t)) \<and>
    snd (fst (send_loop policy ta tf out peer n le t)) \<le> max (Suc n) (rp_max_attempts policy)"
proof (induction "rp_max_attempts policy - n" arbitrary: n le t rule: less_induct)
  case less
  obtain r t1 where acq: "try_acquire (ta (Suc n)) peer t = (r, t1)" by fastforce
  show ?case
  proof (cases r)
    case (Inl d)
    then show ?thesis using send_loop_cooldown [of ta n peer t d policy tf out le] acq by simp
  next
    case (Inr k)
    show ?thesis
    proof (cases "\<exists>e. out (Suc n) = Inl e \<and> is_transient e \<and> should_retry policy (Suc n)")
      case True
      then obtain e where e: "out (Suc n) = Inl e" "is_transient e" "should_retry policy (Suc n)" by blast
      note again = send_loop_again [where ta = ta and out = out, OF acq [unfolded Inr] e, of tf le]
      from e(3) have "rp_max_attempts policy - Suc n < rp_max_attempts policy - n" "Suc n < rp_max_attempts policy"
        by (auto simp: should_retry_def)
      with less [of "Suc n" "Some e" "record_failure (tf (Suc n)) peer t1"] show ?thesis unfolding again by auto
    next
      case False
      with send_loop_stop [where ta = ta and out = out, OF acq [unfolded Inr], of policy tf le] show ?thesis by auto
    qed
  qed
qed

lemma peer_cooldown_default:
  "peer_cooldown RetryPolicy_default 1 = 0" "peer_cooldown RetryPolicy_default 2 = 5000"
  by (simp_all add: peer_cooldown_def RetryPolicy_default_def Let_def)

lemma record_failure_entry:
  "peer_entry (record_failure now peer t) peer =
    (let n = min (ps_consecutive_failures (peer_entry t peer) + 1) (2 ^ 32 - 1); c = peer_cooldown (ft_policy t) n
     in if c \<noteq> 0 then \<lparr>ps_consecutive_failures = n, ps_cooldown_until = Some (now + c)\<rparr>
        else (peer_entry t peer)\<lparr>ps_consecutive_failures := n\<rparr>)"
  "ft_policy (record_failure now peer t) = ft_policy t"
  "i \<noteq> peer \<Longrightarrow> peer_entry (record_failure now peer t) i = peer_entry t i"
  by (simp_all add: record_failure_def Let_def peer_entry_def [of "t\<lparr>ft_state := x\<rparr>" for x])
    (simp add: peer_entry_def)

lemma try_acquire_cases:
  "try_acquire now peer t =
    (case ps_cooldown_until (peer_entry t peer) of
       Some until \<Rightarrow> if now < until then (Inl (until - now), snd (try_acquire now peer t))
         else (Inr (ps_consecutive_failures (peer_entry t peer) + 1), snd (try_acquire now peer t))
     | None \<Rightarrow> (Inr (ps_consecutive_failures (peer_entry t peer) + 1), snd (try_acquire now peer t)))"
  by (simp add: try_acquire_def Let_def split: option.splits)

lemma try_acquire_entry:
  "ps_consecutive_failures (peer_entry (snd (try_acquire now peer t)) peer) = ps_consecutive_failures (peer_entry t peer)"
  "ft_policy (snd (try_acquire now peer t)) = ft_policy t"
  "ps_cooldown_until (peer_entry t peer) = None \<Longrightarrow> peer_entry (snd (try_acquire now peer t)) peer = peer_entry t peer"
  by (simp_all add: try_acquire_def Let_def peer_entry_def [of "t\<lparr>ft_state := x\<rparr>" for x] split: option.splits)

lemma record_success_entry:
  "peer_entry (record_success peer t) peer = \<lparr>ps_consecutive_failures = 0, ps_cooldown_until = None\<rparr>"
  by (simp add: record_success_def peer_entry_def)

text \<open>
  A request loop ends: it sends at most \<open>max_attempts\<close> requests (one when that is zero), and a
  request that succeeds leaves no failure recorded against the peer.
\<close>

theorem send_with_retry_bounded:
  "snd (fst (send_with_retry policy ta tf out peer t)) \<le> max 1 (rp_max_attempts policy)"
  using send_loop_count [of 0 policy ta tf out peer None t] by (simp add: send_with_retry_def)

text \<open>
  The default policy states three attempts, but makes at most two when requests fail in a row:
  two failures start a cooldown of five seconds, the backoff before the third attempt is about one
  second, and an attempt in the cooldown ends the loop without a request. So whenever the third
  attempt would start within five seconds of the second failure, the second error is returned.
\<close>

theorem default_policy_skips_third_attempt:
  assumes "ft_policy t = RetryPolicy_default"
    and "peer_entry t peer = \<lparr>ps_consecutive_failures = 0, ps_cooldown_until = None\<rparr>"
    and "out 1 = Inl e1" "is_transient e1" "out 2 = Inl e2" "is_transient e2"
    and "ta 3 < tf 2 + 5000"
  shows "fst (send_with_retry RetryPolicy_default ta tf out peer t) = (Inl e2, 2)"
proof -
  define t1 where "t1 = record_failure (tf 1) peer (snd (try_acquire (ta 1) peer t))"
  define t2 where "t2 = record_failure (tf 2) peer (snd (try_acquire (ta 2) peer t1))"
  let ?loop = "send_loop RetryPolicy_default ta tf out peer"
  have a1: "try_acquire (ta 1) peer t = (Inr 1, snd (try_acquire (ta 1) peer t))"
    using try_acquire_cases [of "ta 1" peer t] assms(2) by simp
  have e1: "peer_entry t1 peer = \<lparr>ps_consecutive_failures = 1, ps_cooldown_until = None\<rparr>"
    and p1: "ft_policy t1 = RetryPolicy_default"
    using assms(1,2) peer_cooldown_default by (simp_all add: t1_def record_failure_entry try_acquire_entry Let_def)
  have a2: "try_acquire (ta 2) peer t1 = (Inr 2, snd (try_acquire (ta 2) peer t1))"
    using try_acquire_cases [of "ta 2" peer t1] e1 by (simp add: numeral_2_eq_2)
  have e2: "peer_entry t2 peer = \<lparr>ps_consecutive_failures = 2, ps_cooldown_until = Some (tf 2 + 5000)\<rparr>"
    using e1 p1 peer_cooldown_default(2) [unfolded numeral_2_eq_2]
    by (simp add: t2_def record_failure_entry try_acquire_entry Let_def)
  have "fst (try_acquire (ta 3) peer t2) = Inl (tf 2 + 5000 - ta 3)"
    using e2 assms(7) by (simp add: try_acquire_def)
  then have "fst (?loop 2 (Some e2) t2) = (Inl e2, 2)"
    using send_loop_cooldown [of ta 2 peer t2 "tf 2 + 5000 - ta 3" RetryPolicy_default tf out "Some e2"] by simp
  moreover have "?loop 1 (Some e1) t1 = ?loop 2 (Some e2) t2"
    using send_loop_again [of ta 1 peer t1 2 _ out e2 RetryPolicy_default tf "Some e1"] a2 assms(5,6)
    by (simp add: t2_def should_retry_def RetryPolicy_default_def numeral_2_eq_2)
  moreover have "?loop 0 None t = ?loop 1 (Some e1) t1"
    using send_loop_again [of ta 0 peer t 1 _ out e1 RetryPolicy_default tf None] a1 assms(3,4)
    by (simp add: t1_def should_retry_def RetryPolicy_default_def)
  ultimately show ?thesis by (simp add: send_with_retry_def)
qed

theorem default_policy_skips_third_attempt_witness:
  "fst (send_with_retry RetryPolicy_default (\<lambda>i. 1500 * i) (\<lambda>i. 1500 * i + 500) (\<lambda>_. Inl Timeout :: (query_error, unit) result)
     ''b'' (PeerFailureTracker_new RetryPolicy_default)) = (Inl Timeout, 2)"
  by (rule default_policy_skips_third_attempt [where ?e1.0 = Timeout and ?e2.0 = Timeout])
    (simp_all add: PeerFailureTracker_new_def peer_entry_def is_transient_def)

text \<open>
  The cooldown of a peer: once the number of failures in a row reaches the threshold, no
  request is admitted until the cooldown of that number has passed, then one is; a success
  admits the next request at once, and other peers are not affected.
\<close>

theorem cooldown_gates_peer:
  assumes "n = min (ps_consecutive_failures (peer_entry t peer) + 1) (2 ^ 32 - 1)"
    and "peer_cooldown (ft_policy t) n \<noteq> 0"
  shows "let t' = record_failure now peer t
    in (\<forall>later. fst (try_acquire later peer t') =
          (if later < now + peer_cooldown (ft_policy t) n
           then Inl (now + peer_cooldown (ft_policy t) n - later) else Inr (n + 1)))
      \<and> (\<forall>later. fst (try_acquire later peer (record_success peer t')) = Inr 1)
      \<and> (\<forall>i later. i = peer \<or> fst (try_acquire later i t') = fst (try_acquire later i t))"
proof -
  let ?t = "record_failure now peer t"
  have e: "peer_entry ?t peer = \<lparr>ps_consecutive_failures = n, ps_cooldown_until = Some (now + peer_cooldown (ft_policy t) n)\<rparr>"
    using assms by (simp add: record_failure_entry Let_def)
  have "fst (try_acquire later peer ?t) = (if later < now + peer_cooldown (ft_policy t) n
           then Inl (now + peer_cooldown (ft_policy t) n - later) else Inr (n + 1))" for later
    using e by (simp add: try_acquire_def Let_def)
  moreover have "fst (try_acquire later peer (record_success peer ?t)) = Inr 1" for later
    using record_success_entry [of peer ?t] by (simp add: try_acquire_def Let_def)
  moreover have "fst (try_acquire later i ?t) = fst (try_acquire later i t)" if "i \<noteq> peer" for i later
    using that by (simp add: try_acquire_def Let_def record_failure_entry split: option.splits)
  ultimately show ?thesis unfolding Let_def by blast
qed

theorem cooldown_gates_peer_witness:
  "let t' = record_failure 10 ''b'' \<lparr>ft_state = [(''b'', \<lparr>ps_consecutive_failures = 1, ps_cooldown_until = None\<rparr>)], ft_policy = RetryPolicy_default\<rparr>
   in \<forall>later. fst (try_acquire later ''b'' t') = (if later < 5010 then Inl (5010 - later) else Inr 3)"
proof -
  let ?t = "\<lparr>ft_state = [(''b'', \<lparr>ps_consecutive_failures = 1, ps_cooldown_until = None\<rparr>)], ft_policy = RetryPolicy_default\<rparr>"
  have "2 = min (ps_consecutive_failures (peer_entry ?t ''b'') + 1) (2 ^ 32 - 1)" by (simp add: peer_entry_def)
  from cooldown_gates_peer [OF this, of 10] show ?thesis using peer_cooldown_default by (simp add: Let_def)
qed

section \<open>Lemmas: the node\<close>

lemma closest_new [simp]: "closest hx target k (RoutingTable_new i now) = []"
  by (simp add: closest_def all_contacts_def RoutingTable_new_def KBucket_new_def)

lemma find_loop_no_candidates: "lk_candidates lk = [] \<Longrightarrow> find_loop env now net elapsed cfg lk = lk"
  by (subst find_loop.simps) simp

text \<open>
  The query engine a node hands out works on a routing table of its own that starts empty and
  that nothing fills. Whatever peers the node knows, a lookup through it asks nobody and returns
  no peer, and its announcements and values are sent to nobody.
\<close>

theorem node_query_reaches_nobody:
  assumes "n_query n = None" and "n_has_sender n"
  shows "\<exists>q. fst (node_query start n) = Some q \<and>
    snd (find_node env now net elapsed key q) = [] \<and> qr_peers (fst (find_node env now net elapsed key q)) = [] \<and>
    fst (add_provider env st secs key addr q) = [] \<and> fst (put_value env st secs key data ttl q) = []"
  using assms
  by (simp add: node_query_def Let_def find_node_def lookup_init_def find_loop_no_candidates
      add_provider_def put_value_def announce_targets_def)

definition demo_node :: "in_memory_store dht_node" where
  "demo_node = attach_sender True (add_peer demo_env 0 ''b'' (V4 1, 1) (DhtNode_with_id ''a'' 0))"

theorem node_query_reaches_nobody_witness:
  "\<exists>q. fst (node_query 0 demo_node) = Some q \<and> snd (find_node demo_env 0 demo_net (\<lambda>_. 0) [1] q) = []"
  using node_query_reaches_nobody [of demo_node 0 demo_env 0 demo_net "\<lambda>_. 0" "[1]" memory_storage 0 "[]" "[]" 0]
  by (auto simp: demo_node_def attach_sender_def add_peer_def DhtNode_with_id_def DhtNode_new_def DhtNode_with_store_def)

definition wires_of :: "(node_id \<Rightarrow> (query_error, providers_payload) result) \<Rightarrow> contact \<Rightarrow> provider_record_wire list" where
  "wires_of net p = (case net (c_id p) of Inr payload \<Rightarrow> pp_providers payload | Inl _ \<Rightarrow> [])"

lemma ask_peers:
  "fold (ask_peer st secs key net) peers acc = fold (take_provider st secs key) (concat (map (wires_of net) peers)) acc"
proof (induction peers arbitrary: acc)
  case (Cons p peers)
  have "ask_peer st secs key net p acc = fold (take_provider st secs key) (wires_of net p) acc"
    by (simp add: ask_peer_def wires_of_def split: sum.splits)
  with Cons show ?case by simp
qed simp

lemma take_providers_result:
  "fst (fold (take_provider st secs key) ws acc) = fst acc @ map (record_of_wire secs key) ws"
  by (induction ws arbitrary: acc) (simp_all add: take_provider_def Let_def)

lemma take_providers_last:
  assumes "ws \<noteq> []"
  shows "\<exists>old. hm_get (ms_providers (snd (fold (take_provider memory_storage secs key) ws acc))) key =
    Some (old @ [record_of_wire secs key (last ws)])"
proof -
  have "ws = butlast ws @ [last ws]" using assms by simp
  then have "fold (take_provider memory_storage secs key) ws acc =
      take_provider memory_storage secs key (last ws) (fold (take_provider memory_storage secs key) (butlast ws) acc)"
    by (metis comp_apply fold_append fold_simps(1) fold_simps(2))
  then show ?thesis
    by (simp add: take_provider_def memory_storage_def InMemory_put_provider_def Let_def)
qed

lemma find_providers_local:
  "InMemory_get_providers secs key (n_store n) \<noteq> [] \<Longrightarrow>
    fst (find_providers env memory_storage secs net key n) = (InMemory_get_providers secs key (n_store n), [])"
  by (simp add: find_providers_def memory_storage_def)

lemma find_providers_network:
  assumes "InMemory_get_providers secs key (n_store n) = []" and "n_has_sender n"
  shows "fst (find_providers env memory_storage secs net key n) =
      (let peers = take 3 (closest (env_hex_decode env) (node_id_from_key env key) 20 (n_routing_table n))
       in (map (record_of_wire secs key) (concat (map (wires_of net) peers)), map c_id peers))"
    and "n_store (snd (find_providers env memory_storage secs net key n)) =
      snd (fold (take_provider memory_storage secs key)
        (concat (map (wires_of net) (take 3 (closest (env_hex_decode env) (node_id_from_key env key) 20 (n_routing_table n)))))
        ([], n_store n))"
  using assms
  by (simp_all add: find_providers_def memory_storage_def Let_def case_prod_beta ask_peers take_providers_result)

text \<open>
  A search for providers returns what the three nearest known peers report, in their order, and
  stores it with the lifetime the reports state, unbounded and unverified. Until the last of these
  records expires, every later search for that key is answered from the store and asks nobody, so a
  single dishonest peer can keep the node on its record for as long as it likes.
\<close>

theorem reported_provider_shuts_out_network:
  assumes "InMemory_get_providers secs key (n_store n) = []" and "n_has_sender n"
    and "fst (fst (find_providers env memory_storage secs net key n)) = ps" and "ps \<noteq> []"
    and "\<not> unat secs + unat (pr_ttl_secs (last ps)) < unat later"
  shows "\<exists>own. own \<noteq> [] \<and> last own = last ps \<and>
    fst (find_providers env memory_storage later net' key (snd (find_providers env memory_storage secs net key n))) = (own, [])"
proof -
  let ?ws = "concat (map (wires_of net) (take 3 (closest (env_hex_decode env) (node_id_from_key env key) 20 (n_routing_table n))))"
  let ?n = "snd (find_providers env memory_storage secs net key n)"
  have ps: "ps = map (record_of_wire secs key) ?ws"
    using assms(3) find_providers_network(1) [OF assms(1,2), of env net] by (simp add: Let_def)
  with assms(4) have ne: "?ws \<noteq> []" by auto
  from take_providers_last [OF this, of secs key "([], n_store n)"]
  obtain old where "hm_get (ms_providers (n_store ?n)) key = Some (old @ [record_of_wire secs key (last ?ws)])"
    unfolding find_providers_network(2) [OF assms(1,2)] by blast
  moreover have last: "last ps = record_of_wire secs key (last ?ws)" using ne by (simp add: ps last_map)
  then have "\<not> ProviderRecord_is_expired later (record_of_wire secs key (last ?ws))"
    using assms(5) by (simp add: provider_expired_iff record_of_wire_def)
  ultimately have own: "InMemory_get_providers later key (n_store ?n) =
      filter (\<lambda>r. \<not> ProviderRecord_is_expired later r) old @ [record_of_wire secs key (last ?ws)]"
    by (simp add: InMemory_get_providers_def)
  then have "fst (find_providers env memory_storage later net' key ?n) = (InMemory_get_providers later key (n_store ?n), [])"
    by (intro find_providers_local) simp
  then show ?thesis using own last by (intro exI [of _ "InMemory_get_providers later key (n_store ?n)"]) simp
qed

definition demo_reports :: "node_id \<Rightarrow> (query_error, providers_payload) result" where
  "demo_reports i = Inr \<lparr>pp_request_id = [],
     pp_providers = [\<lparr>pw_provider_id = ''x'', pw_addrs = [''evil''], pw_ttl_secs = - 1, pw_signature = None\<rparr>]\<rparr>"

definition demo_connected :: "in_memory_store dht_node" where
  "demo_connected = attach_sender True (node_add_bootstrap_node demo_env 0 ''b'' [] (DhtNode_with_id ''a'' 0))"

lemma demo_connected_search:
  "InMemory_get_providers 5 [1] (n_store demo_connected) = []"
  "n_has_sender demo_connected"
  "fst (fst (find_providers demo_env memory_storage 5 demo_reports [1] demo_connected)) =
    [record_of_wire 5 [1] \<lparr>pw_provider_id = ''x'', pw_addrs = [''evil''], pw_ttl_secs = - 1, pw_signature = None\<rparr>]"
proof -
  show 1: "InMemory_get_providers 5 [1] (n_store demo_connected) = []" and 2: "n_has_sender demo_connected"
    by (simp_all add: demo_connected_def attach_sender_def node_add_bootstrap_node_def DhtNode_with_id_def DhtNode_new_def
        DhtNode_with_store_def InMemory_get_providers_def InMemory_new_def)
  have "take 3 (closest (env_hex_decode demo_env) (node_id_from_key demo_env [1]) 20 (n_routing_table demo_connected)) =
      [(Contact_new ''b'' (V4 1, 1) 0)\<lparr>c_trusted := True\<rparr>]"
    by (simp add: demo_connected_def attach_sender_def node_add_bootstrap_node_def DhtNode_with_id_def DhtNode_new_def
        DhtNode_with_store_def closest_def demo_env_def add_bootstrap_node_def RoutingTable_new_def all_contacts_def
        KBucket_new_def Contact_new_def)
  then show "fst (fst (find_providers demo_env memory_storage 5 demo_reports [1] demo_connected)) =
    [record_of_wire 5 [1] \<lparr>pw_provider_id = ''x'', pw_addrs = [''evil''], pw_ttl_secs = - 1, pw_signature = None\<rparr>]"
    using find_providers_network(1) [OF 1 2, of demo_env demo_reports]
    by (simp add: wires_of_def demo_reports_def)
qed

theorem reported_provider_shuts_out_network_witness:
  "\<exists>own. own \<noteq> [] \<and> pr_provider_addr (last own) = ''evil'' \<and>
    fst (find_providers demo_env memory_storage (- 1) (\<lambda>_. Inl Timeout) [1]
      (snd (find_providers demo_env memory_storage 5 demo_reports [1] demo_connected))) = (own, [])"
  using reported_provider_shuts_out_network [OF demo_connected_search, of "- 1" "\<lambda>_. Inl Timeout"]
  by (auto simp: record_of_wire_def)

section \<open>Lemmas: persistence\<close>

text \<open>The age of a contact survives a restart: it grows by the time the node was down.\<close>

lemma saved_age_survives:
  assumes "age \<le> unat secs" and "secs \<le> secs'" and "age + (unat secs' - unat secs) \<le> inow"
  shows "inow - secs_before inow secs' (sat_sub64 secs (of_nat age)) = age + (unat secs' - unat secs)"
proof -
  have "unat (of_nat age :: u64) = age" using assms(1) unat_bound [of secs] by (intro unat_of_nat_small) simp
  moreover have "unat secs \<le> unat secs'" using assms(2) by (simp add: word_le_nat_alt)
  ultimately have "unat (sat_sub64 secs' (sat_sub64 secs (of_nat age))) = age + (unat secs' - unat secs)"
    using assms(1) by (simp add: unat_sat_sub64)
  with assms(3) show ?thesis by (simp add: secs_before_def Let_def)
qed

lemma insert_known_ok:
  assumes "RoutingTable_inv hx rt" and "RoutingTable_find hx rt (c_id c) \<noteq> None" and "c_id c \<noteq> rt_local_id rt"
  shows "fst (RoutingTable_insert hx c rt) = Inr ()"
  using assms by (auto simp: RoutingTable_insert_eq KBucket_insert_def RoutingTable_find_def split: option.splits)

lemma insert_local_id [simp]: "rt_local_id (snd (RoutingTable_insert hx c rt)) = rt_local_id rt"
  by (simp add: RoutingTable_insert_def case_prod_beta Let_def)

definition loaded_contact :: "instant \<Rightarrow> u64 \<Rightarrow> serializable_contact \<Rightarrow> node_id \<Rightarrow> socket_addr \<Rightarrow> contact" where
  "loaded_contact inow secs sc i addr = (Contact_new i addr inow)\<lparr>c_trusted := sc_trusted sc,
     c_last_contacted := secs_before inow secs (sc_last_contacted sc),
     c_last_seen := secs_before inow secs (sc_last_seen sc)\<rparr>"

lemma load_addrs_known:
  assumes "RoutingTable_inv (env_hex_decode env) rt" and "i \<noteq> rt_local_id rt"
    and "RoutingTable_find (env_hex_decode env) rt i = Some (loaded_contact inow secs sc i a)"
  shows "RoutingTable_find (env_hex_decode env) (fold (load_addr env inow secs sc i) addrs rt) i =
    Some (loaded_contact inow secs sc i (last (a # List.map_filter (env_parse_addr env) addrs)))"
  using assms
proof (induction addrs arbitrary: rt a)
  case (Cons s addrs)
  show ?case
  proof (cases "env_parse_addr env s")
    case None
    then show ?thesis using Cons by (simp add: load_addr_def map_filter_simps)
  next
    case (Some b)
    let ?c = "loaded_contact inow secs sc i b"
    have rt: "load_addr env inow secs sc i s rt = snd (RoutingTable_insert (env_hex_decode env) ?c rt)"
      by (simp add: load_addr_def Some loaded_contact_def)
    have id: "c_id ?c = i" by (simp add: loaded_contact_def Contact_new_def)
    have ok: "fst (RoutingTable_insert (env_hex_decode env) ?c rt) = Inr ()"
      using Cons.prems id by (intro insert_known_ok) simp_all
    have "RoutingTable_find (env_hex_decode env) (load_addr env inow secs sc i s rt) i = Some ?c"
      unfolding rt RoutingTable_find_insert [OF Cons.prems(1) ok] using Cons.prems(3) id
      by (simp add: loaded_contact_def Contact_new_def)
    with Cons.IH [of "load_addr env inow secs sc i s rt" b] Cons.prems show ?thesis
      by (simp add: rt inv_RoutingTable_insert Some map_filter_simps)
  qed
qed (simp add: map_filter_simps)

text \<open>A contact with several addresses is restored with the last one only: every address is
  inserted as a contact of its own, and an insertion replaces the contact of the same identifier.\<close>

lemma load_keeps_last_address:
  assumes "RoutingTable_inv (env_hex_decode env) rt" and "i \<noteq> rt_local_id rt"
    and "NodeId_from_bytes (env_hex_encode env) (sc_node_id sc) = Inr i"
    and "RoutingTable_find (env_hex_decode env) rt i = None"
    and "\<not> KBucket_is_full (bucket_for (env_hex_decode env) rt i)"
    and "sc_addrs sc = s # addrs" and "env_parse_addr env s = Some a"
  shows "RoutingTable_find (env_hex_decode env) (load_contact env inow secs sc rt) i =
    Some (loaded_contact inow secs sc i (last (a # List.map_filter (env_parse_addr env) addrs)))"
proof -
  let ?c = "loaded_contact inow secs sc i a"
  let ?rt = "snd (RoutingTable_insert (env_hex_decode env) ?c rt)"
  have id: "c_id ?c = i" by (simp add: loaded_contact_def Contact_new_def)
  have ok: "fst (RoutingTable_insert (env_hex_decode env) ?c rt) = Inr ()"
    using assms(2,4,5) id by (simp add: RoutingTable_insert_eq KBucket_insert_def RoutingTable_find_def KBucket_is_full_def)
  have "RoutingTable_find (env_hex_decode env) ?rt i = Some ?c"
    unfolding RoutingTable_find_insert [OF assms(1) ok] using assms(4) id by simp
  from load_addrs_known [OF inv_RoutingTable_insert [OF assms(1)] _ this] assms show ?thesis
    by (simp add: load_contact_def load_addr_def loaded_contact_def)
qed

end
