(* ===== verification/Bao_Tree.thy ===== *)
theory Bao_Tree
  imports Prelude
begin

text \<open>
  Verifiable storage (\<^verbatim>\<open>crates/a3net-blobstore/src/bao_tree.rs\<close>): the binary hash tree over
  the chunks of a blob, its Merkle paths and range proofs, and the streaming builder. A
  \<^verbatim>\<open>ContentHash\<close>, kept by the code as lower-case hexadecimal text, is its 32 bytes; BLAKE3,
  which is not part of the repository, is the parameter \<open>H\<close>. Byte offsets and lengths are
  \<open>nat\<close>: a blob in memory is shorter than the range of 64-bit integers. The lazily filled
  cache of the parent levels is the function that fills it. The chunk size is an argument of
  the inner functions and \<open>CHUNK_SIZE\<close> in the outer ones.
\<close>

type_synonym content_hash = bytes
type_synonym hash_fun = "bytes \<Rightarrow> bytes"

definition CHUNK_SIZE :: nat where
  "CHUNK_SIZE = 16 * 1024"

definition combine_hash_pair :: "hash_fun \<Rightarrow> content_hash \<Rightarrow> content_hash \<Rightarrow> content_hash" where
  "combine_hash_pair H a b = H (a @ b)"

record bao_leaf =
  bl_offset :: nat
  bl_data :: bytes
  bl_hash :: content_hash

definition BaoLeaf_new :: "hash_fun \<Rightarrow> nat \<Rightarrow> bytes \<Rightarrow> bao_leaf" where
  "BaoLeaf_new H offset data = \<lparr>bl_offset = offset, bl_data = data, bl_hash = H data\<rparr>"

record bao_tree =
  bt_leaves :: "bao_leaf list"
  bt_root_hash :: content_hash
  bt_total_len :: nat
  bt_height :: nat

text \<open>\<^verbatim>\<open>slice::chunks\<close>.\<close>

function chunks :: "nat \<Rightarrow> 'a list \<Rightarrow> 'a list list" where
  "chunks n xs = (if n = 0 \<or> xs = [] then [] else take n xs # chunks n (drop n xs))"
  by pat_completeness auto
termination
  by (relation "measure (\<lambda>(n, xs). length xs)") (auto simp: length_greater_0_conv)

declare chunks.simps [simp del]

fun build_leaves :: "hash_fun \<Rightarrow> nat \<Rightarrow> bytes list \<Rightarrow> bao_leaf list" where
  "build_leaves H offset [] = []"
| "build_leaves H offset (c # cs) = BaoLeaf_new H offset c # build_leaves H (offset + length c) cs"

fun next_level :: "hash_fun \<Rightarrow> content_hash list \<Rightarrow> content_hash list" where
  "next_level H (a # b # rest) = combine_hash_pair H a b # next_level H rest"
| "next_level H [a] = [a]"
| "next_level H [] = []"

lemma length_next_level: "length (next_level H L) = (length L + 1) div 2"
  by (induction H L rule: next_level.induct) auto

function root_loop :: "hash_fun \<Rightarrow> content_hash list \<Rightarrow> nat \<Rightarrow> content_hash list \<times> nat" where
  "root_loop H level height =
     (if length level > 1 then root_loop H (next_level H level) (height + 1) else (level, height))"
  by pat_completeness auto
termination
  by (relation "measure (\<lambda>(H, level, height). length level)") (auto simp: length_next_level)

declare root_loop.simps [simp del]

definition compute_root_and_height :: "hash_fun \<Rightarrow> bao_leaf list \<Rightarrow> content_hash \<times> nat" where
  "compute_root_and_height H leaves =
     (if leaves = [] then (H [], 0)
      else let (level, height) = root_loop H (map bl_hash leaves) 0;
               root = (case level of h # _ \<Rightarrow> h | [] \<Rightarrow> H [])
           in (root, if length leaves = 1 \<and> height = 0 then 1 else height))"

definition tree_of_leaves :: "hash_fun \<Rightarrow> bao_leaf list \<Rightarrow> nat \<Rightarrow> bao_tree" where
  "tree_of_leaves H leaves total_len = (let (root, height) = compute_root_and_height H leaves
     in \<lparr>bt_leaves = leaves, bt_root_hash = root, bt_total_len = total_len, bt_height = height\<rparr>)"

definition build_with :: "hash_fun \<Rightarrow> nat \<Rightarrow> bytes \<Rightarrow> bao_tree" where
  "build_with H chunk_size content =
     tree_of_leaves H (build_leaves H 0 (chunks chunk_size content))
       (sum_list (map length (chunks chunk_size content)))"

definition BaoTree_build :: "hash_fun \<Rightarrow> bytes \<Rightarrow> bao_tree" where
  "BaoTree_build H content = build_with H CHUNK_SIZE content"

section \<open>Parent levels\<close>

record bao_parents =
  bp_data :: "content_hash list list"
  bp_offsets :: "nat list list"
  bp_lens :: "nat list list"

fun next_offsets :: "nat list \<Rightarrow> nat list" where
  "next_offsets (a # b # rest) = a # next_offsets rest"
| "next_offsets [a] = [a]"
| "next_offsets [] = []"

fun next_lens :: "nat list \<Rightarrow> nat list" where
  "next_lens (a # b # rest) = (a + b) # next_lens rest"
| "next_lens [a] = [a]"
| "next_lens [] = []"

function parents_loop :: "hash_fun \<Rightarrow> content_hash list \<Rightarrow> nat list \<Rightarrow> nat list \<Rightarrow> bao_parents" where
  "parents_loop H level offsets lens =
     (if length level > 1
      then let p = parents_loop H (next_level H level) (next_offsets offsets) (next_lens lens)
           in \<lparr>bp_data = level # bp_data p, bp_offsets = offsets # bp_offsets p, bp_lens = lens # bp_lens p\<rparr>
      else \<lparr>bp_data = [], bp_offsets = [], bp_lens = []\<rparr>)"
  by pat_completeness auto
termination
  by (relation "measure (\<lambda>(H, level, offsets, lens). length level)") (auto simp: length_next_level)

declare parents_loop.simps [simp del]

definition build_parents :: "hash_fun \<Rightarrow> bao_leaf list \<Rightarrow> bao_parents" where
  "build_parents H leaves =
     (if leaves = [] then \<lparr>bp_data = [], bp_offsets = [], bp_lens = []\<rparr>
      else parents_loop H (map bl_hash leaves) (map bl_offset leaves) (map (\<lambda>l. length (bl_data l)) leaves))"

section \<open>Paths and proofs\<close>

datatype bao_tree_error =
    LeafOutOfRange nat nat
  | LeafHashMismatch nat content_hash content_hash
  | RootHashMismatch content_hash content_hash
  | InvalidRange nat nat
  | RangeOutOfBounds nat nat
  | PathRootMismatch content_hash content_hash
  | ProofRootMismatch
  | ProofCountMismatch nat nat

record merkle_sibling =
  ms_level :: nat
  ms_index :: nat
  ms_offset :: nat
  ms_len :: nat
  ms_hash :: content_hash
  ms_is_left :: bool
  ms_is_null :: bool

record merkle_path =
  mp_leaf_index :: nat
  mp_leaf_offset :: nat
  mp_leaf_len :: nat
  mp_siblings :: "merkle_sibling list"

record bao_proof =
  pf_root_hash :: content_hash
  pf_total_len :: nat
  pf_leaves :: "bao_leaf list"
  pf_paths :: "merkle_path list"

definition leaf_indices_for_range :: "bao_tree \<Rightarrow> nat \<Rightarrow> nat \<Rightarrow> nat list" where
  "leaf_indices_for_range t start stop =
     map fst (filter (\<lambda>(i, leaf). bl_offset leaf < stop \<and> bl_offset leaf + length (bl_data leaf) > start)
       (enumerate 0 (bt_leaves t)))"

definition verify_leaf :: "hash_fun \<Rightarrow> bao_tree \<Rightarrow> nat \<Rightarrow> (bao_tree_error, unit) result" where
  "verify_leaf H t index =
     (if index \<ge> length (bt_leaves t) then Inl (LeafOutOfRange index (length (bt_leaves t)))
      else let leaf = bt_leaves t ! index; computed = H (bl_data leaf)
           in if computed \<noteq> bl_hash leaf then Inl (LeafHashMismatch index (bl_hash leaf) computed)
              else Inr ())"

definition verify_tree :: "hash_fun \<Rightarrow> bao_tree \<Rightarrow> (bao_tree_error, unit) result" where
  "verify_tree H t = (let (root, _) = compute_root_and_height H (bt_leaves t)
     in if root \<noteq> bt_root_hash t then Inl (RootHashMismatch (bt_root_hash t) root) else Inr ())"

definition sibling_at :: "hash_fun \<Rightarrow> bao_parents \<Rightarrow> nat \<Rightarrow> nat \<Rightarrow> merkle_sibling" where
  "sibling_at H p level current_index =
     (let sibling_index = (if current_index mod 2 = 0 then current_index + 1 else current_index - 1);
          siblings = bp_data p ! level
      in if sibling_index < length siblings
         then \<lparr>ms_level = level, ms_index = sibling_index, ms_offset = bp_offsets p ! level ! sibling_index,
               ms_len = bp_lens p ! level ! sibling_index, ms_hash = siblings ! sibling_index,
               ms_is_left = (sibling_index mod 2 = 0), ms_is_null = False\<rparr>
         else \<lparr>ms_level = level, ms_index = sibling_index, ms_offset = 0, ms_len = 0, ms_hash = H [],
               ms_is_left = True, ms_is_null = True\<rparr>)"

fun collect_siblings :: "hash_fun \<Rightarrow> bao_parents \<Rightarrow> nat list \<Rightarrow> nat \<Rightarrow> merkle_sibling list" where
  "collect_siblings H p [] i = []"
| "collect_siblings H p (level # levels) i = sibling_at H p level i # collect_siblings H p levels (i div 2)"

definition merkle_path_for_leaf :: "hash_fun \<Rightarrow> bao_tree \<Rightarrow> nat \<Rightarrow> (bao_tree_error, merkle_path) result" where
  "merkle_path_for_leaf H t leaf_index =
     (if leaf_index \<ge> length (bt_leaves t) then Inl (LeafOutOfRange leaf_index (length (bt_leaves t)))
      else let p = build_parents H (bt_leaves t)
           in Inr \<lparr>mp_leaf_index = leaf_index, mp_leaf_offset = bl_offset (bt_leaves t ! leaf_index),
                   mp_leaf_len = length (bl_data (bt_leaves t ! leaf_index)),
                   mp_siblings = collect_siblings H p [0..<length (bp_data p)] leaf_index\<rparr>)"

definition combine_sibling :: "hash_fun \<Rightarrow> content_hash \<Rightarrow> merkle_sibling \<Rightarrow> content_hash" where
  "combine_sibling H current s =
     (if ms_is_null s then current
      else if ms_is_left s then H (ms_hash s @ current) else H (current @ ms_hash s))"

definition compute_root :: "hash_fun \<Rightarrow> merkle_path \<Rightarrow> content_hash \<Rightarrow> content_hash" where
  "compute_root H p leaf_hash = foldl (combine_sibling H) leaf_hash (mp_siblings p)"

definition MerklePath_verify ::
  "hash_fun \<Rightarrow> merkle_path \<Rightarrow> content_hash \<Rightarrow> content_hash \<Rightarrow> (bao_tree_error, unit) result" where
  "MerklePath_verify H p leaf_hash expected_root =
     (let computed = compute_root H p leaf_hash
      in if computed \<noteq> expected_root then Inl (PathRootMismatch computed expected_root) else Inr ())"

definition verify_path :: "hash_fun \<Rightarrow> bao_tree \<Rightarrow> nat \<Rightarrow> content_hash \<Rightarrow> (bao_tree_error, content_hash) result" where
  "verify_path H t leaf_index leaf_hash =
     (case merkle_path_for_leaf H t leaf_index of Inl e \<Rightarrow> Inl e | Inr p \<Rightarrow> Inr (compute_root H p leaf_hash))"

fun collect_proofs :: "hash_fun \<Rightarrow> bao_tree \<Rightarrow> nat list \<Rightarrow> (bao_tree_error, (bao_leaf \<times> merkle_path) list) result" where
  "collect_proofs H t [] = Inr []"
| "collect_proofs H t (i # is) =
     (case merkle_path_for_leaf H t i of
        Inl e \<Rightarrow> Inl e
      | Inr p \<Rightarrow> (case collect_proofs H t is of Inl e \<Rightarrow> Inl e | Inr r \<Rightarrow> Inr ((bt_leaves t ! i, p) # r)))"

definition proof_for_range :: "hash_fun \<Rightarrow> bao_tree \<Rightarrow> nat \<Rightarrow> nat \<Rightarrow> (bao_tree_error, bao_proof) result" where
  "proof_for_range H t start stop =
     (if start \<ge> stop then Inl (InvalidRange start stop)
      else if stop > bt_total_len t then Inl (RangeOutOfBounds stop (bt_total_len t))
      else let indices = leaf_indices_for_range t start stop
           in if indices = []
              then Inr \<lparr>pf_root_hash = bt_root_hash t, pf_total_len = bt_total_len t, pf_leaves = [], pf_paths = []\<rparr>
              else case collect_proofs H t indices of
                     Inl e \<Rightarrow> Inl e
                   | Inr lps \<Rightarrow> Inr \<lparr>pf_root_hash = bt_root_hash t, pf_total_len = bt_total_len t,
                       pf_leaves = map fst lps, pf_paths = map snd lps\<rparr>)"

definition verify_leaf_path ::
  "hash_fun \<Rightarrow> nat \<Rightarrow> bao_leaf \<Rightarrow> merkle_path \<Rightarrow> content_hash \<Rightarrow> (bao_tree_error, unit) result" where
  "verify_leaf_path H index leaf path expected_root =
     (let computed = H (bl_data leaf)
      in if computed \<noteq> bl_hash leaf then Inl (LeafHashMismatch index (bl_hash leaf) computed)
         else MerklePath_verify H path (bl_hash leaf) expected_root)"

definition BaoProof_verify :: "hash_fun \<Rightarrow> bao_proof \<Rightarrow> content_hash \<Rightarrow> (bao_tree_error, unit) result" where
  "BaoProof_verify H pf expected_root =
     (if pf_root_hash pf \<noteq> expected_root then Inl ProofRootMismatch
      else if length (pf_leaves pf) \<noteq> length (pf_paths pf)
      then Inl (ProofCountMismatch (length (pf_leaves pf)) (length (pf_paths pf)))
      else fold_result (\<lambda>(leaf, path) _. verify_leaf_path H 0 leaf path expected_root)
             (zip (pf_leaves pf) (pf_paths pf)) ())"

definition BaoProof_verify_subset ::
  "hash_fun \<Rightarrow> bao_proof \<Rightarrow> nat list \<Rightarrow> content_hash \<Rightarrow> (bao_tree_error, unit) result" where
  "BaoProof_verify_subset H pf indices expected_root =
     fold_result (\<lambda>idx _.
        if idx \<ge> length (pf_leaves pf) then Inl (LeafOutOfRange idx (length (pf_leaves pf)))
        else verify_leaf_path H idx (pf_leaves pf ! idx) (pf_paths pf ! idx) expected_root) indices ()"

section \<open>Streaming builder\<close>

record bao_builder =
  bb_leaves :: "bao_leaf list"
  bb_current_offset :: nat
  bb_chunk_buf :: bytes

definition BaoTreeBuilder_new :: bao_builder where
  "BaoTreeBuilder_new = \<lparr>bb_leaves = [], bb_current_offset = 0, bb_chunk_buf = []\<rparr>"

definition flush_chunk :: "hash_fun \<Rightarrow> bao_builder \<Rightarrow> bao_builder" where
  "flush_chunk H b = \<lparr>bb_leaves = bb_leaves b @ [BaoLeaf_new H (bb_current_offset b) (bb_chunk_buf b)],
     bb_current_offset = bb_current_offset b + length (bb_chunk_buf b), bb_chunk_buf = []\<rparr>"

partial_function (option) write_loop :: "hash_fun \<Rightarrow> nat \<Rightarrow> bao_builder \<Rightarrow> bytes \<Rightarrow> bao_builder option" where
  "write_loop H chunk_size b remaining =
     (if remaining = [] then Some b
      else let space = chunk_size - length (bb_chunk_buf b);
               n = min space (length remaining);
               b1 = b\<lparr>bb_chunk_buf := bb_chunk_buf b @ take n remaining\<rparr>;
               b2 = (if length (bb_chunk_buf b1) = chunk_size then flush_chunk H b1 else b1)
           in write_loop H chunk_size b2 (drop n remaining))"

definition BaoTreeBuilder_write :: "hash_fun \<Rightarrow> bytes \<Rightarrow> bao_builder \<Rightarrow> bao_builder option" where
  "BaoTreeBuilder_write H buf b = write_loop H CHUNK_SIZE b buf"

definition BaoTreeBuilder_finish :: "hash_fun \<Rightarrow> bao_builder \<Rightarrow> bao_tree" where
  "BaoTreeBuilder_finish H b =
     (let b' = (if bb_chunk_buf b \<noteq> [] then flush_chunk H b else b)
      in tree_of_leaves H (bb_leaves b') (bb_current_offset b'))"


section \<open>Leaves cover the content\<close>

lemma chunks_Nil [simp]: "chunks n [] = []"
  by (subst chunks.simps) simp

lemma chunks_Cons: "0 < n \<Longrightarrow> xs \<noteq> [] \<Longrightarrow> chunks n xs = take n xs # chunks n (drop n xs)"
  by (subst chunks.simps) simp

lemma concat_chunks: "0 < n \<Longrightarrow> concat (chunks n xs) = xs"
proof (induction n xs rule: chunks.induct)
  case (1 n xs)
  then show ?case by (cases "xs = []") (simp_all add: chunks_Cons)
qed

lemma chunks_append:
  assumes "0 < n" and "length xs mod n = 0"
  shows "chunks n (xs @ ys) = chunks n xs @ chunks n ys"
  using assms
proof (induction n xs rule: chunks.induct)
  case (1 n xs)
  show ?case
  proof (cases "xs = []")
    case True
    then show ?thesis by simp
  next
    case False
    with 1 have le: "n \<le> length xs" by (metis length_0_conv mod_less not_less)
    with 1 False have "length (drop n xs) mod n = 0" by (simp add: le_mod_geq)
    with 1 False have "chunks n (drop n xs @ ys) = chunks n (drop n xs) @ chunks n ys" by simp
    with False le 1 show ?thesis by (simp add: chunks_Cons)
  qed
qed

lemma map_data_build_leaves [simp]: "map bl_data (build_leaves H k cs) = cs"
  by (induction cs arbitrary: k) (simp_all add: BaoLeaf_new_def)

lemma length_build_leaves [simp]: "length (build_leaves H k cs) = length cs"
  by (metis length_map map_data_build_leaves)

lemma map_hash_build_leaves: "map bl_hash (build_leaves H k cs) = map H cs"
  by (induction cs arbitrary: k) (simp_all add: BaoLeaf_new_def)

lemma build_leaves_append:
  "build_leaves H k (cs @ ds) = build_leaves H k cs @ build_leaves H (k + sum_list (map length cs)) ds"
  by (induction cs arbitrary: k) (simp_all add: add.assoc)

lemma build_leaves_nth:
  "i < length cs \<Longrightarrow> build_leaves H k cs ! i = BaoLeaf_new H (k + sum_list (map length (take i cs))) (cs ! i)"
  by (induction cs arbitrary: i k) (auto simp: nth_Cons' take_Cons' add.assoc)

lemma sum_list_length_concat: "sum_list (map length xss) = length (concat xss)"
  by (induction xss) simp_all

lemma bt_leaves_tree [simp]: "bt_leaves (tree_of_leaves H ls n) = ls"
  by (simp add: tree_of_leaves_def split: prod.splits)

lemma bt_total_tree [simp]: "bt_total_len (tree_of_leaves H ls n) = n"
  by (simp add: tree_of_leaves_def split: prod.splits)

lemma bt_root_tree: "bt_root_hash (tree_of_leaves H ls n) = fst (compute_root_and_height H ls)"
  by (simp add: tree_of_leaves_def split: prod.splits)

section \<open>The root\<close>

text \<open>The root of a non-empty level, as a function of the level.\<close>

function level_root :: "hash_fun \<Rightarrow> content_hash list \<Rightarrow> content_hash" where
  "level_root H L = (if length L > 1 then level_root H (next_level H L) else hd L)"
  by pat_completeness auto
termination
  by (relation "measure (\<lambda>(H, L). length L)") (auto simp: length_next_level)

declare level_root.simps [simp del]

lemma next_level_Nil [simp]: "next_level H L = [] \<longleftrightarrow> L = []"
  by (cases "(H, L)" rule: next_level.cases) auto

lemma root_loop_level: "L \<noteq> [] \<Longrightarrow> fst (root_loop H L k) = [level_root H L]"
proof (induction H L k rule: root_loop.induct)
  case (1 H L k)
  show ?case
  proof (cases "length L > 1")
    case True
    then have "fst (root_loop H (next_level H L) (k + 1)) = [level_root H (next_level H L)]"
      using 1 by simp
    with True show ?thesis by (simp add: root_loop.simps [of H L] level_root.simps [of H L])
  next
    case False
    then have "L = [hd L]" using 1 by (cases L) auto
    with False show ?thesis by (simp add: root_loop.simps [of H L] level_root.simps [of H L])
  qed
qed

lemma compute_root_level:
  "fst (compute_root_and_height H ls) = (if ls = [] then H [] else level_root H (map bl_hash ls))"
proof (cases "ls = []")
  case False
  then have "fst (root_loop H (map bl_hash ls) 0) = [level_root H (map bl_hash ls)]"
    by (intro root_loop_level) simp
  with False show ?thesis by (auto simp: compute_root_and_height_def Let_def split: prod.splits)
qed (simp add: compute_root_and_height_def)

section \<open>Merkle paths lead to the root\<close>

lemma next_level_nth:
  "i < length L \<Longrightarrow> next_level H L ! (i div 2) =
    (if i mod 2 = 0
     then (if i + 1 < length L then combine_hash_pair H (L ! i) (L ! (i + 1)) else L ! i)
     else combine_hash_pair H (L ! (i - 1)) (L ! i))"
proof (induction H L arbitrary: i rule: next_level.induct)
  case (1 H a b rest)
  show ?case
  proof (cases "i < 2")
    case True
    then show ?thesis by (cases i) auto
  next
    case False
    then obtain j where i: "i = Suc (Suc j)" by (metis add_2_eq_Suc le_Suc_ex not_less)
    have "next_level H rest ! (j div 2) =
      (if j mod 2 = 0
       then (if j + 1 < length rest then combine_hash_pair H (rest ! j) (rest ! (j + 1)) else rest ! j)
       else combine_hash_pair H (rest ! (j - 1)) (rest ! j))"
      using 1 i by simp
    moreover have "j mod 2 \<noteq> 0 \<Longrightarrow> (a # b # rest) ! Suc j = rest ! (j - 1)" by (cases j) auto
    ultimately show ?thesis using i by auto
  qed
qed auto

text \<open>The levels the parent state holds, bottom up, without the root.\<close>

function levels_of :: "hash_fun \<Rightarrow> content_hash list \<Rightarrow> content_hash list list" where
  "levels_of H L = (if length L > 1 then L # levels_of H (next_level H L) else [])"
  by pat_completeness auto
termination
  by (relation "measure (\<lambda>(H, L). length L)") (auto simp: length_next_level)

declare levels_of.simps [simp del]

lemma parents_data: "bp_data (parents_loop H L os ls) = levels_of H L"
proof (induction H L os ls rule: parents_loop.induct)
  case (1 H L os ls)
  then show ?case
    by (cases "length L > 1")
      (simp_all add: parents_loop.simps [of H L] levels_of.simps [of H L] Let_def)
qed

definition sibling_core :: "content_hash list \<Rightarrow> nat \<Rightarrow> (bool \<times> content_hash) option" where
  "sibling_core L i =
     (let j = (if i mod 2 = 0 then i + 1 else i - 1)
      in if j < length L then Some (j mod 2 = 0, L ! j) else None)"

definition combine_core :: "hash_fun \<Rightarrow> content_hash \<Rightarrow> (bool \<times> content_hash) option \<Rightarrow> content_hash" where
  "combine_core H c s = (case s of None \<Rightarrow> c | Some (left, h) \<Rightarrow> if left then H (h @ c) else H (c @ h))"

lemma combine_sibling_at:
  "combine_sibling H c (sibling_at H p level i) = combine_core H c (sibling_core (bp_data p ! level) i)"
  by (auto simp: combine_sibling_def sibling_at_def sibling_core_def combine_core_def Let_def)

lemma combine_core_nth:
  "i < length L \<Longrightarrow> combine_core H (L ! i) (sibling_core L i) = next_level H L ! (i div 2)"
  unfolding next_level_nth combine_core_def sibling_core_def Let_def combine_hash_pair_def
  by (cases "i mod 2 = 0") (auto simp: mod_Suc, presburger+)

fun core_path :: "content_hash list list \<Rightarrow> nat \<Rightarrow> (bool \<times> content_hash) option list" where
  "core_path [] i = []"
| "core_path (L # Ls) i = sibling_core L i # core_path Ls (i div 2)"

lemma core_path_root:
  "i < length L \<Longrightarrow> foldl (combine_core H) (L ! i) (core_path (levels_of H L) i) = level_root H L"
proof (induction H L arbitrary: i rule: levels_of.induct)
  case (1 H L)
  show ?case
  proof (cases "length L > 1")
    case True
    have "i div 2 < length (next_level H L)" using "1.prems" by (simp add: length_next_level)
    then have "foldl (combine_core H) (next_level H L ! (i div 2))
        (core_path (levels_of H (next_level H L)) (i div 2)) = level_root H (next_level H L)"
      using "1.IH" True by blast
    then show ?thesis
      using True "1.prems" by (simp add: levels_of.simps [of H L] level_root.simps [of H L] combine_core_nth)
  next
    case False
    with "1.prems" have "i = 0" and "length L = 1" by auto
    with False show ?thesis
      by (cases L) (simp_all add: levels_of.simps [of H] level_root.simps [of H])
  qed
qed

lemma foldl_collect:
  "foldl (combine_sibling H) c (collect_siblings H p [k..<k + length Ls] i) =
    foldl (combine_core H) c (core_path Ls i)"
  if "\<And>j. j < length Ls \<Longrightarrow> bp_data p ! (k + j) = Ls ! j"
  using that
proof (induction Ls arbitrary: k c i)
  case Nil
  then show ?case by simp
next
  case (Cons L Ls)
  have "bp_data p ! k = L" using Cons.prems [of 0] by simp
  moreover have "bp_data p ! (Suc k + j) = Ls ! j" if "j < length Ls" for j
    using Cons.prems [of "Suc j"] that by simp
  ultimately show ?case
    using Cons.IH [of "Suc k"] by (simp add: upt_conv_Cons combine_sibling_at del: upt_Suc)
qed

lemma path_root:
  assumes "merkle_path_for_leaf H t i = Inr p" and "bt_root_hash t = fst (compute_root_and_height H (bt_leaves t))"
  shows "compute_root H p (bl_hash (bt_leaves t ! i)) = bt_root_hash t"
proof -
  let ?L = "map bl_hash (bt_leaves t)" and ?p = "build_parents H (bt_leaves t)"
  have i: "i < length (bt_leaves t)" using assms(1) by (auto simp: merkle_path_for_leaf_def split: if_splits)
  then have ne: "bt_leaves t \<noteq> []" by auto
  have data: "bp_data ?p = levels_of H ?L" using ne by (simp add: build_parents_def parents_data)
  have "mp_siblings p = collect_siblings H ?p [0..<0 + length (levels_of H ?L)] i"
    using assms(1) i by (auto simp: merkle_path_for_leaf_def Let_def data)
  then have "compute_root H p (?L ! i) = foldl (combine_core H) (?L ! i) (core_path (levels_of H ?L) i)"
    using foldl_collect [where Ls = "levels_of H ?L" and p = ?p and k = 0] data
    by (simp add: compute_root_def)
  also have "\<dots> = level_root H ?L" using i by (intro core_path_root) simp
  finally show ?thesis using assms(2) ne i by (simp add: compute_root_level)
qed


section \<open>Range proofs verify and cover the range\<close>

lemma collect_proofs_ok:
  assumes "\<forall>i \<in> set is. i < length (bt_leaves t)"
  shows "\<exists>lps. collect_proofs H t is = Inr lps \<and> map fst lps = map ((!) (bt_leaves t)) is \<and>
    list_all2 (\<lambda>i lp. merkle_path_for_leaf H t i = Inr (snd lp)) is lps"
  using assms
proof (induction "is")
  case Nil
  then show ?case by simp
next
  case (Cons i "is")
  then obtain lps where "collect_proofs H t is = Inr lps" "map fst lps = map ((!) (bt_leaves t)) is"
    "list_all2 (\<lambda>i lp. merkle_path_for_leaf H t i = Inr (snd lp)) is lps" by auto
  moreover obtain p where "merkle_path_for_leaf H t i = Inr p"
    using Cons.prems by (auto simp: merkle_path_for_leaf_def Let_def)
  ultimately show ?case by auto
qed

definition bao_wf :: "hash_fun \<Rightarrow> bao_tree \<Rightarrow> bool" where
  "bao_wf H t = (list_all (\<lambda>l. bl_hash l = H (bl_data l)) (bt_leaves t) \<and>
     bt_root_hash t = fst (compute_root_and_height H (bt_leaves t)))"

lemma bao_wf_build: "bao_wf H (build_with H n content)"
proof -
  have "list_all (\<lambda>l. bl_hash l = H (bl_data l)) (build_leaves H k cs)" for k cs
    by (induction cs arbitrary: k) (simp_all add: BaoLeaf_new_def)
  then show ?thesis by (simp add: bao_wf_def build_with_def bt_root_tree)
qed

lemma verify_leaf_path_ok:
  assumes "bao_wf H t" and "merkle_path_for_leaf H t i = Inr p"
  shows "verify_leaf_path H k (bt_leaves t ! i) p (bt_root_hash t) = Inr ()"
proof -
  have "i < length (bt_leaves t)" using assms(2) by (auto simp: merkle_path_for_leaf_def split: if_splits)
  then have "bl_hash (bt_leaves t ! i) = H (bl_data (bt_leaves t ! i))"
    using assms(1) by (simp add: bao_wf_def list_all_length)
  then show ?thesis
    using path_root [OF assms(2)] assms(1)
    by (simp add: verify_leaf_path_def MerklePath_verify_def Let_def bao_wf_def)
qed

lemma fold_verify_ok:
  assumes "\<forall>(l, p) \<in> set lps. verify_leaf_path H 0 l p r = Inr ()"
  shows "fold_result (\<lambda>(leaf, path) _. verify_leaf_path H 0 leaf path r) lps () = Inr ()"
  using assms by (induction lps) auto

lemma indices_in_range: "i \<in> set (leaf_indices_for_range t a b) \<Longrightarrow> i < length (bt_leaves t)"
  by (auto simp: leaf_indices_for_range_def in_set_enumerate_eq)

lemma proof_for_range_verifies:
  assumes "bao_wf H t" and "proof_for_range H t a b = Inr pf"
  shows "BaoProof_verify H pf (bt_root_hash t) = Inr ()"
proof (cases "leaf_indices_for_range t a b = []")
  case True
  with assms(2) have "pf = \<lparr>pf_root_hash = bt_root_hash t, pf_total_len = bt_total_len t, pf_leaves = [], pf_paths = []\<rparr>"
    by (auto simp: proof_for_range_def split: if_splits)
  then show ?thesis by (simp add: BaoProof_verify_def)
next
  case False
  obtain lps where l: "collect_proofs H t (leaf_indices_for_range t a b) = Inr lps"
    "map fst lps = map ((!) (bt_leaves t)) (leaf_indices_for_range t a b)"
    "list_all2 (\<lambda>i lp. merkle_path_for_leaf H t i = Inr (snd lp)) (leaf_indices_for_range t a b) lps"
    using collect_proofs_ok [of "leaf_indices_for_range t a b" t H] indices_in_range by blast
  have pf: "pf = \<lparr>pf_root_hash = bt_root_hash t, pf_total_len = bt_total_len t,
      pf_leaves = map fst lps, pf_paths = map snd lps\<rparr>"
    using assms(2) False l(1) by (auto simp: proof_for_range_def split: if_splits)
  have "verify_leaf_path H 0 (fst (lps ! j)) (snd (lps ! j)) (bt_root_hash t) = Inr ()" if "j < length lps" for j
  proof -
    let ?i = "leaf_indices_for_range t a b ! j"
    have "fst (lps ! j) = bt_leaves t ! ?i"
      using l(2) that by (metis length_map nth_map)
    moreover have "merkle_path_for_leaf H t ?i = Inr (snd (lps ! j))"
      using l(3) that by (auto simp: list_all2_conv_all_nth)
    ultimately show ?thesis using verify_leaf_path_ok [OF assms(1)] by simp
  qed
  then have "\<forall>(x, y) \<in> set lps. verify_leaf_path H 0 x y (bt_root_hash t) = Inr ()"
    by (auto simp: in_set_conv_nth) (metis fst_conv snd_conv)
  then show ?thesis by (simp add: pf BaoProof_verify_def fold_verify_ok zip_map_fst_snd)
qed

text \<open>The leaves that meet a range, and the bytes they hold.\<close>

definition leaf_meets :: "nat \<Rightarrow> nat \<Rightarrow> bao_leaf \<Rightarrow> bool" where
  "leaf_meets a b l = (bl_offset l < b \<and> bl_offset l + length (bl_data l) > a)"

lemma indices_leaves:
  "map ((!) (bt_leaves t)) (leaf_indices_for_range t a b) = filter (leaf_meets a b) (bt_leaves t)"
proof -
  have "map ((!) (pre @ ls)) (map fst (filter (\<lambda>(i, l). leaf_meets a b l) (enumerate (length pre) ls))) =
      filter (leaf_meets a b) ls" for pre ls
  proof (induction ls arbitrary: pre)
    case (Cons l ls)
    from Cons [of "pre @ [l]"] show ?case by simp
  qed simp
  from this [of "[]" "bt_leaves t"] show ?thesis
    by (simp add: leaf_indices_for_range_def leaf_meets_def)
qed

lemma no_leaf_beyond: "b \<le> k \<Longrightarrow> filter (leaf_meets a b) (build_leaves H k cs) = []"
  by (induction cs arbitrary: k) (simp_all add: leaf_meets_def BaoLeaf_new_def)

lemma selected_bytes:
  "\<exists>u w. concat cs = u @ concat (map bl_data (filter (leaf_meets a b) (build_leaves H k cs))) @ w \<and>
    length u \<le> a - k \<and>
    min b (k + length (concat cs)) \<le> k + length u +
      length (concat (map bl_data (filter (leaf_meets a b) (build_leaves H k cs))))"
proof (induction cs arbitrary: k)
  case Nil
  then show ?case by simp
next
  case (Cons c cs)
  let ?S = "concat (map bl_data (filter (leaf_meets a b) (build_leaves H (k + length c) cs)))"
  obtain u w where ih: "concat cs = u @ ?S @ w" "length u \<le> a - (k + length c)"
    "min b (k + length c + length (concat cs)) \<le> k + length c + length u + length ?S"
    using Cons.IH [of "k + length c"] by auto
  consider "b \<le> k" | "k + length c \<le> a" | "k < b" "a < k + length c" by linarith
  then show ?case
  proof cases
    case 1
    then have none: "filter (leaf_meets a b) (build_leaves H k (c # cs)) = []" by (rule no_leaf_beyond)
    have "concat (c # cs) = [] @ [] @ concat (c # cs)" by simp
    moreover have "min b (k + length (concat (c # cs))) \<le> k" using 1 by simp
    ultimately show ?thesis unfolding none by (metis add.right_neutral concat.simps(1) list.simps(8) list.size(3) zero_le)
  next
    case 2
    then have sel: "concat (map bl_data (filter (leaf_meets a b) (build_leaves H k (c # cs)))) = ?S"
      by (simp add: leaf_meets_def BaoLeaf_new_def)
    have "concat (c # cs) = (c @ u) @ ?S @ w" using ih(1) by simp
    moreover have "length (c @ u) \<le> a - k" using ih(2) 2 by simp
    moreover have "min b (k + length (concat (c # cs))) \<le> k + length (c @ u) + length ?S"
      using ih(3) by (simp add: add.assoc)
    ultimately show ?thesis unfolding sel by blast
  next
    case 3
    then have sel: "concat (map bl_data (filter (leaf_meets a b) (build_leaves H k (c # cs)))) = c @ ?S"
      by (simp add: leaf_meets_def BaoLeaf_new_def)
    have u: "u = []" using ih(2) 3 by simp
    have "concat (c # cs) = [] @ (c @ ?S) @ w" using ih(1) u by simp
    moreover have "min b (k + length (concat (c # cs))) \<le> k + length [] + length (c @ ?S)"
      using ih(3) u by (simp add: add.assoc)
    ultimately show ?thesis unfolding sel by (metis list.size(3) zero_le)
  qed
qed

lemma build_range_bytes:
  assumes "0 < n" and "a < b" and "b \<le> length content"
  shows "\<exists>skip. take (b - a) (drop skip
      (concat (map bl_data (filter (leaf_meets a b) (bt_leaves (build_with H n content)))))) =
    take (b - a) (drop a content)"
proof -
  let ?S = "concat (map bl_data (filter (leaf_meets a b) (build_leaves H 0 (chunks n content))))"
  obtain u w where c: "content = u @ ?S @ w" "length u \<le> a" "b \<le> length u + length ?S"
    using selected_bytes [where cs = "chunks n content" and k = 0 and a = a and b = b and H = H] assms(3)
    by (auto simp: concat_chunks [OF assms(1)])
  have "take (b - a) (drop a content) = take (b - a) (drop (a - length u) (?S @ w))"
    using c(2) by (subst c(1)) simp
  also have "\<dots> = take (b - a) (drop (a - length u) ?S)"
    using c(2,3) assms(2) by simp
  finally show ?thesis by (auto simp: build_with_def)
qed

section \<open>Soundness of paths\<close>

text \<open>
  The strings that are hashed along a path, and the strings hashed to verify some data along
  it. Two verifications collide when one of them hashes a string that the other one does not,
  with the same digest. Every function into 32 bytes has collisions somewhere, so soundness is
  stated with a collision between these few given strings.
\<close>

fun path_inputs :: "hash_fun \<Rightarrow> content_hash \<Rightarrow> merkle_sibling list \<Rightarrow> bytes list" where
  "path_inputs H c [] = []"
| "path_inputs H c (s # ss) =
     (if ms_is_null s then path_inputs H c ss
      else let x = (if ms_is_left s then ms_hash s @ c else c @ ms_hash s) in x # path_inputs H (H x) ss)"

definition hashed_along :: "hash_fun \<Rightarrow> bytes \<Rightarrow> merkle_path \<Rightarrow> bytes list" where
  "hashed_along H d p = d # path_inputs H (H d) (mp_siblings p)"

definition collide :: "hash_fun \<Rightarrow> bytes list \<Rightarrow> bytes list \<Rightarrow> bool" where
  "collide H xs ys = (\<exists>x \<in> set xs. \<exists>y \<in> set ys. x \<noteq> y \<and> H x = H y)"

definition path_shape :: "merkle_sibling list \<Rightarrow> (bool \<times> bool) list" where
  "path_shape ss = map (\<lambda>s. (ms_is_null s, ms_is_left s)) ss"

lemma paths_sound:
  assumes H: "\<And>x. length (H x) = 32"
    and "path_shape ss = path_shape ss'"
    and "\<forall>s \<in> set ss. length (ms_hash s) = 32" and "\<forall>s \<in> set ss'. length (ms_hash s) = 32"
    and "length h = 32" and "length h' = 32"
    and "\<not> collide H (path_inputs H h ss) (path_inputs H h' ss')"
    and "foldl (combine_sibling H) h ss = foldl (combine_sibling H) h' ss'"
  shows "h = h'"
  using assms(2-)
proof (induction ss arbitrary: ss' h h')
  case Nil
  then show ?case by (simp add: path_shape_def)
next
  case (Cons s ss)
  then obtain s' tt where ss': "ss' = s' # tt" by (cases ss') (auto simp: path_shape_def)
  have shape: "path_shape ss = path_shape tt" "ms_is_null s = ms_is_null s'" "ms_is_left s = ms_is_left s'"
    using Cons.prems(1) by (simp_all add: ss' path_shape_def)
  have "combine_sibling H h s = combine_sibling H h' s'"
    by (rule Cons.IH [OF shape(1)])
      (use Cons.prems shape H in \<open>auto simp: ss' combine_sibling_def collide_def Let_def split: if_splits\<close>)
  then show ?case
    using Cons.prems shape(2,3)
    by (auto simp: ss' combine_sibling_def collide_def Let_def split: if_splits)
qed

lemma next_level_lengths:
  "(\<And>x. length (H x) = 32) \<Longrightarrow> \<forall>h \<in> set L. length h = 32 \<Longrightarrow> \<forall>h \<in> set (next_level H L). length h = 32"
  by (induction H L rule: next_level.induct) (auto simp: combine_hash_pair_def)

lemma levels_lengths:
  "(\<And>x. length (H x) = 32) \<Longrightarrow> \<forall>h \<in> set L. length h = 32 \<Longrightarrow> K \<in> set (levels_of H L) \<Longrightarrow> \<forall>h \<in> set K. length h = 32"
proof (induction H L rule: levels_of.induct)
  case (1 H L)
  then show ?case
    using next_level_lengths [of H L] by (cases "length L > 1") (auto simp: levels_of.simps [of H L])
qed

lemma collect_lengths:
  assumes "\<And>x. length (H x) = 32" and "\<forall>K \<in> set (bp_data p). \<forall>h \<in> set K. length h = 32"
    and "set levels \<subseteq> {0..<length (bp_data p)}" and "s \<in> set (collect_siblings H p levels i)"
  shows "length (ms_hash s) = 32"
  using assms(3,4)
proof (induction levels arbitrary: i)
  case (Cons l levels)
  then have "bp_data p ! l \<in> set (bp_data p)" by simp
  then have "length (ms_hash (sibling_at H p l i)) = 32"
    using assms(1,2) by (auto simp: sibling_at_def Let_def)
  with Cons show ?case by auto
qed simp

lemma genuine_path_lengths:
  assumes "\<And>x. length (H x) = 32" and "bao_wf H t" and "merkle_path_for_leaf H t i = Inr p"
  shows "\<forall>s \<in> set (mp_siblings p). length (ms_hash s) = 32"
proof -
  have i: "i < length (bt_leaves t)" using assms(3) by (auto simp: merkle_path_for_leaf_def split: if_splits)
  then have data: "bp_data (build_parents H (bt_leaves t)) = levels_of H (map bl_hash (bt_leaves t))"
    by (auto simp: build_parents_def parents_data)
  have leaves: "\<forall>h \<in> set (map bl_hash (bt_leaves t)). length h = 32"
    using assms(1,2) by (auto simp: bao_wf_def list_all_iff)
  have "\<forall>K \<in> set (bp_data (build_parents H (bt_leaves t))). \<forall>h \<in> set K. length h = 32"
    unfolding data using levels_lengths [of H "map bl_hash (bt_leaves t)"] assms(1) leaves by blast
  moreover have "mp_siblings p = collect_siblings H (build_parents H (bt_leaves t))
      [0..<length (bp_data (build_parents H (bt_leaves t)))] i"
    using assms(3) i by (auto simp: merkle_path_for_leaf_def Let_def)
  ultimately show ?thesis
    using assms(1) collect_lengths [of H "build_parents H (bt_leaves t)"
      "[0..<length (bp_data (build_parents H (bt_leaves t)))]" _ i] by simp
qed

text \<open>The root of a level of at least two hashes is the hash of two hashes.\<close>

lemma level_root_pair:
  assumes "\<And>x. length (H x) = 32" and "1 < length L" and "\<forall>h \<in> set L. length h = 32"
  shows "\<exists>a b. length a = 32 \<and> length b = 32 \<and> level_root H L = H (a @ b)"
  using assms(2,3)
proof (induction L rule: measure_induct_rule [where f = length])
  case (less L)
  let ?N = "next_level H L"
  have root: "level_root H L = level_root H ?N" using less.prems by (simp add: level_root.simps [of H L])
  show ?case
  proof (cases "1 < length ?N")
    case True
    have "length ?N < length L" using less.prems by (simp add: length_next_level)
    with less.IH [of ?N] True root show ?thesis
      using next_level_lengths [OF assms(1) less.prems(2)] by simp
  next
    case False
    then have "length L = 2" using less.prems by (simp add: length_next_level)
    then obtain a b where "L = [a, b]" by (auto simp: length_Suc_conv numeral_2_eq_2)
    with less.prems(2) show ?thesis
      by (auto simp: root level_root.simps [of H] combine_hash_pair_def)
  qed
qed


section \<open>The streaming builder\<close>

definition builder_inv :: "hash_fun \<Rightarrow> nat \<Rightarrow> bytes \<Rightarrow> bao_builder \<Rightarrow> bool" where
  "builder_inv H n xs b = (\<exists>ds. bb_leaves b = build_leaves H 0 ds \<and> (\<forall>d \<in> set ds. length d = n) \<and>
     concat ds @ bb_chunk_buf b = xs \<and> length (bb_chunk_buf b) < n \<and>
     bb_current_offset b = length (concat ds))"

lemma chunks_full:
  "0 < n \<Longrightarrow> \<forall>d \<in> set ds. length d = n \<Longrightarrow> chunks n (concat ds @ xs) = ds @ chunks n xs"
  by (induction ds) (auto simp: chunks_Cons)

lemma chunks_short:
  assumes "xs \<noteq> []" and "length xs \<le> n"
  shows "chunks n xs = [xs]"
proof -
  have "0 < n" using assms by (cases xs) auto
  then have "chunks n xs = take n xs # chunks n (drop n xs)" using assms(1) by (rule chunks_Cons)
  then show ?thesis using assms(2) by simp
qed

lemma builder_inv_new: "0 < n \<Longrightarrow> builder_inv H n [] BaoTreeBuilder_new"
  by (auto simp: builder_inv_def BaoTreeBuilder_new_def intro!: exI [of _ "[]"])

lemma builder_step:
  assumes "builder_inv H n xs b" and "r \<noteq> []"
  defines "k \<equiv> min (n - length (bb_chunk_buf b)) (length r)"
  defines "b1 \<equiv> b\<lparr>bb_chunk_buf := bb_chunk_buf b @ take k r\<rparr>"
  shows "0 < k" and "builder_inv H n (xs @ take k r) (if length (bb_chunk_buf b1) = n then flush_chunk H b1 else b1)"
proof -
  obtain ds where d: "bb_leaves b = build_leaves H 0 ds" "\<forall>d \<in> set ds. length d = n"
    "concat ds @ bb_chunk_buf b = xs" "length (bb_chunk_buf b) < n" "bb_current_offset b = length (concat ds)"
    using assms(1) by (auto simp: builder_inv_def)
  show "0 < k" using d(4) assms(2) by (simp add: k_def)
  show "builder_inv H n (xs @ take k r) (if length (bb_chunk_buf b1) = n then flush_chunk H b1 else b1)"
  proof (cases "length (bb_chunk_buf b1) = n")
    case True
    have "bb_leaves (flush_chunk H b1) = build_leaves H 0 (ds @ [bb_chunk_buf b1])"
      using d(1,5) by (simp add: flush_chunk_def b1_def build_leaves_append sum_list_length_concat)
    moreover have "concat (ds @ [bb_chunk_buf b1]) @ bb_chunk_buf (flush_chunk H b1) = xs @ take k r"
      using d(3) by (auto simp: flush_chunk_def b1_def)
    moreover have "bb_current_offset (flush_chunk H b1) = length (concat (ds @ [bb_chunk_buf b1]))"
      using d(5) by (simp add: flush_chunk_def b1_def)
    moreover have "length (bb_chunk_buf (flush_chunk H b1)) < n" using d(4) by (simp add: flush_chunk_def)
    ultimately have "builder_inv H n (xs @ take k r) (flush_chunk H b1)"
      unfolding builder_inv_def using True d(2) by (intro exI [of _ "ds @ [bb_chunk_buf b1]"]) auto
    with True show ?thesis by simp
  next
    case False
    have "length (bb_chunk_buf b1) \<le> n" using d(4) by (simp add: b1_def k_def)
    with False have "builder_inv H n (xs @ take k r) b1"
      unfolding builder_inv_def using d by (intro exI [of _ ds]) (auto simp: b1_def)
    with False show ?thesis by simp
  qed
qed

lemma write_loop_inv:
  assumes "builder_inv H n xs b"
  shows "\<exists>b'. write_loop H n b r = Some b' \<and> builder_inv H n (xs @ r) b'"
  using assms
proof (induction r arbitrary: xs b rule: measure_induct_rule [where f = length])
  case (less r)
  show ?case
  proof (cases "r = []")
    case True
    then show ?thesis using less.prems by (simp add: write_loop.simps)
  next
    case False
    let ?k = "min (n - length (bb_chunk_buf b)) (length r)"
    let ?b1 = "b\<lparr>bb_chunk_buf := bb_chunk_buf b @ take ?k r\<rparr>"
    let ?b2 = "if length (bb_chunk_buf ?b1) = n then flush_chunk H ?b1 else ?b1"
    note step = builder_step [OF less.prems False]
    have "length (drop ?k r) < length r" using step(1) False by simp
    from less.IH [OF this step(2)] obtain b' where
      "write_loop H n ?b2 (drop ?k r) = Some b'" and "builder_inv H n (xs @ r) b'" by auto
    with False show ?thesis by (subst write_loop.simps) (simp add: Let_def)
  qed
qed

lemma finish_build:
  assumes "builder_inv H n xs b"
  shows "BaoTreeBuilder_finish H b = build_with H n xs"
proof -
  obtain ds where d: "bb_leaves b = build_leaves H 0 ds" "\<forall>d \<in> set ds. length d = n"
    "concat ds @ bb_chunk_buf b = xs" "length (bb_chunk_buf b) < n" "bb_current_offset b = length (concat ds)"
    using assms by (auto simp: builder_inv_def)
  have n: "0 < n" using d(4) by simp
  show ?thesis
  proof (cases "bb_chunk_buf b = []")
    case True
    then have "chunks n xs = ds" using chunks_full [OF n d(2), of "[]"] d(3) by simp
    with True d show ?thesis
      by (simp add: BaoTreeBuilder_finish_def build_with_def sum_list_length_concat)
  next
    case False
    then have "chunks n xs = ds @ [bb_chunk_buf b]"
      using chunks_full [OF n d(2), of "bb_chunk_buf b"] chunks_short [of "bb_chunk_buf b" n] d(3,4) by simp
    with False d show ?thesis
      by (simp add: BaoTreeBuilder_finish_def build_with_def sum_list_length_concat flush_chunk_def
          build_leaves_append)
  qed
qed


section \<open>Properties\<close>

text \<open>
  A toy hash for the examples: the first 32 bytes, padded with zeros. It has the length of
  BLAKE3 digests, and nothing else of a hash function is needed there.
\<close>

definition demo_hash :: hash_fun where
  "demo_hash bs = take 32 (bs @ replicate 32 0)"

lemma length_demo_hash [simp]: "length (demo_hash x) = 32"
  by (simp add: demo_hash_def)

text \<open>
  C1. Range proofs are complete: for every blob and every range inside it the tree produces a
  proof, the proof verifies against the tree's root hash, and the bytes of its leaves contain
  the requested bytes as a contiguous piece.
\<close>

theorem range_proof_complete:
  assumes "a < b" and "b \<le> length content"
  shows "\<exists>pf skip. proof_for_range H (BaoTree_build H content) a b = Inr pf \<and>
    BaoProof_verify H pf (bt_root_hash (BaoTree_build H content)) = Inr () \<and>
    take (b - a) (drop skip (concat (map bl_data (pf_leaves pf)))) = take (b - a) (drop a content)"
proof -
  let ?t = "BaoTree_build H content" and ?is = "leaf_indices_for_range (BaoTree_build H content) a b"
  have cs: "0 < CHUNK_SIZE" by (simp add: CHUNK_SIZE_def)
  have tot: "bt_total_len ?t = length content"
    by (simp add: BaoTree_build_def build_with_def sum_list_length_concat concat_chunks [OF cs])
  obtain lps where l: "collect_proofs H ?t ?is = Inr lps" "map fst lps = map ((!) (bt_leaves ?t)) ?is"
    using collect_proofs_ok [of ?is ?t H] indices_in_range by blast
  then have "\<exists>pf. proof_for_range H ?t a b = Inr pf \<and> pf_leaves pf = map ((!) (bt_leaves ?t)) ?is"
    using assms tot by (auto simp: proof_for_range_def Let_def)
  then obtain pf where pf: "proof_for_range H ?t a b = Inr pf"
    "pf_leaves pf = filter (leaf_meets a b) (bt_leaves ?t)" by (auto simp: indices_leaves)
  obtain skip where "take (b - a) (drop skip (concat (map bl_data (pf_leaves pf)))) = take (b - a) (drop a content)"
    using build_range_bytes [OF cs assms, of H] by (auto simp: pf(2) BaoTree_build_def)
  moreover have "BaoProof_verify H pf (bt_root_hash ?t) = Inr ()"
    using proof_for_range_verifies [OF _ pf(1)] bao_wf_build by (simp add: BaoTree_build_def)
  ultimately show ?thesis using pf(1) by blast
qed

theorem range_proof_complete_witness:
  "\<exists>pf skip. proof_for_range demo_hash (BaoTree_build demo_hash (replicate 40000 7)) 100 20000 = Inr pf \<and>
    BaoProof_verify demo_hash pf (bt_root_hash (BaoTree_build demo_hash (replicate 40000 7))) = Inr () \<and>
    take (20000 - 100) (drop skip (concat (map bl_data (pf_leaves pf)))) =
      take (20000 - 100) (drop 100 (replicate 40000 7))"
  by (rule range_proof_complete) simp_all

text \<open>
  C7. A Merkle path of the genuine shape is sound: if some data and some sibling hashes verify
  against the root of a built tree along a path with the left/right and null marks of leaf
  \<open>i\<close>, then the data is that of leaf \<open>i\<close>, or one of the strings hashed by this verification
  collides with one of the strings hashed along the genuine path.
\<close>

theorem merkle_path_sound:
  assumes "\<forall>x. length (H x) = 32"
    and "merkle_path_for_leaf H (BaoTree_build H content) i = Inr genuine"
    and "path_shape (mp_siblings path) = path_shape (mp_siblings genuine)"
    and "\<forall>s \<in> set (mp_siblings path). length (ms_hash s) = 32"
    and "verify_leaf_path H k leaf path (bt_root_hash (BaoTree_build H content)) = Inr ()"
  shows "bl_data leaf = bl_data (bt_leaves (BaoTree_build H content) ! i) \<or>
    collide H (hashed_along H (bl_data leaf) path)
      (hashed_along H (bl_data (bt_leaves (BaoTree_build H content) ! i)) genuine)"
proof (rule disjCI)
  assume no: "\<not> collide H (hashed_along H (bl_data leaf) path)
      (hashed_along H (bl_data (bt_leaves (BaoTree_build H content) ! i)) genuine)"
  let ?t = "BaoTree_build H content"
  have H: "\<And>x. length (H x) = 32" using assms(1) by blast
  have wf: "bao_wf H ?t" by (simp add: BaoTree_build_def bao_wf_build)
  have i: "i < length (bt_leaves ?t)" using assms(2) by (auto simp: merkle_path_for_leaf_def split: if_splits)
  let ?g = "bt_leaves ?t ! i"
  have g: "bl_hash ?g = H (bl_data ?g)" using wf i by (simp add: bao_wf_def list_all_length)
  have leaf: "bl_hash leaf = H (bl_data leaf)" "compute_root H path (bl_hash leaf) = bt_root_hash ?t"
    using assms(5) by (auto simp: verify_leaf_path_def MerklePath_verify_def Let_def split: if_splits)
  have "compute_root H path (bl_hash leaf) = compute_root H genuine (bl_hash ?g)"
    using leaf(2) path_root [OF assms(2)] wf by (simp add: bao_wf_def)
  then have "bl_hash leaf = bl_hash ?g"
    using paths_sound [of H "mp_siblings path" "mp_siblings genuine" "bl_hash leaf" "bl_hash ?g"] H no assms(3,4)
      genuine_path_lengths [OF H wf assms(2)] leaf(1) g
    by (auto simp: compute_root_def hashed_along_def collide_def)
  then show "bl_data leaf = bl_data ?g"
    using no leaf(1) g by (auto simp: hashed_along_def collide_def)
qed

theorem merkle_path_sound_witness:
  "\<exists>g. merkle_path_for_leaf demo_hash (BaoTree_build demo_hash [1, 2, 3]) 0 = Inr g \<and>
    (bl_data (BaoLeaf_new demo_hash 0 [1, 2, 3]) = bl_data (bt_leaves (BaoTree_build demo_hash [1, 2, 3]) ! 0) \<or>
     collide demo_hash (hashed_along demo_hash (bl_data (BaoLeaf_new demo_hash 0 [1, 2, 3])) g)
       (hashed_along demo_hash (bl_data (bt_leaves (BaoTree_build demo_hash [1, 2, 3]) ! 0)) g))"
proof -
  have ch: "chunks CHUNK_SIZE [1, 2, 3 :: u8] = [[1, 2, 3]]"
    by (rule chunks_short) (simp_all add: CHUNK_SIZE_def)
  have t: "bt_leaves (BaoTree_build demo_hash [1, 2, 3]) = [BaoLeaf_new demo_hash 0 [1, 2, 3]]"
    by (simp add: BaoTree_build_def build_with_def ch)
  have wf: "bao_wf demo_hash (BaoTree_build demo_hash [1, 2, 3])"
    by (simp add: BaoTree_build_def bao_wf_build)
  obtain g where g: "merkle_path_for_leaf demo_hash (BaoTree_build demo_hash [1, 2, 3]) 0 = Inr g"
    by (auto simp: merkle_path_for_leaf_def t Let_def)
  have "verify_leaf_path demo_hash 0 (BaoLeaf_new demo_hash 0 [1, 2, 3]) g
      (bt_root_hash (BaoTree_build demo_hash [1, 2, 3])) = Inr ()"
    using verify_leaf_path_ok [OF wf g, of 0] by (simp add: t)
  moreover have "\<forall>s \<in> set (mp_siblings g). length (ms_hash s) = 32"
    by (rule genuine_path_lengths [OF length_demo_hash wf g])
  ultimately show ?thesis
    using merkle_path_sound [OF _ g refl, of 0 "BaoLeaf_new demo_hash 0 [1, 2, 3]"] g by auto
qed

text \<open>
  Leaves and inner nodes are hashed the same way, so the shape of a path matters: for every
  blob of at least two chunks there are 64 bytes, the two hashes below the root, that verify
  as a one-chunk proof with an empty path against the blob's root hash.
\<close>

theorem inner_node_passes_as_leaf:
  assumes "\<forall>x. length (H x) = 32" and "1 < length (bt_leaves (BaoTree_build H content))"
  shows "\<exists>d. length d = 64 \<and>
    BaoProof_verify H \<lparr>pf_root_hash = bt_root_hash (BaoTree_build H content), pf_total_len = 64,
       pf_leaves = [BaoLeaf_new H 0 d],
       pf_paths = [\<lparr>mp_leaf_index = 0, mp_leaf_offset = 0, mp_leaf_len = 64, mp_siblings = []\<rparr>]\<rparr>
      (bt_root_hash (BaoTree_build H content)) = Inr ()"
proof -
  let ?t = "BaoTree_build H content" and ?L = "map bl_hash (bt_leaves (BaoTree_build H content))"
  have wf: "bao_wf H ?t" by (simp add: BaoTree_build_def bao_wf_build)
  have "\<forall>h \<in> set ?L. length h = 32" using wf assms(1) by (auto simp: bao_wf_def list_all_iff)
  then obtain a b where ab: "length a = 32" "length b = 32" "level_root H ?L = H (a @ b)"
    using level_root_pair [of H ?L] assms by auto
  have "bt_leaves ?t \<noteq> []" using assms(2) by auto
  then have "bt_root_hash ?t = H (a @ b)" using wf ab(3) by (simp add: bao_wf_def compute_root_level)
  with ab(1,2) show ?thesis
    by (intro exI [of _ "a @ b"])
      (simp add: BaoProof_verify_def verify_leaf_path_def MerklePath_verify_def compute_root_def BaoLeaf_new_def)
qed

theorem inner_node_passes_as_leaf_witness:
  "\<exists>d. length d = 64 \<and>
    BaoProof_verify demo_hash \<lparr>pf_root_hash = bt_root_hash (BaoTree_build demo_hash (replicate 20000 7)),
       pf_total_len = 64, pf_leaves = [BaoLeaf_new demo_hash 0 d],
       pf_paths = [\<lparr>mp_leaf_index = 0, mp_leaf_offset = 0, mp_leaf_len = 64, mp_siblings = []\<rparr>]\<rparr>
      (bt_root_hash (BaoTree_build demo_hash (replicate 20000 7))) = Inr ()"
proof (rule inner_node_passes_as_leaf)
  have "chunks CHUNK_SIZE (replicate 20000 (7 :: u8)) =
      take CHUNK_SIZE (replicate 20000 7) # chunks CHUNK_SIZE (drop CHUNK_SIZE (replicate 20000 7))"
    by (rule chunks_Cons) (simp_all add: CHUNK_SIZE_def)
  moreover have "chunks CHUNK_SIZE (drop CHUNK_SIZE (replicate 20000 (7 :: u8))) \<noteq> []"
    by (subst chunks_Cons) (simp_all add: CHUNK_SIZE_def)
  ultimately show "1 < length (bt_leaves (BaoTree_build demo_hash (replicate 20000 7)))"
    by (cases "chunks CHUNK_SIZE (drop CHUNK_SIZE (replicate 20000 (7 :: u8)))")
      (simp_all add: BaoTree_build_def build_with_def)
qed simp

text \<open>
  The position of a chunk is not authenticated: changing the offset a leaf claims, or the
  index, offset and length its path claims, does not change the result of the verification.
\<close>

theorem proof_position_unauthenticated:
  "verify_leaf_path H k (leaf\<lparr>bl_offset := o'\<rparr>)
      (path\<lparr>mp_leaf_index := i', mp_leaf_offset := o', mp_leaf_len := n'\<rparr>) root =
    verify_leaf_path H k leaf path root"
  by (simp add: verify_leaf_path_def MerklePath_verify_def compute_root_def Let_def)

text \<open>Feeding a builder a sequence of pieces.\<close>

fun write_all :: "hash_fun \<Rightarrow> bytes list \<Rightarrow> bao_builder \<Rightarrow> bao_builder option" where
  "write_all H [] b = Some b"
| "write_all H (p # ps) b = (case BaoTreeBuilder_write H p b of None \<Rightarrow> None | Some b' \<Rightarrow> write_all H ps b')"

lemma write_all_inv:
  "builder_inv H CHUNK_SIZE xs b \<Longrightarrow> \<exists>b'. write_all H ps b = Some b' \<and> builder_inv H CHUNK_SIZE (xs @ concat ps) b'"
proof (induction ps arbitrary: xs b)
  case Nil
  then show ?case by simp
next
  case (Cons p ps)
  obtain b1 where b1: "write_loop H CHUNK_SIZE b p = Some b1" "builder_inv H CHUNK_SIZE (xs @ p) b1"
    using write_loop_inv [OF Cons.prems] by blast
  from Cons.IH [OF b1(2)] b1(1) show ?case by (auto simp: BaoTreeBuilder_write_def)
qed

text \<open>
  C32. The streaming builder computes the tree of the whole content: feeding the pieces of a blob
  in any division always returns, and finishing gives exactly the tree that is built from the
  concatenated pieces at once.
\<close>

theorem streaming_builder_equals_build:
  "map_option (BaoTreeBuilder_finish H) (write_all H pieces BaoTreeBuilder_new) =
    Some (BaoTree_build H (concat pieces))"
proof -
  have "builder_inv H CHUNK_SIZE [] BaoTreeBuilder_new"
    by (rule builder_inv_new) (simp add: CHUNK_SIZE_def)
  from write_all_inv [OF this] obtain b where "write_all H pieces BaoTreeBuilder_new = Some b"
    and "builder_inv H CHUNK_SIZE (concat pieces) b" by auto
  then show ?thesis by (simp add: finish_build BaoTree_build_def)
qed

end
