(* ===== verification/Hamt.thy ===== *)
theory Hamt
  imports Prelude Bao_Tree "HOL-Library.Char_ord" "HOL-Library.List_Lexorder"
begin

text \<open>
  Sharded directories, \<^verbatim>\<open>crates/a3net-blobstore/src/hamt/\<close>: the bit windows of a hash, a
  node (a 256 bit field and the packed vector of its children), the shard of named entries, the
  shard manager, the batch builder, the bulk importers and the iterators.

  The state of the code is kept: a node is its bit field, its packed links and its size estimate;
  sizes and counters are 64 bit words that wrap as in a release build. \<open>H\<close> stands for BLAKE3 on
  the bytes of a name. \<^verbatim>\<open>Vec::remove\<close> and \<^verbatim>\<open>Vec::insert\<close> panic out of range, and a node
  read from bytes may be inconsistent: an operation that can panic returns an \<open>option\<close>, \<open>None\<close>
  being the panic. The lemmas: bit field and links implement a table indexed by one byte; the
  shard implements a map from names to queues of entries and never panics from \<^verbatim>\<open>new\<close>; its
  counter is exact and its capacity bounded; the iterator leaves entries out.
\<close>

unbundle bit_operations_syntax

section \<open>Constants and errors\<close>

definition DEFAULT_FANOUT_BITS :: u8 where
  "DEFAULT_FANOUT_BITS = 8"

definition DEFAULT_FANOUT :: nat where
  "DEFAULT_FANOUT = 256"

definition MAX_BUCKET_SIZE :: nat where
  "MAX_BUCKET_SIZE = 256"

definition DEFAULT_SHARDING_THRESHOLD :: u64 where
  "DEFAULT_SHARDING_THRESHOLD = 256 * 1024"

datatype hamt_error =
    HamtNotFound string
  | MaxDepthExceeded string
  | InvalidStructure string
  | HamtSerialization string
  | HamtIo
  | BucketOverflow nat nat

section \<open>Bit windows of a hash\<close>

fun window_bytes :: "bytes \<Rightarrow> nat \<Rightarrow> nat \<Rightarrow> u32 \<Rightarrow> u32" where
  "window_bytes hash p 0 v = v"
| "window_bytes hash p (Suc n) v =
     window_bytes hash (Suc p) n (if p < 32 then push_bit 8 v OR ucast (hash ! p) else v)"

definition extract_bits :: "bytes \<Rightarrow> u8 \<Rightarrow> u8 \<Rightarrow> nat" where
  "extract_bits hash position bits =
     (let byte_pos = unat (position div 8);
          bit_offset = position mod 8;
          bytes_needed = unat ((bit_offset + bits + 7) div 8);
          val = window_bytes hash byte_pos bytes_needed 0;
          shift = (if bit_offset > 0 then 8 - bit_offset - (bits - 1) else 0);
          aligned = (if shift > 0 \<and> shift < 8 then drop_bit (unat shift) val else val);
          msk = push_bit (unat bits mod 32) 1 - 1
      in unat (aligned AND msk))"

section \<open>Entries and links\<close>

datatype hamt_entry =
    HFile content_hash u64
  | HDirectory content_hash u64

fun is_dir :: "hamt_entry \<Rightarrow> bool" where
  "is_dir (HDirectory _ _) = True"
| "is_dir (HFile _ _) = False"

fun is_file :: "hamt_entry \<Rightarrow> bool" where
  "is_file (HFile _ _) = True"
| "is_file (HDirectory _ _) = False"

fun entry_content_hash :: "hamt_entry \<Rightarrow> content_hash option" where
  "entry_content_hash (HFile h _) = Some h"
| "entry_content_hash (HDirectory h _) = Some h"

fun size_or_count :: "hamt_entry \<Rightarrow> u64" where
  "size_or_count (HFile _ n) = n"
| "size_or_count (HDirectory _ n) = n"

fun estimate_entry_size :: "hamt_entry \<Rightarrow> u64" where
  "estimate_entry_size (HFile _ n) = 32 + 8 + n"
| "estimate_entry_size (HDirectory _ n) = 32 + 8 + n * 8"

datatype hamt_link =
    LShard content_hash
  | LBucket "(string \<times> hamt_entry) list"

definition link_bucket :: "string \<Rightarrow> hamt_entry \<Rightarrow> hamt_link" where
  "link_bucket nm e = LBucket [(nm, e)]"

fun is_shard :: "hamt_link \<Rightarrow> bool" where
  "is_shard (LShard _) = True"
| "is_shard (LBucket _) = False"

fun is_bucket :: "hamt_link \<Rightarrow> bool" where
  "is_bucket (LBucket _) = True"
| "is_bucket (LShard _) = False"

fun as_shard_hash :: "hamt_link \<Rightarrow> content_hash option" where
  "as_shard_hash (LShard h) = Some h"
| "as_shard_hash (LBucket _) = None"

fun as_bucket_entries :: "hamt_link \<Rightarrow> (string \<times> hamt_entry) list option" where
  "as_bucket_entries (LBucket es) = Some es"
| "as_bucket_entries (LShard _) = None"

fun bucket_push :: "string \<Rightarrow> hamt_entry \<Rightarrow> hamt_link \<Rightarrow> (hamt_error, unit) result \<times> hamt_link" where
  "bucket_push nm e (LBucket es) =
     (if length es \<ge> MAX_BUCKET_SIZE then (Inl (BucketOverflow (length es + 1) MAX_BUCKET_SIZE), LBucket es)
      else (Inr (), LBucket (es @ [(nm, e)])))"
| "bucket_push nm e (LShard h) = (Inl (InvalidStructure ''cannot push to shard link''), LShard h)"

section \<open>Nodes\<close>

record hamt_node =
  nd_bitfield :: bytes
  nd_links :: "hamt_link list"
  nd_estimated_size :: u64

definition HamtNode_new :: hamt_node where
  "HamtNode_new = \<lparr>nd_bitfield = replicate (DEFAULT_FANOUT div 8) 0, nd_links = [], nd_estimated_size = 0\<rparr>"

definition count_ones :: "u8 \<Rightarrow> nat" where
  "count_ones b = length (filter (bit b) [0..<8])"

definition child_count :: "hamt_node \<Rightarrow> nat" where
  "child_count nd = sum_list (map count_ones (nd_bitfield nd))"

definition has_slot :: "hamt_node \<Rightarrow> nat \<Rightarrow> bool" where
  "has_slot nd i = (i div 8 < length (nd_bitfield nd) \<and> nd_bitfield nd ! (i div 8) AND push_bit (i mod 8) 1 \<noteq> 0)"

definition set_slot :: "nat \<Rightarrow> hamt_node \<Rightarrow> hamt_node" where
  "set_slot i nd =
     (if i div 8 < length (nd_bitfield nd)
      then nd\<lparr>nd_bitfield := (nd_bitfield nd)[i div 8 := nd_bitfield nd ! (i div 8) OR push_bit (i mod 8) 1]\<rparr>
      else nd)"

definition clear_slot :: "nat \<Rightarrow> hamt_node \<Rightarrow> hamt_node" where
  "clear_slot i nd =
     (if i div 8 < length (nd_bitfield nd)
      then nd\<lparr>nd_bitfield := (nd_bitfield nd)[i div 8 := nd_bitfield nd ! (i div 8) AND NOT (push_bit (i mod 8) 1)]\<rparr>
      else nd)"

fun rank_loop :: "hamt_node \<Rightarrow> nat \<Rightarrow> nat" where
  "rank_loop nd 0 = 0"
| "rank_loop nd (Suc i) = (if has_slot nd i then Suc (rank_loop nd i) else rank_loop nd i)"

definition get_child :: "hamt_node \<Rightarrow> nat \<Rightarrow> hamt_link option" where
  "get_child nd i =
     (if \<not> has_slot nd i then None
      else let r = rank_loop nd i
           in if r < length (nd_links nd) then Some (nd_links nd ! r) else None)"

definition vec_insert :: "nat \<Rightarrow> 'a \<Rightarrow> 'a list \<Rightarrow> 'a list option" where
  "vec_insert i x xs = (if i \<le> length xs then Some (take i xs @ x # drop i xs) else None)"

definition vec_remove :: "nat \<Rightarrow> 'a list \<Rightarrow> ('a \<times> 'a list) option" where
  "vec_remove i xs = (if i < length xs then Some (xs ! i, take i xs @ drop (Suc i) xs) else None)"

definition set_child :: "nat \<Rightarrow> hamt_link \<Rightarrow> hamt_node \<Rightarrow> hamt_node option" where
  "set_child i l nd =
     (if has_slot nd i then
        let r = rank_loop nd i
        in if r < length (nd_links nd) then Some (nd\<lparr>nd_links := (nd_links nd)[r := l]\<rparr>) else Some nd
      else
        let nd' = set_slot i nd;
            insert_pos = rank_loop nd' i
        in map_option (\<lambda>ls. nd'\<lparr>nd_links := ls\<rparr>) (vec_insert insert_pos l (nd_links nd')))"

definition remove_child :: "nat \<Rightarrow> hamt_node \<Rightarrow> (hamt_link option \<times> hamt_node) option" where
  "remove_child i nd =
     (if \<not> has_slot nd i then Some (None, nd)
      else let r = rank_loop nd i;
               nd' = clear_slot i nd
           in map_option (\<lambda>(l, ls). (Some l, nd'\<lparr>nd_links := ls\<rparr>)) (vec_remove r (nd_links nd')))"

fun link_size :: "hamt_link \<Rightarrow> u64" where
  "link_size (LShard _) = 32 + 4"
| "link_size (LBucket es) = 4 + sum_list (map (\<lambda>(k, v). 4 + of_nat (length k) + estimate_entry_size v) es)"

definition estimate_size :: "hamt_node \<Rightarrow> u64" where
  "estimate_size nd = (32 + 8 + 8) + of_nat (length (nd_bitfield nd)) + sum_list (map link_size (nd_links nd))"

fun link_entries :: "hamt_link \<Rightarrow> nat" where
  "link_entries (LShard _) = 0"
| "link_entries (LBucket es) = length es"

definition total_entries :: "hamt_node \<Rightarrow> nat" where
  "total_entries nd = sum_list (map link_entries (nd_links nd))"

section \<open>Shards\<close>

record hamt_shard =
  hs_root :: hamt_node
  hs_entry_count :: u64
  hs_estimated_size :: u64
  hs_hash :: "content_hash option"

definition HamtShard_new :: hamt_shard where
  "HamtShard_new = \<lparr>hs_root = HamtNode_new, hs_entry_count = 0, hs_estimated_size = 0, hs_hash = None\<rparr>"

definition HamtShard_from_node :: "hamt_node \<Rightarrow> hamt_shard" where
  "HamtShard_from_node nd =
     \<lparr>hs_root = nd, hs_entry_count = of_nat (total_entries nd), hs_estimated_size = estimate_size nd, hs_hash = None\<rparr>"

definition HamtShard_is_empty :: "hamt_shard \<Rightarrow> bool" where
  "HamtShard_is_empty s = (hs_entry_count s = 0)"

definition HamtShard_should_shard :: "hamt_shard \<Rightarrow> bool" where
  "HamtShard_should_shard s = (hs_estimated_size s > DEFAULT_SHARDING_THRESHOLD)"

definition grow :: "string \<Rightarrow> hamt_entry \<Rightarrow> hamt_shard \<Rightarrow> hamt_shard" where
  "grow nm e s = s\<lparr>hs_estimated_size := hs_estimated_size s + (4 + of_nat (length nm) + estimate_entry_size e),
     hs_entry_count := hs_entry_count s + 1\<rparr>"

fun push_entry :: "string \<Rightarrow> hamt_entry \<Rightarrow> hamt_link \<Rightarrow> hamt_link" where
  "push_entry nm e (LBucket es) = LBucket (es @ [(nm, e)])"
| "push_entry nm e (LShard h) = LShard h"

definition insert_with_hash ::
  "string \<Rightarrow> hamt_entry \<Rightarrow> bytes \<Rightarrow> u8 \<Rightarrow> hamt_shard \<Rightarrow> ((hamt_error, unit) result \<times> hamt_shard) option" where
  "insert_with_hash nm e hash depth s =
     (let index = extract_bits hash (depth * DEFAULT_FANOUT_BITS) DEFAULT_FANOUT_BITS;
          failed = Some (Inl (InvalidStructure ''collision handling not yet implemented''), s)
      in if has_slot (hs_root s) index then
           (case get_child (hs_root s) index of
              Some (LBucket es) \<Rightarrow>
                if length es < MAX_BUCKET_SIZE then
                  (case remove_child index (hs_root s) of
                     Some (Some link, nd) \<Rightarrow>
                       map_option (\<lambda>nd'. (Inr (), (grow nm e s)\<lparr>hs_root := nd'\<rparr>)) (set_child index (push_entry nm e link) nd)
                   | _ \<Rightarrow> None)
                else failed
            | _ \<Rightarrow> failed)
         else map_option (\<lambda>nd'. (Inr (), (grow nm e s)\<lparr>hs_root := nd'\<rparr>)) (set_child index (link_bucket nm e) (hs_root s)))"

definition HamtShard_insert ::
  "(string \<Rightarrow> bytes) \<Rightarrow> string \<Rightarrow> hamt_entry \<Rightarrow> hamt_shard \<Rightarrow> ((hamt_error, unit) result \<times> hamt_shard) option" where
  "HamtShard_insert H nm e s = insert_with_hash nm e (H nm) 0 s"

definition get_with_hash :: "string \<Rightarrow> bytes \<Rightarrow> u8 \<Rightarrow> hamt_shard \<Rightarrow> hamt_entry option" where
  "get_with_hash nm hash depth s =
     (case get_child (hs_root s) (extract_bits hash (depth * DEFAULT_FANOUT_BITS) DEFAULT_FANOUT_BITS) of
        None \<Rightarrow> None
      | Some (LBucket es) \<Rightarrow> map_option snd (List.find (\<lambda>(n, _). n = nm) es)
      | Some (LShard _) \<Rightarrow> None)"

definition HamtShard_get :: "(string \<Rightarrow> bytes) \<Rightarrow> string \<Rightarrow> hamt_shard \<Rightarrow> hamt_entry option" where
  "HamtShard_get H nm s = get_with_hash nm (H nm) 0 s"

fun take_first :: "string \<Rightarrow> (string \<times> hamt_entry) list \<Rightarrow> (hamt_entry \<times> (string \<times> hamt_entry) list) option" where
  "take_first nm [] = None"
| "take_first nm (p # es) =
     (if fst p = nm then Some (snd p, es) else map_option (\<lambda>(e, es'). (e, p # es')) (take_first nm es))"

definition remove_with_hash ::
  "string \<Rightarrow> bytes \<Rightarrow> u8 \<Rightarrow> hamt_shard \<Rightarrow> ((hamt_error, hamt_entry option) result \<times> hamt_shard) option" where
  "remove_with_hash nm hash depth s =
     (let index = extract_bits hash (depth * DEFAULT_FANOUT_BITS) DEFAULT_FANOUT_BITS;
          shrunk = s\<lparr>hs_entry_count := sat_sub64 (hs_entry_count s) 1, hs_estimated_size := estimate_size (hs_root s)\<rparr>
      in if \<not> has_slot (hs_root s) index then Some (Inr None, s)
         else (case get_child (hs_root s) index of
             Some (LBucket es) \<Rightarrow>
               (case take_first nm es of
                  Some (e, es') \<Rightarrow>
                    map_option (\<lambda>nd. (Inr (Some e), shrunk\<lparr>hs_root := nd\<rparr>))
                      (if es' = [] then map_option snd (remove_child index (hs_root s))
                       else set_child index (LBucket es') (hs_root s))
                | None \<Rightarrow> Some (Inr None, s))
           | Some (LShard _) \<Rightarrow> Some (Inl (InvalidStructure ''shard removal requires recursive handling''), s)
           | None \<Rightarrow> Some (Inr None, s)))"

definition HamtShard_remove ::
  "(string \<Rightarrow> bytes) \<Rightarrow> string \<Rightarrow> hamt_shard \<Rightarrow> ((hamt_error, hamt_entry option) result \<times> hamt_shard) option" where
  "HamtShard_remove H nm s = remove_with_hash nm (H nm) 0 s"

fun collect_entries :: "hamt_link list \<Rightarrow> (string \<times> hamt_entry) list" where
  "collect_entries [] = []"
| "collect_entries (LBucket es # ls) = es @ collect_entries ls"
| "collect_entries (LShard _ # ls) = collect_entries ls"

definition HamtShard_list :: "hamt_shard \<Rightarrow> (string \<times> hamt_entry) list" where
  "HamtShard_list s = collect_entries (nd_links (hs_root s))"

fun insert_loop ::
  "(string \<Rightarrow> bytes) \<Rightarrow> (string \<times> hamt_entry) list \<Rightarrow> hamt_shard \<Rightarrow> ((hamt_error, unit) result \<times> hamt_shard) option" where
  "insert_loop H [] s = Some (Inr (), s)"
| "insert_loop H ((nm, e) # es) s =
     (case HamtShard_insert H nm e s of
        None \<Rightarrow> None
      | Some (Inl err, s') \<Rightarrow> Some (Inl err, s')
      | Some (Inr _, s') \<Rightarrow> insert_loop H es s')"

fun remove_loop ::
  "(string \<Rightarrow> bytes) \<Rightarrow> string list \<Rightarrow> hamt_shard \<Rightarrow> ((hamt_error, unit) result \<times> hamt_shard) option" where
  "remove_loop H [] s = Some (Inr (), s)"
| "remove_loop H (nm # ns) s =
     (case HamtShard_remove H nm s of
        None \<Rightarrow> None
      | Some (Inl err, s') \<Rightarrow> Some (Inl err, s')
      | Some (Inr _, s') \<Rightarrow> remove_loop H ns s')"

section \<open>Shard manager\<close>

record shard_manager =
  sm_root :: hamt_shard
  sm_sharding_enabled :: bool
  sm_sharding_threshold :: u64

definition ShardManager_new :: shard_manager where
  "ShardManager_new = \<lparr>sm_root = HamtShard_new, sm_sharding_enabled = True, sm_sharding_threshold = DEFAULT_SHARDING_THRESHOLD\<rparr>"

definition ShardManager_with_threshold :: "u64 \<Rightarrow> shard_manager" where
  "ShardManager_with_threshold t = \<lparr>sm_root = HamtShard_new, sm_sharding_enabled = True, sm_sharding_threshold = t\<rparr>"

definition set_sharding :: "bool \<Rightarrow> shard_manager \<Rightarrow> shard_manager" where
  "set_sharding enabled m = m\<lparr>sm_sharding_enabled := enabled\<rparr>"

definition ShardManager_insert ::
  "(string \<Rightarrow> bytes) \<Rightarrow> string \<Rightarrow> hamt_entry \<Rightarrow> shard_manager \<Rightarrow> ((hamt_error, unit) result \<times> shard_manager) option" where
  "ShardManager_insert H nm e m = map_option (\<lambda>(r, s). (r, m\<lparr>sm_root := s\<rparr>)) (HamtShard_insert H nm e (sm_root m))"

definition ShardManager_get :: "(string \<Rightarrow> bytes) \<Rightarrow> string \<Rightarrow> shard_manager \<Rightarrow> hamt_entry option" where
  "ShardManager_get H nm m = HamtShard_get H nm (sm_root m)"

definition ShardManager_remove ::
  "(string \<Rightarrow> bytes) \<Rightarrow> string \<Rightarrow> shard_manager \<Rightarrow> ((hamt_error, hamt_entry option) result \<times> shard_manager) option" where
  "ShardManager_remove H nm m = map_option (\<lambda>(r, s). (r, m\<lparr>sm_root := s\<rparr>)) (HamtShard_remove H nm (sm_root m))"

definition ShardManager_list :: "shard_manager \<Rightarrow> (string \<times> hamt_entry) list" where
  "ShardManager_list m = HamtShard_list (sm_root m)"

definition ShardManager_entry_count :: "shard_manager \<Rightarrow> u64" where
  "ShardManager_entry_count m = hs_entry_count (sm_root m)"

definition ShardManager_should_shard :: "shard_manager \<Rightarrow> bool" where
  "ShardManager_should_shard m = (sm_sharding_enabled m \<and> HamtShard_should_shard (sm_root m))"

definition ShardManager_shard ::
  "(string \<Rightarrow> bytes) \<Rightarrow> shard_manager \<Rightarrow> ((hamt_error, unit) result \<times> shard_manager) option" where
  "ShardManager_shard H m =
     (if \<not> ShardManager_should_shard m then Some (Inr (), m)
      else case insert_loop H (HamtShard_list (sm_root m)) HamtShard_new of
          None \<Rightarrow> None
        | Some (Inl err, _) \<Rightarrow> Some (Inl err, m)
        | Some (Inr _, s) \<Rightarrow> Some (Inr (), m\<lparr>sm_root := s\<rparr>))"

section \<open>Batch builder\<close>

record hamt_builder =
  hb_pending_inserts :: "(string \<times> hamt_entry) list"
  hb_pending_deletes :: "string list"
  hb_batch_size :: nat

definition HamtBuilder_with_batch_size :: "nat \<Rightarrow> hamt_builder" where
  "HamtBuilder_with_batch_size n = \<lparr>hb_pending_inserts = [], hb_pending_deletes = [], hb_batch_size = n\<rparr>"

definition HamtBuilder_new :: hamt_builder where
  "HamtBuilder_new = \<lparr>hb_pending_inserts = [], hb_pending_deletes = [], hb_batch_size = 1000\<rparr>"

definition HamtBuilder_insert :: "string \<Rightarrow> hamt_entry \<Rightarrow> hamt_builder \<Rightarrow> hamt_builder" where
  "HamtBuilder_insert nm e b = b\<lparr>hb_pending_inserts := hb_pending_inserts b @ [(nm, e)]\<rparr>"

definition HamtBuilder_delete :: "string \<Rightarrow> hamt_builder \<Rightarrow> hamt_builder" where
  "HamtBuilder_delete nm b = b\<lparr>hb_pending_deletes := hb_pending_deletes b @ [nm]\<rparr>"

definition HamtBuilder_len :: "hamt_builder \<Rightarrow> nat" where
  "HamtBuilder_len b = length (hb_pending_inserts b) + length (hb_pending_deletes b)"

definition HamtBuilder_is_empty :: "hamt_builder \<Rightarrow> bool" where
  "HamtBuilder_is_empty b = (hb_pending_inserts b = [] \<and> hb_pending_deletes b = [])"

definition HamtBuilder_should_flush :: "hamt_builder \<Rightarrow> bool" where
  "HamtBuilder_should_flush b = (HamtBuilder_len b \<ge> hb_batch_size b)"

text \<open>
  A \<^verbatim>\<open>drain(..)\<close> that is dropped on an early return removes what it has not yielded yet: a
  failed deletion empties the pending deletions and keeps the insertions, a failed insertion
  empties both.
\<close>

definition HamtBuilder_execute ::
  "(string \<Rightarrow> bytes) \<Rightarrow> hamt_builder \<Rightarrow> hamt_shard \<Rightarrow> ((hamt_error, unit) result \<times> hamt_builder \<times> hamt_shard) option" where
  "HamtBuilder_execute H b s =
     (case remove_loop H (hb_pending_deletes b) s of
        None \<Rightarrow> None
      | Some (Inl err, s') \<Rightarrow> Some (Inl err, b\<lparr>hb_pending_deletes := []\<rparr>, s')
      | Some (Inr _, s') \<Rightarrow>
          map_option (\<lambda>(r, s''). (r, b\<lparr>hb_pending_deletes := [], hb_pending_inserts := []\<rparr>, s''))
            (insert_loop H (hb_pending_inserts b) s'))"

definition HamtBuilder_clear :: "hamt_builder \<Rightarrow> hamt_builder" where
  "HamtBuilder_clear b = b\<lparr>hb_pending_inserts := [], hb_pending_deletes := []\<rparr>"

section \<open>Bulk import\<close>

record bulk_importer =
  bi_shard :: hamt_shard
  bi_batch_size :: nat
  bi_current_batch :: "(string \<times> hamt_entry) list"

definition BulkImporter_new :: "hamt_shard \<Rightarrow> bulk_importer" where
  "BulkImporter_new s = \<lparr>bi_shard = s, bi_batch_size = 1000, bi_current_batch = []\<rparr>"

definition BulkImporter_with_batch_size :: "hamt_shard \<Rightarrow> nat \<Rightarrow> bulk_importer" where
  "BulkImporter_with_batch_size s n = \<lparr>bi_shard = s, bi_batch_size = n, bi_current_batch = []\<rparr>"

definition BulkImporter_flush ::
  "(string \<Rightarrow> bytes) \<Rightarrow> bulk_importer \<Rightarrow> ((hamt_error, unit) result \<times> bulk_importer) option" where
  "BulkImporter_flush H b =
     (if bi_current_batch b = [] then Some (Inr (), b)
      else map_option (\<lambda>(r, s). (r, b\<lparr>bi_shard := s, bi_current_batch := []\<rparr>))
             (insert_loop H (sort_key fst (bi_current_batch b)) (bi_shard b)))"

definition BulkImporter_add ::
  "(string \<Rightarrow> bytes) \<Rightarrow> string \<Rightarrow> hamt_entry \<Rightarrow> bulk_importer \<Rightarrow> ((hamt_error, unit) result \<times> bulk_importer) option" where
  "BulkImporter_add H nm e b =
     (let b' = b\<lparr>bi_current_batch := bi_current_batch b @ [(nm, e)]\<rparr>
      in if length (bi_current_batch b') \<ge> bi_batch_size b' then BulkImporter_flush H b' else Some (Inr (), b'))"

fun BulkImporter_add_all ::
  "(string \<Rightarrow> bytes) \<Rightarrow> (string \<times> hamt_entry) list \<Rightarrow> bulk_importer \<Rightarrow> ((hamt_error, unit) result \<times> bulk_importer) option" where
  "BulkImporter_add_all H [] b = Some (Inr (), b)"
| "BulkImporter_add_all H ((nm, e) # es) b =
     (case BulkImporter_add H nm e b of
        None \<Rightarrow> None
      | Some (Inl err, b') \<Rightarrow> Some (Inl err, b')
      | Some (Inr _, b') \<Rightarrow> BulkImporter_add_all H es b')"

definition BulkImporter_finalize ::
  "(string \<Rightarrow> bytes) \<Rightarrow> bulk_importer \<Rightarrow> ((hamt_error, unit) result \<times> hamt_shard) option" where
  "BulkImporter_finalize H b = map_option (\<lambda>(r, b'). (r, bi_shard b')) (BulkImporter_flush H b)"

record parallel_importer =
  pi_batch_size :: nat
  pi_num_workers :: nat

function chunks_of :: "nat \<Rightarrow> 'a list \<Rightarrow> 'a list list" where
  "chunks_of n xs = (if xs = [] \<or> n = 0 then [] else take n xs # chunks_of n (drop n xs))"
  by pat_completeness auto
termination by (relation "measure (\<lambda>(n, xs). length xs)") auto

declare chunks_of.simps [simp del]

fun build_chunks ::
  "(string \<Rightarrow> bytes) \<Rightarrow> (string \<times> hamt_entry) list list \<Rightarrow> (hamt_error, hamt_shard list) result option" where
  "build_chunks H [] = Some (Inr [])"
| "build_chunks H (c # cs) =
     (case insert_loop H (sort_key fst c) HamtShard_new of
        None \<Rightarrow> None
      | Some (Inl err, _) \<Rightarrow> Some (Inl err)
      | Some (Inr _, s) \<Rightarrow>
          map_option (\<lambda>r. case r of Inl err \<Rightarrow> Inl err | Inr ss \<Rightarrow> Inr (s # ss)) (build_chunks H cs))"

definition only_shard :: "(hamt_error, unit) result \<times> hamt_shard \<Rightarrow> (hamt_error, hamt_shard) result" where
  "only_shard p = (case p of (Inl err, _) \<Rightarrow> Inl err | (Inr _, s) \<Rightarrow> Inr s)"

definition merge_shards :: "(string \<Rightarrow> bytes) \<Rightarrow> hamt_shard list \<Rightarrow> (hamt_error, hamt_shard) result option" where
  "merge_shards H ss =
     (case ss of
        [] \<Rightarrow> Some (Inr HamtShard_new)
      | [s] \<Rightarrow> Some (Inr s)
      | _ \<Rightarrow> map_option only_shard (insert_loop H (concat (map HamtShard_list ss)) HamtShard_new))"

definition ParallelBulkImporter_import ::
  "(string \<Rightarrow> bytes) \<Rightarrow> parallel_importer \<Rightarrow> (string \<times> hamt_entry) list \<Rightarrow> (hamt_error, hamt_shard) result option" where
  "ParallelBulkImporter_import H p es =
     (if es = [] then Some (Inr HamtShard_new)
      else if pi_num_workers p = 0 then None
      else case build_chunks H (filter (\<lambda>c. c \<noteq> []) (chunks_of (max (length es div pi_num_workers p) 1) es)) of
          None \<Rightarrow> None
        | Some (Inl err) \<Rightarrow> Some (Inl err)
        | Some (Inr ss) \<Rightarrow> merge_shards H ss)"

section \<open>Iterators\<close>

record stack_frame =
  sf_links :: "hamt_link list"
  sf_position :: nat

record hamt_iter =
  it_current_bucket_pos :: nat
  it_stack :: "stack_frame list"

definition HamtIter_new :: "hamt_shard \<Rightarrow> hamt_iter" where
  "HamtIter_new s = \<lparr>it_current_bucket_pos = 0, it_stack = [\<lparr>sf_links = nd_links (hs_root s), sf_position = 0\<rparr>]\<rparr>"

definition iter_weight :: "hamt_iter \<Rightarrow> nat" where
  "iter_weight it = sum_list (map (\<lambda>f. Suc (length (sf_links f) - sf_position f)) (it_stack it))"

lemma iter_weight_snoc:
  "st \<noteq> [] \<Longrightarrow> sum_list (map f st) = sum_list (map f (butlast st)) + (f (last st) :: nat)"
  by (induction st rule: rev_induct) auto

definition advance_frame :: "hamt_iter \<Rightarrow> hamt_iter" where
  "advance_frame it = it\<lparr>it_stack := butlast (it_stack it) @ [(last (it_stack it))\<lparr>sf_position := Suc (sf_position (last (it_stack it)))\<rparr>]\<rparr>"

lemma iter_weight_pop: "it_stack it \<noteq> [] \<Longrightarrow> iter_weight (it\<lparr>it_stack := butlast (it_stack it)\<rparr>) < iter_weight it"
  by (simp add: iter_weight_def iter_weight_snoc [of "it_stack it"])

lemma iter_weight_pos [simp]: "iter_weight (it\<lparr>it_current_bucket_pos := p\<rparr>) = iter_weight it"
  by (simp add: iter_weight_def)

lemma iter_weight_advance:
  "it_stack it \<noteq> [] \<Longrightarrow> sf_position (last (it_stack it)) < length (sf_links (last (it_stack it))) \<Longrightarrow>
    iter_weight (advance_frame it) < iter_weight it"
  by (simp add: iter_weight_def advance_frame_def iter_weight_snoc [of "it_stack it"])

function HamtIter_next :: "hamt_iter \<Rightarrow> (string \<times> hamt_entry) option \<times> hamt_iter" where
  "HamtIter_next it =
     (if it_stack it = [] then (None, it)
      else if sf_position (last (it_stack it)) \<ge> length (sf_links (last (it_stack it)))
        then HamtIter_next (it\<lparr>it_stack := butlast (it_stack it)\<rparr>)
      else case sf_links (last (it_stack it)) ! sf_position (last (it_stack it)) of
          LBucket es \<Rightarrow>
            if it_current_bucket_pos it < length es
            then (Some (es ! it_current_bucket_pos it),
                  (advance_frame it)\<lparr>it_current_bucket_pos := Suc (it_current_bucket_pos it)\<rparr>)
            else HamtIter_next ((advance_frame it)\<lparr>it_current_bucket_pos := 0\<rparr>)
        | LShard _ \<Rightarrow> HamtIter_next (advance_frame it))"
  by pat_completeness auto
termination
  by (relation "measure iter_weight") (auto simp: iter_weight_pop iter_weight_advance)

declare HamtIter_next.simps [simp del]

lemma HamtIter_next_weight: "HamtIter_next it = (Some x, it') \<Longrightarrow> iter_weight it' < iter_weight it"
proof (induction it rule: HamtIter_next.induct)
  case (1 it)
  note unfold = HamtIter_next.simps [of it]
  show ?case
  proof (cases "it_stack it = [] \<or> sf_position (last (it_stack it)) \<ge> length (sf_links (last (it_stack it)))")
    case True
    with "1.prems" "1.IH"(1) iter_weight_pop [of it] show ?thesis by (auto simp: unfold split: if_splits)
  next
    case False
    with "1.prems" "1.IH"(2,3) iter_weight_advance [of it] show ?thesis
      by (fastforce simp: unfold split: if_splits hamt_link.splits)
  qed
qed

function HamtIter_collect :: "hamt_iter \<Rightarrow> (string \<times> hamt_entry) list" where
  "HamtIter_collect it = (case HamtIter_next it of (None, _) \<Rightarrow> [] | (Some x, it') \<Rightarrow> x # HamtIter_collect it')"
  by pat_completeness auto
termination
  by (relation "measure iter_weight") (auto dest: HamtIter_next_weight [OF sym])

declare HamtIter_collect.simps [simp del]

function filter_next :: "(string \<times> hamt_entry \<Rightarrow> bool) \<Rightarrow> hamt_iter \<Rightarrow> (string \<times> hamt_entry) option \<times> hamt_iter" where
  "filter_next P it =
     (case HamtIter_next it of
        (Some x, it') \<Rightarrow> if P x then (Some x, it') else filter_next P it'
      | (None, it') \<Rightarrow> (None, it'))"
  by pat_completeness auto
termination
  by (relation "measure (iter_weight \<circ> snd)") (auto dest: HamtIter_next_weight [OF sym])

declare filter_next.simps [simp del]

definition PrefixHamtIter_next :: "string \<Rightarrow> hamt_iter \<Rightarrow> (string \<times> hamt_entry) option \<times> hamt_iter" where
  "PrefixHamtIter_next prefix = filter_next (\<lambda>(nm, _). take (length prefix) nm = prefix)"

definition DirHamtIter_next :: "hamt_iter \<Rightarrow> (string \<times> hamt_entry) option \<times> hamt_iter" where
  "DirHamtIter_next = filter_next (\<lambda>(_, e). is_dir e)"

definition FileHamtIter_next :: "hamt_iter \<Rightarrow> (string \<times> hamt_entry) option \<times> hamt_iter" where
  "FileHamtIter_next = filter_next (\<lambda>(_, e). is_file e)"

record vec_iter =
  vi_entries :: "(string \<times> hamt_entry) list"
  vi_position :: nat

definition SortedHamtIter_new :: "hamt_shard \<Rightarrow> vec_iter" where
  "SortedHamtIter_new s = \<lparr>vi_entries = sort_key fst (HamtShard_list s), vi_position = 0\<rparr>"

definition RevHamtIter_new :: "hamt_shard \<Rightarrow> vec_iter" where
  "RevHamtIter_new s = \<lparr>vi_entries = rev (sort_key fst (rev (HamtShard_list s))), vi_position = 0\<rparr>"

definition vec_iter_next :: "vec_iter \<Rightarrow> (string \<times> hamt_entry) option \<times> vec_iter" where
  "vec_iter_next v =
     (if vi_position v < length (vi_entries v)
      then (Some (vi_entries v ! vi_position v), v\<lparr>vi_position := Suc (vi_position v)\<rparr>) else (None, v))"

record paged_iter =
  pg_inner :: hamt_iter
  pg_page_size :: nat
  pg_page_position :: nat
  pg_yielded :: nat

definition PagedHamtIter_new :: "hamt_shard \<Rightarrow> nat \<Rightarrow> paged_iter" where
  "PagedHamtIter_new s n = \<lparr>pg_inner = HamtIter_new s, pg_page_size = n, pg_page_position = 0, pg_yielded = 0\<rparr>"

definition has_next_page :: "paged_iter \<Rightarrow> bool" where
  "has_next_page p = (pg_yielded p \<ge> pg_page_size p)"

definition skip_to_page :: "nat \<Rightarrow> paged_iter \<Rightarrow> paged_iter" where
  "skip_to_page n p = p\<lparr>pg_page_position := n, pg_yielded := 0\<rparr>"

definition PagedHamtIter_next :: "paged_iter \<Rightarrow> (string \<times> hamt_entry) option \<times> paged_iter" where
  "PagedHamtIter_next p =
     (let p1 = (if pg_yielded p \<ge> pg_page_size p
                then p\<lparr>pg_page_position := pg_page_position p + 1, pg_yielded := 0\<rparr> else p);
          (r, inner) = HamtIter_next (pg_inner p1);
          p2 = p1\<lparr>pg_inner := inner\<rparr>
      in (r, if r \<noteq> None then p2\<lparr>pg_yielded := pg_yielded p2 + 1\<rparr> else p2))"

section \<open>The bit field and the packed links\<close>

lemma unat_u8_u32: "unat (ucast (b :: u8) :: u32) = unat b"
proof -
  have "unat b < 2 ^ 32" using unat_bound [of b] by simp
  then show ?thesis by (simp add: unsigned_ucast_eq take_bit_nat_eq_self)
qed

lemma extract_bits_aligned:
  assumes "n < 32"
  shows "extract_bits hash (8 * of_nat n) 8 = unat (hash ! n)"
proof -
  have p: "unat (8 * of_nat n :: u8) = 8 * n" using assms by (subst unat_word_ariths) (simp add: unat_of_nat)
  have d: "unat ((8 * of_nat n :: u8) div 8) = n" using p by (simp add: unat_div)
  have m: "(8 * of_nat n :: u8) mod 8 = 0" using p by (simp add: word_unat_eq_iff unat_mod)
  have "window_bytes hash n 1 0 = ucast (hash ! n)" using assms by simp
  moreover have "unat ((0 + 8 + 7 :: u8) div 8) = 1" by simp
  moreover have "(ucast (hash ! n) :: u32) AND mask 8 = ucast (hash ! n)"
    by (rule bit_word_eqI) (auto simp: bit_simps dest: bit_imp_le_length)
  then have "(ucast (hash ! n) :: u32) AND 255 = ucast (hash ! n)" by (simp add: mask_eq_exp_minus_1)
  ultimately show ?thesis unfolding extract_bits_def d m Let_def
    by (simp add: unat_u8_u32)
qed

text \<open>A window that does not start at a byte boundary is shifted by one bit too many.\<close>

lemma extract_bits_unaligned:
  "extract_bits (b # bs) 4 4 = unat (drop_bit 1 b AND 15)"
proof -
  have "window_bytes (b # bs) 0 1 0 = ucast b" by simp
  moreover have "unat ((4 + 4 + 7 :: u8) div 8) = 1" by simp
  moreover have "unat (drop_bit 1 (ucast b :: u32) AND 15) = unat (drop_bit 1 b AND 15)"
  proof -
    have "drop_bit 1 (ucast b :: u32) AND mask 4 = ucast (drop_bit 1 b AND mask 4)"
      by (rule bit_word_eqI) (auto simp: bit_simps dest: bit_imp_le_length)
    then have "drop_bit 1 (ucast b :: u32) AND 15 = ucast (drop_bit 1 b AND 15)" by (simp add: mask_eq_exp_minus_1)
    then show ?thesis by (simp add: unat_u8_u32)
  qed
  ultimately show ?thesis unfolding extract_bits_def Let_def by simp
qed

lemma has_slot_bit: "has_slot nd i \<longleftrightarrow> i div 8 < length (nd_bitfield nd) \<and> bit (nd_bitfield nd ! (i div 8)) (i mod 8)"
  by (simp add: has_slot_def bit_iff_and_push_bit_not_eq_0)

lemma slot_split: "i div 8 = j div 8 \<Longrightarrow> i mod 8 = j mod 8 \<Longrightarrow> i = (j :: nat)"
  by (metis div_mult_mod_eq)

lemma has_slot_set [simp]:
  "i div 8 < length (nd_bitfield nd) \<Longrightarrow> has_slot (set_slot i nd) j \<longleftrightarrow> j = i \<or> has_slot nd j"
  by (cases "j div 8 = i div 8") (auto simp: has_slot_bit set_slot_def bit_simps nth_list_update dest: slot_split)

lemma has_slot_clear [simp]:
  "i div 8 < length (nd_bitfield nd) \<Longrightarrow> has_slot (clear_slot i nd) j \<longleftrightarrow> j \<noteq> i \<and> has_slot nd j"
  by (cases "j div 8 = i div 8") (auto simp: has_slot_bit clear_slot_def bit_simps nth_list_update dest: slot_split)

lemma slot_frame [simp]:
  "length (nd_bitfield (set_slot i nd)) = length (nd_bitfield nd)" "nd_links (set_slot i nd) = nd_links nd"
  "length (nd_bitfield (clear_slot i nd)) = length (nd_bitfield nd)" "nd_links (clear_slot i nd) = nd_links nd"
  by (simp_all add: set_slot_def clear_slot_def)

lemma has_slot_links [simp]: "has_slot (nd\<lparr>nd_links := ls\<rparr>) = has_slot nd"
  by (simp add: has_slot_def fun_eq_iff)

lemma rank_loop_links [simp]: "rank_loop (nd\<lparr>nd_links := ls\<rparr>) i = rank_loop nd i"
  by (induction i) simp_all

lemma rank_loop_mono: "i \<le> j \<Longrightarrow> rank_loop nd i \<le> rank_loop nd j"
  by (induction rule: dec_induct) simp_all

lemma rank_loop_strict: "i < j \<Longrightarrow> has_slot nd i \<Longrightarrow> rank_loop nd i < rank_loop nd j"
  using rank_loop_mono [of "Suc i" j nd] by simp

lemma rank_loop_set:
  "i div 8 < length (nd_bitfield nd) \<Longrightarrow> \<not> has_slot nd i \<Longrightarrow>
    rank_loop (set_slot i nd) j = (if i < j then Suc (rank_loop nd j) else rank_loop nd j)"
  by (induction j) (auto simp: less_Suc_eq)

lemma rank_loop_clear:
  "i div 8 < length (nd_bitfield nd) \<Longrightarrow> has_slot nd i \<Longrightarrow>
    rank_loop nd j = (if i < j then Suc (rank_loop (clear_slot i nd) j) else rank_loop (clear_slot i nd) j)"
  by (induction j) (auto simp: less_Suc_eq)

lemma rank_loop_block:
  "rank_loop nd (8 * n) = sum_list (map (\<lambda>k. length (filter (\<lambda>j. has_slot nd (8 * k + j)) [0..<8])) [0..<n])"
proof (induction n)
  case (Suc n)
  have "rank_loop nd (8 * n + m) = rank_loop nd (8 * n) + length (filter (\<lambda>j. has_slot nd (8 * n + j)) [0..<m])" for m
    by (induction m) auto
  from this [of 8] Suc show ?case by (simp add: add.commute)
qed simp

lemma child_count_rank: "child_count nd = rank_loop nd (8 * length (nd_bitfield nd))"
proof -
  have "filter (\<lambda>j. has_slot nd (8 * k + j)) [0..<8] = filter (bit (nd_bitfield nd ! k)) [0..<8]"
    if "k < length (nd_bitfield nd)" for k
    using that by (intro filter_cong) (auto simp: has_slot_bit)
  then have "rank_loop nd (8 * length (nd_bitfield nd)) =
      sum_list (map (\<lambda>k. count_ones (nd_bitfield nd ! k)) [0..<length (nd_bitfield nd)])"
    unfolding rank_loop_block count_ones_def by (intro arg_cong [where f = sum_list] map_cong) auto
  also have "\<dots> = child_count nd" unfolding child_count_def by (subst (2) map_nth [symmetric]) (simp add: comp_def del: map_nth)
  finally show ?thesis ..
qed

definition node_inv :: "hamt_node \<Rightarrow> bool" where
  "node_inv nd = (length (nd_bitfield nd) = 32 \<and> length (nd_links nd) = rank_loop nd 256)"

lemma node_inv_bound: "node_inv nd \<Longrightarrow> i < 256 \<Longrightarrow> i div 8 < length (nd_bitfield nd)"
  by (simp add: node_inv_def)

lemma node_inv_rank: "node_inv nd \<Longrightarrow> i < 256 \<Longrightarrow> has_slot nd i \<Longrightarrow> rank_loop nd i < length (nd_links nd)"
  using rank_loop_strict [of i 256 nd] by (simp add: node_inv_def)

lemma node_inv_rank_le: "node_inv nd \<Longrightarrow> i \<le> 256 \<Longrightarrow> rank_loop nd i \<le> length (nd_links nd)"
  using rank_loop_mono [of i 256 nd] by (simp add: node_inv_def)

lemma get_child_inv:
  "node_inv nd \<Longrightarrow> i < 256 \<Longrightarrow> get_child nd i = (if has_slot nd i then Some (nd_links nd ! rank_loop nd i) else None)"
  using node_inv_rank [of nd i] by (simp add: get_child_def Let_def)

lemma HamtNode_new_inv [simp]: "node_inv HamtNode_new" "has_slot HamtNode_new i = False"
proof -
  show no: "has_slot HamtNode_new i = False" for i
    by (auto simp: has_slot_def HamtNode_new_def DEFAULT_FANOUT_def nth_replicate)
  have "rank_loop HamtNode_new n = 0" for n by (induction n) (simp_all add: no)
  then show "node_inv HamtNode_new" by (simp add: node_inv_def) (simp add: HamtNode_new_def DEFAULT_FANOUT_def)
qed

text \<open>Writing and removing a child, on a consistent node.\<close>

lemma set_child_ok:
  assumes inv: "node_inv nd" and i: "i < 256"
  shows "\<exists>nd'. set_child i l nd = Some nd' \<and> node_inv nd' \<and>
    (\<forall>j < 256. get_child nd' j = (if j = i then Some l else get_child nd j))"
proof (cases "has_slot nd i")
  case True
  let ?r = "rank_loop nd i"
  let ?nd = "nd\<lparr>nd_links := (nd_links nd)[?r := l]\<rparr>"
  have "set_child i l nd = Some ?nd"
    using True node_inv_rank [OF inv i True] by (simp add: set_child_def Let_def)
  moreover have inv': "node_inv ?nd" using inv by (simp add: node_inv_def)
  moreover have "(nd_links nd)[?r := l] ! rank_loop nd j = nd_links nd ! rank_loop nd j" if "j \<noteq> i" "has_slot nd j" for j
    using that True rank_loop_strict [of i j nd] rank_loop_strict [of j i nd] by (cases "i < j") (auto simp: nth_list_update)
  ultimately show ?thesis using True i node_inv_rank [OF inv i True]
    by (auto simp: get_child_inv [OF inv] get_child_inv [OF inv'])
next
  case False
  let ?s = "set_slot i nd"
  let ?r = "rank_loop nd i"
  let ?ls = "take ?r (nd_links nd) @ l # drop ?r (nd_links nd)"
  let ?nd = "?s\<lparr>nd_links := ?ls\<rparr>"
  have b: "i div 8 < length (nd_bitfield nd)" by (rule node_inv_bound [OF inv i])
  have r: "?r \<le> length (nd_links nd)" using node_inv_rank_le [OF inv] i by simp
  have "set_child i l nd = Some ?nd"
    using False r by (simp add: set_child_def Let_def vec_insert_def rank_loop_set [OF b])
  moreover have inv': "node_inv ?nd" using inv i False b r by (simp add: node_inv_def rank_loop_set)
  moreover have "?ls ! rank_loop ?s j = nd_links nd ! rank_loop nd j" if "j \<noteq> i" "has_slot nd j" for j
  proof (cases "i < j")
    case True
    then show ?thesis using rank_loop_mono [of i j nd] r False b
      by (simp add: rank_loop_set nth_append Suc_diff_le)
  next
    case le: False
    then have "rank_loop nd j < ?r" using that by (intro rank_loop_strict) auto
    then show ?thesis using le False b r by (simp add: rank_loop_set nth_append)
  qed
  moreover have "?ls ! rank_loop ?s i = l" using False b r by (simp add: rank_loop_set nth_append)
  ultimately show ?thesis using i b by (auto simp: get_child_inv [OF inv] get_child_inv [OF inv'])
qed

lemma remove_child_ok:
  assumes inv: "node_inv nd" and i: "i < 256" and slot: "has_slot nd i"
  shows "\<exists>nd'. remove_child i nd = Some (get_child nd i, nd') \<and> node_inv nd' \<and>
    (\<forall>j < 256. get_child nd' j = (if j = i then None else get_child nd j))"
proof -
  let ?s = "clear_slot i nd"
  let ?r = "rank_loop nd i"
  let ?ls = "take ?r (nd_links nd) @ drop (Suc ?r) (nd_links nd)"
  let ?nd = "?s\<lparr>nd_links := ?ls\<rparr>"
  have b: "i div 8 < length (nd_bitfield nd)" by (rule node_inv_bound [OF inv i])
  have r: "?r < length (nd_links nd)" by (rule node_inv_rank [OF inv i slot])
  have "remove_child i nd = Some (get_child nd i, ?nd)"
    using slot r i by (simp add: remove_child_def Let_def vec_remove_def get_child_inv [OF inv])
  moreover have inv': "node_inv ?nd"
    using inv i r rank_loop_clear [OF b slot, of 256] by (simp add: node_inv_def)
  moreover have "?ls ! rank_loop ?s j = nd_links nd ! rank_loop nd j" if "j \<noteq> i" "has_slot nd j" for j
  proof (cases "i < j")
    case True
    then have "?r < rank_loop nd j" using slot by (intro rank_loop_strict)
    then show ?thesis using True r rank_loop_clear [OF b slot, of j] by (simp add: nth_append)
  next
    case le: False
    then have "rank_loop nd j < ?r" using that by (intro rank_loop_strict) auto
    then show ?thesis using le r rank_loop_clear [OF b slot, of j] by (simp add: nth_append)
  qed
  ultimately show ?thesis using i b by (auto simp: get_child_inv [OF inv] get_child_inv [OF inv'])
qed

text \<open>The node as a table of links indexed by the first byte of a hash.\<close>

definition node_lookup :: "hamt_node \<Rightarrow> u8 \<Rightarrow> hamt_link option" where
  "node_lookup nd b = get_child nd (unat b)"

definition node_write :: "u8 \<Rightarrow> hamt_link \<Rightarrow> hamt_node \<Rightarrow> hamt_node" where
  "node_write b l nd = the (set_child (unat b) l nd)"

definition node_erase :: "u8 \<Rightarrow> hamt_node \<Rightarrow> hamt_node" where
  "node_erase b nd = snd (the (remove_child (unat b) nd))"

lemma unat_byte: "unat (b :: u8) < 256"
  using unat_bound [of b] by simp

lemma node_write_ok:
  "node_inv nd \<Longrightarrow> set_child (unat b) l nd = Some (node_write b l nd) \<and> node_inv (node_write b l nd) \<and>
    node_lookup (node_write b l nd) c = (if c = b then Some l else node_lookup nd c)"
  using set_child_ok [of nd "unat b" l] unat_byte [of b] unat_byte [of c]
  by (auto simp: node_write_def node_lookup_def word_unat_eq_iff)

lemma node_erase_ok:
  "node_inv nd \<Longrightarrow> remove_child (unat b) nd = Some (node_lookup nd b, node_erase b nd) \<and> node_inv (node_erase b nd) \<and>
    node_lookup (node_erase b nd) c = (if c = b then None else node_lookup nd c)"
proof (cases "has_slot nd (unat b)")
  case True
  assume "node_inv nd"
  with remove_child_ok [of nd "unat b"] True unat_byte [of b] unat_byte [of c] show ?thesis
    by (auto simp: node_erase_def node_lookup_def word_unat_eq_iff)
next
  case False
  then show "node_inv nd \<Longrightarrow> ?thesis"
    by (auto simp: node_erase_def node_lookup_def remove_child_def get_child_def word_unat_eq_iff)
qed

interpretation link_table: keyed_store node_lookup node_erase node_inv node_write
  by unfold_locales (simp_all add: node_erase_ok node_write_ok)

lemma has_slot_lookup: "node_inv nd \<Longrightarrow> has_slot nd (unat b) \<longleftrightarrow> node_lookup nd b \<noteq> None"
  using unat_byte [of b] by (simp add: node_lookup_def get_child_inv)

section \<open>Buckets\<close>

definition slot :: "(string \<Rightarrow> bytes) \<Rightarrow> string \<Rightarrow> u8" where
  "slot H nm = H nm ! 0"

lemma extract_first_byte: "extract_bits (H nm) 0 DEFAULT_FANOUT_BITS = unat (slot H nm)"
  using extract_bits_aligned [of 0 "H nm"] by (simp add: slot_def DEFAULT_FANOUT_BITS_def)

fun link_list :: "hamt_link \<Rightarrow> (string \<times> hamt_entry) list" where
  "link_list (LBucket es) = es"
| "link_list (LShard _) = []"

definition bkt :: "hamt_node \<Rightarrow> u8 \<Rightarrow> (string \<times> hamt_entry) list" where
  "bkt nd b = (case node_lookup nd b of None \<Rightarrow> [] | Some l \<Rightarrow> link_list l)"

lemma bkt_write [simp]: "node_inv nd \<Longrightarrow> bkt (node_write b l nd) c = (if c = b then link_list l else bkt nd c)"
  by (simp add: bkt_def node_write_ok)

lemma bkt_erase [simp]: "node_inv nd \<Longrightarrow> bkt (node_erase b nd) c = (if c = b then [] else bkt nd c)"
  by (simp add: bkt_def node_erase_ok)

lemma collect_entries_concat: "collect_entries ls = concat (map link_list ls)"
  by (induction ls rule: collect_entries.induct) simp_all

lemma total_entries_collect: "total_entries nd = length (collect_entries (nd_links nd))"
proof -
  have "sum_list (map link_entries ls) = length (collect_entries ls)" for ls
    by (induction ls rule: collect_entries.induct) simp_all
  then show ?thesis by (simp add: total_entries_def)
qed

lemma links_by_slot:
  "rank_loop nd n \<le> length (nd_links nd) \<Longrightarrow>
    map (\<lambda>i. nd_links nd ! rank_loop nd i) (filter (has_slot nd) [0..<n]) = take (rank_loop nd n) (nd_links nd)"
  by (induction n) (auto simp: take_Suc_conv_app_nth split: if_splits)

lemma concat_map_filter: "(\<And>x. \<not> P x \<Longrightarrow> f x = []) \<Longrightarrow> concat (map f (filter P xs)) = concat (map f xs)"
  by (induction xs) auto

lemma collect_entries_buckets:
  assumes inv: "node_inv nd"
  shows "collect_entries (nd_links nd) = concat (map (\<lambda>i. bkt nd (of_nat i)) [0..<256])"
proof -
  let ?f = "\<lambda>i. link_list (nd_links nd ! rank_loop nd i)"
  let ?g = "\<lambda>i. if has_slot nd i then ?f i else []"
  have "nd_links nd = map (\<lambda>i. nd_links nd ! rank_loop nd i) (filter (has_slot nd) [0..<256])"
    using links_by_slot [of nd 256] inv by (simp add: node_inv_def)
  then have "collect_entries (nd_links nd) = concat (map ?f (filter (has_slot nd) [0..<256]))"
    unfolding collect_entries_concat by (metis (no_types, lifting) map_map comp_apply map_cong)
  also have "map ?f (filter (has_slot nd) [0..<256]) = map ?g (filter (has_slot nd) [0..<256])" by simp
  also have "concat (map ?g (filter (has_slot nd) [0..<256])) = concat (map ?g [0..<256])"
    by (rule concat_map_filter) simp
  also have "map ?g [0..<256] = map (\<lambda>i. bkt nd (of_nat i)) [0..<256]"
    by (auto simp: bkt_def node_lookup_def get_child_inv [OF inv] unat_of_nat_small)
  finally show ?thesis .
qed

lemma length_collect_entries:
  "node_inv nd \<Longrightarrow> length (collect_entries (nd_links nd)) = (\<Sum>i < 256. length (bkt nd (of_nat i)))"
  by (simp add: collect_entries_buckets length_concat comp_def interv_sum_list_conv_sum_set_nat atLeast0LessThan
      del: upt_conv_Cons_Cons)

lemma sum_pointwise:
  fixes f g :: "nat \<Rightarrow> nat"
  assumes "k < n" and "\<And>i. i < n \<Longrightarrow> i \<noteq> k \<Longrightarrow> f i = g i"
  shows "(\<Sum>i < n. f i) + g k = (\<Sum>i < n. g i) + f k"
  using assms by (induction n) (auto simp: less_Suc_eq intro: sum.cong)

lemma of_nat_byte_eq: "i < 256 \<Longrightarrow> (of_nat i :: u8) = b \<longleftrightarrow> i = unat b"
  by (auto simp: unat_of_nat_small)

text \<open>Changing one bucket changes the number of listed entries by the difference.\<close>

lemma length_collect_change:
  assumes "node_inv nd" "node_inv nd'" and "\<And>c. bkt nd' c = (if c = b then es else bkt nd c)"
  shows "length (collect_entries (nd_links nd')) + length (bkt nd b) = length (collect_entries (nd_links nd)) + length es"
proof -
  have "(\<Sum>i < 256. length (bkt nd' (of_nat i))) + length (bkt nd (of_nat (unat b))) =
      (\<Sum>i < 256. length (bkt nd (of_nat i))) + length (bkt nd' (of_nat (unat b)))"
    using unat_byte [of b] by (intro sum_pointwise) (auto simp: assms(3) of_nat_byte_eq)
  then show ?thesis using assms by (simp add: length_collect_entries)
qed

section \<open>The invariant of a shard\<close>

definition bucket_ok :: "(string \<Rightarrow> bytes) \<Rightarrow> u8 \<Rightarrow> hamt_link \<Rightarrow> bool" where
  "bucket_ok H b l = (is_bucket l \<and> link_list l \<noteq> [] \<and> length (link_list l) \<le> MAX_BUCKET_SIZE \<and>
     (\<forall>p \<in> set (link_list l). slot H (fst p) = b))"

definition shard_inv :: "(string \<Rightarrow> bytes) \<Rightarrow> hamt_shard \<Rightarrow> bool" where
  "shard_inv H s = (node_inv (hs_root s) \<and> (\<forall>b l. node_lookup (hs_root s) b = Some l \<longrightarrow> bucket_ok H b l) \<and>
     unat (hs_entry_count s) = total_entries (hs_root s))"

lemma shard_inv_new [simp]: "shard_inv H HamtShard_new"
  by (simp add: shard_inv_def HamtShard_new_def node_lookup_def get_child_def total_entries_def)
     (simp add: HamtNode_new_def)

lemma shard_inv_bkt:
  assumes "shard_inv H s"
  shows "length (bkt (hs_root s) b) \<le> MAX_BUCKET_SIZE" and "\<forall>p \<in> set (bkt (hs_root s) b). slot H (fst p) = b"
    and "node_lookup (hs_root s) b = (if bkt (hs_root s) b = [] then None else Some (LBucket (bkt (hs_root s) b)))"
proof -
  have ok: "bucket_ok H b l" if "node_lookup (hs_root s) b = Some l" for l
    using assms that by (simp add: shard_inv_def)
  show "length (bkt (hs_root s) b) \<le> MAX_BUCKET_SIZE" "\<forall>p \<in> set (bkt (hs_root s) b). slot H (fst p) = b"
    using ok by (cases "node_lookup (hs_root s) b"; simp add: bkt_def bucket_ok_def)+
  show "node_lookup (hs_root s) b = (if bkt (hs_root s) b = [] then None else Some (LBucket (bkt (hs_root s) b)))"
    using ok by (cases "node_lookup (hs_root s) b"; cases "the (node_lookup (hs_root s) b)") (auto simp: bkt_def bucket_ok_def)
qed

lemma shard_list_bound:
  assumes "shard_inv H s"
  shows "length (HamtShard_list s) \<le> 256 * MAX_BUCKET_SIZE"
proof -
  have "(\<Sum>i < 256. length (bkt (hs_root s) (of_nat i))) \<le> of_nat (card {..<256 :: nat}) * MAX_BUCKET_SIZE"
    by (rule sum_bounded_above) (rule shard_inv_bkt(1) [OF assms])
  then show ?thesis using assms by (simp add: HamtShard_list_def shard_inv_def length_collect_entries)
qed

text \<open>Any change of one bucket that keeps its names, with the counter adjusted, keeps the invariant.\<close>

lemma shard_inv_change:
  assumes inv: "shard_inv H s" and nd: "node_inv (hs_root s')"
    and look: "\<And>c. node_lookup (hs_root s') c = (if c = b then (if es = [] then None else Some (LBucket es)) else node_lookup (hs_root s) c)"
    and es: "length es \<le> MAX_BUCKET_SIZE" "\<forall>p \<in> set es. slot H (fst p) = b"
    and cnt: "unat (hs_entry_count s') + length (bkt (hs_root s) b) = unat (hs_entry_count s) + length es"
  shows "shard_inv H s'"
proof -
  have bk: "bkt (hs_root s') c = (if c = b then es else bkt (hs_root s) c)" for c
    by (simp add: bkt_def look)
  have "length (collect_entries (nd_links (hs_root s'))) + length (bkt (hs_root s) b) =
      length (collect_entries (nd_links (hs_root s))) + length es"
    using inv nd bk by (intro length_collect_change) (auto simp: shard_inv_def)
  then have "unat (hs_entry_count s') = total_entries (hs_root s')"
    using inv cnt by (simp add: shard_inv_def total_entries_collect)
  moreover have "bucket_ok H c l" if "node_lookup (hs_root s') c = Some l" for c l
    using that inv es by (cases "c = b") (auto simp: look shard_inv_def bucket_ok_def split: if_splits)
  ultimately show ?thesis using nd by (simp add: shard_inv_def)
qed

lemmas shard_op_defs = HamtShard_insert_def insert_with_hash_def HamtShard_get_def get_with_hash_def
  HamtShard_remove_def remove_with_hash_def extract_first_byte

lemma insert_ok:
  assumes inv: "shard_inv H s" and room: "length (bkt (hs_root s) (slot H nm)) < MAX_BUCKET_SIZE"
  shows "\<exists>s'. HamtShard_insert H nm e s = Some (Inr (), s') \<and> shard_inv H s' \<and>
    (\<forall>c. bkt (hs_root s') c = (if c = slot H nm then bkt (hs_root s) c @ [(nm, e)] else bkt (hs_root s) c))"
proof -
  let ?b = "slot H nm" and ?nd = "hs_root s"
  have nd: "node_inv ?nd" using inv by (simp add: shard_inv_def)
  have "\<exists>nd'. HamtShard_insert H nm e s = Some (Inr (), (grow nm e s)\<lparr>hs_root := nd'\<rparr>) \<and> node_inv nd' \<and>
      (\<forall>c. node_lookup nd' c = (if c = ?b then Some (LBucket (bkt ?nd ?b @ [(nm, e)])) else node_lookup ?nd c))"
  proof (cases "bkt ?nd ?b = []")
    case True
    then have "node_lookup ?nd ?b = None" using shard_inv_bkt(3) [OF inv, of ?b] by simp
    then show ?thesis using True node_write_ok [OF nd, of ?b "LBucket [(nm, e)]"]
      by (auto simp: shard_op_defs Let_def link_bucket_def has_slot_lookup [OF nd])
  next
    case False
    then have l: "node_lookup ?nd ?b = Some (LBucket (bkt ?nd ?b))" using shard_inv_bkt(3) [OF inv, of ?b] by simp
    let ?er = "node_erase ?b ?nd"
    have er: "node_inv ?er" using node_erase_ok [OF nd] by simp
    have "HamtShard_insert H nm e s = Some (Inr (), (grow nm e s)\<lparr>hs_root := node_write ?b (LBucket (bkt ?nd ?b @ [(nm, e)])) ?er\<rparr>)"
      using l room node_erase_ok [OF nd, of ?b ?b] node_write_ok [OF er, of ?b "LBucket (bkt ?nd ?b @ [(nm, e)])" ?b]
        has_slot_lookup [OF nd, of ?b]
      by (simp add: shard_op_defs Let_def node_lookup_def [of ?nd ?b, symmetric])
    moreover have "node_lookup (node_write ?b l ?er) c = (if c = ?b then Some l else node_lookup ?nd c)" for l c
      using node_write_ok [OF er] node_erase_ok [OF nd] by simp
    ultimately show ?thesis using node_write_ok [OF er] by blast
  qed
  then obtain nd' where ins: "HamtShard_insert H nm e s = Some (Inr (), (grow nm e s)\<lparr>hs_root := nd'\<rparr>)" and nd': "node_inv nd'"
    and look: "\<And>c. node_lookup nd' c = (if c = ?b then Some (LBucket (bkt ?nd ?b @ [(nm, e)])) else node_lookup ?nd c)"
    by blast
  have "unat (hs_entry_count s) \<le> 256 * MAX_BUCKET_SIZE"
    using shard_list_bound [OF inv] inv by (simp add: shard_inv_def total_entries_collect HamtShard_list_def)
  then have "unat (hs_entry_count s + 1) = unat (hs_entry_count s) + 1"
    by (simp add: unat_word_ariths MAX_BUCKET_SIZE_def)
  then have "shard_inv H ((grow nm e s)\<lparr>hs_root := nd'\<rparr>)"
    using nd' look room shard_inv_bkt(2) [OF inv, of ?b]
    by (intro shard_inv_change [OF inv, of _ ?b "bkt ?nd ?b @ [(nm, e)]"]) (auto simp: grow_def)
  moreover have "bkt nd' c = (if c = ?b then bkt ?nd c @ [(nm, e)] else bkt ?nd c)" for c by (simp add: bkt_def look)
  ultimately show ?thesis using ins by auto
qed

lemma insert_full:
  assumes inv: "shard_inv H s" and full: "\<not> length (bkt (hs_root s) (slot H nm)) < MAX_BUCKET_SIZE"
  shows "HamtShard_insert H nm e s = Some (Inl (InvalidStructure ''collision handling not yet implemented''), s)"
proof -
  let ?b = "slot H nm" and ?nd = "hs_root s"
  have nd: "node_inv ?nd" using inv by (simp add: shard_inv_def)
  have "bkt ?nd ?b \<noteq> []" using full by (auto simp: MAX_BUCKET_SIZE_def)
  then have l: "node_lookup ?nd ?b = Some (LBucket (bkt ?nd ?b))" using shard_inv_bkt(3) [OF inv, of ?b] by simp
  with full has_slot_lookup [OF nd, of ?b] show ?thesis
    by (simp add: shard_op_defs Let_def node_lookup_def [of ?nd ?b, symmetric])
qed

lemma find_first: "map_option snd (List.find (\<lambda>(n, _). n = nm) es) =
    (case filter (\<lambda>p. fst p = nm) es of [] \<Rightarrow> None | p # _ \<Rightarrow> Some (snd p))"
  by (induction es) (auto split: prod.splits)

lemma take_first_SomeD:
  "take_first nm es = Some (e, es') \<Longrightarrow> length es = Suc (length es') \<and> set es' \<subseteq> set es \<and>
    filter (\<lambda>p. fst p = nm) es = (nm, e) # filter (\<lambda>p. fst p = nm) es' \<and>
    (\<forall>m. m \<noteq> nm \<longrightarrow> filter (\<lambda>p. fst p = m) es' = filter (\<lambda>p. fst p = m) es)"
  by (induction nm es arbitrary: es' rule: take_first.induct) (auto split: if_splits)

lemma take_first_NoneD: "take_first nm es = None \<Longrightarrow> filter (\<lambda>p. fst p = nm) es = []"
  by (induction nm es rule: take_first.induct) (auto split: if_splits)

lemma get_eq:
  "shard_inv H s \<Longrightarrow> HamtShard_get H nm s =
    (case filter (\<lambda>p. fst p = nm) (bkt (hs_root s) (slot H nm)) of [] \<Rightarrow> None | p # _ \<Rightarrow> Some (snd p))"
  using shard_inv_bkt(3) [of H s "slot H nm"]
  by (simp add: shard_op_defs node_lookup_def [symmetric] find_first)

lemma remove_absent:
  assumes inv: "shard_inv H s" and "take_first nm (bkt (hs_root s) (slot H nm)) = None"
  shows "HamtShard_remove H nm s = Some (Inr None, s)"
  using assms shard_inv_bkt(3) [OF inv, of "slot H nm"] has_slot_lookup [of "hs_root s" "slot H nm"]
  by (simp add: shard_op_defs Let_def node_lookup_def [of "hs_root s" "slot H nm", symmetric])

lemma remove_ok:
  assumes inv: "shard_inv H s" and tf: "take_first nm (bkt (hs_root s) (slot H nm)) = Some (e, es')"
  shows "\<exists>s'. HamtShard_remove H nm s = Some (Inr (Some e), s') \<and> shard_inv H s' \<and>
    hs_estimated_size s' = estimate_size (hs_root s) \<and>
    (\<forall>c. bkt (hs_root s') c = (if c = slot H nm then es' else bkt (hs_root s) c))"
proof -
  let ?b = "slot H nm" and ?nd = "hs_root s"
  let ?nd' = "if es' = [] then node_erase ?b ?nd else node_write ?b (LBucket es') ?nd"
  let ?s = "s\<lparr>hs_entry_count := sat_sub64 (hs_entry_count s) 1, hs_estimated_size := estimate_size (hs_root s), hs_root := ?nd'\<rparr>"
  have nd: "node_inv ?nd" using inv by (simp add: shard_inv_def)
  have "bkt ?nd ?b \<noteq> []" using tf by auto
  then have l: "node_lookup ?nd ?b = Some (LBucket (bkt ?nd ?b))" using shard_inv_bkt(3) [OF inv, of ?b] by simp
  have rm: "HamtShard_remove H nm s = Some (Inr (Some e), ?s)"
    using l tf has_slot_lookup [OF nd, of ?b] node_erase_ok [OF nd, of ?b ?b] node_write_ok [OF nd, of ?b "LBucket es'" ?b]
    by (simp add: shard_op_defs Let_def node_lookup_def [of ?nd ?b, symmetric])
  have look: "node_lookup ?nd' c = (if c = ?b then if es' = [] then None else Some (LBucket es') else node_lookup ?nd c)" for c
    using node_erase_ok [OF nd] node_write_ok [OF nd] by simp
  have bk: "bkt ?nd' c = (if c = ?b then es' else bkt ?nd c)" for c by (simp add: bkt_def look)
  have "length (bkt ?nd ?b) \<le> (\<Sum>i < 256. length (bkt ?nd (of_nat i)))"
    using unat_byte [of ?b] member_le_sum [of "unat ?b" "{..<256 :: nat}" "\<lambda>i. length (bkt ?nd (of_nat i))"] by simp
  then have "1 \<le> unat (hs_entry_count s)" using inv nd \<open>bkt ?nd ?b \<noteq> []\<close>
    by (cases "bkt ?nd ?b") (auto simp: shard_inv_def total_entries_collect length_collect_entries)
  then have "shard_inv H ?s"
    using nd look take_first_SomeD [OF tf] shard_inv_bkt(1,2) [OF inv, of ?b] node_erase_ok [OF nd] node_write_ok [OF nd]
    by (intro shard_inv_change [OF inv, of _ ?b es']) (auto simp: unat_sat_sub64)
  then show ?thesis using rm bk by auto
qed

section \<open>The directory a shard stands for\<close>

text \<open>
  The specification: every name has a queue of entries and every slot a load. An insertion
  appends to the queue of its name while the slot of the name holds fewer than 256 entries, a
  lookup reads the front of the queue, a removal drops it.
\<close>

datatype hamt_op = OpInsert string hamt_entry | OpRemove string | OpGet string

datatype hamt_reply =
    RInsert "(hamt_error, unit) result"
  | RRemove "(hamt_error, hamt_entry option) result"
  | RGet "hamt_entry option"

fun shard_step :: "(string \<Rightarrow> bytes) \<Rightarrow> hamt_op \<Rightarrow> hamt_shard \<Rightarrow> (hamt_reply \<times> hamt_shard) option" where
  "shard_step H (OpInsert nm e) s = map_option (\<lambda>(r, s'). (RInsert r, s')) (HamtShard_insert H nm e s)"
| "shard_step H (OpRemove nm) s = map_option (\<lambda>(r, s'). (RRemove r, s')) (HamtShard_remove H nm s)"
| "shard_step H (OpGet nm) s = Some (RGet (HamtShard_get H nm s), s)"

record directory =
  dir_queue :: "string \<Rightarrow> hamt_entry list"
  dir_load :: "u8 \<Rightarrow> nat"

definition front :: "'a list \<Rightarrow> 'a option" where
  "front xs = (case xs of [] \<Rightarrow> None | x # _ \<Rightarrow> Some x)"

fun directory_step :: "(string \<Rightarrow> bytes) \<Rightarrow> hamt_op \<Rightarrow> directory \<Rightarrow> hamt_reply \<times> directory" where
  "directory_step H (OpInsert nm e) d =
     (if dir_load d (slot H nm) < 256
      then (RInsert (Inr ()), \<lparr>dir_queue = (dir_queue d)(nm := dir_queue d nm @ [e]),
              dir_load = (dir_load d)(slot H nm := dir_load d (slot H nm) + 1)\<rparr>)
      else (RInsert (Inl (InvalidStructure ''collision handling not yet implemented'')), d))"
| "directory_step H (OpRemove nm) d =
     (case dir_queue d nm of
        [] \<Rightarrow> (RRemove (Inr None), d)
      | e # es \<Rightarrow> (RRemove (Inr (Some e)), \<lparr>dir_queue = (dir_queue d)(nm := es),
              dir_load = (dir_load d)(slot H nm := dir_load d (slot H nm) - 1)\<rparr>))"
| "directory_step H (OpGet nm) d = (RGet (front (dir_queue d nm)), d)"

definition empty_directory :: directory where
  "empty_directory = \<lparr>dir_queue = \<lambda>_. [], dir_load = \<lambda>_. 0\<rparr>"

definition shard_abs :: "(string \<Rightarrow> bytes) \<Rightarrow> hamt_shard \<Rightarrow> directory" where
  "shard_abs H s =
     \<lparr>dir_queue = \<lambda>nm. map snd (filter (\<lambda>p. fst p = nm) (bkt (hs_root s) (slot H nm))),
      dir_load = \<lambda>b. length (bkt (hs_root s) b)\<rparr>"

fun panic_run :: "('op \<Rightarrow> 's \<Rightarrow> ('r \<times> 's) option) \<Rightarrow> 'op list \<Rightarrow> 's \<Rightarrow> ('r list \<times> 's) option" where
  "panic_run step [] s = Some ([], s)"
| "panic_run step (p # ps) s = (case step p s of None \<Rightarrow> None
     | Some (r, s') \<Rightarrow> map_option (\<lambda>(rs, s''). (r # rs, s'')) (panic_run step ps s'))"

fun spec_run :: "('op \<Rightarrow> 'a \<Rightarrow> 'r \<times> 'a) \<Rightarrow> 'op list \<Rightarrow> 'a \<Rightarrow> 'r list \<times> 'a" where
  "spec_run spec [] a = ([], a)"
| "spec_run spec (p # ps) a = (case spec p a of (r, a') \<Rightarrow> case spec_run spec ps a' of (rs, a'') \<Rightarrow> (r # rs, a''))"

text \<open>
  A machine whose operations may panic and the specification it implements: while the invariant
  holds no operation panics, and every operation answers and moves as the specification does.
\<close>

locale panic_free_simulation =
  fixes step :: "'op \<Rightarrow> 's \<Rightarrow> ('r \<times> 's) option"
    and spec :: "'op \<Rightarrow> 'a \<Rightarrow> 'r \<times> 'a"
    and abs_state :: "'s \<Rightarrow> 'a"
    and inv :: "'s \<Rightarrow> bool"
  assumes simulates: "inv s \<Longrightarrow> \<exists>r s'. step p s = Some (r, s') \<and> spec p (abs_state s) = (r, abs_state s') \<and> inv s'"
begin

lemma run_simulates:
  "inv s \<Longrightarrow> \<exists>rs s'. panic_run step ps s = Some (rs, s') \<and> spec_run spec ps (abs_state s) = (rs, abs_state s') \<and> inv s'"
proof (induction ps arbitrary: s)
  case (Cons p ps)
  from simulates [OF Cons.prems] obtain r s1
    where 1: "step p s = Some (r, s1)" "spec p (abs_state s) = (r, abs_state s1)" "inv s1" by blast
  from Cons.IH [OF 1(3)] obtain rs s2
    where "panic_run step ps s1 = Some (rs, s2)" "spec_run spec ps (abs_state s1) = (rs, abs_state s2)" "inv s2" by blast
  with 1 show ?case by auto
qed simp

end

lemma abs_insert:
  "(\<forall>c. bkt (hs_root s') c = (if c = slot H nm then bkt (hs_root s) c @ [(nm, e)] else bkt (hs_root s) c)) \<Longrightarrow>
    shard_abs H s' = \<lparr>dir_queue = (dir_queue (shard_abs H s))(nm := dir_queue (shard_abs H s) nm @ [e]),
      dir_load = (dir_load (shard_abs H s))(slot H nm := dir_load (shard_abs H s) (slot H nm) + 1)\<rparr>"
  by (auto simp: shard_abs_def fun_eq_iff)

lemma shard_simulates:
  assumes inv: "shard_inv H s"
  shows "\<exists>r s'. shard_step H p s = Some (r, s') \<and> directory_step H p (shard_abs H s) = (r, shard_abs H s') \<and> shard_inv H s'"
proof (cases p)
  case (OpInsert nm e)
  show ?thesis
  proof (cases "length (bkt (hs_root s) (slot H nm)) < MAX_BUCKET_SIZE")
    case True
    with insert_ok [OF inv True, of e] obtain s' where
      1: "HamtShard_insert H nm e s = Some (Inr (), s')" "shard_inv H s'"
        "\<forall>c. bkt (hs_root s') c = (if c = slot H nm then bkt (hs_root s) c @ [(nm, e)] else bkt (hs_root s) c)" by blast
    from abs_insert [OF 1(3)] True 1(1,2) show ?thesis
      by (simp add: OpInsert) (simp add: shard_abs_def MAX_BUCKET_SIZE_def)
  next
    case False
    with insert_full [OF inv False, of e] inv show ?thesis by (simp add: OpInsert shard_abs_def MAX_BUCKET_SIZE_def)
  qed
next
  case (OpRemove nm)
  show ?thesis
  proof (cases "take_first nm (bkt (hs_root s) (slot H nm))")
    case None
    moreover from None have "filter (\<lambda>p. fst p = nm) (bkt (hs_root s) (slot H nm)) = []"
      by (rule take_first_NoneD)
    ultimately show ?thesis using remove_absent [OF inv] inv by (simp add: OpRemove shard_abs_def)
  next
    case (Some q)
    then obtain e es' where tf: "take_first nm (bkt (hs_root s) (slot H nm)) = Some (e, es')" by (cases q) auto
    with remove_ok [OF inv tf] obtain s' where
      1: "HamtShard_remove H nm s = Some (Inr (Some e), s')" "shard_inv H s'"
        "\<forall>c. bkt (hs_root s') c = (if c = slot H nm then es' else bkt (hs_root s) c)" by blast
    from take_first_SomeD [OF tf] 1 show ?thesis by (auto simp: OpRemove shard_abs_def fun_eq_iff)
  qed
next
  case (OpGet nm)
  with get_eq [OF inv, of nm] inv show ?thesis by (simp add: shard_abs_def front_def split: list.splits)
qed

interpretation hamt_directory: panic_free_simulation "shard_step H" "directory_step H" "shard_abs H" "shard_inv H" for H
  by unfold_locales (rule shard_simulates)

lemma shard_abs_new [simp]: "shard_abs H HamtShard_new = empty_directory"
  by (simp add: shard_abs_def empty_directory_def bkt_def HamtShard_new_def node_lookup_def get_child_def)

text \<open>
  C35. A sharded directory implements its specification. Under every sequence of insertions,
  removals and lookups on a new shard no operation panics, and every answer is the one of the
  directory of queues: an insertion succeeds exactly while fewer than 256 entries share the first
  hash byte of its name, a lookup returns the oldest entry inserted under the name, a removal
  drops and returns it.
\<close>

theorem hamt_refines_directory:
  "\<exists>rs s. panic_run (shard_step H) ops HamtShard_new = Some (rs, s) \<and>
     spec_run (directory_step H) ops empty_directory = (rs, shard_abs H s)"
  using hamt_directory.run_simulates [of H HamtShard_new ops] by auto

text \<open>
  The counter of a shard is exact and its capacity is bounded. After every sequence of
  operations on a new shard the entry count is the number of entries \<^verbatim>\<open>list\<close> returns, at
  most 65536, and the packed links are as many as the set bits of the bit field.
\<close>

theorem hamt_count_exact:
  "\<exists>rs s. panic_run (shard_step H) ops HamtShard_new = Some (rs, s) \<and>
     unat (hs_entry_count s) = length (HamtShard_list s) \<and> length (HamtShard_list s) \<le> 65536 \<and>
     length (nd_links (hs_root s)) = child_count (hs_root s)"
proof -
  from hamt_directory.run_simulates [of H HamtShard_new ops] obtain rs s
    where run: "panic_run (shard_step H) ops HamtShard_new = Some (rs, s)" and inv: "shard_inv H s" by auto
  have "length (nd_links (hs_root s)) = child_count (hs_root s)"
    using inv child_count_rank [of "hs_root s"] by (simp add: shard_inv_def node_inv_def)
  with run inv shard_list_bound [OF inv] show ?thesis
    by (auto simp: shard_inv_def total_entries_collect HamtShard_list_def MAX_BUCKET_SIZE_def)
qed

text \<open>
  Inserting under a name that is taken has no visible effect: the insertion succeeds, the
  counter grows, and every later lookup still returns the old entry.
\<close>

theorem hamt_overwrite_invisible:
  assumes "panic_run (shard_step H) ops HamtShard_new = Some (rs, s)"
    and "HamtShard_get H nm s = Some old" and "HamtShard_insert H nm e s = Some (Inr (), s')"
  shows "HamtShard_get H nm s' = Some old \<and> length (HamtShard_list s') = Suc (length (HamtShard_list s))"
proof -
  from hamt_directory.run_simulates [of H HamtShard_new ops] assms(1) have inv: "shard_inv H s" by auto
  let ?b = "slot H nm"
  have room: "length (bkt (hs_root s) ?b) < MAX_BUCKET_SIZE" using insert_full [OF inv, of nm e] assms(3) by auto
  from insert_ok [OF inv room, of e] assms(3) have inv': "shard_inv H s'"
    and bk: "\<And>c. bkt (hs_root s') c = (if c = ?b then bkt (hs_root s) ?b @ [(nm, e)] else bkt (hs_root s) c)" by auto
  have "length (HamtShard_list s') + length (bkt (hs_root s) ?b) = length (HamtShard_list s) + length (bkt (hs_root s) ?b @ [(nm, e)])"
    unfolding HamtShard_list_def using inv inv' bk by (intro length_collect_change) (auto simp: shard_inv_def)
  moreover have "HamtShard_get H nm s' = Some old"
    using get_eq [OF inv] get_eq [OF inv'] assms(2) bk by (auto split: list.splits)
  ultimately show ?thesis by simp
qed

theorem hamt_overwrite_invisible_witness:
  "\<exists>s s'. panic_run (shard_step (\<lambda>_. replicate 32 0)) [OpInsert ''a'' (HFile [] 1)] HamtShard_new = Some ([RInsert (Inr ())], s) \<and>
     HamtShard_insert (\<lambda>_. replicate 32 0) ''a'' (HFile [] 2) s = Some (Inr (), s') \<and>
     HamtShard_get (\<lambda>_. replicate 32 0) ''a'' s' = Some (HFile [] 1) \<and> length (HamtShard_list s') = Suc (length (HamtShard_list s))"
proof -
  let ?H = "\<lambda>_ :: string. replicate 32 0 :: bytes"
  let ?nd = "\<lambda>es. \<lparr>nd_bitfield = 1 # replicate 31 0, nd_links = [LBucket es], nd_estimated_size = 0\<rparr>"
  let ?s = "\<lparr>hs_root = ?nd [(''a'', HFile [] 1)], hs_entry_count = 1, hs_estimated_size = 46, hs_hash = None\<rparr>"
  let ?s' = "\<lparr>hs_root = ?nd [(''a'', HFile [] 1), (''a'', HFile [] 2)], hs_entry_count = 2, hs_estimated_size = 93, hs_hash = None\<rparr>"
  have run: "panic_run (shard_step ?H) [OpInsert ''a'' (HFile [] 1)] HamtShard_new = Some ([RInsert (Inr ())], ?s)" by code_simp
  have got: "HamtShard_get ?H ''a'' ?s = Some (HFile [] 1)" by code_simp
  have ins: "HamtShard_insert ?H ''a'' (HFile [] 2) ?s = Some (Inr (), ?s')" by code_simp
  from run ins hamt_overwrite_invisible [OF run got ins] show ?thesis by blast
qed

section \<open>Rebuilding and importing\<close>

lemma insert_loop_ok:
  assumes "shard_inv H s" and "\<And>b. length (bkt (hs_root s) b) + length (filter (\<lambda>p. slot H (fst p) = b) es) \<le> MAX_BUCKET_SIZE"
  shows "\<exists>s'. insert_loop H es s = Some (Inr (), s') \<and> shard_inv H s' \<and>
    (\<forall>b. bkt (hs_root s') b = bkt (hs_root s) b @ filter (\<lambda>p. slot H (fst p) = b) es)"
  using assms
proof (induction es arbitrary: s)
  case (Cons p es)
  obtain nm e where p: "p = (nm, e)" by (cases p)
  have "length (bkt (hs_root s) (slot H nm)) < MAX_BUCKET_SIZE" using Cons.prems(2) [of "slot H nm"] by (simp add: p)
  from insert_ok [OF Cons.prems(1) this, of e] obtain s1 where
    1: "HamtShard_insert H nm e s = Some (Inr (), s1)" "shard_inv H s1"
      "\<forall>c. bkt (hs_root s1) c = (if c = slot H nm then bkt (hs_root s) c @ [(nm, e)] else bkt (hs_root s) c)" by blast
  have "length (bkt (hs_root s1) b) + length (filter (\<lambda>p. slot H (fst p) = b) es) \<le> MAX_BUCKET_SIZE" for b
    using Cons.prems(2) [of b] 1(3) by (cases "b = slot H nm") (auto simp: p)
  from Cons.IH [OF 1(2) this] obtain s2 where "insert_loop H es s1 = Some (Inr (), s2)" "shard_inv H s2"
    "\<forall>b. bkt (hs_root s2) b = bkt (hs_root s1) b @ filter (\<lambda>p. slot H (fst p) = b) es" by blast
  with 1 show ?case by (auto simp: p)
qed simp

lemma filter_concat_one:
  "distinct xs \<Longrightarrow> k \<in> set xs \<Longrightarrow> filter P (f k) = f k \<Longrightarrow> (\<And>x. x \<in> set xs \<Longrightarrow> x \<noteq> k \<Longrightarrow> filter P (f x) = []) \<Longrightarrow>
    filter P (concat (map f xs)) = f k"
proof (induction xs)
  case (Cons x xs)
  show ?case
  proof (cases "x = k")
    case True
    have "filter P (f y) = []" if "y \<in> set xs" for y using that Cons.prems True by auto
    then have "filter P (concat (map f xs)) = []" by (induction xs) auto
    with True Cons.prems show ?thesis by simp
  next
    case False
    with Cons show ?thesis by simp
  qed
qed simp

lemma list_of_slot:
  assumes inv: "shard_inv H s"
  shows "filter (\<lambda>p. slot H (fst p) = b) (HamtShard_list s) = bkt (hs_root s) b"
proof -
  have "filter (\<lambda>p. slot H (fst p) = b) (concat (map (\<lambda>i. bkt (hs_root s) (of_nat i)) [0..<256])) = bkt (hs_root s) (of_nat (unat b))"
  proof (rule filter_concat_one)
    show "unat b \<in> set [0..<256]" using unat_byte [of b] by simp
    fix i assume "i \<in> set [0..<256]" "i \<noteq> unat b"
    then have "(of_nat i :: u8) \<noteq> b" by (simp add: of_nat_byte_eq)
    then show "filter (\<lambda>p. slot H (fst p) = b) (bkt (hs_root s) (of_nat i)) = []"
      using shard_inv_bkt(2) [OF inv, of "of_nat i"] by auto
  qed (use shard_inv_bkt(2) [OF inv, of b] in simp_all)
  then show ?thesis using inv by (simp add: HamtShard_list_def shard_inv_def collect_entries_buckets)
qed

text \<open>Sharding a manager rebuilds the same single node: the buckets are unchanged.\<close>

lemma manager_shard_rebuilds:
  assumes inv: "shard_inv H (sm_root m)"
  shows "\<exists>m'. ShardManager_shard H m = Some (Inr (), m') \<and> bkt (hs_root (sm_root m')) = bkt (hs_root (sm_root m)) \<and>
    HamtShard_list (sm_root m') = HamtShard_list (sm_root m)"
proof (cases "ShardManager_should_shard m")
  case True
  have new: "bkt (hs_root HamtShard_new) b = []" for b
    by (simp add: bkt_def HamtShard_new_def node_lookup_def get_child_def)
  have "length (bkt (hs_root HamtShard_new) b) + length (filter (\<lambda>p. slot H (fst p) = b) (HamtShard_list (sm_root m))) \<le> MAX_BUCKET_SIZE" for b
    using shard_inv_bkt(1) [OF inv] by (simp add: new list_of_slot [OF inv])
  from insert_loop_ok [OF shard_inv_new this] obtain s' where
    s': "insert_loop H (HamtShard_list (sm_root m)) HamtShard_new = Some (Inr (), s')" "shard_inv H s'"
      "bkt (hs_root s') = bkt (hs_root (sm_root m))" by (auto simp: new list_of_slot [OF inv] fun_eq_iff)
  then have "HamtShard_list s' = HamtShard_list (sm_root m)"
    using inv by (simp add: HamtShard_list_def shard_inv_def collect_entries_buckets)
  with True s' show ?thesis by (simp add: ShardManager_shard_def)
qed (simp add: ShardManager_shard_def)

lemma mset_concat_slots:
  "distinct is \<Longrightarrow> mset (concat (map (\<lambda>i. filter (\<lambda>x. g x = i) es) is)) = mset (filter (\<lambda>x. g x \<in> set is) es)"
proof (induction "is")
  case (Cons i "is")
  have "i \<notin> set is" using Cons.prems by simp
  then have "mset (filter (\<lambda>x. g x \<in> set (i # is)) es) = mset (filter (\<lambda>x. g x = i) es) + mset (filter (\<lambda>x. g x \<in> set is) es)"
    by (induction es) auto
  with Cons show ?case by simp
qed simp

text \<open>What a run of insertions on a new shard holds: the given entries, as a multiset.\<close>

lemma insert_loop_new:
  assumes "\<And>b. length (filter (\<lambda>p. slot H (fst p) = b) es) \<le> MAX_BUCKET_SIZE"
  shows "\<exists>s. insert_loop H es HamtShard_new = Some (Inr (), s) \<and> shard_inv H s \<and> mset (HamtShard_list s) = mset es \<and>
    (\<forall>b. bkt (hs_root s) b = filter (\<lambda>p. slot H (fst p) = b) es)"
proof -
  have new: "bkt (hs_root HamtShard_new) b = []" for b
    by (simp add: bkt_def HamtShard_new_def node_lookup_def get_child_def)
  from insert_loop_ok [OF shard_inv_new, of H es] assms obtain s where
    s: "insert_loop H es HamtShard_new = Some (Inr (), s)" "shard_inv H s"
      "\<forall>b. bkt (hs_root s) b = filter (\<lambda>p. slot H (fst p) = b) es" by (auto simp: new)
  have "HamtShard_list s = concat (map (\<lambda>i. filter (\<lambda>p. unat (slot H (fst p)) = i) es) [0..<256])"
    using s(2,3) unfolding HamtShard_list_def shard_inv_def
    by (auto simp: collect_entries_buckets of_nat_byte_eq eq_commute [of "slot H _"] intro!: arg_cong [where f = concat] map_cong filter_cong)
  also have "mset \<dots> = mset (filter (\<lambda>p. unat (slot H (fst p)) \<in> set [0..<256]) es)" by (rule mset_concat_slots) simp
  also have "\<dots> = mset es" using unat_byte by (simp del: upt_conv_Cons_Cons)
  finally show ?thesis using s by blast
qed

lemma length_filter_mset: "mset xs = mset ys \<Longrightarrow> length (filter P xs) = length (filter P ys)"
  by (metis mset_filter size_mset)

lemma build_chunks_ok:
  assumes "\<And>c b. c \<in> set cs \<Longrightarrow> length (filter (\<lambda>p. slot H (fst p) = b) c) \<le> MAX_BUCKET_SIZE"
  shows "\<exists>ss. build_chunks H cs = Some (Inr ss) \<and> length ss = length cs \<and> list_all (shard_inv H) ss \<and>
    mset (concat (map HamtShard_list ss)) = mset (concat cs)"
  using assms
proof (induction cs)
  case (Cons c cs)
  have "length (filter (\<lambda>p. slot H (fst p) = b) (sort_key fst c)) \<le> MAX_BUCKET_SIZE" for b
    using Cons.prems [of c b] length_filter_mset [of "sort_key fst c" c "\<lambda>p. slot H (fst p) = b"] by simp
  from insert_loop_new [OF this] obtain s where
    1: "insert_loop H (sort_key fst c) HamtShard_new = Some (Inr (), s)" "shard_inv H s" "mset (HamtShard_list s) = mset c" by auto
  from Cons obtain ss where "build_chunks H cs = Some (Inr ss)" "length ss = length cs" "list_all (shard_inv H) ss"
    "mset (concat (map HamtShard_list ss)) = mset (concat cs)" by (metis list.set_intros(2))
  with 1 show ?case by simp
qed simp

lemma concat_chunks_of: "0 < n \<Longrightarrow> concat (chunks_of n xs) = xs"
  by (induction n xs rule: chunks_of.induct) (subst chunks_of.simps, auto)

lemma concat_nonempty: "concat (filter (\<lambda>c. c \<noteq> []) cs) = concat cs"
  by (induction cs) auto

lemma length_filter_concat: "c \<in> set cs \<Longrightarrow> length (filter P c) \<le> length (filter P (concat cs))"
  by (induction cs) auto

text \<open>
  A parallel import of any entries, of which no more than 256 share a first hash byte, loses
  and adds nothing: whatever the number of workers (at least one) the resulting shard lists
  exactly the given entries.
\<close>

theorem parallel_import_complete:
  assumes "0 < pi_num_workers p" and load: "\<And>b. length (filter (\<lambda>x. slot H (fst x) = b) es) \<le> MAX_BUCKET_SIZE"
  shows "\<exists>s. ParallelBulkImporter_import H p es = Some (Inr s) \<and> shard_inv H s \<and> mset (HamtShard_list s) = mset es"
proof (cases "es = []")
  case True
  then show ?thesis by (simp add: ParallelBulkImporter_import_def)
      (simp add: HamtShard_list_def HamtShard_new_def HamtNode_new_def)
next
  case False
  let ?cs = "filter (\<lambda>c. c \<noteq> []) (chunks_of (max (length es div pi_num_workers p) 1) es)"
  have cs: "concat ?cs = es"
    using concat_chunks_of [of "max (length es div pi_num_workers p) 1" es] by (simp add: concat_nonempty)
  have "length (filter (\<lambda>x. slot H (fst x) = b) c) \<le> MAX_BUCKET_SIZE" if "c \<in> set ?cs" for c b
    using length_filter_concat [OF that] load [of b] cs by (metis order_trans)
  from build_chunks_ok [OF this] obtain ss where
    ss: "build_chunks H ?cs = Some (Inr ss)" "list_all (shard_inv H) ss" "mset (concat (map HamtShard_list ss)) = mset es"
    using cs by metis
  from length_filter_mset [OF ss(3)] load
  have "length (filter (\<lambda>x. slot H (fst x) = b) (concat (map HamtShard_list ss))) \<le> MAX_BUCKET_SIZE" for b by simp
  from insert_loop_new [OF this] obtain s where
    s: "insert_loop H (concat (map HamtShard_list ss)) HamtShard_new = Some (Inr (), s)" "shard_inv H s" "mset (HamtShard_list s) = mset es"
    using ss(3) by auto
  have "\<exists>s. merge_shards H ss = Some (Inr s) \<and> shard_inv H s \<and> mset (HamtShard_list s) = mset es"
    using s ss(2,3) False by (auto simp: merge_shards_def only_shard_def split: list.splits)
  with ss(1) False assms(1) show ?thesis by (simp add: ParallelBulkImporter_import_def)
qed

theorem parallel_import_complete_witness:
  "\<exists>s. ParallelBulkImporter_import (\<lambda>_. replicate 32 0) \<lparr>pi_batch_size = 10000, pi_num_workers = 4\<rparr>
       [(''a'', HFile [] 1), (''b'', HFile [] 2)] = Some (Inr s) \<and> shard_inv (\<lambda>_. replicate 32 0) s \<and>
     mset (HamtShard_list s) = mset [(''a'', HFile [] 1), (''b'', HFile [] 2)]"
  by (rule parallel_import_complete) (simp_all add: MAX_BUCKET_SIZE_def)

section \<open>The iterators\<close>

fun yielded :: "nat \<Rightarrow> hamt_link list \<Rightarrow> (string \<times> hamt_entry) list" where
  "yielded p [] = []"
| "yielded p (LBucket es # ls) = (if p < length es then es ! p # yielded (Suc p) ls else yielded 0 ls)"
| "yielded p (LShard _ # ls) = yielded p ls"

lemma HamtIter_next_empty [simp]: "HamtIter_next \<lparr>it_current_bucket_pos = p, it_stack = []\<rparr> = (None, \<lparr>it_current_bucket_pos = p, it_stack = []\<rparr>)"
  by (simp add: HamtIter_next.simps)

lemma collect_yielded:
  "i \<le> length ls \<Longrightarrow> HamtIter_collect \<lparr>it_current_bucket_pos = p, it_stack = [\<lparr>sf_links = ls, sf_position = i\<rparr>]\<rparr> = yielded p (drop i ls)"
proof (induction "length ls - i" arbitrary: i p)
  case 0
  then show ?case by (subst HamtIter_collect.simps, subst HamtIter_next.simps) simp
next
  case (Suc n)
  then have i: "i < length ls" by simp
  note IH = Suc.hyps(1) [of "Suc i"]
  let ?it = "\<lparr>it_current_bucket_pos = p, it_stack = [\<lparr>sf_links = ls, sf_position = i\<rparr>]\<rparr>"
  let ?nx = "\<lambda>p. \<lparr>it_current_bucket_pos = p, it_stack = [\<lparr>sf_links = ls, sf_position = Suc i\<rparr>]\<rparr>"
  have skip: "HamtIter_collect ?it = HamtIter_collect (?nx q)" if "HamtIter_next ?it = HamtIter_next (?nx q)" for q
    using that by (subst (1 2) HamtIter_collect.simps) simp
  have d: "drop i ls = ls ! i # drop (Suc i) ls" using i by (rule Cons_nth_drop_Suc [symmetric])
  show ?case
  proof (cases "ls ! i")
    case (LShard h)
    with i have "HamtIter_next ?it = HamtIter_next (?nx p)" by (subst HamtIter_next.simps) (simp add: advance_frame_def)
    from skip [OF this] IH i Suc.hyps(2) LShard show ?thesis by (simp add: d)
  next
    case (LBucket es)
    show ?thesis
    proof (cases "p < length es")
      case True
      with i LBucket have "HamtIter_next ?it = (Some (es ! p), ?nx (Suc p))"
        by (subst HamtIter_next.simps) (simp add: advance_frame_def)
      then have "HamtIter_collect ?it = es ! p # HamtIter_collect (?nx (Suc p))" by (subst HamtIter_collect.simps) simp
      with IH i Suc.hyps(2) LBucket True show ?thesis by (simp add: d)
    next
      case False
      with i LBucket have "HamtIter_next ?it = HamtIter_next (?nx 0)" by (subst HamtIter_next.simps) (simp add: advance_frame_def)
      from skip [OF this] IH i Suc.hyps(2) LBucket False show ?thesis by (simp add: d)
    qed
  qed
qed

fun every_other :: "'a list \<Rightarrow> 'a list" where
  "every_other (x # y # xs) = x # every_other xs"
| "every_other xs = xs"

lemma yielded_singletons: "list_all (\<lambda>l. \<exists>x. l = LBucket [x]) ls \<Longrightarrow> yielded 0 ls = every_other (collect_entries ls)"
proof (induction ls rule: every_other.induct)
  case (1 x y xs)
  then show ?case by auto
qed auto

text \<open>
  The iterator of a shard leaves entries out. When no two names share a bucket, iterating
  yields every other entry of \<^verbatim>\<open>list\<close>: the position in a bucket is not reset when the next
  link is taken, so the entry of the second, fourth, ... bucket is skipped.
\<close>

theorem hamt_iter_skips_entries:
  assumes "list_all (\<lambda>l. \<exists>x. l = LBucket [x]) (nd_links (hs_root s))"
  shows "HamtIter_collect (HamtIter_new s) = every_other (HamtShard_list s)"
  using assms by (simp add: HamtIter_new_def collect_yielded yielded_singletons HamtShard_list_def)

theorem hamt_iter_skips_entries_witness:
  "\<exists>s. insert_loop str_as_bytes [(''a'', HFile [] 1), (''b'', HFile [] 2)] HamtShard_new = Some (Inr (), s) \<and>
     HamtShard_list s = [(''a'', HFile [] 1), (''b'', HFile [] 2)] \<and> HamtIter_collect (HamtIter_new s) = [(''a'', HFile [] 1)]"
proof -
  let ?s = "\<lparr>hs_root = \<lparr>nd_bitfield = replicate 12 0 @ 6 # replicate 19 0,
      nd_links = [LBucket [(''a'', HFile [] 1)], LBucket [(''b'', HFile [] 2)]], nd_estimated_size = 0\<rparr>,
    hs_entry_count = 2, hs_estimated_size = 93, hs_hash = None\<rparr>"
  have "insert_loop str_as_bytes [(''a'', HFile [] 1), (''b'', HFile [] 2)] HamtShard_new = Some (Inr (), ?s)" by code_simp
  moreover have "HamtShard_list ?s = [(''a'', HFile [] 1), (''b'', HFile [] 2)]" by (simp add: HamtShard_list_def)
  moreover have "HamtIter_collect (HamtIter_new ?s) = every_other (HamtShard_list ?s)"
    by (rule hamt_iter_skips_entries) simp
  ultimately show ?thesis by auto
qed

text \<open>The filtering iterators return the next match of the entries the iterator yields.\<close>

lemma filter_next_find: "fst (filter_next P it) = List.find P (HamtIter_collect it)"
proof (induction P it rule: filter_next.induct)
  case (1 P it)
  then show ?case
    by (subst filter_next.simps, subst HamtIter_collect.simps) (auto split: prod.splits option.splits)
qed

lemma sorted_iter_sorted: "sorted (map fst (vi_entries (SortedHamtIter_new s))) \<and> mset (vi_entries (SortedHamtIter_new s)) = mset (HamtShard_list s)"
  by (simp add: SortedHamtIter_new_def)
end
