(* ===== verification/Namespace.thy ===== *)
theory Namespace
  imports Prelude Bao_Tree "HOL-Library.Finite_Map" "HOL-Library.Sublist"
    "HOL-Library.Char_ord" "HOL-Library.List_Lexorder"
begin

text \<open>
  The NAS namespace, \<^verbatim>\<open>crates/a3net-blobstore/src/namespace.rs\<close>: decoding of request paths, the
  manifest (a tree of named entries), its mutations, the audit log, the manifest file, the trash
  and the version snapshots.

  \<^item> A \<^verbatim>\<open>BTreeMap\<close> of children is a finite map. The code walks to a directory with a mutable
    borrow and lets the caller edit its children: here the walk takes that edit as a function and
    returns its result with the changed tree, also when the edit or the walk fails.
  \<^item> Every operation has the code's three phases: change the manifest in memory, append the audit
    record, persist the manifest. \<open>io\<close> says which of the writes succeed. Files hold the values the
    code serialises with \<^verbatim>\<open>serde_json\<close>.
  \<^item> The clock, the random number of a trash file and the quota hook are arguments; times are
    integers. Texts of error messages are constructors.
  The lemmas: decoded paths never leave the root; what each operation does to every path; trash and
  paths round trip; and how failing writes and failing renames break what the module promises.
\<close>

section \<open>Paths\<close>

definition MAX_DEPTH :: nat where "MAX_DEPTH = 64"
definition MAX_CHILDREN_PER_DIR :: nat where "MAX_CHILDREN_PER_DIR = 100000"
definition MAX_PATH_RAW_LEN :: nat where "MAX_PATH_RAW_LEN = 4096"
definition AUDIT_SCHEMA_VERSION :: u32 where "AUDIT_SCHEMA_VERSION = 1"

type_synonym path_segments = "string list"

datatype traversal_reason =
    TruncatedEscape nat
  | InvalidHex nat
  | NullByte
  | NullDecoded
  | NotUtf8
  | EmptySegment
  | NoLeadingSlash
  | EscapesRoot string
  | CannotMutateRoot
  | CannotReplaceRoot
  | DestinationExists string

datatype ns_error =
    NsIo
  | Traversal traversal_reason
  | PathTooLong nat nat
  | DepthExceeded nat nat
  | TooManyChildren nat
  | NsNotFound string
  | NotADirectory string
  | IsADirectory string
  | QuotaExhausted u64 u64
  | ManifestCorrupt
  | AuditFailed

fun join_segs :: "string list \<Rightarrow> string" where
  "join_segs [] = []"
| "join_segs [s] = s"
| "join_segs (s # ss) = s @ CHR ''/'' # join_segs ss"

definition path_to_string :: "path_segments \<Rightarrow> string" where
  "path_to_string p = (if p = [] then ''/'' else join_segs p)"

definition percent_nibble :: "char \<Rightarrow> nat option" where
  "percent_nibble c =
     (let b = of_char c :: nat
      in if 48 \<le> b \<and> b \<le> 57 then Some (b - 48)
         else if 97 \<le> b \<and> b \<le> 102 then Some (b - 97 + 10)
         else if 65 \<le> b \<and> b \<le> 70 then Some (b - 65 + 10)
         else None)"

definition cont_byte :: "nat \<Rightarrow> bool" where
  "cont_byte b = (128 \<le> b \<and> b \<le> 191)"

fun utf8_valid :: "nat list \<Rightarrow> bool" where
  "utf8_valid [] = True"
| "utf8_valid (a # bs) =
     (if a < 128 then utf8_valid bs
      else if 194 \<le> a \<and> a \<le> 223 then (case bs of b # cs \<Rightarrow> cont_byte b \<and> utf8_valid cs | _ \<Rightarrow> False)
      else if 224 \<le> a \<and> a \<le> 239 then
        (case bs of b # c # ds \<Rightarrow>
           (if a = 224 then 160 \<le> b \<and> b \<le> 191 else if a = 237 then 128 \<le> b \<and> b \<le> 159 else cont_byte b) \<and>
           cont_byte c \<and> utf8_valid ds
         | _ \<Rightarrow> False)
      else if 240 \<le> a \<and> a \<le> 244 then
        (case bs of b # c # d # es \<Rightarrow>
           (if a = 240 then 144 \<le> b \<and> b \<le> 191 else if a = 244 then 128 \<le> b \<and> b \<le> 143 else cont_byte b) \<and>
           cont_byte c \<and> cont_byte d \<and> utf8_valid es
         | _ \<Rightarrow> False)
      else False)"

fun percent_loop :: "nat \<Rightarrow> string \<Rightarrow> (traversal_reason, string) result" where
  "percent_loop i [] = Inr []"
| "percent_loop i (b # bs) =
     (if b = CHR ''%'' then
        (case bs of
           c1 # c2 # rest \<Rightarrow>
             (case percent_nibble c1 of
                None \<Rightarrow> Inl (InvalidHex (i + 1))
              | Some h1 \<Rightarrow>
                  (case percent_nibble c2 of
                     None \<Rightarrow> Inl (InvalidHex (i + 2))
                   | Some h2 \<Rightarrow>
                       if h1 * 16 + h2 = 0 then Inl NullDecoded
                       else (case percent_loop (i + 3) rest of Inl e \<Rightarrow> Inl e | Inr out \<Rightarrow> Inr (char_of (h1 * 16 + h2) # out))))
         | _ \<Rightarrow> Inl (TruncatedEscape i))
      else if (of_char b :: nat) = 0 then Inl NullByte
      else (case percent_loop (i + 1) bs of Inl e \<Rightarrow> Inl e | Inr out \<Rightarrow> Inr (b # out)))"

definition percent_decode_strict :: "string \<Rightarrow> (traversal_reason, string) result" where
  "percent_decode_strict s =
     (case percent_loop 0 s of
        Inl e \<Rightarrow> Inl e
      | Inr out \<Rightarrow> if utf8_valid (map of_char out) then Inr out else Inl NotUtf8)"

definition strip_suffix_slash :: "string \<Rightarrow> string" where
  "strip_suffix_slash s = (if s \<noteq> [] \<and> last s = CHR ''/'' then butlast s else s)"

fun resolve_dots :: "string \<Rightarrow> string list \<Rightarrow> string list \<Rightarrow> (traversal_reason, string list) result" where
  "resolve_dots s [] stk = Inr stk"
| "resolve_dots s (seg # segs) stk =
     (if seg = ''.'' then resolve_dots s segs stk
      else if seg = ''..'' then (if stk = [] then Inl (EscapesRoot s) else resolve_dots s segs (butlast stk))
      else resolve_dots s segs (stk @ [seg]))"

definition canonicalize_path_string :: "string \<Rightarrow> (traversal_reason, string) result" where
  "canonicalize_path_string s =
     (case s of
        [] \<Rightarrow> Inr []
      | c # rest \<Rightarrow>
          if c \<noteq> CHR ''/'' then Inl NoLeadingSlash
          else
            let inner = strip_suffix_slash rest;
                segs = (if inner = [] then [] else split_on (CHR ''/'') inner)
            in if [] \<in> set segs then Inl EmptySegment
               else (case resolve_dots s segs [] of
                   Inl e \<Rightarrow> Inl e
                 | Inr stk \<Rightarrow>
                     let out = CHR ''/'' # join_segs stk
                     in Inr (if last s = CHR ''/'' \<and> last out \<noteq> CHR ''/'' then out @ ''/'' else out)))"

definition decode_http :: "string \<Rightarrow> (ns_error, path_segments) result" where
  "decode_http raw =
     (if length raw > MAX_PATH_RAW_LEN then Inl (PathTooLong MAX_PATH_RAW_LEN (length raw))
      else case percent_decode_strict raw of
          Inl e \<Rightarrow> Inl (Traversal e)
        | Inr decoded \<Rightarrow>
            (case canonicalize_path_string decoded of
               Inl e \<Rightarrow> Inl (Traversal e)
             | Inr canonical \<Rightarrow>
                 let segs = filter (\<lambda>s. s \<noteq> []) (split_on (CHR ''/'') canonical)
                 in if length segs > MAX_DEPTH then Inl (DepthExceeded MAX_DEPTH (length segs)) else Inr segs))"

section \<open>Entries and the walks\<close>

datatype entry =
    NFile content_hash u64
  | NDirectory "(string, entry) fmap"

type_synonym children = "(string, entry) fmap"
type_synonym 'a edit = "children \<Rightarrow> (ns_error, 'a) result \<times> children"

fun entry_is_dir :: "entry \<Rightarrow> bool" where
  "entry_is_dir (NDirectory _) = True"
| "entry_is_dir (NFile _ _) = False"

fun lookup_entry :: "entry \<Rightarrow> path_segments \<Rightarrow> entry option" where
  "lookup_entry e [] = Some e"
| "lookup_entry (NDirectory ch) (s # ss) = (case fmlookup ch s of None \<Rightarrow> None | Some e \<Rightarrow> lookup_entry e ss)"
| "lookup_entry (NFile h n) (s # ss) = None"

fun exists_entry :: "entry \<Rightarrow> path_segments \<Rightarrow> bool" where
  "exists_entry e [] = True"
| "exists_entry (NDirectory ch) (s # ss) = (case fmlookup ch s of None \<Rightarrow> False | Some e \<Rightarrow> exists_entry e ss)"
| "exists_entry (NFile h n) (s # ss) = False"

fun walk_mut :: "'a edit \<Rightarrow> path_segments \<Rightarrow> path_segments \<Rightarrow> entry \<Rightarrow> (ns_error, 'a) result \<times> entry" where
  "walk_mut f seen [] (NDirectory ch) = (let (r, ch') = f ch in (r, NDirectory ch'))"
| "walk_mut f seen [] (NFile h n) = (Inl (NotADirectory (path_to_string seen)), NFile h n)"
| "walk_mut f seen (s # ss) (NDirectory ch) =
     (case fmlookup ch s of
        None \<Rightarrow> (Inl (NsNotFound (join_segs (seen @ [s]))), NDirectory ch)
      | Some e \<Rightarrow> (let (r, e') = walk_mut f (seen @ [s]) ss e in (r, NDirectory (fmupd s e' ch))))"
| "walk_mut f seen (s # ss) (NFile h n) = (Inl (NotADirectory (join_segs seen)), NFile h n)"

definition split_walk :: "(string \<Rightarrow> 'a edit) \<Rightarrow> path_segments \<Rightarrow> entry \<Rightarrow> (ns_error, 'a) result \<times> entry" where
  "split_walk f p root =
     (if p = [] then (Inl (Traversal CannotMutateRoot), root)
      else walk_mut (f (last p)) [] (butlast p) root)"

fun create_loop :: "'a edit \<Rightarrow> path_segments \<Rightarrow> path_segments \<Rightarrow> entry \<Rightarrow> (ns_error, 'a) result \<times> entry" where
  "create_loop f seen ss (NFile h n) = (Inl (NotADirectory (join_segs seen)), NFile h n)"
| "create_loop f seen (s # t # ss) (NDirectory ch) =
     (let e = (case fmlookup ch s of None \<Rightarrow> NDirectory fmempty | Some e \<Rightarrow> e);
          (r, e') = create_loop f (seen @ [s]) (t # ss) e
      in (r, NDirectory (fmupd s e' ch)))"
| "create_loop f seen ss (NDirectory ch) = (let (r, ch') = f ch in (r, NDirectory ch'))"

definition split_walk_or_create :: "'a edit \<Rightarrow> path_segments \<Rightarrow> entry \<Rightarrow> (ns_error, 'a) result \<times> entry" where
  "split_walk_or_create f p root =
     (if p = [] then (Inl (Traversal CannotMutateRoot), root)
      else if length p > MAX_DEPTH then (Inl (DepthExceeded MAX_DEPTH (length p)), root)
      else create_loop f [] p root)"

fun insert_at_loop :: "entry \<Rightarrow> path_segments \<Rightarrow> path_segments \<Rightarrow> entry \<Rightarrow> (ns_error, unit) result \<times> entry" where
  "insert_at_loop x seen [] e = (Inr (), e)"
| "insert_at_loop x seen (s # ss) (NFile h n) = (Inl (NotADirectory (join_segs seen)), NFile h n)"
| "insert_at_loop x seen (s # ss) (NDirectory ch) =
     (if ss = [] then (Inr (), NDirectory (fmupd s x ch))
      else case fmlookup ch s of
          None \<Rightarrow> (Inl (NsNotFound (join_segs (seen @ [s]))), NDirectory ch)
        | Some e \<Rightarrow> (let (r, e') = insert_at_loop x (seen @ [s]) ss e in (r, NDirectory (fmupd s e' ch))))"

definition insert_at :: "path_segments \<Rightarrow> entry \<Rightarrow> entry \<Rightarrow> (ns_error, unit) result \<times> entry" where
  "insert_at p x root =
     (if p = [] then (Inl (Traversal CannotReplaceRoot), root) else insert_at_loop x [] p root)"

section \<open>The namespace\<close>

record manifest =
  mf_schema :: u32
  mf_root :: entry
  mf_generation :: u64

definition Manifest_empty :: manifest where
  "Manifest_empty = \<lparr>mf_schema = AUDIT_SCHEMA_VERSION, mf_root = NDirectory fmempty, mf_generation = 0\<rparr>"

type_synonym trash_name = "int \<times> u32 \<times> string"

datatype ns_note =
    NoteText string
  | TrashedAs trash_name
  | RestoredFromTrash
  | RestoredTo string

record audit_context =
  ac_capability_id :: "string option"
  ac_note :: "string option"

record audit_record =
  ar_schema :: u32
  ar_seq :: u64
  ar_timestamp :: int
  ar_op :: string
  ar_path :: string
  ar_hash :: "content_hash option"
  ar_capability_id :: "string option"
  ar_note :: "ns_note option"

record trash_entry =
  te_original_path :: string
  te_entry :: entry
  te_deleted_at :: int
  te_capability_id :: "string option"
  te_note :: "string option"

record version_meta =
  vm_snap_id :: string
  vm_original_path :: string
  vm_entry :: entry
  vm_created_at :: int
  vm_capability_id :: "string option"
  vm_note :: "string option"

record nas =
  ns_manifest :: manifest
  ns_disk :: "manifest option"
  ns_audit :: "audit_record list"
  ns_trash :: "(trash_name, trash_entry) hmap"
  ns_versions :: "(bytes \<times> string, version_meta) hmap"

record nas_io =
  io_audit :: bool
  io_persist :: bool
  io_files :: bool

definition Nas_open :: "nas \<Rightarrow> nas" where
  "Nas_open s = s\<lparr>ns_manifest := (case ns_disk s of Some m \<Rightarrow> m | None \<Rightarrow> Manifest_empty)\<rparr>"

definition write_audit :: "nas_io \<Rightarrow> audit_record \<Rightarrow> nas \<Rightarrow> (ns_error, unit) result \<times> nas" where
  "write_audit io r s = (if io_audit io then (Inr (), s\<lparr>ns_audit := ns_audit s @ [r]\<rparr>) else (Inl AuditFailed, s))"

definition persist_manifest :: "nas_io \<Rightarrow> manifest \<Rightarrow> nas \<Rightarrow> (ns_error, unit) result \<times> nas" where
  "persist_manifest io m s = (if io_persist io then (Inr (), s\<lparr>ns_disk := Some m\<rparr>) else (Inl NsIo, s))"

text \<open>
  \<open>mutate_with\<close> runs a change of the tree under the lock. The tree is changed in place, so what a
  failing change did up to its failure stays; only a successful change counts a generation.
\<close>

definition mutate_with ::
  "(entry \<Rightarrow> (ns_error, 'a) result \<times> entry) \<Rightarrow> nas \<Rightarrow> (ns_error, manifest \<times> 'a) result \<times> nas" where
  "mutate_with f s =
     (let m = ns_manifest s
      in case f (mf_root m) of
          (Inl e, root) \<Rightarrow> (Inl e, s\<lparr>ns_manifest := m\<lparr>mf_root := root\<rparr>\<rparr>)
        | (Inr x, root) \<Rightarrow>
            (let m' = m\<lparr>mf_root := root, mf_generation := mf_generation m + 1\<rparr>
             in (Inr (m', x), s\<lparr>ns_manifest := m'\<rparr>)))"

definition commit :: "nas_io \<Rightarrow> audit_record \<Rightarrow> manifest \<Rightarrow> 'a \<Rightarrow> nas \<Rightarrow> (ns_error, 'a) result \<times> nas" where
  "commit io r next x s =
     (case write_audit io r s of
        (Inl e, s1) \<Rightarrow> (Inl e, s1)
      | (Inr _, s1) \<Rightarrow>
          (case persist_manifest io next s1 of
             (Inl e, s2) \<Rightarrow> (Inl e, s2)
           | (Inr _, s2) \<Rightarrow> (Inr x, s2)))"

definition mk_record :: "manifest \<Rightarrow> int \<Rightarrow> string \<Rightarrow> string \<Rightarrow> audit_context \<Rightarrow> ns_note option \<Rightarrow> audit_record" where
  "mk_record m now op p ctx note =
     \<lparr>ar_schema = AUDIT_SCHEMA_VERSION, ar_seq = mf_generation m, ar_timestamp = now, ar_op = op, ar_path = p,
      ar_hash = None, ar_capability_id = ac_capability_id ctx, ar_note = note\<rparr>"

definition run_op ::
  "nas_io \<Rightarrow> (entry \<Rightarrow> (ns_error, 'a) result \<times> entry) \<Rightarrow> int \<Rightarrow> string \<Rightarrow> string \<Rightarrow> audit_context \<Rightarrow> ns_note option \<Rightarrow>
   nas \<Rightarrow> (ns_error, 'a) result \<times> nas" where
  "run_op io f now op p ctx note s =
     (case mutate_with f s of
        (Inl e, s1) \<Rightarrow> (Inl e, s1)
      | (Inr (next, x), s1) \<Rightarrow> commit io (mk_record next now op p ctx note) next x s1)"

definition ctx_note :: "audit_context \<Rightarrow> ns_note option" where
  "ctx_note ctx = map_option NoteText (ac_note ctx)"

section \<open>Operations\<close>

definition put_edit :: "string \<Rightarrow> entry \<Rightarrow> unit edit" where
  "put_edit leaf x ch =
     (if fcard (fmdom ch) \<ge> MAX_CHILDREN_PER_DIR then (Inl (TooManyChildren MAX_CHILDREN_PER_DIR), ch)
      else (Inr (), fmupd leaf x ch))"

definition put_change :: "path_segments \<Rightarrow> entry \<Rightarrow> entry \<Rightarrow> (ns_error, unit) result \<times> entry" where
  "put_change p x = split_walk_or_create (put_edit (last p) x) p"

definition Nas_put ::
  "nas_io \<Rightarrow> (u64 \<Rightarrow> (ns_error, unit) result) \<Rightarrow> int \<Rightarrow> audit_context \<Rightarrow> path_segments \<Rightarrow> content_hash \<Rightarrow> u64 \<Rightarrow> nas \<Rightarrow>
   (ns_error, unit) result \<times> nas" where
  "Nas_put io quota now ctx p h n s =
     (case quota n of
        Inl e \<Rightarrow> (Inl e, s)
      | Inr _ \<Rightarrow> run_op io (put_change p (NFile h n)) now ''put'' (path_to_string p) ctx (ctx_note ctx) s)"

definition delete_edit :: "path_segments \<Rightarrow> string \<Rightarrow> content_hash edit" where
  "delete_edit p leaf ch =
     (case fmlookup ch leaf of
        None \<Rightarrow> (Inl (NsNotFound leaf), ch)
      | Some (NFile h n) \<Rightarrow> (Inr h, fmdrop leaf ch)
      | Some (NDirectory c) \<Rightarrow> (Inl (IsADirectory (path_to_string p)), fmupd leaf (NDirectory c) (fmdrop leaf ch)))"

definition Nas_delete ::
  "nas_io \<Rightarrow> int \<Rightarrow> audit_context \<Rightarrow> path_segments \<Rightarrow> nas \<Rightarrow> (ns_error, content_hash) result \<times> nas" where
  "Nas_delete io now ctx p s =
     run_op io (split_walk (delete_edit p) p) now ''delete'' (path_to_string p) ctx (ctx_note ctx) s"

definition mkcol_edit :: "path_segments \<Rightarrow> string \<Rightarrow> unit edit" where
  "mkcol_edit p leaf ch =
     (if leaf |\<in>| fmdom ch then (Inl (IsADirectory (path_to_string p)), ch)
      else if fcard (fmdom ch) \<ge> MAX_CHILDREN_PER_DIR then (Inl (TooManyChildren MAX_CHILDREN_PER_DIR), ch)
      else (Inr (), fmupd leaf (NDirectory fmempty) ch))"

definition Nas_mkcol ::
  "nas_io \<Rightarrow> int \<Rightarrow> audit_context \<Rightarrow> path_segments \<Rightarrow> nas \<Rightarrow> (ns_error, unit) result \<times> nas" where
  "Nas_mkcol io now ctx p s =
     run_op io (split_walk (mkcol_edit p) p) now ''mkcol'' (path_to_string p) ctx (ctx_note ctx) s"

definition drop_edit :: "string \<Rightarrow> unit edit" where
  "drop_edit leaf ch = (Inr (), fmdrop leaf ch)"

definition clear_destination :: "path_segments \<Rightarrow> bool \<Rightarrow> entry \<Rightarrow> (ns_error, unit) result \<times> entry" where
  "clear_destination dest overwrite root =
     (if exists_entry root dest then
        (if \<not> overwrite then (Inl (Traversal (DestinationExists (path_to_string dest))), root)
         else split_walk drop_edit dest root)
      else (Inr (), root))"

definition take_edit :: "path_segments \<Rightarrow> string \<Rightarrow> entry edit" where
  "take_edit p leaf ch =
     (case fmlookup ch leaf of
        None \<Rightarrow> (Inl (NsNotFound (path_to_string p)), ch)
      | Some e \<Rightarrow> (Inr e, fmdrop leaf ch))"

definition rename_change ::
  "path_segments \<Rightarrow> path_segments \<Rightarrow> bool \<Rightarrow> entry \<Rightarrow> (ns_error, unit) result \<times> entry" where
  "rename_change src dest overwrite root =
     (case clear_destination dest overwrite root of
        (Inl e, r1) \<Rightarrow> (Inl e, r1)
      | (Inr _, r1) \<Rightarrow>
          (case split_walk (take_edit src) src r1 of
             (Inl e, r2) \<Rightarrow> (Inl e, r2)
           | (Inr x, r2) \<Rightarrow> insert_at dest x r2))"

definition Nas_rename ::
  "nas_io \<Rightarrow> int \<Rightarrow> audit_context \<Rightarrow> path_segments \<Rightarrow> path_segments \<Rightarrow> bool \<Rightarrow> nas \<Rightarrow> (ns_error, unit) result \<times> nas" where
  "Nas_rename io now ctx src dest overwrite s =
     run_op io (rename_change src dest overwrite) now ''rename''
       (path_to_string src @ '' -> '' @ path_to_string dest) ctx (ctx_note ctx) s"

definition copy_change ::
  "entry \<Rightarrow> path_segments \<Rightarrow> bool \<Rightarrow> entry \<Rightarrow> (ns_error, unit) result \<times> entry" where
  "copy_change x dest overwrite root =
     (case clear_destination dest overwrite root of
        (Inl e, r1) \<Rightarrow> (Inl e, r1)
      | (Inr _, r1) \<Rightarrow> put_change dest x r1)"

definition Nas_lookup :: "path_segments \<Rightarrow> nas \<Rightarrow> entry option" where
  "Nas_lookup p s = lookup_entry (mf_root (ns_manifest s)) p"

definition Nas_copy ::
  "nas_io \<Rightarrow> int \<Rightarrow> audit_context \<Rightarrow> path_segments \<Rightarrow> path_segments \<Rightarrow> bool \<Rightarrow> nas \<Rightarrow> (ns_error, unit) result \<times> nas" where
  "Nas_copy io now ctx src dest overwrite s =
     (case Nas_lookup src s of
        None \<Rightarrow> (Inl (NsNotFound (path_to_string src)), s)
      | Some x \<Rightarrow> run_op io (copy_change x dest overwrite) now ''copy''
          (path_to_string src @ '' -> '' @ path_to_string dest) ctx (ctx_note ctx) s)"

definition Nas_read_file ::
  "(content_hash \<Rightarrow> bytes option) \<Rightarrow> path_segments \<Rightarrow> nas \<Rightarrow> (ns_error, bytes) result" where
  "Nas_read_file get_sync p s =
     (case Nas_lookup p s of
        None \<Rightarrow> Inl (NsNotFound (CHR ''/'' # join_segs p))
      | Some (NDirectory _) \<Rightarrow> Inl (IsADirectory (path_to_string p))
      | Some (NFile h _) \<Rightarrow> (case get_sync h of None \<Rightarrow> Inl NsIo | Some bs \<Rightarrow> Inr bs))"

definition force_set_root :: "nas_io \<Rightarrow> manifest \<Rightarrow> nas \<Rightarrow> (ns_error, unit) result \<times> nas" where
  "force_set_root io m s = persist_manifest io m (s\<lparr>ns_manifest := m\<rparr>)"

section \<open>Trash and versions\<close>

definition trunc_div :: "int \<Rightarrow> int \<Rightarrow> int" where
  "trunc_div a b = (if a < 0 then - ((- a) div b) else a div b)"

definition soft_delete_edit :: "string \<Rightarrow> entry edit" where
  "soft_delete_edit leaf ch =
     (case fmlookup ch leaf of None \<Rightarrow> (Inl (NsNotFound leaf), ch) | Some e \<Rightarrow> (Inr e, fmdrop leaf ch))"

definition Nas_soft_delete ::
  "nas_io \<Rightarrow> int \<Rightarrow> u32 \<Rightarrow> audit_context \<Rightarrow> path_segments \<Rightarrow> nas \<Rightarrow> (ns_error, entry) result \<times> nas" where
  "Nas_soft_delete io now nonce ctx p s =
     (case mutate_with (split_walk soft_delete_edit p) s of
        (Inl e, s1) \<Rightarrow> (Inl e, s1)
      | (Inr (next, old), s1) \<Rightarrow>
          if \<not> io_files io then (Inl NsIo, s1)
          else
            let name = (trunc_div now 1000, nonce, if p = [] then [] else last p);
                te = \<lparr>te_original_path = path_to_string p, te_entry = old, te_deleted_at = now,
                      te_capability_id = ac_capability_id ctx, te_note = ac_note ctx\<rparr>;
                s2 = s1\<lparr>ns_trash := hm_insert name te (ns_trash s1)\<rparr>
            in commit io (mk_record next now ''soft_delete'' (path_to_string p) ctx (Some (TrashedAs name))) next old s2)"

definition empty_expired_trash :: "int \<Rightarrow> int \<Rightarrow> nas \<Rightarrow> nat \<times> nas" where
  "empty_expired_trash max_age_secs now s =
     (let cutoff_ms = now - max_age_secs * 1000;
          kept = hm_retain (\<lambda>_ t. \<not> te_deleted_at t < cutoff_ms) (ns_trash s)
      in (length (ns_trash s) - length kept, s\<lparr>ns_trash := kept\<rparr>))"

definition list_trash :: "nas \<Rightarrow> trash_entry list" where
  "list_trash s = sort_key (\<lambda>t. - te_deleted_at t) (hm_values (ns_trash s))"

definition restore_edit :: "string \<Rightarrow> entry \<Rightarrow> unit edit" where
  "restore_edit leaf x ch = (Inr (), fmupd leaf x ch)"

definition Nas_restore ::
  "nas_io \<Rightarrow> int \<Rightarrow> audit_context \<Rightarrow> string \<Rightarrow> nas \<Rightarrow> (ns_error, entry) result \<times> nas" where
  "Nas_restore io now ctx original_path s =
     (case List.find (\<lambda>t. te_original_path t = original_path) (list_trash s) of
        None \<Rightarrow> (Inl (NsNotFound (''not in trash: '' @ original_path)), s)
      | Some t \<Rightarrow>
          (case decode_http (CHR ''/'' # original_path) of
             Inl e \<Rightarrow> (Inl e, s)
           | Inr p \<Rightarrow>
               (case mutate_with (split_walk_or_create (restore_edit (last p) (te_entry t)) p) s of
                  (Inl e, s1) \<Rightarrow> (Inl e, s1)
                | (Inr (next, _), s1) \<Rightarrow>
                    commit io (mk_record next now ''restore'' original_path ctx (Some RestoredFromTrash)) next (te_entry t) s1)))"

definition snap_key :: "(string \<Rightarrow> bytes) \<Rightarrow> path_segments \<Rightarrow> string \<Rightarrow> bytes \<times> string" where
  "snap_key H p snap_id = (H (path_to_string p), snap_id)"

definition Nas_snapshot_version ::
  "(string \<Rightarrow> bytes) \<Rightarrow> nas_io \<Rightarrow> int \<Rightarrow> int \<Rightarrow> audit_context \<Rightarrow> path_segments \<Rightarrow> nas \<Rightarrow> (ns_error, string) result \<times> nas" where
  "Nas_snapshot_version H io now now' ctx p s =
     (case Nas_lookup p s of
        None \<Rightarrow> (Inl (NsNotFound (path_to_string p)), s)
      | Some e \<Rightarrow>
          if \<not> io_files io then (Inl NsIo, s)
          else
            let snap_id = CHR ''v'' # show_int now;
                meta = \<lparr>vm_snap_id = snap_id, vm_original_path = path_to_string p, vm_entry = e, vm_created_at = now',
                        vm_capability_id = ac_capability_id ctx, vm_note = ac_note ctx\<rparr>
            in (Inr snap_id, s\<lparr>ns_versions := hm_insert (snap_key H p snap_id) meta (ns_versions s)\<rparr>))"

definition Nas_list_versions :: "(string \<Rightarrow> bytes) \<Rightarrow> path_segments \<Rightarrow> nas \<Rightarrow> string list" where
  "Nas_list_versions H p s =
     rev (sort (map (\<lambda>kv. snd (fst kv)) (filter (\<lambda>kv. fst (fst kv) = H (path_to_string p)) (ns_versions s))))"

definition Nas_get_version ::
  "(string \<Rightarrow> bytes) \<Rightarrow> path_segments \<Rightarrow> string \<Rightarrow> nas \<Rightarrow> (ns_error, entry) result" where
  "Nas_get_version H p snap_id s =
     (case hm_get (ns_versions s) (snap_key H p snap_id) of None \<Rightarrow> Inl NsIo | Some m \<Rightarrow> Inr (vm_entry m))"

definition restore_version_edit :: "entry \<Rightarrow> string \<Rightarrow> unit edit" where
  "restore_version_edit x leaf ch = (Inr (), fmupd leaf x (fmdrop leaf ch))"

definition Nas_restore_version ::
  "(string \<Rightarrow> bytes) \<Rightarrow> nas_io \<Rightarrow> int \<Rightarrow> audit_context \<Rightarrow> path_segments \<Rightarrow> string \<Rightarrow> nas \<Rightarrow> (ns_error, entry) result \<times> nas" where
  "Nas_restore_version H io now ctx p snap_id s =
     (case Nas_get_version H p snap_id s of
        Inl e \<Rightarrow> (Inl e, s)
      | Inr x \<Rightarrow>
          (case mutate_with (split_walk (restore_version_edit x) p) s of
             (Inl e, s1) \<Rightarrow> (Inl e, s1)
           | (Inr (next, _), s1) \<Rightarrow>
               commit io (mk_record next now ''restore_version'' (path_to_string p) ctx (Some (RestoredTo snap_id))) next x s1))"

section \<open>Decoded paths\<close>

definition clean_seg :: "string \<Rightarrow> bool" where
  "clean_seg s = (s \<noteq> [] \<and> s \<noteq> ''.'' \<and> s \<noteq> ''..'' \<and> CHR ''/'' \<notin> set s)"

lemma split_on_no_sep: "t \<in> set (split_on c s) \<Longrightarrow> c \<notin> set t"
  by (induction c s arbitrary: t rule: split_on.induct) (auto split: if_splits list.splits)

lemma set_split_on: "t \<in> set (split_on c s) \<Longrightarrow> set t \<subseteq> set s"
proof (induction c s arbitrary: t rule: split_on.induct)
  case (2 sep c cs)
  then show ?case by (cases "split_on sep cs") (fastforce split: if_splits)+
qed simp

lemma split_join: "ss \<noteq> [] \<Longrightarrow> \<forall>s \<in> set ss. CHR ''/'' \<notin> set s \<Longrightarrow> split_on (CHR ''/'') (join_segs ss) = ss"
  by (induction ss rule: join_segs.induct) (auto simp: split_on_append)

lemma join_segs_snoc: "ss \<noteq> [] \<Longrightarrow> join_segs (ss @ [t]) = join_segs ss @ CHR ''/'' # t"
  by (induction ss rule: join_segs.induct) auto

lemma join_segs_Nil_iff: "join_segs ss = [] \<longleftrightarrow> ss = [] \<or> ss = [[]]"
  by (cases ss rule: join_segs.cases) auto

lemma resolve_dots_props:
  "resolve_dots s segs stk = Inr out \<Longrightarrow> \<forall>t \<in> set segs. t \<noteq> [] \<and> CHR ''/'' \<notin> set t \<Longrightarrow> list_all clean_seg stk \<Longrightarrow>
    list_all clean_seg out \<and> set out \<subseteq> set segs \<union> set stk"
proof (induction s segs stk rule: resolve_dots.induct)
  case (2 s seg segs stk)
  have bl: "list_all clean_seg (butlast stk)" "set (butlast stk) \<subseteq> set stk"
    using "2.prems"(3) by (auto simp: list_all_iff dest: in_set_butlastD)
  have segs: "\<forall>t \<in> set segs. t \<noteq> [] \<and> CHR ''/'' \<notin> set t" using "2.prems"(2) by simp
  consider "seg = ''.''" | "seg = ''..''" "stk \<noteq> []" | "seg \<noteq> ''.''" "seg \<noteq> ''..''"
    using "2.prems"(1) by (auto split: if_splits)
  then show ?case
  proof cases
    case 1
    then have "resolve_dots s segs stk = Inr out" using "2.prems"(1) by simp
    from "2.IH"(1) [OF 1 this segs "2.prems"(3)] show ?thesis by auto
  next
    case 2
    then have r: "resolve_dots s segs (butlast stk) = Inr out" using "2.prems"(1) by simp
    have "seg \<noteq> ''.''" using 2(1) by simp
    from "2.IH"(2) [OF this 2 r segs bl(1)] bl(2) show ?thesis by auto
  next
    case 3
    then have r: "resolve_dots s segs (stk @ [seg]) = Inr out" using "2.prems"(1) by simp
    have "list_all clean_seg (stk @ [seg])" using 3 "2.prems"(2,3) by (simp add: list_all_iff clean_seg_def)
    from "2.IH"(3) [OF 3 r segs this] show ?thesis by auto
  qed
qed simp

text \<open>A canonical path is the resolved stack, printed.\<close>

lemma filter_split_canonical:
  assumes "list_all clean_seg stk"
  shows "filter (\<lambda>s. s \<noteq> []) (split_on (CHR ''/'') (CHR ''/'' # join_segs stk)) = stk"
    and "filter (\<lambda>s. s \<noteq> []) (split_on (CHR ''/'') (CHR ''/'' # join_segs stk @ ''/'')) = stk"
proof -
  have ne: "filter (\<lambda>s. s \<noteq> []) stk = stk" and sep: "\<forall>s \<in> set stk. CHR ''/'' \<notin> set s"
    using assms by (auto simp: list_all_iff clean_seg_def filter_id_conv)
  show "filter (\<lambda>s. s \<noteq> []) (split_on (CHR ''/'') (CHR ''/'' # join_segs stk)) = stk"
    using ne sep by (cases "stk = []") (simp_all add: split_join)
  have "split_on (CHR ''/'') (join_segs stk @ ''/'') = stk @ [[]]" if "stk \<noteq> []"
    using split_join [of "stk @ [[]]"] sep that by (simp add: join_segs_snoc)
  then show "filter (\<lambda>s. s \<noteq> []) (split_on (CHR ''/'') (CHR ''/'' # join_segs stk @ ''/'')) = stk"
    using ne by (cases "stk = []") simp_all
qed

lemma canonical_stack:
  assumes "canonicalize_path_string s = Inr c"
  shows "\<exists>stk. filter (\<lambda>t. t \<noteq> []) (split_on (CHR ''/'') c) = stk \<and> list_all clean_seg stk \<and> (\<forall>t \<in> set stk. set t \<subseteq> set s)"
proof (cases s)
  case Nil
  with assms show ?thesis by (simp add: canonicalize_path_string_def)
next
  case (Cons a rest)
  let ?inner = "strip_suffix_slash rest"
  let ?segs = "if ?inner = [] then [] else split_on (CHR ''/'') ?inner"
  from assms Cons obtain stk where a: "a = CHR ''/''" "[] \<notin> set ?segs" and r: "resolve_dots s ?segs [] = Inr stk"
    and c: "c = CHR ''/'' # join_segs stk \<or> c = CHR ''/'' # join_segs stk @ ''/''"
    by (auto simp: canonicalize_path_string_def Let_def split: if_splits sum.splits)
  have "\<forall>t \<in> set ?segs. t \<noteq> [] \<and> CHR ''/'' \<notin> set t" using a(2) by (auto dest: split_on_no_sep split: if_splits)
  from resolve_dots_props [OF r this] have stk: "list_all clean_seg stk" "set stk \<subseteq> set ?segs" by simp_all
  have "set t \<subseteq> set s" if "t \<in> set stk" for t
    using that stk(2) set_split_on [of t "CHR ''/''" ?inner] Cons
    by (auto simp: strip_suffix_slash_def split: if_splits dest: in_set_butlastD)
  moreover have "filter (\<lambda>t. t \<noteq> []) (split_on (CHR ''/'') c) = stk" using c filter_split_canonical [OF stk(1)] by blast
  ultimately show ?thesis using stk(1) by blast
qed

lemma percent_nibble_bound: "percent_nibble c = Some h \<Longrightarrow> h < 16"
  by (auto simp: percent_nibble_def Let_def split: if_splits)

lemma percent_loop_no_null: "percent_loop i s = Inr out \<Longrightarrow> c \<in> set out \<Longrightarrow> (of_char c :: nat) \<noteq> 0"
proof (induction i s arbitrary: out rule: percent_loop.induct)
  case (2 i b bs)
  show ?case
  proof (cases "b = CHR ''%''")
    case True
    with "2.prems"(1) obtain c1 c2 rest h1 h2 out' where
      bs: "bs = c1 # c2 # rest" and h: "percent_nibble c1 = Some h1" "percent_nibble c2 = Some h2" and nz: "h1 * 16 + h2 \<noteq> 0"
      and rec: "percent_loop (i + 3) rest = Inr out'" and out: "out = char_of (h1 * 16 + h2) # out'"
      by (auto split: if_splits list.splits option.splits sum.splits)
    have "(of_char (char_of (h1 * 16 + h2) :: char) :: nat) = h1 * 16 + h2"
      using percent_nibble_bound [OF h(1)] percent_nibble_bound [OF h(2)] by (simp add: of_char_of)
    then show ?thesis using "2.IH"(1) [OF True bs refl h nz rec] nz "2.prems"(2) out by auto
  next
    case False
    with "2.prems" "2.IH"(2) show ?thesis by (auto split: if_splits sum.splits)
  qed
qed simp

text \<open>
  A decoded request path never leaves the root. Whatever the raw path, an accepted one has at
  most 64 segments, and no segment is empty, a dot or two dots, or contains a slash or a null
  byte, also when these were percent-encoded.
\<close>

theorem decode_http_safe:
  assumes "decode_http raw = Inr segs"
  shows "length segs \<le> 64 \<and> list_all (\<lambda>s. clean_seg s \<and> (\<forall>c \<in> set s. (of_char c :: nat) \<noteq> 0)) segs"
proof -
  from assms obtain d c where d: "percent_decode_strict raw = Inr d" and c: "canonicalize_path_string d = Inr c"
    and segs: "segs = filter (\<lambda>s. s \<noteq> []) (split_on (CHR ''/'') c)" "length segs \<le> 64"
    by (auto simp: decode_http_def MAX_DEPTH_def Let_def split: if_splits sum.splits)
  from d have "(of_char x :: nat) \<noteq> 0" if "x \<in> set d" for x
    using that percent_loop_no_null by (auto simp: percent_decode_strict_def split: sum.splits if_splits)
  with canonical_stack [OF c] segs show ?thesis by (auto simp: list_all_iff)
qed

theorem decode_http_safe_witness:
  "decode_http ''/a%2F%2e./b/'' = Inr [''b''] \<and> length [''b''] \<le> 64 \<and>
   list_all (\<lambda>s. clean_seg s \<and> (\<forall>c \<in> set s. (of_char c :: nat) \<noteq> 0)) [''b'']"
proof -
  have "decode_http ''/a%2F%2e./b/'' = Inr [''b'']" by code_simp
  from decode_http_safe [OF this] this show ?thesis by blast
qed

lemma percent_loop_plain: "CHR ''%'' \<notin> set s \<Longrightarrow> \<forall>c \<in> set s. (of_char c :: nat) \<noteq> 0 \<Longrightarrow> percent_loop i s = Inr s"
  by (induction s arbitrary: i) auto

lemma resolve_dots_clean: "list_all clean_seg segs \<Longrightarrow> resolve_dots s segs stk = Inr (stk @ segs)"
  by (induction segs arbitrary: stk) (auto simp: clean_seg_def)

lemma last_join: "list_all clean_seg p \<Longrightarrow> p \<noteq> [] \<Longrightarrow> join_segs p \<noteq> [] \<and> last (join_segs p) \<noteq> CHR ''/''"
proof (induction p rule: join_segs.induct)
  case (2 s)
  then have "s \<noteq> []" "CHR ''/'' \<notin> set s" by (auto simp: clean_seg_def)
  then have "last s \<noteq> CHR ''/''" using last_in_set by metis
  with \<open>s \<noteq> []\<close> show ?case by simp
qed (auto simp: clean_seg_def)

text \<open>A path of clean segments is recovered from its text, provided it needs no escape.\<close>

lemma decode_join:
  assumes "list_all clean_seg p" "p \<noteq> []" "length p \<le> 64" "length (join_segs p) < 4096"
    and "CHR ''%'' \<notin> set (join_segs p)" "\<forall>c \<in> set (join_segs p). (of_char c :: nat) \<noteq> 0"
    and "utf8_valid (map of_char (CHR ''/'' # join_segs p))"
  shows "decode_http (CHR ''/'' # join_segs p) = Inr p"
proof -
  let ?s = "CHR ''/'' # join_segs p"
  have "percent_decode_strict ?s = Inr ?s"
    using assms(5-7) percent_loop_plain [of ?s 0] by (simp add: percent_decode_strict_def)
  moreover have "canonicalize_path_string ?s = Inr ?s"
  proof -
    have "strip_suffix_slash (join_segs p) = join_segs p" using last_join [OF assms(1,2)] by (simp add: strip_suffix_slash_def)
    moreover have "split_on (CHR ''/'') (join_segs p) = p"
      using assms(1,2) by (intro split_join) (auto simp: list_all_iff clean_seg_def)
    moreover have "[] \<notin> set p" using assms(1) by (auto simp: list_all_iff clean_seg_def)
    ultimately show ?thesis
      using last_join [OF assms(1,2)] by (simp add: canonicalize_path_string_def resolve_dots_clean [OF assms(1)])
  qed
  moreover have "filter (\<lambda>s. s \<noteq> []) (split_on (CHR ''/'') ?s) = p" by (rule filter_split_canonical [OF assms(1)])
  ultimately show ?thesis using assms(3,4)
    by (simp add: decode_http_def MAX_PATH_RAW_LEN_def MAX_DEPTH_def Let_def del: split_on.simps)
qed

section \<open>What the walks do to every path\<close>

fun put_at :: "path_segments \<Rightarrow> entry \<Rightarrow> entry \<Rightarrow> entry" where
  "put_at [] x e = x"
| "put_at (s # ss) x (NDirectory ch) =
     (case fmlookup ch s of None \<Rightarrow> NDirectory ch | Some e \<Rightarrow> NDirectory (fmupd s (put_at ss x e) ch))"
| "put_at (s # ss) x (NFile h n) = NFile h n"

lemma fmupd_same: "fmlookup m k = Some v \<Longrightarrow> fmupd k v m = m"
  by (rule fmap_ext) auto

lemma exists_entry_iff: "exists_entry e p \<longleftrightarrow> lookup_entry e p \<noteq> None"
  by (induction e p rule: exists_entry.induct) (auto split: option.splits)

lemma lookup_append: "lookup_entry e (p @ q) = (case lookup_entry e p of None \<Rightarrow> None | Some x \<Rightarrow> lookup_entry x q)"
  by (induction e p rule: lookup_entry.induct) (auto split: option.splits)

lemma walk_mut_dir:
  "lookup_entry root p = Some (NDirectory ch) \<Longrightarrow>
    walk_mut f seen p root = (fst (f ch), put_at p (NDirectory (snd (f ch))) root)"
  by (induction f seen p root rule: walk_mut.induct) (auto simp: case_prod_beta split: option.splits)

lemma walk_mut_fail:
  "(\<And>ch. lookup_entry root p \<noteq> Some (NDirectory ch)) \<Longrightarrow> \<exists>e. walk_mut f seen p root = (Inl e, root)"
proof (induction f seen p root rule: walk_mut.induct)
  case (3 f seen s ss ch)
  then show ?case by (cases "fmlookup ch s") (fastforce simp: fmupd_same)+
qed auto

lemma lookup_put_at: "lookup_entry root p = Some y \<Longrightarrow> lookup_entry (put_at p x root) (p @ q) = lookup_entry x q"
  by (induction p x root rule: put_at.induct) (auto split: option.splits)

lemma parallel_Cons_iff: "(a # p) \<parallel> (b # q) \<longleftrightarrow> a \<noteq> b \<or> p \<parallel> q"
  by (auto simp: parallel_def)

lemma not_parallel_Nil [simp]: "\<not> [] \<parallel> p" "\<not> p \<parallel> []"
  by (auto simp: parallel_def)

lemma lookup_put_at_parallel: "q \<parallel> p \<Longrightarrow> lookup_entry (put_at p x root) q = lookup_entry root q"
proof (induction p x root arbitrary: q rule: put_at.induct)
  case (2 s ss x ch)
  from "2.prems" obtain t q' where q: "q = t # q'" by (cases q) auto
  with 2 show ?case by (auto simp: parallel_Cons_iff split: option.splits)
qed auto

lemma parallel_leaf_cases:
  assumes "q \<parallel> d @ [leaf]"
  obtains "q \<parallel> d" | t r where "q = d @ t # r" "t \<noteq> leaf"
proof (cases "prefix d q")
  case True
  then obtain r where r: "q = d @ r" by (auto simp: prefix_def)
  with assms obtain t r' where "r = t # r'" "t \<noteq> leaf" by (cases r) (auto simp: parallel_def)
  with r that(2) show ?thesis by blast
next
  case False
  with assms have "q \<parallel> d" by (auto simp: parallel_def)
  with that(1) show ?thesis .
qed

text \<open>A change of one child of a directory is invisible at every path beside that child.\<close>

lemma leaf_frame:
  assumes d: "lookup_entry root d = Some (NDirectory ch)" and ch': "\<And>t. t \<noteq> leaf \<Longrightarrow> fmlookup ch' t = fmlookup ch t"
    and q: "q \<parallel> d @ [leaf]"
  shows "lookup_entry (put_at d (NDirectory ch') root) q = lookup_entry root q"
  using q
proof (cases rule: parallel_leaf_cases)
  case 1
  then show ?thesis by (rule lookup_put_at_parallel)
next
  case (2 t r)
  then show ?thesis using lookup_put_at [OF d, of "NDirectory ch'" "t # r"] d ch' by (simp add: lookup_append)
qed

lemma split_walk_dir:
  "p \<noteq> [] \<Longrightarrow> lookup_entry root (butlast p) = Some (NDirectory ch) \<Longrightarrow>
    split_walk f p root = (fst (f (last p) ch), put_at (butlast p) (NDirectory (snd (f (last p) ch))) root)"
  by (simp add: split_walk_def walk_mut_dir)

lemma lookup_parent:
  assumes "p \<noteq> []" "lookup_entry root p = Some e"
  obtains ch where "lookup_entry root (butlast p) = Some (NDirectory ch)" "fmlookup ch (last p) = Some e"
proof -
  from assms have "lookup_entry root (butlast p @ [last p]) = Some e" by simp
  then obtain x where x: "lookup_entry root (butlast p) = Some x" "lookup_entry x [last p] = Some e"
    unfolding lookup_append by (auto split: option.splits)
  then obtain ch where "x = NDirectory ch" "fmlookup ch (last p) = Some e" by (cases x) (auto split: option.splits)
  with x(1) that show ?thesis by blast
qed

text \<open>Removing an existing entry, as deletion, renaming and overwriting do.\<close>

definition drop_at :: "path_segments \<Rightarrow> children \<Rightarrow> entry \<Rightarrow> entry" where
  "drop_at p ch root = put_at (butlast p) (NDirectory (fmdrop (last p) ch)) root"

lemma lookup_drop_at:
  assumes p: "p \<noteq> []" and ch: "lookup_entry root (butlast p) = Some (NDirectory ch)"
  shows "lookup_entry (drop_at p ch root) (p @ r) = None"
    and "q \<parallel> p \<Longrightarrow> lookup_entry (drop_at p ch root) q = lookup_entry root q"
    and "strict_prefix q p \<Longrightarrow> \<exists>c. lookup_entry (drop_at p ch root) q = Some (NDirectory c)"
proof -
  have sp: "p @ r = butlast p @ (last p # r)" using p by simp
  show "lookup_entry (drop_at p ch root) (p @ r) = None"
    unfolding drop_at_def sp using lookup_put_at [OF ch] by simp
  show "q \<parallel> p \<Longrightarrow> lookup_entry (drop_at p ch root) q = lookup_entry root q"
    unfolding drop_at_def using p by (intro leaf_frame [OF ch, where leaf = "last p"]) auto
  have dir: "\<exists>c. lookup_entry root' q = Some (NDirectory c)" if "lookup_entry root' (q @ z) = Some (NDirectory c')" for root' q z c'
  proof (cases "lookup_entry root' q")
    case (Some x)
    with that show ?thesis by (cases x; cases z) (auto simp: lookup_append)
  qed (use that in \<open>simp add: lookup_append\<close>)
  assume "strict_prefix q p"
  then obtain z where "butlast p = q @ z" using p by (metis append_butlast_last_id prefix_def prefix_snoc strict_prefix_def)
  moreover have "lookup_entry (drop_at p ch root) (butlast p @ []) = Some (NDirectory (fmdrop (last p) ch))"
    unfolding drop_at_def by (subst lookup_put_at [OF ch]) simp
  ultimately show "\<exists>c. lookup_entry (drop_at p ch root) q = Some (NDirectory c)" using dir by auto
qed

lemma path_cases: "q \<parallel> p \<or> (\<exists>r. q = p @ r) \<or> strict_prefix q (p :: 'a list)"
  by (auto simp: parallel_def prefix_def strict_prefix_def)

lemma lookup_drop_at_None:
  assumes p: "p \<noteq> []" and ch: "lookup_entry root (butlast p) = Some (NDirectory ch)"
    and "lookup_entry root p = Some e" "lookup_entry root q = None"
  shows "lookup_entry (drop_at p ch root) q = None"
  using path_cases [of q p]
proof (elim disjE exE)
  assume "strict_prefix q p"
  then obtain z where "p = q @ z" by (auto simp: strict_prefix_def prefix_def)
  with assms(3,4) show ?thesis by (simp add: lookup_append)
qed (use assms lookup_drop_at [OF p ch] in auto)

lemma insert_at_loop_fail:
  "p \<noteq> [] \<Longrightarrow> (\<And>ch. lookup_entry root (butlast p) \<noteq> Some (NDirectory ch)) \<Longrightarrow> \<exists>e. insert_at_loop x seen p root = (Inl e, root)"
proof (induction x seen p root rule: insert_at_loop.induct)
  case (3 x seen s ss ch)
  then show ?case by (cases "fmlookup ch s") (fastforce simp: fmupd_same)+
qed auto

lemma insert_at_loop_ok:
  "p \<noteq> [] \<Longrightarrow> lookup_entry root (butlast p) = Some (NDirectory ch) \<Longrightarrow>
    insert_at_loop x seen p root = (Inr (), put_at (butlast p) (NDirectory (fmupd (last p) x ch)) root)"
proof (induction x seen p root rule: insert_at_loop.induct)
  case (3 x seen s ss ch')
  then show ?case by (cases "ss = []") (auto simp: case_prod_beta split: option.splits)
qed (auto split: if_splits)

lemma create_loop_ok:
  "p \<noteq> [] \<Longrightarrow> create_loop f seen p root = (Inr x, root') \<Longrightarrow>
   \<exists>ch ch'. f ch = (Inr x, ch') \<and>
     (lookup_entry root (butlast p) = Some (NDirectory ch) \<or> lookup_entry root (butlast p) = None \<and> ch = fmempty) \<and>
     lookup_entry root' (butlast p) = Some (NDirectory ch') \<and>
     (\<forall>q. q \<parallel> butlast p \<longrightarrow> lookup_entry root' q = lookup_entry root q)"
proof (induction f seen p root arbitrary: root' rule: create_loop.induct)
  case (2 f seen s t ss ch)
  let ?e = "case fmlookup ch s of None \<Rightarrow> NDirectory fmempty | Some e \<Rightarrow> e"
  from "2.prems"(2) obtain e' where rec: "create_loop f (seen @ [s]) (t # ss) ?e = (Inr x, e')"
    and root': "root' = NDirectory (fmupd s e' ch)" by (auto simp: Let_def split: prod.splits)
  from "2.IH" [OF refl _ rec] obtain c c' where
    1: "f c = (Inr x, c')" "lookup_entry ?e (butlast (t # ss)) = Some (NDirectory c) \<or> lookup_entry ?e (butlast (t # ss)) = None \<and> c = fmempty"
      "lookup_entry e' (butlast (t # ss)) = Some (NDirectory c')"
      "\<forall>q. q \<parallel> butlast (t # ss) \<longrightarrow> lookup_entry e' q = lookup_entry ?e q" by auto
  have "lookup_entry (NDirectory ch) (s # butlast (t # ss)) = Some (NDirectory c) \<or>
      lookup_entry (NDirectory ch) (s # butlast (t # ss)) = None \<and> c = fmempty"
    using 1(2) by (cases "fmlookup ch s"; cases "butlast (t # ss)") auto
  moreover have "lookup_entry root' q = lookup_entry (NDirectory ch) q" if q: "q \<parallel> s # butlast (t # ss)" for q
  proof -
    obtain u q' where u: "q = u # q'" using q by (cases q) auto
    then have "u \<noteq> s \<or> q' \<parallel> butlast (t # ss)" using q by (simp add: parallel_Cons_iff)
    moreover have "q' \<noteq> []" if "q' \<parallel> butlast (t # ss)" using that by auto
    ultimately show ?thesis using 1(4) u root' by (cases "fmlookup ch s"; cases q') auto
  qed
  ultimately show ?case using 1 root' by (intro exI [of _ c] exI [of _ c']) simp
qed (auto split: prod.splits)

section \<open>Storing\<close>

lemma create_loop_insert:
  assumes p: "p \<noteq> []" and c: "create_loop f seen p root = (Inr u, root')"
    and f: "\<And>ch ch'. f ch = (Inr u, ch') \<Longrightarrow> ch' = fmupd (last p) x ch"
  shows "lookup_entry root' (p @ r) = lookup_entry x r" and "q \<parallel> p \<Longrightarrow> lookup_entry root' q = lookup_entry root q"
proof -
  from create_loop_ok [OF p c] obtain ch ch' where
    1: "f ch = (Inr u, ch')"
      "lookup_entry root (butlast p) = Some (NDirectory ch) \<or> lookup_entry root (butlast p) = None \<and> ch = fmempty"
      "lookup_entry root' (butlast p) = Some (NDirectory ch')"
      "\<forall>q. q \<parallel> butlast p \<longrightarrow> lookup_entry root' q = lookup_entry root q" by blast
  from f [OF 1(1)] have ch': "ch' = fmupd (last p) x ch" .
  have "lookup_entry root' (butlast p @ (last p # r)) = lookup_entry x r" using 1(3) ch' by (subst lookup_append) simp
  then show "lookup_entry root' (p @ r) = lookup_entry x r" using p by (metis append_Cons append_Nil append_assoc append_butlast_last_id)
  assume "q \<parallel> p"
  then have "q \<parallel> butlast p @ [last p]" using p by simp
  then show "lookup_entry root' q = lookup_entry root q"
  proof (cases rule: parallel_leaf_cases)
    case (2 t r)
    with 1(2,3) ch' show ?thesis by (auto simp: lookup_append)
  qed (use 1(4) in blast)
qed

lemma put_change_ok:
  assumes "put_change p x root = (Inr (), root')"
  shows "lookup_entry root' (p @ r) = lookup_entry x r" and "q \<parallel> p \<Longrightarrow> lookup_entry root' q = lookup_entry root q"
proof -
  from assms have "p \<noteq> []" and "create_loop (put_edit (last p) x) [] p root = (Inr (), root')"
    by (auto simp: put_change_def split_walk_or_create_def split: if_splits)
  note ins = create_loop_insert [OF this, of x]
  show "lookup_entry root' (p @ r) = lookup_entry x r" and "q \<parallel> p \<Longrightarrow> lookup_entry root' q = lookup_entry root q"
    by (rule ins; auto simp: put_edit_def split: if_splits)+
qed

text \<open>The outcome of an operation whose change of the tree succeeds.\<close>

lemma run_op_changed:
  assumes "f (mf_root (ns_manifest s)) = (Inr x, root')"
  shows "\<exists>s'. run_op io f now op p ctx note s =
      (if \<not> io_audit io then Inl AuditFailed else if \<not> io_persist io then Inl NsIo else Inr x, s') \<and>
    ns_manifest s' = (ns_manifest s)\<lparr>mf_root := root', mf_generation := mf_generation (ns_manifest s) + 1\<rparr> \<and>
    ns_disk s' = (if io_audit io \<and> io_persist io then Some (ns_manifest s') else ns_disk s) \<and>
    ns_audit s' = ns_audit s @ (if io_audit io then [mk_record (ns_manifest s') now op p ctx note] else []) \<and>
    ns_trash s' = ns_trash s \<and> ns_versions s' = ns_versions s"
  using assms by (simp add: run_op_def mutate_with_def commit_def write_audit_def persist_manifest_def Let_def)

lemma run_op_failed:
  assumes "f (mf_root (ns_manifest s)) = (Inl e, root')"
  shows "run_op io f now op p ctx note s = (Inl e, s\<lparr>ns_manifest := (ns_manifest s)\<lparr>mf_root := root'\<rparr>\<rparr>)"
  using assms by (simp add: run_op_def mutate_with_def Let_def)

lemma run_op_OkD:
  assumes "run_op io f now op p ctx note s = (Inr x, s')"
  obtains root' where "f (mf_root (ns_manifest s)) = (Inr x, root')" "mf_root (ns_manifest s') = root'"
    "ns_disk s' = Some (ns_manifest s')" "ns_audit s' = ns_audit s @ [mk_record (ns_manifest s') now op p ctx note]"
    "mf_generation (ns_manifest s') = mf_generation (ns_manifest s) + 1"
  using assms that
  by (auto simp: run_op_def mutate_with_def commit_def write_audit_def persist_manifest_def Let_def mk_record_def
      split: prod.splits sum.splits if_splits)

text \<open>
  C31. A file that was stored is found. After a successful put the path holds exactly that file, every
  path beside it is as before, the manifest file holds the new manifest, and one audit record with
  its generation was appended.
\<close>

theorem nas_put_then_lookup:
  assumes "Nas_put io quota now ctx p h n s = (Inr (), s')"
  shows "Nas_lookup p s' = Some (NFile h n) \<and> (\<forall>q. q \<parallel> p \<longrightarrow> Nas_lookup q s' = Nas_lookup q s) \<and>
    ns_disk s' = Some (ns_manifest s') \<and> length (ns_audit s') = Suc (length (ns_audit s)) \<and>
    ar_seq (last (ns_audit s')) = mf_generation (ns_manifest s) + 1"
proof -
  from assms have "run_op io (put_change p (NFile h n)) now ''put'' (path_to_string p) ctx (ctx_note ctx) s = (Inr (), s')"
    by (auto simp: Nas_put_def split: sum.splits)
  then show ?thesis
  proof (rule run_op_OkD)
    fix root' assume "put_change p (NFile h n) (mf_root (ns_manifest s)) = (Inr (), root')" "mf_root (ns_manifest s') = root'"
      "ns_disk s' = Some (ns_manifest s')"
      "ns_audit s' = ns_audit s @ [mk_record (ns_manifest s') now ''put'' (path_to_string p) ctx (ctx_note ctx)]"
      "mf_generation (ns_manifest s') = mf_generation (ns_manifest s) + 1"
    with put_change_ok [of p "NFile h n" "mf_root (ns_manifest s)" root'] put_change_ok(1) [of p "NFile h n" _ root' "[]"]
    show ?thesis by (simp add: Nas_lookup_def mk_record_def)
  qed
qed

definition fresh_nas :: nas where
  "fresh_nas = \<lparr>ns_manifest = Manifest_empty, ns_disk = None, ns_audit = [], ns_trash = [], ns_versions = []\<rparr>"

definition all_io :: nas_io where
  "all_io = \<lparr>io_audit = True, io_persist = True, io_files = True\<rparr>"

definition no_ctx :: audit_context where
  "no_ctx = \<lparr>ac_capability_id = None, ac_note = None\<rparr>"

lemma put_change_empty:
  "put_change [''a''] x (NDirectory fmempty) = (Inr (), NDirectory (fmupd ''a'' x fmempty))"
  by (simp add: put_change_def split_walk_or_create_def put_edit_def MAX_DEPTH_def MAX_CHILDREN_PER_DIR_def fcard.rep_eq)

theorem nas_put_then_lookup_witness:
  "\<exists>s'. Nas_put all_io (\<lambda>_. Inr ()) 0 no_ctx [''a''] [1] 2 fresh_nas = (Inr (), s') \<and> Nas_lookup [''a''] s' = Some (NFile [1] 2) \<and>
    Nas_lookup [''b''] s' = None"
proof -
  have "\<exists>s'. Nas_put all_io (\<lambda>_. Inr ()) 0 no_ctx [''a''] [1] 2 fresh_nas = (Inr (), s')"
    by (simp add: Nas_put_def run_op_def mutate_with_def fresh_nas_def Manifest_empty_def put_change_empty commit_def
        write_audit_def persist_manifest_def all_io_def Let_def)
  then obtain s' where s': "Nas_put all_io (\<lambda>_. Inr ()) 0 no_ctx [''a''] [1] 2 fresh_nas = (Inr (), s')" by blast
  have "[''b''] \<parallel> [''a'']" by (simp add: parallel_def)
  with nas_put_then_lookup [OF s'] s' show ?thesis
    by (auto simp: Nas_lookup_def fresh_nas_def Manifest_empty_def)
qed

text \<open>
  A failed audit write does not undo the change. The operation reports the failure and nothing
  is logged or persisted, but readers already see the new file: the module promises that the
  manifest is unchanged in this case.
\<close>

theorem unaudited_change_is_visible:
  assumes "\<not> io_audit io" and "quota n = Inr ()" and "put_change p (NFile h n) (mf_root (ns_manifest s)) = (Inr (), root')"
  shows "\<exists>s'. Nas_put io quota now ctx p h n s = (Inl AuditFailed, s') \<and> Nas_lookup p s' = Some (NFile h n) \<and>
    ns_audit s' = ns_audit s \<and> ns_disk s' = ns_disk s"
  using run_op_changed [of "put_change p (NFile h n)" s "()" root' io now "''put''" "path_to_string p" ctx "ctx_note ctx"]
    put_change_ok(1) [OF assms(3), of "[]"] assms
  by (auto simp: Nas_put_def Nas_lookup_def)

theorem unaudited_change_is_visible_witness:
  "\<exists>s'. Nas_put (all_io\<lparr>io_audit := False\<rparr>) (\<lambda>_. Inr ()) 0 no_ctx [''a''] [1] 2 fresh_nas = (Inl AuditFailed, s') \<and>
     Nas_lookup [''a''] s' = Some (NFile [1] 2) \<and> ns_audit s' = ns_audit fresh_nas \<and> ns_disk s' = ns_disk fresh_nas"
  by (rule unaudited_change_is_visible) (simp_all add: all_io_def fresh_nas_def Manifest_empty_def put_change_empty)

text \<open>
  Two writers can lose an acknowledged file. Both change the manifest under the lock, but each
  persists its own copy after releasing it: when the first writer persists last, both are
  acknowledged and the file of the second is gone after a restart.
\<close>

theorem concurrent_put_lost_after_restart:
  assumes "p1 \<parallel> p2" and "Nas_lookup p2 s = None"
    and m1: "mutate_with (put_change p1 (NFile h1 n1)) s = (Inr (next1, ()), s1)"
    and m2: "mutate_with (put_change p2 (NFile h2 n2)) s1 = (Inr (next2, ()), s2)"
    and c2: "commit io r2 next2 () s2 = (Inr (), s3)" and c1: "commit io r1 next1 () s3 = (Inr (), s4)"
  shows "Nas_lookup p2 s4 = Some (NFile h2 n2) \<and> Nas_lookup p2 (Nas_open s4) = None"
proof -
  from m1 obtain root1 where 1: "put_change p1 (NFile h1 n1) (mf_root (ns_manifest s)) = (Inr (), root1)"
    "mf_root next1 = root1" "ns_manifest s1 = next1"
    by (auto simp: mutate_with_def Let_def split: prod.splits sum.splits)
  from m2 obtain root2 where 2: "put_change p2 (NFile h2 n2) (mf_root (ns_manifest s1)) = (Inr (), root2)"
    "mf_root next2 = root2" "ns_manifest s2 = next2"
    by (auto simp: mutate_with_def Let_def split: prod.splits sum.splits)
  from c2 c1 have "ns_manifest s4 = ns_manifest s2" "ns_disk s4 = Some next1"
    by (auto simp: commit_def write_audit_def persist_manifest_def split: prod.splits sum.splits if_splits)
  moreover have "lookup_entry root1 p2 = None"
    using put_change_ok(2) [OF 1(1), of p2] assms(1,2) by (auto simp: Nas_lookup_def parallel_commute)
  moreover have "lookup_entry root2 p2 = Some (NFile h2 n2)" using put_change_ok(1) [OF 2(1), of "[]"] by simp
  ultimately show ?thesis using 1(2) 2(2,3) by (simp add: Nas_lookup_def Nas_open_def)
qed

theorem concurrent_put_lost_after_restart_witness:
  "\<exists>next1 s1 next2 s2 s3 s4.
     mutate_with (put_change [''a''] (NFile [1] 1)) fresh_nas = (Inr (next1, ()), s1) \<and>
     mutate_with (put_change [''b''] (NFile [2] 2)) s1 = (Inr (next2, ()), s2) \<and>
     commit all_io (mk_record next2 0 ''put'' ''b'' no_ctx None) next2 () s2 = (Inr (), s3) \<and>
     commit all_io (mk_record next1 0 ''put'' ''a'' no_ctx None) next1 () s3 = (Inr (), s4) \<and>
     Nas_lookup [''b''] s4 = Some (NFile [2] 2) \<and> Nas_lookup [''b''] (Nas_open s4) = None"
proof -
  let ?f1 = "put_change [''a''] (NFile [1] 1)" and ?f2 = "put_change [''b''] (NFile [2] 2)"
  obtain next1 s1 where m1: "mutate_with ?f1 fresh_nas = (Inr (next1, ()), s1)"
    and r1: "mf_root (ns_manifest s1) = NDirectory (fmupd ''a'' (NFile [1] 1) fmempty)"
    by (simp add: mutate_with_def fresh_nas_def Manifest_empty_def put_change_empty Let_def)
  have "?f2 (NDirectory (fmupd ''a'' (NFile [1] 1) fmempty)) =
      (Inr (), NDirectory (fmupd ''b'' (NFile [2] 2) (fmupd ''a'' (NFile [1] 1) fmempty)))"
    by (simp add: put_change_def split_walk_or_create_def put_edit_def MAX_DEPTH_def MAX_CHILDREN_PER_DIR_def fcard.rep_eq)
  then obtain next2 s2 where m2: "mutate_with ?f2 s1 = (Inr (next2, ()), s2)" by (simp add: mutate_with_def r1 Let_def)
  obtain s3 where c2: "commit all_io (mk_record next2 0 ''put'' ''b'' no_ctx None) next2 () s2 = (Inr (), s3)"
    by (simp add: commit_def write_audit_def persist_manifest_def all_io_def)
  obtain s4 where c1: "commit all_io (mk_record next1 0 ''put'' ''a'' no_ctx None) next1 () s3 = (Inr (), s4)"
    by (simp add: commit_def write_audit_def persist_manifest_def all_io_def)
  have "[''a''] \<parallel> [''b'']" "Nas_lookup [''b''] fresh_nas = None"
    by (simp_all add: parallel_def Nas_lookup_def fresh_nas_def Manifest_empty_def)
  from concurrent_put_lost_after_restart [OF this m1 m2 c2 c1] m1 m2 c2 c1 show ?thesis by blast
qed

section \<open>Removing and renaming\<close>

lemma delete_exact:
  assumes "p \<noteq> []" and "Nas_lookup p s = Some (NFile h n)"
  shows "\<exists>s'. Nas_delete all_io now ctx p s = (Inr h, s') \<and> Nas_lookup (p @ r) s' = None \<and>
    (\<forall>q. q \<parallel> p \<longrightarrow> Nas_lookup q s' = Nas_lookup q s)"
proof -
  let ?root = "mf_root (ns_manifest s)"
  from lookup_parent [OF assms(1)] assms(2) obtain ch where
    ch: "lookup_entry ?root (butlast p) = Some (NDirectory ch)" "fmlookup ch (last p) = Some (NFile h n)"
    by (auto simp: Nas_lookup_def)
  have "split_walk (delete_edit p) p ?root = (Inr h, drop_at p ch ?root)"
    using split_walk_dir [OF assms(1) ch(1), of "delete_edit p"] ch(2) by (simp add: delete_edit_def drop_at_def)
  from run_op_changed [of "split_walk (delete_edit p) p", OF this, of all_io now "''delete''" "path_to_string p" ctx "ctx_note ctx"]
  show ?thesis using lookup_drop_at [OF assms(1) ch(1)] by (auto simp: Nas_delete_def Nas_lookup_def all_io_def)
qed

lemma take_source:
  assumes "p \<noteq> []" and "lookup_entry root p = Some e"
  obtains ch where "split_walk (take_edit p') p root = (Inr e, drop_at p ch root)"
    and "lookup_entry root (butlast p) = Some (NDirectory ch)"
proof -
  from lookup_parent [OF assms] obtain ch where
    ch: "lookup_entry root (butlast p) = Some (NDirectory ch)" "fmlookup ch (last p) = Some e" by blast
  then have "split_walk (take_edit p') p root = (Inr e, drop_at p ch root)"
    using split_walk_dir [OF assms(1) ch(1), of "take_edit p'"] by (simp add: take_edit_def drop_at_def)
  with ch(1) that show ?thesis by blast
qed

text \<open>
  A failed rename loses its source. When the destination is free and its parent does not exist,
  or lies below the source, the rename is refused, but the source has already been taken out of the
  tree: it is gone, without an audit record and without a new generation.
\<close>

theorem failed_rename_loses_source:
  assumes src: "src \<noteq> []" "Nas_lookup src s = Some e" and dest: "dest \<noteq> []" "Nas_lookup dest s = None"
    and parent: "Nas_lookup (butlast dest) s = None \<or> prefix src (butlast dest)"
  shows "\<exists>err s'. Nas_rename io now ctx src dest overwrite s = (Inl err, s') \<and> Nas_lookup src s' = None \<and>
    ns_audit s' = ns_audit s \<and> mf_generation (ns_manifest s') = mf_generation (ns_manifest s)"
proof -
  let ?root = "mf_root (ns_manifest s)"
  from src take_source [of src ?root e src] obtain ch where
    tk: "split_walk (take_edit src) src ?root = (Inr e, drop_at src ch ?root)"
    and ch: "lookup_entry ?root (butlast src) = Some (NDirectory ch)" by (auto simp: Nas_lookup_def)
  have "lookup_entry (drop_at src ch ?root) (butlast dest) = None"
    using parent lookup_drop_at(1) [OF src(1) ch] lookup_drop_at_None [OF src(1) ch] src(2)
    by (auto simp: Nas_lookup_def prefix_def)
  then obtain err where ins: "insert_at dest e (drop_at src ch ?root) = (Inl err, drop_at src ch ?root)"
    using insert_at_loop_fail [OF dest(1), of "drop_at src ch ?root" e "[]"] dest(1) by (auto simp: insert_at_def)
  have "clear_destination dest overwrite ?root = (Inr (), ?root)"
    using dest(2) by (simp add: clear_destination_def exists_entry_iff Nas_lookup_def)
  then have "rename_change src dest overwrite ?root = (Inl err, drop_at src ch ?root)"
    using tk ins by (simp add: rename_change_def)
  from run_op_failed [of "rename_change src dest overwrite", OF this] show ?thesis
    using lookup_drop_at(1) [OF src(1) ch, of "[]"] by (simp add: Nas_rename_def Nas_lookup_def)
qed

definition nas_with_a :: nas where
  "nas_with_a = fresh_nas\<lparr>ns_manifest := Manifest_empty\<lparr>mf_root := NDirectory (fmupd ''a'' (NFile [1] 2) fmempty)\<rparr>\<rparr>"

theorem failed_rename_loses_source_witness:
  "Nas_lookup [''a''] nas_with_a = Some (NFile [1] 2) \<and>
   (\<exists>err s'. Nas_rename all_io 0 no_ctx [''a''] [''d'', ''a''] False nas_with_a = (Inl err, s') \<and> Nas_lookup [''a''] s' = None \<and>
    ns_audit s' = ns_audit nas_with_a \<and> mf_generation (ns_manifest s') = mf_generation (ns_manifest nas_with_a))"
proof
  show a: "Nas_lookup [''a''] nas_with_a = Some (NFile [1] 2)" by (simp add: Nas_lookup_def nas_with_a_def)
  show "\<exists>err s'. Nas_rename all_io 0 no_ctx [''a''] [''d'', ''a''] False nas_with_a = (Inl err, s') \<and> Nas_lookup [''a''] s' = None \<and>
    ns_audit s' = ns_audit nas_with_a \<and> mf_generation (ns_manifest s') = mf_generation (ns_manifest nas_with_a)"
    by (rule failed_rename_loses_source [OF _ a]) (simp_all add: Nas_lookup_def nas_with_a_def)
qed

text \<open>Renaming an entry onto itself with overwriting allowed deletes it.\<close>

lemma rename_onto_itself_deletes:
  assumes "p \<noteq> []" and "Nas_lookup p s = Some e"
  shows "\<exists>s'. Nas_rename io now ctx p p True s = (Inl (NsNotFound (path_to_string p)), s') \<and> Nas_lookup p s' = None"
proof -
  let ?root = "mf_root (ns_manifest s)"
  from lookup_parent [OF assms(1)] assms(2) obtain ch where
    ch: "lookup_entry ?root (butlast p) = Some (NDirectory ch)" "fmlookup ch (last p) = Some e" by (auto simp: Nas_lookup_def)
  have "clear_destination p True ?root = (Inr (), drop_at p ch ?root)"
    using split_walk_dir [OF assms(1) ch(1), of drop_edit] assms(2)
    by (simp add: clear_destination_def exists_entry_iff drop_edit_def drop_at_def Nas_lookup_def)
  moreover have dir: "lookup_entry (drop_at p ch ?root) (butlast p) = Some (NDirectory (fmdrop (last p) ch))"
    using lookup_put_at [OF ch(1), of _ "[]"] by (simp add: drop_at_def)
  from split_walk_dir [OF assms(1) dir, of "take_edit p"]
  have "split_walk (take_edit p) p (drop_at p ch ?root) =
      (Inl (NsNotFound (path_to_string p)), put_at (butlast p) (NDirectory (fmdrop (last p) ch)) (drop_at p ch ?root))"
    by (simp add: take_edit_def)
  ultimately have "rename_change p p True ?root =
      (Inl (NsNotFound (path_to_string p)), put_at (butlast p) (NDirectory (fmdrop (last p) ch)) (drop_at p ch ?root))"
    by (simp add: rename_change_def)
  from run_op_failed [of "rename_change p p True", OF this] show ?thesis
    using lookup_drop_at(1) [OF assms(1) dir, of "[]"] by (simp add: Nas_rename_def Nas_lookup_def drop_at_def)
qed

lemma parent_after_drop:
  assumes "src \<noteq> []" "dest \<noteq> []" "src \<parallel> dest" and ch: "lookup_entry root (butlast src) = Some (NDirectory ch)"
    and d: "lookup_entry root (butlast dest) = Some (NDirectory c)"
  obtains c' where "lookup_entry (drop_at src ch root) (butlast dest) = Some (NDirectory c')"
proof -
  consider "butlast dest \<parallel> src" | "strict_prefix (butlast dest) src" | r where "butlast dest = src @ r"
    using path_cases by blast
  then show ?thesis
  proof cases
    case 1
    with lookup_drop_at(2) [OF assms(1) ch] d that show ?thesis by simp
  next
    case 2
    with lookup_drop_at(3) [OF assms(1) ch] that show ?thesis by blast
  next
    case 3
    then have "prefix src dest" using assms(2) by (metis append_butlast_last_id append_assoc prefixI)
    with assms(3) show ?thesis by (simp add: parallel_def)
  qed
qed

text \<open>
  A rename moves the whole entry. When neither path is above the other, the destination is free
  and its parent is a directory, the rename succeeds: the destination holds the entry with
  everything below it, nothing is left at the source, and every other path is as before.
\<close>

theorem rename_moves_entry:
  assumes src: "src \<noteq> []" "Nas_lookup src s = Some e" and dest: "dest \<noteq> []" "Nas_lookup dest s = None"
    and par: "src \<parallel> dest" and dir: "Nas_lookup (butlast dest) s = Some (NDirectory c)"
  shows "\<exists>s'. Nas_rename all_io now ctx src dest overwrite s = (Inr (), s') \<and>
    (\<forall>r. Nas_lookup (dest @ r) s' = lookup_entry e r \<and> Nas_lookup (src @ r) s' = None) \<and>
    (\<forall>q. q \<parallel> src \<and> q \<parallel> dest \<longrightarrow> Nas_lookup q s' = Nas_lookup q s)"
proof -
  let ?root = "mf_root (ns_manifest s)"
  from src take_source [of src ?root e src] obtain ch where
    tk: "split_walk (take_edit src) src ?root = (Inr e, drop_at src ch ?root)"
    and ch: "lookup_entry ?root (butlast src) = Some (NDirectory ch)" by (auto simp: Nas_lookup_def)
  let ?r1 = "drop_at src ch ?root"
  from parent_after_drop [OF src(1) dest(1) par ch] dir obtain c' where
    c': "lookup_entry ?r1 (butlast dest) = Some (NDirectory c')" by (auto simp: Nas_lookup_def)
  let ?r2 = "put_at (butlast dest) (NDirectory (fmupd (last dest) e c')) ?r1"
  have ins: "insert_at dest e ?r1 = (Inr (), ?r2)" using insert_at_loop_ok [OF dest(1) c'] dest(1) by (simp add: insert_at_def)
  have "clear_destination dest overwrite ?root = (Inr (), ?root)"
    using dest(2) by (simp add: clear_destination_def exists_entry_iff Nas_lookup_def)
  with tk ins have rc: "rename_change src dest overwrite ?root = (Inr (), ?r2)" by (simp add: rename_change_def)
  have frame: "lookup_entry ?r2 q = lookup_entry ?r1 q" if "q \<parallel> dest" for q
    using that dest(1) by (intro leaf_frame [OF c', where leaf = "last dest"]) auto
  have "lookup_entry ?r2 (butlast dest @ (last dest # r)) = lookup_entry e r" for r
    by (subst lookup_put_at [OF c']) simp
  then have at: "lookup_entry ?r2 (dest @ r) = lookup_entry e r" for r
    using dest(1) by (metis append_Cons append_Nil append_assoc append_butlast_last_id)
  have gone: "lookup_entry ?r2 (src @ r) = None" for r
    using frame [of "src @ r"] parallel_append [OF par, of r "[]"] lookup_drop_at(1) [OF src(1) ch] by simp
  have other: "lookup_entry ?r2 q = lookup_entry ?root q" if "q \<parallel> src" "q \<parallel> dest" for q
    using frame that lookup_drop_at(2) [OF src(1) ch] by simp
  from run_op_changed [of "rename_change src dest overwrite", OF rc, of all_io now "''rename''"
      "path_to_string src @ '' -> '' @ path_to_string dest" ctx "ctx_note ctx"] at gone other
  show ?thesis by (auto simp: Nas_rename_def Nas_lookup_def all_io_def)
qed

theorem rename_moves_entry_witness:
  "\<exists>s'. Nas_rename all_io 0 no_ctx [''a''] [''b''] False nas_with_a = (Inr (), s') \<and>
    Nas_lookup [''b''] s' = Some (NFile [1] 2) \<and> Nas_lookup [''a''] s' = None"
proof -
  have "\<exists>s'. Nas_rename all_io 0 no_ctx [''a''] [''b''] False nas_with_a = (Inr (), s') \<and>
    (\<forall>r. Nas_lookup ([''b''] @ r) s' = lookup_entry (NFile [1] 2) r \<and> Nas_lookup ([''a''] @ r) s' = None) \<and>
    (\<forall>q. q \<parallel> [''a''] \<and> q \<parallel> [''b''] \<longrightarrow> Nas_lookup q s' = Nas_lookup q nas_with_a)"
    by (rule rename_moves_entry [where c = "fmupd ''a'' (NFile [1] 2) fmempty"])
       (simp_all add: Nas_lookup_def nas_with_a_def parallel_def)
  then show ?thesis by (metis append_Nil2 lookup_entry.simps(1))
qed

section \<open>The trash\<close>

lemma find_sort_key_min:
  assumes "List.find P (sort_key k xs) = Some t" and "x \<in> set xs" "P x"
  shows "k t \<le> k x"
proof -
  have "List.find P ys = Some t \<Longrightarrow> x \<in> set ys \<Longrightarrow> sorted (map k ys) \<Longrightarrow> k t \<le> k x" for ys
    using assms(3) by (induction ys) (auto split: if_splits)
  with assms(1,2) show ?thesis by simp
qed

lemma soft_delete_ok:
  assumes "p \<noteq> []" and "Nas_lookup p s = Some e" and io: "io_files io" "io_audit io" "io_persist io"
  obtains ch s' where "Nas_soft_delete io now nonce ctx p s = (Inr e, s')"
    and "lookup_entry (mf_root (ns_manifest s)) (butlast p) = Some (NDirectory ch)"
    and "mf_root (ns_manifest s') = drop_at p ch (mf_root (ns_manifest s))"
    and "ns_trash s' = hm_insert (trunc_div now 1000, nonce, last p)
      \<lparr>te_original_path = path_to_string p, te_entry = e, te_deleted_at = now,
       te_capability_id = ac_capability_id ctx, te_note = ac_note ctx\<rparr> (ns_trash s)"
proof -
  let ?root = "mf_root (ns_manifest s)"
  from lookup_parent [OF assms(1)] assms(2) obtain ch where
    ch: "lookup_entry ?root (butlast p) = Some (NDirectory ch)" "fmlookup ch (last p) = Some e"
    by (auto simp: Nas_lookup_def)
  have "split_walk soft_delete_edit p ?root = (Inr e, drop_at p ch ?root)"
    using split_walk_dir [OF assms(1) ch(1), of soft_delete_edit] ch(2) by (simp add: soft_delete_edit_def drop_at_def)
  then show ?thesis using that [OF _ ch(1)] assms(1) io
    by (simp add: Nas_soft_delete_def mutate_with_def commit_def write_audit_def persist_manifest_def Let_def)
qed

text \<open>When nothing on the way is a file, the walk that creates directories reaches the parent.\<close>

lemma create_loop_total:
  "p \<noteq> [] \<Longrightarrow> (\<And>ch. fst (f ch) = Inr x) \<Longrightarrow> (\<And>q h n. strict_prefix q p \<Longrightarrow> lookup_entry root q \<noteq> Some (NFile h n)) \<Longrightarrow>
    \<exists>root'. create_loop f seen p root = (Inr x, root')"
proof (induction f seen p root rule: create_loop.induct)
  case (1 f seen ss h n)
  from "1.prems"(3) [of "[]" h n] "1.prems"(1) show ?case by (simp add: strict_prefix_def)
next
  case (2 f seen s t ss ch)
  let ?e = "case fmlookup ch s of None \<Rightarrow> NDirectory fmempty | Some e \<Rightarrow> e"
  have "lookup_entry ?e q \<noteq> Some (NFile h n)" if "strict_prefix q (t # ss)" for q h n
    using "2.prems"(3) [of "s # q" h n] that by (cases "fmlookup ch s"; cases q) auto
  from "2.IH" [OF refl _ "2.prems"(2) this] obtain e' where "create_loop f (seen @ [s]) (t # ss) ?e = (Inr x, e')" by auto
  then show ?case by (auto simp: Let_def split: prod.splits)
qed (auto simp: prod_eq_iff split: prod.splits)

lemma hm_values_insert:
  "v \<in> set (hm_values (hm_insert k v m))" "set (hm_values (hm_insert k v m)) \<subseteq> insert v (set (hm_values m))"
proof -
  have "hm_get (hm_insert k v m) k = Some v" by simp
  then have "(k, v) \<in> set (hm_insert k v m)" by (rule map_of_SomeD)
  then show "v \<in> set (hm_values (hm_insert k v m))" by (force simp: hm_values_def)
  show "set (hm_values (hm_insert k v m)) \<subseteq> insert v (set (hm_values m))"
    using set_hm_insert_subset [of k v m] by (force simp: hm_values_def)
qed

lemma find_unique:
  "x \<in> set xs \<Longrightarrow> P x \<Longrightarrow> (\<And>y. List.find P xs = Some y \<Longrightarrow> y = x) \<Longrightarrow> List.find P xs = Some x"
  by (cases "List.find P xs") (auto simp: find_None_all)

text \<open>
  What was moved to the trash can be restored. An entry that is soft-deleted, at a path that is
  written without percent signs, is found in the trash under its path and restored as it was, with
  everything below it, and every path beside it is as before, provided no later deletion of the
  same path is in the trash.
\<close>

theorem soft_delete_restore_round_trip:
  assumes p: "list_all clean_seg p" "p \<noteq> []" "length p \<le> 64" "length (join_segs p) < 4096" "CHR ''%'' \<notin> set (join_segs p)"
      "\<forall>c \<in> set (join_segs p). (of_char c :: nat) \<noteq> 0" "utf8_valid (map of_char (CHR ''/'' # join_segs p))"
    and e: "Nas_lookup p s = Some e"
    and newest: "\<forall>t \<in> set (hm_values (ns_trash s)). te_original_path t = path_to_string p \<longrightarrow> te_deleted_at t < now"
  shows "\<exists>s1 s2. Nas_soft_delete all_io now nonce ctx p s = (Inr e, s1) \<and> Nas_lookup p s1 = None \<and>
    Nas_restore all_io now' ctx' (path_to_string p) s1 = (Inr e, s2) \<and>
    (\<forall>r. Nas_lookup (p @ r) s2 = Nas_lookup (p @ r) s) \<and> (\<forall>q. q \<parallel> p \<longrightarrow> Nas_lookup q s2 = Nas_lookup q s)"
proof -
  let ?te = "\<lparr>te_original_path = path_to_string p, te_entry = e, te_deleted_at = now,
       te_capability_id = ac_capability_id ctx, te_note = ac_note ctx\<rparr>"
  have io: "io_files all_io" "io_audit all_io" "io_persist all_io" by (simp_all add: all_io_def)
  obtain ch s1 where s1: "Nas_soft_delete all_io now nonce ctx p s = (Inr e, s1)"
    and ch: "lookup_entry (mf_root (ns_manifest s)) (butlast p) = Some (NDirectory ch)"
    and r1: "mf_root (ns_manifest s1) = drop_at p ch (mf_root (ns_manifest s))"
    and tr: "ns_trash s1 = hm_insert (trunc_div now 1000, nonce, last p) ?te (ns_trash s)"
    using soft_delete_ok [OF p(2) e io, of now nonce ctx] by blast
  have vals: "?te \<in> set (hm_values (ns_trash s1))" "set (hm_values (ns_trash s1)) \<subseteq> insert ?te (set (hm_values (ns_trash s)))"
    unfolding tr by (rule hm_values_insert)+
  have found: "List.find (\<lambda>t. te_original_path t = path_to_string p) (list_trash s1) = Some ?te"
  proof (rule find_unique)
    fix t assume t: "List.find (\<lambda>t. te_original_path t = path_to_string p) (list_trash s1) = Some t"
    from find_sort_key_min [OF t [unfolded list_trash_def] vals(1)] have "now \<le> te_deleted_at t" by simp
    with find_SomeD [OF t] vals(2) newest show "t = ?te" by (force simp: list_trash_def)
  qed (use vals(1) in \<open>simp_all add: list_trash_def\<close>)
  have dec: "decode_http (CHR ''/'' # path_to_string p) = Inr p"
    using decode_join [OF p] p(2) by (simp add: path_to_string_def)
  let ?f = "restore_edit (last p) e" and ?r1 = "mf_root (ns_manifest s1)"
  have free: "lookup_entry ?r1 q \<noteq> Some (NFile h n)" if "strict_prefix q p" for q h n
    using lookup_drop_at(3) [OF p(2) ch that] r1 by auto
  have "\<exists>r2. create_loop ?f [] p ?r1 = (Inr (), r2)"
    by (rule create_loop_total [OF p(2)]) (simp_all add: restore_edit_def free)
  then obtain r2 where r2: "create_loop ?f [] p ?r1 = (Inr (), r2)" by blast
  have edit: "\<And>ch ch'. ?f ch = (Inr (), ch') \<Longrightarrow> ch' = fmupd (last p) e ch" by (simp add: restore_edit_def)
  obtain s2 where s2: "Nas_restore all_io now' ctx' (path_to_string p) s1 = (Inr e, s2)" "mf_root (ns_manifest s2) = r2"
    using found dec r2 p(2,3)
    by (simp add: Nas_restore_def mutate_with_def split_walk_or_create_def MAX_DEPTH_def commit_def write_audit_def
        persist_manifest_def all_io_def Let_def)
  have "lookup_entry r2 (p @ r) = lookup_entry e r" for r by (rule create_loop_insert(1) [OF p(2) r2 edit])
  moreover have "lookup_entry r2 q = lookup_entry (mf_root (ns_manifest s)) q" if q: "q \<parallel> p" for q
    using create_loop_insert(2) [OF p(2) r2 edit q] lookup_drop_at(2) [OF p(2) ch q] r1 by simp
  ultimately show ?thesis
    using s1 s2 e r1 lookup_drop_at(1) [OF p(2) ch, of "[]"] by (auto simp: Nas_lookup_def lookup_append)
qed

theorem soft_delete_restore_round_trip_witness:
  "\<exists>s1 s2. Nas_soft_delete all_io 5 7 no_ctx [''a''] nas_with_a = (Inr (NFile [1] 2), s1) \<and> Nas_lookup [''a''] s1 = None \<and>
    Nas_restore all_io 6 no_ctx (path_to_string [''a'']) s1 = (Inr (NFile [1] 2), s2) \<and>
    (\<forall>r. Nas_lookup ([''a''] @ r) s2 = Nas_lookup ([''a''] @ r) nas_with_a) \<and>
    (\<forall>q. q \<parallel> [''a''] \<longrightarrow> Nas_lookup q s2 = Nas_lookup q nas_with_a)"
  by (rule soft_delete_restore_round_trip)
     (simp_all add: clean_seg_def Nas_lookup_def nas_with_a_def fresh_nas_def hm_values_def)

text \<open>Restoring does not take the entry out of the trash, and a percent sign in a name makes it unrestorable.\<close>

lemma restore_keeps_trash: "ns_trash (snd (Nas_restore io now ctx path s)) = ns_trash s"
  by (simp add: Nas_restore_def mutate_with_def commit_def write_audit_def persist_manifest_def Let_def
      split: option.splits sum.splits prod.splits)

lemma percent_name_unrestorable: "decode_http (CHR ''/'' # path_to_string [''50%'']) = Inl (Traversal (TruncatedEscape 3))"
  by code_simp

lemma version_round_trip:
  assumes "p \<noteq> []" and "Nas_snapshot_version H all_io now now' ctx p s = (Inr v, s1)"
  shows "Nas_get_version H p v s1 = (case Nas_lookup p s of Some e \<Rightarrow> Inr e | None \<Rightarrow> Inl NsIo)"
  using assms by (auto simp: Nas_snapshot_version_def Nas_get_version_def all_io_def Let_def split: option.splits)

lemma expired_trash_exact:
  "fst (empty_expired_trash age now s) = length (filter (\<lambda>(_, t). te_deleted_at t < now - age * 1000) (ns_trash s)) \<and>
   set (hm_values (ns_trash (snd (empty_expired_trash age now s)))) = {t \<in> set (hm_values (ns_trash s)). now - age * 1000 \<le> te_deleted_at t}"
  using sum_length_filter_compl [of "\<lambda>kv. te_deleted_at (snd kv) < now - age * 1000" "ns_trash s"]
  by (auto simp: empty_expired_trash_def hm_retain_def hm_values_def Let_def case_prod_unfold not_less)
end
