(* ===== verification/Wantlist.thy ===== *)
theory Wantlist
  imports Prelude Bao_Tree
begin

text \<open>
  Bitswap want lists, \<^verbatim>\<open>crates/a3net-blobstore/src/bitswap_wantlist.rs\<close>: the want list of one
  peer and the manager that keeps one per peer together with the set of all wanted blocks.
  A \<^verbatim>\<open>HashSet\<close> is a set, an \<^verbatim>\<open>i32\<close> priority an integer; operations that read the clock take its
  reading, in seconds. The lists a caller obtains from \<^verbatim>\<open>get_or_create\<close> are shared with the manager; the
  lemmas are about changes made through the manager's own operations.
  The lemmas: the set of wanted blocks is exactly the union of the lists, under every sequence of
  operations; what an interleaving of two operations does to it; and the order in which two
  operations take the two locks.
\<close>

section \<open>Want lists\<close>

definition MAX_WANTLIST_SIZE :: nat where "MAX_WANTLIST_SIZE = 1024"
definition MAX_TOTAL_WANTS :: nat where "MAX_TOTAL_WANTS = 10240"

datatype wantlist_error =
    WantlistFull nat nat
  | WantNotFound content_hash
  | WantPeerNotFound string
  | InvalidPriority int

datatype want_type = WantTypeBlock | WantTypeHave

record want_entry =
  we_block :: content_hash
  we_priority :: int
  we_want_type :: want_type
  we_send_dont_have :: bool
  we_created_at :: instant
  we_expires_at :: "instant option"
  we_session_id :: "u64 option"

definition WantEntry_want_block :: "instant \<Rightarrow> content_hash \<Rightarrow> int \<Rightarrow> want_entry" where
  "WantEntry_want_block now b p = \<lparr>we_block = b, we_priority = p, we_want_type = WantTypeBlock, we_send_dont_have = False,
     we_created_at = now, we_expires_at = None, we_session_id = None\<rparr>"

definition WantEntry_want_have :: "instant \<Rightarrow> content_hash \<Rightarrow> int \<Rightarrow> want_entry" where
  "WantEntry_want_have now b p = \<lparr>we_block = b, we_priority = p, we_want_type = WantTypeHave, we_send_dont_have = True,
     we_created_at = now, we_expires_at = None, we_session_id = None\<rparr>"

definition WantEntry_is_expired :: "instant \<Rightarrow> want_entry \<Rightarrow> bool" where
  "WantEntry_is_expired now e = (case we_expires_at e of Some t \<Rightarrow> now > t | None \<Rightarrow> False)"

definition WantEntry_with_expiry :: "instant \<Rightarrow> duration \<Rightarrow> want_entry \<Rightarrow> want_entry" where
  "WantEntry_with_expiry now d e = e\<lparr>we_expires_at := Some (now + d)\<rparr>"

definition WantEntry_with_session :: "u64 \<Rightarrow> want_entry \<Rightarrow> want_entry" where
  "WantEntry_with_session sid e = e\<lparr>we_session_id := Some sid\<rparr>"

record peer_wantlist =
  pw_peer_id :: string
  pw_wants :: "(content_hash, want_entry) hmap"
  pw_pending :: "content_hash set"
  pw_last_sync :: instant
  pw_dirty :: bool
  pw_want_bytes :: u64

definition PeerWantlist_new :: "instant \<Rightarrow> string \<Rightarrow> peer_wantlist" where
  "PeerWantlist_new now p = \<lparr>pw_peer_id = p, pw_wants = [], pw_pending = {}, pw_last_sync = now, pw_dirty = False, pw_want_bytes = 0\<rparr>"

definition PeerWantlist_contains :: "peer_wantlist \<Rightarrow> content_hash \<Rightarrow> bool" where
  "PeerWantlist_contains w b = hm_contains (pw_wants w) b"

definition entries_by_priority :: "peer_wantlist \<Rightarrow> want_entry list" where
  "entries_by_priority w = sort_key (\<lambda>e. - we_priority e) (hm_values (pw_wants w))"

definition PeerWantlist_add_want :: "want_entry \<Rightarrow> peer_wantlist \<Rightarrow> (wantlist_error, unit) result \<times> peer_wantlist" where
  "PeerWantlist_add_want e w =
     (if length (pw_wants w) \<ge> MAX_WANTLIST_SIZE then (Inl (WantlistFull (length (pw_wants w)) MAX_WANTLIST_SIZE), w)
      else (Inr (), w\<lparr>pw_wants := hm_insert (we_block e) e (pw_wants w),
                      pw_pending := insert (we_block e) (pw_pending w), pw_dirty := True\<rparr>))"

definition PeerWantlist_remove_want :: "content_hash \<Rightarrow> peer_wantlist \<Rightarrow> want_entry option \<times> peer_wantlist" where
  "PeerWantlist_remove_want b w =
     (hm_get (pw_wants w) b,
      w\<lparr>pw_dirty := True, pw_pending := pw_pending w - {b}, pw_wants := hm_remove b (pw_wants w)\<rparr>)"

definition PeerWantlist_mark_received :: "content_hash \<Rightarrow> peer_wantlist \<Rightarrow> peer_wantlist" where
  "PeerWantlist_mark_received b w = w\<lparr>pw_pending := pw_pending w - {b}\<rparr>"

definition PeerWantlist_mark_synced :: "instant \<Rightarrow> peer_wantlist \<Rightarrow> peer_wantlist" where
  "PeerWantlist_mark_synced now w = w\<lparr>pw_last_sync := now, pw_dirty := False\<rparr>"

definition PeerWantlist_cleanup_expired :: "instant \<Rightarrow> peer_wantlist \<Rightarrow> content_hash list \<times> peer_wantlist" where
  "PeerWantlist_cleanup_expired now w =
     (let expired = map fst (filter (\<lambda>(_, e). WantEntry_is_expired now e) (pw_wants w));
          w' = fold (\<lambda>h w. w\<lparr>pw_wants := hm_remove h (pw_wants w), pw_pending := pw_pending w - {h}\<rparr>) expired w
      in (expired, if expired \<noteq> [] then w'\<lparr>pw_dirty := True\<rparr> else w'))"

datatype want_message =
    MsgWantHave content_hash int bool
  | MsgWantBlock content_hash int
  | MsgCancel content_hash

definition to_cancel_messages :: "peer_wantlist \<Rightarrow> want_message list" where
  "to_cancel_messages w = map (\<lambda>(b, _). MsgCancel b) (pw_wants w)"

definition to_want_messages :: "peer_wantlist \<Rightarrow> want_message list" where
  "to_want_messages w =
     map (\<lambda>e. if we_want_type e = WantTypeHave then MsgWantHave (we_block e) (we_priority e) (we_send_dont_have e)
              else MsgWantBlock (we_block e) (we_priority e)) (hm_values (pw_wants w))"

record serialized_want_entry =
  sw_block :: content_hash
  sw_priority :: int
  sw_want_type :: string
  sw_created_at_secs :: nat
  sw_expires_at_secs :: "nat option"

definition PeerWantlist_serialize :: "instant \<Rightarrow> peer_wantlist \<Rightarrow> string \<times> serialized_want_entry list" where
  "PeerWantlist_serialize now w =
     (pw_peer_id w, map (\<lambda>e. \<lparr>sw_block = we_block e, sw_priority = we_priority e,
        sw_want_type = (case we_want_type e of WantTypeBlock \<Rightarrow> ''block'' | WantTypeHave \<Rightarrow> ''have''),
        sw_created_at_secs = now - we_created_at e,
        sw_expires_at_secs = map_option (\<lambda>t. now - t) (we_expires_at e)\<rparr>) (hm_values (pw_wants w)))"

section \<open>The manager\<close>

record wantlist_manager =
  wm_peer_wantlists :: "(string, peer_wantlist) hmap"
  wm_global_wants :: "content_hash set"
  wm_max_per_peer :: nat
  wm_cleanup_interval :: duration

definition WantlistManager_with_limits :: "nat \<Rightarrow> duration \<Rightarrow> wantlist_manager" where
  "WantlistManager_with_limits n d =
     \<lparr>wm_peer_wantlists = [], wm_global_wants = {}, wm_max_per_peer = n, wm_cleanup_interval = d\<rparr>"

definition WantlistManager_new :: wantlist_manager where
  "WantlistManager_new = WantlistManager_with_limits MAX_WANTLIST_SIZE 30"

definition get_or_create :: "instant \<Rightarrow> string \<Rightarrow> wantlist_manager \<Rightarrow> peer_wantlist \<times> wantlist_manager" where
  "get_or_create now p m =
     (case hm_get (wm_peer_wantlists m) p of
        Some w \<Rightarrow> (w, m)
      | None \<Rightarrow> (PeerWantlist_new now p,
          m\<lparr>wm_peer_wantlists := hm_insert p (PeerWantlist_new now p) (wm_peer_wantlists m)\<rparr>))"

definition is_wanted :: "content_hash \<Rightarrow> wantlist_manager \<Rightarrow> bool" where
  "is_wanted b m = (b \<in> wm_global_wants m)"

definition is_wanted_elsewhere :: "string \<Rightarrow> content_hash \<Rightarrow> wantlist_manager \<Rightarrow> bool" where
  "is_wanted_elsewhere p b m = list_ex (\<lambda>(q, w). q \<noteq> p \<and> PeerWantlist_contains w b) (wm_peer_wantlists m)"

definition get_wanters :: "content_hash \<Rightarrow> wantlist_manager \<Rightarrow> string list" where
  "get_wanters b m = map fst (filter (\<lambda>(_, w). PeerWantlist_contains w b) (wm_peer_wantlists m))"

definition set_wantlist :: "string \<Rightarrow> peer_wantlist \<Rightarrow> wantlist_manager \<Rightarrow> wantlist_manager" where
  "set_wantlist p w m = m\<lparr>wm_peer_wantlists := hm_insert p w (wm_peer_wantlists m)\<rparr>"

definition WantlistManager_add_want ::
  "instant \<Rightarrow> string \<Rightarrow> want_entry \<Rightarrow> wantlist_manager \<Rightarrow> (wantlist_error, unit) result \<times> wantlist_manager" where
  "WantlistManager_add_want now p e m =
     (let (w, m1) = get_or_create now p m
      in case PeerWantlist_add_want e w of
          (Inl err, _) \<Rightarrow> (Inl err, m1)
        | (Inr _, w') \<Rightarrow>
            (let m2 = set_wantlist p w' m1
             in (Inr (), m2\<lparr>wm_global_wants := insert (we_block e) (wm_global_wants m2)\<rparr>)))"

text \<open>
  \<^verbatim>\<open>remove_want\<close> takes the entry out and looks for other wanters, releases the locks, and only then
  updates the set of wanted blocks: the two parts are separate so that another operation can run
  in between.
\<close>

definition remove_want_check :: "string \<Rightarrow> content_hash \<Rightarrow> wantlist_manager \<Rightarrow> (want_entry option \<times> bool) \<times> wantlist_manager" where
  "remove_want_check p b m =
     (case hm_get (wm_peer_wantlists m) p of
        None \<Rightarrow> ((None, False), m)
      | Some w \<Rightarrow>
          (let (e, w') = PeerWantlist_remove_want b w;
               m1 = set_wantlist p w' m
           in ((e, e \<noteq> None \<and> \<not> is_wanted_elsewhere p b m1), m1)))"

definition remove_want_global :: "bool \<Rightarrow> content_hash \<Rightarrow> wantlist_manager \<Rightarrow> wantlist_manager" where
  "remove_want_global alone b m = (if alone then m\<lparr>wm_global_wants := wm_global_wants m - {b}\<rparr> else m)"

definition WantlistManager_remove_want :: "string \<Rightarrow> content_hash \<Rightarrow> wantlist_manager \<Rightarrow> want_entry option \<times> wantlist_manager" where
  "WantlistManager_remove_want p b m =
     (let ((e, alone), m1) = remove_want_check p b m in (e, remove_want_global alone b m1))"

definition WantlistManager_remove :: "string \<Rightarrow> wantlist_manager \<Rightarrow> peer_wantlist option \<times> wantlist_manager" where
  "WantlistManager_remove p m =
     (let removed = hm_get (wm_peer_wantlists m) p;
          m1 = m\<lparr>wm_peer_wantlists := hm_remove p (wm_peer_wantlists m)\<rparr>
      in case removed of
          None \<Rightarrow> (None, m1)
        | Some w \<Rightarrow> (Some w, m1\<lparr>wm_global_wants :=
            fold (\<lambda>e g. if \<not> is_wanted_elsewhere p (we_block e) m1 then g - {we_block e} else g)
              (hm_values (pw_wants w)) (wm_global_wants m1)\<rparr>))"

definition on_wantlist :: "string \<Rightarrow> (peer_wantlist \<Rightarrow> peer_wantlist) \<Rightarrow> wantlist_manager \<Rightarrow> wantlist_manager" where
  "on_wantlist p f m = (case hm_get (wm_peer_wantlists m) p of None \<Rightarrow> m | Some w \<Rightarrow> set_wantlist p (f w) m)"

definition WantlistManager_mark_received :: "string \<Rightarrow> content_hash \<Rightarrow> wantlist_manager \<Rightarrow> wantlist_manager" where
  "WantlistManager_mark_received p b = on_wantlist p (PeerWantlist_mark_received b)"

definition WantlistManager_mark_synced :: "instant \<Rightarrow> string \<Rightarrow> wantlist_manager \<Rightarrow> wantlist_manager" where
  "WantlistManager_mark_synced now p = on_wantlist p (PeerWantlist_mark_synced now)"

definition WantlistManager_cleanup_expired ::
  "instant \<Rightarrow> wantlist_manager \<Rightarrow> (string, content_hash list) hmap \<times> wantlist_manager" where
  "WantlistManager_cleanup_expired now m =
     (let cleaned = map (\<lambda>(p, w). (p, PeerWantlist_cleanup_expired now w)) (wm_peer_wantlists m);
          gone = map (\<lambda>(p, (x, _)). (p, x)) (filter (\<lambda>(_, (x, _)). x \<noteq> []) cleaned);
          lists = map (\<lambda>(p, (_, w)). (p, w)) cleaned
      in (gone, m\<lparr>wm_peer_wantlists := lists,
            wm_global_wants := {b \<in> wm_global_wants m. list_ex (\<lambda>(_, w). PeerWantlist_contains w b) lists}\<rparr>))"

definition dirty_wantlists :: "wantlist_manager \<Rightarrow> (string, peer_wantlist) hmap" where
  "dirty_wantlists m = filter (\<lambda>(_, w). pw_dirty w) (wm_peer_wantlists m)"

record wantlist_stats =
  wst_peer_count :: nat
  wst_total_entries :: nat
  wst_total_pending :: nat
  wst_dirty_count :: nat
  wst_global_wants :: nat

definition WantlistManager_stats :: "wantlist_manager \<Rightarrow> wantlist_stats" where
  "WantlistManager_stats m =
     \<lparr>wst_peer_count = length (wm_peer_wantlists m),
      wst_total_entries = sum_list (map (\<lambda>(_, w). length (pw_wants w)) (wm_peer_wantlists m)),
      wst_total_pending = sum_list (map (\<lambda>(_, w). card (pw_pending w)) (wm_peer_wantlists m)),
      wst_dirty_count = length (filter (\<lambda>(_, w). pw_dirty w) (wm_peer_wantlists m)),
      wst_global_wants = card (wm_global_wants m)\<rparr>"

section \<open>Wanted blocks\<close>

datatype wantlist_op =
    OpAddWant instant string want_entry
  | OpRemoveWant string content_hash
  | OpRemovePeer string
  | OpReceived string content_hash
  | OpSynced instant string
  | OpCleanup instant

fun wantlist_step :: "wantlist_op \<Rightarrow> wantlist_manager \<Rightarrow> wantlist_manager" where
  "wantlist_step (OpAddWant now p e) m = snd (WantlistManager_add_want now p e m)"
| "wantlist_step (OpRemoveWant p b) m = snd (WantlistManager_remove_want p b m)"
| "wantlist_step (OpRemovePeer p) m = snd (WantlistManager_remove p m)"
| "wantlist_step (OpReceived p b) m = WantlistManager_mark_received p b m"
| "wantlist_step (OpSynced now p) m = WantlistManager_mark_synced now p m"
| "wantlist_step (OpCleanup now) m = snd (WantlistManager_cleanup_expired now m)"

abbreviation wanted_keys :: "peer_wantlist \<Rightarrow> content_hash set" where
  "wanted_keys w \<equiv> fst ` set (pw_wants w)"

definition wl_inv :: "peer_wantlist \<Rightarrow> bool" where
  "wl_inv w = (hm_wf (pw_wants w) \<and> length (pw_wants w) \<le> MAX_WANTLIST_SIZE \<and> pw_pending w \<subseteq> wanted_keys w \<and>
     (\<forall>(b, e) \<in> set (pw_wants w). we_block e = b))"

definition all_wanted :: "wantlist_manager \<Rightarrow> content_hash set" where
  "all_wanted m = (\<Union>(_, w) \<in> set (wm_peer_wantlists m). wanted_keys w)"

definition wm_inv :: "wantlist_manager \<Rightarrow> bool" where
  "wm_inv m = (hm_wf (wm_peer_wantlists m) \<and> (\<forall>(_, w) \<in> set (wm_peer_wantlists m). wl_inv w) \<and>
     wm_global_wants m = all_wanted m)"

lemma contains_iff [simp]: "PeerWantlist_contains w b \<longleftrightarrow> b \<in> wanted_keys w"
  by (simp add: PeerWantlist_contains_def hm_contains_iff)

lemma wm_inv_get: "wm_inv m \<Longrightarrow> hm_get (wm_peer_wantlists m) p = Some w \<Longrightarrow> wl_inv w"
  by (auto simp: wm_inv_def dest: map_of_SomeD)

lemma set_hm_insert: "hm_wf m \<Longrightarrow> set (hm_insert k v m) = insert (k, v) {x \<in> set m. fst x \<noteq> k}"
  by (auto simp: hm_set_eq_get [OF hm_wf_insert] hm_set_eq_get split: if_splits)

lemma set_hm_remove: "hm_wf m \<Longrightarrow> set (hm_remove k m) = {x \<in> set m. fst x \<noteq> k}"
  by (auto simp: hm_set_eq_get [OF hm_wf_remove] hm_set_eq_get split: if_splits)

definition others :: "string \<Rightarrow> wantlist_manager \<Rightarrow> content_hash set" where
  "others p m = (\<Union>(q, v) \<in> {x \<in> set (wm_peer_wantlists m). fst x \<noteq> p}. wanted_keys v)"

lemma all_wanted_split:
  assumes "hm_wf (wm_peer_wantlists m)" "hm_get (wm_peer_wantlists m) p = Some w"
  shows "all_wanted m = wanted_keys w \<union> others p m"
proof -
  have "set (wm_peer_wantlists m) = insert (p, w) {x \<in> set (wm_peer_wantlists m). fst x \<noteq> p}"
    using assms by (auto simp: hm_set_eq_get)
  then show ?thesis unfolding all_wanted_def others_def by (metis (no_types, lifting) UN_insert case_prod_conv)
qed

lemma all_wanted_fresh: "hm_get (wm_peer_wantlists m) p = None \<Longrightarrow> all_wanted m = others p m"
  by (force simp: all_wanted_def others_def map_of_eq_None_iff)

lemma elsewhere_iff: "is_wanted_elsewhere p b m \<longleftrightarrow> b \<in> others p m"
  by (force simp: is_wanted_elsewhere_def list_ex_iff others_def)

lemma others_set [simp]: "hm_wf (wm_peer_wantlists m) \<Longrightarrow> others p (set_wantlist p w m) = others p m"
  by (auto simp: others_def set_wantlist_def set_hm_insert)

lemma others_remove [simp]:
  "hm_wf (wm_peer_wantlists m) \<Longrightarrow> others p (m\<lparr>wm_peer_wantlists := hm_remove p (wm_peer_wantlists m)\<rparr>) = others p m"
  by (auto simp: others_def set_hm_remove)

lemma wm_inv_set:
  assumes "wm_inv m" "wl_inv w" "g = wanted_keys w \<union> others p m"
  shows "wm_inv ((set_wantlist p w m)\<lparr>wm_global_wants := g\<rparr>)"
proof -
  have wf: "hm_wf (wm_peer_wantlists m)" using assms(1) by (simp add: wm_inv_def)
  let ?m = "set_wantlist p w m"
  have "all_wanted ?m = wanted_keys w \<union> others p ?m"
    using wf by (intro all_wanted_split) (simp_all add: set_wantlist_def)
  then have "all_wanted (?m\<lparr>wm_global_wants := g\<rparr>) = g" using assms(3) wf by (simp add: all_wanted_def)
  then show ?thesis using assms wf by (auto simp: wm_inv_def set_wantlist_def set_hm_insert)
qed

lemma wm_inv_set_same:
  assumes "wm_inv m" "wl_inv w" "wm_global_wants m = wanted_keys w \<union> others p m"
  shows "wm_inv (set_wantlist p w m)"
  using wm_inv_set [OF assms] by (simp add: set_wantlist_def)

lemma wl_inv_new [simp]: "wl_inv (PeerWantlist_new now p)" "wanted_keys (PeerWantlist_new now p) = {}"
  by (simp_all add: wl_inv_def PeerWantlist_new_def)

lemma wl_add:
  assumes "wl_inv w" "PeerWantlist_add_want e w = (Inr u, w')"
  shows "wl_inv w' \<and> wanted_keys w' = insert (we_block e) (wanted_keys w)"
proof -
  from assms have room: "length (pw_wants w) < MAX_WANTLIST_SIZE"
    and w': "w' = w\<lparr>pw_wants := hm_insert (we_block e) e (pw_wants w), pw_pending := insert (we_block e) (pw_pending w), pw_dirty := True\<rparr>"
    by (auto simp: PeerWantlist_add_want_def split: if_splits)
  have wf: "hm_wf (pw_wants w)" using assms(1) by (simp add: wl_inv_def)
  show ?thesis using assms(1) room
    by (auto simp: w' wl_inv_def keys_hm_insert set_hm_insert [OF wf] length_hm_insert)
qed

lemma wl_inv_dirty [simp]: "wl_inv (w\<lparr>pw_dirty := d\<rparr>) = wl_inv w"
  by (simp add: wl_inv_def)

lemma wl_remove:
  assumes "wl_inv w" "PeerWantlist_remove_want b w = (r, w')"
  shows "wl_inv w' \<and> wanted_keys w' = wanted_keys w - {b} \<and> (r \<noteq> None \<longleftrightarrow> b \<in> wanted_keys w)"
proof -
  from assms(2) have r: "r = hm_get (pw_wants w) b"
    and w': "w' = w\<lparr>pw_dirty := True, pw_pending := pw_pending w - {b}, pw_wants := hm_remove b (pw_wants w)\<rparr>"
    by (simp_all add: PeerWantlist_remove_want_def)
  have keys: "wanted_keys w' = wanted_keys w - {b}" by (simp add: w' keys_hm_remove)
  have "length (hm_remove b (pw_wants w)) \<le> MAX_WANTLIST_SIZE"
    using length_hm_remove_le [of b "pw_wants w"] assms(1) by (simp add: wl_inv_def)
  moreover have "pw_pending w - {b} \<subseteq> wanted_keys w - {b}" using assms(1) by (auto simp: wl_inv_def)
  moreover have "\<forall>(b, e) \<in> set (hm_remove b (pw_wants w)). we_block e = b"
    using assms(1) set_hm_remove_subset [of b "pw_wants w"] by (auto simp: wl_inv_def)
  ultimately have "wl_inv w'" using assms(1) by (simp add: wl_inv_def w' keys_hm_remove)
  moreover have "r \<noteq> None \<longleftrightarrow> b \<in> wanted_keys w" unfolding r by (simp add: map_of_eq_None_iff)
  ultimately show ?thesis using keys by blast
qed

lemma wl_cleanup:
  assumes "wl_inv w"
  shows "wl_inv (snd (PeerWantlist_cleanup_expired now w)) \<and>
    wanted_keys (snd (PeerWantlist_cleanup_expired now w)) = wanted_keys w - set (fst (PeerWantlist_cleanup_expired now w))"
proof -
  let ?f = "\<lambda>h w. w\<lparr>pw_wants := hm_remove h (pw_wants w), pw_pending := pw_pending w - {h}\<rparr>"
  have "wl_inv (fold ?f hs v) \<and> wanted_keys (fold ?f hs v) = wanted_keys v - set hs" if "wl_inv v" for hs v
    using that
  proof (induction hs arbitrary: v)
    case (Cons h hs)
    have "wl_inv (snd (PeerWantlist_remove_want h v)) \<and> wanted_keys (snd (PeerWantlist_remove_want h v)) = wanted_keys v - {h}"
      using wl_remove [OF Cons.prems, of h] by (cases "PeerWantlist_remove_want h v") simp
    moreover have "?f h v = (snd (PeerWantlist_remove_want h v))\<lparr>pw_dirty := pw_dirty v\<rparr>"
      by (simp add: PeerWantlist_remove_want_def)
    ultimately have "wl_inv (?f h v) \<and> wanted_keys (?f h v) = wanted_keys v - {h}" by simp
    with Cons.IH [of "?f h v"] show ?case by auto
  qed simp
  note loop = this [OF assms]
  define hs where "hs = map fst (filter (\<lambda>(_, e). WantEntry_is_expired now e) (pw_wants w))"
  have "PeerWantlist_cleanup_expired now w = (hs, if hs \<noteq> [] then (fold ?f hs w)\<lparr>pw_dirty := True\<rparr> else fold ?f hs w)"
    by (simp add: PeerWantlist_cleanup_expired_def hs_def Let_def)
  then show ?thesis using loop [of hs] assms by simp
qed

lemma wm_add: "wm_inv m \<Longrightarrow> wm_inv (snd (WantlistManager_add_want now p e m))"
proof -
  assume inv: "wm_inv m"
  obtain w m1 where goc: "get_or_create now p m = (w, m1)" by (cases "get_or_create now p m")
  have wl: "wl_inv w" and m1: "wm_inv m1" and got: "hm_get (wm_peer_wantlists m1) p = Some w"
  proof -
    have "wm_inv (set_wantlist p (PeerWantlist_new now p) m)" if "hm_get (wm_peer_wantlists m) p = None"
      using inv all_wanted_fresh [OF that] by (intro wm_inv_set_same) (simp_all add: wm_inv_def)
    with goc inv show "wl_inv w" "wm_inv m1" "hm_get (wm_peer_wantlists m1) p = Some w"
      by (auto simp: get_or_create_def set_wantlist_def dest: wm_inv_get split: option.splits)
  qed
  show ?thesis
  proof (cases "PeerWantlist_add_want e w")
    case (Pair r w')
    show ?thesis
    proof (cases r)
      case (Inl err)
      with Pair goc m1 show ?thesis by (simp add: WantlistManager_add_want_def)
    next
      case (Inr u)
      with Pair wl_add [OF wl] have w': "wl_inv w'" "wanted_keys w' = insert (we_block e) (wanted_keys w)" by auto
      have "insert (we_block e) (wm_global_wants m1) = wanted_keys w' \<union> others p m1"
        using m1 all_wanted_split [OF _ got] w'(2) by (simp add: wm_inv_def)
      from wm_inv_set [OF m1 w'(1) this] show ?thesis
        using Pair Inr goc by (simp add: WantlistManager_add_want_def Let_def set_wantlist_def)
    qed
  qed
qed

lemma wm_on_wantlist:
  assumes "wm_inv m" and "\<And>w. wl_inv w \<Longrightarrow> wl_inv (f w) \<and> wanted_keys (f w) = wanted_keys w"
  shows "wm_inv (on_wantlist p f m)"
proof (cases "hm_get (wm_peer_wantlists m) p")
  case (Some w)
  have "wl_inv (f w)" "wanted_keys (f w) = wanted_keys w" using assms(2) wm_inv_get [OF assms(1) Some] by auto
  moreover have "wm_global_wants m = wanted_keys w \<union> others p m"
    using all_wanted_split [OF _ Some] assms(1) by (simp add: wm_inv_def)
  ultimately show ?thesis using Some assms(1) by (simp add: on_wantlist_def wm_inv_set_same)
qed (use assms(1) in \<open>simp add: on_wantlist_def\<close>)

lemma wm_remove_want: "wm_inv m \<Longrightarrow> wm_inv (snd (WantlistManager_remove_want p b m))"
proof -
  assume inv: "wm_inv m"
  then have wf: "hm_wf (wm_peer_wantlists m)" by (simp add: wm_inv_def)
  show ?thesis
  proof (cases "hm_get (wm_peer_wantlists m) p")
    case None
    with inv show ?thesis by (simp add: WantlistManager_remove_want_def remove_want_check_def remove_want_global_def)
  next
    case (Some w)
    obtain r w' where rm: "PeerWantlist_remove_want b w = (r, w')" by (cases "PeerWantlist_remove_want b w")
    from wl_remove [OF wm_inv_get [OF inv Some] rm] have w': "wl_inv w'" "wanted_keys w' = wanted_keys w - {b}"
      and r: "r \<noteq> None \<longleftrightarrow> b \<in> wanted_keys w" by auto
    have g: "wm_global_wants m = wanted_keys w \<union> others p m" using inv all_wanted_split [OF wf Some] by (simp add: wm_inv_def)
    let ?alone = "r \<noteq> None \<and> b \<notin> others p m"
    have "snd (WantlistManager_remove_want p b m) = remove_want_global ?alone b (set_wantlist p w' m)"
      using Some rm wf by (simp add: WantlistManager_remove_want_def remove_want_check_def Let_def elsewhere_iff)
    moreover have "wm_inv (remove_want_global ?alone b (set_wantlist p w' m))"
    proof (cases ?alone)
      case True
      have "wm_global_wants m - {b} = wanted_keys w' \<union> others p m" using True g w'(2) by auto
      from wm_inv_set [OF inv w'(1) this] True show ?thesis by (simp add: remove_want_global_def set_wantlist_def)
    next
      case False
      then have "wm_global_wants m = wanted_keys w' \<union> others p m" using g w'(2) r by auto
      from wm_inv_set_same [OF inv w'(1) this] False show ?thesis by (auto simp: remove_want_global_def)
    qed
    ultimately show ?thesis by simp
  qed
qed

lemma image_filter: "f ` {e \<in> A. P (f e)} = {b \<in> f ` A. P b}"
  by blast

lemma list_ex_wanted: "list_ex (\<lambda>(_, w). PeerWantlist_contains w b) xs \<longleftrightarrow> b \<in> (\<Union>(_, w) \<in> set xs. wanted_keys w)"
  by (induction xs) auto

lemma fold_diff: "fold (\<lambda>e g. if P e then g - {f e} else g) es g = g - f ` {e \<in> set es. P e}"
  by (induction es arbitrary: g) auto

lemma wm_remove: "wm_inv m \<Longrightarrow> wm_inv (snd (WantlistManager_remove p m))"
proof -
  assume inv: "wm_inv m"
  then have wf: "hm_wf (wm_peer_wantlists m)" by (simp add: wm_inv_def)
  let ?m1 = "m\<lparr>wm_peer_wantlists := hm_remove p (wm_peer_wantlists m)\<rparr>"
  show ?thesis
  proof (cases "hm_get (wm_peer_wantlists m) p")
    case None
    then have "hm_remove p (wm_peer_wantlists m) = wm_peer_wantlists m" by (simp add: map_of_eq_None_iff delete_id)
    with None inv show ?thesis by (simp add: WantlistManager_remove_def)
  next
    case (Some w)
    have wl: "wl_inv w" by (rule wm_inv_get [OF inv Some])
    have keys: "we_block ` {e \<in> set (hm_values (pw_wants w)). P (we_block e)} = {b \<in> wanted_keys w. P b}" for P
    proof -
      have "we_block ` set (hm_values (pw_wants w)) = wanted_keys w"
        unfolding hm_values_def set_map image_image using wl by (intro image_cong) (auto simp: wl_inv_def)
      with image_filter [of we_block "set (hm_values (pw_wants w))" P] show ?thesis by simp
    qed
    have g: "wm_global_wants m = wanted_keys w \<union> others p m" using inv all_wanted_split [OF wf Some] by (simp add: wm_inv_def)
    have "snd (WantlistManager_remove p m) = ?m1\<lparr>wm_global_wants := wm_global_wants m - {b \<in> wanted_keys w. b \<notin> others p m}\<rparr>"
      using Some wf keys [of "\<lambda>b. b \<notin> others p m"] by (simp add: WantlistManager_remove_def Let_def fold_diff elsewhere_iff)
    also have "wm_global_wants m - {b \<in> wanted_keys w. b \<notin> others p m} = others p m" using g by auto
    finally have rm: "snd (WantlistManager_remove p m) = ?m1\<lparr>wm_global_wants := others p m\<rparr>" .
    have "all_wanted ?m1 = others p m" using all_wanted_fresh [of ?m1 p] wf by simp
    then have "all_wanted (?m1\<lparr>wm_global_wants := others p m\<rparr>) = others p m" by (simp add: all_wanted_def)
    then show ?thesis using inv wf unfolding rm by (auto simp: wm_inv_def set_hm_remove)
  qed
qed

lemma wm_cleanup: "wm_inv m \<Longrightarrow> wm_inv (snd (WantlistManager_cleanup_expired now m))"
proof -
  assume inv: "wm_inv m"
  let ?c = "\<lambda>w. snd (PeerWantlist_cleanup_expired now w)"
  let ?lists = "map (\<lambda>(p, w). (p, ?c w)) (wm_peer_wantlists m)"
  let ?U = "\<Union>(_, w) \<in> set ?lists. wanted_keys w"
  have s: "snd (WantlistManager_cleanup_expired now m) = m\<lparr>wm_peer_wantlists := ?lists,
      wm_global_wants := {b \<in> wm_global_wants m. list_ex (\<lambda>(_, w). PeerWantlist_contains w b) ?lists}\<rparr>"
    by (simp add: WantlistManager_cleanup_expired_def Let_def comp_def case_prod_unfold)
  have wl: "wl_inv w" if "(p, w) \<in> set (wm_peer_wantlists m)" for p w using inv that by (auto simp: wm_inv_def)
  have "hm_wf ?lists" using inv by (simp add: wm_inv_def hm_wf_def comp_def case_prod_beta)
  moreover have "\<forall>(_, w) \<in> set ?lists. wl_inv w" using wl wl_cleanup by auto
  moreover have "{b \<in> wm_global_wants m. list_ex (\<lambda>(_, w). PeerWantlist_contains w b) ?lists} = ?U"
  proof -
    have "wanted_keys (?c w) \<subseteq> wm_global_wants m" if "(p, w) \<in> set (wm_peer_wantlists m)" for p w
    proof -
      have "wanted_keys (?c w) \<subseteq> wanted_keys w" using wl_cleanup [OF wl [OF that], of now] by auto
      also have "\<dots> \<subseteq> wm_global_wants m" using inv UN_upper [OF that, of "\<lambda>(_, w). wanted_keys w"] by (simp add: wm_inv_def all_wanted_def)
      finally show ?thesis .
    qed
    then have "?U \<subseteq> wm_global_wants m" by auto
    moreover have "{b \<in> wm_global_wants m. list_ex (\<lambda>(_, w). PeerWantlist_contains w b) ?lists} = wm_global_wants m \<inter> ?U"
      by (simp add: list_ex_wanted Int_def del: contains_iff)
    ultimately show ?thesis by blast
  qed
  ultimately show ?thesis unfolding s by (simp add: wm_inv_def all_wanted_def)
qed

lemma wm_step: "wm_inv m \<Longrightarrow> wm_inv (wantlist_step op m)"
proof (cases op)
  case (OpReceived p b)
  assume "wm_inv m"
  then show ?thesis unfolding OpReceived wantlist_step.simps WantlistManager_mark_received_def
    by (rule wm_on_wantlist) (auto simp: PeerWantlist_mark_received_def wl_inv_def)
next
  case (OpSynced now p)
  assume "wm_inv m"
  then show ?thesis unfolding OpSynced wantlist_step.simps WantlistManager_mark_synced_def
    by (rule wm_on_wantlist) (auto simp: PeerWantlist_mark_synced_def wl_inv_def)
qed (simp_all add: wm_add wm_remove_want wm_remove wm_cleanup)

interpretation wantlists: op_machine "\<lambda>m. \<exists>n d. m = WantlistManager_with_limits n d" wantlist_step wm_inv
proof
  show "wm_inv m" if "\<exists>n d. m = WantlistManager_with_limits n d" for m
    using that by (auto simp: wm_inv_def WantlistManager_with_limits_def all_wanted_def)
qed (rule wm_step)

text \<open>
  The set of wanted blocks is exact. After every sequence of additions, removals, disconnections,
  responses and expirations a block is reported as wanted exactly when some peer's list holds it,
  and no list holds more than 1024 blocks.
\<close>

theorem wanted_blocks_exact:
  "let m = fold wantlist_step ops (WantlistManager_with_limits n d)
   in (is_wanted b m \<longleftrightarrow> get_wanters b m \<noteq> []) \<and> list_all (\<lambda>(_, w). length (pw_wants w) \<le> 1024) (wm_peer_wantlists m)"
proof -
  let ?m = "fold wantlist_step ops (WantlistManager_with_limits n d)"
  have "wm_inv ?m" by (rule wantlists.inv_run) blast
  then have inv: "wm_inv ?m" .
  have "is_wanted b ?m \<longleftrightarrow> (\<exists>(p, w) \<in> set (wm_peer_wantlists ?m). b \<in> wanted_keys w)"
    using inv by (auto simp: wm_inv_def is_wanted_def all_wanted_def)
  also have "\<dots> \<longleftrightarrow> get_wanters b ?m \<noteq> []" by (auto simp: get_wanters_def filter_empty_conv)
  finally have "is_wanted b ?m \<longleftrightarrow> get_wanters b ?m \<noteq> []" .
  moreover have "list_all (\<lambda>(_, w). length (pw_wants w) \<le> 1024) (wm_peer_wantlists ?m)"
    using inv by (auto simp: wm_inv_def wl_inv_def list_all_iff MAX_WANTLIST_SIZE_def)
  ultimately show ?thesis unfolding Let_def by blast
qed

section \<open>Interleavings\<close>

lemma get_wanters_iff:
  "hm_wf (wm_peer_wantlists m) \<Longrightarrow> x \<in> set (get_wanters b m) \<longleftrightarrow> (\<exists>v. hm_get (wm_peer_wantlists m) x = Some v \<and> b \<in> wanted_keys v)"
  by (auto simp: get_wanters_def hm_set_eq_get [symmetric] image_iff split: prod.splits)

lemma others_get_iff:
  "hm_wf (wm_peer_wantlists m) \<Longrightarrow> b \<in> others p m \<longleftrightarrow> (\<exists>x v. x \<noteq> p \<and> hm_get (wm_peer_wantlists m) x = Some v \<and> b \<in> wanted_keys v)"
  by (auto simp: others_def hm_set_eq_get [symmetric])

text \<open>
  A wanted block can be forgotten. One peer withdraws a block and, between the check for other
  wanters and the update of the set of wanted blocks, another peer's want for the same block is
  added: afterwards the second peer's list holds the block but it is reported as not wanted.
\<close>

theorem withdrawn_want_hides_new_want:
  assumes "wm_inv m" and "hm_get (wm_peer_wantlists m) p = Some w" and "b \<in> wanted_keys w" and "get_wanters b m = [p]"
    and "q \<noteq> p" and "we_block e = b" and "hm_get (wm_peer_wantlists m) q = None"
  shows "\<exists>r m1 m2. remove_want_check p b m = ((r, True), m1) \<and> WantlistManager_add_want now q e m1 = (Inr (), m2) \<and>
    get_wanters b (remove_want_global True b m2) = [q] \<and> \<not> is_wanted b (remove_want_global True b m2)"
proof -
  have wf: "hm_wf (wm_peer_wantlists m)" using assms(1) by (simp add: wm_inv_def)
  obtain r w' where rm: "PeerWantlist_remove_want b w = (r, w')" by (cases "PeerWantlist_remove_want b w")
  from wl_remove [OF wm_inv_get [OF assms(1,2)] rm] assms(3) have r: "r \<noteq> None" and w': "b \<notin> wanted_keys w'" by auto
  let ?m1 = "set_wantlist p w' m"
  have no: "b \<notin> others p m"
    using get_wanters_iff [OF wf, of _ b] assms(4) by (auto simp: others_get_iff [OF wf])
  have chk: "remove_want_check p b m = ((r, True), ?m1)"
    using assms(2) rm r no wf by (simp add: remove_want_check_def elsewhere_iff Let_def)
  let ?w = "snd (PeerWantlist_add_want e (PeerWantlist_new now q))"
  let ?m2 = "(set_wantlist q ?w (set_wantlist q (PeerWantlist_new now q) ?m1))\<lparr>wm_global_wants := insert b (wm_global_wants m)\<rparr>"
  have add: "WantlistManager_add_want now q e ?m1 = (Inr (), ?m2)"
    using assms(5-7) by (simp add: WantlistManager_add_want_def get_or_create_def set_wantlist_def PeerWantlist_add_want_def
        PeerWantlist_new_def MAX_WANTLIST_SIZE_def Let_def)
  have wf2: "hm_wf (wm_peer_wantlists ?m2)" using wf by (simp add: set_wantlist_def)
  have "b \<in> wanted_keys ?w"
    using assms(6) by (simp add: PeerWantlist_add_want_def PeerWantlist_new_def MAX_WANTLIST_SIZE_def)
  then have "x \<in> set (get_wanters b ?m2) \<longleftrightarrow> x = q" for x
    using get_wanters_iff [OF wf2, of x b] w' assms(5) no others_get_iff [OF wf, of b p]
    by (auto simp: set_wantlist_def split: if_splits)
  then have "set (get_wanters b ?m2) = {q}" by auto
  moreover have "distinct (get_wanters b ?m2)"
    using wf by (simp add: get_wanters_def set_wantlist_def hm_wf_def distinct_map_filter distinct_update)
  ultimately have "get_wanters b ?m2 = [q]" by (cases "get_wanters b ?m2"; cases "tl (get_wanters b ?m2)") auto
  then show ?thesis using chk add by (simp add: remove_want_global_def get_wanters_def is_wanted_def)
qed

theorem withdrawn_want_hides_new_want_witness:
  "let e = WantEntry_want_block 0 [1] 5; m = snd (WantlistManager_add_want 0 ''a'' e WantlistManager_new)
   in \<exists>r m1 m2. remove_want_check ''a'' [1] m = ((r, True), m1) \<and> WantlistManager_add_want 0 ''b'' e m1 = (Inr (), m2) \<and>
    get_wanters [1] (remove_want_global True [1] m2) = [''b''] \<and> \<not> is_wanted [1] (remove_want_global True [1] m2)"
proof -
  let ?e = "WantEntry_want_block 0 [1] 5" and ?m = "snd (WantlistManager_add_want 0 ''a'' (WantEntry_want_block 0 [1] 5) WantlistManager_new)"
  have "wm_inv WantlistManager_new" unfolding WantlistManager_new_def by (rule wantlists.inv_init) blast
  then have inv: "wm_inv ?m" by (rule wm_add)
  have "wm_peer_wantlists ?m = [(''a'', snd (PeerWantlist_add_want ?e (PeerWantlist_new 0 ''a'')))]"
    by (simp add: WantlistManager_add_want_def get_or_create_def WantlistManager_new_def WantlistManager_with_limits_def
        set_wantlist_def PeerWantlist_add_want_def PeerWantlist_new_def MAX_WANTLIST_SIZE_def Let_def)
  then have "\<exists>r m1 m2. remove_want_check ''a'' [1] ?m = ((r, True), m1) \<and> WantlistManager_add_want 0 ''b'' ?e m1 = (Inr (), m2) \<and>
    get_wanters [1] (remove_want_global True [1] m2) = [''b''] \<and> \<not> is_wanted [1] (remove_want_global True [1] m2)"
    by (intro withdrawn_want_hides_new_want [OF inv, where w = "snd (PeerWantlist_add_want ?e (PeerWantlist_new 0 ''a''))"])
       (simp_all add: get_wanters_def PeerWantlist_add_want_def PeerWantlist_new_def MAX_WANTLIST_SIZE_def WantEntry_want_block_def)
  then show ?thesis by (simp add: Let_def)
qed

text \<open>A full list refuses even a new priority for a block it already holds.\<close>

lemma full_list_refuses_update:
  "length (pw_wants w) = MAX_WANTLIST_SIZE \<Longrightarrow> fst (PeerWantlist_add_want e w) = Inl (WantlistFull 1024 1024)"
  by (simp add: PeerWantlist_add_want_def MAX_WANTLIST_SIZE_def)

text \<open>What is serialised of an entry that has not expired: its expiry becomes zero.\<close>

lemma serialize_loses_expiry:
  assumes "\<forall>e \<in> set (hm_values (pw_wants w)). \<not> WantEntry_is_expired now e" "s \<in> set (snd (PeerWantlist_serialize now w))"
  shows "sw_expires_at_secs s = None \<or> sw_expires_at_secs s = Some 0"
proof -
  from assms(2) obtain e where e: "e \<in> set (hm_values (pw_wants w))" "sw_expires_at_secs s = map_option (\<lambda>t. now - t) (we_expires_at e)"
    by (auto simp: PeerWantlist_serialize_def)
  with assms(1) show ?thesis by (cases "we_expires_at e") (auto simp: WantEntry_is_expired_def)
qed

section \<open>Lock order\<close>

text \<open>
  The manager has two locks. \<^verbatim>\<open>remove\<close> holds the lock of the wanted set while
  \<^verbatim>\<open>is_wanted_elsewhere\<close> takes the lock of the lists; \<^verbatim>\<open>cleanup_expired\<close> holds the lock of
  the lists while it takes the lock of the wanted set. A thread is what it still has to do; a write
  lock excludes every other holder.
\<close>

datatype lock = PeersLock | GlobalLock
datatype lock_mode = ReadMode | WriteMode
datatype lock_act = Acquire lock lock_mode | Release lock

definition remove_locks :: "nat \<Rightarrow> lock_act list" where
  "remove_locks entries =
     [Acquire PeersLock WriteMode, Release PeersLock, Acquire GlobalLock WriteMode] @
     concat (replicate entries [Acquire PeersLock ReadMode, Release PeersLock]) @ [Release GlobalLock]"

definition cleanup_locks :: "lock_act list" where
  "cleanup_locks = [Acquire PeersLock WriteMode, Acquire GlobalLock WriteMode, Release GlobalLock, Release PeersLock]"

type_synonym lock_state = "lock_act list list \<times> (nat \<times> lock \<times> lock_mode) set"

inductive lock_step :: "lock_state \<Rightarrow> lock_state \<Rightarrow> bool" where
  acquire: "i < length ts \<Longrightarrow> ts ! i = Acquire l md # rest \<Longrightarrow>
    (\<And>j md'. (j, l, md') \<in> held \<Longrightarrow> md = ReadMode \<and> md' = ReadMode) \<Longrightarrow>
    lock_step (ts, held) (ts[i := rest], insert (i, l, md) held)"
| release: "i < length ts \<Longrightarrow> ts ! i = Release l # rest \<Longrightarrow>
    lock_step (ts, held) (ts[i := rest], held - {(i, l, ReadMode), (i, l, WriteMode)})"

inductive_cases lock_stepE: "lock_step (ts, held) st"

text \<open>
  A disconnection and a cleanup can block each other for ever. Started together, the removal of a
  peer with at least one want and the cleanup of expired wants reach a state in which both still have
  work to do and neither can take the lock it needs.
\<close>

theorem remove_cleanup_deadlock:
  "\<exists>r c held. lock_step\<^sup>*\<^sup>* ([remove_locks (Suc n), cleanup_locks], {}) ([r, c], held) \<and>
     r \<noteq> [] \<and> c \<noteq> [] \<and> (\<nexists>st. lock_step ([r, c], held) st)"
proof -
  let ?r2 = "Acquire PeersLock ReadMode # Release PeersLock #
    concat (replicate n [Acquire PeersLock ReadMode, Release PeersLock]) @ [Release GlobalLock]"
  let ?c1 = "[Acquire GlobalLock WriteMode, Release GlobalLock, Release PeersLock]"
  let ?h1 = "{(0, PeersLock, WriteMode)}" and ?h3 = "{(0, GlobalLock, WriteMode)}"
    and ?h4 = "{(1, PeersLock, WriteMode), (0, GlobalLock, WriteMode)}"
  have "remove_locks (Suc n) = Acquire PeersLock WriteMode # Release PeersLock # Acquire GlobalLock WriteMode # ?r2"
    by (simp add: remove_locks_def)
  then have 1: "lock_step ([remove_locks (Suc n), cleanup_locks], {}) ([Release PeersLock # Acquire GlobalLock WriteMode # ?r2, cleanup_locks], ?h1)"
    using lock_step.acquire [of 0 "[remove_locks (Suc n), cleanup_locks]" PeersLock WriteMode
        "Release PeersLock # Acquire GlobalLock WriteMode # ?r2" "{}"] by simp
  have 2: "lock_step ([Release PeersLock # Acquire GlobalLock WriteMode # ?r2, cleanup_locks], ?h1) ([Acquire GlobalLock WriteMode # ?r2, cleanup_locks], {})"
    using lock_step.release [of 0 "[Release PeersLock # Acquire GlobalLock WriteMode # ?r2, cleanup_locks]" PeersLock
        "Acquire GlobalLock WriteMode # ?r2" ?h1] by simp
  have 3: "lock_step ([Acquire GlobalLock WriteMode # ?r2, cleanup_locks], {}) ([?r2, cleanup_locks], ?h3)"
    using lock_step.acquire [of 0 "[Acquire GlobalLock WriteMode # ?r2, cleanup_locks]" GlobalLock WriteMode ?r2 "{}"] by simp
  have 4: "lock_step ([?r2, cleanup_locks], ?h3) ([?r2, ?c1], ?h4)"
    using lock_step.acquire [of 1 "[?r2, cleanup_locks]" PeersLock WriteMode ?c1 ?h3] by (simp add: cleanup_locks_def)
  have stuck: "\<not> lock_step ([?r2, ?c1], ?h4) st" for st
    by (auto elim!: lock_stepE simp: less_Suc_eq) (metis less_irrefl)
  have "lock_step\<^sup>*\<^sup>* ([remove_locks (Suc n), cleanup_locks], {}) ([?r2, ?c1], ?h4)"
    using 1 2 3 4 by (meson converse_rtranclp_into_rtranclp r_into_rtranclp)
  with stuck show ?thesis by blast
qed
end
