(* ===== verification/Bitswap.thy ===== *)
theory Bitswap
  imports Prelude Bao_Tree
begin

text \<open>
  The Bitswap engine, \<^verbatim>\<open>crates/a3net-blobstore/src/bitswap.rs\<close>: messages, the ledger of a peer,
  sessions, the queue of pending wants, the want manager and the engine that processes messages.
  Counters of the metrics registry, the reputation feature and the token bucket of the rate limiter
  (floating point) are left out; \<^verbatim>\<open>process_message\<close> does not consult the rate limiter. The block
  provider is an argument, the clock is read in seconds, a \<^verbatim>\<open>HashSet\<close> is a set, and the order of a
  \<^verbatim>\<open>HashMap\<close> and of equal elements of a \<^verbatim>\<open>BinaryHeap\<close> is that of the list that stands for it.
  The lemmas: what every message is answered with, the bounds of queues and sessions under every
  sequence of operations, the order of the queue, and what the engine never records.
\<close>

section \<open>Constants, identifiers and messages\<close>

definition MAX_PENDING_WANTS :: nat where "MAX_PENDING_WANTS = 256"
definition DEFAULT_PEER_BUDGET_BYTES :: u64 where "DEFAULT_PEER_BUDGET_BYTES = 10 * 1024 * 1024"
definition WANT_HAVE_TIMEOUT :: duration where "WANT_HAVE_TIMEOUT = 10"
definition WANT_BLOCK_TIMEOUT :: duration where "WANT_BLOCK_TIMEOUT = 60"

datatype peer_id_error = PidTooShort nat nat | PidTooLong nat nat | PidInvalidCharacters

record peer_id_config =
  pc_min_length :: nat
  pc_max_length :: nat
  pc_allowed_pattern :: "string option"

definition PeerIdConfig_default :: peer_id_config where
  "PeerIdConfig_default = \<lparr>pc_min_length = 4, pc_max_length = 128, pc_allowed_pattern = Some ''^[a-zA-Z0-9_-]+$''\<rparr>"

definition is_ascii_lowercase :: "char \<Rightarrow> bool" where
  "is_ascii_lowercase c = (97 \<le> (of_char c :: nat) \<and> (of_char c :: nat) \<le> 122)"

definition is_ascii_alnum :: "char \<Rightarrow> bool" where
  "is_ascii_alnum c = (is_ascii_lowercase c \<or> (65 \<le> (of_char c :: nat) \<and> (of_char c :: nat) \<le> 90) \<or>
     (48 \<le> (of_char c :: nat) \<and> (of_char c :: nat) \<le> 57))"

definition check_pattern :: "string \<Rightarrow> string \<Rightarrow> bool" where
  "check_pattern pid pattern =
     (if pattern = ''^[a-z]+$'' then list_all is_ascii_lowercase pid
      else list_all (\<lambda>c. is_ascii_alnum c \<or> c = CHR ''_'' \<or> c = CHR ''-'') pid)"

definition PeerId_validate :: "peer_id_config \<Rightarrow> string \<Rightarrow> (peer_id_error, unit) result" where
  "PeerId_validate cfg pid =
     (if length pid < pc_min_length cfg then Inl (PidTooShort (length pid) (pc_min_length cfg))
      else if length pid > pc_max_length cfg then Inl (PidTooLong (length pid) (pc_max_length cfg))
      else case pc_allowed_pattern cfg of
          Some pat \<Rightarrow> if check_pattern pid pat then Inr () else Inl PidInvalidCharacters
        | None \<Rightarrow> Inr ())"

datatype bitswap_message =
    BsWantHave content_hash int bool
  | BsWantBlock content_hash int
  | BsCancel content_hash
  | BsHave content_hash bool
  | BsDontHave content_hash
  | BsBlock content_hash bytes
  | BsBatchWant "(content_hash \<times> int \<times> bool) list"
  | BsBatchResponse "(content_hash \<times> bool \<times> bytes option) list"

section \<open>Ledgers\<close>

record ledger_flags =
  lf_server :: bool
  lf_client :: bool
  lf_throttled :: bool
  lf_blocked :: bool

record peer_ledger =
  pl_bytes_sent :: u64
  pl_bytes_received :: u64
  pl_blocks_sent :: u64
  pl_blocks_received :: u64
  pl_want_bytes :: u64
  pl_peer_want_bytes :: u64
  pl_credit_limit :: u64
  pl_last_update :: instant
  pl_flags :: ledger_flags

definition PeerLedger_new :: "instant \<Rightarrow> peer_ledger" where
  "PeerLedger_new now = \<lparr>pl_bytes_sent = 0, pl_bytes_received = 0, pl_blocks_sent = 0, pl_blocks_received = 0, pl_want_bytes = 0,
     pl_peer_want_bytes = 0, pl_credit_limit = DEFAULT_PEER_BUDGET_BYTES, pl_last_update = now,
     pl_flags = \<lparr>lf_server = False, lf_client = False, lf_throttled = False, lf_blocked = False\<rparr>\<rparr>"

definition record_sent :: "instant \<Rightarrow> u64 \<Rightarrow> peer_ledger \<Rightarrow> peer_ledger" where
  "record_sent now n l = l\<lparr>pl_bytes_sent := pl_bytes_sent l + n, pl_last_update := now\<rparr>"

definition record_received :: "instant \<Rightarrow> u64 \<Rightarrow> peer_ledger \<Rightarrow> peer_ledger" where
  "record_received now n l = l\<lparr>pl_bytes_received := pl_bytes_received l + n, pl_last_update := now\<rparr>"

definition record_block_sent :: "peer_ledger \<Rightarrow> peer_ledger" where
  "record_block_sent l = l\<lparr>pl_blocks_sent := pl_blocks_sent l + 1\<rparr>"

definition record_block_received :: "peer_ledger \<Rightarrow> peer_ledger" where
  "record_block_received l = l\<lparr>pl_blocks_received := pl_blocks_received l + 1\<rparr>"

definition ledger_add_want :: "u64 \<Rightarrow> peer_ledger \<Rightarrow> peer_ledger" where
  "ledger_add_want n l = l\<lparr>pl_want_bytes := pl_want_bytes l + n\<rparr>"

definition ledger_remove_want :: "u64 \<Rightarrow> peer_ledger \<Rightarrow> peer_ledger" where
  "ledger_remove_want n l = l\<lparr>pl_want_bytes := sat_sub64 (pl_want_bytes l) n\<rparr>"

definition ledger_add_peer_want :: "u64 \<Rightarrow> peer_ledger \<Rightarrow> peer_ledger" where
  "ledger_add_peer_want n l = l\<lparr>pl_peer_want_bytes := pl_peer_want_bytes l + n\<rparr>"

definition can_receive :: "peer_ledger \<Rightarrow> bool" where
  "can_receive l = (\<not> lf_blocked (pl_flags l) \<and> pl_bytes_received l < pl_credit_limit l)"

definition can_send :: "peer_ledger \<Rightarrow> bool" where
  "can_send l = (\<not> lf_blocked (pl_flags l) \<and> pl_bytes_sent l < pl_credit_limit l)"

definition ledger_balance :: "peer_ledger \<Rightarrow> int" where
  "ledger_balance l = sint (pl_bytes_received l - pl_bytes_sent l)"

definition ledger_block :: "peer_ledger \<Rightarrow> peer_ledger" where
  "ledger_block l = l\<lparr>pl_flags := (pl_flags l)\<lparr>lf_blocked := True\<rparr>\<rparr>"

definition ledger_throttle :: "bool \<Rightarrow> peer_ledger \<Rightarrow> peer_ledger" where
  "ledger_throttle b l = l\<lparr>pl_flags := (pl_flags l)\<lparr>lf_throttled := b\<rparr>\<rparr>"

section \<open>Sessions\<close>

record bitswap_session =
  bs_id :: u64
  bs_root :: "content_hash option"
  bs_peers :: "string list"
  bs_blocks :: "content_hash set"
  bs_active_wants :: "content_hash set"
  bs_peer_scores :: "(string, nat) hmap"
  bs_created_at :: instant
  bs_last_activity :: instant

definition BitswapSession_new :: "instant \<Rightarrow> u64 \<Rightarrow> bitswap_session" where
  "BitswapSession_new now i = \<lparr>bs_id = i, bs_root = None, bs_peers = [], bs_blocks = {}, bs_active_wants = {}, bs_peer_scores = [],
     bs_created_at = now, bs_last_activity = now\<rparr>"

definition session_touch :: "instant \<Rightarrow> bitswap_session \<Rightarrow> bitswap_session" where
  "session_touch now s = s\<lparr>bs_last_activity := now\<rparr>"

definition session_add_peer :: "string \<Rightarrow> bitswap_session \<Rightarrow> bitswap_session" where
  "session_add_peer p s =
     (if p \<in> set (bs_peers s) then s
      else s\<lparr>bs_peers := bs_peers s @ [p], bs_peer_scores := hm_insert p 0 (bs_peer_scores s)\<rparr>)"

definition session_remove_peer :: "string \<Rightarrow> bitswap_session \<Rightarrow> bitswap_session" where
  "session_remove_peer p s =
     s\<lparr>bs_peers := filter (\<lambda>q. q \<noteq> p) (bs_peers s), bs_peer_scores := hm_remove p (bs_peer_scores s)\<rparr>"

definition session_add_block :: "instant \<Rightarrow> content_hash \<Rightarrow> bitswap_session \<Rightarrow> bitswap_session" where
  "session_add_block now b s = session_touch now (s\<lparr>bs_blocks := insert b (bs_blocks s)\<rparr>)"

definition session_start_want :: "instant \<Rightarrow> content_hash \<Rightarrow> bitswap_session \<Rightarrow> bitswap_session" where
  "session_start_want now b s = session_touch now (s\<lparr>bs_active_wants := insert b (bs_active_wants s)\<rparr>)"

definition session_stop_want :: "content_hash \<Rightarrow> bitswap_session \<Rightarrow> bitswap_session" where
  "session_stop_want b s = s\<lparr>bs_active_wants := bs_active_wants s - {b}\<rparr>"

definition record_peer_blocks :: "instant \<Rightarrow> string \<Rightarrow> content_hash list \<Rightarrow> bitswap_session \<Rightarrow> bitswap_session" where
  "record_peer_blocks now p bs s =
     session_touch now (case hm_get (bs_peer_scores s) p of
         Some n \<Rightarrow> s\<lparr>bs_peer_scores := hm_insert p (n + length bs) (bs_peer_scores s)\<rparr>
       | None \<Rightarrow> s)"

definition session_score :: "bitswap_session \<Rightarrow> string \<Rightarrow> nat" where
  "session_score s p = (case hm_get (bs_peer_scores s) p of Some n \<Rightarrow> n | None \<Rightarrow> 0)"

definition best_peer_for :: "bitswap_session \<Rightarrow> string option" where
  "best_peer_for s =
     (case sort_key (\<lambda>p. - int (session_score s p)) (bs_peers s) of [] \<Rightarrow> None | p # _ \<Rightarrow> Some p)"

definition decay_scores :: "bitswap_session \<Rightarrow> bitswap_session" where
  "decay_scores s = s\<lparr>bs_peer_scores := hm_map_values (\<lambda>n. (n + 1) div 2) (bs_peer_scores s)\<rparr>"

definition session_is_stale :: "instant \<Rightarrow> duration \<Rightarrow> bitswap_session \<Rightarrow> bool" where
  "session_is_stale now max_idle s = (now - bs_last_activity s > max_idle)"

record session_manager =
  sn_sessions :: "(u64, bitswap_session) hmap"
  sn_next_id :: u64
  sn_max_sessions :: nat

definition SessionManager_new :: "nat \<Rightarrow> session_manager" where
  "SessionManager_new n = \<lparr>sn_sessions = [], sn_next_id = 1, sn_max_sessions = n\<rparr>"

definition oldest_session :: "(u64, bitswap_session) hmap \<Rightarrow> bitswap_session option" where
  "oldest_session m = (case sort_key bs_created_at (hm_values m) of [] \<Rightarrow> None | s # _ \<Rightarrow> Some s)"

definition create_session :: "instant \<Rightarrow> session_manager \<Rightarrow> bitswap_session \<times> session_manager" where
  "create_session now m =
     (let i = sn_next_id m;
          s = BitswapSession_new now i;
          kept = (if length (sn_sessions m) \<ge> sn_max_sessions m
                  then (case oldest_session (sn_sessions m) of
                          Some old \<Rightarrow> hm_remove (bs_id old) (sn_sessions m) | None \<Rightarrow> sn_sessions m)
                  else sn_sessions m)
      in (s, m\<lparr>sn_next_id := i + 1, sn_sessions := hm_insert i s kept\<rparr>))"

definition create_session_for :: "instant \<Rightarrow> content_hash \<Rightarrow> session_manager \<Rightarrow> bitswap_session \<times> session_manager" where
  "create_session_for now root m = (let (s, m') = create_session now m in (s\<lparr>bs_root := Some root\<rparr>, m'))"

definition update_session :: "bitswap_session \<Rightarrow> session_manager \<Rightarrow> session_manager" where
  "update_session s m = m\<lparr>sn_sessions := hm_insert (bs_id s) s (sn_sessions m)\<rparr>"

definition remove_session :: "u64 \<Rightarrow> session_manager \<Rightarrow> session_manager" where
  "remove_session i m = m\<lparr>sn_sessions := hm_remove i (sn_sessions m)\<rparr>"

definition cleanup_stale :: "instant \<Rightarrow> duration \<Rightarrow> session_manager \<Rightarrow> session_manager" where
  "cleanup_stale now max_idle m = m\<lparr>sn_sessions := hm_retain (\<lambda>_ s. \<not> session_is_stale now max_idle s) (sn_sessions m)\<rparr>"

section \<open>Pending wants and the want manager\<close>

record pending_want =
  pg_block :: content_hash
  pg_priority :: int
  pg_want_have :: bool
  pg_send_dont_have :: bool
  pg_created_at :: instant
  pg_deadline :: instant
  pg_session_id :: "u64 option"
  pg_peer_prefs :: "string list"

definition PendingWant_want_block :: "instant \<Rightarrow> content_hash \<Rightarrow> int \<Rightarrow> pending_want" where
  "PendingWant_want_block now b p = \<lparr>pg_block = b, pg_priority = p, pg_want_have = False, pg_send_dont_have = False,
     pg_created_at = now, pg_deadline = now + WANT_BLOCK_TIMEOUT, pg_session_id = None, pg_peer_prefs = []\<rparr>"

definition PendingWant_want_have :: "instant \<Rightarrow> content_hash \<Rightarrow> int \<Rightarrow> pending_want" where
  "PendingWant_want_have now b p = \<lparr>pg_block = b, pg_priority = p, pg_want_have = True, pg_send_dont_have = True,
     pg_created_at = now, pg_deadline = now + WANT_HAVE_TIMEOUT, pg_session_id = None, pg_peer_prefs = []\<rparr>"

definition PendingWant_le :: "pending_want \<Rightarrow> pending_want \<Rightarrow> bool" where
  "PendingWant_le a b = (pg_priority a < pg_priority b \<or> pg_priority a = pg_priority b \<and> pg_created_at a \<le> pg_created_at b)"

record peer_want_list =
  pwl_wants :: "content_hash set"
  pwl_want_haves :: "content_hash set"

definition PeerWantList_default :: peer_want_list where
  "PeerWantList_default = \<lparr>pwl_wants = {}, pwl_want_haves = {}\<rparr>"

definition pwl_wants_any :: "peer_want_list \<Rightarrow> content_hash \<Rightarrow> bool" where
  "pwl_wants_any w b = (b \<in> pwl_wants w \<or> b \<in> pwl_want_haves w)"

record want_manager =
  wn_peer_wants :: "(string, peer_want_list) hmap"
  wn_pending_wants :: "pending_want list"
  wn_local_blocks :: "content_hash set"
  wn_block_data :: "(content_hash, bytes) hmap"

definition WantManager_new :: want_manager where
  "WantManager_new = \<lparr>wn_peer_wants = [], wn_pending_wants = [], wn_local_blocks = {}, wn_block_data = []\<rparr>"

definition WantManager_add_want :: "string \<Rightarrow> content_hash \<Rightarrow> bool \<Rightarrow> want_manager \<Rightarrow> want_manager" where
  "WantManager_add_want p b want_have m =
     (let w = (case hm_get (wn_peer_wants m) p of Some w \<Rightarrow> w | None \<Rightarrow> PeerWantList_default);
          w' = (if want_have then w\<lparr>pwl_want_haves := insert b (pwl_want_haves w)\<rparr> else w\<lparr>pwl_wants := insert b (pwl_wants w)\<rparr>)
      in m\<lparr>wn_peer_wants := hm_insert p w' (wn_peer_wants m)\<rparr>)"

definition WantManager_remove_want :: "string \<Rightarrow> content_hash \<Rightarrow> want_manager \<Rightarrow> want_manager" where
  "WantManager_remove_want p b m =
     (case hm_get (wn_peer_wants m) p of
        Some w \<Rightarrow> m\<lparr>wn_peer_wants := hm_insert p (w\<lparr>pwl_wants := pwl_wants w - {b}\<rparr>) (wn_peer_wants m)\<rparr>
      | None \<Rightarrow> m)"

definition WantManager_is_wanted :: "content_hash \<Rightarrow> want_manager \<Rightarrow> bool" where
  "WantManager_is_wanted b m = list_ex (\<lambda>(_, w). pwl_wants_any w b) (wn_peer_wants m)"

definition WantManager_get_wanters :: "content_hash \<Rightarrow> want_manager \<Rightarrow> string list" where
  "WantManager_get_wanters b m = map fst (filter (\<lambda>(_, w). pwl_wants_any w b) (wn_peer_wants m))"

definition push_pending :: "pending_want \<Rightarrow> want_manager \<Rightarrow> want_manager" where
  "push_pending w m =
     (if length (wn_pending_wants m) < MAX_PENDING_WANTS then m\<lparr>wn_pending_wants := wn_pending_wants m @ [w]\<rparr> else m)"

fun heap_max :: "pending_want list \<Rightarrow> pending_want option" where
  "heap_max [] = None"
| "heap_max (w # ws) = (case heap_max ws of None \<Rightarrow> Some w | Some v \<Rightarrow> if PendingWant_le v w then Some w else Some v)"

definition pop_pending :: "want_manager \<Rightarrow> pending_want option \<times> want_manager" where
  "pop_pending m =
     (case heap_max (wn_pending_wants m) of
        None \<Rightarrow> (None, m)
      | Some w \<Rightarrow> (Some w, m\<lparr>wn_pending_wants := remove1 w (wn_pending_wants m)\<rparr>))"

definition WantManager_cleanup_expired :: "instant \<Rightarrow> want_manager \<Rightarrow> want_manager" where
  "WantManager_cleanup_expired now m = m\<lparr>wn_pending_wants := filter (\<lambda>w. pg_deadline w > now) (wn_pending_wants m)\<rparr>"

section \<open>Peers and the engine\<close>

record bitswap_peer_state =
  ps_connected_at :: instant
  ps_last_message :: instant
  ps_ledger :: peer_ledger
  ps_want_list :: peer_want_list
  ps_known_blocks :: "content_hash set"
  ps_pending_requests :: "(content_hash, instant) hmap"

definition PeerState_new :: "instant \<Rightarrow> bitswap_peer_state" where
  "PeerState_new now = \<lparr>ps_connected_at = now, ps_last_message = now, ps_ledger = PeerLedger_new now,
     ps_want_list = PeerWantList_default, ps_known_blocks = {}, ps_pending_requests = []\<rparr>"

definition start_request :: "instant \<Rightarrow> content_hash \<Rightarrow> bitswap_peer_state \<Rightarrow> bitswap_peer_state" where
  "start_request now b p = p\<lparr>ps_pending_requests := hm_insert b now (ps_pending_requests p)\<rparr>"

definition complete_request :: "content_hash \<Rightarrow> bitswap_peer_state \<Rightarrow> bitswap_peer_state" where
  "complete_request b p = p\<lparr>ps_pending_requests := hm_remove b (ps_pending_requests p)\<rparr>"

definition cleanup_timedout :: "instant \<Rightarrow> duration \<Rightarrow> bitswap_peer_state \<Rightarrow> bitswap_peer_state" where
  "cleanup_timedout now timeout p = p\<lparr>ps_pending_requests := hm_retain (\<lambda>_ started. now - started < timeout) (ps_pending_requests p)\<rparr>"

record bitswap_engine =
  be_peers :: "(string, bitswap_peer_state) hmap"
  be_sessions :: session_manager
  be_wants :: want_manager
  be_peer_validator :: peer_id_config

definition BitswapEngine_new :: bitswap_engine where
  "BitswapEngine_new = \<lparr>be_peers = [], be_sessions = SessionManager_new 256, be_wants = WantManager_new,
     be_peer_validator = PeerIdConfig_default\<rparr>"

definition engine_add_local_block :: "content_hash \<Rightarrow> bitswap_engine \<Rightarrow> bitswap_engine" where
  "engine_add_local_block b e = e\<lparr>be_wants := (be_wants e)\<lparr>wn_local_blocks := insert b (wn_local_blocks (be_wants e))\<rparr>\<rparr>"

definition engine_add_peer :: "instant \<Rightarrow> string \<Rightarrow> bitswap_engine \<Rightarrow> (peer_id_error, unit) result \<times> bitswap_engine" where
  "engine_add_peer now pid e =
     (case PeerId_validate (be_peer_validator e) pid of
        Inl err \<Rightarrow> (Inl err, e)
      | Inr _ \<Rightarrow> (Inr (), if hm_contains (be_peers e) pid then e
          else e\<lparr>be_peers := hm_insert pid (PeerState_new now) (be_peers e)\<rparr>))"

definition engine_remove_peer :: "string \<Rightarrow> bitswap_engine \<Rightarrow> bitswap_engine" where
  "engine_remove_peer pid e = e\<lparr>be_peers := hm_remove pid (be_peers e)\<rparr>"

definition start_request_for_peer :: "instant \<Rightarrow> string \<Rightarrow> content_hash \<Rightarrow> bitswap_engine \<Rightarrow> bool \<times> bitswap_engine" where
  "start_request_for_peer now pid b e =
     (case hm_get (be_peers e) pid of
        Some p \<Rightarrow> (True, e\<lparr>be_peers := hm_insert pid (start_request now b p) (be_peers e)\<rparr>)
      | None \<Rightarrow> (False, e))"

definition set_peer :: "string \<Rightarrow> bitswap_peer_state \<Rightarrow> bitswap_engine \<Rightarrow> bitswap_engine" where
  "set_peer pid p e = e\<lparr>be_peers := hm_insert pid p (be_peers e)\<rparr>"

definition add_want_have_to :: "content_hash \<Rightarrow> string \<Rightarrow> bitswap_engine \<Rightarrow> bitswap_engine" where
  "add_want_have_to b w e =
     (case hm_get (be_peers e) w of
        Some p \<Rightarrow> set_peer w (p\<lparr>ps_want_list := (ps_want_list p)\<lparr>pwl_want_haves := insert b (pwl_want_haves (ps_want_list p))\<rparr>\<rparr>) e
      | None \<Rightarrow> e)"

definition serve_block ::
  "instant \<Rightarrow> (content_hash \<Rightarrow> bytes option) \<Rightarrow> string \<Rightarrow> bitswap_peer_state \<Rightarrow> content_hash \<Rightarrow> bitswap_engine \<Rightarrow> bitswap_message list \<times> bitswap_engine" where
  "serve_block now provider pid p b e =
     (case provider b of
        Some dat \<Rightarrow>
          ([BsBlock b dat],
           set_peer pid (p\<lparr>ps_ledger := record_received now (of_nat (length dat)) (record_block_received (ps_ledger p))\<rparr>) e)
      | None \<Rightarrow> ([], e))"

definition score_sessions :: "instant \<Rightarrow> string \<Rightarrow> content_hash \<Rightarrow> session_manager \<Rightarrow> session_manager" where
  "score_sessions now pid b m =
     fold (\<lambda>s m. if b \<in> bs_blocks s then update_session (record_peer_blocks now pid [b] s) m else m) (hm_values (sn_sessions m)) m"

definition process_message ::
  "instant \<Rightarrow> (content_hash \<Rightarrow> bytes option) \<Rightarrow> string \<Rightarrow> bitswap_message \<Rightarrow> bitswap_engine \<Rightarrow> bitswap_message list \<times> bitswap_engine" where
  "process_message now provider pid msg e =
     (case hm_get (be_peers e) pid of
        None \<Rightarrow> ([], e)
      | Some p0 \<Rightarrow>
          let p = p0\<lparr>ps_last_message := now\<rparr>;
              e1 = set_peer pid p e
          in case msg of
              BsWantHave b _ _ \<Rightarrow>
                if b \<in> wn_local_blocks (be_wants e) then ([BsHave b True], e1)
                else ([], fold (add_want_have_to b) (WantManager_get_wanters b (be_wants e)) e1)
            | BsWantBlock b _ \<Rightarrow> serve_block now provider pid p b e1
            | BsHave b _ \<Rightarrow>
                ([], (set_peer pid (p\<lparr>ps_known_blocks := insert b (ps_known_blocks p)\<rparr>) e1)
                       \<lparr>be_sessions := score_sessions now pid b (be_sessions e1)\<rparr>)
            | BsDontHave b \<Rightarrow> ([], set_peer pid (complete_request b p) e1)
            | BsBlock b dat \<Rightarrow>
                (let w1 = (be_wants e1)\<lparr>wn_block_data := hm_insert b dat (wn_block_data (be_wants e1))\<rparr>;
                     p1 = complete_request b (p\<lparr>ps_ledger := record_received now (of_nat (length dat)) (record_block_received (ps_ledger p))\<rparr>);
                     w2 = fold (\<lambda>w m. WantManager_remove_want w b m) (WantManager_get_wanters b w1) w1
                 in ([], (set_peer pid p1 e1)\<lparr>be_wants := w2\<rparr>))
            | BsCancel b \<Rightarrow> ([], e1\<lparr>be_wants := WantManager_remove_want pid b (be_wants e1)\<rparr>)
            | BsBatchWant _ \<Rightarrow> ([], e1)
            | BsBatchResponse _ \<Rightarrow> ([], e1))"

fun create_wants_loop ::
  "instant \<Rightarrow> bitswap_session option \<Rightarrow> content_hash list \<Rightarrow> int \<Rightarrow> bitswap_engine \<Rightarrow> bitswap_message list \<times> bitswap_engine" where
  "create_wants_loop now sess [] prio e = ([], e)"
| "create_wants_loop now sess (b # bs) prio e =
     (let e1 = engine_add_local_block b e;
          e2 = (case sess of
                  Some s \<Rightarrow> e1\<lparr>be_sessions := update_session (session_start_want now b (session_add_block now b s)) (be_sessions e1)\<rparr>
                | None \<Rightarrow> e1);
          e3 = e2\<lparr>be_wants := push_pending (PendingWant_want_have now b prio) (be_wants e2)\<rparr>;
          (msgs, e4) = create_wants_loop now sess bs prio e3
      in (BsWantHave b prio True # msgs, e4))"

definition create_wants ::
  "instant \<Rightarrow> u64 \<Rightarrow> content_hash list \<Rightarrow> int \<Rightarrow> bitswap_engine \<Rightarrow> bitswap_message list \<times> bitswap_engine" where
  "create_wants now sid bs prio e = create_wants_loop now (hm_get (sn_sessions (be_sessions e)) sid) bs prio e"

fun request_blocks :: "instant \<Rightarrow> content_hash list \<Rightarrow> int \<Rightarrow> bitswap_engine \<Rightarrow> bitswap_message list \<times> bitswap_engine" where
  "request_blocks now [] prio e = ([], e)"
| "request_blocks now (b # bs) prio e =
     (if b \<in> wn_local_blocks (be_wants e) \<or> hm_contains (wn_block_data (be_wants e)) b then request_blocks now bs prio e
      else
        let available = map fst (filter (\<lambda>(_, p). b \<in> ps_known_blocks p) (be_peers e));
            here = (if available = [] then [BsWantHave b prio True] else map (\<lambda>_. BsWantBlock b prio) available);
            (msgs, e') = request_blocks now bs prio (e\<lparr>be_wants := push_pending (PendingWant_want_block now b prio) (be_wants e)\<rparr>)
        in (here @ msgs, e'))"

definition get_block :: "content_hash \<Rightarrow> bitswap_engine \<Rightarrow> bytes option" where
  "get_block b e = hm_get (wn_block_data (be_wants e)) b"

definition engine_cleanup :: "instant \<Rightarrow> bitswap_engine \<Rightarrow> bitswap_engine" where
  "engine_cleanup now e =
     e\<lparr>be_wants := WantManager_cleanup_expired now (be_wants e),
       be_sessions := cleanup_stale now 300 (be_sessions e),
       be_peers := hm_map_values (cleanup_timedout now WANT_BLOCK_TIMEOUT) (be_peers e)\<rparr>"

section \<open>Invariants of the engine\<close>

datatype bitswap_op =
    EoAddLocal content_hash
  | EoAddPeer instant string
  | EoRemovePeer string
  | EoStartRequest instant string content_hash
  | EoMessage instant string bitswap_message
  | EoCreateWants instant u64 "content_hash list" int
  | EoRequest instant "content_hash list" int
  | EoCreateSession instant
  | EoCleanup instant

fun engine_step :: "(content_hash \<Rightarrow> bytes option) \<Rightarrow> bitswap_op \<Rightarrow> bitswap_engine \<Rightarrow> bitswap_engine" where
  "engine_step pv (EoAddLocal b) e = engine_add_local_block b e"
| "engine_step pv (EoAddPeer now pid) e = snd (engine_add_peer now pid e)"
| "engine_step pv (EoRemovePeer pid) e = engine_remove_peer pid e"
| "engine_step pv (EoStartRequest now pid b) e = snd (start_request_for_peer now pid b e)"
| "engine_step pv (EoMessage now pid msg) e = snd (process_message now pv pid msg e)"
| "engine_step pv (EoCreateWants now sid bs prio) e = snd (create_wants now sid bs prio e)"
| "engine_step pv (EoRequest now bs prio) e = snd (request_blocks now bs prio e)"
| "engine_step pv (EoCreateSession now) e = e\<lparr>be_sessions := snd (create_session now (be_sessions e))\<rparr>"
| "engine_step pv (EoCleanup now) e = engine_cleanup now e"

definition sess_inv :: "session_manager \<Rightarrow> bool" where
  "sess_inv m = (hm_wf (sn_sessions m) \<and> (\<forall>(i, s) \<in> set (sn_sessions m). bs_id s = i) \<and>
     length (sn_sessions m) \<le> sn_max_sessions m \<and> sn_max_sessions m = 256)"

definition unpaid :: "bitswap_peer_state \<Rightarrow> bool" where
  "unpaid p = (pl_bytes_sent (ps_ledger p) = 0 \<and> pl_blocks_sent (ps_ledger p) = 0 \<and>
     \<not> lf_blocked (pl_flags (ps_ledger p)) \<and> pl_credit_limit (ps_ledger p) = DEFAULT_PEER_BUDGET_BYTES)"

definition engine_inv :: "bitswap_engine \<Rightarrow> bool" where
  "engine_inv e = (sess_inv (be_sessions e) \<and> length (wn_pending_wants (be_wants e)) \<le> MAX_PENDING_WANTS \<and>
     wn_peer_wants (be_wants e) = [] \<and> (\<forall>(_, p) \<in> set (be_peers e). unpaid p))"

lemma sess_update:
  assumes "sess_inv m" "bs_id s \<in> fst ` set (sn_sessions m)"
  shows "sess_inv (update_session s m) \<and> fst ` set (sn_sessions (update_session s m)) = fst ` set (sn_sessions m)"
  using assms set_hm_insert_subset [of "bs_id s" s "sn_sessions m"]
  by (auto simp: sess_inv_def update_session_def length_hm_insert keys_hm_insert)

lemma record_peer_blocks_id [simp]: "bs_id (record_peer_blocks now p bs s) = bs_id s"
  by (simp add: record_peer_blocks_def session_touch_def split: option.splits)

lemma score_sessions_inv: "sess_inv m \<Longrightarrow> sess_inv (score_sessions now pid b m)"
proof -
  assume inv: "sess_inv m"
  let ?f = "\<lambda>s m. if b \<in> bs_blocks s then update_session (record_peer_blocks now pid [b] s) m else m"
  have "sess_inv (fold ?f ss n)" if "sess_inv n" "bs_id ` set ss \<subseteq> fst ` set (sn_sessions n)" for ss n
    using that
  proof (induction ss arbitrary: n)
    case (Cons s ss)
    have "bs_id (record_peer_blocks now pid [b] s) \<in> fst ` set (sn_sessions n)" using Cons.prems by simp
    from sess_update [OF Cons.prems(1) this] Cons.prems Cons.IH [of "?f s n"] show ?case by simp
  qed simp
  moreover have "bs_id ` set (hm_values (sn_sessions m)) \<subseteq> fst ` set (sn_sessions m)"
    using inv by (force simp: sess_inv_def hm_values_def)
  ultimately show ?thesis using inv by (simp add: score_sessions_def)
qed

lemma sess_inv_insert:
  assumes "sess_inv m" "length k < sn_max_sessions m \<and> hm_wf k \<and> set k \<subseteq> set (sn_sessions m)" "bs_id s = i"
  shows "sess_inv (m\<lparr>sn_next_id := n, sn_sessions := hm_insert i s k\<rparr>)"
proof -
  have "\<forall>(i, s) \<in> set (hm_insert i s k). bs_id s = i"
    using assms set_hm_insert_subset [of i s k] unfolding sess_inv_def by blast
  with assms show ?thesis by (simp add: sess_inv_def length_hm_insert)
qed

lemma create_session_inv: "sess_inv m \<Longrightarrow> sess_inv (snd (create_session now m))"
proof -
  assume inv: "sess_inv m"
  let ?kept = "if length (sn_sessions m) \<ge> sn_max_sessions m
    then (case oldest_session (sn_sessions m) of Some old \<Rightarrow> hm_remove (bs_id old) (sn_sessions m) | None \<Rightarrow> sn_sessions m)
    else sn_sessions m"
  have kept: "length ?kept < sn_max_sessions m \<and> hm_wf ?kept \<and> set ?kept \<subseteq> set (sn_sessions m)"
  proof (cases "length (sn_sessions m) \<ge> sn_max_sessions m")
    case True
    then have "sn_sessions m \<noteq> []" using inv by (auto simp: sess_inv_def)
    then obtain old rest where srt: "sort_key bs_created_at (hm_values (sn_sessions m)) = old # rest"
      by (cases "sort_key bs_created_at (hm_values (sn_sessions m))") (auto simp: hm_values_def dest: arg_cong [of _ _ length])
    then have "old \<in> set (hm_values (sn_sessions m))" by (metis list.set_intros(1) set_sort)
    then have "bs_id old \<in> fst ` set (sn_sessions m)" using inv by (force simp: sess_inv_def hm_values_def)
    with length_hm_remove [of "sn_sessions m" "bs_id old"] srt True inv set_hm_remove_subset [of "bs_id old" "sn_sessions m"] show ?thesis
      by (auto simp: oldest_session_def sess_inv_def)
  qed (use inv in \<open>auto simp: sess_inv_def\<close>)
  have "snd (create_session now m) = m\<lparr>sn_next_id := sn_next_id m + 1, sn_sessions := hm_insert (sn_next_id m) (BitswapSession_new now (sn_next_id m)) ?kept\<rparr>"
    by (simp add: create_session_def Let_def)
  with sess_inv_insert [OF inv] kept show ?thesis by (simp only: BitswapSession_new_def bitswap_session.simps)
qed

lemma no_wanters [simp]: "wn_peer_wants m = [] \<Longrightarrow> WantManager_get_wanters b m = []" "wn_peer_wants m = [] \<Longrightarrow> WantManager_remove_want p b m = m"
  by (simp_all add: WantManager_get_wanters_def WantManager_remove_want_def)

lemma unpaid_simps [simp]:
  "unpaid (PeerState_new now)" "unpaid (p\<lparr>ps_last_message := t\<rparr>) = unpaid p" "unpaid (p\<lparr>ps_known_blocks := k\<rparr>) = unpaid p"
  "unpaid (start_request now b p) = unpaid p" "unpaid (complete_request b p) = unpaid p"
  "unpaid (p\<lparr>ps_ledger := record_received t n (record_block_received (ps_ledger p))\<rparr>) = unpaid p"
  "unpaid (cleanup_timedout now d p) = unpaid p"
  by (simp_all add: unpaid_def PeerState_new_def PeerLedger_new_def start_request_def complete_request_def record_received_def
      record_block_received_def cleanup_timedout_def)

lemma set_peer_unpaid:
  "\<forall>(_, p) \<in> set (be_peers e). unpaid p \<Longrightarrow> unpaid p \<Longrightarrow> \<forall>(_, p) \<in> set (be_peers (set_peer pid p e)). unpaid p"
  using set_hm_insert_subset [of pid p "be_peers e"] by (auto simp: set_peer_def)

lemma set_peer_frame [simp]:
  "be_sessions (set_peer pid p e) = be_sessions e" "be_wants (set_peer pid p e) = be_wants e"
  by (simp_all add: set_peer_def)

lemma engine_inv_set_peer [intro]: "engine_inv e \<Longrightarrow> unpaid p \<Longrightarrow> engine_inv (set_peer pid p e)"
  using set_peer_unpaid [of e p pid] unfolding engine_inv_def set_peer_frame by blast

lemma push_pending_inv [simp]:
  "length (wn_pending_wants m) \<le> MAX_PENDING_WANTS \<Longrightarrow> length (wn_pending_wants (push_pending w m)) \<le> MAX_PENDING_WANTS"
  "wn_peer_wants (push_pending w m) = wn_peer_wants m" "wn_local_blocks (push_pending w m) = wn_local_blocks m"
  "wn_block_data (push_pending w m) = wn_block_data m"
  by (simp_all add: push_pending_def)

lemma message_inv:
  assumes inv: "engine_inv e"
  shows "engine_inv (snd (process_message now pv pid msg e))"
proof (cases "hm_get (be_peers e) pid")
  case (Some p0)
  let ?p = "p0\<lparr>ps_last_message := now\<rparr>"
  have "unpaid p0" using inv Some by (auto simp: engine_inv_def dest: map_of_SomeD)
  then have e1: "engine_inv (set_peer pid ?p e)" and p: "unpaid ?p" using inv by auto
  show ?thesis
  proof (cases msg)
    case (BsWantBlock b x)
    have "engine_inv (set_peer pid (?p\<lparr>ps_ledger := record_received now n (record_block_received (ps_ledger ?p))\<rparr>) (set_peer pid ?p e))" for n
      using engine_inv_set_peer [OF e1] p by (simp only: unpaid_simps)
    with Some e1 BsWantBlock show ?thesis by (simp add: process_message_def Let_def serve_block_def split: option.splits)
  next
    case (BsHave b x)
    have "engine_inv (set_peer pid (?p\<lparr>ps_known_blocks := insert b (ps_known_blocks ?p)\<rparr>) (set_peer pid ?p e))"
      using engine_inv_set_peer [OF e1] p by (simp only: unpaid_simps)
    with Some BsHave inv score_sessions_inv show ?thesis by (simp add: process_message_def Let_def engine_inv_def)
  next
    case (BsBlock b dat)
    let ?p1 = "complete_request b (?p\<lparr>ps_ledger := record_received now (of_nat (length dat)) (record_block_received (ps_ledger ?p))\<rparr>)"
    have "engine_inv (set_peer pid ?p1 (set_peer pid ?p e))" using engine_inv_set_peer [OF e1] p by (simp only: unpaid_simps)
    with Some BsBlock inv show ?thesis by (simp add: process_message_def Let_def engine_inv_def)
  next
    case (BsDontHave b)
    have "engine_inv (set_peer pid (complete_request b ?p) (set_peer pid ?p e))"
      using engine_inv_set_peer [OF e1] p by (simp only: unpaid_simps)
    with Some BsDontHave show ?thesis by (simp add: process_message_def Let_def)
  qed (use Some inv e1 p in \<open>auto simp: process_message_def Let_def engine_inv_def\<close>)
qed (use inv in \<open>simp add: process_message_def\<close>)

lemma add_local_inv: "engine_inv e \<Longrightarrow> engine_inv (engine_add_local_block b e)"
  by (simp add: engine_inv_def engine_add_local_block_def)

lemma session_want_id [simp]: "bs_id (session_start_want now b (session_add_block now b s)) = bs_id s"
  by (simp add: session_start_want_def session_add_block_def session_touch_def)

lemma create_wants_inv:
  "engine_inv e \<Longrightarrow> (\<And>s. sess = Some s \<Longrightarrow> bs_id s \<in> fst ` set (sn_sessions (be_sessions e))) \<Longrightarrow>
    engine_inv (snd (create_wants_loop now sess bs prio e))"
proof (induction bs arbitrary: e)
  case (Cons b bs)
  let ?e1 = "engine_add_local_block b e"
  let ?e2 = "case sess of Some s \<Rightarrow> ?e1\<lparr>be_sessions := update_session (session_start_want now b (session_add_block now b s)) (be_sessions ?e1)\<rparr> | None \<Rightarrow> ?e1"
  let ?e3 = "?e2\<lparr>be_wants := push_pending (PendingWant_want_have now b prio) (be_wants ?e2)\<rparr>"
  have e1: "engine_inv ?e1" "be_sessions ?e1 = be_sessions e"
    using add_local_inv [OF Cons.prems(1)] by (simp_all add: engine_add_local_block_def)
  have e2: "engine_inv ?e2 \<and> fst ` set (sn_sessions (be_sessions ?e2)) = fst ` set (sn_sessions (be_sessions e))"
  proof (cases sess)
    case (Some s)
    with sess_update [of "be_sessions e" "session_start_want now b (session_add_block now b s)"] Cons.prems e1 show ?thesis
      by (simp add: engine_inv_def)
  qed (use e1 in simp)
  then have "engine_inv ?e3" "fst ` set (sn_sessions (be_sessions ?e3)) = fst ` set (sn_sessions (be_sessions e))"
    by (simp_all add: engine_inv_def)
  then have "engine_inv (snd (create_wants_loop now sess bs prio ?e3))" using Cons.IH [of ?e3] Cons.prems(2) by blast
  then show ?case by (simp only: create_wants_loop.simps Let_def case_prod_beta snd_conv)
qed simp

lemma request_blocks_inv: "engine_inv e \<Longrightarrow> engine_inv (snd (request_blocks now bs prio e))"
  by (induction now bs prio e rule: request_blocks.induct) (auto simp: Let_def case_prod_beta engine_inv_def)

lemma engine_step_inv: "engine_inv e \<Longrightarrow> engine_inv (engine_step pv op e)"
proof (cases op)
  case (EoCreateWants now sid bs prio)
  assume inv: "engine_inv e"
  have "bs_id s \<in> fst ` set (sn_sessions (be_sessions e))" if "hm_get (sn_sessions (be_sessions e)) sid = Some s" for s
    using map_of_SomeD [OF that] inv by (force simp: engine_inv_def sess_inv_def)
  with create_wants_inv [OF inv] EoCreateWants show ?thesis by (simp add: create_wants_def)
next
  case (EoRemovePeer pid)
  assume "engine_inv e"
  with EoRemovePeer set_hm_remove_subset [of pid "be_peers e"] show ?thesis by (auto simp: engine_inv_def engine_remove_peer_def)
next
  case (EoCleanup now)
  assume inv: "engine_inv e"
  have "sess_inv (cleanup_stale now 300 (be_sessions e))"
    using inv order_trans [OF length_filter_le [of "\<lambda>(_, s). \<not> session_is_stale now 300 s" "sn_sessions (be_sessions e)"]]
    by (simp add: engine_inv_def sess_inv_def cleanup_stale_def hm_retain_def hm_wf_def distinct_map_filter)
  moreover have "\<forall>(_, p) \<in> set (hm_map_values (cleanup_timedout now WANT_BLOCK_TIMEOUT) (be_peers e)). unpaid p"
    using inv by (auto simp: engine_inv_def hm_map_values_def)
  moreover have "length (filter (\<lambda>w. pg_deadline w > now) (wn_pending_wants (be_wants e))) \<le> MAX_PENDING_WANTS"
    using inv length_filter_le order_trans unfolding engine_inv_def by blast
  ultimately show ?thesis using inv by (simp add: EoCleanup engine_cleanup_def engine_inv_def WantManager_cleanup_expired_def)
next
  case (EoAddPeer now pid)
  assume "engine_inv e"
  with engine_inv_set_peer [of e "PeerState_new now" pid] EoAddPeer show ?thesis
    by (auto simp: engine_add_peer_def set_peer_def split: sum.splits)
next
  case (EoStartRequest now pid b)
  assume inv: "engine_inv e"
  have "unpaid p" if "hm_get (be_peers e) pid = Some p" for p using inv that by (auto simp: engine_inv_def dest: map_of_SomeD)
  with inv engine_inv_set_peer [OF inv, of _ pid] EoStartRequest show ?thesis
    by (auto simp: start_request_for_peer_def set_peer_def split: option.splits)
next
  case (EoCreateSession now)
  assume "engine_inv e"
  with EoCreateSession create_session_inv show ?thesis by (simp add: engine_inv_def)
qed (simp_all add: message_inv add_local_inv request_blocks_inv)

interpretation bitswap: op_machine "\<lambda>e. e = BitswapEngine_new" "engine_step pv" engine_inv for pv
proof
  show "engine_inv e" if "e = BitswapEngine_new" for e
    using that by (simp add: engine_inv_def sess_inv_def BitswapEngine_new_def SessionManager_new_def WantManager_new_def)
qed (rule engine_step_inv)

text \<open>
  The engine is bounded and never counts what it sends. Under every sequence of operations at most
  256 wants are pending and at most 256 sessions are kept; no peer's want is ever recorded, and every
  ledger says that nothing was sent to its peer, so the credit limit never refuses to send.
\<close>

theorem bitswap_reachable_inv:
  "let e = fold (engine_step pv) ops BitswapEngine_new
   in length (wn_pending_wants (be_wants e)) \<le> 256 \<and> length (sn_sessions (be_sessions e)) \<le> 256 \<and>
      \<not> WantManager_is_wanted b (be_wants e) \<and>
      list_all (\<lambda>(_, p). pl_bytes_sent (ps_ledger p) = 0 \<and> can_send (ps_ledger p)) (be_peers e)"
proof -
  let ?e = "fold (engine_step pv) ops BitswapEngine_new"
  have inv: "engine_inv ?e" by (rule bitswap.inv_run) simp
  have "can_send (ps_ledger p)" if "unpaid p" for p
    using that by (simp add: unpaid_def can_send_def DEFAULT_PEER_BUDGET_BYTES_def)
  then show ?thesis using inv unfolding Let_def
    by (auto simp: engine_inv_def sess_inv_def MAX_PENDING_WANTS_def WantManager_is_wanted_def list_all_iff unpaid_def)
qed

section \<open>The exchange of a block\<close>

lemma unknown_peer_ignored: "hm_get (be_peers e) pid = None \<Longrightarrow> process_message now pv pid msg e = ([], e)"
  by (simp add: process_message_def)

lemma remove_wants_block_data [simp]:
  "wn_block_data (fold (\<lambda>w m. WantManager_remove_want w b m) ws m) = wn_block_data m"
  "wn_local_blocks (fold (\<lambda>w m. WantManager_remove_want w b m) ws m) = wn_local_blocks m"
  by (induction ws arbitrary: m) (simp_all add: WantManager_remove_want_def split: option.splits)

lemma want_have_reply:
  assumes "hm_get (be_peers e) pid = Some p" and "b \<in> wn_local_blocks (be_wants e)"
  shows "fst (process_message now pv pid (BsWantHave b q d) e) = [BsHave b True]"
  using assms by (simp add: process_message_def Let_def)

lemma want_have_unheld_silent:
  "b \<notin> wn_local_blocks (be_wants e) \<Longrightarrow> fst (process_message now pv pid (BsWantHave b q d) e) = []"
  by (simp add: process_message_def Let_def split: option.splits)

lemma want_block_reply:
  "fst (process_message now pv pid (BsWantBlock b q) e) =
     (if hm_contains (be_peers e) pid then (case pv b of Some dat \<Rightarrow> [BsBlock b dat] | None \<Rightarrow> []) else [])"
  by (auto simp: process_message_def Let_def serve_block_def hm_contains_def split: option.splits)

lemma block_stored:
  "hm_contains (be_peers e) pid \<Longrightarrow>
     wn_block_data (be_wants (snd (process_message now pv pid (BsBlock b dat) e))) = hm_insert b dat (wn_block_data (be_wants e))"
  by (cases "hm_get (be_peers e) pid") (simp_all add: process_message_def Let_def hm_contains_def)

lemma have_known:
  assumes "hm_get (be_peers e) pid = Some p"
  shows "\<exists>p'. hm_get (be_peers (snd (process_message now pv pid (BsHave b i) e))) pid = Some p' \<and> b \<in> ps_known_blocks p'"
    and "be_wants (snd (process_message now pv pid (BsHave b i) e)) = be_wants e"
  using assms by (simp_all add: process_message_def Let_def set_peer_def)

lemma request_skips: 
  "b \<in> wn_local_blocks (be_wants e) \<or> hm_contains (wn_block_data (be_wants e)) b \<Longrightarrow> request_blocks now [b] prio e = ([], e)"
  by simp

lemma request_known:
  assumes "hm_get (be_peers e) pid = Some p" "b \<in> ps_known_blocks p"
    and "b \<notin> wn_local_blocks (be_wants e)" "\<not> hm_contains (wn_block_data (be_wants e)) b"
  shows "BsWantBlock b prio \<in> set (fst (request_blocks now [b] prio e)) \<and> be_peers (snd (request_blocks now [b] prio e)) = be_peers e"
proof -
  have "(pid, p) \<in> set (filter (\<lambda>(_, p). b \<in> ps_known_blocks p) (be_peers e))"
    using assms(1,2) by (auto dest: map_of_SomeD)
  then have "filter (\<lambda>(_, p). b \<in> ps_known_blocks p) (be_peers e) \<noteq> []" by (rule length_pos_if_in_set [THEN length_greater_0_conv [THEN iffD1]])
  then obtain q qs where "filter (\<lambda>(_, p). b \<in> ps_known_blocks p) (be_peers e) = q # qs" by (auto simp: neq_Nil_conv)
  with assms(3,4) show ?thesis by (simp add: Let_def)
qed

text \<open>
  A block is delivered. When a node asks a peer that announces holding a block, the announcement makes the
  node request the block, the peer answers with the bytes of its provider, and the node then returns
  exactly these bytes.
\<close>

theorem bitswap_exchange:
  assumes "hm_get (be_peers a) pb = Some x" and "hm_get (be_peers b) pa = Some y"
    and "h \<in> wn_local_blocks (be_wants b)" and "pv h = Some dat"
    and "h \<notin> wn_local_blocks (be_wants a)" and "\<not> hm_contains (wn_block_data (be_wants a)) h"
  shows "let (replies, b1) = process_message t1 pv pa (BsWantHave h prio True) b;
             a1 = snd (process_message t2 pv' pb (hd replies) a);
             (wants, a2) = request_blocks t3 [h] prio a1;
             blocks = fst (process_message t4 pv pa (BsWantBlock h prio) b1);
             a3 = snd (process_message t5 pv' pb (hd blocks) a2)
         in BsWantBlock h prio \<in> set wants \<and> blocks = [BsBlock h dat] \<and> get_block h a3 = Some dat"
proof -
  obtain b1 where b1: "process_message t1 pv pa (BsWantHave h prio True) b = ([BsHave h True], b1)"
    and pa: "hm_contains (be_peers b1) pa"
    using assms(2,3) by (auto simp: process_message_def Let_def set_peer_def hm_contains_def)
  let ?a1 = "snd (process_message t2 pv' pb (BsHave h True) a)"
  obtain p' where p': "hm_get (be_peers ?a1) pb = Some p'" "h \<in> ps_known_blocks p'" using have_known(1) [OF assms(1)] by blast
  have w: "be_wants ?a1 = be_wants a" by (rule have_known(2) [OF assms(1)])
  obtain wants a2 where req: "request_blocks t3 [h] prio ?a1 = (wants, a2)" by (cases "request_blocks t3 [h] prio ?a1")
  from request_known [OF p', of prio t3] w assms(5,6) req
  have a2: "BsWantBlock h prio \<in> set wants" "be_peers a2 = be_peers ?a1" by (simp_all only: fst_conv snd_conv simp_thms)
  have "fst (process_message t4 pv pa (BsWantBlock h prio) b1) = [BsBlock h dat]" using pa assms(4) by (simp add: want_block_reply)
  moreover have "hm_contains (be_peers a2) pb" using p'(1) a2(2) by (simp add: hm_contains_def)
  ultimately show ?thesis using b1 req a2(1) by (simp only: Let_def split_conv list.sel get_block_def block_stored hm_get_insert) simp
qed

definition demo_bitswap :: "string \<Rightarrow> bitswap_engine" where
  "demo_bitswap pid = snd (engine_add_peer 0 pid BitswapEngine_new)"

lemma demo_bitswap_peer: "hm_get (be_peers (demo_bitswap ''peer'')) ''peer'' = Some (PeerState_new 0)"
  by (simp add: demo_bitswap_def engine_add_peer_def PeerId_validate_def BitswapEngine_new_def PeerIdConfig_default_def hm_contains_def
      check_pattern_def is_ascii_alnum_def is_ascii_lowercase_def)

theorem bitswap_exchange_witness:
  "let (replies, b1) = process_message 1 (\<lambda>_. Some [7]) ''peer'' (BsWantHave [1] 0 True) (engine_add_local_block [1] (demo_bitswap ''peer''));
       a1 = snd (process_message 2 (\<lambda>_. None) ''peer'' (hd replies) (demo_bitswap ''peer''));
       (wants, a2) = request_blocks 3 [[1]] 0 a1;
       blocks = fst (process_message 4 (\<lambda>_. Some [7]) ''peer'' (BsWantBlock [1] 0) b1);
       a3 = snd (process_message 5 (\<lambda>_. None) ''peer'' (hd blocks) a2)
   in BsWantBlock [1] 0 \<in> set wants \<and> blocks = [BsBlock [1] [7]] \<and> get_block [1] a3 = Some [7]"
proof (rule bitswap_exchange)
  show "hm_get (be_peers (demo_bitswap ''peer'')) ''peer'' = Some (PeerState_new 0)" by (rule demo_bitswap_peer)
  show "hm_get (be_peers (engine_add_local_block [1] (demo_bitswap ''peer''))) ''peer'' = Some (PeerState_new 0)"
    using demo_bitswap_peer by (simp add: engine_add_local_block_def)
qed (simp_all add: engine_add_local_block_def demo_bitswap_def engine_add_peer_def PeerId_validate_def BitswapEngine_new_def
    PeerIdConfig_default_def hm_contains_def check_pattern_def is_ascii_alnum_def is_ascii_lowercase_def WantManager_new_def)

text \<open>
  A received block is not verified. Whatever bytes a connected peer sends under a hash, asked or not, are returned
  for that hash from then on, replace what was there, and stop the node from requesting the block.
\<close>

theorem unverified_block_served:
  assumes "hm_contains (be_peers e) pid"
  shows "let e' = snd (process_message now pv pid (BsBlock h dat) e)
         in get_block h e' = Some dat \<and> request_blocks t [h] prio e' = ([], e')"
  using block_stored [OF assms, of now pv h dat] unfolding Let_def get_block_def
  by (intro conjI request_skips) (simp_all add: hm_contains_def)

theorem unverified_block_served_witness:
  "let e' = snd (process_message 1 (\<lambda>_. None) ''peer'' (BsBlock [1] [9, 9]) (demo_bitswap ''peer''))
   in get_block [1] e' = Some [9, 9] \<and> request_blocks 2 [[1]] 0 e' = ([], e')"
  using unverified_block_served [of "demo_bitswap ''peer''" "''peer''"] demo_bitswap_peer by (simp add: hm_contains_def)

section \<open>Wants of a session\<close>

lemma create_wants_local:
  "wn_local_blocks (be_wants (snd (create_wants_loop now sess bs prio e))) = wn_local_blocks (be_wants e) \<union> set bs \<and>
   be_peers (snd (create_wants_loop now sess bs prio e)) = be_peers e"
  by (induction bs arbitrary: e) (auto simp: Let_def case_prod_beta engine_add_local_block_def split: option.splits)

text \<open>
  The blocks a node wants are recorded as blocks it holds. After \<^verbatim>\<open>create_wants\<close> the node answers
  every \<^verbatim>\<open>WantHave\<close> for one of them with \<^verbatim>\<open>Have\<close>, and \<^verbatim>\<open>request_blocks\<close> never asks for it.
\<close>

theorem wanted_blocks_announced:
  assumes "hm_get (be_peers e) pid = Some p" and "b \<in> set bs"
  shows "let e' = snd (create_wants now sid bs prio e)
         in fst (process_message t pv pid (BsWantHave b q d) e') = [BsHave b True] \<and> request_blocks t [b] q e' = ([], e')"
proof -
  let ?e = "snd (create_wants now sid bs prio e)"
  have "b \<in> wn_local_blocks (be_wants ?e)" "hm_get (be_peers ?e) pid = Some p"
    using create_wants_local assms by (simp_all add: create_wants_def)
  then show ?thesis unfolding Let_def using want_have_reply request_skips by blast
qed

theorem wanted_blocks_announced_witness:
  "let e' = snd (create_wants 1 1 [[1]] 0 (demo_bitswap ''peer''))
   in fst (process_message 2 (\<lambda>_. None) ''peer'' (BsWantHave [1] 0 True) e') = [BsHave [1] True] \<and> request_blocks 2 [[1]] 0 e' = ([], e')"
  by (rule wanted_blocks_announced [OF demo_bitswap_peer]) simp

lemma create_wants_sessions:
  "bs \<noteq> [] \<Longrightarrow> hm_get (sn_sessions (be_sessions (snd (create_wants_loop now (Some s) bs prio e)))) (bs_id s) =
     Some (session_start_want now (last bs) (session_add_block now (last bs) s))"
proof (induction bs arbitrary: e)
  case (Cons b bs)
  show ?case
  proof (cases "bs = []")
    case True
    then show ?thesis by (simp add: Let_def update_session_def engine_add_local_block_def)
  next
    case False
    with Cons.IH [OF False] show ?thesis by (simp add: Let_def case_prod_beta)
  qed
qed simp

text \<open>
  A session remembers the last of its wants only: \<^verbatim>\<open>create_wants\<close> updates each time the copy
  of the session it read before the loop, so of a list of several blocks only the last is a
  block and an active want of the session, and announcements of the others score no peer.
\<close>

theorem session_keeps_last_want:
  assumes "hm_get (sn_sessions (be_sessions e)) sid = Some s" and "bs_id s = sid" and "bs \<noteq> []"
  shows "\<exists>s'. hm_get (sn_sessions (be_sessions (snd (create_wants now sid bs prio e)))) sid = Some s' \<and>
    bs_blocks s' = insert (last bs) (bs_blocks s) \<and> bs_active_wants s' = insert (last bs) (bs_active_wants s)"
  using create_wants_sessions [OF assms(3), of now s prio e] assms(1,2)
  by (simp add: create_wants_def session_start_want_def session_add_block_def session_touch_def)

theorem session_keeps_last_want_witness:
  "\<exists>s'. hm_get (sn_sessions (be_sessions (snd (create_wants 1 1 [[1], [2]] 0 (engine_step (\<lambda>_. None) (EoCreateSession 0) BitswapEngine_new))))) 1 = Some s' \<and>
    bs_blocks s' = insert (last [[1], [2]]) {} \<and> bs_active_wants s' = insert (last [[1], [2]]) {}"
proof -
  let ?e = "engine_step (\<lambda>_. None) (EoCreateSession 0) BitswapEngine_new"
  have "hm_get (sn_sessions (be_sessions ?e)) 1 = Some (BitswapSession_new 0 1)"
    by (simp add: BitswapEngine_new_def create_session_def SessionManager_new_def Let_def)
  from session_keeps_last_want [OF this _ list.distinct(2), of 1 "[1]" "[[2]]" 0] show ?thesis
    by (simp add: BitswapSession_new_def)
qed

section \<open>The queue of pending wants\<close>

lemma heap_max_None [simp]: "heap_max ws = None \<longleftrightarrow> ws = []"
  by (cases ws) (simp_all split: option.splits)

lemma PendingWant_le_trans: "PendingWant_le a b \<Longrightarrow> PendingWant_le b c \<Longrightarrow> PendingWant_le a c"
  by (auto simp: PendingWant_le_def)

lemma PendingWant_le_total: "PendingWant_le a b \<or> PendingWant_le b a"
  by (auto simp: PendingWant_le_def)

lemma heap_max_Some: "heap_max ws = Some w \<Longrightarrow> w \<in> set ws \<and> list_all (\<lambda>v. PendingWant_le v w) ws"
proof (induction ws arbitrary: w)
  case (Cons x ws)
  show ?case
  proof (cases "heap_max ws")
    case None
    with Cons.prems PendingWant_le_total [of x x] show ?thesis by simp
  next
    case (Some v)
    from Cons.IH [OF Some] have v: "v \<in> set ws" "list_all (\<lambda>u. PendingWant_le u v) ws" by simp_all
    then have "PendingWant_le v w \<Longrightarrow> list_all (\<lambda>u. PendingWant_le u w) ws"
      using PendingWant_le_trans by (auto simp: list_all_iff)
    with Some Cons.prems v PendingWant_le_total [of x x] PendingWant_le_total [of x v] show ?thesis
      by (auto split: if_splits)
  qed
qed simp

text \<open>
  The queue pops newest first: the popped want has the highest priority, and among the wants of this
  priority none was created later, where the comment on the order promises first in, first out.
\<close>

theorem pop_pending_newest:
  assumes "pop_pending m = (Some w, m')"
  shows "w \<in> set (wn_pending_wants m) \<and> wn_pending_wants m' = remove1 w (wn_pending_wants m) \<and>
    list_all (\<lambda>v. pg_priority v < pg_priority w \<or> pg_priority v = pg_priority w \<and> pg_created_at v \<le> pg_created_at w) (wn_pending_wants m)"
  using assms heap_max_Some [of "wn_pending_wants m" w]
  by (auto simp: pop_pending_def PendingWant_le_def split: option.splits)

theorem pop_pending_newest_witness:
  "let q = push_pending (PendingWant_want_have 5 [2] 1) (push_pending (PendingWant_want_have 1 [1] 1) WantManager_new)
   in PendingWant_want_have 5 [2] 1 \<in> set (wn_pending_wants q) \<and>
      wn_pending_wants (snd (pop_pending q)) = remove1 (PendingWant_want_have 5 [2] 1) (wn_pending_wants q) \<and>
      list_all (\<lambda>v. pg_priority v < 1 \<or> pg_priority v = 1 \<and> pg_created_at v \<le> 5) (wn_pending_wants q)"
proof -
  let ?q = "push_pending (PendingWant_want_have 5 [2] 1) (push_pending (PendingWant_want_have 1 [1] 1) WantManager_new)"
  have "pop_pending ?q = (Some (PendingWant_want_have 5 [2] 1), snd (pop_pending ?q))"
    by (simp add: pop_pending_def push_pending_def WantManager_new_def MAX_PENDING_WANTS_def PendingWant_want_have_def PendingWant_le_def)
  from pop_pending_newest [OF this] show ?thesis unfolding Let_def by (simp add: PendingWant_want_have_def)
qed

end
