(* ===== verification/Wire.thy ===== *)
theory Wire
  imports Prelude
begin

text \<open>
  Big-endian integers of 16 and 32 bits as the wire codecs write and read them
  (\<^verbatim>\<open>to_be_bytes\<close>, \<^verbatim>\<open>from_be_bytes\<close>), exclusive or on byte arrays, and the
  copy into a bytes_at that panics when the lengths differ.
\<close>

unbundle bit_operations_syntax

definition u16_to_be_bytes :: "u16 \<Rightarrow> bytes" where
  "u16_to_be_bytes w = be_bytes 2 (unat w)"

definition u16_from_be :: "bytes \<Rightarrow> u16" where
  "u16_from_be bs = of_nat (be_nat bs)"

definition u32_from_be :: "bytes \<Rightarrow> u32" where
  "u32_from_be bs = of_nat (be_nat bs)"

definition xor_bytes :: "bytes \<Rightarrow> bytes \<Rightarrow> bytes" where
  "xor_bytes xs ys = map2 (\<lambda>x y. x XOR y) xs ys"

definition copy_from_slice :: "nat \<Rightarrow> nat \<Rightarrow> bytes \<Rightarrow> bytes \<Rightarrow> bytes option" where
  "copy_from_slice i j src buf =
     (if i \<le> j \<and> j \<le> length buf \<and> length src = j - i then Some (take i buf @ src @ drop j buf) else None)"

lemma length_u16_to_be_bytes [simp]: "length (u16_to_be_bytes w) = 2"
  by (simp add: u16_to_be_bytes_def)

lemma u16_round_trip [simp]: "u16_from_be (u16_to_be_bytes w) = w"
  using unat_bound [of w] by (simp add: u16_from_be_def u16_to_be_bytes_def be_nat_be_bytes del: be_bytes.simps)

lemma u32_round_trip [simp]: "u32_from_be (u32_to_be_bytes w) = w"
  using unat_bound [of w] by (simp add: u32_from_be_def u32_to_be_bytes_def be_nat_be_bytes del: be_bytes.simps)

lemma u16_to_be_bytes_inj [simp]: "u16_to_be_bytes v = u16_to_be_bytes w \<longleftrightarrow> v = w"
  by (metis u16_round_trip)

lemma length_xor_bytes [simp]: "length (xor_bytes xs ys) = min (length xs) (length ys)"
  by (simp add: xor_bytes_def)

lemma xor_bytes_nth: "i < length xs \<Longrightarrow> i < length ys \<Longrightarrow> xor_bytes xs ys ! i = (xs ! i) XOR (ys ! i)"
  by (simp add: xor_bytes_def)

lemma xor_bytes_cancel [simp]: "length xs = length ys \<Longrightarrow> xor_bytes (xor_bytes xs ys) ys = xs"
  by (rule nth_equalityI) (simp_all add: xor_bytes_nth xor.assoc)

lemma xor_bytes_append:
  "length xs = length us \<Longrightarrow> xor_bytes (xs @ ys) (us @ vs) = xor_bytes xs us @ xor_bytes ys vs"
  by (simp add: xor_bytes_def zip_append)

text \<open>The bytes at positions \<open>i\<close> to \<open>j\<close> of a buffer, and how they read a concatenation.\<close>

definition bytes_at :: "nat \<Rightarrow> nat \<Rightarrow> 'a list \<Rightarrow> 'a list" where
  "bytes_at i j xs = take (j - i) (drop i xs)"

lemma length_bytes_at [simp]: "length (bytes_at i j xs) = min (j - i) (length xs - i)"
  by (simp add: bytes_at_def)

lemma bytes_at_append: "length xs = i \<Longrightarrow> length ys = j - i \<Longrightarrow> bytes_at i j (xs @ ys @ zs) = ys"
  by (simp add: bytes_at_def)

lemma bytes_at_skip: "length xs \<le> i \<Longrightarrow> bytes_at i j (xs @ ys) = bytes_at (i - length xs) (j - length xs) ys"
  by (simp add: bytes_at_def)

end
