(* ===== verification/Stun.thy ===== *)
theory Stun
  imports Wire
begin

text \<open>
  NAT traversal over STUN, \<^verbatim>\<open>crates/a3net-nat-traversal/src/stun_codec.rs\<close>, \<^verbatim>\<open>stun.rs\<close>,
  \<^verbatim>\<open>hole_punch.rs\<close> and the decisions of \<^verbatim>\<open>config.rs\<close> and \<^verbatim>\<open>manager.rs\<close>: the message codec and
  the addresses it hides, the client that parses binding responses and detects the kind of NAT,
  and hole punching over a socket whose behaviour is an argument. An index out of range and a copy
  between slices of different lengths panic and are \<open>None\<close>; the reasons of errors are constructors.
  The lemmas: messages and IPv4 addresses survive the wire, which IPv6 addresses do, and what
  the client and the punching loop can never do.
\<close>

section \<open>The message codec\<close>

definition MAGIC_COOKIE :: u32 where "MAGIC_COOKIE = 0x2112A442"

type_synonym transaction_id = bytes

datatype stun_message_type =
    BindingRequest | BindingResponse | BindingError
  | AllocateRequest | AllocateResponse | AllocateError
  | RefreshRequest | RefreshResponse | RefreshError
  | CreatePermissionRequest
  | ChannelBindRequest | ChannelBindResponse | ChannelBindError
  | SendIndication | DataIndication
  | Other u16

definition known_types :: "(u16 \<times> stun_message_type) list" where
  "known_types =
     [(0x0001, BindingRequest), (0x0101, BindingResponse), (0x0111, BindingError),
      (0x0003, AllocateRequest), (0x0103, AllocateResponse), (0x0113, AllocateError),
      (0x0004, RefreshRequest), (0x0104, RefreshResponse), (0x0114, RefreshError),
      (0x0008, CreatePermissionRequest),
      (0x0009, ChannelBindRequest), (0x0109, ChannelBindResponse), (0x0119, ChannelBindError),
      (0x0016, SendIndication), (0x0017, DataIndication)]"

definition MessageType_from_u16 :: "u16 \<Rightarrow> stun_message_type" where
  "MessageType_from_u16 v = (case map_of known_types v of Some k \<Rightarrow> k | None \<Rightarrow> Other v)"

fun MessageType_to_u16 :: "stun_message_type \<Rightarrow> u16" where
  "MessageType_to_u16 BindingRequest = 0x0001"
| "MessageType_to_u16 BindingResponse = 0x0101"
| "MessageType_to_u16 BindingError = 0x0111"
| "MessageType_to_u16 AllocateRequest = 0x0003"
| "MessageType_to_u16 AllocateResponse = 0x0103"
| "MessageType_to_u16 AllocateError = 0x0113"
| "MessageType_to_u16 RefreshRequest = 0x0004"
| "MessageType_to_u16 RefreshResponse = 0x0104"
| "MessageType_to_u16 RefreshError = 0x0114"
| "MessageType_to_u16 CreatePermissionRequest = 0x0008"
| "MessageType_to_u16 ChannelBindRequest = 0x0009"
| "MessageType_to_u16 ChannelBindResponse = 0x0109"
| "MessageType_to_u16 ChannelBindError = 0x0119"
| "MessageType_to_u16 SendIndication = 0x0016"
| "MessageType_to_u16 DataIndication = 0x0017"
| "MessageType_to_u16 (Other v) = v"

record stun_attribute =
  at_type :: u16
  at_value :: bytes

record stun_message =
  sm_kind :: stun_message_type
  sm_transaction_id :: transaction_id
  sm_attributes :: "stun_attribute list"

definition new_request :: "transaction_id \<Rightarrow> stun_message_type \<Rightarrow> stun_message" where
  "new_request tx kind = \<lparr>sm_kind = kind, sm_transaction_id = tx, sm_attributes = []\<rparr>"

function pad4 :: "bytes \<Rightarrow> bytes" where
  "pad4 value = (if length value mod 4 \<noteq> 0 then pad4 (value @ [0]) else value)"
  by auto
termination by (relation "measure (\<lambda>v. (4 - length v mod 4) mod 4)") (auto simp: mod_Suc split: if_splits)

definition push_attr :: "u16 \<Rightarrow> bytes \<Rightarrow> stun_message \<Rightarrow> stun_message" where
  "push_attr t value m = m\<lparr>sm_attributes := sm_attributes m @ [\<lparr>at_type = t, at_value = pad4 value\<rparr>]\<rparr>"

definition encode_attr :: "stun_attribute \<Rightarrow> bytes" where
  "encode_attr a = u16_to_be_bytes (at_type a) @ u16_to_be_bytes (of_nat (length (at_value a))) @ at_value a"

definition body_len :: "stun_message \<Rightarrow> nat" where
  "body_len m = sum_list (map (\<lambda>a. 4 + length (at_value a)) (sm_attributes m))"

definition stun_encode :: "stun_message \<Rightarrow> bytes" where
  "stun_encode m =
     u16_to_be_bytes (MessageType_to_u16 (sm_kind m)) @ u16_to_be_bytes (of_nat (body_len m)) @
     u32_to_be_bytes MAGIC_COOKIE @ sm_transaction_id m @ concat (map encode_attr (sm_attributes m))"

definition align4 :: "nat \<Rightarrow> nat" where
  "align4 n = (n + 3) div 4 * 4"

function decode_attrs :: "bytes \<Rightarrow> stun_attribute list option" where
  "decode_attrs rest =
     (if length rest < 4 then Some []
      else
        let attr_type = u16_from_be (bytes_at 0 2 rest);
            attr_len = unat (u16_from_be (bytes_at 2 4 rest))
        in if 4 + attr_len > length rest then None
           else (case decode_attrs (drop (4 + align4 attr_len) rest) of
                   None \<Rightarrow> None
                 | Some as \<Rightarrow> Some (\<lparr>at_type = attr_type, at_value = bytes_at 4 (4 + attr_len) rest\<rparr> # as)))"
  by auto
termination by (relation "measure length") auto

definition stun_decode :: "bytes \<Rightarrow> stun_message option" where
  "stun_decode buf =
     (if length buf < 20 then None
      else
        let msg_type = u16_from_be (bytes_at 0 2 buf);
            msg_len = unat (u16_from_be (bytes_at 2 4 buf));
            cookie = u32_from_be (bytes_at 4 8 buf)
        in if cookie \<noteq> MAGIC_COOKIE then None
           else if length buf < 20 + msg_len then None
           else (case decode_attrs (bytes_at 20 (20 + msg_len) buf) of
                   None \<Rightarrow> None
                 | Some as \<Rightarrow> Some \<lparr>sm_kind = MessageType_from_u16 msg_type, sm_transaction_id = bytes_at 8 20 buf, sm_attributes = as\<rparr>))"

definition first_attr :: "u16 \<Rightarrow> stun_message \<Rightarrow> bytes option" where
  "first_attr t m = map_option at_value (List.find (\<lambda>a. at_type a = t) (sm_attributes m))"

definition first_attr_nonempty :: "u16 \<Rightarrow> stun_message \<Rightarrow> bytes option" where
  "first_attr_nonempty t m = map_option at_value (List.find (\<lambda>a. at_type a = t \<and> at_value a \<noteq> []) (sm_attributes m))"

definition ATTR_XOR_MAPPED_ADDRESS :: u16 where "ATTR_XOR_MAPPED_ADDRESS = 0x0020"

datatype sock_addr = SockV4 (sa_ip: bytes) (sa_port: u16) | SockV6 (sa_ip: bytes) (sa_port: u16)

definition port_mask :: u16 where
  "port_mask = ucast (drop_bit 16 MAGIC_COOKIE)"

definition cookie_bytes :: bytes where
  "cookie_bytes = u32_to_be_bytes MAGIC_COOKIE"

fun encode_xor_address :: "sock_addr \<Rightarrow> transaction_id \<Rightarrow> bytes" where
  "encode_xor_address (SockV4 ip port) tx =
     [0, 0x01] @ u16_to_be_bytes (port XOR port_mask) @ xor_bytes (take 4 ip) cookie_bytes"
| "encode_xor_address (SockV6 ip port) tx =
     [0, 0x02] @ u16_to_be_bytes (port XOR port_mask) @ xor_bytes (take 4 ip) cookie_bytes @
     xor_bytes ip (cookie_bytes @ tx)"

definition decode_xor_address :: "bytes \<Rightarrow> transaction_id \<Rightarrow> sock_addr option" where
  "decode_xor_address buf tx =
     (if length buf < 8 then None
      else
        let family = buf ! 1;
            port = u16_from_be (bytes_at 2 4 buf) XOR port_mask
        in if family = 0x01 then Some (SockV4 (xor_bytes (bytes_at 4 8 buf) cookie_bytes) port)
           else if family = 0x02 \<and> length buf \<ge> 20 then Some (SockV6 (xor_bytes (bytes_at 4 20 buf) (cookie_bytes @ tx)) port)
           else None)"

definition parse_error_code :: "bytes \<Rightarrow> (u8 \<times> u8) option" where
  "parse_error_code buf =
     (if length buf < 4 then None
      else
        let cls = (buf ! 2) AND 0x07; number = buf ! 3
        in if \<not> (3 \<le> cls \<and> cls \<le> 6) \<or> number > 99 then None else Some (cls, number))"

subsection \<open>What survives the wire\<close>

declare pad4.simps [simp del] decode_attrs.simps [simp del]

lemma length_pad4: "length (pad4 v) mod 4 = 0"
proof (induction v rule: pad4.induct)
  case (1 v)
  then show ?case by (cases "length v mod 4 = 0") (simp_all add: pad4.simps [of v])
qed

lemma pad4_prefix: "\<exists>z. pad4 v = v @ replicate z 0"
proof (induction v rule: pad4.induct)
  case (1 v)
  show ?case
  proof (cases "length v mod 4 = 0")
    case False
    with 1 obtain z where "pad4 (v @ [0]) = (v @ [0]) @ replicate z 0" by blast
    with False have "pad4 v = v @ replicate (Suc z) 0" by (simp add: pad4.simps [of v])
    then show ?thesis by blast
  qed (simp add: pad4.simps [of v] exI [of _ 0])
qed

lemma type_round_trip: "MessageType_from_u16 (MessageType_to_u16 k) = k \<longleftrightarrow> (\<forall>v. k = Other v \<longrightarrow> map_of known_types v = None)"
  by (cases k) (auto simp: MessageType_from_u16_def known_types_def)

lemma from_u16_canonical: "MessageType_to_u16 (MessageType_from_u16 v) = v"
  by (auto simp: MessageType_from_u16_def known_types_def)

definition attr_ok :: "stun_attribute \<Rightarrow> bool" where
  "attr_ok a = (length (at_value a) mod 4 = 0 \<and> length (at_value a) < 65536)"

lemma length_encode_attr [simp]: "length (encode_attr a) = 4 + length (at_value a)"
  by (simp add: encode_attr_def)

lemma align4_id [simp]: "n mod 4 = 0 \<Longrightarrow> align4 n = n"
  by (auto simp: align4_def elim!: dvdE simp flip: dvd_eq_mod_eq_0)

lemma encode_attr_parts:
  "bytes_at 0 2 (encode_attr a @ r) = u16_to_be_bytes (at_type a)"
  "bytes_at 2 4 (encode_attr a @ r) = u16_to_be_bytes (of_nat (length (at_value a)))"
  "bytes_at 4 (4 + length (at_value a)) (encode_attr a @ r) = at_value a"
  by (simp_all add: bytes_at_def encode_attr_def)

lemma decode_encode_attrs: "list_all attr_ok as \<Longrightarrow> decode_attrs (concat (map encode_attr as)) = Some as"
proof (induction as)
  case (Cons a as)
  let ?rest = "encode_attr a @ concat (map encode_attr as)"
  have len: "unat (of_nat (length (at_value a)) :: u16) = length (at_value a)" "align4 (length (at_value a)) = length (at_value a)"
    using Cons.prems by (simp_all add: attr_ok_def unat_of_nat_small del: unat_of_nat)
  have "drop (4 + length (at_value a)) ?rest = concat (map encode_attr as)" by simp
  then show ?case using Cons len
    by (subst decode_attrs.simps) (simp add: encode_attr_parts Let_def del: unat_of_nat drop_append)
qed (simp add: decode_attrs.simps)

lemma length_body: "length (concat (map encode_attr (sm_attributes m))) = body_len m"
  by (simp add: body_len_def length_concat comp_def)

lemma stun_decode_encode:
  assumes "list_all attr_ok (sm_attributes m)" "body_len m < 65536" "length (sm_transaction_id m) = 12"
  shows "stun_decode (stun_encode m @ junk) =
    Some (m\<lparr>sm_kind := MessageType_from_u16 (MessageType_to_u16 (sm_kind m))\<rparr>)"
proof -
  let ?b = "concat (map encode_attr (sm_attributes m))"
  let ?buf = "stun_encode m @ junk"
  have n: "unat (of_nat (body_len m) :: u16) = body_len m" using assms(2) by (simp add: unat_of_nat_small del: unat_of_nat)
  have parts: "bytes_at 0 2 ?buf = u16_to_be_bytes (MessageType_to_u16 (sm_kind m))"
    "bytes_at 2 4 ?buf = u16_to_be_bytes (of_nat (body_len m))" "bytes_at 4 8 ?buf = u32_to_be_bytes MAGIC_COOKIE"
    "bytes_at 8 20 ?buf = sm_transaction_id m" "bytes_at 20 (20 + body_len m) ?buf = ?b"
    using assms(3) length_body [of m] by (simp_all add: bytes_at_def stun_encode_def)
  have "length ?buf = 20 + body_len m + length junk" using assms(3) length_body [of m] by (simp add: stun_encode_def)
  with parts n decode_encode_attrs [OF assms(1)] show ?thesis by (simp add: stun_decode_def Let_def del: unat_of_nat)
qed

definition build_message :: "transaction_id \<Rightarrow> stun_message_type \<Rightarrow> (u16 \<times> bytes) list \<Rightarrow> stun_message" where
  "build_message tx kind attrs = fold (\<lambda>(t, v). push_attr t v) attrs (new_request tx kind)"

lemma build_message_parts:
  "sm_kind (build_message tx kind attrs) = kind" "sm_transaction_id (build_message tx kind attrs) = tx"
  "sm_attributes (build_message tx kind attrs) = map (\<lambda>(t, v). \<lparr>at_type = t, at_value = pad4 v\<rparr>) attrs"
proof -
  have "sm_kind (fold (\<lambda>(t, v). push_attr t v) attrs m) = sm_kind m \<and>
    sm_transaction_id (fold (\<lambda>(t, v). push_attr t v) attrs m) = sm_transaction_id m \<and>
    sm_attributes (fold (\<lambda>(t, v). push_attr t v) attrs m) = sm_attributes m @ map (\<lambda>(t, v). \<lparr>at_type = t, at_value = pad4 v\<rparr>) attrs" for m
    by (induction attrs arbitrary: m) (auto simp: push_attr_def)
  then show "sm_kind (build_message tx kind attrs) = kind" "sm_transaction_id (build_message tx kind attrs) = tx"
    "sm_attributes (build_message tx kind attrs) = map (\<lambda>(t, v). \<lparr>at_type = t, at_value = pad4 v\<rparr>) attrs"
    by (simp_all add: build_message_def new_request_def)
qed

lemma build_message_ok:
  assumes "body_len (build_message tx kind attrs) < 65536"
  shows "list_all attr_ok (sm_attributes (build_message tx kind attrs))"
  unfolding list_all_iff
proof
  fix a assume a: "a \<in> set (sm_attributes (build_message tx kind attrs))"
  then have "4 + length (at_value a) \<le> body_len (build_message tx kind attrs)"
    unfolding body_len_def by (intro member_le_sum_list) (auto simp: image_iff)
  with a assms show "attr_ok a" by (auto simp: attr_ok_def build_message_parts length_pad4)
qed

text \<open>
  STUN messages survive the wire. A message built by \<^verbatim>\<open>push_attr\<close> whose body fits the 16-bit length
  is decoded from its encoding, whatever bytes follow, with its type, its transaction identifier
  and its attributes in order, each padded to four bytes.
\<close>

theorem stun_round_trip:
  assumes "length tx = 12" and "body_len (build_message tx kind attrs) < 65536"
    and "MessageType_from_u16 (MessageType_to_u16 kind) = kind"
  shows "stun_decode (stun_encode (build_message tx kind attrs) @ junk) = Some (build_message tx kind attrs)"
proof -
  let ?m = "build_message tx kind attrs"
  have "list_all attr_ok (sm_attributes ?m)" by (rule build_message_ok [OF assms(2)])
  from stun_decode_encode [OF this assms(2), of junk] assms(1,3) show ?thesis by (simp add: build_message_parts)
qed

theorem stun_round_trip_witness:
  "stun_decode (stun_encode (build_message (replicate 12 7) AllocateRequest [(0x19, [17, 0, 0]), (0x06, [1])]) @ [9]) =
    Some (build_message (replicate 12 7) AllocateRequest [(0x19, [17, 0, 0]), (0x06, [1])])"
  by (rule stun_round_trip) (simp_all add: body_len_def build_message_parts pad4.simps MessageType_from_u16_def known_types_def)


lemma length_cookie_bytes [simp]: "length cookie_bytes = 4"
  by (simp add: cookie_bytes_def)

lemma encoded_port:
  "bytes_at 2 4 (x # y # u16_to_be_bytes p @ r) = u16_to_be_bytes p" "bytes_at 4 n (x # y # u16_to_be_bytes p @ r) = take (n - 4) r"
  by (simp_all add: bytes_at_def)

lemma xor_v4_round_trip:
  assumes "length ip = 4"
  shows "decode_xor_address (encode_xor_address (SockV4 ip port) tx @ junk) tx = Some (SockV4 ip port)"
  using assms by (simp add: decode_xor_address_def Let_def encoded_port xor.assoc)

lemma take_xor_bytes: "take n (xor_bytes xs ys) = xor_bytes (take n xs) (take n ys)"
  by (simp add: xor_bytes_def take_map take_zip)

lemma drop_xor_bytes: "drop n (xor_bytes xs ys) = xor_bytes (drop n xs) (drop n ys)"
  by (simp add: xor_bytes_def drop_map drop_zip)

lemma xor_v6_decoded:
  assumes "length ip = 16" "length tx = 12"
  shows "decode_xor_address (encode_xor_address (SockV6 ip port) tx) tx =
    Some (SockV6 (take 4 ip @ xor_bytes (take 12 (xor_bytes ip (cookie_bytes @ tx))) tx) port)"
proof -
  let ?m = "xor_bytes (take 4 ip) cookie_bytes" and ?e = "xor_bytes ip (cookie_bytes @ tx)"
  have "xor_bytes (?m @ take 12 ?e) (cookie_bytes @ tx) = take 4 ip @ xor_bytes (take 12 ?e) tx"
    using assms by (simp add: xor_bytes_append)
  then show ?thesis using assms by (simp add: decode_xor_address_def Let_def encoded_port xor.assoc)
qed

text \<open>
  Which addresses survive. An IPv4 address is recovered from its encoding; an IPv6 address is recovered
  only when its masked form repeats its first four bytes four times, since the encoder
  writes the first four bytes twice and the decoder reads the first sixteen of the twenty.
\<close>

theorem xor_address_round_trip:
  assumes "length ip4 = 4" and "length ip6 = 16" and "length tx = 12"
  shows "decode_xor_address (encode_xor_address (SockV4 ip4 port) tx) tx = Some (SockV4 ip4 port) \<and>
    (decode_xor_address (encode_xor_address (SockV6 ip6 port) tx) tx = Some (SockV6 ip6 port) \<longleftrightarrow>
      drop 4 (xor_bytes ip6 (cookie_bytes @ tx)) = take 12 (xor_bytes ip6 (cookie_bytes @ tx)))"
proof -
  let ?e = "xor_bytes ip6 (cookie_bytes @ tx)"
  have "drop 4 ?e = xor_bytes (drop 4 ip6) tx" by (simp add: drop_xor_bytes)
  then have d: "xor_bytes (drop 4 ?e) tx = drop 4 ip6" using assms by simp
  have t: "xor_bytes (xor_bytes (take 12 ?e) tx) tx = take 12 ?e" using assms by (intro xor_bytes_cancel) simp
  have "xor_bytes (take 12 ?e) tx = drop 4 ip6 \<longleftrightarrow> drop 4 ?e = take 12 ?e"
  proof
    assume "xor_bytes (take 12 ?e) tx = drop 4 ip6"
    with t have "take 12 ?e = xor_bytes (drop 4 ip6) tx" by (simp only:)
    then show "drop 4 ?e = take 12 ?e" by (simp only: drop_xor_bytes) (simp add: drop_xor_bytes)
  next
    assume "drop 4 ?e = take 12 ?e"
    with d show "xor_bytes (take 12 ?e) tx = drop 4 ip6" by (simp only:)
  qed
  moreover have "take 4 ip6 @ z = ip6 \<longleftrightarrow> z = drop 4 ip6" for z by (metis append_take_drop_id same_append_eq)
  ultimately show ?thesis using xor_v4_round_trip [OF assms(1), of port tx "[]"] xor_v6_decoded [OF assms(2,3), of port]
    by (simp only: append_Nil2 option.inject sock_addr.inject simp_thms)
qed

theorem xor_address_round_trip_witness:
  "decode_xor_address (encode_xor_address (SockV4 [203, 0, 113, 42] 4242) (replicate 12 0)) (replicate 12 0) = Some (SockV4 [203, 0, 113, 42] 4242) \<and>
    (decode_xor_address (encode_xor_address (SockV6 (32 # 1 # replicate 14 0) 4242) (replicate 12 0)) (replicate 12 0) = Some (SockV6 (32 # 1 # replicate 14 0) 4242) \<longleftrightarrow>
      drop 4 (xor_bytes (32 # 1 # replicate 14 0) (cookie_bytes @ replicate 12 0)) = take 12 (xor_bytes (32 # 1 # replicate 14 0) (cookie_bytes @ replicate 12 0)))"
  by (rule xor_address_round_trip) simp_all

lemma cookie_bytes_eq: "cookie_bytes = [0x21, 0x12, 0xA4, 0x42]"
proof -
  have "be_bytes 4 v = [of_nat (v div 256 div 256 div 256 mod 256), of_nat (v div 256 div 256 mod 256), of_nat (v div 256 mod 256), of_nat (v mod 256)]" for v
  proof -
    have four: "(4 :: nat) = Suc (Suc (Suc (Suc 0)))" by simp
    show ?thesis unfolding four be_bytes.simps by simp
  qed
  then show ?thesis by (simp add: cookie_bytes_def u32_to_be_bytes_def MAGIC_COOKIE_def)
qed

lemma xor_v6_example_garbled:
  "decode_xor_address (encode_xor_address (SockV6 [32, 1, 0, 0, 0, 0, 0, 0, 0, 0, 0, 0, 0, 0, 0, 1] port) [0, 0, 0, 0, 0, 0, 0, 0, 0, 0, 0, 0])
     [0, 0, 0, 0, 0, 0, 0, 0, 0, 0, 0, 0] = Some (SockV6 [32, 1, 0, 0, 1, 19, 164, 66, 0, 0, 0, 0, 0, 0, 0, 0] port)"
  by (subst xor_v6_decoded) (simp_all add: xor_bytes_def cookie_bytes_eq)

lemma error_code_bounds:
  "parse_error_code buf = Some (c, n) \<Longrightarrow> 300 \<le> unat c * 100 + unat n \<and> unat c * 100 + unat n \<le> 699"
  by (auto simp: parse_error_code_def Let_def word_le_nat_alt word_less_nat_alt split: if_splits)


section \<open>The STUN client\<close>

datatype nat_error = StunTooShort | StunUnexpectedType u16 | StunAddressNotFound | StunNetwork | NoStunServers

definition STUN_BINDING_REQUEST :: u16 where "STUN_BINDING_REQUEST = 0x0001"
definition STUN_BINDING_RESPONSE :: u16 where "STUN_BINDING_RESPONSE = 0x0101"
definition STUN_ATTR_XOR_MAPPED_ADDRESS :: u16 where "STUN_ATTR_XOR_MAPPED_ADDRESS = 0x0020"
definition STUN_ATTR_SOURCE_ADDRESS :: u16 where "STUN_ATTR_SOURCE_ADDRESS = 0x0004"
definition STUN_ATTR_CHANGED_ADDRESS :: u16 where "STUN_ATTR_CHANGED_ADDRESS = 0x0005"

record stun_response =
  sr_server :: sock_addr
  sr_mapped_address :: sock_addr
  sr_source_address :: sock_addr
  sr_changed_address :: sock_addr

definition binding_request_bytes :: "transaction_id \<Rightarrow> bytes" where
  "binding_request_bytes tx = u16_to_be_bytes STUN_BINDING_REQUEST @ u16_to_be_bytes 0 @ u32_to_be_bytes MAGIC_COOKIE @ tx"

text \<open>
  \<^verbatim>\<open>find_attribute\<close> walks the attributes by index. Reading past the end panics: the loop guard covers
  the first byte of a value only.
\<close>

function find_attribute_loop :: "bytes \<Rightarrow> u16 \<Rightarrow> nat \<Rightarrow> (nat_error, sock_addr) result option" where
  "find_attribute_loop dat attr_type offset =
     (if offset + 4 < length dat then
        let ty = u16_from_be (bytes_at offset (offset + 2) dat);
            len = unat (u16_from_be (bytes_at (offset + 2) (offset + 4) dat));
            off = offset + 4
        in if ty = attr_type \<and> len \<ge> 8 \<and> dat ! off = 0x01 then
             (if off + 8 > length dat then None
              else
                let port = u16_from_be (bytes_at (off + 2) (off + 4) dat);
                    ip = bytes_at (off + 4) (off + 8) dat
                in if attr_type = STUN_ATTR_XOR_MAPPED_ADDRESS
                   then Some (Inr (SockV4 (xor_bytes ip cookie_bytes) (port XOR port_mask)))
                   else Some (Inr (SockV4 ip port)))
           else find_attribute_loop dat attr_type (align4 (off + len))
      else Some (Inl StunAddressNotFound))"
  by auto
termination by (relation "measure (\<lambda>(dat, _, offset). length dat - offset)") (auto simp: align4_def)

definition find_attribute :: "bytes \<Rightarrow> u16 \<Rightarrow> (nat_error, sock_addr) result option" where
  "find_attribute dat attr_type = find_attribute_loop dat attr_type 20"

definition parse_response :: "bytes \<Rightarrow> sock_addr \<Rightarrow> (nat_error, stun_response) result option" where
  "parse_response dat from =
     (if length dat < 20 then Some (Inl StunTooShort)
      else if u16_from_be (bytes_at 0 2 dat) \<noteq> STUN_BINDING_RESPONSE then Some (Inl (StunUnexpectedType (u16_from_be (bytes_at 0 2 dat))))
      else case find_attribute dat STUN_ATTR_XOR_MAPPED_ADDRESS of
          None \<Rightarrow> None
        | Some (Inl e) \<Rightarrow> Some (Inl e)
        | Some (Inr mapped) \<Rightarrow>
            (case find_attribute dat STUN_ATTR_SOURCE_ADDRESS of
               None \<Rightarrow> None
             | Some (Inl e) \<Rightarrow> Some (Inl e)
             | Some (Inr source) \<Rightarrow>
                 (case find_attribute dat STUN_ATTR_CHANGED_ADDRESS of
                    None \<Rightarrow> None
                  | Some (Inl e) \<Rightarrow> Some (Inl e)
                  | Some (Inr changed) \<Rightarrow>
                      Some (Inr \<lparr>sr_server = from, sr_mapped_address = mapped, sr_source_address = source, sr_changed_address = changed\<rparr>))))"

datatype nat_type = OpenInternet | FullCone | RestrictedCone | PortRestrictedCone | Symmetric | UnknownNat

definition supports_direct_p2p :: "nat_type \<Rightarrow> bool" where
  "supports_direct_p2p t = (t \<in> {OpenInternet, FullCone, RestrictedCone, PortRestrictedCone})"

definition supports_hole_punching :: "nat_type \<Rightarrow> bool" where
  "supports_hole_punching t = (t \<notin> {Symmetric, UnknownNat})"

definition requires_turn :: "nat_type \<Rightarrow> bool" where
  "requires_turn t = (t \<in> {Symmetric, UnknownNat})"

text \<open>
  The answers of the servers are an argument: for every server a failure of the socket or the
  datagram it returned with its sender, and the local address of the socket that was used.
\<close>

definition binding_request :: "(bytes \<times> sock_addr) option \<Rightarrow> (nat_error, stun_response) result option" where
  "binding_request reply = (case reply of None \<Rightarrow> Some (Inl StunNetwork) | Some (dat, from) \<Rightarrow> parse_response dat from)"

fun is_v4 :: "sock_addr \<Rightarrow> bool" where
  "is_v4 (SockV4 _ _) = True"
| "is_v4 (SockV6 _ _) = False"

definition detect_nat_type ::
  "sock_addr \<Rightarrow> (bytes \<times> sock_addr) option list \<Rightarrow> (nat_error, nat_type \<times> stun_response) result option" where
  "detect_nat_type local replies =
     (case replies of
        [] \<Rightarrow> Some (Inl NoStunServers)
      | r1 # rest \<Rightarrow>
          (case binding_request r1 of
             None \<Rightarrow> None
           | Some (Inl e) \<Rightarrow> Some (Inl e)
           | Some (Inr primary) \<Rightarrow>
               if \<not> is_v4 local \<or> \<not> is_v4 (sr_mapped_address primary) then Some (Inr (OpenInternet, primary))
               else if sa_ip local = sa_ip (sr_mapped_address primary) then Some (Inr (OpenInternet, primary))
               else case rest of
                   [] \<Rightarrow> Some (Inr (PortRestrictedCone, primary))
                 | r2 # _ \<Rightarrow>
                     (case binding_request r2 of
                        None \<Rightarrow> None
                      | Some (Inl e) \<Rightarrow> Some (Inl e)
                      | Some (Inr secondary) \<Rightarrow>
                          if sa_port (sr_mapped_address primary) \<noteq> sa_port (sr_mapped_address secondary) then Some (Inr (Symmetric, primary))
                          else if sa_ip (sr_mapped_address primary) \<noteq> sa_ip (sr_mapped_address secondary) then Some (Inr (Symmetric, primary))
                          else Some (Inr (PortRestrictedCone, primary)))))"

definition is_behind_nat :: "sock_addr \<Rightarrow> stun_response \<Rightarrow> bool" where
  "is_behind_nat local r = (sa_ip (sr_mapped_address r) \<noteq> sa_ip local \<or> sa_port (sr_mapped_address r) \<noteq> sa_port local)"

record nat_info =
  ni_nat_type :: nat_type
  ni_supports_hole_punch :: bool
  ni_requires_turn :: bool
  ni_port_mappings :: "u16 list"

datatype connection_method = Discover | Direct | HolePunchMethod | TurnRelay | RelayMethod

definition can_connect_directly :: "nat_info option \<Rightarrow> bool" where
  "can_connect_directly i = (case i of Some i \<Rightarrow> \<not> ni_requires_turn i \<and> ni_port_mappings i \<noteq> [] | None \<Rightarrow> False)"

definition get_connection_method :: "nat_info option \<Rightarrow> connection_method" where
  "get_connection_method i =
     (case i of
        None \<Rightarrow> Discover
      | Some i \<Rightarrow>
          if ni_nat_type i = OpenInternet then Direct
          else if ni_requires_turn i then TurnRelay
          else if ni_supports_hole_punch i then HolePunchMethod
          else Discover)"

subsection \<open>What the client accepts\<close>

declare find_attribute_loop.simps [simp del]

definition unmarked :: "u16 \<Rightarrow> stun_attribute \<Rightarrow> bool" where
  "unmarked t a = (at_type a = t \<longrightarrow> length (at_value a) < 8 \<or> hd (at_value a) \<noteq> 0x01)"

lemma find_attribute_step:
  assumes "length pre mod 4 = 0" "attr_ok a" "unmarked t a"
  shows "find_attribute_loop (pre @ encode_attr a @ r) t (length pre) =
    (if length (at_value a) + length r = 0 then Some (Inl StunAddressNotFound)
     else find_attribute_loop (pre @ encode_attr a @ r) t (length pre + (4 + length (at_value a))))"
proof (cases "length (at_value a) + length r = 0")
  case False
  let ?d = "pre @ encode_attr a @ r" and ?o = "length pre"
  have len: "unat (of_nat (length (at_value a)) :: u16) = length (at_value a)"
    using assms(2) by (simp add: attr_ok_def unat_of_nat_small del: unat_of_nat)
  have parts: "bytes_at ?o (?o + 2) ?d = u16_to_be_bytes (at_type a)" "bytes_at (?o + 2) (?o + 4) ?d = u16_to_be_bytes (of_nat (length (at_value a)))"
    by (simp_all add: bytes_at_def encode_attr_def)
  have nm: "(at_type a = t \<and> length (at_value a) \<ge> 8 \<and> ?d ! (?o + 4) = 0x01) = False"
    using assms(3) by (auto simp: unmarked_def encode_attr_def nth_append hd_conv_nth)
  have guard: "(?o + 4 < length ?d) = True" using False by auto
  have "find_attribute_loop ?d t ?o = find_attribute_loop ?d t (align4 (?o + 4 + length (at_value a)))"
    by (subst find_attribute_loop.simps) (simp only: Let_def parts len u16_round_trip guard nm if_True if_False)
  moreover have "align4 (?o + 4 + length (at_value a)) = ?o + (4 + length (at_value a))"
    using assms(1,2) by (subst align4_id) (auto simp: attr_ok_def simp flip: dvd_eq_mod_eq_0)
  ultimately show ?thesis using False by (simp only: if_False)
qed (subst find_attribute_loop.simps, simp)

lemma find_attribute_unmarked:
  "length pre mod 4 = 0 \<Longrightarrow> list_all attr_ok as \<Longrightarrow> list_all (unmarked t) as \<Longrightarrow>
    find_attribute_loop (pre @ concat (map encode_attr as)) t (length pre) = Some (Inl StunAddressNotFound)"
proof (induction as arbitrary: pre)
  case (Cons a as)
  then have "length (pre @ encode_attr a) mod 4 = 0"
    by (auto simp: attr_ok_def simp flip: dvd_eq_mod_eq_0)
  from Cons.IH [OF this] Cons.prems find_attribute_step [of pre a t "concat (map encode_attr as)"] show ?case
    by (simp add: add.assoc)
qed (simp add: find_attribute_loop.simps)

text \<open>
  The client cannot read a genuine answer. The address attribute begins with a reserved zero byte, as the codec of
  the same crate writes it, and the client takes this byte for the address family: whatever address it
  announces, a binding response with such an attribute is refused, with every server that answers so.
\<close>

theorem stun_client_refuses_genuine_response:
  assumes "length tx = 12" and "body_len (build_message tx BindingResponse attrs) < 65536"
    and "list_all (\<lambda>(t, v). t = STUN_ATTR_XOR_MAPPED_ADDRESS \<longrightarrow> (\<exists>addr. v = encode_xor_address addr tx)) attrs"
  shows "detect_nat_type local (Some (stun_encode (build_message tx BindingResponse attrs), from) # rest) =
    Some (Inl StunAddressNotFound)"
proof -
  let ?m = "build_message tx BindingResponse attrs"
  let ?h = "u16_to_be_bytes 0x0101 @ u16_to_be_bytes (of_nat (body_len ?m)) @ u32_to_be_bytes MAGIC_COOKIE @ tx"
  have enc: "stun_encode ?m = ?h @ concat (map encode_attr (sm_attributes ?m))"
    by (simp add: stun_encode_def build_message_parts)
  have zero: "\<exists>x. encode_xor_address addr tx = 0 # x" for addr by (cases addr) simp_all
  have "unmarked STUN_ATTR_XOR_MAPPED_ADDRESS \<lparr>at_type = t, at_value = pad4 v\<rparr>" if "(t, v) \<in> set attrs" for t v
  proof -
    have "hd (pad4 v) = 0" if t: "t = STUN_ATTR_XOR_MAPPED_ADDRESS"
    proof -
      have "t = STUN_ATTR_XOR_MAPPED_ADDRESS \<longrightarrow> (\<exists>addr. v = encode_xor_address addr tx)"
        using bspec [OF assms(3) [unfolded list_all_iff] \<open>(t, v) \<in> set attrs\<close>] by simp
      then obtain addr where "v = encode_xor_address addr tx" using t by blast
      with zero [of addr] pad4_prefix [of v] show ?thesis by auto
    qed
    then show ?thesis by (simp add: unmarked_def)
  qed
  then have "list_all (unmarked STUN_ATTR_XOR_MAPPED_ADDRESS) (sm_attributes ?m)"
    by (auto simp: build_message_parts list_all_iff)
  moreover have "list_all attr_ok (sm_attributes ?m)" by (rule build_message_ok [OF assms(2)])
  ultimately have "find_attribute (stun_encode ?m) STUN_ATTR_XOR_MAPPED_ADDRESS = Some (Inl StunAddressNotFound)"
    using find_attribute_unmarked [of ?h "sm_attributes ?m"] assms(1) by (simp add: find_attribute_def enc)
  moreover have "u16_from_be (bytes_at 0 2 (stun_encode ?m)) = 0x0101" "20 \<le> length (stun_encode ?m)"
    using assms(1) by (simp_all add: enc bytes_at_def)
  ultimately show ?thesis by (simp add: detect_nat_type_def binding_request_def parse_response_def STUN_BINDING_RESPONSE_def)
qed

theorem stun_client_refuses_genuine_response_witness:
  "detect_nat_type (SockV4 [10, 0, 0, 1] 5000)
     (Some (stun_encode (build_message (replicate 12 7) BindingResponse
        [(STUN_ATTR_XOR_MAPPED_ADDRESS, encode_xor_address (SockV4 [203, 0, 113, 42] 4242) (replicate 12 7))]), SockV4 [8, 8, 8, 8] 3478) # []) =
    Some (Inl StunAddressNotFound)"
proof (rule stun_client_refuses_genuine_response)
  have "length (encode_xor_address (SockV4 [203, 0, 113, 42] 4242) (replicate 12 7)) = 8" by simp
  then have "pad4 (encode_xor_address (SockV4 [203, 0, 113, 42] 4242) (replicate 12 7)) = encode_xor_address (SockV4 [203, 0, 113, 42] 4242) (replicate 12 7)"
    by (subst pad4.simps) simp
  then show "body_len (build_message (replicate 12 7) BindingResponse
      [(STUN_ATTR_XOR_MAPPED_ADDRESS, encode_xor_address (SockV4 [203, 0, 113, 42] 4242) (replicate 12 7))]) < 65536"
    by (simp add: body_len_def build_message_parts)
qed (auto simp del: encode_xor_address.simps)

lemma truncated_attribute_panics:
  "find_attribute (replicate 20 0 @ [0, 0x20, 0, 8, 0x01]) STUN_ATTR_XOR_MAPPED_ADDRESS = None"
  by (simp add: find_attribute_def find_attribute_loop.simps bytes_at_def u16_from_be_def STUN_ATTR_XOR_MAPPED_ADDRESS_def nth_append)


lemma method_of_discovered:
  assumes "ni_supports_hole_punch i = supports_hole_punching (ni_nat_type i)" "ni_requires_turn i = requires_turn (ni_nat_type i)"
  shows "get_connection_method (Some i) =
    (if ni_nat_type i = OpenInternet then Direct else if ni_nat_type i \<in> {Symmetric, UnknownNat} then TurnRelay else HolePunchMethod)"
  using assms by (cases "ni_nat_type i") (simp_all add: get_connection_method_def supports_hole_punching_def requires_turn_def)

section \<open>Hole punching\<close>

record hole_punch_config =
  hp_timeout_ms :: u64
  hp_max_attempts :: nat
  hp_retry_interval_ms :: u64

definition HolePunchConfig_default :: hole_punch_config where
  "HolePunchConfig_default = \<lparr>hp_timeout_ms = 10000, hp_max_attempts = 5, hp_retry_interval_ms = 1000\<rparr>"

datatype punch_error = PunchSendFailed | PunchReceiveFailed | MaxAttemptsReached

record hole_punch_result =
  hr_success :: bool
  hr_local_external :: "sock_addr option"
  hr_remote_external :: "sock_addr option"
  hr_error :: "punch_error option"

datatype recv_event = Received bytes sock_addr | ReceiveError | ReceiveTimeout

definition ADNETHP :: bytes where
  "ADNETHP = str_as_bytes ''ADNETHP''"

definition build_punch_message :: "string \<Rightarrow> sock_addr \<Rightarrow> bytes" where
  "build_punch_message pid local = ADNETHP @ str_as_bytes pid @ u16_to_be_bytes (sa_port local)"

definition is_peer_response :: "bytes \<Rightarrow> string \<Rightarrow> bool" where
  "is_peer_response dat pid = (length dat \<ge> 24 \<and> bytes_at 0 8 dat = ADNETHP)"

text \<open>
  The socket during \<^verbatim>\<open>punch_udp\<close>: for every attempt whether the send succeeded and what was received.
\<close>

function punch_loop ::
  "hole_punch_config \<Rightarrow> string \<Rightarrow> sock_addr \<Rightarrow> sock_addr option \<Rightarrow> (nat \<Rightarrow> bool \<times> recv_event) \<Rightarrow> nat \<Rightarrow> punch_error option \<Rightarrow> hole_punch_result" where
  "punch_loop cfg pid local hint net attempts last_error =
     (if attempts < hp_max_attempts cfg then
        let (sent, ev) = net attempts;
            err1 = (if sent then last_error else Some PunchSendFailed)
        in case ev of
            Received dat from \<Rightarrow>
              if is_peer_response dat pid
              then \<lparr>hr_success = True, hr_local_external = Some local, hr_remote_external = Some from, hr_error = None\<rparr>
              else punch_loop cfg pid local hint net (attempts + 1) err1
          | ReceiveError \<Rightarrow> punch_loop cfg pid local hint net (attempts + 1) (Some PunchReceiveFailed)
          | ReceiveTimeout \<Rightarrow> punch_loop cfg pid local hint net (attempts + 1) err1
      else \<lparr>hr_success = False, hr_local_external = Some local, hr_remote_external = hint,
             hr_error = (case last_error of Some e \<Rightarrow> Some e | None \<Rightarrow> Some MaxAttemptsReached)\<rparr>)"
  by auto
termination by (relation "measure (\<lambda>(cfg, _, _, _, _, attempts, _). hp_max_attempts cfg - attempts)") auto

definition punch_udp ::
  "hole_punch_config \<Rightarrow> string \<Rightarrow> sock_addr \<Rightarrow> sock_addr option \<Rightarrow> (nat \<Rightarrow> bool \<times> recv_event) \<Rightarrow> hole_punch_result" where
  "punch_udp cfg pid local hint net = punch_loop cfg pid local hint net 0 None"

definition punch_packet :: "bytes \<Rightarrow> string \<Rightarrow> bytes option" where
  "punch_packet rnd pid = Option.bind (copy_from_slice 0 8 ADNETHP rnd) (copy_from_slice 8 24 (str_as_bytes pid))"

fun punch_packets :: "string \<Rightarrow> bytes list \<Rightarrow> bytes list option" where
  "punch_packets pid [] = Some []"
| "punch_packets pid (rnd # rnds) =
     (case punch_packet rnd pid of
        None \<Rightarrow> None
      | Some pkt \<Rightarrow> map_option (\<lambda>ps. pkt # ps) (punch_packets pid rnds))"

definition punch_simultaneous :: "string \<Rightarrow> sock_addr \<Rightarrow> sock_addr \<Rightarrow> bytes list \<Rightarrow> hole_punch_result option" where
  "punch_simultaneous pid local peer rnds =
     map_option (\<lambda>_. \<lparr>hr_success = True, hr_local_external = Some local, hr_remote_external = Some peer, hr_error = None\<rparr>)
       (punch_packets pid (take 10 rnds))"

declare punch_loop.simps [simp del]

lemma length_ADNETHP [simp]: "length ADNETHP = 7"
  by (simp add: ADNETHP_def str_as_bytes_def)

lemma no_peer_response: "\<not> is_peer_response dat pid"
proof
  assume "is_peer_response dat pid"
  then have "length (bytes_at 0 8 dat) = 7" "24 \<le> length dat" by (simp_all add: is_peer_response_def)
  then show False by simp
qed

lemma punch_loop_fails:
  "\<not> hr_success (punch_loop cfg pid local hint net n err) \<and> hr_remote_external (punch_loop cfg pid local hint net n err) = hint"
proof (induction cfg pid local hint net n err rule: punch_loop.induct)
  case (1 cfg pid local hint net n err)
  show ?case
  proof (cases "n < hp_max_attempts cfg")
    case True
    obtain sent ev where ev: "net n = (sent, ev)" by (cases "net n")
    show ?thesis using 1 True ev no_peer_response
      by (cases ev) (simp_all add: punch_loop.simps [of cfg pid local hint net n err])
  qed (simp add: punch_loop.simps)
qed

lemma punch_packet_panics: "punch_packet rnd pid = None"
  by (simp add: punch_packet_def copy_from_slice_def)

text \<open>
  Hole punching never succeeds. The tag compared and copied as eight bytes is seven bytes long: whatever
  the peer sends, \<^verbatim>\<open>punch_udp\<close> uses up its attempts and reports failure, even on the very message the
  peer builds, and \<^verbatim>\<open>punch_simultaneous\<close> panics on its first packet.
\<close>

theorem hole_punch_never_succeeds:
  "hr_success (punch_udp cfg pid local hint net) = False \<and> hr_remote_external (punch_udp cfg pid local hint net) = hint \<and>
   is_peer_response (build_punch_message pid' peer) pid = False \<and> punch_simultaneous pid local peer (rnd # rnds) = None"
  using punch_loop_fails no_peer_response
  by (auto simp: punch_udp_def punch_simultaneous_def punch_packet_panics)

end
