(* ===== verification/Port_Mapping.thy ===== *)
theory Port_Mapping
  imports Wire
begin

text \<open>
  Port mappings, \<^verbatim>\<open>crates/a3net-nat-traversal/src/nat_pmp.rs\<close> and \<^verbatim>\<open>pcp.rs\<close>: the requests the clients
  send, the replies they accept, and the deletion of a mapping as a request with lifetime zero. The socket
  is an argument: the datagram that arrived, if any. A datagram longer than the receive
  buffer is cut, as the operating system does.
  The lemmas: what an accepted reply says, which replies are accepted, and that a confirmed deletion
  is reported as an error by both clients.
\<close>

unbundle bit_operations_syntax

section \<open>NAT-PMP\<close>

definition NAT_PMP_PORT :: u16 where "NAT_PMP_PORT = 5351"
definition NAT_PMP_VERSION :: u8 where "NAT_PMP_VERSION = 0"

datatype port_mapping_protocol = Tcp | Udp

record external_address =
  ea_seconds_since_epoch :: u32
  ea_ipv4 :: bytes

record port_mapping_result =
  pm_internal_port :: u16
  pm_external_port :: u16
  pm_lifetime_seconds :: u32

datatype nat_pmp_error =
    PmpTimeout
  | PmpShortReply nat
  | PmpVersion u8
  | PmpOpcode u8
  | PmpResultCode u16
  | PmpRefused

datatype gateway_ip = GatewayV4 bytes | GatewayV6 bytes

definition NatPmpClient_new :: "gateway_ip \<Rightarrow> u16 \<Rightarrow> gateway_ip \<times> u16" where
  "NatPmpClient_new gw port =
     ((case gw of GatewayV4 ip \<Rightarrow> GatewayV4 ip | GatewayV6 _ \<Rightarrow> GatewayV4 [0, 0, 0, 0]), NAT_PMP_PORT)"

definition external_address_request :: bytes where
  "external_address_request = [NAT_PMP_VERSION, 0x00, 0x00, 0x00]"

definition NatPmp_external_address :: "bytes option \<Rightarrow> (nat_pmp_error, external_address) result" where
  "NatPmp_external_address reply =
     (case reply of
        None \<Rightarrow> Inl PmpTimeout
      | Some dat \<Rightarrow>
          let buf = take 12 dat
          in if length buf < 12 then Inl (PmpShortReply (length buf))
             else if buf ! 0 \<noteq> NAT_PMP_VERSION then Inl (PmpVersion (buf ! 0))
             else if buf ! 1 \<noteq> 0x80 then Inl (PmpOpcode (buf ! 1))
             else if u16_from_be (bytes_at 2 4 buf) \<noteq> 0 then Inl (PmpResultCode (u16_from_be (bytes_at 2 4 buf)))
             else Inr \<lparr>ea_seconds_since_epoch = u32_from_be (bytes_at 4 8 buf), ea_ipv4 = bytes_at 8 12 buf\<rparr>)"

fun nat_pmp_opcode :: "port_mapping_protocol \<Rightarrow> u8" where
  "nat_pmp_opcode Udp = 0x01"
| "nat_pmp_opcode Tcp = 0x02"

definition nat_pmp_map_request :: "port_mapping_protocol \<Rightarrow> u16 \<Rightarrow> u16 \<Rightarrow> u32 \<Rightarrow> bytes" where
  "nat_pmp_map_request proto internal external lifetime =
     [NAT_PMP_VERSION, nat_pmp_opcode proto, 0, 0] @ u16_to_be_bytes internal @ u16_to_be_bytes external @ u32_to_be_bytes lifetime"

definition nat_pmp_request_mapping :: "port_mapping_protocol \<Rightarrow> bytes option \<Rightarrow> (nat_pmp_error, port_mapping_result) result" where
  "nat_pmp_request_mapping proto reply =
     (case reply of
        None \<Rightarrow> Inl PmpTimeout
      | Some dat \<Rightarrow>
          let buf = take 16 dat
          in if length buf < 16 then Inl (PmpShortReply (length buf))
             else if buf ! 0 \<noteq> NAT_PMP_VERSION then Inl (PmpVersion (buf ! 0))
             else if buf ! 1 \<noteq> (nat_pmp_opcode proto OR 0x80) then Inl (PmpOpcode (buf ! 1))
             else if u16_from_be (bytes_at 2 4 buf) \<noteq> 0 then Inl (PmpResultCode (u16_from_be (bytes_at 2 4 buf)))
             else
               let internal = u16_from_be (bytes_at 4 6 buf);
                   external = u16_from_be (bytes_at 6 8 buf);
                   lifetime = u32_from_be (bytes_at 8 12 buf)
               in if external = 0 \<or> lifetime = 0 then Inl PmpRefused
                  else Inr \<lparr>pm_internal_port = internal, pm_external_port = external, pm_lifetime_seconds = lifetime\<rparr>)"

definition nat_pmp_delete_mapping :: "port_mapping_protocol \<Rightarrow> u16 \<Rightarrow> (bytes \<Rightarrow> bytes option) \<Rightarrow> (nat_pmp_error, unit) result" where
  "nat_pmp_delete_mapping proto port gateway =
     (case nat_pmp_request_mapping proto (gateway (nat_pmp_map_request proto port port 0)) of
        Inl e \<Rightarrow> Inl e | Inr _ \<Rightarrow> Inr ())"

text \<open>The successful reply of a gateway: the response bit is set in the opcode and the result code is zero.\<close>

definition nat_pmp_map_reply :: "port_mapping_protocol \<Rightarrow> u16 \<Rightarrow> u16 \<Rightarrow> u32 \<Rightarrow> u32 \<Rightarrow> bytes" where
  "nat_pmp_map_reply proto internal external lifetime epoch =
     [NAT_PMP_VERSION, nat_pmp_opcode proto OR 0x80, 0, 0] @ u16_to_be_bytes internal @ u16_to_be_bytes external @
     u32_to_be_bytes lifetime @ u32_to_be_bytes epoch"

lemma u16_from_zero [simp]: "u16_from_be [0, 0] = 0"
  by (simp add: u16_from_be_def)

lemma map_reply_decoded:
  "nat_pmp_request_mapping proto (Some (nat_pmp_map_reply proto internal external lifetime epoch @ junk)) =
     (if external = 0 \<or> lifetime = 0 then Inl PmpRefused
      else Inr \<lparr>pm_internal_port = internal, pm_external_port = external, pm_lifetime_seconds = lifetime\<rparr>)"
proof -
  let ?buf = "take 16 (nat_pmp_map_reply proto internal external lifetime epoch @ junk)"
  have "bytes_at 2 4 ?buf = [0, 0]" "bytes_at 4 6 ?buf = u16_to_be_bytes internal" "bytes_at 6 8 ?buf = u16_to_be_bytes external"
    "bytes_at 8 12 ?buf = u32_to_be_bytes lifetime" "length ?buf = 16" "?buf ! 0 = NAT_PMP_VERSION" "?buf ! 1 = nat_pmp_opcode proto OR 0x80"
    by (simp_all add: nat_pmp_map_reply_def bytes_at_def)
  then show ?thesis unfolding nat_pmp_request_mapping_def option.simps Let_def
    by (simp only: u16_from_zero u16_round_trip u32_round_trip) simp
qed

lemma request_mapping_granted:
  assumes "nat_pmp_request_mapping proto reply = Inr r"
  shows "pm_external_port r \<noteq> 0 \<and> pm_lifetime_seconds r \<noteq> 0"
  using assms by (auto simp: nat_pmp_request_mapping_def Let_def split: option.splits if_splits)

lemma external_address_decoded:
  assumes "length ip = 4"
  shows "NatPmp_external_address (Some ([NAT_PMP_VERSION, 0x80, 0, 0] @ u32_to_be_bytes secs @ ip @ junk)) =
    Inr \<lparr>ea_seconds_since_epoch = secs, ea_ipv4 = ip\<rparr>"
proof -
  let ?buf = "take 12 ([NAT_PMP_VERSION, 0x80, 0, 0] @ u32_to_be_bytes secs @ ip @ junk)"
  have "bytes_at 2 4 ?buf = [0, 0]" "bytes_at 4 8 ?buf = u32_to_be_bytes secs" "bytes_at 8 12 ?buf = ip" "length ?buf = 12"
    "?buf ! 0 = NAT_PMP_VERSION" "?buf ! 1 = 0x80"
    using assms by (simp_all add: bytes_at_def)
  then show ?thesis unfolding NatPmp_external_address_def option.simps Let_def
    by (simp only: u16_from_zero u32_round_trip) simp
qed

section \<open>PCP\<close>

definition PCP_PORT :: u16 where "PCP_PORT = 5350"
definition PCP_VERSION :: u8 where "PCP_VERSION = 2"

record pcp_mapping =
  pcm_internal_port :: u16
  pcm_external_port :: u16
  pcm_lifetime_seconds :: u32

datatype pcp_result =
    PcpSuccess u16 u32 bytes bytes
  | PcpNotAuthorized bytes
  | PcpOther u8

datatype pcp_error = PcpTimeout | PcpShortReply nat | PcpVersion u8 | PcpNotAResponse | PcpNotAuthorizedTwice | PcpResultCode u8

definition build_map_request :: "u8 \<Rightarrow> u32 \<Rightarrow> bytes \<Rightarrow> bytes \<Rightarrow> u16 \<Rightarrow> u16 \<Rightarrow> bytes \<Rightarrow> bytes" where
  "build_map_request proto lifetime client_ipv4 nonce internal external external_ipv4 =
     [push_bit 5 PCP_VERSION OR 0x01, 0, 0, 0] @ u32_to_be_bytes lifetime @
     replicate 10 0 @ [0xff, 0xff] @ client_ipv4 @ nonce @ [proto, 0] @ u16_to_be_bytes internal @
     u16_to_be_bytes external @ [0, 0] @ [0, 0, 0, 0] @ [0, 0, 0xff, 0xff] @ external_ipv4 @ [0, 0, 0, 0]"

definition pcp_external_ip :: "bytes \<Rightarrow> bytes" where
  "pcp_external_ip buf =
     (if length buf \<ge> 60 then
        (if bytes_at 44 48 buf = [0, 0, 0, 0] \<and> bytes_at 48 52 buf = [0, 0, 0xff, 0xff] then bytes_at 52 56 buf
         else if bytes_at 56 60 buf = [0, 0, 0, 0] then bytes_at 52 56 buf
         else [0, 0, 0, 0])
      else [0, 0, 0, 0])"

definition decode_pcp_result :: "bytes \<Rightarrow> (pcp_error, pcp_result) result" where
  "decode_pcp_result buf =
     (if length buf < 24 then Inl (PcpShortReply (length buf))
      else
        let version = drop_bit 5 (buf ! 0);
            r = (drop_bit 4 (buf ! 0)) AND 1
        in if version \<noteq> PCP_VERSION then Inl (PcpVersion version)
           else if r \<noteq> 1 then Inl PcpNotAResponse
           else
             let lifetime = u32_from_be (bytes_at 4 8 buf);
                 nonce = (if length buf \<ge> 36 then bytes_at 24 36 buf else replicate 12 0);
                 assigned_port = (if length buf \<ge> 42 then u16_from_be (bytes_at 40 42 buf) else 0);
                 result_byte = buf ! 3
             in if result_byte = 0 \<and> lifetime > 0 then Inr (PcpSuccess assigned_port lifetime nonce (pcp_external_ip buf))
                else if result_byte = 1 then Inr (PcpNotAuthorized nonce)
                else Inr (PcpOther result_byte))"

fun pcp_protocol :: "port_mapping_protocol \<Rightarrow> u8" where
  "pcp_protocol Udp = 17"
| "pcp_protocol Tcp = 6"

text \<open>
  The gateway is an argument: the reply to the first request and the reply to a second
  request. The second reply is decoded without the length check of the first, which
  \<^verbatim>\<open>decode_pcp_result\<close> makes itself.
\<close>

definition pcp_request_mapping ::
  "port_mapping_protocol \<Rightarrow> u16 \<Rightarrow> u16 \<Rightarrow> u32 \<Rightarrow> bytes \<Rightarrow> (bytes \<Rightarrow> bytes option) \<Rightarrow> (bytes \<Rightarrow> bytes option) \<Rightarrow> (pcp_error, pcp_mapping) result" where
  "pcp_request_mapping proto internal external lifetime client gateway1 gateway2 =
     (let request = (\<lambda>nonce. build_map_request (pcp_protocol proto) lifetime client nonce internal external [0, 0, 0, 0]);
          granted = (\<lambda>port life. \<lparr>pcm_internal_port = internal, pcm_external_port = port, pcm_lifetime_seconds = life\<rparr>)
      in case gateway1 (request (replicate 12 0)) of
          None \<Rightarrow> Inl PcpTimeout
        | Some dat \<Rightarrow>
            let buf = take 1024 dat
            in if length buf < 24 then Inl (PcpShortReply (length buf))
               else case decode_pcp_result buf of
                   Inl e \<Rightarrow> Inl e
                 | Inr (PcpSuccess port life _ _) \<Rightarrow> Inr (granted port life)
                 | Inr (PcpNotAuthorized nonce) \<Rightarrow>
                     (case gateway2 (request nonce) of
                        None \<Rightarrow> Inl PcpTimeout
                      | Some dat2 \<Rightarrow>
                          (case decode_pcp_result (take 1024 dat2) of
                             Inl e \<Rightarrow> Inl e
                           | Inr (PcpSuccess port life _ _) \<Rightarrow> Inr (granted port life)
                           | Inr (PcpNotAuthorized _) \<Rightarrow> Inl PcpNotAuthorizedTwice
                           | Inr (PcpOther code) \<Rightarrow> Inl (PcpResultCode code)))
                 | Inr (PcpOther code) \<Rightarrow> Inl (PcpResultCode code))"

definition pcp_delete_mapping :: "port_mapping_protocol \<Rightarrow> u16 \<Rightarrow> (bytes \<Rightarrow> bytes option) \<Rightarrow> (bytes \<Rightarrow> bytes option) \<Rightarrow> (pcp_error, unit) result" where
  "pcp_delete_mapping proto port gateway1 gateway2 =
     (case pcp_request_mapping proto port port 0 [0, 0, 0, 0] gateway1 gateway2 of Inl e \<Rightarrow> Inl e | Inr _ \<Rightarrow> Inr ())"

lemma build_map_request_length:
  "length client = 4 \<Longrightarrow> length nonce = 12 \<Longrightarrow> length ext = 4 \<Longrightarrow> length (build_map_request p l client nonce i e ext) = 60"
  by (simp add: build_map_request_def)

lemma decode_success: "decode_pcp_result buf = Inr (PcpSuccess port life nonce ip) \<Longrightarrow> life > 0"
  by (auto simp: decode_pcp_result_def Let_def split: if_splits)

lemma pcp_granted: "pcp_request_mapping proto i e l c g1 g2 = Inr m \<Longrightarrow> pcm_lifetime_seconds m > 0"
  by (auto simp: pcp_request_mapping_def Let_def dest: decode_success split: option.splits sum.splits if_splits pcp_result.splits)

lemma first_byte_version: "length buf \<ge> 24 \<Longrightarrow> buf ! 0 = 2 \<Longrightarrow> decode_pcp_result buf = Inl (PcpVersion 0)"
  by (simp add: decode_pcp_result_def PCP_VERSION_def)

lemma own_request_first_byte: "build_map_request p l c n i e ext ! 0 = 0x41"
  by (simp add: build_map_request_def PCP_VERSION_def)

lemma take_bytes_at: "j \<le> n \<Longrightarrow> bytes_at i j (take n xs) = bytes_at i j xs"
  by (simp add: bytes_at_def drop_take min_def)

definition pcp_reply :: "u8 \<Rightarrow> u32 \<Rightarrow> bytes \<Rightarrow> u16 \<Rightarrow> bytes" where
  "pcp_reply code lifetime nonce port =
     [0x51, 0, 0, code] @ u32_to_be_bytes lifetime @ replicate 16 0 @ nonce @ [17, 0, 0, 0] @ u16_to_be_bytes port"

lemma pcp_reply_decoded:
  assumes "length nonce = 12"
  shows "decode_pcp_result (pcp_reply code lifetime nonce port) =
    (if code = 0 \<and> lifetime > 0 then Inr (PcpSuccess port lifetime nonce [0, 0, 0, 0])
     else if code = 1 then Inr (PcpNotAuthorized nonce) else Inr (PcpOther code))"
proof -
  let ?b = "pcp_reply code lifetime nonce port"
  have parts: "bytes_at 4 8 ?b = u32_to_be_bytes lifetime" "bytes_at 24 36 ?b = nonce" "bytes_at 40 42 ?b = u16_to_be_bytes port"
    "length ?b = 42" "?b ! 0 = 0x51" "?b ! 3 = code"
    using assms by (simp_all add: pcp_reply_def bytes_at_def)
  have head: "drop_bit 5 (0x51 :: u8) = PCP_VERSION" "drop_bit 4 (0x51 :: u8) AND 1 = 1"
    by (simp add: PCP_VERSION_def, code_simp)+
  have ip: "pcp_external_ip ?b = [0, 0, 0, 0]" using parts by (simp add: pcp_external_ip_def)
  show ?thesis unfolding decode_pcp_result_def Let_def parts head ip u32_round_trip u16_round_trip by simp
qed

text \<open>
  Deletions are reported as failures. A mapping is deleted by asking for lifetime zero; the gateway confirms
  with lifetime zero, and both clients take the confirmation for a refusal. They report
  success only when the gateway answers that the mapping still has a positive lifetime.
\<close>

theorem confirmed_deletion_fails:
  "nat_pmp_delete_mapping proto port (\<lambda>_. Some (nat_pmp_map_reply proto port ext 0 epoch)) = Inl PmpRefused \<and>
   pcp_delete_mapping proto port (\<lambda>req. Some (pcp_reply 0 0 (bytes_at 24 36 req) ext)) g2 = Inl (PcpResultCode 0) \<and>
   nat_pmp_delete_mapping proto port (\<lambda>_. Some (nat_pmp_map_reply proto port ext life epoch)) =
     (if ext \<noteq> 0 \<and> life \<noteq> 0 then Inr () else Inl PmpRefused)"
proof -
  let ?nonce = "\<lambda>n. bytes_at 24 36 (build_map_request (pcp_protocol proto) 0 [0, 0, 0, 0] n port port [0, 0, 0, 0])"
  have n: "length (?nonce (replicate 12 0)) = 12" by (simp add: build_map_request_length)
  have len: "length (pcp_reply 0 0 (?nonce (replicate 12 0)) ext) = 42" using n by (simp add: pcp_reply_def)
  then have "take 1024 (pcp_reply 0 0 (?nonce (replicate 12 0)) ext) = pcp_reply 0 0 (?nonce (replicate 12 0)) ext" by simp
  with len pcp_reply_decoded [OF n, of 0 0 ext]
  have "pcp_delete_mapping proto port (\<lambda>req. Some (pcp_reply 0 0 (bytes_at 24 36 req) ext)) g2 = Inl (PcpResultCode 0)"
    by (simp add: pcp_delete_mapping_def pcp_request_mapping_def)
  then show ?thesis using map_reply_decoded [where junk = "[]"] by (simp add: nat_pmp_delete_mapping_def)
qed

text \<open>
  The nonce protects nothing. A success is accepted whatever nonce it carries and whatever was sent, so an
  answer made without seeing the request sets the external port.
\<close>

theorem pcp_nonce_unchecked:
  assumes "length nonce = 12" and "life > 0"
  shows "pcp_request_mapping proto internal external lifetime client (\<lambda>_. Some (pcp_reply 0 life nonce port)) g2 =
    Inr \<lparr>pcm_internal_port = internal, pcm_external_port = port, pcm_lifetime_seconds = life\<rparr>"
proof -
  have len: "length (pcp_reply 0 life nonce port) = 42" using assms(1) by (simp add: pcp_reply_def)
  then have "take 1024 (pcp_reply 0 life nonce port) = pcp_reply 0 life nonce port" by simp
  with len pcp_reply_decoded [OF assms(1), of 0 life port] assms(2) show ?thesis by (simp add: pcp_request_mapping_def)
qed

theorem pcp_nonce_unchecked_witness:
  "pcp_request_mapping Udp 4000 4000 3600 [10, 0, 0, 2] (\<lambda>_. Some (pcp_reply 0 60 (replicate 12 9) 666)) (\<lambda>_. None) =
    Inr \<lparr>pcm_internal_port = 4000, pcm_external_port = 666, pcm_lifetime_seconds = 60\<rparr>"
  by (rule pcp_nonce_unchecked) simp_all

end
