(* ===== verification/Chunked.thy ===== *)
theory Chunked
  imports Bao_Tree
begin

text \<open>
  Byte ranges (\<^verbatim>\<open>crates/a3net-types/src/range.rs\<close>) and the chunk layer
  (\<^verbatim>\<open>crates/a3net-blobstore/src/chunked.rs\<close>): HTTP range headers, the arithmetic from byte
  ranges to 16 KiB chunks at the widths of the code, the chunk writer over any
  \<^verbatim>\<open>std::io::Write\<close> and the verifying chunk reader over any \<^verbatim>\<open>std::io::Read\<close>. The generic
  sink of the writer is the locale \<open>byte_sink\<close>, met by \<^verbatim>\<open>Vec<u8>\<close> and by \<^verbatim>\<open>BufWriter\<close> over
  any sink. A running hasher is the bytes it was fed. Integer operations that overflow in the
  code wrap, as in a release build.
\<close>

section \<open>Byte ranges\<close>

record byte_range =
  br_start :: u64
  br_end :: u64

datatype range_error =
    RangeOrder u64 u64
  | RangeHeader string
  | RangeStart u64 u64

definition ByteRange_new :: "u64 \<Rightarrow> u64 \<Rightarrow> (range_error, byte_range) result" where
  "ByteRange_new s e = (if s \<ge> e then Inl (RangeOrder s e) else Inr \<lparr>br_start = s, br_end = e\<rparr>)"

definition ByteRange_len :: "byte_range \<Rightarrow> u64" where
  "ByteRange_len r = br_end r - br_start r"

definition ByteRange_is_empty :: "byte_range \<Rightarrow> bool" where
  "ByteRange_is_empty r = (br_start r \<ge> br_end r)"

definition ByteRange_whole :: "u64 \<Rightarrow> byte_range" where
  "ByteRange_whole sz = \<lparr>br_start = 0, br_end = sz\<rparr>"

datatype range_spec = All | Single byte_range | Multi "byte_range list"

definition RangeSpec_single :: "u64 \<Rightarrow> u64 \<Rightarrow> (range_error, range_spec) result" where
  "RangeSpec_single s e = (case ByteRange_new s e of Inl er \<Rightarrow> Inl er | Inr r \<Rightarrow> Inr (Single r))"

definition http_part :: "byte_range \<Rightarrow> string" where
  "http_part r = show_nat (unat (br_start r)) @ ''-'' @ show_nat (unat (sat_sub64 (br_end r) 1))"

fun to_http_header :: "range_spec \<Rightarrow> string option" where
  "to_http_header All = None"
| "to_http_header (Single r) = Some (''bytes='' @ http_part r)"
| "to_http_header (Multi rs) = Some (''bytes='' @ str_join CHR '','' (map http_part rs))"

definition parse_u64 :: "string \<Rightarrow> u64 option" where
  "parse_u64 s = map_option of_nat (parse_uint (2 ^ 64 - 1) s)"

definition parse_http_part :: "string \<Rightarrow> u64 \<Rightarrow> string \<Rightarrow> (range_error, byte_range) result" where
  "parse_http_part header total_size part0 =
     (let part = str_trim part0
      in if part = [] then Inl (RangeHeader header)
         else case split_once CHR ''-'' part of
           None \<Rightarrow> Inl (RangeHeader header)
         | Some (start_s, end_s) \<Rightarrow>
             if start_s = []
             then (case parse_u64 end_s of
                     None \<Rightarrow> Inl (RangeHeader header)
                   | Some suffix \<Rightarrow> ByteRange_new (sat_sub64 total_size suffix) total_size)
             else (case parse_u64 start_s of
                     None \<Rightarrow> Inl (RangeHeader header)
                   | Some st \<Rightarrow>
                       if st \<ge> total_size then Inl (RangeStart st total_size)
                       else case (if end_s = [] then Some (sat_sub64 total_size 1) else parse_u64 end_s) of
                              None \<Rightarrow> Inl (RangeHeader header)
                            | Some end_incl \<Rightarrow> ByteRange_new st (min (sat_add64 end_incl 1) total_size)))"

definition from_http_header :: "string \<Rightarrow> u64 \<Rightarrow> (range_error, range_spec) result" where
  "from_http_header header total_size =
     (if take 6 header \<noteq> ''bytes='' then Inl (RangeHeader header)
      else let body = drop 6 header
           in if body = [] then Inl (RangeHeader header)
              else case fold_result (\<lambda>part ranges.
                       case parse_http_part header total_size part of
                         Inl e \<Rightarrow> Inl e | Inr r \<Rightarrow> Inr (ranges @ [r])) (split_on CHR '','' body) [] of
                     Inl e \<Rightarrow> Inl e
                   | Inr ranges \<Rightarrow> Inr (case ranges of [r] \<Rightarrow> Single r | _ \<Rightarrow> Multi ranges))"

section \<open>From byte ranges to chunks\<close>

datatype chunk_error =
    Io
  | HashMismatch content_hash content_hash
  | ChunkOutOfRange u32 u32
  | RangeOutOfBounds u64 u64 u64
  | InvalidRange
  | TooLarge u64 u64

definition CHUNK64 :: u64 where
  "CHUNK64 = of_nat CHUNK_SIZE"

definition chunk_count_for :: "u64 \<Rightarrow> u32" where
  "chunk_count_for sz = (if sz = 0 then 0 else ucast ((sz - 1) div CHUNK64 + 1))"

definition chunks_for_range ::
  "u64 \<Rightarrow> byte_range \<Rightarrow> (chunk_error, u32 \<times> u32 \<times> nat \<times> nat) result" where
  "chunks_for_range total_size r =
     (let chunks = chunk_count_for total_size
      in if br_end r > total_size
         then Inl (RangeOutOfBounds (br_start r) (br_end r) total_size)
         else let start_chunk = ucast (br_start r div CHUNK64) :: u32;
                  end_chunk_exclusive =
                    (if br_end r = 0 then start_chunk
                     else ucast ((br_end r - 1) div CHUNK64) + 1)
              in if end_chunk_exclusive > chunks \<and> chunks > 0
                 then Inl (ChunkOutOfRange (end_chunk_exclusive - 1) chunks)
                 else let first_offset = unat (br_start r mod CHUNK64);
                          total_len = sat_sub64 (br_end r) (br_start r);
                          last_len = (if end_chunk_exclusive = start_chunk + 1 then unat total_len
                                      else unat ((br_end r - 1) mod CHUNK64) + 1)
                      in Inr (start_chunk, end_chunk_exclusive, first_offset, last_len))"

definition resolve_range :: "u64 \<Rightarrow> range_spec \<Rightarrow> (chunk_error, byte_range list) result" where
  "resolve_range total_size spec =
     (case spec of
        All \<Rightarrow>
          if total_size = 0 then Inr []
          else (case ByteRange_new 0 total_size of Inl e \<Rightarrow> Inl InvalidRange | Inr r \<Rightarrow> Inr [r])
      | Single r \<Rightarrow>
          if total_size = 0 then Inl InvalidRange
          else (case chunks_for_range total_size r of Inl e \<Rightarrow> Inl e | Inr _ \<Rightarrow> Inr [r])
      | Multi rs \<Rightarrow>
          if total_size = 0 then Inl InvalidRange
          else (case fold_result (\<lambda>r _. case chunks_for_range total_size r of Inl e \<Rightarrow> Inl e | Inr _ \<Rightarrow> Inr ()) rs () of
                  Inl e \<Rightarrow> Inl e | Inr _ \<Rightarrow> Inr rs))"

section \<open>Chunk writer\<close>

record 'w chunk_writer =
  cw_inner :: 'w
  cw_index :: u32
  cw_bytes_total :: u64
  cw_chunk_buf :: bytes
  cw_hashed :: bytes

type_synonym 'w sink_write = "bytes \<Rightarrow> 'w \<Rightarrow> bool \<times> 'w"
type_synonym 'w sink_flush = "'w \<Rightarrow> bool \<times> 'w"

definition ChunkWriter_new :: "'w \<Rightarrow> 'w chunk_writer" where
  "ChunkWriter_new inner =
     \<lparr>cw_inner = inner, cw_index = 0, cw_bytes_total = 0, cw_chunk_buf = [], cw_hashed = []\<rparr>"

definition emit_chunk :: "'w sink_write \<Rightarrow> 'w chunk_writer \<Rightarrow> bool \<times> 'w chunk_writer" where
  "emit_chunk wr cw =
     (let b = cw_chunk_buf cw;
          (ok, inner) = wr b (cw_inner cw);
          cw' = cw\<lparr>cw_inner := inner, cw_chunk_buf := [], cw_hashed := cw_hashed cw @ b\<rparr>
      in (ok, if ok then cw'\<lparr>cw_index := cw_index cw + 1\<rparr> else cw'))"

partial_function (option) cw_loop ::
  "'w sink_write \<Rightarrow> nat \<Rightarrow> bytes \<Rightarrow> nat \<Rightarrow> 'w chunk_writer \<Rightarrow> ((chunk_error, nat) result \<times> 'w chunk_writer) option" where
  "cw_loop wr chunk_size buf written cw =
     (if buf = [] then Some (Inr written, cw)
      else let space = chunk_size - length (cw_chunk_buf cw);
               n = min space (length buf);
               cw1 = cw\<lparr>cw_chunk_buf := cw_chunk_buf cw @ take n buf\<rparr>
           in if length (cw_chunk_buf cw1) = chunk_size
              then (let (ok, cw2) = emit_chunk wr cw1
                    in if ok then cw_loop wr chunk_size (drop n buf) (written + n) cw2
                       else Some (Inl Io, cw2))
              else cw_loop wr chunk_size (drop n buf) (written + n) cw1)"

definition ChunkWriter_write ::
  "'w sink_write \<Rightarrow> bytes \<Rightarrow> 'w chunk_writer \<Rightarrow> ((chunk_error, nat) result \<times> 'w chunk_writer) option" where
  "ChunkWriter_write wr buf cw =
     (case cw_loop wr CHUNK_SIZE buf 0 cw of
        None \<Rightarrow> None
      | Some (Inl e, cw') \<Rightarrow> Some (Inl e, cw')
      | Some (Inr n, cw') \<Rightarrow> Some (Inr n, cw'\<lparr>cw_bytes_total := cw_bytes_total cw' + of_nat n\<rparr>))"

definition ChunkWriter_finish ::
  "hash_fun \<Rightarrow> 'w sink_write \<Rightarrow> 'w sink_flush \<Rightarrow> 'w chunk_writer \<Rightarrow>
    (chunk_error, content_hash \<times> u64) result \<times> 'w" where
  "ChunkWriter_finish H wr fl cw =
     (let (ok, cw1) = (if cw_chunk_buf cw \<noteq> [] then emit_chunk wr cw else (True, cw))
      in if \<not> ok then (Inl Io, cw_inner cw1)
         else let (flushed, inner) = fl (cw_inner cw1)
              in if \<not> flushed then (Inl Io, inner)
                 else (Inr (H (cw_hashed cw1), cw_bytes_total cw1), inner))"

text \<open>The standard library's sinks: \<^verbatim>\<open>Vec<u8>\<close>, and \<^verbatim>\<open>BufWriter\<close> over a sink.\<close>

definition vec_write_all :: "bytes sink_write" where
  "vec_write_all b v = (True, v @ b)"

definition vec_flush :: "bytes sink_flush" where
  "vec_flush v = (True, v)"

record 'w buf_writer =
  bw_inner :: 'w
  bw_buf :: bytes
  bw_cap :: nat

definition DEFAULT_CHUNK_WRITER_BUFFER :: nat where
  "DEFAULT_CHUNK_WRITER_BUFFER = 64 * 1024"

definition BufWriter_with_capacity :: "nat \<Rightarrow> 'w \<Rightarrow> 'w buf_writer" where
  "BufWriter_with_capacity cap inner = \<lparr>bw_inner = inner, bw_buf = [], bw_cap = cap\<rparr>"

definition bw_flush_buf :: "'w sink_write \<Rightarrow> 'w buf_writer \<Rightarrow> bool \<times> 'w buf_writer" where
  "bw_flush_buf wr w =
     (let (ok, inner) = wr (bw_buf w) (bw_inner w)
      in (ok, if ok then w\<lparr>bw_inner := inner, bw_buf := []\<rparr> else w\<lparr>bw_inner := inner\<rparr>))"

definition bw_write_all :: "'w sink_write \<Rightarrow> 'w buf_writer sink_write" where
  "bw_write_all wr b w =
     (let (ok, w1) = (if length b > bw_cap w - length (bw_buf w) then bw_flush_buf wr w else (True, w))
      in if \<not> ok then (False, w1)
         else if length b \<ge> bw_cap w1
         then (let (ok2, inner) = wr b (bw_inner w1) in (ok2, w1\<lparr>bw_inner := inner\<rparr>))
         else (True, w1\<lparr>bw_buf := bw_buf w1 @ b\<rparr>))"

definition bw_flush :: "'w sink_write \<Rightarrow> 'w sink_flush \<Rightarrow> 'w buf_writer sink_flush" where
  "bw_flush wr fl w =
     (let (ok, w1) = bw_flush_buf wr w
      in if \<not> ok then (False, w1)
         else let (ok2, inner) = fl (bw_inner w1) in (ok2, w1\<lparr>bw_inner := inner\<rparr>))"

definition ChunkWriter_new_buffered_with :: "nat \<Rightarrow> 'w \<Rightarrow> 'w buf_writer chunk_writer" where
  "ChunkWriter_new_buffered_with buf_size inner = ChunkWriter_new (BufWriter_with_capacity buf_size inner)"

definition ChunkWriter_new_buffered :: "'w \<Rightarrow> 'w buf_writer chunk_writer" where
  "ChunkWriter_new_buffered inner = ChunkWriter_new_buffered_with DEFAULT_CHUNK_WRITER_BUFFER inner"

section \<open>Chunk reader\<close>

text \<open>
  \<open>cr_chunk\<close> is the filled part of the fixed buffer. A source returns at most the requested
  number of bytes, none at the end of its input, or an error (\<open>None\<close>).
\<close>

record 'r chunk_reader =
  cr_inner :: 'r
  cr_hashed :: bytes
  cr_chunk :: bytes
  cr_pos :: nat
  cr_bytes_left :: nat
  cr_expected :: "content_hash option"

type_synonym 'r source_read = "nat \<Rightarrow> 'r \<Rightarrow> bytes option \<times> 'r"

definition ChunkReader_new :: "'r \<Rightarrow> nat \<Rightarrow> content_hash option \<Rightarrow> 'r chunk_reader" where
  "ChunkReader_new inner total_bytes expected =
     \<lparr>cr_inner = inner, cr_hashed = [], cr_chunk = [], cr_pos = 0, cr_bytes_left = total_bytes,
      cr_expected = expected\<rparr>"

definition ChunkReader_verify :: "hash_fun \<Rightarrow> 'r chunk_reader \<Rightarrow> (chunk_error, unit) result \<times> 'r chunk_reader" where
  "ChunkReader_verify H cr =
     (let actual = H (cr_hashed cr)
      in case cr_expected cr of
           Some e \<Rightarrow> if e \<noteq> actual then (Inl (HashMismatch e actual), cr) else (Inr (), cr\<lparr>cr_hashed := []\<rparr>)
         | None \<Rightarrow> (Inr (), cr\<lparr>cr_hashed := []\<rparr>))"

definition deliver :: "nat \<Rightarrow> 'r chunk_reader \<Rightarrow> (chunk_error, bytes) result \<times> 'r chunk_reader" where
  "deliver buf_len cr =
     (let avail = length (cr_chunk cr) - cr_pos cr;
          n = min avail buf_len
      in (Inr (take n (drop (cr_pos cr) (cr_chunk cr))),
          cr\<lparr>cr_pos := cr_pos cr + n, cr_bytes_left := cr_bytes_left cr - n\<rparr>))"

definition ChunkReader_read ::
  "'r source_read \<Rightarrow> nat \<Rightarrow> 'r chunk_reader \<Rightarrow> (chunk_error, bytes) result \<times> 'r chunk_reader" where
  "ChunkReader_read rd buf_len cr =
     (if cr_bytes_left cr = 0 then (Inr [], cr)
      else if cr_pos cr \<ge> length (cr_chunk cr)
      then (case rd (min (cr_bytes_left cr) CHUNK_SIZE) (cr_inner cr) of
              (None, inner) \<Rightarrow> (Inl Io, cr\<lparr>cr_inner := inner\<rparr>)
            | (Some b, inner) \<Rightarrow>
                if b = [] then (Inr [], cr\<lparr>cr_inner := inner, cr_bytes_left := 0\<rparr>)
                else deliver buf_len (cr\<lparr>cr_inner := inner, cr_hashed := cr_hashed cr @ b,
                       cr_chunk := b, cr_pos := 0\<rparr>))
      else deliver buf_len cr)"


section \<open>Byte ranges: lemmas\<close>

lemma CHUNK64_unat: "unat CHUNK64 = CHUNK_SIZE"
  by (simp add: CHUNK64_def CHUNK_SIZE_def)

definition range_valid :: "u64 \<Rightarrow> byte_range \<Rightarrow> bool" where
  "range_valid total_size r = (br_start r < br_end r \<and> br_end r \<le> total_size)"

lemma ByteRange_new_ok: "ByteRange_new s e = Inr r \<Longrightarrow> br_start r < br_end r \<and> br_end r = e"
  by (auto simp: ByteRange_new_def split: if_splits)

lemma parse_http_part_valid: "parse_http_part h n p = Inr r \<Longrightarrow> range_valid n r"
  by (auto simp: parse_http_part_def range_valid_def Let_def
      split: if_splits option.splits prod.splits dest!: ByteRange_new_ok)

lemma parse_u64_show: "parse_u64 (show_nat (unat (w :: u64))) = Some w"
  using unat_bound [of w] by (simp add: parse_u64_def parse_uint_show_nat)

lemma http_part_chars: "c \<in> set (http_part r) \<Longrightarrow> c \<noteq> CHR '','' \<and> \<not> is_space c"
proof -
  assume "c \<in> set (http_part r)"
  then consider "c = CHR ''-''" | n where "c \<in> set (show_nat n)" by (auto simp: http_part_def)
  then show ?thesis using show_nat_clean by cases (auto simp: is_space_def)
qed

lemma split_once_http_part:
  "split_once CHR ''-'' (http_part r) =
     Some (show_nat (unat (br_start r)), show_nat (unat (sat_sub64 (br_end r) 1)))"
proof -
  have "CHR ''-'' \<notin> set (show_nat (unat (br_start r)))" using show_nat_clean(4) by blast
  then show ?thesis by (simp add: http_part_def split_once_append)
qed

lemma sat_pred_succ: "0 < (e :: u64) \<Longrightarrow> sat_add64 (sat_sub64 e 1) 1 = e"
  using unat_bound [of e]
  by (auto simp: word_unat_eq_iff unat_sat_add64 unat_sat_sub64 word_less_nat_alt)

lemma parse_http_part_of:
  assumes "range_valid n r"
  shows "parse_http_part h n (http_part r) = Inr r"
proof -
  have trim: "str_trim (http_part r) = http_part r" using http_part_chars by (blast intro: str_trim_id)
  have ne: "http_part r \<noteq> []" by (simp add: http_part_def)
  have pos: "0 < br_end r" using assms by (auto simp: range_valid_def word_less_nat_alt)
  have start: "\<not> n \<le> br_start r" using assms by (auto simp: range_valid_def)
  show ?thesis
    using assms pos start ne
    by (simp add: parse_http_part_def trim split_once_http_part parse_u64_show sat_pred_succ
        range_valid_def ByteRange_new_def min_absorb1 not_le)
qed

lemma parse_parts:
  "list_all (range_valid n) rs \<Longrightarrow>
    fold_result (\<lambda>part ranges. case parse_http_part h n part of Inl e \<Rightarrow> Inl e | Inr r \<Rightarrow> Inr (ranges @ [r]))
      (map http_part rs) acc = Inr (acc @ rs)"
  by (induction rs arbitrary: acc) (auto simp: parse_http_part_of)

lemma from_http_header_join:
  assumes "rs \<noteq> []" and "list_all (range_valid n) rs"
  shows "from_http_header (''bytes='' @ str_join CHR '','' (map http_part rs)) n =
    Inr (case rs of [r] \<Rightarrow> Single r | _ \<Rightarrow> Multi rs)"
proof -
  have ne: "str_join CHR '','' (map http_part rs) \<noteq> []"
    using assms(1) by (cases rs rule: remdups_adj.cases) (auto simp: http_part_def)
  have "split_on CHR '','' (str_join CHR '','' (map http_part rs)) = map http_part rs"
    using assms(1) http_part_chars by (intro split_on_join) auto
  then show ?thesis using ne parse_parts [OF assms(2)] by (simp add: from_http_header_def)
qed

lemma from_http_header_valid:
  assumes "from_http_header h n = Inr spec"
  shows "\<exists>r rs. list_all (range_valid n) (r # rs) \<and> spec = (if rs = [] then Single r else Multi (r # rs))"
proof -
  let ?f = "\<lambda>part ranges. case parse_http_part h n part of Inl e \<Rightarrow> Inl e | Inr r \<Rightarrow> Inr (ranges @ [r])"
  have inv: "list_all (range_valid n) rs' \<and> length rs' = length ps + length acc"
    if "fold_result ?f ps acc = Inr rs'" "list_all (range_valid n) acc" for ps acc rs'
    using that by (induction ps arbitrary: acc) (auto split: sum.splits dest: parse_http_part_valid)
  obtain rs where rs: "fold_result ?f (split_on CHR '','' (drop 6 h)) [] = Inr rs"
    and spec: "spec = (case rs of [r] \<Rightarrow> Single r | _ \<Rightarrow> Multi rs)"
    using assms by (auto simp: from_http_header_def Let_def split: if_splits sum.splits)
  have "rs \<noteq> []" using inv [OF rs] by auto
  then obtain r rs' where "rs = r # rs'" by (cases rs) auto
  with inv [OF rs] spec show ?thesis by (intro exI [of _ r] exI [of _ rs']) (auto split: list.splits)
qed


section \<open>Chunk arithmetic\<close>

lemma ucast_div_chunk:
  assumes "unat (w :: u64) < 2 ^ 32 * CHUNK_SIZE"
  shows "unat (ucast (w div CHUNK64) :: u32) = unat w div CHUNK_SIZE"
proof -
  have "unat w div CHUNK_SIZE < 2 ^ 32"
    using assms by (simp add: less_mult_imp_div_less)
  then show ?thesis by (simp add: unsigned_ucast_eq unat_div_distrib CHUNK64_unat take_bit_nat_eq_self)
qed

lemma unat_pred: "(w :: u64) \<noteq> 0 \<Longrightarrow> unat (w - 1) = unat w - 1"
  by (simp add: unat_minus_one)

lemma chunk_count_nat:
  assumes "unat n \<le> (2 ^ 32 - 1) * CHUNK_SIZE"
  shows "unat (chunk_count_for n) = (unat n + CHUNK_SIZE - 1) div CHUNK_SIZE"
proof (cases "n = 0")
  case True
  then show ?thesis by (simp add: chunk_count_for_def CHUNK_SIZE_def)
next
  case False
  let ?q = "(unat n - 1) div CHUNK_SIZE"
  have pos: "0 < unat n" using False by (simp add: unat_gt_0)
  have q: "?q < 2 ^ 32 - 1"
    using assms pos by (simp add: CHUNK_SIZE_def)
  have "unat ((n - 1) div CHUNK64) = ?q" using False by (simp add: unat_div_distrib CHUNK64_unat unat_pred)
  then have "unat ((n - 1) div CHUNK64 + 1) = ?q + 1" using q by (simp add: unat_plus_one)
  then have "unat (chunk_count_for n) = ?q + 1"
    using False q by (simp add: chunk_count_for_def unsigned_ucast_eq take_bit_nat_eq_self)
  also have "\<dots> = (unat n + CHUNK_SIZE - 1) div CHUNK_SIZE"
    using pos by (simp add: CHUNK_SIZE_def)
  finally show ?thesis .
qed


lemma chunks_for_range_nat:
  fixes r n
  defines "s \<equiv> unat (br_start r)" and "e \<equiv> unat (br_end r)"
  assumes "range_valid n r" and "unat n \<le> (2 ^ 32 - 1) * CHUNK_SIZE"
  shows "\<exists>a b. chunks_for_range n r = Inr (a, b, s mod CHUNK_SIZE,
      if (e - 1) div CHUNK_SIZE = s div CHUNK_SIZE then e - s else (e - 1) mod CHUNK_SIZE + 1) \<and>
    unat a = s div CHUNK_SIZE \<and> unat b = (e - 1) div CHUNK_SIZE + 1"
proof -
  have se: "s < e" "e \<le> unat n"
    using assms(3) by (simp_all add: range_valid_def s_def e_def word_less_nat_alt word_le_nat_alt)
  then have e0: "br_end r \<noteq> 0" by (auto simp: e_def)
  have bound: "unat n < 2 ^ 32 * CHUNK_SIZE" using assms(4) by (simp add: CHUNK_SIZE_def)
  define a where "a = (ucast (br_start r div CHUNK64) :: u32)"
  define b where "b = (ucast ((br_end r - 1) div CHUNK64) :: u32) + 1"
  have a: "unat a = s div CHUNK_SIZE"
    using se bound by (simp add: a_def s_def ucast_div_chunk)
  have q: "(e - 1) div CHUNK_SIZE < 2 ^ 32 - 1" using se assms(4) by (simp add: CHUNK_SIZE_def)
  have "unat (ucast ((br_end r - 1) div CHUNK64) :: u32) = (e - 1) div CHUNK_SIZE"
    using se bound by (subst ucast_div_chunk) (simp_all add: unat_pred [OF e0] e_def)
  then have b: "unat b = (e - 1) div CHUNK_SIZE + 1"
    unfolding b_def using q by (subst unat_plus_one) simp_all
  have "(e - 1) div CHUNK_SIZE + 1 \<le> (unat n + CHUNK_SIZE - 1) div CHUNK_SIZE"
    using se by (simp add: CHUNK_SIZE_def)
  then have "\<not> chunk_count_for n < b"
    by (simp add: word_less_nat_alt b chunk_count_nat [OF assms(4)])
  moreover have "b = a + 1 \<longleftrightarrow> (e - 1) div CHUNK_SIZE = s div CHUNK_SIZE"
  proof -
    have "s div CHUNK_SIZE \<le> (e - 1) div CHUNK_SIZE" using se(1) by (intro div_le_mono) simp
    then have "unat (a + 1) = s div CHUNK_SIZE + 1" using q a by (subst unat_plus_one) simp_all
    then show ?thesis by (simp add: word_unat_eq_iff b)
  qed
  ultimately have "chunks_for_range n r = Inr (a, b, s mod CHUNK_SIZE,
      if (e - 1) div CHUNK_SIZE = s div CHUNK_SIZE then e - s else (e - 1) mod CHUNK_SIZE + 1)"
    using se e0 assms(3)
    by (simp add: chunks_for_range_def Let_def a_def [symmetric] b_def [symmetric] range_valid_def not_less
        unat_mod_distrib CHUNK64_unat unat_sat_sub64 s_def e_def unat_pred [OF e0])
  with a b show ?thesis by blast
qed

text \<open>
  Two limits of the arithmetic: the chunk count is cut to 32 bits, so a blob of 64 TiB counts
  no chunks; and the length in the last chunk of an empty range at 0 is computed from an
  underflow (an overflow panic in a debug build).
\<close>

lemma chunk_count_wraps: "chunk_count_for (2 ^ 46) = 0"
  by (simp add: chunk_count_for_def CHUNK64_def CHUNK_SIZE_def)

lemma empty_range_last_len:
  assumes "0 < n"
  shows "chunks_for_range n (ByteRange_whole 0) = Inr (0, 0, 0, CHUNK_SIZE)"
proof -
  have "unat ((- 1 :: u64) mod CHUNK64) = CHUNK_SIZE - 1"
    by (simp add: unat_mod_distrib CHUNK64_unat unsigned_minus_1_eq_mask mask_eq_exp_minus_1 CHUNK_SIZE_def)
  then show ?thesis
    using assms by (simp add: chunks_for_range_def ByteRange_whole_def Let_def CHUNK_SIZE_def)
qed

text \<open>Reassembling a byte range from whole chunks.\<close>

lemma concat_window:
  "a \<le> b \<Longrightarrow> b * n \<le> length xs \<Longrightarrow>
    concat (map (\<lambda>i. take n (drop (i * n) xs)) [a..<b]) = take ((b - a) * n) (drop (a * n) xs)"
proof (induction b)
  case (Suc b)
  show ?case
  proof (cases "a = Suc b")
    case False
    then have "concat (map (\<lambda>i. take n (drop (i * n) xs)) [a..<Suc b]) =
        take ((b - a) * n) (drop (a * n) xs) @ take n (drop (b * n) xs)"
      using Suc by simp
    also have "drop (b * n) xs = drop ((b - a) * n) (drop (a * n) xs)"
      using False Suc.prems(1) by (simp add: add_mult_distrib [symmetric])
    also have "take ((b - a) * n) (drop (a * n) xs) @ take n (drop ((b - a) * n) (drop (a * n) xs)) =
        take ((b - a) * n + n) (drop (a * n) xs)"
      by (rule take_add [symmetric])
    finally show ?thesis using False Suc.prems(1) by (simp add: Suc_diff_le add.commute)
  qed simp
qed simp

lemma slice_one_chunk:
  assumes "0 < n" and "s < e" and "(e - 1) div n = s div n"
  shows "take (e - s) (drop (s mod n) (take n (drop (s div n * n) xs))) = take (e - s) (drop s xs)"
proof -
  have "e - 1 < s div n * n + n"
    using dividend_less_div_times [OF assms(1), of "e - 1"] unfolding assms(3) by linarith
  then have "e - s \<le> n - s mod n" using assms(2) by (simp add: minus_mod_eq_div_mult [symmetric])
  then show ?thesis by (simp add: drop_take min_absorb1)
qed

lemma slice_chunks:
  assumes "0 < n" and "s < e" and "e \<le> length xs" and "s div n < (e - 1) div n"
  shows "drop (s mod n) (take n (drop (s div n * n) xs)) @
      concat (map (\<lambda>i. take n (drop (i * n) xs)) [Suc (s div n)..<(e - 1) div n]) @
      take ((e - 1) mod n + 1) (take n (drop ((e - 1) div n * n) xs)) = take (e - s) (drop s xs)"
proof -
  let ?a = "s div n" and ?b = "(e - 1) div n" and ?c = "\<lambda>i. take n (drop (i * n) xs)"
  have bn: "?b * n \<le> e - 1" by simp
  have k: "(e - 1) mod n + 1 \<le> n" using assms(1) by (simp add: Suc_leI)
  have full: "length (?c ?a) = n"
  proof -
    have "Suc ?a * n \<le> ?b * n" using assms(4) by (intro mult_le_mono1) simp
    then have "n + ?a * n \<le> ?b * n" by simp
    with bn have "n + ?a * n \<le> e - 1" by (rule order_trans [rotated])
    then have "n \<le> length xs - ?a * n" using assms(2,3) by linarith
    then show ?thesis by simp
  qed
  have m: "s mod n \<le> n" using assms(1) by (simp add: less_imp_le)
  have "drop (s mod n) (?c ?a) @ concat (map ?c [Suc ?a..<?b]) = drop (s mod n) (concat (map ?c [?a..<?b]))"
    using assms(4) full m by (simp add: upt_conv_Cons)
  also have "\<dots> = drop (s mod n) (take ((?b - ?a) * n) (drop (?a * n) xs))"
    using assms(4) order_trans [OF bn, of "length xs"] assms(3) by (subst concat_window) simp_all
  also have "\<dots> = take ((?b - ?a) * n - s mod n) (drop s xs)" by (simp add: drop_take)
  finally have front: "drop (s mod n) (?c ?a) @ concat (map ?c [Suc ?a..<?b]) =
      take ((?b - ?a) * n - s mod n) (drop s xs)" .
  have le: "s \<le> ?b * n"
  proof -
    have "s < Suc ?a * n" using assms(1) by (simp add: dividend_less_div_times add.commute)
    also have "\<dots> \<le> ?b * n" using assms(4) by (intro mult_le_mono1) simp
    finally show ?thesis by simp
  qed
  have m1: "(?b - ?a) * n - s mod n = ?b * n - s"
    by (simp only: diff_mult_distrib diff_diff_eq div_mult_mod_eq)
  have "drop (?b * n) xs = drop (?b * n - s) (drop s xs)" using le by simp
  then have tail: "take ((e - 1) mod n + 1) (?c ?b) = take ((e - 1) mod n + 1) (drop (?b * n - s) (drop s xs))"
    using k by (simp add: min_absorb1)
  have total: "(?b * n - s) + ((e - 1) mod n + 1) = e - s"
    using le assms(2) div_mult_mod_eq [of "e - 1" n] by linarith
  show ?thesis
    unfolding append_assoc [symmetric] front m1 tail take_add [symmetric] total ..
qed


section \<open>Sinks\<close>

text \<open>Feeding a writer a sequence of pieces, up to the first error.\<close>

fun cw_write_pieces ::
  "'w sink_write \<Rightarrow> bytes list \<Rightarrow> 'w chunk_writer \<Rightarrow> ((chunk_error, unit) result \<times> 'w chunk_writer) option" where
  "cw_write_pieces wr [] cw = Some (Inr (), cw)"
| "cw_write_pieces wr (p # ps) cw =
     (case ChunkWriter_write wr p cw of
        None \<Rightarrow> None
      | Some (Inl e, cw') \<Rightarrow> Some (Inl e, cw')
      | Some (Inr n, cw') \<Rightarrow> cw_write_pieces wr ps cw')"

text \<open>
  What the chunk writer relies on: a successful write appends to the accepted bytes, a
  successful flush makes the accepted bytes the stored ones. A reliable sink never fails.
\<close>

locale byte_sink =
  fixes write_all :: "'w sink_write" and flush :: "'w sink_flush"
    and accepted :: "'w \<Rightarrow> bytes" and stored :: "'w \<Rightarrow> bytes"
  assumes write_all_ok: "write_all b w = (True, w') \<Longrightarrow> accepted w' = accepted w @ b"
    and flush_ok: "flush w = (True, w') \<Longrightarrow> stored w' = accepted w \<and> accepted w' = accepted w"
begin

definition writer_inv :: "nat \<Rightarrow> bytes \<Rightarrow> bytes \<Rightarrow> 'w chunk_writer \<Rightarrow> bool" where
  "writer_inv n base xs cw = (cw_hashed cw @ cw_chunk_buf cw = xs \<and>
     accepted (cw_inner cw) = base @ cw_hashed cw \<and> length (cw_chunk_buf cw) < n)"

definition can_fail :: bool where
  "can_fail = (\<exists>b w. \<not> fst (write_all b w))"

lemma emit_fails: "emit_chunk write_all cw = (False, cw') \<Longrightarrow> can_fail"
  by (auto simp: emit_chunk_def can_fail_def Let_def split: prod.splits) (metis fst_conv)

lemma emit_ok:
  assumes "emit_chunk write_all cw = (True, cw')" and "accepted (cw_inner cw) = base @ cw_hashed cw"
  shows "cw_hashed cw' = cw_hashed cw @ cw_chunk_buf cw" and "cw_chunk_buf cw' = []"
    and "accepted (cw_inner cw') = base @ cw_hashed cw'" and "cw_bytes_total cw' = cw_bytes_total cw"
  using assms by (auto simp: emit_chunk_def Let_def split: prod.splits dest: write_all_ok)

lemma loop_step:
  assumes "writer_inv n base xs cw" and "buf \<noteq> []"
  shows "\<exists>k. 0 < k \<and> k \<le> length buf \<and>
    ((\<exists>cw'. writer_inv n base (xs @ take k buf) cw' \<and> cw_bytes_total cw' = cw_bytes_total cw \<and>
       cw_loop write_all n buf m cw = cw_loop write_all n (drop k buf) (m + k) cw') \<or>
     (can_fail \<and> (\<exists>cw2. cw_loop write_all n buf m cw = Some (Inl Io, cw2))))"
proof -
  define k where "k = min (n - length (cw_chunk_buf cw)) (length buf)"
  define cw1 where "cw1 = cw\<lparr>cw_chunk_buf := cw_chunk_buf cw @ take k buf\<rparr>"
  obtain ok cw2 where em: "emit_chunk write_all cw1 = (ok, cw2)" by force
  have k: "0 < k" "k \<le> length buf" "length (cw_chunk_buf cw) + k \<le> n"
    using assms by (auto simp: k_def writer_inv_def)
  have len1: "length (cw_chunk_buf cw1) = length (cw_chunk_buf cw) + k" using k(2) by (simp add: cw1_def)
  have step: "cw_loop write_all n buf m cw =
      (if length (cw_chunk_buf cw1) = n
       then (if ok then cw_loop write_all n (drop k buf) (m + k) cw2 else Some (Inl Io, cw2))
       else cw_loop write_all n (drop k buf) (m + k) cw1)"
    using assms(2) em by (subst cw_loop.simps) (simp add: Let_def k_def [symmetric] cw1_def [symmetric] len1)
  have inv1: "cw_hashed cw1 @ cw_chunk_buf cw1 = xs @ take k buf" "accepted (cw_inner cw1) = base @ cw_hashed cw1"
    "cw_bytes_total cw1 = cw_bytes_total cw" "length (cw_chunk_buf cw1) \<le> n"
    using assms(1) k by (auto simp: cw1_def writer_inv_def)
  have n: "0 < n" using assms(1) by (auto simp: writer_inv_def)
  show ?thesis
  proof (cases "length (cw_chunk_buf cw1) = n \<and> ok")
    case True
    then have "writer_inv n base (xs @ take k buf) cw2 \<and> cw_bytes_total cw2 = cw_bytes_total cw"
      using emit_ok [of cw1 cw2 base] em inv1 n by (simp add: writer_inv_def)
    with True k step show ?thesis by metis
  next
    case False
    then show ?thesis
      using inv1 k step em emit_fails
      by (cases "length (cw_chunk_buf cw1) = n") (auto simp: writer_inv_def intro!: exI [of _ k])
  qed
qed

lemma loop_inv:
  assumes "writer_inv n base xs cw"
  shows "\<exists>r cw'. cw_loop write_all n buf m cw = Some (r, cw') \<and> (isl r \<longrightarrow> can_fail) \<and>
    (\<forall>k. r = Inr k \<longrightarrow> k = m + length buf \<and> writer_inv n base (xs @ buf) cw' \<and>
      cw_bytes_total cw' = cw_bytes_total cw)"
  using assms
proof (induction buf arbitrary: xs cw m rule: measure_induct_rule [where f = length])
  case (less buf)
  show ?case
  proof (cases "buf = []")
    case True
    then show ?thesis using less.prems by (simp add: cw_loop.simps)
  next
    case False
    from loop_step [OF less.prems False, of m] consider
        k cw1 where "0 < k" "k \<le> length buf" "writer_inv n base (xs @ take k buf) cw1"
          "cw_bytes_total cw1 = cw_bytes_total cw"
          "cw_loop write_all n buf m cw = cw_loop write_all n (drop k buf) (m + k) cw1"
      | cw2 where "can_fail" "cw_loop write_all n buf m cw = Some (Inl Io, cw2)" by blast
    then show ?thesis
    proof cases
      case 1
      then have "length (drop k buf) < length buf" by simp
      from less.IH [OF this 1(3), of "m + k"] 1 show ?thesis by auto
    qed simp
  qed
qed


lemma write_inv:
  assumes "writer_inv CHUNK_SIZE base xs cw"
  shows "\<exists>r cw'. ChunkWriter_write write_all buf cw = Some (r, cw') \<and> (isl r \<longrightarrow> can_fail) \<and>
    (\<forall>k. r = Inr k \<longrightarrow> k = length buf \<and> writer_inv CHUNK_SIZE base (xs @ buf) cw' \<and>
      cw_bytes_total cw' = cw_bytes_total cw + of_nat (length buf))"
proof -
  obtain r cw1 where "cw_loop write_all CHUNK_SIZE buf 0 cw = Some (r, cw1)" "isl r \<longrightarrow> can_fail"
    and "\<forall>k. r = Inr k \<longrightarrow> k = length buf \<and> writer_inv CHUNK_SIZE base (xs @ buf) cw1 \<and>
      cw_bytes_total cw1 = cw_bytes_total cw"
    using loop_inv [OF assms, of buf 0] by auto
  then show ?thesis by (cases r) (auto simp: ChunkWriter_write_def writer_inv_def)
qed

lemma write_pieces_inv:
  assumes "writer_inv CHUNK_SIZE base xs cw"
  shows "\<exists>r cw'. cw_write_pieces write_all ps cw = Some (r, cw') \<and> (isl r \<longrightarrow> can_fail) \<and>
    (r = Inr () \<longrightarrow> writer_inv CHUNK_SIZE base (xs @ concat ps) cw' \<and>
      cw_bytes_total cw' = cw_bytes_total cw + of_nat (length (concat ps)))"
  using assms
proof (induction ps arbitrary: xs cw)
  case Nil
  then show ?case by simp
next
  case (Cons p ps)
  obtain r cw1 where w: "ChunkWriter_write write_all p cw = Some (r, cw1)" "isl r \<longrightarrow> can_fail"
    and ok: "\<forall>k. r = Inr k \<longrightarrow> k = length p \<and> writer_inv CHUNK_SIZE base (xs @ p) cw1 \<and>
      cw_bytes_total cw1 = cw_bytes_total cw + of_nat (length p)"
    using write_inv [OF Cons.prems] by blast
  show ?case
  proof (cases r)
    case (Inr k)
    with ok have "writer_inv CHUNK_SIZE base (xs @ p) cw1" by simp
    from Cons.IH [OF this] show ?thesis using w ok Inr by auto
  qed (use w in simp)
qed

lemma finish_ok:
  assumes "writer_inv CHUNK_SIZE base xs cw" and "ChunkWriter_finish H write_all flush cw = (Inr (h, tot), w)"
  shows "h = H xs" and "tot = cw_bytes_total cw" and "stored w = base @ xs"
proof -
  obtain cw1 where cw1: "(if cw_chunk_buf cw \<noteq> [] then emit_chunk write_all cw else (True, cw)) = (True, cw1)"
    and fl: "flush (cw_inner cw1) = (True, w)" and h: "h = H (cw_hashed cw1)" "tot = cw_bytes_total cw1"
    using assms(2) by (auto simp: ChunkWriter_finish_def Let_def split: prod.splits if_splits)
  have "cw_hashed cw1 = xs \<and> accepted (cw_inner cw1) = base @ xs \<and> cw_bytes_total cw1 = cw_bytes_total cw"
    using assms(1) cw1 emit_ok [of cw cw1 base] by (auto simp: writer_inv_def split: if_splits)
  with h flush_ok [OF fl] show "h = H xs" "tot = cw_bytes_total cw" "stored w = base @ xs" by auto
qed

text \<open>Whatever the pieces, a writer that reports success has stored and hashed all of them.\<close>

lemma writer_correct:
  assumes "cw_write_pieces write_all ps (ChunkWriter_new w0) = Some (Inr (), cw)"
    and "ChunkWriter_finish H write_all flush cw = (Inr (h, tot), w)"
  shows "h = H (concat ps) \<and> tot = of_nat (length (concat ps)) \<and> stored w = accepted w0 @ concat ps"
proof -
  have "writer_inv CHUNK_SIZE (accepted w0) [] (ChunkWriter_new w0)"
    by (simp add: writer_inv_def ChunkWriter_new_def CHUNK_SIZE_def)
  from write_pieces_inv [OF this, of ps] assms(1)
  have "writer_inv CHUNK_SIZE (accepted w0) (concat ps) cw" "cw_bytes_total cw = of_nat (length (concat ps))"
    by (auto simp: ChunkWriter_new_def)
  with finish_ok [OF this(1) assms(2)] show ?thesis by simp
qed

end

locale reliable_sink = byte_sink +
  assumes write_all_succeeds: "fst (write_all b w)"
    and flush_succeeds: "fst (flush w)"
begin

lemma cannot_fail: "\<not> can_fail"
  using write_all_succeeds by (simp add: can_fail_def)

lemma finish_succeeds: "\<exists>r w. ChunkWriter_finish H write_all flush cw = (Inr r, w)"
proof -
  have "\<exists>cw1. emit_chunk write_all cw = (True, cw1)"
    using emit_fails [of cw] cannot_fail by (cases "emit_chunk write_all cw", cases "fst (emit_chunk write_all cw)") auto
  then obtain cw1 where "(if cw_chunk_buf cw \<noteq> [] then emit_chunk write_all cw else (True, cw)) = (True, cw1)"
    by (cases "cw_chunk_buf cw = []") auto
  moreover have "\<exists>w. flush (cw_inner cw1) = (True, w)"
    using flush_succeeds [of "cw_inner cw1"] by (metis prod.collapse)
  ultimately show ?thesis by (auto simp: ChunkWriter_finish_def)
qed

lemma writer_succeeds:
  "\<exists>cw w. cw_write_pieces write_all ps (ChunkWriter_new w0) = Some (Inr (), cw) \<and>
    ChunkWriter_finish H write_all flush cw = (Inr (H (concat ps), of_nat (length (concat ps))), w) \<and>
    stored w = accepted w0 @ concat ps"
proof -
  have "writer_inv CHUNK_SIZE (accepted w0) [] (ChunkWriter_new w0)"
    by (simp add: writer_inv_def ChunkWriter_new_def CHUNK_SIZE_def)
  from write_pieces_inv [OF this, of ps] obtain r cw
    where r: "cw_write_pieces write_all ps (ChunkWriter_new w0) = Some (r, cw)" "\<not> isl r"
    using cannot_fail by blast
  then have ok: "cw_write_pieces write_all ps (ChunkWriter_new w0) = Some (Inr (), cw)" by (cases r) auto
  obtain h tot w where f: "ChunkWriter_finish H write_all flush cw = (Inr (h, tot), w)"
    using finish_succeeds [of H cw] by auto
  from writer_correct [OF ok f] ok f show ?thesis by blast
qed

end

text \<open>\<^verbatim>\<open>BufWriter\<close> keeps the contract of the sink below it.\<close>

sublocale reliable_sink \<subseteq> buffered: byte_sink "bw_write_all write_all" "bw_flush write_all flush"
  "\<lambda>w. accepted (bw_inner w) @ bw_buf w" "\<lambda>w. stored (bw_inner w)"
proof
  show "accepted (bw_inner w') @ bw_buf w' = (accepted (bw_inner w) @ bw_buf w) @ b"
    if "bw_write_all write_all b w = (True, w')" for b w w'
  proof -
    have "b @ bw_buf w = bw_buf w @ b"
      if "\<not> bw_cap w - length (bw_buf w) < length b" "bw_cap w \<le> length b"
      using that by (cases "bw_buf w"; cases b) auto
    with that show ?thesis
      by (auto simp: bw_write_all_def bw_flush_buf_def Let_def split: prod.splits if_splits dest!: write_all_ok)
  qed
  show "stored (bw_inner w') = accepted (bw_inner w) @ bw_buf w \<and>
      accepted (bw_inner w') @ bw_buf w' = accepted (bw_inner w) @ bw_buf w"
    if "bw_flush write_all flush w = (True, w')" for w w'
    using that by (auto simp: bw_flush_def bw_flush_buf_def Let_def split: prod.splits if_splits
        dest!: write_all_ok flush_ok)
qed

interpretation vec_sink: reliable_sink vec_write_all vec_flush "\<lambda>v. v" "\<lambda>v. v"
  by unfold_locales (auto simp: vec_write_all_def vec_flush_def)


interpretation buffered_vec_sink: reliable_sink "bw_write_all vec_write_all" "bw_flush vec_write_all vec_flush"
  "\<lambda>w. bw_inner w @ bw_buf w" "\<lambda>w. bw_inner w"
proof (intro reliable_sink.intro reliable_sink_axioms.intro)
  show "byte_sink (bw_write_all vec_write_all) (bw_flush vec_write_all vec_flush)
    (\<lambda>w. bw_inner w @ bw_buf w) (\<lambda>w. bw_inner w)"
    by (rule vec_sink.buffered.byte_sink_axioms)
qed (auto simp: bw_write_all_def bw_flush_def bw_flush_buf_def vec_write_all_def vec_flush_def Let_def)

section \<open>The verifying reader\<close>

text \<open>What a client has received after a sequence of successful reads.\<close>

fun read_many :: "'r source_read \<Rightarrow> nat list \<Rightarrow> 'r chunk_reader \<Rightarrow> bytes \<times> 'r chunk_reader" where
  "read_many rd [] cr = ([], cr)"
| "read_many rd (n # ns) cr =
     (case ChunkReader_read rd n cr of
        (Inl e, cr') \<Rightarrow> ([], cr')
      | (Inr b, cr') \<Rightarrow> (let (bs, cr'') = read_many rd ns cr' in (b @ bs, cr'')))"

definition reader_inv :: "nat \<Rightarrow> bytes \<Rightarrow> 'r chunk_reader \<Rightarrow> bool" where
  "reader_inv tot delivered cr = (cr_hashed cr = delivered @ drop (cr_pos cr) (cr_chunk cr) \<and>
     length (cr_chunk cr) - cr_pos cr \<le> cr_bytes_left cr \<and> length delivered + cr_bytes_left cr \<le> tot)"

lemma deliver_inv:
  assumes "reader_inv tot d cr" and "deliver n cr = (Inr b, cr')"
  shows "reader_inv tot (d @ b) cr' \<and> cr_expected cr' = cr_expected cr"
proof -
  let ?k = "min (length (cr_chunk cr) - cr_pos cr) n" and ?rest = "drop (cr_pos cr) (cr_chunk cr)"
  have b: "b = take ?k ?rest" and cr': "cr' = cr\<lparr>cr_pos := cr_pos cr + ?k, cr_bytes_left := cr_bytes_left cr - ?k\<rparr>"
    using assms(2) by (auto simp: deliver_def Let_def)
  have "b @ drop (cr_pos cr + ?k) (cr_chunk cr) = ?rest"
    unfolding b by (metis add.commute append_take_drop_id drop_drop)
  moreover have "length b = ?k" by (simp add: b)
  ultimately show ?thesis using assms(1) by (auto simp: reader_inv_def cr')
qed

lemma read_inv:
  assumes "\<And>n r b r'. rd n r = (Some b, r') \<Longrightarrow> length b \<le> n"
    and "reader_inv tot d cr" and "ChunkReader_read rd n cr = (res, cr')"
  shows "reader_inv tot (d @ (case res of Inr b \<Rightarrow> b | Inl _ \<Rightarrow> [])) cr' \<and> cr_expected cr' = cr_expected cr"
proof -
  obtain out inner where rd: "rd (min (cr_bytes_left cr) CHUNK_SIZE) (cr_inner cr) = (out, inner)" by force
  consider "cr_bytes_left cr = 0" | "cr_bytes_left cr \<noteq> 0" "cr_pos cr < length (cr_chunk cr)"
    | "cr_bytes_left cr \<noteq> 0" "length (cr_chunk cr) \<le> cr_pos cr" by linarith
  then show ?thesis
  proof cases
    case 1
    then show ?thesis using assms(2,3) by (auto simp: ChunkReader_read_def)
  next
    case 2
    then have "deliver n cr = (res, cr')" using assms(3) by (simp add: ChunkReader_read_def)
    with deliver_inv [OF assms(2)] show ?thesis by (cases res) (auto simp: deliver_def Let_def)
  next
    case 3
    have empty: "cr_hashed cr = d" using assms(2) 3 by (simp add: reader_inv_def)
    consider "out = None \<or> out = Some []" | b where "out = Some b" "b \<noteq> []" by (cases out) auto
    then show ?thesis
    proof cases
      case 1
      then show ?thesis using assms(2,3) 3 rd by (auto simp: ChunkReader_read_def reader_inv_def)
    next
      case 2
      let ?cr = "cr\<lparr>cr_inner := inner, cr_hashed := cr_hashed cr @ b, cr_chunk := b, cr_pos := 0\<rparr>"
      have "reader_inv tot d ?cr"
        using assms(1) [OF rd [unfolded 2(1)]] assms(2) by (auto simp: reader_inv_def empty)
      moreover have "deliver n ?cr = (res, cr')" using assms(3) 3 2 rd by (simp add: ChunkReader_read_def)
      ultimately show ?thesis using deliver_inv by (cases res) (fastforce simp: deliver_def Let_def)+
    qed
  qed
qed

lemma read_many_inv:
  assumes "\<And>n r b r'. rd n r = (Some b, r') \<Longrightarrow> length b \<le> n" and "reader_inv tot d cr"
    and "read_many rd ns cr = (bs, cr')"
  shows "reader_inv tot (d @ bs) cr' \<and> cr_expected cr' = cr_expected cr"
  using assms(2,3)
proof (induction ns arbitrary: d cr bs)
  case Nil
  then show ?case by simp
next
  case (Cons n ns)
  obtain res cr1 where r: "ChunkReader_read rd n cr = (res, cr1)" by force
  from read_inv [OF assms(1) Cons.prems(1) r] Cons.IH [of _ cr1] Cons.prems(2) r show ?case
    by (cases res) (fastforce split: prod.splits)+
qed

text \<open>
  The HTTP range header is a faithful form of a range selector: parsing the header that was
  rendered for ranges inside a blob gives these ranges back, a list of one range as a single
  range.
\<close>

theorem range_header_round_trip:
  assumes "list_all (range_valid n) (r # rs)"
  shows "map_option (\<lambda>h. from_http_header h n) (to_http_header (Multi (r # rs))) =
      Some (Inr (if rs = [] then Single r else Multi (r # rs))) \<and>
    map_option (\<lambda>h. from_http_header h n) (to_http_header (Single r)) = Some (Inr (Single r))"
proof -
  have "list_all (range_valid n) [r]" using assms by simp
  from from_http_header_join [OF _ this] from_http_header_join [OF _ assms] show ?thesis
    by (auto split: list.splits)
qed

theorem range_header_round_trip_witness:
  "map_option (\<lambda>h. from_http_header h 1000)
      (to_http_header (Multi [\<lparr>br_start = 0, br_end = 100\<rparr>, \<lparr>br_start = 900, br_end = 1000\<rparr>])) =
      Some (Inr (Multi [\<lparr>br_start = 0, br_end = 100\<rparr>, \<lparr>br_start = 900, br_end = 1000\<rparr>]))"
  using range_header_round_trip [of 1000 "\<lparr>br_start = 0, br_end = 100\<rparr>" "[\<lparr>br_start = 900, br_end = 1000\<rparr>]"]
  by (simp add: range_valid_def)

text \<open>
  The chunk writer over a vector, plain or behind a buffer of any size, always returns and
  reports success, whatever the division of the input into pieces: the stored bytes are the
  input, the hash is that of the input and the reported length is the input's length.
\<close>

theorem chunk_writer_correct:
  "(\<exists>cw. cw_write_pieces vec_write_all ps (ChunkWriter_new []) = Some (Inr (), cw) \<and>
      ChunkWriter_finish H vec_write_all vec_flush cw =
        (Inr (H (concat ps), of_nat (length (concat ps))), concat ps)) \<and>
   (\<exists>cw w. cw_write_pieces (bw_write_all vec_write_all) ps (ChunkWriter_new_buffered_with cap []) = Some (Inr (), cw) \<and>
      ChunkWriter_finish H (bw_write_all vec_write_all) (bw_flush vec_write_all vec_flush) cw =
        (Inr (H (concat ps), of_nat (length (concat ps))), w) \<and> bw_inner w = concat ps)"
  using vec_sink.writer_succeeds [of ps "[]" H]
    buffered_vec_sink.writer_succeeds [of ps "BufWriter_with_capacity cap []" H]
  by (auto simp: ChunkWriter_new_buffered_with_def BufWriter_with_capacity_def)

text \<open>
  The verifying reader is sound over every source that keeps the contract of
  \<^verbatim>\<open>Read\<close>: after any sequence of reads that used up the announced length, or met the end of
  the source, a successful verification means that the bytes the client received have the
  expected hash; it never delivers more than the announced length.
\<close>

theorem chunk_reader_sound:
  assumes "\<forall>n r b r'. rd n r = (Some b, r') \<longrightarrow> length b \<le> n"
    and "read_many rd ns (ChunkReader_new source total_bytes (Some h)) = (received, cr)"
    and "cr_bytes_left cr = 0" and "fst (ChunkReader_verify H cr) = Inr ()"
  shows "H received = h \<and> length received \<le> total_bytes"
proof -
  have "reader_inv total_bytes [] (ChunkReader_new source total_bytes (Some h))"
    by (simp add: reader_inv_def ChunkReader_new_def)
  from read_many_inv [OF _ this assms(2)] assms(1)
  have "reader_inv total_bytes received cr" "cr_expected cr = Some h" by (auto simp: ChunkReader_new_def)
  with assms(3,4) show ?thesis
    by (auto simp: reader_inv_def ChunkReader_verify_def Let_def split: if_splits)
qed

text \<open>A source over a byte string: \<^verbatim>\<open>std::io::Cursor\<close>.\<close>

definition cursor_read :: "bytes source_read" where
  "cursor_read n xs = (Some (take n xs), drop n xs)"

theorem chunk_reader_sound_witness:
  "fst (read_many cursor_read [2, 5] (ChunkReader_new [1, 2, 3] 3 (Some (demo_hash [1, 2, 3])))) = [1, 2, 3] \<and>
    demo_hash [1, 2, 3] = demo_hash [1, 2, 3] \<and> length [1, 2, 3 :: u8] \<le> 3"
proof -
  let ?cr = "ChunkReader_new [1, 2, 3] 3 (Some (demo_hash [1, 2, 3]))"
  obtain cr where cr: "read_many cursor_read [2, 5] ?cr = ([1, 2, 3], cr)"
    and "cr_bytes_left cr = 0" "cr_hashed cr = [1, 2, 3]" "cr_expected cr = Some (demo_hash [1, 2, 3])"
    by (simp add: ChunkReader_new_def ChunkReader_read_def deliver_def cursor_read_def CHUNK_SIZE_def Let_def)
  then show ?thesis
    using chunk_reader_sound [OF _ cr, where H = demo_hash]
    by (simp add: cursor_read_def ChunkReader_verify_def)
qed

end
