(* ===== verification/Blob_Store.thy ===== *)
theory Blob_Store
  imports Chunked
begin

text \<open>
  The blob stores (\<^verbatim>\<open>crates/a3net-blobstore/src\<close>): the store on disk (\<^verbatim>\<open>store.rs\<close>), the store in
  memory (\<^verbatim>\<open>mem.rs\<close>), the pin set (\<^verbatim>\<open>pin_set.rs\<close>) and garbage collection. The data directory is
  a map from directory names to their files. An operation that writes is the sequence of its
  file system calls, run with an optional fault: the call at a given index fails after part of
  its effect. Deleting or copying a directory is not atomic: such a call may fail after any part
  of the files was handled, in any order. A crash leaves the disk as a failing call does. Chunk files are numbered by naturals: a blob has fewer than \<open>2 ^ 32\<close> chunks.
  Metrics counters and texts of errors are left out; JSON files hold their records.
\<close>

section \<open>The data directory\<close>

datatype dir_name = Blob content_hash | Importing content_hash

record blob_meta =
  bm_hash :: content_hash
  bm_size_bytes :: u64
  bm_chunk_count :: u32

record blob_dir =
  bd_chunks_dir :: bool
  bd_chunks :: "(nat, bytes) hmap"
  bd_shas :: "(nat, bytes) hmap"
  bd_meta :: "blob_meta option"
  bd_complete :: bool

type_synonym blob_fs = "(dir_name, blob_dir) hmap"

datatype blob_file = ChunkFile nat | ShaFile nat | MetaFile | CompleteFile | ChunksDir

definition empty_dir :: blob_dir where
  "empty_dir = \<lparr>bd_chunks_dir = False, bd_chunks = [], bd_shas = [], bd_meta = None, bd_complete = False\<rparr>"

definition dir_is_empty :: "blob_dir \<Rightarrow> bool" where
  "dir_is_empty d = (\<not> bd_chunks_dir d \<and> bd_meta d = None \<and> \<not> bd_complete d)"

definition create_dir_all :: "dir_name \<Rightarrow> blob_fs \<Rightarrow> blob_fs" where
  "create_dir_all d fs = (if hm_contains fs d then fs else hm_insert d empty_dir fs)"

definition dir_upd :: "dir_name \<Rightarrow> (blob_dir \<Rightarrow> blob_dir) \<Rightarrow> blob_fs \<Rightarrow> blob_fs" where
  "dir_upd d f fs = (case hm_get fs d of None \<Rightarrow> fs | Some x \<Rightarrow> hm_insert d (f x) fs)"

definition copy_dir_recursive :: "blob_dir \<Rightarrow> blob_dir \<Rightarrow> blob_dir" where
  "copy_dir_recursive src dst =
     \<lparr>bd_chunks_dir = bd_chunks_dir src \<or> bd_chunks_dir dst,
      bd_chunks = foldr (\<lambda>(i, b). hm_insert i b) (bd_chunks src) (bd_chunks dst),
      bd_shas = foldr (\<lambda>(i, b). hm_insert i b) (bd_shas src) (bd_shas dst),
      bd_meta = (if bd_meta src = None then bd_meta dst else bd_meta src),
      bd_complete = bd_complete src \<or> bd_complete dst\<rparr>"

text \<open>
  A copy that is cut short: the files it reached, each whole (\<open>None\<close>) or with a first part of its
  bytes.
\<close>

fun copy_file :: "blob_dir \<Rightarrow> blob_file \<times> nat option \<Rightarrow> blob_dir \<Rightarrow> blob_dir" where
  "copy_file src (ChunkFile i, k) dst =
     (case hm_get (bd_chunks src) i of
        None \<Rightarrow> dst
      | Some b \<Rightarrow> dst\<lparr>bd_chunks := hm_insert i (case k of None \<Rightarrow> b | Some n \<Rightarrow> take n b) (bd_chunks dst)\<rparr>)"
| "copy_file src (ShaFile i, k) dst =
     (case hm_get (bd_shas src) i of
        None \<Rightarrow> dst
      | Some b \<Rightarrow> dst\<lparr>bd_shas := hm_insert i (case k of None \<Rightarrow> b | Some n \<Rightarrow> take n b) (bd_shas dst)\<rparr>)"
| "copy_file src (MetaFile, k) dst =
     (if bd_meta src = None then dst else dst\<lparr>bd_meta := (if k = None then bd_meta src else None)\<rparr>)"
| "copy_file src (CompleteFile, k) dst = dst\<lparr>bd_complete := bd_complete src \<or> bd_complete dst\<rparr>"
| "copy_file src (ChunksDir, k) dst = dst\<lparr>bd_chunks_dir := bd_chunks_dir src \<or> bd_chunks_dir dst\<rparr>"

text \<open>
  Deleting a directory. It succeeds (\<open>None\<close>) or fails after the files of a list were deleted; the
  directory of the chunks goes only when it is empty.
\<close>

fun unlink :: "blob_file \<Rightarrow> blob_dir \<Rightarrow> blob_dir" where
  "unlink (ChunkFile i) d = d\<lparr>bd_chunks := hm_remove i (bd_chunks d)\<rparr>"
| "unlink (ShaFile i) d = d\<lparr>bd_shas := hm_remove i (bd_shas d)\<rparr>"
| "unlink MetaFile d = d\<lparr>bd_meta := None\<rparr>"
| "unlink CompleteFile d = d\<lparr>bd_complete := False\<rparr>"
| "unlink ChunksDir d = (if bd_chunks d = [] \<and> bd_shas d = [] then d\<lparr>bd_chunks_dir := False\<rparr> else d)"

type_synonym removal = "blob_file list option"

definition remove_dir_all :: "removal \<Rightarrow> dir_name \<Rightarrow> blob_fs \<Rightarrow> bool \<times> blob_fs" where
  "remove_dir_all rm d fs =
     (case rm of
        None \<Rightarrow> (True, hm_remove d fs)
      | Some gone \<Rightarrow> (False, dir_upd d (fold unlink gone) fs))"

text \<open>
  The file system calls. \<open>Install\<close> is the rename of the staged directory, which the system
  refuses on a directory with files, or for a reason of its own (\<open>rename_ok\<close> false), with the
  copy the code falls back to and the removal of the staged directory after the copy, whose
  failure the code ignores.
\<close>

datatype fs_op =
    CreateDir dir_name
  | CreateChunksDir dir_name
  | WriteChunk dir_name nat bytes
  | WriteSha dir_name nat bytes
  | WriteMeta dir_name blob_meta
  | WriteComplete dir_name
  | Install dir_name dir_name bool removal

fun apply_op :: "fs_op \<Rightarrow> blob_fs \<Rightarrow> blob_fs" where
  "apply_op (CreateDir d) fs = create_dir_all d fs"
| "apply_op (CreateChunksDir d) fs = dir_upd d (\<lambda>x. x\<lparr>bd_chunks_dir := True\<rparr>) (create_dir_all d fs)"
| "apply_op (WriteChunk d i b) fs = dir_upd d (\<lambda>x. x\<lparr>bd_chunks := hm_insert i b (bd_chunks x)\<rparr>) fs"
| "apply_op (WriteSha d i b) fs = dir_upd d (\<lambda>x. x\<lparr>bd_shas := hm_insert i b (bd_shas x)\<rparr>) fs"
| "apply_op (WriteMeta d m) fs = dir_upd d (\<lambda>x. x\<lparr>bd_meta := Some m\<rparr>) fs"
| "apply_op (WriteComplete d) fs = dir_upd d (\<lambda>x. x\<lparr>bd_complete := True\<rparr>) fs"
| "apply_op (Install src dst rename_ok tidy) fs =
     (case (hm_get fs src, hm_get fs dst) of
        (Some s, Some t) \<Rightarrow>
          if rename_ok \<and> dir_is_empty t then hm_insert dst s (hm_remove src fs)
          else snd (remove_dir_all tidy src (hm_insert dst (copy_dir_recursive s t) fs))
      | _ \<Rightarrow> fs)"

text \<open>
  A failing call. With \<open>k = 0\<close> it had no effect; otherwise the file exists with its first \<open>k - 1\<close>
  bytes, or the directory without its subdirectory. A copied directory has the files in \<open>part\<close>.
\<close>

type_synonym partial_copy = "(blob_file \<times> nat option) list"

fun fail_op :: "nat \<Rightarrow> partial_copy \<Rightarrow> fs_op \<Rightarrow> blob_fs \<Rightarrow> blob_fs" where
  "fail_op k part (CreateDir d) fs = fs"
| "fail_op k part (CreateChunksDir d) fs = (if k = 0 then fs else create_dir_all d fs)"
| "fail_op k part (WriteChunk d i b) fs = (if k = 0 then fs else apply_op (WriteChunk d i (take (k - 1) b)) fs)"
| "fail_op k part (WriteSha d i b) fs = (if k = 0 then fs else apply_op (WriteSha d i (take (k - 1) b)) fs)"
| "fail_op k part (WriteMeta d m) fs = (if k = 0 then fs else dir_upd d (\<lambda>x. x\<lparr>bd_meta := None\<rparr>) fs)"
| "fail_op k part (WriteComplete d) fs = (if k = 0 then fs else apply_op (WriteComplete d) fs)"
| "fail_op k part (Install src dst rename_ok tidy) fs =
     (case (hm_get fs src, hm_get fs dst) of
        (Some s, Some t) \<Rightarrow>
          if rename_ok \<and> dir_is_empty t then fs else hm_insert dst (fold (copy_file s) part t) fs
      | _ \<Rightarrow> fs)"

text \<open>A fault names the failing call, how far a write came and how far a copy came.\<close>

type_synonym fault = "(nat \<times> nat \<times> partial_copy) option"

fun run_ops :: "fault \<Rightarrow> fs_op list \<Rightarrow> blob_fs \<Rightarrow> bool \<times> blob_fs" where
  "run_ops None ops fs = (True, fold apply_op ops fs)"
| "run_ops (Some (n, k, part)) ops fs =
     (if n < length ops then (False, fail_op k part (ops ! n) (fold apply_op (take n ops) fs))
      else (True, fold apply_op ops fs))"

section \<open>The store on disk\<close>

datatype io_error = IoFailed | InvalidData | RefuseIncomplete

definition has_complete :: "blob_fs \<Rightarrow> content_hash \<Rightarrow> bool" where
  "has_complete fs h = (case hm_get fs (Blob h) of None \<Rightarrow> False | Some d \<Rightarrow> bd_complete d)"

definition store_meta :: "blob_fs \<Rightarrow> content_hash \<Rightarrow> (chunk_error, u64 \<times> u32) result" where
  "store_meta fs h =
     (case hm_get fs (Blob h) of
        None \<Rightarrow> Inl Io
      | Some d \<Rightarrow>
          if \<not> bd_complete d then Inl Io
          else (case bd_meta d of None \<Rightarrow> Inl Io | Some m \<Rightarrow> Inr (bm_size_bytes m, bm_chunk_count m)))"

definition read_chunk_sync :: "blob_fs \<Rightarrow> content_hash \<Rightarrow> u32 \<Rightarrow> bytes option" where
  "read_chunk_sync fs h index =
     (case hm_get fs (Blob h) of None \<Rightarrow> None | Some d \<Rightarrow> hm_get (bd_chunks d) (unat index))"

definition count_chunks_on_disk :: "blob_fs \<Rightarrow> content_hash \<Rightarrow> u32" where
  "count_chunks_on_disk fs h =
     (case hm_get fs (Blob h) of None \<Rightarrow> 0 | Some d \<Rightarrow> of_nat (length (bd_chunks d) + length (bd_shas d)))"

definition finalize_import :: "fault \<Rightarrow> content_hash \<Rightarrow> u64 \<Rightarrow> blob_fs \<Rightarrow> blob_fs" where
  "finalize_import fault h sz fs =
     (if has_complete fs h then fs
      else snd (run_ops fault
             [CreateChunksDir (Blob h),
              WriteMeta (Blob h) \<lparr>bm_hash = h, bm_size_bytes = sz, bm_chunk_count = count_chunks_on_disk fs h\<rparr>,
              WriteComplete (Blob h)] fs))"

text \<open>The chunk files are read in order up to the first missing one.\<close>

function scan_chunks :: "(nat, bytes) hmap \<Rightarrow> nat \<Rightarrow> bytes" where
  "scan_chunks m index = (case hm_get m index of None \<Rightarrow> [] | Some b \<Rightarrow> b @ scan_chunks m (index + 1))"
  by pat_completeness auto
termination
proof (relation "measure (\<lambda>(m, i). card {k \<in> fst ` set m. i \<le> k})")
  fix m :: "(nat, bytes) hmap" and index b
  assume "hm_get m index = Some b"
  then have "index \<in> fst ` set m" using map_of_SomeD [of m index b] in_keysI by fastforce
  then have "index \<in> {k \<in> fst ` set m. index \<le> k}" by simp
  moreover have "index \<notin> {k \<in> fst ` set m. index + 1 \<le> k}" by simp
  moreover have "{k \<in> fst ` set m. index + 1 \<le> k} \<subseteq> {k \<in> fst ` set m. index \<le> k}"
    by (rule Collect_mono) simp
  ultimately have "{k \<in> fst ` set m. index + 1 \<le> k} \<subset> {k \<in> fst ` set m. index \<le> k}" by blast
  then show "((m, index + 1), (m, index)) \<in> measure (\<lambda>(m, i). card {k \<in> fst ` set m. i \<le> k})"
    by (simp add: psubset_card_mono)
qed simp

declare scan_chunks.simps [simp del]

definition verify_blob_on_disk :: "hash_fun \<Rightarrow> blob_dir \<Rightarrow> content_hash \<Rightarrow> u64 \<Rightarrow> (io_error, unit) result" where
  "verify_blob_on_disk H d expected expected_size =
     (let bs = scan_chunks (bd_chunks d) 0
      in if length bs \<ge> 2 ^ 64 then Inl IoFailed
         else if of_nat (length bs) \<noteq> expected_size then Inl InvalidData
         else if H bs \<noteq> expected then Inl InvalidData
         else Inr ())"

definition write_chunk_ops :: "hash_fun \<Rightarrow> dir_name \<Rightarrow> bytes list \<Rightarrow> fs_op list" where
  "write_chunk_ops H d cs =
     concat (map (\<lambda>(i, c). [WriteChunk d i c, WriteSha d i (H c)]) (List.enumerate 0 cs))"

definition put_ops :: "hash_fun \<Rightarrow> content_hash \<Rightarrow> bytes \<Rightarrow> fs_op list" where
  "put_ops H h data =
     (let cs = chunks CHUNK_SIZE data
      in [CreateChunksDir (Blob h)] @ write_chunk_ops H (Blob h) cs @
         [WriteMeta (Blob h) \<lparr>bm_hash = h, bm_size_bytes = of_nat (length data), bm_chunk_count = of_nat (length cs)\<rparr>,
          WriteComplete (Blob h)])"

definition put_bytes_sync ::
  "hash_fun \<Rightarrow> fault \<Rightarrow> bytes \<Rightarrow> blob_fs \<Rightarrow> (io_error, content_hash \<times> u64) result \<times> blob_fs" where
  "put_bytes_sync H fault data fs =
     (let h = H data
      in if has_complete fs h then (Inr (h, of_nat (length data)), fs)
         else let (ok, fs') = run_ops fault (put_ops H h data) fs
              in (if ok then Inr (h, of_nat (length data)) else Inl IoFailed, fs'))"

text \<open>
  Importing a file. \<open>content\<close> is what the first pass over the file reads and hashes, \<open>reads\<close> are
  the results of the successive \<^verbatim>\<open>read\<close> calls of the second pass, which become the chunks. The
  result of clearing a left-over staging directory first is ignored by the code.
\<close>

definition import_ops :: "content_hash \<Rightarrow> u64 \<Rightarrow> bytes list \<Rightarrow> bool \<Rightarrow> removal \<Rightarrow> fs_op list" where
  "import_ops h sz reads rename_ok tidy =
     [CreateChunksDir (Importing h)] @
     map (\<lambda>(i, b). WriteChunk (Importing h) i b) (List.enumerate 0 reads) @
     [WriteMeta (Importing h) \<lparr>bm_hash = h, bm_size_bytes = sz, bm_chunk_count = of_nat (length reads)\<rparr>,
      WriteComplete (Importing h),
      CreateDir (Blob h),
      Install (Importing h) (Blob h) rename_ok tidy]"

definition import_file_sync ::
  "hash_fun \<Rightarrow> fault \<Rightarrow> removal \<Rightarrow> bool \<Rightarrow> removal \<Rightarrow> bytes \<Rightarrow> bytes list \<Rightarrow> blob_fs \<Rightarrow>
    (io_error, content_hash \<times> u64) result \<times> blob_fs" where
  "import_file_sync H fault clear rename_ok tidy content reads fs =
     (let h = H content; sz = of_nat (length content)
      in if has_complete fs h then (Inr (h, sz), fs)
         else let (ok, fs') = run_ops fault (import_ops h sz reads rename_ok tidy) (snd (remove_dir_all clear (Importing h) fs))
              in if \<not> ok then (Inl IoFailed, fs')
                 else case hm_get fs' (Blob h) of
                        None \<Rightarrow> (Inl IoFailed, fs')
                      | Some d \<Rightarrow> (case verify_blob_on_disk H d h sz of
                                     Inl e \<Rightarrow> (Inl e, fs')
                                   | Inr _ \<Rightarrow> (Inr (h, sz), fs')))"

subsection \<open>Reading\<close>

text \<open>A slice of a vector; \<open>None\<close> is the panic of the code on bounds that do not fit.\<close>

definition slice :: "nat \<Rightarrow> nat \<Rightarrow> 'a list \<Rightarrow> 'a list option" where
  "slice i j xs = (if i \<le> j \<and> j \<le> length xs then Some (take (j - i) (drop i xs)) else None)"

definition range_piece :: "nat \<Rightarrow> nat \<Rightarrow> nat \<Rightarrow> nat \<Rightarrow> bytes \<Rightarrow> bytes option" where
  "range_piece total_chunks first_off last_len i chunk =
     (if total_chunks = 1 then slice first_off (min (first_off + last_len) (length chunk)) chunk
      else if i = 0 then slice first_off (length chunk) chunk
      else if i + 1 = total_chunks then slice 0 (min last_len (length chunk)) chunk
      else Some chunk)"

fun range_loop ::
  "(u32 \<Rightarrow> bytes option) \<Rightarrow> u32 \<Rightarrow> (nat \<Rightarrow> bytes \<Rightarrow> bytes option) \<Rightarrow> (nat \<times> u32) list \<Rightarrow> bytes \<Rightarrow>
    (chunk_error, bytes) result option" where
  "range_loop rd cnt piece [] acc = Some (Inr acc)"
| "range_loop rd cnt piece ((i, chunk_idx) # rest) acc =
     (case rd chunk_idx of
        None \<Rightarrow> Some (Inl Io)
      | Some chunk \<Rightarrow>
          (case piece i chunk of
             None \<Rightarrow> None
           | Some b \<Rightarrow>
               if of_nat i > cnt then Some (Inl (ChunkOutOfRange chunk_idx cnt))
               else range_loop rd cnt piece rest (acc @ b)))"

definition read_range_sync ::
  "blob_fs \<Rightarrow> content_hash \<Rightarrow> byte_range \<Rightarrow> (chunk_error, bytes) result option" where
  "read_range_sync fs h r =
     (case store_meta fs h of
        Inl e \<Rightarrow> Some (Inl e)
      | Inr (sz, cnt) \<Rightarrow>
          if br_end r = 0 \<or> br_start r \<ge> sz then Some (Inr [])
          else (case ByteRange_new (br_start r) (min (br_end r) sz) of
                  Inl e \<Rightarrow> Some (Inl InvalidRange)
                | Inr r' \<Rightarrow>
                    (case chunks_for_range sz r' of
                       Inl e \<Rightarrow> Some (Inl e)
                     | Inr (start_chunk, end_chunk_excl, first_off, last_len) \<Rightarrow>
                         let total_chunks = unat end_chunk_excl - unat start_chunk
                         in range_loop (read_chunk_sync fs h) cnt
                              (range_piece total_chunks first_off last_len)
                              (List.enumerate 0 (map of_nat [unat start_chunk..<unat end_chunk_excl])) [])))"

definition get_sync :: "blob_fs \<Rightarrow> content_hash \<Rightarrow> bytes option option" where
  "get_sync fs h =
     (if \<not> has_complete fs h then Some None
      else case store_meta fs h of
             Inl e \<Rightarrow> Some None
           | Inr (sz, cnt) \<Rightarrow>
               (case ByteRange_new 0 sz of
                  Inl e \<Rightarrow> Some None
                | Inr r \<Rightarrow> (case read_range_sync fs h r of
                              None \<Rightarrow> None
                            | Some (Inl e) \<Rightarrow> Some None
                            | Some (Inr b) \<Rightarrow> Some (Some b))))"

definition read_all_chunks :: "blob_fs \<Rightarrow> content_hash \<Rightarrow> u32 \<Rightarrow> (chunk_error, bytes) result" where
  "read_all_chunks fs h cnt =
     fold_result (\<lambda>i acc. case read_chunk_sync fs h (of_nat i) of None \<Rightarrow> Inl Io | Some c \<Rightarrow> Inr (acc @ c))
       [0..<unat cnt] []"

definition BlobStore_read_all :: "blob_fs \<Rightarrow> content_hash \<Rightarrow> (chunk_error, bytes) result" where
  "BlobStore_read_all fs h =
     (case store_meta fs h of Inl e \<Rightarrow> Inl e | Inr (sz, cnt) \<Rightarrow> read_all_chunks fs h cnt)"

fun read_ranges :: "blob_fs \<Rightarrow> content_hash \<Rightarrow> byte_range list \<Rightarrow> bytes \<Rightarrow> (chunk_error, bytes) result option" where
  "read_ranges fs h [] acc = Some (Inr acc)"
| "read_ranges fs h (r # rs) acc =
     (case read_range_sync fs h r of
        None \<Rightarrow> None
      | Some (Inl e) \<Rightarrow> Some (Inl e)
      | Some (Inr b) \<Rightarrow> read_ranges fs h rs (acc @ b))"

definition BlobStore_read_range ::
  "blob_fs \<Rightarrow> content_hash \<Rightarrow> range_spec \<Rightarrow> (chunk_error, bytes) result option" where
  "BlobStore_read_range fs h spec =
     (case store_meta fs h of
        Inl e \<Rightarrow> Some (Inl e)
      | Inr (sz, _) \<Rightarrow>
          (case spec of
             All \<Rightarrow> (case ByteRange_new 0 sz of
                       Inl e \<Rightarrow> Some (Inl InvalidRange) | Inr r \<Rightarrow> read_ranges fs h [r] [])
           | Single r \<Rightarrow> read_ranges fs h [r] []
           | Multi rs \<Rightarrow> read_ranges fs h rs []))"

definition BlobStore_chunk_count :: "blob_fs \<Rightarrow> content_hash \<Rightarrow> (chunk_error, u32) result" where
  "BlobStore_chunk_count fs h =
     (case store_meta fs h of
        Inl e \<Rightarrow> Inl e
      | Inr (sz, cnt) \<Rightarrow> Inr (if cnt = 0 \<and> sz > 0 then chunk_count_for sz else cnt))"

text \<open>The bytes an export writes to its destination file.\<close>

definition export_to_file_sync :: "blob_fs \<Rightarrow> content_hash \<Rightarrow> (chunk_error, bytes) result" where
  "export_to_file_sync fs h =
     (case store_meta fs h of Inl e \<Rightarrow> Inl Io | Inr (sz, cnt) \<Rightarrow> read_all_chunks fs h cnt)"


subsection \<open>Pins\<close>

datatype pin_kind = Root | Chunk

record pin_record =
  pr_kind :: pin_kind
  pr_recursive :: bool
  pr_added_at :: int
  pr_descendants :: "content_hash list"

type_synonym pin_set = "(content_hash, pin_record) hmap"

definition PinSet_add :: "content_hash \<Rightarrow> bool \<Rightarrow> content_hash list \<Rightarrow> int \<Rightarrow> pin_set \<Rightarrow> bool \<times> pin_set" where
  "PinSet_add h recursive descendants now ps =
     (if hm_contains ps h then (False, ps)
      else (True, hm_insert h \<lparr>pr_kind = Root, pr_recursive = recursive, pr_added_at = now,
                               pr_descendants = descendants\<rparr> ps))"

definition PinSet_add_chunk :: "content_hash \<Rightarrow> int \<Rightarrow> pin_set \<Rightarrow> bool \<times> pin_set" where
  "PinSet_add_chunk h now ps =
     (if hm_contains ps h then (False, ps)
      else (True, hm_insert h \<lparr>pr_kind = Chunk, pr_recursive = False, pr_added_at = now,
                               pr_descendants = []\<rparr> ps))"

definition PinSet_remove :: "content_hash \<Rightarrow> pin_set \<Rightarrow> bool \<times> pin_set" where
  "PinSet_remove h ps =
     (case hm_get ps h of
        Some rec \<Rightarrow> (True, fold hm_remove (pr_descendants rec) (hm_remove h ps))
      | None \<Rightarrow> (False, ps))"

definition PinSet_contains :: "pin_set \<Rightarrow> content_hash \<Rightarrow> bool" where
  "PinSet_contains ps h = hm_contains ps h"

definition PinSet_contains_root :: "pin_set \<Rightarrow> content_hash \<Rightarrow> bool" where
  "PinSet_contains_root ps h = (case hm_get ps h of Some r \<Rightarrow> pr_kind r = Root | None \<Rightarrow> False)"

definition orphans :: "pin_set \<Rightarrow> content_hash list \<Rightarrow> content_hash list" where
  "orphans ps store_hashes = filter (\<lambda>h. \<not> hm_contains ps h) store_hashes"

definition chunk_is_orphan :: "pin_set \<Rightarrow> content_hash \<Rightarrow> bool" where
  "chunk_is_orphan ps c =
     (\<not> list_ex (\<lambda>v. pr_kind v = Root \<and> pr_recursive v \<and> c \<in> set (pr_descendants v)) (hm_values ps))"

definition sweep_orphan_chunks :: "pin_set \<Rightarrow> nat \<times> pin_set" where
  "sweep_orphan_chunks ps =
     (let cs = map fst (filter (\<lambda>(k, v). pr_kind v = Chunk) ps)
      in fold (\<lambda>c (n, p). if chunk_is_orphan p c then (n + 1, hm_remove c p) else (n, p)) cs (0, ps))"

subsection \<open>Listing and removal\<close>

definition list_complete :: "blob_fs \<Rightarrow> content_hash list" where
  "list_complete fs =
     filter (has_complete fs)
       (remdups (concat (map (\<lambda>(d, x). case d of Blob h \<Rightarrow> [h] | Importing h \<Rightarrow> []) fs)))"

definition BlobStore_remove :: "removal \<Rightarrow> content_hash \<Rightarrow> blob_fs \<Rightarrow> (io_error, bool) result \<times> blob_fs" where
  "BlobStore_remove rm h fs =
     (case hm_get fs (Blob h) of
        None \<Rightarrow> (Inr False, fs)
      | Some d \<Rightarrow>
          if \<not> bd_complete d then (Inl RefuseIncomplete, fs)
          else let (ok, fs') = remove_dir_all rm (Blob h) fs in (if ok then Inr True else Inl IoFailed, fs'))"

text \<open>
  The collections remove blob by blob and go on after a failure; \<open>rms\<close> says how the removal of each
  blob ends. A collection that stops in between leaves the disk as one in which the removals it
  did not reach fail before they delete a file.
\<close>

definition remove_collect ::
  "(content_hash \<Rightarrow> removal) \<Rightarrow> content_hash \<Rightarrow> content_hash list \<times> blob_fs \<Rightarrow> content_hash list \<times> blob_fs" where
  "remove_collect rms h s =
     (case BlobStore_remove (rms h) h (snd s) of
        (Inr True, fs) \<Rightarrow> (fst s @ [h], fs)
      | (_, fs) \<Rightarrow> (fst s, fs))"

definition gc_list :: "(content_hash \<Rightarrow> removal) \<Rightarrow> content_hash list \<Rightarrow> blob_fs \<Rightarrow> content_hash list \<times> blob_fs" where
  "gc_list rms hs fs = (let (removed, fs') = fold (remove_collect rms) hs ([], fs) in (sort_key be_nat removed, fs'))"

definition gc_orphans :: "(content_hash \<Rightarrow> removal) \<Rightarrow> pin_set \<Rightarrow> blob_fs \<Rightarrow> content_hash list \<times> blob_fs" where
  "gc_orphans rms ps fs = gc_list rms (orphans ps (list_complete fs)) fs"

definition gc_unpinned :: "(content_hash \<Rightarrow> removal) \<Rightarrow> content_hash list \<Rightarrow> blob_fs \<Rightarrow> content_hash list \<times> blob_fs" where
  "gc_unpinned rms pinned fs = gc_list rms (filter (\<lambda>h. h \<notin> set pinned) (list_complete fs)) fs"

definition gc_all :: "(content_hash \<Rightarrow> removal) \<Rightarrow> blob_fs \<Rightarrow> content_hash list \<times> blob_fs" where
  "gc_all rms fs = gc_list rms (list_complete fs) fs"

definition total_size :: "blob_fs \<Rightarrow> u64" where
  "total_size fs =
     fold (\<lambda>h acc. case store_meta fs h of Inl e \<Rightarrow> acc | Inr (sz, _) \<Rightarrow> sat_add64 acc sz) (list_complete fs) 0"

section \<open>The store in memory\<close>

type_synonym mem_blobs = "(content_hash, bytes) hmap"

definition MemStore_put_bytes :: "hash_fun \<Rightarrow> bytes \<Rightarrow> mem_blobs \<Rightarrow> content_hash \<times> mem_blobs" where
  "MemStore_put_bytes H data m = (H data, hm_insert (H data) data m)"

definition MemStore_has :: "mem_blobs \<Rightarrow> content_hash \<Rightarrow> bool" where
  "MemStore_has m h = hm_contains m h"

definition MemStore_size :: "mem_blobs \<Rightarrow> content_hash \<Rightarrow> (chunk_error, u64) result" where
  "MemStore_size m h = (case hm_get m h of None \<Rightarrow> Inl Io | Some v \<Rightarrow> Inr (of_nat (length v)))"

definition MemStore_chunk_count :: "mem_blobs \<Rightarrow> content_hash \<Rightarrow> (chunk_error, u32) result" where
  "MemStore_chunk_count m h = (case MemStore_size m h of Inl e \<Rightarrow> Inl e | Inr n \<Rightarrow> Inr (chunk_count_for n))"

definition MemStore_total_bytes :: "mem_blobs \<Rightarrow> u64" where
  "MemStore_total_bytes m = sum_list (map (\<lambda>v. of_nat (length v)) (hm_values m))"

definition MemStore_read_all :: "mem_blobs \<Rightarrow> content_hash \<Rightarrow> (chunk_error, bytes) result" where
  "MemStore_read_all m h = (case hm_get m h of None \<Rightarrow> Inl Io | Some v \<Rightarrow> Inr v)"

definition clamp_slice :: "bytes \<Rightarrow> byte_range \<Rightarrow> bytes" where
  "clamp_slice buf r =
     (let len = of_nat (length buf) :: u64;
          s = min (br_start r) len;
          e = max (min (br_end r) len) s
      in take (unat e - unat s) (drop (unat s) buf))"

definition MemStore_read_range :: "mem_blobs \<Rightarrow> content_hash \<Rightarrow> range_spec \<Rightarrow> (chunk_error, bytes) result" where
  "MemStore_read_range m h spec =
     (case MemStore_read_all m h of
        Inl e \<Rightarrow> Inl e
      | Inr buf \<Rightarrow> Inr (case spec of
                          All \<Rightarrow> buf
                        | Single r \<Rightarrow> clamp_slice buf r
                        | Multi rs \<Rightarrow> concat (map (clamp_slice buf) rs)))"

definition MemStore_read_chunk :: "mem_blobs \<Rightarrow> content_hash \<Rightarrow> u32 \<Rightarrow> (chunk_error, bytes option) result" where
  "MemStore_read_chunk m h index =
     (case hm_get m h of
        None \<Rightarrow> Inr None
      | Some buf \<Rightarrow>
          if index \<ge> chunk_count_for (of_nat (length buf)) then Inr None
          else let start = unat index * CHUNK_SIZE;
                   e = min (start + CHUNK_SIZE) (length buf)
               in Inr (Some (take (e - start) (drop start buf))))"


section \<open>Reading a held blob\<close>

definition MAX_BLOB :: nat where
  "MAX_BLOB = (2 ^ 32 - 1) * CHUNK_SIZE"

definition dir_holds :: "bytes \<Rightarrow> blob_dir \<Rightarrow> bool" where
  "dir_holds c d = (bd_complete d \<and>
     (\<exists>m. bd_meta d = Some m \<and> bm_size_bytes m = of_nat (length c) \<and>
        bm_chunk_count m = of_nat (length (chunks CHUNK_SIZE c))) \<and>
     (\<forall>i < length (chunks CHUNK_SIZE c). hm_get (bd_chunks d) i = Some (chunks CHUNK_SIZE c ! i)))"

lemma length_chunks: "0 < n \<Longrightarrow> length (chunks n xs) = (length xs + n - 1) div n"
proof (induction n xs rule: chunks.induct)
  case (1 n xs)
  show ?case
  proof (cases "xs = []")
    case False
    then have "length (chunks n xs) = Suc ((length xs - n + n - 1) div n)"
      using 1 by (simp add: chunks_Cons)
    also have "\<dots> = (length xs + n - 1) div n"
      using 1(2) False by (cases xs; cases "length xs \<le> n") (auto simp: div_if Suc_leI)
    finally show ?thesis .
  qed (use 1 in \<open>simp add: chunks.simps\<close>)
qed

lemma nth_chunks: "0 < n \<Longrightarrow> i < length (chunks n xs) \<Longrightarrow> chunks n xs ! i = take n (drop (i * n) xs)"
proof (induction i arbitrary: xs)
  case 0
  then show ?case by (cases "xs = []") (simp_all add: chunks.simps [of n xs])
next
  case (Suc i)
  then have ne: "xs \<noteq> []" by (auto simp: chunks.simps [of n xs])
  with Suc.prems Suc.IH [of "drop n xs"] show ?case
    by (simp add: chunks_Cons add.commute)
qed

lemma range_loop_ok:
  assumes "\<forall>(i, k) \<in> set xs. rd k \<noteq> None \<and> piece i (the (rd k)) \<noteq> None \<and> \<not> of_nat i > cnt"
  shows "range_loop rd cnt piece xs acc =
    Some (Inr (acc @ concat (map (\<lambda>(i, k). the (piece i (the (rd k)))) xs)))"
  using assms by (induction rd cnt piece xs acc rule: range_loop.induct) auto

lemma enumerate_offset:
  "List.enumerate 0 (map f [a..<b]) = map (\<lambda>i. (i, f (a + i))) [0..<b - a]"
  by (rule nth_equalityI) (simp_all add: nth_enumerate_eq)


lemma slice_clamp: "i \<le> length xs \<Longrightarrow> slice i (min (i + k) (length xs)) xs = Some (take k (drop i xs))"
  by (cases "i + k \<le> length xs") (simp_all add: slice_def min_def)

lemma range_pieces:
  fixes c s e
  defines "n \<equiv> CHUNK_SIZE"
  defines "a \<equiv> s div n" and "b \<equiv> (e - 1) div n"
  defines "last_len \<equiv> if b = a then e - s else (e - 1) mod n + 1"
  defines "pc \<equiv> \<lambda>i. range_piece (b + 1 - a) (s mod n) last_len i (take n (drop ((a + i) * n) c))"
  assumes se: "s < e" "e \<le> length c"
  shows "(\<forall>i < b + 1 - a. pc i \<noteq> None) \<and>
    concat (map (\<lambda>i. the (pc i)) [0..<b + 1 - a]) = take (e - s) (drop s c)"
proof -
  have n: "0 < n" by (simp add: n_def CHUNK_SIZE_def)
  have ab: "a \<le> b" unfolding a_def b_def using se by (intro div_le_mono) simp
  have first: "s mod n \<le> length (take n (drop (a * n) c))"
  proof -
    have "a * n + s mod n = s" by (simp add: a_def)
    then have "s mod n \<le> length c - a * n" using se by linarith
    moreover have "s mod n \<le> n" using n by (simp add: less_imp_le)
    ultimately show ?thesis by simp
  qed
  show ?thesis
  proof (cases "a = b")
    case True
    have "pc 0 = Some (take (e - s) (drop (s mod n) (take n (drop (a * n) c))))"
      using slice_clamp [OF first] True by (simp add: pc_def range_piece_def last_len_def)
    moreover have "take (e - s) (drop (s mod n) (take n (drop (a * n) c))) = take (e - s) (drop s c)"
      unfolding a_def using slice_one_chunk [OF n se(1)] True by (simp add: a_def b_def)
    ultimately show ?thesis using True by simp
  next
    case False
    define m where "m = b - a"
    have m: "0 < m" "b = a + m" using False ab by (simp_all add: m_def)
    have p0: "pc 0 = Some (drop (s mod n) (take n (drop (a * n) c)))"
      using first m by (simp add: pc_def range_piece_def slice_def)
    have pm: "pc m = Some (take ((e - 1) mod n + 1) (take n (drop (b * n) c)))"
      using m by (simp add: pc_def range_piece_def slice_def last_len_def min_def)
    have pi: "pc i = Some (take n (drop ((a + i) * n) c))" if "0 < i" "i < m" for i
      using that m by (simp add: pc_def range_piece_def)
    have some: "pc i \<noteq> None" if "i < b + 1 - a" for i
      using that p0 pm pi m by (cases "i = 0"; cases "i = m") auto
    have lt: "s div n < (e - 1) div n" using False ab by (simp add: a_def b_def)
    have "b + 1 - a = Suc m" using m by simp
    then have "[0..<b + 1 - a] = 0 # [1..<m] @ [m]" using m(1) by (simp add: upt_conv_Cons)
    then have "concat (map (\<lambda>i. the (pc i)) [0..<b + 1 - a]) =
        drop (s mod n) (take n (drop (a * n) c)) @ concat (map (\<lambda>i. the (pc i)) [1..<m]) @
        take ((e - 1) mod n + 1) (take n (drop (b * n) c))"
      by (simp add: p0 pm)
    also have "map (\<lambda>i. the (pc i)) [1..<m] = map (\<lambda>k. take n (drop (k * n) c)) [Suc a..<b]"
      by (rule nth_equalityI) (use pi m in auto)
    also have "drop (s mod n) (take n (drop (a * n) c)) @ concat (map (\<lambda>k. take n (drop (k * n) c)) [Suc a..<b]) @
        take ((e - 1) mod n + 1) (take n (drop (b * n) c)) = take (e - s) (drop s c)"
      unfolding a_def b_def by (rule slice_chunks [OF n se lt])
    finally show ?thesis using some by blast
  qed
qed


lemma read_range_held:
  assumes "hm_get fs (Blob h) = Some d" and "dir_holds c d" and "length c \<le> MAX_BLOB"
    and "br_start r < br_end r" and "unat (br_end r) \<le> length c"
  shows "read_range_sync fs h r =
    Some (Inr (take (unat (br_end r) - unat (br_start r)) (drop (unat (br_start r)) c)))"
proof -
  let ?n = CHUNK_SIZE and ?s = "unat (br_start r)" and ?e = "unat (br_end r)"
  let ?a = "?s div ?n" and ?b = "(?e - 1) div ?n" and ?len = "of_nat (length c) :: u64"
  let ?l = "if ?b = ?a then ?e - ?s else (?e - 1) mod ?n + 1"
  have n: "0 < ?n" by (simp add: CHUNK_SIZE_def)
  have len: "unat ?len = length c" using assms(3) by (simp add: unat_of_nat_small MAX_BLOB_def CHUNK_SIZE_def)
  have se: "?s < ?e" using assms(4) by (simp add: word_less_nat_alt)
  have valid: "range_valid ?len r" using assms(4,5) len by (simp add: range_valid_def word_le_nat_alt)
  obtain x y where ch: "chunks_for_range ?len r = Inr (x, y, ?s mod ?n, ?l)" "unat x = ?a" "unat y = ?b + 1"
    using chunks_for_range_nat [OF valid] len assms(3) by (auto simp: MAX_BLOB_def)
  obtain cnt where meta: "store_meta fs h = Inr (?len, cnt)" "cnt = of_nat (length (chunks ?n c))"
    using assms(1,2) by (auto simp: store_meta_def dir_holds_def)
  have count: "length (chunks ?n c) < 2 ^ 32"
    unfolding length_chunks [OF n] using assms(3) by (simp add: MAX_BLOB_def CHUNK_SIZE_def)
  then have cnt: "unat cnt = length (chunks ?n c)" by (simp add: meta(2) unat_of_nat_small)
  have bl: "?b < length (chunks ?n c)"
    unfolding length_chunks [OF n] using assms(5) se by (simp add: CHUNK_SIZE_def)
  have rd: "read_chunk_sync fs h (of_nat k) = Some (take ?n (drop (k * ?n) c))" if "k \<le> ?b" for k
    using that bl count assms(1,2)
    by (simp add: read_chunk_sync_def dir_holds_def unat_of_nat_small nth_chunks [OF n])
  let ?p = "\<lambda>i. range_piece (?b + 1 - ?a) (?s mod ?n) ?l i"
  let ?xs = "map (\<lambda>i. (i, of_nat (?a + i))) [0..<?b + 1 - ?a] :: (nat \<times> u32) list"
  note pieces = range_pieces [OF se assms(5)]
  have small: "\<not> cnt < of_nat i" if "i < ?b + 1 - ?a" for i
    using that bl count cnt by (simp add: word_less_nat_alt unat_of_nat_small)
  have ok: "read_chunk_sync fs h (of_nat (?a + i)) = Some (take ?n (drop ((?a + i) * ?n) c))"
    if "i < ?b + 1 - ?a" for i
    by (rule rd) (use that in linarith)
  have "range_loop (read_chunk_sync fs h) cnt ?p ?xs [] =
      Some (Inr ([] @ concat (map (\<lambda>(i, k). the (?p i (the (read_chunk_sync fs h k)))) ?xs)))"
    using conjunct1 [OF pieces] small by (intro range_loop_ok) (simp add: ok del: of_nat_add One_nat_def)
  also have "concat (map (\<lambda>(i, k). the (?p i (the (read_chunk_sync fs h k)))) ?xs) =
      concat (map (\<lambda>i. the (?p i (take ?n (drop ((?a + i) * ?n) c)))) [0..<?b + 1 - ?a])"
    by (intro arg_cong [where f = concat]) (simp add: ok del: of_nat_add)
  also have "\<dots> = take (?e - ?s) (drop ?s c)" by (rule conjunct2 [OF pieces])
  finally have loop: "range_loop (read_chunk_sync fs h) cnt ?p ?xs [] = Some (Inr (take (?e - ?s) (drop ?s c)))"
    by simp
  have guard: "\<not> (br_end r = 0 \<or> ?len \<le> br_start r)" "min (br_end r) ?len = br_end r"
    using valid se by (auto simp: range_valid_def min_absorb1)
  have new: "ByteRange_new (br_start r) (br_end r) = Inr r" using assms(4) by (simp add: ByteRange_new_def)
  have "read_range_sync fs h r = range_loop (read_chunk_sync fs h) cnt
      (range_piece (unat y - unat x) (?s mod ?n) ?l) (List.enumerate 0 (map of_nat [unat x..<unat y])) []"
    unfolding read_range_sync_def meta(1) using guard new ch(1) by simp
  also have "\<dots> = Some (Inr (take (?e - ?s) (drop ?s c)))"
    unfolding ch(2,3) enumerate_offset by (rule loop)
  finally show ?thesis .
qed


section \<open>Crash consistency\<close>

text \<open>A state on the way to storing a blob under \<open>h\<close>: the other blobs are untouched.\<close>

definition others_same :: "content_hash \<Rightarrow> blob_fs \<Rightarrow> blob_fs \<Rightarrow> bool" where
  "others_same h fs0 fs = (\<forall>h'. h' \<noteq> h \<longrightarrow> hm_get fs (Blob h') = hm_get fs0 (Blob h'))"

definition storing :: "content_hash \<Rightarrow> blob_fs \<Rightarrow> blob_fs \<Rightarrow> bool" where
  "storing h fs0 fs = (others_same h fs0 fs \<and> \<not> has_complete fs h)"

definition stored_as :: "content_hash \<Rightarrow> bytes \<Rightarrow> blob_fs \<Rightarrow> blob_fs \<Rightarrow> bool" where
  "stored_as h c fs0 fs = (others_same h fs0 fs \<and> (\<exists>d. hm_get fs (Blob h) = Some d \<and> dir_holds c d))"

fun quiet :: "content_hash \<Rightarrow> fs_op \<Rightarrow> bool" where
  "quiet h (CreateDir d) = (d \<in> {Blob h, Importing h})"
| "quiet h (CreateChunksDir d) = (d \<in> {Blob h, Importing h})"
| "quiet h (WriteChunk d i b) = (d \<in> {Blob h, Importing h})"
| "quiet h (WriteSha d i b) = (d \<in> {Blob h, Importing h})"
| "quiet h (WriteMeta d m) = (d \<in> {Blob h, Importing h})"
| "quiet h (WriteComplete d) = (d = Importing h)"
| "quiet h (Install a b r t) = False"

lemma get_dir_upd [simp]:
  "hm_get (dir_upd d f fs) e = (if e = d then map_option f (hm_get fs d) else hm_get fs e)"
  by (simp add: dir_upd_def split: option.splits)

lemma get_create [simp]:
  "hm_get (create_dir_all d fs) e =
     (if e = d then Some (case hm_get fs d of None \<Rightarrow> empty_dir | Some x \<Rightarrow> x) else hm_get fs e)"
  by (auto simp: create_dir_all_def hm_contains_def split: option.splits)

lemma empty_incomplete [simp]: "\<not> bd_complete empty_dir"
  by (simp add: empty_dir_def)

lemma get_remove_dir_all:
  "hm_get (snd (remove_dir_all rm d fs)) e =
     (if e = d then (case rm of None \<Rightarrow> None | Some gone \<Rightarrow> map_option (fold unlink gone) (hm_get fs d)) else hm_get fs e)"
  by (simp add: remove_dir_all_def split: option.splits)

lemma others_same_trans: "others_same h fs0 fs \<Longrightarrow> others_same h fs fs' \<Longrightarrow> others_same h fs0 fs'"
  by (simp add: others_same_def)

lemma quiet_apply: "quiet h p \<Longrightarrow> storing h fs0 fs \<Longrightarrow> storing h fs0 (apply_op p fs)"
  by (cases p) (auto simp: storing_def others_same_def has_complete_def split: option.splits)

lemma quiet_fail: "quiet h p \<Longrightarrow> storing h fs0 fs \<Longrightarrow> storing h fs0 (fail_op k part p fs)"
  by (cases p) (auto simp: storing_def others_same_def has_complete_def split: option.splits)

lemma quiet_fold: "list_all (quiet h) ps \<Longrightarrow> storing h fs0 fs \<Longrightarrow> storing h fs0 (fold apply_op ps fs)"
  by (induction ps arbitrary: fs) (auto simp: quiet_apply)

lemma run_ops_last:
  assumes "run_ops fault (ps @ [p]) fs = (ok, fs')" and "list_all (quiet h) ps" and "storing h fs0 fs"
  obtains (before) "\<not> ok" and "storing h fs0 fs'"
    | (cut) k part where "\<not> ok" and "fault = Some (length ps, k, part)" and "fs' = fail_op k part p (fold apply_op ps fs)"
    | (finished) "ok" and "fs' = apply_op p (fold apply_op ps fs)"
proof (cases fault)
  case None
  then show thesis using assms(1) that(3) by auto
next
  case (Some f)
  obtain n k part where f: "f = (n, k, part)" by (cases f)
  consider "n < length ps" | "n = length ps" | "length ps < n" by linarith
  then show thesis
  proof cases
    case 1
    then have "fs' = fail_op k part (ps ! n) (fold apply_op (take n ps) fs)" "\<not> ok"
      using assms(1) Some f by (auto simp: nth_append)
    moreover have "list_all (quiet h) (take n ps)" "quiet h (ps ! n)"
      using assms(2) 1 by (auto simp: list_all_length)
    ultimately show thesis using assms(3) that(1) by (simp add: quiet_fail quiet_fold)
  qed (use assms(1) Some f that(2,3) in auto)
qed

text \<open>The effect of writing the chunks.\<close>

lemma write_chunks_get:
  assumes "hm_get fs d = Some x"
  shows "\<exists>y. hm_get (fold apply_op (map (\<lambda>(i, b). WriteChunk d i b) (List.enumerate k cs)) fs) d = Some y \<and>
    (\<forall>i. hm_get (bd_chunks y) i = (if k \<le> i \<and> i < k + length cs then Some (cs ! (i - k)) else hm_get (bd_chunks x) i))"
  using assms
proof (induction cs arbitrary: k fs x)
  case (Cons c cs)
  let ?x = "x\<lparr>bd_chunks := hm_insert k c (bd_chunks x)\<rparr>"
  have "hm_get (apply_op (WriteChunk d k c) fs) d = Some ?x" using Cons.prems by simp
  from Cons.IH [OF this, of "Suc k"] show ?case
    by (auto simp: nth_Cons' Suc_le_eq elim!: ex_forward)
qed auto

lemma write_chunks_sha_get:
  assumes "hm_get fs d = Some x"
  shows "\<exists>y. hm_get (fold apply_op
      (concat (map (\<lambda>(i, c). [WriteChunk d i c, WriteSha d i (H c)]) (List.enumerate k cs))) fs) d = Some y \<and>
    (\<forall>i. hm_get (bd_chunks y) i = (if k \<le> i \<and> i < k + length cs then Some (cs ! (i - k)) else hm_get (bd_chunks x) i))"
  using assms
proof (induction cs arbitrary: k fs x)
  case (Cons c cs)
  let ?x = "x\<lparr>bd_chunks := hm_insert k c (bd_chunks x), bd_shas := hm_insert k (H c) (bd_shas x)\<rparr>"
  have "hm_get (apply_op (WriteSha d k (H c)) (apply_op (WriteChunk d k c) fs)) d = Some ?x" using Cons.prems by simp
  from Cons.IH [OF this, of "Suc k"] show ?case
    by (auto simp: nth_Cons' Suc_le_eq elim!: ex_forward)
qed auto

lemma put_quiet: "list_all (quiet h)
   ([CreateChunksDir (Blob h)] @ write_chunk_ops H (Blob h) cs @ [WriteMeta (Blob h) m])"
  by (auto simp: write_chunk_ops_def list_all_iff in_set_enumerate_eq)

lemma put_stores:
  assumes "storing h fs0 fs"
  shows "stored_as h c fs0 (fold apply_op (put_ops H h c) fs)"
proof -
  let ?cs = "chunks CHUNK_SIZE c"
  let ?m = "\<lparr>bm_hash = h, bm_size_bytes = of_nat (length c), bm_chunk_count = of_nat (length ?cs)\<rparr>"
  let ?qs = "[CreateChunksDir (Blob h)] @ write_chunk_ops H (Blob h) ?cs @ [WriteMeta (Blob h) ?m]"
  have ops: "put_ops H h c = ?qs @ [WriteComplete (Blob h)]" by (simp add: put_ops_def Let_def)
  have st: "storing h fs0 (fold apply_op ?qs fs)" by (rule quiet_fold [OF put_quiet assms])
  obtain x where x: "hm_get (apply_op (CreateChunksDir (Blob h)) fs) (Blob h) = Some x" by simp
  obtain y where y: "hm_get (fold apply_op (write_chunk_ops H (Blob h) ?cs) (apply_op (CreateChunksDir (Blob h)) fs)) (Blob h) = Some y"
    "\<forall>i. hm_get (bd_chunks y) i = (if i < length ?cs then Some (?cs ! i) else hm_get (bd_chunks x) i)"
    using write_chunks_sha_get [OF x, of H 0 ?cs] by (auto simp: write_chunk_ops_def)
  have "hm_get (fold apply_op (put_ops H h c) fs) (Blob h) = Some (y\<lparr>bd_meta := Some ?m, bd_complete := True\<rparr>)"
    using y(1) by (simp add: ops)
  moreover have "dir_holds c (y\<lparr>bd_meta := Some ?m, bd_complete := True\<rparr>)"
    using y(2) by (auto simp: dir_holds_def)
  moreover have "others_same h fs0 (fold apply_op (put_ops H h c) fs)"
    using st by (simp add: ops storing_def others_same_def)
  ultimately show ?thesis by (auto simp: stored_as_def)
qed

lemma put_cases:
  assumes "\<not> has_complete fs (H c)" and "put_bytes_sync H fault c fs = (r, fs')"
  shows "storing (H c) fs fs' \<and> isl r \<or> stored_as (H c) c fs fs'"
proof -
  let ?h = "H c"
  let ?qs = "[CreateChunksDir (Blob ?h)] @ write_chunk_ops H (Blob ?h) (chunks CHUNK_SIZE c) @ [WriteMeta (Blob ?h)
    \<lparr>bm_hash = ?h, bm_size_bytes = of_nat (length c), bm_chunk_count = of_nat (length (chunks CHUNK_SIZE c))\<rparr>]"
  have st: "storing ?h fs fs" using assms(1) by (simp add: storing_def others_same_def)
  have ops: "put_ops H ?h c = ?qs @ [WriteComplete (Blob ?h)]" by (simp add: put_ops_def Let_def)
  obtain ok where run: "run_ops fault (?qs @ [WriteComplete (Blob ?h)]) fs = (ok, fs')" and r: "isl r = (\<not> ok)"
    using assms by (auto simp: put_bytes_sync_def ops Let_def split: prod.splits)
  have full: "stored_as ?h c fs (apply_op (WriteComplete (Blob ?h)) (fold apply_op ?qs fs))"
    using put_stores [OF st, of c H] by (simp add: ops)
  have mid: "storing ?h fs (fold apply_op ?qs fs)" by (rule quiet_fold [OF put_quiet st])
  from run_ops_last [OF run put_quiet st] show ?thesis
    by cases (use full mid r in \<open>auto split: if_splits\<close>)
qed

lemma put_others: "others_same (H c) fs (snd (put_bytes_sync H fault c fs))"
proof (cases "has_complete fs (H c)")
  case True
  then show ?thesis by (simp add: put_bytes_sync_def others_same_def)
next
  case False
  obtain r fs' where "put_bytes_sync H fault c fs = (r, fs')" by force
  with put_cases [OF False this] show ?thesis by (auto simp: storing_def stored_as_def)
qed

text \<open>Importing: the staged directory is complete, whatever was left of an earlier one.\<close>

definition staging_ops :: "content_hash \<Rightarrow> u64 \<Rightarrow> bytes list \<Rightarrow> fs_op list" where
  "staging_ops h sz reads =
     [CreateChunksDir (Importing h)] @ map (\<lambda>(i, b). WriteChunk (Importing h) i b) (List.enumerate 0 reads) @
     [WriteMeta (Importing h) \<lparr>bm_hash = h, bm_size_bytes = sz, bm_chunk_count = of_nat (length reads)\<rparr>,
      WriteComplete (Importing h), CreateDir (Blob h)]"

lemma import_ops_staging:
  "import_ops h sz reads rename_ok tidy = staging_ops h sz reads @ [Install (Importing h) (Blob h) rename_ok tidy]"
  by (simp add: import_ops_def staging_ops_def)

lemma length_staging_ops: "length (staging_ops h sz reads) = length reads + 4"
  by (simp add: staging_ops_def)

lemma staging_quiet: "list_all (quiet h) (staging_ops h sz reads)"
  by (auto simp: staging_ops_def list_all_iff in_set_enumerate_eq)

lemma staged:
  "\<exists>s t. hm_get (fold apply_op (staging_ops h sz reads) fs) (Importing h) = Some s \<and> bd_complete s \<and>
    bd_meta s = Some \<lparr>bm_hash = h, bm_size_bytes = sz, bm_chunk_count = of_nat (length reads)\<rparr> \<and>
    (\<forall>i < length reads. hm_get (bd_chunks s) i = Some (reads ! i)) \<and>
    hm_get (fold apply_op (staging_ops h sz reads) fs) (Blob h) = Some t"
proof -
  let ?w = "map (\<lambda>(i, b). WriteChunk (Importing h) i b) (List.enumerate 0 reads)"
  let ?fs1 = "apply_op (CreateChunksDir (Importing h)) fs"
  obtain x where x: "hm_get ?fs1 (Importing h) = Some x" by simp
  obtain y where y: "hm_get (fold apply_op ?w ?fs1) (Importing h) = Some y"
    "\<forall>i < length reads. hm_get (bd_chunks y) i = Some (reads ! i)"
    using write_chunks_get [OF x, of 0 reads] by auto
  then show ?thesis by (simp add: staging_ops_def)
qed

lemma copy_holds:
  assumes "dir_holds c src"
  shows "dir_holds c (copy_dir_recursive src dst)"
proof -
  have "hm_get (foldr (\<lambda>(i, b). hm_insert i b) xs m) i = (case hm_get xs i of None \<Rightarrow> hm_get m i | Some b \<Rightarrow> Some b)"
    for xs m :: "(nat, bytes) hmap" and i
    by (induction xs) auto
  with assms show ?thesis by (auto simp: dir_holds_def copy_dir_recursive_def)
qed

lemma import_stages:
  assumes "storing h fs0 fs"
  shows "stored_as h c fs0 (fold apply_op (import_ops h (of_nat (length c)) (chunks CHUNK_SIZE c) rename_ok tidy) fs)"
proof -
  let ?reads = "chunks CHUNK_SIZE c"
  let ?mid = "fold apply_op (staging_ops h (of_nat (length c)) ?reads) fs"
  have st: "storing h fs0 ?mid" by (rule quiet_fold [OF staging_quiet assms])
  obtain s t where s: "hm_get ?mid (Importing h) = Some s" "hm_get ?mid (Blob h) = Some t" "dir_holds c s"
    using staged [of h "of_nat (length c)" ?reads fs] by (auto simp: dir_holds_def)
  then show ?thesis
    using st copy_holds [OF s(3), of t] by (auto simp: import_ops_staging storing_def stored_as_def others_same_def get_remove_dir_all)
qed

lemma import_others: "others_same (H c) fs (snd (import_file_sync H fault clear rename_ok tidy c reads fs))"
proof (cases "has_complete fs (H c)")
  case True
  then show ?thesis by (simp add: import_file_sync_def others_same_def)
next
  case False
  let ?h = "H c" and ?fs = "snd (remove_dir_all clear (Importing (H c)) fs)"
  let ?qs = "staging_ops ?h (of_nat (length c)) reads" and ?p = "Install (Importing ?h) (Blob ?h) rename_ok tidy"
  have st: "storing ?h fs ?fs" using False by (simp add: storing_def others_same_def has_complete_def get_remove_dir_all)
  have mid: "storing ?h fs (fold apply_op ?qs ?fs)" by (rule quiet_fold [OF staging_quiet st])
  obtain ok fs1 where run: "run_ops fault (?qs @ [?p]) ?fs = (ok, fs1)" by force
  then have "others_same ?h fs fs1"
    by (rule run_ops_last [OF _ staging_quiet st])
      (use mid in \<open>auto simp: storing_def others_same_def get_remove_dir_all split: option.splits\<close>)
  then show ?thesis
    using False run by (auto simp: import_file_sync_def import_ops_staging Let_def split: option.splits sum.splits)
qed

text \<open>
  The import of a file that is read in whole chunks and does not change under the import. Only a
  fallback copy that is cut short after it copied the sentinel can leave a broken complete blob.
\<close>

definition copies_sentinel :: "bytes list \<Rightarrow> fault \<Rightarrow> bool" where
  "copies_sentinel reads fault =
     (case fault of Some (n, k, part) \<Rightarrow> n = length reads + 4 \<and> CompleteFile \<in> fst ` set part | None \<Rightarrow> False)"

lemma copy_file_incomplete:
  "CompleteFile \<notin> fst ` set part \<Longrightarrow> bd_complete (fold (copy_file s) part t) = bd_complete t"
proof (induction part arbitrary: t)
  case (Cons p part)
  have "bd_complete (copy_file s p t) = bd_complete t"
    using Cons.prems by (cases p; cases "fst p") (auto split: option.splits)
  with Cons show ?case by simp
qed simp

lemma import_cases:
  assumes "\<not> has_complete fs (H c)" and "\<not> copies_sentinel (chunks CHUNK_SIZE c) fault"
    and "import_file_sync H fault clear rename_ok tidy c (chunks CHUNK_SIZE c) fs = (r, fs')"
  shows "storing (H c) fs fs' \<and> isl r \<or> stored_as (H c) c fs fs'"
proof -
  let ?h = "H c" and ?fs = "snd (remove_dir_all clear (Importing (H c)) fs)" and ?reads = "chunks CHUNK_SIZE c"
  let ?qs = "staging_ops ?h (of_nat (length c)) ?reads" and ?p = "Install (Importing ?h) (Blob ?h) rename_ok tidy"
  have st: "storing ?h fs ?fs" using assms(1) by (simp add: storing_def others_same_def has_complete_def get_remove_dir_all)
  have mid: "storing ?h fs (fold apply_op ?qs ?fs)" by (rule quiet_fold [OF staging_quiet st])
  obtain ok fs1 where run: "run_ops fault (?qs @ [?p]) ?fs = (ok, fs1)" by force
  have full: "stored_as ?h c fs (apply_op ?p (fold apply_op ?qs ?fs))"
    using import_stages [OF st, of c rename_ok tidy] by (simp add: import_ops_staging)
  have "\<not> ok \<and> storing ?h fs fs1 \<or> ok \<and> stored_as ?h c fs fs1"
  proof (rule run_ops_last [OF run staging_quiet st])
    fix k part
    assume cut: "\<not> ok" "fault = Some (length ?qs, k, part)" "fs1 = fail_op k part ?p (fold apply_op ?qs ?fs)"
    then have "CompleteFile \<notin> fst ` set part"
      using assms(2) by (simp add: copies_sentinel_def length_staging_ops)
    then show ?thesis
      using mid cut by (auto simp: storing_def others_same_def has_complete_def copy_file_incomplete split: option.splits)
  qed (use full in auto)
  then show ?thesis
    using assms(1,3) run by (auto simp: import_file_sync_def import_ops_staging Let_def split: option.splits sum.splits)
qed


section \<open>Removal and garbage collection\<close>

lemma get_remove:
  "hm_get (snd (BlobStore_remove rm h fs)) (Blob h') =
     (if h' = h \<and> has_complete fs h then (case rm of None \<Rightarrow> None | Some gone \<Rightarrow> map_option (fold unlink gone) (hm_get fs (Blob h)))
      else hm_get fs (Blob h'))"
  by (auto simp: BlobStore_remove_def has_complete_def remove_dir_all_def split: option.splits)

lemma has_complete_remove: "h' \<noteq> h \<Longrightarrow> has_complete (snd (BlobStore_remove rm h fs)) h' = has_complete fs h'"
  by (simp add: has_complete_def get_remove)

lemma remove_collect_eq:
  "remove_collect rms h (rs, fs) =
     (if has_complete fs h \<and> rms h = None then rs @ [h] else rs, snd (BlobStore_remove (rms h) h fs))"
  by (auto simp: remove_collect_def BlobStore_remove_def has_complete_def remove_dir_all_def split: option.splits)

lemma gc_fold:
  assumes "distinct hs"
  shows "hm_get (snd (fold (remove_collect rms) hs (rs, fs))) (Blob h) =
     (if h \<in> set hs then hm_get (snd (BlobStore_remove (rms h) h fs)) (Blob h) else hm_get fs (Blob h)) \<and>
   set (fst (fold (remove_collect rms) hs (rs, fs))) = set rs \<union> {h \<in> set hs. has_complete fs h \<and> rms h = None}"
  using assms
proof (induction hs arbitrary: rs fs)
  case (Cons g hs)
  have "has_complete (snd (BlobStore_remove (rms g) g fs)) h' = has_complete fs h'" if "h' \<in> set hs" for h'
    using Cons.prems that by (intro has_complete_remove) auto
  moreover have "hm_get (snd (BlobStore_remove (rms h) h (snd (BlobStore_remove (rms g) g fs)))) (Blob h) =
      hm_get (snd (BlobStore_remove (rms h) h fs)) (Blob h)" if "h \<noteq> g"
    using that has_complete_remove [of h g "rms g" fs] get_remove [of "rms g" g fs h] by (simp add: get_remove [of "rms h" h] split: option.splits)
  moreover have "hm_get (snd (BlobStore_remove (rms g) g fs)) (Blob h) = hm_get fs (Blob h)" if "h \<noteq> g"
    using that by (simp add: get_remove)
  ultimately show ?case
    using Cons.prems Cons.IH [of "if has_complete fs g \<and> rms g = None then rs @ [g] else rs" "snd (BlobStore_remove (rms g) g fs)"]
    by (cases "h = g") (auto simp: remove_collect_eq)
qed simp

lemma gc_list_get:
  assumes "distinct hs"
  shows "hm_get (snd (gc_list rms hs fs)) (Blob h) =
      (if h \<in> set hs then hm_get (snd (BlobStore_remove (rms h) h fs)) (Blob h) else hm_get fs (Blob h))"
    and "set (fst (gc_list rms hs fs)) = {h \<in> set hs. has_complete fs h \<and> rms h = None}"
  using gc_fold [OF assms, of rms "[]" fs h] gc_fold [OF assms, of rms "[]" fs]
  by (auto simp: gc_list_def split: prod.splits)

lemma distinct_list_complete [simp]: "distinct (list_complete fs)"
  by (simp add: list_complete_def)

lemma in_list_complete: "h \<in> set (list_complete fs) \<longleftrightarrow> has_complete fs h"
proof -
  have "\<exists>x. (Blob h, x) \<in> set fs" if "has_complete fs h"
    using that by (auto simp: has_complete_def split: option.splits dest: map_of_SomeD)
  then show ?thesis by (force simp: list_complete_def split: dir_name.splits)
qed

section \<open>The store as a machine\<close>

datatype store_op =
    PutBytes fault bytes
  | ImportFile fault removal bool removal bytes "bytes list"
  | FinalizeImport fault content_hash u64
  | RemoveBlob removal content_hash
  | GcOrphans "content_hash \<Rightarrow> removal" pin_set
  | GcUnpinned "content_hash \<Rightarrow> removal" "content_hash list"
  | GcAll "content_hash \<Rightarrow> removal"

fun store_step :: "hash_fun \<Rightarrow> store_op \<Rightarrow> blob_fs \<Rightarrow> blob_fs" where
  "store_step H (PutBytes fault c) fs = snd (put_bytes_sync H fault c fs)"
| "store_step H (ImportFile fault clear rename_ok tidy c reads) fs =
     snd (import_file_sync H fault clear rename_ok tidy c reads fs)"
| "store_step H (FinalizeImport fault h sz) fs = finalize_import fault h sz fs"
| "store_step H (RemoveBlob rm h) fs = snd (BlobStore_remove rm h fs)"
| "store_step H (GcOrphans rms ps) fs = snd (gc_orphans rms ps fs)"
| "store_step H (GcUnpinned rms hs) fs = snd (gc_unpinned rms hs fs)"
| "store_step H (GcAll rms) fs = snd (gc_all rms fs)"

fun op_contents :: "store_op \<Rightarrow> bytes set" where
  "op_contents (PutBytes f c) = {c}"
| "op_contents (ImportFile f cl r t c reads) = {c}"
| "op_contents _ = {}"

text \<open>
  The operations that can leave a blob broken and marked complete: a removal that fails after it
  deleted a file but not the sentinel, an import of a file that changes under it or comes in
  short reads, an import whose fallback copy is cut short after the sentinel was copied, and the
  finalising of a directory by hand.
\<close>

definition half_removes :: "removal \<Rightarrow> bool" where
  "half_removes rm = (case rm of None \<Rightarrow> False | Some gone \<Rightarrow> gone \<noteq> [] \<and> CompleteFile \<notin> set gone)"

fun spoils :: "hash_fun \<Rightarrow> content_hash \<Rightarrow> store_op \<Rightarrow> bool" where
  "spoils H h (PutBytes f c) = False"
| "spoils H h (ImportFile f cl r t c reads) = (H c = h \<and> (reads \<noteq> chunks CHUNK_SIZE c \<or> copies_sentinel reads f))"
| "spoils H h (FinalizeImport f g sz) = (g = h)"
| "spoils H h (RemoveBlob rm g) = (g = h \<and> half_removes rm)"
| "spoils H h (GcOrphans rms ps) = (\<not> PinSet_contains ps h \<and> half_removes (rms h))"
| "spoils H h (GcUnpinned rms hs) = (h \<notin> set hs \<and> half_removes (rms h))"
| "spoils H h (GcAll rms) = half_removes (rms h)"

definition sound :: "hash_fun \<Rightarrow> bytes \<Rightarrow> blob_fs \<Rightarrow> bool" where
  "sound H c fs = (\<forall>d. hm_get fs (Blob (H c)) = Some d \<longrightarrow> bd_complete d \<longrightarrow> dir_holds c d)"

lemma sound_incomplete: "\<not> has_complete fs (H c) \<Longrightarrow> sound H c fs"
  by (auto simp: sound_def has_complete_def)

lemma sound_same: "sound H c fs \<Longrightarrow> hm_get fs' (Blob (H c)) = hm_get fs (Blob (H c)) \<Longrightarrow> sound H c fs'"
  by (simp add: sound_def)

lemma sound_written: "storing (H c) fs fs' \<or> stored_as (H c) c fs fs' \<Longrightarrow> sound H c fs'"
  by (auto simp: storing_def stored_as_def sound_def has_complete_def)

lemma unlink_sentinel: "CompleteFile \<in> set gone \<Longrightarrow> \<not> bd_complete (fold unlink gone d)"
proof (induction gone arbitrary: d)
  case (Cons f gone)
  have mono: "\<not> bd_complete d \<Longrightarrow> \<not> bd_complete (fold unlink fl d)" for fl d
  proof (induction fl arbitrary: d)
    case (Cons g fl)
    then show ?case by (cases g) auto
  qed simp
  show ?case
  proof (cases "f = CompleteFile")
    case True
    have "\<not> bd_complete (unlink f d)" using True by simp
    from mono [OF this] show ?thesis by simp
  qed (use Cons in auto)
qed simp

lemma sound_remove:
  assumes "sound H c fs" and "\<not> half_removes rm"
  shows "sound H c (snd (BlobStore_remove rm (H c) fs))"
proof (cases rm)
  case (Some gone)
  with assms(2) consider "gone = []" | "CompleteFile \<in> set gone" by (auto simp: half_removes_def)
  then show ?thesis
    by cases (use assms(1) Some unlink_sentinel in \<open>auto simp: sound_def get_remove split: if_splits\<close>)
qed (use assms(1) in \<open>auto simp: sound_def get_remove split: if_splits\<close>)

lemma sound_gc:
  assumes "sound H c fs" and "distinct hs" and "H c \<in> set hs \<Longrightarrow> \<not> half_removes (rms (H c))"
  shows "sound H c (snd (gc_list rms hs fs))"
proof (cases "H c \<in> set hs")
  case True
  with assms(3) have "sound H c (snd (BlobStore_remove (rms (H c)) (H c) fs))" by (intro sound_remove assms(1)) simp
  with True show ?thesis by (simp add: sound_def gc_list_get(1) [OF assms(2)])
qed (use assms in \<open>simp add: sound_def gc_list_get(1)\<close>)

lemma finalize_others: "others_same h fs (finalize_import fault h sz fs)"
proof -
  have one: "others_same h g (apply_op p g)" "others_same h g (fail_op k part p g)"
    if "p \<in> {CreateChunksDir (Blob h), WriteMeta (Blob h) m, WriteComplete (Blob h)}" for p g k part m
    using that by (auto simp: others_same_def)
  have "others_same h g (fold apply_op ps g)" if "set ps \<subseteq> {CreateChunksDir (Blob h), WriteMeta (Blob h) m, WriteComplete (Blob h)}" for ps g m
    using that by (induction ps arbitrary: g) (auto intro: others_same_trans one simp: others_same_def)
  note many = this
  let ?ps = "[CreateChunksDir (Blob h),
     WriteMeta (Blob h) \<lparr>bm_hash = h, bm_size_bytes = sz, bm_chunk_count = count_chunks_on_disk fs h\<rparr>, WriteComplete (Blob h)]"
  have "others_same h fs (snd (run_ops fault ?ps fs))"
  proof (cases fault)
    case None
    then show ?thesis using many [of ?ps] by simp
  next
    case (Some f)
    obtain n k part where f: "f = (n, k, part)" by (cases f)
    have "set (take n ?ps) \<subseteq> set ?ps" by (rule set_take_subset)
    then have "others_same h fs (fold apply_op (take n ?ps) fs)" by (intro many) auto
    moreover have "others_same h g (fail_op k part (?ps ! n) g)" if "n < length ?ps" for g
      using nth_mem [OF that] by (intro one(2)) auto
    ultimately have "n < length ?ps \<Longrightarrow> others_same h fs (fail_op k part (?ps ! n) (fold apply_op (take n ?ps) fs))"
      by (blast intro: others_same_trans)
    moreover have "others_same h fs (fold apply_op ?ps fs)" by (intro many) auto
    ultimately show ?thesis unfolding Some f run_ops.simps by (simp only: snd_conv split: if_split) blast
  qed
  then show ?thesis by (simp add: finalize_import_def others_same_def)
qed

lemma sound_step:
  assumes "\<And>c'. c' \<in> op_contents p \<Longrightarrow> H c' = H c \<Longrightarrow> c' = c" and "\<not> spoils H (H c) p" and "sound H c fs"
  shows "sound H c (store_step H p fs)"
proof (cases p)
  case (PutBytes f c')
  show ?thesis
  proof (cases "H c' = H c")
    case True
    with PutBytes assms(1) have "c' = c" by simp
    then show ?thesis
      using PutBytes assms(3) put_cases [of fs H c f] sound_written [of H c fs]
      by (cases "has_complete fs (H c)"; cases "put_bytes_sync H f c fs") (auto simp: put_bytes_sync_def)
  qed (use PutBytes assms(3) put_others [of H c' fs f] in \<open>auto intro!: sound_same [of H c fs] simp: others_same_def\<close>)
next
  case (ImportFile f cl r t c' reads)
  show ?thesis
  proof (cases "H c' = H c")
    case True
    with ImportFile assms(1) have "c' = c" by simp
    then show ?thesis
      using ImportFile assms(2,3) import_cases [of fs H c f cl r t] sound_written [of H c fs]
      by (cases "has_complete fs (H c)"; cases "import_file_sync H f cl r t c reads fs") (auto simp: import_file_sync_def)
  qed (use ImportFile assms(3) import_others [of H c' fs f cl r t reads] in
      \<open>auto intro!: sound_same [of H c fs] simp: others_same_def\<close>)
next
  case (FinalizeImport f h sz)
  then show ?thesis
    using assms(2,3) finalize_others [of h fs f sz] by (auto intro!: sound_same [of H c fs] simp: others_same_def)
next
  case (RemoveBlob rm h)
  then show ?thesis
    using assms(2,3) sound_remove [of H c fs rm]
    by (cases "h = H c") (auto intro!: sound_same [of H c fs] simp: get_remove)
next
  case (GcOrphans rms ps)
  then have "PinSet_contains ps (H c) \<or> \<not> half_removes (rms (H c))" using assms(2) by simp
  then show ?thesis
    using GcOrphans assms(3) by (auto simp: gc_orphans_def orphans_def PinSet_contains_def intro!: sound_gc)
next
  case (GcUnpinned rms hs)
  then show ?thesis using assms(2,3) by (auto simp: gc_unpinned_def intro!: sound_gc)
next
  case (GcAll rms)
  then show ?thesis using assms(2,3) by (auto simp: gc_all_def intro!: sound_gc)
qed

lemma sound_run:
  assumes "inj_on H D" and "\<Union> (op_contents ` set ps) \<subseteq> D" and "c \<in> D" and "list_all (\<lambda>p. \<not> spoils H (H c) p) ps"
    and "sound H c fs"
  shows "sound H c (fold (store_step H) ps fs)"
  using assms(2,4,5)
proof (induction ps arbitrary: fs)
  case (Cons p ps)
  have "sound H c (store_step H p fs)"
    using Cons.prems assms(1,3) by (intro sound_step) (auto dest: inj_onD)
  with Cons show ?case by simp
qed simp

section \<open>The interface of a blob back end\<close>

text \<open>
  What a user of \<^verbatim>\<open>BlobReader\<close> and \<^verbatim>\<open>BlobImporter\<close> relies on: a stored blob is found under its
  hash, storing one blob keeps the others, and a range of a held blob reads its bytes. Both
  stores provide it, on contents among which the hash function is injective.
\<close>

locale blob_backend =
  fixes H :: hash_fun and ok :: "bytes \<Rightarrow> bool" and inv :: "'s \<Rightarrow> bool"
    and put :: "bytes \<Rightarrow> 's \<Rightarrow> 's" and content :: "'s \<Rightarrow> content_hash \<Rightarrow> bytes option"
    and read :: "'s \<Rightarrow> content_hash \<Rightarrow> byte_range \<Rightarrow> (chunk_error, bytes) result option"
  assumes inv_put: "inv s \<Longrightarrow> ok c \<Longrightarrow> inv (put c s)"
    and content_put: "inv s \<Longrightarrow> ok c \<Longrightarrow> content (put c s) h = (if h = H c then Some c else content s h)"
    and read_content: "inv s \<Longrightarrow> content s h = Some c \<Longrightarrow> br_start r < br_end r \<Longrightarrow> unat (br_end r) \<le> length c \<Longrightarrow>
      read s h r = Some (Inr (take (unat (br_end r) - unat (br_start r)) (drop (unat (br_start r)) c)))"
begin

lemma inv_puts: "inv s \<Longrightarrow> list_all ok cs \<Longrightarrow> inv (fold put cs s)"
  by (induction cs arbitrary: s) (auto intro: inv_put)

lemma content_puts:
  "inv s \<Longrightarrow> list_all ok cs \<Longrightarrow> inj_on H (set cs) \<Longrightarrow> c \<in> set cs \<Longrightarrow> content (fold put cs s) (H c) = Some c"
proof (induction cs rule: rev_induct)
  case (snoc d cs)
  have "inv (fold put cs s)" using snoc.prems(1,2) by (auto intro: inv_puts)
  then have "content (fold put (cs @ [d]) s) (H c) = (if H c = H d then Some d else content (fold put cs s) (H c))"
    using snoc.prems(2) by (simp add: content_put)
  moreover have "c \<in> set cs \<Longrightarrow> content (fold put cs s) (H c) = Some c"
    using snoc by (auto intro: inj_on_subset)
  ultimately show ?case using snoc.prems(3,4) by (auto simp: inj_on_def)
qed simp

lemma read_puts:
  assumes "inv s" and "list_all ok cs" and "inj_on H (set cs)" and "c \<in> set cs"
    and "br_start r < br_end r" and "unat (br_end r) \<le> length c"
  shows "read (fold put cs s) (H c) r =
    Some (Inr (take (unat (br_end r) - unat (br_start r)) (drop (unat (br_start r)) c)))"
  using read_content [OF inv_puts [OF assms(1,2)] content_puts [OF assms(1-4)] assms(5,6)] .

end

definition disk_content :: "blob_fs \<Rightarrow> content_hash \<Rightarrow> bytes option" where
  "disk_content fs h = (case BlobStore_read_all fs h of Inl e \<Rightarrow> None | Inr bs \<Rightarrow> Some bs)"

definition disk_inv :: "hash_fun \<Rightarrow> bytes set \<Rightarrow> blob_fs \<Rightarrow> bool" where
  "disk_inv H D fs = (inj_on H D \<and> D \<subseteq> {c. length c \<le> MAX_BLOB} \<and>
     (\<forall>h. has_complete fs h \<longrightarrow> (\<exists>c \<in> D. h = H c)) \<and> (\<forall>c \<in> D. sound H c fs))"

lemma read_all_chunks_eq:
  assumes "hm_get fs (Blob h) = Some d" and "\<forall>i < unat cnt. hm_get (bd_chunks d) i = Some (cs ! i)"
    and "length cs = unat cnt"
  shows "read_all_chunks fs h cnt = Inr (concat cs)"
proof -
  let ?f = "\<lambda>i acc. case read_chunk_sync fs h (of_nat i) of None \<Rightarrow> Inl Io | Some c \<Rightarrow> Inr (acc @ c)"
  have "fold_result ?f [0..<k] [] = (Inr (concat (take k cs)) :: (chunk_error, bytes) result)" if "k \<le> length cs" for k
    using that
  proof (induction k)
    case (Suc k)
    have "unat (of_nat k :: u32) = k"
      using Suc.prems assms(3) unat_bound [of cnt] by (intro unat_of_nat_small) simp
    then have "read_chunk_sync fs h (of_nat k) = Some (cs ! k)"
      using assms Suc.prems by (simp add: read_chunk_sync_def)
    with Suc show ?case by (simp add: fold_result_append take_Suc_conv_app_nth)
  qed simp
  from this [of "length cs"] show ?thesis by (simp add: read_all_chunks_def assms(3))
qed

lemma chunk_count_small: "length c \<le> MAX_BLOB \<Longrightarrow> unat (of_nat (length (chunks CHUNK_SIZE c)) :: u32) = length (chunks CHUNK_SIZE c)"
  by (intro unat_of_nat_small) (simp add: length_chunks MAX_BLOB_def CHUNK_SIZE_def)

lemma disk_content_holds:
  assumes "hm_get fs (Blob h) = Some d" and "dir_holds c d" and "length c \<le> MAX_BLOB"
  shows "disk_content fs h = Some c"
proof -
  let ?cs = "chunks CHUNK_SIZE c"
  have "store_meta fs h = Inr (of_nat (length c), of_nat (length ?cs))"
    using assms(1,2) by (auto simp: store_meta_def dir_holds_def)
  moreover have "read_all_chunks fs h (of_nat (length ?cs)) = Inr (concat ?cs)"
    using assms(2) chunk_count_small [OF assms(3)] by (intro read_all_chunks_eq [OF assms(1)]) (auto simp: dir_holds_def)
  ultimately show ?thesis
    using concat_chunks [of CHUNK_SIZE c] by (simp add: disk_content_def BlobStore_read_all_def CHUNK_SIZE_def)
qed

lemma disk_content_incomplete: "\<not> has_complete fs h \<Longrightarrow> disk_content fs h = None"
  by (auto simp: disk_content_def BlobStore_read_all_def store_meta_def has_complete_def split: option.splits)

lemma disk_content_cong: "hm_get fs' (Blob h) = hm_get fs (Blob h) \<Longrightarrow> disk_content fs' h = disk_content fs h"
  unfolding disk_content_def BlobStore_read_all_def store_meta_def read_all_chunks_def read_chunk_sync_def by (simp only:)

lemma disk_content_held:
  assumes "disk_inv H D fs" and "disk_content fs h = Some c"
  shows "\<exists>d. hm_get fs (Blob h) = Some d \<and> dir_holds c d \<and> c \<in> D"
proof -
  have "has_complete fs h" using assms(2) disk_content_incomplete by fastforce
  then obtain c' d where d: "c' \<in> D" "h = H c'" "hm_get fs (Blob h) = Some d" "bd_complete d"
    using assms(1) by (auto simp: disk_inv_def has_complete_def split: option.splits)
  then have "dir_holds c' d" "length c' \<le> MAX_BLOB" using assms(1) by (auto simp: disk_inv_def sound_def)
  with d assms(2) disk_content_holds show ?thesis by fastforce
qed

lemma put_complete:
  assumes "disk_inv H D fs" and "c \<in> D"
  shows "stored_as (H c) c fs (snd (put_bytes_sync H None c fs))"
proof (cases "has_complete fs (H c)")
  case True
  then obtain d where "hm_get fs (Blob (H c)) = Some d" "bd_complete d"
    by (auto simp: has_complete_def split: option.splits)
  with True assms show ?thesis by (auto simp: put_bytes_sync_def stored_as_def others_same_def disk_inv_def sound_def)
next
  case False
  obtain r fs' where p: "put_bytes_sync H None c fs = (r, fs')" by force
  then have "\<not> isl r" using False by (auto simp: put_bytes_sync_def Let_def)
  with put_cases [OF False p] p show ?thesis by simp
qed

lemma disk_inv_put:
  assumes "disk_inv H D fs" and "c \<in> D"
  shows "disk_inv H D (snd (put_bytes_sync H None c fs))"
proof -
  note st = put_complete [OF assms]
  have "sound H c' (snd (put_bytes_sync H None c fs))" if "c' \<in> D" for c'
    using sound_step [of "PutBytes None c" H c' fs] assms that by (auto simp: disk_inv_def dest: inj_onD)
  moreover have "\<exists>c' \<in> D. h = H c'" if "has_complete (snd (put_bytes_sync H None c fs)) h" for h
    using that st assms by (cases "h = H c") (auto simp: has_complete_def stored_as_def others_same_def disk_inv_def)
  ultimately show ?thesis using assms(1) by (simp add: disk_inv_def)
qed

lemma disk_content_put:
  assumes "disk_inv H D fs" and "c \<in> D"
  shows "disk_content (snd (put_bytes_sync H None c fs)) h = (if h = H c then Some c else disk_content fs h)"
proof (cases "h = H c")
  case True
  then show ?thesis using put_complete [OF assms] assms disk_content_holds by (auto simp: stored_as_def disk_inv_def)
next
  case False
  then have "hm_get (snd (put_bytes_sync H None c fs)) (Blob h) = hm_get fs (Blob h)"
    using put_others [of H c fs None] by (simp add: others_same_def)
  from disk_content_cong [OF this] False show ?thesis by simp
qed

interpretation disk_backend: blob_backend H "\<lambda>c. c \<in> D" "disk_inv H D"
  "\<lambda>c fs. snd (put_bytes_sync H None c fs)" disk_content read_range_sync for H D
proof
  show "disk_inv H D (snd (put_bytes_sync H None c s))" if "disk_inv H D s" "c \<in> D" for c s
    by (rule disk_inv_put [OF that])
  show "disk_content (snd (put_bytes_sync H None c s)) h = (if h = H c then Some c else disk_content s h)"
    if "disk_inv H D s" "c \<in> D" for c s h
    by (rule disk_content_put [OF that])
  show "read_range_sync s h r = Some (Inr (take (unat (br_end r) - unat (br_start r)) (drop (unat (br_start r)) c)))"
    if "disk_inv H D s" "disk_content s h = Some c" "br_start r < br_end r" "unat (br_end r) \<le> length c" for s h c r
  proof -
    note prems = that
    obtain d where "hm_get s (Blob h) = Some d" "dir_holds c d" "c \<in> D"
      using disk_content_held [of H D s h c] prems(1,2) by auto
    with prems(1,3,4) show ?thesis by (intro read_range_held) (auto simp: disk_inv_def)
  qed
qed

interpretation mem_backend: blob_backend H "\<lambda>c. length c \<le> MAX_BLOB" "\<lambda>m. \<forall>c \<in> snd ` set m. length c \<le> MAX_BLOB"
  "\<lambda>c m. snd (MemStore_put_bytes H c m)" "hm_get" "\<lambda>m h r. Some (MemStore_read_range m h (Single r))" for H
proof
  show "Some (MemStore_read_range s h (Single r)) =
      Some (Inr (take (unat (br_end r) - unat (br_start r)) (drop (unat (br_start r)) c)))"
    if "\<forall>c \<in> snd ` set s. length c \<le> MAX_BLOB" "hm_get s h = Some c" "br_start r < br_end r" "unat (br_end r) \<le> length c"
    for s h c r
  proof -
    have "length c \<le> MAX_BLOB" using that(1,2) by (force dest: map_of_SomeD)
    then have len: "unat (of_nat (length c) :: u64) = length c"
      by (simp add: unat_of_nat_small MAX_BLOB_def CHUNK_SIZE_def)
    then have "br_end r \<le> of_nat (length c)" "br_start r \<le> of_nat (length c)"
      using that(3,4) by (auto simp: word_le_nat_alt word_less_nat_alt)
    then show ?thesis
      using that(2,3) by (simp add: MemStore_read_range_def MemStore_read_all_def clamp_slice_def Let_def
          min_absorb1 max_absorb1 less_imp_le)
  qed
qed (use set_hm_insert_subset in \<open>force simp: MemStore_put_bytes_def\<close>)+


section \<open>Imports and interruptions that break a blob\<close>

lemma scan_held:
  assumes "\<forall>i. hm_get m i = (if i < length cs then Some (cs ! i) else None)"
  shows "k \<le> length cs \<Longrightarrow> scan_chunks m k = concat (drop k cs)"
proof (induction "length cs - k" arbitrary: k)
  case 0
  then show ?case using assms by (simp add: scan_chunks.simps [of m k])
next
  case (Suc n)
  then have k: "k < length cs" by simp
  then have "scan_chunks m k = cs ! k @ scan_chunks m (Suc k)" using assms by (simp add: scan_chunks.simps [of m k])
  with Suc k show ?case by (simp add: Cons_nth_drop_Suc [symmetric])
qed

lemma import_installs:
  assumes "hm_get fs (Blob h) = None" and "hm_get fs (Importing h) = None"
  shows "\<exists>d. hm_get (fold apply_op (import_ops h sz reads True tidy) fs) (Blob h) = Some d \<and> bd_complete d \<and>
    bd_meta d = Some \<lparr>bm_hash = h, bm_size_bytes = sz, bm_chunk_count = of_nat (length reads)\<rparr> \<and>
    (\<forall>i. hm_get (bd_chunks d) i = (if i < length reads then Some (reads ! i) else None))"
proof -
  let ?w = "map (\<lambda>(i, b). WriteChunk (Importing h) i b) (List.enumerate 0 reads)"
  let ?fs1 = "apply_op (CreateChunksDir (Importing h)) fs"
  have x: "hm_get ?fs1 (Importing h) = Some (empty_dir\<lparr>bd_chunks_dir := True\<rparr>)" using assms(2) by simp
  obtain y where y: "hm_get (fold apply_op ?w ?fs1) (Importing h) = Some y"
    "\<forall>i. hm_get (bd_chunks y) i = (if i < length reads then Some (reads ! i) else None)"
    using write_chunks_get [OF x, of 0 reads] by (auto simp: empty_dir_def)
  have keep: "hm_get (fold apply_op (map (\<lambda>(i, b). WriteChunk (Importing h) i b) ps) g) (Blob h) = hm_get g (Blob h)"
    for ps g by (induction ps arbitrary: g) auto
  have "hm_get (fold apply_op ?w ?fs1) (Blob h) = None" using assms(1) by (simp add: keep)
  with y show ?thesis by (simp add: import_ops_def dir_is_empty_def empty_dir_def)
qed

lemma import_succeeds:
  assumes "hm_get fs (Blob (H c)) = None" and "length c \<le> MAX_BLOB"
  shows "fst (import_file_sync H None None True tidy c (chunks CHUNK_SIZE c) fs) = Inr (H c, of_nat (length c))"
proof -
  let ?cs = "chunks CHUNK_SIZE c" and ?fs = "snd (remove_dir_all None (Importing (H c)) fs)"
  obtain d where d: "hm_get (fold apply_op (import_ops (H c) (of_nat (length c)) ?cs True tidy) ?fs) (Blob (H c)) = Some d"
    "\<forall>i. hm_get (bd_chunks d) i = (if i < length ?cs then Some (?cs ! i) else None)"
    using import_installs [of ?fs "H c" "of_nat (length c)" ?cs tidy] assms(1) by (auto simp: get_remove_dir_all)
  have "scan_chunks (bd_chunks d) 0 = c"
    using scan_held [OF d(2), of 0] concat_chunks [of CHUNK_SIZE c] by (simp add: CHUNK_SIZE_def)
  then have "verify_blob_on_disk H d (H c) (of_nat (length c)) = Inr ()"
    using assms(2) by (simp add: verify_blob_on_disk_def MAX_BLOB_def CHUNK_SIZE_def)
  with d(1) assms(1) show ?thesis by (simp add: import_file_sync_def has_complete_def Let_def)
qed

text \<open>
  Completing an interrupted store by hand counts the hash files next to the chunks as chunks,
  after which the blob cannot be read as a whole.
\<close>

lemma finalize_counts_hash_files:
  fixes H :: hash_fun
  defines "fs \<equiv> finalize_import None (H [1]) 1 (snd (put_bytes_sync H (Some (3, 0, [])) [1] []))"
  shows "store_meta fs (H [1]) = Inr (1, 2)" and "BlobStore_read_all fs (H [1]) = Inl Io"
proof -
  have ch: "chunks CHUNK_SIZE [1 :: u8] = [[1]]" by (rule chunks_short) (simp_all add: CHUNK_SIZE_def)
  let ?d = "\<lparr>bd_chunks_dir = True, bd_chunks = [(0, [1])], bd_shas = [(0, H [1])],
    bd_meta = Some \<lparr>bm_hash = H [1], bm_size_bytes = 1, bm_chunk_count = 2\<rparr>, bd_complete = True\<rparr>"
  have fs: "fs = [(Blob (H [1]), ?d)]"
    by (simp add: fs_def finalize_import_def put_bytes_sync_def put_ops_def write_chunk_ops_def ch has_complete_def
        dir_upd_def create_dir_all_def hm_contains_def empty_dir_def count_chunks_on_disk_def Let_def)
  show "store_meta fs (H [1]) = Inr (1, 2)" by (simp add: fs store_meta_def)
  moreover have "[0..<unat (2 :: u32)] = [0, 1]" by code_simp
  ultimately show "BlobStore_read_all fs (H [1]) = Inl Io"
    by (simp add: BlobStore_read_all_def read_all_chunks_def read_chunk_sync_def fs)
qed

text \<open>An empty blob can be stored, but neither fetched nor read through its range reader.\<close>

lemma empty_blob_unreadable:
  fixes H :: hash_fun
  defines "fs \<equiv> snd (put_bytes_sync H None [] [])"
  shows "has_complete fs (H [])" and "get_sync fs (H []) = Some None"
    and "BlobStore_read_range fs (H []) All = Some (Inl InvalidRange)"
    and "MemStore_read_range (snd (MemStore_put_bytes H [] [])) (H []) All = Inr []"
  by (simp_all add: fs_def put_bytes_sync_def put_ops_def write_chunk_ops_def has_complete_def get_sync_def
      store_meta_def BlobStore_read_range_def ByteRange_new_def dir_upd_def create_dir_all_def hm_contains_def
      empty_dir_def Let_def MemStore_read_range_def MemStore_read_all_def MemStore_put_bytes_def)

section \<open>Properties\<close>

text \<open>
  C2. Crash consistency of the store on disk. Take any run of stores, imports, finalisations, removals
  and collections, in which every file system call may fail after part of its effect. From a
  state in which the blob is not marked complete (such as the empty store), through operations
  none of which spoils this blob, a blob that ends up marked complete reads back, at every
  non-empty range inside it, as the bytes stored under its hash. The spoiling operations are
  named by \<^term>\<open>spoils\<close>: a removal of the blob that failed half-way and left the sentinel, an
  import of it whose file changed or came in short reads, one whose fallback copy was cut short
  after the sentinel, and finalising its directory by hand. The hash is injective on the contents.
\<close>

theorem blob_store_crash_consistent:
  assumes "inj_on H D" and "\<Union> (op_contents ` set ops2) \<subseteq> D" and "c \<in> D" and "length c \<le> MAX_BLOB"
    and "\<not> has_complete (fold (store_step H) ops1 []) (H c)"
    and "list_all (\<lambda>p. \<not> spoils H (H c) p) ops2"
    and "has_complete (fold (store_step H) (ops1 @ ops2) []) (H c)"
    and "br_start r < br_end r" and "unat (br_end r) \<le> length c"
  shows "read_range_sync (fold (store_step H) (ops1 @ ops2) []) (H c) r =
    Some (Inr (take (unat (br_end r) - unat (br_start r)) (drop (unat (br_start r)) c)))"
proof -
  let ?fs = "fold (store_step H) (ops1 @ ops2) []"
  have "sound H c ?fs"
    using sound_run [OF assms(1-3,6) sound_incomplete [where H = H, OF assms(5)]] by simp
  moreover obtain d where d: "hm_get ?fs (Blob (H c)) = Some d" "bd_complete d"
    using assms(7) by (auto simp: has_complete_def split: option.splits)
  ultimately have "dir_holds c d" by (simp add: sound_def)
  then show ?thesis using read_range_held [OF d(1)] assms(4,8,9) by auto
qed

text \<open>A removal that fails after it deleted the sentinel, a store cut short, and one that ends.\<close>

theorem blob_store_crash_consistent_witness:
  "read_range_sync (fold (store_step demo_hash)
     ([PutBytes None [1, 2, 3], RemoveBlob (Some [CompleteFile]) (demo_hash [1, 2, 3])] @
      [PutBytes (Some (2, 0, [])) [1, 2, 3], PutBytes None [1, 2, 3]]) [])
     (demo_hash [1, 2, 3]) \<lparr>br_start = 1, br_end = 3\<rparr> = Some (Inr (take (3 - 1) (drop 1 [1, 2, 3])))"
proof -
  let ?ops1 = "[PutBytes None [1, 2, 3 :: u8], RemoveBlob (Some [CompleteFile]) (demo_hash [1, 2, 3])]"
  let ?ops2 = "[PutBytes (Some (2, 0, [])) [1, 2, 3], PutBytes None [1, 2, 3 :: u8]]"
  have ch: "chunks CHUNK_SIZE [1, 2, 3 :: u8] = [[1, 2, 3]]"
    by (rule chunks_short) (simp_all add: CHUNK_SIZE_def)
  note run = put_bytes_sync_def put_ops_def write_chunk_ops_def has_complete_def Let_def BlobStore_remove_def
    remove_dir_all_def dir_upd_def create_dir_all_def hm_contains_def empty_dir_def ch
  have "\<not> has_complete (fold (store_step demo_hash) ?ops1 []) (demo_hash [1, 2, 3])" by (simp add: run)
  moreover have "has_complete (fold (store_step demo_hash) (?ops1 @ ?ops2) []) (demo_hash [1, 2, 3])" by (simp add: run)
  ultimately show ?thesis
    using blob_store_crash_consistent [of demo_hash "{[1, 2, 3]}" ?ops2 "[1, 2, 3]" ?ops1 "\<lparr>br_start = 1, br_end = 3\<rparr>"]
    by (simp add: MAX_BLOB_def CHUNK_SIZE_def)
qed

text \<open>
  A removal that fails half-way poisons the blob: when it deleted the first chunk and not the
  sentinel, the blob is still marked complete and listed, its chunk cannot be read, and storing
  or importing the same content again reports success without writing anything.
\<close>

theorem half_removal_poisons_blob:
  assumes "has_complete fs (H c)" and "ChunkFile 0 \<in> set gone" and "CompleteFile \<notin> set gone"
  defines "fs' \<equiv> snd (BlobStore_remove (Some gone) (H c) fs)"
  shows "fst (BlobStore_remove (Some gone) (H c) fs) = Inl IoFailed \<and>
    H c \<in> set (list_complete fs') \<and> read_chunk_sync fs' (H c) 0 = None \<and>
    put_bytes_sync H fault c fs' = (Inr (H c, of_nat (length c)), fs') \<and>
    import_file_sync H fault clear rename_ok tidy c reads fs' = (Inr (H c, of_nat (length c)), fs')"
proof -
  obtain d where d: "hm_get fs (Blob (H c)) = Some d" "bd_complete d"
    using assms(1) by (auto simp: has_complete_def split: option.splits)
  have keep: "CompleteFile \<notin> set fl \<Longrightarrow> bd_complete (fold unlink fl x) = bd_complete x" for fl x
  proof (induction fl arbitrary: x)
    case (Cons f fl)
    then show ?case by (cases f) auto
  qed simp
  have stay: "hm_get (bd_chunks x) 0 = None \<Longrightarrow> hm_get (bd_chunks (fold unlink fl x)) 0 = None" for fl x
  proof (induction fl arbitrary: x)
    case (Cons f fl)
    then show ?case by (cases f) (auto simp: delete_conv')
  qed simp
  have lost: "ChunkFile 0 \<in> set fl \<Longrightarrow> hm_get (bd_chunks (fold unlink fl x)) 0 = None" for fl x
  proof (induction fl arbitrary: x)
    case (Cons f fl)
    then show ?case by (cases "f = ChunkFile 0") (auto intro: stay)
  qed simp
  have fs': "hm_get fs' (Blob (H c)) = Some (fold unlink gone d)" using d assms(1) by (simp add: fs'_def get_remove)
  then have complete: "has_complete fs' (H c)" using d(2) keep [OF assms(3)] by (simp add: has_complete_def)
  then show ?thesis
    using d fs' lost [OF assms(2)]
    by (simp add: in_list_complete put_bytes_sync_def import_file_sync_def read_chunk_sync_def Let_def
        BlobStore_remove_def remove_dir_all_def)
qed

theorem half_removal_poisons_blob_witness:
  "read_chunk_sync (snd (BlobStore_remove (Some [ChunkFile 0]) (demo_hash [1]) (snd (put_bytes_sync demo_hash None [1] []))))
     (demo_hash [1]) 0 = None"
proof -
  have "chunks CHUNK_SIZE [1 :: u8] = [[1]]" by (rule chunks_short) (simp_all add: CHUNK_SIZE_def)
  then have "has_complete (snd (put_bytes_sync demo_hash None [1] [])) (demo_hash [1])"
    by (simp add: put_bytes_sync_def put_ops_def write_chunk_ops_def has_complete_def Let_def dir_upd_def
        create_dir_all_def hm_contains_def empty_dir_def)
  then show ?thesis using half_removal_poisons_blob [of _ demo_hash "[1]" "[ChunkFile 0]"] by simp
qed

text \<open>
  C33. The two stores agree: after storing the same blobs, the store on disk and the store in
  memory return the same bytes for every non-empty range inside a blob.
\<close>

theorem disk_and_memory_store_agree:
  assumes "inj_on H (set cs)" and "\<forall>d \<in> set cs. length d \<le> MAX_BLOB" and "c \<in> set cs"
    and "br_start r < br_end r" and "unat (br_end r) \<le> length c"
  shows "read_range_sync (fold (\<lambda>d fs. snd (put_bytes_sync H None d fs)) cs []) (H c) r =
    Some (MemStore_read_range (fold (\<lambda>d m. snd (MemStore_put_bytes H d m)) cs []) (H c) (Single r))"
proof -
  have "disk_inv H (set cs) []" using assms(1,2) by (auto simp: disk_inv_def sound_def has_complete_def)
  then show ?thesis
    using disk_backend.read_puts [of H "set cs" "[]" cs c r]
      mem_backend.read_puts [of "[]" cs H c r] assms by (simp add: list_all_iff)
qed

theorem disk_and_memory_store_agree_witness:
  "read_range_sync (fold (\<lambda>d fs. snd (put_bytes_sync demo_hash None d fs)) [[1, 2, 3]] []) (demo_hash [1, 2, 3])
      \<lparr>br_start = 1, br_end = 3\<rparr> =
    Some (MemStore_read_range (fold (\<lambda>d m. snd (MemStore_put_bytes demo_hash d m)) [[1, 2, 3]] []) (demo_hash [1, 2, 3])
      (Single \<lparr>br_start = 1, br_end = 3\<rparr>))"
  by (rule disk_and_memory_store_agree) (simp_all add: MAX_BLOB_def CHUNK_SIZE_def)

text \<open>
  C34. Garbage collection attempts exactly the complete blobs that are not pinned. Those whose removal
  succeeds are gone and are exactly the ones reported; one whose removal fails is not reported
  and keeps the files that the failing removal did not reach; pinned and incomplete blobs are
  untouched.
\<close>

theorem gc_orphans_exact:
  "hm_get (snd (gc_orphans rms ps fs)) (Blob h) =
     (if has_complete fs h \<and> \<not> PinSet_contains ps h
      then (case rms h of None \<Rightarrow> None | Some gone \<Rightarrow> map_option (fold unlink gone) (hm_get fs (Blob h)))
      else hm_get fs (Blob h)) \<and>
   set (fst (gc_orphans rms ps fs)) = {g. has_complete fs g \<and> \<not> PinSet_contains ps g \<and> rms g = None}"
  by (auto simp: gc_orphans_def gc_list_get orphans_def in_list_complete PinSet_contains_def get_remove)

text \<open>
  Unpinning a recursive root also drops the operator's own pin of a blob that the root lists
  as a descendant, so that the next collection deletes a blob that was pinned explicitly.
\<close>

theorem unpin_deletes_operator_pin:
  assumes "hm_get ps a = Some rec" and "b \<in> set (pr_descendants rec)" and "b \<noteq> a"
    and "PinSet_contains_root ps b" and "has_complete fs b"
  shows "\<not> PinSet_contains (snd (PinSet_remove a ps)) b \<and>
    hm_get (snd (gc_orphans (\<lambda>_. None) (snd (PinSet_remove a ps)) fs)) (Blob b) = None"
proof -
  have "hm_get (fold hm_remove ds m) b = (if b \<in> set ds then None else hm_get m b)"
    for ds :: "content_hash list" and m :: pin_set
    by (induction ds arbitrary: m) auto
  then have "\<not> PinSet_contains (snd (PinSet_remove a ps)) b"
    using assms(1,2) by (simp add: PinSet_remove_def PinSet_contains_def hm_contains_def)
  then show ?thesis
    using assms(5) by (simp add: gc_orphans_def gc_list_get orphans_def in_list_complete PinSet_contains_def get_remove)
qed

theorem unpin_deletes_operator_pin_witness:
  "\<not> PinSet_contains (snd (PinSet_remove [1] (snd (PinSet_add [1] True [[2]] 0 (snd (PinSet_add [2] False [] 0 [])))))) [2] \<and>
    hm_get (snd (gc_orphans (\<lambda>_. None) (snd (PinSet_remove [1] (snd (PinSet_add [1] True [[2]] 0 (snd (PinSet_add [2] False [] 0 []))))))
      [(Blob [2], empty_dir\<lparr>bd_complete := True\<rparr>)])) (Blob [2]) = None"
  by (rule unpin_deletes_operator_pin
      [where rec = "\<lparr>pr_kind = Root, pr_recursive = True, pr_added_at = 0, pr_descendants = [[2]]\<rparr>"])
    (simp_all add: PinSet_add_def hm_contains_def PinSet_contains_root_def has_complete_def)

text \<open>
  A file that changes between the hashing pass and the copying pass poisons the store: the
  import reports invalid data but leaves the directory installed and marked complete under
  the hash of the old content, so that a later import of the old content reports success and
  an export returns the wrong bytes.
\<close>

theorem import_race_poisons_store:
  fixes tidy :: removal
  assumes "hm_get fs (Blob (H c)) = None" and "H (concat reads) \<noteq> H c"
    and "length reads < 2 ^ 32" and "length (concat reads) < 2 ^ 64"
  defines "fs' \<equiv> snd (import_file_sync H None None True tidy c reads fs)"
  shows "fst (import_file_sync H None None True tidy c reads fs) = Inl InvalidData \<and>
    has_complete fs' (H c) \<and>
    fst (import_file_sync H None None True tidy c (chunks CHUNK_SIZE c) fs') = Inr (H c, of_nat (length c)) \<and>
    export_to_file_sync fs' (H c) = Inr (concat reads)"
proof -
  let ?h = "H c" and ?sz = "of_nat (length c) :: u64" and ?fs = "snd (remove_dir_all None (Importing (H c)) fs)"
  let ?new = "fold apply_op (import_ops ?h ?sz reads True tidy) ?fs"
  obtain d where d: "hm_get ?new (Blob ?h) = Some d" "bd_complete d"
    "bd_meta d = Some \<lparr>bm_hash = ?h, bm_size_bytes = ?sz, bm_chunk_count = of_nat (length reads)\<rparr>"
    "\<forall>i. hm_get (bd_chunks d) i = (if i < length reads then Some (reads ! i) else None)"
    using import_installs [of ?fs ?h ?sz reads tidy] assms(1) by (auto simp: get_remove_dir_all)
  have "scan_chunks (bd_chunks d) 0 = concat reads" using scan_held [OF d(4), of 0] by simp
  then have bad: "verify_blob_on_disk H d ?h ?sz = Inl InvalidData"
    using assms(2,4) by (simp add: verify_blob_on_disk_def Let_def)
  have "\<not> has_complete fs ?h" using assms(1) by (simp add: has_complete_def)
  then have imp: "import_file_sync H None None True tidy c reads fs = (Inl InvalidData, ?new)"
    using d(1) bad by (simp add: import_file_sync_def Let_def)
  have complete: "has_complete ?new ?h" using d by (simp add: has_complete_def)
  have "unat (of_nat (length reads) :: u32) = length reads" using assms(3) by (simp add: unat_of_nat_small)
  then have "export_to_file_sync ?new ?h = Inr (concat reads)"
    using d by (simp add: export_to_file_sync_def store_meta_def read_all_chunks_eq [where d = d])
  with imp complete show ?thesis by (simp add: fs'_def import_file_sync_def Let_def)
qed

theorem import_race_poisons_store_witness:
  "export_to_file_sync (snd (import_file_sync (\<lambda>bs. take 1 bs) None None True None [1] [[2]] [])) [1] = Inr (concat [[2]])"
  using import_race_poisons_store [of "[]" "\<lambda>bs. take 1 bs" "[1]" "[[2]]"] by simp

end
