(* ===== verification/Mesh_Http.thy ===== *)
theory Mesh_Http
  imports Blob_Store
begin

text \<open>
  The HTTP mesh (\<^verbatim>\<open>crates/a3net-mesh/src\<close>): the server that exposes a blob store (\<^verbatim>\<open>server.rs\<close>)
  and the client that fetches a blob from one of several peers (\<^verbatim>\<open>client.rs\<close>), with the text
  form of content hashes (\<^verbatim>\<open>crates/a3net-types/src/content.rs\<close>). Sockets, the \<^verbatim>\<open>reqwest\<close> crate
  and timeouts are left out: a peer is a function from requests to responses. JSON is the
  argument \<open>js\<close>. A panic of a connection task and a failed connection are \<open>None\<close>.
\<close>

section \<open>Text\<close>

definition strip_prefix :: "'a list \<Rightarrow> 'a list \<Rightarrow> 'a list option" where
  "strip_prefix p s = (if take (length p) s = p then Some (drop (length p) s) else None)"

definition strip_suffix :: "'a list \<Rightarrow> 'a list \<Rightarrow> 'a list option" where
  "strip_suffix p s = map_option rev (strip_prefix (rev p) (rev s))"

fun split_once_str :: "'a list \<Rightarrow> 'a list \<Rightarrow> ('a list \<times> 'a list) option" where
  "split_once_str pat [] = (if pat = [] then Some ([], []) else None)"
| "split_once_str pat (c # cs) =
     (case strip_prefix pat (c # cs) of
        Some rest \<Rightarrow> Some ([], rest)
      | None \<Rightarrow> map_option (\<lambda>(a, b). (c # a, b)) (split_once_str pat cs))"

text \<open>\<^verbatim>\<open>str::lines\<close> and \<^verbatim>\<open>str::split_whitespace\<close>.\<close>

definition str_lines :: "string \<Rightarrow> string list" where
  "str_lines s =
     (let ls = split_on CHR 0x0A s;
          ls' = (if last ls = [] then butlast ls else ls)
      in map (\<lambda>l. case strip_suffix [CHR 0x0D] l of Some t \<Rightarrow> t | None \<Rightarrow> l) ls')"

fun split_whitespace :: "string \<Rightarrow> string \<Rightarrow> string list" where
  "split_whitespace w [] = (if w = [] then [] else [w])"
| "split_whitespace w (c # cs) =
     (if is_space c then (if w = [] then split_whitespace [] cs else w # split_whitespace [] cs)
      else split_whitespace (w @ [c]) cs)"

subsection \<open>Content hashes as text\<close>

definition nibble_char :: "nat \<Rightarrow> char" where
  "nibble_char n = (if n < 10 then char_of (48 + n) else char_of (87 + n))"

definition hex_nibble :: "char \<Rightarrow> nat" where
  "hex_nibble c =
     (let b = of_char c :: nat
      in if 48 \<le> b \<and> b \<le> 57 then b - 48
         else if 97 \<le> b \<and> b \<le> 102 then b - 97 + 10
         else if 65 \<le> b \<and> b \<le> 70 then b - 65 + 10 else 0)"

definition is_hex_digit :: "char \<Rightarrow> bool" where
  "is_hex_digit c =
     (let b = of_char c :: nat in 48 \<le> b \<and> b \<le> 57 \<or> 97 \<le> b \<and> b \<le> 102 \<or> 65 \<le> b \<and> b \<le> 70)"

definition as_hex :: "content_hash \<Rightarrow> string" where
  "as_hex h = concat (map (\<lambda>b. [nibble_char (unat b div 16), nibble_char (unat b mod 16)]) h)"

fun as_bytes :: "string \<Rightarrow> bytes" where
  "as_bytes (c # d # cs) = of_nat (hex_nibble c * 16 + hex_nibble d) # as_bytes cs"
| "as_bytes _ = []"

definition ContentHash_from_hex :: "string \<Rightarrow> content_hash option" where
  "ContentHash_from_hex s =
     (if length s \<noteq> 64 \<or> \<not> list_all is_hex_digit s then None else Some (as_bytes s))"

section \<open>Messages\<close>

record http_request =
  rq_method :: string
  rq_path :: string
  rq_range_header :: "string option"

record http_response =
  rs_status :: nat
  rs_content_type :: string
  rs_extra :: "string list"
  rs_body :: bytes

record json_api =
  js_meta :: "blob_meta \<Rightarrow> bytes"
  js_sizes :: "bytes \<Rightarrow> (u64 option \<times> u64 option) option"

type_synonym peer = "http_request \<Rightarrow> http_response option"

section \<open>Server\<close>

fun parse_headers :: "string list \<Rightarrow> string option \<Rightarrow> string option" where
  "parse_headers [] acc = acc"
| "parse_headers (l # ls) acc =
     (if l = [] then acc
      else case strip_prefix ''Range:'' l of
             Some rest \<Rightarrow> parse_headers ls (Some (str_trim rest))
           | None \<Rightarrow>
               (case strip_prefix ''range:'' l of
                  Some rest \<Rightarrow> parse_headers ls (Some (str_trim rest))
                | None \<Rightarrow> parse_headers ls acc))"

definition parse_request :: "string \<Rightarrow> http_request option" where
  "parse_request header_block =
     (let ls = str_lines header_block;
          parts = split_whitespace [] (case ls of [] \<Rightarrow> [] | l # _ \<Rightarrow> l)
      in if length parts < 2 then None
         else Some \<lparr>rq_method = parts ! 0, rq_path = parts ! 1, rq_range_header = parse_headers (tl ls) None\<rparr>)"

definition text_response :: "nat \<Rightarrow> string \<Rightarrow> http_response" where
  "text_response status msg =
     \<lparr>rs_status = status, rs_content_type = ''text/plain'', rs_extra = [], rs_body = str_as_bytes msg\<rparr>"

definition octets :: "nat \<Rightarrow> bytes \<Rightarrow> string list \<Rightarrow> http_response" where
  "octets status body extra =
     \<lparr>rs_status = status, rs_content_type = ''application/octet-stream'', rs_extra = extra, rs_body = body\<rparr>"

definition serve_meta :: "json_api \<Rightarrow> blob_fs \<Rightarrow> string \<Rightarrow> http_response" where
  "serve_meta js fs hash_hex =
     (case ContentHash_from_hex hash_hex of
        None \<Rightarrow> text_response 400 ''bad hash''
      | Some h \<Rightarrow>
          (case store_meta fs h of
             Inl e \<Rightarrow> text_response 404 ''blob not found''
           | Inr (sz, cnt) \<Rightarrow>
               \<lparr>rs_status = 200, rs_content_type = ''application/json'', rs_extra = [],
                rs_body = js_meta js \<lparr>bm_hash = h, bm_size_bytes = sz, bm_chunk_count = cnt\<rparr>\<rparr>))"

definition serve_chunk :: "blob_fs \<Rightarrow> string \<Rightarrow> u32 \<Rightarrow> http_response" where
  "serve_chunk fs hash_hex index =
     (case ContentHash_from_hex hash_hex of
        None \<Rightarrow> text_response 400 ''bad hash''
      | Some h \<Rightarrow>
          (case read_chunk_sync fs h index of
             None \<Rightarrow> text_response 404 ''chunk not found''
           | Some b \<Rightarrow> octets 200 b []))"

definition content_range :: "byte_range \<Rightarrow> u64 \<Rightarrow> string" where
  "content_range r sz =
     ''Content-Range: bytes '' @ show_nat (unat (br_start r)) @ ''-'' @ show_nat (unat (br_end r - 1)) @
     ''/'' @ show_nat (unat sz)"

definition CRLF :: string where
  "CRLF = [CHR 0x0D, CHR 0x0A]"

definition part_head :: "string \<Rightarrow> byte_range \<Rightarrow> u64 \<Rightarrow> string" where
  "part_head boundary r sz =
     ''--'' @ boundary @ CRLF @ ''Content-Type: application/octet-stream'' @ CRLF @
     content_range r sz @ CRLF @ CRLF"

fun multi_body :: "blob_fs \<Rightarrow> content_hash \<Rightarrow> string \<Rightarrow> u64 \<Rightarrow> byte_range list \<Rightarrow> bytes \<Rightarrow>
    (chunk_error, bytes) result option" where
  "multi_body fs h boundary sz [] acc =
     Some (Inr (acc @ str_as_bytes (''--'' @ boundary @ ''--'' @ CRLF)))"
| "multi_body fs h boundary sz (r # rs) acc =
     (case read_range_sync fs h r of
        None \<Rightarrow> None
      | Some (Inl e) \<Rightarrow> Some (Inl e)
      | Some (Inr body) \<Rightarrow>
          multi_body fs h boundary sz rs
            (acc @ str_as_bytes (part_head boundary r sz) @ body @ str_as_bytes CRLF))"

text \<open>
  The response to a blob request, \<open>None\<close> where the connection ends without one: a panic, or an
  error that the connection task returns.
\<close>

definition serve_full_blob :: "string \<Rightarrow> blob_fs \<Rightarrow> string \<Rightarrow> string option \<Rightarrow> http_response option" where
  "serve_full_blob boundary fs hash_hex range_header =
     (case ContentHash_from_hex hash_hex of
        None \<Rightarrow> Some (text_response 400 ''bad hash'')
      | Some h \<Rightarrow>
          if \<not> has_complete fs h then Some (text_response 404 ''blob not found'')
          else (case store_meta fs h of
             Inl e \<Rightarrow> None
           | Inr (sz, _) \<Rightarrow>
               (case range_header of
                  None \<Rightarrow>
                    (case ByteRange_new 0 sz of
                       Inl e \<Rightarrow> None
                     | Inr r \<Rightarrow> (case read_range_sync fs h r of
                                   Some (Inr body) \<Rightarrow> Some (octets 200 body [])
                                 | _ \<Rightarrow> None))
                | Some header \<Rightarrow>
                    (case from_http_header header sz of
                       Inl e \<Rightarrow> Some (text_response 416 ''range not satisfiable'')
                     | Inr All \<Rightarrow> None
                     | Inr (Single r) \<Rightarrow>
                         (case read_range_sync fs h r of
                            Some (Inr body) \<Rightarrow> Some (octets 206 body [content_range r sz])
                          | _ \<Rightarrow> None)
                     | Inr (Multi rs) \<Rightarrow>
                         (case multi_body fs h boundary sz rs [] of
                            Some (Inr out) \<Rightarrow>
                              Some \<lparr>rs_status = 206,
                                rs_content_type = ''multipart/byteranges; boundary='' @ boundary,
                                rs_extra = [''Content-Length: '' @ show_nat (length out)], rs_body = out\<rparr>
                          | _ \<Rightarrow> None)))))"

definition parse_u32 :: "string \<Rightarrow> u32 option" where
  "parse_u32 s = map_option of_nat (parse_uint (2 ^ 32 - 1) s)"

definition handle_connection :: "json_api \<Rightarrow> string \<Rightarrow> blob_fs \<Rightarrow> http_request \<Rightarrow> http_response option" where
  "handle_connection js boundary fs req =
     (if rq_method req \<noteq> ''GET'' \<and> rq_method req \<noteq> ''HEAD'' then Some (text_response 405 ''method not allowed'')
      else if rq_path req = ''/health'' then Some (text_response 200 ''ok'')
      else case strip_prefix ''/blobs/'' (rq_path req) of
        None \<Rightarrow> Some (text_response 404 ''not found'')
      | Some rest0 \<Rightarrow>
          (let rest = hd (split_on CHR ''?'' rest0)
           in case (case split_once_str ''/chunks/'' rest of
                      Some (hash, tail) \<Rightarrow> map_option (\<lambda>i. (hash, i)) (parse_u32 tail)
                    | None \<Rightarrow> None) of
                Some (hash, index) \<Rightarrow> Some (serve_chunk fs hash index)
              | None \<Rightarrow>
                  (case strip_suffix ''/meta'' rest of
                     Some hash \<Rightarrow> Some (serve_meta js fs hash)
                   | None \<Rightarrow> serve_full_blob boundary fs rest (rq_range_header req))))"

definition read_request :: "json_api \<Rightarrow> string \<Rightarrow> blob_fs \<Rightarrow> string \<Rightarrow> http_response option" where
  "read_request js boundary fs header_block =
     (case parse_request header_block of
        None \<Rightarrow> Some (text_response 400 ''bad request'')
      | Some req \<Rightarrow> handle_connection js boundary fs req)"

section \<open>Client\<close>

datatype fetch_error =
    NoPeers
  | Transport
  | BadStatus nat
  | BadJson
  | NoBoundary
  | BlobHashMismatch
  | SizeMismatch u64 u64

text \<open>
  The destination file is threaded through as its content, \<open>None\<close> when it does not exist.
\<close>

type_synonym fetch_result = "(fetch_error, u64) result \<times> bytes option"

definition get_request :: "string \<Rightarrow> string option \<Rightarrow> http_request" where
  "get_request path rng = \<lparr>rq_method = ''GET'', rq_path = path, rq_range_header = rng\<rparr>"

definition is_success :: "http_response \<Rightarrow> bool" where
  "is_success r = (200 \<le> rs_status r \<and> rs_status r \<le> 299)"

fun find_subslice :: "'a list \<Rightarrow> 'a list \<Rightarrow> nat option" where
  "find_subslice [] needle = None"
| "find_subslice (x # xs) needle =
     (if take (length needle) (x # xs) = needle then Some 0
      else map_option Suc (find_subslice xs needle))"

definition crlf_bytes :: bytes where
  "crlf_bytes = str_as_bytes CRLF"

text \<open>One round of the multipart loop: the body of the next part and what is left, if anything.\<close>

definition next_part :: "bytes \<Rightarrow> bytes \<Rightarrow> (bytes \<times> bytes option) option" where
  "next_part delim rest =
     (case find_subslice rest delim of
        None \<Rightarrow> None
      | Some idx \<Rightarrow>
          (let after_delim = drop (idx + length delim) rest;
               after_crlf = (case strip_prefix crlf_bytes after_delim of Some t \<Rightarrow> t | None \<Rightarrow> after_delim)
           in case find_subslice after_crlf (crlf_bytes @ crlf_bytes) of
                None \<Rightarrow> None
              | Some p \<Rightarrow>
                  (let body_start = p + 4;
                       from_body = drop body_start after_crlf;
                       body_end = (case find_subslice from_body crlf_bytes of Some q \<Rightarrow> q | None \<Rightarrow> length from_body);
                       consumed = idx + length delim + 2 + body_start + body_end;
                       rest' = drop consumed rest
                   in Some (take body_end from_body,
                        if consumed \<ge> length rest \<or> strip_prefix (str_as_bytes ''--'') rest' \<noteq> None
                        then None else Some rest'))))"

function multipart_loop :: "bytes \<Rightarrow> bytes \<Rightarrow> bytes \<Rightarrow> bytes" where
  "multipart_loop delim rest acc =
     (case next_part delim rest of
        None \<Rightarrow> acc
      | Some (body, None) \<Rightarrow> acc @ body
      | Some (body, Some rest') \<Rightarrow> multipart_loop delim rest' (acc @ body))"
  by pat_completeness auto
termination
  by (relation "measure (\<lambda>(d, rest, acc). length rest)")
    (auto simp: next_part_def Let_def split: option.splits if_splits)

declare multipart_loop.simps [simp del]

definition extract_multipart_bodies :: "bytes \<Rightarrow> string \<Rightarrow> bytes" where
  "extract_multipart_bodies raw boundary = multipart_loop (str_as_bytes (''--'' @ boundary)) raw []"

definition find_boundary :: "string \<Rightarrow> string option" where
  "find_boundary ctype =
     (case concat (map (\<lambda>p. case strip_prefix ''boundary='' (str_trim p) of Some b \<Rightarrow> [b] | None \<Rightarrow> [])
             (split_on CHR '';'' ctype)) of
        [] \<Rightarrow> None
      | b # _ \<Rightarrow> Some (rev (dropWhile (\<lambda>c. c = CHR 0x22) (rev (dropWhile (\<lambda>c. c = CHR 0x22) b)))))"

definition expected_len :: "range_spec \<Rightarrow> u64 \<Rightarrow> u64" where
  "expected_len rng tot_sz =
     (case rng of
        All \<Rightarrow> tot_sz
      | Single r \<Rightarrow> sat_sub64 (br_end r) (br_start r)
      | Multi rs \<Rightarrow> sum_list (map (\<lambda>r. sat_sub64 (br_end r) (br_start r)) rs))"

definition blob_path :: "content_hash \<Rightarrow> string" where
  "blob_path h = ''/blobs/'' @ as_hex h"

definition fetch_with_range :: "peer \<Rightarrow> content_hash \<Rightarrow> range_spec \<Rightarrow> u64 \<Rightarrow> bytes option \<Rightarrow> fetch_result" where
  "fetch_with_range peer h rng tot_sz dest =
     (case to_http_header rng of
        None \<Rightarrow> (Inl Transport, dest)
      | Some header_value \<Rightarrow>
          (case peer (get_request (blob_path h) (Some header_value)) of
             None \<Rightarrow> (Inl Transport, dest)
           | Some resp \<Rightarrow>
               if \<not> is_success resp then (Inl (BadStatus (rs_status resp)), dest)
               else case (if strip_prefix ''multipart/byteranges'' (rs_content_type resp) \<noteq> None
                          then map_option (extract_multipart_bodies (rs_body resp)) (find_boundary (rs_content_type resp))
                          else Some (rs_body resp)) of
                      None \<Rightarrow> (Inl NoBoundary, dest)
                    | Some b \<Rightarrow>
                        if of_nat (length b) \<noteq> expected_len rng tot_sz
                        then (Inl (SizeMismatch (expected_len rng tot_sz) (of_nat (length b))), Some b)
                        else (Inr (of_nat (length b)), Some b)))"

definition pad06 :: "nat \<Rightarrow> string" where
  "pad06 n = replicate (6 - length (show_nat n)) CHR ''0'' @ show_nat n"

definition chunk_path :: "content_hash \<Rightarrow> nat \<Rightarrow> string" where
  "chunk_path h index = blob_path h @ ''/chunks/'' @ pad06 index"

definition fetch_one_chunk :: "peer \<Rightarrow> content_hash \<Rightarrow> nat \<Rightarrow> (fetch_error, bytes) result" where
  "fetch_one_chunk peer h index =
     (case peer (get_request (chunk_path h index) None) of
        None \<Rightarrow> Inl Transport
      | Some resp \<Rightarrow> if 400 \<le> rs_status resp \<and> rs_status resp \<le> 599 then Inl (BadStatus (rs_status resp)) else Inr (rs_body resp))"

definition fetch_chunks_parallel :: "peer \<Rightarrow> content_hash \<Rightarrow> u32 \<Rightarrow> bytes option \<Rightarrow> fetch_result" where
  "fetch_chunks_parallel peer h chunk_count dest =
     (case fold_result (\<lambda>i acc. case fetch_one_chunk peer h i of Inl e \<Rightarrow> Inl e | Inr b \<Rightarrow> Inr (acc @ b))
             [0..<unat chunk_count] [] of
        Inl e \<Rightarrow> (Inl e, dest)
      | Inr b \<Rightarrow> (Inr (of_nat (length b)), Some b))"

definition fetch_from_one ::
  "hash_fun \<Rightarrow> json_api \<Rightarrow> peer \<Rightarrow> content_hash \<Rightarrow> range_spec \<Rightarrow> bytes option \<Rightarrow> fetch_result" where
  "fetch_from_one H js peer h rng dest =
     (case peer (get_request (blob_path h @ ''/meta'') None) of
        None \<Rightarrow> (Inl Transport, dest)
      | Some meta \<Rightarrow>
          (case js_sizes js (rs_body meta) of
             None \<Rightarrow> (Inl BadJson, dest)
           | Some (sz, cnt) \<Rightarrow>
               (let chunk_count = ucast (case cnt of Some c \<Rightarrow> c | None \<Rightarrow> 0) :: u32;
                    tot_sz = (case sz of Some s \<Rightarrow> s | None \<Rightarrow> 0)
                in if rng \<noteq> All then fetch_with_range peer h rng tot_sz dest
                   else if chunk_count > 1 then fetch_chunks_parallel peer h chunk_count dest
                   else case peer (get_request (blob_path h) None) of
                          None \<Rightarrow> (Inl Transport, dest)
                        | Some resp \<Rightarrow>
                            if H (rs_body resp) \<noteq> h then (Inl BlobHashMismatch, None)
                            else (Inr (of_nat (length (rs_body resp))), Some (rs_body resp)))))"

fun fetch_peers ::
  "hash_fun \<Rightarrow> json_api \<Rightarrow> peer list \<Rightarrow> content_hash \<Rightarrow> range_spec \<Rightarrow> fetch_error \<Rightarrow> bytes option \<Rightarrow> fetch_result" where
  "fetch_peers H js [] h rng last_err dest = (Inl last_err, dest)"
| "fetch_peers H js (p # ps) h rng last_err dest =
     (case fetch_from_one H js p h rng dest of
        (Inr n, dest') \<Rightarrow> (Inr n, dest')
      | (Inl e, dest') \<Rightarrow> fetch_peers H js ps h rng e dest')"

definition fetch_from_mesh ::
  "hash_fun \<Rightarrow> json_api \<Rightarrow> peer list \<Rightarrow> content_hash \<Rightarrow> range_spec \<Rightarrow> bytes option \<Rightarrow> fetch_result" where
  "fetch_from_mesh H js peers h rng dest =
     (if peers = [] then (Inl NoPeers, dest) else fetch_peers H js peers h rng Transport dest)"


section \<open>Text: lemmas\<close>

lemma strip_prefix_append [simp]: "strip_prefix p (p @ s) = Some s"
  by (simp add: strip_prefix_def)

lemma strip_suffix_append [simp]: "strip_suffix p (s @ p) = Some s"
  by (simp add: strip_suffix_def strip_prefix_def)

lemma strip_suffix_None: "p \<noteq> [] \<Longrightarrow> hd p \<notin> set s \<Longrightarrow> strip_suffix p s = None"
proof -
  assume p: "p \<noteq> []" "hd p \<notin> set s"
  have "take (length p) (rev s) \<noteq> rev p"
  proof
    assume "take (length p) (rev s) = rev p"
    then have "set p \<subseteq> set s" by (metis set_rev set_take_subset)
    with p show False by (meson hd_in_set subsetD)
  qed
  then show ?thesis by (simp add: strip_suffix_def strip_prefix_def)
qed

lemma strip_prefix_hd: "p \<noteq> [] \<Longrightarrow> hd p \<noteq> c \<Longrightarrow> strip_prefix p (c # s) = None"
  by (cases p) (auto simp: strip_prefix_def)

lemma split_once_str_append:
  "pat \<noteq> [] \<Longrightarrow> hd pat \<notin> set s \<Longrightarrow>
    split_once_str pat (s @ t) = map_option (\<lambda>(a, b). (s @ a, b)) (split_once_str pat t)"
  by (induction s) (auto simp: strip_prefix_hd option.map_comp comp_def case_prod_unfold option.map_ident)

lemma split_once_str_here [simp]: "pat \<noteq> [] \<Longrightarrow> split_once_str pat (pat @ t) = Some ([], t)"
proof -
  assume "pat \<noteq> []"
  then obtain c cs where c: "pat @ t = c # cs" by (cases pat) auto
  have "strip_prefix pat (c # cs) = Some t" by (simp flip: c)
  then show ?thesis by (simp add: c)
qed

lemma nibble_roundtrip: "n < 16 \<Longrightarrow> hex_nibble (nibble_char n) = n \<and> is_hex_digit (nibble_char n)"
  by (auto simp: hex_nibble_def nibble_char_def is_hex_digit_def Let_def of_char_of)

lemma as_bytes_as_hex: "as_bytes (as_hex h) = h"
proof (induction h)
  case (Cons b h)
  have b: "unat b < 256" using unat_bound [of b] by simp
  then have "hex_nibble (nibble_char (unat b div 16)) = unat b div 16" using nibble_roundtrip by simp
  moreover have "hex_nibble (nibble_char (unat b mod 16)) = unat b mod 16" using nibble_roundtrip by simp
  moreover have "as_hex (b # h) = nibble_char (unat b div 16) # nibble_char (unat b mod 16) # as_hex h"
    by (simp add: as_hex_def)
  ultimately show ?case using Cons by simp
qed (simp add: as_hex_def)

lemma length_as_hex: "length (as_hex h) = 2 * length h"
  by (induction h) (simp_all add: as_hex_def)

lemma as_hex_chars: "c \<in> set (as_hex h) \<Longrightarrow> is_hex_digit c"
proof (induction h)
  case (Cons b h)
  have "unat b < 256" using unat_bound [of b] by simp
  then have "is_hex_digit (nibble_char (unat b div 16))" "is_hex_digit (nibble_char (unat b mod 16))"
    using nibble_roundtrip by simp_all
  with Cons show ?case by (auto simp: as_hex_def)
qed (simp add: as_hex_def)

lemma hex_roundtrip: "length h = 32 \<Longrightarrow> ContentHash_from_hex (as_hex h) = Some h"
  using as_hex_chars [of _ h] by (auto simp: ContentHash_from_hex_def length_as_hex as_bytes_as_hex list_all_iff)

lemma as_hex_no [simp]: "CHR ''/'' \<notin> set (as_hex h)" "CHR ''?'' \<notin> set (as_hex h)"
  using as_hex_chars [of "CHR ''/''" h] as_hex_chars [of "CHR ''?''" h] by (auto simp: is_hex_digit_def)

lemma digits_val_zeros: "digits_val 0 (replicate k CHR ''0'' @ s) = digits_val 0 s"
  by (induction k) (simp_all add: digit_val_def)

lemma parse_pad06:
  assumes "n < 2 ^ 32"
  shows "parse_u32 (pad06 n) = Some (of_nat n)"
proof -
  obtain c cs where p: "pad06 n = c # cs" by (cases "pad06 n") (auto simp: pad06_def)
  have "c \<in> set (pad06 n)" by (simp add: p)
  then have "c \<noteq> CHR ''+''" using show_nat_clean(1) by (auto simp: pad06_def)
  then have "parse_uint (2 ^ 32 - 1) (pad06 n) = Some n"
    using assms digits_val_zeros [of "6 - length (show_nat n)" "show_nat n"] digits_val_show_nat [of n]
    unfolding pad06_def [symmetric] p parse_uint_def by simp
  then show ?thesis by (simp add: parse_u32_def)
qed

lemma pad06_no: "CHR ''?'' \<notin> set (pad06 n)"
  using show_nat_chars [of "CHR ''?''" n] digit_char_neq [of _ "CHR ''?''"]
  by (simp add: pad06_def) metis


section \<open>Routing\<close>

lemma route_blob:
  "handle_connection js b fs (get_request (blob_path h) hdr) = serve_full_blob b fs (as_hex h) hdr"
proof -
  have "split_once_str ''/chunks/'' (as_hex h) = None"
    using split_once_str_append [of "''/chunks/''" "as_hex h" "[]"] by simp
  moreover have "strip_suffix ''/meta'' (as_hex h) = None" by (rule strip_suffix_None) simp_all
  ultimately show ?thesis
    by (simp add: handle_connection_def get_request_def blob_path_def strip_prefix_def)
qed

lemma route_meta:
  "handle_connection js b fs (get_request (blob_path h @ ''/meta'') None) = Some (serve_meta js fs (as_hex h))"
proof -
  have "split_once_str ''/chunks/'' (as_hex h @ ''/meta'') = None"
    using split_once_str_append [of "''/chunks/''" "as_hex h" "''/meta''"] by (simp add: strip_prefix_def)
  then show ?thesis
    using strip_suffix_append [of "''/meta''" "as_hex h"]
    by (simp add: handle_connection_def get_request_def blob_path_def strip_prefix_def)
qed

lemma route_chunk:
  assumes "i < 2 ^ 32"
  shows "handle_connection js b fs (get_request (chunk_path h i) None) = Some (serve_chunk fs (as_hex h) (of_nat i))"
proof -
  have "split_once_str ''/chunks/'' (as_hex h @ ''/chunks/'' @ pad06 i) = Some (as_hex h, pad06 i)"
    using split_once_str_append [of "''/chunks/''" "as_hex h" "''/chunks/'' @ pad06 i"]
      split_once_str_here [of "''/chunks/''" "pad06 i"] by simp
  then show ?thesis
    using parse_pad06 [OF assms] pad06_no
    by (simp add: handle_connection_def get_request_def blob_path_def chunk_path_def strip_prefix_def)
qed

lemma unat_widen: "unat (ucast (w :: u32) :: u64) = unat w"
  using unat_bound [of w] by (simp add: unsigned_ucast_eq take_bit_nat_eq_self)

lemma widen_narrow [simp]: "ucast (ucast (w :: u32) :: u64) = w"
  using unat_bound [of w]
  by (simp add: word_unat_eq_iff unsigned_ucast_eq [where 'b = 64] unat_widen take_bit_nat_eq_self)

section \<open>Serving and fetching a held blob\<close>

definition js_faithful :: "json_api \<Rightarrow> bool" where
  "js_faithful js = (\<forall>m. js_sizes js (js_meta js m) = Some (Some (bm_size_bytes m), Some (ucast (bm_chunk_count m))))"

definition serves :: "hash_fun \<Rightarrow> blob_fs \<Rightarrow> bytes \<Rightarrow> bool" where
  "serves H fs c = ((\<exists>d. hm_get fs (Blob (H c)) = Some d \<and> dir_holds c d) \<and> c \<noteq> [] \<and>
     length c \<le> MAX_BLOB \<and> length (H c) = 32)"

lemma serves_meta:
  assumes "serves H fs c"
  shows "store_meta fs (H c) = Inr (of_nat (length c), of_nat (length (chunks CHUNK_SIZE c)))"
    and "has_complete fs (H c)" and "ContentHash_from_hex (as_hex (H c)) = Some (H c)"
  using assms by (auto simp: serves_def store_meta_def dir_holds_def has_complete_def hex_roundtrip)

lemma serves_range:
  "serves H fs c \<Longrightarrow> br_start r < br_end r \<Longrightarrow> unat (br_end r) \<le> length c \<Longrightarrow>
    read_range_sync fs (H c) r = Some (Inr (take (unat (br_end r) - unat (br_start r)) (drop (unat (br_start r)) c)))"
  using read_range_held by (auto simp: serves_def)

lemma serves_len:
  assumes "serves H fs c"
  shows "unat (of_nat (length c) :: u64) = length c" and "(0 :: u64) < of_nat (length c)"
    and "length (chunks CHUNK_SIZE c) < 2 ^ 32"
proof -
  have n: "0 < CHUNK_SIZE" by (simp add: CHUNK_SIZE_def)
  have max: "length c \<le> MAX_BLOB" using assms by (simp add: serves_def)
  show len: "unat (of_nat (length c) :: u64) = length c"
    using assms by (simp add: serves_def unat_of_nat_small MAX_BLOB_def CHUNK_SIZE_def)
  show "(0 :: u64) < of_nat (length c)" using assms len by (simp add: serves_def word_less_nat_alt)
  show "length (chunks CHUNK_SIZE c) < 2 ^ 32"
    unfolding length_chunks [OF n] using max by (simp add: MAX_BLOB_def CHUNK_SIZE_def)
qed

lemma serve_whole:
  assumes "serves H fs c"
  shows "serve_full_blob b fs (as_hex (H c)) None = Some (octets 200 c [])"
proof -
  have "ByteRange_new 0 (of_nat (length c)) = Inr \<lparr>br_start = 0, br_end = of_nat (length c)\<rparr>"
    using serves_len(2) [OF assms] by (simp add: ByteRange_new_def not_le)
  moreover have "read_range_sync fs (H c) \<lparr>br_start = 0, br_end = of_nat (length c)\<rparr> = Some (Inr c)"
    using serves_range [OF assms, of "\<lparr>br_start = 0, br_end = of_nat (length c)\<rparr>"] serves_len [OF assms] by simp
  ultimately show ?thesis by (simp add: serve_full_blob_def serves_meta [OF assms])
qed

lemma serve_single:
  assumes "serves H fs c" and "br_start r < br_end r" and "unat (br_end r) \<le> length c"
  shows "serve_full_blob b fs (as_hex (H c)) (to_http_header (Single r)) =
    Some (octets 206 (take (unat (br_end r) - unat (br_start r)) (drop (unat (br_start r)) c))
      [content_range r (of_nat (length c))])"
proof -
  have "range_valid (of_nat (length c)) r"
    using assms(2,3) serves_len(1) [OF assms(1)] by (simp add: range_valid_def word_le_nat_alt)
  then have "from_http_header (''bytes='' @ http_part r) (of_nat (length c)) = Inr (Single r)"
    using from_http_header_join [of "[r]"] by simp
  then show ?thesis by (simp add: serve_full_blob_def serves_meta [OF assms(1)] serves_range [OF assms])
qed

lemma fetch_chunks:
  assumes "serves H fs c"
  shows "fetch_chunks_parallel (handle_connection js b fs) (H c) (of_nat (length (chunks CHUNK_SIZE c))) dest =
    (Inr (of_nat (length c)), Some c)"
proof -
  let ?cs = "chunks CHUNK_SIZE c" and ?p = "handle_connection js b fs"
  let ?f = "\<lambda>i acc. case fetch_one_chunk ?p (H c) i of Inl e \<Rightarrow> Inl e | Inr b \<Rightarrow> Inr (acc @ b)"
  have n: "0 < CHUNK_SIZE" by (simp add: CHUNK_SIZE_def)
  have one: "fetch_one_chunk ?p (H c) i = Inr (?cs ! i)" if "i < length ?cs" for i
  proof -
    have i: "i < 2 ^ 32" using that serves_len(3) [OF assms] by simp
    then have "read_chunk_sync fs (H c) (of_nat i) = Some (?cs ! i)"
      using assms that by (auto simp: serves_def read_chunk_sync_def dir_holds_def unat_of_nat_small)
    then show ?thesis
      using i by (simp add: fetch_one_chunk_def route_chunk serve_chunk_def serves_meta(3) [OF assms] octets_def)
  qed
  have "fold_result ?f [0..<k] [] = Inr (concat (take k ?cs))" if "k \<le> length ?cs" for k
    using that by (induction k) (simp_all add: fold_result_append one take_Suc_conv_app_nth)
  from this [of "length ?cs"] show ?thesis
    using serves_len(3) [OF assms]
    by (simp add: fetch_chunks_parallel_def unat_of_nat_small concat_chunks [OF n])
qed


lemma fetch_meta:
  assumes "js_faithful js" and "serves H fs c"
  shows "\<exists>resp. handle_connection js b fs (get_request (blob_path (H c) @ ''/meta'') None) = Some resp \<and>
    js_sizes js (rs_body resp) = Some (Some (of_nat (length c)), Some (ucast (of_nat (length (chunks CHUNK_SIZE c)) :: u32)))"
  using assms(1) by (simp add: route_meta serve_meta_def serves_meta [OF assms(2)] js_faithful_def)

lemma fetch_whole:
  assumes "js_faithful js" and "serves H fs c"
  shows "fetch_from_mesh H js (handle_connection js b fs # peers) (H c) All dest = (Inr (of_nat (length c)), Some c)"
  using fetch_meta [OF assms, of b] fetch_chunks [OF assms(2), of js b dest]
  by (auto simp: fetch_from_mesh_def fetch_from_one_def Let_def route_blob serve_whole [OF assms(2)] octets_def)

lemma fetch_single:
  assumes "js_faithful js" and "serves H fs c" and "br_start r < br_end r" and "unat (br_end r) \<le> length c"
  shows "fetch_from_mesh H js (handle_connection js b fs # peers) (H c) (Single r) dest =
    (Inr (of_nat (unat (br_end r) - unat (br_start r))),
     Some (take (unat (br_end r) - unat (br_start r)) (drop (unat (br_start r)) c)))"
proof -
  let ?p = "handle_connection js b fs"
  let ?slice = "take (unat (br_end r) - unat (br_start r)) (drop (unat (br_start r)) c)"
  have len: "length ?slice = unat (br_end r) - unat (br_start r)" using assms(4) by simp
  have "sat_sub64 (br_end r) (br_start r) = of_nat (length ?slice)"
    unfolding len using unat_bound [of "br_end r"]
    by (simp add: word_unat_eq_iff unat_sat_sub64 unat_of_nat_small)
  then have "fetch_with_range ?p (H c) (Single r) sz dest = (Inr (of_nat (length ?slice)), Some ?slice)" for sz
    using serve_single [OF assms(2-4), of b]
    by (simp add: fetch_with_range_def route_blob octets_def is_success_def strip_prefix_def expected_len_def)
  then show ?thesis
    using fetch_meta [OF assms(1,2), of b] len by (auto simp: fetch_from_mesh_def fetch_from_one_def Let_def)
qed

section \<open>Multipart bodies\<close>

lemma find_subslice_skip:
  "n \<noteq> [] \<Longrightarrow> hd n \<notin> set s \<Longrightarrow> find_subslice (s @ t) n = map_option ((+) (length s)) (find_subslice t n)"
proof (induction s)
  case (Cons x s)
  then have "take (length n) (x # s @ t) \<noteq> n" by (cases n) auto
  with Cons show ?case by (cases "find_subslice t n") simp_all
qed (cases "find_subslice t n"; simp)

lemma find_subslice_here: "n \<noteq> [] \<Longrightarrow> find_subslice (n @ t) n = Some 0"
  by (cases n) simp_all

lemma crlf_bytes_eq: "crlf_bytes = [13, 10]"
  by (simp add: crlf_bytes_def CRLF_def str_as_bytes_def)

lemma find_crlf_end:
  assumes "find_subslice body crlf_bytes = None"
  shows "find_subslice (body @ crlf_bytes @ t) crlf_bytes = Some (length body)"
  using assms
proof (induction body)
  case (Cons x body)
  then have no: "find_subslice body crlf_bytes = None" "take 2 (x # body) \<noteq> crlf_bytes"
    by (auto simp: crlf_bytes_eq split: if_splits)
  have "take 2 (x # body @ crlf_bytes @ t) \<noteq> crlf_bytes"
    using no(2) by (cases body) (auto simp: crlf_bytes_eq)
  with Cons.IH [OF no(1)] show ?case by (simp add: crlf_bytes_eq)
qed (simp add: crlf_bytes_eq)

lemma str_as_bytes_append [simp]: "str_as_bytes (s @ t) = str_as_bytes s @ str_as_bytes t"
  by (simp add: str_as_bytes_def)

lemma no_cr_bytes: "CHR 0x0D \<notin> set s \<Longrightarrow> 13 \<notin> set (str_as_bytes s)"
  using str_as_bytes_inj [of "[_]" "[CHR 0x0D]"] by (fastforce simp: str_as_bytes_def)

lemma content_range_no_cr: "CHR 0x0D \<notin> set (content_range r sz)"
  using show_nat_clean(6) [of "CHR 0x0D"] by (auto simp: content_range_def is_space_def)

lemma next_part_eq:
  fixes b r sz body tail
  defines "delim \<equiv> str_as_bytes (''--'' @ b)"
  assumes "pre = [] \<or> pre = crlf_bytes" and "find_subslice body crlf_bytes = None"
    and "tail \<noteq> []"
  shows "next_part delim (pre @ str_as_bytes (part_head b r sz) @ body @ crlf_bytes @ tail) =
    Some (body, Some (crlf_bytes @ tail))"
proof -
  let ?l1 = "str_as_bytes ''Content-Type: application/octet-stream''" and ?l2 = "str_as_bytes (content_range r sz)"
  let ?rest = "pre @ str_as_bytes (part_head b r sz) @ body @ crlf_bytes @ tail"
  let ?after = "?l1 @ crlf_bytes @ ?l2 @ crlf_bytes @ crlf_bytes @ body @ crlf_bytes @ tail"
  have head: "str_as_bytes (part_head b r sz) = delim @ crlf_bytes @ ?l1 @ crlf_bytes @ ?l2 @ crlf_bytes @ crlf_bytes"
    unfolding part_head_def delim_def crlf_bytes_def by (simp only: str_as_bytes_append append_assoc)
  have d: "delim \<noteq> []" "hd delim = 45" by (simp_all add: delim_def str_as_bytes_def)
  have rest: "?rest = pre @ delim @ crlf_bytes @ ?after" by (simp add: head)
  have find: "find_subslice ?rest delim = Some (length pre)"
    unfolding rest using assms(2) d by (subst find_subslice_skip) (auto simp: crlf_bytes_eq find_subslice_here)
  have after: "drop (length pre + length delim) ?rest = crlf_bytes @ ?after"
    unfolding rest by simp
  have l2: "?l2 = 67 # tl ?l2" by (simp add: content_range_def str_as_bytes_def)
  have blank: "find_subslice ?after (crlf_bytes @ crlf_bytes) = Some (length ?l1 + 2 + length ?l2)"
  proof -
    have "13 \<notin> set ?l1" "13 \<notin> set ?l2"
      using no_cr_bytes content_range_no_cr by (simp_all add: str_as_bytes_def)
    then have "find_subslice ?after (crlf_bytes @ crlf_bytes) = map_option ((+) (length ?l1))
        (find_subslice (crlf_bytes @ ?l2 @ crlf_bytes @ crlf_bytes @ body @ crlf_bytes @ tail) (crlf_bytes @ crlf_bytes))"
      by (subst find_subslice_skip) (simp_all add: crlf_bytes_eq)
    also have "find_subslice (crlf_bytes @ ?l2 @ crlf_bytes @ crlf_bytes @ body @ crlf_bytes @ tail) (crlf_bytes @ crlf_bytes) =
        map_option (\<lambda>k. Suc (Suc k)) (find_subslice (?l2 @ crlf_bytes @ crlf_bytes @ body @ crlf_bytes @ tail) (crlf_bytes @ crlf_bytes))"
      by (subst (1 2) l2) (simp add: crlf_bytes_eq option.map_comp comp_def)
    also have "find_subslice (?l2 @ crlf_bytes @ crlf_bytes @ body @ crlf_bytes @ tail) (crlf_bytes @ crlf_bytes) = Some (length ?l2)"
      using \<open>13 \<notin> set ?l2\<close> find_subslice_here [of "crlf_bytes @ crlf_bytes" "body @ crlf_bytes @ tail"]
      by (subst find_subslice_skip) (simp_all add: crlf_bytes_eq)
    finally show ?thesis by simp
  qed
  have hl: "length ?l1 + 2 + length ?l2 + 4 = length (?l1 @ crlf_bytes @ ?l2 @ crlf_bytes @ crlf_bytes)"
    by (simp add: crlf_bytes_eq)
  have from_body: "drop (length ?l1 + 2 + length ?l2 + 4) ?after = body @ crlf_bytes @ tail"
    unfolding hl by simp
  have consumed: "drop (length pre + length delim + 2 + (length ?l1 + 2 + length ?l2 + 4) + length body) ?rest = crlf_bytes @ tail"
  proof -
    have "length pre + length delim + 2 + (length ?l1 + 2 + length ?l2 + 4) + length body =
        length (pre @ delim @ crlf_bytes @ ?l1 @ crlf_bytes @ ?l2 @ crlf_bytes @ crlf_bytes @ body)"
      by (simp add: crlf_bytes_eq)
    then show ?thesis unfolding rest by simp
  qed
  have len: "length ?rest = length pre + length delim + 2 + (length ?l1 + 2 + length ?l2 + 4) + length body + 2 + length tail"
    unfolding rest by (simp add: crlf_bytes_eq)
  show ?thesis
    unfolding next_part_def find option.case Let_def after strip_prefix_append blank from_body
      find_crlf_end [OF assms(3)] consumed len
    by (simp add: strip_prefix_def crlf_bytes_eq str_as_bytes_def)
qed


definition closing :: "string \<Rightarrow> bytes" where
  "closing b = str_as_bytes (''--'' @ b @ ''--'' @ CRLF)"

lemma next_part_closing:
  assumes "pre = [] \<or> pre = crlf_bytes"
  shows "next_part (str_as_bytes (''--'' @ b)) (pre @ closing b) = None"
proof -
  let ?d = "str_as_bytes (''--'' @ b)"
  have d: "?d \<noteq> []" "hd ?d = 45" by (simp_all add: str_as_bytes_def)
  have cl: "closing b = ?d @ [45, 45, 13, 10]"
    unfolding closing_def by (simp only: str_as_bytes_append append_assoc) (simp add: str_as_bytes_def CRLF_def)
  have find: "find_subslice (pre @ closing b) ?d = Some (length pre)"
    unfolding cl using assms d by (subst find_subslice_skip) (auto simp: crlf_bytes_eq find_subslice_here)
  have after: "drop (length pre + length ?d) (pre @ closing b) = [45, 45, 13, 10]" unfolding cl by simp
  show ?thesis
    unfolding next_part_def find option.case Let_def after
    by (simp add: strip_prefix_def crlf_bytes_eq)
qed

lemma extract_parts:
  assumes "\<forall>(r, body) \<in> set ps. find_subslice body crlf_bytes = None" and "pre = [] \<or> pre = crlf_bytes"
  shows "multipart_loop (str_as_bytes (''--'' @ b))
      (pre @ concat (map (\<lambda>(r, body). str_as_bytes (part_head b r sz) @ body @ crlf_bytes) ps) @ closing b) acc =
    acc @ concat (map snd ps)"
  using assms
proof (induction ps arbitrary: pre acc)
  case Nil
  then show ?case using next_part_closing [of pre b] by (simp add: multipart_loop.simps)
next
  case (Cons p ps)
  obtain r body where p: "p = (r, body)" by force
  let ?tail = "concat (map (\<lambda>(r, body). str_as_bytes (part_head b r sz) @ body @ crlf_bytes) ps) @ closing b"
  have "?tail \<noteq> []" by (simp add: closing_def str_as_bytes_def)
  then have "next_part (str_as_bytes (''--'' @ b))
      (pre @ str_as_bytes (part_head b r sz) @ body @ crlf_bytes @ ?tail) = Some (body, Some (crlf_bytes @ ?tail))"
    using Cons.prems by (intro next_part_eq) (auto simp: p)
  with Cons.IH [of crlf_bytes "acc @ body"] Cons.prems(1) show ?case
    by (subst multipart_loop.simps) (simp add: p)
qed

lemma multi_body_eq:
  assumes "\<forall>r \<in> set rs. read_range_sync fs h r = Some (Inr (sl r))"
  shows "multi_body fs h b sz rs acc = Some (Inr (acc @
    concat (map (\<lambda>(r, body). str_as_bytes (part_head b r sz) @ body @ crlf_bytes) (map (\<lambda>r. (r, sl r)) rs)) @ closing b))"
  using assms
  by (induction rs arbitrary: acc) (simp_all add: closing_def crlf_bytes_def del: str_as_bytes_append)

definition mesh_boundary :: "nat \<Rightarrow> string" where
  "mesh_boundary x = ''----ADNET-'' @ show_nat x"

lemma mesh_boundary_chars:
  assumes "c \<in> set (mesh_boundary x)"
  shows "\<not> is_space c \<and> c \<noteq> CHR '';'' \<and> c \<noteq> CHR 0x22"
proof -
  consider "c \<in> set ''----ADNET-''" | d where "d < 10" "c = digit_char d"
    using assms show_nat_chars [of c x] by (auto simp: mesh_boundary_def)
  then show ?thesis
    by cases (auto simp: is_space_def digit_char_neq)
qed

lemma find_boundary_mesh: "find_boundary (''multipart/byteranges; boundary='' @ mesh_boundary x) = Some (mesh_boundary x)"
proof -
  let ?b = "mesh_boundary x"
  have "CHR '';'' \<notin> set ?b" using mesh_boundary_chars by blast
  then have split: "split_on CHR '';'' (''multipart/byteranges; boundary='' @ ?b) =
      [''multipart/byteranges'', '' boundary='' @ ?b]"
    using split_on_append [of "CHR '';''" "''multipart/byteranges''" "'' boundary='' @ ?b"] by simp
  have "str_trim (''boundary='' @ ?b) = ''boundary='' @ ?b"
    using mesh_boundary_chars [of _ x] by (intro str_trim_id) (auto simp: is_space_def)
  then have trim: "str_trim ('' boundary='' @ ?b) = ''boundary='' @ ?b"
    by (simp add: str_trim_def is_space_def)
  have t1: "strip_prefix ''boundary='' (str_trim ''multipart/byteranges'') = None"
    by (simp add: str_trim_def is_space_def strip_prefix_def)
  have q: "dropWhile (\<lambda>c. c = CHR 0x22) xs = xs" if "CHR 0x22 \<notin> set xs" for xs
    using that by (cases xs) auto
  have "CHR 0x22 \<notin> set ?b" using mesh_boundary_chars by blast
  then show ?thesis
    unfolding find_boundary_def split list.map t1 trim strip_prefix_append by (simp add: q)
qed


section \<open>Properties\<close>

text \<open>
  C3. A fetch from a peer that runs the mesh server over a store holding a non-empty blob
  delivers the blob: the whole of it, by one request or chunk by chunk, or any non-empty range
  inside it, byte for byte, with its length as the result.
\<close>

theorem mesh_fetch_end_to_end:
  assumes "js_faithful js" and "serves H fs c" and "br_start r < br_end r" and "unat (br_end r) \<le> length c"
  shows "fetch_from_mesh H js (handle_connection js b fs # peers) (H c) All dest = (Inr (of_nat (length c)), Some c) \<and>
    fetch_from_mesh H js (handle_connection js b fs # peers) (H c) (Single r) dest =
      (Inr (of_nat (unat (br_end r) - unat (br_start r))),
       Some (take (unat (br_end r) - unat (br_start r)) (drop (unat (br_start r)) c)))"
  using fetch_whole [OF assms(1,2)] fetch_single [OF assms] by blast

text \<open>A JSON form for the examples: the two numbers as bytes.\<close>

definition demo_json :: json_api where
  "demo_json = \<lparr>js_meta = (\<lambda>m. u64_to_be_bytes (bm_size_bytes m) @ u32_to_be_bytes (bm_chunk_count m)),
     js_sizes = (\<lambda>b. Some (Some (of_nat (be_nat (take 8 b))), Some (of_nat (be_nat (drop 8 b)))))\<rparr>"

lemma demo_json_faithful: "js_faithful demo_json"
proof -
  have "be_nat (u64_to_be_bytes w) = unat w" "be_nat (u32_to_be_bytes v) = unat v" for w v
    using unat_bound [of w] unat_bound [of v]
    by (simp_all add: u64_to_be_bytes_def u32_to_be_bytes_def be_nat_be_bytes)
  moreover have "(of_nat (unat v) :: u64) = ucast v" for v :: u32
    using unat_bound [of v] by (simp add: word_unat_eq_iff unat_widen unat_of_nat_small)
  ultimately show ?thesis by (simp add: js_faithful_def demo_json_def)
qed

lemma serves_demo: "serves demo_hash (snd (put_bytes_sync demo_hash None c [])) c"
  if "c \<noteq> []" and "length c \<le> MAX_BLOB"
proof -
  have "disk_inv demo_hash {c} []" using that by (simp add: disk_inv_def sound_def has_complete_def)
  then have "stored_as (demo_hash c) c [] (snd (put_bytes_sync demo_hash None c []))" by (rule put_complete) simp
  with that show ?thesis by (auto simp: serves_def stored_as_def)
qed

theorem mesh_fetch_end_to_end_witness:
  "fetch_from_mesh demo_hash demo_json
      [handle_connection demo_json ''b'' (snd (put_bytes_sync demo_hash None [1, 2, 3] []))]
      (demo_hash [1, 2, 3]) All None = (Inr (of_nat (length [1, 2, 3 :: u8])), Some [1, 2, 3])"
  using mesh_fetch_end_to_end [OF demo_json_faithful serves_demo [of "[1, 2, 3]"],
      of "\<lparr>br_start = 1, br_end = 3\<rparr>" "''b''" "[]" None]
  by (simp add: MAX_BLOB_def CHUNK_SIZE_def)

text \<open>
  A blob of more than one chunk is not verified by the client: whatever the requested hash
  and whatever the parts, a peer that announces as many chunks as there are parts makes the
  fetch succeed with the concatenated parts as the destination file.
\<close>

theorem multi_chunk_fetch_unverified:
  assumes "1 < length parts" and "length parts < 2 ^ 32" and "js_faithful js"
    and "peer (get_request (blob_path h @ ''/meta'') None) =
      Some (octets 200 (js_meta js \<lparr>bm_hash = h, bm_size_bytes = sz, bm_chunk_count = of_nat (length parts)\<rparr>) [])"
    and "\<forall>i < length parts. peer (get_request (chunk_path h i) None) = Some (octets 200 (parts ! i) [])"
  shows "fetch_from_mesh H js [peer] h All dest = (Inr (of_nat (length (concat parts))), Some (concat parts))"
proof -
  let ?f = "\<lambda>i acc. case fetch_one_chunk peer h i of Inl e \<Rightarrow> Inl e | Inr b \<Rightarrow> Inr (acc @ b)"
  have cnt: "unat (of_nat (length parts) :: u32) = length parts" using assms(2) by (simp add: unat_of_nat_small)
  have "fetch_one_chunk peer h i = Inr (parts ! i)" if "i < length parts" for i
    using that assms(5) by (simp add: fetch_one_chunk_def octets_def)
  then have "fold_result ?f [0..<k] [] = Inr (concat (take k parts))" if "k \<le> length parts" for k
    using that by (induction k) (simp_all add: fold_result_append take_Suc_conv_app_nth)
  from this [of "length parts"]
  have "fetch_chunks_parallel peer h (of_nat (length parts)) dest = (Inr (of_nat (length (concat parts))), Some (concat parts))"
    by (simp add: fetch_chunks_parallel_def cnt)
  moreover have "(1 :: u32) < of_nat (length parts)" using assms(1) cnt by (simp add: word_less_nat_alt)
  ultimately show ?thesis
    using assms(3) by (simp add: fetch_from_mesh_def fetch_from_one_def assms(4) octets_def js_faithful_def Let_def)
qed


theorem multi_chunk_fetch_unverified_witness:
  "fetch_from_mesh demo_hash demo_json
     [\<lambda>rq. if rq_path rq = blob_path (demo_hash [9]) @ ''/meta''
           then Some (octets 200 (js_meta demo_json
             \<lparr>bm_hash = demo_hash [9], bm_size_bytes = 2, bm_chunk_count = of_nat (length [[1], [2 :: u8]])\<rparr>) [])
           else Some (octets 200 (if rq_path rq = chunk_path (demo_hash [9]) 0 then [1] else [2]) [])]
     (demo_hash [9]) All None = (Inr (of_nat (length (concat [[1], [2 :: u8]]))), Some (concat [[1], [2]]))"
proof (rule multi_chunk_fetch_unverified)
  show "js_faithful demo_json" by (rule demo_json_faithful)
  have "chunk_path (demo_hash [9]) 1 \<noteq> chunk_path (demo_hash [9]) 0"
    by (simp add: chunk_path_def pad06_def show_nat.simps digit_char_def)
  moreover have "chunk_path (demo_hash [9]) i \<noteq> blob_path (demo_hash [9]) @ ''/meta''" for i
    by (simp add: chunk_path_def)
  ultimately show "\<forall>i < length [[1], [2 :: u8]]. (\<lambda>rq. if rq_path rq = blob_path (demo_hash [9]) @ ''/meta''
           then Some (octets 200 (js_meta demo_json
             \<lparr>bm_hash = demo_hash [9], bm_size_bytes = 2, bm_chunk_count = of_nat (length [[1], [2 :: u8]])\<rparr>) [])
           else Some (octets 200 (if rq_path rq = chunk_path (demo_hash [9]) 0 then [1] else [2]) []))
      (get_request (chunk_path (demo_hash [9]) i) None) = Some (octets 200 ([[1], [2]] ! i) [])"
    by (simp add: get_request_def less_Suc_eq numeral_2_eq_2) 
qed (simp_all add: get_request_def)


text \<open>
  Fetching several ranges at once: the multipart response of the server, taken apart by the
  client, gives the concatenated ranges, provided that no range contains a carriage return
  followed by a line feed.
\<close>

theorem mesh_fetch_multi_ranges:
  fixes c rs
  defines "sl \<equiv> \<lambda>r. take (unat (br_end r) - unat (br_start r)) (drop (unat (br_start r)) c)"
  assumes "js_faithful js" and "serves H fs c" and "1 < length rs"
    and "list_all (\<lambda>r. br_start r < br_end r \<and> unat (br_end r) \<le> length c) rs"
    and "list_all (\<lambda>r. find_subslice (sl r) crlf_bytes = None) rs"
  shows "fetch_from_mesh H js (handle_connection js (mesh_boundary x) fs # peers) (H c) (Multi rs) dest =
    (Inr (of_nat (length (concat (map sl rs)))), Some (concat (map sl rs)))"
proof -
  let ?p = "handle_connection js (mesh_boundary x) fs" and ?b = "mesh_boundary x" and ?sz = "of_nat (length c) :: u64"
  define out where "out =
    concat (map (\<lambda>(r, body). str_as_bytes (part_head ?b r ?sz) @ body @ crlf_bytes) (map (\<lambda>r. (r, sl r)) rs)) @ closing ?b"
  note hs = serves_meta [OF assms(3)]
  have "list_all (range_valid ?sz) rs"
    using assms(5) serves_len(1) [OF assms(3)] by (auto simp: list_all_iff range_valid_def word_le_nat_alt)
  then have hdr: "from_http_header (''bytes='' @ str_join CHR '','' (map http_part rs)) ?sz = Inr (Multi rs)"
    using from_http_header_join [of rs ?sz] assms(4) by (cases rs; cases "tl rs") auto
  have rd: "\<forall>r \<in> set rs. read_range_sync fs (H c) r = Some (Inr (sl r))"
    using serves_range [OF assms(3)] assms(5) by (auto simp: list_all_iff sl_def)
  have resp: "?p (get_request (blob_path (H c)) (to_http_header (Multi rs))) =
      Some \<lparr>rs_status = 206, rs_content_type = ''multipart/byteranges; boundary='' @ ?b,
        rs_extra = [''Content-Length: '' @ show_nat (length out)], rs_body = out\<rparr>"
  proof -
    have "multi_body fs (H c) ?b ?sz rs [] = Some (Inr out)"
      unfolding out_def using multi_body_eq [OF rd, of ?b ?sz "[]"] by (simp only: append_Nil)
    then show ?thesis using hdr by (simp add: route_blob serve_full_blob_def hs)
  qed
  have "extract_multipart_bodies out ?b = concat (map sl rs)"
    using extract_parts [of "map (\<lambda>r. (r, sl r)) rs" "[]" ?b ?sz "[]"] assms(6)
    by (simp add: extract_multipart_bodies_def list_all_iff comp_def out_def)
  moreover have "sum_list (map (\<lambda>r. sat_sub64 (br_end r) (br_start r)) rs) = of_nat (length (concat (map sl rs)))"
    using assms(5)
  proof (induction rs)
    case (Cons r rs)
    have "unat (br_end r) \<le> length c" using Cons.prems by simp
    then have "sat_sub64 (br_end r) (br_start r) = of_nat (length (sl r))"
      using unat_bound [of "br_end r"]
      by (simp add: sl_def word_unat_eq_iff unat_sat_sub64 unat_of_nat_small)
    with Cons show ?case by simp
  qed simp
  ultimately have "fetch_with_range ?p (H c) (Multi rs) sz dest =
      (Inr (of_nat (length (concat (map sl rs)))), Some (concat (map sl rs)))" for sz
    using resp find_boundary_mesh [of x]
    by (simp add: fetch_with_range_def is_success_def strip_prefix_def expected_len_def)
  then show ?thesis
    using assms(2) by (simp add: fetch_from_mesh_def fetch_from_one_def route_meta serve_meta_def hs js_faithful_def Let_def)
qed

theorem mesh_fetch_multi_ranges_witness:
  "fetch_from_mesh demo_hash demo_json
      [handle_connection demo_json (mesh_boundary 7) (snd (put_bytes_sync demo_hash None [1, 2, 3] []))]
      (demo_hash [1, 2, 3]) (Multi [\<lparr>br_start = 0, br_end = 1\<rparr>, \<lparr>br_start = 2, br_end = 3\<rparr>]) None =
    (Inr 2, Some [1, 3])"
  using mesh_fetch_multi_ranges [OF demo_json_faithful serves_demo [of "[1, 2, 3]"],
      of "[\<lparr>br_start = 0, br_end = 1\<rparr>, \<lparr>br_start = 2, br_end = 3\<rparr>]" 7 "[]" None]
  by (simp add: MAX_BLOB_def CHUNK_SIZE_def crlf_bytes_eq)

text \<open>With a line break in the first range the client keeps only the bytes before it.\<close>

lemma multipart_truncates_at_crlf:
  "extract_multipart_bodies
     (str_as_bytes (part_head ''B'' \<lparr>br_start = 0, br_end = 3\<rparr> 9) @ [65, 13, 10] @ crlf_bytes @
      str_as_bytes (part_head ''B'' \<lparr>br_start = 5, br_end = 7\<rparr> 9) @ [66, 67] @ crlf_bytes @ closing ''B'') ''B'' =
    [65, 66, 67]"
  by code_simp

text \<open>A request for an empty blob ends its connection task without a response.\<close>

lemma empty_blob_request_dies:
  assumes "length (H []) = 32"
  shows "handle_connection js b (snd (put_bytes_sync H None [] [])) (get_request (blob_path (H [])) None) = None"
  using empty_blob_unreadable(1) [of H] assms
  by (simp add: route_blob serve_full_blob_def hex_roundtrip put_bytes_sync_def put_ops_def write_chunk_ops_def
      has_complete_def store_meta_def ByteRange_new_def dir_upd_def create_dir_all_def hm_contains_def empty_dir_def Let_def)

end
