(* ===== verification/Blob_Transport.thy ===== *)
theory Blob_Transport
  imports Wire Mesh_Http
begin

text \<open>
  Blobs over a framed connection: \<^verbatim>\<open>crates/a3net-transport/src/frame.rs\<close> (length-prefixed frames),
  \<^verbatim>\<open>blob_proto.rs\<close> (the request of a blob and its stream of chunks) and the download of a node,
  \<^verbatim>\<open>crates/a3net-node/src/download.rs\<close>, which tries the transport and then the HTTP mesh.
  The JSON form of a message and base64 are arguments, BLAKE3 is the hash function of the other
  theories; a stream is the list of what arrives before it closes, and the destination file is its
  content, if it exists. A panic of the range reader is \<open>None\<close>.
  The lemmas: frames survive the stream, a genuine peer's blob arrives byte for byte, what
  a successful fetch guarantees, and what it does not.
\<close>

section \<open>Frames\<close>

definition MAX_FRAME_SIZE :: nat where "MAX_FRAME_SIZE = 4 * 1024 * 1024"

type_synonym frame = bytes

datatype transport_error =
    FrameTooLarge nat nat
  | TransportIo
  | TransportDecode
  | ChunkOutOfOrder u64 u64
  | HashMismatch
  | SizeMismatch u64 u64
  | PeerReported string
  | UnexpectedReply
  | ClosedBeforeDone
  | StoreFailure

definition FrameCodec_encode :: "frame \<Rightarrow> bytes" where
  "FrameCodec_encode f = u32_to_be_bytes (of_nat (length f)) @ f"

definition FrameCodec_decode :: "bytes \<Rightarrow> (transport_error, (frame \<times> nat) option) result" where
  "FrameCodec_decode buf =
     (if length buf < 4 then Inr None
      else
        let len = unat (u32_from_be (bytes_at 0 4 buf))
        in if len > MAX_FRAME_SIZE then Inl (FrameTooLarge len MAX_FRAME_SIZE)
           else if length buf < 4 + len then Inr None
           else Inr (Some (bytes_at 4 (4 + len) buf, 4 + len)))"

definition FrameCodec_write :: "bytes \<Rightarrow> frame \<Rightarrow> (transport_error, bytes) result" where
  "FrameCodec_write w f =
     (if length f > MAX_FRAME_SIZE then Inl (FrameTooLarge (length f) MAX_FRAME_SIZE)
      else Inr (w @ u32_to_be_bytes (of_nat (length f)) @ f))"

text \<open>
  Reading from a stream: the bytes that will still arrive before the end. Fewer than four bytes
  of a length are a clean end, a body cut short is an error of the stream.
\<close>

definition FrameCodec_read :: "bytes \<Rightarrow> (transport_error, (frame \<times> bytes) option) result" where
  "FrameCodec_read r =
     (if length r < 4 then Inr None
      else
        let len = unat (u32_from_be (bytes_at 0 4 r)); rest = drop 4 r
        in if len > MAX_FRAME_SIZE then Inl (FrameTooLarge len MAX_FRAME_SIZE)
           else if length rest < len then Inl TransportIo
           else Inr (Some (take len rest, drop len rest)))"

definition write_frames :: "frame list \<Rightarrow> bytes \<Rightarrow> (transport_error, bytes) result" where
  "write_frames fs w = fold_result (\<lambda>f w. FrameCodec_write w f) fs w"

function read_frames :: "bytes \<Rightarrow> (transport_error, frame list) result" where
  "read_frames r =
     (case FrameCodec_read r of
        Inl e \<Rightarrow> Inl e
      | Inr None \<Rightarrow> Inr []
      | Inr (Some (f, rest)) \<Rightarrow> (case read_frames rest of Inl e \<Rightarrow> Inl e | Inr fs \<Rightarrow> Inr (f # fs)))"
  by auto
termination
  by (relation "measure length") (auto simp: FrameCodec_read_def Let_def split: if_splits)

declare read_frames.simps [simp del]

lemma frame_length: "length f \<le> MAX_FRAME_SIZE \<Longrightarrow> unat (of_nat (length f) :: u32) = length f"
  by (simp add: MAX_FRAME_SIZE_def unat_of_nat_small del: unat_of_nat)

lemma encoded_head: "bytes_at 0 4 (u32_to_be_bytes n @ r) = u32_to_be_bytes n"
  by (simp add: bytes_at_def)

lemma read_written:
  assumes "length f \<le> MAX_FRAME_SIZE"
  shows "FrameCodec_read (u32_to_be_bytes (of_nat (length f)) @ f @ r) = Inr (Some (f, r))"
  using assms by (simp add: FrameCodec_read_def encoded_head frame_length Let_def del: unat_of_nat)

lemma decode_encoded:
  assumes "length f \<le> MAX_FRAME_SIZE"
  shows "FrameCodec_decode (FrameCodec_encode f @ r) = Inr (Some (f, length (FrameCodec_encode f)))"
  using assms by (simp add: FrameCodec_decode_def FrameCodec_encode_def encoded_head frame_length Let_def bytes_at_def del: unat_of_nat)

lemma decode_partial:
  assumes "length f \<le> MAX_FRAME_SIZE" "n < 4 + length f"
  shows "FrameCodec_decode (take n (FrameCodec_encode f @ r)) = Inr None"
proof (cases "n < 4")
  case False
  then have "bytes_at 0 4 (take n (FrameCodec_encode f @ r)) = u32_to_be_bytes (of_nat (length f))"
    by (simp add: bytes_at_def FrameCodec_encode_def min_def)
  with False assms show ?thesis
    by (auto simp: FrameCodec_decode_def frame_length Let_def FrameCodec_encode_def simp del: unat_of_nat)
qed (simp add: FrameCodec_decode_def FrameCodec_encode_def)

lemma write_frames_written: "list_all (\<lambda>f. length f \<le> MAX_FRAME_SIZE) fs \<Longrightarrow>
  write_frames fs w = Inr (w @ concat (map FrameCodec_encode fs))"
  by (induction fs arbitrary: w) (simp_all add: write_frames_def FrameCodec_write_def FrameCodec_encode_def)

lemma read_frames_written: "list_all (\<lambda>f. length f \<le> MAX_FRAME_SIZE) fs \<Longrightarrow>
  read_frames (concat (map FrameCodec_encode fs)) = Inr fs"
proof (induction fs)
  case (Cons f fs)
  let ?rest = "concat (map FrameCodec_encode fs)"
  have "FrameCodec_read (FrameCodec_encode f @ ?rest) = Inr (Some (f, ?rest))"
    using Cons.prems by (simp add: FrameCodec_encode_def [of f] read_written)
  with Cons show ?case by (subst read_frames.simps) simp
qed (simp add: read_frames.simps FrameCodec_read_def)

lemma write_frames_bound: "write_frames fs w = Inr w' \<Longrightarrow> list_all (\<lambda>f. length f \<le> MAX_FRAME_SIZE) fs"
  by (induction fs arbitrary: w) (auto simp: write_frames_def FrameCodec_write_def split: if_splits)

text \<open>
  C29. Frames survive the stream. Whatever frames a writer accepted, a reader of the same stream gets the
  same frames in the same order; the incremental decoder takes each frame off the front of a buffer
  as soon as its last byte is there, and asks for more before.
\<close>

theorem frames_round_trip:
  assumes "write_frames (f # fs) [] = Inr w"
  shows "read_frames w = Inr (f # fs) \<and>
    FrameCodec_decode w = Inr (Some (f, length (FrameCodec_encode f))) \<and>
    drop (length (FrameCodec_encode f)) w = concat (map FrameCodec_encode fs) \<and>
    FrameCodec_decode (take (length (FrameCodec_encode f) - 1) w) = Inr None"
proof -
  have ok: "list_all (\<lambda>f. length f \<le> MAX_FRAME_SIZE) (f # fs)" by (rule write_frames_bound [OF assms])
  then have w: "w = FrameCodec_encode f @ concat (map FrameCodec_encode fs)"
    using write_frames_written [OF ok, of "[]"] assms by simp
  have "length (FrameCodec_encode f) - 1 < 4 + length f" by (simp add: FrameCodec_encode_def)
  with ok decode_encoded [of f "concat (map FrameCodec_encode fs)"] decode_partial [of f "length (FrameCodec_encode f) - 1" "concat (map FrameCodec_encode fs)"]
    read_frames_written [OF ok] show ?thesis by (simp add: w del: take_append)
qed

theorem frames_round_trip_witness:
  "read_frames (FrameCodec_encode [1, 2] @ FrameCodec_encode []) = Inr [[1, 2], []] \<and>
    FrameCodec_decode (FrameCodec_encode [1, 2] @ FrameCodec_encode []) = Inr (Some ([1, 2], length (FrameCodec_encode [1, 2]))) \<and>
    drop (length (FrameCodec_encode [1, 2])) (FrameCodec_encode [1, 2] @ FrameCodec_encode []) = concat (map FrameCodec_encode [[]]) \<and>
    FrameCodec_decode (take (length (FrameCodec_encode [1, 2]) - 1) (FrameCodec_encode [1, 2] @ FrameCodec_encode [])) = Inr None"
  by (rule frames_round_trip) (simp add: write_frames_def FrameCodec_write_def FrameCodec_encode_def MAX_FRAME_SIZE_def)

section \<open>The blob protocol\<close>

definition MAX_CHUNK_PAYLOAD :: nat where "MAX_CHUNK_PAYLOAD = 1024 * 1024"

datatype blob_message =
    MGet string range_spec
  | MClose
  | MMeta u64 u32
  | MChunk u32 u64 string
  | MDone string
  | MError string

record blob_codec =
  bc_encode :: "blob_message \<Rightarrow> frame"
  bc_decode :: "frame \<Rightarrow> blob_message option"
  bc_base64 :: "bytes \<Rightarrow> string"
  bc_unbase64 :: "string \<Rightarrow> bytes option"

definition codec_faithful :: "blob_codec \<Rightarrow> bool" where
  "codec_faithful bc = ((\<forall>m. bc_decode bc (bc_encode bc m) = Some m) \<and> (\<forall>b. bc_unbase64 bc (bc_base64 bc b) = Some b))"

definition is_terminal :: "blob_message \<Rightarrow> bool" where
  "is_terminal m = (case m of MClose \<Rightarrow> True | MDone _ \<Rightarrow> True | MError _ \<Rightarrow> True | _ \<Rightarrow> False)"

datatype recv = RecvFrame frame | RecvError

record fetch_state =
  ft_total :: u64
  ft_expected :: "u64 option"
  ft_hashed :: bytes

text \<open>
  The receive loop: \<open>rs\<close> is what still arrives, the bytes hashed so far are also those written to the
  destination. A mismatch or a reported error removes the file; any other failure leaves what was written.
\<close>

fun fetch_loop ::
  "hash_fun \<Rightarrow> blob_codec \<Rightarrow> range_spec \<Rightarrow> fetch_state \<Rightarrow> recv list \<Rightarrow> (transport_error, u64) result \<times> bytes option" where
  "fetch_loop H bc rng st [] = (Inl ClosedBeforeDone, Some (ft_hashed st))"
| "fetch_loop H bc rng st (RecvError # rs) = (Inl TransportIo, Some (ft_hashed st))"
| "fetch_loop H bc rng st (RecvFrame f # rs) =
     (case bc_decode bc f of
        None \<Rightarrow> (Inl TransportDecode, Some (ft_hashed st))
      | Some (MMeta sz _) \<Rightarrow> fetch_loop H bc rng (st\<lparr>ft_expected := Some sz\<rparr>) rs
      | Some (MChunk _ offset dat) \<Rightarrow>
          (case bc_unbase64 bc dat of
             None \<Rightarrow> (Inl TransportDecode, Some (ft_hashed st))
           | Some b \<Rightarrow>
               if offset \<noteq> ft_total st then (Inl (ChunkOutOfOrder (ft_total st) offset), Some (ft_hashed st))
               else fetch_loop H bc rng (st\<lparr>ft_total := ft_total st + of_nat (length b), ft_hashed := ft_hashed st @ b\<rparr>) rs)
      | Some (MDone claimed) \<Rightarrow>
          if as_hex (H (ft_hashed st)) \<noteq> claimed then (Inl HashMismatch, None)
          else if rng = All \<and> ft_expected st \<noteq> None \<and> the (ft_expected st) \<noteq> ft_total st
            then (Inl (SizeMismatch (the (ft_expected st)) (ft_total st)), None)
          else (Inr (ft_total st), Some (ft_hashed st))
      | Some (MError msg) \<Rightarrow> (Inl (PeerReported msg), None)
      | Some _ \<Rightarrow> (Inl UnexpectedReply, Some (ft_hashed st)))"

type_synonym blob_peer = "frame \<Rightarrow> recv list"

definition fetch_blob_over_transport ::
  "hash_fun \<Rightarrow> blob_codec \<Rightarrow> blob_peer \<Rightarrow> content_hash \<Rightarrow> range_spec \<Rightarrow> (transport_error, u64) result \<times> bytes option" where
  "fetch_blob_over_transport H bc peer h rng =
     fetch_loop H bc rng \<lparr>ft_total = 0, ft_expected = None, ft_hashed = []\<rparr> (peer (bc_encode bc (MGet (as_hex h) rng)))"

fun chunk_frames :: "blob_codec \<Rightarrow> bytes list \<Rightarrow> u64 \<Rightarrow> frame list \<times> u64" where
  "chunk_frames bc [] offset = ([], offset)"
| "chunk_frames bc (b # bs) offset =
     (let (fs, n) = chunk_frames bc bs (offset + of_nat (length b))
      in (bc_encode bc (MChunk 0 offset (bc_base64 bc b)) # fs, n))"

fun serve_ranges ::
  "blob_codec \<Rightarrow> blob_fs \<Rightarrow> content_hash \<Rightarrow> byte_range list \<Rightarrow> u64 \<Rightarrow> bytes \<Rightarrow> (frame list \<times> (transport_error, bytes) result) option" where
  "serve_ranges bc fs h [] offset hashed = Some ([], Inr hashed)"
| "serve_ranges bc fs h (r # rs) offset hashed =
     (case read_range_sync fs h r of
        None \<Rightarrow> None
      | Some (Inl e) \<Rightarrow> Some ([], Inl StoreFailure)
      | Some (Inr b) \<Rightarrow>
          (let (fr, offset') = chunk_frames bc (chunks MAX_CHUNK_PAYLOAD b) offset
           in map_option (\<lambda>(fr', res). (fr @ fr', res)) (serve_ranges bc fs h rs offset' (hashed @ b))))"

definition serve_get ::
  "hash_fun \<Rightarrow> blob_codec \<Rightarrow> blob_fs \<Rightarrow> content_hash \<Rightarrow> range_spec \<Rightarrow> (frame list \<times> (transport_error, unit) result) option" where
  "serve_get H bc fs h rng =
     (if \<not> has_complete fs h then Some ([bc_encode bc (MError (''blob '' @ as_hex h @ '' not found''))], Inr ())
      else case store_meta fs h of
          Inl e \<Rightarrow> Some ([], Inl StoreFailure)
        | Inr (sz, _) \<Rightarrow>
            (let meta = (if rng = All then [bc_encode bc (MMeta sz 0)] else []);
                 ranges = (case rng of
                     All \<Rightarrow> (case ByteRange_new 0 sz of Inl e \<Rightarrow> Inl StoreFailure | Inr r \<Rightarrow> Inr [r])
                   | Single r \<Rightarrow> Inr [r]
                   | Multi rs \<Rightarrow> Inr rs)
             in case ranges of
                 Inl e \<Rightarrow> Some (meta, Inl e)
               | Inr rs \<Rightarrow>
                   map_option (\<lambda>(fr, res). case res of
                       Inl e \<Rightarrow> (meta @ fr, Inl e)
                     | Inr hashed \<Rightarrow> (meta @ fr @ [bc_encode bc (MDone (as_hex (H hashed)))], Inr ()))
                     (serve_ranges bc fs h rs 0 [])))"

definition serve_blob_request ::
  "hash_fun \<Rightarrow> blob_codec \<Rightarrow> blob_fs \<Rightarrow> frame option \<Rightarrow> (frame list \<times> (transport_error, unit) result) option" where
  "serve_blob_request H bc fs first =
     (case first of
        None \<Rightarrow> Some ([], Inr ())
      | Some f \<Rightarrow>
          (case bc_decode bc f of
             None \<Rightarrow> Some ([], Inl TransportDecode)
           | Some (MGet hx rng) \<Rightarrow>
               (case ContentHash_from_hex hx of
                  None \<Rightarrow> Some ([], Inl TransportDecode)
                | Some h \<Rightarrow> serve_get H bc fs h rng)
           | Some MClose \<Rightarrow> Some ([], Inr ())
           | Some _ \<Rightarrow> Some ([bc_encode bc (MError ''expected Get'')], Inr ())))"

text \<open>A peer that serves its store over the connection and then closes it.\<close>

definition store_peer :: "hash_fun \<Rightarrow> blob_codec \<Rightarrow> blob_fs \<Rightarrow> blob_peer" where
  "store_peer H bc fs req =
     (case serve_blob_request H bc fs (Some req) of None \<Rightarrow> [] | Some (fr, _) \<Rightarrow> map RecvFrame fr)"

section \<open>The download of a node\<close>

record blob_ticket =
  tk_direct :: bool
  tk_range :: range_spec

record download_peer =
  dp_ticket :: blob_ticket
  dp_dial :: "blob_peer option"
  dp_http :: peer

datatype download_error = NoTickets | TransportFailed | MeshFailed

fun try_transport ::
  "hash_fun \<Rightarrow> blob_codec \<Rightarrow> content_hash \<Rightarrow> range_spec \<Rightarrow> download_peer list \<Rightarrow> bytes option \<Rightarrow> (download_error, u64) result \<times> bytes option" where
  "try_transport H bc h rng [] dest = (Inl TransportFailed, dest)"
| "try_transport H bc h rng (p # ps) dest =
     (if \<not> tk_direct (dp_ticket p) then try_transport H bc h rng ps dest
      else case dp_dial p of
          None \<Rightarrow> try_transport H bc h rng ps dest
        | Some conn \<Rightarrow>
            (case fetch_blob_over_transport H bc conn h rng of
               (Inr n, dest') \<Rightarrow> (Inr n, dest')
             | (Inl _, dest') \<Rightarrow> try_transport H bc h rng ps dest'))"

definition fetch_blob ::
  "hash_fun \<Rightarrow> blob_codec \<Rightarrow> json_api \<Rightarrow> bool \<Rightarrow> content_hash \<Rightarrow> range_spec \<Rightarrow> download_peer list \<Rightarrow> bytes option \<Rightarrow>
    (download_error, u64) result \<times> bytes option" where
  "fetch_blob H bc js primary h rng ps dest =
     (if ps = [] then (Inl NoTickets, dest)
      else
        let first = (if primary then try_transport H bc h rng ps dest else (Inl TransportFailed, dest))
        in case first of
            (Inr n, dest') \<Rightarrow> (Inr n, dest')
          | (Inl _, dest') \<Rightarrow>
              let bases = map dp_http (filter (\<lambda>p. tk_direct (dp_ticket p)) ps);
                  rng' = (case tk_range (dp_ticket (hd ps)) of All \<Rightarrow> rng | r \<Rightarrow> r)
              in case fetch_from_mesh H js bases h rng' dest' of
                  (Inr n, d) \<Rightarrow> (Inr n, d)
                | (Inl _, d) \<Rightarrow> (Inl MeshFailed, d))"


section \<open>Serving and fetching\<close>

lemma fetch_chunk_frames:
  assumes "codec_faithful bc"
  shows "fetch_loop H bc rng \<lparr>ft_total = o1, ft_expected = ex, ft_hashed = hs\<rparr> (map RecvFrame (fst (chunk_frames bc bs o1)) @ rs) =
    fetch_loop H bc rng \<lparr>ft_total = snd (chunk_frames bc bs o1), ft_expected = ex, ft_hashed = hs @ concat bs\<rparr> rs"
  using assms by (induction bs arbitrary: o1 hs) (simp_all add: codec_faithful_def Let_def case_prod_beta)

lemma chunk_frames_offset: "snd (chunk_frames bc bs o1) = o1 + of_nat (length (concat bs))"
  by (induction bs arbitrary: o1) (simp_all add: Let_def case_prod_beta add.assoc)

lemma chunks_payload [simp]: "concat (chunks MAX_CHUNK_PAYLOAD b) = b"
  by (rule concat_chunks) (simp add: MAX_CHUNK_PAYLOAD_def)

text \<open>The bytes that a list of ranges reads, when every range can be read.\<close>

fun ranges_content :: "blob_fs \<Rightarrow> content_hash \<Rightarrow> byte_range list \<Rightarrow> bytes option" where
  "ranges_content fs h [] = Some []"
| "ranges_content fs h (r # rs) =
     (case read_range_sync fs h r of
        Some (Inr b) \<Rightarrow> map_option (\<lambda>bs. b @ bs) (ranges_content fs h rs)
      | _ \<Rightarrow> None)"

lemma serve_ranges_delivers:
  assumes "codec_faithful bc" "ranges_content fs h rs = Some b"
  shows "\<exists>fr. serve_ranges bc fs h rs o1 hs = Some (fr, Inr (hs @ b)) \<and>
    (\<forall>ex tail. fetch_loop H bc rng \<lparr>ft_total = o1, ft_expected = ex, ft_hashed = hs\<rparr> (map RecvFrame fr @ tail) =
      fetch_loop H bc rng \<lparr>ft_total = o1 + of_nat (length b), ft_expected = ex, ft_hashed = hs @ b\<rparr> tail)"
  using assms(2)
proof (induction rs arbitrary: o1 hs b)
  case (Cons r rs)
  then obtain b1 b2 where b: "read_range_sync fs h r = Some (Inr b1)" "ranges_content fs h rs = Some b2" "b = b1 @ b2"
    by (auto split: option.splits sum.splits)
  let ?cf = "chunk_frames bc (chunks MAX_CHUNK_PAYLOAD b1) o1"
  from Cons.IH [OF b(2), of "snd ?cf" "hs @ b1"] obtain fr where fr:
    "serve_ranges bc fs h rs (snd ?cf) (hs @ b1) = Some (fr, Inr ((hs @ b1) @ b2))"
    "\<forall>ex tail. fetch_loop H bc rng \<lparr>ft_total = snd ?cf, ft_expected = ex, ft_hashed = hs @ b1\<rparr> (map RecvFrame fr @ tail) =
      fetch_loop H bc rng \<lparr>ft_total = snd ?cf + of_nat (length b2), ft_expected = ex, ft_hashed = (hs @ b1) @ b2\<rparr> tail"
    by blast
  have "serve_ranges bc fs h (r # rs) o1 hs = Some (fst ?cf @ fr, Inr (hs @ b))" using b fr(1) by (simp add: Let_def case_prod_beta)
  moreover have "fetch_loop H bc rng \<lparr>ft_total = o1, ft_expected = ex, ft_hashed = hs\<rparr> (map RecvFrame (fst ?cf @ fr) @ tail) =
      fetch_loop H bc rng \<lparr>ft_total = o1 + of_nat (length b), ft_expected = ex, ft_hashed = hs @ b\<rparr> tail" for ex tail
    using fetch_chunk_frames [OF assms(1), of H rng o1 ex hs "chunks MAX_CHUNK_PAYLOAD b1" "map RecvFrame fr @ tail"] fr(2) b(3)
    by (simp add: chunk_frames_offset add.assoc)
  ultimately show ?case by blast
qed simp

definition ranges_of :: "u64 \<Rightarrow> range_spec \<Rightarrow> byte_range list" where
  "ranges_of sz rng = (case rng of All \<Rightarrow> [\<lparr>br_start = 0, br_end = sz\<rparr>] | Single r \<Rightarrow> [r] | Multi rs \<Rightarrow> rs)"

lemma fetch_served:
  assumes bc: "codec_faithful bc" and h: "length h = 32" and held: "has_complete fs h" "store_meta fs h = Inr (sz, cnt)"
    and sz: "0 < sz" and rd: "ranges_content fs h (ranges_of sz rng) = Some b"
    and whole: "rng = All \<Longrightarrow> of_nat (length b) = sz"
  shows "fetch_blob_over_transport H bc (store_peer H bc fs) h rng = (Inr (of_nat (length b)), Some b)"
proof -
  let ?ex = "if rng = All then Some sz else None" and ?meta = "if rng = All then [bc_encode bc (MMeta sz 0)] else []"
  obtain fr where fr: "serve_ranges bc fs h (ranges_of sz rng) 0 [] = Some (fr, Inr b)"
    "\<And>ex tail. fetch_loop H bc rng \<lparr>ft_total = 0, ft_expected = ex, ft_hashed = []\<rparr> (map RecvFrame fr @ tail) =
      fetch_loop H bc rng \<lparr>ft_total = of_nat (length b), ft_expected = ex, ft_hashed = b\<rparr> tail"
    using serve_ranges_delivers [OF bc rd, of 0 "[]" H rng] by auto
  have "serve_get H bc fs h rng = Some (?meta @ fr @ [bc_encode bc (MDone (as_hex (H b)))], Inr ())"
    using held sz fr(1) by (cases rng) (simp_all add: serve_get_def ranges_of_def ByteRange_new_def not_le)
  then have "store_peer H bc fs (bc_encode bc (MGet (as_hex h) rng)) = map RecvFrame (?meta @ fr @ [bc_encode bc (MDone (as_hex (H b)))])"
    using bc by (simp add: store_peer_def serve_blob_request_def codec_faithful_def hex_roundtrip [OF h])
  moreover have "fetch_loop H bc rng \<lparr>ft_total = 0, ft_expected = None, ft_hashed = []\<rparr> (map RecvFrame ?meta @ tail) =
      fetch_loop H bc rng \<lparr>ft_total = 0, ft_expected = ?ex, ft_hashed = []\<rparr> tail" for tail
    using bc by (simp add: codec_faithful_def)
  ultimately have "fetch_blob_over_transport H bc (store_peer H bc fs) h rng =
      fetch_loop H bc rng \<lparr>ft_total = of_nat (length b), ft_expected = ?ex, ft_hashed = b\<rparr> [RecvFrame (bc_encode bc (MDone (as_hex (H b))))]"
    unfolding fetch_blob_over_transport_def by (simp add: fr(2))
  then show ?thesis using bc whole by (auto simp: codec_faithful_def)
qed

lemma serves_read_all:
  assumes "serves H fs c"
  shows "ranges_content fs (H c) (ranges_of (of_nat (length c)) All) = Some c"
  using serves_range [OF assms, of "\<lparr>br_start = 0, br_end = of_nat (length c)\<rparr>"] serves_len [OF assms]
  by (simp add: ranges_of_def)

lemma fetch_whole_transport:
  assumes "codec_faithful bc" and "serves H fs c"
  shows "fetch_blob_over_transport H bc (store_peer H bc fs) (H c) All = (Inr (of_nat (length c)), Some c)"
proof -
  have h: "length (H c) = 32" using assms(2) by (simp add: serves_def)
  from fetch_served [OF assms(1) h serves_meta(2,1) [OF assms(2)] serves_len(2) [OF assms(2)] serves_read_all [OF assms(2)], of H]
  show ?thesis by simp
qed

text \<open>
  C5. Blobs arrive over the transport. From a peer whose store holds a non-empty blob, a request for the whole
  blob writes exactly its bytes to the destination and a request for a non-empty range inside it
  exactly the bytes of the range, split into frames of at most one mebibyte on the way. (The empty
  blob is the subject of \<open>empty_blob_not_fetched\<close>.)
\<close>

theorem transport_fetch_end_to_end:
  assumes "codec_faithful bc" and "serves H fs c" and "br_start r < br_end r" and "unat (br_end r) \<le> length c"
  shows "fetch_blob_over_transport H bc (store_peer H bc fs) (H c) All = (Inr (of_nat (length c)), Some c) \<and>
    fetch_blob_over_transport H bc (store_peer H bc fs) (H c) (Single r) =
      (Inr (of_nat (unat (br_end r) - unat (br_start r))), Some (take (unat (br_end r) - unat (br_start r)) (drop (unat (br_start r)) c)))"
proof -
  have h: "length (H c) = 32" using assms(2) by (simp add: serves_def)
  note meta = serves_meta [OF assms(2)]
  have "ranges_content fs (H c) (ranges_of (of_nat (length c)) (Single r)) =
      Some (take (unat (br_end r) - unat (br_start r)) (drop (unat (br_start r)) c))"
    using serves_range [OF assms(2-4)] by (simp add: ranges_of_def)
  moreover have "length (take (unat (br_end r) - unat (br_start r)) (drop (unat (br_start r)) c)) = unat (br_end r) - unat (br_start r)"
    using assms(4) by simp
  ultimately have "fetch_blob_over_transport H bc (store_peer H bc fs) (H c) (Single r) =
      (Inr (of_nat (unat (br_end r) - unat (br_start r))), Some (take (unat (br_end r) - unat (br_start r)) (drop (unat (br_start r)) c)))"
    using fetch_served [OF assms(1) h meta(2,1) serves_len(2) [OF assms(2)], of "Single r" _ H] by (metis range_spec.distinct(1))
  with fetch_whole_transport [OF assms(1,2)] show ?thesis by blast
qed

subsection \<open>A concrete codec\<close>

text \<open>A codec that meets the assumption, for the examples: tags, strings with a mark before every byte, fixed-width integers.\<close>

fun put_str :: "string \<Rightarrow> bytes" where
  "put_str [] = [0]"
| "put_str (c # s) = 1 # of_nat (of_char c) # put_str s"

fun get_str :: "bytes \<Rightarrow> string \<times> bytes" where
  "get_str (x # c # r) = (if x = 0 then ([], c # r) else (let (s, r') = get_str r in (char_of (unat c) # s, r')))"
| "get_str r = ([], tl r)"

fun put_ranges :: "byte_range list \<Rightarrow> bytes" where
  "put_ranges [] = [0]"
| "put_ranges (r # rs) = 1 # u64_to_be_bytes (br_start r) @ u64_to_be_bytes (br_end r) @ put_ranges rs"

definition get_u64 :: "bytes \<Rightarrow> u64" where "get_u64 bs = of_nat (be_nat (take 8 bs))"

function get_ranges :: "bytes \<Rightarrow> byte_range list" where
  "get_ranges bs = (if bs = [] \<or> hd bs = 0 then []
     else \<lparr>br_start = get_u64 (drop 1 bs), br_end = get_u64 (drop 9 bs)\<rparr> # get_ranges (drop 17 bs))"
  by auto
termination by (relation "measure length") auto

declare get_ranges.simps [simp del]

definition demo_codec :: blob_codec where
  "demo_codec = \<lparr>bc_encode = (\<lambda>m. case m of
       MGet h All \<Rightarrow> 1 # put_str h
     | MGet h (Single r) \<Rightarrow> 2 # put_str h @ put_ranges [r]
     | MGet h (Multi rs) \<Rightarrow> 3 # put_str h @ put_ranges rs
     | MClose \<Rightarrow> [4]
     | MMeta a b \<Rightarrow> 5 # u64_to_be_bytes a @ u32_to_be_bytes b
     | MChunk a b d \<Rightarrow> 6 # u32_to_be_bytes a @ u64_to_be_bytes b @ put_str d
     | MDone d \<Rightarrow> 7 # put_str d
     | MError d \<Rightarrow> 8 # put_str d),
     bc_decode = (\<lambda>f. case f of [] \<Rightarrow> None | t # r \<Rightarrow>
       if t = 1 then Some (MGet (fst (get_str r)) All)
       else if t = 2 then Some (MGet (fst (get_str r)) (Single (hd (get_ranges (snd (get_str r))))))
       else if t = 3 then Some (MGet (fst (get_str r)) (Multi (get_ranges (snd (get_str r)))))
       else if t = 4 then Some MClose
       else if t = 5 then Some (MMeta (get_u64 r) (u32_from_be (drop 8 r)))
       else if t = 6 then Some (MChunk (u32_from_be (take 4 r)) (get_u64 (drop 4 r)) (fst (get_str (drop 12 r))))
       else if t = 7 then Some (MDone (fst (get_str r)))
       else Some (MError (fst (get_str r)))),
     bc_base64 = map (\<lambda>b. char_of (unat b)), bc_unbase64 = (\<lambda>s. Some (str_as_bytes s))\<rparr>"

lemma char_of_byte: "char_of (unat (of_nat (of_char c) :: u8)) = c"
proof -
  have "(of_char c :: nat) < 256" using range_nat_of_char by auto
  then show ?thesis by (simp add: unat_of_nat_small del: unat_of_nat)
qed

lemma byte_of_char: "(of_nat (of_char (char_of (unat b))) :: u8) = b"
  using unat_bound [of b] by (simp add: of_char_of)

lemma get_put_str [simp]: "get_str (put_str s @ r) = (s, r)"
proof (induction s)
  case Nil
  then show ?case by (cases r) simp_all
qed (simp add: char_of_byte)

lemma get_u64_put [simp]: "get_u64 (u64_to_be_bytes w @ r) = w"
  using unat_bound [of w] by (simp add: get_u64_def u64_to_be_bytes_def be_nat_be_bytes del: be_bytes.simps)

lemma get_put_ranges [simp]: "get_ranges (put_ranges rs) = rs"
proof (induction rs)
  case (Cons r rs)
  then show ?case by (subst get_ranges.simps) (simp add: drop_append)
qed (simp add: get_ranges.simps)

lemma demo_codec_faithful: "codec_faithful demo_codec"
proof -
  have str: "get_str (put_str s) = (s, [])" for s using get_put_str [of s "[]"] by simp
  have "bc_decode demo_codec (bc_encode demo_codec m) = Some m" for m
  proof (cases m)
    case (MGet h r)
    then show ?thesis by (cases r) (simp_all add: demo_codec_def str del: put_ranges.simps)
  qed (simp_all add: demo_codec_def str drop_append)
  moreover have "bc_unbase64 demo_codec (bc_base64 demo_codec b) = Some b" for b
    by (simp add: demo_codec_def str_as_bytes_def comp_def byte_of_char del: of_char_of)
  ultimately show ?thesis by (simp only: codec_faithful_def simp_thms)
qed

theorem transport_fetch_end_to_end_witness:
  "let fs = snd (put_bytes_sync demo_hash None [1, 2, 3] []); r = \<lparr>br_start = 1, br_end = 3\<rparr>
   in fetch_blob_over_transport demo_hash demo_codec (store_peer demo_hash demo_codec fs) (demo_hash [1, 2, 3]) All =
        (Inr (of_nat (length [1, 2, 3 :: u8])), Some [1, 2, 3]) \<and>
      fetch_blob_over_transport demo_hash demo_codec (store_peer demo_hash demo_codec fs) (demo_hash [1, 2, 3]) (Single r) =
        (Inr (of_nat (unat (br_end r) - unat (br_start r))), Some (take (unat (br_end r) - unat (br_start r)) (drop (unat (br_start r)) [1, 2, 3])))"
  unfolding Let_def
  by (rule transport_fetch_end_to_end [OF demo_codec_faithful serves_demo]) (simp_all add: MAX_BLOB_def CHUNK_SIZE_def)


section \<open>What a fetch guarantees\<close>

lemma fetch_loop_sound:
  "fetch_loop H bc rng st rs = (Inr n, d) \<Longrightarrow> ft_total st = of_nat (length (ft_hashed st)) \<Longrightarrow>
    \<exists>b claimed. d = Some b \<and> n = of_nat (length b) \<and> claimed = as_hex (H b) \<and>
      (\<exists>f \<in> set rs. \<exists>g. f = RecvFrame g \<and> bc_decode bc g = Some (MDone claimed))"
proof (induction H bc rng st rs rule: fetch_loop.induct)
  case (3 H bc rng st f rs)
  show ?case
  proof (cases "bc_decode bc f")
    case (Some m)
    show ?thesis
    proof (cases m)
      case (MChunk i off dat)
      with 3 Some show ?thesis by (auto split: option.splits if_splits)
    next
      case (MDone claimed)
      with 3 Some show ?thesis by (auto split: if_splits)
    qed (use 3 Some in \<open>auto\<close>)
  qed (use 3 in simp)
qed simp_all

text \<open>
  The transport verifies the peer against itself only. Whatever hash is requested, a peer that sends some
  bytes and their own digest makes the fetch succeed with these bytes; the node's download
  then reports success without trying another peer or the mesh.
\<close>

theorem transport_fetch_unverified:
  assumes "codec_faithful bc" and "tk_direct (dp_ticket p)"
    and "dp_dial p = Some (\<lambda>_. [RecvFrame (bc_encode bc (MChunk 0 0 (bc_base64 bc b))), RecvFrame (bc_encode bc (MDone (as_hex (H b))))])"
  shows "fetch_blob H bc js True h rng (p # ps) dest = (Inr (of_nat (length b)), Some b)"
  using assms by (simp add: fetch_blob_def fetch_blob_over_transport_def codec_faithful_def)

theorem transport_fetch_unverified_witness:
  "fetch_blob demo_hash demo_codec demo_json True (demo_hash [1, 2, 3]) All
     [\<lparr>dp_ticket = \<lparr>tk_direct = True, tk_range = All\<rparr>,
       dp_dial = Some (\<lambda>_. [RecvFrame (bc_encode demo_codec (MChunk 0 0 (bc_base64 demo_codec [6, 6]))), RecvFrame (bc_encode demo_codec (MDone (as_hex (demo_hash [6, 6]))))]),
       dp_http = (\<lambda>_. None)\<rparr>] None = (Inr (of_nat (length [6, 6 :: u8])), Some [6, 6])"
  by (rule transport_fetch_unverified [OF demo_codec_faithful]) simp_all

text \<open>A peer that has no address, cannot be dialled or fails during the transfer; and one that fails over the mesh.\<close>

definition transport_fails :: "hash_fun \<Rightarrow> blob_codec \<Rightarrow> content_hash \<Rightarrow> range_spec \<Rightarrow> download_peer \<Rightarrow> bool" where
  "transport_fails H bc h rng p = (\<not> tk_direct (dp_ticket p) \<or>
     (case dp_dial p of None \<Rightarrow> True | Some conn \<Rightarrow> isl (fst (fetch_blob_over_transport H bc conn h rng))))"

definition mesh_fails :: "hash_fun \<Rightarrow> json_api \<Rightarrow> content_hash \<Rightarrow> range_spec \<Rightarrow> download_peer \<Rightarrow> bool" where
  "mesh_fails H js h rng p = (\<not> tk_direct (dp_ticket p) \<or> (\<forall>dest. isl (fst (fetch_from_one H js (dp_http p) h rng dest))))"

lemma try_transport_skip:
  "list_all (transport_fails H bc h rng) bad \<Longrightarrow>
    \<exists>dest'. try_transport H bc h rng (bad @ ps) dest = try_transport H bc h rng ps dest'"
proof (induction bad arbitrary: dest)
  case (Cons p bad)
  then show ?case
    by (auto split: option.splits prod.splits sum.splits simp: isl_def transport_fails_def)
qed auto

lemma fetch_peers_skip:
  "list_all (\<lambda>p. \<forall>dest. isl (fst (fetch_from_one H js p h rng dest))) bad \<Longrightarrow>
    \<exists>dest' e'. fetch_peers H js (bad @ ps) h rng e dest = fetch_peers H js ps h rng e' dest'"
proof (induction bad arbitrary: dest e)
  case (Cons p bad)
  then have "isl (fst (fetch_from_one H js p h rng dest))" by simp
  then obtain e1 d1 where "fetch_from_one H js p h rng dest = (Inl e1, d1)"
    by (cases "fetch_from_one H js p h rng dest") (auto simp: isl_def)
  with Cons.IH [of e1 d1] Cons.prems show ?case by simp
qed auto

text \<open>
  C6. A download of a non-empty blob survives failing peers. When every ticket before a genuine one has no
  address, cannot be dialled or fails during the transfer, the download delivers the blob of the
  genuine peer over the transport, whatever the failed attempts left in the destination. And when
  every ticket fails over the transport, or there is no transport, the download falls back to the
  mesh and delivers the blob of the genuine peer after any number of peers that fail there too (the
  first ticket asking for the whole blob, since its range is the one the code requests).
\<close>

theorem download_survives_failing_peers:
  assumes "codec_faithful bc" and "serves H fs c" and "js_faithful js" and "tk_direct (dp_ticket good)"
  shows "(list_all (transport_fails H bc (H c) All) bad \<and> dp_dial good = Some (store_peer H bc fs) \<longrightarrow>
      fetch_blob H bc js True (H c) All (bad @ good # rest) dest = (Inr (of_nat (length c)), Some c)) \<and>
    ((primary \<longrightarrow> list_all (transport_fails H bc (H c) All) (bad @ good # rest)) \<and>
      list_all (mesh_fails H js (H c) All) bad \<and> dp_http good = handle_connection js base fs \<and>
      tk_range (dp_ticket (hd (bad @ [good]))) = All \<longrightarrow>
      fetch_blob H bc js primary (H c) All (bad @ good # rest) dest = (Inr (of_nat (length c)), Some c))"
proof (intro conjI impI, goal_cases)
  case 1
  have "fetch_blob_over_transport H bc (store_peer H bc fs) (H c) All = (Inr (of_nat (length c)), Some c)"
    by (rule fetch_whole_transport [OF assms(1,2)])
  moreover obtain dest' where "try_transport H bc (H c) All (bad @ good # rest) dest = try_transport H bc (H c) All (good # rest) dest'"
    using try_transport_skip 1 by blast
  ultimately show ?case using assms(4) 1 by (simp add: fetch_blob_def)
next
  case 2
  let ?ps = "bad @ good # rest" and ?bases = "\<lambda>ps. map dp_http (filter (\<lambda>p. tk_direct (dp_ticket p)) ps)"
  have "list_all (\<lambda>p. \<forall>dest. isl (fst (fetch_from_one H js p (H c) All dest))) (?bases bad)"
    using 2 by (auto simp: list_all_iff mesh_fails_def)
  then obtain e' dest'' where skip: "fetch_peers H js (?bases bad @ handle_connection js base fs # ?bases rest) (H c) All Transport d =
      fetch_peers H js (handle_connection js base fs # ?bases rest) (H c) All (e' d) (dest'' d)" for d
    using fetch_peers_skip [of H js "H c" All "?bases bad"] by metis
  have "fst (fetch_from_one H js (handle_connection js base fs) (H c) All d) = Inr (of_nat (length c)) \<and>
      fetch_peers H js (handle_connection js base fs # ?bases rest) (H c) All e d = (Inr (of_nat (length c)), Some c)" for e d
    using fetch_whole [OF assms(3,2), of base "[]" d]
    by (auto simp: fetch_from_mesh_def split: prod.splits sum.splits)
  then have mesh: "fetch_from_mesh H js (?bases ?ps) (H c) All d = (Inr (of_nat (length c)), Some c)" for d
    using skip [of d] assms(4) 2 by (simp add: fetch_from_mesh_def)
  have rng: "(case tk_range (dp_ticket (hd ?ps)) of All \<Rightarrow> All | r \<Rightarrow> r) = All"
    using 2 by (cases bad) auto
  obtain d' where d': "primary \<Longrightarrow> try_transport H bc (H c) All ?ps dest = (Inl TransportFailed, d')"
    using try_transport_skip [of H bc "H c" All ?ps "[]" dest] 2 by (cases primary) auto
  show ?case using mesh rng d' by (cases primary) (simp_all add: fetch_blob_def Let_def)
qed

theorem download_survives_failing_peers_witness:
  "let fs = snd (put_bytes_sync demo_hash None [1, 2, 3] []);
       bad = \<lparr>dp_ticket = \<lparr>tk_direct = True, tk_range = All\<rparr>, dp_dial = Some (\<lambda>_. []), dp_http = (\<lambda>_. None)\<rparr>;
       good = \<lparr>dp_ticket = \<lparr>tk_direct = True, tk_range = All\<rparr>, dp_dial = Some (store_peer demo_hash demo_codec fs),
               dp_http = handle_connection demo_json ''b'' fs\<rparr>;
       mesh_only = good\<lparr>dp_dial := None\<rparr>
   in fetch_blob demo_hash demo_codec demo_json True (demo_hash [1, 2, 3]) All ([bad] @ good # []) None = (Inr (of_nat (length [1, 2, 3 :: u8])), Some [1, 2, 3]) \<and>
      fetch_blob demo_hash demo_codec demo_json True (demo_hash [1, 2, 3]) All ([bad] @ mesh_only # []) None = (Inr (of_nat (length [1, 2, 3 :: u8])), Some [1, 2, 3])"
proof -
  let ?fs = "snd (put_bytes_sync demo_hash None [1, 2, 3] [])"
  let ?bad = "\<lparr>dp_ticket = \<lparr>tk_direct = True, tk_range = All\<rparr>, dp_dial = Some (\<lambda>_. []), dp_http = (\<lambda>_. None)\<rparr>"
  let ?good = "\<lparr>dp_ticket = \<lparr>tk_direct = True, tk_range = All\<rparr>, dp_dial = Some (store_peer demo_hash demo_codec ?fs),
               dp_http = handle_connection demo_json ''b'' ?fs\<rparr>"
  have serves: "serves demo_hash ?fs [1, 2, 3]" by (rule serves_demo) (simp_all add: MAX_BLOB_def CHUNK_SIZE_def)
  have bad: "transport_fails demo_hash demo_codec (demo_hash [1, 2, 3]) All ?bad" "mesh_fails demo_hash demo_json (demo_hash [1, 2, 3]) All ?bad"
    by (simp_all add: transport_fails_def mesh_fails_def fetch_blob_over_transport_def fetch_from_one_def)
  have only: "transport_fails demo_hash demo_codec (demo_hash [1, 2, 3]) All (?good\<lparr>dp_dial := None\<rparr>)" by (simp add: transport_fails_def)
  note survive = download_survives_failing_peers [OF demo_codec_faithful serves demo_json_faithful]
  show ?thesis
    unfolding Let_def
    using conjunct1 [OF survive [of ?good "[?bad]" "[]" None]] conjunct2 [OF survive [of "?good\<lparr>dp_dial := None\<rparr>" "[?bad]" "[]" None True "''b''"]] bad only
    by simp
qed

text \<open>The empty blob is announced but its range is refused: the stream ends before \<^verbatim>\<open>Done\<close> and an empty file is left.\<close>

lemma empty_blob_not_fetched:
  assumes "codec_faithful bc" "length h = 32" "has_complete fs h" "store_meta fs h = Inr (0, cnt)"
  shows "fetch_blob_over_transport H bc (store_peer H bc fs) h All = (Inl ClosedBeforeDone, Some [])"
  using assms by (simp add: fetch_blob_over_transport_def store_peer_def serve_blob_request_def serve_get_def codec_faithful_def hex_roundtrip
      ByteRange_new_def)

end
