(* ===== verification/Jitter_Buffer.thy ===== *)
theory Jitter_Buffer
  imports Prelude Complex_Main
begin

text \<open>
  Smoothing and reordering of video frames, \<^verbatim>\<open>crates/a3net-video/src/jitter_buffer.rs\<close>: the jitter
  buffer with its modes and statistics, the reorder buffer and the gap detector. Sequence numbers are
  32-bit words; the clock is read in nanoseconds and the percentages of the adaptive mode are
  rationals. Latency fields of the statistics, which no operation sets, are left out.
  The lemmas: the buffer stays sorted and bounded and accounts for every frame under all
  sequences of operations, what is delivered when, and how the reorder buffer stalls.
\<close>

section \<open>The jitter buffer\<close>

definition DEFAULT_BUFFER_SIZE :: nat where "DEFAULT_BUFFER_SIZE = 30"
definition DEFAULT_MAX_WAIT_MS :: nat where "DEFAULT_MAX_WAIT_MS = 100"

record encoded_frame =
  ef_seq :: u32
  ef_data :: bytes
  ef_pts_ns :: u64

record jitter_buffer_stats =
  js_received :: u64
  js_delivered :: u64
  js_dropped :: u64
  js_reordered :: u64
  js_buffer_level :: nat

definition JitterBufferStats_default :: jitter_buffer_stats where
  "JitterBufferStats_default = \<lparr>js_received = 0, js_delivered = 0, js_dropped = 0, js_reordered = 0, js_buffer_level = 0\<rparr>"

datatype jitter_buffer_mode = Disabled | Low | Balanced | High | Adaptive

record buffered_frame =
  bf_frame :: encoded_frame
  bf_received_at :: instant

record jitter_buffer =
  jb_mode :: jitter_buffer_mode
  jb_buffer :: "buffered_frame list"
  jb_max_size :: nat
  jb_target_latency_ms :: nat
  jb_stats :: jitter_buffer_stats
  jb_frame_duration_ns :: nat
  jb_last_delivery :: instant
  jb_max_wait :: duration

fun mode_params :: "jitter_buffer_mode \<Rightarrow> nat \<times> nat" where
  "mode_params Disabled = (0, 0)"
| "mode_params Low = (5, 16)"
| "mode_params Balanced = (DEFAULT_BUFFER_SIZE, DEFAULT_MAX_WAIT_MS)"
| "mode_params High = (60, 200)"
| "mode_params Adaptive = (DEFAULT_BUFFER_SIZE, 50)"

definition millis :: "nat \<Rightarrow> duration" where "millis n = n * 1000000"

definition JitterBuffer_with_mode :: "instant \<Rightarrow> nat \<Rightarrow> jitter_buffer_mode \<Rightarrow> jitter_buffer" where
  "JitterBuffer_with_mode now frame_ns mode =
     (let (max_size, target) = mode_params mode
      in \<lparr>jb_mode = mode, jb_buffer = [], jb_max_size = max_size, jb_target_latency_ms = target,
           jb_stats = JitterBufferStats_default, jb_frame_duration_ns = frame_ns, jb_last_delivery = now, jb_max_wait = millis target\<rparr>)"

definition JitterBuffer_new :: "instant \<Rightarrow> nat \<Rightarrow> jitter_buffer" where
  "JitterBuffer_new now frame_ns = JitterBuffer_with_mode now frame_ns Balanced"

definition set_mode :: "jitter_buffer_mode \<Rightarrow> jitter_buffer \<Rightarrow> jitter_buffer" where
  "set_mode mode j =
     (let (max_size, target) = mode_params mode
      in j\<lparr>jb_mode := mode, jb_max_size := max_size, jb_target_latency_ms := target, jb_max_wait := millis target\<rparr>)"

definition position :: "('a \<Rightarrow> bool) \<Rightarrow> 'a list \<Rightarrow> nat" where
  "position P xs = length (takeWhile (\<lambda>x. \<not> P x) xs)"

definition deque_insert :: "nat \<Rightarrow> 'a \<Rightarrow> 'a list \<Rightarrow> 'a list" where
  "deque_insert i x xs = take i xs @ x # drop i xs"

definition JitterBuffer_push :: "instant \<Rightarrow> encoded_frame \<Rightarrow> jitter_buffer \<Rightarrow> jitter_buffer" where
  "JitterBuffer_push now f j =
     (if jb_mode j = Disabled then j
      else
        let s1 = (jb_stats j)\<lparr>js_received := js_received (jb_stats j) + 1\<rparr>;
            full = length (jb_buffer j) \<ge> jb_max_size j;
            b1 = (if full then tl (jb_buffer j) else jb_buffer j);
            s2 = (if full then s1\<lparr>js_dropped := js_dropped s1 + 1\<rparr> else s1);
            pos = position (\<lambda>g. ef_seq (bf_frame g) > ef_seq f) b1;
            b2 = deque_insert pos \<lparr>bf_frame = f, bf_received_at = now\<rparr> b1;
            s3 = (if pos > 0 then s2\<lparr>js_reordered := js_reordered s2 + 1\<rparr> else s2)
        in j\<lparr>jb_buffer := b2, jb_stats := s3\<lparr>js_buffer_level := length b2\<rparr>\<rparr>)"

definition JitterBuffer_pop :: "instant \<Rightarrow> jitter_buffer \<Rightarrow> encoded_frame option \<times> jitter_buffer" where
  "JitterBuffer_pop now j =
     (if jb_mode j = Disabled then (None, j)
      else case jb_buffer j of
          [] \<Rightarrow> (None, j)
        | front # rest \<Rightarrow>
            if now - jb_last_delivery j < jb_frame_duration_ns j then (None, j)
            else if now - bf_received_at front > jb_max_wait j then
              (None, j\<lparr>jb_buffer := rest,
                 jb_stats := (jb_stats j)\<lparr>js_dropped := js_dropped (jb_stats j) + 1, js_buffer_level := length rest\<rparr>\<rparr>)
            else
              (Some (bf_frame front),
               j\<lparr>jb_buffer := rest,
                 jb_stats := (jb_stats j)\<lparr>js_delivered := js_delivered (jb_stats j) + 1, js_buffer_level := length rest\<rparr>,
                 jb_last_delivery := now\<rparr>))"

definition JitterBuffer_reset :: "instant \<Rightarrow> jitter_buffer \<Rightarrow> jitter_buffer" where
  "JitterBuffer_reset now j = j\<lparr>jb_buffer := [], jb_stats := JitterBufferStats_default, jb_last_delivery := now\<rparr>"

definition has_ready_frame :: "instant \<Rightarrow> jitter_buffer \<Rightarrow> bool" where
  "has_ready_frame now j =
     (jb_mode j \<noteq> Disabled \<and> jb_buffer j \<noteq> [] \<and> now - jb_last_delivery j \<ge> jb_frame_duration_ns j)"

definition update_adaptive :: "rat \<Rightarrow> rat \<Rightarrow> jitter_buffer \<Rightarrow> jitter_buffer" where
  "update_adaptive loss jitter j =
     (if jb_mode j \<noteq> Adaptive then j
      else if loss > 10 \<or> jitter > 50 then set_mode High j
      else if loss > 5 \<or> jitter > 25 then set_mode Balanced j
      else set_mode Low j)"

datatype jitter_op =
    JbPush instant encoded_frame
  | JbPop instant
  | JbSetMode jitter_buffer_mode
  | JbAdaptive rat rat
  | JbReset instant

fun jitter_step :: "jitter_op \<Rightarrow> jitter_buffer \<Rightarrow> jitter_buffer" where
  "jitter_step (JbPush now f) j = JitterBuffer_push now f j"
| "jitter_step (JbPop now) j = snd (JitterBuffer_pop now j)"
| "jitter_step (JbSetMode m) j = set_mode m j"
| "jitter_step (JbAdaptive l q) j = update_adaptive l q j"
| "jitter_step (JbReset now) j = JitterBuffer_reset now j"

definition buffered_seqs :: "jitter_buffer \<Rightarrow> u32 list" where
  "buffered_seqs j = map (\<lambda>b. ef_seq (bf_frame b)) (jb_buffer j)"

definition accounted :: "jitter_buffer \<Rightarrow> bool" where
  "accounted j = (js_received (jb_stats j) = js_delivered (jb_stats j) + js_dropped (jb_stats j) + of_nat (length (jb_buffer j)) \<and>
     js_buffer_level (jb_stats j) = length (jb_buffer j))"

definition jitter_inv :: "jitter_buffer \<Rightarrow> bool" where
  "jitter_inv j = (sorted (buffered_seqs j) \<and> length (jb_buffer j) \<le> 60 \<and> accounted j \<and>
     (jb_max_size j, jb_target_latency_ms j) = mode_params (jb_mode j) \<and> jb_max_wait j = millis (jb_target_latency_ms j))"

lemma mode_max_size: "fst (mode_params m) \<le> 60" "m \<noteq> Disabled \<Longrightarrow> 0 < fst (mode_params m)"
  by (cases m; simp add: DEFAULT_BUFFER_SIZE_def)+

lemma position_le: "position P xs \<le> length xs"
  by (simp add: position_def length_takeWhile_le)

lemma length_deque_insert [simp]: "length (deque_insert i x xs) = Suc (length xs)"
  by (simp add: deque_insert_def)

lemma deque_insert_position: "deque_insert (position P xs) x xs = takeWhile (\<lambda>y. \<not> P y) xs @ x # dropWhile (\<lambda>y. \<not> P y) xs"
  by (simp add: deque_insert_def position_def takeWhile_eq_take [symmetric] dropWhile_eq_drop [symmetric])

lemma sorted_deque_insert:
  assumes "sorted (map f xs)"
  shows "sorted (map f (deque_insert (position (\<lambda>g. f g > f x) xs) x xs))"
  using assms
proof (induction xs)
  case (Cons y ys)
  have step: "deque_insert (position (\<lambda>g. f g > f x) (y # ys)) x (y # ys) =
      (if f y > f x then x # y # ys else y # deque_insert (position (\<lambda>g. f g > f x) ys) x ys)"
    by (simp add: deque_insert_position)
  have mem: "set (deque_insert i x ys) = insert x (set ys)" for i
    by (metis deque_insert_def Un_insert_right append_take_drop_id list.set(2) set_append)
  from Cons show ?case unfolding step using mem by (force simp: not_less)
qed (simp add: deque_insert_def position_def)

lemma push_inv: "jitter_inv j \<Longrightarrow> jitter_inv (JitterBuffer_push now f j)"
proof (cases "jb_mode j = Disabled")
  case False
  assume inv: "jitter_inv j"
  let ?b = "if length (jb_buffer j) \<ge> jb_max_size j then tl (jb_buffer j) else jb_buffer j"
  let ?pos = "position (\<lambda>g. ef_seq (bf_frame g) > ef_seq f) ?b"
  let ?new = "deque_insert ?pos \<lparr>bf_frame = f, bf_received_at = now\<rparr> ?b"
  have max: "0 < jb_max_size j" "jb_max_size j \<le> 60"
    using inv False mode_max_size [of "jb_mode j"] by (auto simp: jitter_inv_def dest!: arg_cong [of _ _ fst])
  have srt: "sorted (map (\<lambda>b. ef_seq (bf_frame b)) ?b)"
    using inv by (auto simp: jitter_inv_def buffered_seqs_def map_tl sorted_tl)
  have "sorted (map (\<lambda>b. ef_seq (bf_frame b)) ?new)"
    using sorted_deque_insert [OF srt, of "\<lparr>bf_frame = f, bf_received_at = now\<rparr>"] by simp
  moreover have "Suc (length ?b) \<le> 60" using inv max by (auto simp: jitter_inv_def)
  moreover have "of_nat (Suc (length ?b)) + (if length (jb_buffer j) \<ge> jb_max_size j then 1 else 0) = (of_nat (length (jb_buffer j)) + 1 :: u64)"
    using max by (cases "jb_buffer j") auto
  ultimately show ?thesis using inv False
    by (auto simp: JitterBuffer_push_def jitter_inv_def accounted_def buffered_seqs_def Let_def algebra_simps split: if_splits)
qed (simp add: JitterBuffer_push_def)

lemma pop_inv: "jitter_inv j \<Longrightarrow> jitter_inv (snd (JitterBuffer_pop now j))"
  by (auto simp: JitterBuffer_pop_def jitter_inv_def accounted_def buffered_seqs_def split: list.splits)

lemma set_mode_inv: "jitter_inv j \<Longrightarrow> jitter_inv (set_mode m j)"
  by (auto simp: set_mode_def jitter_inv_def accounted_def buffered_seqs_def split: prod.splits)

lemma jitter_step_inv: "jitter_inv j \<Longrightarrow> jitter_inv (jitter_step op j)"
proof (cases op)
  case (JbReset now)
  then show "jitter_inv j \<Longrightarrow> ?thesis"
    by (simp add: JitterBuffer_reset_def jitter_inv_def accounted_def buffered_seqs_def JitterBufferStats_default_def)
qed (simp_all add: push_inv pop_inv set_mode_inv update_adaptive_def)

interpretation jitter: op_machine "\<lambda>j. \<exists>now ns m. j = JitterBuffer_with_mode now ns m" jitter_step jitter_inv
proof
  show "jitter_inv j" if "\<exists>now ns m. j = JitterBuffer_with_mode now ns m" for j
    using that by (auto simp: JitterBuffer_with_mode_def jitter_inv_def accounted_def buffered_seqs_def JitterBufferStats_default_def case_prod_beta)
qed (rule jitter_step_inv)

text \<open>
  The jitter buffer is ordered, bounded and loses nothing unseen. After every sequence of frames, deliveries, mode changes and
  resets the buffered frames are in the order of their sequence numbers, at most 60 are held, and the frames
  received are those delivered, those counted as dropped and those still held, modulo the counter width.
\<close>

theorem jitter_buffer_reachable:
  "let j = fold jitter_step ops (JitterBuffer_with_mode now ns m)
   in sorted (buffered_seqs j) \<and> length (jb_buffer j) \<le> 60 \<and>
      js_received (jb_stats j) = js_delivered (jb_stats j) + js_dropped (jb_stats j) + of_nat (length (jb_buffer j))"
proof -
  have "jitter_inv (fold jitter_step ops (JitterBuffer_with_mode now ns m))" by (rule jitter.inv_run) blast
  then show ?thesis by (simp add: Let_def jitter_inv_def accounted_def)
qed

text \<open>
  A delivered frame is fresh, paced and the earliest: it was received at most the target latency of
  the mode ago, at least one frame duration has passed since the last delivery, and no held frame has
  a smaller sequence number.
\<close>

theorem delivered_frame_fresh:
  assumes "JitterBuffer_pop t (fold jitter_step ops (JitterBuffer_with_mode now ns m)) = (Some f, j')"
  shows "let j = fold jitter_step ops (JitterBuffer_with_mode now ns m)
         in \<exists>b. jb_buffer j = b # jb_buffer j' \<and> bf_frame b = f \<and> t - bf_received_at b \<le> millis (snd (mode_params (jb_mode j))) \<and>
              jb_frame_duration_ns j \<le> t - jb_last_delivery j \<and> list_all (\<lambda>s. ef_seq f \<le> s) (buffered_seqs j')"
proof -
  let ?j = "fold jitter_step ops (JitterBuffer_with_mode now ns m)"
  have inv: "jitter_inv ?j" by (rule jitter.inv_run) blast
  obtain b where b: "jb_buffer ?j = b # jb_buffer j'" "bf_frame b = f" "t - bf_received_at b \<le> jb_max_wait ?j"
    "jb_frame_duration_ns ?j \<le> t - jb_last_delivery ?j"
    using assms by (auto simp: JitterBuffer_pop_def not_less split: if_splits list.splits)
  have "jb_max_wait ?j = millis (snd (mode_params (jb_mode ?j)))"
    using inv by (auto simp: jitter_inv_def dest!: arg_cong [of _ _ snd])
  moreover have "list_all (\<lambda>s. ef_seq f \<le> s) (buffered_seqs j')"
    using inv b(1,2) by (auto simp: jitter_inv_def buffered_seqs_def list_all_iff)
  ultimately show ?thesis using b unfolding Let_def by auto
qed

definition demo_frame :: "u32 \<Rightarrow> encoded_frame" where
  "demo_frame s = \<lparr>ef_seq = s, ef_data = [1], ef_pts_ns = 0\<rparr>"

theorem delivered_frame_fresh_witness:
  "let j = fold jitter_step [JbPush 10 (demo_frame 2), JbPush 11 (demo_frame 1)] (JitterBuffer_with_mode 0 5 Low);
       j' = snd (JitterBuffer_pop 20 j)
   in \<exists>b. jb_buffer j = b # jb_buffer j' \<and> bf_frame b = demo_frame 1 \<and> 20 - bf_received_at b \<le> millis (snd (mode_params (jb_mode j))) \<and>
        jb_frame_duration_ns j \<le> 20 - jb_last_delivery j \<and> list_all (\<lambda>s. ef_seq (demo_frame 1) \<le> s) (buffered_seqs j')"
proof -
  let ?j = "fold jitter_step [JbPush 10 (demo_frame 2), JbPush 11 (demo_frame 1)] (JitterBuffer_with_mode 0 5 Low)"
  have "JitterBuffer_pop 20 ?j = (Some (demo_frame 1), snd (JitterBuffer_pop 20 ?j))"
    by (simp add: JitterBuffer_push_def JitterBuffer_pop_def JitterBuffer_with_mode_def position_def deque_insert_def demo_frame_def Let_def
        JitterBufferStats_default_def millis_def)
  from delivered_frame_fresh [OF this] show ?thesis by (simp only: Let_def)
qed


section \<open>The reorder buffer\<close>

record frame_reorder_stats =
  fs_in_order :: u64
  fs_out_of_order :: u64
  fs_late_frames :: u64
  fs_gaps :: u64

record frame_reorder =
  fr_buffer :: "encoded_frame list"
  fr_expected_seq :: u32
  fr_stats :: frame_reorder_stats
  fr_max_buffer_size :: nat
  fr_max_gap :: u32

definition FrameReorder_new :: "nat \<Rightarrow> u32 \<Rightarrow> frame_reorder" where
  "FrameReorder_new n gap = \<lparr>fr_buffer = [], fr_expected_seq = 0,
     fr_stats = \<lparr>fs_in_order = 0, fs_out_of_order = 0, fs_late_frames = 0, fs_gaps = 0\<rparr>, fr_max_buffer_size = n, fr_max_gap = gap\<rparr>"

text \<open>
  The loop that follows the delivery of the expected frame. It compares the front of the buffer with
  \<open>expected\<close>, the number read before the delivery, on every turn.
\<close>

fun drain :: "u32 \<Rightarrow> u32 \<Rightarrow> encoded_frame list \<Rightarrow> frame_reorder_stats \<Rightarrow> encoded_frame list \<times> encoded_frame list \<times> frame_reorder_stats" where
  "drain expected max_gap [] st = ([], [], st)"
| "drain expected max_gap (front # rest) st =
     (if ef_seq front = expected then
        (let (out, buf, st') = drain expected max_gap rest (st\<lparr>fs_in_order := fs_in_order st + 1\<rparr>) in (front # out, buf, st'))
      else if ef_seq front - expected > max_gap then
        (let (out, buf, st') = drain expected max_gap rest (st\<lparr>fs_gaps := fs_gaps st + 1\<rparr>) in (front # out, buf, st'))
      else ([], front # rest, st))"

definition FrameReorder_add :: "encoded_frame \<Rightarrow> frame_reorder \<Rightarrow> encoded_frame list \<times> frame_reorder" where
  "FrameReorder_add f r =
     (let seq = ef_seq f; expected = fr_expected_seq r; st = fr_stats r;
          (out, r1) =
            (if seq = expected then
               (let (out, buf, st') = drain expected (fr_max_gap r) (fr_buffer r) (st\<lparr>fs_in_order := fs_in_order st + 1\<rparr>)
                in (f # out, r\<lparr>fr_buffer := buf, fr_stats := st', fr_expected_seq := expected + 1\<rparr>))
             else if seq > expected then
               (if seq - expected > fr_max_gap r
                then ([f], r\<lparr>fr_stats := st\<lparr>fs_gaps := fs_gaps st + 1\<rparr>, fr_expected_seq := seq + 1\<rparr>)
                else ([], r\<lparr>fr_stats := st\<lparr>fs_out_of_order := fs_out_of_order st + 1\<rparr>,
                        fr_buffer := deque_insert (position (\<lambda>g. ef_seq g > seq) (fr_buffer r)) f (fr_buffer r)\<rparr>))
             else ([], r\<lparr>fr_stats := st\<lparr>fs_late_frames := fs_late_frames st + 1\<rparr>\<rparr>))
      in (out, r1\<lparr>fr_buffer := take (fr_max_buffer_size r1) (fr_buffer r1)\<rparr>))"

definition FrameReorder_reset :: "frame_reorder \<Rightarrow> frame_reorder" where
  "FrameReorder_reset r = r\<lparr>fr_buffer := [], fr_expected_seq := 0,
     fr_stats := \<lparr>fs_in_order = 0, fs_out_of_order = 0, fs_late_frames = 0, fs_gaps = 0\<rparr>\<rparr>"

fun reorder_all :: "encoded_frame list \<Rightarrow> frame_reorder \<Rightarrow> encoded_frame list \<times> frame_reorder" where
  "reorder_all [] r = ([], r)"
| "reorder_all (f # fs) r =
     (let (out, r1) = FrameReorder_add f r; (outs, r2) = reorder_all fs r1 in (out @ outs, r2))"

lemma reorder_config [simp]:
  "fr_max_gap (snd (FrameReorder_add f r)) = fr_max_gap r" "fr_max_buffer_size (snd (FrameReorder_add f r)) = fr_max_buffer_size r"
  by (simp_all add: FrameReorder_add_def Let_def case_prod_beta)

lemma reorder_bounded: "length (fr_buffer (snd (FrameReorder_add f r))) \<le> fr_max_buffer_size r"
  by (simp add: FrameReorder_add_def Let_def case_prod_beta)

text \<open>Frames in order are passed through one by one.\<close>

lemma reorder_in_order:
  "fr_buffer r = [] \<Longrightarrow> map ef_seq fs = map (\<lambda>i. fr_expected_seq r + of_nat i) [0..<length fs] \<Longrightarrow>
    fst (reorder_all fs r) = fs \<and> fr_buffer (snd (reorder_all fs r)) = []"
proof (induction fs arbitrary: r)
  case (Cons f fs)
  have "map (\<lambda>i. fr_expected_seq r + of_nat i) [0..<Suc (length fs)] =
      fr_expected_seq r # map (\<lambda>i. fr_expected_seq r + 1 + of_nat i) [0..<length fs]"
    by (simp only: upt_conv_Cons map_Suc_upt [symmetric] zero_less_Suc list.map map_map) (simp add: comp_def add.assoc)
  with Cons.prems have f: "ef_seq f = fr_expected_seq r" "map ef_seq fs = map (\<lambda>i. fr_expected_seq r + 1 + of_nat i) [0..<length fs]"
    by simp_all
  let ?r1 = "snd (FrameReorder_add f r)"
  have "fst (FrameReorder_add f r) = [f]" "fr_buffer ?r1 = []" "fr_expected_seq ?r1 = fr_expected_seq r + 1"
    using f(1) Cons.prems(1) by (simp_all add: FrameReorder_add_def Let_def)
  with Cons.IH [of ?r1] f(2) show ?case by (simp add: Let_def case_prod_beta)
qed simp

text \<open>
  A stalled buffer waits for the number \<open>e\<close> while the frame \<open>e\<close> is at its front; nothing but a
  second copy of that frame, or a gap beyond the limit, moves it.
\<close>

definition stalled :: "u32 \<Rightarrow> u32 \<Rightarrow> frame_reorder \<Rightarrow> bool" where
  "stalled e gap r = (fr_expected_seq r = e \<and> fr_max_gap r = gap)"

lemma stalled_step:
  assumes "stalled e gap r" "e < ef_seq f" "ef_seq f - e \<le> gap"
  shows "fst (FrameReorder_add f r) = [] \<and> stalled e gap (snd (FrameReorder_add f r))"
  using assms by (auto simp: stalled_def FrameReorder_add_def Let_def)

lemma stalled_all:
  "stalled e gap r \<Longrightarrow> list_all (\<lambda>f. e < ef_seq f \<and> ef_seq f - e \<le> gap) fs \<Longrightarrow> fst (reorder_all fs r) = []"
proof (induction fs arbitrary: r)
  case (Cons f fs)
  with stalled_step [of e gap r f] show ?case by (simp add: Let_def case_prod_beta)
qed simp

text \<open>
  One swapped pair stops the reorder buffer. After the frames 1 and 0 arrive in this order, frame 1 is not
  delivered with frame 0, and none of the following frames up to the largest allowed gap is delivered either,
  although every frame has arrived.
\<close>

theorem reorder_stalls_after_swap:
  assumes "ef_seq f1 = 1" and "ef_seq f0 = 0" and "0 < n" and "1 \<le> gap"
    and "list_all (\<lambda>f. 1 < ef_seq f \<and> ef_seq f - 1 \<le> gap) fs"
  shows "fst (reorder_all (f1 # f0 # fs) (FrameReorder_new n gap)) = [f0]"
proof -
  let ?r1 = "snd (FrameReorder_add f1 (FrameReorder_new n gap))"
  have r1: "fst (FrameReorder_add f1 (FrameReorder_new n gap)) = []" "fr_buffer ?r1 = [f1]" "fr_expected_seq ?r1 = 0"
    "fr_max_gap ?r1 = gap" "fr_max_buffer_size ?r1 = n"
    using assms(1,3,4) by (auto simp: FrameReorder_add_def FrameReorder_new_def Let_def position_def deque_insert_def not_less)
  let ?r2 = "snd (FrameReorder_add f0 ?r1)"
  have "fst (FrameReorder_add f0 ?r1) = [f0]" "stalled 1 gap ?r2"
    using assms(1,2,4) r1(2-) by (auto simp: FrameReorder_add_def Let_def stalled_def not_less)
  with stalled_all [OF _ assms(5)] r1(1) show ?thesis by (simp add: Let_def case_prod_beta)
qed

theorem reorder_stalls_after_swap_witness:
  "fst (reorder_all (demo_frame 1 # demo_frame 0 # [demo_frame 2, demo_frame 3, demo_frame 4]) (FrameReorder_new 10 5)) = [demo_frame 0]"
  by (rule reorder_stalls_after_swap) (simp_all add: demo_frame_def)

section \<open>The gap detector\<close>

record frame_gap =
  fg_expected :: u32
  fg_received :: u32
  fg_lost_count :: u32
  fg_recovered :: bool

record gap_detector =
  gd_last_seq :: u32
  gd_gaps :: "frame_gap list"
  gd_max_gaps :: nat

definition GapDetector_new :: "nat \<Rightarrow> gap_detector" where
  "GapDetector_new n = \<lparr>gd_last_seq = 0, gd_gaps = [], gd_max_gaps = n\<rparr>"

text \<open>\<^verbatim>\<open>gaps.remove(0)\<close> panics on an empty list, which a detector that keeps no gaps always has.\<close>

definition on_frame :: "u32 \<Rightarrow> gap_detector \<Rightarrow> (frame_gap option \<times> gap_detector) option" where
  "on_frame seq d =
     (let expected = gd_last_seq d + 1
      in if seq = expected then Some (None, d\<lparr>gd_last_seq := seq\<rparr>)
         else
           let gap = \<lparr>fg_expected = expected, fg_received = seq, fg_lost_count = (if seq > expected then seq - expected else 0), fg_recovered = False\<rparr>
           in if length (gd_gaps d) \<ge> gd_max_gaps d \<and> gd_gaps d = [] then None
              else
                let gs = (if length (gd_gaps d) \<ge> gd_max_gaps d then tl (gd_gaps d) else gd_gaps d)
                in Some (Some gap, d\<lparr>gd_gaps := gs @ [gap], gd_last_seq := (if seq > expected then seq else gd_last_seq d)\<rparr>))"

definition total_lost :: "gap_detector \<Rightarrow> u32" where
  "total_lost d = sum_list (map fg_lost_count (gd_gaps d))"

fun mark_first :: "u32 \<Rightarrow> frame_gap list \<Rightarrow> frame_gap list" where
  "mark_first e [] = []"
| "mark_first e (g # gs) = (if fg_expected g = e then g\<lparr>fg_recovered := True\<rparr> # gs else g # mark_first e gs)"

definition mark_recovered :: "u32 \<Rightarrow> gap_detector \<Rightarrow> gap_detector" where
  "mark_recovered e d = d\<lparr>gd_gaps := mark_first e (gd_gaps d)\<rparr>"

fun detect_all :: "u32 list \<Rightarrow> gap_detector \<Rightarrow> gap_detector option" where
  "detect_all [] d = Some d"
| "detect_all (s # ss) d = (case on_frame s d of None \<Rightarrow> None | Some (_, d') \<Rightarrow> detect_all ss d')"

lemma detect_step:
  assumes "unat (gd_last_seq d) < unat s" "length (gd_gaps d) < gd_max_gaps d"
  shows "\<exists>g d'. on_frame s d = Some (g, d') \<and> gd_last_seq d' = s \<and> total_lost d' = total_lost d + (s - gd_last_seq d - 1) \<and>
    length (gd_gaps d') \<le> Suc (length (gd_gaps d)) \<and> gd_max_gaps d' = gd_max_gaps d"
proof -
  have "unat (gd_last_seq d + 1) = unat (gd_last_seq d) + 1"
    using assms(1) unat_bound [of s] by (simp add: unat_plus_one)
  then have "s \<noteq> gd_last_seq d + 1 \<Longrightarrow> s > gd_last_seq d + 1"
    using assms(1) by (auto simp: word_less_nat_alt word_unat_eq_iff)
  with assms(2) show ?thesis by (auto simp: on_frame_def Let_def total_lost_def algebra_simps)
qed

lemma detect_increasing:
  "sorted_wrt (<) (map unat (gd_last_seq d # ss)) \<Longrightarrow> length (gd_gaps d) + length ss \<le> gd_max_gaps d \<Longrightarrow>
    \<exists>d'. detect_all ss d = Some d' \<and> total_lost d' = total_lost d + (last (gd_last_seq d # ss) - gd_last_seq d - of_nat (length ss))"
proof (induction ss arbitrary: d)
  case (Cons s ss)
  then obtain g d1 where d1: "on_frame s d = Some (g, d1)" "gd_last_seq d1 = s" "total_lost d1 = total_lost d + (s - gd_last_seq d - 1)"
    "length (gd_gaps d1) \<le> Suc (length (gd_gaps d))" "gd_max_gaps d1 = gd_max_gaps d"
    using detect_step [of d s] by auto
  from Cons.IH [of d1] Cons.prems d1 obtain d' where d': "detect_all ss d1 = Some d'"
    "total_lost d' = total_lost d1 + (last (s # ss) - s - of_nat (length ss))" by auto
  have "last (gd_last_seq d # s # ss) = last (s # ss)" by simp
  moreover have "total_lost d' = total_lost d + (last (s # ss) - gd_last_seq d - of_nat (length (s # ss)))"
    unfolding d'(2) d1(3) by (simp add: diff_diff_eq)
  ultimately show ?case using d1(1) d'(1) by simp
qed simp

text \<open>
  Lost frames are counted exactly. When sequence numbers arrive in increasing order, starting above zero and with at most as
  many gaps as the detector keeps, it reports exactly the numbers below the last one that were
  skipped.
\<close>

theorem gaps_counted_exactly:
  assumes "sorted_wrt (<) (map unat (0 # ss))" and "length ss \<le> n"
  shows "\<exists>d. detect_all ss (GapDetector_new n) = Some d \<and> unat (total_lost d) = unat (last (0 # ss)) - length ss"
proof -
  obtain d where d: "detect_all ss (GapDetector_new n) = Some d" "total_lost d = last (0 # ss) - of_nat (length ss)"
    using detect_increasing [of "GapDetector_new n" ss] assms by (auto simp: GapDetector_new_def total_lost_def)
  have "length ss \<le> unat (last (0 # ss))"
    using assms(1)
  proof (induction ss rule: rev_induct)
    case (snoc s ss)
    then have "length ss \<le> unat (last (0 # ss))" by (simp add: sorted_wrt_append)
    moreover have "unat (last (0 # ss)) < unat s" using snoc.prems by (cases ss rule: rev_cases) (auto simp: sorted_wrt_append)
    ultimately show ?case by simp
  qed simp
  moreover from this have "of_nat (length ss) \<le> last (0 # ss)"
    using unat_bound [of "last (0 # ss)"] by (simp add: word_le_nat_alt unat_of_nat_small del: unat_of_nat)
  ultimately show ?thesis using d unat_bound [of "last (0 # ss)"] by (auto simp: unat_sub unat_of_nat_small simp del: unat_of_nat)
qed

theorem gaps_counted_exactly_witness:
  "\<exists>d. detect_all [1, 2, 5, 9] (GapDetector_new 4) = Some d \<and> unat (total_lost d) = unat (last (0 # [1, 2, 5, 9 :: u32])) - length [1, 2, 5, 9 :: u32]"
  by (rule gaps_counted_exactly) simp_all

lemma first_frame_reported_late: "\<exists>g d. on_frame 0 (GapDetector_new (Suc n)) = Some (Some g, d) \<and> fg_lost_count g = 0"
  by (simp add: on_frame_def GapDetector_new_def Let_def)

end
