(* ===== verification/Identity.thy ===== *)
theory Identity
  imports Node
begin

text \<open>
  Wallet identities, \<^verbatim>\<open>crates/a3net-identity/src\<close>: addresses and their checksummed text
  (\<^verbatim>\<open>address.rs\<close>), EIP-191 signatures (\<^verbatim>\<open>signing.rs\<close>, \<^verbatim>\<open>wallet.rs\<close>), the sealed envelope (\<^verbatim>\<open>envelope.rs\<close>)
  and the treasury (\<^verbatim>\<open>treasury.rs\<close>).

  The \<^verbatim>\<open>hex\<close>, Keccak, BLAKE3, secp256k1 and ECIES code is the argument \<open>crypto\<close>. \<open>hex_crate\<close> and \<open>secp_crate\<close>
  are what that code is documented to do. An address is its list of 20 bytes, a wallet its secret.
\<close>

record crypto =
  cr_hex_encode :: "bytes \<Rightarrow> string"
  cr_hex_decode :: "string \<Rightarrow> bytes option"
  cr_keccak256 :: "bytes \<Rightarrow> bytes"
  cr_blake3 :: "bytes \<Rightarrow> bytes"
  cr_secret_ok :: "bytes \<Rightarrow> bool"
  cr_public_key :: "bytes \<Rightarrow> bytes"
  cr_sign_recoverable :: "bytes \<Rightarrow> bytes \<Rightarrow> nat \<times> bytes"
  cr_recover_ecdsa :: "bytes \<Rightarrow> bytes \<Rightarrow> nat \<Rightarrow> bytes option"

datatype identity_error =
    InvalidSecretKey string
  | InvalidSignature string
  | InvalidX25519Key nat
  | InvalidAddressLength nat
  | Hex
  | EnvelopeTooShort nat nat
  | EnvelopeVersionMismatch u8 u8
  | EnvelopeMagicMismatch bytes
  | Aead
  | Keystore nat

section \<open>Addresses\<close>

definition EVM_ADDRESS_LEN :: nat where "EVM_ADDRESS_LEN = 20"

definition Address_from_slice :: "bytes \<Rightarrow> (identity_error, bytes) result" where
  "Address_from_slice bs = (if length bs \<noteq> EVM_ADDRESS_LEN then Inl (InvalidAddressLength (length bs)) else Inr bs)"

definition Address_to_hex :: "crypto \<Rightarrow> bytes \<Rightarrow> string" where
  "Address_to_hex cr a = ''0x'' @ cr_hex_encode cr a"

definition strip_hex_prefix :: "string \<Rightarrow> string" where
  "strip_hex_prefix s = (case s of c # d # rest \<Rightarrow> if c = CHR ''0'' \<and> (d = CHR ''x'' \<or> d = CHR ''X'') then rest else s | _ \<Rightarrow> s)"

definition Address_from_hex :: "crypto \<Rightarrow> string \<Rightarrow> (identity_error, bytes) result" where
  "Address_from_hex cr s = (case cr_hex_decode cr (strip_hex_prefix s) of None \<Rightarrow> Inl Hex | Some bs \<Rightarrow> Address_from_slice bs)"

definition is_ascii_letter :: "char \<Rightarrow> bool" where
  "is_ascii_letter c = (let n = of_char c :: nat in (65 \<le> n \<and> n \<le> 90) \<or> (97 \<le> n \<and> n \<le> 122))"

definition to_ascii_uppercase_char :: "char \<Rightarrow> char" where
  "to_ascii_uppercase_char c = (let n = of_char c :: nat in if 97 \<le> n \<and> n \<le> 122 then char_of (n - 32) else c)"

definition hash_nibble :: "bytes \<Rightarrow> nat \<Rightarrow> u8" where
  "hash_nibble h i = and (drop_bit (if i mod 2 = 0 then 4 else 0) (h ! (i div 2))) 0x0F"

definition Address_to_checksum :: "crypto \<Rightarrow> bytes \<Rightarrow> string" where
  "Address_to_checksum cr a = (let hex_lower = cr_hex_encode cr a; h = cr_keccak256 cr (str_as_bytes hex_lower) in
     ''0x'' @ map (\<lambda>(i, ch). if is_ascii_letter ch \<and> 8 \<le> hash_nibble h i then to_ascii_uppercase_char ch else ch)
       (zip [0..<length hex_lower] hex_lower))"

text \<open>What the \<^verbatim>\<open>hex\<close> crate documents: lower case on output, both cases on input.\<close>

definition is_lower_hex :: "char \<Rightarrow> bool" where
  "is_lower_hex c = (let n = of_char c :: nat in (48 \<le> n \<and> n \<le> 57) \<or> (97 \<le> n \<and> n \<le> 102))"

definition hex_crate :: "crypto \<Rightarrow> bool" where
  "hex_crate cr \<longleftrightarrow> (\<forall>b. length (cr_hex_encode cr b) = 2 * length b \<and> list_all is_lower_hex (cr_hex_encode cr b)) \<and>
     (\<forall>b t. map to_ascii_lowercase_char t = cr_hex_encode cr b \<longrightarrow> cr_hex_decode cr t = Some b)"

lemma lower_upper: "is_lower_hex c \<Longrightarrow> to_ascii_lowercase_char (to_ascii_uppercase_char c) = c"
  "is_lower_hex c \<Longrightarrow> to_ascii_lowercase_char c = c"
  by (auto simp: is_lower_hex_def to_ascii_lowercase_char_def to_ascii_uppercase_char_def Let_def)

lemma strip_0x [simp]: "strip_hex_prefix (CHR ''0'' # CHR ''x'' # t) = t"
  by (simp add: strip_hex_prefix_def)

lemma checksum_lowercase:
  assumes "hex_crate cr"
  shows "map to_ascii_lowercase_char (drop 2 (Address_to_checksum cr a)) = cr_hex_encode cr a"
proof -
  let ?s = "cr_hex_encode cr a"
  have "is_lower_hex (?s ! i)" if "i < length ?s" for i using assms that by (auto simp: hex_crate_def list_all_length)
  then show ?thesis
    by (intro nth_equalityI) (auto simp: Address_to_checksum_def Let_def lower_upper)
qed

lemma strip_bare: "list_all is_lower_hex (map to_ascii_lowercase_char t) \<Longrightarrow> strip_hex_prefix t = t"
  by (auto simp: strip_hex_prefix_def is_lower_hex_def to_ascii_lowercase_char_def Let_def split: list.split)

text \<open>
  An address survives its text form. The checksummed form, the plain form and every other mixture of cases of the
  letters, with or without the prefix, parse back to the 20 bytes, so that different addresses never share a
  text form.
\<close>

theorem address_text_round_trip:
  assumes "hex_crate cr" and "length a = EVM_ADDRESS_LEN"
    and "map to_ascii_lowercase_char t = cr_hex_encode cr a"
  shows "Address_from_hex cr (Address_to_checksum cr a) = Inr a \<and> Address_from_hex cr (Address_to_hex cr a) = Inr a \<and>
    Address_from_hex cr (''0x'' @ t) = Inr a \<and> Address_from_hex cr t = Inr a"
proof -
  have dec: "cr_hex_decode cr u = Some a" if "map to_ascii_lowercase_char u = cr_hex_encode cr a" for u
    using assms(1) that by (simp add: hex_crate_def)
  have enc: "list_all is_lower_hex (cr_hex_encode cr a)" using assms(1) by (simp add: hex_crate_def)
  then have low: "map to_ascii_lowercase_char (cr_hex_encode cr a) = cr_hex_encode cr a"
    by (intro map_idI) (simp add: list_all_iff lower_upper)
  have slice: "Address_from_slice a = Inr a" using assms(2) by (simp add: Address_from_slice_def)
  have "Address_to_checksum cr a = CHR ''0'' # CHR ''x'' # drop 2 (Address_to_checksum cr a)"
    by (simp add: Address_to_checksum_def Let_def)
  then have "strip_hex_prefix (Address_to_checksum cr a) = drop 2 (Address_to_checksum cr a)" by (metis strip_0x)
  then have "Address_from_hex cr (Address_to_checksum cr a) = Inr a"
    by (simp add: Address_from_hex_def dec [OF checksum_lowercase [OF assms(1)]] slice)
  moreover have "strip_hex_prefix t = t" by (rule strip_bare) (simp add: assms(3) enc)
  ultimately show ?thesis
    by (simp add: Address_from_hex_def Address_to_hex_def dec [OF low] dec [OF assms(3)] slice)
qed

text \<open>A concrete \<^verbatim>\<open>hex\<close> crate, and toy keys, to instantiate the arguments.\<close>

definition demo_nibble :: "nat \<Rightarrow> char" where
  "demo_nibble n = (if n < 10 then char_of (48 + n) else char_of (87 + n))"

definition demo_hex_value :: "char \<Rightarrow> nat option" where
  "demo_hex_value c = (let n = of_char c :: nat in
     if 48 \<le> n \<and> n \<le> 57 then Some (n - 48) else if 97 \<le> n \<and> n \<le> 102 then Some (n - 87)
     else if 65 \<le> n \<and> n \<le> 70 then Some (n - 55) else None)"

definition demo_hex_encode :: "bytes \<Rightarrow> string" where
  "demo_hex_encode b = concat (map (\<lambda>x. [demo_nibble (unat x div 16), demo_nibble (unat x mod 16)]) b)"

fun demo_hex_decode :: "string \<Rightarrow> bytes option" where
  "demo_hex_decode [] = Some []"
| "demo_hex_decode [c] = None"
| "demo_hex_decode (c # d # t) = (case (demo_hex_value c, demo_hex_value d, demo_hex_decode t) of
     (Some h, Some l, Some b) \<Rightarrow> Some (of_nat (16 * h + l) # b) | _ \<Rightarrow> None)"

definition demo_crypto :: crypto where
  "demo_crypto = \<lparr>cr_hex_encode = demo_hex_encode, cr_hex_decode = demo_hex_decode, cr_keccak256 = (\<lambda>_. replicate 32 0x8F),
     cr_blake3 = (\<lambda>_. replicate 32 0), cr_secret_ok = (\<lambda>sk. length sk = 32), cr_public_key = (\<lambda>sk. 4 # sk),
     cr_sign_recoverable = (\<lambda>_ sk. (0, sk @ replicate 32 0)), cr_recover_ecdsa = (\<lambda>_ c _. Some (4 # take 32 c))\<rparr>"

lemma demo_hex_value_nibble:
  assumes "n < 16" and "to_ascii_lowercase_char c = demo_nibble n"
  shows "demo_hex_value c = Some n"
proof -
  from assms(2) have "(of_char (to_ascii_lowercase_char c) :: nat) = of_char (demo_nibble n)" by simp
  moreover have "(of_char (demo_nibble n) :: nat) = (if n < 10 then 48 + n else 87 + n)"
    using assms(1) by (simp add: demo_nibble_def of_char_of)
  moreover have "(of_char (to_ascii_lowercase_char c) :: nat) = (if 65 \<le> (of_char c :: nat) \<and> (of_char c :: nat) \<le> 90 then of_char c + 32 else of_char c)"
    by (simp add: to_ascii_lowercase_char_def Let_def of_char_of)
  ultimately show ?thesis using assms(1) by (auto simp: demo_hex_value_def Let_def split: if_splits)
qed

lemma demo_hex_crate: "hex_crate demo_crypto"
proof -
  have byte: "(of_nat (16 * (unat x div 16) + unat x mod 16) :: u8) = x" for x :: u8 by simp
  have nib: "unat x div 16 < 16" for x :: u8 using unat_bound [of x] by (simp add: less_mult_imp_div_less)
  then have dec: "map to_ascii_lowercase_char t = demo_hex_encode b \<Longrightarrow> demo_hex_decode t = Some b" for b t
  proof (induction b arbitrary: t)
    case (Cons x b)
    from Cons.prems obtain c d t' where t: "t = c # d # t'" "to_ascii_lowercase_char c = demo_nibble (unat x div 16)"
      "to_ascii_lowercase_char d = demo_nibble (unat x mod 16)" "map to_ascii_lowercase_char t' = demo_hex_encode b"
      by (auto simp: demo_hex_encode_def)
    have "demo_hex_value c = Some (unat x div 16)" "demo_hex_value d = Some (unat x mod 16)"
      using demo_hex_value_nibble t(2,3) Cons.prems(2) by (simp_all del: unat_of_nat)
    then show ?case using Cons.IH [OF t(4) Cons.prems(2)] by (simp add: t(1) byte)
  qed (simp add: demo_hex_encode_def)
  have "is_lower_hex (demo_nibble n)" if "n < 16" for n using that by (auto simp: is_lower_hex_def demo_nibble_def of_char_of Let_def)
  with nib have "list_all is_lower_hex (demo_hex_encode b)" for b by (auto simp: demo_hex_encode_def list_all_iff)
  then show ?thesis using dec by (simp add: hex_crate_def demo_crypto_def demo_hex_encode_def length_concat comp_def sum_list_triv)
qed

lemma demo_mixed_case:
  "map to_ascii_lowercase_char (concat (replicate n ''aB'')) = cr_hex_encode demo_crypto (replicate n 0xAB)"
  by (induction n) (simp_all add: demo_crypto_def demo_hex_encode_def demo_nibble_def to_ascii_lowercase_char_def Let_def char_of_def bit_0)

theorem address_text_round_trip_witness:
  "Address_from_hex demo_crypto (Address_to_checksum demo_crypto (replicate 20 0xAB)) = Inr (replicate 20 0xAB) \<and>
   Address_from_hex demo_crypto (Address_to_hex demo_crypto (replicate 20 0xAB)) = Inr (replicate 20 0xAB) \<and>
   Address_from_hex demo_crypto (''0x'' @ concat (replicate 20 ''aB'')) = Inr (replicate 20 0xAB) \<and>
   Address_from_hex demo_crypto (concat (replicate 20 ''aB'')) = Inr (replicate 20 0xAB)"
  by (rule address_text_round_trip [OF demo_hex_crate _ demo_mixed_case]) (simp add: EVM_ADDRESS_LEN_def)

section \<open>Signatures\<close>

definition EIP191_PREFIX :: bytes where
  "EIP191_PREFIX = 0x19 # str_as_bytes ''Ethereum Signed Message:'' @ [0x0A]"

definition PERSONAL_SIGN_VERSION :: u8 where "PERSONAL_SIGN_VERSION = 27"

record personal_signature =
  ps_r :: bytes
  ps_s :: bytes
  ps_v :: u8

definition to_compact :: "personal_signature \<Rightarrow> bytes" where
  "to_compact sig = ps_r sig @ ps_s sig @ [ps_v sig]"

definition from_compact :: "bytes \<Rightarrow> (identity_error, personal_signature) result" where
  "from_compact bs = (if length bs \<noteq> 65 then Inl (InvalidSignature ''expected 65 bytes'')
     else let v = bs ! 64 in
       if v \<noteq> 27 \<and> v \<noteq> 28 then Inl (InvalidSignature ''v must be 27 or 28'')
       else Inr \<lparr>ps_r = take 32 bs, ps_s = take 32 (drop 32 bs), ps_v = v\<rparr>)"

fun decimal_loop :: "nat \<Rightarrow> string \<Rightarrow> string" where
  "decimal_loop v out = (if v = 0 then out else decimal_loop (v div 10) (digit_char (v mod 10) # out))"

definition small_uint_to_decimal :: "nat \<Rightarrow> string" where
  "small_uint_to_decimal n = (if n = 0 then ''0'' else decimal_loop n [])"

definition eip191_hash :: "crypto \<Rightarrow> bytes \<Rightarrow> bytes" where
  "eip191_hash cr digest = cr_keccak256 cr (EIP191_PREFIX @ str_as_bytes (small_uint_to_decimal 32) @ digest)"

record wallet_public =
  wp_pubkey :: bytes
  wp_address :: bytes

definition derive_address :: "crypto \<Rightarrow> bytes \<Rightarrow> bytes" where
  "derive_address cr pk = take 20 (drop 12 (cr_keccak256 cr (drop 1 pk)))"

definition WalletPublic_from_secret :: "crypto \<Rightarrow> bytes \<Rightarrow> wallet_public" where
  "WalletPublic_from_secret cr sk = (let pk = cr_public_key cr sk in \<lparr>wp_pubkey = pk, wp_address = derive_address cr pk\<rparr>)"

definition Wallet_from_bytes :: "crypto \<Rightarrow> bytes \<Rightarrow> (identity_error, bytes \<times> wallet_public) result" where
  "Wallet_from_bytes cr bs = (if length bs \<noteq> 32 then Inl (InvalidSecretKey ''expected 32 bytes'')
     else if \<not> cr_secret_ok cr bs then Inl (InvalidSecretKey ''secp256k1'')
     else Inr (bs, WalletPublic_from_secret cr bs))"

definition sign_personal :: "crypto \<Rightarrow> bytes \<Rightarrow> bytes \<Rightarrow> (identity_error, personal_signature) result" where
  "sign_personal cr sk digest = (if length digest \<noteq> 32 then Inl (InvalidSignature ''personal_sign expects a 32-byte digest'')
     else if \<not> cr_secret_ok cr sk then Inl (InvalidSecretKey ''secp256k1'')
     else let (recovery_id, compact) = cr_sign_recoverable cr (eip191_hash cr digest) sk in
       Inr \<lparr>ps_r = take 32 compact, ps_s = drop 32 compact, ps_v = PERSONAL_SIGN_VERSION + of_nat recovery_id\<rparr>)"

definition recover_personal :: "crypto \<Rightarrow> bytes \<Rightarrow> personal_signature \<Rightarrow> (identity_error, wallet_public) result" where
  "recover_personal cr digest sig =
     (if ps_v sig \<noteq> 27 \<and> ps_v sig \<noteq> 28 then Inl (InvalidSignature ''v must be 27 or 28'')
      else case cr_recover_ecdsa cr (eip191_hash cr digest) (ps_r sig @ ps_s sig) (if ps_v sig = 27 then 0 else 1) of
        None \<Rightarrow> Inl (InvalidSignature ''recover'')
      | Some pk \<Rightarrow> Inr \<lparr>wp_pubkey = pk, wp_address = derive_address cr pk\<rparr>)"

text \<open>What secp256k1 documents: a signature is 64 bytes with a recovery id below 4, and recovers the key of its signer.\<close>

definition secp_crate :: "crypto \<Rightarrow> bool" where
  "secp_crate cr \<longleftrightarrow> (\<forall>m sk. cr_secret_ok cr sk \<longrightarrow> fst (cr_sign_recoverable cr m sk) < 4 \<and> length (snd (cr_sign_recoverable cr m sk)) = 64 \<and>
     cr_recover_ecdsa cr m (snd (cr_sign_recoverable cr m sk)) (fst (cr_sign_recoverable cr m sk)) = Some (cr_public_key cr sk))"

lemma compact_round_trip:
  "length (ps_r sig) = 32 \<Longrightarrow> length (ps_s sig) = 32 \<Longrightarrow>
    from_compact (to_compact sig) = (if ps_v sig = 27 \<or> ps_v sig = 28 then Inr sig else Inl (InvalidSignature ''v must be 27 or 28''))"
  by (auto simp: from_compact_def to_compact_def Let_def nth_append)

text \<open>
  A signature names its signer. What a wallet signs is parsed back from its 65 bytes and recovers exactly the
  wallet's public key and address, whenever the recovery id is 0 or 1; the two ids above it, which
  the signer writes as 29 and 30, are refused by the parser.
\<close>

theorem personal_signature_round_trip:
  assumes "secp_crate cr" and "cr_secret_ok cr sk" and "length digest = 32"
  shows "\<exists>sig. sign_personal cr sk digest = Inr sig \<and>
    (if fst (cr_sign_recoverable cr (eip191_hash cr digest) sk) \<le> 1
     then from_compact (to_compact sig) = Inr sig \<and> recover_personal cr digest sig = Inr (WalletPublic_from_secret cr sk)
     else from_compact (to_compact sig) = Inl (InvalidSignature ''v must be 27 or 28''))"
proof -
  let ?h = "eip191_hash cr digest"
  obtain n c where sg: "cr_sign_recoverable cr ?h sk = (n, c)" by fastforce
  with assms(1,2) have law: "n < 4" "length c = 64" "cr_recover_ecdsa cr ?h c n = Some (cr_public_key cr sk)"
    using assms(1) [unfolded secp_crate_def, rule_format, OF assms(2), of ?h] by simp_all
  let ?s = "\<lparr>ps_r = take 32 c, ps_s = drop 32 c, ps_v = 27 + of_nat n\<rparr>"
  have "sign_personal cr sk digest = Inr ?s" using assms(2,3) sg by (simp add: sign_personal_def PERSONAL_SIGN_VERSION_def)
  moreover have "from_compact (to_compact ?s) = (if n \<le> 1 then Inr ?s else Inl (InvalidSignature ''v must be 27 or 28''))"
  proof -
    have "n = 0 \<or> n = 1 \<or> n = 2 \<or> n = 3" using law(1) by auto
    then show ?thesis using law(2) by (subst compact_round_trip) auto
  qed
  moreover have "recover_personal cr digest ?s = Inr (WalletPublic_from_secret cr sk)" if "n \<le> 1"
  proof -
    from that have "n = 0 \<or> n = 1" by auto
    then show ?thesis using law(3) by (auto simp: recover_personal_def WalletPublic_from_secret_def Let_def)
  qed
  ultimately show ?thesis using sg by auto
qed

lemma demo_secp_crate: "secp_crate demo_crypto"
  by (simp add: secp_crate_def demo_crypto_def)

theorem personal_signature_round_trip_witness:
  "\<exists>sig. sign_personal demo_crypto (replicate 32 7) (replicate 32 9) = Inr sig \<and>
    (if fst (cr_sign_recoverable demo_crypto (eip191_hash demo_crypto (replicate 32 9)) (replicate 32 7)) \<le> 1
     then from_compact (to_compact sig) = Inr sig \<and>
       recover_personal demo_crypto (replicate 32 9) sig = Inr (WalletPublic_from_secret demo_crypto (replicate 32 7))
     else from_compact (to_compact sig) = Inl (InvalidSignature ''v must be 27 or 28''))"
  by (rule personal_signature_round_trip [OF demo_secp_crate]) (simp_all add: demo_crypto_def)

section \<open>The sealed envelope\<close>

definition ADR_ENVELOPE_MAGIC :: bytes where "ADR_ENVELOPE_MAGIC = str_as_bytes ''ADEN''"
definition ADR_ENVELOPE_VERSION :: u8 where "ADR_ENVELOPE_VERSION = 1"

record ecies_ciphertext =
  ec_ephemeral_pub :: bytes
  ec_nonce :: bytes
  ec_ciphertext :: bytes

record sealed_envelope =
  en_version :: u8
  en_recipient :: bytes
  en_inner :: ecies_ciphertext

definition X25519PublicKey_from_bytes :: "bytes \<Rightarrow> (identity_error, bytes) result" where
  "X25519PublicKey_from_bytes bs = (if length bs \<noteq> 32 then Inl (InvalidX25519Key (length bs)) else Inr bs)"

definition seal :: "(bytes \<Rightarrow> bytes \<Rightarrow> (identity_error, ecies_ciphertext) result) \<Rightarrow> bytes \<Rightarrow> bytes \<Rightarrow> (identity_error, sealed_envelope) result" where
  "seal encrypt recipient payload = (case encrypt recipient payload of Inl e \<Rightarrow> Inl e
     | Inr inner \<Rightarrow> Inr \<lparr>en_version = ADR_ENVELOPE_VERSION, en_recipient = recipient, en_inner = inner\<rparr>)"

definition open_envelope :: "(bytes \<Rightarrow> ecies_ciphertext \<Rightarrow> (identity_error, bytes) result) \<Rightarrow> sealed_envelope \<Rightarrow> bytes \<Rightarrow> (identity_error, bytes) result" where
  "open_envelope decrypt e secret = (if en_version e \<noteq> ADR_ENVELOPE_VERSION then Inl (EnvelopeVersionMismatch ADR_ENVELOPE_VERSION (en_version e))
     else decrypt secret (en_inner e))"

definition SealedEnvelope_encode :: "sealed_envelope \<Rightarrow> bytes" where
  "SealedEnvelope_encode e = ADR_ENVELOPE_MAGIC @ [en_version e] @ en_recipient e @ ec_ephemeral_pub (en_inner e) @
     ec_nonce (en_inner e) @ ec_ciphertext (en_inner e)"

definition SealedEnvelope_decode :: "bytes \<Rightarrow> (identity_error, sealed_envelope) result" where
  "SealedEnvelope_decode bs = (let HEADER = 4 + 1 + 32 + 32 + 12 in
     if length bs < HEADER then Inl (EnvelopeTooShort HEADER (length bs))
     else if take 4 bs \<noteq> ADR_ENVELOPE_MAGIC then Inl (EnvelopeMagicMismatch (take 4 bs))
     else case X25519PublicKey_from_bytes (take 32 (drop 5 bs)) of
       Inl e \<Rightarrow> Inl e
     | Inr recipient \<Rightarrow> Inr \<lparr>en_version = bs ! 4, en_recipient = recipient,
         en_inner = \<lparr>ec_ephemeral_pub = take 32 (drop 37 bs), ec_nonce = take 12 (drop 69 bs), ec_ciphertext = drop 81 bs\<rparr>\<rparr>)"

definition envelope_wf :: "sealed_envelope \<Rightarrow> bool" where
  "envelope_wf e \<longleftrightarrow> length (en_recipient e) = 32 \<and> length (ec_ephemeral_pub (en_inner e)) = 32 \<and> length (ec_nonce (en_inner e)) = 12"

lemma length_magic [simp]: "length ADR_ENVELOPE_MAGIC = 4"
  by (simp add: ADR_ENVELOPE_MAGIC_def str_as_bytes_def)

lemma slice_rest: "take n (drop m bs) @ drop (m + n) bs = drop m bs"
  by (metis add.commute append_take_drop_id drop_drop)

lemma split_header:
  assumes "81 \<le> length bs"
  shows "take 4 bs @ bs ! 4 # take 32 (drop 5 bs) @ take 32 (drop 37 bs) @ take 12 (drop 69 bs) @ drop 81 bs = bs"
proof -
  have "bs ! 4 # drop 5 bs = drop 4 bs" using assms Cons_nth_drop_Suc [of 4 bs] by simp
  then show ?thesis
    using slice_rest [of 32 5 bs] slice_rest [of 32 37 bs] slice_rest [of 12 69 bs] append_take_drop_id [of 4 bs] by simp
qed

text \<open>
  The wire form of a sealed envelope is exact. A byte string decodes to an envelope precisely when it is the encoding of this
  envelope and its key, ephemeral key and nonce have their fixed lengths: decoding inverts encoding and nothing
  else is accepted.
\<close>

theorem sealed_envelope_decode_iff:
  "SealedEnvelope_decode bs = Inr e \<longleftrightarrow> bs = SealedEnvelope_encode e \<and> envelope_wf e"
proof
  assume dec: "SealedEnvelope_decode bs = Inr e"
  then have len: "81 \<le> length bs" and m: "take 4 bs = ADR_ENVELOPE_MAGIC"
    by (auto simp: SealedEnvelope_decode_def Let_def split: if_splits)
  with dec have e: "e = \<lparr>en_version = bs ! 4, en_recipient = take 32 (drop 5 bs),
      en_inner = \<lparr>ec_ephemeral_pub = take 32 (drop 37 bs), ec_nonce = take 12 (drop 69 bs), ec_ciphertext = drop 81 bs\<rparr>\<rparr>"
    by (simp add: SealedEnvelope_decode_def X25519PublicKey_from_bytes_def Let_def)
  show "bs = SealedEnvelope_encode e \<and> envelope_wf e"
    using split_header [OF len] len by (simp add: e SealedEnvelope_encode_def envelope_wf_def m)
next
  assume "bs = SealedEnvelope_encode e \<and> envelope_wf e"
  then show "SealedEnvelope_decode bs = Inr e"
    by (simp add: SealedEnvelope_decode_def SealedEnvelope_encode_def envelope_wf_def X25519PublicKey_from_bytes_def Let_def nth_append)
qed

lemma open_seal:
  assumes "\<And>ct. encrypt (public_key sk) m = Inr ct \<Longrightarrow> decrypt sk ct = Inr m" and "seal encrypt (public_key sk) m = Inr e"
  shows "open_envelope decrypt e sk = Inr m"
  using assms by (auto simp: seal_def open_envelope_def split: sum.splits)

section \<open>The treasury\<close>

text \<open>The root and the receipt wallets are kept with their secrets; a fresh key is the argument \<open>fresh\<close>.\<close>

record receipt_wallet =
  rw_purpose :: string
  rw_secret :: bytes
  rw_expires_unix :: int

record treasury =
  tr_root :: "bytes option"
  tr_root_public :: wallet_public
  tr_ephemeral :: "receipt_wallet list"

record receipt_wallet_view =
  rv_purpose :: string
  rv_secret_hex :: string
  rv_expires_unix :: int

record treasury_view =
  tv_root_public :: wallet_public
  tv_ephemeral :: "receipt_wallet_view list"

definition Treasury_from_wallet :: "crypto \<Rightarrow> bytes \<Rightarrow> treasury" where
  "Treasury_from_wallet cr sk = \<lparr>tr_root = Some sk, tr_root_public = WalletPublic_from_secret cr sk, tr_ephemeral = []\<rparr>"

definition with_root :: "crypto \<Rightarrow> bytes \<Rightarrow> treasury \<Rightarrow> (identity_error, treasury) result" where
  "with_root cr secret t = (if tr_root t \<noteq> None then Inl (InvalidSecretKey ''treasury already has a root wallet loaded'')
     else case Wallet_from_bytes cr secret of
       Inl e \<Rightarrow> Inl e
     | Inr (sk, pub) \<Rightarrow> if pub \<noteq> tr_root_public t then Inl (InvalidSecretKey ''loaded root wallet does not match the public key on file'')
         else Inr (t\<lparr>tr_root := Some sk\<rparr>))"

definition issue_receipt_wallet :: "bytes \<Rightarrow> string \<Rightarrow> int \<Rightarrow> treasury \<Rightarrow> treasury" where
  "issue_receipt_wallet fresh purpose expires t =
     t\<lparr>tr_ephemeral := tr_ephemeral t @ [\<lparr>rw_purpose = purpose, rw_secret = fresh, rw_expires_unix = expires\<rparr>]\<rparr>"

definition reap_expired :: "int \<Rightarrow> treasury \<Rightarrow> nat \<times> treasury" where
  "reap_expired now t = (let kept = filter (\<lambda>e. rw_expires_unix e = 0 \<or> now < rw_expires_unix e) (tr_ephemeral t) in
     (length (tr_ephemeral t) - length kept, t\<lparr>tr_ephemeral := kept\<rparr>))"

definition Treasury_view :: "crypto \<Rightarrow> treasury \<Rightarrow> treasury_view" where
  "Treasury_view cr t = \<lparr>tv_root_public = tr_root_public t,
     tv_ephemeral = map (\<lambda>e. \<lparr>rv_purpose = rw_purpose e, rv_secret_hex = cr_hex_encode cr (rw_secret e), rv_expires_unix = rw_expires_unix e\<rparr>) (tr_ephemeral t)\<rparr>"

definition parse_receipt_view :: "crypto \<Rightarrow> receipt_wallet_view \<Rightarrow> receipt_wallet option" where
  "parse_receipt_view cr v = (case cr_hex_decode cr (rv_secret_hex v) of
     None \<Rightarrow> None
   | Some bs \<Rightarrow> if length bs \<noteq> 32 then None
       else case Wallet_from_bytes cr bs of
         Inl _ \<Rightarrow> None
       | Inr (sk, _) \<Rightarrow> Some \<lparr>rw_purpose = rv_purpose v, rw_secret = sk, rw_expires_unix = rv_expires_unix v\<rparr>)"

fun parse_view_loop :: "crypto \<Rightarrow> receipt_wallet_view list \<Rightarrow> receipt_wallet list \<times> nat" where
  "parse_view_loop cr [] = ([], 0)"
| "parse_view_loop cr (v # vs) = (let (ws, dropped) = parse_view_loop cr vs in
     case parse_receipt_view cr v of Some w \<Rightarrow> (w # ws, dropped) | None \<Rightarrow> (ws, Suc dropped))"

definition parse_view_ephemerals :: "crypto \<Rightarrow> treasury_view \<Rightarrow> receipt_wallet list \<times> nat option" where
  "parse_view_ephemerals cr v = (let (ws, dropped) = parse_view_loop cr (tv_ephemeral v) in (ws, if dropped = 0 then None else Some dropped))"

definition from_view :: "crypto \<Rightarrow> treasury_view \<Rightarrow> treasury" where
  "from_view cr v = \<lparr>tr_root = None, tr_root_public = tv_root_public v, tr_ephemeral = fst (parse_view_ephemerals cr v)\<rparr>"

definition from_view_strict :: "crypto \<Rightarrow> treasury_view \<Rightarrow> (identity_error, treasury) result" where
  "from_view_strict cr v = (case parse_view_ephemerals cr v of
     (ws, Some n) \<Rightarrow> Inl (Keystore n)
   | (ws, None) \<Rightarrow> Inr \<lparr>tr_root = None, tr_root_public = tv_root_public v, tr_ephemeral = ws\<rparr>)"

lemma parse_view_loop_view:
  assumes "hex_crate cr"
  shows "list_all (\<lambda>w. length (rw_secret w) = 32 \<and> cr_secret_ok cr (rw_secret w)) ws \<Longrightarrow>
    parse_view_loop cr (tv_ephemeral (Treasury_view cr (t\<lparr>tr_ephemeral := ws\<rparr>))) = (ws, 0)"
proof (induction ws)
  case (Cons w ws)
  have "map to_ascii_lowercase_char (cr_hex_encode cr (rw_secret w)) = cr_hex_encode cr (rw_secret w)"
    using assms by (intro map_idI) (auto simp: hex_crate_def list_all_iff lower_upper)
  then have "cr_hex_decode cr (cr_hex_encode cr (rw_secret w)) = Some (rw_secret w)" using assms by (simp add: hex_crate_def)
  then show ?case using Cons by (simp add: Treasury_view_def parse_receipt_view_def Wallet_from_bytes_def)
qed (simp add: Treasury_view_def)

lemma parse_view_loop_filter: "fst (parse_view_loop cr vs) = List.map_filter (parse_receipt_view cr) vs \<and>
    snd (parse_view_loop cr vs) = length (filter (\<lambda>v. parse_receipt_view cr v = None) vs)"
  by (induction vs) (auto simp: map_filter_simps Let_def case_prod_beta split: option.splits)

text \<open>
  A treasury survives its file. Saved and read back in the strict mode it has the same public root and the same receipt
  wallets, with no root secret in the file, and supplying the root secret again gives the treasury back.
\<close>

theorem treasury_round_trip:
  assumes "hex_crate cr" and "cr_secret_ok cr root" and "length root = 32"
    and "list_all (\<lambda>w. length (rw_secret w) = 32 \<and> cr_secret_ok cr (rw_secret w)) ws"
  defines "t \<equiv> (Treasury_from_wallet cr root)\<lparr>tr_ephemeral := ws\<rparr>"
  shows "from_view_strict cr (Treasury_view cr t) = Inr (t\<lparr>tr_root := None\<rparr>) \<and>
    with_root cr root (t\<lparr>tr_root := None\<rparr>) = Inr t"
proof -
  have "parse_view_ephemerals cr (Treasury_view cr t) = (ws, None)"
    unfolding t_def parse_view_ephemerals_def parse_view_loop_view [OF assms(1,4)] by simp
  then have "from_view_strict cr (Treasury_view cr t) = Inr (t\<lparr>tr_root := None\<rparr>)"
    by (simp add: from_view_strict_def) (simp add: t_def Treasury_view_def Treasury_from_wallet_def)
  moreover have "with_root cr root (t\<lparr>tr_root := None\<rparr>) = Inr t"
    using assms(2,3) by (simp add: with_root_def t_def Treasury_from_wallet_def Wallet_from_bytes_def)
  ultimately show ?thesis ..
qed

theorem treasury_round_trip_witness:
  "let t = (Treasury_from_wallet demo_crypto (replicate 32 7))\<lparr>tr_ephemeral := [\<lparr>rw_purpose = ''relay'', rw_secret = replicate 32 5, rw_expires_unix = 9\<rparr>]\<rparr> in
    from_view_strict demo_crypto (Treasury_view demo_crypto t) = Inr (t\<lparr>tr_root := None\<rparr>) \<and>
    with_root demo_crypto (replicate 32 7) (t\<lparr>tr_root := None\<rparr>) = Inr t"
  unfolding Let_def by (rule treasury_round_trip [OF demo_hex_crate]) (simp_all add: demo_crypto_def)

end
