(* ===== verification/Mailbox_Store.thy ===== *)
theory Mailbox_Store
  imports Prelude
begin

text \<open>
  The queues of the offline mailbox: \<^verbatim>\<open>crates/a3net-mailbox/src/storage.rs\<close> (the envelope and the
  in-memory store), \<^verbatim>\<open>error.rs\<close>, \<^verbatim>\<open>sqlite_store.rs\<close> (the store on disk), \<^verbatim>\<open>policy.rs\<close> (size, quota and retention)
  and the paging loop of \<^verbatim>\<open>client.rs\<close>.

  A time is the number of nanoseconds since the epoch. The SQLite table is the list of its rows in the
  order of their ids; its integer column is read signed, as SQLite does, and its RFC 3339 time columns
  compare like the times they print. A transaction that fails is an I/O error of SQLite and is left
  out. \<open>paged_queue\<close> is what the paging client needs of a store; both stores interpret it.
\<close>

type_synonym i64 = "64 word"

section \<open>Errors\<close>

datatype mailbox_error =
    InvalidRecipientId string
  | EnvelopeTooLarge nat nat
  | QuotaExceeded string
  | InvalidSignature
  | InvalidRecipientSignature
  | InvalidMessageId string
  | InvalidTimestamp
  | StaleSignature i64 i64
  | Duplicate string
  | NotFound string
  | Storage string
  | Remote nat string
  | Transport string
  | Config string
  | Internal string

datatype mailbox_error_class = ClassPermanent | ClassTransient | ClassSecurity | ClassInternal

fun class_is_retryable :: "mailbox_error_class \<Rightarrow> bool" where
  "class_is_retryable ClassTransient = True"
| "class_is_retryable ClassInternal = True"
| "class_is_retryable _ = False"

fun error_class :: "mailbox_error \<Rightarrow> mailbox_error_class" where
  "error_class (InvalidRecipientId _) = ClassPermanent"
| "error_class (EnvelopeTooLarge _ _) = ClassPermanent"
| "error_class (InvalidMessageId _) = ClassPermanent"
| "error_class (Config _) = ClassPermanent"
| "error_class InvalidSignature = ClassSecurity"
| "error_class InvalidRecipientSignature = ClassSecurity"
| "error_class (QuotaExceeded _) = ClassSecurity"
| "error_class (StaleSignature _ _) = ClassSecurity"
| "error_class InvalidTimestamp = ClassPermanent"
| "error_class (Transport _) = ClassTransient"
| "error_class (Remote status _) = (if 500 \<le> status \<and> status < 600 then ClassTransient else ClassInternal)"
| "error_class (NotFound _) = ClassTransient"
| "error_class (Duplicate _) = ClassTransient"
| "error_class (Storage _) = ClassInternal"
| "error_class (Internal _) = ClassInternal"

definition error_is_retryable :: "mailbox_error \<Rightarrow> bool" where
  "error_is_retryable e = class_is_retryable (error_class e)"

text \<open>\<^verbatim>\<open>StatusCode::from_u16\<close> takes the codes from 100 to 999.\<close>

fun http_status :: "mailbox_error \<Rightarrow> nat" where
  "http_status (InvalidRecipientId _) = 400"
| "http_status (EnvelopeTooLarge _ _) = 413"
| "http_status (QuotaExceeded _) = 429"
| "http_status InvalidSignature = 401"
| "http_status InvalidRecipientSignature = 401"
| "http_status (InvalidMessageId _) = 400"
| "http_status InvalidTimestamp = 400"
| "http_status (StaleSignature _ _) = 401"
| "http_status (Duplicate _) = 200"
| "http_status (NotFound _) = 404"
| "http_status (Storage _) = 500"
| "http_status (Internal _) = 500"
| "http_status (Remote status _) = (if 100 \<le> status \<and> status < 1000 then status else 500)"
| "http_status (Transport _) = 502"
| "http_status (Config _) = 500"

lemma security_errors_not_retried:
  "http_status e \<in> {400, 401, 413} \<Longrightarrow> (\<forall>s b. e \<noteq> Remote s b) \<Longrightarrow> \<not> error_is_retryable e"
  by (cases e) (simp_all add: error_is_retryable_def)

section \<open>The envelope\<close>

record stored_envelope =
  se_sender_id :: string
  se_recipient_id :: string
  se_msg_id :: string
  se_ciphertext :: bytes
  se_sender_signature :: bytes
  se_sequence :: u64
  se_queued_at :: int
  se_expires_at :: int

definition wire_size :: "stored_envelope \<Rightarrow> nat" where
  "wire_size e = 42 + 42 + 72 + 8 + 16 + length (se_ciphertext e) + length (se_sender_signature e)"

record enqueue_outcome =
  eo_msg_id :: string
  eo_sequence :: u64
  eo_queued_at :: int
  eo_expires_at :: int
  eo_duplicate :: bool

record quota_usage_t =
  qu_message_count :: nat
  qu_total_bytes :: nat
  qu_high_watermark :: u64

definition same_message :: "stored_envelope \<Rightarrow> stored_envelope \<Rightarrow> bool" where
  "same_message env e \<longleftrightarrow> se_msg_id e = se_msg_id env \<and> se_sender_id e = se_sender_id env"

definition outcome_of :: "stored_envelope \<Rightarrow> bool \<Rightarrow> enqueue_outcome" where
  "outcome_of e dup = \<lparr>eo_msg_id = se_msg_id e, eo_sequence = se_sequence e, eo_queued_at = se_queued_at e,
     eo_expires_at = se_expires_at e, eo_duplicate = dup\<rparr>"

section \<open>The store in memory\<close>

type_synonym memory_store = "(string, stored_envelope list) hmap"

definition bucket_of :: "string \<Rightarrow> memory_store \<Rightarrow> stored_envelope list" where
  "bucket_of r st = (case hm_get st r of None \<Rightarrow> [] | Some b \<Rightarrow> b)"

definition MemoryStore_enqueue :: "stored_envelope \<Rightarrow> memory_store \<Rightarrow> enqueue_outcome \<times> memory_store" where
  "MemoryStore_enqueue env st = (let bucket = bucket_of (se_recipient_id env) st in
     case List.find (same_message env) bucket of
       Some e \<Rightarrow> (outcome_of e True, st)
     | None \<Rightarrow> (let stored = env\<lparr>se_sequence := of_nat (length bucket) + 1\<rparr> in
         (outcome_of stored False, hm_insert (se_recipient_id env) (bucket @ [stored]) st)))"

definition MemoryStore_pull :: "memory_store \<Rightarrow> string \<Rightarrow> u64 \<Rightarrow> nat \<Rightarrow> stored_envelope list" where
  "MemoryStore_pull st r since limit = take (max limit 1) (filter (\<lambda>e. since < se_sequence e) (bucket_of r st))"

definition MemoryStore_ack :: "string \<Rightarrow> string list \<Rightarrow> memory_store \<Rightarrow> nat \<times> memory_store" where
  "MemoryStore_ack r ids st = (case hm_get st r of
     None \<Rightarrow> (0, st)
   | Some bucket \<Rightarrow> (let kept = filter (\<lambda>e. se_msg_id e \<notin> set ids) bucket in
       (length bucket - length kept, hm_insert r kept st)))"

definition MemoryStore_purge_expired :: "int \<Rightarrow> memory_store \<Rightarrow> nat \<times> memory_store" where
  "MemoryStore_purge_expired now st = (let kept = hm_map_values (filter (\<lambda>e. now < se_expires_at e)) st in
     (sum_list (map length (hm_values st)) - sum_list (map length (hm_values kept)), kept))"

definition max_sequence :: "stored_envelope list \<Rightarrow> u64" where
  "max_sequence b = fold (\<lambda>e m. max (se_sequence e) m) b 0"

definition MemoryStore_quota_usage :: "memory_store \<Rightarrow> string \<Rightarrow> quota_usage_t" where
  "MemoryStore_quota_usage st r = (let bucket = bucket_of r st in
     \<lparr>qu_message_count = length bucket, qu_total_bytes = sum_list (map wire_size bucket),
      qu_high_watermark = max_sequence bucket\<rparr>)"

section \<open>The store on disk\<close>

type_synonym sqlite_table = "stored_envelope list"

definition rows_of :: "string \<Rightarrow> sqlite_table \<Rightarrow> stored_envelope list" where
  "rows_of r t = filter (\<lambda>e. se_recipient_id e = r) t"

definition sequence_column :: "stored_envelope \<Rightarrow> int" where
  "sequence_column e = sint (se_sequence e)"

definition sql_max :: "int list \<Rightarrow> int option" where
  "sql_max xs = (case xs of [] \<Rightarrow> None | x # xs \<Rightarrow> Some (fold max xs x))"

definition unwrap_or :: "'a option \<Rightarrow> 'a \<Rightarrow> 'a" where
  "unwrap_or x d = (case x of None \<Rightarrow> d | Some y \<Rightarrow> y)"

definition SqliteStore_enqueue :: "stored_envelope \<Rightarrow> sqlite_table \<Rightarrow> enqueue_outcome \<times> sqlite_table" where
  "SqliteStore_enqueue env t = (let rows = rows_of (se_recipient_id env) t in
     case List.find (same_message env) rows of
       Some e \<Rightarrow> (outcome_of e True, t)
     | None \<Rightarrow> (let sq = unwrap_or (sql_max (map sequence_column rows)) 0 + 1;
                   stored = env\<lparr>se_sequence := word_of_int sq\<rparr> in
         (outcome_of stored False, t @ [stored])))"

definition SqliteStore_pull :: "sqlite_table \<Rightarrow> string \<Rightarrow> u64 \<Rightarrow> nat \<Rightarrow> stored_envelope list" where
  "SqliteStore_pull t r since limit =
     take limit (sort_key sequence_column (filter (\<lambda>e. se_recipient_id e = r \<and> sint since < sequence_column e) t))"

definition SqliteStore_ack :: "string \<Rightarrow> string list \<Rightarrow> sqlite_table \<Rightarrow> nat \<times> sqlite_table" where
  "SqliteStore_ack r ids t = (if ids = [] then (0, t)
     else let kept = filter (\<lambda>e. \<not> (se_recipient_id e = r \<and> se_msg_id e \<in> set ids)) t in (length t - length kept, kept))"

definition SqliteStore_purge_expired :: "int \<Rightarrow> sqlite_table \<Rightarrow> nat \<times> sqlite_table" where
  "SqliteStore_purge_expired now t = (let kept = filter (\<lambda>e. \<not> se_expires_at e \<le> now) t in (length t - length kept, kept))"

definition SqliteStore_quota_usage :: "int \<Rightarrow> sqlite_table \<Rightarrow> string \<Rightarrow> quota_usage_t" where
  "SqliteStore_quota_usage now t r = (let live = filter (\<lambda>e. now < se_expires_at e) (rows_of r t) in
     \<lparr>qu_message_count = length live,
      qu_total_bytes = sum_list (map (\<lambda>e. length (se_ciphertext e) + length (se_sender_signature e) + 236) live),
      qu_high_watermark = word_of_int (unwrap_or (sql_max (map sequence_column (rows_of r t))) 0)\<rparr>)"

section \<open>The paging client\<close>

record pull_response =
  pr_messages :: "stored_envelope list"
  pr_next_watermark :: u64
  pr_has_more :: bool

definition PULL_LIMIT_MAX :: nat where "PULL_LIMIT_MAX = 1000"
definition PULL_LIMIT_DEFAULT :: nat where "PULL_LIMIT_DEFAULT = 100"

definition pull_page :: "(u64 \<Rightarrow> nat \<Rightarrow> stored_envelope list) \<Rightarrow> u64 option \<Rightarrow> nat option \<Rightarrow> pull_response" where
  "pull_page pull q_since q_limit = (let limit = min (unwrap_or q_limit PULL_LIMIT_DEFAULT) PULL_LIMIT_MAX;
       since = unwrap_or q_since 0; envelopes = pull since limit in
     \<lparr>pr_messages = envelopes,
      pr_next_watermark = (if envelopes = [] then since else se_sequence (last envelopes)),
      pr_has_more = (length envelopes = limit)\<rparr>)"

partial_function (option) pull_all ::
  "(u64 \<Rightarrow> nat \<Rightarrow> ('e, pull_response) result) \<Rightarrow> u64 \<Rightarrow> nat \<Rightarrow> stored_envelope list \<Rightarrow> ('e, stored_envelope list) result option"
where
  "pull_all request cursor page_size acc =
     (case request cursor page_size of
        Inl e \<Rightarrow> Some (Inl e)
      | Inr resp \<Rightarrow> (let acc' = acc @ pr_messages resp in
          if pr_has_more resp then pull_all request (pr_next_watermark resp) page_size acc' else Some (Inr acc')))"

text \<open>The client over a store that answers every page.\<close>

definition fetch_mail :: "(u64 \<Rightarrow> nat \<Rightarrow> stored_envelope list) \<Rightarrow> u64 \<Rightarrow> nat \<Rightarrow> (unit, stored_envelope list) result option" where
  "fetch_mail pull since page_size = pull_all (\<lambda>c n. Inr (pull_page pull (Some c) (Some n))) since page_size []"

locale paged_queue =
  fixes pull :: "'s \<Rightarrow> string \<Rightarrow> u64 \<Rightarrow> nat \<Rightarrow> stored_envelope list"
    and inv :: "'s \<Rightarrow> bool"
    and queue :: "'s \<Rightarrow> string \<Rightarrow> stored_envelope list"
  assumes increasing: "inv s \<Longrightarrow> sorted_wrt (\<lambda>a b. se_sequence a < se_sequence b) (queue s r)"
    and sequence_small: "inv s \<Longrightarrow> e \<in> set (queue s r) \<Longrightarrow> se_sequence e < 2 ^ 63"
    and pull_queue: "inv s \<Longrightarrow> since < 2 ^ 63 \<Longrightarrow> 0 < n \<Longrightarrow>
      pull s r since n = take n (filter (\<lambda>e. since < se_sequence e) (queue s r))"
begin

lemma rest_after_page:
  assumes "inv s" and "0 < n" and "n \<le> length (filter (\<lambda>e. since < se_sequence e) (queue s r))"
  defines "f \<equiv> filter (\<lambda>e. since < se_sequence e) (queue s r)"
  shows "filter (\<lambda>e. se_sequence (last (take n f)) < se_sequence e) (queue s r) = drop n f"
proof -
  let ?l = "last (take n f)"
  have sf: "sorted_wrt (\<lambda>a b. se_sequence a < se_sequence b) f"
    unfolding f_def by (rule sorted_wrt_filter) (rule increasing [OF assms(1)])
  have l: "take n f = butlast (take n f) @ [?l]" using assms(2,3) by (intro append_butlast_last_id [symmetric]) (auto simp: f_def [symmetric])
  have fdec: "f = butlast (take n f) @ ?l # drop n f"
  proof -
    have "f = take n f @ drop n f" by simp
    also have "take n f = butlast (take n f) @ [?l]" by (rule l)
    finally show ?thesis by simp
  qed
  have lt: "since < se_sequence ?l"
  proof -
    have "?l \<in> set f" by (subst fdec) simp
    then show ?thesis by (simp add: f_def)
  qed
  have "filter (\<lambda>e. se_sequence ?l < se_sequence e) (queue s r) = filter (\<lambda>e. se_sequence ?l < se_sequence e) f"
    using lt by (auto simp: f_def intro!: filter_cong)
  also have "\<dots> = drop n f"
  proof -
    from sf have "sorted_wrt (\<lambda>a b. se_sequence a < se_sequence b) (butlast (take n f) @ ?l # drop n f)" using fdec by simp
    then have "\<forall>e \<in> set (butlast (take n f)). \<not> se_sequence ?l < se_sequence e" "\<forall>e \<in> set (drop n f). se_sequence ?l < se_sequence e"
      by (auto simp: sorted_wrt_append not_less)
    then have "filter (\<lambda>e. se_sequence ?l < se_sequence e) (butlast (take n f) @ ?l # drop n f) = drop n f" by simp
    with fdec show ?thesis by simp
  qed
  finally show ?thesis .
qed

lemma pull_all_complete:
  assumes "inv s" and "0 < page"
  shows "since < 2 ^ 63 \<Longrightarrow> pull_all (\<lambda>c n. Inr (pull_page (pull s r) (Some c) (Some n))) since page acc =
      Some (Inr (acc @ filter (\<lambda>e. since < se_sequence e) (queue s r)))"
proof (induction "length (filter (\<lambda>e. since < se_sequence e) (queue s r))" arbitrary: since acc rule: less_induct)
  case less
  let ?f = "filter (\<lambda>e. since < se_sequence e) (queue s r)" and ?n = "min page PULL_LIMIT_MAX"
  have n: "0 < ?n" using assms(2) by (simp add: PULL_LIMIT_MAX_def)
  have pg: "pull s r since ?n = take ?n ?f" by (rule pull_queue [OF assms(1) less.prems n])
  show ?case
  proof (cases "?n \<le> length ?f")
    case True
    let ?w = "se_sequence (last (take ?n ?f))"
    have ne: "take ?n ?f \<noteq> []" using True n by auto
    have rest: "filter (\<lambda>e. ?w < se_sequence e) (queue s r) = drop ?n ?f" by (rule rest_after_page [OF assms(1) n True])
    have w: "?w < 2 ^ 63" using sequence_small [OF assms(1)] last_in_set [OF ne] by (meson filter_is_subset in_set_takeD subsetD)
    have "length (filter (\<lambda>e. ?w < se_sequence e) (queue s r)) < length ?f" unfolding rest length_drop using True n by linarith
    from less.hyps [OF this w, of "acc @ take ?n ?f"] show ?thesis
      using True ne n by (subst pull_all.simps) (auto simp: pull_page_def unwrap_or_def Let_def pg rest)
  next
    case False
    then show ?thesis by (subst pull_all.simps) (auto simp: pull_page_def unwrap_or_def Let_def pg)
  qed
qed

lemma fetch_complete:
  "inv s \<Longrightarrow> 0 < page \<Longrightarrow> since < 2 ^ 63 \<Longrightarrow>
    fetch_mail (pull s r) since page = Some (Inr (filter (\<lambda>e. since < se_sequence e) (queue s r)))"
  using pull_all_complete [of s page since r "[]"] by (simp add: fetch_mail_def)

end

section \<open>The queues of the stores\<close>

text \<open>
  In both stores a queue is extended at its end, with the number after the largest one (on disk) or after
  its length (in memory). \<open>numbered\<close> is what a queue looks like as long as nothing was removed.
\<close>

definition numbered :: "stored_envelope list \<Rightarrow> bool" where
  "numbered q \<longleftrightarrow> map (unat \<circ> se_sequence) q = [1..<Suc (length q)]"

definition increasing_upto :: "nat \<Rightarrow> stored_envelope list \<Rightarrow> bool" where
  "increasing_upto k q \<longleftrightarrow> sorted_wrt (\<lambda>a b. se_sequence a < se_sequence b) q \<and> (\<forall>e \<in> set q. unat (se_sequence e) \<in> {1..k})"

lemma numbered_Nil [simp]: "numbered []"
  by (simp add: numbered_def)

lemma numbered_snoc: "numbered q \<Longrightarrow> unat (se_sequence e) = Suc (length q) \<Longrightarrow> numbered (q @ [e])"
  by (simp add: numbered_def)

lemma numbered_le: "numbered q \<Longrightarrow> e \<in> set q \<Longrightarrow> unat (se_sequence e) \<in> {1..length q}"
proof -
  assume "numbered q" "e \<in> set q"
  then have "unat (se_sequence e) \<in> set [1..<Suc (length q)]" by (metis comp_apply imageI list.set_map numbered_def)
  then show ?thesis by auto
qed

lemma numbered_increasing: "numbered q \<Longrightarrow> increasing_upto (length q) q"
proof -
  assume q: "numbered q"
  have "sorted_wrt (<) (map (unat \<circ> se_sequence) q)" unfolding q [unfolded numbered_def] by (rule sorted_wrt_upt)
  then show ?thesis using numbered_le [OF q] by (auto simp: increasing_upto_def sorted_wrt_map word_less_nat_alt)
qed

lemma increasing_upto_mono: "increasing_upto k q \<Longrightarrow> k \<le> k' \<Longrightarrow> increasing_upto k' q"
  by (auto simp: increasing_upto_def)

lemma increasing_upto_filter: "increasing_upto k q \<Longrightarrow> increasing_upto k (filter P q)"
  by (simp add: increasing_upto_def sorted_wrt_filter)

lemma increasing_upto_snoc:
  "increasing_upto k q \<Longrightarrow> (\<forall>x \<in> set q. se_sequence x < se_sequence e) \<Longrightarrow> unat (se_sequence e) \<in> {1..k'} \<Longrightarrow> k \<le> k' \<Longrightarrow> increasing_upto k' (q @ [e])"
  by (fastforce simp: increasing_upto_def sorted_wrt_append)

lemma small_sint: "unat (w :: u64) < 2 ^ 63 \<Longrightarrow> sint w = int (unat w)"
proof -
  assume w: "unat w < 2 ^ 63"
  have "sint w = signed_take_bit 63 (uint w)" by (simp add: sint_uint)
  also have "\<dots> = uint w"
  proof (rule signed_take_bit_int_eq_self)
    have "int (unat w) < int (2 ^ 63)" using w by (simp only: of_nat_less_iff)
    then show "uint w < 2 ^ 63" by (simp only: uint_nat of_nat_power of_nat_numeral)
    show "- (2 ^ 63) \<le> uint w" by (rule order_trans [of _ 0]) simp_all
  qed
  finally show ?thesis by (simp only: uint_nat)
qed

lemma small_word: "n < 2 ^ 63 \<Longrightarrow> unat (word_of_int (int n) :: u64) = n"
  by (simp add: unat_of_nat_small del: unat_of_nat)

subsection \<open>On disk\<close>

definition next_number :: "stored_envelope list \<Rightarrow> nat" where
  "next_number q = (if q = [] then 1 else Suc (unat (se_sequence (last q))))"

lemma column_small: "increasing_upto k q \<Longrightarrow> k < 2 ^ 63 \<Longrightarrow> e \<in> set q \<Longrightarrow> sequence_column e = int (unat (se_sequence e))"
  unfolding sequence_column_def by (rule small_sint) (auto simp: increasing_upto_def dest!: bspec)

lemma increasing_last:
  assumes "increasing_upto k q" and "e \<in> set q"
  shows "unat (se_sequence e) \<le> unat (se_sequence (last q))"
proof -
  from assms(2) have "q \<noteq> []" by auto
  then obtain ys y where q: "q = ys @ [y]" by (metis rev_exhaust)
  with assms show ?thesis by (auto simp: increasing_upto_def sorted_wrt_append word_less_nat_alt)
qed

lemma sql_max_next:
  assumes "increasing_upto k q" and "k < 2 ^ 63"
  shows "unwrap_or (sql_max (map sequence_column q)) 0 + 1 = int (next_number q)"
proof (cases q)
  case Nil
  then show ?thesis by (simp add: sql_max_def unwrap_or_def next_number_def)
next
  case (Cons x xs)
  have "unwrap_or (sql_max (map sequence_column q)) 0 = Max (set (map sequence_column q))"
    unfolding Cons list.map by (simp add: sql_max_def unwrap_or_def Max.set_eq_fold del: list.set)
  also have "\<dots> = int (unat (se_sequence (last q)))"
  proof (rule Max_eqI)
    show "y \<le> int (unat (se_sequence (last q)))" if "y \<in> set (map sequence_column q)" for y
      using that increasing_last [OF assms(1)] column_small [OF assms] by (auto simp: word_le_nat_alt [symmetric] word_le_def)
    show "int (unat (se_sequence (last q))) \<in> set (map sequence_column q)"
      using column_small [OF assms, of "last q"] last_in_set [of q] Cons by (metis imageI list.distinct(1) list.set_map)
  qed simp
  finally show ?thesis by (simp add: next_number_def Cons)
qed

lemma next_number_le: "increasing_upto k q \<Longrightarrow> next_number q \<in> {1..Suc k}"
  by (auto simp: next_number_def increasing_upto_def)

lemma sqlite_enqueue_rows:
  assumes "increasing_upto k (rows_of (se_recipient_id env) t)" and "k < 2 ^ 63 - 1"
  shows "rows_of r (snd (SqliteStore_enqueue env t)) = (if r = se_recipient_id env \<and> List.find (same_message env) (rows_of r t) = None
    then rows_of r t @ [env\<lparr>se_sequence := of_nat (next_number (rows_of r t))\<rparr>] else rows_of r t)"
  using sql_max_next [OF assms(1)] assms(2)
  by (auto simp: SqliteStore_enqueue_def Let_def rows_of_def split: option.splits)

lemma sqlite_enqueue_increasing:
  assumes "\<And>r. increasing_upto k (rows_of r t)" and "k < 2 ^ 63 - 1"
  shows "increasing_upto (Suc k) (rows_of r (snd (SqliteStore_enqueue env t)))"
proof (cases "r = se_recipient_id env \<and> List.find (same_message env) (rows_of r t) = None")
  case True
  let ?q = "rows_of r t"
  have n: "next_number ?q \<in> {1..Suc k}" by (rule next_number_le [OF assms(1)])
  then have u: "unat (of_nat (next_number ?q) :: u64) = next_number ?q" using assms(2) by (intro unat_of_nat_small) simp
  have "increasing_upto (Suc k) (?q @ [env\<lparr>se_sequence := of_nat (next_number ?q)\<rparr>])"
  proof (rule increasing_upto_snoc [OF assms(1)])
    show "\<forall>x \<in> set ?q. se_sequence x < se_sequence (env\<lparr>se_sequence := of_nat (next_number ?q)\<rparr>)"
    proof
      fix x assume x: "x \<in> set ?q"
      then have "?q \<noteq> []" by auto
      then show "se_sequence x < se_sequence (env\<lparr>se_sequence := of_nat (next_number ?q)\<rparr>)"
        using increasing_last [OF assms(1) x] u by (simp add: word_less_nat_alt next_number_def del: unat_of_nat)
    qed
  qed (use n u in \<open>simp_all del: unat_of_nat\<close>)
  then show ?thesis unfolding trans [OF sqlite_enqueue_rows [OF assms(1) assms(2)] if_P [OF True]] .
next
  case False
  then show ?thesis unfolding trans [OF sqlite_enqueue_rows [OF assms(1) assms(2)] if_not_P [OF False]]
    by (intro increasing_upto_mono [OF assms(1)]) simp
qed

lemma rows_of_ack: "rows_of r (snd (SqliteStore_ack r' ids t)) = (if r = r' then filter (\<lambda>e. se_msg_id e \<notin> set ids) (rows_of r t) else rows_of r t)"
  by (auto simp: SqliteStore_ack_def rows_of_def Let_def intro!: filter_cong)

lemma rows_of_purge: "rows_of r (snd (SqliteStore_purge_expired now t)) = filter (\<lambda>e. now < se_expires_at e) (rows_of r t)"
  by (auto simp: SqliteStore_purge_expired_def rows_of_def Let_def not_le intro!: filter_cong)

datatype mailbox_op = OpEnqueue stored_envelope | OpAck string "string list" | OpPurge int

fun sqlite_step :: "mailbox_op \<Rightarrow> sqlite_table \<Rightarrow> sqlite_table" where
  "sqlite_step (OpEnqueue env) t = snd (SqliteStore_enqueue env t)"
| "sqlite_step (OpAck r ids) t = snd (SqliteStore_ack r ids t)"
| "sqlite_step (OpPurge now) t = snd (SqliteStore_purge_expired now t)"

lemma sqlite_step_increasing:
  assumes "\<And>r. increasing_upto k (rows_of r t)" and "k < 2 ^ 63 - 1"
  shows "increasing_upto (Suc k) (rows_of r (sqlite_step op t))"
proof (cases op)
  case (OpEnqueue env)
  then show ?thesis using sqlite_enqueue_increasing [OF assms] by simp
qed (use increasing_upto_mono [OF increasing_upto_filter [OF assms(1)]] increasing_upto_mono [OF assms(1)] in
      \<open>auto simp: rows_of_ack rows_of_purge\<close>)

lemma sqlite_reachable: "length ops < 2 ^ 63 \<Longrightarrow> increasing_upto (length ops) (rows_of r (fold sqlite_step ops []))"
proof (induction ops arbitrary: r rule: rev_induct)
  case Nil
  then show ?case by (simp add: increasing_upto_def rows_of_def)
next
  case (snoc op ops)
  then show ?case using sqlite_step_increasing [of "length ops" "fold sqlite_step ops []" r op] by simp
qed

definition sqlite_inv :: "sqlite_table \<Rightarrow> bool" where
  "sqlite_inv t \<longleftrightarrow> (\<exists>k < 2 ^ 63. \<forall>r. increasing_upto k (rows_of r t))"

lemma sqlite_inv_reachable: "length ops < 2 ^ 63 \<Longrightarrow> sqlite_inv (fold sqlite_step ops [])"
  unfolding sqlite_inv_def using sqlite_reachable by blast

lemma signed_filter:
  assumes "increasing_upto k (rows_of r t)" and "k < 2 ^ 63" and "since < 2 ^ 63"
  shows "filter (\<lambda>e. se_recipient_id e = r \<and> sint since < sequence_column e) t = filter (\<lambda>e. since < se_sequence e) (rows_of r t)"
proof -
  have s: "sint since = int (unat since)" using assms(3) by (intro small_sint) (simp add: word_less_nat_alt)
  have "sint since < sequence_column e \<longleftrightarrow> since < se_sequence e" if "e \<in> set (rows_of r t)" for e
    using column_small [OF assms(1,2) that] s by (simp add: word_less_def)
  then show ?thesis by (auto simp: rows_of_def intro!: filter_cong)
qed

interpretation sqlite_queue: paged_queue SqliteStore_pull sqlite_inv "\<lambda>t r. rows_of r t"
proof
  fix t r
  assume "sqlite_inv t"
  then obtain k where k: "k < 2 ^ 63" "\<And>r. increasing_upto k (rows_of r t)" by (auto simp: sqlite_inv_def)
  show "sorted_wrt (\<lambda>a b. se_sequence a < se_sequence b) (rows_of r t)" using k(2) by (simp add: increasing_upto_def)
  show "se_sequence e < 2 ^ 63" if "e \<in> set (rows_of r t)" for e
    using k that by (fastforce simp: increasing_upto_def word_less_nat_alt)
  show "SqliteStore_pull t r since n = take n (filter (\<lambda>e. since < se_sequence e) (rows_of r t))" if "since < 2 ^ 63" for since n
  proof -
    let ?f = "filter (\<lambda>e. since < se_sequence e) (rows_of r t)"
    have inc: "increasing_upto k ?f" by (rule increasing_upto_filter [OF k(2)])
    have "map sequence_column ?f = map (\<lambda>e. int (unat (se_sequence e))) ?f"
      by (rule map_cong [OF refl]) (rule column_small [OF inc k(1)])
    moreover have "sorted_wrt (\<lambda>a b. se_sequence a < se_sequence b) ?f" using inc by (simp add: increasing_upto_def)
    then have "sorted (map (\<lambda>e. int (unat (se_sequence e))) ?f)"
      unfolding sorted_map by (rule sorted_wrt_mono_rel [rotated]) (simp add: word_less_def)
    ultimately show ?thesis
      by (simp only: SqliteStore_pull_def signed_filter [OF k(2,1) that] sort_key_id_if_sorted)
  qed
qed

subsection \<open>In memory\<close>

lemma bucket_of_enqueue:
  "bucket_of r (snd (MemoryStore_enqueue env st)) = (if r = se_recipient_id env \<and> List.find (same_message env) (bucket_of r st) = None
    then bucket_of r st @ [env\<lparr>se_sequence := of_nat (length (bucket_of r st)) + 1\<rparr>] else bucket_of r st)"
  by (auto simp: MemoryStore_enqueue_def Let_def bucket_of_def split: option.splits)

lemma bucket_of_ack:
  "bucket_of r (snd (MemoryStore_ack r' ids st)) = (if r = r' then filter (\<lambda>e. se_msg_id e \<notin> set ids) (bucket_of r st) else bucket_of r st)"
  by (auto simp: MemoryStore_ack_def bucket_of_def Let_def split: option.splits)

lemma bucket_of_purge: "bucket_of r (snd (MemoryStore_purge_expired now st)) = filter (\<lambda>e. now < se_expires_at e) (bucket_of r st)"
  by (simp add: MemoryStore_purge_expired_def bucket_of_def Let_def split: option.splits)

fun memory_step :: "mailbox_op \<Rightarrow> memory_store \<Rightarrow> memory_store" where
  "memory_step (OpEnqueue env) st = snd (MemoryStore_enqueue env st)"
| "memory_step (OpAck r ids) st = snd (MemoryStore_ack r ids st)"
| "memory_step (OpPurge now) st = snd (MemoryStore_purge_expired now st)"

definition memory_inv :: "memory_store \<Rightarrow> bool" where
  "memory_inv st \<longleftrightarrow> (\<forall>r. numbered (bucket_of r st) \<and> length (bucket_of r st) < 2 ^ 63)"

interpretation memory_queue: paged_queue MemoryStore_pull memory_inv "\<lambda>st r. bucket_of r st"
proof
  fix st r
  assume st: "memory_inv st"
  show "sorted_wrt (\<lambda>a b. se_sequence a < se_sequence b) (bucket_of r st)"
    using st numbered_increasing by (auto simp: memory_inv_def increasing_upto_def)
  show "se_sequence e < 2 ^ 63" if "e \<in> set (bucket_of r st)" for e
  proof -
    have "numbered (bucket_of r st)" "length (bucket_of r st) < 2 ^ 63" using st by (simp_all add: memory_inv_def)
    with numbered_le [OF _ that] have "unat (se_sequence e) < 2 ^ 63" by fastforce
    then show ?thesis by (simp add: word_less_nat_alt)
  qed
  show "MemoryStore_pull st r since n = take n (filter (\<lambda>e. since < se_sequence e) (bucket_of r st))" if "0 < n" for since n
    using that by (simp add: MemoryStore_pull_def max_absorb1 Suc_leI)
qed

lemma numbered_enqueue_memory:
  assumes "numbered (bucket_of r st)" and "length (bucket_of r st) < 2 ^ 63"
  shows "numbered (bucket_of r (snd (MemoryStore_enqueue env st)))"
    "length (bucket_of r (snd (MemoryStore_enqueue env st))) \<le> Suc (length (bucket_of r st))"
proof -
  have "unat (of_nat (Suc (length (bucket_of r st))) :: u64) = Suc (length (bucket_of r st))"
    by (rule unat_of_nat_small) (use assms(2) in simp)
  then have "unat (of_nat (length (bucket_of r st)) + 1 :: u64) = Suc (length (bucket_of r st))"
    by (simp only: of_nat_Suc add.commute)
  with assms(1) show "numbered (bucket_of r (snd (MemoryStore_enqueue env st)))"
    by (auto simp: bucket_of_enqueue intro!: numbered_snoc)
qed (simp add: bucket_of_enqueue)

lemma numbered_enqueue_sqlite:
  assumes "numbered (rows_of r t)" and "length (rows_of r t) < 2 ^ 63 - 1" and "se_recipient_id env = r"
  shows "numbered (rows_of r (snd (SqliteStore_enqueue env t)))"
    "length (rows_of r (snd (SqliteStore_enqueue env t))) \<le> Suc (length (rows_of r t))"
    "rows_of r (snd (SqliteStore_enqueue env t)) \<noteq> []"
proof -
  let ?q = "rows_of r t"
  have inc: "increasing_upto (length ?q) ?q" by (rule numbered_increasing [OF assms(1)])
  have n: "next_number ?q = Suc (length ?q)"
  proof (cases ?q rule: rev_cases)
    case (snoc ys y)
    then show ?thesis using assms(1) by (simp add: numbered_def next_number_def)
  qed (simp add: next_number_def)
  have u: "unat (of_nat (Suc (length ?q)) :: u64) = Suc (length ?q)" by (rule unat_of_nat_small) (use assms(2) in simp)
  have rows: "rows_of r (snd (SqliteStore_enqueue env t)) =
      (if List.find (same_message env) ?q = None then ?q @ [env\<lparr>se_sequence := of_nat (Suc (length ?q))\<rparr>] else ?q)"
    using sqlite_enqueue_rows [of "length ?q" env t r] inc assms(2,3) n by simp
  show "numbered (rows_of r (snd (SqliteStore_enqueue env t)))"
    unfolding rows using assms(1) u by (auto intro!: numbered_snoc simp del: of_nat_Suc unat_of_nat)
  show "length (rows_of r (snd (SqliteStore_enqueue env t))) \<le> Suc (length ?q)" "rows_of r (snd (SqliteStore_enqueue env t)) \<noteq> []"
    unfolding rows by (auto split: option.splits)
qed

lemma numbered_enqueue_all:
  assumes "numbered (rows_of r t)" and "list_all (\<lambda>e. se_recipient_id e = r) envs" and "length (rows_of r t) + length envs < 2 ^ 63"
  shows "numbered (rows_of r (fold sqlite_step (map OpEnqueue envs) t)) \<and>
    length (rows_of r (fold sqlite_step (map OpEnqueue envs) t)) \<le> length (rows_of r t) + length envs"
  using assms
proof (induction envs arbitrary: t)
  case (Cons env envs)
  from Cons.prems have a: "numbered (rows_of r t)" "length (rows_of r t) < 2 ^ 63 - 1" "se_recipient_id env = r" by simp_all
  have "length (rows_of r (snd (SqliteStore_enqueue env t))) \<le> Suc (length (rows_of r t))" by (rule numbered_enqueue_sqlite [OF a])
  with Cons.IH [OF numbered_enqueue_sqlite(1) [OF a]] Cons.prems show ?case by simp
qed simp

lemma enqueue_all_keeps_rows: "rows_of r t \<noteq> [] \<Longrightarrow> rows_of r (fold sqlite_step (map OpEnqueue envs) t) \<noteq> []"
proof (induction envs arbitrary: t)
  case (Cons env envs)
  then show ?case by (auto simp: SqliteStore_enqueue_def Let_def rows_of_def split: option.splits)
qed simp

section \<open>What the client receives\<close>

text \<open>
  C12. Queued mail reaches the client. After every sequence of fewer than \<open>2 ^ 63\<close> deliveries, acknowledgements
  and sweeps of the store on disk, a client that pages through the queue with a page size above zero,
  from a watermark below \<open>2 ^ 63\<close> and with nothing delivered or removed between its pages, returns with
  exactly the envelopes above its watermark, in the order of their arrival and each once; from
  the watermark zero it receives the whole queue.
\<close>

theorem paging_delivers_queue:
  assumes "length ops < 2 ^ 63" and "0 < page" and "since < 2 ^ 63"
  shows "let t = fold sqlite_step ops [] in
    fetch_mail (SqliteStore_pull t r) since page = Some (Inr (filter (\<lambda>e. since < se_sequence e) (rows_of r t))) \<and>
    fetch_mail (SqliteStore_pull t r) 0 page = Some (Inr (rows_of r t)) \<and>
    distinct (map se_sequence (rows_of r t))"
proof -
  let ?t = "fold sqlite_step ops []"
  have inv: "sqlite_inv ?t" by (rule sqlite_inv_reachable [OF assms(1)])
  have inc: "increasing_upto (length ops) (rows_of r ?t)" by (rule sqlite_reachable [OF assms(1)])
  have "filter (\<lambda>e. 0 < se_sequence e) (rows_of r ?t) = rows_of r ?t"
    using inc by (auto simp: increasing_upto_def word_less_nat_alt intro!: filter_True)
  moreover have "distinct (map se_sequence (rows_of r ?t))"
    using inc strict_sorted_iff [of "map se_sequence (rows_of r ?t)"] by (simp add: increasing_upto_def sorted_wrt_map)
  ultimately show ?thesis
    using sqlite_queue.fetch_complete [OF inv assms(2,3)] sqlite_queue.fetch_complete [OF inv assms(2), of 0] by (simp add: Let_def)
qed

definition demo_envelope :: "string \<Rightarrow> stored_envelope" where
  "demo_envelope m = \<lparr>se_sender_id = ''alice'', se_recipient_id = ''bob'', se_msg_id = m, se_ciphertext = [1, 2],
     se_sender_signature = [3], se_sequence = 0, se_queued_at = 0, se_expires_at = 100\<rparr>"

theorem paging_delivers_queue_witness:
  "let t = fold sqlite_step [OpEnqueue (demo_envelope ''m1''), OpEnqueue (demo_envelope ''m2''), OpAck ''bob'' [''m1''], OpPurge 5] [] in
    fetch_mail (SqliteStore_pull t ''bob'') 1 1 = Some (Inr (filter (\<lambda>e. 1 < se_sequence e) (rows_of ''bob'' t))) \<and>
    fetch_mail (SqliteStore_pull t ''bob'') 0 1 = Some (Inr (rows_of ''bob'' t)) \<and>
    distinct (map se_sequence (rows_of ''bob'' t))"
  by (rule paging_delivers_queue) simp_all

lemma pull_all_zero:
  "pull_all request c n acc = Some res \<Longrightarrow> (\<forall>c'. request c' n = Inr (pull_page (SqliteStore_pull t r) (Some c') (Some n))) \<longrightarrow> n \<noteq> 0"
proof (rule pull_all.raw_induct [where P = "\<lambda>rq c n acc res. (\<forall>c'. rq c' n = Inr (pull_page (SqliteStore_pull t r) (Some c') (Some n))) \<longrightarrow> n \<noteq> 0"])
  fix pa :: "(u64 \<Rightarrow> nat \<Rightarrow> ('e, pull_response) result) \<Rightarrow> u64 \<Rightarrow> nat \<Rightarrow> stored_envelope list \<Rightarrow> ('e, stored_envelope list) result option"
    and rq c n acc res
  assume IH: "\<And>rq c n acc res. pa rq c n acc = Some res \<Longrightarrow>
      (\<forall>c'. rq c' n = Inr (pull_page (SqliteStore_pull t r) (Some c') (Some n))) \<longrightarrow> n \<noteq> 0"
    and run: "(case rq c n of Inl e \<Rightarrow> Some (Inl e)
      | Inr resp \<Rightarrow> (let acc' = acc @ pr_messages resp in
          if pr_has_more resp then pa rq (pr_next_watermark resp) n acc' else Some (Inr acc'))) = Some res"
  show "(\<forall>c'. rq c' n = Inr (pull_page (SqliteStore_pull t r) (Some c') (Some n))) \<longrightarrow> n \<noteq> 0"
  proof (intro impI notI)
    assume rq: "\<forall>c'. rq c' n = Inr (pull_page (SqliteStore_pull t r) (Some c') (Some n))" and "n = 0"
    then have "rq c n = Inr \<lparr>pr_messages = [], pr_next_watermark = c, pr_has_more = True\<rparr>"
      by (simp add: pull_page_def unwrap_or_def SqliteStore_pull_def)
    with run have "pa rq c n acc = Some res" by simp
    from IH [OF this] rq \<open>n = 0\<close> show False by blast
  qed
qed

text \<open>
  A page size of zero never returns. The server answers such a request with no envelope and with
  \<^verbatim>\<open>has_more\<close> set, whatever the queue holds, so the loop of the client does not end.
\<close>

theorem zero_page_never_returns:
  "fetch_mail (SqliteStore_pull t r) since 0 = None"
proof (cases "fetch_mail (SqliteStore_pull t r) since 0")
  case (Some res)
  then show ?thesis using pull_all_zero [OF Some [unfolded fetch_mail_def], of t r] by simp
qed

text \<open>
  Mail that arrives after the queue was emptied is hidden. The numbers of the store start again when a client
  has received and acknowledged everything: the next envelopes, as many as the watermark of
  the client, are queued under numbers the client has passed, and its next round of paging returns
  nothing.
\<close>

theorem emptied_queue_hides_new_mail:
  assumes "length ops + length envs < 2 ^ 63 - 1" and "0 < page"
    and "rows_of r (fold sqlite_step ops []) \<noteq> []" and "envs \<noteq> []"
    and "list_all (\<lambda>e. se_recipient_id e = r) envs"
    and "length envs \<le> unat (se_sequence (last (rows_of r (fold sqlite_step ops []))))"
  shows "let t = fold sqlite_step ops []; w = se_sequence (last (rows_of r t));
             t' = fold sqlite_step (OpAck r (map se_msg_id (rows_of r t)) # map OpEnqueue envs) t in
    fetch_mail (SqliteStore_pull t r) 0 page = Some (Inr (rows_of r t)) \<and>
    rows_of r t' \<noteq> [] \<and> fetch_mail (SqliteStore_pull t' r) w page = Some (Inr [])"
proof -
  define t where "t = fold sqlite_step ops []"
  define w where "w = se_sequence (last (rows_of r t))"
  define t1 where "t1 = sqlite_step (OpAck r (map se_msg_id (rows_of r t))) t"
  define t' where "t' = fold sqlite_step (map OpEnqueue envs) t1"
  have inc: "increasing_upto (length ops) (rows_of r t)" unfolding t_def by (rule sqlite_reachable) (use assms(1) in simp)
  have "unat w \<in> {1..length ops}"
    using inc last_in_set [OF assms(3)] unfolding w_def increasing_upto_def t_def by blast
  then have wl: "unat w \<le> length ops" by simp
  then have w: "w < 2 ^ 63" using assms(1) by (simp add: word_less_nat_alt)
  have t'_eq: "t' = fold sqlite_step (ops @ OpAck r (map se_msg_id (rows_of r t)) # map OpEnqueue envs) []"
    by (simp add: t'_def t1_def t_def)
  have "sqlite_inv t" unfolding t_def by (rule sqlite_inv_reachable) (use assms(1) in simp)
  moreover have "sqlite_inv t'" unfolding t'_eq by (rule sqlite_inv_reachable) (use assms(1) in simp)
  ultimately have inv: "sqlite_inv t" "sqlite_inv t'" .
  have t1: "rows_of r t1 = []" unfolding t1_def by (simp add: rows_of_ack filter_empty_conv)
  have num: "numbered (rows_of r t')" "length (rows_of r t') \<le> length envs"
    using numbered_enqueue_all [of r t1 envs] assms(1,5) by (simp_all add: t1 t'_def)
  have "\<not> w < se_sequence e" if "e \<in> set (rows_of r t')" for e
    using numbered_le [OF num(1) that] num(2) assms(6) by (auto simp: word_less_nat_alt w_def t_def)
  then have hidden: "filter (\<lambda>e. w < se_sequence e) (rows_of r t') = []" by (simp add: filter_empty_conv)
  have all: "filter (\<lambda>e. 0 < se_sequence e) (rows_of r t) = rows_of r t"
    using inc by (auto simp: increasing_upto_def word_less_nat_alt intro!: filter_True)
  obtain env envs' where envs: "envs = env # envs'" using assms(4) by (cases envs) auto
  have "rows_of r t' \<noteq> []"
  proof -
    let ?t2 = "sqlite_step (OpEnqueue env) t1"
    have e: "rows_of r ?t2 \<noteq> []" "numbered (rows_of r ?t2)"
      using numbered_enqueue_sqlite [of r t1 env] assms(5) by (simp_all add: t1 envs)
    from enqueue_all_keeps_rows [OF e(1), of envs'] show ?thesis by (simp add: t'_def envs)
  qed
  with hidden all sqlite_queue.fetch_complete [OF inv(1) assms(2), of 0 r] sqlite_queue.fetch_complete [OF inv(2) assms(2) w, of r]
  show ?thesis by (simp add: Let_def t'_def t1_def w_def t_def)
qed

theorem emptied_queue_hides_new_mail_witness:
  "let t = fold sqlite_step [OpEnqueue (demo_envelope ''m1''), OpEnqueue (demo_envelope ''m2'')] []; w = se_sequence (last (rows_of ''bob'' t));
       t' = fold sqlite_step (OpAck ''bob'' (map se_msg_id (rows_of ''bob'' t)) # map OpEnqueue [demo_envelope ''m3'']) t in
    fetch_mail (SqliteStore_pull t ''bob'') 0 10 = Some (Inr (rows_of ''bob'' t)) \<and>
    rows_of ''bob'' t' \<noteq> [] \<and> fetch_mail (SqliteStore_pull t' ''bob'') w 10 = Some (Inr [])"
  by (rule emptied_queue_hides_new_mail)
    (simp_all add: demo_envelope_def SqliteStore_enqueue_def rows_of_def same_message_def sql_max_def unwrap_or_def sequence_column_def Let_def)

text \<open>The store in memory numbers by length, so a single acknowledgement already hides the next envelope.\<close>

lemma memory_hides_after_ack:
  assumes "memory_inv st" and "se_recipient_id env = r" and "bucket_of r (snd (MemoryStore_ack r ids st)) \<noteq> bucket_of r st"
  shows "MemoryStore_pull (snd (MemoryStore_enqueue env (snd (MemoryStore_ack r ids st)))) r (of_nat (length (bucket_of r st))) n = []"
proof -
  let ?q = "bucket_of r st" and ?q1 = "bucket_of r (snd (MemoryStore_ack r ids st))"
  from assms(1) have q: "numbered ?q" "length ?q < 2 ^ 63" by (simp_all add: memory_inv_def)
  have u: "unat (of_nat (length ?q) :: u64) = length ?q" by (rule unat_of_nat_small) (use q(2) in simp)
  have sub: "?q1 = filter (\<lambda>e. se_msg_id e \<notin> set ids) ?q" by (simp add: bucket_of_ack)
  have len: "length ?q1 < length ?q" using assms(3) unfolding sub by (metis filter_True length_filter_less)
  have "unat (of_nat (Suc (length ?q1)) :: u64) = Suc (length ?q1)" by (rule unat_of_nat_small) (use len q(2) in simp)
  with len have new: "unat (of_nat (length ?q1) + 1 :: u64) \<le> length ?q" by (simp add: add.commute del: unat_of_nat)
  have "unat (se_sequence e) \<le> length ?q" if "e \<in> set (bucket_of r (snd (MemoryStore_enqueue env (snd (MemoryStore_ack r ids st)))))" for e
  proof -
    have "e \<in> set ?q1 \<or> se_sequence e = of_nat (length ?q1) + 1" using that by (auto simp: bucket_of_enqueue split: if_splits)
    moreover have "set ?q1 \<subseteq> set ?q" unfolding sub by (rule filter_is_subset)
    ultimately show ?thesis using new numbered_le [OF q(1), of e] by auto
  qed
  then show ?thesis using u by (auto simp: MemoryStore_pull_def filter_empty_conv word_less_nat_alt not_less simp del: unat_of_nat)
qed

section \<open>Size, quota and retention\<close>

record size_policy =
  sp_max_envelope_bytes :: nat

definition SizePolicy_check :: "size_policy \<Rightarrow> stored_envelope \<Rightarrow> (mailbox_error, unit) result" where
  "SizePolicy_check p env = (let sz = wire_size env in
     if sp_max_envelope_bytes p < sz then Inl (EnvelopeTooLarge sz (sp_max_envelope_bytes p)) else Inr ())"

record quota_policy =
  qp_max_inflight_per_user :: nat
  qp_max_total_bytes_per_user :: nat

record quota_check =
  qc_current_message_count :: nat
  qc_current_total_bytes :: nat
  qc_incoming_envelope_bytes :: nat

datatype quota_decision = Accept | Reject string

definition QuotaPolicy_check :: "quota_policy \<Rightarrow> quota_check \<Rightarrow> quota_decision" where
  "QuotaPolicy_check p c =
     (if qp_max_inflight_per_user p < qc_current_message_count c + 1 then Reject ''inflight message count exceeded''
      else if qp_max_total_bytes_per_user p < min (qc_current_total_bytes c + qc_incoming_envelope_bytes c) (2 ^ 64 - 1)
      then Reject ''total bytes exceeded'' else Accept)"

record ttl_policy =
  tp_default_ttl :: duration
  tp_sweep_interval :: duration

definition from_secs :: "nat \<Rightarrow> duration" where "from_secs n = n * 1000000000"
definition as_secs :: "duration \<Rightarrow> nat" where "as_secs d = d div 1000000000"

definition TtlPolicy_default :: ttl_policy where
  "TtlPolicy_default = \<lparr>tp_default_ttl = from_secs (30 * 24 * 60 * 60), tp_sweep_interval = from_secs (5 * 60)\<rparr>"

record recipient_ttl_override =
  ro_recipient :: string
  ro_ttl_secs :: nat
  ro_expires_at_unix :: "int option"
  ro_source :: string

record retention_policy =
  rp_overrides :: "(string, recipient_ttl_override) hmap"
  rp_min_ttl_secs :: nat
  rp_max_ttl_secs :: nat

definition RetentionPolicy_new :: "nat \<Rightarrow> nat \<Rightarrow> retention_policy" where
  "RetentionPolicy_new mn mx = \<lparr>rp_overrides = [], rp_min_ttl_secs = mn, rp_max_ttl_secs = mx\<rparr>"

definition RetentionPolicy_default :: retention_policy where
  "RetentionPolicy_default = RetentionPolicy_new (24 * 60 * 60) (90 * 24 * 60 * 60)"

definition RetentionPolicy_effective_ttl :: "retention_policy \<Rightarrow> string \<Rightarrow> duration \<Rightarrow> duration" where
  "RetentionPolicy_effective_ttl p r default_ttl = (case hm_get (rp_overrides p) r of
     Some ov \<Rightarrow> (let ttl_secs = ro_ttl_secs ov in
       if ttl_secs < rp_min_ttl_secs p then from_secs (rp_min_ttl_secs p)
       else if rp_max_ttl_secs p < ttl_secs then from_secs (rp_max_ttl_secs p)
       else from_secs ttl_secs)
   | None \<Rightarrow> (let default_secs = as_secs default_ttl in
       if default_secs < rp_min_ttl_secs p then from_secs (rp_min_ttl_secs p)
       else if rp_max_ttl_secs p < default_secs then from_secs (rp_max_ttl_secs p)
       else default_ttl))"

text \<open>\<^verbatim>\<open>Ord::clamp\<close> panics when the bounds are the wrong way round; \<open>None\<close> is the panic.\<close>

definition set_recipient_ttl :: "recipient_ttl_override \<Rightarrow> retention_policy \<Rightarrow> retention_policy option" where
  "set_recipient_ttl ov p = (if rp_max_ttl_secs p < rp_min_ttl_secs p then None
     else Some (p\<lparr>rp_overrides := hm_insert (ro_recipient ov)
       (ov\<lparr>ro_ttl_secs := min (max (ro_ttl_secs ov) (rp_min_ttl_secs p)) (rp_max_ttl_secs p)\<rparr>) (rp_overrides p)\<rparr>))"

definition remove_recipient_ttl :: "string \<Rightarrow> retention_policy \<Rightarrow> bool \<times> retention_policy" where
  "remove_recipient_ttl r p = (hm_contains (rp_overrides p) r, p\<lparr>rp_overrides := hm_remove r (rp_overrides p)\<rparr>)"

definition purge_expired_overrides :: "int \<Rightarrow> retention_policy \<Rightarrow> nat \<times> retention_policy" where
  "purge_expired_overrides now p = (let kept = hm_retain (\<lambda>_ v. case ro_expires_at_unix v of None \<Rightarrow> True | Some x \<Rightarrow> now < x) (rp_overrides p) in
     (length (rp_overrides p) - length kept, p\<lparr>rp_overrides := kept\<rparr>))"

lemma effective_ttl_bounds:
  assumes "rp_min_ttl_secs p \<le> rp_max_ttl_secs p"
  shows "rp_min_ttl_secs p \<le> as_secs (RetentionPolicy_effective_ttl p r d) \<and> as_secs (RetentionPolicy_effective_ttl p r d) \<le> rp_max_ttl_secs p"
  using assms by (auto simp: RetentionPolicy_effective_ttl_def as_secs_def from_secs_def Let_def not_less split: option.splits)

lemma override_in_force:
  "set_recipient_ttl ov p = Some p' \<Longrightarrow> rp_min_ttl_secs p \<le> ro_ttl_secs ov \<Longrightarrow> ro_ttl_secs ov \<le> rp_max_ttl_secs p \<Longrightarrow>
    RetentionPolicy_effective_ttl p' r d = (if r = ro_recipient ov then from_secs (ro_ttl_secs ov) else RetentionPolicy_effective_ttl p r d)"
proof -
  assume a: "set_recipient_ttl ov p = Some p'" and b: "rp_min_ttl_secs p \<le> ro_ttl_secs ov" "ro_ttl_secs ov \<le> rp_max_ttl_secs p"
  from b have "min (max (ro_ttl_secs ov) (rp_min_ttl_secs p)) (rp_max_ttl_secs p) = ro_ttl_secs ov" by simp
  with a b have "p' = p\<lparr>rp_overrides := hm_insert (ro_recipient ov) (ov\<lparr>ro_ttl_secs := ro_ttl_secs ov\<rparr>) (rp_overrides p)\<rparr>"
    by (simp add: set_recipient_ttl_def)
  then show ?thesis using b by (simp add: RetentionPolicy_effective_ttl_def Let_def split: option.split)
qed

lemma remove_reverts: "RetentionPolicy_effective_ttl (snd (remove_recipient_ttl r p)) r d = RetentionPolicy_effective_ttl (p\<lparr>rp_overrides := []\<rparr>) r d"
  by (simp add: remove_recipient_ttl_def RetentionPolicy_effective_ttl_def Let_def)

lemma expired_override_stays: "hm_get (rp_overrides p) r = Some ov \<Longrightarrow> rp_min_ttl_secs p \<le> ro_ttl_secs ov \<Longrightarrow> ro_ttl_secs ov \<le> rp_max_ttl_secs p \<Longrightarrow>
    RetentionPolicy_effective_ttl p r d = from_secs (ro_ttl_secs ov)"
  by (simp add: RetentionPolicy_effective_ttl_def Let_def)

lemma purge_override:
  "hm_wf (rp_overrides p) \<Longrightarrow> hm_get (rp_overrides (snd (purge_expired_overrides now p))) r =
    (case hm_get (rp_overrides p) r of Some v \<Rightarrow> if (case ro_expires_at_unix v of None \<Rightarrow> True | Some x \<Rightarrow> now < x) then Some v else None | None \<Rightarrow> None)"
  by (simp add: purge_expired_overrides_def Let_def hm_get_retain)

end
