(* ===== verification/Mailbox_Auth.thy ===== *)
theory Mailbox_Auth
  imports Identity Mailbox_Store
begin

text \<open>
  The requests of the mailbox and who signed them: \<^verbatim>\<open>crates/a3net-mailbox/src/auth.rs\<close>. Timestamps are 64-bit signed integers kept as words, so that the subtraction that computes
  the age of a signature wraps as in a release build.
\<close>

section \<open>Identifiers\<close>

definition validate_recipient_id :: "crypto \<Rightarrow> string \<Rightarrow> (mailbox_error, bytes) result" where
  "validate_recipient_id cr rid =
     (if rid = [] then Inl (InvalidRecipientId ''empty'')
      else if 64 < length rid then Inl (InvalidRecipientId ''too long'')
      else case Address_from_hex cr rid of Inl _ \<Rightarrow> Inl (InvalidRecipientId ''address'') | Inr a \<Rightarrow> Inr a)"

fun check_segments :: "nat list \<Rightarrow> string list \<Rightarrow> (mailbox_error, unit) result" where
  "check_segments [] [] = Inr ()"
| "check_segments [] (_ # _) = Inl (InvalidMessageId ''uuid has too many segments'')"
| "check_segments (_ # _) [] = Inl (InvalidMessageId ''truncated uuid'')"
| "check_segments (want # wants) (seg # segs) =
     (if length seg \<noteq> want \<or> \<not> list_all is_ascii_hexdigit seg then Inl (InvalidMessageId ''non-hex / wrong len in uuid segment'')
      else check_segments wants segs)"

definition validate_msg_id :: "string \<Rightarrow> (mailbox_error, unit) result" where
  "validate_msg_id m =
     (if m = [] then Inl (InvalidMessageId ''empty'')
      else if 72 < length m then Inl (InvalidMessageId ''too long'')
      else if CHR ''-'' \<in> set m then
        (if length m \<noteq> 36 then Inl (InvalidMessageId ''uuid form must be 36 chars'')
         else check_segments [8, 4, 4, 4, 12] (split_on CHR ''-'' m))
      else if length m \<noteq> 32 \<and> length m \<noteq> 64 then Inl (InvalidMessageId ''hex form must be 32 or 64 chars'')
      else if \<not> list_all is_ascii_hexdigit m then Inl (InvalidMessageId ''non-hex character'')
      else Inr ())"

lemma check_segments_hex: "check_segments wants segs = Inr () \<Longrightarrow> seg \<in> set segs \<Longrightarrow> list_all is_ascii_hexdigit seg"
  by (induction wants segs rule: check_segments.induct) (auto split: if_splits)

lemma split_on_chars: "c \<in> set s \<Longrightarrow> c = sep \<or> (\<exists>w \<in> set (split_on sep s). c \<in> set w)"
  by (induction sep s rule: split_on.induct) (auto split: list.splits if_splits)

lemma msg_id_chars: "validate_msg_id m = Inr () \<Longrightarrow> c \<in> set m \<Longrightarrow> is_ascii_hexdigit c \<or> c = CHR ''-''"
proof -
  assume ok: "validate_msg_id m = Inr ()" and c: "c \<in> set m"
  show ?thesis
  proof (cases "CHR ''-'' \<in> set m")
    case True
    with ok have "check_segments [8, 4, 4, 4, 12] (split_on CHR ''-'' m) = Inr ()"
      by (simp add: validate_msg_id_def split: if_splits)
    from check_segments_hex [OF this] split_on_chars [OF c, of "CHR ''-''"] show ?thesis by (auto simp: list_all_iff)
  next
    case False
    with ok have "list_all is_ascii_hexdigit m" by (simp add: validate_msg_id_def split: if_splits)
    with c show ?thesis by (simp add: list_all_iff)
  qed
qed

section \<open>Canonical messages\<close>

definition u64_to_le_bytes :: "u64 \<Rightarrow> bytes" where
  "u64_to_le_bytes w = rev (u64_to_be_bytes w)"

definition canonical_message :: "bytes list \<Rightarrow> bytes" where
  "canonical_message segments = concat (map (\<lambda>s. u64_to_le_bytes (of_nat (length s)) @ s) segments)"

definition show_i64 :: "i64 \<Rightarrow> string" where
  "show_i64 w = (if sint w < 0 then CHR ''-'' # show_nat (nat (- sint w)) else show_nat (nat (sint w)))"

definition TAG_ENQUEUE :: bytes where "TAG_ENQUEUE = str_as_bytes ''mailbox.enqueue''"
definition TAG_PULL :: bytes where "TAG_PULL = str_as_bytes ''mailbox.pull''"
definition TAG_ACK :: bytes where "TAG_ACK = str_as_bytes ''mailbox.ack''"

definition canonical_enqueue :: "crypto \<Rightarrow> string \<Rightarrow> string \<Rightarrow> bytes \<Rightarrow> bytes" where
  "canonical_enqueue cr rid m ct = canonical_message [TAG_ENQUEUE, str_as_bytes rid, str_as_bytes m, cr_blake3 cr ct]"

definition canonical_enqueue_with_timestamp :: "crypto \<Rightarrow> string \<Rightarrow> string \<Rightarrow> bytes \<Rightarrow> i64 \<Rightarrow> bytes" where
  "canonical_enqueue_with_timestamp cr rid m ct signed_at =
     canonical_message [TAG_ENQUEUE, str_as_bytes rid, str_as_bytes m, cr_blake3 cr ct, str_as_bytes (show_i64 signed_at)]"

definition canonical_pull :: "string \<Rightarrow> bytes" where
  "canonical_pull rid = canonical_message [TAG_PULL, str_as_bytes rid]"

definition canonical_ack :: "string \<Rightarrow> string list \<Rightarrow> bytes" where
  "canonical_ack rid ids = canonical_message [TAG_ACK, str_as_bytes rid, str_as_bytes (str_join CHR '','' ids)]"

lemma le_bytes_inj [simp]: "u64_to_le_bytes v = u64_to_le_bytes w \<longleftrightarrow> v = w" "length (u64_to_le_bytes v) = 8"
  by (simp_all add: u64_to_le_bytes_def)

lemma canonical_message_Nil [simp]: "canonical_message [] = []"
  and canonical_message_Cons [simp]: "canonical_message (s # ss) = u64_to_le_bytes (of_nat (length s)) @ s @ canonical_message ss"
  by (simp_all add: canonical_message_def)

lemma le_bytes_neq_Nil [simp]: "u64_to_le_bytes v \<noteq> []"
  using le_bytes_inj(2) [of v] by (metis list.size(3) zero_neq_numeral)

lemma canonical_message_inj:
  "canonical_message xs = canonical_message ys \<Longrightarrow> list_all (\<lambda>s. length s < 2 ^ 64) xs \<Longrightarrow> list_all (\<lambda>s. length s < 2 ^ 64) ys \<Longrightarrow> xs = ys"
proof (induction xs arbitrary: ys)
  case Nil
  then show ?case by (cases ys) simp_all
next
  case (Cons x xs)
  from Cons.prems(1) obtain y ys' where ys: "ys = y # ys'"
    by (cases ys) auto
  have eq: "(of_nat (length x) :: u64) = of_nat (length y)" "x @ canonical_message xs = y @ canonical_message ys'"
    using Cons.prems(1) by (simp_all add: ys append_eq_append_conv)
  then have "length x = length y" using Cons.prems(2,3) by (simp add: ys of_nat_small_inj)
  with eq(2) Cons show ?case by (simp add: ys)
qed

lemma show_nat_inj: "show_nat m = show_nat n \<longleftrightarrow> m = n"
  by (metis digits_val_show_nat option.inject)

lemma show_i64_inj: "show_i64 v = show_i64 w \<longleftrightarrow> v = w"
proof
  assume eq: "show_i64 v = show_i64 w"
  have no_minus: "show_nat n \<noteq> CHR ''-'' # t" for n t using show_nat_clean(4) [of "CHR ''-''" n] by auto
  have "sint v = sint w"
  proof (cases "sint v < 0"; cases "sint w < 0")
    assume "sint v < 0" "sint w < 0"
    with eq have "nat (- sint v) = nat (- sint w)" by (simp add: show_i64_def show_nat_inj)
    with \<open>sint v < 0\<close> \<open>sint w < 0\<close> show ?thesis by linarith
  next
    assume "\<not> sint v < 0" "\<not> sint w < 0"
    with eq have "nat (sint v) = nat (sint w)" by (simp add: show_i64_def show_nat_inj)
    with \<open>\<not> sint v < 0\<close> \<open>\<not> sint w < 0\<close> show ?thesis by linarith
  qed (use eq no_minus no_minus [symmetric] in \<open>simp_all add: show_i64_def\<close>)
  then show "v = w" by (simp add: signed_word_eqI)
qed simp

section \<open>Verification\<close>

definition DEFAULT_SIGNATURE_MAX_AGE_SECS :: i64 where "DEFAULT_SIGNATURE_MAX_AGE_SECS = 300"
definition CLOCK_SKEW_TOLERANCE_SECS :: i64 where "CLOCK_SKEW_TOLERANCE_SECS = 60"

definition digest_of :: "crypto \<Rightarrow> bytes \<Rightarrow> bytes" where
  "digest_of cr msg = cr_blake3 cr msg"

definition recover_signer :: "crypto \<Rightarrow> bytes \<Rightarrow> bytes \<Rightarrow> (mailbox_error, bytes) result" where
  "recover_signer cr digest sig = (case from_compact sig of
     Inl _ \<Rightarrow> Inl mailbox_error.InvalidSignature
   | Inr parsed \<Rightarrow> (case recover_personal cr digest parsed of Inl _ \<Rightarrow> Inl mailbox_error.InvalidSignature | Inr pub \<Rightarrow> Inr (wp_address pub)))"

definition check_timestamp :: "i64 \<Rightarrow> i64 \<Rightarrow> i64 \<Rightarrow> (mailbox_error, unit) result" where
  "check_timestamp now signed_at max_age =
     (if sint (now + CLOCK_SKEW_TOLERANCE_SECS) < sint signed_at then Inl InvalidTimestamp
      else let age = now - signed_at in
        if sint max_age < sint age then Inl (StaleSignature age max_age) else Inr ())"

definition verify_sender_signature_with_timestamp ::
  "crypto \<Rightarrow> i64 \<Rightarrow> string \<Rightarrow> string \<Rightarrow> string \<Rightarrow> bytes \<Rightarrow> bytes \<Rightarrow> i64 \<Rightarrow> i64 \<Rightarrow> (mailbox_error, unit) result" where
  "verify_sender_signature_with_timestamp cr now sender rid m ct sig signed_at max_age =
     (case Address_from_hex cr sender of
        Inl _ \<Rightarrow> Inl (InvalidRecipientId ''address'')
      | Inr claimed \<Rightarrow> (case check_timestamp now signed_at max_age of
          Inl e \<Rightarrow> Inl e
        | Inr _ \<Rightarrow> (case recover_signer cr (digest_of cr (canonical_enqueue_with_timestamp cr rid m ct signed_at)) sig of
            Inl e \<Rightarrow> Inl e
          | Inr recovered \<Rightarrow> if recovered \<noteq> claimed then Inl mailbox_error.InvalidSignature else Inr ())))"

definition verify_sender_signature :: "crypto \<Rightarrow> string \<Rightarrow> string \<Rightarrow> string \<Rightarrow> bytes \<Rightarrow> bytes \<Rightarrow> (mailbox_error, unit) result" where
  "verify_sender_signature cr sender rid m ct sig =
     (case Address_from_hex cr sender of
        Inl _ \<Rightarrow> Inl (InvalidRecipientId ''address'')
      | Inr claimed \<Rightarrow> (case recover_signer cr (digest_of cr (canonical_enqueue cr rid m ct)) sig of
          Inl e \<Rightarrow> Inl e
        | Inr recovered \<Rightarrow> if recovered \<noteq> claimed then Inl mailbox_error.InvalidSignature else Inr ()))"

definition verify_pull_signature :: "crypto \<Rightarrow> string \<Rightarrow> bytes \<Rightarrow> (mailbox_error, unit) result" where
  "verify_pull_signature cr rid sig =
     (case Address_from_hex cr rid of
        Inl _ \<Rightarrow> Inl (InvalidRecipientId ''address'')
      | Inr claimed \<Rightarrow> (case recover_signer cr (digest_of cr (canonical_pull rid)) sig of
          Inl e \<Rightarrow> Inl e
        | Inr recovered \<Rightarrow> if recovered \<noteq> claimed then Inl InvalidRecipientSignature else Inr ()))"

definition verify_ack_signature :: "crypto \<Rightarrow> string \<Rightarrow> string list \<Rightarrow> bytes \<Rightarrow> (mailbox_error, unit) result" where
  "verify_ack_signature cr rid ids sig =
     (case Address_from_hex cr rid of
        Inl _ \<Rightarrow> Inl (InvalidRecipientId ''address'')
      | Inr claimed \<Rightarrow> (case recover_signer cr (digest_of cr (canonical_ack rid ids)) sig of
          Inl e \<Rightarrow> Inl e
        | Inr recovered \<Rightarrow> if recovered \<noteq> claimed then Inl InvalidRecipientSignature else Inr ()))"

text \<open>What each check establishes, for the handlers.\<close>

lemmas verify_defs = verify_sender_signature_with_timestamp_def verify_sender_signature_def verify_pull_signature_def verify_ack_signature_def

definition signed_by :: "crypto \<Rightarrow> string \<Rightarrow> bytes \<Rightarrow> bytes \<Rightarrow> bool" where
  "signed_by cr who msg sig \<longleftrightarrow> (case (recover_signer cr (digest_of cr msg) sig, Address_from_hex cr who) of (Inr a, Inr b) \<Rightarrow> a = b | _ \<Rightarrow> False)"

lemma verify_signed_by:
  "verify_sender_signature cr sender rid m ct sig = Inr () \<Longrightarrow> signed_by cr sender (canonical_enqueue cr rid m ct) sig"
  "verify_sender_signature_with_timestamp cr now sender rid m ct sig ts mx = Inr () \<Longrightarrow>
     signed_by cr sender (canonical_enqueue_with_timestamp cr rid m ct ts) sig \<and> check_timestamp now ts mx = Inr ()"
  "verify_pull_signature cr rid sig = Inr () \<Longrightarrow> signed_by cr rid (canonical_pull rid) sig"
  "verify_ack_signature cr rid ids sig = Inr () \<Longrightarrow> signed_by cr rid (canonical_ack rid ids) sig"
  by (auto simp: verify_defs signed_by_def split: sum.splits if_splits)

section \<open>What a signature covers\<close>

text \<open>
  The requests as they reach the server, with all their fields: a delivery with its sender, recipient,
  message identifier, ciphertext, timestamp and requested lifetime; a pull with its watermark and limit; an
  acknowledgement.
\<close>

datatype mail_request =
    MailDeliver string string string bytes "i64 option" "nat option"
  | MailPull string "u64 option" "nat option"
  | MailAck string "string list"

text \<open>The message whose signature the server verifies for a request.\<close>

fun signed_bytes :: "crypto \<Rightarrow> mail_request \<Rightarrow> bytes" where
  "signed_bytes cr (MailDeliver sender rid m ct ts ttl) =
     (case ts of
        None \<Rightarrow> canonical_enqueue cr rid m ct
      | Some signed_at \<Rightarrow> canonical_enqueue_with_timestamp cr rid m ct signed_at)"
| "signed_bytes cr (MailPull rid since limit) = canonical_pull rid"
| "signed_bytes cr (MailAck rid ids) = canonical_ack rid ids"

text \<open>The part of a request that the signature covers; of the ciphertext it covers the digest.\<close>

datatype covered_part =
    CoverDeliver string string bytes "i64 option"
  | CoverPull string
  | CoverAck string "string list"

fun covered_by_signature :: "crypto \<Rightarrow> mail_request \<Rightarrow> covered_part" where
  "covered_by_signature cr (MailDeliver sender rid m ct ts ttl) = CoverDeliver rid m (cr_blake3 cr ct) ts"
| "covered_by_signature cr (MailPull rid since limit) = CoverPull rid"
| "covered_by_signature cr (MailAck rid ids) = CoverAck rid ids"

fun segments_of :: "covered_part \<Rightarrow> bytes list" where
  "segments_of (CoverDeliver rid m h ts) = [TAG_ENQUEUE, str_as_bytes rid, str_as_bytes m, h] @
     (case ts of None \<Rightarrow> [] | Some signed_at \<Rightarrow> [str_as_bytes (show_i64 signed_at)])"
| "segments_of (CoverPull rid) = [TAG_PULL, str_as_bytes rid]"
| "segments_of (CoverAck rid ids) = [TAG_ACK, str_as_bytes rid, str_as_bytes (str_join CHR '','' ids)]"

fun ids_ok :: "mail_request \<Rightarrow> bool" where
  "ids_ok (MailAck _ ids) = (ids \<noteq> [] \<and> list_all (\<lambda>m. validate_msg_id m = Inr ()) ids)"
| "ids_ok _ = True"

lemma signed_bytes_segments: "signed_bytes cr q = canonical_message (segments_of (covered_by_signature cr q))"
  by (cases q) (simp_all add: canonical_enqueue_def canonical_enqueue_with_timestamp_def canonical_pull_def canonical_ack_def split: option.split)

lemma tags_differ: "TAG_ENQUEUE \<noteq> TAG_PULL" "TAG_ENQUEUE \<noteq> TAG_ACK" "TAG_PULL \<noteq> TAG_ACK"
  unfolding TAG_ENQUEUE_def TAG_PULL_def TAG_ACK_def str_as_bytes_inj by simp_all

lemma join_inj:
  assumes "str_join CHR '','' xs = str_join CHR '','' ys" and "ids_ok (MailAck r xs)" and "ids_ok (MailAck r' ys)"
  shows "xs = ys"
proof -
  have "CHR '','' \<notin> set m" if "validate_msg_id m = Inr ()" for m
    using msg_id_chars [OF that, of "CHR '',''"] by (auto simp: is_ascii_hexdigit_def)
  then have "split_on CHR '','' (str_join CHR '','' zs) = zs" if "ids_ok (MailAck r zs)" for zs r
    using that by (intro split_on_join) (auto simp: list_all_iff)
  then show ?thesis using assms by metis
qed

lemma segments_inj:
  assumes "segments_of (covered_by_signature cr q) = segments_of (covered_by_signature cr q')" and "ids_ok q" and "ids_ok q'"
  shows "covered_by_signature cr q = covered_by_signature cr q'"
  using assms join_inj tags_differ tags_differ [symmetric]
  by (cases q; cases q') (auto simp: show_i64_inj simp del: ids_ok.simps split: option.splits)

text \<open>
  C16. What a signature covers, exactly. Two requests have the same signed bytes if and only if they agree in kind,
  recipient, message identifier, digest of the ciphertext, timestamp (or its absence) and list of acknowledged
  identifiers; so a signature made for one does not pass for another that differs in one of these. The sender is not among the
  bytes (the server compares it with the signer it recovers), and neither are the requested lifetime of a
  delivery nor the watermark and limit of a pull, which anyone on the way can change. The identifiers of an
  acknowledgement are valid ones, as the server checks before, and fields are shorter than \<open>2 ^ 64\<close> bytes.
\<close>

theorem signed_request_unambiguous:
  assumes "ids_ok q" and "ids_ok q'"
    and "list_all (\<lambda>s. length s < 2 ^ 64) (segments_of (covered_by_signature cr q))" and "list_all (\<lambda>s. length s < 2 ^ 64) (segments_of (covered_by_signature cr q'))"
  shows "signed_bytes cr q = signed_bytes cr q' \<longleftrightarrow> covered_by_signature cr q = covered_by_signature cr q'"
proof
  assume "signed_bytes cr q = signed_bytes cr q'"
  then have "segments_of (covered_by_signature cr q) = segments_of (covered_by_signature cr q')"
    unfolding signed_bytes_segments by (rule canonical_message_inj [OF _ assms(3,4)])
  then show "covered_by_signature cr q = covered_by_signature cr q'" by (rule segments_inj [OF _ assms(1,2)])
qed (simp add: signed_bytes_segments)

theorem signed_request_unambiguous_witness:
  "signed_bytes demo_crypto (MailDeliver ''a'' ''0xab'' ''m'' [1] None None) \<noteq> signed_bytes demo_crypto (MailDeliver ''a'' ''0xab'' ''m'' [1] (Some 7) None) \<and>
    signed_bytes demo_crypto (MailDeliver ''a'' ''0xab'' ''m'' [1] None None) = signed_bytes demo_crypto (MailDeliver ''a'' ''0xab'' ''m'' [1] None (Some 5))"
proof -
  let ?q = "\<lambda>ts ttl. MailDeliver ''a'' ''0xab'' ''m'' [1] ts ttl"
  have "signed_bytes demo_crypto (?q None None) = signed_bytes demo_crypto (?q ts ttl) \<longleftrightarrow>
      covered_by_signature demo_crypto (?q None None) = covered_by_signature demo_crypto (?q ts ttl)" if "ts = None \<or> ts = Some 7" for ts ttl
    by (rule signed_request_unambiguous)
      (use that in \<open>auto simp: demo_crypto_def TAG_ENQUEUE_def str_as_bytes_def show_i64_def show_nat.simps\<close>)
  then show ?thesis by (simp del: signed_bytes.simps)
qed

lemma sint_wrap:
  assumes "- (2 ^ 63) \<le> k" and "k < 2 ^ 64"
  shows "signed_take_bit 63 k = (if k < 2 ^ 63 then k else k - 2 ^ 64 :: int)"
proof (cases "k < 2 ^ 63")
  case True
  then show ?thesis using assms by (simp add: signed_take_bit_int_eq_self)
next
  case False
  have "signed_take_bit 63 k = signed_take_bit 63 (k - 2 ^ 64)"
  proof -
    have "(k + 2 ^ 63) mod 2 ^ 64 = (k - 2 ^ 64 + 2 ^ 63) mod (2 ^ 64 :: int)"
      by (metis (no_types, opaque_lifting) add_diff_eq add.commute minus_mod_self2)
    then show ?thesis by (simp add: signed_take_bit_eq_take_bit_shift take_bit_eq_mod)
  qed
  also have "\<dots> = k - 2 ^ 64" using False assms(2) by (intro signed_take_bit_int_eq_self) simp_all
  finally show ?thesis using False by simp
qed

text \<open>
  The window of a timestamp, and the hole in it. The check of the age accepts exactly the timestamps from the largest age before the
  clock up to the allowed skew after it, and besides them every timestamp so far in the past
  that the age overflows: a sender who signs such a timestamp makes a signature that never becomes
  stale.
\<close>

theorem timestamp_window:
  assumes "0 \<le> sint now" and "sint now < 2 ^ 62" and "0 \<le> sint max_age"
  shows "check_timestamp now signed_at max_age = Inr () \<longleftrightarrow>
    sint signed_at \<le> sint now + 60 \<and> (sint now - sint max_age \<le> sint signed_at \<or> sint signed_at \<le> sint now - 2 ^ 63)"
proof -
  have rng: "- (2 ^ 63) \<le> sint signed_at" "sint signed_at < 2 ^ 63"
    using sint_ge [of signed_at] sint_lt [of signed_at] by simp_all
  have mx: "sint max_age < 2 ^ 63" using sint_lt [of max_age] by simp
  have "sint (now + CLOCK_SKEW_TOLERANCE_SECS) = signed_take_bit 63 (sint now + 60)"
    by (simp add: sint_word_add CLOCK_SKEW_TOLERANCE_SECS_def)
  also have "\<dots> = sint now + 60" using assms(1,2) by (subst sint_wrap) simp_all
  finally have skew: "sint (now + CLOCK_SKEW_TOLERANCE_SECS) = sint now + 60" .
  show ?thesis
  proof (cases "sint signed_at \<le> sint now + 60")
    case True
    have "sint (now - signed_at) = signed_take_bit 63 (sint now - sint signed_at)" by (simp add: sint_word_diff)
    also have "\<dots> = (if sint now - sint signed_at < 2 ^ 63 then sint now - sint signed_at else sint now - sint signed_at - 2 ^ 64)"
      using True rng assms(2) by (intro sint_wrap) simp_all
    finally have age: "sint (now - signed_at) = (if sint now - sint signed_at < 2 ^ 63 then sint now - sint signed_at else sint now - sint signed_at - 2 ^ 64)" .
    show ?thesis using True mx assms rng by (auto simp: check_timestamp_def skew age Let_def not_less)
  qed (simp add: check_timestamp_def skew)
qed

theorem timestamp_window_witness:
  "check_timestamp 1700000000 (- (2 ^ 63)) 300 = Inr () \<longleftrightarrow>
    sint (- (2 ^ 63) :: i64) \<le> sint (1700000000 :: i64) + 60 \<and>
    (sint (1700000000 :: i64) - sint (300 :: i64) \<le> sint (- (2 ^ 63) :: i64) \<or> sint (- (2 ^ 63) :: i64) \<le> sint (1700000000 :: i64) - 2 ^ 63)"
  by (rule timestamp_window) simp_all

end
