(* ===== verification/Mailbox_Server.thy ===== *)
theory Mailbox_Server
  imports Mailbox_Auth
begin

text \<open>
  The handlers of the mailbox server, \<^verbatim>\<open>crates/a3net-mailbox/src/server.rs\<close> with \<^verbatim>\<open>config.rs\<close> and
  \<^verbatim>\<open>metrics.rs\<close>. A handler takes one reading of the clock, in nanoseconds; base64 is the argument
  \<open>b64\<close>. The server talks to its store through the trait \<^verbatim>\<open>MailboxStore\<close>, here the record \<open>store_ops\<close>; the locale
  \<open>mailbox_backend\<close> holds what the handlers need of it, and both stores interpret it. Errors of the
  store itself (SQLite I/O) are left out.
\<close>

section \<open>Configuration\<close>

definition DEFAULT_MAX_ENVELOPE_BYTES :: nat where "DEFAULT_MAX_ENVELOPE_BYTES = 1048576"
definition DEFAULT_MAX_INFLIGHT_PER_USER :: nat where "DEFAULT_MAX_INFLIGHT_PER_USER = 1000"
definition DEFAULT_MAX_TOTAL_BYTES_PER_USER :: nat where "DEFAULT_MAX_TOTAL_BYTES_PER_USER = 64 * 1024 * 1024"
definition DEFAULT_TTL :: duration where "DEFAULT_TTL = from_secs (30 * 24 * 60 * 60)"
definition DEFAULT_DIAL_TIMEOUT :: duration where "DEFAULT_DIAL_TIMEOUT = from_secs 5"
definition MAX_SIGNATURE_AGE_SECS :: nat where "MAX_SIGNATURE_AGE_SECS = 3600"

record mailbox_config =
  mc_max_envelope_bytes :: nat
  mc_max_inflight_per_user :: nat
  mc_max_total_bytes_per_user :: nat
  mc_default_ttl :: duration
  mc_max_signature_age_secs :: nat
  mc_require_sender_signature :: bool
  mc_upstream_timeout :: duration

definition MailboxConfig_default :: mailbox_config where
  "MailboxConfig_default = \<lparr>mc_max_envelope_bytes = DEFAULT_MAX_ENVELOPE_BYTES, mc_max_inflight_per_user = DEFAULT_MAX_INFLIGHT_PER_USER,
     mc_max_total_bytes_per_user = DEFAULT_MAX_TOTAL_BYTES_PER_USER, mc_default_ttl = DEFAULT_TTL, mc_max_signature_age_secs = 300,
     mc_require_sender_signature = True, mc_upstream_timeout = DEFAULT_DIAL_TIMEOUT\<rparr>"

record server_policy =
  sv_max_envelope_bytes :: nat
  sv_require_sender_signature :: bool
  sv_upstream_timeout :: duration
  sv_ttl :: ttl_policy
  sv_signature_max_age_secs :: i64

definition ServerPolicy_default :: server_policy where
  "ServerPolicy_default = \<lparr>sv_max_envelope_bytes = DEFAULT_MAX_ENVELOPE_BYTES, sv_require_sender_signature = True,
     sv_upstream_timeout = DEFAULT_DIAL_TIMEOUT, sv_ttl = TtlPolicy_default, sv_signature_max_age_secs = DEFAULT_SIGNATURE_MAX_AGE_SECS\<rparr>"

definition from_config :: "mailbox_config \<Rightarrow> server_policy" where
  "from_config cfg = (let max_age = min (mc_max_signature_age_secs cfg) MAX_SIGNATURE_AGE_SECS in
     \<lparr>sv_max_envelope_bytes = mc_max_envelope_bytes cfg, sv_require_sender_signature = mc_require_sender_signature cfg,
      sv_upstream_timeout = mc_upstream_timeout cfg, sv_ttl = TtlPolicy_default\<lparr>tp_default_ttl := mc_default_ttl cfg\<rparr>,
      sv_signature_max_age_secs = of_nat max_age\<rparr>)"

definition size_policy_of :: "server_policy \<Rightarrow> size_policy" where
  "size_policy_of p = \<lparr>sp_max_envelope_bytes = sv_max_envelope_bytes p\<rparr>"

definition quota_policy_of :: "server_policy \<Rightarrow> quota_policy" where
  "quota_policy_of p = \<lparr>qp_max_inflight_per_user = DEFAULT_MAX_INFLIGHT_PER_USER, qp_max_total_bytes_per_user = DEFAULT_MAX_TOTAL_BYTES_PER_USER\<rparr>"

section \<open>State\<close>

record mailbox_metrics =
  mm_enqueues :: u64
  mm_enqueues_rejected :: u64
  mm_pulls :: u64
  mm_acks :: u64
  mm_purged :: u64
  mm_queue_depth :: int
  mm_active_recipients :: int

record 's store_ops =
  so_enqueue :: "stored_envelope \<Rightarrow> 's \<Rightarrow> enqueue_outcome \<times> 's"
  so_pull :: "'s \<Rightarrow> string \<Rightarrow> u64 \<Rightarrow> nat \<Rightarrow> stored_envelope list"
  so_ack :: "string \<Rightarrow> string list \<Rightarrow> 's \<Rightarrow> nat \<times> 's"
  so_purge_expired :: "int \<Rightarrow> 's \<Rightarrow> nat \<times> 's"
  so_quota_usage :: "int \<Rightarrow> 's \<Rightarrow> string \<Rightarrow> quota_usage_t"

definition memory_ops :: "memory_store store_ops" where
  "memory_ops = \<lparr>so_enqueue = MemoryStore_enqueue, so_pull = MemoryStore_pull, so_ack = MemoryStore_ack,
     so_purge_expired = MemoryStore_purge_expired, so_quota_usage = (\<lambda>_. MemoryStore_quota_usage)\<rparr>"

definition sqlite_ops :: "sqlite_table store_ops" where
  "sqlite_ops = \<lparr>so_enqueue = SqliteStore_enqueue, so_pull = SqliteStore_pull, so_ack = SqliteStore_ack,
     so_purge_expired = SqliteStore_purge_expired, so_quota_usage = SqliteStore_quota_usage\<rparr>"

record 's server_state =
  ss_store :: 's
  ss_policy :: server_policy
  ss_retention :: retention_policy
  ss_billing_mandatory :: "bool option"
  ss_metrics :: mailbox_metrics

definition zero_metrics :: mailbox_metrics where
  "zero_metrics = \<lparr>mm_enqueues = 0, mm_enqueues_rejected = 0, mm_pulls = 0, mm_acks = 0, mm_purged = 0, mm_queue_depth = 0, mm_active_recipients = 0\<rparr>"

definition ServerState_new :: "'s \<Rightarrow> server_policy \<Rightarrow> 's server_state" where
  "ServerState_new store p = \<lparr>ss_store = store, ss_policy = p, ss_retention = RetentionPolicy_default,
     ss_billing_mandatory = None, ss_metrics = zero_metrics\<rparr>"

section \<open>Handlers\<close>

record enqueue_request =
  rq_sender_id :: string
  rq_msg_id :: string
  rq_ciphertext_b64 :: string
  rq_sender_signature_b64 :: string
  rq_ttl_secs :: "nat option"
  rq_timestamp :: "i64 option"

record pull_query =
  pq_signature :: "string option"
  pq_since :: "u64 option"
  pq_limit :: "nat option"

record ack_request =
  ar_recipient_id :: string
  ar_msg_ids :: "string list"
  ar_signature_b64 :: string

datatype response =
    ErrorResponse mailbox_error
  | EnqueueResponse nat enqueue_outcome
  | PullResponse pull_response
  | AckResponse nat

definition reject :: "mailbox_error \<Rightarrow> 's server_state \<Rightarrow> response \<times> 's server_state" where
  "reject e st = (ErrorResponse e, st\<lparr>ss_metrics := (ss_metrics st)\<lparr>mm_enqueues_rejected := mm_enqueues_rejected (ss_metrics st) + 1\<rparr>\<rparr>)"

definition unix_secs :: "int \<Rightarrow> i64" where
  "unix_secs now = word_of_int (now div 1000000000)"

text \<open>\<^verbatim>\<open>chrono::Duration::from_std\<close> fails above the largest number of milliseconds.\<close>

definition chrono_from_std :: "duration \<Rightarrow> int" where
  "chrono_from_std d = (if (2 ^ 63 - 1) * 1000000 < d then int (from_secs (30 * 24 * 60 * 60)) else int d)"

definition verify_request :: "crypto \<Rightarrow> int \<Rightarrow> i64 \<Rightarrow> string \<Rightarrow> string \<Rightarrow> enqueue_request \<Rightarrow> bytes \<Rightarrow> bytes \<Rightarrow> (mailbox_error, unit) result" where
  "verify_request cr now max_age sender recipient req ct sig = (case rq_timestamp req of
     Some signed_at \<Rightarrow> verify_sender_signature_with_timestamp cr (unix_secs now) sender recipient (rq_msg_id req) ct sig signed_at max_age
   | None \<Rightarrow> verify_sender_signature cr sender recipient (rq_msg_id req) ct sig)"

definition build_envelope :: "int \<Rightarrow> 's server_state \<Rightarrow> string \<Rightarrow> string \<Rightarrow> enqueue_request \<Rightarrow> bytes \<Rightarrow> bytes \<Rightarrow> stored_envelope" where
  "build_envelope now st sender recipient req ct sig =
     (let base_ttl = (case rq_ttl_secs req of Some n \<Rightarrow> from_secs n | None \<Rightarrow> tp_default_ttl (sv_ttl (ss_policy st)));
          ttl = RetentionPolicy_effective_ttl (ss_retention st) recipient base_ttl in
     \<lparr>se_sender_id = sender, se_recipient_id = recipient, se_msg_id = rq_msg_id req, se_ciphertext = ct, se_sender_signature = sig,
      se_sequence = 0, se_queued_at = now, se_expires_at = now + chrono_from_std ttl\<rparr>)"

text \<open>
  The check of the size and of the quota, with the number of envelopes it saw, and the storing of an
  envelope that passed. Both wait for the store, and no lock is held from one to the other: other
  requests may be handled in between (\<open>concurrent_step\<close> below).
\<close>

definition admit_check :: "'s store_ops \<Rightarrow> int \<Rightarrow> stored_envelope \<Rightarrow> 's server_state \<Rightarrow> (mailbox_error, nat) result" where
  "admit_check ops now envelope st =
     (case SizePolicy_check (size_policy_of (ss_policy st)) envelope of
        Inl e \<Rightarrow> Inl e
      | Inr _ \<Rightarrow> (let usage = so_quota_usage ops now (ss_store st) (se_recipient_id envelope) in
          case QuotaPolicy_check (quota_policy_of (ss_policy st))
              \<lparr>qc_current_message_count = qu_message_count usage, qc_current_total_bytes = qu_total_bytes usage,
               qc_incoming_envelope_bytes = wire_size envelope\<rparr> of
            Reject reason \<Rightarrow> Inl (QuotaExceeded reason)
          | Accept \<Rightarrow> Inr (qu_message_count usage)))"

definition admit_persist :: "'s store_ops \<Rightarrow> stored_envelope \<Rightarrow> nat \<Rightarrow> 's server_state \<Rightarrow> response \<times> 's server_state" where
  "admit_persist ops envelope seen st =
     (let (outcome, store') = so_enqueue ops envelope (ss_store st);
          m = ss_metrics st; m1 = m\<lparr>mm_enqueues := mm_enqueues m + 1\<rparr>;
          m2 = (if \<not> eo_duplicate outcome then m1\<lparr>mm_queue_depth := mm_queue_depth m1 + 1,
                  mm_active_recipients := mm_active_recipients m1 + (if seen = 0 then 1 else 0)\<rparr> else m1)
      in (EnqueueResponse (if eo_duplicate outcome then 200 else 202) outcome, st\<lparr>ss_store := store', ss_metrics := m2\<rparr>))"

definition admit :: "'s store_ops \<Rightarrow> int \<Rightarrow> stored_envelope \<Rightarrow> 's server_state \<Rightarrow> response \<times> 's server_state" where
  "admit ops now envelope st =
     (case admit_check ops now envelope st of Inl e \<Rightarrow> reject e st | Inr seen \<Rightarrow> admit_persist ops envelope seen st)"

definition enqueue_prepare ::
  "crypto \<Rightarrow> (string \<Rightarrow> bytes option) \<Rightarrow> int \<Rightarrow> string option \<Rightarrow> string \<Rightarrow> enqueue_request \<Rightarrow> 's server_state \<Rightarrow> (mailbox_error, stored_envelope) result" where
  "enqueue_prepare cr b64 now pledge rid req st =
     (case validate_recipient_id cr rid of
        Inl e \<Rightarrow> Inl e
      | Inr addr \<Rightarrow> (let recipient = Address_to_checksum cr addr in
        case validate_msg_id (rq_msg_id req) of
          Inl e \<Rightarrow> Inl e
        | Inr _ \<Rightarrow> (case b64 (rq_ciphertext_b64 req) of
            None \<Rightarrow> Inl (InvalidMessageId ''ciphertext_b64 decode'')
          | Some ct \<Rightarrow> (case b64 (rq_sender_signature_b64 req) of
              None \<Rightarrow> Inl mailbox_error.InvalidSignature
            | Some sig \<Rightarrow> (case validate_recipient_id cr (rq_sender_id req) of
                Inl e \<Rightarrow> Inl e
              | Inr saddr \<Rightarrow> (let sender = Address_to_checksum cr saddr in
                case verify_request cr now (sv_signature_max_age_secs (ss_policy st)) sender recipient req ct sig of
                  Inl e \<Rightarrow> Inl e
                | Inr _ \<Rightarrow>
                    if ss_billing_mandatory st = Some True \<and> pledge = None
                    then Inl (Internal ''billing mandatory: missing X-A3Net-Pledge header'')
                    else Inr (build_envelope now st sender recipient req ct sig)))))))"

definition enqueue_handler ::
  "crypto \<Rightarrow> (string \<Rightarrow> bytes option) \<Rightarrow> 's store_ops \<Rightarrow> int \<Rightarrow> string option \<Rightarrow> string \<Rightarrow> enqueue_request \<Rightarrow> 's server_state \<Rightarrow> response \<times> 's server_state" where
  "enqueue_handler cr b64 ops now pledge rid req st =
     (case enqueue_prepare cr b64 now pledge rid req st of Inl e \<Rightarrow> reject e st | Inr envelope \<Rightarrow> admit ops now envelope st)"

definition dec_by_u64 :: "nat \<Rightarrow> int \<Rightarrow> int" where
  "dec_by_u64 n g = max (- (2 ^ 63)) (g - int n)"

definition pull_handler ::
  "crypto \<Rightarrow> (string \<Rightarrow> bytes option) \<Rightarrow> 's store_ops \<Rightarrow> string \<Rightarrow> pull_query \<Rightarrow> 's server_state \<Rightarrow> response \<times> 's server_state" where
  "pull_handler cr b64 ops rid q st =
     (case validate_recipient_id cr rid of
        Inl e \<Rightarrow> (ErrorResponse e, st)
      | Inr addr \<Rightarrow> (let recipient = Address_to_checksum cr addr in
        case pq_signature q of
          None \<Rightarrow> (ErrorResponse InvalidRecipientSignature, st)
        | Some s \<Rightarrow> (case b64 s of
            None \<Rightarrow> (ErrorResponse InvalidRecipientSignature, st)
          | Some sig \<Rightarrow> (case verify_pull_signature cr recipient sig of
              Inl e \<Rightarrow> (ErrorResponse e, st)
            | Inr _ \<Rightarrow> (let page = pull_page (so_pull ops (ss_store st) recipient) (pq_since q) (pq_limit q); m = ss_metrics st in
                (PullResponse page, st\<lparr>ss_metrics := m\<lparr>mm_pulls := mm_pulls m + 1,
                   mm_queue_depth := dec_by_u64 (length (pr_messages page)) (mm_queue_depth m)\<rparr>\<rparr>))))))"

fun validate_ids :: "string list \<Rightarrow> (mailbox_error, unit) result" where
  "validate_ids [] = Inr ()"
| "validate_ids (i # ids) = (case validate_msg_id i of Inl e \<Rightarrow> Inl e | Inr _ \<Rightarrow> validate_ids ids)"

definition ack_handler ::
  "crypto \<Rightarrow> (string \<Rightarrow> bytes option) \<Rightarrow> 's store_ops \<Rightarrow> string \<Rightarrow> ack_request \<Rightarrow> 's server_state \<Rightarrow> response \<times> 's server_state" where
  "ack_handler cr b64 ops rid req st =
     (case validate_recipient_id cr rid of
        Inl e \<Rightarrow> (ErrorResponse e, st)
      | Inr addr \<Rightarrow> (let recipient = Address_to_checksum cr addr; ids = ar_msg_ids req in
        if ids = [] then (ErrorResponse (InvalidMessageId ''ack msg_ids is empty''), st)
        else if card (set ids) \<noteq> length ids then (ErrorResponse (InvalidMessageId ''ack msg_ids contains duplicates''), st)
        else case validate_ids ids of
          Inl e \<Rightarrow> (ErrorResponse e, st)
        | Inr _ \<Rightarrow> (case b64 (ar_signature_b64 req) of
            None \<Rightarrow> (ErrorResponse InvalidRecipientSignature, st)
          | Some sig \<Rightarrow> (case verify_ack_signature cr recipient ids sig of
              Inl e \<Rightarrow> (ErrorResponse e, st)
            | Inr _ \<Rightarrow> (let (removed, store') = so_ack ops recipient ids (ss_store st); m = ss_metrics st in
                (AckResponse removed, st\<lparr>ss_store := store', ss_metrics := m\<lparr>mm_acks := mm_acks m + 1\<rparr>\<rparr>))))))"

definition sweep :: "'s store_ops \<Rightarrow> int \<Rightarrow> 's server_state \<Rightarrow> 's server_state" where
  "sweep ops now st = (let (removed, store') = so_purge_expired ops now (ss_store st); m = ss_metrics st in
     st\<lparr>ss_store := store', ss_metrics := (if 0 < removed then m\<lparr>mm_purged := mm_purged m + of_nat removed\<rparr> else m)\<rparr>)"

datatype server_op =
    ReqEnqueue "string option" string enqueue_request
  | ReqPull string pull_query
  | ReqAck string ack_request
  | Sweep

fun server_step :: "crypto \<Rightarrow> (string \<Rightarrow> bytes option) \<Rightarrow> 's store_ops \<Rightarrow> int \<times> server_op \<Rightarrow> 's server_state \<Rightarrow> 's server_state" where
  "server_step cr b64 ops (now, ReqEnqueue pledge rid req) st = snd (enqueue_handler cr b64 ops now pledge rid req st)"
| "server_step cr b64 ops (now, ReqPull rid q) st = snd (pull_handler cr b64 ops rid q st)"
| "server_step cr b64 ops (now, ReqAck rid req) st = snd (ack_handler cr b64 ops rid req st)"
| "server_step cr b64 ops (now, Sweep) st = sweep ops now st"

text \<open>
  Requests handled at the same time: a delivery that passed its check stays in flight until the store has
  taken it or its connection is dropped, and any other request may be handled in between.
\<close>

type_synonym in_flight_list = "(stored_envelope \<times> nat) list"

datatype server_event =
    Arrive "string option" string enqueue_request
  | Finish nat
  | Abandon nat
  | AnswerPull string pull_query
  | AnswerAck string ack_request
  | SweepTick

fun concurrent_step ::
  "crypto \<Rightarrow> (string \<Rightarrow> bytes option) \<Rightarrow> 's store_ops \<Rightarrow> int \<times> server_event \<Rightarrow> 's server_state \<times> in_flight_list \<Rightarrow> 's server_state \<times> in_flight_list" where
  "concurrent_step cr b64 ops (now, Arrive pledge rid req) (st, ps) =
     (case enqueue_prepare cr b64 now pledge rid req st of
        Inl e \<Rightarrow> (snd (reject e st), ps)
      | Inr env \<Rightarrow>
          (case admit_check ops now env st of
             Inl e \<Rightarrow> (snd (reject e st), ps)
           | Inr seen \<Rightarrow> (st, ps @ [(env, seen)])))"
| "concurrent_step cr b64 ops (now, Finish i) (st, ps) =
     (if i < length ps then (snd (admit_persist ops (fst (ps ! i)) (snd (ps ! i)) st), take i ps @ drop (Suc i) ps) else (st, ps))"
| "concurrent_step cr b64 ops (now, Abandon i) (st, ps) = (st, take i ps @ drop (Suc i) ps)"
| "concurrent_step cr b64 ops (now, AnswerPull rid q) (st, ps) = (snd (pull_handler cr b64 ops rid q st), ps)"
| "concurrent_step cr b64 ops (now, AnswerAck rid req) (st, ps) = (snd (ack_handler cr b64 ops rid req st), ps)"
| "concurrent_step cr b64 ops (now, SweepTick) (st, ps) = (sweep ops now st, ps)"

definition in_flight :: "string \<Rightarrow> in_flight_list \<Rightarrow> nat" where
  "in_flight r ps = length (filter (\<lambda>(e, _). se_recipient_id e = r) ps)"

text \<open>One request after the other is the special case in which a delivery finishes as soon as it passed.\<close>

lemma sequential_is_concurrent:
  "\<exists>es. server_step cr b64 ops (now, op) st = fst (fold (concurrent_step cr b64 ops) (map (\<lambda>e. (now, e)) es) (st, [])) \<and>
     snd (fold (concurrent_step cr b64 ops) (map (\<lambda>e. (now, e)) es) (st, [])) = []"
proof (cases op)
  case (ReqEnqueue pledge rid req)
  show ?thesis
    by (rule exI [of _ "[Arrive pledge rid req, Finish 0]"])
      (simp add: ReqEnqueue enqueue_handler_def admit_def split: sum.split)
next
  case (ReqPull rid q)
  then show ?thesis by (intro exI [of _ "[AnswerPull rid q]"]) simp
next
  case (ReqAck rid req)
  then show ?thesis by (intro exI [of _ "[AnswerAck rid req]"]) simp
next
  case Sweep
  then show ?thesis by (intro exI [of _ "[SweepTick]"]) simp
qed

section \<open>What a handler can do\<close>

lemma admit_cases:
  obtains (refused) e where "fst (admit ops now env st) = ErrorResponse e" "ss_store (snd (admit ops now env st)) = ss_store st"
      "snd (admit ops now env st) = snd (reject e st)"
  | (stored) "SizePolicy_check (size_policy_of (ss_policy st)) env = Inr ()"
      "QuotaPolicy_check (quota_policy_of (ss_policy st))
         \<lparr>qc_current_message_count = qu_message_count (so_quota_usage ops now (ss_store st) (se_recipient_id env)),
          qc_current_total_bytes = qu_total_bytes (so_quota_usage ops now (ss_store st) (se_recipient_id env)),
          qc_incoming_envelope_bytes = wire_size env\<rparr> = Accept"
      "fst (admit ops now env st) = EnqueueResponse (if eo_duplicate (fst (so_enqueue ops env (ss_store st))) then 200 else 202) (fst (so_enqueue ops env (ss_store st)))"
      "ss_store (snd (admit ops now env st)) = snd (so_enqueue ops env (ss_store st))"
proof (cases "SizePolicy_check (size_policy_of (ss_policy st)) env")
  case (Inl e)
  then show ?thesis using refused by (simp add: admit_def admit_check_def reject_def)
next
  case (Inr u)
  let ?c = "\<lparr>qc_current_message_count = qu_message_count (so_quota_usage ops now (ss_store st) (se_recipient_id env)),
          qc_current_total_bytes = qu_total_bytes (so_quota_usage ops now (ss_store st) (se_recipient_id env)),
          qc_incoming_envelope_bytes = wire_size env\<rparr>"
  show ?thesis
  proof (cases "QuotaPolicy_check (quota_policy_of (ss_policy st)) ?c")
    case Accept
    show ?thesis by (rule stored) (use Inr Accept in \<open>simp_all add: admit_def admit_check_def admit_persist_def Let_def case_prod_beta\<close>)
  next
    case (Reject reason)
    show ?thesis by (rule refused [of "QuotaExceeded reason"]) (use Inr Reject in \<open>simp_all add: admit_def admit_check_def reject_def Let_def\<close>)
  qed
qed

text \<open>What an enqueue request has passed when it reaches the policies.\<close>

definition authentic :: "crypto \<Rightarrow> (string \<Rightarrow> bytes option) \<Rightarrow> int \<Rightarrow> i64 \<Rightarrow> string \<Rightarrow> enqueue_request \<Rightarrow> stored_envelope \<Rightarrow> bool" where
  "authentic cr b64 now max_age rid req env \<longleftrightarrow>
     (case validate_recipient_id cr rid of Inl _ \<Rightarrow> False | Inr addr \<Rightarrow> se_recipient_id env = Address_to_checksum cr addr) \<and>
     (case validate_recipient_id cr (rq_sender_id req) of Inl _ \<Rightarrow> False | Inr addr \<Rightarrow> se_sender_id env = Address_to_checksum cr addr) \<and>
     se_msg_id env = rq_msg_id req \<and> validate_msg_id (se_msg_id env) = Inr () \<and>
     b64 (rq_ciphertext_b64 req) = Some (se_ciphertext env) \<and> b64 (rq_sender_signature_b64 req) = Some (se_sender_signature env) \<and>
     (case rq_timestamp req of
        None \<Rightarrow> signed_by cr (se_sender_id env) (canonical_enqueue cr (se_recipient_id env) (se_msg_id env) (se_ciphertext env)) (se_sender_signature env)
      | Some ts \<Rightarrow> check_timestamp (unix_secs now) ts max_age = Inr () \<and>
          signed_by cr (se_sender_id env) (canonical_enqueue_with_timestamp cr (se_recipient_id env) (se_msg_id env) (se_ciphertext env) ts) (se_sender_signature env))"

lemma verify_request_signed:
  "verify_request cr now mx sender rid req ct sig = Inr () \<Longrightarrow> (case rq_timestamp req of
      None \<Rightarrow> signed_by cr sender (canonical_enqueue cr rid (rq_msg_id req) ct) sig
    | Some ts \<Rightarrow> check_timestamp (unix_secs now) ts mx = Inr () \<and> signed_by cr sender (canonical_enqueue_with_timestamp cr rid (rq_msg_id req) ct ts) sig)"
  by (cases "rq_timestamp req") (auto simp: verify_request_def dest: verify_signed_by)

lemma build_envelope_fields [simp]:
  "se_sender_id (build_envelope now st sender rcpt req ct sig) = sender" "se_recipient_id (build_envelope now st sender rcpt req ct sig) = rcpt"
  "se_msg_id (build_envelope now st sender rcpt req ct sig) = rq_msg_id req" "se_ciphertext (build_envelope now st sender rcpt req ct sig) = ct"
  "se_sender_signature (build_envelope now st sender rcpt req ct sig) = sig"
  by (simp_all add: build_envelope_def Let_def)

lemma enqueue_handler_cases:
  obtains (refused) e where "fst (enqueue_handler cr b64 ops now pledge rid req st) = ErrorResponse e"
      "snd (enqueue_handler cr b64 ops now pledge rid req st) = snd (reject e st)"
  | (reached) env where "enqueue_handler cr b64 ops now pledge rid req st = admit ops now env st"
      "authentic cr b64 now (sv_signature_max_age_secs (ss_policy st)) rid req env"
proof -
  let ?h = "enqueue_handler cr b64 ops now pledge rid req st"
  have R: thesis if "?h = reject e st" for e using refused [of e] that by (simp add: reject_def)
  show thesis
  proof (cases "validate_recipient_id cr rid")
    case (Inl e)
    then show ?thesis by (intro R [of e]) (simp add: enqueue_handler_def enqueue_prepare_def)
  next
    case r: (Inr addr)
    show ?thesis
    proof (cases "validate_msg_id (rq_msg_id req)")
      case (Inl e)
      with r show ?thesis by (intro R [of e]) (simp add: enqueue_handler_def enqueue_prepare_def)
    next
      case m: (Inr u)
      show ?thesis
      proof (cases "b64 (rq_ciphertext_b64 req)"; cases "b64 (rq_sender_signature_b64 req)")
        fix ct sig
        assume b: "b64 (rq_ciphertext_b64 req) = Some ct" "b64 (rq_sender_signature_b64 req) = Some sig"
        show ?thesis
        proof (cases "validate_recipient_id cr (rq_sender_id req)")
          case (Inl e)
          with r m b show ?thesis by (intro R [of e]) (simp add: enqueue_handler_def enqueue_prepare_def)
        next
          case s: (Inr saddr)
          let ?s = "Address_to_checksum cr saddr" and ?r = "Address_to_checksum cr addr" and ?mx = "sv_signature_max_age_secs (ss_policy st)"
          show ?thesis
          proof (cases "verify_request cr now ?mx ?s ?r req ct sig")
            case (Inl e)
            with r m b s show ?thesis by (intro R [of e]) (simp add: enqueue_handler_def enqueue_prepare_def Let_def)
          next
            case v: (Inr u')
            then have v': "verify_request cr now ?mx ?s ?r req ct sig = Inr ()" by simp
            show ?thesis
            proof (cases "ss_billing_mandatory st = Some True \<and> pledge = None")
              case True
              show ?thesis by (rule R) (use r m b s v True in \<open>simp add: enqueue_handler_def enqueue_prepare_def Let_def\<close>)
            next
              case False
              have "authentic cr b64 now ?mx rid req (build_envelope now st ?s ?r req ct sig)"
                unfolding authentic_def build_envelope_fields using r m b s verify_request_signed [OF v'] by simp
              then show ?thesis
                by (rule reached [rotated]) (use r m b s v False in \<open>auto simp: enqueue_handler_def enqueue_prepare_def Let_def\<close>)
            qed
          qed
        qed
      qed (use r m in \<open>auto intro!: R simp: enqueue_handler_def enqueue_prepare_def\<close>)
    qed
  qed
qed

lemma pull_handler_store [simp]: "ss_store (snd (pull_handler cr b64 ops rid q st)) = ss_store st"
  by (simp add: pull_handler_def Let_def split: sum.split option.split)

lemma ack_handler_cases:
  obtains (unchanged) "ss_store (snd (ack_handler cr b64 ops rid req st)) = ss_store st"
  | (removed) r sig where "ar_msg_ids req \<noteq> []" "validate_ids (ar_msg_ids req) = Inr ()" "b64 (ar_signature_b64 req) = Some sig"
      "signed_by cr r (canonical_ack r (ar_msg_ids req)) sig"
      "ss_store (snd (ack_handler cr b64 ops rid req st)) = snd (so_ack ops r (ar_msg_ids req) (ss_store st))"
proof -
  let ?h = "ack_handler cr b64 ops rid req st" and ?ids = "ar_msg_ids req"
  show thesis
  proof (cases "validate_recipient_id cr rid")
    case r: (Inr addr)
    let ?r = "Address_to_checksum cr addr"
    show ?thesis
    proof (cases "?ids = [] \<or> card (set ?ids) \<noteq> length ?ids")
      case False
      show ?thesis
      proof (cases "validate_ids ?ids")
        case v: (Inr u)
        show ?thesis
        proof (cases "b64 (ar_signature_b64 req)")
          case sg: (Some sig)
          show ?thesis
          proof (cases "verify_ack_signature cr ?r ?ids sig")
            case ok: (Inr u')
            then have "signed_by cr ?r (canonical_ack ?r ?ids) sig" by (intro verify_signed_by) simp
            then show ?thesis
              by (rule removed [rotated 3]) (use r False v sg ok in \<open>auto simp: ack_handler_def Let_def case_prod_beta\<close>)
          qed (use r False v sg in \<open>auto intro!: unchanged simp: ack_handler_def Let_def\<close>)
        qed (use r False v in \<open>auto intro!: unchanged simp: ack_handler_def Let_def\<close>)
      qed (use r False in \<open>auto intro!: unchanged simp: ack_handler_def Let_def\<close>)
    qed (use r in \<open>auto intro!: unchanged simp: ack_handler_def Let_def\<close>)
  qed (auto intro!: unchanged simp: ack_handler_def)
qed

section \<open>The store behind the handlers\<close>

definition live_bytes :: "nat \<Rightarrow> stored_envelope list \<Rightarrow> nat" where
  "live_bytes overhead q = sum_list (map (\<lambda>e. length (se_ciphertext e) + length (se_sender_signature e) + overhead) q)"

text \<open>
  The quota with deliveries in flight: what is stored and what is on its way to a recipient \<open>r\<close> stay within the
  quota of one request at a time, plus a share for each of the \<open>k\<close> further deliveries that may be in
  flight; \<open>M\<close> is the largest envelope.
\<close>

definition flight_bytes :: "nat \<Rightarrow> string \<Rightarrow> in_flight_list \<Rightarrow> nat" where
  "flight_bytes x r ps = sum_list (map (\<lambda>(e, _). wire_size e + x) (filter (\<lambda>(e, _). se_recipient_id e = r) ps))"

definition quota_inv ::
  "('s \<Rightarrow> string \<Rightarrow> stored_envelope list) \<Rightarrow> (int \<Rightarrow> stored_envelope \<Rightarrow> bool) \<Rightarrow> nat \<Rightarrow> nat \<Rightarrow> nat \<Rightarrow> string \<Rightarrow> int \<Rightarrow> 's server_state \<times> in_flight_list \<Rightarrow> bool" where
  "quota_inv queue counted overhead k M r now sp \<longleftrightarrow> (let (st, ps) = sp; q = filter (counted now) (queue (ss_store st) r); x = overhead - 180 in
     sv_max_envelope_bytes (ss_policy st) = M \<and> (\<forall>(e, _) \<in> set ps. wire_size e \<le> M) \<and>
     length q + in_flight r ps \<le> DEFAULT_MAX_INFLIGHT_PER_USER + k \<and>
     live_bytes overhead q + flight_bytes x r ps \<le> DEFAULT_MAX_TOTAL_BYTES_PER_USER + x + k * (M + x))"

lemma flight_bytes_le: "\<forall>(e, _) \<in> set ps. wire_size e \<le> M \<Longrightarrow> flight_bytes x r ps \<le> in_flight r ps * (M + x)"
  by (induction ps) (auto simp: flight_bytes_def in_flight_def)

lemma flight_take_drop:
  assumes "i < length ps"
  shows "in_flight r ps = in_flight r (take i ps @ drop (Suc i) ps) + (if se_recipient_id (fst (ps ! i)) = r then 1 else 0)"
    and "flight_bytes x r ps = flight_bytes x r (take i ps @ drop (Suc i) ps) +
      (if se_recipient_id (fst (ps ! i)) = r then wire_size (fst (ps ! i)) + x else 0)"
proof -
  have ps: "ps = take i ps @ ps ! i # drop (Suc i) ps" by (rule id_take_nth_drop [OF assms])
  show "in_flight r ps = in_flight r (take i ps @ drop (Suc i) ps) + (if se_recipient_id (fst (ps ! i)) = r then 1 else 0)"
    by (subst ps) (cases "ps ! i", simp add: in_flight_def)
  show "flight_bytes x r ps = flight_bytes x r (take i ps @ drop (Suc i) ps) +
      (if se_recipient_id (fst (ps ! i)) = r then wire_size (fst (ps ! i)) + x else 0)"
    by (subst ps) (cases "ps ! i", simp add: flight_bytes_def)
qed

lemma flight_drop_le: "in_flight r (take i ps @ drop (Suc i) ps) \<le> in_flight r ps \<and> flight_bytes x r (take i ps @ drop (Suc i) ps) \<le> flight_bytes x r ps"
  using flight_take_drop(1) [of i ps r] flight_take_drop(2) [of i ps x r] by (cases "i < length ps") auto

lemma policy_kept [simp]:
  "ss_policy (snd (reject e st)) = ss_policy st" "ss_store (snd (reject e st)) = ss_store st"
  "ss_policy (snd (pull_handler cr b64 ops rid q st)) = ss_policy st"
  "ss_policy (snd (ack_handler cr b64 ops rid req st)) = ss_policy st"
  "ss_policy (sweep ops now st) = ss_policy st" "ss_policy (snd (admit_persist ops env seen st)) = ss_policy st"
  by (auto simp: reject_def pull_handler_def ack_handler_def sweep_def admit_persist_def Let_def split: sum.split option.split prod.split)

lemma wire_size_sum: "wire_size e = length (se_ciphertext e) + length (se_sender_signature e) + 180"
  by (simp add: wire_size_def)

lemma live_bytes_filter: "live_bytes n (filter P q) \<le> live_bytes n q"
  by (induction q) (auto simp: live_bytes_def)

lemma quota_filter:
  assumes "length (filter c q) \<le> a \<and> live_bytes n (filter c q) \<le> b"
  shows "length (filter c (filter P q)) \<le> a \<and> live_bytes n (filter c (filter P q)) \<le> b"
proof -
  have eq: "filter c (filter P q) = filter P (filter c q)" by (simp add: conj_commute)
  show ?thesis unfolding eq using assms length_filter_le [of P "filter c q"] live_bytes_filter [of n P "filter c q"] by linarith
qed

lemma quota_accept:
  assumes "QuotaPolicy_check (quota_policy_of p) \<lparr>qc_current_message_count = c, qc_current_total_bytes = b, qc_incoming_envelope_bytes = w\<rparr> = Accept"
  shows "Suc c \<le> DEFAULT_MAX_INFLIGHT_PER_USER \<and> b + w \<le> DEFAULT_MAX_TOTAL_BYTES_PER_USER"
  using assms by (auto simp: QuotaPolicy_check_def quota_policy_of_def DEFAULT_MAX_TOTAL_BYTES_PER_USER_def min_def split: if_splits)

locale mailbox_backend =
  fixes ops :: "'s store_ops"
    and queue :: "'s \<Rightarrow> string \<Rightarrow> stored_envelope list"
    and counted :: "int \<Rightarrow> stored_envelope \<Rightarrow> bool"
    and overhead :: nat
  assumes enqueue_queue: "queue (snd (so_enqueue ops env s)) r = queue s r \<or>
      r = se_recipient_id env \<and> (\<exists>sq. queue (snd (so_enqueue ops env s)) r = queue s r @ [env\<lparr>se_sequence := sq\<rparr>])"
    and ack_queue: "queue (snd (so_ack ops r' ids s)) r = (if r = r' then filter (\<lambda>e. se_msg_id e \<notin> set ids) (queue s r) else queue s r)"
    and purge_queue: "queue (snd (so_purge_expired ops now s)) r = filter (\<lambda>e. now < se_expires_at e) (queue s r)"
    and usage_count: "qu_message_count (so_quota_usage ops now s r) = length (filter (counted now) (queue s r))"
    and usage_bytes: "qu_total_bytes (so_quota_usage ops now s r) = live_bytes overhead (filter (counted now) (queue s r))"
    and counted_antimono: "now \<le> now' \<Longrightarrow> counted now' e \<Longrightarrow> counted now e"
    and counted_sequence: "counted now (e\<lparr>se_sequence := sq\<rparr>) = counted now e"
    and overhead_min: "180 \<le> overhead"
begin

lemma change_authorised:
  assumes "(e \<in> set (queue (ss_store (server_step cr b64 ops (now, op) st)) r)) \<noteq> (e \<in> set (queue (ss_store st) r))"
  shows "(\<exists>pledge rid req env sq. op = ReqEnqueue pledge rid req \<and> e = env\<lparr>se_sequence := sq\<rparr> \<and> se_recipient_id e = r \<and>
        authentic cr b64 now (sv_signature_max_age_secs (ss_policy st)) rid req env) \<or>
    (\<exists>rid req sig. op = ReqAck rid req \<and> se_msg_id e \<in> set (ar_msg_ids req) \<and> b64 (ar_signature_b64 req) = Some sig \<and>
        signed_by cr r (canonical_ack r (ar_msg_ids req)) sig) \<or>
    op = Sweep \<and> se_expires_at e \<le> now"
proof (cases op)
  case (ReqEnqueue pledge rid req)
  let ?h = "enqueue_handler cr b64 ops now pledge rid req st"
  from assms have ch: "(e \<in> set (queue (ss_store (snd ?h)) r)) \<noteq> (e \<in> set (queue (ss_store st) r))" by (simp add: ReqEnqueue)
  show ?thesis
  proof (cases rule: enqueue_handler_cases [of cr b64 ops now pledge rid req st])
    case (refused e')
    with ch show ?thesis by (simp add: reject_def)
  next
    case (reached env)
    with ch have st: "ss_store (snd ?h) = snd (so_enqueue ops env (ss_store st))"
      by (cases rule: admit_cases [of ops now env st]) auto
    with enqueue_queue [of env "ss_store st" r] ch obtain sq where "r = se_recipient_id env" "e = env\<lparr>se_sequence := sq\<rparr>" by auto
    with reached(2) ReqEnqueue show ?thesis by auto
  qed
next
  case (ReqAck rid req)
  let ?h = "ack_handler cr b64 ops rid req st"
  from assms have ch: "(e \<in> set (queue (ss_store (snd ?h)) r)) \<noteq> (e \<in> set (queue (ss_store st) r))" by (simp add: ReqAck)
  show ?thesis
  proof (cases rule: ack_handler_cases [of cr b64 ops rid req st])
    case (removed r' sig)
    with ch ack_queue [of r' "ar_msg_ids req" "ss_store st" r] have "r = r'" "se_msg_id e \<in> set (ar_msg_ids req)"
      by (auto split: if_splits)
    with removed ReqAck show ?thesis by auto
  qed (use ch in simp)
next
  case Sweep
  with assms show ?thesis by (auto simp: sweep_def Let_def case_prod_beta purge_queue)
qed (use assms in simp)

lemma quota_later:
  assumes "quota_inv queue counted overhead k M r t sp" and "t \<le> now"
  shows "quota_inv queue counted overhead k M r now sp"
proof -
  let ?q = "queue (ss_store (fst sp)) r"
  have eq: "filter (counted now) ?q = filter (counted now) (filter (counted t) ?q)"
    using counted_antimono [OF assms(2)] by (auto intro: filter_cong)
  have "length (filter (counted now) ?q) \<le> length (filter (counted t) ?q)" "live_bytes overhead (filter (counted now) ?q) \<le> live_bytes overhead (filter (counted t) ?q)"
    unfolding eq by (rule length_filter_le, rule live_bytes_filter)
  with assms(1) show ?thesis by (cases sp) (auto simp: quota_inv_def Let_def)
qed

lemma quota_fewer:
  assumes "quota_inv queue counted overhead k M r now (st, ps)" and "ss_policy st' = ss_policy st"
    and "queue (ss_store st') r = filter P (queue (ss_store st) r)"
  shows "quota_inv queue counted overhead k M r now (st', ps)"
proof -
  have "filter (counted now) (queue (ss_store st') r) = filter P (filter (counted now) (queue (ss_store st) r))"
    by (simp add: assms(3) conj_commute)
  then have "length (filter (counted now) (queue (ss_store st') r)) \<le> length (filter (counted now) (queue (ss_store st) r))"
    "live_bytes overhead (filter (counted now) (queue (ss_store st') r)) \<le> live_bytes overhead (filter (counted now) (queue (ss_store st) r))"
    using length_filter_le live_bytes_filter by metis+
  with assms(1,2) show ?thesis by (auto simp: quota_inv_def Let_def)
qed

lemma quota_arrive:
  assumes "quota_inv queue counted overhead k M r now (st, ps)" and "admit_check ops now env st = Inr seen"
    and "in_flight r (ps @ [(env, seen)]) \<le> Suc k"
  shows "quota_inv queue counted overhead k M r now (st, ps @ [(env, seen)])"
proof -
  let ?q = "filter (counted now) (queue (ss_store st) r)" and ?x = "overhead - 180"
  have M: "sv_max_envelope_bytes (ss_policy st) = M" "\<forall>(e, _) \<in> set ps. wire_size e \<le> M"
    using assms(1) by (auto simp: quota_inv_def Let_def)
  have chk: "SizePolicy_check (size_policy_of (ss_policy st)) env = Inr ()"
    "QuotaPolicy_check (quota_policy_of (ss_policy st))
       \<lparr>qc_current_message_count = qu_message_count (so_quota_usage ops now (ss_store st) (se_recipient_id env)),
        qc_current_total_bytes = qu_total_bytes (so_quota_usage ops now (ss_store st) (se_recipient_id env)),
        qc_incoming_envelope_bytes = wire_size env\<rparr> = Accept"
    using assms(2) by (auto simp: admit_check_def Let_def split: sum.splits quota_decision.splits)
  have w: "wire_size env \<le> M" using chk(1) M(1) by (auto simp: SizePolicy_check_def size_policy_of_def Let_def split: if_splits)
  show ?thesis
  proof (cases "se_recipient_id env = r")
    case True
    have acc: "Suc (length ?q) \<le> DEFAULT_MAX_INFLIGHT_PER_USER" "live_bytes overhead ?q + wire_size env \<le> DEFAULT_MAX_TOTAL_BYTES_PER_USER"
      using quota_accept [OF chk(2)] True by (simp_all add: usage_count usage_bytes)
    have fl: "in_flight r ps \<le> k" using assms(3) True by (simp add: in_flight_def)
    then have "in_flight r ps * (M + ?x) \<le> k * (M + ?x)" by (rule mult_le_mono1)
    with flight_bytes_le [OF M(2), of ?x r] have "flight_bytes ?x r ps \<le> k * (M + ?x)" by linarith
    with acc fl M w True show ?thesis by (auto simp: quota_inv_def Let_def in_flight_def flight_bytes_def)
  qed (use assms(1) w in \<open>auto simp: quota_inv_def Let_def in_flight_def flight_bytes_def\<close>)
qed

lemma quota_finish:
  assumes "quota_inv queue counted overhead k M r now (st, ps)" and "i < length ps"
  shows "quota_inv queue counted overhead k M r now (snd (admit_persist ops (fst (ps ! i)) (snd (ps ! i)) st), take i ps @ drop (Suc i) ps)"
proof -
  let ?env = "fst (ps ! i)" and ?x = "overhead - 180"
  let ?st = "snd (admit_persist ops ?env (snd (ps ! i)) st)"
  have store: "ss_store ?st = snd (so_enqueue ops ?env (ss_store st))" by (simp add: admit_persist_def Let_def case_prod_beta)
  have sub: "set (take i ps @ drop (Suc i) ps) \<subseteq> set ps" using set_take_subset set_drop_subset by (metis set_append Un_least)
  have M: "sv_max_envelope_bytes (ss_policy ?st) = M" "\<forall>(e, _) \<in> set (take i ps @ drop (Suc i) ps). wire_size e \<le> M"
    using assms(1) sub by (auto simp: quota_inv_def Let_def)
  show ?thesis
  proof (cases "queue (ss_store ?st) r = queue (ss_store st) r")
    case True
    with assms(1) M flight_drop_le [of r i ps ?x] show ?thesis by (auto simp: quota_inv_def Let_def)
  next
    case False
    with enqueue_queue [of ?env "ss_store st" r] store obtain sq where r: "se_recipient_id ?env = r"
      and new: "queue (ss_store ?st) r = queue (ss_store st) r @ [?env\<lparr>se_sequence := sq\<rparr>]" by auto
    let ?q = "filter (counted now) (queue (ss_store st) r)" and ?q' = "filter (counted now) (queue (ss_store ?st) r)"
    have "length ?q' \<le> Suc (length ?q)" by (simp add: new)
    moreover have "live_bytes overhead ?q' \<le> live_bytes overhead ?q + (wire_size ?env + ?x)"
      using overhead_min by (simp add: new live_bytes_def wire_size_sum)
    ultimately show ?thesis
      using assms(1) M flight_take_drop(1) [OF assms(2), of r] flight_take_drop(2) [OF assms(2), of ?x r] r
      by (auto simp: quota_inv_def Let_def)
  qed
qed

lemma quota_step:
  assumes "quota_inv queue counted overhead k M r t sp" and "t \<le> now"
    and "in_flight r (snd (concurrent_step cr b64 ops (now, ev) sp)) \<le> Suc k"
  shows "quota_inv queue counted overhead k M r now (concurrent_step cr b64 ops (now, ev) sp)"
proof -
  obtain st ps where sp: "sp = (st, ps)" by (cases sp)
  have q: "quota_inv queue counted overhead k M r now (st, ps)" using quota_later [OF assms(1,2)] by (simp add: sp)
  have same: "quota_inv queue counted overhead k M r now (st', ps)"
    if "ss_policy st' = ss_policy st" "ss_store st' = ss_store st" for st'
    using quota_fewer [OF q that(1), of "\<lambda>_. True"] that(2) by simp
  show ?thesis
  proof (cases ev)
    case (Arrive pledge rid req)
    then show ?thesis
      using q assms(3) quota_arrive [OF q] by (auto simp: sp same split: sum.splits)
  next
    case (Finish i)
    then show ?thesis using q quota_finish [OF q, of i] by (simp add: sp)
  next
    case (Abandon i)
    have "set (take i ps @ drop (Suc i) ps) \<subseteq> set ps" using set_take_subset set_drop_subset by (metis set_append Un_least)
    with q flight_drop_le [of r i ps "overhead - 180"] Abandon show ?thesis by (auto simp: sp quota_inv_def Let_def)
  next
    case (AnswerPull rid pq)
    then show ?thesis by (simp add: sp same)
  next
    case (AnswerAck rid req)
    show ?thesis
    proof (cases rule: ack_handler_cases [of cr b64 ops rid req st])
      case unchanged
      with AnswerAck show ?thesis by (simp add: sp same)
    next
      case (removed r' sig)
      show ?thesis
        unfolding AnswerAck sp concurrent_step.simps
        by (rule quota_fewer [OF q, where P = "\<lambda>e. r = r' \<longrightarrow> se_msg_id e \<notin> set (ar_msg_ids req)"])
          (auto simp: removed(5) ack_queue)
    qed
  next
    case SweepTick
    show ?thesis
      unfolding SweepTick sp concurrent_step.simps
      by (rule quota_fewer [OF q]) (simp_all add: sweep_def Let_def case_prod_beta purge_queue)
  qed
qed

lemma quota_run:
  "quota_inv queue counted overhead k M r t sp \<Longrightarrow> sorted (t # map fst evs) \<Longrightarrow>
    list_all (\<lambda>i. in_flight r (snd (fold (concurrent_step cr b64 ops) (take i evs) sp)) \<le> Suc k) [0..<Suc (length evs)] \<Longrightarrow>
    quota_inv queue counted overhead k M r (last (t # map fst evs)) (fold (concurrent_step cr b64 ops) evs sp)"
proof (induction evs arbitrary: t sp)
  case (Cons e evs)
  obtain now ev where e: "e = (now, ev)" by fastforce
  let ?sp = "concurrent_step cr b64 ops (now, ev) sp"
  have fl: "in_flight r (snd (fold (concurrent_step cr b64 ops) (take i (e # evs)) sp)) \<le> Suc k" if "i \<le> Suc (length evs)" for i
    using Cons.prems(3) that by (simp add: list_all_iff del: upt_Suc)
  have step: "in_flight r (snd ?sp) \<le> Suc k" using fl [of 1] by (simp add: e)
  have "list_all (\<lambda>i. in_flight r (snd (fold (concurrent_step cr b64 ops) (take i evs) ?sp)) \<le> Suc k) [0..<Suc (length evs)]"
    using fl [of "Suc _"] by (simp add: list_all_iff e del: upt_Suc)
  moreover have "quota_inv queue counted overhead k M r now ?sp"
    using Cons.prems(2) by (intro quota_step [OF Cons.prems(1) _ step]) (simp add: e)
  ultimately show ?case using Cons.IH [of now ?sp] Cons.prems(2) by (simp add: e)
qed simp

end

interpretation memory_backend: mailbox_backend memory_ops "\<lambda>st r. bucket_of r st" "\<lambda>_ _. True" 180
proof
  show "bucket_of r (snd (so_enqueue memory_ops env s)) = bucket_of r s \<or> r = se_recipient_id env \<and>
      (\<exists>sq. bucket_of r (snd (so_enqueue memory_ops env s)) = bucket_of r s @ [env\<lparr>se_sequence := sq\<rparr>])" for env s r
    by (auto simp: memory_ops_def bucket_of_enqueue)
qed (simp_all add: memory_ops_def bucket_of_ack bucket_of_purge MemoryStore_quota_usage_def live_bytes_def wire_size_sum [abs_def] Let_def)

interpretation sqlite_backend: mailbox_backend sqlite_ops "\<lambda>t r. rows_of r t" "\<lambda>now e. now < se_expires_at e" 236
proof
  show "rows_of r (snd (so_enqueue sqlite_ops env s)) = rows_of r s \<or> r = se_recipient_id env \<and>
      (\<exists>sq. rows_of r (snd (so_enqueue sqlite_ops env s)) = rows_of r s @ [env\<lparr>se_sequence := sq\<rparr>])" for env s r
    by (auto simp: sqlite_ops_def SqliteStore_enqueue_def rows_of_def Let_def split: option.splits)
qed (simp_all add: sqlite_ops_def rows_of_ack rows_of_purge SqliteStore_quota_usage_def live_bytes_def Let_def)

section \<open>What the server guarantees\<close>

text \<open>One sender, one recipient and a signature scheme that recovers the same key from everything.\<close>

definition toy_crypto :: crypto where
  "toy_crypto = \<lparr>cr_hex_encode = (\<lambda>_. []), cr_hex_decode = (\<lambda>_. Some (replicate 20 0)), cr_keccak256 = (\<lambda>_. replicate 32 0),
     cr_blake3 = (\<lambda>_. replicate 32 0), cr_secret_ok = (\<lambda>_. True), cr_public_key = (\<lambda>_. []),
     cr_sign_recoverable = (\<lambda>_ _. (0, replicate 64 0)), cr_recover_ecdsa = (\<lambda>_ _ _. Some [])\<rparr>"

definition toy_b64 :: "string \<Rightarrow> bytes option" where
  "toy_b64 s = (if s = ''sig'' then Some (replicate 64 0 @ [27]) else Some [1, 2, 3])"

definition toy_request :: enqueue_request where
  "toy_request = \<lparr>rq_sender_id = ''0x'', rq_msg_id = replicate 32 CHR ''a'', rq_ciphertext_b64 = ''ct'', rq_sender_signature_b64 = ''sig'',
     rq_ttl_secs = None, rq_timestamp = None\<rparr>"

definition toy_envelope :: stored_envelope where
  "toy_envelope = \<lparr>se_sender_id = ''0x'', se_recipient_id = ''0x'', se_msg_id = replicate 32 CHR ''a'', se_ciphertext = [1, 2, 3],
     se_sender_signature = replicate 64 0 @ [27], se_sequence = 1, se_queued_at = 5, se_expires_at = 5 + 2592000 * 1000000000\<rparr>"

lemma toy_accepts:
  "fst (enqueue_handler toy_crypto toy_b64 sqlite_ops 5 None ''0x'' toy_request (ServerState_new [] ServerPolicy_default)) =
     EnqueueResponse 202 (outcome_of toy_envelope False) \<and>
   ss_store (snd (enqueue_handler toy_crypto toy_b64 sqlite_ops 5 None ''0x'' toy_request (ServerState_new [] ServerPolicy_default))) = [toy_envelope]"
  unfolding enqueue_handler_def enqueue_prepare_def
  by (simp add: validate_recipient_id_def Address_from_hex_def Address_from_slice_def strip_hex_prefix_def toy_crypto_def toy_request_def toy_b64_def validate_msg_id_def
  EVM_ADDRESS_LEN_def Address_to_checksum_def is_ascii_hexdigit_def list_all_iff verify_request_def verify_sender_signature_def recover_signer_def from_compact_def recover_personal_def derive_address_def nth_append
  ServerState_new_def)
    (simp add: build_envelope_def admit_def admit_check_def admit_persist_def ServerPolicy_default_def sqlite_ops_def SizePolicy_check_def size_policy_of_def SqliteStore_quota_usage_def rows_of_def wire_size_def live_bytes_def QuotaPolicy_check_def quota_policy_of_def DEFAULT_MAX_INFLIGHT_PER_USER_def DEFAULT_MAX_TOTAL_BYTES_PER_USER_def DEFAULT_MAX_ENVELOPE_BYTES_def
   SqliteStore_enqueue_def sql_max_def unwrap_or_def Let_def outcome_of_def RetentionPolicy_effective_ttl_def RetentionPolicy_default_def RetentionPolicy_new_def TtlPolicy_default_def as_secs_def from_secs_def chrono_from_std_def toy_envelope_def)

text \<open>
  C10. Only the sender adds and only the recipient removes. When a request changes which envelopes a queue of the store on disk
  holds, then either the request delivers the changed envelope, signed by the sender it names over this
  recipient, identifier and ciphertext and, if it carries a timestamp, within the window of the clock; or the request
  acknowledges it, signed by the owner of the queue over exactly the acknowledged identifiers; or the sweeper
  removes it after its expiry.
\<close>

theorem mail_changes_are_signed:
  assumes "(e \<in> set (rows_of r (ss_store (server_step cr b64 sqlite_ops (now, op) st)))) \<noteq> (e \<in> set (rows_of r (ss_store st)))"
  shows "(\<exists>pledge rid req env sq. op = ReqEnqueue pledge rid req \<and> e = env\<lparr>se_sequence := sq\<rparr> \<and> se_recipient_id e = r \<and>
        authentic cr b64 now (sv_signature_max_age_secs (ss_policy st)) rid req env) \<or>
    (\<exists>rid req sig. op = ReqAck rid req \<and> se_msg_id e \<in> set (ar_msg_ids req) \<and> b64 (ar_signature_b64 req) = Some sig \<and>
        signed_by cr r (canonical_ack r (ar_msg_ids req)) sig) \<or>
    op = Sweep \<and> se_expires_at e \<le> now"
  by (rule sqlite_backend.change_authorised [OF assms])

theorem mail_changes_are_signed_witness:
  "(\<exists>pledge rid req env sq. ReqEnqueue None ''0x'' toy_request = ReqEnqueue pledge rid req \<and> toy_envelope = env\<lparr>se_sequence := sq\<rparr> \<and> se_recipient_id toy_envelope = ''0x'' \<and>
        authentic toy_crypto toy_b64 5 (sv_signature_max_age_secs (ss_policy (ServerState_new [] ServerPolicy_default :: sqlite_table server_state))) rid req env) \<or>
    (\<exists>rid req sig. ReqEnqueue None ''0x'' toy_request = ReqAck rid req \<and> se_msg_id toy_envelope \<in> set (ar_msg_ids req) \<and> toy_b64 (ar_signature_b64 req) = Some sig \<and>
        signed_by toy_crypto ''0x'' (canonical_ack ''0x'' (ar_msg_ids req)) sig) \<or>
    ReqEnqueue None ''0x'' toy_request = Sweep \<and> se_expires_at toy_envelope \<le> 5"
  by (rule mail_changes_are_signed) (simp add: toy_accepts rows_of_def toy_envelope_def, simp add: ServerState_new_def)

text \<open>
  C14. How far a queue can outgrow its quota. Whatever requests the server handles, interleaved between the check
  of the quota and the storing, with a clock that does not run backwards: if never more than \<open>k + 1\<close>
  deliveries to a recipient are in flight at once, the recipient has at most \<open>1000 + k\<close> unexpired envelopes in the
  store on disk. Their bytes, counted as the store counts them, stay below 64 MiB plus the 56 bytes by which the
  store counts the header of an envelope higher than the check does, plus for each of the \<open>k\<close> the size of the largest
  envelope and these 56 bytes. For \<open>k = 0\<close>, one request after the other, this is the configured quota.
\<close>

theorem mailbox_within_quota:
  assumes "sorted (map fst (ev # evs))"
    and "list_all (\<lambda>i. in_flight r (snd (fold (concurrent_step cr b64 sqlite_ops) (take i (ev # evs)) (ServerState_new [] p, []))) \<le> Suc k)
           [0..<Suc (length (ev # evs))]"
  shows "let st = fst (fold (concurrent_step cr b64 sqlite_ops) (ev # evs) (ServerState_new [] p, []));
             q = filter (\<lambda>e. fst (last (ev # evs)) < se_expires_at e) (rows_of r (ss_store st)) in
    length q \<le> 1000 + k \<and>
    sum_list (map (\<lambda>e. length (se_ciphertext e) + length (se_sender_signature e) + 236) q) \<le>
      64 * 1024 * 1024 + 56 + k * (sv_max_envelope_bytes p + 56)"
proof -
  let ?inv = "quota_inv (\<lambda>t r. rows_of r t) (\<lambda>now e. now < se_expires_at e) 236 k (sv_max_envelope_bytes p) r"
  have start: "?inv (fst ev) (ServerState_new [] p :: sqlite_table server_state, [])"
    by (simp add: quota_inv_def ServerState_new_def rows_of_def live_bytes_def in_flight_def flight_bytes_def)
  have "?inv (last (fst ev # map fst (ev # evs))) (fold (concurrent_step cr b64 sqlite_ops) (ev # evs) (ServerState_new [] p, []))"
    by (rule sqlite_backend.quota_run [OF start _ assms(2)]) (use assms(1) in auto)
  moreover have "last (fst ev # map fst (ev # evs)) = fst (last (ev # evs))" by (simp add: last_map)
  ultimately show ?thesis
    by (auto simp: quota_inv_def Let_def live_bytes_def DEFAULT_MAX_INFLIGHT_PER_USER_def DEFAULT_MAX_TOTAL_BYTES_PER_USER_def
        split: prod.splits)
qed

theorem mailbox_within_quota_witness:
  "let evs = [(5, Arrive None ''0x'' toy_request), (9, Finish 0)];
       st = fst (fold (concurrent_step toy_crypto toy_b64 sqlite_ops) evs (ServerState_new [] ServerPolicy_default, []));
       q = filter (\<lambda>e. fst (last evs) < se_expires_at e) (rows_of ''0x'' (ss_store st)) in
    length q \<le> 1000"
proof -
  let ?evs = "[(9, Finish 0)]" and ?ev = "(5, Arrive None ''0x'' toy_request) :: int \<times> server_event"
  let ?s = "\<lambda>i. fold (concurrent_step toy_crypto toy_b64 sqlite_ops) (take i (?ev # ?evs)) (ServerState_new [] ServerPolicy_default, [])"
  have one: "length (snd (concurrent_step cr b64 ops e sp)) \<le> Suc (length (snd sp))" for cr b64 e sp and ops :: "sqlite_table store_ops"
    by (cases "(cr, b64, ops, e, sp)" rule: concurrent_step.cases) (auto split: sum.splits)
  have fin: "length (snd (concurrent_step cr b64 ops (now, Finish 0) sp)) \<le> length (snd sp)" for cr b64 now sp and ops :: "sqlite_table store_ops"
    by (cases sp) auto
  have fl: "in_flight r ps \<le> length ps" for r ps by (simp add: in_flight_def)
  have "in_flight ''0x'' (snd (?s i)) \<le> Suc 0" if i: "i < 3" for i
  proof -
    consider "i = 0" | "i = 1" | "i = 2" using i by linarith
    then have "length (snd (?s i)) \<le> Suc 0"
    proof cases
      case 2
      then show ?thesis using one [of toy_crypto toy_b64 sqlite_ops ?ev "(ServerState_new [] ServerPolicy_default, [])"] by (simp del: concurrent_step.simps)
    next
      case 3
      then show ?thesis
        using one [of toy_crypto toy_b64 sqlite_ops ?ev "(ServerState_new [] ServerPolicy_default, [])"]
          fin [of toy_crypto toy_b64 sqlite_ops 9 "concurrent_step toy_crypto toy_b64 sqlite_ops ?ev (ServerState_new [] ServerPolicy_default, [])"]
        by (simp del: concurrent_step.simps)
    qed simp
    then show ?thesis by (rule le_trans [OF fl])
  qed
  then have "list_all (\<lambda>i. in_flight ''0x'' (snd (?s i)) \<le> Suc 0) [0..<Suc (length (?ev # ?evs))]"
    by (simp add: list_all_iff del: concurrent_step.simps upt_Suc fold_simps)
  from mailbox_within_quota [OF _ this] show ?thesis by (simp add: Let_def del: concurrent_step.simps)
qed

text \<open>
  Two deliveries that are checked before either is stored can both pass with one place left, so that the
  queue ends above the quota.
\<close>

lemma racing_deliveries_exceed_quota:
  assumes "admit_check sqlite_ops now e1 st = Inr n1" and "admit_check sqlite_ops now e2 st = Inr n2"
    and "se_recipient_id e1 = r" and "se_recipient_id e2 = r" and "length (rows_of r (ss_store st)) = 999"
    and "se_msg_id e1 \<noteq> se_msg_id e2" and "\<forall>e \<in> set (rows_of r (ss_store st)). se_msg_id e \<notin> {se_msg_id e1, se_msg_id e2}"
  shows "length (rows_of r (ss_store (snd (admit_persist sqlite_ops e2 n2 (snd (admit_persist sqlite_ops e1 n1 st)))))) = 1001"
proof -
  let ?rows = "rows_of r (ss_store st)"
  have stored: "ss_store (snd (admit_persist sqlite_ops e n s)) = snd (SqliteStore_enqueue e (ss_store s))" for e n s
    by (simp add: admit_persist_def sqlite_ops_def Let_def case_prod_beta)
  have grow: "\<exists>sq. rows_of r (snd (SqliteStore_enqueue e t)) = rows_of r t @ [e\<lparr>se_sequence := sq\<rparr>]"
    if "se_recipient_id e = r" "\<forall>x \<in> set (rows_of r t). se_msg_id x \<noteq> se_msg_id e" for e t
  proof -
    have "List.find (same_message e) (rows_of r t) = None" using that(2) by (auto simp: find_None_iff same_message_def)
    with that(1) show ?thesis by (auto simp: SqliteStore_enqueue_def Let_def) (auto simp: rows_of_def)
  qed
  obtain s1 where r1: "rows_of r (ss_store (snd (admit_persist sqlite_ops e1 n1 st))) = ?rows @ [e1\<lparr>se_sequence := s1\<rparr>]"
    using grow [OF assms(3), of "ss_store st"] assms(7) by (auto simp: stored)
  then obtain s2 where "rows_of r (ss_store (snd (admit_persist sqlite_ops e2 n2 (snd (admit_persist sqlite_ops e1 n1 st))))) =
      (?rows @ [e1\<lparr>se_sequence := s1\<rparr>]) @ [e2\<lparr>se_sequence := s2\<rparr>]"
    using grow [OF assms(4), of "ss_store (snd (admit_persist sqlite_ops e1 n1 st))"] assms(6,7) by (auto simp: stored)
  then show ?thesis using assms(5) by simp
qed

text \<open>
  A request without a timestamp can be replayed for ever. If the server accepted it once, it accepts the same bytes again at any later time as new
  mail, as soon as the queue of the recipient no longer holds the first copy, for instance because
  it was acknowledged.
\<close>

theorem legacy_request_replayed:
  assumes "rq_timestamp req = None"
    and "fst (enqueue_handler cr b64 sqlite_ops now pledge rid req st) = EnqueueResponse code out"
    and "ss_policy st' = ss_policy st" and "ss_billing_mandatory st' = ss_billing_mandatory st"
    and "\<And>r. rows_of r (ss_store st') = []"
  shows "\<exists>out'. fst (enqueue_handler cr b64 sqlite_ops now' pledge rid req st') = EnqueueResponse 202 out'"
proof -
  let ?env = "\<lambda>now st s r ct sig. build_envelope now st s r req ct sig"
  obtain addr saddr ct sig where pre: "validate_recipient_id cr rid = Inr addr" "validate_msg_id (rq_msg_id req) = Inr ()"
      "b64 (rq_ciphertext_b64 req) = Some ct" "b64 (rq_sender_signature_b64 req) = Some sig" "validate_recipient_id cr (rq_sender_id req) = Inr saddr"
      "verify_sender_signature cr (Address_to_checksum cr saddr) (Address_to_checksum cr addr) (rq_msg_id req) ct sig = Inr ()"
      "\<not> (ss_billing_mandatory st = Some True \<and> pledge = None)"
    and adm: "fst (admit sqlite_ops now (?env now st (Address_to_checksum cr saddr) (Address_to_checksum cr addr) ct sig) st) = EnqueueResponse code out"
    using assms(1,2) by (auto simp: enqueue_handler_def enqueue_prepare_def reject_def verify_request_def Let_def split: sum.splits option.splits if_splits)
  let ?e = "?env now st (Address_to_checksum cr saddr) (Address_to_checksum cr addr) ct sig"
  let ?e' = "?env now' st' (Address_to_checksum cr saddr) (Address_to_checksum cr addr) ct sig"
  have ws: "wire_size ?e' = wire_size ?e" by (simp add: wire_size_def)
  have ok: "SizePolicy_check (size_policy_of (ss_policy st)) ?e = Inr ()" "wire_size ?e \<le> DEFAULT_MAX_TOTAL_BYTES_PER_USER"
    using adm by (cases rule: admit_cases [of sqlite_ops now ?e st]; use quota_accept in fastforce)+
  have "enqueue_handler cr b64 sqlite_ops now' pledge rid req st' = admit sqlite_ops now' ?e' st'"
    using pre assms(1,4) by (auto simp: enqueue_handler_def enqueue_prepare_def verify_request_def Let_def)
  moreover have "fst (admit sqlite_ops now' ?e' st') = EnqueueResponse 202 (outcome_of (?e'\<lparr>se_sequence := 1\<rparr>) False)"
    using ok assms(3,5) ws
    by (simp add: admit_def admit_check_def admit_persist_def SizePolicy_check_def sqlite_ops_def SqliteStore_quota_usage_def QuotaPolicy_check_def quota_policy_of_def
        DEFAULT_MAX_INFLIGHT_PER_USER_def SqliteStore_enqueue_def sql_max_def unwrap_or_def Let_def outcome_of_def min_def split: if_splits)
  ultimately show ?thesis by simp
qed

theorem legacy_request_replayed_witness:
  "\<exists>out'. fst (enqueue_handler toy_crypto toy_b64 sqlite_ops 900000000000000000 None ''0x'' toy_request (ServerState_new [] ServerPolicy_default)) = EnqueueResponse 202 out'"
  by (rule legacy_request_replayed [OF _ conjunct1 [OF toy_accepts]])
    (simp_all add: toy_request_def ServerState_new_def rows_of_def)

end
