(* ===== verification/Mailbox_Rate_Limit.thy ===== *)
theory Mailbox_Rate_Limit
  imports Prelude Complex_Main
begin

text \<open>
  The rate limiter in front of the mailbox routes, \<^verbatim>\<open>crates/a3net-mailbox/src/rate_limit.rs\<close>: a token bucket per
  client address and the rule that finds the address of a client. Token counts, which the code keeps as
  \<^verbatim>\<open>f64\<close>, are rationals; the clock is in nanoseconds. A header is present when its value is text.
\<close>

datatype trusted_proxy = ProxyDisabled | FromProxy string | AlwaysTrust

record bucket_state =
  bk_tokens :: rat
  bk_last_refill :: instant

record rate_limit_config =
  rl_capacity :: rat
  rl_refill_per_sec :: rat
  rl_retry_after_secs :: nat

definition POLICY_DEFAULT :: rate_limit_config where
  "POLICY_DEFAULT = \<lparr>rl_capacity = 60, rl_refill_per_sec = 1, rl_retry_after_secs = 10\<rparr>"

definition RateLimitConfig_enqueue :: rate_limit_config where
  "RateLimitConfig_enqueue = \<lparr>rl_capacity = 60, rl_refill_per_sec = 1, rl_retry_after_secs = 10\<rparr>"

definition RateLimitConfig_read :: rate_limit_config where
  "RateLimitConfig_read = \<lparr>rl_capacity = 300, rl_refill_per_sec = 5, rl_retry_after_secs = 5\<rparr>"

definition BucketState_default :: "instant \<Rightarrow> bucket_state" where
  "BucketState_default now = \<lparr>bk_tokens = rl_capacity POLICY_DEFAULT, bk_last_refill = now\<rparr>"

type_synonym rate_limit_registry = "(string, bucket_state) hmap"

definition registry_bucket :: "instant \<Rightarrow> string \<Rightarrow> rate_limit_registry \<Rightarrow> bucket_state" where
  "registry_bucket now ip reg = (case hm_get reg ip of None \<Rightarrow> BucketState_default now | Some b \<Rightarrow> b)"

datatype rate_limit_result = Allowed rat | Rejected nat

definition check_and_consume :: "instant \<Rightarrow> rate_limit_config \<Rightarrow> string \<Rightarrow> rate_limit_registry \<Rightarrow> rate_limit_result \<times> rate_limit_registry" where
  "check_and_consume now policy ip reg =
     (let b = registry_bucket now ip reg; elapsed = of_nat (now - bk_last_refill b) / 1000000000;
          tokens = min (bk_tokens b + elapsed * rl_refill_per_sec policy) (rl_capacity policy) in
      if tokens < 1 then (Rejected (rl_retry_after_secs policy), hm_insert ip \<lparr>bk_tokens = tokens, bk_last_refill = now\<rparr> reg)
      else (Allowed (tokens - 1), hm_insert ip \<lparr>bk_tokens = tokens - 1, bk_last_refill = now\<rparr> reg))"

record limited_request =
  hr_socket_ip :: "string option"
  hr_x_real_ip :: "string option"
  hr_x_forwarded_for :: "string option"

definition first_forwarded_ip :: "limited_request \<Rightarrow> string option" where
  "first_forwarded_ip req =
     (let forwarded = (case hr_x_forwarded_for req of
            None \<Rightarrow> None
          | Some s \<Rightarrow> (let ip = str_trim (hd (split_on CHR '','' s)) in if ip \<noteq> [] then Some ip else None)) in
      case hr_x_real_ip req of
        Some s \<Rightarrow> (let ip = str_trim s in if ip \<noteq> [] \<and> length ip < 48 then Some ip else forwarded)
      | None \<Rightarrow> forwarded)"

definition client_ip :: "limited_request \<Rightarrow> trusted_proxy \<Rightarrow> string" where
  "client_ip req proxy = (let direct_ip = (case hr_socket_ip req of Some a \<Rightarrow> a | None \<Rightarrow> ''unknown'') in
     case proxy of
       ProxyDisabled \<Rightarrow> direct_ip
     | FromProxy expected \<Rightarrow> if direct_ip = expected then (case first_forwarded_ip req of Some ip \<Rightarrow> ip | None \<Rightarrow> direct_ip) else direct_ip
     | AlwaysTrust \<Rightarrow> (case first_forwarded_ip req of Some ip \<Rightarrow> ip | None \<Rightarrow> ''0.0.0.0''))"

record rate_limit_state =
  rs_registry :: rate_limit_registry
  rs_policy :: rate_limit_config
  rs_trusted_proxy :: trusted_proxy

definition RateLimitState_enqueue :: "rate_limit_registry \<Rightarrow> trusted_proxy \<Rightarrow> rate_limit_state" where
  "RateLimitState_enqueue reg proxy = \<lparr>rs_registry = reg, rs_policy = RateLimitConfig_enqueue, rs_trusted_proxy = proxy\<rparr>"

definition RateLimitState_read :: "rate_limit_registry \<Rightarrow> trusted_proxy \<Rightarrow> rate_limit_state" where
  "RateLimitState_read reg proxy = \<lparr>rs_registry = reg, rs_policy = RateLimitConfig_read, rs_trusted_proxy = proxy\<rparr>"

text \<open>The middleware answers 429 with the waiting time (\<open>Inl\<close>) or passes the request on (\<open>Inr\<close>).\<close>

definition rate_limit_middleware :: "instant \<Rightarrow> limited_request \<Rightarrow> rate_limit_state \<Rightarrow> (nat + limited_request) \<times> rate_limit_state" where
  "rate_limit_middleware now req st = (let ip = client_ip req (rs_trusted_proxy st) in
     case check_and_consume now (rs_policy st) ip (rs_registry st) of
       (Allowed _, reg) \<Rightarrow> (Inr req, st\<lparr>rs_registry := reg\<rparr>)
     | (Rejected n, reg) \<Rightarrow> (Inl n, st\<lparr>rs_registry := reg\<rparr>))"

section \<open>Counting\<close>

fun passed :: "string \<Rightarrow> (instant \<times> limited_request) list \<Rightarrow> rate_limit_state \<Rightarrow> nat" where
  "passed ip [] st = 0"
| "passed ip ((now, req) # reqs) st =
     (if client_ip req (rs_trusted_proxy st) = ip \<and> \<not> isl (fst (rate_limit_middleware now req st)) then 1 else 0)
       + passed ip reqs (snd (rate_limit_middleware now req st))"

definition credit :: "rate_limit_config \<Rightarrow> instant \<Rightarrow> bucket_state \<Rightarrow> rat" where
  "credit p now b = bk_tokens b + of_nat (now - bk_last_refill b) / 1000000000 * rl_refill_per_sec p"

lemma middleware_keeps [simp]:
  "rs_policy (snd (rate_limit_middleware now req st)) = rs_policy st"
  "rs_trusted_proxy (snd (rate_limit_middleware now req st)) = rs_trusted_proxy st"
  by (simp_all add: rate_limit_middleware_def Let_def split: prod.split rate_limit_result.split)

lemma middleware_other:
  "client_ip req (rs_trusted_proxy st) \<noteq> ip \<Longrightarrow> hm_get (rs_registry (snd (rate_limit_middleware now req st))) ip = hm_get (rs_registry st) ip"
  by (simp add: rate_limit_middleware_def check_and_consume_def Let_def split: prod.split rate_limit_result.split)

lemma middleware_own:
  assumes "client_ip req (rs_trusted_proxy st) = ip"
  shows "\<exists>b'. hm_get (rs_registry (snd (rate_limit_middleware now req st))) ip = Some b' \<and> bk_last_refill b' = now \<and>
    bk_tokens b' + (if \<not> isl (fst (rate_limit_middleware now req st)) then 1 else 0) =
      min (credit (rs_policy st) now (registry_bucket now ip (rs_registry st))) (rl_capacity (rs_policy st)) \<and>
    ((\<not> isl (fst (rate_limit_middleware now req st))) \<longleftrightarrow>
      1 \<le> min (credit (rs_policy st) now (registry_bucket now ip (rs_registry st))) (rl_capacity (rs_policy st)))"
  using assms by (auto simp: rate_limit_middleware_def check_and_consume_def credit_def Let_def not_less)

lemma credit_later: "bk_last_refill b \<le> now \<Longrightarrow> now \<le> t \<Longrightarrow>
    credit p t b = credit p now b + of_nat (t - now) / 1000000000 * rl_refill_per_sec p"
  by (simp add: credit_def of_nat_diff field_simps)

lemma passed_bound:
  assumes "0 \<le> rl_capacity p" and "0 \<le> rl_refill_per_sec p"
  shows "rs_policy st = p \<Longrightarrow> hm_get (rs_registry st) ip = Some b \<Longrightarrow> 0 \<le> bk_tokens b \<Longrightarrow> sorted (bk_last_refill b # map fst reqs @ [t]) \<Longrightarrow>
    of_nat (passed ip reqs st) \<le> credit p t b"
proof (induction reqs arbitrary: st b)
  case Nil
  then show ?case using assms(2) by (simp add: credit_def)
next
  case (Cons x reqs)
  obtain now req where x: "x = (now, req)" by fastforce
  let ?st' = "snd (rate_limit_middleware now req st)"
  have le: "bk_last_refill b \<le> now" "now \<le> t" using Cons.prems(4) by (auto simp: x)
  show ?case
  proof (cases "client_ip req (rs_trusted_proxy st) = ip")
    case False
    have "of_nat (passed ip reqs ?st') \<le> credit p t b"
      by (rule Cons.IH) (use Cons.prems False middleware_other in \<open>auto simp: x\<close>)
    then show ?thesis using False by (simp add: x)
  next
    case True
    have rb: "registry_bucket now ip (rs_registry st) = b" using Cons.prems(2) by (simp add: registry_bucket_def)
    let ?ok = "\<not> isl (fst (rate_limit_middleware now req st))"
    obtain b' where b': "hm_get (rs_registry ?st') ip = Some b'" "bk_last_refill b' = now"
        "bk_tokens b' + (if ?ok then 1 else 0) = min (credit p now b) (rl_capacity p)" "?ok \<longleftrightarrow> 1 \<le> min (credit p now b) (rl_capacity p)"
      using middleware_own [OF True, of now] unfolding rb Cons.prems(1) by (elim exE conjE) (rule that)
    have "0 \<le> credit p now b" using Cons.prems(3) assms(2) by (simp add: credit_def)
    then have nn: "0 \<le> bk_tokens b'" using b'(3,4) assms(1) by (auto split: if_splits)
    have "of_nat (passed ip reqs ?st') \<le> credit p t b'"
      by (rule Cons.IH [OF _ b'(1) nn]) (use Cons.prems b'(2) in \<open>auto simp: x\<close>)
    also have "\<dots> = bk_tokens b' + of_nat (t - now) / 1000000000 * rl_refill_per_sec p" by (simp add: credit_def b'(2))
    finally have "of_nat (passed ip reqs ?st') + (if ?ok then 1 else 0) \<le> min (credit p now b) (rl_capacity p) + of_nat (t - now) / 1000000000 * rl_refill_per_sec p"
      using b'(3) by linarith
    also have "\<dots> \<le> credit p now b + of_nat (t - now) / 1000000000 * rl_refill_per_sec p" by simp
    also have "\<dots> = credit p t b" by (rule credit_later [OF le, symmetric])
    finally show ?thesis using True by (simp add: x add.commute split: if_splits)
  qed
qed

lemma passed_fresh:
  assumes "0 \<le> rl_capacity p" and "0 \<le> rl_refill_per_sec p"
  shows "rs_policy st = p \<Longrightarrow> hm_get (rs_registry st) ip = None \<Longrightarrow> sorted (t0 # map fst reqs @ [t]) \<Longrightarrow>
    of_nat (passed ip reqs st) \<le> min 60 (rl_capacity p) + of_nat (t - t0) / 1000000000 * rl_refill_per_sec p"
proof (induction reqs arbitrary: st t0)
  case Nil
  then show ?case using assms by simp
next
  case (Cons x reqs)
  obtain now req where x: "x = (now, req)" by fastforce
  let ?st' = "snd (rate_limit_middleware now req st)"
  show ?case
  proof (cases "client_ip req (rs_trusted_proxy st) = ip")
    case False
    have "of_nat (passed ip reqs ?st') \<le> min 60 (rl_capacity p) + of_nat (t - t0) / 1000000000 * rl_refill_per_sec p"
      by (rule Cons.IH) (use Cons.prems False middleware_other in \<open>auto simp: x\<close>)
    then show ?thesis using False by (simp add: x)
  next
    case True
    have rb: "registry_bucket now ip (rs_registry st) = BucketState_default now" using Cons.prems(2) by (simp add: registry_bucket_def)
    have c: "credit p now (BucketState_default now) = 60" by (simp add: credit_def BucketState_default_def POLICY_DEFAULT_def)
    let ?ok = "\<not> isl (fst (rate_limit_middleware now req st))"
    obtain b' where b': "hm_get (rs_registry ?st') ip = Some b'" "bk_last_refill b' = now"
        "bk_tokens b' + (if ?ok then 1 else 0) = min 60 (rl_capacity p)" "?ok \<longleftrightarrow> 1 \<le> min 60 (rl_capacity p)"
      using middleware_own [OF True, of now] unfolding rb Cons.prems(1) c by (elim exE conjE) (rule that)
    have nn: "0 \<le> bk_tokens b'" using b'(3,4) assms(1) by (auto split: if_splits)
    have "of_nat (passed ip reqs ?st') \<le> credit p t b'"
      by (rule passed_bound [OF assms _ b'(1) nn]) (use Cons.prems b'(2) in \<open>auto simp: x\<close>)
    also have "\<dots> = bk_tokens b' + of_nat (t - now) / 1000000000 * rl_refill_per_sec p" by (simp add: credit_def b'(2))
    also have "\<dots> \<le> bk_tokens b' + of_nat (t - t0) / 1000000000 * rl_refill_per_sec p"
      using assms(2) Cons.prems(3) by (intro add_left_mono mult_right_mono) (auto simp: x divide_right_mono)
    finally have "of_nat (passed ip reqs ?st') + (if ?ok then 1 else 0) \<le> min 60 (rl_capacity p) + of_nat (t - t0) / 1000000000 * rl_refill_per_sec p"
      using b'(3) by linarith
    then show ?thesis using True by (simp add: x add.commute split: if_splits)
  qed
qed

text \<open>
  The limiter limits. However the requests of other clients are interleaved, a client address gets through at most as many requests as a
  fresh bucket holds, at most 60 and at most the capacity, plus the refill rate times the length of the
  period.
\<close>

theorem rate_limit_bound:
  assumes "0 \<le> rl_capacity p" and "0 \<le> rl_refill_per_sec p" and "sorted (t0 # map fst reqs @ [t])"
  shows "of_nat (passed ip reqs \<lparr>rs_registry = [], rs_policy = p, rs_trusted_proxy = proxy\<rparr>)
    \<le> min 60 (rl_capacity p) + of_nat (t - t0) / 1000000000 * rl_refill_per_sec p"
  by (rule passed_fresh [OF assms(1,2) _ _ assms(3)]) simp_all

theorem rate_limit_bound_witness:
  "of_nat (passed ''unknown'' [(5, \<lparr>hr_socket_ip = None, hr_x_real_ip = None, hr_x_forwarded_for = None\<rparr>)]
      \<lparr>rs_registry = [], rs_policy = RateLimitConfig_enqueue, rs_trusted_proxy = ProxyDisabled\<rparr>)
    \<le> min 60 (rl_capacity RateLimitConfig_enqueue) + of_nat (9 - 0) / 1000000000 * rl_refill_per_sec RateLimitConfig_enqueue"
  by (rule rate_limit_bound) (simp_all add: RateLimitConfig_enqueue_def)

text \<open>Requests that come at least as slowly as the bucket refills are never refused.\<close>

lemma slow_client_passes:
  assumes "1 \<le> rl_capacity (rs_policy st)" and "client_ip req (rs_trusted_proxy st) = ip"
    and "1 \<le> credit (rs_policy st) now (registry_bucket now ip (rs_registry st))"
  shows "fst (rate_limit_middleware now req st) = Inr req"
  using assms by (auto simp: rate_limit_middleware_def check_and_consume_def credit_def Let_def)

text \<open>
  Without a socket address in the extensions of the request every client is the client \<open>unknown\<close>, so
  that all of them share one bucket.
\<close>

lemma clients_share_bucket:
  assumes "hr_socket_ip req = None" and "hr_socket_ip req' = None"
  shows "client_ip req ProxyDisabled = client_ip req' ProxyDisabled"
  using assms by (simp add: client_ip_def)

lemma disabled_ignores_headers: "client_ip req ProxyDisabled = client_ip (req\<lparr>hr_x_real_ip := a, hr_x_forwarded_for := b\<rparr>) ProxyDisabled"
  by (simp add: client_ip_def)

lemma untrusted_peer_ignores_headers:
  "hr_socket_ip req = Some a \<Longrightarrow> a \<noteq> proxy_ip \<Longrightarrow> client_ip req (FromProxy proxy_ip) = a"
  by (simp add: client_ip_def)

end
