(* ===== verification/Mesh_Types.thy ===== *)
theory Mesh_Types
  imports Identity
begin

text \<open>
  The data of the mesh VPN: \<^verbatim>\<open>crates/a3net-types/src/virtual_ip.rs\<close> (the addresses derived from a
  node identifier) and \<^verbatim>\<open>crates/a3net-types/src/mesh.rs\<close> (network identifiers, members, rosters with
  their signing preimage, invite codes with their URL).

  A \<^verbatim>\<open>DateTime\<close> is the number of nanoseconds since the epoch. The \<^verbatim>\<open>hex\<close> crate is the argument
  \<open>hx\<close>; \<^verbatim>\<open>as_bytes\<close> panics on an identifier that is no hexadecimal text, which a deserialised
  identifier may be, so operations that call it return an option, \<open>None\<close> being the panic. The
  range of times that \<^verbatim>\<open>chrono\<close> represents is the argument \<open>ts_ok\<close>.
\<close>

type_synonym datetime = int
type_synonym ipv4_addr = u32
type_synonym ipv6_addr = bytes

section \<open>Virtual addresses\<close>

definition MESH_IPV4_PREFIX_LEN :: nat where "MESH_IPV4_PREFIX_LEN = 10"
definition MESH_IPV4_BASE :: ipv4_addr where "MESH_IPV4_BASE = 0x64400000"
definition MESH_IPV4_COUNT :: u32 where "MESH_IPV4_COUNT = push_bit (32 - MESH_IPV4_PREFIX_LEN) 1"
definition MESH_IPV6_PREFIX_BYTES :: bytes where "MESH_IPV6_PREFIX_BYTES = [2, 0]"

definition u32_from_le_bytes :: "bytes \<Rightarrow> u32" where
  "u32_from_le_bytes bs = of_nat (be_nat (rev bs))"

definition VirtualIpv4_from_node_id :: "hex_decoder \<Rightarrow> node_id \<Rightarrow> ipv4_addr option" where
  "VirtualIpv4_from_node_id hx i = (case hx i of
     None \<Rightarrow> None
   | Some bytes \<Rightarrow> if length bytes < 4 then None
       else Some (MESH_IPV4_BASE + u32_from_le_bytes (take 4 bytes) mod MESH_IPV4_COUNT))"

definition VirtualIpv4_from_std :: "ipv4_addr \<Rightarrow> ipv4_addr option" where
  "VirtualIpv4_from_std raw =
     (if MESH_IPV4_BASE \<le> raw \<and> raw < MESH_IPV4_BASE + MESH_IPV4_COUNT then Some raw else None)"

definition VirtualIpv6_from_node_id :: "hex_decoder \<Rightarrow> node_id \<Rightarrow> ipv6_addr option" where
  "VirtualIpv6_from_node_id hx i = (case hx i of
     None \<Rightarrow> None
   | Some bytes \<Rightarrow> if length bytes < 16 then None
       else Some (MESH_IPV6_PREFIX_BYTES @ map (\<lambda>k. bytes ! (k + 2)) [0..<14]))"

definition VirtualIpv6_from_std :: "ipv6_addr \<Rightarrow> ipv6_addr option" where
  "VirtualIpv6_from_std octets =
     (if octets ! 0 = MESH_IPV6_PREFIX_BYTES ! 0 \<and> octets ! 1 = MESH_IPV6_PREFIX_BYTES ! 1 then Some octets else None)"

record virtual_ip =
  vi_ipv4 :: ipv4_addr
  vi_ipv6 :: ipv6_addr

definition VirtualIp_from_node_id :: "hex_decoder \<Rightarrow> node_id \<Rightarrow> virtual_ip option" where
  "VirtualIp_from_node_id hx i = (case VirtualIpv4_from_node_id hx i of
     None \<Rightarrow> None
   | Some a \<Rightarrow> (case VirtualIpv6_from_node_id hx i of None \<Rightarrow> None | Some b \<Rightarrow> Some \<lparr>vi_ipv4 = a, vi_ipv6 = b\<rparr>))"

definition VirtualIp_from_ipv4 :: "ipv4_addr \<Rightarrow> virtual_ip" where
  "VirtualIp_from_ipv4 a = \<lparr>vi_ipv4 = a, vi_ipv6 = replicate 16 0\<rparr>"

text \<open>The dotted quad of the standard library.\<close>

definition Ipv4Addr_octets :: "ipv4_addr \<Rightarrow> nat list" where
  "Ipv4Addr_octets a = map unat (u32_to_be_bytes a)"

definition Ipv4Addr_display :: "ipv4_addr \<Rightarrow> string" where
  "Ipv4Addr_display a = str_join CHR ''.'' (map show_nat (Ipv4Addr_octets a))"

definition parse_octet :: "string \<Rightarrow> nat option" where
  "parse_octet s = (if s = [] \<or> 3 < length s \<or> (hd s = CHR ''0'' \<and> 1 < length s) then None
     else case digits_val 0 s of None \<Rightarrow> None | Some v \<Rightarrow> if v \<le> 255 then Some v else None)"

definition Ipv4Addr_parse :: "string \<Rightarrow> ipv4_addr option" where
  "Ipv4Addr_parse s = (case map parse_octet (split_on CHR ''.'' s) of
     [Some a, Some b, Some c, Some d] \<Rightarrow> Some (of_nat (be_nat [of_nat a, of_nat b, of_nat c, of_nat d]))
   | _ \<Rightarrow> None)"

datatype validation_error =
    InvalidIpv4 string
  | OutsideMeshRange ipv4_addr
  | NetworkIdLen nat
  | NetworkIdNotHex string
  | NotMeshUrl string
  | NotInviteUrl string
  | MissingCode string
  | MissingExpiry string
  | InvalidTimestamp string
  | TimestampOutOfRange int

definition VirtualIpv4_parse :: "string \<Rightarrow> (validation_error, ipv4_addr) result" where
  "VirtualIpv4_parse s = (case Ipv4Addr_parse s of
     None \<Rightarrow> Inl (InvalidIpv4 s)
   | Some ip \<Rightarrow> (case VirtualIpv4_from_std ip of None \<Rightarrow> Inl (OutsideMeshRange ip) | Some a \<Rightarrow> Inr a))"

section \<open>Network identifiers\<close>

type_synonym mesh_network_id = string

definition MESH_NETWORK_ID_BYTES :: nat where "MESH_NETWORK_ID_BYTES = 32"
definition MESH_NETWORK_ID_HEX_LEN :: nat where "MESH_NETWORK_ID_HEX_LEN = MESH_NETWORK_ID_BYTES * 2"
definition MESH_INVITE_SCHEME :: string where "MESH_INVITE_SCHEME = ''a3net-invite://''"
definition MESH_NETWORK_SCHEME :: string where "MESH_NETWORK_SCHEME = ''a3net-mesh://''"

definition MeshNetworkId_from_bytes :: "hex_encoder \<Rightarrow> bytes \<Rightarrow> (validation_error, mesh_network_id) result" where
  "MeshNetworkId_from_bytes hex_encode bs =
     (if length bs \<noteq> MESH_NETWORK_ID_BYTES then Inl (NetworkIdLen (length bs)) else Inr (hex_encode bs))"

definition MeshNetworkId_from_hex :: "string \<Rightarrow> (validation_error, mesh_network_id) result" where
  "MeshNetworkId_from_hex s =
     (if length s \<noteq> MESH_NETWORK_ID_HEX_LEN then Inl (NetworkIdLen (length s))
      else if \<not> list_all is_ascii_hexdigit s then Inl (NetworkIdNotHex s)
      else Inr (to_ascii_lowercase s))"

definition str_strip_prefix :: "string \<Rightarrow> string \<Rightarrow> string option" where
  "str_strip_prefix p s = (if take (length p) s = p then Some (drop (length p) s) else None)"

definition MeshNetworkId_encode_url :: "mesh_network_id \<Rightarrow> string" where
  "MeshNetworkId_encode_url n = MESH_NETWORK_SCHEME @ n"

definition MeshNetworkId_parse_url :: "string \<Rightarrow> (validation_error, mesh_network_id) result" where
  "MeshNetworkId_parse_url raw = (case str_strip_prefix MESH_NETWORK_SCHEME raw of
     None \<Rightarrow> Inl (NotMeshUrl raw)
   | Some rest \<Rightarrow> MeshNetworkId_from_hex rest)"

datatype mesh_policy = Open | Closed

section \<open>Members and rosters\<close>

record mesh_member =
  me_node_id :: node_id
  me_hostname :: string
  me_virtual_ip :: virtual_ip
  me_is_coordinator :: bool
  me_admitted_at :: datetime

definition new_coordinator :: "hex_decoder \<Rightarrow> datetime \<Rightarrow> node_id \<Rightarrow> string \<Rightarrow> mesh_member option" where
  "new_coordinator hx now i hostname = map_option (\<lambda>vip. \<lparr>me_node_id = i, me_hostname = hostname, me_virtual_ip = vip,
     me_is_coordinator = True, me_admitted_at = now\<rparr>) (VirtualIp_from_node_id hx i)"

definition new_member :: "hex_decoder \<Rightarrow> datetime \<Rightarrow> node_id \<Rightarrow> string \<Rightarrow> mesh_member option" where
  "new_member hx now i hostname = map_option (\<lambda>vip. \<lparr>me_node_id = i, me_hostname = hostname, me_virtual_ip = vip,
     me_is_coordinator = False, me_admitted_at = now\<rparr>) (VirtualIp_from_node_id hx i)"

record mesh_membership =
  ro_network_id :: mesh_network_id
  ro_version :: u64
  ro_members :: "mesh_member list"
  ro_signature :: string
  ro_published_at :: datetime

definition new_unsigned :: "datetime \<Rightarrow> mesh_network_id \<Rightarrow> mesh_member list \<Rightarrow> mesh_membership" where
  "new_unsigned now n ms = \<lparr>ro_network_id = n, ro_version = 1, ro_members = ms, ro_signature = [], ro_published_at = now\<rparr>"

definition bumped :: "datetime \<Rightarrow> mesh_membership \<Rightarrow> mesh_membership" where
  "bumped now r = r\<lparr>ro_version := sat_add64 (ro_version r) 1, ro_published_at := now\<rparr>"

definition bar :: u8 where "bar = 0x7C"

fun members_preimage :: "hex_decoder \<Rightarrow> mesh_member list \<Rightarrow> bytes option" where
  "members_preimage hx [] = Some []"
| "members_preimage hx (m # ms) = (case hx (me_node_id m) of
     None \<Rightarrow> None
   | Some i \<Rightarrow> (case members_preimage hx ms of
       None \<Rightarrow> None
     | Some rest \<Rightarrow> Some (i @ [bar] @ str_as_bytes (me_hostname m) @ [bar] @ [if me_is_coordinator m then 1 else 0] @ [bar] @ rest)))"

definition signing_preimage :: "hex_decoder \<Rightarrow> mesh_membership \<Rightarrow> bytes option" where
  "signing_preimage hx r = map_option (\<lambda>ms. u64_to_be_bytes (ro_version r) @ str_as_bytes (ro_network_id r) @ [bar] @
     u32_to_be_bytes (of_nat (length (ro_members r))) @ [bar] @ ms) (members_preimage hx (ro_members r))"

definition set_signature_hex :: "string \<Rightarrow> mesh_membership \<Rightarrow> mesh_membership" where
  "set_signature_hex s r = r\<lparr>ro_signature := s\<rparr>"

definition member_lookup :: "mesh_membership \<Rightarrow> node_id \<Rightarrow> mesh_member option" where
  "member_lookup r i = List.find (\<lambda>m. me_node_id m = i) (ro_members r)"

definition verify_roster_signature :: "hex_decoder \<Rightarrow> (bytes \<Rightarrow> bytes \<Rightarrow> bool) \<Rightarrow> mesh_membership \<Rightarrow> bool option" where
  "verify_roster_signature hx verify_roster r = (case signing_preimage hx r of
     None \<Rightarrow> None
   | Some preimage \<Rightarrow> Some (case hx (ro_signature r) of
       None \<Rightarrow> False
     | Some sig_bytes \<Rightarrow> if length sig_bytes \<noteq> 64 then False else verify_roster preimage sig_bytes))"

section \<open>Invite codes\<close>

record invite_code =
  iv_network_id :: mesh_network_id
  iv_code :: string
  iv_expires_at :: datetime
  iv_redeemed :: bool

definition InviteCode_new :: "hex_encoder \<Rightarrow> datetime \<Rightarrow> bytes \<Rightarrow> mesh_network_id \<Rightarrow> duration \<Rightarrow> invite_code" where
  "InviteCode_new hex_encode now random n ttl =
     \<lparr>iv_network_id = n, iv_code = hex_encode random, iv_expires_at = now + int ttl, iv_redeemed = False\<rparr>"

definition NANOS :: int where "NANOS = 1000000000"

definition timestamp :: "datetime \<Rightarrow> int" where
  "timestamp t = t div NANOS"

definition InviteCode_encode_url :: "invite_code \<Rightarrow> string" where
  "InviteCode_encode_url c = MESH_INVITE_SCHEME @ iv_network_id c @ CHR '':'' # iv_code c @ CHR '':'' # show_int (timestamp (iv_expires_at c))"

definition InviteCode_parse_url :: "(int \<Rightarrow> bool) \<Rightarrow> string \<Rightarrow> (validation_error, invite_code) result" where
  "InviteCode_parse_url ts_ok raw = (case str_strip_prefix MESH_INVITE_SCHEME raw of
     None \<Rightarrow> Inl (NotInviteUrl raw)
   | Some rest \<Rightarrow> (case split_once CHR '':'' rest of
       None \<Rightarrow> Inl (MissingCode raw)
     | Some (net_hex, rest1) \<Rightarrow> (case split_once CHR '':'' rest1 of
         None \<Rightarrow> Inl (MissingExpiry raw)
       | Some (code, expires_str) \<Rightarrow> (case MeshNetworkId_from_hex net_hex of
           Inl e \<Rightarrow> Inl e
         | Inr n \<Rightarrow> (case parse_i64 expires_str of
             None \<Rightarrow> Inl (InvalidTimestamp expires_str)
           | Some secs \<Rightarrow> if ts_ok secs then Inr \<lparr>iv_network_id = n, iv_code = code, iv_expires_at = secs * NANOS, iv_redeemed = False\<rparr>
               else Inl (TimestampOutOfRange secs))))))"

record invite_code_ref =
  ir_network_id :: mesh_network_id
  ir_code :: string

definition InviteCode_parse_url_ref :: "(int \<Rightarrow> bool) \<Rightarrow> string \<Rightarrow> (validation_error, invite_code_ref) result" where
  "InviteCode_parse_url_ref ts_ok raw = (case InviteCode_parse_url ts_ok raw of
     Inl e \<Rightarrow> Inl e | Inr c \<Rightarrow> Inr \<lparr>ir_network_id = iv_network_id c, ir_code = iv_code c\<rparr>)"

definition InviteCode_is_expired :: "invite_code \<Rightarrow> datetime \<Rightarrow> bool" where
  "InviteCode_is_expired c now = (iv_expires_at c \<le> now)"

definition is_redeemable :: "invite_code \<Rightarrow> datetime \<Rightarrow> bool" where
  "is_redeemable c now = (\<not> iv_redeemed c \<and> \<not> InviteCode_is_expired c now)"

section \<open>Addresses\<close>

lemma mesh_count: "unat MESH_IPV4_COUNT = 2 ^ 22"
  by (simp add: MESH_IPV4_COUNT_def MESH_IPV4_PREFIX_LEN_def push_bit_eq_mult)

lemma unat_u32_from_le_bytes: "length bs \<le> 4 \<Longrightarrow> unat (u32_from_le_bytes bs) = be_nat (rev bs)"
proof -
  assume "length bs \<le> 4"
  then have "(256 :: nat) ^ length bs \<le> 256 ^ 4" by (rule power_increasing) simp
  then have "be_nat (rev bs) < 2 ^ 32" using be_nat_bound [of "rev bs"] by simp
  then show ?thesis unfolding u32_from_le_bytes_def by (intro unat_of_nat_small) simp
qed

text \<open>Only the first two bytes of an identifier and six bits of the third reach its IPv4 address.\<close>

lemma unat_virtual_ipv4:
  assumes "VirtualIpv4_from_node_id hx i = Some a" and "hx i = Some bytes"
  shows "unat a = 0x64400000 + (unat (bytes ! 0) + 256 * unat (bytes ! 1) + 65536 * (unat (bytes ! 2) mod 64))"
proof -
  from assms have len: "4 \<le> length bytes"
    and a: "a = MESH_IPV4_BASE + u32_from_le_bytes (take 4 bytes) mod MESH_IPV4_COUNT"
    by (auto simp: VirtualIpv4_from_node_id_def split: if_splits)
  obtain b0 b1 b2 b3 bs where b: "bytes = b0 # b1 # b2 # b3 # bs"
    using len by (auto simp: numeral_eq_Suc Suc_le_length_iff)
  have lt: "unat b0 < 256" "unat b1 < 256" using unat_bound [of b0] unat_bound [of b1] by simp_all
  define q r where "q = unat b2 div 64" and "r = unat b2 mod 64"
  have b2: "unat b2 = 64 * q + r" by (simp add: q_def r_def)
  define off where "off = u32_from_le_bytes (take 4 bytes) mod MESH_IPV4_COUNT"
  have "unat off = (unat b0 + 256 * unat b1 + 65536 * unat b2 + 16777216 * unat b3) mod 4194304"
    by (simp add: off_def unat_mod_distrib unat_u32_from_le_bytes mesh_count b algebra_simps)
  also have "\<dots> = unat b0 + 256 * unat b1 + 65536 * (unat b2 mod 64)"
  proof -
    have "unat b0 + 256 * unat b1 + 65536 * unat b2 + 16777216 * unat b3 =
        (unat b0 + 256 * unat b1 + 65536 * (unat b2 mod 64)) + 4194304 * (unat b2 div 64 + 4 * unat b3)"
      by (simp only: q_def [symmetric] r_def [symmetric]) (simp add: b2)
    moreover have "unat b0 + 256 * unat b1 + 65536 * (unat b2 mod 64) < 4194304"
    proof -
      have "unat b2 mod 64 < 64" by simp
      with lt show ?thesis by linarith
    qed
    ultimately show ?thesis by (simp only: mod_mult_self2 mod_less)
  qed
  finally have off: "unat off = unat b0 + 256 * unat b1 + 65536 * (unat b2 mod 64)" .
  moreover have "unat b2 mod 64 < 64" by simp
  ultimately have "unat off < 4194304" using lt by linarith
  then have "unat a = 0x64400000 + unat off"
    by (simp add: a off_def [symmetric] MESH_IPV4_BASE_def unat_word_ariths)
  with off show ?thesis by (simp add: b)
qed

lemma radix_unique:
  assumes "a + 256 * b = a' + 256 * (b' :: nat)" and "a < 256" "a' < 256"
  shows "a = a' \<and> b = b'"
proof -
  from assms(1) have "(a + 256 * b) mod 256 = (a' + 256 * b') mod 256" by simp
  with assms(2,3) have "a = a'" by simp
  with assms(1) show ?thesis by simp
qed

lemma nibbles_unique:
  assumes "a + 256 * b + 65536 * c = a' + 256 * b' + 65536 * (c' :: nat)"
    and "a < 256" "b < 256" "a' < 256" "b' < 256"
  shows "a = a' \<and> b = b' \<and> c = c'"
proof -
  have "a + 256 * (b + 256 * c) = a' + 256 * (b' + 256 * c')" using assms(1) by simp
  then have "a = a'" and "b + 256 * c = b' + 256 * c'" using radix_unique assms(2,4) by blast+
  then show ?thesis using radix_unique assms(3,5) by blast
qed

lemma virtual_ipv4_in_range:
  assumes "VirtualIpv4_from_node_id hx i = Some a"
  shows "VirtualIpv4_from_std a = Some a"
proof -
  obtain bytes where "hx i = Some bytes" using assms by (auto simp: VirtualIpv4_from_node_id_def split: option.splits)
  note a = unat_virtual_ipv4 [OF assms this]
  have "unat (bytes ! 0) < 256" "unat (bytes ! 1) < 256" "unat (bytes ! 2) mod 64 < 64"
    using unat_bound [of "bytes ! 0"] unat_bound [of "bytes ! 1"] by simp_all
  with a have "0x64400000 \<le> unat a" "unat a < 0x64800000" by linarith+
  moreover have "MESH_IPV4_BASE + MESH_IPV4_COUNT = 0x64800000"
    by (simp add: MESH_IPV4_BASE_def MESH_IPV4_COUNT_def MESH_IPV4_PREFIX_LEN_def push_bit_eq_mult)
  ultimately show ?thesis
    by (simp only: VirtualIpv4_from_std_def) (simp add: MESH_IPV4_BASE_def word_le_nat_alt word_less_nat_alt)
qed

lemma virtual_ipv6_in_range:
  "VirtualIpv6_from_node_id hx i = Some b \<Longrightarrow> VirtualIpv6_from_std b = Some b \<and> length b = 16"
  by (auto simp: VirtualIpv6_from_node_id_def VirtualIpv6_from_std_def MESH_IPV6_PREFIX_BYTES_def split: option.splits if_splits)

text \<open>
  Two nodes share an IPv4 address exactly when their identifiers agree on 22 bits; the IPv6
  addresses agree when bytes 2 to 15 do.
\<close>

lemma virtual_ipv4_collision_iff:
  assumes "VirtualIpv4_from_node_id hx i = Some a" and "hx i = Some v"
    and "VirtualIpv4_from_node_id hx j = Some b" and "hx j = Some w"
  shows "a = b \<longleftrightarrow> v ! 0 = w ! 0 \<and> v ! 1 = w ! 1 \<and> unat (v ! 2) mod 64 = unat (w ! 2) mod 64"
proof
  have lt: "unat x < 256" for x :: u8 using unat_bound [of x] by simp
  assume "a = b"
  then have "unat (v ! 0) + 256 * unat (v ! 1) + 65536 * (unat (v ! 2) mod 64) =
      unat (w ! 0) + 256 * unat (w ! 1) + 65536 * (unat (w ! 2) mod 64)"
    using unat_virtual_ipv4 [OF assms(1,2)] unat_virtual_ipv4 [OF assms(3,4)] by simp
  from nibbles_unique [OF this lt lt lt lt]
  show "v ! 0 = w ! 0 \<and> v ! 1 = w ! 1 \<and> unat (v ! 2) mod 64 = unat (w ! 2) mod 64"
    by (auto intro: unsigned_word_eqI)
next
  assume "v ! 0 = w ! 0 \<and> v ! 1 = w ! 1 \<and> unat (v ! 2) mod 64 = unat (w ! 2) mod 64"
  then have "unat a = unat b" using unat_virtual_ipv4 [OF assms(1,2)] unat_virtual_ipv4 [OF assms(3,4)] by simp
  then show "a = b" by (rule unsigned_word_eqI)
qed

lemma virtual_ipv6_eq:
  assumes "VirtualIpv6_from_node_id hx i = Some a" and "hx i = Some v"
    and "VirtualIpv6_from_node_id hx j = Some b" and "hx j = Some w"
  shows "a = b \<longleftrightarrow> (\<forall>k<14. v ! (k + 2) = w ! (k + 2))"
  using assms by (auto simp: VirtualIpv6_from_node_id_def split: if_splits)

lemma show_nat_octet:
  assumes "v < 256"
  shows "parse_octet (show_nat v) = Some v"
proof -
  have short: "length (show_nat v) \<le> 3"
    using assms by (simp add: show_nat.simps [of v] show_nat.simps [of "v div 10"] show_nat.simps [of "v div 10 div 10"])
  have "hd (show_nat v) \<noteq> CHR ''0''" if "9 < v"
  proof -
    have d: "digit_char d \<noteq> CHR ''0''" if "0 < d" "d < 10" for d
      using of_char_digit_char [of d] that by auto
    show ?thesis
    proof (cases "v < 100")
      case True
      then have "0 < v div 10" "v div 10 < 10" using that by (simp_all add: div_greater_zero_iff less_mult_imp_div_less)
      then show ?thesis using that d [of "v div 10"] by (simp add: show_nat.simps [of v] show_nat.simps [of "v div 10"])
    next
      case False
      then have "\<not> v div 10 < 10" "0 < v div 10 div 10" "v div 10 div 10 < 10"
        using assms div_le_mono [of 100 v 10] div_le_mono [of v 255 10] div_le_mono [of 10 "v div 10" 10]
          div_le_mono [of "v div 10" 25 10] by linarith+
      then show ?thesis using assms that d [of "v div 10 div 10"]
        by (simp add: show_nat.simps [of v] show_nat.simps [of "v div 10"] show_nat.simps [of "v div 10 div 10"])
    qed
  qed
  moreover have "length (show_nat v) = 1" if "v \<le> 9" using that by (simp add: show_nat.simps [of v])
  ultimately have "\<not> (hd (show_nat v) = CHR ''0'' \<and> 1 < length (show_nat v))" by fastforce
  with assms short show ?thesis by (simp add: parse_octet_def digits_val_show_nat)
qed

lemma show_nat_no_dot: "CHR ''.'' \<notin> set (show_nat n)"
  using show_nat_chars digit_char_neq [of _ "CHR ''.''"] by force

lemma list_of_four: "length xs = 4 \<Longrightarrow> \<exists>a b c d. xs = [a, b, c, d]"
  by (auto simp: numeral_eq_Suc length_Suc_conv)

lemma ipv4_text_round_trip: "Ipv4Addr_parse (Ipv4Addr_display a) = Some a"
proof -
  obtain b0 b1 b2 b3 where b: "u32_to_be_bytes a = [b0, b1, b2, b3]"
    using list_of_four length_to_be_bytes(1) by metis
  have lt: "unat x < 256" for x :: u8 using unat_bound [of x] by simp
  have "split_on CHR ''.'' (Ipv4Addr_display a) = map show_nat (Ipv4Addr_octets a)"
    unfolding Ipv4Addr_display_def
    by (rule split_on_join) (auto simp: Ipv4Addr_octets_def b show_nat_no_dot)
  moreover have "be_nat [b0, b1, b2, b3] = unat a"
    using b be_nat_be_bytes [of "unat a" 4] unat_bound [of a] by (simp add: u32_to_be_bytes_def)
  ultimately show ?thesis
    by (simp add: Ipv4Addr_parse_def Ipv4Addr_octets_def b show_nat_octet lt del: be_nat.simps)
qed

theorem virtual_address_valid:
  assumes "VirtualIp_from_node_id hx i = Some vip"
  shows "VirtualIpv4_from_std (vi_ipv4 vip) = Some (vi_ipv4 vip) \<and> VirtualIpv6_from_std (vi_ipv6 vip) = Some (vi_ipv6 vip) \<and>
    VirtualIpv4_parse (Ipv4Addr_display (vi_ipv4 vip)) = Inr (vi_ipv4 vip)"
proof -
  have "VirtualIpv4_from_node_id hx i = Some (vi_ipv4 vip)" and "VirtualIpv6_from_node_id hx i = Some (vi_ipv6 vip)"
    using assms by (auto simp: VirtualIp_from_node_id_def split: option.splits)
  then show ?thesis
    by (simp add: VirtualIpv4_parse_def ipv4_text_round_trip virtual_ipv4_in_range virtual_ipv6_in_range)
qed

definition demo_hx :: hex_decoder where
  "demo_hx _ = Some ([1, 2, 3] @ replicate 29 4)"

definition demo_vip :: virtual_ip where
  "demo_vip = \<lparr>vi_ipv4 = 0x64430201, vi_ipv6 = [2, 0, 3] @ replicate 13 4\<rparr>"

lemma demo_vip_derived: "VirtualIp_from_node_id demo_hx i = Some demo_vip"
proof -
  have "MESH_IPV4_BASE + u32_from_le_bytes [1, 2, 3, 4] mod MESH_IPV4_COUNT = 0x64430201"
    by (simp add: u32_from_le_bytes_def MESH_IPV4_BASE_def MESH_IPV4_COUNT_def MESH_IPV4_PREFIX_LEN_def push_bit_eq_mult)
  moreover have "map (\<lambda>k. ([1, 2, 3] @ replicate 29 4 :: bytes) ! (k + 2)) [0..<14] = 3 # replicate 13 4"
    by (simp add: list_eq_iff_nth_eq nth_append nth_Cons' less_Suc_eq_0_disj)
  ultimately show ?thesis
    by (simp add: VirtualIp_from_node_id_def VirtualIpv4_from_node_id_def VirtualIpv6_from_node_id_def demo_hx_def demo_vip_def
        MESH_IPV6_PREFIX_BYTES_def)
qed

theorem virtual_address_valid_witness:
  "VirtualIpv4_from_std (vi_ipv4 demo_vip) = Some (vi_ipv4 demo_vip) \<and> VirtualIpv6_from_std (vi_ipv6 demo_vip) = Some (vi_ipv6 demo_vip) \<and>
   VirtualIpv4_parse (Ipv4Addr_display (vi_ipv4 demo_vip)) = Inr (vi_ipv4 demo_vip)"
  by (rule virtual_address_valid [OF demo_vip_derived])

section \<open>Invite URLs\<close>

lemma network_id_hex:
  "MeshNetworkId_from_hex n = Inr n \<Longrightarrow> length n = 64 \<and> list_all is_ascii_hexdigit n"
  by (auto simp: MeshNetworkId_from_hex_def MESH_NETWORK_ID_HEX_LEN_def MESH_NETWORK_ID_BYTES_def split: if_splits)

lemma hex_no_colon: "list_all is_ascii_hexdigit s \<Longrightarrow> CHR '':'' \<notin> set s"
  by (auto simp: list_all_iff is_ascii_hexdigit_def Let_def)

lemma hex_no_bar: "list_all is_ascii_hexdigit s \<Longrightarrow> CHR ''|'' \<notin> set s"
  by (auto simp: list_all_iff is_ascii_hexdigit_def Let_def)

lemma str_strip_prefix_append [simp]: "str_strip_prefix p (p @ s) = Some s"
  by (simp add: str_strip_prefix_def)

lemma network_url_round_trip: "MeshNetworkId_from_hex n = Inr n \<Longrightarrow> MeshNetworkId_parse_url (MeshNetworkId_encode_url n) = Inr n"
  by (simp add: MeshNetworkId_parse_url_def MeshNetworkId_encode_url_def)

text \<open>
  The URL of an invite carries its network and its code, and its expiry rounded down to the
  second; it never tells that the invite was redeemed.
\<close>

theorem invite_url_round_trip:
  assumes "MeshNetworkId_from_hex (iv_network_id c) = Inr (iv_network_id c)" and "CHR '':'' \<notin> set (iv_code c)"
    and "ts_ok (timestamp (iv_expires_at c))"
    and "- (2 ^ 63) \<le> timestamp (iv_expires_at c)" and "timestamp (iv_expires_at c) < 2 ^ 63"
  shows "InviteCode_parse_url ts_ok (InviteCode_encode_url c) =
    Inr (c\<lparr>iv_expires_at := iv_expires_at c - iv_expires_at c mod NANOS, iv_redeemed := False\<rparr>)"
proof -
  have "CHR '':'' \<notin> set (iv_network_id c)" using network_id_hex [OF assms(1)] by (simp add: hex_no_colon)
  then have "InviteCode_parse_url ts_ok (InviteCode_encode_url c) =
      Inr \<lparr>iv_network_id = iv_network_id c, iv_code = iv_code c, iv_expires_at = timestamp (iv_expires_at c) * NANOS, iv_redeemed = False\<rparr>"
    using assms by (simp add: InviteCode_parse_url_def InviteCode_encode_url_def split_once_append parse_show_int)
  moreover have "timestamp (iv_expires_at c) * NANOS = iv_expires_at c - iv_expires_at c mod NANOS"
    by (simp add: timestamp_def minus_mod_eq_div_mult)
  ultimately show ?thesis by simp
qed

section \<open>The signing preimage of a roster\<close>

definition signed_view :: "hex_decoder \<Rightarrow> mesh_member \<Rightarrow> bytes option \<times> string \<times> bool" where
  "signed_view hx m = (hx (me_node_id m), me_hostname m, me_is_coordinator m)"

lemma members_preimage_view:
  "map (signed_view hx) ms = map (signed_view hx) ms' \<Longrightarrow> members_preimage hx ms = members_preimage hx ms'"
proof (induction ms arbitrary: ms')
  case (Cons m ms)
  then obtain m' ms'' where "ms' = m' # ms''" "signed_view hx m = signed_view hx m'" "map (signed_view hx) ms = map (signed_view hx) ms''"
    by auto
  with Cons.IH [of ms''] show ?case
    by (auto simp: signed_view_def [of hx m] signed_view_def [of hx m'] split: option.splits)
qed simp

lemma bar_notin_bytes: "CHR ''|'' \<notin> set s \<Longrightarrow> bar \<notin> set (str_as_bytes s)"
proof
  assume "CHR ''|'' \<notin> set s" and "bar \<in> set (str_as_bytes s)"
  then obtain c where "c \<in> set s" and "str_as_bytes [c] = str_as_bytes ''|''"
    by (auto simp: str_as_bytes_def bar_def)
  then have "c = CHR ''|''" by (metis list.inject str_as_bytes_inj)
  with \<open>c \<in> set s\<close> \<open>CHR ''|'' \<notin> set s\<close> show False by simp
qed

lemma sep_cancel: "bar \<notin> set xs \<Longrightarrow> bar \<notin> set ys \<Longrightarrow> xs @ bar # r = ys @ bar # t \<Longrightarrow> xs = ys \<and> r = t"
proof (induction xs arbitrary: ys)
  case Nil
  then show ?case by (cases ys) auto
next
  case (Cons x xs)
  then show ?case by (cases ys) auto
qed

lemma members_preimage_inj:
  assumes "members_preimage hx ms = Some p" and "members_preimage hx ms' = Some p'" and "p @ r = p' @ r'" and "length ms = length ms'"
    and "\<And>m b. m \<in> set (ms @ ms') \<Longrightarrow> hx (me_node_id m) = Some b \<Longrightarrow> length b = 32"
    and "\<And>m. m \<in> set (ms @ ms') \<Longrightarrow> CHR ''|'' \<notin> set (me_hostname m)"
  shows "map (signed_view hx) ms = map (signed_view hx) ms'"
  using assms
proof (induction ms arbitrary: ms' p p')
  case (Cons m ms)
  obtain m' ns where ms': "ms' = m' # ns" using Cons.prems(4) by (cases ms') auto
  obtain i q where i: "hx (me_node_id m) = Some i" "members_preimage hx ms = Some q"
    and p: "p = i @ [bar] @ str_as_bytes (me_hostname m) @ [bar] @ [if me_is_coordinator m then 1 else 0] @ [bar] @ q"
    using Cons.prems(1) by (auto split: option.splits)
  obtain i' q' where i': "hx (me_node_id m') = Some i'" "members_preimage hx ns = Some q'"
    and p': "p' = i' @ [bar] @ str_as_bytes (me_hostname m') @ [bar] @ [if me_is_coordinator m' then 1 else 0] @ [bar] @ q'"
    using Cons.prems(2) unfolding ms' by (auto split: option.splits)
  have "length i = 32" "length i' = 32" using Cons.prems(5) i(1) i'(1) ms' by auto
  then have "i = i'" and eq: "str_as_bytes (me_hostname m) @ bar # (if me_is_coordinator m then 1 else 0) # bar # q @ r =
      str_as_bytes (me_hostname m') @ bar # (if me_is_coordinator m' then 1 else 0) # bar # q' @ r'"
    using Cons.prems(3) by (simp_all add: p p')
  have "bar \<notin> set (str_as_bytes (me_hostname m))" "bar \<notin> set (str_as_bytes (me_hostname m'))"
    using Cons.prems(6) ms' by (simp_all add: bar_notin_bytes)
  from sep_cancel [OF this eq]
  have h: "me_hostname m = me_hostname m'" and c: "me_is_coordinator m = me_is_coordinator m'" and rest: "q @ r = q' @ r'"
    by (auto split: if_splits)
  have "map (signed_view hx) ms = map (signed_view hx) ns"
    using Cons.IH [OF i(2) i'(2) rest] Cons.prems(4-6) ms' by auto
  with h c \<open>i = i'\<close> i(1) i'(1) ms' show ?case
    by (simp add: signed_view_def [of hx m] signed_view_def [of hx m'])
qed simp

text \<open>
  As long as no host name contains the separator, the signed bytes determine the version, the
  network and, for each member in order, the identity, the name and the coordinator flag.
\<close>

theorem roster_preimage_determines:
  assumes "signing_preimage hx r = Some p" and "signing_preimage hx r' = Some p"
    and "MeshNetworkId_from_hex (ro_network_id r) = Inr (ro_network_id r)"
    and "MeshNetworkId_from_hex (ro_network_id r') = Inr (ro_network_id r')"
    and "length (ro_members r) < 2 ^ 32" and "length (ro_members r') < 2 ^ 32"
    and "\<And>m b. m \<in> set (ro_members r @ ro_members r') \<Longrightarrow> hx (me_node_id m) = Some b \<Longrightarrow> length b = 32"
    and "\<And>m. m \<in> set (ro_members r @ ro_members r') \<Longrightarrow> CHR ''|'' \<notin> set (me_hostname m)"
  shows "ro_version r = ro_version r' \<and> ro_network_id r = ro_network_id r' \<and>
    map (signed_view hx) (ro_members r) = map (signed_view hx) (ro_members r')"
proof -
  obtain q where q: "members_preimage hx (ro_members r) = Some q"
    and p: "p = u64_to_be_bytes (ro_version r) @ str_as_bytes (ro_network_id r) @ [bar] @ u32_to_be_bytes (of_nat (length (ro_members r))) @ [bar] @ q"
    using assms(1) by (auto simp: signing_preimage_def)
  obtain q' where q': "members_preimage hx (ro_members r') = Some q'"
    and p': "p = u64_to_be_bytes (ro_version r') @ str_as_bytes (ro_network_id r') @ [bar] @ u32_to_be_bytes (of_nat (length (ro_members r'))) @ [bar] @ q'"
    using assms(2) by (auto simp: signing_preimage_def)
  have len: "length (str_as_bytes (ro_network_id r)) = length (str_as_bytes (ro_network_id r'))"
    using network_id_hex [OF assms(3)] network_id_hex [OF assms(4)] by (simp add: str_as_bytes_def)
  have v: "ro_version r = ro_version r'" and n: "ro_network_id r = ro_network_id r'"
    and c: "(of_nat (length (ro_members r)) :: u32) = of_nat (length (ro_members r'))" and qq: "q = q'"
    using p p' len by simp_all
  then have l: "length (ro_members r) = length (ro_members r')" using assms(5,6) by (simp add: of_nat_small_inj)
  have "map (signed_view hx) (ro_members r) = map (signed_view hx) (ro_members r')"
    by (rule members_preimage_inj [OF q q' _ l assms(7,8), where r = "[]" and r' = "[]"]) (simp_all add: qq)
  with v n show ?thesis by simp
qed

end
