(* ===== verification/Mesh_Coordinator.thy ===== *)
theory Mesh_Coordinator
  imports Mesh_Types
begin

text \<open>
  Admission to a mesh network: \<^verbatim>\<open>crates/a3net-mesh-coordinator/src/store.rs\<close> (the in-memory
  coordinator with its rosters, invite codes and join requests), \<^verbatim>\<open>error.rs\<close>, \<^verbatim>\<open>request.rs\<close> and
  \<^verbatim>\<open>roster_sign.rs\<close> (the signatures of rosters).

  An operation returns an optional result and the new coordinator: \<open>None\<close> is the panic of
  \<^verbatim>\<open>as_bytes\<close>, after which the changes made before it remain. The clock, the eight random bytes of an
  invite and the random identifier of a request are arguments; an operation reads the clock once.
  \<^verbatim>\<open>redeem\<close> holds its locks one after the other; \<open>redeem_claim\<close>, \<open>redeem_check\<close> and
  \<open>redeem_admit\<close> are its critical sections, which two calls may interleave. Ed25519 is a record of
  functions.
\<close>

section \<open>Requests, errors and configuration\<close>

type_synonym uuid = "128 word"

datatype join_request_status = Pending | Approved | Denied

fun status_display :: "join_request_status \<Rightarrow> string" where
  "status_display Pending = ''pending''"
| "status_display Approved = ''approved''"
| "status_display Denied = ''denied''"

record join_request =
  jr_id :: uuid
  jr_network :: mesh_network_id
  jr_node_id :: node_id
  jr_hostname :: string
  jr_requested_at :: datetime
  jr_status :: join_request_status
  jr_note :: string

datatype coordinator_error =
    UnknownInvite string
  | InviteExpired string
  | InviteAlreadyRedeemed string
  | UnknownRequest uuid
  | InvalidRequestState string string
  | HostnameTaken string string
  | AlreadyMember string string
  | UnknownMember string string
  | RosterFull nat
  | NetworkIsOpen
  | PeeringSelfLoop
  | UnknownPeeringGrant string
  | PeeringGrantIdReused string
  | PeeringSignatureInvalid string
  | PeeringUnknownCoordinator string
  | PeeringExpired string datetime
  | RosterSignatureInvalid string

definition MAX_INVITE_TTL :: duration where "MAX_INVITE_TTL = 7 * 24 * 3600 * 1000000000"
definition MAX_REQUESTS :: nat where "MAX_REQUESTS = 1024"
definition MAX_NOTE_LEN :: nat where "MAX_NOTE_LEN = 256"

record coordinator_config =
  cc_default_invite_ttl :: duration
  cc_max_requests :: nat
  cc_max_note_len :: nat

definition CoordinatorConfig_default :: coordinator_config where
  "CoordinatorConfig_default = \<lparr>cc_default_invite_ttl = 7 * 24 * 3600 * 1000000000, cc_max_requests = MAX_REQUESTS,
     cc_max_note_len = MAX_NOTE_LEN\<rparr>"

section \<open>The coordinator\<close>

record network_state =
  ns_display_name :: string
  ns_policy :: mesh_policy
  ns_roster :: mesh_membership

record coordinator =
  co_config :: coordinator_config
  co_networks :: "(mesh_network_id, network_state) hmap"
  co_invites :: "(mesh_network_id \<times> string, invite_code) hmap"
  co_pending :: "(uuid, join_request) hmap"
  co_resolved :: "(uuid, join_request) hmap"

type_synonym 'a outcome = "(coordinator_error, 'a) result option \<times> coordinator"

definition InMemoryCoordinator_new :: "coordinator_config \<Rightarrow> coordinator" where
  "InMemoryCoordinator_new cfg = \<lparr>co_config = cfg, co_networks = [], co_invites = [], co_pending = [], co_resolved = []\<rparr>"

definition network_missing :: coordinator_error where
  "network_missing = InvalidRequestState ''missing'' ''exists''"

definition check_host_available :: "mesh_network_id \<Rightarrow> string \<Rightarrow> coordinator \<Rightarrow> (coordinator_error, unit) result" where
  "check_host_available n hostname co = (case hm_get (co_networks co) n of
     None \<Rightarrow> Inl network_missing
   | Some st \<Rightarrow> if list_ex (\<lambda>m. me_hostname m = hostname) (ro_members (ns_roster st))
       then Inl (HostnameTaken hostname (ns_display_name st)) else Inr ())"

definition check_not_already_member :: "mesh_network_id \<Rightarrow> node_id \<Rightarrow> coordinator \<Rightarrow> (coordinator_error, unit) result" where
  "check_not_already_member n i co = (case hm_get (co_networks co) n of
     None \<Rightarrow> Inl network_missing
   | Some st \<Rightarrow> if list_ex (\<lambda>m. me_node_id m = i) (ro_members (ns_roster st))
       then Inl (AlreadyMember (NodeId_short i) (ns_display_name st)) else Inr ())"

definition Coordinator_create :: "hex_decoder \<Rightarrow> datetime \<Rightarrow> mesh_network_id \<Rightarrow> string \<Rightarrow> mesh_policy \<Rightarrow> node_id \<Rightarrow> coordinator \<Rightarrow> mesh_membership outcome" where
  "Coordinator_create hx now n display_name policy creator co =
     (if hm_contains (co_networks co) n then (Some (Inl (InvalidRequestState ''exists'' ''missing'')), co)
      else case new_coordinator hx now creator display_name of
        None \<Rightarrow> (None, co)
      | Some m \<Rightarrow> (let r0 = new_unsigned now n []; roster = bumped now (r0\<lparr>ro_members := ro_members r0 @ [m]\<rparr>)
          in (Some (Inr roster), co\<lparr>co_networks := hm_insert n \<lparr>ns_display_name = display_name, ns_policy = policy, ns_roster = roster\<rparr> (co_networks co)\<rparr>)))"

definition Coordinator_roster :: "mesh_network_id \<Rightarrow> coordinator \<Rightarrow> mesh_membership option" where
  "Coordinator_roster n co = map_option ns_roster (hm_get (co_networks co) n)"

definition mint_invite :: "hex_encoder \<Rightarrow> datetime \<Rightarrow> bytes \<Rightarrow> mesh_network_id \<Rightarrow> duration option \<Rightarrow> coordinator \<Rightarrow> invite_code outcome" where
  "mint_invite hex_encode now random n ttl_override co = (case hm_get (co_networks co) n of
     None \<Rightarrow> (Some (Inl network_missing), co)
   | Some st \<Rightarrow>
       if ns_policy st = Open then (Some (Inl NetworkIsOpen), co)
       else (let ttl = (case ttl_override of Some t \<Rightarrow> t | None \<Rightarrow> cc_default_invite_ttl (co_config co));
                 ttl = min ttl MAX_INVITE_TTL;
                 code = InviteCode_new hex_encode now random n ttl
             in (Some (Inr code), co\<lparr>co_invites := hm_insert (n, iv_code code) code (co_invites co)\<rparr>)))"

text \<open>The three critical sections of \<^verbatim>\<open>redeem\<close>, and \<^verbatim>\<open>redeem\<close> itself.\<close>

definition redeem_claim :: "datetime \<Rightarrow> mesh_network_id \<Rightarrow> string \<Rightarrow> coordinator \<Rightarrow> (coordinator_error, unit) result \<times> coordinator" where
  "redeem_claim now n code co = (case hm_get (co_invites co) (n, code) of
     None \<Rightarrow> (Inl (UnknownInvite code), co)
   | Some invite \<Rightarrow>
       if InviteCode_is_expired invite now then (Inl (InviteExpired code), co)
       else if iv_redeemed invite then (Inl (InviteAlreadyRedeemed code), co)
       else (Inr (), co\<lparr>co_invites := hm_insert (n, code) (invite\<lparr>iv_redeemed := True\<rparr>) (co_invites co)\<rparr>))"

definition redeem_check :: "mesh_network_id \<Rightarrow> node_id \<Rightarrow> string \<Rightarrow> coordinator \<Rightarrow> (coordinator_error, unit) result" where
  "redeem_check n i hostname co = (case check_host_available n hostname co of
     Inl e \<Rightarrow> Inl e | Inr _ \<Rightarrow> check_not_already_member n i co)"

definition admit_member :: "hex_decoder \<Rightarrow> datetime \<Rightarrow> mesh_network_id \<Rightarrow> node_id \<Rightarrow> string \<Rightarrow> coordinator \<Rightarrow> mesh_member outcome" where
  "admit_member hx now n i hostname co = (case hm_get (co_networks co) n of
     None \<Rightarrow> (Some (Inl network_missing), co)
   | Some st \<Rightarrow> (case new_member hx now i hostname of
       None \<Rightarrow> (None, co)
     | Some m \<Rightarrow> (let r = ns_roster st; roster = bumped now (r\<lparr>ro_members := ro_members r @ [m]\<rparr>)
         in (Some (Inr m), co\<lparr>co_networks := hm_insert n (st\<lparr>ns_roster := roster\<rparr>) (co_networks co)\<rparr>))))"

definition Coordinator_redeem :: "hex_decoder \<Rightarrow> datetime \<Rightarrow> mesh_network_id \<Rightarrow> string \<Rightarrow> node_id \<Rightarrow> string \<Rightarrow> coordinator \<Rightarrow> mesh_member outcome" where
  "Coordinator_redeem hx now n code i hostname co = (case redeem_claim now n code co of
     (Inl e, co1) \<Rightarrow> (Some (Inl e), co1)
   | (Inr _, co1) \<Rightarrow> (case redeem_check n i hostname co1 of
       Inl e \<Rightarrow> (Some (Inl e), co1)
     | Inr _ \<Rightarrow> admit_member hx now n i hostname co1))"

definition Coordinator_kick :: "datetime \<Rightarrow> mesh_network_id \<Rightarrow> node_id \<Rightarrow> coordinator \<Rightarrow> unit outcome" where
  "Coordinator_kick now n i co = (case hm_get (co_networks co) n of
     None \<Rightarrow> (Some (Inl network_missing), co)
   | Some st \<Rightarrow> (let r = ns_roster st; kept = filter (\<lambda>m. me_node_id m \<noteq> i) (ro_members r) in
       if length kept = length (ro_members r) then (Some (Inl (UnknownMember (NodeId_short i) (ns_display_name st))), co)
       else (Some (Inr ()), co\<lparr>co_networks := hm_insert n (st\<lparr>ns_roster := bumped now (r\<lparr>ro_members := kept\<rparr>)\<rparr>) (co_networks co)\<rparr>)))"

definition request_join :: "datetime \<Rightarrow> uuid \<Rightarrow> mesh_network_id \<Rightarrow> node_id \<Rightarrow> string \<Rightarrow> string \<Rightarrow> coordinator \<Rightarrow> uuid outcome" where
  "request_join now uid n i hostname note co =
     (if \<not> hm_contains (co_networks co) n then (Some (Inl network_missing), co)
      else if cc_max_note_len (co_config co) < length note
        then (Some (Inl (InvalidRequestState (''len '' @ show_nat (length note)) (''<= '' @ show_nat (cc_max_note_len (co_config co))))), co)
      else if cc_max_requests (co_config co) \<le> length (co_pending co) then (Some (Inl (RosterFull (cc_max_requests (co_config co)))), co)
      else (let req = \<lparr>jr_id = uid, jr_network = n, jr_node_id = i, jr_hostname = hostname, jr_requested_at = now,
                       jr_status = Pending, jr_note = note\<rparr>
            in (Some (Inr uid), co\<lparr>co_pending := hm_insert uid req (co_pending co)\<rparr>)))"

definition Coordinator_pending_requests :: "mesh_network_id \<Rightarrow> coordinator \<Rightarrow> join_request list" where
  "Coordinator_pending_requests n co = filter (\<lambda>r. jr_network r = n) (hm_values (co_pending co))"

definition accept_request :: "hex_decoder \<Rightarrow> datetime \<Rightarrow> mesh_network_id \<Rightarrow> uuid \<Rightarrow> coordinator \<Rightarrow> mesh_member outcome" where
  "accept_request hx now n uid co = (case hm_get (co_pending co) uid of
     None \<Rightarrow> (Some (Inl (UnknownRequest uid)), co)
   | Some req \<Rightarrow> (let rest = hm_remove uid (co_pending co) in
       if jr_network req \<noteq> n then (Some (Inl (InvalidRequestState ''wrong-network'' n)), co\<lparr>co_pending := hm_insert uid req rest\<rparr>)
       else if jr_status req \<noteq> Pending
         then (Some (Inl (InvalidRequestState (status_display (jr_status req)) (status_display Pending))), co\<lparr>co_pending := rest\<rparr>)
       else (case admit_member hx now n (jr_node_id req) (jr_hostname req) (co\<lparr>co_pending := rest\<rparr>) of
           (Some (Inr m), co2) \<Rightarrow> (Some (Inr m), co2\<lparr>co_resolved := hm_insert uid (req\<lparr>jr_status := Approved\<rparr>) (co_resolved co2)\<rparr>)
         | (r, co2) \<Rightarrow> (r, co2))))"

definition deny_request :: "mesh_network_id \<Rightarrow> uuid \<Rightarrow> coordinator \<Rightarrow> join_request outcome" where
  "deny_request n uid co = (case hm_get (co_pending co) uid of
     None \<Rightarrow> (Some (Inl (UnknownRequest uid)), co)
   | Some req \<Rightarrow> (let rest = hm_remove uid (co_pending co) in
       if jr_network req \<noteq> n then (Some (Inl (InvalidRequestState ''wrong-network'' n)), co\<lparr>co_pending := hm_insert uid req rest\<rparr>)
       else (let denied = req\<lparr>jr_status := Denied\<rparr>
             in (Some (Inr denied), co\<lparr>co_pending := rest, co_resolved := hm_insert uid denied (co_resolved co)\<rparr>))))"

record coordinator_snapshot =
  sn_networks :: "(mesh_network_id \<times> mesh_policy \<times> mesh_membership) list"
  sn_invites :: "(mesh_network_id \<times> invite_code) list"
  sn_pending :: "join_request list"
  sn_resolved :: "join_request list"

definition network_for :: "(mesh_network_id, network_state) hmap \<Rightarrow> mesh_network_id \<Rightarrow> mesh_network_id option" where
  "network_for nets target = (if hm_contains nets target then Some target else None)"

definition Coordinator_snapshot :: "coordinator \<Rightarrow> coordinator_snapshot" where
  "Coordinator_snapshot co = \<lparr>sn_networks = map (\<lambda>(n, s). (n, ns_policy s, ns_roster s)) (co_networks co),
     sn_invites = map (\<lambda>c. (case network_for (co_networks co) (iv_network_id c) of Some n \<Rightarrow> n | None \<Rightarrow> iv_network_id c, c)) (hm_values (co_invites co)),
     sn_pending = hm_values (co_pending co), sn_resolved = hm_values (co_resolved co)\<rparr>"

section \<open>Signatures of rosters\<close>

record ed25519 =
  ed_public :: "bytes \<Rightarrow> bytes"
  ed_sign :: "bytes \<Rightarrow> bytes \<Rightarrow> bytes"
  ed_key_ok :: "bytes \<Rightarrow> bool"
  ed_verify :: "bytes \<Rightarrow> bytes \<Rightarrow> bytes \<Rightarrow> bool"

definition RosterSigner_sign :: "ed25519 \<Rightarrow> hex_encoder \<Rightarrow> hex_decoder \<Rightarrow> bytes \<Rightarrow> mesh_membership \<Rightarrow> mesh_membership option" where
  "RosterSigner_sign ed hex_encode hx secret r =
     map_option (\<lambda>preimage. set_signature_hex (hex_encode (ed_sign ed secret preimage)) r) (signing_preimage hx r)"

definition RosterVerifier_verify :: "ed25519 \<Rightarrow> hex_decoder \<Rightarrow> mesh_membership \<Rightarrow> bytes \<Rightarrow> (coordinator_error, unit) result option" where
  "RosterVerifier_verify ed hx r pubkey =
     (if ro_signature r = [] then Some (Inl (RosterSignatureInvalid ''empty signature''))
      else if \<not> ed_key_ok ed pubkey then Some (Inl (RosterSignatureInvalid ''malformed pubkey''))
      else case hx (ro_signature r) of
        None \<Rightarrow> Some (Inl (RosterSignatureInvalid ''hex decode''))
      | Some sig_bytes \<Rightarrow> if length sig_bytes \<noteq> 64 then Some (Inl (RosterSignatureInvalid ''expected 64 bytes''))
          else (case signing_preimage hx r of
              None \<Rightarrow> None
            | Some preimage \<Rightarrow> Some (if ed_verify ed pubkey preimage sig_bytes then Inr () else Inl (RosterSignatureInvalid ''ed25519 verify''))))"

definition RosterVerifier_verify_roster :: "ed25519 \<Rightarrow> bytes \<Rightarrow> bytes \<Rightarrow> bool" where
  "RosterVerifier_verify_roster ed preimage signature =
     (if \<not> ed_key_ok ed (replicate 32 0) then False
      else if length signature \<noteq> 64 then False
      else ed_verify ed (replicate 32 0) preimage signature)"

section \<open>Runs of the coordinator\<close>

datatype coordinator_op =
    OpCreate datetime mesh_network_id string mesh_policy node_id
  | OpMint datetime bytes mesh_network_id "duration option"
  | OpRedeem datetime mesh_network_id string node_id string
  | OpKick datetime mesh_network_id node_id
  | OpRequest datetime uuid mesh_network_id node_id string string
  | OpAccept datetime mesh_network_id uuid
  | OpDeny mesh_network_id uuid

fun coordinator_step :: "hex_encoder \<Rightarrow> hex_decoder \<Rightarrow> coordinator_op \<Rightarrow> coordinator \<Rightarrow> coordinator" where
  "coordinator_step he hx (OpCreate now n name policy creator) co = snd (Coordinator_create hx now n name policy creator co)"
| "coordinator_step he hx (OpMint now random n ttl) co = snd (mint_invite he now random n ttl co)"
| "coordinator_step he hx (OpRedeem now n code i hostname) co = snd (Coordinator_redeem hx now n code i hostname co)"
| "coordinator_step he hx (OpKick now n i) co = snd (Coordinator_kick now n i co)"
| "coordinator_step he hx (OpRequest now uid n i hostname note) co = snd (request_join now uid n i hostname note co)"
| "coordinator_step he hx (OpAccept now n uid) co = snd (accept_request hx now n uid co)"
| "coordinator_step he hx (OpDeny n uid) co = snd (deny_request n uid co)"

definition network_ok :: "hex_decoder \<Rightarrow> mesh_network_id \<Rightarrow> network_state \<Rightarrow> bool" where
  "network_ok hx n st = (let r = ns_roster st in ro_network_id r = n \<and> 2 \<le> unat (ro_version r) \<and>
     list_all (\<lambda>m. VirtualIp_from_node_id hx (me_node_id m) = Some (me_virtual_ip m)) (ro_members r))"

definition invite_ok :: "(mesh_network_id, network_state) hmap \<Rightarrow> mesh_network_id \<times> string \<Rightarrow> invite_code \<Rightarrow> bool" where
  "invite_ok nets k c = (iv_network_id c = fst k \<and> iv_code c = snd k \<and> hm_contains nets (fst k))"

definition request_ok :: "coordinator_config \<Rightarrow> (mesh_network_id, network_state) hmap \<Rightarrow> uuid \<Rightarrow> join_request \<Rightarrow> bool" where
  "request_ok cfg nets uid r = (jr_id r = uid \<and> jr_status r = Pending \<and> hm_contains nets (jr_network r) \<and> length (jr_note r) \<le> cc_max_note_len cfg)"

definition coordinator_inv :: "hex_decoder \<Rightarrow> coordinator \<Rightarrow> bool" where
  "coordinator_inv hx co = (hm_wf (co_networks co) \<and> hm_wf (co_invites co) \<and> hm_wf (co_pending co) \<and> hm_wf (co_resolved co) \<and>
     length (co_pending co) \<le> cc_max_requests (co_config co) \<and>
     (\<forall>n st. hm_get (co_networks co) n = Some st \<longrightarrow> network_ok hx n st) \<and>
     (\<forall>k c. hm_get (co_invites co) k = Some c \<longrightarrow> invite_ok (co_networks co) k c) \<and>
     (\<forall>uid r. hm_get (co_pending co) uid = Some r \<longrightarrow> request_ok (co_config co) (co_networks co) uid r) \<and>
     (\<forall>uid r. hm_get (co_resolved co) uid = Some r \<longrightarrow> jr_id r = uid \<and> jr_status r \<noteq> Pending))"

lemma hm_contains_insert [simp]: "hm_contains (hm_insert k v m) k' \<longleftrightarrow> k' = k \<or> hm_contains m k'"
  by (simp add: hm_contains_def)

lemma hm_contains_get: "hm_get m k = Some v \<Longrightarrow> hm_contains m k"
  by (simp add: hm_contains_def)

lemma length_reinsert: "hm_wf m \<Longrightarrow> hm_get m k = Some v \<Longrightarrow> length (hm_insert k w (hm_remove k m)) = length m"
proof -
  assume wf: "hm_wf m" and k: "hm_get m k = Some v"
  then have "k \<in> fst ` set m" by (metis hm_contains_get hm_contains_iff)
  then show ?thesis using length_hm_remove [OF wf] by (simp add: length_hm_insert keys_hm_remove)
qed

lemma version_bumped: "unat (ro_version (bumped now r)) = min (Suc (unat (ro_version r))) (2 ^ 64 - 1)"
  by (simp add: bumped_def unat_sat_add64)

lemma bumped_fields [simp]: "ro_members (bumped now r) = ro_members r" "ro_network_id (bumped now r) = ro_network_id r"
  by (simp_all add: bumped_def)

lemma network_ok_bumped:
  assumes "network_ok hx n st" and "list_all (\<lambda>m. VirtualIp_from_node_id hx (me_node_id m) = Some (me_virtual_ip m)) ms"
  shows "network_ok hx n (st\<lparr>ns_roster := bumped now ((ns_roster st)\<lparr>ro_members := ms\<rparr>)\<rparr>)"
  using assms by (simp add: network_ok_def version_bumped Let_def)

lemma inv_put_network:
  assumes "coordinator_inv hx co" and "network_ok hx n st"
  shows "coordinator_inv hx (co\<lparr>co_networks := hm_insert n st (co_networks co)\<rparr>)"
  using assms by (auto simp: coordinator_inv_def invite_ok_def request_ok_def)

lemma inv_create: "coordinator_inv hx co \<Longrightarrow> coordinator_inv hx (snd (Coordinator_create hx now n name policy creator co))"
  by (auto simp: Coordinator_create_def new_coordinator_def new_unsigned_def Let_def network_ok_def version_bumped intro!: inv_put_network split: option.split)

lemma inv_mint: "coordinator_inv hx co \<Longrightarrow> coordinator_inv hx (snd (mint_invite he now random n ttl co))"
  by (auto simp: mint_invite_def Let_def coordinator_inv_def invite_ok_def InviteCode_new_def hm_contains_get split: option.split)

lemma inv_claim: "coordinator_inv hx co \<Longrightarrow> coordinator_inv hx (snd (redeem_claim now n code co))"
  by (auto simp: redeem_claim_def coordinator_inv_def invite_ok_def split: option.split)

lemma inv_admit_member: "coordinator_inv hx co \<Longrightarrow> coordinator_inv hx (snd (admit_member hx now n i hostname co))"
  by (auto simp: admit_member_def Let_def new_member_def intro!: inv_put_network network_ok_bumped split: option.split)
    (auto simp: coordinator_inv_def network_ok_def Let_def)

lemma redeem_cases:
  "snd (Coordinator_redeem hx now n code i hostname co) \<in>
    {snd (redeem_claim now n code co), snd (admit_member hx now n i hostname (snd (redeem_claim now n code co)))}"
  by (auto simp: Coordinator_redeem_def split: prod.split sum.split)

lemma inv_redeem: "coordinator_inv hx co \<Longrightarrow> coordinator_inv hx (snd (Coordinator_redeem hx now n code i hostname co))"
  using redeem_cases [of hx now n code i hostname co] inv_claim inv_admit_member by auto

lemma inv_kick: "coordinator_inv hx co \<Longrightarrow> coordinator_inv hx (snd (Coordinator_kick now n i co))"
  by (auto simp: Coordinator_kick_def Let_def intro!: inv_put_network network_ok_bumped split: option.split)
    (auto simp: coordinator_inv_def network_ok_def Let_def list_all_iff)

lemma inv_request: "coordinator_inv hx co \<Longrightarrow> coordinator_inv hx (snd (request_join now uid n i hostname note co))"
  by (auto simp: request_join_def Let_def coordinator_inv_def request_ok_def length_hm_insert not_less not_le)

lemma inv_unpend:
  assumes "coordinator_inv hx co"
  shows "coordinator_inv hx (co\<lparr>co_pending := hm_remove uid (co_pending co)\<rparr>)"
  using assms length_hm_remove_le [of uid "co_pending co"] by (auto simp: coordinator_inv_def)

lemma inv_repend:
  assumes "coordinator_inv hx co" and "hm_get (co_pending co) uid = Some r"
  shows "coordinator_inv hx (co\<lparr>co_pending := hm_insert uid r (hm_remove uid (co_pending co))\<rparr>)"
  using assms length_reinsert [of "co_pending co" uid r r] by (auto simp: coordinator_inv_def)

lemma inv_resolve:
  assumes "coordinator_inv hx co" and "jr_id r = uid" and "jr_status r \<noteq> Pending"
  shows "coordinator_inv hx (co\<lparr>co_resolved := hm_insert uid r (co_resolved co)\<rparr>)"
  using assms by (auto simp: coordinator_inv_def)

lemma inv_accept:
  assumes "coordinator_inv hx co"
  shows "coordinator_inv hx (snd (accept_request hx now n uid co))"
proof (cases "hm_get (co_pending co) uid")
  case None
  then show ?thesis using assms by (simp add: accept_request_def)
next
  case (Some req)
  then have "jr_id req = uid" using assms by (simp add: coordinator_inv_def request_ok_def)
  obtain r co2 where adm: "admit_member hx now n (jr_node_id req) (jr_hostname req) (co\<lparr>co_pending := hm_remove uid (co_pending co)\<rparr>) = (r, co2)" by fastforce
  then have "coordinator_inv hx co2" using inv_admit_member [OF inv_unpend [OF assms, of uid]] by (metis snd_conv)
  then show ?thesis
    using Some \<open>jr_id req = uid\<close> adm assms
    by (auto simp: accept_request_def Let_def inv_unpend inv_repend intro!: inv_resolve split: option.split sum.split)
qed

lemma inv_deny: "coordinator_inv hx co \<Longrightarrow> coordinator_inv hx (snd (deny_request n uid co))"
proof (cases "hm_get (co_pending co) uid")
  case (Some req)
  assume inv: "coordinator_inv hx co"
  then have "jr_id req = uid" using Some by (simp add: coordinator_inv_def request_ok_def)
  then show ?thesis using Some inv inv_resolve [OF inv_unpend [OF inv, of uid], of "req\<lparr>jr_status := Denied\<rparr>" uid]
    by (auto simp: deny_request_def Let_def inv_repend)
qed (simp add: deny_request_def)

lemmas inv_ops = inv_create inv_mint inv_redeem inv_kick inv_request inv_accept inv_deny

interpretation coordinator_machine: op_machine "\<lambda>co. \<exists>cfg. co = InMemoryCoordinator_new cfg" "coordinator_step he hx" "coordinator_inv hx"
proof
  show "\<exists>cfg. co = InMemoryCoordinator_new cfg \<Longrightarrow> coordinator_inv hx co" for co
    by (auto simp: InMemoryCoordinator_new_def coordinator_inv_def)
  show "coordinator_inv hx co \<Longrightarrow> coordinator_inv hx (coordinator_step he hx p co)" for co p
    by (cases p) (simp_all add: inv_ops)
qed

text \<open>
  C17. After every sequence of operations the tables have one entry per key, the queue of requests is
  bounded and holds pending requests of existing networks only, every invite is filed under its
  network and code, every roster belongs to its network, and the address in every member record is
  the one its identity derives.
\<close>

theorem coordinator_reachable: "coordinator_inv hx (fold (coordinator_step he hx) ps (InMemoryCoordinator_new cfg))"
  by (rule coordinator_machine.inv_run) blast

section \<open>Who is admitted\<close>

text \<open>\<open>admission p co n m\<close>: in state \<open>co\<close> the operation \<open>p\<close> is entitled to add \<open>m\<close> to network \<open>n\<close>.\<close>

fun admission :: "coordinator_op \<Rightarrow> coordinator \<Rightarrow> mesh_network_id \<Rightarrow> mesh_member \<Rightarrow> bool" where
  "admission (OpCreate now n' name policy creator) co n m =
     (n' = n \<and> \<not> hm_contains (co_networks co) n \<and> me_node_id m = creator \<and> me_is_coordinator m)"
| "admission (OpRedeem now n' code i hostname) co n m = (n' = n \<and> me_node_id m = i \<and> me_hostname m = hostname \<and> \<not> me_is_coordinator m \<and>
     (case hm_get (co_invites co) (n, code) of None \<Rightarrow> False | Some c \<Rightarrow> is_redeemable c now) \<and>
     redeem_check n i hostname co = Inr ())"
| "admission (OpAccept now n' uid) co n m = (n' = n \<and> \<not> me_is_coordinator m \<and>
     (case hm_get (co_pending co) uid of None \<Rightarrow> False
      | Some r \<Rightarrow> jr_network r = n \<and> jr_node_id r = me_node_id m \<and> jr_hostname r = me_hostname m))"
| "admission _ _ _ _ = False"

definition members_of :: "mesh_network_id \<Rightarrow> coordinator \<Rightarrow> mesh_member list" where
  "members_of n co = (case Coordinator_roster n co of None \<Rightarrow> [] | Some r \<Rightarrow> ro_members r)"

lemma members_of_get: "members_of n co = (case hm_get (co_networks co) n of None \<Rightarrow> [] | Some st \<Rightarrow> ro_members (ns_roster st))"
  by (simp add: members_of_def Coordinator_roster_def split: option.split)

lemma members_of_cong [simp]:
  "members_of n (co\<lparr>co_pending := x\<rparr>) = members_of n co" "members_of n (co\<lparr>co_resolved := y\<rparr>) = members_of n co"
  "members_of n (co\<lparr>co_invites := z\<rparr>) = members_of n co"
  by (simp_all add: members_of_def Coordinator_roster_def)

lemma claim_networks [simp]: "co_networks (snd (redeem_claim now n code co)) = co_networks co"
  by (simp add: redeem_claim_def split: option.split)

lemma claim_members [simp]: "members_of n (snd (redeem_claim now n' code co)) = members_of n co"
  by (simp add: redeem_claim_def split: option.split)

lemma claim_ok: "fst (redeem_claim now n code co) = Inr x \<longleftrightarrow>
    (case hm_get (co_invites co) (n, code) of None \<Rightarrow> False | Some c \<Rightarrow> is_redeemable c now)"
  by (auto simp: redeem_claim_def is_redeemable_def split: option.split)

lemma claim_check [simp]: "redeem_check n i hostname (snd (redeem_claim now n' code co)) = redeem_check n i hostname co"
  by (simp only: redeem_check_def check_host_available_def check_not_already_member_def claim_networks)

lemma members_admit:
  "members_of n (snd (admit_member hx now n' i hostname co)) =
    (if n' = n \<and> hm_contains (co_networks co) n then members_of n co @ (case new_member hx now i hostname of None \<Rightarrow> [] | Some m \<Rightarrow> [m]) else members_of n co)"
  by (auto simp: admit_member_def members_of_get hm_contains_def Let_def split: option.split)

lemma new_member_fields: "new_member hx now i hostname = Some m \<Longrightarrow> me_node_id m = i \<and> me_hostname m = hostname \<and> \<not> me_is_coordinator m"
  by (auto simp: new_member_def)

lemma redeem_result:
  "snd (Coordinator_redeem hx now n code i hostname co) =
    (if (\<exists>x. fst (redeem_claim now n code co) = Inr x) \<and> redeem_check n i hostname co = Inr ()
     then snd (admit_member hx now n i hostname (snd (redeem_claim now n code co))) else snd (redeem_claim now n code co))"
proof -
  obtain r co1 where c: "redeem_claim now n code co = (r, co1)" by fastforce
  then have k: "redeem_check n i hostname co1 = redeem_check n i hostname co" using claim_check by (metis snd_conv)
  show ?thesis using c k by (auto simp: Coordinator_redeem_def split: sum.split)
qed

lemma accept_members:
  assumes "m \<in> set (members_of n (snd (accept_request hx now n' uid co)))" and "m \<notin> set (members_of n co)"
  shows "admission (OpAccept now n' uid) co n m"
proof (cases "hm_get (co_pending co) uid")
  case None
  then show ?thesis using assms by (simp add: accept_request_def)
next
  case (Some req)
  obtain r co2 where adm: "admit_member hx now n' (jr_node_id req) (jr_hostname req) (co\<lparr>co_pending := hm_remove uid (co_pending co)\<rparr>) = (r, co2)" by fastforce
  have "jr_network req = n' \<and> m \<in> set (members_of n co2)"
    using assms Some adm by (auto simp: accept_request_def Let_def split: if_splits option.splits sum.splits)
  then show ?thesis using members_admit [of n hx now n' "jr_node_id req" "jr_hostname req" "co\<lparr>co_pending := hm_remove uid (co_pending co)\<rparr>"] adm assms(2) Some
    by (auto dest: new_member_fields split: if_splits option.splits)
qed

lemma step_admission:
  assumes "m \<in> set (members_of n (coordinator_step he hx p co))" and "m \<notin> set (members_of n co)"
  shows "admission p co n m"
proof (cases p)
  case (OpCreate now n' name policy creator)
  then show ?thesis using assms
    by (auto simp: Coordinator_create_def members_of_get new_coordinator_def new_unsigned_def Let_def split: if_splits option.splits)
next
  case (OpMint now random n' ttl)
  then show ?thesis using assms by (auto simp: mint_invite_def Let_def split: option.splits if_splits)
next
  case (OpRedeem now n' code i hostname)
  then show ?thesis using assms
    by (auto simp: redeem_result members_admit claim_ok dest: new_member_fields [OF sym] split: if_splits option.splits)
next
  case (OpKick now n' i)
  then show ?thesis using assms by (auto simp: Coordinator_kick_def members_of_get Let_def split: option.splits if_splits)
next
  case (OpRequest now uid n' i hostname nt)
  then show ?thesis using assms by (auto simp: request_join_def Let_def split: if_splits)
next
  case (OpAccept now n' uid)
  then show ?thesis using assms accept_members by auto
next
  case (OpDeny n' uid)
  then show ?thesis using assms by (auto simp: deny_request_def Let_def split: option.splits if_splits)
qed

text \<open>
  C11. Whoever is on a roster was put there by an earlier operation entitled to do so: the creation of
  the network, the redemption of an invite of that network that was neither expired nor used, with a
  name and an identity not yet on the roster, or the approval of a pending request of that network for that
  identity and name.
\<close>

theorem members_were_admitted:
  assumes "m \<in> set (members_of n (fold (coordinator_step he hx) ps (InMemoryCoordinator_new cfg)))"
  shows "\<exists>qs p rs. ps = qs @ p # rs \<and> admission p (fold (coordinator_step he hx) qs (InMemoryCoordinator_new cfg)) n m"
  using assms
proof (induction ps rule: rev_induct)
  case Nil
  then show ?case by (simp add: members_of_get InMemoryCoordinator_new_def)
next
  case (snoc p ps)
  let ?co = "fold (coordinator_step he hx) ps (InMemoryCoordinator_new cfg)"
  show ?case
  proof (cases "m \<in> set (members_of n ?co)")
    case True
    with snoc.IH obtain qs q rs where "ps = qs @ q # rs" and a: "admission q (fold (coordinator_step he hx) qs (InMemoryCoordinator_new cfg)) n m" by blast
    then have "ps @ [p] = qs @ q # (rs @ [p])" by simp
    with a show ?thesis by blast
  next
    case False
    with snoc.prems have "admission p ?co n m" using step_admission by auto
    then show ?thesis by (intro exI [of _ ps] exI [of _ p] exI [of _ "[]"]) simp
  qed
qed

definition demo_creator :: mesh_member where
  "demo_creator = \<lparr>me_node_id = ''i'', me_hostname = ''home'', me_virtual_ip = demo_vip, me_is_coordinator = True, me_admitted_at = 0\<rparr>"

theorem members_were_admitted_witness:
  "\<exists>qs p rs. [OpCreate 0 ''n'' ''home'' Closed ''i'', OpKick 1 ''n'' ''j''] = qs @ p # rs \<and>
    admission p (fold (coordinator_step (\<lambda>_. []) demo_hx) qs (InMemoryCoordinator_new CoordinatorConfig_default)) ''n'' demo_creator"
  by (rule members_were_admitted)
    (simp add: InMemoryCoordinator_new_def Coordinator_create_def Coordinator_kick_def members_of_get new_coordinator_def demo_vip_derived
      new_unsigned_def bumped_def demo_creator_def hm_contains_def Let_def)

section \<open>Invites are used once\<close>

fun redemptions :: "hex_encoder \<Rightarrow> hex_decoder \<Rightarrow> mesh_network_id \<Rightarrow> string \<Rightarrow> coordinator_op list \<Rightarrow> coordinator \<Rightarrow> nat" where
  "redemptions he hx n code [] co = 0"
| "redemptions he hx n code (p # ps) co = (case p of
     OpRedeem now n' code' i hostname \<Rightarrow>
       (if n' = n \<and> code' = code then case fst (Coordinator_redeem hx now n code i hostname co) of Some (Inr _) \<Rightarrow> 1 | _ \<Rightarrow> 0 else 0)
   | _ \<Rightarrow> 0) + redemptions he hx n code ps (coordinator_step he hx p co)"

fun minted :: "hex_encoder \<Rightarrow> mesh_network_id \<Rightarrow> string \<Rightarrow> coordinator_op \<Rightarrow> coordinator \<Rightarrow> nat" where
  "minted he n code (OpMint now random n' ttl) co =
     (case fst (mint_invite he now random n' ttl co) of Some (Inr invite) \<Rightarrow> if n' = n \<and> iv_code invite = code then 1 else 0 | _ \<Rightarrow> 0)"
| "minted he n code _ co = 0"

fun mints :: "hex_encoder \<Rightarrow> hex_decoder \<Rightarrow> mesh_network_id \<Rightarrow> string \<Rightarrow> coordinator_op list \<Rightarrow> coordinator \<Rightarrow> nat" where
  "mints he hx n code [] co = 0"
| "mints he hx n code (p # ps) co = minted he n code p co + mints he hx n code ps (coordinator_step he hx p co)"

definition unused :: "mesh_network_id \<Rightarrow> string \<Rightarrow> coordinator \<Rightarrow> nat" where
  "unused n code co = (case hm_get (co_invites co) (n, code) of None \<Rightarrow> 0 | Some c \<Rightarrow> if iv_redeemed c then 0 else 1)"

lemma unused_cong [simp]:
  "unused n code (co\<lparr>co_pending := x\<rparr>) = unused n code co" "unused n code (co\<lparr>co_resolved := y\<rparr>) = unused n code co"
  "unused n code (co\<lparr>co_networks := z\<rparr>) = unused n code co"
  by (simp_all add: unused_def)

lemma unused_admit [simp]: "unused n code (snd (admit_member hx now n' i hostname co)) = unused n code co"
  by (simp add: admit_member_def Let_def split: option.split)

lemma unused_le: "unused n code co \<le> 1"
  by (simp add: unused_def split: option.split)

lemma unused_redeem:
  "unused n code (snd (Coordinator_redeem hx now n' code' i hostname co)) +
    (if n' = n \<and> code' = code then case fst (Coordinator_redeem hx now n code i hostname co) of Some (Inr _) \<Rightarrow> 1 | _ \<Rightarrow> 0 else 0) \<le> unused n code co"
proof -
  have drop: "unused n code (snd (Coordinator_redeem hx now n' code' i hostname co)) = unused n code (snd (redeem_claim now n' code' co))"
    by (simp add: redeem_result)
  have "unused n code (snd (redeem_claim now n' code' co)) \<le> unused n code co"
    by (auto simp: redeem_claim_def unused_def split: option.split)
  moreover have "unused n code (snd (redeem_claim now n code co)) = 0 \<and> unused n code co = 1" if "fst (redeem_claim now n code co) = Inr x" for x
    using that by (auto simp: redeem_claim_def unused_def split: option.splits if_splits)
  moreover have "\<exists>x. fst (redeem_claim now n code co) = Inr x" if "fst (Coordinator_redeem hx now n code i hostname co) = Some (Inr m)" for m
    using that by (auto simp: Coordinator_redeem_def split: prod.splits sum.splits)
  ultimately show ?thesis unfolding drop by (fastforce split: option.split sum.split)
qed

lemma unused_step:
  assumes "\<And>now n' code' i hostname. p \<noteq> OpRedeem now n' code' i hostname"
  shows "unused n code (coordinator_step he hx p co) \<le>
    unused n code co + minted he n code p co"
proof (cases p)
  case (OpMint now random n' ttl)
  then show ?thesis by (auto simp: mint_invite_def unused_def InviteCode_new_def Let_def split: option.split)
next
  case (OpAccept now n' uid)
  have "unused n code (snd (accept_request hx now n' uid co)) = unused n code co"
  proof (cases "hm_get (co_pending co) uid")
    case (Some req)
    obtain r co2 where adm: "admit_member hx now n' (jr_node_id req) (jr_hostname req) (co\<lparr>co_pending := hm_remove uid (co_pending co)\<rparr>) = (r, co2)" by fastforce
    then have "unused n code co2 = unused n code co" using unused_admit unused_cong(1) by (metis snd_conv)
    then show ?thesis using Some adm by (auto simp: accept_request_def Let_def split: option.split sum.split)
  qed (simp add: accept_request_def)
  then show ?thesis by (simp add: OpAccept)
qed (use assms in \<open>auto simp: Coordinator_create_def Coordinator_kick_def request_join_def deny_request_def Let_def split: option.split\<close>)

lemma redemptions_bound: "redemptions he hx n code ps co \<le> unused n code co + mints he hx n code ps co"
proof (induction ps arbitrary: co)
  case (Cons p ps)
  show ?case
  proof (cases "\<exists>now n' code' i hostname. p = OpRedeem now n' code' i hostname")
    case True
    then obtain now n' code' i hostname where p: "p = OpRedeem now n' code' i hostname" by blast
    show ?thesis using Cons.IH [of "coordinator_step he hx p co"] unused_redeem [of n code hx now n' code' i hostname co]
      by (simp add: p)
  next
    case False
    then have "unused n code (coordinator_step he hx p co) \<le>
        unused n code co + minted he n code p co"
      by (intro unused_step) blast
    with Cons.IH [of "coordinator_step he hx p co"] False show ?thesis by (cases p) auto
  qed
qed simp

text \<open>
  C13. In every run a code of a network admits at most as many members as it was successfully minted: an invite is
  used once, however the operations are ordered and whenever they come.
\<close>

theorem invite_admits_once:
  "redemptions he hx n code ps (InMemoryCoordinator_new cfg) \<le> mints he hx n code ps (InMemoryCoordinator_new cfg)"
  using redemptions_bound [of he hx n code ps "InMemoryCoordinator_new cfg"] by (simp add: unused_def InMemoryCoordinator_new_def)

section \<open>Versions and uniqueness\<close>

lemma roster_networks: "Coordinator_roster n co = map_option ns_roster (hm_get (co_networks co) n)"
  by (simp add: Coordinator_roster_def)

lemma roster_cong [simp]:
  "Coordinator_roster n (co\<lparr>co_pending := x\<rparr>) = Coordinator_roster n co" "Coordinator_roster n (co\<lparr>co_resolved := y\<rparr>) = Coordinator_roster n co"
  "Coordinator_roster n (co\<lparr>co_invites := z\<rparr>) = Coordinator_roster n co"
  by (simp_all add: Coordinator_roster_def)

lemma roster_claim [simp]: "Coordinator_roster n (snd (redeem_claim now n' code co)) = Coordinator_roster n co"
  by (simp add: Coordinator_roster_def)

definition changes_roster :: "mesh_membership \<Rightarrow> mesh_membership \<Rightarrow> bool" where
  "changes_roster r r' = (r' = r \<or> unat (ro_version r') = min (Suc (unat (ro_version r))) (2 ^ 64 - 1))"

lemma changes_admit:
  assumes "Coordinator_roster n co = Some r"
  shows "\<exists>r'. Coordinator_roster n (snd (admit_member hx now n' i hostname co)) = Some r' \<and> changes_roster r r'"
  using assms by (auto simp: admit_member_def roster_networks changes_roster_def version_bumped Let_def split: option.split)

lemma changes_accept:
  assumes "Coordinator_roster n co = Some r"
  shows "\<exists>r'. Coordinator_roster n (snd (accept_request hx now n' uid co)) = Some r' \<and> changes_roster r r'"
proof (cases "hm_get (co_pending co) uid")
  case None
  then show ?thesis using assms by (simp add: accept_request_def changes_roster_def)
next
  case (Some req)
  obtain s co2 where adm: "admit_member hx now n' (jr_node_id req) (jr_hostname req) (co\<lparr>co_pending := hm_remove uid (co_pending co)\<rparr>) = (s, co2)" by fastforce
  then obtain r' where "Coordinator_roster n co2 = Some r'" "changes_roster r r'"
    using changes_admit [of n "co\<lparr>co_pending := hm_remove uid (co_pending co)\<rparr>" r hx now n' "jr_node_id req" "jr_hostname req"] assms by auto
  moreover have "changes_roster r r" by (simp add: changes_roster_def)
  ultimately show ?thesis using Some adm assms by (auto simp: accept_request_def Let_def split: option.split sum.split)
qed

text \<open>A network never disappears, and an operation that changes its roster raises its version by one until the version saturates.\<close>

lemma roster_version_grows:
  assumes "Coordinator_roster n co = Some r"
  shows "\<exists>r'. Coordinator_roster n (coordinator_step he hx p co) = Some r' \<and> changes_roster r r'"
proof (cases p)
  case (OpRedeem now n' code i hostname)
  then show ?thesis using assms changes_admit [of n "snd (redeem_claim now n' code co)" r] by (simp add: redeem_result changes_roster_def)
next
  case (OpAccept now n' uid)
  then show ?thesis using assms changes_accept by simp
next
  case (OpCreate now n' name policy creator)
  then show ?thesis using assms
    by (auto simp: Coordinator_create_def roster_networks changes_roster_def hm_contains_def Let_def split: option.splits)
next
  case (OpKick now n' i)
  then show ?thesis using assms by (auto simp: Coordinator_kick_def roster_networks changes_roster_def version_bumped Let_def split: option.split)
qed (use assms in \<open>auto simp: mint_invite_def request_join_def deny_request_def changes_roster_def Let_def split: option.split\<close>)

text \<open>Names and identities on a roster are unique as long as no request is approved: \<^verbatim>\<open>redeem\<close> checks both, \<^verbatim>\<open>accept_request\<close> neither.\<close>

fun is_accept :: "coordinator_op \<Rightarrow> bool" where
  "is_accept (OpAccept _ _ _) = True"
| "is_accept _ = False"

definition roster_unique :: "mesh_network_id \<Rightarrow> coordinator \<Rightarrow> bool" where
  "roster_unique n co = (distinct (map me_node_id (members_of n co)) \<and> distinct (map me_hostname (members_of n co)))"

lemma check_passed:
  "redeem_check n i hostname co = Inr () \<Longrightarrow> i \<notin> me_node_id ` set (members_of n co) \<and> hostname \<notin> me_hostname ` set (members_of n co)"
  by (auto simp: redeem_check_def check_host_available_def check_not_already_member_def members_of_get list_ex_iff split: option.splits if_splits sum.splits)

lemma unique_redeem:
  assumes "roster_unique n co"
  shows "roster_unique n (snd (Coordinator_redeem hx now n' code i hostname co))"
proof (cases "n' = n \<and> redeem_check n i hostname co = Inr ()")
  case True
  then have "i \<notin> me_node_id ` set (members_of n co)" "hostname \<notin> me_hostname ` set (members_of n co)"
    using check_passed [of n i hostname co] by simp_all
  then show ?thesis using assms
    by (auto simp: redeem_result roster_unique_def members_admit dest: new_member_fields split: option.split)
next
  case False
  then show ?thesis using assms by (auto simp: redeem_result roster_unique_def members_admit)
qed

lemma unique_step:
  assumes "roster_unique n co" and "\<not> is_accept p"
  shows "roster_unique n (coordinator_step he hx p co)"
proof (cases p)
  case (OpRedeem now n' code i hostname)
  then show ?thesis using assms unique_redeem by simp
next
  case (OpCreate now n' name policy creator)
  then show ?thesis using assms
    by (auto simp: Coordinator_create_def roster_unique_def members_of_get new_unsigned_def Let_def split: option.split)
next
  case (OpKick now n' i)
  then show ?thesis using assms
    by (auto simp: Coordinator_kick_def roster_unique_def members_of_get Let_def distinct_map_filter split: option.splits)
qed (use assms in \<open>auto simp: mint_invite_def request_join_def deny_request_def roster_unique_def Let_def split: option.split\<close>)

lemma unique_run: "roster_unique n co \<Longrightarrow> \<forall>p \<in> set ps. \<not> is_accept p \<Longrightarrow> roster_unique n (fold (coordinator_step he hx) ps co)"
  by (induction ps arbitrary: co) (simp_all add: unique_step)

lemma roster_unique_without_approvals:
  assumes "\<forall>p \<in> set ps. \<not> is_accept p"
  shows "roster_unique n (fold (coordinator_step he hx) ps (InMemoryCoordinator_new cfg))"
  using assms by (intro unique_run) (simp add: roster_unique_def members_of_get InMemoryCoordinator_new_def)

text \<open>An approved request puts a second entry on the roster, whatever the roster holds.\<close>

lemma approval_duplicates:
  assumes "hm_get (co_pending co) uid = Some req" and "jr_network req = n" and "jr_status req = Pending"
    and "hm_contains (co_networks co) n" and "new_member hx now (jr_node_id req) (jr_hostname req) = Some m"
  shows "members_of n (snd (accept_request hx now n uid co)) = members_of n co @ [m]"
proof -
  let ?co = "co\<lparr>co_pending := hm_remove uid (co_pending co)\<rparr>"
  obtain st where "hm_get (co_networks co) n = Some st" using assms(4) by (auto simp: hm_contains_def split: option.splits)
  then have "fst (admit_member hx now n (jr_node_id req) (jr_hostname req) ?co) = Some (Inr m)"
    using assms(5) by (simp add: admit_member_def Let_def)
  moreover have "members_of n (snd (admit_member hx now n (jr_node_id req) (jr_hostname req) ?co)) = members_of n co @ [m]"
    using assms(4,5) by (simp add: members_admit)
  ultimately show ?thesis using assms(1-3) by (auto simp: accept_request_def Let_def split: prod.split)
qed

text \<open>
  Two redemptions that run at the same time: each passes the checks before the other has changed the
  roster, and both join under one name.
\<close>

lemma racing_redemptions_share_name:
  assumes "redeem_check n i h co = Inr ()" and "redeem_check n j h co = Inr ()"
    and "fst (redeem_claim now n c1 co) = Inr ()" and "fst (redeem_claim now n c2 (snd (redeem_claim now n c1 co))) = Inr ()"
    and "new_member hx now i h = Some mi" and "new_member hx now j h = Some mj" and "hm_contains (co_networks co) n"
  shows "let co2 = snd (redeem_claim now n c2 (snd (redeem_claim now n c1 co))) in
    redeem_check n i h co2 = Inr () \<and> redeem_check n j h co2 = Inr () \<and>
    members_of n (snd (admit_member hx now n j h (snd (admit_member hx now n i h co2)))) = members_of n co @ [mi, mj]"
proof -
  have "hm_contains (co_networks (snd (admit_member hx now n i h x))) n" if "hm_contains (co_networks x) n" for x
    using that by (simp add: admit_member_def Let_def split: option.split)
  then show ?thesis using assms by (simp add: Let_def members_admit)
qed

text \<open>
  An invite is spent before the name and the identity are checked: after a refusal because the
  name is taken, the same code is refused for every other name, at every later time.
\<close>

theorem refused_redemption_spends_invite:
  assumes "hm_get (co_invites co) (n, code) = Some c" and "is_redeemable c now"
    and "m \<in> set (members_of n co)"
  shows "\<exists>name. fst (Coordinator_redeem hx now n code i (me_hostname m) co) = Some (Inl (HostnameTaken (me_hostname m) name)) \<and>
    fst (Coordinator_redeem hx now' n code j h (snd (Coordinator_redeem hx now n code i (me_hostname m) co))) =
      Some (Inl (if iv_expires_at c \<le> now' then InviteExpired code else InviteAlreadyRedeemed code))"
proof -
  obtain st where st: "hm_get (co_networks co) n = Some st" "m \<in> set (ro_members (ns_roster st))"
    using assms(3) by (cases "hm_get (co_networks co) n") (auto simp: members_of_get)
  let ?co1 = "co\<lparr>co_invites := hm_insert (n, code) (c\<lparr>iv_redeemed := True\<rparr>) (co_invites co)\<rparr>"
  have claim: "redeem_claim now n code co = (Inr (), ?co1)"
    using assms(1,2) by (simp add: redeem_claim_def is_redeemable_def)
  have check: "redeem_check n i (me_hostname m) ?co1 = Inl (HostnameTaken (me_hostname m) (ns_display_name st))"
    using st by (auto simp: redeem_check_def check_host_available_def list_ex_iff)
  have first: "Coordinator_redeem hx now n code i (me_hostname m) co = (Some (Inl (HostnameTaken (me_hostname m) (ns_display_name st))), ?co1)"
    by (simp add: Coordinator_redeem_def claim check)
  have "redeem_claim now' n code ?co1 = (Inl (if iv_expires_at c \<le> now' then InviteExpired code else InviteAlreadyRedeemed code), ?co1)"
    by (simp add: redeem_claim_def InviteCode_is_expired_def)
  then have "Coordinator_redeem hx now' n code j h ?co1 =
      (Some (Inl (if iv_expires_at c \<le> now' then InviteExpired code else InviteAlreadyRedeemed code)), ?co1)"
    by (simp add: Coordinator_redeem_def)
  then show ?thesis by (simp add: first)
qed

section \<open>Signed rosters\<close>

definition ed_crate :: "ed25519 \<Rightarrow> hex_encoder \<Rightarrow> hex_decoder \<Rightarrow> bool" where
  "ed_crate ed he hx \<longleftrightarrow> (\<forall>sk msg. length (ed_sign ed sk msg) = 64 \<and> ed_key_ok ed (ed_public ed sk) \<and> ed_verify ed (ed_public ed sk) msg (ed_sign ed sk msg)) \<and>
     (\<forall>b. hx (he b) = Some b) \<and> (\<forall>b. b \<noteq> [] \<longrightarrow> he b \<noteq> [])"

lemma verify_same_preimage:
  assumes "signing_preimage hx r = signing_preimage hx r'" and "ro_signature r = ro_signature r'"
  shows "RosterVerifier_verify ed hx r pk = RosterVerifier_verify ed hx r' pk"
  unfolding RosterVerifier_verify_def assms ..

lemma preimage_signature [simp]: "signing_preimage hx (r\<lparr>ro_signature := s\<rparr>) = signing_preimage hx r"
  by (simp add: signing_preimage_def)

lemma signed_roster_verifies:
  assumes "ed_crate ed he hx" and "RosterSigner_sign ed he hx sk r = Some s"
  shows "RosterVerifier_verify ed hx s (ed_public ed sk) = Some (Inr ())"
proof -
  obtain p where p: "signing_preimage hx r = Some p" and s: "s = r\<lparr>ro_signature := he (ed_sign ed sk p)\<rparr>"
    using assms(2) by (auto simp: RosterSigner_sign_def set_signature_hex_def)
  have "ed_sign ed sk p \<noteq> []" using assms(1) by (metis ed_crate_def list.size(3) zero_neq_numeral)
  then show ?thesis using assms(1) by (auto simp: RosterVerifier_verify_def s p ed_crate_def)
qed

text \<open>The addresses and times in a signed roster are not covered by its signature.\<close>

lemma address_not_signed:
  assumes "map (signed_view hx) ms = map (signed_view hx) (ro_members s)"
  shows "RosterVerifier_verify ed hx (s\<lparr>ro_members := ms, ro_published_at := t\<rparr>) pk = RosterVerifier_verify ed hx s pk"
proof -
  have "length ms = length (ro_members s)" using assms by (metis length_map)
  then show ?thesis
    by (intro verify_same_preimage) (simp_all add: signing_preimage_def members_preimage_view [OF assms])
qed

lemma embedded_member_preimage:
  assumes "hx (me_node_id m) = Some (str_as_bytes t)" and "hx (me_node_id e) = Some (str_as_bytes u)"
    and "me_hostname m = x @ ''|'' @ [if me_is_coordinator c then CHR 0x01 else CHR 0x00] @ ''|'' @ u @ ''|'' @ me_hostname e"
    and "me_is_coordinator e = me_is_coordinator m"
  shows "members_preimage hx [c\<lparr>me_hostname := me_hostname c @ ''|'' @ [if me_is_coordinator c then CHR 0x01 else CHR 0x00] @ ''|'' @ t @ ''|'' @ x\<rparr>, e] =
    members_preimage hx [c, m]"
  using assms by (cases "hx (me_node_id c)") (simp_all add: str_as_bytes_def bar_def)

text \<open>
  C15. A member chooses a host name with the separator in it, and the coordinator's signature over the
  roster becomes valid for a second roster, which admits an identity the coordinator never saw. The two identities are
  ASCII, so that the names are valid text.
\<close>

theorem host_name_forges_admission:
  assumes "ed_crate ed he hx" and "ro_members r = [c, m]" and "RosterSigner_sign ed he hx sk r = Some s"
    and "hx (me_node_id m) = Some (str_as_bytes t)" and "hx (me_node_id e) = Some (str_as_bytes u)"
    and "list_all (\<lambda>a. of_char a < (128 :: nat)) (t @ u)"
    and "me_hostname m = x @ ''|'' @ [if me_is_coordinator c then CHR 0x01 else CHR 0x00] @ ''|'' @ u @ ''|'' @ me_hostname e"
    and "me_is_coordinator e = me_is_coordinator m" and "me_node_id e \<notin> {me_node_id c, me_node_id m}"
  shows "\<exists>f. RosterVerifier_verify ed hx f (ed_public ed sk) = Some (Inr ()) \<and> ro_signature f = ro_signature s \<and>
    ro_version f = ro_version s \<and> member_lookup f (me_node_id e) = Some e \<and> member_lookup s (me_node_id e) = None"
proof -
  let ?c' = "c\<lparr>me_hostname := me_hostname c @ ''|'' @ [if me_is_coordinator c then CHR 0x01 else CHR 0x00] @ ''|'' @ t @ ''|'' @ x\<rparr>"
  obtain sg where s: "s = r\<lparr>ro_signature := sg\<rparr>"
    using assms(3) by (auto simp: RosterSigner_sign_def set_signature_hex_def)
  let ?f = "s\<lparr>ro_members := [?c', e]\<rparr>"
  have "members_preimage hx [?c', e] = members_preimage hx [c, m]"
    by (rule embedded_member_preimage [OF assms(4,5,7,8)])
  then have "signing_preimage hx ?f = signing_preimage hx s"
    using assms(2) by (simp add: s signing_preimage_def del: members_preimage.simps)
  then have "RosterVerifier_verify ed hx ?f (ed_public ed sk) = Some (Inr ())"
    using verify_same_preimage [of hx ?f s] signed_roster_verifies [OF assms(1,3)] by simp
  then show ?thesis using assms(2,9) by (intro exI [of _ ?f]) (auto simp: s member_lookup_def)
qed

definition demo_ed :: ed25519 where
  "demo_ed = \<lparr>ed_public = (\<lambda>sk. sk), ed_sign = (\<lambda>_ _. replicate 64 7), ed_key_ok = (\<lambda>_. True), ed_verify = (\<lambda>_ _ _. True)\<rparr>"

lemma demo_hex_round_trip: "demo_hex_decode (demo_hex_encode b) = Some b"
proof -
  have "hex_crate demo_crypto" by (rule demo_hex_crate)
  then have lower: "list_all is_lower_hex (demo_hex_encode b)" and
    dec: "map to_ascii_lowercase_char (demo_hex_encode b) = demo_hex_encode b \<Longrightarrow> demo_hex_decode (demo_hex_encode b) = Some b"
    by (auto simp: hex_crate_def demo_crypto_def)
  have "map to_ascii_lowercase_char (demo_hex_encode b) = demo_hex_encode b"
    using lower by (intro map_idI) (auto simp: list_all_iff is_lower_hex_def to_ascii_lowercase_char_def Let_def)
  then show ?thesis by (rule dec)
qed

lemma demo_ed_crate: "ed_crate demo_ed demo_hex_encode demo_hex_decode"
  by (auto simp: ed_crate_def demo_ed_def demo_hex_round_trip) (auto simp: demo_hex_encode_def)

definition demo_id :: "char \<Rightarrow> node_id" where
  "demo_id a = demo_hex_encode (str_as_bytes (replicate 32 a))"

definition demo_person :: "char \<Rightarrow> string \<Rightarrow> bool \<Rightarrow> mesh_member" where
  "demo_person a h b = \<lparr>me_node_id = demo_id a, me_hostname = h, me_virtual_ip = demo_vip, me_is_coordinator = b, me_admitted_at = 0\<rparr>"

definition demo_roster :: mesh_membership where
  "demo_roster = new_unsigned 0 (replicate 64 CHR ''0'')
     [demo_person CHR ''c'' ''home'' True, demo_person CHR ''m'' (''x|'' @ [CHR 0x01] @ ''|'' @ replicate 32 CHR ''e'' @ ''|y'') False]"

lemma demo_id_decodes: "demo_hex_decode (demo_id a) = Some (str_as_bytes (replicate 32 a))"
  by (simp add: demo_id_def demo_hex_round_trip)

lemma demo_id_inj: "demo_id a = demo_id b \<longleftrightarrow> a = b"
proof
  assume "demo_id a = demo_id b"
  then have "Some (str_as_bytes (replicate 32 a)) = Some (str_as_bytes (replicate 32 b))" by (metis demo_id_decodes)
  then show "a = b" by (simp add: replicate_eq_replicate)
qed simp

theorem host_name_forges_admission_witness:
  "\<exists>s f. RosterSigner_sign demo_ed demo_hex_encode demo_hex_decode [] demo_roster = Some s \<and>
    RosterVerifier_verify demo_ed demo_hex_decode f (ed_public demo_ed []) = Some (Inr ()) \<and> ro_signature f = ro_signature s \<and>
    ro_version f = ro_version s \<and> member_lookup f (demo_id CHR ''e'') = Some (demo_person CHR ''e'' ''y'' False) \<and> member_lookup s (demo_id CHR ''e'') = None"
proof -
  obtain s where s: "RosterSigner_sign demo_ed demo_hex_encode demo_hex_decode [] demo_roster = Some s"
    by (simp add: RosterSigner_sign_def signing_preimage_def demo_roster_def new_unsigned_def demo_person_def demo_id_decodes)
  show ?thesis
    using host_name_forges_admission [OF demo_ed_crate _ s, of "demo_person CHR ''c'' ''home'' True"
        "demo_person CHR ''m'' (''x|'' @ [CHR 0x01] @ ''|'' @ replicate 32 CHR ''e'' @ ''|y'') False" "replicate 32 CHR ''m''"
        "demo_person CHR ''e'' ''y'' False" "replicate 32 CHR ''e''" "''x''"] s
    by (simp add: demo_roster_def new_unsigned_def demo_person_def demo_id_decodes demo_id_inj list_all_iff)
qed

text \<open>The verifier behind the trait uses the all-zero key, whoever the coordinator is.\<close>

lemma trait_verifier_ignores_coordinator:
  assumes "ed_crate ed he hx" and "RosterSigner_sign ed he hx sk r = Some s"
    and "\<And>msg. \<not> ed_verify ed (replicate 32 0) msg (ed_sign ed sk msg)"
  shows "verify_roster_signature hx (RosterVerifier_verify_roster ed) s = Some False \<and>
    RosterVerifier_verify ed hx s (ed_public ed sk) = Some (Inr ())"
proof -
  obtain p where p: "signing_preimage hx r = Some p" and s: "s = r\<lparr>ro_signature := he (ed_sign ed sk p)\<rparr>"
    using assms(2) by (auto simp: RosterSigner_sign_def set_signature_hex_def)
  show ?thesis using assms(1,3) signed_roster_verifies [OF assms(1,2)]
    by (auto simp: verify_roster_signature_def RosterVerifier_verify_roster_def s p ed_crate_def)
qed

end
