(* ===== verification/Mesh_Peering.thy ===== *)
theory Mesh_Peering
  imports Mesh_Coordinator
begin

text \<open>
  Peering between meshes: \<^verbatim>\<open>crates/a3net-mesh-coordinator/src/peering.rs\<close> (grants and their store)
  and \<^verbatim>\<open>peering_sign.rs\<close> (their signatures). The \<^verbatim>\<open>serde_json\<close> text of the signed fields is the
  argument \<open>json\<close> and \<^verbatim>\<open>BLAKE3\<close> the argument \<open>blake\<close>. \<^verbatim>\<open>issue\<close> looks the identifier up under a
  read lock and inserts under a write lock; \<open>issue_lookup\<close> and \<open>issue_insert\<close> are the two sections.
\<close>

section \<open>Grants\<close>

definition MAX_PEERING_TTL :: duration where "MAX_PEERING_TTL = 30 * 24 * 3600 * 1000000000"

datatype peering_direction = Bidirectional | SourceToTarget

fun direction_allows :: "peering_direction \<Rightarrow> bool \<Rightarrow> bool" where
  "direction_allows Bidirectional source_to_target = True"
| "direction_allows SourceToTarget source_to_target = source_to_target"

record peering_grant =
  pg_grant_id :: string
  pg_source :: mesh_network_id
  pg_target :: mesh_network_id
  pg_grantor :: node_id
  pg_direction :: peering_direction
  pg_cost :: u8
  pg_valid_until :: datetime
  pg_created_at :: datetime
  pg_signature :: string

definition default_cost :: u8 where "default_cost = 1"

definition PeeringGrant_new_unsigned ::
  "datetime \<Rightarrow> string \<Rightarrow> mesh_network_id \<Rightarrow> mesh_network_id \<Rightarrow> node_id \<Rightarrow> duration \<Rightarrow> (coordinator_error, peering_grant) result" where
  "PeeringGrant_new_unsigned now uid source target grantor ttl =
     (if source = target then Inl PeeringSelfLoop
      else let ttl = min ttl MAX_PEERING_TTL in
        Inr \<lparr>pg_grant_id = uid, pg_source = source, pg_target = target, pg_grantor = grantor, pg_direction = Bidirectional,
          pg_cost = default_cost, pg_valid_until = now + int ttl, pg_created_at = now, pg_signature = []\<rparr>)"

record canonical_peering_grant =
  cp_grant_id :: string
  cp_source :: mesh_network_id
  cp_target :: mesh_network_id
  cp_grantor :: node_id
  cp_direction :: peering_direction
  cp_cost :: u8
  cp_valid_until :: datetime

definition canonical_grant :: "peering_grant \<Rightarrow> canonical_peering_grant" where
  "canonical_grant g = \<lparr>cp_grant_id = pg_grant_id g, cp_source = pg_source g, cp_target = pg_target g, cp_grantor = pg_grantor g,
     cp_direction = pg_direction g, cp_cost = pg_cost g, cp_valid_until = pg_valid_until g\<rparr>"

definition PeeringGrant_signing_preimage :: "(canonical_peering_grant \<Rightarrow> bytes) \<Rightarrow> peering_grant \<Rightarrow> bytes" where
  "PeeringGrant_signing_preimage json g = json (canonical_grant g) @ [0]"

definition PeeringGrant_signing_digest :: "(canonical_peering_grant \<Rightarrow> bytes) \<Rightarrow> (bytes \<Rightarrow> bytes) \<Rightarrow> peering_grant \<Rightarrow> bytes" where
  "PeeringGrant_signing_digest json blake g = blake (PeeringGrant_signing_preimage json g)"

definition PeeringGrant_is_expired :: "peering_grant \<Rightarrow> datetime \<Rightarrow> bool" where
  "PeeringGrant_is_expired g now = (pg_valid_until g \<le> now)"

definition with_signature :: "string \<Rightarrow> peering_grant \<Rightarrow> peering_grant" where
  "with_signature s g = g\<lparr>pg_signature := s\<rparr>"

definition permits_direction :: "peering_grant \<Rightarrow> bool \<Rightarrow> bool" where
  "permits_direction g source_to_target = direction_allows (pg_direction g) source_to_target"

section \<open>The store of grants\<close>

type_synonym peerings = "(string, peering_grant) hmap"

definition issue_lookup :: "peering_grant \<Rightarrow> peerings \<Rightarrow> (coordinator_error, peering_grant option) result" where
  "issue_lookup g ps = (if pg_source g = pg_target g then Inl PeeringSelfLoop
     else case hm_get ps (pg_grant_id g) of
       Some existing \<Rightarrow> if existing \<noteq> g then Inl (PeeringGrantIdReused (pg_grant_id g)) else Inr (Some existing)
     | None \<Rightarrow> Inr None)"

definition issue_insert :: "peering_grant \<Rightarrow> peerings \<Rightarrow> peerings" where
  "issue_insert g ps = hm_insert (pg_grant_id g) g ps"

definition Peerings_issue :: "peering_grant \<Rightarrow> peerings \<Rightarrow> (coordinator_error, peering_grant) result \<times> peerings" where
  "Peerings_issue g ps = (case issue_lookup g ps of
     Inl e \<Rightarrow> (Inl e, ps)
   | Inr (Some existing) \<Rightarrow> (Inr existing, ps)
   | Inr None \<Rightarrow> (Inr g, issue_insert g ps))"

definition attach_signature :: "string \<Rightarrow> string \<Rightarrow> peerings \<Rightarrow> (coordinator_error, peering_grant) result \<times> peerings" where
  "attach_signature grant_id signature ps = (case hm_get ps grant_id of
     None \<Rightarrow> (Inl (UnknownPeeringGrant grant_id), ps)
   | Some g \<Rightarrow> (let g' = g\<lparr>pg_signature := signature\<rparr> in (Inr g', hm_insert grant_id g' ps)))"

definition list_live :: "datetime \<Rightarrow> peerings \<Rightarrow> peering_grant list" where
  "list_live now ps = filter (\<lambda>g. \<not> PeeringGrant_is_expired g now) (hm_values ps)"

definition Peerings_get :: "peerings \<Rightarrow> string \<Rightarrow> peering_grant option" where
  "Peerings_get ps grant_id = hm_get ps grant_id"

definition Peerings_revoke :: "string \<Rightarrow> peerings \<Rightarrow> peerings" where
  "Peerings_revoke grant_id ps = hm_remove grant_id ps"

definition Peerings_snapshot :: "datetime \<Rightarrow> peerings \<Rightarrow> peering_grant list" where
  "Peerings_snapshot now ps = list_live now ps"

section \<open>Signatures\<close>

definition PeeringGrantSigner_sign ::
  "ed25519 \<Rightarrow> hex_encoder \<Rightarrow> (canonical_peering_grant \<Rightarrow> bytes) \<Rightarrow> (bytes \<Rightarrow> bytes) \<Rightarrow> bytes \<Rightarrow> peering_grant \<Rightarrow> peering_grant" where
  "PeeringGrantSigner_sign ed hex_encode json blake secret g =
     g\<lparr>pg_signature := hex_encode (ed_sign ed secret (PeeringGrant_signing_digest json blake g))\<rparr>"

definition PeeringGrantVerifier_verify ::
  "ed25519 \<Rightarrow> hex_decoder \<Rightarrow> (canonical_peering_grant \<Rightarrow> bytes) \<Rightarrow> (bytes \<Rightarrow> bytes) \<Rightarrow> peering_grant \<Rightarrow> (mesh_network_id \<Rightarrow> bytes option) \<Rightarrow> datetime
    \<Rightarrow> (coordinator_error, unit) result" where
  "PeeringGrantVerifier_verify ed hx json blake g pubkey_for now =
     (if pg_source g = pg_target g then Inl PeeringSelfLoop
      else if pg_signature g = [] then Inl (PeeringSignatureInvalid ''empty signature'')
      else if PeeringGrant_is_expired g now then Inl (PeeringExpired (pg_grant_id g) (pg_valid_until g))
      else case hx (pg_signature g) of
        None \<Rightarrow> Inl (PeeringSignatureInvalid ''hex decode'')
      | Some sig_bytes \<Rightarrow> if length sig_bytes \<noteq> 64 then Inl (PeeringSignatureInvalid ''expected 64 bytes'')
          else (case pubkey_for (pg_source g) of
              None \<Rightarrow> Inl (PeeringUnknownCoordinator (pg_source g))
            | Some expected_pubkey \<Rightarrow>
                if \<not> ed_key_ok ed expected_pubkey then Inl (PeeringSignatureInvalid ''malformed pubkey'')
                else if ed_verify ed expected_pubkey (PeeringGrant_signing_digest json blake g) sig_bytes then Inr ()
                else Inl (PeeringSignatureInvalid ''ed25519 verify'')))"

type_synonym static_pubkey_registry = "(mesh_network_id, bytes) hmap"

definition registry_register :: "mesh_network_id \<Rightarrow> bytes \<Rightarrow> static_pubkey_registry \<Rightarrow> static_pubkey_registry" where
  "registry_register n pubkey reg = hm_insert n pubkey reg"

definition registry_pubkey_for :: "static_pubkey_registry \<Rightarrow> mesh_network_id \<Rightarrow> bytes option" where
  "registry_pubkey_for reg n = hm_get reg n"

section \<open>The store keeps its grants\<close>

definition peerings_inv :: "peerings \<Rightarrow> bool" where
  "peerings_inv ps = (hm_wf ps \<and> (\<forall>k g. hm_get ps k = Some g \<longrightarrow> pg_grant_id g = k \<and> pg_source g \<noteq> pg_target g))"

datatype peerings_op = OpIssue peering_grant | OpAttach string string | OpRevoke string

fun peerings_step :: "peerings_op \<Rightarrow> peerings \<Rightarrow> peerings" where
  "peerings_step (OpIssue g) ps = snd (Peerings_issue g ps)"
| "peerings_step (OpAttach i s) ps = snd (attach_signature i s ps)"
| "peerings_step (OpRevoke i) ps = Peerings_revoke i ps"

lemma inv_issue: "peerings_inv ps \<Longrightarrow> peerings_inv (snd (Peerings_issue g ps))"
  by (auto simp: Peerings_issue_def issue_lookup_def issue_insert_def peerings_inv_def split: option.split)

lemma inv_attach: "peerings_inv ps \<Longrightarrow> peerings_inv (snd (attach_signature i s ps))"
  by (auto simp: attach_signature_def peerings_inv_def Let_def split: option.split)

lemma inv_revoke: "peerings_inv ps \<Longrightarrow> peerings_inv (Peerings_revoke i ps)"
  by (auto simp: Peerings_revoke_def peerings_inv_def split: if_splits)

interpretation peerings_machine: op_machine "\<lambda>ps. ps = []" peerings_step peerings_inv
proof
  show "ps = [] \<Longrightarrow> peerings_inv ps" for ps by (simp add: peerings_inv_def)
  show "peerings_inv ps \<Longrightarrow> peerings_inv (peerings_step p ps)" for ps p
    by (cases p) (simp_all add: inv_issue inv_attach inv_revoke)
qed

interpretation peerings_table: keyed_table Peerings_get Peerings_revoke peerings_inv
proof
  show "peerings_inv ps \<Longrightarrow> peerings_inv (Peerings_revoke k ps)" for ps k by (rule inv_revoke)
  show "Peerings_get (Peerings_revoke k ps) k' = (if k' = k then None else Peerings_get ps k')" for ps k k'
    by (simp add: Peerings_get_def Peerings_revoke_def)
qed

lemma live_grants:
  assumes "peerings_inv ps"
  shows "g \<in> set (list_live now ps) \<longleftrightarrow> Peerings_get ps (pg_grant_id g) = Some g \<and> now < pg_valid_until g"
proof -
  have wf: "hm_wf ps" using assms by (simp add: peerings_inv_def)
  have "g \<in> snd ` set ps \<longleftrightarrow> hm_get ps (pg_grant_id g) = Some g"
  proof
    assume "g \<in> snd ` set ps"
    then obtain k where "hm_get ps k = Some g" using hm_set_eq_get [OF wf] by force
    moreover then have "pg_grant_id g = k" using assms by (simp add: peerings_inv_def)
    ultimately show "hm_get ps (pg_grant_id g) = Some g" by simp
  next
    assume "hm_get ps (pg_grant_id g) = Some g"
    then show "g \<in> snd ` set ps" by (metis map_of_SomeD in_valuesI)
  qed
  then show ?thesis by (auto simp: list_live_def hm_values_def PeeringGrant_is_expired_def Peerings_get_def)
qed

text \<open>Two issues of one identifier that run at the same time both succeed, and the second grant replaces the first.\<close>

lemma racing_issues_overwrite:
  assumes "pg_grant_id g = pg_grant_id g'" and "pg_source g \<noteq> pg_target g" and "pg_source g' \<noteq> pg_target g'"
    and "hm_get ps (pg_grant_id g) = None"
  shows "issue_lookup g ps = Inr None \<and> issue_lookup g' ps = Inr None \<and>
    Peerings_get (issue_insert g' (issue_insert g ps)) (pg_grant_id g) = Some g'"
  using assms by (simp add: issue_lookup_def issue_insert_def Peerings_get_def)

section \<open>Which grants are accepted\<close>

lemma digest_ignores:
  "PeeringGrant_signing_digest json blake (g\<lparr>pg_signature := s, pg_created_at := t\<rparr>) = PeeringGrant_signing_digest json blake g"
  by (simp add: PeeringGrant_signing_digest_def PeeringGrant_signing_preimage_def canonical_grant_def)

lemma verify_grant_iff:
  "PeeringGrantVerifier_verify ed hx json blake g pubkey_for now = Inr () \<longleftrightarrow>
    pg_source g \<noteq> pg_target g \<and> now < pg_valid_until g \<and> pg_signature g \<noteq> [] \<and>
    (\<exists>sig pk. hx (pg_signature g) = Some sig \<and> length sig = 64 \<and> pubkey_for (pg_source g) = Some pk \<and> ed_key_ok ed pk \<and>
      ed_verify ed pk (PeeringGrant_signing_digest json blake g) sig)"
  by (auto simp: PeeringGrantVerifier_verify_def PeeringGrant_is_expired_def split: option.splits)

text \<open>
  A grant made by a coordinator lasts at most thirty days, and signed with the key registered for
  the source mesh it is accepted exactly until it expires, whenever it is published again; the key of the
  target mesh is never asked for.
\<close>

theorem signed_grant_accepted_until_expiry:
  assumes "ed_crate ed he hx" and "PeeringGrant_new_unsigned t uid source target grantor ttl = Inr g"
    and "pubkey_for source = Some (ed_public ed sk)"
  shows "pg_valid_until g \<le> t + int MAX_PEERING_TTL \<and>
    (PeeringGrantVerifier_verify ed hx json blake (PeeringGrantSigner_sign ed he json blake sk g\<lparr>pg_created_at := t'\<rparr>) pubkey_for now = Inr ()
      \<longleftrightarrow> now < pg_valid_until g) \<and>
    PeeringGrantVerifier_verify ed hx json blake (PeeringGrantSigner_sign ed he json blake sk g) (pubkey_for(target := k)) now =
      PeeringGrantVerifier_verify ed hx json blake (PeeringGrantSigner_sign ed he json blake sk g) pubkey_for now"
proof -
  from assms(2) have ne: "source \<noteq> target" and g: "pg_source g = source" "pg_target g = target"
    and u: "pg_valid_until g = t + int (min ttl MAX_PEERING_TTL)"
    by (auto simp: PeeringGrant_new_unsigned_def Let_def split: if_splits)
  let ?d = "PeeringGrant_signing_digest json blake g"
  have "ed_sign ed sk ?d \<noteq> []" using assms(1) by (metis ed_crate_def list.size(3) zero_neq_numeral)
  then have sig: "he (ed_sign ed sk ?d) \<noteq> []" "hx (he (ed_sign ed sk ?d)) = Some (ed_sign ed sk ?d)" "length (ed_sign ed sk ?d) = 64"
    "ed_key_ok ed (ed_public ed sk)" "ed_verify ed (ed_public ed sk) ?d (ed_sign ed sk ?d)"
    using assms(1) by (simp_all add: ed_crate_def)
  have "PeeringGrant_signing_digest json blake (PeeringGrantSigner_sign ed he json blake sk g\<lparr>pg_created_at := t'\<rparr>) = ?d"
    by (simp add: PeeringGrantSigner_sign_def digest_ignores)
  then have "PeeringGrantVerifier_verify ed hx json blake (PeeringGrantSigner_sign ed he json blake sk g\<lparr>pg_created_at := t'\<rparr>) pubkey_for now = Inr ()
      \<longleftrightarrow> now < pg_valid_until g"
    unfolding verify_grant_iff by (simp add: PeeringGrantSigner_sign_def g ne sig assms(3))
  moreover have key: "(pubkey_for(target := k)) (pg_source (PeeringGrantSigner_sign ed he json blake sk g)) =
      pubkey_for (pg_source (PeeringGrantSigner_sign ed he json blake sk g))"
    by (simp add: PeeringGrantSigner_sign_def g ne)
  have "PeeringGrantVerifier_verify ed hx json blake (PeeringGrantSigner_sign ed he json blake sk g) (pubkey_for(target := k)) now =
      PeeringGrantVerifier_verify ed hx json blake (PeeringGrantSigner_sign ed he json blake sk g) pubkey_for now"
    unfolding PeeringGrantVerifier_verify_def key ..
  ultimately show ?thesis by (simp add: u)
qed

theorem signed_grant_accepted_until_expiry_witness:
  "\<exists>g. PeeringGrant_new_unsigned 0 ''id'' ''a'' ''b'' ''n'' 60 = Inr g \<and>
    PeeringGrantVerifier_verify demo_ed demo_hex_decode (\<lambda>_. []) (\<lambda>b. b)
      (PeeringGrantSigner_sign demo_ed demo_hex_encode (\<lambda>_. []) (\<lambda>b. b) [1] g\<lparr>pg_created_at := 5\<rparr>) [''a'' \<mapsto> [1]] 59 = Inr () \<and>
    PeeringGrantVerifier_verify demo_ed demo_hex_decode (\<lambda>_. []) (\<lambda>b. b)
      (PeeringGrantSigner_sign demo_ed demo_hex_encode (\<lambda>_. []) (\<lambda>b. b) [1] g\<lparr>pg_created_at := 5\<rparr>) [''a'' \<mapsto> [1]] 60 \<noteq> Inr ()"
proof -
  obtain g where g: "PeeringGrant_new_unsigned 0 ''id'' ''a'' ''b'' ''n'' 60 = Inr g" and u: "pg_valid_until g = 60"
    by (simp add: PeeringGrant_new_unsigned_def Let_def MAX_PEERING_TTL_def)
  have key: "[''a'' \<mapsto> [1]] ''a'' = Some (ed_public demo_ed [1])" by (simp add: demo_ed_def)
  show ?thesis
    using signed_grant_accepted_until_expiry [OF demo_ed_crate g, where pubkey_for = "[''a'' \<mapsto> [1]]" and sk = "[1]" and json = "\<lambda>_. []" and blake = "\<lambda>b. b" and t' = 5 and now = 59]
      signed_grant_accepted_until_expiry [OF demo_ed_crate g, where pubkey_for = "[''a'' \<mapsto> [1]]" and sk = "[1]" and json = "\<lambda>_. []" and blake = "\<lambda>b. b" and t' = 5 and now = 60] g u key by auto
qed

text \<open>
  The text of the module lets the coordinator of the target sign. Such a grant is refused, as soon as its
  signature does not happen to be one of the source's key.
\<close>

lemma target_signed_grant_refused:
  assumes "pubkey_for (pg_source g) = Some pk" and "hx (he (ed_sign ed sk (PeeringGrant_signing_digest json blake g))) = Some sig"
    and "\<not> ed_verify ed pk (PeeringGrant_signing_digest json blake g) sig"
  shows "PeeringGrantVerifier_verify ed hx json blake (PeeringGrantSigner_sign ed he json blake sk g) pubkey_for now \<noteq> Inr ()"
proof
  let ?s = "PeeringGrantSigner_sign ed he json blake sk g"
  assume "PeeringGrantVerifier_verify ed hx json blake ?s pubkey_for now = Inr ()"
  then obtain sg where "hx (pg_signature ?s) = Some sg" "ed_verify ed pk (PeeringGrant_signing_digest json blake ?s) sg"
    using assms(1) by (auto simp: verify_grant_iff PeeringGrantSigner_sign_def)
  moreover have "PeeringGrant_signing_digest json blake ?s = PeeringGrant_signing_digest json blake g"
    by (simp add: PeeringGrantSigner_sign_def PeeringGrant_signing_digest_def PeeringGrant_signing_preimage_def canonical_grant_def)
  ultimately show False using assms(2,3) by (simp add: PeeringGrantSigner_sign_def)
qed

end
