(* ===== verification/Exit_Transit.thy ===== *)
theory Exit_Transit
  imports Mesh_Peering
begin

text \<open>
  Forwarding between meshes: \<^verbatim>\<open>crates/a3net-exit-node/src/transit.rs\<close> (the decision of a transit node and
  the path table) and \<^verbatim>\<open>transit_gossip.rs\<close> (the topology fed by peering grants). The router reads its topology
  through the trait \<^verbatim>\<open>TransitTopology\<close>, here the function \<open>hops_to\<close>; the locale \<open>topology_source\<close> states what
  the router needs of it. The clock is an argument, as are the functions of \<open>Mesh_Peering\<close>. The text of an error
  the verifier never returns is left out.
\<close>

section \<open>The path table\<close>

record transit_hop =
  th_via_network :: mesh_network_id
  th_next_hop :: node_id
  th_cost :: u8

type_synonym path_table = "(mesh_network_id, transit_hop list) hmap"

record topology_state =
  ts_paths :: path_table
  ts_peered :: "mesh_network_id list"

definition StaticTopology_new :: topology_state where
  "StaticTopology_new = \<lparr>ts_paths = [], ts_peered = []\<rparr>"

definition set_paths :: "path_table \<Rightarrow> topology_state \<Rightarrow> topology_state" where
  "set_paths paths ts = ts\<lparr>ts_paths := paths, ts_peered := map fst (filter (\<lambda>(net, hops). list_ex (\<lambda>h. th_cost h = 1) hops) paths)\<rparr>"

definition paths_table :: "topology_state \<Rightarrow> path_table" where
  "paths_table ts = ts_paths ts"

definition StaticTopology_hops_to :: "topology_state \<Rightarrow> mesh_network_id \<Rightarrow> transit_hop list" where
  "StaticTopology_hops_to ts target = (case hm_get (ts_paths ts) target of Some hops \<Rightarrow> hops | None \<Rightarrow> [])"

definition StaticTopology_peered_networks :: "topology_state \<Rightarrow> mesh_network_id list" where
  "StaticTopology_peered_networks ts = ts_peered ts"

section \<open>The decision\<close>

datatype transit_capability = Permissive | Strict "node_id list"

fun capability_permits :: "transit_capability \<Rightarrow> node_id \<Rightarrow> bool" where
  "capability_permits Permissive source = True"
| "capability_permits (Strict allowlist) source = list_ex (\<lambda>n. n = source) allowlist"

datatype transit_decision = TransitLocal | TransitForward mesh_network_id node_id u8 | TransitDrop string

definition MeshNetworkId_short :: "mesh_network_id \<Rightarrow> string" where
  "MeshNetworkId_short n = take (min 12 (length n)) n"

record transit_config =
  tc_local_network :: mesh_network_id
  tc_capability :: transit_capability

definition TransitConfig_permissive :: "mesh_network_id \<Rightarrow> transit_config" where
  "TransitConfig_permissive n = \<lparr>tc_local_network = n, tc_capability = Permissive\<rparr>"

definition TransitRouter_decide ::
  "transit_config \<Rightarrow> (mesh_network_id \<Rightarrow> transit_hop list) \<Rightarrow> node_id \<Rightarrow> mesh_network_id \<Rightarrow> mesh_network_id \<Rightarrow> transit_decision" where
  "TransitRouter_decide cfg hops_to source source_network target_network =
     (if target_network = tc_local_network cfg then TransitLocal
      else if \<not> capability_permits (tc_capability cfg) source
        then TransitDrop (''source '' @ NodeId_short source @ '' not in strict allowlist'')
      else (let hops = hops_to target_network in
        if hops = [] then TransitDrop (''no known path to target network '' @ MeshNetworkId_short target_network)
        else (let best = hd (sort_key th_cost hops) in
          if th_cost best = 0 then TransitDrop ''topology returned cost=0 (reserved)''
          else TransitForward (th_via_network best) (th_next_hop best) (th_cost best))))"

record transit_snapshot =
  tn_local_network :: mesh_network_id
  tn_capability :: transit_capability
  tn_peered_networks :: "mesh_network_id list"

definition TransitRouter_snapshot :: "transit_config \<Rightarrow> mesh_network_id list \<Rightarrow> transit_snapshot" where
  "TransitRouter_snapshot cfg peered = \<lparr>tn_local_network = tc_local_network cfg, tn_capability = tc_capability cfg, tn_peered_networks = peered\<rparr>"

section \<open>The topology fed by grants\<close>

record applied_grant =
  ag_grant_id :: string
  ag_valid_until :: datetime
  ag_hops :: "(mesh_network_id \<times> transit_hop) list"

record federated_topology =
  ft_inner :: topology_state
  ft_applied :: "applied_grant list"
  ft_local_node :: node_id
  ft_local_network :: mesh_network_id

datatype gossip_apply_error =
    GossipSelfLoop
  | GossipUnsigned
  | GossipExpired string datetime
  | GossipSignatureInvalid string
  | GossipUnknownCoordinator string

record peering_revocation =
  pr_grant_id :: string
  pr_source :: mesh_network_id
  pr_signature :: string

definition GossipFederatedTopology_new :: "node_id \<Rightarrow> mesh_network_id \<Rightarrow> federated_topology" where
  "GossipFederatedTopology_new i n = \<lparr>ft_inner = StaticTopology_new, ft_applied = [], ft_local_node = i, ft_local_network = n\<rparr>"

definition same_hop :: "transit_hop \<Rightarrow> transit_hop \<Rightarrow> bool" where
  "same_hop h h' = (th_next_hop h = th_next_hop h' \<and> th_via_network h = th_via_network h')"

fun revoke_hops :: "(mesh_network_id \<times> transit_hop) list \<Rightarrow> path_table \<Rightarrow> path_table" where
  "revoke_hops [] paths = paths"
| "revoke_hops ((target, hop) # hs) paths = revoke_hops hs (case hm_get paths target of
     None \<Rightarrow> paths
   | Some list \<Rightarrow> hm_insert target (filter (\<lambda>h. \<not> same_hop h hop) list) paths)"

fun revoke_loop :: "string \<Rightarrow> applied_grant list \<Rightarrow> path_table \<Rightarrow> applied_grant list \<times> path_table" where
  "revoke_loop i [] paths = ([], paths)"
| "revoke_loop i (e # es) paths =
     (if ag_grant_id e = i then revoke_loop i es (revoke_hops (ag_hops e) paths)
      else let (kept, paths') = revoke_loop i es paths in (e # kept, paths'))"

definition observe_revocation :: "peering_revocation \<Rightarrow> federated_topology \<Rightarrow> federated_topology" where
  "observe_revocation rv ft = (let (kept, paths) = revoke_loop (pr_grant_id rv) (ft_applied ft) (paths_table (ft_inner ft));
     paths = hm_retain (\<lambda>_ v. v \<noteq> []) paths
     in ft\<lparr>ft_applied := kept, ft_inner := set_paths paths (ft_inner ft)\<rparr>)"

definition grant_hops :: "peering_grant \<Rightarrow> (mesh_network_id \<times> transit_hop) list" where
  "grant_hops g = (let next_hop = pg_grantor g;
       forward = \<lparr>th_via_network = pg_source g, th_next_hop = next_hop, th_cost = pg_cost g\<rparr>;
       backward = \<lparr>th_via_network = pg_target g, th_next_hop = next_hop, th_cost = pg_cost g\<rparr>
     in (pg_target g, forward) # (if direction_allows (pg_direction g) False then [(pg_source g, backward)] else []))"

fun install_hops :: "(mesh_network_id \<times> transit_hop) list \<Rightarrow> path_table \<Rightarrow> path_table" where
  "install_hops [] paths = paths"
| "install_hops ((target, hop) # hs) paths =
     (let entry = (case hm_get paths target of Some l \<Rightarrow> l | None \<Rightarrow> [])
      in install_hops hs (hm_insert target (if list_ex (\<lambda>h. same_hop h hop) entry then entry else entry @ [hop]) paths))"

definition apply_grant :: "peering_grant \<Rightarrow> federated_topology \<Rightarrow> federated_topology" where
  "apply_grant g ft = (let
       ft = (if list_ex (\<lambda>a. ag_grant_id a = pg_grant_id g) (ft_applied ft)
             then observe_revocation \<lparr>pr_grant_id = pg_grant_id g, pr_source = pg_source g, pr_signature = []\<rparr> ft else ft);
       hops = grant_hops g
     in ft\<lparr>ft_inner := set_paths (install_hops hops (paths_table (ft_inner ft))) (ft_inner ft),
           ft_applied := ft_applied ft @ [\<lparr>ag_grant_id = pg_grant_id g, ag_valid_until = pg_valid_until g, ag_hops = hops\<rparr>]\<rparr>)"

definition observe_grant_at :: "peering_grant \<Rightarrow> datetime \<Rightarrow> federated_topology \<Rightarrow> (gossip_apply_error, unit) result \<times> federated_topology" where
  "observe_grant_at g now ft =
     (if pg_source g = pg_target g then (Inl GossipSelfLoop, ft)
      else if pg_signature g = [] then (Inl GossipUnsigned, ft)
      else if PeeringGrant_is_expired g now then (Inl (GossipExpired (pg_grant_id g) (pg_valid_until g)), ft)
      else (Inr (), apply_grant g ft))"

fun map_verify_error :: "coordinator_error \<Rightarrow> gossip_apply_error" where
  "map_verify_error PeeringSelfLoop = GossipSelfLoop"
| "map_verify_error (PeeringSignatureInvalid s) = GossipSignatureInvalid s"
| "map_verify_error (PeeringUnknownCoordinator s) = GossipUnknownCoordinator s"
| "map_verify_error (PeeringExpired i t) = GossipExpired i t"
| "map_verify_error _ = GossipSignatureInvalid []"

definition observe_grant_verified ::
  "ed25519 \<Rightarrow> hex_decoder \<Rightarrow> (canonical_peering_grant \<Rightarrow> bytes) \<Rightarrow> (bytes \<Rightarrow> bytes) \<Rightarrow> datetime \<Rightarrow> peering_grant \<Rightarrow> (mesh_network_id \<Rightarrow> bytes option)
    \<Rightarrow> federated_topology \<Rightarrow> (gossip_apply_error, unit) result \<times> federated_topology" where
  "observe_grant_verified ed hx json blake now g pubkey_for ft = (case PeeringGrantVerifier_verify ed hx json blake g pubkey_for now of
     Inl e \<Rightarrow> (Inl (map_verify_error e), ft)
   | Inr _ \<Rightarrow> (Inr (), apply_grant g ft))"

fun collect_paths :: "(mesh_network_id \<times> transit_hop) list \<Rightarrow> path_table \<Rightarrow> path_table" where
  "collect_paths [] paths = paths"
| "collect_paths ((target, hop) # hs) paths =
     collect_paths hs (hm_insert target ((case hm_get paths target of Some l \<Rightarrow> l | None \<Rightarrow> []) @ [hop]) paths)"

definition prune_expired_at :: "datetime \<Rightarrow> federated_topology \<Rightarrow> nat \<times> federated_topology" where
  "prune_expired_at now ft = (let
       applied = filter (\<lambda>e. \<not> ag_valid_until e \<le> now) (ft_applied ft);
       pruned_paths = concat (map (\<lambda>e. map fst (ag_hops e)) (filter (\<lambda>e. ag_valid_until e \<le> now) (ft_applied ft)));
       pruned = length (ft_applied ft) - length applied;
       new_paths = hm_retain (\<lambda>k v. v \<noteq> [] \<and> k \<notin> set pruned_paths) (collect_paths (concat (map ag_hops applied)) [])
     in (pruned, if 0 < pruned then ft\<lparr>ft_applied := applied, ft_inner := set_paths new_paths (ft_inner ft)\<rparr> else ft\<lparr>ft_applied := applied\<rparr>))"

definition federated_reset :: "federated_topology \<Rightarrow> federated_topology" where
  "federated_reset ft = ft\<lparr>ft_inner := set_paths [] (ft_inner ft), ft_applied := []\<rparr>"

definition applied_count :: "federated_topology \<Rightarrow> nat" where
  "applied_count ft = length (ft_applied ft)"

definition federated_hops_to :: "federated_topology \<Rightarrow> mesh_network_id \<Rightarrow> transit_hop list" where
  "federated_hops_to ft target = StaticTopology_hops_to (ft_inner ft) target"

section \<open>What the router needs of a topology\<close>

lemma decide_forward_iff:
  "TransitRouter_decide cfg hops_to source sn target = TransitForward via nh c \<longleftrightarrow>
    target \<noteq> tc_local_network cfg \<and> capability_permits (tc_capability cfg) source \<and> hops_to target \<noteq> [] \<and>
    hd (sort_key th_cost (hops_to target)) = \<lparr>th_via_network = via, th_next_hop = nh, th_cost = c\<rparr> \<and> c \<noteq> 0"
  by (auto simp: TransitRouter_decide_def Let_def)

lemma best_hop:
  assumes "hops \<noteq> []"
  shows "hd (sort_key th_cost hops) \<in> set hops" and "h \<in> set hops \<Longrightarrow> th_cost (hd (sort_key th_cost hops)) \<le> th_cost h"
proof -
  let ?s = "sort_key th_cost hops"
  have ne: "?s \<noteq> []" using assms by (metis length_0_conv length_sort)
  then show "hd ?s \<in> set hops" by (metis hd_in_set set_sort)
  have sorted: "sorted (map th_cost ?s)" by simp
  obtain x xs where xs: "?s = x # xs" using ne by (cases ?s) auto
  assume "h \<in> set hops"
  then have "h \<in> set ?s" by simp
  with sorted show "th_cost (hd ?s) \<le> th_cost h" by (auto simp: xs)
qed

text \<open>A topology that offers only justified hops: then the router forwards only along justified hops, and along the cheapest.\<close>

locale topology_source =
  fixes hops_of :: "'s \<Rightarrow> mesh_network_id \<Rightarrow> transit_hop list"
    and inv :: "'s \<Rightarrow> bool"
    and justified :: "'s \<Rightarrow> mesh_network_id \<Rightarrow> transit_hop \<Rightarrow> bool"
  assumes hops_justified: "inv s \<Longrightarrow> h \<in> set (hops_of s n) \<Longrightarrow> justified s n h"
begin

lemma forward_justified:
  assumes "inv s" and "TransitRouter_decide cfg (hops_of s) source sn target = TransitForward via nh c"
  shows "justified s target \<lparr>th_via_network = via, th_next_hop = nh, th_cost = c\<rparr> \<and> capability_permits (tc_capability cfg) source \<and>
    target \<noteq> tc_local_network cfg \<and> (\<forall>h \<in> set (hops_of s target). c \<le> th_cost h)"
proof -
  let ?h = "\<lparr>th_via_network = via, th_next_hop = nh, th_cost = c\<rparr>"
  have f: "target \<noteq> tc_local_network cfg" "capability_permits (tc_capability cfg) source" "hops_of s target \<noteq> []"
    "hd (sort_key th_cost (hops_of s target)) = ?h"
    using assms(2) by (simp_all add: decide_forward_iff)
  have "?h \<in> set (hops_of s target)" using best_hop(1) [OF f(3)] f(4) by simp
  then have "justified s target ?h" using hops_justified [OF assms(1)] by simp
  moreover have "c \<le> th_cost h" if "h \<in> set (hops_of s target)" for h
    using best_hop(2) [OF f(3) that] f(4) by simp
  ultimately show ?thesis using f by blast
qed

end

interpretation static_source: topology_source StaticTopology_hops_to "\<lambda>_. True" "\<lambda>ts n h. \<exists>hops. hm_get (ts_paths ts) n = Some hops \<and> h \<in> set hops"
proof
  show "h \<in> set (StaticTopology_hops_to ts n) \<Longrightarrow> \<exists>hops. hm_get (ts_paths ts) n = Some hops \<and> h \<in> set hops" for ts n h
    by (cases "hm_get (ts_paths ts) n") (auto simp: StaticTopology_hops_to_def)
qed

section \<open>Every hop belongs to an applied grant\<close>

definition hop_in :: "path_table \<Rightarrow> mesh_network_id \<Rightarrow> transit_hop \<Rightarrow> bool" where
  "hop_in paths n h = (case hm_get paths n of None \<Rightarrow> False | Some hops \<Rightarrow> h \<in> set hops)"

definition covered :: "path_table \<Rightarrow> applied_grant list \<Rightarrow> bool" where
  "covered paths es = (\<forall>n h. hop_in paths n h \<longrightarrow> (\<exists>e \<in> set es. (n, h) \<in> set (ag_hops e)))"

definition federated_inv :: "federated_topology \<Rightarrow> bool" where
  "federated_inv ft = (hm_wf (ts_paths (ft_inner ft)) \<and> distinct (map ag_grant_id (ft_applied ft)) \<and> covered (ts_paths (ft_inner ft)) (ft_applied ft))"

lemma hop_in_hops: "h \<in> set (StaticTopology_hops_to ts n) \<longleftrightarrow> hop_in (ts_paths ts) n h"
  by (cases "hm_get (ts_paths ts) n") (simp_all add: StaticTopology_hops_to_def hop_in_def)

lemma hop_in_insert: "hop_in (hm_insert k v m) n h \<longleftrightarrow> (if n = k then h \<in> set v else hop_in m n h)"
  by (simp add: hop_in_def)

lemma hop_in_retain: "hm_wf m \<Longrightarrow> hop_in (hm_retain P m) n h \<Longrightarrow> hop_in m n h"
  by (auto simp: hop_in_def hm_get_retain split: option.splits if_splits)

lemma wf_revoke_hops: "hm_wf m \<Longrightarrow> hm_wf (revoke_hops hs m)"
  by (induction hs m rule: revoke_hops.induct) (auto split: option.splits)

lemma hop_in_revoke_hops: "hop_in (revoke_hops hs m) n h \<longleftrightarrow> hop_in m n h \<and> (\<forall>(t, g) \<in> set hs. t = n \<longrightarrow> \<not> same_hop h g)"
proof (induction hs m rule: revoke_hops.induct)
  case (2 target hop hs paths)
  show ?case
  proof (cases "hm_get paths target")
    case None
    then have "\<not> hop_in paths target h" by (simp add: hop_in_def)
    with 2 None show ?thesis by auto
  next
    case (Some l)
    then have "hop_in (hm_insert target (filter (\<lambda>h. \<not> same_hop h hop) l) paths) n h \<longleftrightarrow> hop_in paths n h \<and> (target = n \<longrightarrow> \<not> same_hop h hop)"
      by (auto simp: hop_in_insert hop_in_def)
    with 2 Some show ?thesis by auto
  qed
qed simp

lemma revoke_loop_kept: "fst (revoke_loop i es m) = filter (\<lambda>e. ag_grant_id e \<noteq> i) es"
  by (induction es arbitrary: m) (auto simp: case_prod_beta)

lemma wf_revoke_loop: "hm_wf m \<Longrightarrow> hm_wf (snd (revoke_loop i es m))"
  by (induction es arbitrary: m) (auto simp: case_prod_beta wf_revoke_hops)

lemma hop_in_revoke_loop:
  "hop_in (snd (revoke_loop i es m)) n h \<longleftrightarrow> hop_in m n h \<and> (\<forall>e \<in> set es. ag_grant_id e = i \<longrightarrow> (\<forall>(t, g) \<in> set (ag_hops e). t = n \<longrightarrow> \<not> same_hop h g))"
  by (induction es arbitrary: m) (auto simp: case_prod_beta hop_in_revoke_hops)

lemma covered_revoke_loop:
  assumes "covered m es"
  shows "covered (snd (revoke_loop i es m)) (filter (\<lambda>e. ag_grant_id e \<noteq> i) es)"
  unfolding covered_def
proof (intro allI impI)
  fix n h assume h: "hop_in (snd (revoke_loop i es m)) n h"
  then have "hop_in m n h" and free: "\<forall>e \<in> set es. ag_grant_id e = i \<longrightarrow> (\<forall>(t, g) \<in> set (ag_hops e). t = n \<longrightarrow> \<not> same_hop h g)"
    by (auto simp: hop_in_revoke_loop)
  then obtain e where e: "e \<in> set es" "(n, h) \<in> set (ag_hops e)" using assms unfolding covered_def by blast
  have "ag_grant_id e \<noteq> i"
  proof
    assume "ag_grant_id e = i"
    then have "\<not> same_hop h h" using free e by fast
    then show False by (simp add: same_hop_def)
  qed
  with e show "\<exists>e \<in> set (filter (\<lambda>e. ag_grant_id e \<noteq> i) es). (n, h) \<in> set (ag_hops e)" by auto
qed

lemma set_paths_simps [simp]: "ts_paths (set_paths p ts) = p" "paths_table ts = ts_paths ts"
  by (simp_all add: set_paths_def paths_table_def)

lemma revocation_applied: "ft_applied (observe_revocation rv ft) = filter (\<lambda>e. ag_grant_id e \<noteq> pr_grant_id rv) (ft_applied ft)"
  using revoke_loop_kept [of "pr_grant_id rv" "ft_applied ft" "ts_paths (ft_inner ft)"]
  by (simp add: observe_revocation_def Let_def case_prod_beta)

lemma revocation_paths:
  "ts_paths (ft_inner (observe_revocation rv ft)) = hm_retain (\<lambda>_ v. v \<noteq> []) (snd (revoke_loop (pr_grant_id rv) (ft_applied ft) (ts_paths (ft_inner ft))))"
  by (simp add: observe_revocation_def Let_def case_prod_beta)

lemma inv_revocation:
  assumes "federated_inv ft"
  shows "federated_inv (observe_revocation rv ft)"
proof -
  let ?m = "snd (revoke_loop (pr_grant_id rv) (ft_applied ft) (ts_paths (ft_inner ft)))"
  have wf: "hm_wf ?m" using assms by (simp add: federated_inv_def wf_revoke_loop)
  have "covered ?m (filter (\<lambda>e. ag_grant_id e \<noteq> pr_grant_id rv) (ft_applied ft))"
    using assms by (intro covered_revoke_loop) (simp add: federated_inv_def)
  then have "covered (hm_retain (\<lambda>_ v. v \<noteq> []) ?m) (filter (\<lambda>e. ag_grant_id e \<noteq> pr_grant_id rv) (ft_applied ft))"
    using hop_in_retain [OF wf] by (auto simp: covered_def)
  then show ?thesis using wf assms
    by (simp add: federated_inv_def revocation_applied revocation_paths distinct_map_filter)
qed

lemma wf_install: "hm_wf m \<Longrightarrow> hm_wf (install_hops hs m)"
  by (induction hs m rule: install_hops.induct) (auto simp: Let_def)

lemma hop_in_install: "hop_in (install_hops hs m) n h \<Longrightarrow> hop_in m n h \<or> (n, h) \<in> set hs"
proof (induction hs m rule: install_hops.induct)
  case (2 target hop hs paths)
  let ?entry = "case hm_get paths target of Some l \<Rightarrow> l | None \<Rightarrow> []"
  let ?m = "hm_insert target (if list_ex (\<lambda>h. same_hop h hop) ?entry then ?entry else ?entry @ [hop]) paths"
  have "hop_in ?m n h \<or> (n, h) \<in> set hs" using "2.IH" [OF refl] "2.prems" by (simp add: Let_def)
  moreover have "hop_in ?m n h \<Longrightarrow> hop_in paths n h \<or> (n, h) = (target, hop)"
    by (auto simp: hop_in_insert hop_in_def split: if_splits option.splits)
  ultimately show ?case by auto
qed simp

lemma covered_install: "covered m es \<Longrightarrow> covered (install_hops hs m) (es @ [\<lparr>ag_grant_id = i, ag_valid_until = t, ag_hops = hs\<rparr>])"
  using hop_in_install [of hs m] by (fastforce simp: covered_def)

lemma inv_apply:
  assumes "federated_inv ft"
  shows "federated_inv (apply_grant g ft)"
proof -
  let ?ft = "if list_ex (\<lambda>a. ag_grant_id a = pg_grant_id g) (ft_applied ft)
      then observe_revocation \<lparr>pr_grant_id = pg_grant_id g, pr_source = pg_source g, pr_signature = []\<rparr> ft else ft"
  have inv: "federated_inv ?ft" using assms inv_revocation by simp
  have fresh: "pg_grant_id g \<notin> ag_grant_id ` set (ft_applied ?ft)"
    by (auto simp: revocation_applied list_ex_iff)
  show ?thesis using inv fresh
    by (simp add: apply_grant_def Let_def federated_inv_def wf_install covered_install del: if_split)
qed

lemma hop_in_collect: "hop_in (collect_paths hs m) n h \<longleftrightarrow> hop_in m n h \<or> (n, h) \<in> set hs"
proof (induction hs m rule: collect_paths.induct)
  case (2 target hop hs paths)
  have "hop_in (hm_insert target ((case hm_get paths target of Some l \<Rightarrow> l | None \<Rightarrow> []) @ [hop]) paths) n h \<longleftrightarrow> hop_in paths n h \<or> (n, h) = (target, hop)"
    by (auto simp: hop_in_insert hop_in_def split: option.splits)
  with 2 show ?case by auto
qed simp

lemma wf_collect: "hm_wf m \<Longrightarrow> hm_wf (collect_paths hs m)"
  by (induction hs m rule: collect_paths.induct) auto

lemma prune_applied: "ft_applied (snd (prune_expired_at now ft)) = filter (\<lambda>e. now < ag_valid_until e) (ft_applied ft)"
  by (simp add: prune_expired_at_def Let_def not_le)

lemma inv_prune:
  assumes "federated_inv ft"
  shows "federated_inv (snd (prune_expired_at now ft))"
proof (cases "0 < length (ft_applied ft) - length (filter (\<lambda>e. \<not> ag_valid_until e \<le> now) (ft_applied ft))")
  case True
  let ?es = "filter (\<lambda>e. \<not> ag_valid_until e \<le> now) (ft_applied ft)"
  let ?m = "collect_paths (concat (map ag_hops ?es)) []"
  have "hop_in ?m n h \<Longrightarrow> \<exists>e \<in> set ?es. (n, h) \<in> set (ag_hops e)" for n h
    by (auto simp: hop_in_collect hop_in_def [of "[]"])
  moreover have wf: "hm_wf ?m" by (simp add: wf_collect)
  ultimately have "covered (hm_retain P ?m) ?es" for P
    using hop_in_retain [OF wf] unfolding covered_def by blast
  then show ?thesis using True wf assms
    by (simp add: prune_expired_at_def Let_def federated_inv_def distinct_map_filter)
next
  case False
  then have "filter (\<lambda>e. \<not> ag_valid_until e \<le> now) (ft_applied ft) = ft_applied ft"
    using length_filter_le [of "\<lambda>e. \<not> ag_valid_until e \<le> now" "ft_applied ft"]
    by (metis diff_is_0_eq filter_True filter_id_conv le_antisym length_filter_less linorder_not_less not_gr_zero)
  then show ?thesis using False assms by (simp add: prune_expired_at_def Let_def)
qed

lemma inv_reset: "federated_inv (federated_reset ft)"
  by (simp add: federated_inv_def federated_reset_def covered_def hop_in_def)

interpretation federated_source: topology_source federated_hops_to federated_inv "\<lambda>ft n h. \<exists>e \<in> set (ft_applied ft). (n, h) \<in> set (ag_hops e)"
proof
  fix ft n h assume "federated_inv ft" and h: "h \<in> set (federated_hops_to ft n)"
  then have "hop_in (ts_paths (ft_inner ft)) n h"
    by (simp add: federated_hops_to_def hop_in_hops)
  with \<open>federated_inv ft\<close> show "\<exists>e \<in> set (ft_applied ft). (n, h) \<in> set (ag_hops e)"
    unfolding federated_inv_def covered_def by blast
qed

section \<open>Runs\<close>

text \<open>
  A grant comes in through \<^verbatim>\<open>observe_grant_verified\<close> (\<open>OpGrant\<close>) or through \<^verbatim>\<open>observe_grant\<close> and
  \<^verbatim>\<open>observe_grant_at\<close> (\<open>OpObserve\<close>), which check its form and leave the signature to the caller.
\<close>

datatype transit_op =
    OpGrant datetime peering_grant
  | OpObserve datetime peering_grant
  | OpRevocation peering_revocation
  | OpPrune datetime
  | OpReset

fun transit_step ::
  "ed25519 \<Rightarrow> hex_decoder \<Rightarrow> (canonical_peering_grant \<Rightarrow> bytes) \<Rightarrow> (bytes \<Rightarrow> bytes) \<Rightarrow> (mesh_network_id \<Rightarrow> bytes option) \<Rightarrow> transit_op \<Rightarrow> federated_topology \<Rightarrow> federated_topology" where
  "transit_step ed hx json blake reg (OpGrant now g) ft = snd (observe_grant_verified ed hx json blake now g reg ft)"
| "transit_step ed hx json blake reg (OpObserve now g) ft = snd (observe_grant_at g now ft)"
| "transit_step ed hx json blake reg (OpRevocation rv) ft = observe_revocation rv ft"
| "transit_step ed hx json blake reg (OpPrune now) ft = snd (prune_expired_at now ft)"
| "transit_step ed hx json blake reg OpReset ft = federated_reset ft"

interpretation transit_machine: op_machine "\<lambda>ft. \<exists>i n. ft = GossipFederatedTopology_new i n" "transit_step ed hx json blake reg" federated_inv
proof
  show "\<exists>i n. ft = GossipFederatedTopology_new i n \<Longrightarrow> federated_inv ft" for ft
    by (auto simp: GossipFederatedTopology_new_def StaticTopology_new_def federated_inv_def covered_def hop_in_def)
  show "federated_inv ft \<Longrightarrow> federated_inv (transit_step ed hx json blake reg p ft)" for ft p
    by (cases p) (auto simp: observe_grant_verified_def observe_grant_at_def inv_apply inv_revocation inv_prune inv_reset split: sum.split)
qed

fun withdraws :: "transit_op \<Rightarrow> peering_grant \<Rightarrow> bool" where
  "withdraws (OpRevocation rv) g = (pr_grant_id rv = pg_grant_id g)"
| "withdraws (OpPrune now) g = (pg_valid_until g \<le> now)"
| "withdraws OpReset g = True"
| "withdraws _ g = False"

text \<open>The operation brought in the grant: verified, or in good form and vouched for by the caller.\<close>

definition brings ::
  "ed25519 \<Rightarrow> hex_decoder \<Rightarrow> (canonical_peering_grant \<Rightarrow> bytes) \<Rightarrow> (bytes \<Rightarrow> bytes) \<Rightarrow> (mesh_network_id \<Rightarrow> bytes option) \<Rightarrow> transit_op \<Rightarrow> peering_grant \<Rightarrow> bool" where
  "brings ed hx json blake reg p g \<longleftrightarrow>
     (\<exists>t. p = OpGrant t g \<and> PeeringGrantVerifier_verify ed hx json blake g reg t = Inr ()) \<or>
     (\<exists>t. p = OpObserve t g \<and> pg_source g \<noteq> pg_target g \<and> pg_signature g \<noteq> [] \<and> \<not> PeeringGrant_is_expired g t)"

definition entry_of :: "peering_grant \<Rightarrow> applied_grant" where
  "entry_of g = \<lparr>ag_grant_id = pg_grant_id g, ag_valid_until = pg_valid_until g, ag_hops = grant_hops g\<rparr>"

lemma step_applied:
  assumes "e \<in> set (ft_applied (transit_step ed hx json blake reg p ft))"
  shows "(\<exists>g. brings ed hx json blake reg p g \<and> e = entry_of g) \<or>
    (e \<in> set (ft_applied ft) \<and> (\<forall>g. e = entry_of g \<longrightarrow> \<not> withdraws p g))"
proof (cases p)
  case (OpGrant now g)
  then show ?thesis using assms
    by (auto simp: observe_grant_verified_def brings_def apply_grant_def Let_def revocation_applied entry_of_def split: sum.splits if_splits)
next
  case (OpObserve now g)
  then show ?thesis using assms
    by (auto simp: observe_grant_at_def brings_def apply_grant_def Let_def revocation_applied entry_of_def split: if_splits)
next
  case (OpRevocation rv)
  then show ?thesis using assms by (auto simp: revocation_applied entry_of_def)
next
  case (OpPrune now)
  then show ?thesis using assms by (auto simp: prune_applied entry_of_def)
next
  case OpReset
  then show ?thesis using assms by (simp add: federated_reset_def)
qed

lemma applied_trace:
  assumes "e \<in> set (ft_applied (fold (transit_step ed hx json blake reg) ps (GossipFederatedTopology_new i n)))"
  shows "\<exists>qs p g rs. ps = qs @ p # rs \<and> brings ed hx json blake reg p g \<and> e = entry_of g \<and>
    (\<forall>r \<in> set rs. \<not> withdraws r g)"
  using assms
proof (induction ps rule: rev_induct)
  case Nil
  then show ?case by (simp add: GossipFederatedTopology_new_def)
next
  case (snoc p ps)
  let ?ft = "fold (transit_step ed hx json blake reg) ps (GossipFederatedTopology_new i n)"
  from snoc.prems have "e \<in> set (ft_applied (transit_step ed hx json blake reg p ?ft))" by simp
  then consider (new) g where "brings ed hx json blake reg p g" "e = entry_of g"
    | (old) "e \<in> set (ft_applied ?ft)" "\<forall>g. e = entry_of g \<longrightarrow> \<not> withdraws p g"
    using step_applied by blast
  then show ?case
  proof cases
    case new
    then show ?thesis by (intro exI [of _ ps] exI [of _ p] exI [of _ g] exI [of _ "[]"]) simp
  next
    case old
    with snoc.IH obtain qs q g rs where "ps = qs @ q # rs" "brings ed hx json blake reg q g" "e = entry_of g"
      "\<forall>r \<in> set rs. \<not> withdraws r g" by blast
    with old show ?thesis by (intro exI [of _ qs] exI [of _ q] exI [of _ g] exI [of _ "rs @ [p]"]) auto
  qed
qed

text \<open>
  C18. Whatever grants, revocations, expiries and resets a transit node has seen, it forwards a packet only for a
  permitted source and only along a grant that it received, that was neither revoked nor pruned since, and whose
  direction allows the route; the next hop is the grantor. The grant either came through
  \<^verbatim>\<open>observe_grant_verified\<close> and verified under the registered key of its source mesh, or through the unverified
  \<^verbatim>\<open>observe_grant\<close>, which asks only that it is unexpired, not a loop, and has some signature.
\<close>

theorem forwarding_follows_received_grants:
  assumes "TransitRouter_decide cfg (federated_hops_to (fold (transit_step ed hx json blake reg) ps (GossipFederatedTopology_new i n))) source sn target =
    TransitForward via nh c"
  shows "capability_permits (tc_capability cfg) source \<and> (\<exists>qs p g rs. ps = qs @ p # rs \<and>
    ((\<exists>t. p = OpGrant t g \<and> PeeringGrantVerifier_verify ed hx json blake g reg t = Inr ()) \<or>
     (\<exists>t. p = OpObserve t g \<and> pg_source g \<noteq> pg_target g \<and> pg_signature g \<noteq> [] \<and> t < pg_valid_until g)) \<and>
    (\<forall>r \<in> set rs. \<not> withdraws r g) \<and> pg_grantor g = nh \<and> pg_cost g = c \<and>
    (target = pg_target g \<and> via = pg_source g \<or> target = pg_source g \<and> via = pg_target g \<and> permits_direction g False))"
proof -
  let ?ft = "fold (transit_step ed hx json blake reg) ps (GossipFederatedTopology_new i n)"
  let ?h = "\<lparr>th_via_network = via, th_next_hop = nh, th_cost = c\<rparr>"
  have "federated_inv ?ft" by (rule transit_machine.inv_run) blast
  then have "\<exists>e \<in> set (ft_applied ?ft). (target, ?h) \<in> set (ag_hops e)" and perm: "capability_permits (tc_capability cfg) source"
    using federated_source.forward_justified [OF _ assms] by blast+
  then obtain e where e: "e \<in> set (ft_applied ?ft)" "(target, ?h) \<in> set (ag_hops e)" by blast
  from applied_trace [OF e(1)] obtain qs p g rs where g: "ps = qs @ p # rs" "brings ed hx json blake reg p g"
    "e = entry_of g" "\<forall>r \<in> set rs. \<not> withdraws r g" by blast
  from e(2) g(3) have "pg_grantor g = nh \<and> pg_cost g = c \<and>
      (target = pg_target g \<and> via = pg_source g \<or> target = pg_source g \<and> via = pg_target g \<and> permits_direction g False)"
    by (auto simp: entry_of_def grant_hops_def permits_direction_def Let_def split: if_splits)
  moreover have "(\<exists>t. p = OpGrant t g \<and> PeeringGrantVerifier_verify ed hx json blake g reg t = Inr ()) \<or>
     (\<exists>t. p = OpObserve t g \<and> pg_source g \<noteq> pg_target g \<and> pg_signature g \<noteq> [] \<and> t < pg_valid_until g)"
    using g(2) by (auto simp: brings_def PeeringGrant_is_expired_def not_le)
  ultimately show ?thesis using g(1,4) perm by blast
qed

definition demo_grant :: peering_grant where
  "demo_grant = \<lparr>pg_grant_id = ''id'', pg_source = ''a'', pg_target = ''b'', pg_grantor = ''c'', pg_direction = SourceToTarget, pg_cost = 3,
     pg_valid_until = 60, pg_created_at = 0, pg_signature = demo_hex_encode (replicate 64 7)\<rparr>"

abbreviation demo_run :: "transit_op list \<Rightarrow> federated_topology" where
  "demo_run ps \<equiv> fold (transit_step demo_ed demo_hex_decode (\<lambda>_. []) (\<lambda>b. b) [''a'' \<mapsto> [1]]) ps (GossipFederatedTopology_new ''i'' ''n'')"

lemma demo_grant_verifies: "PeeringGrantVerifier_verify demo_ed demo_hex_decode (\<lambda>_. []) (\<lambda>b. b) demo_grant [''a'' \<mapsto> [1]] 0 = Inr ()"
proof -
  have "demo_hex_encode (replicate 64 7) \<noteq> []" by (simp add: demo_hex_encode_def)
  then show ?thesis by (simp add: verify_grant_iff demo_grant_def demo_hex_round_trip demo_ed_def)
qed

theorem forwarding_follows_received_grants_witness:
  "TransitRouter_decide (TransitConfig_permissive ''n'') (federated_hops_to (demo_run [OpGrant 0 demo_grant])) ''s'' ''a'' ''b'' = TransitForward ''a'' ''c'' 3 \<and>
   (\<exists>qs p g rs. [OpGrant 0 demo_grant] = qs @ p # rs \<and> pg_grantor (g :: peering_grant) = ''c'' \<and> pg_cost g = 3)"
proof -
  have ft: "demo_run [OpGrant 0 demo_grant] = apply_grant demo_grant (GossipFederatedTopology_new ''i'' ''n'')"
    by (simp add: observe_grant_verified_def demo_grant_verifies)
  have "federated_hops_to (apply_grant demo_grant (GossipFederatedTopology_new ''i'' ''n'')) ''b'' =
      [\<lparr>th_via_network = ''a'', th_next_hop = ''c'', th_cost = 3\<rparr>]"
    by (simp add: apply_grant_def GossipFederatedTopology_new_def StaticTopology_new_def federated_hops_to_def StaticTopology_hops_to_def
        grant_hops_def demo_grant_def Let_def)
  then have d: "TransitRouter_decide (TransitConfig_permissive ''n'') (federated_hops_to (demo_run [OpGrant 0 demo_grant])) ''s'' ''a'' ''b'' =
      TransitForward ''a'' ''c'' 3"
    unfolding ft by (simp add: TransitRouter_decide_def TransitConfig_permissive_def Let_def)
  from forwarding_follows_received_grants [OF d]
  have "\<exists>qs p g rs. [OpGrant 0 demo_grant] = qs @ p # rs \<and> pg_grantor (g :: peering_grant) = ''c'' \<and> pg_cost g = 3" by blast
  with d show ?thesis by (rule conjI)
qed

section \<open>Routes that are lost\<close>

text \<open>
  When one grant expires, \<^verbatim>\<open>prune_expired_at\<close> drops the whole entry of every network that grant reached: a grant that is
  still valid keeps its place in the list of applied grants and loses its route.
\<close>

lemma expiry_drops_live_routes:
  assumes "e \<in> set (ft_applied ft)" and "ag_valid_until e \<le> now" and "(n, h) \<in> set (ag_hops e)"
  shows "federated_hops_to (snd (prune_expired_at now ft)) n = []"
proof -
  let ?es = "filter (\<lambda>e. \<not> ag_valid_until e \<le> now) (ft_applied ft)"
  have "length ?es < length (ft_applied ft)" using assms(1,2) by (intro length_filter_less) auto
  then have pos: "0 < length (ft_applied ft) - length ?es" by simp
  have n: "n \<in> set (concat (map (\<lambda>e. map fst (ag_hops e)) (filter (\<lambda>e. ag_valid_until e \<le> now) (ft_applied ft))))"
    using assms by force
  have "hm_wf (collect_paths (concat (map ag_hops ?es)) [])" by (simp add: wf_collect)
  then have "hm_get (ts_paths (ft_inner (snd (prune_expired_at now ft)))) n = None"
    using pos n by (auto simp: prune_expired_at_def Let_def hm_get_retain split: option.split)
  then show ?thesis by (simp add: federated_hops_to_def StaticTopology_hops_to_def)
qed

text \<open>Revoking a grant removes every hop with its next hop and network, also one that another grant installed.\<close>

lemma revocation_drops_shared_hop:
  assumes "e \<in> set (ft_applied ft)" and "ag_grant_id e = pr_grant_id rv" and "(n, h) \<in> set (ag_hops e)"
    and "federated_inv ft" and "h' \<in> set (federated_hops_to (observe_revocation rv ft) n)"
  shows "\<not> same_hop h' h"
proof -
  let ?m = "snd (revoke_loop (pr_grant_id rv) (ft_applied ft) (ts_paths (ft_inner ft)))"
  have "hop_in (hm_retain (\<lambda>_ v. v \<noteq> []) ?m) n h'"
    using assms(5) by (simp add: federated_hops_to_def hop_in_hops revocation_paths)
  moreover have "hm_wf ?m" using assms(4) by (simp add: federated_inv_def wf_revoke_loop)
  ultimately have "hop_in ?m n h'" using hop_in_retain by blast
  with assms(1-3) show ?thesis unfolding hop_in_revoke_loop by fast
qed

end
