(* ===== verification/Exit_Billing.thy ===== *)
theory Exit_Billing
  imports Mesh_Types Complex_Main
begin

text \<open>
  Metering and billing of an exit node: \<^verbatim>\<open>crates/a3net-exit-node/src/bandwidth.rs\<close> (counters, token buckets and
  the global limit) and \<^verbatim>\<open>billing.rs\<close> (rate cards, usage records and invoices).

  Counters are 64-bit words that wrap as in a release build; the floating-point numbers of the token bucket are rationals,
  and an infinite waiting time is \<open>None\<close>. The clock is an argument, for the wall clock in nanoseconds since the epoch.
  The counter behind the invoice numbers is an argument.
\<close>

section \<open>Metering\<close>

record bandwidth_stats =
  bs_bytes_sent :: u64
  bs_bytes_received :: u64
  bs_packets_sent :: u64
  bs_packets_received :: u64
  bs_since :: datetime

definition BandwidthStats_default :: bandwidth_stats where
  "BandwidthStats_default = \<lparr>bs_bytes_sent = 0, bs_bytes_received = 0, bs_packets_sent = 0, bs_packets_received = 0, bs_since = 0\<rparr>"

definition add_traffic :: "u64 \<Rightarrow> u64 \<Rightarrow> u64 \<Rightarrow> bandwidth_stats \<Rightarrow> bandwidth_stats" where
  "add_traffic sent received packets s = s\<lparr>bs_bytes_sent := bs_bytes_sent s + sent, bs_bytes_received := bs_bytes_received s + received,
     bs_packets_sent := bs_packets_sent s + packets, bs_packets_received := bs_packets_received s + packets\<rparr>"

definition total_bytes :: "bandwidth_stats \<Rightarrow> u64" where
  "total_bytes s = bs_bytes_sent s + bs_bytes_received s"

definition bytes_only :: "bandwidth_stats \<Rightarrow> bandwidth_stats" where
  "bytes_only s = \<lparr>bs_bytes_sent = bs_bytes_sent s, bs_bytes_received = bs_bytes_received s, bs_packets_sent = 0, bs_packets_received = 0, bs_since = bs_since s\<rparr>"

record meter_rate_limit =
  mr_bytes_per_second :: u64
  mr_burst_bytes :: u64

definition meter_rate_limit_default :: meter_rate_limit where
  "meter_rate_limit_default = \<lparr>mr_bytes_per_second = 10 * 1024 * 1024, mr_burst_bytes = 5 * 1024 * 1024\<rparr>"

datatype meter_result = MeterAllowed | MeterExceeded "rat option"

record token_bucket =
  tb_tokens :: rat
  tb_capacity :: rat
  tb_refill_rate :: rat
  tb_last_refill :: instant

definition TokenBucket_new :: "instant \<Rightarrow> u64 \<Rightarrow> u64 \<Rightarrow> token_bucket" where
  "TokenBucket_new now bytes_per_second burst_bytes = \<lparr>tb_tokens = of_nat (unat burst_bytes), tb_capacity = of_nat (unat burst_bytes),
     tb_refill_rate = of_nat (unat bytes_per_second), tb_last_refill = now\<rparr>"

definition bucket_refill :: "instant \<Rightarrow> token_bucket \<Rightarrow> token_bucket" where
  "bucket_refill now b = b\<lparr>tb_tokens := min (tb_tokens b + of_nat (now - tb_last_refill b) / 1000000000 * tb_refill_rate b) (tb_capacity b), tb_last_refill := now\<rparr>"

definition bucket_consume :: "instant \<Rightarrow> u64 \<Rightarrow> token_bucket \<Rightarrow> meter_result \<times> token_bucket" where
  "bucket_consume now bytes b0 = (let b = bucket_refill now b0; needed = of_nat (unat bytes) in
     if needed \<le> tb_tokens b then (MeterAllowed, b\<lparr>tb_tokens := tb_tokens b - needed\<rparr>)
     else (MeterExceeded (if tb_refill_rate b = 0 then None else Some ((needed - tb_tokens b) / tb_refill_rate b)), b))"

record client_meter =
  cm_client_id :: node_id
  cm_stats :: bandwidth_stats
  cm_rate_limit :: "meter_rate_limit option"
  cm_token_bucket :: token_bucket

definition ClientMeter_new :: "datetime \<Rightarrow> instant \<Rightarrow> node_id \<Rightarrow> client_meter" where
  "ClientMeter_new utc now i = \<lparr>cm_client_id = i, cm_stats = BandwidthStats_default\<lparr>bs_since := utc\<rparr>, cm_rate_limit = None, cm_token_bucket = TokenBucket_new now 0 0\<rparr>"

definition ClientMeter_record_traffic :: "u64 \<Rightarrow> u64 \<Rightarrow> u64 \<Rightarrow> client_meter \<Rightarrow> client_meter" where
  "ClientMeter_record_traffic sent received packets m = m\<lparr>cm_stats := add_traffic sent received packets (cm_stats m)\<rparr>"

definition check_rate_limit :: "instant \<Rightarrow> u64 \<Rightarrow> client_meter \<Rightarrow> meter_result \<times> client_meter" where
  "check_rate_limit now bytes m = (case cm_rate_limit m of
     Some cfg \<Rightarrow> (let (r, b) = bucket_consume now bytes (cm_token_bucket m) in (r, m\<lparr>cm_token_bucket := b\<rparr>))
   | None \<Rightarrow> (MeterAllowed, m))"

definition set_rate_limit :: "instant \<Rightarrow> meter_rate_limit option \<Rightarrow> client_meter \<Rightarrow> client_meter" where
  "set_rate_limit now config m = (let m = m\<lparr>cm_rate_limit := config\<rparr> in
     case config of Some cfg \<Rightarrow> m\<lparr>cm_token_bucket := TokenBucket_new now (mr_bytes_per_second cfg) (mr_burst_bytes cfg)\<rparr> | None \<Rightarrow> m)"

definition ClientMeter_reset :: "datetime \<Rightarrow> client_meter \<Rightarrow> client_meter" where
  "ClientMeter_reset utc m = m\<lparr>cm_stats := BandwidthStats_default\<lparr>bs_since := utc\<rparr>\<rparr>"

datatype traffic_direction = Both | Upload | Download

record global_bandwidth_limit =
  gl_max_bytes :: u64
  gl_direction :: traffic_direction
  gl_bytes_per_second :: u64

record exit_node_meter =
  em_global_stats :: bandwidth_stats
  em_client_meters :: "(node_id, client_meter) hmap"
  em_global_limit :: "global_bandwidth_limit option"

definition ExitNodeMeter_new :: "datetime \<Rightarrow> exit_node_meter" where
  "ExitNodeMeter_new utc = \<lparr>em_global_stats = BandwidthStats_default\<lparr>bs_since := utc\<rparr>, em_client_meters = [], em_global_limit = None\<rparr>"

definition record_client_traffic :: "datetime \<Rightarrow> instant \<Rightarrow> node_id \<Rightarrow> u64 \<Rightarrow> u64 \<Rightarrow> u64 \<Rightarrow> exit_node_meter \<Rightarrow> exit_node_meter" where
  "record_client_traffic utc now i sent received packets em = (let
       meter = (case hm_get (em_client_meters em) i of Some m \<Rightarrow> m | None \<Rightarrow> ClientMeter_new utc now i)
     in em\<lparr>em_global_stats := add_traffic sent received packets (em_global_stats em),
           em_client_meters := hm_insert i (ClientMeter_record_traffic sent received packets meter) (em_client_meters em)\<rparr>)"

definition ExitNodeMeter_record_traffic :: "u64 \<Rightarrow> u64 \<Rightarrow> u64 \<Rightarrow> exit_node_meter \<Rightarrow> exit_node_meter" where
  "ExitNodeMeter_record_traffic sent received packets em = em\<lparr>em_global_stats := add_traffic sent received packets (em_global_stats em)\<rparr>"

definition client_stats :: "exit_node_meter \<Rightarrow> node_id \<Rightarrow> bandwidth_stats option" where
  "client_stats em i = map_option cm_stats (hm_get (em_client_meters em) i)"

definition tracked_clients :: "exit_node_meter \<Rightarrow> node_id list" where
  "tracked_clients em = map fst (em_client_meters em)"

definition all_client_stats :: "exit_node_meter \<Rightarrow> (node_id \<times> bandwidth_stats) list" where
  "all_client_stats em = map (\<lambda>(i, m). (i, cm_stats m)) (em_client_meters em)"

definition set_global_limit :: "global_bandwidth_limit option \<Rightarrow> exit_node_meter \<Rightarrow> exit_node_meter" where
  "set_global_limit l em = em\<lparr>em_global_limit := l\<rparr>"

definition limit_wait :: "u64 \<Rightarrow> global_bandwidth_limit \<Rightarrow> rat option" where
  "limit_wait bytes cfg = (if gl_bytes_per_second cfg = 0 then None else Some (of_nat (unat bytes) / of_nat (unat (gl_bytes_per_second cfg))))"

definition check_global_limit :: "u64 \<Rightarrow> exit_node_meter \<Rightarrow> meter_result" where
  "check_global_limit bytes em = (case em_global_limit em of
     None \<Rightarrow> MeterAllowed
   | Some cfg \<Rightarrow> (let stats = em_global_stats em in
       if gl_direction cfg \<in> {Upload, Both} \<and> sat_sub64 (gl_max_bytes cfg) (bs_bytes_sent stats + bytes) < bytes then MeterExceeded (limit_wait bytes cfg)
       else if gl_direction cfg \<in> {Download, Both} \<and> sat_sub64 (gl_max_bytes cfg) (bs_bytes_received stats + bytes) < bytes then MeterExceeded (limit_wait bytes cfg)
       else MeterAllowed))"

definition ExitNodeMeter_reset :: "datetime \<Rightarrow> exit_node_meter \<Rightarrow> exit_node_meter" where
  "ExitNodeMeter_reset utc em = em\<lparr>em_global_stats := BandwidthStats_default\<lparr>bs_since := utc\<rparr>, em_client_meters := []\<rparr>"

definition get_or_create_meter :: "datetime \<Rightarrow> instant \<Rightarrow> node_id \<Rightarrow> exit_node_meter \<Rightarrow> client_meter \<times> exit_node_meter" where
  "get_or_create_meter utc now i em = (case hm_get (em_client_meters em) i of
     Some m \<Rightarrow> (m, em)
   | None \<Rightarrow> (let m = ClientMeter_new utc now i in (m, em\<lparr>em_client_meters := hm_insert i m (em_client_meters em)\<rparr>)))"

record bandwidth_snapshot =
  bn_global :: bandwidth_stats
  bn_clients :: "(string \<times> bandwidth_stats) list"
  bn_global_limit :: "global_bandwidth_limit option"
  bn_tracked_client_count :: nat

definition ExitNodeMeter_snapshot :: "exit_node_meter \<Rightarrow> bandwidth_snapshot" where
  "ExitNodeMeter_snapshot em = \<lparr>bn_global = em_global_stats em, bn_clients = map (\<lambda>(i, s). (NodeId_short i, s)) (all_client_stats em),
     bn_global_limit = em_global_limit em, bn_tracked_client_count = length (tracked_clients em)\<rparr>"

section \<open>Rate cards\<close>

definition MB :: u64 where "MB = 1024 * 1024"

datatype pricing_model = PerByte | PerPacket | FlatRate u64 | Tiered

record pricing_tier =
  pt_min_bytes :: u64
  pt_max_bytes :: u64
  pt_price_per_mb :: u64

definition default_tiers :: "pricing_tier list" where
  "default_tiers =
     [\<lparr>pt_min_bytes = 0, pt_max_bytes = 1024 * 1024 * 1024, pt_price_per_mb = 10\<rparr>,
      \<lparr>pt_min_bytes = 1024 * 1024 * 1024, pt_max_bytes = 10 * 1024 * 1024 * 1024, pt_price_per_mb = 5\<rparr>,
      \<lparr>pt_min_bytes = 10 * 1024 * 1024 * 1024, pt_max_bytes = - 1, pt_price_per_mb = 2\<rparr>]"

record rate_card =
  rc_model :: pricing_model
  rc_tiers :: "pricing_tier list"
  rc_included_bytes :: u64
  rc_base_fee_cents :: u64
  rc_currency :: string

definition RateCard_default :: rate_card where
  "RateCard_default = \<lparr>rc_model = PerByte, rc_tiers = default_tiers, rc_included_bytes = 0, rc_base_fee_cents = 0, rc_currency = ''USD''\<rparr>"

definition RateCard_tiered :: rate_card where
  "RateCard_tiered = RateCard_default\<lparr>rc_model := Tiered\<rparr>"

definition RateCard_flat_rate :: "u64 \<Rightarrow> u64 \<Rightarrow> rate_card" where
  "RateCard_flat_rate included base_fee = RateCard_default\<lparr>rc_model := FlatRate included, rc_base_fee_cents := base_fee\<rparr>"

fun tier_loop :: "pricing_tier list \<Rightarrow> u64 \<Rightarrow> u64 \<Rightarrow> u64" where
  "tier_loop [] remaining charge = charge"
| "tier_loop (t # ts) remaining charge =
     (if remaining = 0 then charge
      else let tier_range = sat_sub64 (pt_max_bytes t) (pt_min_bytes t);
               in_tier = min remaining tier_range;
               tier_mb = in_tier div MB
           in tier_loop ts (sat_sub64 remaining in_tier) (charge + tier_mb * pt_price_per_mb t))"

definition RateCard_calculate_charge :: "rate_card \<Rightarrow> u64 \<Rightarrow> u64 \<Rightarrow> u64" where
  "RateCard_calculate_charge rc sent received = (let total = sat_add64 sent received; mb = total div MB in
     case rc_model rc of
       PerByte \<Rightarrow> mb * 10
     | PerPacket \<Rightarrow> (total div 1500) * 10
     | FlatRate included \<Rightarrow> if included < total then rc_base_fee_cents rc + ((total - included) div MB) * 10 else rc_base_fee_cents rc
     | Tiered \<Rightarrow> tier_loop (rc_tiers rc) total (rc_base_fee_cents rc))"

section \<open>Usage and invoices\<close>

record usage_record =
  ur_client_id :: node_id
  ur_period_start :: datetime
  ur_period_end :: datetime
  ur_stats :: bandwidth_stats
  ur_charge_cents :: u64
  ur_rate_card :: rate_card
  ur_invoiced :: bool

definition UsageRecord_calculate_charge :: "usage_record \<Rightarrow> u64" where
  "UsageRecord_calculate_charge r = RateCard_calculate_charge (ur_rate_card r) (bs_bytes_sent (ur_stats r)) (bs_bytes_received (ur_stats r))"

record line_item =
  li_description :: string
  li_quantity :: u64
  li_unit_price_cents :: u64
  li_total_cents :: u64

datatype invoice_status = Draft | Sent | Paid | Overdue | Cancelled

record invoice =
  in_invoice_id :: string
  in_client_id :: node_id
  in_issued_at :: datetime
  in_period_start :: datetime
  in_period_end :: datetime
  in_line_items :: "line_item list"
  in_subtotal_cents :: u64
  in_tax_cents :: u64
  in_total_cents :: u64
  in_currency :: string
  in_status :: invoice_status

datatype billing_error = NoUsage | ClientNotFound | RateLimitExceeded "rat option" | InvalidConfig string

record billing_engine =
  be_rate_cards :: "(node_id, rate_card) hmap"
  be_usage_records :: "(node_id, usage_record list) hmap"
  be_default_rate_card :: rate_card

definition BillingEngine_new :: billing_engine where
  "BillingEngine_new = \<lparr>be_rate_cards = [], be_usage_records = [], be_default_rate_card = RateCard_default\<rparr>"

definition set_rate_card :: "node_id \<Rightarrow> rate_card \<Rightarrow> billing_engine \<Rightarrow> billing_engine" where
  "set_rate_card i rc be = be\<lparr>be_rate_cards := hm_insert i rc (be_rate_cards be)\<rparr>"

definition get_rate_card :: "node_id \<Rightarrow> billing_engine \<Rightarrow> rate_card" where
  "get_rate_card i be = (case hm_get (be_rate_cards be) i of Some rc \<Rightarrow> rc | None \<Rightarrow> be_default_rate_card be)"

definition DAY :: datetime where "DAY = 24 * 60 * 60 * NANOS"

definition records_of :: "node_id \<Rightarrow> billing_engine \<Rightarrow> usage_record list" where
  "records_of i be = (case hm_get (be_usage_records be) i of Some rs \<Rightarrow> rs | None \<Rightarrow> [])"

definition BillingEngine_record_traffic :: "datetime \<Rightarrow> node_id \<Rightarrow> u64 \<Rightarrow> u64 \<Rightarrow> billing_engine \<Rightarrow> billing_engine" where
  "BillingEngine_record_traffic utc i sent received be = (let
       stats = \<lparr>bs_bytes_sent = sent, bs_bytes_received = received, bs_packets_sent = sent div 1500, bs_packets_received = received div 1500, bs_since = utc\<rparr>;
       period_start = utc - utc mod DAY;
       card = get_rate_card i be;
       r = \<lparr>ur_client_id = i, ur_period_start = period_start, ur_period_end = period_start + 30 * DAY, ur_stats = stats,
            ur_charge_cents = RateCard_calculate_charge card sent received, ur_rate_card = card, ur_invoiced = False\<rparr>
     in be\<lparr>be_usage_records := hm_insert i (records_of i be @ [r]) (be_usage_records be)\<rparr>)"

definition get_current_usage :: "node_id \<Rightarrow> billing_engine \<Rightarrow> bandwidth_stats option" where
  "get_current_usage i be = (if records_of i be = [] then None else Some (ur_stats (last (records_of i be))))"

definition get_current_charges :: "node_id \<Rightarrow> billing_engine \<Rightarrow> u64" where
  "get_current_charges i be = sum_list (map ur_charge_cents (records_of i be))"

definition Uuid_new_v4 :: "u64 \<Rightarrow> bytes" where
  "Uuid_new_v4 counter = (let le = rev (u64_to_be_bytes counter) in
     map (\<lambda>i. (le @ le) ! i + of_nat (unat (drop_bit (i mod 8) counter))) [0..<16])"

definition lower_hex_digit :: "nat \<Rightarrow> char" where
  "lower_hex_digit n = (if n < 10 then char_of (48 + n) else char_of (87 + n))"

definition Uuid_display :: "bytes \<Rightarrow> string" where
  "Uuid_display b = concat (map (\<lambda>i. (if i \<in> {4, 6, 8, 10} then ''-'' else []) @
     [lower_hex_digit (unat (b ! i) div 16), lower_hex_digit (unat (b ! i) mod 16)]) [0..<length b])"

definition open_records :: "node_id \<Rightarrow> billing_engine \<Rightarrow> usage_record list" where
  "open_records i be = filter (\<lambda>r. \<not> ur_invoiced r) (records_of i be)"

definition generate_invoice :: "datetime \<Rightarrow> u64 \<Rightarrow> node_id \<Rightarrow> billing_engine \<Rightarrow> (billing_error, invoice) result" where
  "generate_invoice utc counter i be = (let client_records = open_records i be in
     if client_records = [] then Inl NoUsage
     else (let sent = sum_list (map (\<lambda>r. bs_bytes_sent (ur_stats r)) client_records);
               received = sum_list (map (\<lambda>r. bs_bytes_received (ur_stats r)) client_records);
               subtotal = sum_list (map ur_charge_cents client_records);
               tax = subtotal * 10 div 100
       in Inr \<lparr>in_invoice_id = ''INV-'' @ Uuid_display (Uuid_new_v4 counter), in_client_id = i, in_issued_at = utc,
            in_period_start = ur_period_start (hd client_records), in_period_end = ur_period_end (last client_records),
            in_line_items =
              [\<lparr>li_description = ''Data Upload (Exit Traffic)'', li_quantity = sent, li_unit_price_cents = 10, li_total_cents = sent div MB * 10\<rparr>,
               \<lparr>li_description = ''Data Download (Exit Traffic)'', li_quantity = received, li_unit_price_cents = 5, li_total_cents = received div MB * 5\<rparr>],
            in_subtotal_cents = subtotal, in_tax_cents = tax, in_total_cents = subtotal + tax,
            in_currency = rc_currency (get_rate_card i be), in_status = Draft\<rparr>))"

definition mark_invoiced :: "node_id \<Rightarrow> billing_engine \<Rightarrow> billing_engine" where
  "mark_invoiced i be = (case hm_get (be_usage_records be) i of
     None \<Rightarrow> be
   | Some rs \<Rightarrow> be\<lparr>be_usage_records := hm_insert i (map (\<lambda>r. r\<lparr>ur_invoiced := True\<rparr>) rs) (be_usage_records be)\<rparr>)"

definition clients_with_usage :: "billing_engine \<Rightarrow> node_id list" where
  "clients_with_usage be = map fst (be_usage_records be)"

definition get_invoices :: "node_id \<Rightarrow> billing_engine \<Rightarrow> invoice list" where
  "get_invoices i be = []"

record billing_status =
  bt_client_id :: node_id
  bt_usage_bytes_sent :: u64
  bt_usage_bytes_received :: u64
  bt_charge_cents :: u64
  bt_rate_card :: rate_card
  bt_last_invoice_id :: "string option"

definition get_status :: "node_id \<Rightarrow> billing_engine \<Rightarrow> billing_status" where
  "get_status i be = \<lparr>bt_client_id = i, bt_usage_bytes_sent = sum_list (map (\<lambda>r. bs_bytes_sent (ur_stats r)) (records_of i be)),
     bt_usage_bytes_received = sum_list (map (\<lambda>r. bs_bytes_received (ur_stats r)) (records_of i be)),
     bt_charge_cents = sum_list (map ur_charge_cents (records_of i be)), bt_rate_card = get_rate_card i be, bt_last_invoice_id = None\<rparr>"

section \<open>What a rate card charges\<close>

lemma unat_MB: "unat MB = 1048576"
  by (simp add: MB_def)

lemma unat_times_small: "unat a * unat b < 2 ^ 64 \<Longrightarrow> unat ((a :: u64) * b) = unat a * unat b"
  by (simp add: unat_word_ariths)

lemma unat_plus_small: "unat a + unat b < 2 ^ 64 \<Longrightarrow> unat ((a :: u64) + b) = unat a + unat b"
  by (simp add: unat_word_ariths)

lemma charge_per_byte:
  assumes "rc_model rc = PerByte"
  shows "unat (RateCard_calculate_charge rc sent received) = min (unat sent + unat received) (2 ^ 64 - 1) div 1048576 * 10"
proof -
  let ?t = "sat_add64 sent received"
  have "unat (?t div MB) = unat ?t div 1048576" by (simp add: unat_div_distrib unat_MB)
  moreover have "unat ?t < 2 ^ 64" using unat_bound [of ?t] by simp
  then have "unat ?t div 1048576 < 2 ^ 44" by (intro less_mult_imp_div_less) simp
  ultimately have "unat (?t div MB * 10) = unat ?t div 1048576 * 10" by (subst unat_times_small) simp_all
  then show ?thesis using assms by (simp add: RateCard_calculate_charge_def Let_def unat_sat_add64)
qed

text \<open>The tiers as a price list: what the \<open>k\<close>-th whole mebibyte costs.\<close>

definition tier_price :: "nat \<Rightarrow> nat" where
  "tier_price k = (if k < 1024 then 10 else if k < 10240 then 5 else 2)"

lemma sum_tier_price: "(\<Sum>k<n. tier_price k) = 10 * min n 1024 + 5 * min (n - 1024) 9216 + 2 * (n - 10240)"
proof (induction n)
  case (Suc n)
  then show ?case by (simp add: tier_price_def) arith
qed simp

lemma min_div: "min a b div c = min (a div c) (b div (c :: nat))"
  by (cases "a \<le> b") (simp_all add: min_absorb1 min_absorb2 div_le_mono)

lemma minus_div: "(n - k * m) div m = n div m - (k :: nat)"
proof (cases "k * m \<le> n")
  case True
  then obtain d where "n = k * m + d" using le_Suc_ex by blast
  then show ?thesis by (cases "m = 0") simp_all
next
  case False
  then have "n div m < k" by (intro less_mult_imp_div_less) simp
  with False show ?thesis by simp
qed

fun tier_total :: "pricing_tier list \<Rightarrow> nat \<Rightarrow> nat" where
  "tier_total [] r = 0"
| "tier_total (t # ts) r = (let q = min r (unat (pt_max_bytes t) - unat (pt_min_bytes t)) in
     q div 1048576 * unat (pt_price_per_mb t) + tier_total ts (r - q))"

lemma tier_total_zero [simp]: "tier_total ts 0 = 0"
  by (induction ts) (simp_all add: Let_def)

lemma tier_loop_exact:
  assumes "\<forall>t \<in> set ts. unat (pt_price_per_mb t) \<le> 10" and "unat charge + 10 * (unat remaining div 1048576) < 2 ^ 64"
  shows "unat (tier_loop ts remaining charge) = unat charge + tier_total ts (unat remaining)"
  using assms
proof (induction ts arbitrary: remaining charge)
  case (Cons t ts)
  show ?case
  proof (cases "remaining = 0")
    case False
    let ?in = "min remaining (sat_sub64 (pt_max_bytes t) (pt_min_bytes t))"
    let ?q = "min (unat remaining) (unat (pt_max_bytes t) - unat (pt_min_bytes t))"
    have q: "unat ?in = ?q" by (simp add: min_def word_le_nat_alt unat_sat_sub64)
    have "?q div 1048576 * unat (pt_price_per_mb t) \<le> ?q div 1048576 * 10" using Cons.prems(1) by (intro mult_left_mono) simp_all
    moreover have split: "?q div 1048576 + (unat remaining - ?q) div 1048576 \<le> unat remaining div 1048576"
      using div_add1_eq [of ?q "unat remaining - ?q" 1048576] by simp
    ultimately have fits: "unat charge + ?q div 1048576 * unat (pt_price_per_mb t) + 10 * ((unat remaining - ?q) div 1048576) < 2 ^ 64"
      using Cons.prems(2) by linarith
    have "unat (?in div MB * pt_price_per_mb t) = ?q div 1048576 * unat (pt_price_per_mb t)"
      using fits by (subst unat_times_small) (simp_all add: unat_div_distrib unat_MB q)
    then have c: "unat (charge + ?in div MB * pt_price_per_mb t) = unat charge + ?q div 1048576 * unat (pt_price_per_mb t)"
      using fits by (subst unat_plus_small) simp_all
    have r: "unat (sat_sub64 remaining ?in) = unat remaining - ?q" by (simp add: unat_sat_sub64 q)
    have price: "\<forall>t \<in> set ts. unat (pt_price_per_mb t) \<le> 10" using Cons.prems(1) by simp
    have rest: "unat (charge + ?in div MB * pt_price_per_mb t) + 10 * (unat (sat_sub64 remaining ?in) div 1048576) < 2 ^ 64"
      unfolding c r by (rule fits)
    have "unat (tier_loop ts (sat_sub64 remaining ?in) (charge + ?in div MB * pt_price_per_mb t)) =
        unat charge + ?q div 1048576 * unat (pt_price_per_mb t) + tier_total ts (unat remaining - ?q)"
      unfolding Cons.IH [OF price rest] c r ..
    then show ?thesis using False by (simp add: Let_def)
  qed simp
qed simp

text \<open>
  The tiered rate card charges each whole mebibyte the price of its tier: ten cents up to a gibibyte, five up to
  ten, two above; no step overflows.
\<close>

theorem tiered_charge_exact:
  "unat (RateCard_calculate_charge RateCard_tiered sent received) = (\<Sum>k < min (unat sent + unat received) (2 ^ 64 - 1) div 1048576. tier_price k)"
proof -
  let ?t = "sat_add64 sent received"
  have bound: "unat ?t < 2 ^ 64" using unat_bound [of ?t] by simp
  then have "unat ?t div 1048576 < 2 ^ 44" by (intro less_mult_imp_div_less) simp
  then have fits: "unat (0 :: u64) + 10 * (unat ?t div 1048576) < 2 ^ 64" by simp
  have "\<forall>t \<in> set default_tiers. unat (pt_price_per_mb t) \<le> 10" by (simp add: default_tiers_def)
  from tier_loop_exact [OF this fits] have "unat (tier_loop default_tiers ?t 0) = tier_total default_tiers (unat ?t)" by simp
  also have "\<dots> = (\<Sum>k < unat ?t div 1048576. tier_price k)"
  proof -
    define n where "n = unat ?t"
    have max: "unat (- 1 :: u64) = 2 ^ 64 - 1" by (simp add: unsigned_minus_1_eq_mask mask_eq_exp_minus_1)
    have "tier_total default_tiers n = 10 * (min n 1073741824 div 1048576) + 5 * (min (n - 1073741824) 9663676416 div 1048576) + 2 * ((n - 10737418240) div 1048576)"
    proof -
      have sub_min: "r - min r a = r - a" for r a :: nat by (simp add: min_def)
      have "n < 18446744073709551616" using bound by (simp add: n_def)
      then have "min (n - 10737418240) 18446744062972133375 = n - 10737418240" by (intro min_absorb1) linarith
      moreover have "n - (min n 1073741824 + min (n - 1073741824) 9663676416) = n - 10737418240" by (simp add: min_def)
      ultimately show ?thesis by (simp add: default_tiers_def Let_def max sub_min)
    qed
    also have "\<dots> = 10 * min (n div 1048576) 1024 + 5 * min (n div 1048576 - 1024) 9216 + 2 * (n div 1048576 - 10240)"
    proof -
      have "min n 1073741824 div 1048576 = min (n div 1048576) 1024" by (simp add: min_div)
      moreover have "min (n - 1073741824) 9663676416 div 1048576 = min (n div 1048576 - 1024) 9216"
        using minus_div [of n 1024 1048576] by (simp add: min_div)
      moreover have "(n - 10737418240) div 1048576 = n div 1048576 - 10240" using minus_div [of n 10240 1048576] by simp
      ultimately show ?thesis by simp
    qed
    finally show ?thesis by (simp add: sum_tier_price n_def)
  qed
  finally show ?thesis by (simp add: RateCard_calculate_charge_def RateCard_tiered_def RateCard_default_def Let_def unat_sat_add64)
qed

section \<open>What is billed\<close>

lemma records_of_record [simp]:
  "records_of j (BillingEngine_record_traffic utc i sent received be) = records_of j be @ (if j = i then
    [\<lparr>ur_client_id = i, ur_period_start = utc - utc mod DAY, ur_period_end = utc - utc mod DAY + 30 * DAY,
      ur_stats = \<lparr>bs_bytes_sent = sent, bs_bytes_received = received, bs_packets_sent = sent div 1500, bs_packets_received = received div 1500, bs_since = utc\<rparr>,
      ur_charge_cents = RateCard_calculate_charge (get_rate_card i be) sent received, ur_rate_card = get_rate_card i be, ur_invoiced = False\<rparr>] else [])"
  by (simp add: BillingEngine_record_traffic_def records_of_def Let_def)

lemma records_of_card [simp]: "records_of j (set_rate_card i rc be) = records_of j be"
  by (simp add: set_rate_card_def records_of_def)

lemma records_of_mark [simp]: "records_of j (mark_invoiced i be) = (if j = i then map (\<lambda>r. r\<lparr>ur_invoiced := True\<rparr>) (records_of j be) else records_of j be)"
  by (simp add: mark_invoiced_def records_of_def split: option.split)

lemma card_record [simp]: "get_rate_card j (BillingEngine_record_traffic utc i sent received be) = get_rate_card j be"
  by (simp add: BillingEngine_record_traffic_def get_rate_card_def Let_def split: option.split)

datatype billing_op = OpUsage datetime node_id u64 u64 | OpCard node_id rate_card | OpBill datetime u64 node_id

text \<open>Billing a client is issuing the invoice and marking the records; the second component collects the invoices.\<close>

fun billing_step :: "billing_op \<Rightarrow> billing_engine \<times> invoice list \<Rightarrow> billing_engine \<times> invoice list" where
  "billing_step (OpUsage utc i sent received) (be, bills) = (BillingEngine_record_traffic utc i sent received be, bills)"
| "billing_step (OpCard i rc) (be, bills) = (set_rate_card i rc be, bills)"
| "billing_step (OpBill utc counter i) (be, bills) = (case generate_invoice utc counter i be of
     Inl _ \<Rightarrow> (be, bills) | Inr bill \<Rightarrow> (mark_invoiced i be, bills @ [bill]))"

definition billing_inv :: "billing_engine \<times> invoice list \<Rightarrow> bool" where
  "billing_inv st = (\<forall>i. get_current_charges i (fst st) =
     sum_list (map in_subtotal_cents (filter (\<lambda>bill. in_client_id bill = i) (snd st))) + sum_list (map ur_charge_cents (open_records i (fst st))))"

lemma generate_invoice_subtotal:
  "generate_invoice utc counter i be = Inr bill \<Longrightarrow> in_client_id bill = i \<and> in_subtotal_cents bill = sum_list (map ur_charge_cents (open_records i be))"
  by (auto simp: generate_invoice_def Let_def split: if_splits)

lemma open_mark [simp]: "open_records j (mark_invoiced i be) = (if j = i then [] else open_records j be)"
  by (simp add: open_records_def filter_empty_conv)

lemma charges_mark [simp]: "get_current_charges j (mark_invoiced i be) = get_current_charges j be"
  by (simp add: get_current_charges_def comp_def)

interpretation billing_machine: op_machine "\<lambda>st. st = (BillingEngine_new, [])" billing_step billing_inv
proof
  show "st = (BillingEngine_new, []) \<Longrightarrow> billing_inv st" for st
    by (simp add: billing_inv_def get_current_charges_def open_records_def records_of_def BillingEngine_new_def)
  fix st p assume inv: "billing_inv st"
  obtain be bills where st: "st = (be, bills)" by (cases st)
  show "billing_inv (billing_step p st)"
  proof (cases p)
    case (OpBill utc counter i)
    show ?thesis
    proof (cases "generate_invoice utc counter i be")
      case (Inr v)
      then show ?thesis using inv generate_invoice_subtotal [OF Inr] by (auto simp: billing_inv_def st OpBill)
    qed (use inv in \<open>simp add: st OpBill\<close>)
  qed (use inv in \<open>auto simp: billing_inv_def st get_current_charges_def open_records_def add.assoc\<close>)
qed

text \<open>
  C40. When invoices are issued and marked in one step, no usage is billed twice or forgotten: for each client
  the subtotals of its invoices and the charges still open add up to everything charged (on 64-bit words).
\<close>

theorem billing_conserves_charges:
  "get_current_charges i (fst (fold billing_step ps (BillingEngine_new, []))) =
    sum_list (map in_subtotal_cents (filter (\<lambda>bill. in_client_id bill = i) (snd (fold billing_step ps (BillingEngine_new, []))))) +
    sum_list (map ur_charge_cents (open_records i (fst (fold billing_step ps (BillingEngine_new, [])))))"
  using billing_machine.inv_run [of "(BillingEngine_new, [])" ps] by (simp add: billing_inv_def)

text \<open>
  The two calls are separate in the code. Usage recorded between them is marked as invoiced and never appears on an
  invoice.
\<close>

lemma usage_between_invoice_and_mark_lost:
  assumes "generate_invoice utc counter i be = Inr bill"
  shows "generate_invoice utc' counter' i (mark_invoiced i (BillingEngine_record_traffic utc i sent received be)) = Inl NoUsage \<and>
    get_current_charges i (mark_invoiced i (BillingEngine_record_traffic utc i sent received be)) =
      get_current_charges i be + RateCard_calculate_charge (get_rate_card i be) sent received"
  by (simp add: generate_invoice_def) (simp add: get_current_charges_def)

text \<open>
  Each call of \<^verbatim>\<open>record_traffic\<close> is charged for itself: below a mebibyte it costs nothing under the default card, and the whole base
  fee under a flat rate.
\<close>

lemma small_usage_free:
  assumes "rc_model rc \<in> {PerByte}" and "unat sent + unat received < 1048576"
  shows "RateCard_calculate_charge rc sent received = 0"
proof -
  have "unat (RateCard_calculate_charge rc sent received) = 0" using assms by (simp add: charge_per_byte)
  then show ?thesis by (simp add: unat_eq_0)
qed

lemma small_usage_flat:
  assumes "unat sent + unat received \<le> unat included"
  shows "RateCard_calculate_charge (RateCard_flat_rate included fee) sent received = fee"
proof -
  have "\<not> included < sat_add64 sent received"
    using assms unat_bound [of included] by (simp add: word_less_nat_alt unat_sat_add64)
  then show ?thesis by (simp add: RateCard_calculate_charge_def RateCard_flat_rate_def RateCard_default_def Let_def)
qed

lemma flat_fee_per_call:
  assumes "get_rate_card i be = RateCard_flat_rate included fee" and "\<forall>(utc, sent, received) \<in> set us. unat sent + unat received \<le> unat included"
  shows "get_current_charges i (fold (\<lambda>(utc, sent, received). BillingEngine_record_traffic utc i sent received) us be) =
    get_current_charges i be + of_nat (length us) * fee"
  using assms
proof (induction us arbitrary: be)
  case (Cons u us)
  obtain utc sent received where u: "u = (utc, sent, received)" by (cases u)
  let ?be = "BillingEngine_record_traffic utc i sent received be"
  have "RateCard_calculate_charge (get_rate_card i be) sent received = fee"
    using Cons.prems by (simp add: u small_usage_flat)
  then have "get_current_charges i ?be = get_current_charges i be + fee" by (simp add: get_current_charges_def)
  then show ?case using Cons.IH [of ?be] Cons.prems by (simp add: u algebra_simps)
qed simp

section \<open>What is metered\<close>

text \<open>The traffic a limited client is allowed, over a list of readings of the clock and packet sizes.\<close>

fun allowed_bytes :: "(instant \<times> u64) list \<Rightarrow> client_meter \<Rightarrow> nat" where
  "allowed_bytes [] m = 0"
| "allowed_bytes ((now, bytes) # ps) m = (let (r, m') = check_rate_limit now bytes m in
     (if r = MeterAllowed then unat bytes else 0) + allowed_bytes ps m')"

lemma consume_credit:
  assumes "0 \<le> tb_refill_rate b"
  shows "tb_tokens (snd (bucket_consume now bytes b)) + (if fst (bucket_consume now bytes b) = MeterAllowed then of_nat (unat bytes) else 0) \<le>
      tb_tokens b + of_nat (now - tb_last_refill b) / 1000000000 * tb_refill_rate b"
    and "tb_last_refill (snd (bucket_consume now bytes b)) = now" "tb_refill_rate (snd (bucket_consume now bytes b)) = tb_refill_rate b"
    and "0 \<le> tb_tokens b \<Longrightarrow> 0 \<le> tb_capacity b \<Longrightarrow> 0 \<le> tb_tokens (snd (bucket_consume now bytes b)) \<and> tb_capacity (snd (bucket_consume now bytes b)) = tb_capacity b"
  using assms by (simp_all add: bucket_consume_def bucket_refill_def Let_def)

lemma allowed_bytes_bound:
  assumes "cm_rate_limit m = Some cfg" and "0 \<le> tb_refill_rate (cm_token_bucket m)" and "0 \<le> tb_tokens (cm_token_bucket m)" and "0 \<le> tb_capacity (cm_token_bucket m)"
    and "sorted (tb_last_refill (cm_token_bucket m) # map fst ps @ [t])"
  shows "of_nat (allowed_bytes ps m) \<le> tb_tokens (cm_token_bucket m) + of_nat (t - tb_last_refill (cm_token_bucket m)) / 1000000000 * tb_refill_rate (cm_token_bucket m)"
  using assms
proof (induction ps arbitrary: m)
  case Nil
  then show ?case by simp
next
  case (Cons p ps)
  obtain now bytes where p: "p = (now, bytes)" by (cases p)
  let ?b = "cm_token_bucket m"
  let ?c = "bucket_consume now bytes ?b"
  let ?m = "m\<lparr>cm_token_bucket := snd ?c\<rparr>"
  have chk: "check_rate_limit now bytes m = (fst ?c, ?m)" using Cons.prems(1) by (simp add: check_rate_limit_def case_prod_beta)
  note c = consume_credit [OF Cons.prems(2), of now bytes]
  have "of_nat (allowed_bytes ps ?m) \<le> tb_tokens (snd ?c) + of_nat (t - now) / 1000000000 * tb_refill_rate ?b"
    using Cons.IH [of ?m] Cons.prems c by (simp add: p)
  then have "of_nat (allowed_bytes (p # ps) m) \<le> tb_tokens (snd ?c) + (if fst ?c = MeterAllowed then of_nat (unat bytes) else 0) + of_nat (t - now) / 1000000000 * tb_refill_rate ?b"
    by (simp add: p chk)
  also have "\<dots> \<le> tb_tokens ?b + of_nat (now - tb_last_refill ?b) / 1000000000 * tb_refill_rate ?b + of_nat (t - now) / 1000000000 * tb_refill_rate ?b"
    using c(1) by simp
  also have "\<dots> = tb_tokens ?b + of_nat (t - tb_last_refill ?b) / 1000000000 * tb_refill_rate ?b"
  proof -
    have "tb_last_refill ?b \<le> now" "now \<le> t" using Cons.prems(5) by (auto simp: p)
    then have "(of_nat (t - tb_last_refill ?b) :: rat) = of_nat (now - tb_last_refill ?b) + of_nat (t - now)" by (simp add: of_nat_diff)
    then show ?thesis by (simp add: algebra_simps add_divide_distrib)
  qed
  finally show ?case .
qed

text \<open>
  From the moment its limit is set until time \<open>t\<close> a client is allowed at most the burst and the configured rate over
  that period, however it divides its packets.
\<close>

theorem rate_limited_traffic_bound:
  assumes "sorted (now # map fst ps @ [t])"
  shows "(of_nat (allowed_bytes ps (set_rate_limit now (Some cfg) m)) :: rat) \<le>
    of_nat (unat (mr_burst_bytes cfg)) + of_nat (t - now) / 1000000000 * of_nat (unat (mr_bytes_per_second cfg))"
proof -
  let ?b = "TokenBucket_new now (mr_bytes_per_second cfg) (mr_burst_bytes cfg)"
  have m: "cm_rate_limit (set_rate_limit now (Some cfg) m) = Some cfg" "cm_token_bucket (set_rate_limit now (Some cfg) m) = ?b"
    by (simp_all add: set_rate_limit_def)
  have b: "tb_refill_rate ?b = of_nat (unat (mr_bytes_per_second cfg))" "tb_tokens ?b = of_nat (unat (mr_burst_bytes cfg))"
    "tb_capacity ?b = of_nat (unat (mr_burst_bytes cfg))" "tb_last_refill ?b = now"
    by (simp_all only: TokenBucket_new_def token_bucket.simps)
  show ?thesis
    using allowed_bytes_bound [of "set_rate_limit now (Some cfg) m" cfg ps t] assms by (simp only: m b of_nat_0_le_iff simp_thms)
qed

theorem rate_limited_traffic_bound_witness:
  "(of_nat (allowed_bytes [(0, 3), (1000000000, 4), (1000000000, 9)] (set_rate_limit 0 (Some \<lparr>mr_bytes_per_second = 2, mr_burst_bytes = 5\<rparr>) (ClientMeter_new 0 0 ''c''))) :: rat) \<le>
    of_nat (unat (5 :: u64)) + of_nat (1000000000 - 0) / 1000000000 * of_nat (unat (2 :: u64))"
  using rate_limited_traffic_bound [of 0 "[(0, 3), (1000000000, 4), (1000000000, 9)]" 1000000000 "\<lparr>mr_bytes_per_second = 2, mr_burst_bytes = 5\<rparr>" "ClientMeter_new 0 0 ''c''"]
  by simp

text \<open>The global counters are the sums of the clients' counters and of the traffic recorded without a client.\<close>

definition clients_sent :: "exit_node_meter \<Rightarrow> u64" where
  "clients_sent em = sum_list (map (\<lambda>(i, m). bs_bytes_sent (cm_stats m)) (em_client_meters em))"

lemma sum_list_hm_insert:
  assumes "hm_wf m"
  shows "sum_list (map (\<lambda>(k, v). f v) (hm_insert i x m)) = sum_list (map (\<lambda>(k, v). f v) m) + f x - (case hm_get m i of None \<Rightarrow> (0 :: u64) | Some y \<Rightarrow> f y)"
  using assms
proof (induction m)
  case (Cons e m)
  obtain k v where e: "e = (k, v)" by (cases e)
  have wf: "hm_wf m" and new: "hm_get m k = None" using Cons.prems by (auto simp: e hm_wf_def map_of_eq_None_iff)
  show ?case
  proof (cases "k = i")
    case True
    then show ?thesis using new by (simp add: e)
  next
    case False
    then show ?thesis using Cons.IH [OF wf] by (simp add: e algebra_simps)
  qed
qed simp

lemma clients_sent_record:
  assumes "hm_wf (em_client_meters em)"
  shows "clients_sent (record_client_traffic utc now i sent received packets em) = clients_sent em + sent"
  unfolding clients_sent_def record_client_traffic_def Let_def
  by (simp add: sum_list_hm_insert [OF assms, where f = "\<lambda>m. bs_bytes_sent (cm_stats m)"] ClientMeter_record_traffic_def ClientMeter_new_def
      add_traffic_def BandwidthStats_default_def split: option.split)

text \<open>The global limit counts the bytes asked for twice.\<close>

lemma global_limit_counts_twice:
  assumes "em_global_limit em = Some cfg" and "gl_direction cfg = Upload"
    and "unat (bs_bytes_sent (em_global_stats em)) + unat bytes < 2 ^ 64"
  shows "check_global_limit bytes em = MeterAllowed \<longleftrightarrow>
    bytes = 0 \<or> unat (bs_bytes_sent (em_global_stats em)) + 2 * unat bytes \<le> unat (gl_max_bytes cfg)"
proof -
  have "unat (bs_bytes_sent (em_global_stats em) + bytes) = unat (bs_bytes_sent (em_global_stats em)) + unat bytes"
    using assms(3) by (rule unat_plus_small)
  then have "check_global_limit bytes em = MeterAllowed \<longleftrightarrow>
      unat bytes \<le> unat (gl_max_bytes cfg) - (unat (bs_bytes_sent (em_global_stats em)) + unat bytes)"
    using assms(1,2) by (simp add: check_global_limit_def Let_def word_less_nat_alt unat_sat_sub64 not_less)
  also have "\<dots> \<longleftrightarrow> bytes = 0 \<or> unat (bs_bytes_sent (em_global_stats em)) + 2 * unat bytes \<le> unat (gl_max_bytes cfg)"
  proof -
    have "bytes = 0 \<longleftrightarrow> unat bytes = 0" by (simp add: unat_eq_0)
    then show ?thesis by linarith
  qed
  finally show ?thesis .
qed

end
