(* ===== verification/Exit_Handler.thy ===== *)
theory Exit_Handler
  imports Exit_Billing
begin

text \<open>
  The exit node's packet path: \<^verbatim>\<open>crates/a3net-exit-node/src/client.rs\<close>, \<^verbatim>\<open>gateway.rs\<close>, \<^verbatim>\<open>router.rs\<close> (where a packet
  goes) and \<^verbatim>\<open>exit_handler.rs\<close> (the handler that routes, limits, meters, bills and logs each packet).

  The events sent to the event channel are collected in a list of the state when a channel is set. A socket address is
  \<open>ip_addr\<close>; an operation reads each clock once.
\<close>

section \<open>Client, gateway and router\<close>

datatype exit_error = NoActiveGateway | GatewayNotOffered string | GatewayAlreadyAllowed string | ClientNotConfigured

datatype client_state = Unconfigured | Using node_id datetime

record exit_client =
  ec_require_explicit_gateway :: bool
  ec_state :: client_state

definition Client_new :: "bool \<Rightarrow> exit_client" where
  "Client_new explicit = \<lparr>ec_require_explicit_gateway = explicit, ec_state = Unconfigured\<rparr>"

definition use_gateway :: "datetime \<Rightarrow> node_id \<Rightarrow> exit_client \<Rightarrow> client_state \<times> exit_client" where
  "use_gateway utc gw c = (ec_state c, c\<lparr>ec_state := Using gw utc\<rparr>)"

definition unset_gateway :: "exit_client \<Rightarrow> exit_client" where
  "unset_gateway c = c\<lparr>ec_state := Unconfigured\<rparr>"

definition active_gateway :: "exit_client \<Rightarrow> (exit_error, node_id) result" where
  "active_gateway c = (case ec_state c of Unconfigured \<Rightarrow> Inl NoActiveGateway | Using gw _ \<Rightarrow> Inr gw)"

datatype gateway_state = NotOffering | Offering | Disabled

record gateway_advert =
  ga_node_id :: node_id
  ga_endpoint :: string
  ga_advertised_at :: datetime

record gateway =
  gw_state :: gateway_state
  gw_node_id :: node_id

definition Gateway_new :: "node_id \<Rightarrow> gateway" where
  "Gateway_new i = \<lparr>gw_state = NotOffering, gw_node_id = i\<rparr>"

definition Gateway_allow :: "datetime \<Rightarrow> string \<Rightarrow> gateway \<Rightarrow> gateway_advert \<times> gateway" where
  "Gateway_allow utc endpoint g = (\<lparr>ga_node_id = gw_node_id g, ga_endpoint = endpoint, ga_advertised_at = utc\<rparr>, g\<lparr>gw_state := Offering\<rparr>)"

definition Gateway_revoke :: "gateway \<Rightarrow> gateway" where
  "Gateway_revoke g = (case gw_state g of NotOffering \<Rightarrow> g | _ \<Rightarrow> g\<lparr>gw_state := NotOffering\<rparr>)"

definition Gateway_disable :: "gateway \<Rightarrow> gateway" where
  "Gateway_disable g = g\<lparr>gw_state := Disabled\<rparr>"

definition is_offering :: "gateway \<Rightarrow> bool" where
  "is_offering g = (gw_state g = Offering)"

datatype route_action = RouteToMesh | RouteViaGateway node_id | RouteDrop string

fun route_is_forward :: "route_action \<Rightarrow> bool" where
  "route_is_forward (RouteDrop _) = False"
| "route_is_forward _ = True"

record router =
  rt_client :: exit_client
  rt_gateway :: gateway

definition ipv6_octets :: "128 word \<Rightarrow> bytes" where
  "ipv6_octets w = be_bytes 16 (unat w)"

fun is_mesh_address :: "ip_addr \<Rightarrow> bool" where
  "is_mesh_address (V4 a) = (VirtualIpv4_from_std a \<noteq> None)"
| "is_mesh_address (V6 b) = (VirtualIpv6_from_std (ipv6_octets b) \<noteq> None)"

definition route :: "ip_addr \<Rightarrow> router \<Rightarrow> route_action" where
  "route destination r = (if is_mesh_address destination then RouteToMesh
     else case active_gateway (rt_client r) of
       Inr gw \<Rightarrow> RouteViaGateway gw
     | Inl _ \<Rightarrow> RouteDrop ''non-mesh destination with no active gateway'')"

definition require_route :: "ip_addr \<Rightarrow> router \<Rightarrow> (exit_error, route_action) result" where
  "require_route destination r = (case route destination r of RouteDrop _ \<Rightarrow> Inl NoActiveGateway | a \<Rightarrow> Inr a)"

definition Router_is_gateway :: "router \<Rightarrow> bool" where
  "Router_is_gateway r = is_offering (rt_gateway r)"

section \<open>The handler\<close>

datatype traffic_kind = ExitUpload | ExitDownload | MeshLocal

record packet_record =
  pk_source :: node_id
  pk_destination :: ip_addr
  pk_kind :: traffic_kind
  pk_size_bytes :: nat
  pk_timestamp :: datetime

record exit_handler_config =
  hc_enable_metering :: bool
  hc_enable_billing :: bool
  hc_default_rate_limit :: u64
  hc_max_burst_bytes :: u64
  hc_log_packets :: bool

definition ExitHandlerConfig_default :: exit_handler_config where
  "ExitHandlerConfig_default = \<lparr>hc_enable_metering = True, hc_enable_billing = True, hc_default_rate_limit = 10 * 1024 * 1024,
     hc_max_burst_bytes = 5 * 1024 * 1024, hc_log_packets = False\<rparr>"

datatype packet_action = PacketToMesh | PacketViaGateway node_id | PacketDropped | PacketQueued | PacketRateLimited nat

record packet_result =
  pr_allowed :: bool
  pr_action :: packet_action
  pr_bytes :: nat
  pr_drop_reason :: "string option"

definition PacketResult_allowed :: "packet_action \<Rightarrow> nat \<Rightarrow> packet_result" where
  "PacketResult_allowed action bytes = \<lparr>pr_allowed = (action \<noteq> PacketDropped), pr_action = action, pr_bytes = bytes, pr_drop_reason = None\<rparr>"

definition PacketResult_rate_limited :: "nat \<Rightarrow> nat \<Rightarrow> packet_result" where
  "PacketResult_rate_limited wait_ms bytes = \<lparr>pr_allowed = False, pr_action = PacketRateLimited wait_ms, pr_bytes = bytes,
     pr_drop_reason = Some (''rate limited, retry in '' @ show_nat wait_ms @ ''ms'')\<rparr>"

definition PacketResult_dropped :: "string \<Rightarrow> nat \<Rightarrow> packet_result" where
  "PacketResult_dropped reason bytes = \<lparr>pr_allowed = False, pr_action = PacketDropped, pr_bytes = bytes, pr_drop_reason = Some reason\<rparr>"

datatype exit_event =
    TrafficRecorded node_id u64 u64
  | RateLimitHit node_id nat
  | ClientConnected node_id
  | ClientDisconnected node_id
  | GatewayStateChanged gateway_state gateway_state

record exit_handler =
  eh_config :: exit_handler_config
  eh_router :: router
  eh_meter :: exit_node_meter
  eh_billing :: "billing_engine option"
  eh_packet_log :: "packet_record list"
  eh_events :: "exit_event list option"

definition ExitHandler_new :: "datetime \<Rightarrow> exit_handler_config \<Rightarrow> exit_client \<Rightarrow> gateway \<Rightarrow> exit_handler" where
  "ExitHandler_new utc cfg c g = \<lparr>eh_config = cfg, eh_router = \<lparr>rt_client = c, rt_gateway = g\<rparr>, eh_meter = ExitNodeMeter_new utc,
     eh_billing = (if hc_enable_billing cfg then Some BillingEngine_new else None), eh_packet_log = [], eh_events = None\<rparr>"

definition ExitHandler_with_meters :: "exit_handler_config \<Rightarrow> router \<Rightarrow> exit_node_meter \<Rightarrow> billing_engine option \<Rightarrow> exit_handler" where
  "ExitHandler_with_meters cfg r em be = \<lparr>eh_config = cfg, eh_router = r, eh_meter = em, eh_billing = be, eh_packet_log = [], eh_events = None\<rparr>"

definition log_packet :: "datetime \<Rightarrow> node_id \<Rightarrow> ip_addr \<Rightarrow> traffic_kind \<Rightarrow> nat \<Rightarrow> exit_handler \<Rightarrow> exit_handler" where
  "log_packet utc source destination kind sz eh = (if hc_log_packets (eh_config eh) then
     (let log = eh_packet_log eh @ [\<lparr>pk_source = source, pk_destination = destination, pk_kind = kind, pk_size_bytes = sz, pk_timestamp = utc\<rparr>]
      in eh\<lparr>eh_packet_log := (if 10000 < length log then drop 5000 log else log)\<rparr>) else eh)"

definition send_event :: "exit_event \<Rightarrow> exit_handler \<Rightarrow> exit_handler" where
  "send_event e eh = eh\<lparr>eh_events := map_option (\<lambda>es. es @ [e]) (eh_events eh)\<rparr>"

definition wait_ms :: "rat option \<Rightarrow> nat" where
  "wait_ms w = (case w of None \<Rightarrow> 2 ^ 64 - 1 | Some s \<Rightarrow> min (nat \<lfloor>s * 1000\<rfloor>) (2 ^ 64 - 1))"

definition bill_traffic :: "datetime \<Rightarrow> node_id \<Rightarrow> u64 \<Rightarrow> u64 \<Rightarrow> exit_handler \<Rightarrow> exit_handler" where
  "bill_traffic utc i sent received eh = eh\<lparr>eh_billing := map_option (BillingEngine_record_traffic utc i sent received) (eh_billing eh)\<rparr>"

definition meter_traffic :: "datetime \<Rightarrow> instant \<Rightarrow> node_id \<Rightarrow> u64 \<Rightarrow> u64 \<Rightarrow> exit_handler \<Rightarrow> exit_handler" where
  "meter_traffic utc now i sent received eh = (if hc_enable_metering (eh_config eh)
     then send_event (TrafficRecorded i sent received) (eh\<lparr>eh_meter := record_client_traffic utc now i sent received 1 (eh_meter eh)\<rparr>) else eh)"

definition process_packet :: "datetime \<Rightarrow> instant \<Rightarrow> node_id \<Rightarrow> ip_addr \<Rightarrow> nat \<Rightarrow> exit_handler \<Rightarrow> packet_result \<times> exit_handler" where
  "process_packet utc now source destination sz eh = (case route destination (eh_router eh) of
     RouteToMesh \<Rightarrow>
       (let eh = (if hc_enable_metering (eh_config eh) then eh\<lparr>eh_meter := ExitNodeMeter_record_traffic (of_nat sz) 0 1 (eh_meter eh)\<rparr> else eh)
        in (PacketResult_allowed PacketToMesh sz, log_packet utc source destination MeshLocal sz eh))
   | RouteViaGateway gw \<Rightarrow>
       (let (meter, em) = get_or_create_meter utc now source (eh_meter eh);
            (limit, meter) = check_rate_limit now (of_nat sz) meter;
            eh = eh\<lparr>eh_meter := em\<lparr>em_client_meters := hm_insert source meter (em_client_meters em)\<rparr>\<rparr>
        in case limit of
             MeterAllowed \<Rightarrow>
               (let eh = bill_traffic utc source (of_nat sz) 0 (meter_traffic utc now source (of_nat sz) 0 eh)
                in (PacketResult_allowed (PacketViaGateway gw) sz, log_packet utc source destination ExitUpload sz eh))
           | MeterExceeded w \<Rightarrow> (PacketResult_rate_limited (wait_ms w) sz, send_event (RateLimitHit source (wait_ms w)) eh))
   | RouteDrop reason \<Rightarrow> (PacketResult_dropped reason sz, log_packet utc source destination ExitUpload sz eh))"

definition process_return_packet :: "datetime \<Rightarrow> instant \<Rightarrow> node_id \<Rightarrow> ip_addr \<Rightarrow> nat \<Rightarrow> exit_handler \<Rightarrow> packet_result \<times> exit_handler" where
  "process_return_packet utc now destination source sz eh =
     (let eh = bill_traffic utc destination 0 (of_nat sz) (meter_traffic utc now destination 0 (of_nat sz) eh)
      in (PacketResult_allowed PacketToMesh sz, log_packet utc destination source ExitDownload sz eh))"

definition set_event_channel :: "exit_handler \<Rightarrow> exit_handler" where
  "set_event_channel eh = eh\<lparr>eh_events := Some []\<rparr>"

definition get_client_bandwidth :: "node_id \<Rightarrow> exit_handler \<Rightarrow> bandwidth_stats option" where
  "get_client_bandwidth i eh = client_stats (eh_meter eh) i"

definition get_billing_status :: "node_id \<Rightarrow> exit_handler \<Rightarrow> billing_status option" where
  "get_billing_status i eh = map_option (get_status i) (eh_billing eh)"

definition get_packet_log :: "nat \<Rightarrow> exit_handler \<Rightarrow> packet_record list" where
  "get_packet_log limit eh = take limit (rev (eh_packet_log eh))"

definition clear_packet_log :: "exit_handler \<Rightarrow> exit_handler" where
  "clear_packet_log eh = eh\<lparr>eh_packet_log := []\<rparr>"

record exit_handler_snapshot =
  hs_is_gateway :: bool
  hs_gateway_state :: gateway_state
  hs_global_bandwidth :: bandwidth_stats
  hs_tracked_clients :: "node_id list"
  hs_billing_enabled :: bool

definition ExitHandler_snapshot :: "exit_handler \<Rightarrow> exit_handler_snapshot" where
  "ExitHandler_snapshot eh = \<lparr>hs_is_gateway = Router_is_gateway (eh_router eh), hs_gateway_state = gw_state (rt_gateway (eh_router eh)),
     hs_global_bandwidth = em_global_stats (eh_meter eh), hs_tracked_clients = tracked_clients (eh_meter eh), hs_billing_enabled = (eh_billing eh \<noteq> None)\<rparr>"

section \<open>Runs\<close>

datatype exit_op =
    OpUse datetime node_id
  | OpUnset
  | OpAllow datetime string
  | OpGatewayRevoke
  | OpDisable
  | OpPacket datetime instant node_id ip_addr nat
  | OpReturn datetime instant node_id ip_addr nat
  | OpLimit datetime instant node_id "meter_rate_limit option"
  | OpClearLog

definition with_client :: "(exit_client \<Rightarrow> exit_client) \<Rightarrow> exit_handler \<Rightarrow> exit_handler" where
  "with_client f eh = eh\<lparr>eh_router := (eh_router eh)\<lparr>rt_client := f (rt_client (eh_router eh))\<rparr>\<rparr>"

definition with_gateway :: "(gateway \<Rightarrow> gateway) \<Rightarrow> exit_handler \<Rightarrow> exit_handler" where
  "with_gateway f eh = eh\<lparr>eh_router := (eh_router eh)\<lparr>rt_gateway := f (rt_gateway (eh_router eh))\<rparr>\<rparr>"

definition limit_client :: "datetime \<Rightarrow> instant \<Rightarrow> node_id \<Rightarrow> meter_rate_limit option \<Rightarrow> exit_handler \<Rightarrow> exit_handler" where
  "limit_client utc now i l eh = (let (m, em) = get_or_create_meter utc now i (eh_meter eh)
     in eh\<lparr>eh_meter := em\<lparr>em_client_meters := hm_insert i (set_rate_limit now l m) (em_client_meters em)\<rparr>\<rparr>)"

fun exit_step :: "exit_op \<Rightarrow> exit_handler \<Rightarrow> exit_handler" where
  "exit_step (OpUse utc gw) eh = with_client (\<lambda>c. snd (use_gateway utc gw c)) eh"
| "exit_step OpUnset eh = with_client unset_gateway eh"
| "exit_step (OpAllow utc e) eh = with_gateway (\<lambda>g. snd (Gateway_allow utc e g)) eh"
| "exit_step OpGatewayRevoke eh = with_gateway Gateway_revoke eh"
| "exit_step OpDisable eh = with_gateway Gateway_disable eh"
| "exit_step (OpPacket utc now s d sz) eh = snd (process_packet utc now s d sz eh)"
| "exit_step (OpReturn utc now d s sz) eh = snd (process_return_packet utc now d s sz eh)"
| "exit_step (OpLimit utc now i l) eh = limit_client utc now i l eh"
| "exit_step OpClearLog eh = clear_packet_log eh"

text \<open>The gateway the operator chose last.\<close>

fun chosen_step :: "exit_op \<Rightarrow> node_id option \<Rightarrow> node_id option" where
  "chosen_step (OpUse utc gw) c = Some gw"
| "chosen_step OpUnset c = None"
| "chosen_step _ c = c"

lemma router_of_log [simp]: "eh_router (log_packet utc s d k sz eh) = eh_router eh" "eh_router (send_event e eh) = eh_router eh"
  "eh_router (bill_traffic utc i a b eh) = eh_router eh" "eh_router (meter_traffic utc now i a b eh) = eh_router eh"
  by (simp_all add: log_packet_def send_event_def bill_traffic_def meter_traffic_def Let_def)

lemma router_of_packet [simp]: "eh_router (snd (process_packet utc now s d sz eh)) = eh_router eh"
  by (simp add: process_packet_def Let_def case_prod_beta split: route_action.split meter_result.split)

lemma router_of_return [simp]: "eh_router (snd (process_return_packet utc now s d sz eh)) = eh_router eh"
  by (simp add: process_return_packet_def Let_def)

lemma client_tracks_choice:
  "(case active_gateway (rt_client (eh_router eh)) of Inl _ \<Rightarrow> None | Inr gw \<Rightarrow> Some gw) = c \<Longrightarrow>
   (case active_gateway (rt_client (eh_router (fold exit_step ps eh))) of Inl _ \<Rightarrow> None | Inr gw \<Rightarrow> Some gw) = fold chosen_step ps c"
proof (induction ps arbitrary: eh c)
  case (Cons p ps)
  have "(case active_gateway (rt_client (eh_router (exit_step p eh))) of Inl _ \<Rightarrow> None | Inr gw \<Rightarrow> Some gw) = chosen_step p c"
    using Cons.prems by (cases p) (simp_all add: with_client_def with_gateway_def use_gateway_def unset_gateway_def active_gateway_def limit_client_def
        clear_packet_log_def case_prod_beta Let_def)
  then show ?case using Cons.IH by simp
qed simp

lemma packet_action:
  "pr_action (fst (process_packet utc now s d sz eh)) \<in> (case route d (eh_router eh) of
     RouteToMesh \<Rightarrow> {PacketToMesh} | RouteViaGateway gw \<Rightarrow> {PacketViaGateway gw} \<union> range PacketRateLimited | RouteDrop _ \<Rightarrow> {PacketDropped})"
  by (auto simp: process_packet_def Let_def case_prod_beta PacketResult_allowed_def PacketResult_rate_limited_def PacketResult_dropped_def
      split: route_action.split meter_result.split)

text \<open>How a packet to the outside is treated depends on the chosen gateway alone: the state of the node's own gateway is never asked.\<close>

lemma outside_packet_follows_choice:
  assumes "\<not> is_mesh_address d" and "eh = fold exit_step ps (ExitHandler_new utc0 cfg (Client_new explicit) g)"
  shows "case fold chosen_step ps None of
      Some gw \<Rightarrow> pr_action (fst (process_packet utc now s d sz eh)) \<in> {PacketViaGateway gw} \<union> range PacketRateLimited
    | None \<Rightarrow> \<not> pr_allowed (fst (process_packet utc now s d sz eh)) \<and> pr_action (fst (process_packet utc now s d sz eh)) = PacketDropped \<and>
        eh_meter (snd (process_packet utc now s d sz eh)) = eh_meter eh \<and> eh_billing (snd (process_packet utc now s d sz eh)) = eh_billing eh"
proof -
  have "(case active_gateway (rt_client (eh_router (ExitHandler_new utc0 cfg (Client_new explicit) g))) of Inl _ \<Rightarrow> None | Inr gw \<Rightarrow> Some gw) = None"
    by (simp add: ExitHandler_new_def Client_new_def active_gateway_def)
  from client_tracks_choice [OF this, of ps] have gw: "(case active_gateway (rt_client (eh_router eh)) of Inl _ \<Rightarrow> None | Inr gw \<Rightarrow> Some gw) = fold chosen_step ps None"
    using assms(2) by simp
  show ?thesis
  proof (cases "active_gateway (rt_client (eh_router eh))")
    case (Inl e)
    then have "route d (eh_router eh) = RouteDrop ''non-mesh destination with no active gateway''" using assms(1) by (simp add: route_def)
    then show ?thesis using gw Inl
      by (simp add: process_packet_def PacketResult_dropped_def log_packet_def Let_def flip: gw)
  next
    case (Inr v)
    then have "route d (eh_router eh) = RouteViaGateway v" using assms(1) by (simp add: route_def)
    then show ?thesis using gw Inr packet_action [of utc now s d sz eh] by (simp flip: gw)
  qed
qed

text \<open>
  C19. After any run that leaves the node's own gateway in a state other than \<^verbatim>\<open>Disabled\<close>, a packet to an address outside the mesh
  with a gateway chosen is either forwarded through the gateway the operator chose last or held back by the rate limit. With no
  choice it is dropped and neither metered nor billed, whatever state the gateway is in.
\<close>

theorem internet_traffic_needs_chosen_gateway:
  assumes "\<not> is_mesh_address d" and "eh = fold exit_step ps (ExitHandler_new utc0 cfg (Client_new explicit) g)"
  shows "(\<forall>gw. fold chosen_step ps None = Some gw \<and> gw_state (rt_gateway (eh_router eh)) \<noteq> Disabled \<longrightarrow>
      pr_action (fst (process_packet utc now s d sz eh)) \<in> {PacketViaGateway gw} \<union> range PacketRateLimited) \<and>
    (fold chosen_step ps None = None \<longrightarrow>
      \<not> pr_allowed (fst (process_packet utc now s d sz eh)) \<and> pr_action (fst (process_packet utc now s d sz eh)) = PacketDropped \<and>
      eh_meter (snd (process_packet utc now s d sz eh)) = eh_meter eh \<and> eh_billing (snd (process_packet utc now s d sz eh)) = eh_billing eh)"
  using outside_packet_follows_choice [OF assms, of utc now s sz] by (auto split: option.splits)

lemma public_v4: "\<not> is_mesh_address (V4 0x08080808)"
  by (simp add: VirtualIpv4_from_std_def MESH_IPV4_BASE_def MESH_IPV4_COUNT_def MESH_IPV4_PREFIX_LEN_def push_bit_eq_mult)

theorem internet_traffic_needs_chosen_gateway_witness:
  "pr_action (fst (process_packet 0 0 ''s'' (V4 0x08080808) 100
      (fold exit_step [OpUse 0 ''g'', OpUnset] (ExitHandler_new 0 ExitHandlerConfig_default (Client_new True) (Gateway_new ''i''))))) = PacketDropped \<and>
   pr_action (fst (process_packet 0 0 ''s'' (V4 0x08080808) 100
      (fold exit_step [OpUse 0 ''g''] (ExitHandler_new 0 ExitHandlerConfig_default (Client_new True) (Gateway_new ''i''))))) \<in>
     {PacketViaGateway ''g''} \<union> range PacketRateLimited"
proof -
  have "gw_state (rt_gateway (eh_router (fold exit_step [OpUse 0 ''g''] (ExitHandler_new 0 ExitHandlerConfig_default (Client_new True) (Gateway_new ''i''))))) \<noteq> Disabled"
    by (simp add: with_client_def use_gateway_def ExitHandler_new_def Gateway_new_def)
  then show ?thesis
    using internet_traffic_needs_chosen_gateway [OF public_v4 refl, where ps = "[OpUse 0 ''g'', OpUnset]"]
      internet_traffic_needs_chosen_gateway [OF public_v4 refl, where ps = "[OpUse 0 ''g'']"]
    by (simp del: fold_simps exit_step.simps add: fold_simps(1) fold_simps(2) [of chosen_step])
qed

text \<open>
  The documentation of \<^verbatim>\<open>GatewayState::Disabled\<close> says that the router must drop non-mesh traffic then. The router never reads that state:
  a node whose own gateway was disabled after the operator chose another one never drops such a packet.
\<close>

lemma disabled_gateway_still_forwards:
  assumes "\<not> is_mesh_address d" and "eh = fold exit_step [OpUse t gw, OpDisable] (ExitHandler_new utc0 cfg (Client_new explicit) g)"
  shows "gw_state (rt_gateway (eh_router eh)) = Disabled"
    and "route d (eh_router eh) = RouteViaGateway gw"
    and "pr_action (fst (process_packet utc now s d sz eh)) \<noteq> PacketDropped"
proof -
  show "gw_state (rt_gateway (eh_router eh)) = Disabled"
    using assms(2) by (simp add: with_client_def with_gateway_def Gateway_disable_def)
  show "route d (eh_router eh) = RouteViaGateway gw"
    using assms by (simp add: with_client_def with_gateway_def use_gateway_def route_def active_gateway_def)
  show "pr_action (fst (process_packet utc now s d sz eh)) \<noteq> PacketDropped"
    using outside_packet_follows_choice [OF assms, of utc now s sz] by auto
qed

section \<open>Traffic inside the mesh\<close>

text \<open>A packet to the virtual address of any node stays in the mesh.\<close>

lemma virtual_address_routes_to_mesh:
  assumes "VirtualIp_from_node_id hx i = Some vip"
  shows "route (V4 (vi_ipv4 vip)) r = RouteToMesh" and "ipv6_octets w = vi_ipv6 vip \<Longrightarrow> route (V6 w) r = RouteToMesh"
proof -
  have "VirtualIpv4_from_node_id hx i = Some (vi_ipv4 vip)" and "VirtualIpv6_from_node_id hx i = Some (vi_ipv6 vip)"
    using assms by (auto simp: VirtualIp_from_node_id_def split: option.splits)
  then show "route (V4 (vi_ipv4 vip)) r = RouteToMesh" "ipv6_octets w = vi_ipv6 vip \<Longrightarrow> route (V6 w) r = RouteToMesh"
    by (simp_all add: route_def virtual_ipv4_in_range virtual_ipv6_in_range)
qed

section \<open>What packets cost\<close>

definition bills_nothing :: "exit_handler \<Rightarrow> bool" where
  "bills_nothing eh = (case eh_billing eh of None \<Rightarrow> True
     | Some be \<Rightarrow> (\<forall>i. get_rate_card i be = RateCard_default \<and> sum_list (map ur_charge_cents (records_of i be)) = 0))"

fun small_packet :: "exit_op \<Rightarrow> bool" where
  "small_packet (OpPacket _ _ _ _ sz) = (sz < 1048576)"
| "small_packet (OpReturn _ _ _ _ sz) = (sz < 1048576)"
| "small_packet _ = True"

lemma billing_of [simp]: "eh_billing (log_packet utc s d k sz eh) = eh_billing eh" "eh_billing (send_event e eh) = eh_billing eh"
  "eh_billing (meter_traffic utc now i a b eh) = eh_billing eh"
  by (simp_all add: log_packet_def send_event_def meter_traffic_def Let_def)

lemma unat_of_size: "sz < 1048576 \<Longrightarrow> unat (of_nat sz :: u64) = sz"
proof -
  assume "sz < 1048576"
  then have "sz < 2 ^ LENGTH(64)" by simp
  then show ?thesis by (rule unat_of_nat_small)
qed

lemma bill_small:
  assumes "bills_nothing eh" and "unat sent + unat received < 1048576"
  shows "bills_nothing (bill_traffic utc i sent received eh)"
proof (cases "eh_billing eh")
  case (Some be)
  have "RateCard_calculate_charge RateCard_default sent received = 0"
    using assms(2) by (intro small_usage_free) (simp_all add: RateCard_default_def)
  with Some assms(1) show ?thesis by (simp add: bills_nothing_def bill_traffic_def)
qed (simp add: bills_nothing_def bill_traffic_def)

lemma bills_nothing_cong: "eh_billing eh = eh_billing eh' \<Longrightarrow> bills_nothing eh = bills_nothing eh'"
  by (simp add: bills_nothing_def)

lemma packet_billing:
  "eh_billing (snd (process_packet utc now s d sz eh)) \<in> {eh_billing eh, eh_billing (bill_traffic utc s (of_nat sz) 0 eh)}"
  by (auto simp: process_packet_def Let_def case_prod_beta bill_traffic_def split: route_action.split meter_result.split)

lemma bills_nothing_step:
  assumes "bills_nothing eh" and "small_packet p"
  shows "bills_nothing (exit_step p eh)"
proof (cases p)
  case (OpPacket utc now s d sz)
  then have "sz < 1048576" using assms(2) by simp
  then have "unat (of_nat sz :: u64) + unat (0 :: u64) < 1048576" by (simp only: unat_of_size unsigned_0 add_0_right)
  then have billed: "bills_nothing (bill_traffic utc s (of_nat sz) 0 eh)" using assms(1) by (intro bill_small)
  consider "eh_billing (exit_step p eh) = eh_billing eh" | "eh_billing (exit_step p eh) = eh_billing (bill_traffic utc s (of_nat sz) 0 eh)"
    using packet_billing [of utc now s d sz eh] by (auto simp: OpPacket)
  then show ?thesis
  proof cases
    case 1
    with assms(1) show ?thesis by (simp only: bills_nothing_cong [OF 1])
  next
    case 2
    with billed show ?thesis by (simp only: bills_nothing_cong [OF 2])
  qed
next
  case (OpReturn utc now d s sz)
  then have "sz < 1048576" using assms(2) by simp
  then have "unat (0 :: u64) + unat (of_nat sz :: u64) < 1048576" by (simp only: unat_of_size unsigned_0 add_0)
  moreover have "bills_nothing (meter_traffic utc now d 0 (of_nat sz) eh)" using assms(1) bills_nothing_cong by (metis billing_of(3))
  ultimately have "bills_nothing (bill_traffic utc d 0 (of_nat sz) (meter_traffic utc now d 0 (of_nat sz) eh))" by (intro bill_small)
  then show ?thesis using bills_nothing_cong [OF billing_of(1)] by (simp add: OpReturn process_return_packet_def Let_def)
qed (use assms(1) in \<open>simp_all add: bills_nothing_def with_client_def with_gateway_def limit_client_def clear_packet_log_def case_prod_beta Let_def\<close>)

text \<open>
  The handler bills every packet on its own and the charge is rounded down to whole mebibytes: with the default rate card no traffic
  is ever charged, since no packet has a mebibyte.
\<close>

theorem packet_billing_charges_nothing:
  assumes "\<forall>p \<in> set ps. small_packet p"
  shows "case get_billing_status i (fold exit_step ps (ExitHandler_new utc cfg c g)) of None \<Rightarrow> True | Some st \<Rightarrow> bt_charge_cents st = 0"
proof -
  have "bills_nothing (ExitHandler_new utc cfg c g)"
    by (simp add: bills_nothing_def ExitHandler_new_def BillingEngine_new_def get_rate_card_def records_of_def)
  then have "bills_nothing (fold exit_step ps (ExitHandler_new utc cfg c g))" using assms
  proof (induction ps arbitrary: c g utc cfg rule: rev_induct)
    case (snoc p ps)
    then show ?case using bills_nothing_step by simp
  qed simp
  then show ?thesis by (simp add: bills_nothing_def get_billing_status_def get_status_def split: option.splits)
qed

theorem packet_billing_charges_nothing_witness:
  "case get_billing_status ''c'' (fold exit_step [OpUse 0 ''g'', OpPacket 0 0 ''c'' (V4 0x08080808) 65535, OpReturn 0 0 ''c'' (V4 0x08080808) 65535]
      (ExitHandler_new 0 ExitHandlerConfig_default (Client_new True) (Gateway_new ''i''))) of None \<Rightarrow> True | Some st \<Rightarrow> bt_charge_cents st = 0"
  by (rule packet_billing_charges_nothing) simp

section \<open>The default limit\<close>

text \<open>The configured default limit is never applied: a client without a limit of its own is never held back.\<close>

definition no_limits :: "exit_handler \<Rightarrow> bool" where
  "no_limits eh = (\<forall>i m. hm_get (em_client_meters (eh_meter eh)) i = Some m \<longrightarrow> cm_rate_limit m = None)"

lemma meter_without_limit:
  "no_limits eh \<Longrightarrow> cm_rate_limit (fst (get_or_create_meter utc now i (eh_meter eh))) = None"
  by (auto simp: no_limits_def get_or_create_meter_def ClientMeter_new_def Let_def split: option.split)

lemma default_limit_unused:
  assumes "no_limits eh"
  shows "pr_action (fst (process_packet utc now s d sz eh)) \<noteq> PacketRateLimited w"
proof -
  have "check_rate_limit now b (fst (get_or_create_meter utc now s (eh_meter eh))) = (MeterAllowed, fst (get_or_create_meter utc now s (eh_meter eh)))" for b
    using meter_without_limit [OF assms] by (simp add: check_rate_limit_def)
  then show ?thesis
    by (auto simp: process_packet_def Let_def case_prod_beta PacketResult_allowed_def PacketResult_dropped_def split: route_action.split)
qed

lemma no_limits_new: "no_limits (ExitHandler_new utc cfg c g)"
  by (simp add: no_limits_def ExitHandler_new_def ExitNodeMeter_new_def)

end
