(* ===== verification/Reputation.thy ===== *)
theory Reputation
  imports Node Complex_Main
begin

text \<open>
  Peer reputation (\<^verbatim>\<open>a3net-reputation/src/params.rs\<close>, \<^verbatim>\<open>event.rs\<close>, \<^verbatim>\<open>score.rs\<close>, \<^verbatim>\<open>decay.rs\<close>,
  \<^verbatim>\<open>trust.rs\<close>): events, their weights, the sharded table of scores with decay, and the fusion of a
  score with the trust a chat user expressed. A floating-point number is a real number, an infinity or
  not a number; rounding is left out. BLAKE3 and the digest of a delta are arguments, and so is the
  clock. A call that panics returns \<^term>\<open>None\<close>.
\<close>

section \<open>Floating-point numbers\<close>

datatype f64 = Fin real | PosInf | NegInf | NaN

fun f64_add :: "f64 \<Rightarrow> f64 \<Rightarrow> f64" where
  "f64_add NaN _ = NaN"
| "f64_add _ NaN = NaN"
| "f64_add (Fin a) (Fin b) = Fin (a + b)"
| "f64_add (Fin _) y = y"
| "f64_add x (Fin _) = x"
| "f64_add PosInf PosInf = PosInf"
| "f64_add NegInf NegInf = NegInf"
| "f64_add _ _ = NaN"

fun f64_neg :: "f64 \<Rightarrow> f64" where
  "f64_neg (Fin a) = Fin (- a)"
| "f64_neg PosInf = NegInf"
| "f64_neg NegInf = PosInf"
| "f64_neg NaN = NaN"

fun f64_scale :: "real \<Rightarrow> f64 \<Rightarrow> f64" where
  "f64_scale c (Fin a) = Fin (a * c)"
| "f64_scale c PosInf = (if c = 0 then NaN else if 0 < c then PosInf else NegInf)"
| "f64_scale c NegInf = (if c = 0 then NaN else if 0 < c then NegInf else PosInf)"
| "f64_scale c NaN = NaN"

text \<open>The logarithm and the quotient of \<^verbatim>\<open>f64\<close>; the zero a finite quotient divides by is the positive one.\<close>

definition f64_log2 :: "real \<Rightarrow> f64" where
  "f64_log2 x = (if x < 0 then NaN else if x = 0 then NegInf else Fin (log 2 x))"

fun f64_div :: "f64 \<Rightarrow> f64 \<Rightarrow> f64" where
  "f64_div (Fin a) (Fin b) = (if b \<noteq> 0 then Fin (a / b) else if a = 0 then NaN else if 0 < a then PosInf else NegInf)"
| "f64_div (Fin _) PosInf = Fin 0"
| "f64_div (Fin _) NegInf = Fin 0"
| "f64_div PosInf (Fin b) = (if b < 0 then NegInf else PosInf)"
| "f64_div NegInf (Fin b) = (if b < 0 then PosInf else NegInf)"
| "f64_div _ _ = NaN"

fun f64_clamp :: "real \<Rightarrow> real \<Rightarrow> f64 \<Rightarrow> f64" where
  "f64_clamp lo hi (Fin a) = Fin (if a < lo then lo else if hi < a then hi else a)"
| "f64_clamp lo hi PosInf = Fin hi"
| "f64_clamp lo hi NegInf = Fin lo"
| "f64_clamp lo hi NaN = NaN"

fun f64_is_finite :: "f64 \<Rightarrow> bool" where
  "f64_is_finite (Fin _) = True"
| "f64_is_finite _ = False"

fun f64_nonneg :: "f64 \<Rightarrow> bool" where
  "f64_nonneg (Fin a) = (0 \<le> a)"
| "f64_nonneg PosInf = True"
| "f64_nonneg _ = False"

definition F64_EPSILON :: real where
  "F64_EPSILON = 1 / 2 ^ 52"

fun f64_negligible :: "f64 \<Rightarrow> bool" where
  "f64_negligible (Fin a) = (\<bar>a\<bar> < F64_EPSILON)"
| "f64_negligible _ = False"

section \<open>Parameters\<close>

definition MIN_SCORE :: real where "MIN_SCORE = -100"

definition MAX_SCORE :: real where "MAX_SCORE = 100"

datatype behaviour_kind = ProtocolViolation | FreeRider | RelayRefusal | Amplification | AuthFailure | ContentViolation

datatype report_kind = ReportSpam | ReportHarassment | ReportImpersonation | ReportPhishing | ReportOther

record reputation_params =
  weight_valid_message :: real
  weight_first_delivery :: real
  weight_mesh_delivery :: real
  valid_message_cap_per_tick :: real
  weight_invalid_message :: real
  weight_duplicate_message :: real
  weight_slow_peer :: real
  weight_inactive_peer :: real
  weight_behaviour_protocol_violation :: real
  weight_behaviour_free_rider :: real
  weight_behaviour_relay_refusal :: real
  weight_behaviour_amplification :: real
  weight_behaviour_auth_failure :: real
  weight_behaviour_content_violation :: real
  weight_pairing_established :: real
  weight_pairing_revoked :: real
  weight_chat_trust_per_unit :: real
  weight_chat_report_spam :: real
  weight_chat_report_harassment :: real
  weight_chat_report_impersonation :: real
  weight_chat_report_phishing :: real
  weight_chat_report_other :: real
  manual_adjust_cap_per_call :: real
  decay_interval_secs :: u64
  decay_rate :: real
  refusal_threshold :: real
  graylist_threshold :: real
  history_cap :: nat
  shards :: nat
  size_norm_bytes :: real

definition ReputationParams_default :: reputation_params where
  "ReputationParams_default =
     \<lparr>weight_valid_message = 1 / 2, weight_first_delivery = 1, weight_mesh_delivery = 1 / 5,
      valid_message_cap_per_tick = 2, weight_invalid_message = 1, weight_duplicate_message = 1 / 2,
      weight_slow_peer = 1 / 5, weight_inactive_peer = 1 / 10, weight_behaviour_protocol_violation = 2,
      weight_behaviour_free_rider = 3 / 2, weight_behaviour_relay_refusal = 1, weight_behaviour_amplification = 3,
      weight_behaviour_auth_failure = 5 / 2, weight_behaviour_content_violation = 5, weight_pairing_established = 25,
      weight_pairing_revoked = -50, weight_chat_trust_per_unit = 3 / 2, weight_chat_report_spam = 1,
      weight_chat_report_harassment = 2, weight_chat_report_impersonation = 3, weight_chat_report_phishing = 3,
      weight_chat_report_other = 1 / 2, manual_adjust_cap_per_call = 5, decay_interval_secs = 60,
      decay_rate = 1 / 100, refusal_threshold = -10, graylist_threshold = 0, history_cap = 64, shards = 16,
      size_norm_bytes = 1024\<rparr>"

fun behaviour_weight :: "reputation_params \<Rightarrow> behaviour_kind \<Rightarrow> real" where
  "behaviour_weight p ProtocolViolation = weight_behaviour_protocol_violation p"
| "behaviour_weight p FreeRider = weight_behaviour_free_rider p"
| "behaviour_weight p RelayRefusal = weight_behaviour_relay_refusal p"
| "behaviour_weight p Amplification = weight_behaviour_amplification p"
| "behaviour_weight p AuthFailure = weight_behaviour_auth_failure p"
| "behaviour_weight p ContentViolation = weight_behaviour_content_violation p"

fun report_weight :: "reputation_params \<Rightarrow> report_kind \<Rightarrow> real" where
  "report_weight p ReportSpam = weight_chat_report_spam p"
| "report_weight p ReportHarassment = weight_chat_report_harassment p"
| "report_weight p ReportImpersonation = weight_chat_report_impersonation p"
| "report_weight p ReportPhishing = weight_chat_report_phishing p"
| "report_weight p ReportOther = weight_chat_report_other p"

datatype reputation_error =
    InvalidDecayConfig string
  | NonFiniteScore node_id string
  | MalformedSnapshot string

fun is_power_of_two :: "nat \<Rightarrow> bool" where
  "is_power_of_two n = (if n = 0 then False else if n = 1 then True else even n \<and> is_power_of_two (n div 2))"

definition params_validate :: "reputation_params \<Rightarrow> (reputation_error, unit) result" where
  "params_validate p =
     (if decay_interval_secs p = 0 then Inl (InvalidDecayConfig ''decay_interval_secs must be > 0'')
      else if \<not> (0 \<le> decay_rate p \<and> decay_rate p \<le> 1) then Inl (InvalidDecayConfig ''decay_rate must be in [0, 1]'')
      else if shards p = 0 \<or> \<not> is_power_of_two (shards p)
        then Inl (InvalidDecayConfig ''shards must be a power of two and > 0'')
      else if history_cap p = 0 then Inl (InvalidDecayConfig ''history_cap must be > 0'')
      else Inr ())"

section \<open>Events\<close>

datatype invalid_reason = BadSignature | MissingField | UnknownTopic | Oversized | DecodeError | InvalidOther

type_synonym topic_id = "string option"

datatype reputation_event =
    ValidMessage node_id topic_id u32
  | InvalidMessage node_id topic_id invalid_reason
  | DuplicateMessage node_id topic_id
  | FirstMessageDelivery node_id topic_id
  | MeshMessageDelivery node_id topic_id
  | SlowPeer node_id u32 u32
  | InactivePeer node_id
  | BehaviourPenalty node_id behaviour_kind u32
  | PairingEstablished node_id string
  | PairingRevoked node_id string
  | ChatTrustSet node_id u64 "8 word"
  | ChatTrustReport node_id u64 report_kind
  | ManualAdjust node_id f64 string
  | AbsoluteRestore node_id f64 string

fun event_peer :: "reputation_event \<Rightarrow> node_id" where
  "event_peer (ValidMessage p _ _) = p"
| "event_peer (InvalidMessage p _ _) = p"
| "event_peer (DuplicateMessage p _) = p"
| "event_peer (FirstMessageDelivery p _) = p"
| "event_peer (MeshMessageDelivery p _) = p"
| "event_peer (SlowPeer p _ _) = p"
| "event_peer (InactivePeer p) = p"
| "event_peer (BehaviourPenalty p _ _) = p"
| "event_peer (PairingEstablished p _) = p"
| "event_peer (PairingRevoked p _) = p"
| "event_peer (ChatTrustSet p _ _) = p"
| "event_peer (ChatTrustReport p _ _) = p"
| "event_peer (ManualAdjust p _ _) = p"
| "event_peer (AbsoluteRestore p _ _) = p"

fun event_topic :: "reputation_event \<Rightarrow> topic_id" where
  "event_topic (ValidMessage _ t _) = t"
| "event_topic (InvalidMessage _ t _) = t"
| "event_topic (DuplicateMessage _ t) = t"
| "event_topic (FirstMessageDelivery _ t) = t"
| "event_topic (MeshMessageDelivery _ t) = t"
| "event_topic _ = None"

fun kind_tag :: "reputation_event \<Rightarrow> string" where
  "kind_tag (ValidMessage _ _ _) = ''valid_message''"
| "kind_tag (InvalidMessage _ _ _) = ''invalid_message''"
| "kind_tag (DuplicateMessage _ _) = ''duplicate_message''"
| "kind_tag (FirstMessageDelivery _ _) = ''first_message_delivery''"
| "kind_tag (MeshMessageDelivery _ _) = ''mesh_message_delivery''"
| "kind_tag (SlowPeer _ _ _) = ''slow_peer''"
| "kind_tag (InactivePeer _) = ''inactive_peer''"
| "kind_tag (BehaviourPenalty _ _ _) = ''behaviour_penalty''"
| "kind_tag (PairingEstablished _ _) = ''pairing_established''"
| "kind_tag (PairingRevoked _ _) = ''pairing_revoked''"
| "kind_tag (ChatTrustSet _ _ _) = ''chat_trust_set''"
| "kind_tag (ChatTrustReport _ _ _) = ''chat_trust_report''"
| "kind_tag (ManualAdjust _ _ _) = ''manual_adjust''"
| "kind_tag (AbsoluteRestore _ _ _) = ''absolute_restore''"

text \<open>\<^verbatim>\<open>clamp\<close> panics when its bounds are out of order, so a negative cap makes an adjustment panic.\<close>

fun event_delta :: "reputation_params \<Rightarrow> reputation_event \<Rightarrow> f64 option" where
  "event_delta p (ValidMessage _ _ size_bytes) =
     (let norm = f64_div (f64_log2 (real (unat size_bytes) + 1)) (f64_log2 (size_norm_bytes p + 1))
      in Some (f64_scale (weight_valid_message p) norm))"
| "event_delta p (InvalidMessage _ _ _) = Some (Fin (- weight_invalid_message p))"
| "event_delta p (DuplicateMessage _ _) = Some (Fin (- weight_duplicate_message p))"
| "event_delta p (FirstMessageDelivery _ _) = Some (Fin (weight_first_delivery p))"
| "event_delta p (MeshMessageDelivery _ _) = Some (Fin (weight_mesh_delivery p))"
| "event_delta p (SlowPeer _ _ _) = Some (Fin (- weight_slow_peer p))"
| "event_delta p (InactivePeer _) = Some (Fin (- weight_inactive_peer p))"
| "event_delta p (BehaviourPenalty _ b n) = Some (Fin (- behaviour_weight p b * real (unat n)))"
| "event_delta p (PairingEstablished _ _) = Some (Fin (weight_pairing_established p))"
| "event_delta p (PairingRevoked _ _) = Some (Fin (weight_pairing_revoked p))"
| "event_delta p (ChatTrustSet _ _ level) = Some (Fin (weight_chat_trust_per_unit p * real_of_int (sint level)))"
| "event_delta p (ChatTrustReport _ _ r) = Some (Fin (- report_weight p r))"
| "event_delta p (ManualAdjust _ d _) =
     (let cap = manual_adjust_cap_per_call p in if cap < - cap then None else Some (f64_clamp (- cap) cap d))"
| "event_delta p (AbsoluteRestore _ _ _) = Some (Fin 0)"

record reputation_delta =
  rd_peer :: string
  rd_topic_hex :: "string option"
  rd_event :: string
  rd_score_before :: f64
  rd_score_after :: f64
  rd_delta :: f64
  rd_ts_unix :: int
  rd_count :: u64
  rd_event_digest :: string

text \<open>The primitives a table relies on: BLAKE3, and the digest of the canonical JSON of a delta.\<close>

record reputation_env =
  re_blake3 :: "bytes \<Rightarrow> bytes"
  re_digest :: "string \<Rightarrow> string option \<Rightarrow> string \<Rightarrow> f64 \<Rightarrow> int \<Rightarrow> u64 \<Rightarrow> string"

definition ReputationDelta_new ::
  "reputation_env \<Rightarrow> node_id \<Rightarrow> topic_id \<Rightarrow> reputation_event \<Rightarrow> f64 \<Rightarrow> f64 \<Rightarrow> int \<Rightarrow> u64 \<Rightarrow> reputation_delta" where
  "ReputationDelta_new env peer topic event before after ts cnt =
     (let delta = f64_add after (f64_neg before)
      in \<lparr>rd_peer = peer, rd_topic_hex = topic, rd_event = kind_tag event, rd_score_before = before,
          rd_score_after = after, rd_delta = delta, rd_ts_unix = ts, rd_count = cnt,
          rd_event_digest = re_digest env peer topic (kind_tag event) delta ts cnt\<rparr>)"

section \<open>The table of scores\<close>

record peer_score =
  ps_score :: f64
  ps_last_updated :: int
  ps_last_decayed :: int
  ps_positive_count :: u64
  ps_negative_count :: u64
  ps_history :: "reputation_delta list"

definition with_initial_score :: "f64 \<Rightarrow> int \<Rightarrow> peer_score" where
  "with_initial_score initial now =
     \<lparr>ps_score = f64_clamp MIN_SCORE MAX_SCORE initial, ps_last_updated = now, ps_last_decayed = now,
      ps_positive_count = 0, ps_negative_count = 0, ps_history = []\<rparr>"

definition push_delta :: "reputation_delta \<Rightarrow> nat \<Rightarrow> peer_score \<Rightarrow> peer_score" where
  "push_delta d cap ps =
     (let h = (if cap \<le> length (ps_history ps) then drop (length (ps_history ps) + 1 - cap) (ps_history ps)
               else ps_history ps);
          ps' = (if f64_nonneg (rd_delta d) then ps\<lparr>ps_positive_count := sat_add64 (ps_positive_count ps) 1\<rparr>
                 else ps\<lparr>ps_negative_count := sat_add64 (ps_negative_count ps) 1\<rparr>)
      in ps'\<lparr>ps_history := h @ [d]\<rparr>)"

record topic_score =
  ts_score :: f64
  ts_first_deliveries :: u64
  ts_mesh_deliveries :: u64
  ts_invalid_messages :: u64
  ts_duplicate_messages :: u64

definition TopicScore_default :: topic_score where
  "TopicScore_default =
     \<lparr>ts_score = Fin 0, ts_first_deliveries = 0, ts_mesh_deliveries = 0, ts_invalid_messages = 0, ts_duplicate_messages = 0\<rparr>"

fun count_event :: "reputation_event \<Rightarrow> topic_score \<Rightarrow> topic_score" where
  "count_event (FirstMessageDelivery _ _) s = s\<lparr>ts_first_deliveries := sat_add64 (ts_first_deliveries s) 1\<rparr>"
| "count_event (MeshMessageDelivery _ _) s = s\<lparr>ts_mesh_deliveries := sat_add64 (ts_mesh_deliveries s) 1\<rparr>"
| "count_event (InvalidMessage _ _ _) s = s\<lparr>ts_invalid_messages := sat_add64 (ts_invalid_messages s) 1\<rparr>"
| "count_event (DuplicateMessage _ _) s = s\<lparr>ts_duplicate_messages := sat_add64 (ts_duplicate_messages s) 1\<rparr>"
| "count_event _ s = s"

definition TopicScore_apply :: "f64 \<Rightarrow> reputation_event \<Rightarrow> topic_score \<Rightarrow> topic_score" where
  "TopicScore_apply delta event s =
     (let s' = count_event event s
      in s'\<lparr>ts_score := f64_clamp MIN_SCORE MAX_SCORE (f64_add (ts_score s') delta)\<rparr>)"

record score_entry =
  pe_score :: peer_score
  pe_topics :: "(string, topic_score) hmap"

definition PeerEntry_new :: "int \<Rightarrow> score_entry" where
  "PeerEntry_new now = \<lparr>pe_score = with_initial_score (Fin 0) now, pe_topics = []\<rparr>"

type_synonym shard = "(node_id, score_entry) hmap"

record score_table =
  st_shards :: "shard list"
  st_params :: reputation_params

definition PeerScoreTable_new :: "reputation_params \<Rightarrow> score_table option" where
  "PeerScoreTable_new p =
     (case params_validate p of
        Inl _ \<Rightarrow> None
      | Inr _ \<Rightarrow> Some \<lparr>st_shards = replicate (shards p) [], st_params = p\<rparr>)"

text \<open>The first eight bytes of the hash, little endian, masked by the number of shards less one.\<close>

definition shard_for :: "reputation_env \<Rightarrow> node_id \<Rightarrow> score_table \<Rightarrow> nat" where
  "shard_for env peer t =
     unat (and (word_of_nat (be_nat (rev (take 8 (re_blake3 env (str_as_bytes peer))))) :: u64)
               (word_of_nat (length (st_shards t) - 1)))"

definition peer_entry_of :: "reputation_env \<Rightarrow> score_table \<Rightarrow> node_id \<Rightarrow> score_entry option" where
  "peer_entry_of env t peer = hm_get (st_shards t ! shard_for env peer t) peer"

definition PeerScoreTable_score :: "reputation_env \<Rightarrow> score_table \<Rightarrow> node_id \<Rightarrow> f64 option" where
  "PeerScoreTable_score env t peer = map_option (\<lambda>e. ps_score (pe_score e)) (peer_entry_of env t peer)"

definition put_entry :: "reputation_env \<Rightarrow> node_id \<Rightarrow> score_entry \<Rightarrow> score_table \<Rightarrow> score_table" where
  "put_entry env peer e t =
     (let i = shard_for env peer t in t\<lparr>st_shards := (st_shards t)[i := hm_insert peer e (st_shards t ! i)]\<rparr>)"

definition entry_or_insert :: "reputation_env \<Rightarrow> int \<Rightarrow> node_id \<Rightarrow> score_table \<Rightarrow> score_entry" where
  "entry_or_insert env now peer t = (case peer_entry_of env t peer of Some e \<Rightarrow> e | None \<Rightarrow> PeerEntry_new now)"

text \<open>The score set, the time stamped and the delta recorded, as on both paths of an application.\<close>

definition record_score ::
  "reputation_env \<Rightarrow> int \<Rightarrow> reputation_event \<Rightarrow> u64 option \<Rightarrow> f64 \<Rightarrow> nat \<Rightarrow> score_entry \<Rightarrow> reputation_delta \<times> score_entry" where
  "record_score env now event explicit_count after cap entry =
     (let before = ps_score (pe_score entry);
          ps = (pe_score entry)\<lparr>ps_score := after, ps_last_updated := now\<rparr>;
          cnt = (case explicit_count of
                     Some c \<Rightarrow> c
                   | None \<Rightarrow> sat_add64 (sat_add64 (ps_positive_count ps) (ps_negative_count ps)) 1);
          d = ReputationDelta_new env (event_peer event) (event_topic event) event before after now cnt
      in (d, entry\<lparr>pe_score := push_delta d cap ps\<rparr>))"

fun absolute_target :: "reputation_event \<Rightarrow> f64 option" where
  "absolute_target (AbsoluteRestore _ score _) = Some score"
| "absolute_target _ = None"

definition apply_with_count ::
  "reputation_env \<Rightarrow> int \<Rightarrow> reputation_event \<Rightarrow> u64 option \<Rightarrow> score_table \<Rightarrow>
   (reputation_error, reputation_delta) result option \<times> score_table" where
  "apply_with_count env now event explicit_count t =
     (let peer = event_peer event;
          p = st_params t;
          entry = entry_or_insert env now peer t;
          before = ps_score (pe_score entry)
      in case absolute_target event of
           Some score \<Rightarrow>
             (let (d, e) = record_score env now event explicit_count (f64_clamp MIN_SCORE MAX_SCORE score) (history_cap p) entry
              in (Some (Inr d), put_entry env peer e t))
         | None \<Rightarrow>
             (case event_delta p event of
                None \<Rightarrow> (None, put_entry env peer entry t)
              | Some delta \<Rightarrow>
                  (let entry' = (case event_topic event of
                                   Some topic \<Rightarrow>
                                     (let s = (case hm_get (pe_topics entry) topic of Some s \<Rightarrow> s | None \<Rightarrow> TopicScore_default)
                                      in entry\<lparr>pe_topics := hm_insert topic (TopicScore_apply delta event s) (pe_topics entry)\<rparr>)
                                 | None \<Rightarrow> entry);
                       after = f64_clamp MIN_SCORE MAX_SCORE (f64_add before delta)
                   in if \<not> f64_is_finite after
                      then (Some (Inl (NonFiniteScore peer (kind_tag event))), put_entry env peer entry' t)
                      else (let (d, e) = record_score env now event explicit_count after (history_cap p) entry'
                            in (Some (Inr d), put_entry env peer e t)))))"

definition PeerScoreTable_apply ::
  "reputation_env \<Rightarrow> int \<Rightarrow> reputation_event \<Rightarrow> score_table \<Rightarrow>
   (reputation_error, reputation_delta) result option \<times> score_table" where
  "PeerScoreTable_apply env now event t = apply_with_count env now event None t"

definition decay_entry :: "real \<Rightarrow> int \<Rightarrow> score_entry \<Rightarrow> score_entry" where
  "decay_entry factor now e =
     (let before = ps_score (pe_score e)
      in if f64_negligible before then e
         else e\<lparr>pe_score := (pe_score e)\<lparr>ps_score := f64_clamp MIN_SCORE MAX_SCORE (f64_scale factor before), ps_last_decayed := now\<rparr>\<rparr>)"

definition decay_tick :: "int \<Rightarrow> score_table \<Rightarrow> nat \<times> score_table" where
  "decay_tick now t =
     (let rate = decay_rate (st_params t)
      in if rate \<le> 0 then (0, t)
         else (let factor = 1 - (if rate < 0 then 0 else if 1 < rate then 1 else rate);
                   touched = (\<lambda>e. \<not> f64_negligible (ps_score (pe_score e)))
               in (sum_list (map (\<lambda>s. length (filter touched (hm_values s))) (st_shards t)),
                   t\<lparr>st_shards := map (hm_map_values (decay_entry factor now)) (st_shards t)\<rparr>)))"

text \<open>\<^verbatim>\<open>IndexMap::swap_remove\<close>: the last entry takes the place of the removed one.\<close>

fun swap_remove :: "'k \<Rightarrow> ('k, 'v) hmap \<Rightarrow> ('k, 'v) hmap" where
  "swap_remove k [] = []"
| "swap_remove k ((k', v) # m) =
     (if k' = k then (if m = [] then [] else last m # butlast m) else (k', v) # swap_remove k m)"

definition PeerScoreTable_reset :: "reputation_env \<Rightarrow> node_id \<Rightarrow> score_table \<Rightarrow> bool \<times> score_table" where
  "PeerScoreTable_reset env peer t =
     (let i = shard_for env peer t; m = st_shards t ! i
      in (hm_contains m peer, t\<lparr>st_shards := (st_shards t)[i := swap_remove peer m]\<rparr>))"

definition set_score :: "reputation_env \<Rightarrow> int \<Rightarrow> node_id \<Rightarrow> f64 \<Rightarrow> score_table \<Rightarrow> f64 \<times> score_table" where
  "set_score env now peer score t =
     (let clamped = f64_clamp MIN_SCORE MAX_SCORE score;
          e = entry_or_insert env now peer t
      in (clamped, put_entry env peer (e\<lparr>pe_score := (pe_score e)\<lparr>ps_score := clamped, ps_last_updated := now\<rparr>\<rparr>) t))"

text \<open>Keys have one length, so that the order of their texts is that of the numbers they spell.\<close>

definition PeerScoreTable_snapshot :: "score_table \<Rightarrow> (node_id \<times> f64) list" where
  "PeerScoreTable_snapshot t =
     sort_key (\<lambda>(p, _). be_nat (str_as_bytes p))
       (concat (map (\<lambda>s. concat (map (\<lambda>(hex, e). case NodeId_from_hex hex of
                                       Inr node \<Rightarrow> [(node, ps_score (pe_score e))]
                                     | Inl _ \<Rightarrow> []) s)) (st_shards t)))"

definition peer_count :: "score_table \<Rightarrow> nat" where
  "peer_count t = sum_list (map length (st_shards t))"

section \<open>Trust\<close>

datatype trust_level = Trusted | Friend | Known | Neutral | Caution | Untrusted | Blocked

fun TrustLevel_as_i8 :: "trust_level \<Rightarrow> int" where
  "TrustLevel_as_i8 Trusted = 3"
| "TrustLevel_as_i8 Friend = 2"
| "TrustLevel_as_i8 Known = 1"
| "TrustLevel_as_i8 Neutral = 0"
| "TrustLevel_as_i8 Caution = -1"
| "TrustLevel_as_i8 Untrusted = -2"
| "TrustLevel_as_i8 Blocked = -3"

definition TrustLevel_from_i8 :: "int \<Rightarrow> trust_level" where
  "TrustLevel_from_i8 v =
     (if v = 3 then Trusted else if v = 2 then Friend else if v = 1 then Known else if v = 0 then Neutral
      else if v = -1 then Caution else if v = -2 then Untrusted else if v = -3 then Blocked
      else if 3 < v then Trusted else Blocked)"

definition DEFAULT_TRUST_HALFLIFE_HOURS :: nat where "DEFAULT_TRUST_HALFLIFE_HOURS = 48"

record trust_signal =
  sg_by_user :: u64
  sg_peer :: node_id
  sg_level :: trust_level
  sg_updated :: int

definition age_hours :: "int \<Rightarrow> trust_signal \<Rightarrow> nat" where
  "age_hours now s = nat (max (now - sg_updated s) 0) div 3600"

definition decay_factor :: "int \<Rightarrow> nat \<Rightarrow> trust_signal \<Rightarrow> real" where
  "decay_factor now half_life s =
     (if half_life = 0 then 1 else (1 / 2) powr (real (age_hours now s) / real half_life))"

record trust_fusion =
  tf_chat_weight :: real
  tf_global_weight :: real

definition TrustFusion_default :: trust_fusion where
  "TrustFusion_default = \<lparr>tf_chat_weight = 7 / 10, tf_global_weight = 3 / 10\<rparr>"

definition TrustFusion_new :: "real \<Rightarrow> real \<Rightarrow> trust_fusion" where
  "TrustFusion_new c g =
     (if (0 \<le> c \<and> c \<le> 1) \<and> (0 \<le> g \<and> g \<le> 1) \<and> \<bar>c + g - 1\<bar> < 1 / 10 ^ 6
      then \<lparr>tf_chat_weight = c, tf_global_weight = g\<rparr> else TrustFusion_default)"

definition clamp_real :: "real \<Rightarrow> real \<Rightarrow> real \<Rightarrow> real" where
  "clamp_real lo hi x = (if x < lo then lo else if hi < x then hi else x)"

definition normalise :: "real \<Rightarrow> real" where
  "normalise score = tanh (clamp_real (- 3 / 2) (3 / 2) (score / 50))"

definition fused :: "int \<Rightarrow> trust_fusion \<Rightarrow> real \<Rightarrow> trust_signal option \<Rightarrow> real" where
  "fused now f global_score chat_signal =
     (let global_component = normalise global_score * tf_global_weight f;
          chat_component = (case chat_signal of
              Some sig \<Rightarrow> real_of_int (TrustLevel_as_i8 (sg_level sig)) / 3 * decay_factor now DEFAULT_TRUST_HALFLIFE_HOURS sig
                            * tf_chat_weight f
            | None \<Rightarrow> 0)
      in clamp_real (-1) 1 (global_component + chat_component))"

definition should_refuse :: "real \<Rightarrow> real \<Rightarrow> bool" where
  "should_refuse v refusal = (v \<le> refusal)"

section \<open>Lemmas\<close>

lemma shard_for_bound: "st_shards t \<noteq> [] \<Longrightarrow> shard_for env p t < length (st_shards t)"
proof -
  assume ne: "st_shards t \<noteq> []"
  have "unat (word_of_nat (length (st_shards t) - 1) :: u64) \<le> length (st_shards t) - 1"
    unfolding unat_of_nat by (rule mod_less_eq_dividend)
  then have "shard_for env p t \<le> length (st_shards t) - 1"
    unfolding shard_for_def by (rule order_trans [OF word_and_le1 [unfolded word_le_nat_alt]])
  with ne show ?thesis by (cases "st_shards t") auto
qed

lemma shard_for_cong: "length (st_shards t) = length (st_shards t') \<Longrightarrow> shard_for env p t = shard_for env p t'"
  by (simp add: shard_for_def)

lemma shard_for_update [simp]: "shard_for env q (t\<lparr>st_shards := (st_shards t)[i := m]\<rparr>) = shard_for env q t"
  by (rule shard_for_cong) simp

lemma shard_for_map [simp]: "shard_for env q (t\<lparr>st_shards := map f (st_shards t)\<rparr>) = shard_for env q t"
  by (rule shard_for_cong) simp

lemma put_entry_params [simp]:
  "st_params (put_entry env p e t) = st_params t" "shard_for env q (put_entry env p e t) = shard_for env q t"
  by (simp_all add: put_entry_def Let_def)

lemma swap_remove_perm: "hm_wf m \<Longrightarrow> mset (swap_remove k m) = mset (hm_remove k m)"
proof (induction k m rule: swap_remove.induct)
  case (2 k k' v m)
  from 2 have wf: "hm_wf m" and new: "k' \<notin> fst ` set m" by (simp_all add: hm_wf_def)
  from new have "k' = k \<Longrightarrow> hm_remove k m = m" by (simp add: delete_idem)
  moreover have "m \<noteq> [] \<Longrightarrow> add_mset (last m) (mset (butlast m)) = mset m"
    by (metis append_butlast_last_id mset.simps(2) mset_append add_mset_add_single mset.simps(1))
  ultimately show ?case using 2 wf by auto
qed simp

lemma hm_wf_mset: "mset m = mset m' \<Longrightarrow> hm_wf m = hm_wf m'"
  unfolding hm_wf_def by (metis mset_map mset_eq_imp_distinct_iff)

lemma hm_get_mset: "mset m = mset m' \<Longrightarrow> hm_wf m \<Longrightarrow> hm_get m = hm_get m'"
  using hm_wf_mset [of m m'] unfolding hm_wf_def using map_of_inject_set [of m m'] mset_eq_setD [of m m'] by blast

lemma swap_remove_laws:
  assumes "hm_wf m"
  shows "hm_wf (swap_remove k m)" "hm_get (swap_remove k m) = (hm_get m)(k := None)"
    "set (swap_remove k m) \<subseteq> set m"
proof -
  show wf: "hm_wf (swap_remove k m)"
    using swap_remove_perm [OF assms] hm_wf_mset hm_wf_remove [OF assms] by blast
  show "hm_get (swap_remove k m) = (hm_get m)(k := None)"
    unfolding hm_get_mset [OF swap_remove_perm [OF assms] wf] by (rule hm_get_remove)
  show "set (swap_remove k m) \<subseteq> set m"
    using mset_eq_setD [OF swap_remove_perm [OF assms, of k]] set_hm_remove_subset by metis
qed

text \<open>Every peer is kept once, in the shard its hash selects, with a score in range or not a number.\<close>

fun score_ok :: "f64 \<Rightarrow> bool" where
  "score_ok (Fin r) = (MIN_SCORE \<le> r \<and> r \<le> MAX_SCORE)"
| "score_ok NaN = True"
| "score_ok _ = False"

definition shard_ok :: "reputation_env \<Rightarrow> score_table \<Rightarrow> nat \<Rightarrow> shard \<Rightarrow> bool" where
  "shard_ok env t i m \<longleftrightarrow>
     hm_wf m \<and> (\<forall>(p, e) \<in> set m. shard_for env p t = i \<and> score_ok (ps_score (pe_score e)))"

definition table_inv :: "reputation_env \<Rightarrow> score_table \<Rightarrow> bool" where
  "table_inv env t \<longleftrightarrow> st_shards t \<noteq> [] \<and> (\<forall>i < length (st_shards t). shard_ok env t i (st_shards t ! i))"

lemma score_ok_clamp [simp]: "score_ok (f64_clamp MIN_SCORE MAX_SCORE x)"
  by (cases x) (auto simp: MIN_SCORE_def MAX_SCORE_def)

lemma shard_ok_cong: "length (st_shards t) = length (st_shards t') \<Longrightarrow> shard_ok env t = shard_ok env t'"
  using shard_for_cong [of t t'] unfolding shard_ok_def by (intro ext) simp

lemma table_inv_update:
  assumes "table_inv env t" and "shard_ok env t i m"
  shows "table_inv env (t\<lparr>st_shards := (st_shards t)[i := m]\<rparr>)"
proof -
  let ?t = "t\<lparr>st_shards := (st_shards t)[i := m]\<rparr>"
  have "shard_ok env ?t = shard_ok env t" by (rule shard_ok_cong) simp
  with assms show ?thesis by (cases "i < length (st_shards t)") (auto simp: table_inv_def nth_list_update)
qed

lemma table_inv_shard: "table_inv env t \<Longrightarrow> shard_ok env t (shard_for env p t) (st_shards t ! shard_for env p t)"
  by (simp add: table_inv_def shard_for_bound)

lemma shard_ok_insert:
  assumes "shard_ok env t (shard_for env p t) m" and "score_ok (ps_score (pe_score e))"
  shows "shard_ok env t (shard_for env p t) (hm_insert p e m)"
  using assms set_hm_insert_subset [of p e m] unfolding shard_ok_def by fastforce

lemma shard_ok_swap_remove: "shard_ok env t i m \<Longrightarrow> shard_ok env t i (swap_remove k m)"
  unfolding shard_ok_def using swap_remove_laws(1,3) [of m k] by blast

lemma table_inv_put:
  assumes "table_inv env t" and "score_ok (ps_score (pe_score e))"
  shows "table_inv env (put_entry env p e t)"
  unfolding put_entry_def Let_def
  using assms(1) by (rule table_inv_update) (rule shard_ok_insert [OF table_inv_shard [OF assms(1)] assms(2)])

lemma table_inv_reset: "table_inv env t \<Longrightarrow> table_inv env (snd (PeerScoreTable_reset env p t))"
  unfolding PeerScoreTable_reset_def Let_def snd_conv
  by (rule table_inv_update) (auto intro: shard_ok_swap_remove table_inv_shard)

lemma entry_of_update:
  assumes "table_inv env t"
  shows "peer_entry_of env (t\<lparr>st_shards := (st_shards t)[shard_for env p t := m]\<rparr>) q =
    (if shard_for env q t = shard_for env p t then hm_get m q else peer_entry_of env t q)"
  using assms by (auto simp: peer_entry_of_def table_inv_def shard_for_bound)

lemma entry_of_put:
  "table_inv env t \<Longrightarrow> peer_entry_of env (put_entry env p e t) q = (if q = p then Some e else peer_entry_of env t q)"
  unfolding put_entry_def Let_def by (auto simp: entry_of_update) (simp add: peer_entry_of_def)

lemma entry_of_reset:
  assumes "table_inv env t"
  shows "peer_entry_of env (snd (PeerScoreTable_reset env p t)) q = (if q = p then None else peer_entry_of env t q)"
proof -
  have "hm_wf (st_shards t ! shard_for env p t)" using table_inv_shard [OF assms] by (simp add: shard_ok_def)
  then show ?thesis
    unfolding PeerScoreTable_reset_def Let_def snd_conv
    by (auto simp: entry_of_update [OF assms] swap_remove_laws) (simp add: peer_entry_of_def)
qed

text \<open>
  The sharded table keeps the contract of a table with removal.
\<close>

interpretation rep_table: keyed_table "peer_entry_of env" "\<lambda>p t. snd (PeerScoreTable_reset env p t)" "table_inv env" for env
  by unfold_locales (simp_all add: table_inv_reset entry_of_reset)

section \<open>The table as a map of scores\<close>

text \<open>What an event makes of a score, and what the operations of the table mean on a plain map.\<close>

datatype score_op =
    ScoreApply int reputation_event
  | ScoreDecay int
  | ScoreReset node_id
  | ScoreSet int node_id f64

fun table_step :: "reputation_env \<Rightarrow> score_op \<Rightarrow> score_table \<Rightarrow> score_table" where
  "table_step env (ScoreApply now ev) t = snd (PeerScoreTable_apply env now ev t)"
| "table_step env (ScoreDecay now) t = snd (decay_tick now t)"
| "table_step env (ScoreReset p) t = snd (PeerScoreTable_reset env p t)"
| "table_step env (ScoreSet now p x) t = snd (set_score env now p x t)"

definition event_score :: "reputation_params \<Rightarrow> reputation_event \<Rightarrow> f64 \<Rightarrow> f64" where
  "event_score p ev b =
     (case absolute_target ev of
        Some x \<Rightarrow> f64_clamp MIN_SCORE MAX_SCORE x
      | None \<Rightarrow>
          (case event_delta p ev of
             None \<Rightarrow> b
           | Some d \<Rightarrow> (let a = f64_clamp MIN_SCORE MAX_SCORE (f64_add b d) in if f64_is_finite a then a else b)))"

definition decayed :: "real \<Rightarrow> f64 \<Rightarrow> f64" where
  "decayed rate x = (if f64_negligible x then x else f64_clamp MIN_SCORE MAX_SCORE (f64_scale (1 - min rate 1) x))"

fun spec_step :: "reputation_params \<Rightarrow> score_op \<Rightarrow> (node_id \<Rightarrow> f64 option) \<Rightarrow> node_id \<Rightarrow> f64 option" where
  "spec_step p (ScoreApply now ev) m =
     m(event_peer ev \<mapsto> event_score p ev (case m (event_peer ev) of Some x \<Rightarrow> x | None \<Rightarrow> Fin 0))"
| "spec_step p (ScoreDecay now) m = (if decay_rate p \<le> 0 then m else map_option (decayed (decay_rate p)) \<circ> m)"
| "spec_step p (ScoreReset q) m = m(q := None)"
| "spec_step p (ScoreSet now q x) m = m(q \<mapsto> f64_clamp MIN_SCORE MAX_SCORE x)"

lemma push_delta_score [simp]: "ps_score (push_delta d cap ps) = ps_score ps"
  by (simp add: push_delta_def Let_def)

lemma record_score_score [simp]: "ps_score (pe_score (snd (record_score env now ev c after cap e))) = after"
  by (simp add: record_score_def Let_def)

lemma PeerEntry_new_score [simp]: "ps_score (pe_score (PeerEntry_new now)) = Fin 0"
  by (simp add: PeerEntry_new_def with_initial_score_def MIN_SCORE_def MAX_SCORE_def)

lemma apply_puts:
  obtains e where "snd (apply_with_count env now ev c t) = put_entry env (event_peer ev) e t"
    and "ps_score (pe_score e) =
      event_score (st_params t) ev (ps_score (pe_score (entry_or_insert env now (event_peer ev) t)))"
proof -
  have "\<exists>e. snd (apply_with_count env now ev c t) = put_entry env (event_peer ev) e t \<and>
      ps_score (pe_score e) = event_score (st_params t) ev (ps_score (pe_score (entry_or_insert env now (event_peer ev) t)))"
    unfolding apply_with_count_def Let_def event_score_def
    by (cases "absolute_target ev"; cases "event_delta (st_params t) ev"; cases "event_topic ev")
       (auto simp: case_prod_beta)
  then show thesis using that by blast
qed

lemma entry_score:
  "ps_score (pe_score (entry_or_insert env now p t)) = (case PeerScoreTable_score env t p of Some x \<Rightarrow> x | None \<Rightarrow> Fin 0)"
  by (simp add: entry_or_insert_def PeerScoreTable_score_def split: option.splits)

lemma score_put:
  "table_inv env t \<Longrightarrow> PeerScoreTable_score env (put_entry env p e t) = (PeerScoreTable_score env t)(p \<mapsto> ps_score (pe_score e))"
  by (intro ext) (simp add: PeerScoreTable_score_def entry_of_put)

lemma entry_score_ok:
  assumes "table_inv env t" and "peer_entry_of env t p = Some e"
  shows "score_ok (ps_score (pe_score e))"
  using table_inv_shard [OF assms(1), of p] assms(2)
  unfolding shard_ok_def peer_entry_of_def by (auto dest: map_of_SomeD)

lemma score_okD:
  assumes "table_inv env t" and "PeerScoreTable_score env t p = Some x"
  shows "score_ok x"
  using assms entry_score_ok by (auto simp: PeerScoreTable_score_def)

lemma entry_ok: "table_inv env t \<Longrightarrow> score_ok (ps_score (pe_score (entry_or_insert env now p t)))"
  by (auto simp: entry_score MIN_SCORE_def MAX_SCORE_def split: option.split dest: score_okD)

lemma event_score_ok: "score_ok b \<Longrightarrow> score_ok (event_score p ev b)"
  by (auto simp: event_score_def Let_def split: option.split)

lemma apply_inv: "table_inv env t \<Longrightarrow> table_inv env (snd (apply_with_count env now ev c t))"
  by (rule apply_puts [of env now ev c t]) (auto intro!: table_inv_put event_score_ok entry_ok)

lemma apply_score:
  assumes "table_inv env t"
  shows "PeerScoreTable_score env (snd (apply_with_count env now ev c t)) =
    spec_step (st_params t) (ScoreApply now ev) (PeerScoreTable_score env t)"
  by (rule apply_puts [of env now ev c t]) (simp add: score_put [OF assms] entry_score)

lemma apply_params [simp]: "st_params (snd (apply_with_count env now ev c t)) = st_params t"
  by (rule apply_puts [of env now ev c t]) simp

lemma set_score_laws:
  assumes "table_inv env t"
  shows "table_inv env (snd (set_score env now p x t))"
    "PeerScoreTable_score env (snd (set_score env now p x t)) = (PeerScoreTable_score env t)(p \<mapsto> f64_clamp MIN_SCORE MAX_SCORE x)"
    "st_params (snd (set_score env now p x t)) = st_params t"
  using assms by (simp_all add: set_score_def Let_def table_inv_put score_put)

lemma reset_laws:
  assumes "table_inv env t"
  shows "PeerScoreTable_score env (snd (PeerScoreTable_reset env p t)) = (PeerScoreTable_score env t)(p := None)"
    "st_params (snd (PeerScoreTable_reset env p t)) = st_params t"
  using assms by (auto simp: PeerScoreTable_score_def entry_of_reset) (simp add: PeerScoreTable_reset_def Let_def)

lemma decay_entry_score:
  "ps_score (pe_score (decay_entry (1 - min rate 1) now e)) = decayed rate (ps_score (pe_score e))"
  by (simp add: decay_entry_def decayed_def Let_def)

lemma decayed_ok: "score_ok x \<Longrightarrow> score_ok (decayed rate x)"
  by (simp add: decayed_def)

lemma decay_tick_table:
  "snd (decay_tick now t) =
     (if decay_rate (st_params t) \<le> 0 then t
      else t\<lparr>st_shards := map (hm_map_values (decay_entry (1 - min (decay_rate (st_params t)) 1) now)) (st_shards t)\<rparr>)"
  by (auto simp: decay_tick_def Let_def min_def)

lemma decay_laws:
  assumes "table_inv env t"
  shows "table_inv env (snd (decay_tick now t))"
    "PeerScoreTable_score env (snd (decay_tick now t)) = spec_step (st_params t) (ScoreDecay now) (PeerScoreTable_score env t)"
    "st_params (snd (decay_tick now t)) = st_params t"
proof -
  let ?r = "decay_rate (st_params t)"
  let ?f = "decay_entry (1 - min ?r 1) now"
  let ?t = "t\<lparr>st_shards := map (hm_map_values ?f) (st_shards t)\<rparr>"
  have len: "length (st_shards ?t) = length (st_shards t)" by simp
  have ok: "shard_ok env t i m \<Longrightarrow> shard_ok env t i (hm_map_values ?f m)" for i m
    by (auto simp: shard_ok_def hm_map_values_def hm_wf_def comp_def case_prod_beta decay_entry_score decayed_ok)
  have "table_inv env ?t"
    using assms ok unfolding table_inv_def shard_ok_cong [OF len] by simp
  then show "table_inv env (snd (decay_tick now t))" using assms by (simp add: decay_tick_table)
  have "PeerScoreTable_score env ?t q = map_option (decayed ?r) (PeerScoreTable_score env t q)" for q
    using assms by (simp add: PeerScoreTable_score_def peer_entry_of_def table_inv_def shard_for_bound
      option.map_comp comp_def decay_entry_score)
  then show "PeerScoreTable_score env (snd (decay_tick now t)) = spec_step (st_params t) (ScoreDecay now) (PeerScoreTable_score env t)"
    by (auto simp: decay_tick_table)
  show "st_params (snd (decay_tick now t)) = st_params t" by (simp add: decay_tick_table)
qed

lemmas table_step_laws = apply_inv apply_score set_score_laws reset_laws table_inv_reset decay_laws

lemma table_step_refines:
  assumes "table_inv env t"
  shows "table_inv env (table_step env p t)"
    "PeerScoreTable_score env (table_step env p t) = spec_step (st_params t) p (PeerScoreTable_score env t)"
    "st_params (table_step env p t) = st_params t"
  using assms by (cases p; simp add: PeerScoreTable_apply_def table_step_laws)+

lemma table_new:
  assumes "PeerScoreTable_new p = Some t"
  shows "table_inv env t" "PeerScoreTable_score env t = Map.empty" "st_params t = p"
proof -
  from assms have t: "t = \<lparr>st_shards = replicate (shards p) [], st_params = p\<rparr>" and n: "shards p \<noteq> 0"
    by (auto simp: PeerScoreTable_new_def params_validate_def split: sum.splits if_splits)
  then show inv: "table_inv env t" by (simp add: table_inv_def shard_ok_def)
  then have "shard_for env q t < shards p" for q using shard_for_bound [of t] by (simp add: table_inv_def t)
  then show "PeerScoreTable_score env t = Map.empty"
    by (intro ext) (simp add: PeerScoreTable_score_def peer_entry_of_def t)
  show "st_params t = p" by (simp add: t)
qed

interpretation rep_ops: op_machine
  "\<lambda>t. \<exists>p. PeerScoreTable_new p = Some t" "table_step env" "table_inv env" for env
  by unfold_locales (auto simp: table_new table_step_refines(1))

lemma table_run_refines:
  assumes "table_inv env t"
  shows "PeerScoreTable_score env (fold (table_step env) ps t) = fold (spec_step (st_params t)) ps (PeerScoreTable_score env t)"
  using assms by (induction ps arbitrary: t) (simp_all add: table_step_refines)

section \<open>Scores that are numbers\<close>

fun carries_nan :: "score_op \<Rightarrow> bool" where
  "carries_nan (ScoreApply _ (AbsoluteRestore _ x _)) = (x = NaN)"
| "carries_nan (ScoreSet _ _ x) = (x = NaN)"
| "carries_nan _ = False"

lemma finite_clamp [simp]: "f64_is_finite (f64_clamp lo hi x) \<longleftrightarrow> x \<noteq> NaN"
  by (cases x) auto

lemma finite_event_score:
  assumes "f64_is_finite b" and "\<not> carries_nan (ScoreApply now ev)"
  shows "f64_is_finite (event_score p ev b)"
  using assms by (cases ev) (auto simp: event_score_def Let_def split: option.split)

lemma finite_decayed: "f64_is_finite x \<Longrightarrow> f64_is_finite (decayed rate x)"
  by (cases x) (auto simp: decayed_def)

lemma finite_spec_step:
  assumes "\<And>q x. m q = Some x \<Longrightarrow> f64_is_finite x" and "\<not> carries_nan op" and "spec_step p op m q = Some x"
  shows "f64_is_finite x"
proof (cases op)
  case (ScoreApply now ev)
  let ?b = "case m (event_peer ev) of Some x \<Rightarrow> x | None \<Rightarrow> Fin 0"
  have "f64_is_finite ?b" using assms(1) by (cases "m (event_peer ev)") auto
  with assms ScoreApply finite_event_score [of ?b now ev p] show ?thesis by (auto split: if_splits)
qed (use assms in \<open>auto split: if_splits intro: finite_decayed\<close>)

lemma finite_spec_run:
  assumes "\<And>q x. m q = Some x \<Longrightarrow> f64_is_finite x" and "\<forall>op \<in> set ops. \<not> carries_nan op"
    and "fold (spec_step p) ops m q = Some x"
  shows "f64_is_finite x"
  using assms
proof (induction ops arbitrary: m)
  case (Cons a ops)
  from Cons.prems(1,2) have "spec_step p a m q' = Some y \<Longrightarrow> f64_is_finite y" for q' y
    using finite_spec_step [of m a p q' y] by simp
  from Cons.IH [OF this] Cons.prems(2,3) show ?case by simp
qed simp

section \<open>Trust values\<close>

lemma clamp_real_bounds: "lo \<le> hi \<Longrightarrow> lo \<le> clamp_real lo hi x \<and> clamp_real lo hi x \<le> hi"
  by (auto simp: clamp_real_def)

lemma normalise_bounds: "-1 < normalise x" "normalise x < 1"
  by (simp_all add: normalise_def tanh_real_gt_neg1 tanh_real_lt_1)

lemma tanh_1_ge: "2 / 3 \<le> tanh (1 :: real)"
proof -
  have "1 + 2 + 2\<^sup>2 / 2 \<le> exp (2 :: real)" by (rule exp_lower_Taylor_quadratic) simp
  then have "exp (-2 :: real) \<le> 1 / 5" by (simp add: exp_minus field_simps)
  moreover have "0 < 1 + exp (-2 :: real)" by (simp add: add_pos_pos)
  ultimately show ?thesis by (simp add: tanh_real_altdef pos_le_divide_eq divide_le_eq)
qed

lemma normalise_high: "50 \<le> x \<Longrightarrow> 2 / 3 \<le> normalise x"
proof -
  assume "50 \<le> x"
  then have "1 \<le> clamp_real (- 3 / 2) (3 / 2) (x / 50)" by (auto simp: clamp_real_def)
  then have "tanh 1 \<le> normalise x" by (simp add: normalise_def)
  with tanh_1_ge show ?thesis by simp
qed

lemma decay_factor_bounds: "0 \<le> decay_factor now h s" "decay_factor now h s \<le> 1"
  by (auto simp: decay_factor_def powr_le1)

lemma decay_factor_two:
  assumes "2 * h \<le> age_hours now s" and "h \<noteq> 0"
  shows "decay_factor now h s \<le> 1 / 4"
proof -
  have "real (2 * h) \<le> real (age_hours now s)" using assms(1) by (simp only: of_nat_le_iff)
  then have "2 \<le> real (age_hours now s) / real h" using assms(2) by (simp add: field_simps)
  then have "(1 / 2) powr (real (age_hours now s) / real h) \<le> (1 / 2 :: real) powr 2" by (intro powr_mono') auto
  then show ?thesis using assms(2) by (simp add: decay_factor_def power2_eq_square)
qed

section \<open>Properties\<close>

definition demo_reputation_env :: reputation_env where
  "demo_reputation_env = \<lparr>re_blake3 = (\<lambda>bs. bs), re_digest = (\<lambda>_ _ _ _ _ _. [])\<rparr>"

lemma default_params_valid: "params_validate ReputationParams_default = Inr ()"
  by (simp add: params_validate_def ReputationParams_default_def)

lemma default_table:
  "PeerScoreTable_new ReputationParams_default = Some \<lparr>st_shards = replicate 16 [], st_params = ReputationParams_default\<rparr>"
  by (simp add: PeerScoreTable_new_def default_params_valid) (simp add: ReputationParams_default_def)

text \<open>
  C24. Whatever the hash that distributes peers over shards, every sequence of events, decays, resets
  and restored scores leaves the sharded table with exactly the scores of a plain map from peers to scores
  under the same operations. Every score is between -100 and 100 or not a number, and it is a number
  unless an operation restored a score that was none.
\<close>

theorem reputation_table_refines_map:
  assumes "PeerScoreTable_new p = Some t0"
  shows "let t = fold (table_step env) ops t0 in
    PeerScoreTable_score env t = fold (spec_step p) ops Map.empty \<and>
    (\<forall>q x. PeerScoreTable_score env t q = Some x \<longrightarrow>
       score_ok x \<and> ((\<forall>op \<in> set ops. \<not> carries_nan op) \<longrightarrow> f64_is_finite x))"
proof -
  let ?t = "fold (table_step env) ops t0"
  have eq: "PeerScoreTable_score env ?t = fold (spec_step p) ops Map.empty"
    using table_run_refines [of env t0 ops] table_new(1,2) [OF assms, of env] table_new(3) [OF assms] by simp
  have ok: "score_ok x" if "PeerScoreTable_score env ?t q = Some x" for q x
    using rep_ops.inv_run [of t0 env ops] assms that by (blast intro: score_okD)
  have fin: "f64_is_finite x" if "PeerScoreTable_score env ?t q = Some x" "\<forall>op \<in> set ops. \<not> carries_nan op" for q x
    using finite_spec_run [of Map.empty ops p q x] that eq by simp
  from eq ok fin show ?thesis by (simp add: Let_def)
qed

theorem reputation_table_refines_map_witness:
  "PeerScoreTable_score demo_reputation_env
     (fold (table_step demo_reputation_env) [ScoreApply 0 (PairingEstablished ''a'' []), ScoreApply 1 (InvalidMessage ''a'' None DecodeError)]
        \<lparr>st_shards = replicate 16 [], st_params = ReputationParams_default\<rparr>) ''a'' = Some (Fin 24)"
  using reputation_table_refines_map [OF default_table, where env = demo_reputation_env and ops =
      "[ScoreApply 0 (PairingEstablished ''a'' []), ScoreApply 1 (InvalidMessage ''a'' None DecodeError)]"]
  by (simp add: Let_def event_score_def ReputationParams_default_def MIN_SCORE_def MAX_SCORE_def)

text \<open>
  A peer whose score was restored to a value that is not a number keeps it: every further event is
  refused, decay does not change it, and no penalty applies any more.
\<close>

theorem nan_score_sticks:
  assumes "table_inv env t" and "PeerScoreTable_score env t (event_peer ev) = Some NaN"
    and "absolute_target ev = None" and "0 \<le> manual_adjust_cap_per_call (st_params t)"
  shows "fst (PeerScoreTable_apply env now ev t) = Some (Inl (NonFiniteScore (event_peer ev) (kind_tag ev)))"
    and "PeerScoreTable_score env (snd (PeerScoreTable_apply env now ev t)) (event_peer ev) = Some NaN"
    and "PeerScoreTable_score env (snd (decay_tick now t)) (event_peer ev) = Some NaN"
proof -
  have b: "ps_score (pe_score (entry_or_insert env now (event_peer ev) t)) = NaN" using assms(2) by (simp add: entry_score)
  obtain d where d: "event_delta (st_params t) ev = Some d" using assms(3,4) by (cases ev) (auto simp: Let_def)
  show "fst (PeerScoreTable_apply env now ev t) = Some (Inl (NonFiniteScore (event_peer ev) (kind_tag ev)))"
    using assms(3) by (simp add: PeerScoreTable_apply_def apply_with_count_def Let_def b d)
  show "PeerScoreTable_score env (snd (PeerScoreTable_apply env now ev t)) (event_peer ev) = Some NaN"
    using assms by (simp add: PeerScoreTable_apply_def apply_score event_score_def d Let_def)
  show "PeerScoreTable_score env (snd (decay_tick now t)) (event_peer ev) = Some NaN"
    using assms by (simp add: decay_laws decayed_def)
qed

text \<open>
  The fused trust value is between -1 and 1. With the default weights a user's block of a peer decides
  while it is fresh: the value is below -0.4 whatever the score. After four days it no longer does: a
  peer with a score of 50 or more has a positive value although the user still blocks it.
\<close>

theorem block_fades:
  assumes "sg_level sig = Blocked"
  shows "-1 \<le> fused now f x s" "fused now f x s \<le> 1"
    and "age_hours now sig = 0 \<Longrightarrow> fused now TrustFusion_default x (Some sig) < -2 / 5"
    and "96 \<le> age_hours now sig \<Longrightarrow> 50 \<le> x \<Longrightarrow> 0 < fused now TrustFusion_default x (Some sig)"
proof -
  show "-1 \<le> fused now f x s" "fused now f x s \<le> 1"
    using clamp_real_bounds [of "-1" 1] by (simp_all add: fused_def Let_def)
  show "fused now TrustFusion_default x (Some sig) < -2 / 5" if "age_hours now sig = 0"
    using that normalise_bounds [of x] assms
    by (auto simp: fused_def Let_def TrustFusion_default_def decay_factor_def DEFAULT_TRUST_HALFLIFE_HOURS_def clamp_real_def)
  show "0 < fused now TrustFusion_default x (Some sig)" if "96 \<le> age_hours now sig" "50 \<le> x"
    using decay_factor_two [of 48 now sig] that normalise_high [of x] assms
    by (auto simp: fused_def Let_def TrustFusion_default_def DEFAULT_TRUST_HALFLIFE_HOURS_def clamp_real_def)
qed

end
