(* ===== verification/Reputation_Store.thy ===== *)
theory Reputation_Store
  imports Reputation
begin

text \<open>
  The persistent reputation store (\<^verbatim>\<open>a3net-reputation/src/store.rs\<close>): the append-only log of deltas, the
  snapshot of scores, their recovery, and the rotation of the log. A line of the log that the store
  wrote stands for the delta in it; JSON has no notation for infinities and NaN, which are written as
  \<^verbatim>\<open>null\<close> and cannot be read back. File system calls succeed; the clock and the hash functions
  are arguments.
\<close>

section \<open>The files\<close>

datatype log_line = JsonLine reputation_delta | ForeignLine bytes

definition delta_readable :: "reputation_delta \<Rightarrow> bool" where
  "delta_readable d = (f64_is_finite (rd_score_before d) \<and> f64_is_finite (rd_score_after d) \<and> f64_is_finite (rd_delta d))"

fun parse_line :: "log_line \<Rightarrow> reputation_delta option" where
  "parse_line (JsonLine d) = (if delta_readable d then Some d else None)"
| "parse_line (ForeignLine _) = None"

record state_file =
  sf_schema_version :: u32
  sf_last_ts_unix :: int
  sf_chain_digest :: bytes
  sf_params :: reputation_params
  sf_entries :: "(string \<times> f64) list"

datatype snapshot_file = StateJson state_file | ForeignFile bytes

fun parse_state :: "snapshot_file \<Rightarrow> state_file option" where
  "parse_state (StateJson s) = (if list_all (\<lambda>(_, x). f64_is_finite x) (sf_entries s) then Some s else None)"
| "parse_state (ForeignFile _) = None"

record rep_disk =
  dk_snapshot :: "snapshot_file option"
  dk_log :: "log_line list option"

record store_config =
  sc_path :: string
  sc_fsync :: bool
  sc_snapshot_every :: u64
  sc_max_log_bytes :: u64

definition ReputationStoreConfig_default :: store_config where
  "ReputationStoreConfig_default =
     \<lparr>sc_path = ''./reputation'', sc_fsync = False, sc_snapshot_every = 256, sc_max_log_bytes = 4 * 1024 * 1024\<rparr>"

record store_env = reputation_env +
  se_keyed :: "bytes \<Rightarrow> bytes \<Rightarrow> bytes"
  se_json :: "reputation_delta \<Rightarrow> bytes"

record rep_store =
  rs_config :: store_config
  rs_table :: score_table
  rs_pending :: u64
  rs_chain_hash :: "bytes option"

section \<open>Operations\<close>

definition base_env :: "store_env \<Rightarrow> reputation_env" where
  "base_env env = \<lparr>re_blake3 = re_blake3 env, re_digest = re_digest env\<rparr>"

definition I64_MIN :: int where "I64_MIN = - (2 ^ 63)"

fun load_entries :: "store_env \<Rightarrow> int \<Rightarrow> int \<Rightarrow> (string \<times> f64) list \<Rightarrow> int \<times> score_table \<Rightarrow> int \<times> score_table" where
  "load_entries env now last_ts_unix [] (last_ts, t) = (last_ts, t)"
| "load_entries env now last_ts_unix ((peer, score) # es) (last_ts, t) =
     (case NodeId_from_hex peer of
        Inr node \<Rightarrow> load_entries env now last_ts_unix es (max last_ts last_ts_unix, snd (set_score (base_env env) now node score t))
      | Inl _ \<Rightarrow> load_entries env now last_ts_unix es (last_ts, t))"

definition load_snapshot ::
  "store_env \<Rightarrow> int \<Rightarrow> string \<Rightarrow> snapshot_file \<Rightarrow> score_table \<Rightarrow> (reputation_error, int \<times> score_table) result" where
  "load_snapshot env now path f t =
     (case parse_state f of
        None \<Rightarrow> Inl (MalformedSnapshot path)
      | Some s \<Rightarrow> Inr (load_entries env now (sf_last_ts_unix s) (sf_entries s) (I64_MIN, t)))"

definition replay_event :: "string \<Rightarrow> node_id \<Rightarrow> reputation_event option" where
  "replay_event kind node =
     (if kind = ''valid_message'' then Some (ValidMessage node None 0)
      else if kind = ''invalid_message'' then Some (InvalidMessage node None InvalidOther)
      else None)"

definition replay_line :: "store_env \<Rightarrow> int \<Rightarrow> int \<Rightarrow> log_line \<Rightarrow> u64 \<times> score_table \<Rightarrow> u64 \<times> score_table" where
  "replay_line env now snapshot_ts line s =
     (case parse_line line of
        None \<Rightarrow> s
      | Some d \<Rightarrow>
          if rd_ts_unix d \<le> snapshot_ts then s
          else (fst s + 1,
                case NodeId_from_hex (rd_peer d) of
                  Inl _ \<Rightarrow> snd s
                | Inr node \<Rightarrow>
                    (case replay_event (rd_event d) node of
                       None \<Rightarrow> snd s
                     | Some ev \<Rightarrow> snd (apply_with_count (base_env env) now ev (Some (rd_count d)) (snd s)))))"

definition replay_deltas :: "store_env \<Rightarrow> int \<Rightarrow> log_line list \<Rightarrow> int \<Rightarrow> score_table \<Rightarrow> u64 \<times> score_table" where
  "replay_deltas env now ls snapshot_ts t = fold (replay_line env now snapshot_ts) ls (0, t)"

definition ReputationStore_open ::
  "store_env \<Rightarrow> int \<Rightarrow> store_config \<Rightarrow> rep_disk \<Rightarrow> ((reputation_error, rep_store) result \<times> rep_disk) option" where
  "ReputationStore_open env now cfg disk =
     (case PeerScoreTable_new ReputationParams_default of
        None \<Rightarrow> None
      | Some t0 \<Rightarrow>
          Some (case (case dk_snapshot disk of
                        Some f \<Rightarrow> load_snapshot env now (sc_path cfg) f t0
                      | None \<Rightarrow> Inr (I64_MIN, t0)) of
                  Inl e \<Rightarrow> (Inl e, disk)
                | Inr (ts, t1) \<Rightarrow>
                    (let (pending, t2) = (case dk_log disk of Some ls \<Rightarrow> replay_deltas env now ls ts t1 | None \<Rightarrow> (0, t1))
                     in (Inr \<lparr>rs_config = cfg, rs_table = t2, rs_pending = pending, rs_chain_hash = None\<rparr>,
                         disk\<lparr>dk_log := Some (case dk_log disk of Some ls \<Rightarrow> ls | None \<Rightarrow> [])\<rparr>))))"

definition append_delta :: "store_env \<Rightarrow> reputation_delta \<Rightarrow> rep_store \<times> rep_disk \<Rightarrow> rep_store \<times> rep_disk" where
  "append_delta env d sd =
     (let (s, disk) = sd;
          ls = (case dk_log disk of Some l \<Rightarrow> l | None \<Rightarrow> []);
          prev = (case rs_chain_hash s of
                    Some h \<Rightarrow> h
                  | None \<Rightarrow> re_blake3 env (str_as_bytes (''snapshot:'' @ sc_path (rs_config s))))
      in (s\<lparr>rs_chain_hash := Some (se_keyed env prev (se_json env d @ [10]))\<rparr>,
          disk\<lparr>dk_log := Some (ls @ [JsonLine d])\<rparr>))"

fun line_bytes :: "store_env \<Rightarrow> log_line \<Rightarrow> nat" where
  "line_bytes env (JsonLine d) = length (se_json env d) + 1"
| "line_bytes env (ForeignLine bs) = length bs + 1"

definition maybe_rotate_log :: "store_env \<Rightarrow> rep_store \<Rightarrow> rep_disk \<Rightarrow> rep_disk" where
  "maybe_rotate_log env s disk =
     (case dk_log disk of
        None \<Rightarrow> disk
      | Some ls \<Rightarrow>
          if sum_list (map (line_bytes env) ls) \<le> unat (sc_max_log_bytes (rs_config s)) then disk
          else disk\<lparr>dk_log := Some []\<rparr>)"

definition write_snapshot :: "store_env \<Rightarrow> int \<Rightarrow> rep_store \<times> rep_disk \<Rightarrow> rep_store \<times> rep_disk" where
  "write_snapshot env now sd =
     (let (s, disk) = sd;
          chain = (case rs_chain_hash s of
                     Some h \<Rightarrow> h
                   | None \<Rightarrow> re_blake3 env (str_as_bytes (''empty:'' @ show_int now)));
          state = \<lparr>sf_schema_version = 1, sf_last_ts_unix = now, sf_chain_digest = chain,
                   sf_params = st_params (rs_table s), sf_entries = PeerScoreTable_snapshot (rs_table s)\<rparr>;
          s' = s\<lparr>rs_pending := 0, rs_chain_hash := None\<rparr>;
          disk' = disk\<lparr>dk_snapshot := Some (StateJson state)\<rparr>
      in (s', if sc_max_log_bytes (rs_config s) > 0 then maybe_rotate_log env s' disk' else disk'))"

definition ReputationStore_apply ::
  "store_env \<Rightarrow> int \<Rightarrow> reputation_event \<Rightarrow> rep_store \<times> rep_disk \<Rightarrow>
   (reputation_error, reputation_delta) result option \<times> rep_store \<times> rep_disk" where
  "ReputationStore_apply env now event sd =
     (let (s, disk) = sd;
          (r, t) = PeerScoreTable_apply (base_env env) now event (rs_table s);
          s1 = s\<lparr>rs_table := t\<rparr>
      in case r of
           None \<Rightarrow> (None, s1, disk)
         | Some (Inl e) \<Rightarrow> (Some (Inl e), s1, disk)
         | Some (Inr d) \<Rightarrow>
             (let (s2, disk2) = append_delta env d (s1, disk);
                  s3 = s2\<lparr>rs_pending := sat_add64 (rs_pending s2) 1\<rparr>;
                  every = sc_snapshot_every (rs_config s3)
              in if 0 < every \<and> every \<le> rs_pending s3 then (Some (Inr d), write_snapshot env now (s3, disk2))
                 else (Some (Inr d), s3, disk2)))"

definition ReputationStore_flush :: "store_env \<Rightarrow> int \<Rightarrow> rep_store \<times> rep_disk \<Rightarrow> rep_store \<times> rep_disk" where
  "ReputationStore_flush env now sd = write_snapshot env now sd"

text \<open>A reset goes to the table behind the store and touches no file.\<close>

definition store_reset :: "store_env \<Rightarrow> node_id \<Rightarrow> rep_store \<times> rep_disk \<Rightarrow> rep_store \<times> rep_disk" where
  "store_reset env p sd = ((fst sd)\<lparr>rs_table := snd (PeerScoreTable_reset (base_env env) p (rs_table (fst sd)))\<rparr>, snd sd)"

definition store_decay :: "int \<Rightarrow> rep_store \<times> rep_disk \<Rightarrow> rep_store \<times> rep_disk" where
  "store_decay now sd = ((fst sd)\<lparr>rs_table := snd (decay_tick now (rs_table (fst sd)))\<rparr>, snd sd)"

section \<open>Lemmas\<close>

abbreviation store_score :: "store_env \<Rightarrow> rep_store \<Rightarrow> node_id \<Rightarrow> f64 option" where
  "store_score env s \<equiv> PeerScoreTable_score (base_env env) (rs_table s)"

lemma in_shards:
  assumes "table_inv env t"
  shows "(\<exists>m \<in> set (st_shards t). (p, e) \<in> set m) \<longleftrightarrow> peer_entry_of env t p = Some e"
proof
  assume "\<exists>m \<in> set (st_shards t). (p, e) \<in> set m"
  then obtain i where i: "i < length (st_shards t)" "(p, e) \<in> set (st_shards t ! i)" by (metis in_set_conv_nth)
  with assms have "shard_ok env t i (st_shards t ! i)" by (simp add: table_inv_def)
  with i have "shard_for env p t = i" and "hm_wf (st_shards t ! i)" by (auto simp: shard_ok_def)
  with i show "peer_entry_of env t p = Some e" by (simp add: peer_entry_of_def hm_set_eq_get [symmetric])
next
  assume "peer_entry_of env t p = Some e"
  then show "\<exists>m \<in> set (st_shards t). (p, e) \<in> set m"
    using assms shard_for_bound [of t env p] unfolding peer_entry_of_def table_inv_def
    by (meson map_of_SomeD nth_mem)
qed

definition keys_valid :: "reputation_env \<Rightarrow> score_table \<Rightarrow> bool" where
  "keys_valid env t \<longleftrightarrow> (\<forall>p \<in> dom (PeerScoreTable_score env t). NodeId_from_hex p = Inr p)"

lemma set_snapshot:
  assumes "table_inv env t" and "keys_valid env t"
  shows "(p, x) \<in> set (PeerScoreTable_snapshot t) \<longleftrightarrow> PeerScoreTable_score env t p = Some x"
proof -
  have "(p, x) \<in> set (PeerScoreTable_snapshot t) \<longleftrightarrow>
      (\<exists>hex e. (\<exists>m \<in> set (st_shards t). (hex, e) \<in> set m) \<and> NodeId_from_hex hex = Inr p \<and> x = ps_score (pe_score e))"
    by (auto simp: PeerScoreTable_snapshot_def split: sum.splits) (force split: sum.splits)+
  also have "\<dots> \<longleftrightarrow> (\<exists>hex e. peer_entry_of env t hex = Some e \<and> NodeId_from_hex hex = Inr p \<and> x = ps_score (pe_score e))"
    by (simp only: in_shards [OF assms(1)])
  also have "\<dots> \<longleftrightarrow> PeerScoreTable_score env t p = Some x"
    using assms(2) by (force simp: keys_valid_def PeerScoreTable_score_def dom_def)
  finally show ?thesis .
qed

lemma map_of_graph:
  assumes "\<And>p x. (p, x) \<in> set l \<longleftrightarrow> f p = Some x"
  shows "map_of l = f"
proof
  fix p
  show "map_of l p = f p"
  proof (cases "map_of l p")
    case None
    then have "p \<notin> fst ` set l" by (simp add: map_of_eq_None_iff)
    then have "f p = None" using assms [of p "the (f p)"] by (cases "f p") (auto dest: in_keysI)
    with None show ?thesis by simp
  next
    case (Some x)
    then show ?thesis using assms map_of_SomeD by fastforce
  qed
qed

lemma clamp_in_range: "score_ok x \<Longrightarrow> f64_clamp MIN_SCORE MAX_SCORE x = x"
  by (cases x) auto

lemma load_entries_run:
  assumes "table_inv (base_env env) t" and "\<And>p x. (p, x) \<in> set es \<Longrightarrow> NodeId_from_hex p = Inr p \<and> score_ok x"
  shows "let (l', t') = load_entries env now ts es (l, t) in
    table_inv (base_env env) t' \<and> st_params t' = st_params t \<and> l' = (if es = [] then l else max l ts) \<and>
    PeerScoreTable_score (base_env env) t' = PeerScoreTable_score (base_env env) t ++ map_of (rev es)"
  using assms
proof (induction es arbitrary: l t)
  case (Cons e es)
  obtain p x where e: "e = (p, x)" by (cases e)
  have px: "NodeId_from_hex p = Inr p" "f64_clamp MIN_SCORE MAX_SCORE x = x"
    using Cons.prems(2) [of p x] clamp_in_range by (auto simp: e)
  let ?t = "snd (set_score (base_env env) now p x t)"
  have inv: "table_inv (base_env env) ?t" using Cons.prems(1) by (rule set_score_laws)
  have es: "\<And>p x. (p, x) \<in> set es \<Longrightarrow> NodeId_from_hex p = Inr p \<and> score_ok x" using Cons.prems(2) by (meson list.set_intros(2))
  have sc: "PeerScoreTable_score (base_env env) ?t = PeerScoreTable_score (base_env env) t ++ [p \<mapsto> x]"
    using px(2) by (simp add: set_score_laws(2) [OF Cons.prems(1)])
  from Cons.IH [OF inv es, of "max l ts"] show ?case
    by (simp add: e px sc set_score_laws(3) [OF Cons.prems(1)] Let_def case_prod_beta del: map_add_upd)
qed simp

lemma load_entries_laws:
  assumes "table_inv (base_env env) t" and "\<And>p x. (p, x) \<in> set es \<Longrightarrow> NodeId_from_hex p = Inr p \<and> score_ok x"
  shows "table_inv (base_env env) (snd (load_entries env now ts es (l, t)))"
    "PeerScoreTable_score (base_env env) (snd (load_entries env now ts es (l, t))) =
       PeerScoreTable_score (base_env env) t ++ map_of (rev es)"
    "fst (load_entries env now ts es (l, t)) = (if es = [] then l else max l ts)"
  using load_entries_run [OF assms, where now = now and ts = ts and l = l] by (simp_all add: case_prod_beta Let_def)

section \<open>Runs of a store\<close>

datatype store_event =
    StoreApply reputation_event
  | StoreReset node_id
  | StoreDecay
  | StoreFlush

fun rep_store_step :: "store_env \<Rightarrow> int \<times> store_event \<Rightarrow> rep_store \<times> rep_disk \<Rightarrow> rep_store \<times> rep_disk" where
  "rep_store_step env (now, StoreApply ev) sd = snd (ReputationStore_apply env now ev sd)"
| "rep_store_step env (now, StoreReset p) sd = store_reset env p sd"
| "rep_store_step env (now, StoreDecay) sd = store_decay now sd"
| "rep_store_step env (now, StoreFlush) sd = ReputationStore_flush env now sd"

definition empty_disk :: rep_disk where
  "empty_disk = \<lparr>dk_snapshot = None, dk_log = None\<rparr>"

definition log_lines :: "rep_disk \<Rightarrow> log_line list" where
  "log_lines disk = (case dk_log disk of Some ls \<Rightarrow> ls | None \<Rightarrow> [])"

text \<open>What an operation does to the table and to the files.\<close>

lemma write_snapshot_parts:
  "rs_table (fst (write_snapshot env now (s, disk))) = rs_table s"
  "set (log_lines (snd (write_snapshot env now (s, disk)))) \<subseteq> set (log_lines disk)"
  "dk_snapshot (snd (write_snapshot env now (s, disk))) =
     Some (StateJson \<lparr>sf_schema_version = 1, sf_last_ts_unix = now,
       sf_chain_digest = (case rs_chain_hash s of Some h \<Rightarrow> h | None \<Rightarrow> re_blake3 env (str_as_bytes (''empty:'' @ show_int now))),
       sf_params = st_params (rs_table s), sf_entries = PeerScoreTable_snapshot (rs_table s)\<rparr>)"
  by (auto simp: write_snapshot_def maybe_rotate_log_def log_lines_def Let_def split: option.splits if_splits)

lemma apply_delta_fields:
  assumes "PeerScoreTable_apply env now ev t = (Some (Inr d), t')"
  shows "rd_ts_unix d = now" "rd_event d = kind_tag ev"
  using assms
  by (auto simp: PeerScoreTable_apply_def apply_with_count_def Let_def record_score_def ReputationDelta_new_def
    split: option.splits if_splits)

lemma store_apply_parts:
  "rs_table (fst (snd (ReputationStore_apply env now ev (s, disk)))) = snd (PeerScoreTable_apply (base_env env) now ev (rs_table s))"
  "\<exists>ls. set ls \<subseteq> {JsonLine d | d. rd_ts_unix d = now \<and> rd_event d = kind_tag ev} \<and>
     set (log_lines (snd (snd (ReputationStore_apply env now ev (s, disk))))) \<subseteq> set (log_lines disk) \<union> set ls"
proof -
  let ?r = "PeerScoreTable_apply (base_env env) now ev (rs_table s)"
  show "rs_table (fst (snd (ReputationStore_apply env now ev (s, disk)))) = snd ?r"
    by (cases ?r) (auto simp: ReputationStore_apply_def append_delta_def Let_def write_snapshot_parts
      split: option.split sum.split)
  show "\<exists>ls. set ls \<subseteq> {JsonLine d | d. rd_ts_unix d = now \<and> rd_event d = kind_tag ev} \<and>
     set (log_lines (snd (snd (ReputationStore_apply env now ev (s, disk))))) \<subseteq> set (log_lines disk) \<union> set ls"
  proof (cases "\<exists>d. fst ?r = Some (Inr d)")
    case True
    then obtain d t' where r: "?r = (Some (Inr d), t')" by (cases ?r) auto
    let ?sd = "append_delta env d (s\<lparr>rs_table := t'\<rparr>, disk)"
    have app: "set (log_lines (snd ?sd)) = set (log_lines disk) \<union> {JsonLine d}"
      by (simp add: append_delta_def log_lines_def Let_def split: option.split)
    have "set (log_lines (snd (snd (ReputationStore_apply env now ev (s, disk))))) \<subseteq> set (log_lines (snd ?sd))"
      using write_snapshot_parts(2) by (auto simp: ReputationStore_apply_def r Let_def case_prod_beta)
    with app show ?thesis using apply_delta_fields [OF r] by (intro exI [of _ "[JsonLine d]"]) simp
  next
    case False
    then have "snd (snd (ReputationStore_apply env now ev (s, disk))) = disk"
      by (cases ?r) (auto simp: ReputationStore_apply_def Let_def split: option.split sum.split)
    then show ?thesis by (intro exI [of _ "[]"]) simp
  qed
qed

text \<open>Peers with valid identifiers, scores that are numbers, and no line of the log newer than the clock.\<close>

definition store_ok :: "store_env \<Rightarrow> int \<Rightarrow> rep_store \<times> rep_disk \<Rightarrow> bool" where
  "store_ok env now sd \<longleftrightarrow>
     table_inv (base_env env) (rs_table (fst sd)) \<and> keys_valid (base_env env) (rs_table (fst sd)) \<and>
     (\<forall>p x. store_score env (fst sd) p = Some x \<longrightarrow> f64_is_finite x) \<and>
     (\<forall>d. JsonLine d \<in> set (log_lines (snd sd)) \<longrightarrow> rd_ts_unix d \<le> now)"

fun sound_event :: "store_event \<Rightarrow> bool" where
  "sound_event (StoreApply ev) = (NodeId_from_hex (event_peer ev) = Inr (event_peer ev) \<and> \<not> carries_nan (ScoreApply 0 ev))"
| "sound_event _ = True"

lemma store_ok_later: "store_ok env now sd \<Longrightarrow> now \<le> now' \<Longrightarrow> store_ok env now' sd"
  unfolding store_ok_def by fastforce

lemma store_ok_table:
  assumes "store_ok env now sd" and "\<not> carries_nan op"
    and "rs_table (fst sd') = table_step (base_env env) op (rs_table (fst sd))"
    and "dom (spec_step (st_params (rs_table (fst sd))) op (store_score env (fst sd))) \<subseteq> {p. NodeId_from_hex p = Inr p}"
    and "\<And>d. JsonLine d \<in> set (log_lines (snd sd')) \<Longrightarrow> rd_ts_unix d \<le> now"
  shows "store_ok env now sd'"
  using assms finite_spec_step [of "store_score env (fst sd)" op "st_params (rs_table (fst sd))"]
  unfolding store_ok_def keys_valid_def by (auto simp: table_step_refines)

lemma store_ok_step:
  assumes "store_ok env t0 sd" and "t0 \<le> fst op" and "sound_event (snd op)"
  shows "store_ok env (fst op) (rep_store_step env op sd)"
proof -
  obtain s disk where sd: "sd = (s, disk)" by (cases sd)
  obtain now ev where op: "op = (now, ev)" by (cases op)
  from assms have ok: "store_ok env now (s, disk)" by (auto simp: sd op intro: store_ok_later)
  then have dom: "dom (store_score env s) \<subseteq> {p. NodeId_from_hex p = Inr p}"
    and ts: "\<And>d. JsonLine d \<in> set (log_lines disk) \<Longrightarrow> rd_ts_unix d \<le> now"
    by (auto simp: store_ok_def keys_valid_def)
  have "store_ok env now (rep_store_step env (now, ev) (s, disk))"
  proof (cases ev)
    case (StoreApply e)
    have "carries_nan (ScoreApply now e) = carries_nan (ScoreApply 0 e)" by (cases e) simp_all
    then show ?thesis
      using ok assms(3) dom ts store_apply_parts [where env = env and now = now and ev = e and s = s and disk = disk]
      by (intro store_ok_table [OF ok, of "ScoreApply now e"]) (auto simp: StoreApply op)
  next
    case (StoreReset p)
    show ?thesis using ok dom ts
      by (intro store_ok_table [OF ok, of "ScoreReset p"]) (auto simp: StoreReset store_reset_def)
  next
    case StoreDecay
    show ?thesis using ok dom ts
      by (intro store_ok_table [OF ok, of "ScoreDecay now"]) (auto simp: StoreDecay store_decay_def)
  next
    case StoreFlush
    show ?thesis using ok write_snapshot_parts(1,2) [where env = env and now = now and s = s and disk = disk]
      by (auto simp: StoreFlush ReputationStore_flush_def store_ok_def)
  qed
  then show ?thesis by (simp add: sd op)
qed

lemma store_ok_run:
  assumes "store_ok env t0 sd" and "sorted (t0 # map fst ops)" and "list_all (\<lambda>op. sound_event (snd op)) ops"
  shows "store_ok env (last (t0 # map fst ops)) (fold (rep_store_step env) ops sd)"
  using assms
proof (induction ops arbitrary: t0 sd)
  case (Cons op ops)
  then have "store_ok env (fst op) (rep_store_step env op sd)" by (intro store_ok_step [of env t0]) auto
  from Cons.IH [OF this] Cons.prems(2,3) show ?case by simp
qed simp

lemma open_empty:
  "ReputationStore_open env now cfg empty_disk =
     Some (Inr \<lparr>rs_config = cfg, rs_table = \<lparr>st_shards = replicate 16 [], st_params = ReputationParams_default\<rparr>,
                rs_pending = 0, rs_chain_hash = None\<rparr>, \<lparr>dk_snapshot = None, dk_log = Some []\<rparr>)"
  by (simp add: ReputationStore_open_def default_table empty_disk_def replay_deltas_def)

lemma store_ok_new:
  assumes "ReputationStore_open env now cfg empty_disk = Some (Inr s, d)"
  shows "store_ok env t (s, d)" "rs_table s = \<lparr>st_shards = replicate 16 [], st_params = ReputationParams_default\<rparr>"
  using assms table_new [OF default_table]
  by (auto simp: open_empty store_ok_def keys_valid_def log_lines_def)

lemma replay_old:
  assumes "\<And>d. JsonLine d \<in> set ls \<Longrightarrow> rd_ts_unix d \<le> ts"
  shows "replay_deltas env now ls ts t = (0, t)"
proof -
  have "fold (replay_line env now ts) ls s = s" for s
    using assms
  proof (induction ls arbitrary: s)
    case (Cons l ls)
    then have "replay_line env now ts l s = s" by (cases l) (auto simp: replay_line_def)
    with Cons show ?case by simp
  qed simp
  then show ?thesis by (simp add: replay_deltas_def)
qed

lemma snapshot_scores:
  assumes "table_inv env t" and "keys_valid env t"
  shows "map_of (rev (PeerScoreTable_snapshot t)) = PeerScoreTable_score env t"
  by (rule map_of_graph) (simp add: set_snapshot [OF assms])

lemma default_empty: "PeerScoreTable_score env \<lparr>st_shards = replicate 16 [], st_params = ReputationParams_default\<rparr> = Map.empty"
  "table_inv env \<lparr>st_shards = replicate 16 [], st_params = ReputationParams_default\<rparr>"
  using table_new(1,2) [OF default_table] by auto

lemma reopen_flushed:
  assumes ok: "store_ok env now (s, disk)" and now: "I64_MIN \<le> now" and ne: "store_score env s \<noteq> Map.empty"
  shows "\<exists>s' d'. ReputationStore_open env now' cfg' (snd (ReputationStore_flush env now (s, disk))) = Some (Inr s', d') \<and>
    store_score env s' = store_score env s"
proof -
  let ?t = "rs_table s" and ?new = "\<lparr>st_shards = replicate 16 [], st_params = ReputationParams_default\<rparr>"
  let ?disk = "snd (write_snapshot env now (s, disk))" and ?es = "PeerScoreTable_snapshot ?t"
  let ?l = "load_entries env now' now ?es (I64_MIN, ?new)"
  from ok have inv: "table_inv (base_env env) ?t" and keys: "keys_valid (base_env env) ?t"
    and fin: "\<And>p x. store_score env s p = Some x \<Longrightarrow> f64_is_finite x"
    and ts: "\<And>d. JsonLine d \<in> set (log_lines disk) \<Longrightarrow> rd_ts_unix d \<le> now"
    by (auto simp: store_ok_def)
  note set_es = set_snapshot [OF inv keys]
  have es: "\<And>p x. (p, x) \<in> set ?es \<Longrightarrow> NodeId_from_hex p = Inr p \<and> score_ok x"
    using keys score_okD [OF inv] by (auto simp: set_es keys_valid_def)
  have "?es \<noteq> []" using ne snapshot_scores [OF inv keys] by auto
  then have last: "fst ?l = now" using now by (simp add: load_entries_laws [OF default_empty(2) es])
  have sc: "PeerScoreTable_score (base_env env) (snd ?l) = store_score env s"
    by (simp add: load_entries_laws(2) [OF default_empty(2) es] default_empty(1) snapshot_scores [OF inv keys])
  have "list_all (\<lambda>(_, x). f64_is_finite x) ?es" using fin by (auto simp: list_all_iff set_es)
  then have load: "load_snapshot env now' (sc_path cfg') (the (dk_snapshot ?disk)) ?new = Inr ?l"
    by (simp add: load_snapshot_def write_snapshot_parts(3))
  have "JsonLine d \<in> set (log_lines ?disk) \<Longrightarrow> rd_ts_unix d \<le> now" for d
    using write_snapshot_parts(2) [where env = env and now = now and s = s and disk = disk] ts by blast
  then have "replay_deltas env now' (log_lines ?disk) now (snd ?l) = (0, snd ?l)" by (rule replay_old)
  then have "\<exists>s' d'. ReputationStore_open env now' cfg' ?disk = Some (Inr s', d') \<and> rs_table s' = snd ?l"
    using load last
    by (cases ?l) (auto simp: ReputationStore_open_def default_table write_snapshot_parts(3) log_lines_def Let_def split: option.split)
  with sc show ?thesis unfolding ReputationStore_flush_def by auto
qed

section \<open>Properties\<close>

definition demo_store_env :: store_env where
  "demo_store_env = \<lparr>re_blake3 = (\<lambda>bs. bs), re_digest = (\<lambda>_ _ _ _ _ _. []), se_keyed = (\<lambda>k bs. k), se_json = (\<lambda>d. [])\<rparr>"

definition demo_peer_id :: node_id where
  "demo_peer_id = replicate 64 (CHR ''a'')"

lemma demo_peer_id_valid: "NodeId_from_hex demo_peer_id = Inr demo_peer_id"
  by (simp add: NodeId_from_hex_def demo_peer_id_def NODE_ID_HEX_LEN_def NODE_ID_BYTES_def is_ascii_hexdigit_def
    to_ascii_lowercase_def to_ascii_lowercase_char_def list_all_iff)

text \<open>
  C23. Scores that were flushed survive a restart. After any run of a store that was opened on an empty
  directory, with a clock that does not go back, events of valid peers and no restored score that is not
  a number, a flush and a restart give back exactly the score of every peer, provided some peer is tracked.
\<close>

theorem flushed_scores_survive_restart:
  assumes "ReputationStore_open env t0 cfg empty_disk = Some (Inr s0, d0)"
    and "sorted (t0 # map fst ops @ [now])" and "I64_MIN \<le> t0"
    and "list_all (\<lambda>op. sound_event (snd op)) ops"
    and "fold (rep_store_step env) ops (s0, d0) = (s, disk)" and "store_score env s \<noteq> Map.empty"
  shows "\<exists>s' d'. ReputationStore_open env now' cfg' (snd (ReputationStore_flush env now (s, disk))) = Some (Inr s', d') \<and>
    store_score env s' = store_score env s"
proof -
  have s1: "sorted (t0 # map fst ops)" and le: "last (t0 # map fst ops) \<le> now"
    using assms(2) by (auto simp: sorted_append last_map)
  have "store_ok env (last (t0 # map fst ops)) (s, disk)"
    using store_ok_run [OF store_ok_new(1) [OF assms(1)] s1 assms(4)] by (simp add: assms(5))
  moreover have "t0 \<le> last (t0 # map fst ops)" using s1 by (auto simp: last_map)
  ultimately show ?thesis using le assms(3,6) by (intro reopen_flushed) (auto intro: store_ok_later)
qed

definition demo_store_config :: store_config where
  "demo_store_config = \<lparr>sc_path = ''r'', sc_fsync = False, sc_snapshot_every = 256, sc_max_log_bytes = 4096\<rparr>"

definition demo_store :: "rep_store \<times> rep_disk" where
  "demo_store = (\<lparr>rs_config = demo_store_config, rs_table = \<lparr>st_shards = replicate 16 [], st_params = ReputationParams_default\<rparr>,
     rs_pending = 0, rs_chain_hash = None\<rparr>, \<lparr>dk_snapshot = None, dk_log = Some []\<rparr>)"

lemma demo_store_open: "ReputationStore_open env now demo_store_config empty_disk = Some (Inr (fst demo_store), snd demo_store)"
  by (simp add: open_empty demo_store_def)

lemma demo_store_paired:
  "store_score demo_store_env (fst (rep_store_step demo_store_env (1, StoreApply (PairingEstablished demo_peer_id [])) demo_store)) =
     [demo_peer_id \<mapsto> Fin 25]"
  by (simp add: demo_store_def store_apply_parts PeerScoreTable_apply_def apply_score default_empty event_score_def)
    (simp add: ReputationParams_default_def MIN_SCORE_def MAX_SCORE_def)

theorem flushed_scores_survive_restart_witness:
  "\<exists>s' d'. ReputationStore_open demo_store_env 3 demo_store_config
      (snd (ReputationStore_flush demo_store_env 2
        (rep_store_step demo_store_env (1, StoreApply (PairingEstablished demo_peer_id [])) demo_store))) = Some (Inr s', d') \<and>
    store_score demo_store_env s' demo_peer_id = Some (Fin 25)"
proof -
  let ?ops = "[(1, StoreApply (PairingEstablished demo_peer_id []))]"
  let ?sd = "rep_store_step demo_store_env (1, StoreApply (PairingEstablished demo_peer_id [])) demo_store"
  have run: "fold (rep_store_step demo_store_env) ?ops (fst demo_store, snd demo_store) = (fst ?sd, snd ?sd)" by simp
  have "sorted (0 # map fst ?ops @ [2 :: int])" "I64_MIN \<le> 0" "list_all (\<lambda>op. sound_event (snd op)) ?ops"
    "store_score demo_store_env (fst ?sd) \<noteq> Map.empty"
    by (simp_all add: I64_MIN_def demo_peer_id_valid demo_store_paired del: rep_store_step.simps)
  from flushed_scores_survive_restart [OF demo_store_open this(1,2,3) run this(4), of 3 demo_store_config]
  show ?thesis by (fastforce simp: demo_store_paired simp del: rep_store_step.simps)
qed

text \<open>Before the first snapshot the files hold nothing but the log, and a restart replays only its message events.\<close>

fun forgettable :: "store_event \<Rightarrow> bool" where
  "forgettable (StoreApply ev) = (kind_tag ev \<noteq> ''invalid_message'')"
| "forgettable StoreFlush = False"
| "forgettable _ = True"

definition unsaved :: "store_config \<Rightarrow> nat \<Rightarrow> rep_store \<times> rep_disk \<Rightarrow> bool" where
  "unsaved cfg n sd \<longleftrightarrow> rs_config (fst sd) = cfg \<and> dk_snapshot (snd sd) = None \<and> unat (rs_pending (fst sd)) \<le> n \<and>
     (\<forall>d. JsonLine d \<in> set (log_lines (snd sd)) \<longrightarrow> rd_event d \<noteq> ''invalid_message'')"

lemma unsaved_apply:
  assumes "unsaved cfg n (s, disk)" and "sc_snapshot_every cfg = 0 \<or> Suc n < unat (sc_snapshot_every cfg)"
    and "kind_tag ev \<noteq> ''invalid_message''"
  shows "unsaved cfg (Suc n) (snd (ReputationStore_apply env now ev (s, disk)))"
proof -
  obtain r t where r: "PeerScoreTable_apply (base_env env) now ev (rs_table s) = (r, t)" by (cases "PeerScoreTable_apply (base_env env) now ev (rs_table s)")
  have lines: "\<forall>d. JsonLine d \<in> set (log_lines (snd (snd (ReputationStore_apply env now ev (s, disk))))) \<longrightarrow> rd_event d \<noteq> ''invalid_message''"
    using store_apply_parts(2) [where env = env and now = now and ev = ev and s = s and disk = disk] assms(1,3)
    unfolding unsaved_def by fastforce
  have le: "unat (sat_add64 (rs_pending s) 1) \<le> Suc n" using assms(1) by (simp add: unsaved_def unat_sat_add64 min.coboundedI1)
  have "\<not> (0 < sc_snapshot_every cfg \<and> sc_snapshot_every cfg \<le> sat_add64 (rs_pending s) 1)"
    using assms(2) le by (auto simp: word_le_nat_alt)
  with assms(1) le r have "rs_config (fst (snd (ReputationStore_apply env now ev (s, disk)))) = cfg \<and>
      dk_snapshot (snd (snd (ReputationStore_apply env now ev (s, disk)))) = None \<and>
      unat (rs_pending (fst (snd (ReputationStore_apply env now ev (s, disk))))) \<le> Suc n"
    by (auto simp: unsaved_def ReputationStore_apply_def append_delta_def Let_def split: option.split sum.split)
  with lines show ?thesis by (simp add: unsaved_def)
qed

lemma unsaved_run:
  assumes "unsaved cfg n sd" and "list_all (\<lambda>op. forgettable (snd op)) ops"
    and "sc_snapshot_every cfg = 0 \<or> n + length ops < unat (sc_snapshot_every cfg)"
  shows "unsaved cfg (n + length ops) (fold (rep_store_step env) ops sd)"
  using assms
proof (induction ops arbitrary: n sd)
  case (Cons op ops)
  obtain s disk where sd: "sd = (s, disk)" by (cases sd)
  obtain now ev where op: "op = (now, ev)" by (cases op)
  have "unsaved cfg (Suc n) (rep_store_step env op sd)"
  proof (cases ev)
    case (StoreApply e)
    with Cons.prems show ?thesis by (auto simp: sd op intro!: unsaved_apply)
  qed (use Cons.prems in \<open>auto simp: sd op unsaved_def store_reset_def store_decay_def\<close>)
  from Cons.IH [OF this] Cons.prems(2,3) show ?case by simp
qed simp

definition all_zero :: "store_env \<Rightarrow> score_table \<Rightarrow> bool" where
  "all_zero env t \<longleftrightarrow> table_inv (base_env env) t \<and> (\<forall>p x. PeerScoreTable_score (base_env env) t p = Some x \<longrightarrow> x = Fin 0)"

lemma all_zero_replay_line:
  assumes "all_zero env (snd s)" and "\<And>d. l = JsonLine d \<Longrightarrow> rd_event d \<noteq> ''invalid_message''"
  shows "all_zero env (snd (replay_line env now ts l s))"
proof -
  have zero: "all_zero env (snd (apply_with_count (base_env env) now (ValidMessage node None 0) c (snd s)))" for node c
  proof -
    have "(case PeerScoreTable_score (base_env env) (snd s) node of Some x \<Rightarrow> x | None \<Rightarrow> Fin 0) = Fin 0"
      using assms(1) by (auto simp: all_zero_def split: option.split)
    with assms(1) show ?thesis
      by (auto simp: all_zero_def apply_inv apply_score event_score_def f64_log2_def MIN_SCORE_def MAX_SCORE_def split: if_splits)
  qed
  show ?thesis
    using assms zero by (cases l) (auto simp: replay_line_def replay_event_def split: sum.split)
qed

lemma all_zero_replay:
  assumes "all_zero env t" and "\<And>d. JsonLine d \<in> set ls \<Longrightarrow> rd_event d \<noteq> ''invalid_message''"
  shows "all_zero env (snd (replay_deltas env now ls ts t))"
proof -
  have "all_zero env (snd s) \<Longrightarrow> all_zero env (snd (fold (replay_line env now ts) ls s))" for s
    using assms(2)
  proof (induction ls arbitrary: s)
    case (Cons l ls)
    have "all_zero env (snd (replay_line env now ts l s))"
      using Cons.prems by (intro all_zero_replay_line) auto
    with Cons show ?case by simp
  qed simp
  with assms(1) show ?thesis by (simp add: replay_deltas_def)
qed

text \<open>
  C25. A restart before the first snapshot forgets every event that is not an invalid message: penalties
  for content violations, manual adjustments, pairings and reports are in the log but are not replayed,
  so that every score is zero or missing afterwards, whatever it was before.
\<close>

theorem restart_forgets_penalties:
  assumes "ReputationStore_open env t0 cfg empty_disk = Some (Inr s0, d0)"
    and "list_all (\<lambda>op. forgettable (snd op)) ops"
    and "sc_snapshot_every cfg = 0 \<or> length ops < unat (sc_snapshot_every cfg)"
  shows "\<exists>s' d'. ReputationStore_open env now cfg' (snd (fold (rep_store_step env) ops (s0, d0))) = Some (Inr s', d') \<and>
    (\<forall>p. store_score env s' p \<in> {None, Some (Fin 0)})"
proof -
  let ?disk = "snd (fold (rep_store_step env) ops (s0, d0))"
  have "unsaved cfg 0 (s0, d0)" using assms(1) by (auto simp: open_empty unsaved_def log_lines_def)
  from unsaved_run [OF this assms(2)] assms(3)
  have u: "unsaved cfg (length ops) (fold (rep_store_step env) ops (s0, d0))" by simp
  let ?r = "case dk_log ?disk of Some ls \<Rightarrow> replay_deltas env now ls I64_MIN
        \<lparr>st_shards = replicate 16 [], st_params = ReputationParams_default\<rparr>
      | None \<Rightarrow> (0, \<lparr>st_shards = replicate 16 [], st_params = ReputationParams_default\<rparr>)"
  have z: "all_zero env \<lparr>st_shards = replicate 16 [], st_params = ReputationParams_default\<rparr>"
    by (simp add: all_zero_def default_empty)
  have "all_zero env (snd ?r)"
    using u z by (auto simp: unsaved_def log_lines_def split: option.split intro!: all_zero_replay)
  then have "store_score env s' p \<in> {None, Some (Fin 0)}" if "rs_table s' = snd ?r" for s' p
    using that by (cases "store_score env s' p") (auto simp: all_zero_def)
  moreover have "\<exists>s' d'. ReputationStore_open env now cfg' ?disk = Some (Inr s', d') \<and> rs_table s' = snd ?r"
    using u by (cases "dk_log ?disk") (simp_all add: ReputationStore_open_def default_table unsaved_def case_prod_beta Let_def)
  ultimately show ?thesis by blast
qed

theorem restart_forgets_penalties_witness:
  "\<exists>s' d'. ReputationStore_open demo_store_env 3 demo_store_config
      (snd (rep_store_step demo_store_env (1, StoreApply (BehaviourPenalty demo_peer_id ContentViolation 10)) demo_store)) = Some (Inr s', d') \<and>
    store_score demo_store_env s' demo_peer_id \<in> {None, Some (Fin 0)}"
  using restart_forgets_penalties [OF demo_store_open, where ops = "[(1, StoreApply (BehaviourPenalty demo_peer_id ContentViolation 10))]"
      and now = 3 and cfg' = demo_store_config and env = demo_store_env]
  by (fastforce simp: demo_store_config_def simp del: rep_store_step.simps)

section \<open>Resets and scores that are no numbers\<close>

lemma apply_recorded:
  assumes "absolute_target ev = None" and "event_delta (st_params t) ev = Some dl"
    and "f64_clamp MIN_SCORE MAX_SCORE (f64_add (case PeerScoreTable_score env t (event_peer ev) of Some x \<Rightarrow> x | None \<Rightarrow> Fin 0) dl) = Fin a"
    and "(case PeerScoreTable_score env t (event_peer ev) of Some x \<Rightarrow> x | None \<Rightarrow> Fin 0) = Fin b"
  obtains d t' where "PeerScoreTable_apply env now ev t = (Some (Inr d), t')" and "delta_readable d"
    and "rd_peer d = event_peer ev" and "rd_event d = kind_tag ev" and "rd_ts_unix d = now"
proof -
  let ?e = "entry_or_insert env now (event_peer ev) t"
  have b: "ps_score (pe_score ?e) = Fin b" using assms(4) by (simp add: entry_score)
  have a: "f64_clamp MIN_SCORE MAX_SCORE (f64_add (Fin b) dl) = Fin a" using assms(3) unfolding assms(4) .
  have "\<exists>d t'. PeerScoreTable_apply env now ev t = (Some (Inr d), t') \<and> delta_readable d \<and>
      rd_peer d = event_peer ev \<and> rd_event d = kind_tag ev \<and> rd_ts_unix d = now"
    using assms(1,2) a b
    by (cases "event_topic ev")
      (auto simp: PeerScoreTable_apply_def apply_with_count_def record_score_def ReputationDelta_new_def delta_readable_def Let_def)
  then show thesis using that by blast
qed

lemma flush_empty_table:
  assumes "table_inv (base_env env) (rs_table s)" and "store_score env s = Map.empty"
  shows "PeerScoreTable_snapshot (rs_table s) = []"
proof -
  have "keys_valid (base_env env) (rs_table s)" by (simp add: keys_valid_def assms(2))
  from set_snapshot [OF assms(1) this] assms(2) show ?thesis
    by (cases "PeerScoreTable_snapshot (rs_table s)") force+
qed

text \<open>
  Resetting the only peer of a store does not survive a restart: a snapshot without entries does not
  record its time, so that the next start replays the whole log and the penalty is back.
\<close>

theorem reset_of_only_peer_undone:
  assumes p: "NodeId_from_hex p = Inr p" and op: "ReputationStore_open env t0 cfg empty_disk = Some (Inr s0, d0)"
    and t1: "I64_MIN < t1" and every: "sc_snapshot_every cfg \<noteq> 1"
    and fits: "\<And>d. length (se_json env d) < unat (sc_max_log_bytes cfg)"
    and sd_def: "sd = fold (rep_store_step env) [(t1, StoreApply (InvalidMessage p topic r)), (t2, StoreReset p), (t3, StoreFlush)] (s0, d0)"
  shows "store_score env (fst sd) = Map.empty"
    and "\<exists>s' d'. ReputationStore_open env now cfg (snd sd) = Some (Inr s', d') \<and> store_score env s' p = Some (Fin (-1))"
proof -
  let ?new = "\<lparr>st_shards = replicate 16 [], st_params = ReputationParams_default\<rparr>"
  have s0: "s0 = \<lparr>rs_config = cfg, rs_table = ?new, rs_pending = 0, rs_chain_hash = None\<rparr>"
    and d0: "d0 = \<lparr>dk_snapshot = None, dk_log = Some []\<rparr>" using op by (simp_all add: open_empty)
  let ?ev = "InvalidMessage p topic r"
  have dl: "event_delta (st_params ?new) ?ev = Some (Fin (-1))" by (simp add: ReputationParams_default_def)
  obtain d t' where app: "PeerScoreTable_apply (base_env env) t1 ?ev ?new = (Some (Inr d), t')"
    and d: "delta_readable d" "rd_peer d = p" "rd_event d = ''invalid_message''" "rd_ts_unix d = t1"
    by (rule apply_recorded [where env = "base_env env" and now = t1 and ev = ?ev and t = ?new and dl = "Fin (-1)" and a = "-1" and b = 0])
      (use dl in \<open>simp_all add: default_empty MIN_SCORE_def MAX_SCORE_def\<close>)
  have t': "t' = snd (apply_with_count (base_env env) t1 ?ev None ?new)" using app by (simp add: PeerScoreTable_apply_def)
  let ?sd1 = "snd (ReputationStore_apply env t1 ?ev (s0, d0))"
  have "\<not> (0 < sc_snapshot_every cfg \<and> sc_snapshot_every cfg \<le> sat_add64 0 1)"
  proof
    assume "0 < sc_snapshot_every cfg \<and> sc_snapshot_every cfg \<le> sat_add64 0 1"
    then have "unat (sc_snapshot_every cfg) = unat (1 :: u64)"
      by (simp add: sat_add64_def word_le_nat_alt word_less_nat_alt)
    then have "sc_snapshot_every cfg = 1" by (simp only: word_unat_eq_iff)
    with every show False by simp
  qed
  then have sd1: "rs_table (fst ?sd1) = t'" "snd ?sd1 = d0\<lparr>dk_log := Some [JsonLine d]\<rparr>" "rs_config (fst ?sd1) = cfg"
    by (auto simp: ReputationStore_apply_def app s0 d0 append_delta_def Let_def)
  let ?s2 = "fst (store_reset env p ?sd1)"
  have inv: "table_inv (base_env env) t'" using default_empty(2) unfolding t' by (rule apply_inv)
  have s2: "table_inv (base_env env) (rs_table ?s2)" "store_score env ?s2 = Map.empty" "rs_config ?s2 = cfg"
    using inv sd1(1,3) by (simp_all add: store_reset_def table_inv_reset reset_laws t' apply_score default_empty)
  have sd: "sd = write_snapshot env t3 (?s2, snd ?sd1)"
    by (simp add: sd_def ReputationStore_flush_def) (simp add: store_reset_def)
  then show "store_score env (fst sd) = Map.empty" using s2(2) by (simp add: write_snapshot_parts)
  have "dk_log (snd sd) = Some [JsonLine d]"
    using fits [of d] by (auto simp: sd write_snapshot_def maybe_rotate_log_def sd1 s2(3) Let_def)
  moreover have "load_snapshot env now (sc_path cfg) (the (dk_snapshot (snd sd))) ?new = Inr (I64_MIN, ?new)"
    by (simp add: sd write_snapshot_parts(3) load_snapshot_def flush_empty_table [OF s2(1,2)])
  moreover have "PeerScoreTable_score (base_env env) (snd (apply_with_count (base_env env) now (InvalidMessage p None InvalidOther) c ?new)) p =
      Some (Fin (-1))" for c
    using dl by (simp add: apply_score default_empty event_score_def MIN_SCORE_def MAX_SCORE_def)
  ultimately show "\<exists>s' d'. ReputationStore_open env now cfg (snd sd) = Some (Inr s', d') \<and> store_score env s' p = Some (Fin (-1))"
    using d p t1 by (simp add: ReputationStore_open_def default_table sd write_snapshot_parts(3) replay_deltas_def
      replay_line_def replay_event_def Let_def case_prod_beta)
qed

text \<open>
  A score that is not a number makes the next snapshot unreadable, and with it the store: it cannot be
  opened any more.
\<close>

theorem nan_score_bricks_store:
  assumes "table_inv (base_env env) (rs_table s)" and "keys_valid (base_env env) (rs_table s)"
    and "store_score env s p = Some NaN"
  shows "ReputationStore_open env now' cfg (snd (ReputationStore_flush env now (s, disk))) =
    Some (Inl (MalformedSnapshot (sc_path cfg)), snd (ReputationStore_flush env now (s, disk)))"
proof -
  have "(p, NaN) \<in> set (PeerScoreTable_snapshot (rs_table s))" using assms by (simp add: set_snapshot)
  then have "\<not> list_all (\<lambda>(_, x). f64_is_finite x) (PeerScoreTable_snapshot (rs_table s))"
    by (force simp: list_all_iff)
  then show ?thesis
    by (simp add: ReputationStore_open_def default_table ReputationStore_flush_def write_snapshot_parts(3) load_snapshot_def)
qed

end
