(* ===== verification/Moderation.thy ===== *)
theory Moderation
  imports Blob_Store Reputation
begin

text \<open>
  Content moderation (\<^verbatim>\<open>a3net-moderation/src\<close>): the persistent blocklist (\<^verbatim>\<open>blocklist.rs\<close>), the policy the
  gateway asks before it serves or stores (\<^verbatim>\<open>policy.rs\<close>), and takedowns (\<^verbatim>\<open>takedown.rs\<close>,
  \<^verbatim>\<open>reputation_bridge.rs\<close>), which act on the blob store and pin set of \<open>Blob_Store\<close> and on
  the scores of \<open>Reputation\<close>. Entries are keyed by the digest, which the code keys by its hexadecimal
  text. The clock is an argument, and so is whether a file could be written.
\<close>

section \<open>The blocklist\<close>

datatype takedown_reason = Csam | Copyright | Terrorism | Ncii | Doxxing | ReasonLegalOrder | Malware | TermsOfService | ReasonOther

datatype blocklist_source = Ncmec | Iwf | Interpol | Operator | TrustedFeed | SourceLegalOrder | Governance

datatype moderation_error =
    ModIo
  | InvalidBlocklist
  | Precondition string
  | ModReputation reputation_error

fun reason_severity :: "takedown_reason \<Rightarrow> nat" where
  "reason_severity Csam = 10"
| "reason_severity Terrorism = 10"
| "reason_severity Ncii = 9"
| "reason_severity ReasonLegalOrder = 9"
| "reason_severity Malware = 7"
| "reason_severity Copyright = 5"
| "reason_severity Doxxing = 6"
| "reason_severity TermsOfService = 3"
| "reason_severity ReasonOther = 2"

record blocklist_entry =
  bke_id :: u64
  bke_hash :: content_hash
  bke_reason :: takedown_reason
  bke_source :: blocklist_source
  bke_evidence :: string
  bke_operator :: string
  bke_issued_unix :: int
  bke_expires_unix :: "int option"
  bke_publisher_node_hex :: string
  bke_revoked :: bool

definition entry_is_active :: "blocklist_entry \<Rightarrow> int \<Rightarrow> bool" where
  "entry_is_active e now =
     (if bke_revoked e then False else case bke_expires_unix e of Some t \<Rightarrow> now < t | None \<Rightarrow> True)"

record blocklist =
  bk_by_hash :: "(content_hash, u64) hmap"
  bk_entries :: "(u64, blocklist_entry) hmap"
  bk_next_id :: u64

record blocklist_document =
  doc_version :: u32
  doc_next_entry_id :: u64
  doc_entries :: "blocklist_entry list"

datatype blocklist_file = NoFile | EmptyFile | Document blocklist_document | Unparsable

definition Blocklist_empty :: blocklist where
  "Blocklist_empty = \<lparr>bk_by_hash = [], bk_entries = [], bk_next_id = 1\<rparr>"

fun load_blocklist_entries ::
  "blocklist_entry list \<Rightarrow> (content_hash, u64) hmap \<times> (u64, blocklist_entry) hmap \<Rightarrow> (content_hash, u64) hmap \<times> (u64, blocklist_entry) hmap" where
  "load_blocklist_entries [] s = s"
| "load_blocklist_entries (e # es) (by_hash, entries) =
     load_blocklist_entries es (hm_insert (bke_hash e) (bke_id e) by_hash, hm_insert (bke_id e) e entries)"

definition load_from_path :: "blocklist_file \<Rightarrow> (moderation_error, blocklist) result" where
  "load_from_path f =
     (case f of
        NoFile \<Rightarrow> Inr Blocklist_empty
      | EmptyFile \<Rightarrow> Inr Blocklist_empty
      | Unparsable \<Rightarrow> Inl InvalidBlocklist
      | Document d \<Rightarrow>
          (let (by_hash, entries) = load_blocklist_entries (doc_entries d) ([], []);
               last_key = (if entries = [] then 0 else fst (last entries))
           in Inr \<lparr>bk_by_hash = by_hash, bk_entries = entries,
                   bk_next_id = max (doc_next_entry_id d) (sat_add64 last_key 1)\<rparr>))"

definition is_blocked :: "blocklist \<Rightarrow> int \<Rightarrow> content_hash \<Rightarrow> bool" where
  "is_blocked b now h =
     (case hm_get (bk_by_hash b) h of
        None \<Rightarrow> False
      | Some i \<Rightarrow> (case hm_get (bk_entries b) i of None \<Rightarrow> False | Some e \<Rightarrow> entry_is_active e now))"

definition lookup_active :: "blocklist \<Rightarrow> int \<Rightarrow> content_hash \<Rightarrow> blocklist_entry option" where
  "lookup_active b now h =
     (case hm_get (bk_by_hash b) h of
        None \<Rightarrow> None
      | Some i \<Rightarrow>
          (case hm_get (bk_entries b) i of
             None \<Rightarrow> None
           | Some e \<Rightarrow> if entry_is_active e now then Some e else None))"

definition blocklist_document_of :: "blocklist \<Rightarrow> blocklist_document" where
  "blocklist_document_of b =
     \<lparr>doc_version = 1, doc_next_entry_id = bk_next_id b, doc_entries = hm_values (bk_entries b)\<rparr>"

text \<open>Rewriting the file, into a temporary file that is renamed: all or nothing.\<close>

definition blocklist_persist :: "bool \<Rightarrow> blocklist \<Rightarrow> blocklist_file \<Rightarrow> (moderation_error, unit) result \<times> blocklist_file" where
  "blocklist_persist io b f = (if io then (Inr (), Document (blocklist_document_of b)) else (Inl ModIo, f))"

record block_request =
  br_hash :: content_hash
  br_reason :: takedown_reason
  br_source :: blocklist_source
  br_evidence :: string
  br_operator :: string
  br_expires :: "int option"
  br_publisher :: string

definition Blocklist_add ::
  "int \<Rightarrow> bool \<Rightarrow> block_request \<Rightarrow> blocklist \<times> blocklist_file \<Rightarrow> (moderation_error, u64) result \<times> blocklist \<times> blocklist_file" where
  "Blocklist_add now io r bf =
     (let (b, f) = bf
      in case lookup_active b now (br_hash r) of
           Some existing \<Rightarrow> (Inr (bke_id existing), b, f)
         | None \<Rightarrow>
             (let i = bk_next_id b;
                  e = \<lparr>bke_id = i, bke_hash = br_hash r, bke_reason = br_reason r, bke_source = br_source r,
                       bke_evidence = br_evidence r, bke_operator = br_operator r, bke_issued_unix = now,
                       bke_expires_unix = br_expires r, bke_publisher_node_hex = br_publisher r, bke_revoked = False\<rparr>;
                  b' = \<lparr>bk_by_hash = hm_insert (br_hash r) i (bk_by_hash b), bk_entries = hm_insert i e (bk_entries b),
                        bk_next_id = sat_add64 i 1\<rparr>
              in case blocklist_persist io b' f of
                   (Inl err, f') \<Rightarrow> (Inl err, b', f')
                 | (Inr _, f') \<Rightarrow> (Inr i, b', f')))"

definition Blocklist_revoke ::
  "bool \<Rightarrow> u64 \<Rightarrow> blocklist \<times> blocklist_file \<Rightarrow> (moderation_error, bool) result \<times> blocklist \<times> blocklist_file" where
  "Blocklist_revoke io i bf =
     (let (b, f) = bf
      in case hm_get (bk_entries b) i of
           None \<Rightarrow> (Inr False, b, f)
         | Some e \<Rightarrow>
             (let b' = b\<lparr>bk_entries := hm_insert i (e\<lparr>bke_revoked := True\<rparr>) (bk_entries b)\<rparr>
              in case blocklist_persist io b' f of
                   (Inl err, f') \<Rightarrow> (Inl err, b', f')
                 | (Inr _, f') \<Rightarrow> (Inr True, b', f')))"

definition list_entries :: "blocklist \<Rightarrow> blocklist_entry list" where
  "list_entries b = hm_values (bk_entries b)"

definition list_active :: "blocklist \<Rightarrow> int \<Rightarrow> blocklist_entry list" where
  "list_active b now = filter (\<lambda>e. entry_is_active e now) (hm_values (bk_entries b))"

fun reason_debug_name :: "takedown_reason \<Rightarrow> string" where
  "reason_debug_name Csam = ''csam''"
| "reason_debug_name Copyright = ''copyright''"
| "reason_debug_name Terrorism = ''terrorism''"
| "reason_debug_name Ncii = ''ncii''"
| "reason_debug_name Doxxing = ''doxxing''"
| "reason_debug_name ReasonLegalOrder = ''legalorder''"
| "reason_debug_name Malware = ''malware''"
| "reason_debug_name TermsOfService = ''termsofservice''"
| "reason_debug_name ReasonOther = ''other''"

record blocklist_stats =
  bs_active :: nat
  bs_total :: nat
  bs_by_reason :: "(string, nat) hmap"

definition Blocklist_stats :: "blocklist \<Rightarrow> int \<Rightarrow> blocklist_stats" where
  "Blocklist_stats b now =
     (let (active, by_reason) =
            fold (\<lambda>e (n, m). if entry_is_active e now
                    then (n + 1, hm_insert (reason_debug_name (bke_reason e))
                                   ((case hm_get m (reason_debug_name (bke_reason e)) of Some k \<Rightarrow> k | None \<Rightarrow> 0) + 1) m)
                    else (n, m))
              (hm_values (bk_entries b)) (0, [])
      in \<lparr>bs_active = active, bs_total = length (bk_entries b), bs_by_reason = by_reason\<rparr>)"

definition request_of :: "blocklist_entry \<Rightarrow> block_request" where
  "request_of e =
     \<lparr>br_hash = bke_hash e, br_reason = bke_reason e, br_source = bke_source e, br_evidence = bke_evidence e,
      br_operator = bke_operator e, br_expires = bke_expires_unix e, br_publisher = bke_publisher_node_hex e\<rparr>"

fun import_feed ::
  "int \<Rightarrow> bool \<Rightarrow> blocklist_entry list \<Rightarrow> nat \<Rightarrow> blocklist \<times> blocklist_file \<Rightarrow> (moderation_error, nat) result \<times> blocklist \<times> blocklist_file" where
  "import_feed now io [] added bf = (Inr added, bf)"
| "import_feed now io (e # es) added (b, f) =
     (case hm_get (bk_by_hash b) (bke_hash e) of
        Some _ \<Rightarrow> import_feed now io es added (b, f)
      | None \<Rightarrow>
          (case Blocklist_add now io (request_of e) (b, f) of
             (Inl err, bf') \<Rightarrow> (Inl err, bf')
           | (Inr _, bf') \<Rightarrow> import_feed now io es (added + 1) bf'))"

section \<open>The policy\<close>

datatype policy_decision_kind = PolicyAllow | PolicyDeny

record policy_decision =
  pd_kind :: policy_decision_kind
  pd_reason :: string
  pd_source_entry :: "blocklist_entry option"

definition PolicyDecision_allow :: policy_decision where
  "PolicyDecision_allow = \<lparr>pd_kind = PolicyAllow, pd_reason = [], pd_source_entry = None\<rparr>"

definition PolicyDecision_deny :: "string \<Rightarrow> policy_decision" where
  "PolicyDecision_deny r = \<lparr>pd_kind = PolicyDeny, pd_reason = r, pd_source_entry = None\<rparr>"

definition is_allowed :: "policy_decision \<Rightarrow> bool" where
  "is_allowed d = (pd_kind d = PolicyAllow)"

type_synonym classifier_hook = "content_hash \<Rightarrow> string option"

record moderation_policy =
  mp_deny_by_default :: bool
  mp_classifiers :: "classifier_hook list"

definition ModerationPolicy_new :: moderation_policy where
  "ModerationPolicy_new = \<lparr>mp_deny_by_default = False, mp_classifiers = []\<rparr>"

definition set_deny_by_default :: "bool \<Rightarrow> moderation_policy \<Rightarrow> moderation_policy" where
  "set_deny_by_default on p = p\<lparr>mp_deny_by_default := on\<rparr>"

definition register_classifier :: "classifier_hook \<Rightarrow> moderation_policy \<Rightarrow> moderation_policy" where
  "register_classifier hook p = p\<lparr>mp_classifiers := mp_classifiers p @ [hook]\<rparr>"

fun reason_slug :: "takedown_reason \<Rightarrow> string" where
  "reason_slug Csam = ''csam''"
| "reason_slug Copyright = ''copyright''"
| "reason_slug Terrorism = ''terrorism''"
| "reason_slug Ncii = ''ncii''"
| "reason_slug Doxxing = ''doxxing''"
| "reason_slug ReasonLegalOrder = ''legal_order''"
| "reason_slug Malware = ''malware''"
| "reason_slug TermsOfService = ''tos''"
| "reason_slug ReasonOther = ''other''"

fun source_slug :: "blocklist_source \<Rightarrow> string" where
  "source_slug Ncmec = ''ncmec''"
| "source_slug Iwf = ''iwf''"
| "source_slug Interpol = ''interpol''"
| "source_slug Operator = ''operator''"
| "source_slug TrustedFeed = ''trusted_feed''"
| "source_slug SourceLegalOrder = ''legal_order''"
| "source_slug Governance = ''governance''"

fun run_classifiers :: "classifier_hook list \<Rightarrow> content_hash \<Rightarrow> policy_decision" where
  "run_classifiers [] h = PolicyDecision_allow"
| "run_classifiers (hook # hooks) h =
     (case hook h of
        Some reason \<Rightarrow> PolicyDecision_deny (''classifier denied: '' @ reason)
      | None \<Rightarrow> run_classifiers hooks h)"

definition blocked_decision :: "string \<Rightarrow> blocklist_entry \<Rightarrow> policy_decision" where
  "blocked_decision what e =
     \<lparr>pd_kind = PolicyDeny,
      pd_reason = what @ '' blocked by policy: reason='' @ reason_slug (bke_reason e) @ '' source='' @ source_slug (bke_source e)
                    @ '' evidence='' @ bke_evidence e,
      pd_source_entry = Some e\<rparr>"

definition check_read :: "blocklist \<Rightarrow> int \<Rightarrow> moderation_policy \<Rightarrow> content_hash \<Rightarrow> policy_decision" where
  "check_read b now p h =
     (case lookup_active b now h of
        Some e \<Rightarrow> blocked_decision ''content'' e
      | None \<Rightarrow>
          if mp_deny_by_default p then PolicyDecision_deny ''default-deny enabled: content not on the allow-list''
          else run_classifiers (mp_classifiers p) h)"

definition check_write :: "blocklist \<Rightarrow> int \<Rightarrow> moderation_policy \<Rightarrow> content_hash \<Rightarrow> policy_decision" where
  "check_write b now p h =
     (case lookup_active b now h of
        Some e \<Rightarrow> blocked_decision ''write'' e
      | None \<Rightarrow> run_classifiers (mp_classifiers p) h)"

section \<open>Takedowns\<close>

datatype takedown_target = BlocklistOnly | LocalErase | CryptoShred

datatype pin_file = NoPinFile | Pins pin_set | UnparsablePins

text \<open>The state a takedown works on, and which of its file operations succeed.\<close>

record takedown_world =
  tw_blocklist :: blocklist
  tw_blocklist_file :: blocklist_file
  tw_pins :: pin_file
  tw_blobs :: "blob_fs option"
  tw_key_configured :: bool
  tw_key_file :: "bytes option"
  tw_reputation :: "score_table option"

record takedown_io =
  io_blocklist :: bool
  io_pins :: bool
  io_open_blobs :: bool
  io_remove :: removal
  io_key :: bool

record takedown_report =
  tr_hash :: content_hash
  tr_reason :: takedown_reason
  tr_source :: blocklist_source
  tr_operator :: string
  tr_blocklist_entry_id :: u64
  tr_executed_unix :: int
  tr_target :: takedown_target
  tr_pin_removed :: bool
  tr_bytes_deleted :: bool
  tr_reputation_delta :: f64
  tr_note :: string

datatype takedown_outcome = NotPinned | Removed | CryptoShredded

definition remove_pin :: "takedown_io \<Rightarrow> content_hash \<Rightarrow> takedown_world \<Rightarrow> (moderation_error, bool) result \<times> takedown_world" where
  "remove_pin io h w =
     (case tw_pins w of
        NoPinFile \<Rightarrow> (Inr False, w)
      | UnparsablePins \<Rightarrow> (Inl ModIo, w)
      | Pins ps \<Rightarrow>
          (let (removed, ps') = PinSet_remove h ps
           in if removed then (if io_pins io then (Inr True, w\<lparr>tw_pins := Pins ps'\<rparr>) else (Inl ModIo, w))
              else (Inr False, w)))"

definition physically_erase :: "takedown_io \<Rightarrow> content_hash \<Rightarrow> takedown_world \<Rightarrow> (moderation_error, bool) result \<times> takedown_world" where
  "physically_erase io h w =
     (case tw_blobs w of
        None \<Rightarrow> (Inr False, w)
      | Some fs \<Rightarrow>
          if \<not> io_open_blobs io then (Inr False, w)
          else (case BlobStore_remove (io_remove io) h fs of
                  (Inr r, fs') \<Rightarrow> (Inr r, w\<lparr>tw_blobs := Some fs'\<rparr>)
                | (Inl _, fs') \<Rightarrow> (Inl ModIo, w\<lparr>tw_blobs := Some fs'\<rparr>)))"

definition crypto_shred :: "takedown_io \<Rightarrow> takedown_world \<Rightarrow> (moderation_error, unit) result \<times> takedown_world" where
  "crypto_shred io w =
     (if \<not> tw_key_configured w
      then (Inl (Precondition ''crypto-shred requested but no key_file_path configured''), w)
      else case tw_key_file w of
             None \<Rightarrow> (Inr (), w)
           | Some _ \<Rightarrow> if io_key io then (Inr (), w\<lparr>tw_key_file := None\<rparr>) else (Inl ModIo, w))"

definition effective_count :: "takedown_reason \<Rightarrow> u32 \<Rightarrow> u32" where
  "effective_count reason batch_count =
     word_of_nat (min (min (reason_severity reason * unat (max batch_count 1)) (2 ^ 32 - 1)) 64)"

definition apply_violation ::
  "reputation_env \<Rightarrow> int \<Rightarrow> node_id \<Rightarrow> takedown_reason \<Rightarrow> u32 \<Rightarrow> score_table \<Rightarrow> (reputation_error, f64) result option \<times> score_table" where
  "apply_violation env now peer reason batch_count t =
     (case PeerScoreTable_apply env now (BehaviourPenalty peer ContentViolation (effective_count reason batch_count)) t of
        (None, t') \<Rightarrow> (None, t')
      | (Some (Inl e), t') \<Rightarrow> (Some (Inl e), t')
      | (Some (Inr d), t') \<Rightarrow> (Some (Inr (rd_delta d)), t'))"

definition apply_reputation_penalty ::
  "reputation_env \<Rightarrow> int \<Rightarrow> string \<Rightarrow> takedown_reason \<Rightarrow> takedown_world \<Rightarrow> (moderation_error, f64) result option \<times> takedown_world" where
  "apply_reputation_penalty env now publisher reason w =
     (case tw_reputation w of
        None \<Rightarrow> (Some (Inr (Fin 0)), w)
      | Some t \<Rightarrow>
          if str_trim publisher = [] then (Some (Inr (Fin 0)), w)
          else (case NodeId_from_hex (str_trim publisher) of
                  Inl _ \<Rightarrow> (Some (Inr (Fin 0)), w)
                | Inr peer \<Rightarrow>
                    (case apply_violation env now peer reason 1 t of
                       (None, t') \<Rightarrow> (None, w\<lparr>tw_reputation := Some t'\<rparr>)
                     | (Some (Inl e), t') \<Rightarrow> (Some (Inl (ModReputation e)), w\<lparr>tw_reputation := Some t'\<rparr>)
                     | (Some (Inr d), t') \<Rightarrow> (Some (Inr d), w\<lparr>tw_reputation := Some t'\<rparr>))))"

definition bool_text :: "bool \<Rightarrow> string" where
  "bool_text b = (if b then ''true'' else ''false'')"

fun target_debug :: "takedown_target \<Rightarrow> string" where
  "target_debug BlocklistOnly = ''BlocklistOnly''"
| "target_debug LocalErase = ''LocalErase''"
| "target_debug CryptoShred = ''CryptoShred''"

definition takedown_note :: "takedown_target \<Rightarrow> bool \<Rightarrow> bool \<Rightarrow> string" where
  "takedown_note target pin_removed bytes_deleted =
     (if bytes_deleted
      then ''Local takedown ('' @ target_debug target @ ''); pin_removed='' @ bool_text pin_removed @ ''; bytes_deleted='' @ bool_text bytes_deleted
      else ''Blocklist-only takedown ('' @ target_debug target @ ''); local store untouched'')"

text \<open>The local part: pin, then bytes; an error of one leaves the later steps undone.\<close>

definition local_erase :: "takedown_io \<Rightarrow> takedown_target \<Rightarrow> content_hash \<Rightarrow> takedown_world \<Rightarrow> (moderation_error, bool \<times> bool) result \<times> takedown_world" where
  "local_erase io target h w =
     (if target = BlocklistOnly then (Inr (False, False), w)
      else (case remove_pin io h w of
              (Inl e, w1) \<Rightarrow> (Inl e, w1)
            | (Inr pin_removed, w1) \<Rightarrow>
                (case physically_erase io h w1 of
                   (Inl e, w2) \<Rightarrow> (Inl e, w2)
                 | (Inr bytes_deleted, w2) \<Rightarrow> (Inr (pin_removed, bytes_deleted), w2))))"

definition takedown_execute ::
  "reputation_env \<Rightarrow> int \<Rightarrow> takedown_io \<Rightarrow> block_request \<Rightarrow> takedown_target \<Rightarrow> takedown_world \<Rightarrow>
   (moderation_error, takedown_report) result option \<times> takedown_world" where
  "takedown_execute env now io r target w =
     (case Blocklist_add now (io_blocklist io) r (tw_blocklist w, tw_blocklist_file w) of
        (Inl e, b, f) \<Rightarrow> (Some (Inl e), w\<lparr>tw_blocklist := b, tw_blocklist_file := f\<rparr>)
      | (Inr i, b, f) \<Rightarrow>
          (case local_erase io target (br_hash r) (w\<lparr>tw_blocklist := b, tw_blocklist_file := f\<rparr>) of
             (Inl e, w2) \<Rightarrow> (Some (Inl e), w2)
           | (Inr (pin_removed, bytes_deleted), w2) \<Rightarrow>
               (case (if target = CryptoShred then crypto_shred io w2 else (Inr (), w2)) of
                  (Inl e, w3) \<Rightarrow> (Some (Inl e), w3)
                | (Inr _, w3) \<Rightarrow>
                    (case apply_reputation_penalty env now (br_publisher r) (br_reason r) w3 of
                       (None, w4) \<Rightarrow> (None, w4)
                     | (Some (Inl e), w4) \<Rightarrow> (Some (Inl e), w4)
                     | (Some (Inr delta), w4) \<Rightarrow>
                         (Some (Inr \<lparr>tr_hash = br_hash r, tr_reason = br_reason r, tr_source = br_source r,
                            tr_operator = br_operator r, tr_blocklist_entry_id = i, tr_executed_unix = now, tr_target = target,
                            tr_pin_removed = pin_removed, tr_bytes_deleted = bytes_deleted, tr_reputation_delta = delta,
                            tr_note = takedown_note target pin_removed bytes_deleted\<rparr>), w4)))))"

definition takedown_erase ::
  "reputation_env \<Rightarrow> int \<Rightarrow> takedown_io \<Rightarrow> content_hash \<Rightarrow> takedown_reason \<Rightarrow> string \<Rightarrow> string \<Rightarrow> takedown_world \<Rightarrow>
   (moderation_error, takedown_outcome) result option \<times> takedown_world" where
  "takedown_erase env now io h reason operator evidence w =
     (case takedown_execute env now io
             \<lparr>br_hash = h, br_reason = reason, br_source = Operator, br_evidence = evidence, br_operator = operator,
              br_expires = None, br_publisher = []\<rparr> LocalErase w of
        (Some (Inr report), w') \<Rightarrow> (Some (Inr (if tr_bytes_deleted report then Removed else NotPinned)), w')
      | (Some (Inl e), w') \<Rightarrow> (Some (Inl e), w')
      | (None, w') \<Rightarrow> (None, w'))"

section \<open>Invariant of the blocklist\<close>

definition index_of :: "(u64, blocklist_entry) hmap \<Rightarrow> (content_hash, u64) hmap" where
  "index_of m = fold (\<lambda>(h, i). hm_insert h i) (map (\<lambda>(i, e). (bke_hash e, i)) m) []"

text \<open>
  The index lists for every digest the entry filed last; the others of the digest are revoked or have
  expired for good.
\<close>

definition blocklist_inv :: "int \<Rightarrow> blocklist \<Rightarrow> bool" where
  "blocklist_inv now b \<longleftrightarrow>
     0 < bk_next_id b \<and> hm_wf (bk_entries b) \<and> (\<forall>(i, e) \<in> set (bk_entries b). bke_id e = i \<and> i < bk_next_id b) \<and>
     bk_by_hash b = index_of (bk_entries b) \<and>
     (\<forall>(i, e) \<in> set (bk_entries b). hm_get (bk_by_hash b) (bke_hash e) \<noteq> Some i \<longrightarrow> (\<forall>t \<ge> now. \<not> entry_is_active e t))"

lemma hm_insert_fresh: "k \<notin> fst ` set m \<Longrightarrow> hm_insert k v m = m @ [(k, v)]"
  by (induction m) auto

lemma map_hm_insert_same:
  "hm_get m k = Some v \<Longrightarrow> g (k, v') = g (k, v) \<Longrightarrow> map g (hm_insert k v' m) = map g m"
  by (induction m) (auto split: if_splits)

lemma hm_get_index_snoc: "hm_get (index_of (m @ [(i, e)])) = (hm_get (index_of m))(bke_hash e \<mapsto> i)"
  by (rule ext) (simp add: index_of_def)

lemma index_of_SomeD: "hm_get (index_of m) h = Some i \<Longrightarrow> \<exists>e. (i, e) \<in> set m \<and> bke_hash e = h"
proof (induction m rule: rev_induct)
  case (snoc x m)
  obtain j e where x: "x = (j, e)" by (cases x)
  with snoc show ?case by (cases "bke_hash e = h") (auto simp: hm_get_index_snoc)
qed (simp add: index_of_def)

lemma index_of_defined: "(i, e) \<in> set m \<Longrightarrow> hm_get (index_of m) (bke_hash e) \<noteq> None"
proof (induction m rule: rev_induct)
  case (snoc x m)
  then show ?case by (cases x) (auto simp: hm_get_index_snoc)
qed simp

lemma lookup_active_SomeD:
  assumes "blocklist_inv now b" and "lookup_active b t h = Some e"
  shows "(bke_id e, e) \<in> set (bk_entries b)" "bke_hash e = h" "entry_is_active e t"
proof -
  from assms(2) obtain i where i: "hm_get (bk_by_hash b) h = Some i" "hm_get (bk_entries b) i = Some e" and "entry_is_active e t"
    by (auto simp: lookup_active_def split: option.splits if_splits)
  then show "entry_is_active e t" by simp
  have mem: "(i, e) \<in> set (bk_entries b)" using i(2) by (rule map_of_SomeD)
  with assms(1) show "(bke_id e, e) \<in> set (bk_entries b)" by (auto simp: blocklist_inv_def)
  obtain e' where "(i, e') \<in> set (bk_entries b)" "bke_hash e' = h"
    using index_of_SomeD [of "bk_entries b" h i] i(1) assms(1) by (auto simp: blocklist_inv_def)
  with assms(1) i(2) show "bke_hash e = h" by (simp add: blocklist_inv_def hm_set_eq_get)
qed

lemma active_lookup:
  assumes "blocklist_inv now b" and "(i, e) \<in> set (bk_entries b)" and "entry_is_active e t" and "now \<le> t"
  shows "lookup_active b t (bke_hash e) = Some e"
proof -
  have "hm_get (bk_by_hash b) (bke_hash e) = Some i" using assms by (fastforce simp: blocklist_inv_def)
  moreover have "hm_get (bk_entries b) i = Some e" using assms(1,2) by (simp add: blocklist_inv_def hm_set_eq_get)
  ultimately show ?thesis using assms(3) by (simp add: lookup_active_def)
qed

lemma is_blocked_lookup: "is_blocked b t h \<longleftrightarrow> lookup_active b t h \<noteq> None"
  by (auto simp: is_blocked_def lookup_active_def split: option.splits)

lemma blocklist_inv_empty: "blocklist_inv now Blocklist_empty"
  by (simp add: blocklist_inv_def Blocklist_empty_def index_of_def)

lemma blocklist_inv_later: "blocklist_inv now b \<Longrightarrow> now \<le> now' \<Longrightarrow> blocklist_inv now' b"
  by (fastforce simp: blocklist_inv_def)

text \<open>The largest identifier, at which the counter stays.\<close>

definition ID_LIMIT :: nat where "ID_LIMIT = 2 ^ 64 - 1"

lemma sat_add64_fresh: "unat i < ID_LIMIT \<Longrightarrow> i < sat_add64 i 1"
  unfolding word_less_nat_alt unat_sat_add64 ID_LIMIT_def by simp

lemma sat_add64_le: "i < j \<Longrightarrow> sat_add64 i 1 \<le> j"
  unfolding word_less_nat_alt word_le_nat_alt unat_sat_add64 by (rule min.coboundedI1) simp

definition filed_entry :: "int \<Rightarrow> block_request \<Rightarrow> u64 \<Rightarrow> blocklist_entry" where
  "filed_entry now r i =
     \<lparr>bke_id = i, bke_hash = br_hash r, bke_reason = br_reason r, bke_source = br_source r,
      bke_evidence = br_evidence r, bke_operator = br_operator r, bke_issued_unix = now,
      bke_expires_unix = br_expires r, bke_publisher_node_hex = br_publisher r, bke_revoked = False\<rparr>"

definition with_entry :: "int \<Rightarrow> block_request \<Rightarrow> blocklist \<Rightarrow> blocklist" where
  "with_entry now r b =
     (let i = bk_next_id b
      in \<lparr>bk_by_hash = hm_insert (br_hash r) i (bk_by_hash b), bk_entries = hm_insert i (filed_entry now r i) (bk_entries b),
          bk_next_id = sat_add64 i 1\<rparr>)"

lemma Blocklist_add_eq:
  "Blocklist_add now io r (b, f) =
     (case lookup_active b now (br_hash r) of
        Some e \<Rightarrow> (Inr (bke_id e), b, f)
      | None \<Rightarrow> (if io then Inr (bk_next_id b) else Inl ModIo, with_entry now r b,
                 if io then Document (blocklist_document_of (with_entry now r b)) else f))"
  by (simp add: Blocklist_add_def blocklist_persist_def with_entry_def filed_entry_def Let_def split: option.split)

lemma with_entry_inv:
  assumes inv: "blocklist_inv now b" and room: "unat (bk_next_id b) < ID_LIMIT" and none: "lookup_active b now (br_hash r) = None"
  shows "blocklist_inv now (with_entry now r b)" "bk_entries (with_entry now r b) = bk_entries b @ [(bk_next_id b, filed_entry now r (bk_next_id b))]"
proof -
  let ?i = "bk_next_id b" and ?e = "filed_entry now r (bk_next_id b)"
  have new: "?i \<notin> fst ` set (bk_entries b)" using inv by (auto simp: blocklist_inv_def)
  show en: "bk_entries (with_entry now r b) = bk_entries b @ [(?i, ?e)]"
    using hm_insert_fresh [OF new] by (simp add: with_entry_def Let_def)
  have lt: "?i < bk_next_id (with_entry now r b)" using sat_add64_fresh [OF room] by (simp add: with_entry_def Let_def)
  have idx: "bk_by_hash (with_entry now r b) = index_of (bk_entries b @ [(?i, ?e)])"
    using inv by (simp add: with_entry_def Let_def index_of_def blocklist_inv_def filed_entry_def)
  have dead: "\<not> entry_is_active e t"
    if "(j, e) \<in> set (bk_entries b)" "bke_hash e = br_hash r" "now \<le> t" for j e t
  proof
    assume "entry_is_active e t"
    with \<open>now \<le> t\<close> have "entry_is_active e now" by (auto simp: entry_is_active_def split: option.splits if_splits)
    with active_lookup [OF inv that(1)] that(2) none show False by simp
  qed
  show "blocklist_inv now (with_entry now r b)"
    unfolding blocklist_inv_def en idx
  proof (intro conjI)
    show "0 < bk_next_id (with_entry now r b)" using lt by (rule le_less_trans [OF word_zero_le])
    show "hm_wf (bk_entries b @ [(?i, ?e)])" using inv new by (auto simp: blocklist_inv_def hm_wf_def)
    show "\<forall>(i, e) \<in> set (bk_entries b @ [(?i, ?e)]). bke_id e = i \<and> i < bk_next_id (with_entry now r b)"
      using inv lt by (fastforce simp: blocklist_inv_def filed_entry_def)
    show "\<forall>(i, e) \<in> set (bk_entries b @ [(?i, ?e)]). hm_get (index_of (bk_entries b @ [(?i, ?e)])) (bke_hash e) \<noteq> Some i \<longrightarrow>
        (\<forall>t \<ge> now. \<not> entry_is_active e t)"
      using inv dead by (fastforce simp: hm_get_index_snoc blocklist_inv_def filed_entry_def)
  qed simp
qed

lemma index_of_same:
  "hm_get m i = Some e \<Longrightarrow> bke_hash e' = bke_hash e \<Longrightarrow> index_of (hm_insert i e' m) = index_of m"
  unfolding index_of_def by (subst map_hm_insert_same) auto

lemma ball_hm_insert:
  "\<forall>(j, x) \<in> set m. P j x \<Longrightarrow> P i e \<Longrightarrow> \<forall>(j, x) \<in> set (hm_insert i e m). P j x"
  using set_hm_insert_subset [of i e m] by blast

definition with_revoked :: "u64 \<Rightarrow> blocklist_entry \<Rightarrow> blocklist \<Rightarrow> blocklist" where
  "with_revoked i e b = b\<lparr>bk_entries := hm_insert i (e\<lparr>bke_revoked := True\<rparr>) (bk_entries b)\<rparr>"

lemma Blocklist_revoke_eq:
  "Blocklist_revoke io i (b, f) =
     (case hm_get (bk_entries b) i of
        None \<Rightarrow> (Inr False, b, f)
      | Some e \<Rightarrow> (if io then Inr True else Inl ModIo, with_revoked i e b,
                   if io then Document (blocklist_document_of (with_revoked i e b)) else f))"
  by (simp add: Blocklist_revoke_def blocklist_persist_def with_revoked_def Let_def split: option.split)

lemma with_revoked_inv:
  assumes inv: "blocklist_inv now b" and e: "hm_get (bk_entries b) i = Some e"
  shows "blocklist_inv now (with_revoked i e b)"
proof -
  let ?m = "hm_insert i (e\<lparr>bke_revoked := True\<rparr>) (bk_entries b)"
  have mem: "(i, e) \<in> set (bk_entries b)" using e by (rule map_of_SomeD)
  have idx: "index_of ?m = index_of (bk_entries b)" using e by (rule index_of_same) simp
  have ids: "\<forall>(j, x) \<in> set ?m. bke_id x = j \<and> j < bk_next_id b"
    using inv mem unfolding blocklist_inv_def by (intro ball_hm_insert) auto
  have sup: "\<forall>(j, x) \<in> set ?m. hm_get (index_of (bk_entries b)) (bke_hash x) \<noteq> Some j \<longrightarrow> (\<forall>t \<ge> now. \<not> entry_is_active x t)"
  proof (rule ball_hm_insert)
    show "\<forall>(j, x) \<in> set (bk_entries b). hm_get (index_of (bk_entries b)) (bke_hash x) \<noteq> Some j \<longrightarrow> (\<forall>t \<ge> now. \<not> entry_is_active x t)"
      using inv unfolding blocklist_inv_def by (elim conjE) simp
  qed (simp add: entry_is_active_def)
  show ?thesis using inv ids sup by (simp add: with_revoked_def blocklist_inv_def idx)
qed

lemma load_entries_append:
  assumes "hm_wf (m @ m')" and "\<forall>(i, e) \<in> set m'. bke_id e = i"
  shows "load_blocklist_entries (map snd m') (index_of m, m) = (index_of (m @ m'), m @ m')"
  using assms
proof (induction m' arbitrary: m)
  case (Cons x m')
  obtain i e where x: "x = (i, e)" by (cases x)
  from Cons.prems have new: "i \<notin> fst ` set m" and id: "bke_id e = i"
    by (auto simp: x hm_wf_def)
  have "hm_insert (bke_hash e) i (index_of m) = index_of (m @ [(i, e)])" by (simp add: index_of_def)
  then have "load_blocklist_entries (map snd (x # m')) (index_of m, m) = load_blocklist_entries (map snd m') (index_of (m @ [x]), m @ [x])"
    by (simp add: x id hm_insert_fresh [OF new])
  also have "\<dots> = (index_of (m @ x # m'), m @ x # m')"
    using Cons.IH [of "m @ [x]"] Cons.prems by simp
  finally show ?case .
qed simp

lemma load_document:
  assumes "blocklist_inv now b"
  shows "load_from_path (Document (blocklist_document_of b)) = Inr b"
proof -
  from assms have "load_blocklist_entries (hm_values (bk_entries b)) ([], []) = (bk_by_hash b, bk_entries b)"
    using load_entries_append [of "[]" "bk_entries b"]
    by (auto simp: blocklist_inv_def hm_values_def index_of_def)
  moreover have "max (bk_next_id b) (sat_add64 (if bk_entries b = [] then 0 else fst (last (bk_entries b))) 1) = bk_next_id b"
  proof (rule max_absorb1)
    have "(if bk_entries b = [] then 0 else fst (last (bk_entries b))) < bk_next_id b"
      using assms last_in_set [of "bk_entries b"] by (cases "last (bk_entries b)") (auto simp: blocklist_inv_def)
    then show "sat_add64 (if bk_entries b = [] then 0 else fst (last (bk_entries b))) 1 \<le> bk_next_id b"
      by (rule sat_add64_le)
  qed
  ultimately show ?thesis
    by (simp add: load_from_path_def blocklist_document_of_def split del: if_split)
qed

section \<open>Runs of the blocklist\<close>

datatype block_op =
    BlockAdd bool block_request
  | BlockRevoke bool u64
  | BlockImport bool "blocklist_entry list"

fun block_step :: "int \<times> block_op \<Rightarrow> blocklist \<times> blocklist_file \<Rightarrow> blocklist \<times> blocklist_file" where
  "block_step (now, BlockAdd io r) bf = snd (Blocklist_add now io r bf)"
| "block_step (now, BlockRevoke io i) bf = snd (Blocklist_revoke io i bf)"
| "block_step (now, BlockImport io es) bf = snd (import_feed now io es 0 bf)"

fun op_adds :: "block_op \<Rightarrow> nat" where
  "op_adds (BlockAdd _ _) = 1"
| "op_adds (BlockRevoke _ _) = 0"
| "op_adds (BlockImport _ es) = length es"

fun op_written :: "block_op \<Rightarrow> bool" where
  "op_written (BlockAdd io _) = io"
| "op_written (BlockRevoke io _) = io"
| "op_written (BlockImport io _) = io"

text \<open>What every operation keeps: the invariant, room for identifiers and, while the file can be written, a faithful file.\<close>

definition block_state :: "int \<Rightarrow> nat \<Rightarrow> bool \<Rightarrow> blocklist \<times> blocklist_file \<Rightarrow> bool" where
  "block_state now n ok bf \<longleftrightarrow> blocklist_inv now (fst bf) \<and> unat (bk_next_id (fst bf)) \<le> n + 1 \<and>
     (ok \<longrightarrow> load_from_path (snd bf) = Inr (fst bf))"

lemma block_state_mono: "block_state now n ok bf \<Longrightarrow> now \<le> now' \<Longrightarrow> n \<le> n' \<Longrightarrow> (ok' \<longrightarrow> ok) \<Longrightarrow> block_state now' n' ok' bf"
  by (auto simp: block_state_def intro: blocklist_inv_later)

lemma unat_sat_add64_le: "unat i \<le> n \<Longrightarrow> unat (sat_add64 i 1) \<le> n + 1"
  unfolding unat_sat_add64 by (rule min.coboundedI1) simp

lemma block_state_add:
  assumes st: "block_state now n ok bf" and room: "n + 1 < ID_LIMIT"
  shows "block_state now (n + 1) (ok \<and> io) (snd (Blocklist_add now io r bf))"
proof -
  obtain b f where bf: "bf = (b, f)" by (cases bf)
  show ?thesis
  proof (cases "lookup_active b now (br_hash r)")
    case None
    have "unat (bk_next_id b) < ID_LIMIT" using st room by (simp add: block_state_def bf)
    from with_entry_inv(1) [of now b r, OF _ this None] st have inv: "blocklist_inv now (with_entry now r b)"
      by (simp add: block_state_def bf)
    moreover have "unat (bk_next_id (with_entry now r b)) \<le> n + 1 + 1"
      using st unat_sat_add64_le [of "bk_next_id b" "n + 1"] by (simp add: with_entry_def Let_def block_state_def bf)
    ultimately show ?thesis using load_document [OF inv] by (simp add: bf Blocklist_add_eq None block_state_def)
  qed (use st in \<open>auto simp: bf Blocklist_add_eq block_state_def\<close>)
qed

lemma block_state_revoke:
  assumes "block_state now n ok bf"
  shows "block_state now n (ok \<and> io) (snd (Blocklist_revoke io i bf))"
proof -
  obtain b f where bf: "bf = (b, f)" by (cases bf)
  show ?thesis
  proof (cases "hm_get (bk_entries b) i")
    case (Some e)
    with assms have inv: "blocklist_inv now (with_revoked i e b)" by (auto simp: block_state_def bf intro: with_revoked_inv)
    have "bk_next_id (with_revoked i e b) = bk_next_id b" by (simp add: with_revoked_def)
    with inv assms load_document [OF inv] Some show ?thesis by (simp add: bf Blocklist_revoke_eq block_state_def)
  qed (use assms in \<open>auto simp: bf Blocklist_revoke_eq block_state_def\<close>)
qed

lemma block_state_import:
  assumes "block_state now n ok bf" and "n + length es < ID_LIMIT"
  shows "block_state now (n + length es) (ok \<and> io) (snd (import_feed now io es k bf))"
  using assms
proof (induction es arbitrary: n ok k bf)
  case (Cons e es)
  obtain b f where bf: "bf = (b, f)" by (cases bf)
  note add = block_state_add [OF Cons.prems(1), of io "request_of e"]
  show ?case
  proof (cases "hm_get (bk_by_hash b) (bke_hash e)")
    case None
    obtain res bf' where r: "Blocklist_add now io (request_of e) bf = (res, bf')" by (cases "Blocklist_add now io (request_of e) bf")
    have st: "block_state now (n + 1) (ok \<and> io) bf'" using add Cons.prems(2) r by simp
    show ?thesis
    proof (cases res)
      case (Inl err)
      with None r block_state_mono [OF st, of now "n + length (e # es)" "ok \<and> io"] show ?thesis by (simp add: bf)
    next
      case (Inr i)
      with Cons.IH [OF st, of "k + 1"] Cons.prems(2) None r show ?thesis by (simp add: bf)
    qed
  next
    case (Some i)
    have "block_state now (n + length es) (ok \<and> io) (snd (import_feed now io es k bf))"
      using Cons.IH [OF Cons.prems(1), of k] Cons.prems(2) by simp
    from block_state_mono [OF this, of now "n + length (e # es)" "ok \<and> io"] Some show ?thesis by (simp add: bf)
  qed
next
  case Nil
  from block_state_mono [OF Nil.prems(1), of now n "ok \<and> io"] show ?case by simp
qed

lemma block_state_step:
  assumes "block_state t0 n ok bf" and "t0 \<le> fst op" and "n + op_adds (snd op) < ID_LIMIT"
  shows "block_state (fst op) (n + op_adds (snd op)) (ok \<and> op_written (snd op)) (block_step op bf)"
proof -
  obtain now q where op: "op = (now, q)" by (cases op)
  have st: "block_state now n ok bf" using block_state_mono [OF assms(1), of now n ok] assms(2) by (simp add: op)
  then show ?thesis
    using assms(3) block_state_add [OF st] block_state_revoke [OF st] block_state_import [OF st]
    by (cases q) (simp_all add: op)
qed

lemma block_state_run:
  assumes "block_state t0 n ok bf" and "sorted (t0 # map fst ops)" and "n + sum_list (map (op_adds \<circ> snd) ops) < ID_LIMIT"
  shows "block_state (last (t0 # map fst ops)) (n + sum_list (map (op_adds \<circ> snd) ops)) (ok \<and> list_all (op_written \<circ> snd) ops)
    (fold block_step ops bf)"
  using assms
proof (induction ops arbitrary: t0 n ok bf)
  case (Cons op ops)
  have "block_state (fst op) (n + op_adds (snd op)) (ok \<and> op_written (snd op)) (block_step op bf)"
    using Cons.prems by (intro block_state_step) auto
  from Cons.IH [OF this] Cons.prems(2,3) show ?case by (simp add: add.assoc)
qed simp

lemma sorted_le_last: "sorted xs \<Longrightarrow> x \<in> set xs \<Longrightarrow> x \<le> last xs" for x :: int
  by (induction xs) auto

lemma block_run:
  assumes "sorted (map fst ops @ [now])" and "sum_list (map (op_adds \<circ> snd) ops) < ID_LIMIT"
  shows "block_state now (sum_list (map (op_adds \<circ> snd) ops)) (list_all (op_written \<circ> snd) ops) (fold block_step ops (Blocklist_empty, NoFile))"
proof -
  define t0 where "t0 = (if ops = [] then now else fst (hd ops))"
  have "block_state t0 0 True (Blocklist_empty, NoFile)"
    by (simp add: block_state_def blocklist_inv_empty load_from_path_def) (simp add: Blocklist_empty_def)
  moreover have "sorted (t0 # map fst ops)" and le: "last (t0 # map fst ops) \<le> now"
    using assms(1) by (cases ops; auto simp: t0_def sorted_append last_map)+
  ultimately have "block_state (last (t0 # map fst ops)) (0 + sum_list (map (op_adds \<circ> snd) ops)) (True \<and> list_all (op_written \<circ> snd) ops)
      (fold block_step ops (Blocklist_empty, NoFile))"
    using assms(2) by (intro block_state_run) simp_all
  from block_state_mono [OF this le] show ?thesis by simp
qed

lemma active_entries:
  assumes "blocklist_inv now b"
  shows "e \<in> set (list_active b now) \<longleftrightarrow> lookup_active b now (bke_hash e) = Some e"
proof
  assume "e \<in> set (list_active b now)"
  then obtain i where "(i, e) \<in> set (bk_entries b)" "entry_is_active e now" by (auto simp: list_active_def hm_values_def)
  with active_lookup [OF assms this] show "lookup_active b now (bke_hash e) = Some e" by simp
next
  assume "lookup_active b now (bke_hash e) = Some e"
  from lookup_active_SomeD [OF assms this] show "e \<in> set (list_active b now)"
    by (force simp: list_active_def hm_values_def)
qed

lemma lookup_active_hash: "blocklist_inv now b \<Longrightarrow> lookup_active b now h = Some e \<Longrightarrow> bke_hash e = h"
  by (rule lookup_active_SomeD)

lemma listed_nil:
  assumes "blocklist_inv now b"
  shows "filter (\<lambda>e. bke_hash e = h) (list_active b now) = [] \<longleftrightarrow> lookup_active b now h = None"
proof (cases "lookup_active b now h")
  case None
  then show ?thesis using active_entries [OF assms] by (auto simp: filter_empty_conv)
next
  case (Some e)
  then have "e \<in> set (list_active b now)" and "bke_hash e = h"
    using active_entries [OF assms, of e] lookup_active_hash [OF assms Some] by auto
  with Some show ?thesis by (auto simp: filter_empty_conv)
qed

lemma one_active_entry:
  assumes "blocklist_inv now b"
  shows "length (filter (\<lambda>e. bke_hash e = h) (list_active b now)) \<le> 1"
proof -
  let ?l = "filter (\<lambda>e. bke_hash e = h) (list_active b now)"
  have "map bke_id (map snd (bk_entries b)) = map fst (bk_entries b)" using assms by (auto simp: blocklist_inv_def)
  then have "distinct (map bke_id (map snd (bk_entries b)))" using assms by (simp only: blocklist_inv_def hm_wf_def)
  then have "distinct (map snd (bk_entries b))" by (simp only: distinct_map)
  then have "distinct ?l" by (simp add: list_active_def hm_values_def)
  moreover have "set ?l \<subseteq> set_option (lookup_active b now h)" using active_entries [OF assms] by auto
  then have "card (set ?l) \<le> card (set_option (lookup_active b now h))" by (rule card_mono [rotated]) simp
  moreover have "card (set_option (lookup_active b now h)) \<le> 1" by (cases "lookup_active b now h") auto
  ultimately show ?thesis using distinct_card [of ?l] by simp
qed

lemma run_classifiers_allowed: "is_allowed (run_classifiers hooks h) \<longleftrightarrow> (\<forall>hook \<in> set hooks. hook h = None)"
  by (induction hooks) (auto simp: is_allowed_def PolicyDecision_allow_def PolicyDecision_deny_def split: option.split)

lemma policy_allowed:
  "is_allowed (check_read b now p h) \<longleftrightarrow>
     lookup_active b now h = None \<and> \<not> mp_deny_by_default p \<and> (\<forall>hook \<in> set (mp_classifiers p). hook h = None)"
  "is_allowed (check_write b now p h) \<longleftrightarrow> lookup_active b now h = None \<and> (\<forall>hook \<in> set (mp_classifiers p). hook h = None)"
  by (auto simp: check_read_def check_write_def run_classifiers_allowed split: option.split)
     (auto simp: is_allowed_def blocked_decision_def PolicyDecision_deny_def)

section \<open>Properties\<close>

text \<open>
  C21. After any run of blocks, revocations and imports with a clock that does not go back, and fewer than
  \<open>2 ^ 64 - 1\<close> entries: content that an unrevoked and unexpired entry names is refused for reads and for
  writes, whatever the default-deny switch and the classifiers say, and the refusal names that entry, the
  only one of its kind. Without such an entry a write is allowed exactly if no classifier objects; a read is
  allowed if the switch is off and there is no classifier, and refused if the switch is on and no entry at
  all, active or not, names the content. (Reads of content with a revoked entry under default-deny and
  classifiers on reads are the subject of \<open>default_deny_has_no_whitelist\<close> and \<open>classifiers_run_on_reads\<close>.)
\<close>

theorem policy_follows_active_entries:
  assumes "sorted (map fst ops @ [now])" and "sum_list (map (op_adds \<circ> snd) ops) < ID_LIMIT"
  shows "let b = fst (fold block_step ops (Blocklist_empty, NoFile));
             listed = filter (\<lambda>e. bke_hash e = h) (list_active b now)
    in (listed \<noteq> [] \<longrightarrow> \<not> is_allowed (check_read b now p h) \<and> \<not> is_allowed (check_write b now p h) \<and>
          length listed = 1 \<and> pd_source_entry (check_read b now p h) = Some (hd listed) \<and>
          pd_source_entry (check_write b now p h) = Some (hd listed)) \<and>
       (is_allowed (check_write b now p h) \<longleftrightarrow> listed = [] \<and> (\<forall>hook \<in> set (mp_classifiers p). hook h = None)) \<and>
       (listed = [] \<and> \<not> mp_deny_by_default p \<and> mp_classifiers p = [] \<longrightarrow> is_allowed (check_read b now p h)) \<and>
       (mp_deny_by_default p \<and> h \<notin> bke_hash ` set (list_entries b) \<longrightarrow> \<not> is_allowed (check_read b now p h))"
proof -
  let ?b = "fst (fold block_step ops (Blocklist_empty, NoFile))"
  let ?listed = "filter (\<lambda>e. bke_hash e = h) (list_active ?b now)"
  have inv: "blocklist_inv now ?b" using block_run [OF assms] by (simp add: block_state_def)
  have none: "?listed = [] \<longleftrightarrow> lookup_active ?b now h = None"
    by (rule listed_nil [OF inv])
  have src: "pd_source_entry (check_read ?b now p h) = Some e \<and> pd_source_entry (check_write ?b now p h) = Some e"
    if "e \<in> set ?listed" for e
    using that active_entries [OF inv] by (auto simp: check_read_def check_write_def blocked_decision_def)
  have "length ?listed = 1 \<and> pd_source_entry (check_read ?b now p h) = Some (hd ?listed) \<and>
      pd_source_entry (check_write ?b now p h) = Some (hd ?listed)" if "?listed \<noteq> []"
    using that src [OF hd_in_set [OF that]] one_active_entry [OF inv, of h] by (cases ?listed) auto
  then show ?thesis unfolding Let_def using none by (auto simp: policy_allowed)
qed

definition demo_request :: block_request where
  "demo_request = \<lparr>br_hash = [7], br_reason = Csam, br_source = Ncmec, br_evidence = ''case'', br_operator = ''op'',
     br_expires = None, br_publisher = []\<rparr>"

theorem policy_follows_active_entries_witness:
  "\<not> is_allowed (check_read (fst (fold block_step [(0, BlockAdd True demo_request)] (Blocklist_empty, NoFile))) 1 ModerationPolicy_new [7])"
  using policy_follows_active_entries [of "[(0, BlockAdd True demo_request)]" 1 "[7]" ModerationPolicy_new]
  by (simp add: ID_LIMIT_def Blocklist_add_eq with_entry_def filed_entry_def lookup_active_def list_active_def hm_values_def
    Blocklist_empty_def demo_request_def entry_is_active_def Let_def)

text \<open>
  What the comments of the policy say otherwise: under default-deny a revoked entry does not let a read
  through, and classifiers refuse reads as well as writes.
\<close>

lemma default_deny_has_no_whitelist: "mp_deny_by_default p \<Longrightarrow> \<not> is_allowed (check_read b now p h)"
  by (simp add: policy_allowed)

lemma classifiers_run_on_reads:
  "hook \<in> set (mp_classifiers p) \<Longrightarrow> hook h \<noteq> None \<Longrightarrow> \<not> is_allowed (check_read b now p h)"
  by (auto simp: policy_allowed)

text \<open>
  C26. If every write of the file succeeded, a restart reads back exactly the blocklist in memory: all
  entries with their identifiers, the index and the counter.
\<close>

theorem blocklist_survives_restart:
  assumes "sorted (map fst ops)" and "sum_list (map (op_adds \<circ> snd) ops) < ID_LIMIT"
    and "list_all (op_written \<circ> snd) ops" and "fold block_step ops (Blocklist_empty, NoFile) = (b, f)"
  shows "load_from_path f = Inr b"
proof -
  let ?now = "if ops = [] then 0 else last (map fst ops)"
  have "t \<le> ?now" if "t \<in> set (map fst ops)" for t
    using that sorted_le_last [OF assms(1)] by (cases "ops = []") auto
  then have "sorted (map fst ops @ [?now])" using assms(1) by (auto simp: sorted_append)
  from block_run [OF this assms(2)] assms(3,4) show ?thesis by (simp add: block_state_def)
qed

theorem blocklist_survives_restart_witness:
  "load_from_path (snd (fold block_step [(0, BlockAdd True demo_request), (1, BlockRevoke True 1)] (Blocklist_empty, NoFile))) =
    Inr (fst (fold block_step [(0, BlockAdd True demo_request), (1, BlockRevoke True 1)] (Blocklist_empty, NoFile)))"
  by (rule blocklist_survives_restart [of "[(0, BlockAdd True demo_request), (1, BlockRevoke True 1)]"])
     (simp_all add: ID_LIMIT_def del: fold.simps)

subsection \<open>Feeds\<close>

lemma lookup_with_entry_other:
  assumes "blocklist_inv now b" and "br_hash r \<noteq> h"
  shows "lookup_active (with_entry now r b) t h = lookup_active b t h"
proof (cases "hm_get (bk_by_hash b) h")
  case (Some i)
  obtain e where "(i, e) \<in> set (bk_entries b)"
    using index_of_SomeD [of "bk_entries b" h i] Some assms(1) by (auto simp: blocklist_inv_def)
  with assms(1) have "i \<noteq> bk_next_id b" by (auto simp: blocklist_inv_def)
  with Some assms(2) show ?thesis by (simp add: lookup_active_def with_entry_def Let_def)
qed (use assms in \<open>simp add: lookup_active_def with_entry_def Let_def\<close>)

text \<open>
  Importing a feed does not block a content that was ever listed: an entry that was revoked or has expired
  keeps the content out of every later feed, and it stays readable although the feed names it.
\<close>

theorem feed_cannot_block_again:
  assumes "block_state now n ok (b, f)" and "n + length es < ID_LIMIT"
    and "hm_get (bk_by_hash b) h \<noteq> None" and "\<not> is_blocked b now h"
  shows "\<not> is_blocked (fst (snd (import_feed now io es k (b, f)))) now h"
  using assms
proof (induction es arbitrary: n ok k b f)
  case (Cons e es)
  from Cons.prems(1) have inv: "blocklist_inv now b" by (simp add: block_state_def)
  show ?case
  proof (cases "hm_get (bk_by_hash b) (bke_hash e)")
    case None
    with Cons.prems(3) have neq: "br_hash (request_of e) \<noteq> h" by (auto simp: request_of_def)
    have la: "lookup_active b now (br_hash (request_of e)) = None" using None by (simp add: lookup_active_def request_of_def)
    let ?b = "with_entry now (request_of e) b"
    have not: "\<not> is_blocked ?b now h" using Cons.prems(4) lookup_with_entry_other [OF inv neq] by (simp add: is_blocked_lookup)
    have idx: "hm_get (bk_by_hash ?b) h \<noteq> None" using Cons.prems(3) by (simp add: with_entry_def Let_def)
    have st: "block_state now (n + 1) (ok \<and> io) (snd (Blocklist_add now io (request_of e) (b, f)))"
      using block_state_add [OF Cons.prems(1)] Cons.prems(2) by simp
    show ?thesis
    proof (cases io)
      case True
      with st la have "block_state now (n + 1) ok (?b, Document (blocklist_document_of ?b))" by (simp add: Blocklist_add_eq)
      from Cons.IH [OF this _ idx not] Cons.prems(2) True None la show ?thesis by (simp add: Blocklist_add_eq)
    next
      case False
      with None la not show ?thesis by (simp add: Blocklist_add_eq)
    qed
  qed (use Cons in auto)
qed simp

subsection \<open>Takedowns\<close>

lemma lookup_with_entry:
  "lookup_active (with_entry now r b) t (br_hash r) =
     (if entry_is_active (filed_entry now r (bk_next_id b)) t then Some (filed_entry now r (bk_next_id b)) else None)"
  by (simp add: lookup_active_def with_entry_def Let_def)

lemma lookup_after_add:
  assumes "case br_expires r of Some t \<Rightarrow> now < t | None \<Rightarrow> True"
  shows "lookup_active (fst (snd (Blocklist_add now io r (b, f)))) now (br_hash r) \<noteq> None"
proof -
  have "entry_is_active (filed_entry now r (bk_next_id b)) now"
    using assms by (simp add: entry_is_active_def filed_entry_def)
  then show ?thesis by (simp add: Blocklist_add_eq lookup_with_entry split: option.split)
qed








text \<open>
  C27. Content that is only partly in the store cannot be taken down. When the takedown is to erase, the
  store can be opened and the requested block is not already expired, the removal of an incomplete blob is
  refused, so that the takedown fails; by then the block is on the list and refuses reads and writes of the
  content, but the bytes stay on disk, no key is destroyed and the publisher is not penalised.
\<close>

theorem partial_content_survives_takedown:
  assumes "tw_blobs w = Some fs" and "hm_get fs (Blob (br_hash r)) = Some d" and "\<not> bd_complete d"
    and "target \<noteq> BlocklistOnly" and "io_open_blobs io" and "case br_expires r of Some t \<Rightarrow> now < t | None \<Rightarrow> True"
  shows "(case fst (takedown_execute env now io r target w) of Some (Inl _) \<Rightarrow> True | _ \<Rightarrow> False) \<and>
    is_blocked (tw_blocklist (snd (takedown_execute env now io r target w))) now (br_hash r) \<and>
    \<not> is_allowed (check_read (tw_blocklist (snd (takedown_execute env now io r target w))) now p (br_hash r)) \<and>
    \<not> is_allowed (check_write (tw_blocklist (snd (takedown_execute env now io r target w))) now p (br_hash r)) \<and>
    tw_blobs (snd (takedown_execute env now io r target w)) = Some fs \<and>
    tw_key_file (snd (takedown_execute env now io r target w)) = tw_key_file w \<and>
    tw_reputation (snd (takedown_execute env now io r target w)) = tw_reputation w"
proof -
  obtain res b f where add: "Blocklist_add now (io_blocklist io) r (tw_blocklist w, tw_blocklist_file w) = (res, b, f)"
    by (cases "Blocklist_add now (io_blocklist io) r (tw_blocklist w, tw_blocklist_file w)")
  let ?w = "w\<lparr>tw_blocklist := b, tw_blocklist_file := f\<rparr>"
  obtain rp w1 where pin: "remove_pin io (br_hash r) ?w = (rp, w1)" by (cases "remove_pin io (br_hash r) ?w")
  have listed: "lookup_active b now (br_hash r) \<noteq> None"
    using lookup_after_add [OF assms(6), of "io_blocklist io" "tw_blocklist w" "tw_blocklist_file w"] add by simp
  have w1: "tw_blobs w1 = Some fs \<and> tw_key_file w1 = tw_key_file w \<and> tw_reputation w1 = tw_reputation w \<and> tw_blocklist w1 = b"
    using pin assms(1) by (cases "tw_pins w") (auto simp: remove_pin_def case_prod_beta split: if_splits)
  have "physically_erase io (br_hash r) w1 = (Inl ModIo, w1\<lparr>tw_blobs := Some fs\<rparr>)"
    using w1 assms by (simp add: physically_erase_def BlobStore_remove_def)
  then have "\<exists>e w2. local_erase io target (br_hash r) ?w = (Inl e, w2) \<and>
      tw_blobs w2 = Some fs \<and> tw_key_file w2 = tw_key_file w \<and> tw_reputation w2 = tw_reputation w \<and> tw_blocklist w2 = b"
    using w1 assms(4) by (cases rp) (auto simp: local_erase_def pin)
  then show ?thesis
    using assms(1) listed by (cases res) (auto simp: takedown_execute_def add policy_allowed is_blocked_lookup)
qed

definition demo_world :: "blob_fs \<Rightarrow> takedown_world" where
  "demo_world fs = \<lparr>tw_blocklist = Blocklist_empty, tw_blocklist_file = NoFile, tw_pins = Pins (snd (PinSet_add [7] False [] 0 [])),
     tw_blobs = Some fs, tw_key_configured = True, tw_key_file = Some [1, 2], tw_reputation = None\<rparr>"

definition demo_io :: takedown_io where
  "demo_io = \<lparr>io_blocklist = True, io_pins = True, io_open_blobs = True, io_remove = None, io_key = True\<rparr>"

definition demo_blob :: "bool \<Rightarrow> blob_fs" where
  "demo_blob whole = [(Blob [7], \<lparr>bd_chunks_dir = True, bd_chunks = [(0, [1, 2, 3])], bd_shas = [], bd_meta = None, bd_complete = whole\<rparr>)]"



theorem partial_content_survives_takedown_witness:
  "tw_blobs (snd (takedown_execute demo_reputation_env 5 demo_io demo_request CryptoShred (demo_world (demo_blob False)))) = Some (demo_blob False)"
  using partial_content_survives_takedown [of "demo_world (demo_blob False)" "demo_blob False" demo_request
      "\<lparr>bd_chunks_dir = True, bd_chunks = [(0, [1, 2, 3])], bd_shas = [], bd_meta = None, bd_complete = False\<rparr>" CryptoShred demo_io 5
      demo_reputation_env ModerationPolicy_new]
  by (simp add: demo_world_def demo_blob_def demo_request_def demo_io_def)

subsection \<open>Penalties\<close>

lemma effective_count_once: "unat (effective_count reason 1) = reason_severity reason"
  by (cases reason) (simp_all add: effective_count_def)

text \<open>
  A takedown lowers the score of the publisher by five times the severity of its reason, within the
  range of scores. A peer with a score above 40 thus stays above the refusal threshold of -10 even
  after a takedown of the gravest kind.
\<close>

theorem violation_score:
  assumes "table_inv env t" and "st_params t = ReputationParams_default" and "PeerScoreTable_score env t peer = Some (Fin x)"
  shows "PeerScoreTable_score env (snd (apply_violation env now peer reason 1 t)) peer =
      Some (f64_clamp MIN_SCORE MAX_SCORE (Fin (x - 5 * real (reason_severity reason))))"
    and "reason = Csam \<Longrightarrow> 40 < x \<Longrightarrow> x \<le> 100 \<Longrightarrow>
      \<exists>y > refusal_threshold ReputationParams_default. PeerScoreTable_score env (snd (apply_violation env now peer reason 1 t)) peer = Some (Fin y)"
proof -
  have "snd (apply_violation env now peer reason 1 t) =
      snd (apply_with_count env now (BehaviourPenalty peer ContentViolation (effective_count reason 1)) None t)"
    by (simp add: apply_violation_def PeerScoreTable_apply_def split: prod.split option.split sum.split)
  then show sc: "PeerScoreTable_score env (snd (apply_violation env now peer reason 1 t)) peer =
      Some (f64_clamp MIN_SCORE MAX_SCORE (Fin (x - 5 * real (reason_severity reason))))"
    using assms by (simp add: apply_score event_score_def effective_count_once) (simp add: ReputationParams_default_def)
  show "\<exists>y > refusal_threshold ReputationParams_default. PeerScoreTable_score env (snd (apply_violation env now peer reason 1 t)) peer = Some (Fin y)"
    if "reason = Csam" "40 < x" "x \<le> 100"
    unfolding sc using that
    by (intro exI [of _ "x - 50"]) (simp add: ReputationParams_default_def MIN_SCORE_def MAX_SCORE_def)
qed

end
