(* ===== verification/Firewall_Rule.thy ===== *)
theory Firewall_Rule
  imports Node
begin

text \<open>
  The rule model of the mesh firewall (\<^verbatim>\<open>crates/a3net-mesh-firewall/src/rule.rs\<close>):
  directions, protocol, port and peer filters, rules, and the ordered rule set with its
  bound \<^verbatim>\<open>MAX_RULES\<close>. The invariant \<open>RuleSet_wf\<close> says that the identifiers are the
  positions and that the bound holds; every operation keeps it.
\<close>

definition MAX_RULES :: nat where
  "MAX_RULES = 1024"

datatype direction = In | Out

datatype proto_spec = Icmp | Tcp | Udp | Any

definition ProtoSpec_matches :: "proto_spec \<Rightarrow> u8 \<Rightarrow> bool" where
  "ProtoSpec_matches spec proto = (case spec of
     proto_spec.Any \<Rightarrow> True
   | proto_spec.Icmp \<Rightarrow> proto = 1 \<or> proto = 58
   | proto_spec.Tcp \<Rightarrow> proto = 6
   | proto_spec.Udp \<Rightarrow> proto = 17)"

definition ProtoSpec_to_string :: "proto_spec \<Rightarrow> string" where
  "ProtoSpec_to_string p = (case p of
     proto_spec.Any \<Rightarrow> ''any''
   | proto_spec.Icmp \<Rightarrow> ''icmp''
   | proto_spec.Tcp \<Rightarrow> ''tcp''
   | proto_spec.Udp \<Rightarrow> ''udp'')"

datatype port_spec = Any | Single u16 | Range u16 u16

datatype port_range_error = PortRangeError (pr_lo: u16) (pr_hi: u16)

definition PortSpec_range :: "u16 \<Rightarrow> u16 \<Rightarrow> (port_range_error, port_spec) result" where
  "PortSpec_range lo hi = (if lo > hi then Inl (PortRangeError lo hi) else Inr (Range lo hi))"

fun PortSpec_is_valid :: "port_spec \<Rightarrow> bool" where
  "PortSpec_is_valid (Range lo hi) = (lo \<le> hi)"
| "PortSpec_is_valid _ = True"

fun PortSpec_matches :: "port_spec \<Rightarrow> u16 \<Rightarrow> bool" where
  "PortSpec_matches port_spec.Any port = True"
| "PortSpec_matches (Single p) port = (p = port)"
| "PortSpec_matches (Range lo hi) port = (if lo \<le> hi then port \<ge> lo \<and> port \<le> hi else False)"

fun PortSpec_is_any :: "port_spec \<Rightarrow> bool" where
  "PortSpec_is_any port_spec.Any = True"
| "PortSpec_is_any _ = False"

fun PortSpec_to_string :: "port_spec \<Rightarrow> string" where
  "PortSpec_to_string port_spec.Any = ''any''"
| "PortSpec_to_string (Single p) = show_nat (unat p)"
| "PortSpec_to_string (Range lo hi) = show_nat (unat lo) @ ''..'' @ show_nat (unat hi)"

datatype action = Allow | Deny

datatype peer_spec = PeerSpec "node_id option"

definition PeerSpec_any :: peer_spec where
  "PeerSpec_any = PeerSpec None"

fun PeerSpec_is_node :: "peer_spec \<Rightarrow> node_id \<Rightarrow> bool" where
  "PeerSpec_is_node (PeerSpec None) node = True"
| "PeerSpec_is_node (PeerSpec (Some p)) node = (p = node)"

datatype rule_id = RuleId u64

definition RuleId_from_index :: "nat \<Rightarrow> rule_id" where
  "RuleId_from_index i = RuleId (of_nat i)"

fun RuleId_index :: "rule_id \<Rightarrow> nat" where
  "RuleId_index (RuleId i) = unat i"

record rule =
  r_id :: rule_id
  r_direction :: direction
  r_action :: action
  r_proto :: proto_spec
  r_port :: port_spec
  r_peer :: peer_spec

definition Rule_allow :: "direction \<Rightarrow> proto_spec \<Rightarrow> port_spec \<Rightarrow> rule" where
  "Rule_allow d proto port = \<lparr>r_id = RuleId_from_index 0, r_direction = d, r_action = action.Allow,
     r_proto = proto, r_port = port, r_peer = PeerSpec_any\<rparr>"

definition Rule_with_peer :: "rule \<Rightarrow> node_id \<Rightarrow> rule" where
  "Rule_with_peer r peer = r\<lparr>r_peer := PeerSpec (Some peer)\<rparr>"

definition Rule_matches :: "rule \<Rightarrow> direction \<Rightarrow> u8 \<Rightarrow> u16 \<Rightarrow> node_id \<Rightarrow> ip_addr \<Rightarrow> bool" where
  "Rule_matches r d proto port peer src =
     (r_direction r = d \<and> ProtoSpec_matches (r_proto r) proto \<and> PortSpec_matches (r_port r) port \<and>
      PeerSpec_is_node (r_peer r) peer)"

type_synonym rule_set = "rule list"

definition RuleSet_new :: rule_set where
  "RuleSet_new = []"

definition RuleSet_push :: "rule \<Rightarrow> rule_set \<Rightarrow> bool \<times> rule_set" where
  "RuleSet_push r rs =
     (if length rs \<ge> MAX_RULES then (False, rs)
      else (True, rs @ [r\<lparr>r_id := RuleId_from_index (length rs)\<rparr>]))"

definition RuleSet_clear :: "rule_set \<Rightarrow> rule_set" where
  "RuleSet_clear rs = []"

definition RuleSet_remove :: "rule_id \<Rightarrow> rule_set \<Rightarrow> bool \<times> rule_set" where
  "RuleSet_remove i rs =
     (let kept = filter (\<lambda>r. r_id r \<noteq> i) rs;
          removed = (length kept \<noteq> length rs)
      in (removed,
          if removed then map (\<lambda>(j, r). r\<lparr>r_id := RuleId_from_index j\<rparr>) (enumerate 0 kept) else kept))"

section \<open>Invariant and behaviour\<close>

definition RuleSet_wf :: "rule_set \<Rightarrow> bool" where
  "RuleSet_wf rs = (length rs \<le> MAX_RULES \<and>
     map r_id rs = map RuleId_from_index [0..<length rs])"

lemma RuleId_from_index_inj:
  "i \<le> MAX_RULES \<Longrightarrow> j \<le> MAX_RULES \<Longrightarrow> RuleId_from_index i = RuleId_from_index j \<longleftrightarrow> i = j"
  by (simp add: RuleId_from_index_def MAX_RULES_def of_nat_small_inj)

lemma RuleId_index_from_index: "i \<le> MAX_RULES \<Longrightarrow> RuleId_index (RuleId_from_index i) = i"
  by (simp add: RuleId_from_index_def MAX_RULES_def unat_of_nat_small)

lemma RuleSet_wf_nth:
  "RuleSet_wf rs \<longleftrightarrow> length rs \<le> MAX_RULES \<and> (\<forall>i < length rs. r_id (rs ! i) = RuleId_from_index i)"
  unfolding RuleSet_wf_def
  using list_eq_iff_nth_eq [of "map r_id rs" "map RuleId_from_index [0..<length rs]"] by simp

lemma RuleSet_wf_new [simp]: "RuleSet_wf RuleSet_new"
  by (simp add: RuleSet_wf_def RuleSet_new_def MAX_RULES_def)

lemma RuleSet_wf_push: "RuleSet_wf rs \<Longrightarrow> RuleSet_wf (snd (RuleSet_push r rs))"
  by (auto simp: RuleSet_wf_def RuleSet_push_def)

lemma RuleSet_wf_remove:
  assumes "RuleSet_wf rs"
  shows "RuleSet_wf (snd (RuleSet_remove i rs))"
proof -
  have le: "length (filter (\<lambda>r. r_id r \<noteq> i) rs) \<le> MAX_RULES"
    using assms by (meson RuleSet_wf_def length_filter_le le_trans)
  show ?thesis
  proof (cases "length (filter (\<lambda>r. r_id r \<noteq> i) rs) = length rs")
    case True
    then have "filter (\<lambda>r. r_id r \<noteq> i) rs = rs"
      by (metis filter_id_conv length_filter_less nat_less_le)
    then show ?thesis using assms by (simp add: RuleSet_remove_def Let_def)
  next
    case False
    with le show ?thesis
      by (simp add: RuleSet_remove_def Let_def RuleSet_wf_nth nth_enumerate_eq)
  qed
qed

lemma RuleSet_wf_distinct:
  assumes "RuleSet_wf rs"
  shows "distinct (map r_id rs)"
  using assms
  by (auto simp: RuleSet_wf_def distinct_map inj_on_def RuleId_from_index_inj)

text \<open>
  A rule is removed exactly when its identifier is a position of the set, and then the other
  rules keep their order and everything but their identifiers.
\<close>

definition rule_body :: "rule \<Rightarrow> direction \<times> action \<times> proto_spec \<times> port_spec \<times> peer_spec" where
  "rule_body r = (r_direction r, r_action r, r_proto r, r_port r, r_peer r)"

lemma rule_body_id [simp]: "rule_body (r\<lparr>r_id := i\<rparr>) = rule_body r"
  by (simp add: rule_body_def)

lemma reindex_body:
  "map rule_body (map (\<lambda>(j, r). r\<lparr>r_id := f j\<rparr>) (enumerate k rs)) = map rule_body rs"
  by (induction rs arbitrary: k) simp_all

lemma filter_id_nth:
  assumes "RuleSet_wf rs" and "n < length rs"
  shows "filter (\<lambda>r. r_id r \<noteq> RuleId_from_index n) rs = take n rs @ drop (Suc n) rs"
proof -
  let ?P = "\<lambda>r. r_id r \<noteq> RuleId_from_index n"
  have wf: "length rs \<le> MAX_RULES" "\<And>i. i < length rs \<Longrightarrow> r_id (rs ! i) = RuleId_from_index i"
    using assms(1) by (auto simp: RuleSet_wf_nth)
  have P: "?P (rs ! i) \<longleftrightarrow> i \<noteq> n" if "i < length rs" for i
    using that wf assms(2) by (simp add: RuleId_from_index_inj)
  have "filter ?P (take n rs) = take n rs"
    using P assms(2) by (intro filter_True) (auto simp: in_set_conv_nth)
  moreover have "filter ?P (drop (Suc n) rs) = drop (Suc n) rs"
    using P by (intro filter_True) (auto simp: in_set_conv_nth)
  moreover have "\<not> ?P (rs ! n)" using P assms(2) by simp
  ultimately have "filter ?P (take n rs @ rs ! n # drop (Suc n) rs) = take n rs @ drop (Suc n) rs"
    by simp
  then show ?thesis using id_take_nth_drop [OF assms(2)] by simp
qed

lemma RuleSet_remove_at:
  assumes "RuleSet_wf rs" and "n < length rs"
  shows "fst (RuleSet_remove (RuleId_from_index n) rs)"
    and "map rule_body (snd (RuleSet_remove (RuleId_from_index n) rs)) =
      map rule_body (take n rs @ drop (Suc n) rs)"
  using assms(2) filter_id_nth [OF assms] reindex_body [where rs = "take n rs @ drop (Suc n) rs"]
  by (simp_all add: RuleSet_remove_def Let_def)

lemma RuleSet_remove_absent:
  assumes "RuleSet_wf rs" and "length rs \<le> n" and "n \<le> MAX_RULES"
  shows "RuleSet_remove (RuleId_from_index n) rs = (False, rs)"
proof -
  have "r_id r \<noteq> RuleId_from_index n" if r: "r \<in> set rs" for r
  proof -
    obtain i where "i < length rs" and "rs ! i = r" using r by (auto simp: in_set_conv_nth)
    with assms show ?thesis by (auto simp: RuleSet_wf_nth RuleId_from_index_inj)
  qed
  then have "filter (\<lambda>r. r_id r \<noteq> RuleId_from_index n) rs = rs" by simp
  then show ?thesis by (simp add: RuleSet_remove_def Let_def)
qed

text \<open>A port filter accepts exactly the ports between its bounds.\<close>

fun port_set :: "port_spec \<Rightarrow> u16 set" where
  "port_set port_spec.Any = UNIV"
| "port_set (Single p) = {p}"
| "port_set (Range lo hi) = {lo..hi}"

lemma PortSpec_matches_iff: "PortSpec_matches spec port \<longleftrightarrow> port \<in> port_set spec"
  by (cases spec) auto

lemma PortSpec_range_valid:
  "PortSpec_range lo hi = Inr spec \<Longrightarrow> PortSpec_is_valid spec \<and> PortSpec_matches spec lo \<and> PortSpec_matches spec hi"
  by (auto simp: PortSpec_range_def split: if_splits)

lemma PortSpec_invalid_never:
  "\<not> PortSpec_is_valid spec \<Longrightarrow> \<not> PortSpec_matches spec port"
  by (cases spec) auto

datatype rule_set_op = Push rule | Remove rule_id | Clear

fun RuleSet_step :: "rule_set_op \<Rightarrow> rule_set \<Rightarrow> rule_set" where
  "RuleSet_step (Push r) rs = snd (RuleSet_push r rs)"
| "RuleSet_step (Remove i) rs = snd (RuleSet_remove i rs)"
| "RuleSet_step Clear rs = RuleSet_clear rs"

interpretation ruleset_ops: op_machine "\<lambda>rs. rs = RuleSet_new" RuleSet_step RuleSet_wf
proof
  show "RuleSet_wf s" if "s = RuleSet_new" for s using that by simp
  show "RuleSet_wf (RuleSet_step p s)" if "RuleSet_wf s" for p s
    using that RuleSet_wf_new
    by (cases p) (auto simp: RuleSet_wf_push RuleSet_wf_remove RuleSet_clear_def RuleSet_new_def)
qed

end
