(* ===== verification/Firewall_Conntrack.thy ===== *)
theory Firewall_Conntrack
  imports Firewall_Rule
begin

text \<open>
  Connection tracking (\<^verbatim>\<open>crates/a3net-mesh-firewall/src/conntrack.rs\<close>): the bounded
  table of outbound flows that lets return traffic in. One definition per method of
  \<^verbatim>\<open>ConnTracker\<close>; each takes the clock reading \<open>now\<close> the code takes under the lock. The
  list order of the table is the iteration order of \<^verbatim>\<open>values_mut\<close>, which decides which of
  several matching flows \<^verbatim>\<open>lookup_inbound\<close> sees first.
\<close>

definition DEFAULT_CONN_TIMEOUT :: duration where
  "DEFAULT_CONN_TIMEOUT = 300"

definition MAX_CONN_ENTRIES :: nat where
  "MAX_CONN_ENTRIES = 4096"

datatype conn_proto = Tcp | Udp

fun ConnProto_as_u8 :: "conn_proto \<Rightarrow> u8" where
  "ConnProto_as_u8 conn_proto.Tcp = 6"
| "ConnProto_as_u8 conn_proto.Udp = 17"

fun ConnProto_from_proto_spec :: "proto_spec \<Rightarrow> conn_proto option" where
  "ConnProto_from_proto_spec proto_spec.Tcp = Some conn_proto.Tcp"
| "ConnProto_from_proto_spec proto_spec.Udp = Some conn_proto.Udp"
| "ConnProto_from_proto_spec _ = None"

record conn_key =
  ck_proto :: conn_proto
  ck_peer :: node_id
  ck_peer_port :: u16
  ck_local_port :: u16
  ck_peer_addr :: socket_addr

record conn_entry =
  ce_key :: conn_key
  ce_direction :: direction
  ce_opened_at :: instant
  ce_last_seen :: instant

record conn_tracker_config =
  idle_timeout :: duration
  max_entries :: nat

definition ConnTrackerConfig_default :: conn_tracker_config where
  "ConnTrackerConfig_default =
     \<lparr>idle_timeout = DEFAULT_CONN_TIMEOUT, max_entries = MAX_CONN_ENTRIES\<rparr>"

datatype conn_tracker_error = Full nat

record conn_tracker =
  ct_entries :: "(conn_key, conn_entry) hmap"
  ct_config :: conn_tracker_config

record inbound_probe =
  ip_proto :: conn_proto
  ip_peer :: node_id
  ip_peer_port :: u16

definition ConnTracker_new :: "conn_tracker_config \<Rightarrow> conn_tracker" where
  "ConnTracker_new config = \<lparr>ct_entries = [], ct_config = config\<rparr>"

definition ConnTracker_open_outbound ::
  "conn_proto \<Rightarrow> node_id \<Rightarrow> u16 \<Rightarrow> socket_addr \<Rightarrow> u16 \<Rightarrow> instant \<Rightarrow> conn_tracker \<Rightarrow>
    (conn_tracker_error, unit) result \<times> conn_tracker" where
  "ConnTracker_open_outbound proto peer peer_port peer_addr local_port now ct =
     (let key = \<lparr>ck_proto = proto, ck_peer = peer, ck_peer_port = peer_port,
                 ck_local_port = local_port, ck_peer_addr = peer_addr\<rparr>
      in if \<not> hm_contains (ct_entries ct) key \<and> length (ct_entries ct) \<ge> max_entries (ct_config ct)
         then (Inl (Full (max_entries (ct_config ct))), ct)
         else (Inr (), ct\<lparr>ct_entries := hm_insert key
                 \<lparr>ce_key = key, ce_direction = Out, ce_opened_at = now, ce_last_seen = now\<rparr>
                 (ct_entries ct)\<rparr>))"

definition expired :: "conn_tracker \<Rightarrow> instant \<Rightarrow> conn_entry \<Rightarrow> bool" where
  "expired ct now e = (now - ce_last_seen e > idle_timeout (ct_config ct))"

definition ConnTracker_lookup :: "conn_key \<Rightarrow> instant \<Rightarrow> conn_tracker \<Rightarrow> bool \<times> conn_tracker" where
  "ConnTracker_lookup key now ct =
     (case hm_get (ct_entries ct) key of
        Some e \<Rightarrow>
          if expired ct now e then (False, ct\<lparr>ct_entries := hm_remove key (ct_entries ct)\<rparr>)
          else (True, ct\<lparr>ct_entries := hm_insert key (e\<lparr>ce_last_seen := now\<rparr>) (ct_entries ct)\<rparr>)
      | None \<Rightarrow> (False, ct))"

definition probe_matches :: "inbound_probe \<Rightarrow> conn_entry \<Rightarrow> bool" where
  "probe_matches probe e =
     (ck_proto (ce_key e) = ip_proto probe \<and> ck_peer_port (ce_key e) = ip_peer_port probe \<and>
      ck_peer (ce_key e) = ip_peer probe)"

definition ConnTracker_lookup_inbound ::
  "inbound_probe \<Rightarrow> instant \<Rightarrow> conn_tracker \<Rightarrow> bool \<times> conn_tracker" where
  "ConnTracker_lookup_inbound probe now ct =
     (case List.find (\<lambda>(k, e). probe_matches probe e) (ct_entries ct) of
        Some (k, e) \<Rightarrow>
          if expired ct now e then (False, ct\<lparr>ct_entries := hm_remove (ce_key e) (ct_entries ct)\<rparr>)
          else (True, ct\<lparr>ct_entries := hm_insert k (e\<lparr>ce_last_seen := now\<rparr>) (ct_entries ct)\<rparr>)
      | None \<Rightarrow> (False, ct))"

definition ConnTracker_close :: "conn_key \<Rightarrow> conn_tracker \<Rightarrow> bool \<times> conn_tracker" where
  "ConnTracker_close key ct =
     (hm_contains (ct_entries ct) key, ct\<lparr>ct_entries := hm_remove key (ct_entries ct)\<rparr>)"

definition ConnTracker_len :: "conn_tracker \<Rightarrow> nat" where
  "ConnTracker_len ct = length (ct_entries ct)"

definition ConnTracker_snapshot :: "conn_tracker \<Rightarrow> (conn_key \<times> direction \<times> instant) list" where
  "ConnTracker_snapshot ct =
     map (\<lambda>e. (ce_key e, ce_direction e, ce_last_seen e)) (hm_values (ct_entries ct))"

definition ConnTracker_sweep :: "instant \<Rightarrow> conn_tracker \<Rightarrow> nat \<times> conn_tracker" where
  "ConnTracker_sweep now ct =
     (let kept = hm_retain (\<lambda>_ e. now - ce_last_seen e \<le> idle_timeout (ct_config ct)) (ct_entries ct)
      in (length (ct_entries ct) - length kept, ct\<lparr>ct_entries := kept\<rparr>))"

section \<open>Invariant\<close>

text \<open>
  The table has distinct keys, never more entries than the configured maximum, every entry is
  filed under its own key, and every entry is an outbound flow.
\<close>

definition entries_ok :: "(conn_key, conn_entry) hmap \<Rightarrow> bool" where
  "entries_ok m = (\<forall>(k, e) \<in> set m. ce_key e = k \<and> ce_direction e = Out)"

definition ConnTracker_inv :: "conn_tracker \<Rightarrow> bool" where
  "ConnTracker_inv ct = (hm_wf (ct_entries ct) \<and>
     length (ct_entries ct) \<le> max_entries (ct_config ct) \<and> entries_ok (ct_entries ct))"

lemma entries_ok_insert [intro]:
  "entries_ok m \<Longrightarrow> ce_key e = k \<Longrightarrow> ce_direction e = Out \<Longrightarrow> entries_ok (hm_insert k e m)"
  using set_hm_insert_subset [of k e m] by (fastforce simp: entries_ok_def)

lemma entries_ok_subset: "entries_ok m \<Longrightarrow> set m' \<subseteq> set m \<Longrightarrow> entries_ok m'"
  by (auto simp: entries_ok_def)

lemma entries_ok_remove [intro]: "entries_ok m \<Longrightarrow> entries_ok (hm_remove k m)"
  using set_hm_remove_subset by (rule entries_ok_subset [rotated])

lemma entries_okD: "entries_ok m \<Longrightarrow> (k, e) \<in> set m \<Longrightarrow> ce_key e = k \<and> ce_direction e = Out"
  by (auto simp: entries_ok_def)

lemma length_hm_insert_present: "(k, v) \<in> set m \<Longrightarrow> length (hm_insert k v' m) = length m"
  by (simp add: length_hm_insert in_keysI)

lemma inv_new [simp]: "ConnTracker_inv (ConnTracker_new config)"
  by (simp add: ConnTracker_inv_def ConnTracker_new_def entries_ok_def)

lemma inv_refresh:
  assumes "ConnTracker_inv ct" and "(k, e) \<in> set (ct_entries ct)"
  shows "ConnTracker_inv (ct\<lparr>ct_entries := hm_insert k (e\<lparr>ce_last_seen := now\<rparr>) (ct_entries ct)\<rparr>)"
  using assms entries_okD [of "ct_entries ct" k e]
  by (auto simp: ConnTracker_inv_def length_hm_insert_present)

lemma inv_remove:
  "ConnTracker_inv ct \<Longrightarrow> ConnTracker_inv (ct\<lparr>ct_entries := hm_remove k (ct_entries ct)\<rparr>)"
  using length_hm_remove_le [of k "ct_entries ct"] by (auto simp: ConnTracker_inv_def)

lemma inv_open_outbound:
  "ConnTracker_inv ct \<Longrightarrow> ConnTracker_inv (snd (ConnTracker_open_outbound p n pp a lp now ct))"
  by (auto simp: ConnTracker_inv_def ConnTracker_open_outbound_def Let_def hm_contains_iff
      length_hm_insert)

lemma inv_lookup: "ConnTracker_inv ct \<Longrightarrow> ConnTracker_inv (snd (ConnTracker_lookup key now ct))"
  by (auto simp: ConnTracker_lookup_def inv_remove dest: map_of_SomeD intro: inv_refresh
      split: option.splits)

lemma inv_lookup_inbound:
  "ConnTracker_inv ct \<Longrightarrow> ConnTracker_inv (snd (ConnTracker_lookup_inbound probe now ct))"
  by (auto simp: ConnTracker_lookup_inbound_def inv_remove dest: find_SomeD intro: inv_refresh
      split: option.splits)

lemma inv_close: "ConnTracker_inv ct \<Longrightarrow> ConnTracker_inv (snd (ConnTracker_close key ct))"
  by (simp add: ConnTracker_close_def inv_remove)

lemma inv_sweep: "ConnTracker_inv ct \<Longrightarrow> ConnTracker_inv (snd (ConnTracker_sweep now ct))"
  unfolding ConnTracker_inv_def ConnTracker_sweep_def Let_def
  by (auto simp: hm_retain_def intro: le_trans [OF length_filter_le] entries_ok_subset)

lemmas ConnTracker_inv_ops = inv_open_outbound inv_lookup inv_lookup_inbound inv_close inv_sweep

datatype conn_tracker_op =
    OpenOutbound conn_proto node_id u16 socket_addr u16 instant
  | Lookup conn_key instant
  | LookupInbound inbound_probe instant
  | Close conn_key
  | Sweep instant

fun ConnTracker_step :: "conn_tracker_op \<Rightarrow> conn_tracker \<Rightarrow> conn_tracker" where
  "ConnTracker_step (OpenOutbound p n pp a lp now) ct =
     snd (ConnTracker_open_outbound p n pp a lp now ct)"
| "ConnTracker_step (Lookup key now) ct = snd (ConnTracker_lookup key now ct)"
| "ConnTracker_step (LookupInbound probe now) ct = snd (ConnTracker_lookup_inbound probe now ct)"
| "ConnTracker_step (Close key) ct = snd (ConnTracker_close key ct)"
| "ConnTracker_step (Sweep now) ct = snd (ConnTracker_sweep now ct)"

interpretation conntrack_ops: op_machine "\<lambda>ct. \<exists>config. ct = ConnTracker_new config"
  ConnTracker_step ConnTracker_inv
proof
  show "ConnTracker_inv s" if "\<exists>config. s = ConnTracker_new config" for s using that by auto
  show "ConnTracker_inv (ConnTracker_step p s)" if "ConnTracker_inv s" for p s
    using that by (cases p) (simp_all add: ConnTracker_inv_ops)
qed

section \<open>Return traffic\<close>

definition live_flow :: "conn_tracker \<Rightarrow> instant \<Rightarrow> inbound_probe \<Rightarrow> conn_entry \<Rightarrow> bool" where
  "live_flow ct now probe e =
     (e \<in> set (hm_values (ct_entries ct)) \<and> probe_matches probe e \<and> \<not> expired ct now e)"

lemma lookup_inbound_sound:
  assumes "fst (ConnTracker_lookup_inbound probe now ct)"
  shows "\<exists>e. live_flow ct now probe e"
proof -
  obtain k e where "List.find (\<lambda>(k, e). probe_matches probe e) (ct_entries ct) = Some (k, e)"
    and "\<not> expired ct now e"
    using assms by (auto simp: ConnTracker_lookup_inbound_def split: option.splits if_splits)
  then have "live_flow ct now probe e"
    by (auto simp: live_flow_def hm_values_def dest!: find_SomeD intro: rev_image_eqI)
  then show ?thesis ..
qed

lemma lookup_inbound_complete:
  assumes "\<exists>e. live_flow ct now probe e"
    and "\<And>e. e \<in> set (hm_values (ct_entries ct)) \<Longrightarrow> probe_matches probe e \<Longrightarrow> \<not> expired ct now e"
  shows "fst (ConnTracker_lookup_inbound probe now ct)"
proof (cases "List.find (\<lambda>(k, e). probe_matches probe e) (ct_entries ct)")
  case None
  with assms(1) show ?thesis by (auto simp: live_flow_def find_None_all hm_values_def)
next
  case (Some a)
  then obtain k e where a: "a = (k, e)" "(k, e) \<in> set (ct_entries ct)" "probe_matches probe e"
    by (cases a) (auto dest!: find_SomeD)
  with assms(2) [of e] have "\<not> expired ct now e"
    using in_valuesI by (fastforce simp: hm_values_def)
  with Some a show ?thesis by (simp add: ConnTracker_lookup_inbound_def)
qed

lemma lookup_inbound_config [simp]:
  "ct_config (snd (ConnTracker_lookup_inbound probe now ct)) = ct_config ct"
  by (auto simp: ConnTracker_lookup_inbound_def split: option.splits)

text \<open>
  A rejected lookup that found an expired flow removes it and nothing else, so a live flow
  that is behind expired ones is reached after as many retries as there are expired flows.
\<close>

lemma lookup_inbound_miss:
  assumes inv: "ConnTracker_inv ct" and live: "live_flow ct now probe e"
    and miss: "\<not> fst (ConnTracker_lookup_inbound probe now ct)"
  defines "ct' \<equiv> snd (ConnTracker_lookup_inbound probe now ct)"
  shows "live_flow ct' now probe e" and "Suc (length (ct_entries ct')) = length (ct_entries ct)"
proof -
  have wf: "hm_wf (ct_entries ct)" and ok: "entries_ok (ct_entries ct)"
    using inv by (simp_all add: ConnTracker_inv_def)
  obtain k where e: "(k, e) \<in> set (ct_entries ct)" "probe_matches probe e" "\<not> expired ct now e"
    using live by (auto simp: live_flow_def hm_values_def)
  then obtain k' e' where f: "List.find (\<lambda>(k, e). probe_matches probe e) (ct_entries ct) = Some (k', e')"
    by (cases "List.find (\<lambda>(k, e). probe_matches probe e) (ct_entries ct)")
      (auto simp: find_None_all)
  then have in': "(k', e') \<in> set (ct_entries ct)" by (auto dest: find_SomeD)
  from f miss have exp: "expired ct now e'"
    by (auto simp: ConnTracker_lookup_inbound_def split: if_splits)
  have k': "ce_key e' = k'" using entries_okD [OF ok in'] by simp
  have ct': "ct' = ct\<lparr>ct_entries := hm_remove k' (ct_entries ct)\<rparr>"
    using f exp k' by (simp add: ct'_def ConnTracker_lookup_inbound_def)
  have "k \<noteq> k'"
    using wf e(1,3) in' exp by (auto simp: hm_wf_def dest: eq_key_imp_eq_value)
  with e(1) have "(k, e) \<in> set (hm_remove k' (ct_entries ct))"
    by (auto simp: AList.delete_eq)
  with e(2,3) show "live_flow ct' now probe e"
    by (auto simp: live_flow_def ct' hm_values_def expired_def intro: rev_image_eqI)
  show "Suc (length (ct_entries ct')) = length (ct_entries ct)"
    using length_hm_remove [OF wf, of k'] in_keysI [OF in'] by (simp add: ct')
qed

fun retries :: "nat \<Rightarrow> inbound_probe \<Rightarrow> instant \<Rightarrow> conn_tracker \<Rightarrow> conn_tracker" where
  "retries 0 probe now ct = ct"
| "retries (Suc n) probe now ct = retries n probe now (snd (ConnTracker_lookup_inbound probe now ct))"

lemma lookup_inbound_eventually:
  assumes "ConnTracker_inv ct" and "live_flow ct now probe e"
  shows "\<exists>n < length (ct_entries ct). fst (ConnTracker_lookup_inbound probe now (retries n probe now ct))"
  using assms
proof (induction "length (ct_entries ct)" arbitrary: ct rule: less_induct)
  case less
  let ?ct' = "snd (ConnTracker_lookup_inbound probe now ct)"
  have pos: "0 < length (ct_entries ct)"
    using less.prems(2) by (auto simp: live_flow_def hm_values_def)
  show ?case
  proof (cases "fst (ConnTracker_lookup_inbound probe now ct)")
    case True
    then have "fst (ConnTracker_lookup_inbound probe now (retries 0 probe now ct))" by simp
    with pos show ?thesis by blast
  next
    case False
    note miss = lookup_inbound_miss [OF less.prems False]
    have "\<exists>n < length (ct_entries ?ct').
        fst (ConnTracker_lookup_inbound probe now (retries n probe now ?ct'))"
      using less.hyps [of ?ct'] miss inv_lookup_inbound [OF less.prems(1)] by simp
    then obtain n where "n < length (ct_entries ?ct')"
      and "fst (ConnTracker_lookup_inbound probe now (retries (Suc n) probe now ct))" by auto
    with miss(2) show ?thesis by (metis Suc_less_eq)
  qed
qed

text \<open>After a sweep no entry is expired, and exactly the live entries are left.\<close>

lemma sweep_entries:
  "set (ct_entries (snd (ConnTracker_sweep now ct))) = {(k, e) \<in> set (ct_entries ct). \<not> expired ct now e}"
  by (auto simp: ConnTracker_sweep_def Let_def hm_retain_def expired_def)

lemma sweep_count:
  "fst (ConnTracker_sweep now ct) + length (ct_entries (snd (ConnTracker_sweep now ct))) =
    length (ct_entries ct)"
  by (simp add: ConnTracker_sweep_def Let_def hm_retain_def)

lemma sweep_config [simp]: "ct_config (snd (ConnTracker_sweep now ct)) = ct_config ct"
  by (simp add: ConnTracker_sweep_def Let_def)

lemma sweep_then_lookup:
  assumes "live_flow ct now probe e"
  shows "fst (ConnTracker_lookup_inbound probe now (snd (ConnTracker_sweep now ct)))"
proof (rule lookup_inbound_complete)
  have "live_flow (snd (ConnTracker_sweep now ct)) now probe e"
    using assms sweep_entries [of now ct]
    by (auto simp: live_flow_def hm_values_def expired_def intro: rev_image_eqI)
  then show "\<exists>e. live_flow (snd (ConnTracker_sweep now ct)) now probe e" ..
qed (use sweep_entries [of now ct] in \<open>auto simp: hm_values_def expired_def\<close>)

section \<open>Properties\<close>

definition demo_config :: conn_tracker_config where
  "demo_config = \<lparr>idle_timeout = 10, max_entries = 4\<rparr>"

definition demo_probe :: inbound_probe where
  "demo_probe = \<lparr>ip_proto = conn_proto.Tcp, ip_peer = ''aa'', ip_peer_port = 443\<rparr>"

definition demo_tracker :: conn_tracker where
  "demo_tracker = fold ConnTracker_step
     [OpenOutbound conn_proto.Tcp ''aa'' 443 (V4 1, 443) 5000 0,
      OpenOutbound conn_proto.Tcp ''aa'' 443 (V4 1, 443) 5001 20] (ConnTracker_new demo_config)"

lemmas demo_defs = demo_config_def demo_probe_def demo_tracker_def ConnTracker_open_outbound_def
  ConnTracker_new_def ConnTracker_lookup_inbound_def live_flow_def probe_matches_def expired_def
  hm_contains_def hm_values_def Let_def

lemma demo_tracker_inv: "ConnTracker_inv demo_tracker"
  unfolding demo_tracker_def by (rule conntrack_ops.inv_run) blast

lemma demo_tracker_live:
  "live_flow demo_tracker 25 demo_probe
    \<lparr>ce_key = \<lparr>ck_proto = conn_proto.Tcp, ck_peer = ''aa'', ck_peer_port = 443,
       ck_local_port = 5001, ck_peer_addr = (V4 1, 443)\<rparr>,
     ce_direction = Out, ce_opened_at = 20, ce_last_seen = 20\<rparr>"
  by (simp add: demo_defs)

text \<open>
  Connection tracking is bounded and consistent in every reachable state: whatever sequence
  of opens, lookups, closes and sweeps is run at whatever times, the table has no duplicate
  key, never exceeds the configured maximum, and files every entry under its own key.
\<close>

theorem conntrack_reachable_inv:
  "ConnTracker_inv (fold ConnTracker_step ops (ConnTracker_new config))"
  by (rule conntrack_ops.inv_run) blast

text \<open>
  A packet of a live flow is admitted after finitely many attempts: \<^verbatim>\<open>lookup_inbound\<close> may
  reject it while it removes expired flows of the same peer and port, each attempt removing
  one, and some attempt before the table size runs out answers true.
\<close>

theorem return_traffic_eventually_admitted:
  assumes "ConnTracker_inv ct" and "live_flow ct now probe e"
  shows "\<exists>n < length (ct_entries ct).
    fst (ConnTracker_lookup_inbound probe now (retries n probe now ct))"
  using assms by (rule lookup_inbound_eventually)

theorem return_traffic_eventually_admitted_witness:
  "\<exists>n < length (ct_entries demo_tracker).
    fst (ConnTracker_lookup_inbound demo_probe 25 (retries n demo_probe 25 demo_tracker))"
  using return_traffic_eventually_admitted [OF demo_tracker_inv demo_tracker_live] .

text \<open>
  The comment in \<^verbatim>\<open>lookup_inbound\<close> says that an expired entry is dropped and the search
  goes on; the code returns false at the first expired match. In a reachable table a packet
  of a live flow is therefore rejected once, although its flow has been open for only five
  ticks of a ten-tick timeout.
\<close>

theorem lookup_inbound_rejects_live_flow:
  "(\<exists>e. live_flow demo_tracker 25 demo_probe e) \<and>
    \<not> fst (ConnTracker_lookup_inbound demo_probe 25 demo_tracker) \<and>
    fst (ConnTracker_lookup_inbound demo_probe 25
      (snd (ConnTracker_lookup_inbound demo_probe 25 demo_tracker)))"
proof (intro conjI)
  show "\<exists>e. live_flow demo_tracker 25 demo_probe e" using demo_tracker_live by blast
qed (simp_all add: demo_defs)

end
