(* ===== verification/Firewall_Engine.thy ===== *)
theory Firewall_Engine
  imports Firewall_Conntrack
begin

text \<open>
  The decision engine (\<^verbatim>\<open>decision.rs\<close> and \<^verbatim>\<open>engine.rs\<close> of
  \<^verbatim>\<open>crates/a3net-mesh-firewall\<close>): connection tracking first, then the first matching
  rule, then the default policy. The counters of \<^verbatim>\<open>FirewallStats\<close> are part of the state;
  they are atomic 64-bit integers, so they wrap.
\<close>

datatype decision = Allow | Deny

fun Decision_is_allowed :: "decision \<Rightarrow> bool" where
  "Decision_is_allowed decision.Allow = True"
| "Decision_is_allowed decision.Deny = False"

fun Decision_from :: "action \<Rightarrow> decision" where
  "Decision_from action.Allow = decision.Allow"
| "Decision_from action.Deny = decision.Deny"

datatype decision_reason =
    AllowRule rule_id
  | DenyRule rule_id
  | DefaultAllow
  | DefaultDeny
  | ConntrackAllow
  | ConntrackFull

fun DecisionReason_rule_id :: "decision_reason \<Rightarrow> rule_id option" where
  "DecisionReason_rule_id (AllowRule i) = Some i"
| "DecisionReason_rule_id (DenyRule i) = Some i"
| "DecisionReason_rule_id _ = None"

record default_policy =
  inbound_tcp_udp :: action
  inbound_icmp :: action
  outbound :: action

definition DefaultPolicy_default :: default_policy where
  "DefaultPolicy_default =
     \<lparr>inbound_tcp_udp = action.Deny, inbound_icmp = action.Allow, outbound = action.Allow\<rparr>"

record firewall_config =
  fc_rules :: rule_set
  fc_default_policy :: default_policy
  fc_conntrack :: conn_tracker_config

definition FirewallConfig_default :: firewall_config where
  "FirewallConfig_default = \<lparr>fc_rules = RuleSet_new, fc_default_policy = DefaultPolicy_default,
     fc_conntrack = ConnTrackerConfig_default\<rparr>"

record firewall_stats =
  decisions_total :: u64
  decisions_allowed :: u64
  decisions_denied :: u64
  conntrack_open :: u64
  conntrack_full :: u64
  rule_evaluations :: u64
  active_entries :: u64

definition FirewallStats_default :: firewall_stats where
  "FirewallStats_default = \<lparr>decisions_total = 0, decisions_allowed = 0, decisions_denied = 0,
     conntrack_open = 0, conntrack_full = 0, rule_evaluations = 0, active_entries = 0\<rparr>"

record packet =
  p_direction :: direction
  p_proto :: u8
  p_port :: u16
  p_peer :: node_id
  p_src_ip :: ip_addr

record firewall_engine =
  fe_rules :: rule_set
  fe_default_policy :: default_policy
  fe_conntrack :: conn_tracker
  fe_stats :: firewall_stats

definition FirewallEngine_new :: "firewall_config \<Rightarrow> firewall_stats \<Rightarrow> firewall_engine" where
  "FirewallEngine_new config stats = \<lparr>fe_rules = fc_rules config,
     fe_default_policy = fc_default_policy config,
     fe_conntrack = ConnTracker_new (fc_conntrack config), fe_stats = stats\<rparr>"

definition replace_rules :: "rule_set \<Rightarrow> firewall_engine \<Rightarrow> firewall_engine" where
  "replace_rules rs fe = fe\<lparr>fe_rules := rs\<rparr>"

definition rule_count :: "firewall_engine \<Rightarrow> nat" where
  "rule_count fe = length (fe_rules fe)"

definition conntrack_snapshot :: "firewall_engine \<Rightarrow> (conn_key \<times> direction \<times> instant) list" where
  "conntrack_snapshot fe = ConnTracker_snapshot (fe_conntrack fe)"

definition FirewallEngine_open_outbound ::
  "conn_proto \<Rightarrow> node_id \<Rightarrow> u16 \<Rightarrow> ip_addr \<Rightarrow> u16 \<Rightarrow> instant \<Rightarrow> firewall_engine \<Rightarrow>
    (conn_tracker_error, unit) result \<times> firewall_engine" where
  "FirewallEngine_open_outbound proto peer peer_port peer_ip local_port now fe =
     (let sock = (peer_ip, peer_port);
          stats = (fe_stats fe)\<lparr>conntrack_open := conntrack_open (fe_stats fe) + 1\<rparr>;
          (r, ct) = ConnTracker_open_outbound proto peer peer_port sock local_port now (fe_conntrack fe)
      in (r, fe\<lparr>fe_stats := stats, fe_conntrack := ct\<rparr>))"

definition inbound_to_connprobe :: "packet \<Rightarrow> inbound_probe option" where
  "inbound_to_connprobe pkt =
     (if p_proto pkt = 6
      then Some \<lparr>ip_proto = conn_proto.Tcp, ip_peer = p_peer pkt, ip_peer_port = p_port pkt\<rparr>
      else if p_proto pkt = 17
      then Some \<lparr>ip_proto = conn_proto.Udp, ip_peer = p_peer pkt, ip_peer_port = p_port pkt\<rparr>
      else None)"

definition default_action :: "firewall_engine \<Rightarrow> direction \<Rightarrow> u8 \<Rightarrow> action" where
  "default_action fe d proto = (case d of
     In \<Rightarrow> if proto = 1 \<or> proto = 58 then inbound_icmp (fe_default_policy fe)
           else inbound_tcp_udp (fe_default_policy fe)
   | Out \<Rightarrow> outbound (fe_default_policy fe))"

definition count_decision :: "decision \<Rightarrow> firewall_stats \<Rightarrow> firewall_stats" where
  "count_decision d st = (case d of
     decision.Allow \<Rightarrow> st\<lparr>decisions_allowed := decisions_allowed st + 1\<rparr>
   | decision.Deny \<Rightarrow> st\<lparr>decisions_denied := decisions_denied st + 1\<rparr>)"

definition rules_then_default :: "packet \<Rightarrow> firewall_engine \<Rightarrow> decision \<times> decision_reason" where
  "rules_then_default pkt fe =
     (case List.find (\<lambda>r. Rule_matches r (p_direction pkt) (p_proto pkt) (p_port pkt) (p_peer pkt)
             (p_src_ip pkt)) (fe_rules fe) of
        Some r \<Rightarrow> (Decision_from (r_action r),
            case r_action r of action.Allow \<Rightarrow> AllowRule (r_id r) | action.Deny \<Rightarrow> DenyRule (r_id r))
      | None \<Rightarrow>
          (let a = default_action fe (p_direction pkt) (p_proto pkt)
           in (Decision_from a,
               case a of action.Allow \<Rightarrow> DefaultAllow | action.Deny \<Rightarrow> DefaultDeny)))"

definition conntrack_hit :: "packet \<Rightarrow> instant \<Rightarrow> conn_tracker \<Rightarrow> bool \<times> conn_tracker" where
  "conntrack_hit pkt now ct =
     (if p_direction pkt = In
      then case inbound_to_connprobe pkt of
             Some probe \<Rightarrow> ConnTracker_lookup_inbound probe now ct
           | None \<Rightarrow> (False, ct)
      else (False, ct))"

definition decide ::
  "packet \<Rightarrow> instant \<Rightarrow> firewall_engine \<Rightarrow> (decision \<times> decision_reason) \<times> firewall_engine" where
  "decide pkt now fe =
     (let st = (fe_stats fe)\<lparr>decisions_total := decisions_total (fe_stats fe) + 1,
                             rule_evaluations := rule_evaluations (fe_stats fe) + 1\<rparr>;
          (hit, ct) = conntrack_hit pkt now (fe_conntrack fe)
      in if hit
         then ((decision.Allow, ConntrackAllow),
               fe\<lparr>fe_conntrack := ct,
                  fe_stats := (count_decision decision.Allow st)
                    \<lparr>active_entries := of_nat (ConnTracker_len ct)\<rparr>\<rparr>)
         else (let (d, reason) = rules_then_default pkt fe
               in ((d, reason), fe\<lparr>fe_conntrack := ct, fe_stats := count_decision d st\<rparr>)))"

section \<open>The verdict\<close>

abbreviation rule_applies :: "packet \<Rightarrow> rule \<Rightarrow> bool" where
  "rule_applies pkt r \<equiv>
     Rule_matches r (p_direction pkt) (p_proto pkt) (p_port pkt) (p_peer pkt) (p_src_ip pkt)"

lemma decide_verdict:
  "fst (decide pkt now fe) =
    (if fst (conntrack_hit pkt now (fe_conntrack fe)) then (decision.Allow, ConntrackAllow)
     else rules_then_default pkt fe)"
  by (simp add: decide_def Let_def split: prod.splits)

lemma decide_frame [simp]:
  "fe_rules (snd (decide pkt now fe)) = fe_rules fe"
  "fe_default_policy (snd (decide pkt now fe)) = fe_default_policy fe"
  "fe_conntrack (snd (decide pkt now fe)) = snd (conntrack_hit pkt now (fe_conntrack fe))"
  by (simp_all add: decide_def Let_def split: prod.splits)

text \<open>
  The abstract policy: a rule list read as a partial function from packets, where the head
  of the list overrides the tail.
\<close>

fun policy :: "rule list \<Rightarrow> packet \<Rightarrow> rule option" where
  "policy [] pkt = None"
| "policy (r # rs) pkt = (if rule_applies pkt r then Some r else policy rs pkt)"

lemma find_policy: "List.find (rule_applies pkt) rs = policy rs pkt"
  by (induction rs) auto

lemma policy_nth:
  assumes "i < length rs" and "rule_applies pkt (rs ! i)"
    and "\<And>j. j < i \<Longrightarrow> \<not> rule_applies pkt (rs ! j)"
  shows "policy rs pkt = Some (rs ! i)"
  using assms
proof (induction rs arbitrary: i)
  case Nil
  then show ?case by simp
next
  case (Cons r rs)
  show ?case
  proof (cases i)
    case 0
    with Cons.prems show ?thesis by simp
  next
    case (Suc i')
    with Cons.prems(3) [of 0] have "\<not> rule_applies pkt r" by simp
    moreover have "policy rs pkt = Some (rs ! i')"
      using Cons.IH [of i'] Cons.prems Suc by fastforce
    ultimately show ?thesis using Suc by simp
  qed
qed

lemma policy_None: "policy rs pkt = None \<longleftrightarrow> (\<forall>r \<in> set rs. \<not> rule_applies pkt r)"
  by (induction rs) auto

lemma rules_then_default_policy:
  "rules_then_default pkt fe =
    (case policy (fe_rules fe) pkt of
       Some r \<Rightarrow> (Decision_from (r_action r),
          case r_action r of action.Allow \<Rightarrow> AllowRule (r_id r) | action.Deny \<Rightarrow> DenyRule (r_id r))
     | None \<Rightarrow> (let a = default_action fe (p_direction pkt) (p_proto pkt)
           in (Decision_from a, case a of action.Allow \<Rightarrow> DefaultAllow | action.Deny \<Rightarrow> DefaultDeny)))"
  unfolding rules_then_default_def find_policy [symmetric] ..

lemma conntrack_hit_sound:
  assumes "fst (conntrack_hit pkt now ct)"
  shows "p_direction pkt = In \<and> (\<exists>probe e. inbound_to_connprobe pkt = Some probe \<and> live_flow ct now probe e)"
proof -
  obtain probe where "p_direction pkt = In" and "inbound_to_connprobe pkt = Some probe"
    and "fst (ConnTracker_lookup_inbound probe now ct)"
    using assms by (auto simp: conntrack_hit_def split: if_splits option.splits)
  then show ?thesis using lookup_inbound_sound by blast
qed

section \<open>Engine invariant\<close>

definition FirewallEngine_inv :: "firewall_engine \<Rightarrow> bool" where
  "FirewallEngine_inv fe = (ConnTracker_inv (fe_conntrack fe) \<and>
     decisions_total (fe_stats fe) = decisions_allowed (fe_stats fe) + decisions_denied (fe_stats fe))"

lemma inv_conntrack_hit: "ConnTracker_inv ct \<Longrightarrow> ConnTracker_inv (snd (conntrack_hit pkt now ct))"
  by (auto simp: conntrack_hit_def inv_lookup_inbound split: option.splits)

lemma decide_counters:
  "let st = fe_stats fe; st' = fe_stats (snd (decide pkt now fe)) in
    decisions_total st' = decisions_total st + 1 \<and>
    decisions_allowed st' = decisions_allowed st + of_bool (fst (fst (decide pkt now fe)) = decision.Allow) \<and>
    decisions_denied st' = decisions_denied st + of_bool (fst (fst (decide pkt now fe)) = decision.Deny)"
  by (auto simp: decide_def Let_def count_decision_def split: prod.splits decision.splits)

lemma inv_decide: "FirewallEngine_inv fe \<Longrightarrow> FirewallEngine_inv (snd (decide pkt now fe))"
  using decide_counters [of fe pkt now]
  by (cases "fst (fst (decide pkt now fe))") (auto simp: FirewallEngine_inv_def inv_conntrack_hit Let_def)

lemma engine_open_outbound_frame:
  "fe_rules (snd (FirewallEngine_open_outbound p n pp ip lp now fe)) = fe_rules fe"
  "fe_default_policy (snd (FirewallEngine_open_outbound p n pp ip lp now fe)) = fe_default_policy fe"
  "fe_conntrack (snd (FirewallEngine_open_outbound p n pp ip lp now fe)) =
     snd (ConnTracker_open_outbound p n pp (ip, pp) lp now (fe_conntrack fe))"
  "fe_stats (snd (FirewallEngine_open_outbound p n pp ip lp now fe)) =
     (fe_stats fe)\<lparr>conntrack_open := conntrack_open (fe_stats fe) + 1\<rparr>"
  "fst (FirewallEngine_open_outbound p n pp ip lp now fe) =
     fst (ConnTracker_open_outbound p n pp (ip, pp) lp now (fe_conntrack fe))"
  by (simp_all add: FirewallEngine_open_outbound_def Let_def split: prod.splits)

datatype firewall_op =
    ReplaceRules rule_set
  | EngineOpen conn_proto node_id u16 ip_addr u16 instant
  | Decide packet instant

text \<open>
  \<^verbatim>\<open>RuleSet\<close> can be deserialised, so any list of rules can reach \<^verbatim>\<open>replace_rules\<close>, whatever
  its identifiers are; sets built by \<^verbatim>\<open>push\<close>, \<^verbatim>\<open>remove\<close> and \<^verbatim>\<open>clear\<close> alone have dense ones.
\<close>

fun FirewallEngine_step :: "firewall_op \<Rightarrow> firewall_engine \<Rightarrow> firewall_engine" where
  "FirewallEngine_step (ReplaceRules rs) fe = replace_rules rs fe"
| "FirewallEngine_step (EngineOpen p n pp ip lp now) fe =
     snd (FirewallEngine_open_outbound p n pp ip lp now fe)"
| "FirewallEngine_step (Decide pkt now) fe = snd (decide pkt now fe)"

definition FirewallEngine_init :: "firewall_engine \<Rightarrow> bool" where
  "FirewallEngine_init fe = (\<exists>config. fe = FirewallEngine_new config FirewallStats_default)"

interpretation engine_ops: op_machine FirewallEngine_init FirewallEngine_step FirewallEngine_inv
proof
  show "FirewallEngine_inv s" if "FirewallEngine_init s" for s
    using that by (auto simp: FirewallEngine_init_def FirewallEngine_inv_def FirewallEngine_new_def
        FirewallStats_default_def)
  show "FirewallEngine_inv (FirewallEngine_step p s)" if "FirewallEngine_inv s" for p s
  proof (cases p)
    case (ReplaceRules rs)
    then show ?thesis using that by (simp add: FirewallEngine_inv_def replace_rules_def)
  next
    case (EngineOpen x1 x2 x3 x4 x5 x6)
    then show ?thesis
      using that by (simp add: FirewallEngine_inv_def engine_open_outbound_frame inv_open_outbound)
  next
    case (Decide pkt now)
    then show ?thesis using that by (simp add: inv_decide)
  qed
qed

text \<open>The rule set the engine holds is the one installed last; the default policy is the configured one.\<close>

fun installed :: "firewall_op \<Rightarrow> rule_set \<Rightarrow> rule_set" where
  "installed (ReplaceRules rs) _ = rs"
| "installed _ rs = rs"

lemma run_rules: "fe_rules (fold FirewallEngine_step ops fe) = fold installed ops (fe_rules fe)"
proof (induction ops arbitrary: fe)
  case (Cons p ops)
  then show ?case by (cases p) (simp_all add: replace_rules_def engine_open_outbound_frame)
qed simp

lemma run_default_policy: "fe_default_policy (fold FirewallEngine_step ops fe) = fe_default_policy fe"
proof (induction ops arbitrary: fe)
  case (Cons p ops)
  then show ?case by (cases p) (simp_all add: replace_rules_def engine_open_outbound_frame)
qed simp

lemma dense_sets_stay_dense:
  assumes "RuleSet_wf (fe_rules fe)" and "\<And>rs. ReplaceRules rs \<in> set ops \<Longrightarrow> RuleSet_wf rs"
  shows "RuleSet_wf (fe_rules (fold FirewallEngine_step ops fe))"
  using assms unfolding run_rules
proof (induction ops arbitrary: fe)
  case (Cons p ops)
  show ?case
  proof (cases p)
    case (ReplaceRules rs)
    then show ?thesis using Cons.IH [of "fe\<lparr>fe_rules := rs\<rparr>"] Cons.prems(2) by simp
  qed (use Cons.IH [of fe] Cons.prems in simp_all)
qed simp

section \<open>Properties\<close>

text \<open>A packet that belongs to no live flow of the connection table.\<close>

definition unsolicited :: "firewall_engine \<Rightarrow> packet \<Rightarrow> instant \<Rightarrow> bool" where
  "unsolicited fe pkt now \<longleftrightarrow> (p_direction pkt = In \<longrightarrow>
     (\<forall>probe e. inbound_to_connprobe pkt = Some probe \<longrightarrow> \<not> live_flow (fe_conntrack fe) now probe e))"

lemma unsolicited_miss: "unsolicited fe pkt now \<Longrightarrow> \<not> fst (conntrack_hit pkt now (fe_conntrack fe))"
  using conntrack_hit_sound unfolding unsolicited_def by blast

lemma decide_rule:
  assumes "\<not> fst (conntrack_hit pkt now (fe_conntrack fe))"
    and i: "i < length (fe_rules fe)" "rule_applies pkt (fe_rules fe ! i)"
    and first: "\<forall>j < i. \<not> rule_applies pkt (fe_rules fe ! j)"
  shows "fst (decide pkt now fe) =
    (case r_action (fe_rules fe ! i) of
       action.Allow \<Rightarrow> (decision.Allow, AllowRule (r_id (fe_rules fe ! i)))
     | action.Deny \<Rightarrow> (decision.Deny, DenyRule (r_id (fe_rules fe ! i))))"
  using assms(1) policy_nth [OF i] first
  by (auto simp: decide_verdict rules_then_default_policy split: action.splits)

lemma decide_default:
  assumes "\<not> fst (conntrack_hit pkt now (fe_conntrack fe))"
    and "\<forall>r \<in> set (fe_rules fe). \<not> rule_applies pkt r"
  shows "fst (decide pkt now fe) =
    (case default_action fe (p_direction pkt) (p_proto pkt) of
       action.Allow \<Rightarrow> (decision.Allow, DefaultAllow)
     | action.Deny \<Rightarrow> (decision.Deny, DefaultDeny))"
proof -
  have "policy (fe_rules fe) pkt = None" using assms(2) by (simp add: policy_None)
  then show ?thesis
    using assms(1) by (simp add: decide_verdict rules_then_default_policy Let_def split: action.splits)
qed

definition demo_engine :: firewall_engine where
  "demo_engine = FirewallEngine_new
     (FirewallConfig_default\<lparr>fc_rules := snd (RuleSet_push (Rule_allow In proto_spec.Tcp (Single 22)) RuleSet_new)\<rparr>)
     FirewallStats_default"

definition demo_packet :: "u16 \<Rightarrow> packet" where
  "demo_packet port = \<lparr>p_direction = In, p_proto = 6, p_port = port, p_peer = ''aa'', p_src_ip = V4 1\<rparr>"

lemmas demo_engine_defs = demo_engine_def demo_packet_def FirewallEngine_new_def
  FirewallConfig_default_def FirewallStats_default_def DefaultPolicy_default_def
  ConnTrackerConfig_default_def DEFAULT_CONN_TIMEOUT_def MAX_CONN_ENTRIES_def
  RuleSet_push_def RuleSet_new_def Rule_allow_def RuleId_from_index_def MAX_RULES_def
  PeerSpec_any_def Rule_matches_def ProtoSpec_matches_def

text \<open>
  C38. After any run of the engine, with the connection table not full, a packet that belongs to no
  live flow gets the verdict of the first rule matching it in the rule set installed last, and the
  reason names that rule by the identifier it carries; when no rule matches, it gets the
  default policy the engine was configured with, read for the packet's direction and protocol. The
  rule sets may have any identifiers, deserialised ones included.
\<close>

theorem decide_first_match:
  assumes "fe = fold FirewallEngine_step ops (FirewallEngine_new config stats)"
    and "rs = fold installed ops (fc_rules config)"
    and "ConnTracker_len (fe_conntrack fe) < max_entries (ct_config (fe_conntrack fe))"
    and "unsolicited fe pkt now"
  shows "(\<forall>i < length rs. rule_applies pkt (rs ! i) \<and> (\<forall>j < i. \<not> rule_applies pkt (rs ! j)) \<longrightarrow>
      fst (decide pkt now fe) =
        (case r_action (rs ! i) of
           action.Allow \<Rightarrow> (decision.Allow, AllowRule (r_id (rs ! i)))
         | action.Deny \<Rightarrow> (decision.Deny, DenyRule (r_id (rs ! i))))) \<and>
    ((\<forall>r \<in> set rs. \<not> rule_applies pkt r) \<longrightarrow>
      fst (decide pkt now fe) =
        (let d = fc_default_policy config;
             a = (if p_direction pkt = Out then outbound d
                  else if p_proto pkt \<in> {1, 58} then inbound_icmp d else inbound_tcp_udp d)
         in case a of action.Allow \<Rightarrow> (decision.Allow, DefaultAllow)
            | action.Deny \<Rightarrow> (decision.Deny, DefaultDeny)))"
proof -
  have rs: "fe_rules fe = rs" and d: "fe_default_policy fe = fc_default_policy config"
    using assms(1,2) by (simp_all add: run_rules run_default_policy FirewallEngine_new_def)
  have act: "default_action fe (p_direction pkt) (p_proto pkt) =
      (let d = fc_default_policy config in if p_direction pkt = Out then outbound d
         else if p_proto pkt \<in> {1, 58} then inbound_icmp d else inbound_tcp_udp d)"
    by (cases "p_direction pkt") (simp_all add: default_action_def d)
  show ?thesis
    using decide_rule [OF unsolicited_miss [OF assms(4)], unfolded rs]
      decide_default [OF unsolicited_miss [OF assms(4)], unfolded rs act]
    by (auto simp: Let_def)
qed

text \<open>A run that installs, over the configured rules, a deserialised set whose identifiers are not dense.\<close>

definition sparse_rules :: rule_set where
  "sparse_rules = [(Rule_allow In proto_spec.Tcp (Single 22))\<lparr>r_id := RuleId 7\<rparr>,
     (Rule_allow In proto_spec.Tcp (Single 22))\<lparr>r_id := RuleId 7, r_action := action.Deny\<rparr>]"

theorem decide_first_match_witness:
  "fst (decide (demo_packet 22) 0 (fold FirewallEngine_step [ReplaceRules sparse_rules]
      (FirewallEngine_new FirewallConfig_default FirewallStats_default))) = (decision.Allow, AllowRule (RuleId 7)) \<and>
   fst (decide (demo_packet 23) 0 (fold FirewallEngine_step [ReplaceRules sparse_rules]
      (FirewallEngine_new FirewallConfig_default FirewallStats_default))) = (decision.Deny, DefaultDeny)"
proof -
  let ?fe = "fold FirewallEngine_step [ReplaceRules sparse_rules] (FirewallEngine_new FirewallConfig_default FirewallStats_default)"
  have quiet: "unsolicited ?fe (demo_packet p) 0" for p
    by (simp add: demo_engine_defs replace_rules_def unsolicited_def live_flow_def ConnTracker_new_def hm_values_def)
  have room: "ConnTracker_len (fe_conntrack ?fe) < max_entries (ct_config (fe_conntrack ?fe))"
    by (simp add: demo_engine_defs replace_rules_def ConnTracker_new_def ConnTracker_len_def)
  have "rule_applies (demo_packet 22) (sparse_rules ! 0)" and "r_action (sparse_rules ! 0) = action.Allow"
    and "r_id (sparse_rules ! 0) = RuleId 7" and "0 < length sparse_rules"
    and "\<forall>r \<in> set sparse_rules. \<not> rule_applies (demo_packet 23) r"
    by (simp_all add: sparse_rules_def demo_engine_defs)
  then show ?thesis
    using decide_first_match [OF refl refl room quiet, of 22] decide_first_match [OF refl refl room quiet, of 23]
    by (auto simp del: FirewallEngine_step.simps simp: demo_engine_defs Let_def)
qed

text \<open>
  The module documentation of \<^verbatim>\<open>conntrack.rs\<close> says that the engine denies the packet that finds the
  table full. \<^verbatim>\<open>decide\<close> never looks at the capacity and never gives the reason \<^verbatim>\<open>ConntrackFull\<close>: when
  the flow could not be recorded for want of room, the packet that opens it still leaves under
  the default policy.
\<close>

lemma full_table_does_not_deny:
  assumes "fst (FirewallEngine_open_outbound proto peer peer_port ip lport t fe) = Inl (Full n)"
    and "p_direction pkt = Out" and "\<forall>r \<in> set (fe_rules fe). \<not> rule_applies pkt r"
    and "outbound (fe_default_policy fe) = action.Allow"
  shows "fst (decide pkt now (snd (FirewallEngine_open_outbound proto peer peer_port ip lport t fe))) =
    (decision.Allow, DefaultAllow)"
proof -
  let ?fe = "snd (FirewallEngine_open_outbound proto peer peer_port ip lport t fe)"
  have "\<not> fst (conntrack_hit pkt now (fe_conntrack ?fe))" using assms(2) by (simp add: conntrack_hit_def)
  moreover have "default_action ?fe Out (p_proto pkt) = action.Allow"
    using assms(4) by (simp add: default_action_def engine_open_outbound_frame)
  ultimately show ?thesis
    using assms(2,3) decide_default [of pkt now ?fe] by (simp add: engine_open_outbound_frame)
qed

lemma decide_never_reports_full: "snd (fst (decide pkt now fe)) \<noteq> ConntrackFull"
  by (simp add: decide_verdict rules_then_default_def Let_def split: option.split action.split)

text \<open>
  C39. Deny by default: under a policy that denies unsolicited inbound TCP and UDP, an inbound
  packet of a protocol other than ICMP is allowed only when it belongs to a live flow the
  local node opened, or when some allow rule matches it and no earlier rule does.
\<close>

theorem inbound_allowed_only_if_solicited:
  assumes "p_direction pkt = In" and "p_proto pkt \<noteq> 1" and "p_proto pkt \<noteq> 58"
    and "inbound_tcp_udp (fe_default_policy fe) = action.Deny"
    and "fst (fst (decide pkt now fe)) = decision.Allow"
  shows "(\<exists>probe e. inbound_to_connprobe pkt = Some probe \<and> live_flow (fe_conntrack fe) now probe e) \<or>
    (\<exists>before r rest. fe_rules fe = before @ r # rest \<and> rule_applies pkt r \<and> r_action r = action.Allow \<and>
      (\<forall>q \<in> set before. \<not> rule_applies pkt q))"
proof (cases "fst (conntrack_hit pkt now (fe_conntrack fe))")
  case True
  then show ?thesis using conntrack_hit_sound by blast
next
  case False
  then have v: "fst (rules_then_default pkt fe) = decision.Allow"
    using assms(5) by (simp add: decide_verdict)
  then obtain r where f: "List.find (rule_applies pkt) (fe_rules fe) = Some r"
    using assms(1-4)
    by (cases "List.find (rule_applies pkt) (fe_rules fe)")
      (auto simp: rules_then_default_def default_action_def Let_def)
  with v have "r_action r = action.Allow"
    by (cases "r_action r") (auto simp: rules_then_default_def)
  then show ?thesis using find_Some_split [OF f] by blast
qed

theorem inbound_allowed_only_if_solicited_witness:
  "(\<exists>probe e. inbound_to_connprobe (demo_packet 22) = Some probe \<and>
      live_flow (fe_conntrack demo_engine) 0 probe e) \<or>
    (\<exists>before r rest. fe_rules demo_engine = before @ r # rest \<and> rule_applies (demo_packet 22) r \<and>
      r_action r = action.Allow \<and> (\<forall>q \<in> set before. \<not> rule_applies (demo_packet 22) q))"
proof (rule inbound_allowed_only_if_solicited)
  show "fst (fst (decide (demo_packet 22) 0 demo_engine)) = decision.Allow"
    by (simp add: demo_engine_defs decide_verdict conntrack_hit_def inbound_to_connprobe_def
        ConnTracker_lookup_inbound_def ConnTracker_new_def rules_then_default_def)
qed (simp_all add: demo_engine_defs)

text \<open>
  In every reachable state of the engine the connection table is bounded and consistent, and
  the total of decisions is the sum of the allowed and the denied ones (as wrapping 64-bit counters).
\<close>

theorem engine_reachable_inv:
  "FirewallEngine_inv (fold FirewallEngine_step ops (FirewallEngine_new config FirewallStats_default))"
  by (intro engine_ops.inv_run) (auto simp: FirewallEngine_init_def)

text \<open>
  Stateful return traffic: once the local node has opened a flow to a peer, an inbound packet
  from that peer and port within the idle timeout is allowed by connection tracking, whatever
  the rules say, provided the table holds no expired flow to the same peer and port.
\<close>

theorem return_traffic_allowed:
  assumes "fst (FirewallEngine_open_outbound proto peer peer_port ip lport t fe) = Inr ()"
    and "p_direction pkt = In" and "p_proto pkt = ConnProto_as_u8 proto"
    and "p_peer pkt = peer" and "p_port pkt = peer_port"
    and "now - t \<le> idle_timeout (ct_config (fe_conntrack fe))"
    and fresh: "\<forall>e \<in> set (hm_values (ct_entries (fe_conntrack fe))).
      probe_matches \<lparr>ip_proto = proto, ip_peer = peer, ip_peer_port = peer_port\<rparr> e \<longrightarrow>
      \<not> expired (fe_conntrack fe) now e"
  shows "fst (decide pkt now (snd (FirewallEngine_open_outbound proto peer peer_port ip lport t fe))) =
    (decision.Allow, ConntrackAllow)"
proof -
  let ?probe = "\<lparr>ip_proto = proto, ip_peer = peer, ip_peer_port = peer_port\<rparr>"
  let ?key = "\<lparr>ck_proto = proto, ck_peer = peer, ck_peer_port = peer_port,
    ck_local_port = lport, ck_peer_addr = (ip, peer_port)\<rparr>"
  let ?e = "\<lparr>ce_key = ?key, ce_direction = Out, ce_opened_at = t, ce_last_seen = t\<rparr>"
  let ?ct = "fe_conntrack fe"
  let ?ct' = "snd (ConnTracker_open_outbound proto peer peer_port (ip, peer_port) lport t ?ct)"
  have ct': "?ct' = ?ct\<lparr>ct_entries := hm_insert ?key ?e (ct_entries ?ct)\<rparr>"
    using assms(1) by (auto simp: engine_open_outbound_frame ConnTracker_open_outbound_def Let_def split: if_splits)
  have probe: "inbound_to_connprobe pkt = Some ?probe"
    using assms(3-5) by (cases proto) (simp_all add: inbound_to_connprobe_def)
  have vals: "e = ?e \<or> e \<in> set (hm_values (ct_entries ?ct))"
    if "e \<in> set (hm_values (ct_entries ?ct'))" for e
    using that set_hm_insert_subset [of ?key ?e "ct_entries ?ct"]
    by (fastforce simp: ct' hm_values_def)
  have "(?key, ?e) \<in> set (ct_entries ?ct')"
    using map_of_SomeD [of "ct_entries ?ct'" ?key ?e] by (simp add: ct')
  then have "live_flow ?ct' now ?probe ?e"
    using assms(6) in_valuesI [of ?key ?e "ct_entries ?ct'"]
    by (simp add: live_flow_def hm_values_def probe_matches_def expired_def ct')
  moreover have "\<not> expired ?ct' now e"
    if "e \<in> set (hm_values (ct_entries ?ct'))" and "probe_matches ?probe e" for e
    using vals [OF that(1)] that(2) fresh assms(6) by (auto simp: expired_def ct')
  ultimately have "fst (ConnTracker_lookup_inbound ?probe now ?ct')"
    by (intro lookup_inbound_complete) blast+
  then show ?thesis
    using probe assms(2) by (simp add: decide_verdict conntrack_hit_def engine_open_outbound_frame)
qed

theorem return_traffic_allowed_witness:
  "fst (decide (demo_packet 443) 299
     (snd (FirewallEngine_open_outbound conn_proto.Tcp ''aa'' 443 (V4 1) 5000 0 demo_engine))) =
    (decision.Allow, ConntrackAllow)"
  by (rule return_traffic_allowed)
    (simp_all add: demo_engine_defs ConnTracker_new_def engine_open_outbound_frame
      ConnTracker_open_outbound_def hm_values_def hm_contains_def Let_def)

end
