(* ===== verification/Firewall_Declarative.thy ===== *)
theory Firewall_Declarative
  imports Firewall_Engine
begin

text \<open>
  The declarative loader (\<^verbatim>\<open>crates/a3net-mesh-firewall/src/declarative.rs\<close>): a spec is
  turned into a fresh rule set, which replaces the rules of the engine only when every token
  parses, every peer label resolves and the bound on rules holds. A \<^verbatim>\<open>BTreeMap\<close> is its
  list of entries in key order; the peer resolver, a trait object, is a function argument;
  the text of an error is the constructor that names its cause. \<^verbatim>\<open>serde_json\<close> is the
  parameter of \<open>parse_json\<close>.
\<close>

record network_spec =
  ns_allows :: "(string \<times> string) list"
  ns_denies :: "(string \<times> string) list"

type_synonym firewall_spec = "(string \<times> network_spec) list"

record apply_report =
  ar_allows :: nat
  ar_denies :: nat

datatype rule_problem = MissingColon string | UnknownProtocol string | InvalidPort string

datatype declarative_error =
    Parse string
  | InvalidRule string rule_problem
  | UnknownPeer string
  | TooManyRules

type_synonym peer_resolver = "string \<Rightarrow> node_id option"

definition parse_json ::
  "(string \<Rightarrow> (string, firewall_spec) result) \<Rightarrow> string \<Rightarrow> (declarative_error, firewall_spec) result" where
  "parse_json from_str raw = (case from_str raw of Inl e \<Rightarrow> Inl (Parse e) | Inr spec \<Rightarrow> Inr spec)"

definition StaticPeerResolver_resolve :: "(string, node_id) hmap \<Rightarrow> peer_resolver" where
  "StaticPeerResolver_resolve m label =
     (if label = ''*''
      then (case NodeId_from_hex (replicate 64 (CHR ''0'')) of Inl _ \<Rightarrow> None | Inr n \<Rightarrow> Some n)
      else hm_get m label)"

definition parse_token_list :: "string \<Rightarrow> string list" where
  "parse_token_list raw = filter (\<lambda>s. s \<noteq> []) (map str_trim (split_on (CHR '','') raw))"

definition parse_proto :: "string \<Rightarrow> proto_spec option" where
  "parse_proto s =
     (if s = ''tcp'' then Some proto_spec.Tcp
      else if s = ''udp'' then Some proto_spec.Udp
      else if s = ''icmp'' then Some proto_spec.Icmp
      else if s = ''any'' then Some proto_spec.Any
      else None)"

definition parse_port :: "string \<Rightarrow> port_spec option" where
  "parse_port s =
     (if s = ''any'' then Some port_spec.Any
      else map_option (\<lambda>p. Single (of_nat p)) (parse_uint 65535 s))"

definition parse_token :: "string \<Rightarrow> (declarative_error, proto_spec \<times> port_spec) result" where
  "parse_token token =
     (case split_once (CHR '':'') token of
        None \<Rightarrow> Inl (InvalidRule ''?'' (MissingColon token))
      | Some (proto_str, port_str) \<Rightarrow>
          (case parse_proto (str_trim proto_str) of
             None \<Rightarrow> Inl (InvalidRule ''?'' (UnknownProtocol (str_trim proto_str)))
           | Some proto \<Rightarrow>
               (case parse_port (str_trim port_str) of
                  None \<Rightarrow> Inl (InvalidRule ''?'' (InvalidPort (str_trim port_str)))
                | Some port \<Rightarrow> Inr (proto, port))))"

definition spec_rule :: "action \<Rightarrow> proto_spec \<Rightarrow> port_spec \<Rightarrow> node_id \<Rightarrow> rule" where
  "spec_rule a proto port peer = (case a of
     action.Allow \<Rightarrow> (Rule_allow In proto port)\<lparr>r_peer := PeerSpec (Some peer)\<rparr>
   | action.Deny \<Rightarrow> \<lparr>r_id = RuleId_from_index 0, r_direction = In, r_action = action.Deny,
       r_proto = proto, r_port = port, r_peer = PeerSpec (Some peer)\<rparr>)"

definition apply_token ::
  "peer_resolver \<Rightarrow> action \<Rightarrow> string \<Rightarrow> string \<Rightarrow> rule_set \<times> apply_report \<Rightarrow>
    (declarative_error, rule_set \<times> apply_report) result" where
  "apply_token resolve a peer_label token acc =
     (case parse_token token of
        Inl e \<Rightarrow> Inl e
      | Inr (proto, port) \<Rightarrow>
          (case resolve peer_label of
             None \<Rightarrow> Inl (UnknownPeer peer_label)
           | Some peer_id \<Rightarrow>
               (let (pushed, rs) = RuleSet_push (spec_rule a proto port peer_id) (fst acc)
                in if \<not> pushed then Inl TooManyRules
                   else Inr (rs, case a of
                       action.Allow \<Rightarrow> (snd acc)\<lparr>ar_allows := ar_allows (snd acc) + 1\<rparr>
                     | action.Deny \<Rightarrow> (snd acc)\<lparr>ar_denies := ar_denies (snd acc) + 1\<rparr>))))"

definition apply_list ::
  "peer_resolver \<Rightarrow> action \<Rightarrow> (string \<times> string) list \<Rightarrow> rule_set \<times> apply_report \<Rightarrow>
    (declarative_error, rule_set \<times> apply_report) result" where
  "apply_list resolve a entries =
     fold_result (\<lambda>(peer_label, raw). fold_result (apply_token resolve a peer_label) (parse_token_list raw))
       entries"

definition apply_network ::
  "peer_resolver \<Rightarrow> string \<times> network_spec \<Rightarrow> rule_set \<times> apply_report \<Rightarrow>
    (declarative_error, rule_set \<times> apply_report) result" where
  "apply_network resolve net acc =
     (case apply_list resolve action.Allow (ns_allows (snd net)) acc of
        Inl e \<Rightarrow> Inl e
      | Inr acc' \<Rightarrow> apply_list resolve action.Deny (ns_denies (snd net)) acc')"

definition apply_spec ::
  "firewall_spec \<Rightarrow> peer_resolver \<Rightarrow> firewall_engine \<Rightarrow>
    (declarative_error, apply_report) result \<times> firewall_engine" where
  "apply_spec spec resolve fe =
     (case fold_result (apply_network resolve) spec (RuleSet_new, \<lparr>ar_allows = 0, ar_denies = 0\<rparr>) of
        Inl e \<Rightarrow> (Inl e, fe)
      | Inr (rs, report) \<Rightarrow> (Inr report, replace_rules rs fe))"

section \<open>Tokens\<close>

lemma ProtoSpec_to_string_clean:
  "CHR '':'' \<notin> set (ProtoSpec_to_string p)" "\<forall>c \<in> set (ProtoSpec_to_string p). \<not> is_space c"
  "parse_proto (ProtoSpec_to_string p) = Some p"
  by (cases p; simp add: ProtoSpec_to_string_def is_space_def parse_proto_def)+

lemma show_nat_not_any: "show_nat n \<noteq> ''any''"
proof
  assume a: "show_nat n = ''any''"
  then obtain d where "d < 10" and "CHR ''a'' = digit_char d"
    using show_nat_chars [of "CHR ''a''" n] by auto
  moreover have "digit_char d \<noteq> CHR ''a''" using \<open>d < 10\<close> by (rule digit_char_neq) simp
  ultimately show False by simp
qed

lemma parse_port_print:
  assumes "\<And>lo hi. port \<noteq> Range lo hi"
  shows "parse_port (str_trim (PortSpec_to_string port)) = Some port"
proof (cases port)
  case Any
  then show ?thesis by (simp add: parse_port_def str_trim_def is_space_def)
next
  case (Single p)
  have "unat p \<le> 65535" using unat_bound [of p] by simp
  then have "parse_uint 65535 (show_nat (unat p)) = Some (unat p)" by (rule parse_uint_show_nat)
  moreover have "str_trim (show_nat (unat p)) = show_nat (unat p)"
    using show_nat_clean(6) by (blast intro: str_trim_id)
  ultimately show ?thesis by (simp add: Single parse_port_def show_nat_not_any)
next
  case (Range lo hi)
  with assms show ?thesis by blast
qed

lemma parse_token_print:
  assumes "\<And>lo hi. port \<noteq> Range lo hi"
  shows "parse_token (ProtoSpec_to_string p @ '':'' @ PortSpec_to_string port) = Inr (p, port)"
  using ProtoSpec_to_string_clean [of p] parse_port_print [OF assms]
  by (simp add: parse_token_def split_once_append str_trim_id)

section \<open>Applying a spec\<close>

definition list_items :: "action \<Rightarrow> (string \<times> string) list \<Rightarrow> (action \<times> string \<times> string) list" where
  "list_items a entries = concat (map (\<lambda>(label, raw). map (\<lambda>t. (a, label, t)) (parse_token_list raw)) entries)"

definition spec_items :: "firewall_spec \<Rightarrow> (action \<times> string \<times> string) list" where
  "spec_items spec = concat (map (\<lambda>(_, net).
     list_items action.Allow (ns_allows net) @ list_items action.Deny (ns_denies net)) spec)"

definition apply_item where
  "apply_item resolve = (\<lambda>(a, label, token). apply_token resolve a label token)"

definition item_ok :: "peer_resolver \<Rightarrow> action \<times> string \<times> string \<Rightarrow> bool" where
  "item_ok resolve = (\<lambda>(a, label, token). (\<exists>pp. parse_token token = Inr pp) \<and> resolve label \<noteq> None)"

definition item_body ::
  "peer_resolver \<Rightarrow> action \<times> string \<times> string \<Rightarrow> direction \<times> action \<times> proto_spec \<times> port_spec \<times> peer_spec" where
  "item_body resolve = (\<lambda>(a, label, token). case parse_token token of
      Inr (proto, port) \<Rightarrow> (In, a, proto, port, PeerSpec (resolve label))
    | Inl _ \<Rightarrow> (In, a, proto_spec.Any, port_spec.Any, PeerSpec None))"

lemma apply_list_items: "apply_list resolve a entries acc = fold_result (apply_item resolve) (list_items a entries) acc"
proof -
  have "(\<lambda>(peer_label, raw). fold_result (apply_token resolve a peer_label) (parse_token_list raw)) =
      (\<lambda>e. fold_result (apply_item resolve) ((\<lambda>(label, raw). map (\<lambda>t. (a, label, t)) (parse_token_list raw)) e))"
    by (auto simp: fun_eq_iff fold_result_map apply_item_def)
  then show ?thesis
    unfolding apply_list_def list_items_def by (simp only: fold_result_nested)
qed

lemma apply_spec_items:
  "fold_result (apply_network resolve) spec acc = fold_result (apply_item resolve) (spec_items spec) acc"
proof -
  have "apply_network resolve = (\<lambda>net. fold_result (apply_item resolve)
      ((\<lambda>(_, net). list_items action.Allow (ns_allows net) @ list_items action.Deny (ns_denies net)) net))"
    by (auto simp: fun_eq_iff apply_network_def apply_list_items fold_result_append split: sum.splits)
  then show ?thesis
    unfolding spec_items_def by (simp only: fold_result_nested)
qed

lemma rule_body_spec_rule: "rule_body (spec_rule a proto port peer) = (In, a, proto, port, PeerSpec (Some peer))"
  by (cases a) (simp_all add: rule_body_def spec_rule_def Rule_allow_def)

lemma apply_item_Inr:
  "apply_item resolve item (rs, rep) = Inr (rs', rep') \<longleftrightarrow>
    item_ok resolve item \<and> length rs < MAX_RULES \<and>
    rs' = rs @ [(case item of (a, label, token) \<Rightarrow>
       (spec_rule a (fst (projr (parse_token token))) (snd (projr (parse_token token))) (the (resolve label)))
         \<lparr>r_id := RuleId_from_index (length rs)\<rparr>)] \<and>
    rep' = (case fst item of action.Allow \<Rightarrow> rep\<lparr>ar_allows := ar_allows rep + 1\<rparr>
      | action.Deny \<Rightarrow> rep\<lparr>ar_denies := ar_denies rep + 1\<rparr>)"
  by (cases item)
    (auto simp: apply_item_def apply_token_def item_ok_def RuleSet_push_def not_le split: sum.splits option.splits if_splits action.splits)

lemma apply_items_ok:
  assumes "\<forall>i \<in> set items. item_ok resolve i" and "length rs + length items \<le> MAX_RULES"
  shows "\<exists>rs' rep'. fold_result (apply_item resolve) items (rs, rep) = Inr (rs', rep')"
  using assms
proof (induction items arbitrary: rs rep)
  case Nil
  then show ?case by simp
next
  case (Cons i items)
  obtain rs1 rep1 where one: "apply_item resolve i (rs, rep) = Inr (rs1, rep1)"
    using apply_item_Inr [of resolve i rs rep] Cons.prems by auto
  then have "length rs1 = Suc (length rs)" by (auto simp: apply_item_Inr)
  with Cons show ?case by (simp add: one)
qed

lemma apply_items_Inr:
  assumes "fold_result (apply_item resolve) items (rs, rep) = Inr (rs', rep')"
    and "RuleSet_wf rs"
  shows "(\<forall>i \<in> set items. item_ok resolve i) \<and> RuleSet_wf rs' \<and>
    map rule_body rs' = map rule_body rs @ map (item_body resolve) items \<and>
    ar_allows rep' = ar_allows rep + length (filter (\<lambda>i. fst i = action.Allow) items) \<and>
    ar_denies rep' = ar_denies rep + length (filter (\<lambda>i. fst i = action.Deny) items)"
  using assms
proof (induction items arbitrary: rs rep)
  case Nil
  then show ?case by simp
next
  case (Cons i items)
  then obtain rs1 rep1 where one: "apply_item resolve i (rs, rep) = Inr (rs1, rep1)"
    and rest: "fold_result (apply_item resolve) items (rs1, rep1) = Inr (rs', rep')"
    by (auto split: sum.splits)
  have wf1: "RuleSet_wf rs1"
    using one Cons.prems(2) by (cases i) (auto simp: apply_item_Inr RuleSet_wf_def)
  have body: "map rule_body rs1 = map rule_body rs @ [item_body resolve i]"
    using one by (cases i) (auto simp: apply_item_Inr item_ok_def item_body_def rule_body_spec_rule)
  show ?case
    using Cons.IH [OF rest wf1] one body by (cases "fst i") (auto simp: apply_item_Inr)
qed

section \<open>Properties\<close>

text \<open>
  Printing and parsing a token agree: the text \<^verbatim>\<open>proto:port\<close> printed by the
  \<^verbatim>\<open>Display\<close> instances of the two filters parses back to them, for every protocol and
  every port filter but a range, which the token syntax has no form for.
\<close>

theorem parse_token_round_trip:
  assumes "\<forall>lo hi. port \<noteq> Range lo hi"
  shows "parse_token (ProtoSpec_to_string proto @ '':'' @ PortSpec_to_string port) = Inr (proto, port)"
  using assms by (intro parse_token_print) blast

theorem parse_token_round_trip_witness:
  "parse_token (ProtoSpec_to_string proto_spec.Tcp @ '':'' @ PortSpec_to_string (Single 25565)) =
    Inr (proto_spec.Tcp, Single 25565)"
  by (rule parse_token_round_trip) simp

text \<open>
  Applying a spec is all or nothing. It succeeds exactly when every token parses, every peer
  label resolves and there are at most \<^verbatim>\<open>MAX_RULES\<close> tokens; then the rules of the engine are the
  tokens' rules, allows before denies in each network, with dense identifiers, and the report
  counts them; otherwise the engine is unchanged. Nothing but the rules ever changes.
\<close>

theorem apply_spec_all_or_nothing:
  "case apply_spec spec resolve fe of
     (Inr report, fe') \<Rightarrow>
       list_all (item_ok resolve) (spec_items spec) \<and> length (spec_items spec) \<le> MAX_RULES \<and>
       RuleSet_wf (fe_rules fe') \<and> fe' = fe\<lparr>fe_rules := fe_rules fe'\<rparr> \<and>
       map rule_body (fe_rules fe') = map (item_body resolve) (spec_items spec) \<and>
       ar_allows report = length (filter (\<lambda>i. fst i = action.Allow) (spec_items spec)) \<and>
       ar_denies report = length (filter (\<lambda>i. fst i = action.Deny) (spec_items spec))
   | (Inl err, fe') \<Rightarrow>
       fe' = fe \<and>
       \<not> (list_all (item_ok resolve) (spec_items spec) \<and> length (spec_items spec) \<le> MAX_RULES)"
proof -
  let ?run = "fold_result (apply_item resolve) (spec_items spec) (RuleSet_new, \<lparr>ar_allows = 0, ar_denies = 0\<rparr>)"
  show ?thesis
  proof (cases ?run)
    case (Inl e)
    then have "\<not> (list_all (item_ok resolve) (spec_items spec) \<and> length (spec_items spec) \<le> MAX_RULES)"
      using apply_items_ok [of "spec_items spec" resolve RuleSet_new "\<lparr>ar_allows = 0, ar_denies = 0\<rparr>"]
      by (auto simp: RuleSet_new_def list_all_iff)
    with Inl show ?thesis by (auto simp: apply_spec_def apply_spec_items)
  next
    case (Inr res)
    obtain rs rep where res: "res = (rs, rep)" by (cases res)
    note ok = apply_items_Inr [OF Inr [unfolded res] RuleSet_wf_new]
    have "length rs = length (spec_items spec)"
      using ok by (metis RuleSet_new_def append_Nil length_map list.map(1))
    with ok Inr show ?thesis
      by (simp add: apply_spec_def apply_spec_items res replace_rules_def list_all_iff
          RuleSet_wf_def RuleSet_new_def)
  qed
qed

text \<open>
  The resolver the crate ships turns the label \<^verbatim>\<open>*\<close>, which the loader's documentation
  gives the meaning "every host", into the all-zero identifier: an inbound packet from any
  other peer is not matched by a rule that a spec gives to \<^verbatim>\<open>*\<close>.
\<close>

theorem static_star_rule_matches_no_real_peer:
  assumes "StaticPeerResolver_resolve m ''*'' = Some n" and "peer \<noteq> replicate 64 (CHR ''0'')"
  shows "\<not> Rule_matches (spec_rule a proto port n) In p q peer src"
proof -
  have "n = replicate 64 (CHR ''0'')"
    using assms(1)
    by (auto simp: StaticPeerResolver_resolve_def NodeId_from_hex_def NODE_ID_HEX_LEN_def
        NODE_ID_BYTES_def to_ascii_lowercase_def to_ascii_lowercase_char_def split: if_splits)
  then show ?thesis
    using assms(2) by (cases a) (auto simp: spec_rule_def Rule_matches_def Rule_allow_def)
qed

theorem static_star_rule_matches_no_real_peer_witness:
  "\<not> Rule_matches (spec_rule action.Allow proto_spec.Tcp (Single 22) (replicate 64 (CHR ''0'')))
     In 6 22 (replicate 64 (CHR ''1'')) (V4 1)"
proof (rule static_star_rule_matches_no_real_peer [where m = "[]"])
  show "StaticPeerResolver_resolve [] ''*'' = Some (replicate 64 (CHR ''0''))"
    by (simp add: StaticPeerResolver_resolve_def NodeId_from_hex_def NODE_ID_HEX_LEN_def
        NODE_ID_BYTES_def to_ascii_lowercase_def to_ascii_lowercase_char_def is_ascii_hexdigit_def
        list_all_iff)
qed simp

end
