(* ===== verification/Gossip_Dedup.thy ===== *)
theory Gossip_Dedup
  imports Node
begin

text \<open>
  Duplicate suppression of the gossip layer (\<^verbatim>\<open>crates/a3net-gossip/src/dedup.rs\<close>, with the
  identifier and lifetime of an announcement from \<^verbatim>\<open>crates/a3net-types/src/announce.rs\<close>): the
  bounded cache of seen message identifiers, the filter built on it, and the tracker of
  expiry times. BLAKE3 is the parameter \<open>blake3_hex\<close>.
\<close>

section \<open>Announcements\<close>

definition DEFAULT_GOSSIP_TTL_SECS :: u64 where
  "DEFAULT_GOSSIP_TTL_SECS = 3600"

definition MAX_GOSSIP_TTL_SECS :: u64 where
  "MAX_GOSSIP_TTL_SECS = 86400"

record announcement =
  an_content_hash :: bytes
  an_node_id :: node_id
  an_timestamp_rfc3339 :: string
  an_message_id :: "string option"
  an_ttl_secs :: "u64 option"

definition generate_message_id :: "(bytes \<Rightarrow> string) \<Rightarrow> hex_decoder \<Rightarrow> announcement \<Rightarrow> string option" where
  "generate_message_id blake3_hex hx a =
     map_option (\<lambda>node. blake3_hex (an_content_hash a @ node @ str_as_bytes (an_timestamp_rfc3339 a)))
       (hx (an_node_id a))"

definition get_or_generate_message_id ::
  "(bytes \<Rightarrow> string) \<Rightarrow> hex_decoder \<Rightarrow> announcement \<Rightarrow> (string \<times> announcement) option" where
  "get_or_generate_message_id blake3_hex hx a =
     (case an_message_id a of
        Some i \<Rightarrow> Some (i, a)
      | None \<Rightarrow> map_option (\<lambda>i. (i, a\<lparr>an_message_id := Some i\<rparr>)) (generate_message_id blake3_hex hx a))"

definition effective_ttl :: "announcement \<Rightarrow> duration" where
  "effective_ttl a = unat (case an_ttl_secs a of Some t \<Rightarrow> t | None \<Rightarrow> DEFAULT_GOSSIP_TTL_SECS)"

datatype ttl_error = TtlZero | TtlTooLong u64

definition validate_ttl :: "announcement \<Rightarrow> (ttl_error, unit) result" where
  "validate_ttl a = (case an_ttl_secs a of
     Some ttl \<Rightarrow>
       if ttl = 0 then Inl TtlZero
       else if ttl > MAX_GOSSIP_TTL_SECS then Inl (TtlTooLong ttl) else Inr ()
   | None \<Rightarrow> Inr ())"

section \<open>Message cache\<close>

definition DEFAULT_DEDUP_CACHE_SIZE :: nat where
  "DEFAULT_DEDUP_CACHE_SIZE = 10000"

definition DEFAULT_MESSAGE_TTL :: duration where
  "DEFAULT_MESSAGE_TTL = 3600"

definition CLEANUP_BATCH_SIZE :: nat where
  "CLEANUP_BATCH_SIZE = 100"

record message_meta =
  mm_seen_at :: instant
  mm_expires_at :: instant

definition MessageMeta_new :: "duration \<Rightarrow> instant \<Rightarrow> message_meta" where
  "MessageMeta_new ttl now = \<lparr>mm_seen_at = now, mm_expires_at = now + ttl\<rparr>"

definition MessageMeta_is_expired :: "instant \<Rightarrow> message_meta \<Rightarrow> bool" where
  "MessageMeta_is_expired now m = (now \<ge> mm_expires_at m)"

record message_cache =
  mc_entries :: "(string, message_meta) hmap"
  mc_order :: "string list"
  mc_capacity :: nat
  mc_max_ttl :: duration

definition MessageCache_new :: "nat \<Rightarrow> duration \<Rightarrow> message_cache" where
  "MessageCache_new capacity default_ttl =
     \<lparr>mc_entries = [], mc_order = [], mc_capacity = capacity, mc_max_ttl = default_ttl\<rparr>"

definition MessageCache_default :: message_cache where
  "MessageCache_default = MessageCache_new DEFAULT_DEDUP_CACHE_SIZE DEFAULT_MESSAGE_TTL"

definition MessageCache_contains :: "message_cache \<Rightarrow> string \<Rightarrow> bool" where
  "MessageCache_contains c i = hm_contains (mc_entries c) i"

definition expired_ids :: "instant \<Rightarrow> message_cache \<Rightarrow> string list" where
  "expired_ids now c = take CLEANUP_BATCH_SIZE (filter (\<lambda>i.
     case hm_get (mc_entries c) i of Some m \<Rightarrow> MessageMeta_is_expired now m | None \<Rightarrow> True) (mc_order c))"

definition MessageCache_remove_expired :: "instant \<Rightarrow> message_cache \<Rightarrow> message_cache" where
  "MessageCache_remove_expired now c =
     c\<lparr>mc_entries := fold hm_remove (expired_ids now c) (mc_entries c),
       mc_order := filter (\<lambda>i. i \<notin> set (expired_ids now c)) (mc_order c)\<rparr>"

fun evict_oldest ::
  "nat \<Rightarrow> string list \<Rightarrow> (string, message_meta) hmap \<Rightarrow> string list \<times> (string, message_meta) hmap" where
  "evict_oldest cap [] es = ([], es)"
| "evict_oldest cap (oldest # rest) es =
     (if length es \<ge> cap then evict_oldest cap rest (hm_remove oldest es) else (oldest # rest, es))"

definition evict_if_needed :: "instant \<Rightarrow> message_cache \<Rightarrow> message_cache" where
  "evict_if_needed now c =
     (let c' = MessageCache_remove_expired now c;
          (order, es) = evict_oldest (mc_capacity c') (mc_order c') (mc_entries c')
      in c'\<lparr>mc_order := order, mc_entries := es\<rparr>)"

definition MessageCache_insert :: "string \<Rightarrow> duration \<Rightarrow> instant \<Rightarrow> message_cache \<Rightarrow> bool \<times> message_cache" where
  "MessageCache_insert i ttl now c =
     (if hm_contains (mc_entries c) i then (False, c)
      else let c' = evict_if_needed now c
           in (True, c'\<lparr>mc_entries := hm_insert i (MessageMeta_new ttl now) (mc_entries c'),
                        mc_order := mc_order c' @ [i]\<rparr>))"

definition MessageCache_len :: "message_cache \<Rightarrow> nat" where
  "MessageCache_len c = length (mc_entries c)"

definition MessageCache_clear :: "message_cache \<Rightarrow> message_cache" where
  "MessageCache_clear c = c\<lparr>mc_entries := [], mc_order := []\<rparr>"

section \<open>Filter\<close>

definition check_and_insert ::
  "(bytes \<Rightarrow> string) \<Rightarrow> hex_decoder \<Rightarrow> announcement \<Rightarrow> instant \<Rightarrow> message_cache \<Rightarrow> (bool \<times> message_cache) option" where
  "check_and_insert blake3_hex hx ann now cache =
     (case get_or_generate_message_id blake3_hex hx ann of
        None \<Rightarrow> None
      | Some (message_id, ann') \<Rightarrow>
          (let (is_new, cache') = MessageCache_insert message_id (effective_ttl ann') now cache
           in Some (is_new,
                if MessageCache_len cache' mod 100 = 0 then MessageCache_remove_expired now cache'
                else cache')))"

definition is_duplicate ::
  "(bytes \<Rightarrow> string) \<Rightarrow> hex_decoder \<Rightarrow> announcement \<Rightarrow> message_cache \<Rightarrow> bool option" where
  "is_duplicate blake3_hex hx ann cache =
     map_option (\<lambda>(i, _). MessageCache_contains cache i) (get_or_generate_message_id blake3_hex hx ann)"

section \<open>Expiry tracker\<close>

record ttl_tracker =
  tt_expirations :: "(string, instant) hmap"
  tt_default_ttl :: duration

definition TtlTracker_register :: "string \<Rightarrow> duration \<Rightarrow> instant \<Rightarrow> ttl_tracker \<Rightarrow> ttl_tracker" where
  "TtlTracker_register i ttl now t = t\<lparr>tt_expirations := hm_insert i (now + ttl) (tt_expirations t)\<rparr>"

definition TtlTracker_register_default :: "string \<Rightarrow> instant \<Rightarrow> ttl_tracker \<Rightarrow> ttl_tracker" where
  "TtlTracker_register_default i now t = TtlTracker_register i (tt_default_ttl t) now t"

definition TtlTracker_is_expired :: "string \<Rightarrow> instant \<Rightarrow> ttl_tracker \<Rightarrow> bool" where
  "TtlTracker_is_expired i now t =
     (case hm_get (tt_expirations t) i of Some e \<Rightarrow> now \<ge> e | None \<Rightarrow> False)"

definition TtlTracker_remaining_ttl :: "string \<Rightarrow> instant \<Rightarrow> ttl_tracker \<Rightarrow> duration option" where
  "TtlTracker_remaining_ttl i now t = map_option (\<lambda>e. e - now) (hm_get (tt_expirations t) i)"

definition TtlTracker_remove :: "string \<Rightarrow> ttl_tracker \<Rightarrow> ttl_tracker" where
  "TtlTracker_remove i t = t\<lparr>tt_expirations := hm_remove i (tt_expirations t)\<rparr>"

definition TtlTracker_cleanup_expired :: "instant \<Rightarrow> ttl_tracker \<Rightarrow> string list \<times> ttl_tracker" where
  "TtlTracker_cleanup_expired now t =
     (let expd = map fst (filter (\<lambda>(_, e). now \<ge> e) (tt_expirations t))
      in (expd, t\<lparr>tt_expirations := fold hm_remove expd (tt_expirations t)\<rparr>))"

section \<open>Cache invariant\<close>

text \<open>
  The order list enumerates the keys of the map without repetition, and the cache never holds
  more entries than its capacity (one, if the capacity is zero).
\<close>

definition cache_consistent :: "string list \<Rightarrow> (string, message_meta) hmap \<Rightarrow> bool" where
  "cache_consistent order es = (hm_wf es \<and> distinct order \<and> set order = fst ` set es)"

definition MessageCache_inv :: "message_cache \<Rightarrow> bool" where
  "MessageCache_inv c = (cache_consistent (mc_order c) (mc_entries c) \<and>
     length (mc_entries c) \<le> max 1 (mc_capacity c))"

lemma consistent_length: "cache_consistent order es \<Longrightarrow> length es = length order"
  unfolding cache_consistent_def hm_wf_def
  by (metis distinct_card length_map set_map)

lemma keys_fold_remove: "fst ` set (fold hm_remove ks m) = fst ` set m - set ks"
  by (induction ks arbitrary: m) (auto simp: keys_hm_remove)

lemma length_fold_remove_le: "length (fold hm_remove ks m) \<le> length m"
proof (induction ks arbitrary: m)
  case Nil
  then show ?case by simp
next
  case (Cons k ks)
  show ?case using Cons.IH [of "hm_remove k m"] length_hm_remove_le [of k m] by simp
qed

lemma consistent_remove_expired:
  "cache_consistent (mc_order c) (mc_entries c) \<Longrightarrow>
    cache_consistent (mc_order (MessageCache_remove_expired now c))
      (mc_entries (MessageCache_remove_expired now c))"
  using hmap_store.inv_remove_all [of "mc_entries c"]
  by (auto simp: cache_consistent_def MessageCache_remove_expired_def keys_fold_remove)

lemma consistent_evict:
  assumes "cache_consistent order es" and "evict_oldest cap order es = (order', es')"
  shows "cache_consistent order' es' \<and> (length es' < cap \<or> order' = []) \<and>
    (\<exists>pre. order = pre @ order') \<and> (\<forall>i \<in> set order'. hm_get es' i = hm_get es i)"
  using assms
proof (induction cap order es rule: evict_oldest.induct)
  case (1 cap es)
  then show ?case by simp
next
  case (2 cap oldest rest es)
  show ?case
  proof (cases "cap \<le> length es")
    case True
    have c: "cache_consistent rest (hm_remove oldest es)"
      using "2.prems"(1) by (auto simp: cache_consistent_def keys_hm_remove)
    have e: "evict_oldest cap rest (hm_remove oldest es) = (order', es')"
      using "2.prems"(2) True by simp
    note ih = "2.IH" [OF True c e]
    have "oldest \<notin> set order'"
      using ih "2.prems"(1) by (auto simp: cache_consistent_def)
    then have "\<forall>i \<in> set order'. hm_get es' i = hm_get es i"
      using ih by (auto split: if_splits)
    moreover obtain pre where "rest = pre @ order'" using ih by blast
    then have "oldest # rest = (oldest # pre) @ order'" by simp
    ultimately show ?thesis using ih by blast
  next
    case False
    with "2.prems" show ?thesis by auto
  qed
qed

lemma evict_if_needed_parts:
  assumes "cache_consistent (mc_order c) (mc_entries c)"
  shows "cache_consistent (mc_order (evict_if_needed now c)) (mc_entries (evict_if_needed now c))"
    and "length (mc_entries (evict_if_needed now c)) < mc_capacity c \<or> mc_entries (evict_if_needed now c) = []"
    and "mc_capacity (evict_if_needed now c) = mc_capacity c"
proof -
  let ?c = "MessageCache_remove_expired now c"
  obtain order es where ev: "evict_oldest (mc_capacity ?c) (mc_order ?c) (mc_entries ?c) = (order, es)"
    by fastforce
  note ce = consistent_evict [OF consistent_remove_expired [OF assms] ev]
  have cap: "mc_capacity ?c = mc_capacity c" by (simp add: MessageCache_remove_expired_def)
  have eq: "evict_if_needed now c = ?c\<lparr>mc_order := order, mc_entries := es\<rparr>"
    unfolding evict_if_needed_def Let_def ev by simp
  show "cache_consistent (mc_order (evict_if_needed now c)) (mc_entries (evict_if_needed now c))"
    using ce by (simp add: eq)
  show "length (mc_entries (evict_if_needed now c)) < mc_capacity c \<or> mc_entries (evict_if_needed now c) = []"
    using ce consistent_length [of order es] by (auto simp: eq cap)
  show "mc_capacity (evict_if_needed now c) = mc_capacity c" by (simp add: eq cap)
qed

lemma consistent_insert:
  "cache_consistent order es \<Longrightarrow> i \<notin> fst ` set es \<Longrightarrow> cache_consistent (order @ [i]) (hm_insert i m es)"
  by (auto simp: cache_consistent_def keys_hm_insert)

lemma evict_keys_subset:
  assumes "cache_consistent (mc_order c) (mc_entries c)"
  shows "fst ` set (mc_entries (evict_if_needed now c)) \<subseteq> fst ` set (mc_entries c)"
proof -
  let ?c = "MessageCache_remove_expired now c"
  obtain order es where ev: "evict_oldest (mc_capacity ?c) (mc_order ?c) (mc_entries ?c) = (order, es)"
    by fastforce
  note ce = consistent_evict [OF consistent_remove_expired [OF assms] ev]
  then have "set order \<subseteq> set (mc_order ?c)" by auto
  then show ?thesis
    using ce assms ev by (auto simp: evict_if_needed_def Let_def cache_consistent_def MessageCache_remove_expired_def)
qed

lemma inv_cache_insert:
  assumes "MessageCache_inv c"
  shows "MessageCache_inv (snd (MessageCache_insert i ttl now c))"
proof (cases "hm_contains (mc_entries c) i")
  case True
  then show ?thesis using assms by (simp add: MessageCache_insert_def)
next
  case False
  let ?c = "evict_if_needed now c"
  have con: "cache_consistent (mc_order c) (mc_entries c)" using assms by (simp add: MessageCache_inv_def)
  have new: "i \<notin> fst ` set (mc_entries ?c)"
    using False evict_keys_subset [OF con, of now] by (auto simp: hm_contains_iff)
  have "length (hm_insert i (MessageMeta_new ttl now) (mc_entries ?c)) \<le> max 1 (mc_capacity c)"
    using evict_if_needed_parts(2) [OF con, of now] new by (auto simp: length_hm_insert)
  then show ?thesis
    using False consistent_insert [OF evict_if_needed_parts(1) [OF con, of now] new]
    by (simp add: MessageCache_insert_def MessageCache_inv_def Let_def evict_if_needed_parts(3) [OF con])
qed

lemma inv_remove_expired:
  "MessageCache_inv c \<Longrightarrow> MessageCache_inv (MessageCache_remove_expired now c)"
  using consistent_remove_expired [of c now] length_fold_remove_le [of "expired_ids now c" "mc_entries c"]
  by (auto simp: MessageCache_inv_def MessageCache_remove_expired_def)

datatype cache_op = InsertMsg string duration instant | Cleanup instant | ClearCache

fun MessageCache_step :: "cache_op \<Rightarrow> message_cache \<Rightarrow> message_cache" where
  "MessageCache_step (InsertMsg i ttl now) c = snd (MessageCache_insert i ttl now c)"
| "MessageCache_step (Cleanup now) c = MessageCache_remove_expired now c"
| "MessageCache_step ClearCache c = MessageCache_clear c"

interpretation cache_ops: op_machine "\<lambda>c. \<exists>cap ttl. c = MessageCache_new cap ttl"
  MessageCache_step MessageCache_inv
proof
  show "MessageCache_inv s" if "\<exists>cap ttl. s = MessageCache_new cap ttl" for s
    using that by (auto simp: MessageCache_inv_def MessageCache_new_def cache_consistent_def)
  show "MessageCache_inv (MessageCache_step p s)" if "MessageCache_inv s" for p s
    using that
    by (cases p) (simp_all add: inv_cache_insert inv_remove_expired,
      simp add: MessageCache_clear_def MessageCache_inv_def cache_consistent_def)
qed


section \<open>How long an identifier is remembered\<close>

definition held :: "string \<Rightarrow> message_meta \<Rightarrow> nat \<Rightarrow> message_cache \<Rightarrow> bool" where
  "held i m n c = (cache_consistent (mc_order c) (mc_entries c) \<and>
     (\<exists>pre post. mc_order c = pre @ i # post \<and> length post \<le> n) \<and> hm_get (mc_entries c) i = Some m)"

lemma held_mono: "held i m n c \<Longrightarrow> n \<le> n' \<Longrightarrow> held i m n' c"
  unfolding held_def by (meson le_trans)

lemma evict_keeps_recent:
  assumes "cache_consistent (pre @ i # post) es" and "Suc (length post) < cap"
  shows "\<exists>pre'. fst (evict_oldest cap (pre @ i # post) es) = pre' @ i # post"
  using assms
proof (induction pre arbitrary: es)
  case Nil
  then have "length es = Suc (length post)" using consistent_length [of "i # post" es] by simp
  with Nil.prems(2) show ?case by simp
next
  case (Cons x pre)
  have "cache_consistent (pre @ i # post) (hm_remove x es)"
    using Cons.prems(1) by (auto simp: cache_consistent_def keys_hm_remove)
  with Cons show ?case by (auto intro: exI [of _ "x # pre"])
qed

lemma not_expired_id:
  "hm_get (mc_entries c) i = Some m \<Longrightarrow> now < mm_expires_at m \<Longrightarrow> i \<notin> set (expired_ids now c)"
  by (auto simp: expired_ids_def MessageMeta_is_expired_def dest!: in_set_takeD)

lemma held_remove_expired:
  assumes "held i m n c" and "now < mm_expires_at m"
  shows "held i m n (MessageCache_remove_expired now c)"
proof -
  obtain pre post where o: "mc_order c = pre @ i # post" "length post \<le> n"
    using assms(1) by (auto simp: held_def)
  have con: "cache_consistent (mc_order c) (mc_entries c)" and get: "hm_get (mc_entries c) i = Some m"
    using assms(1) by (simp_all add: held_def)
  have i: "i \<notin> set (expired_ids now c)" using not_expired_id [OF get assms(2)] .
  let ?P = "\<lambda>j. j \<notin> set (expired_ids now c)"
  have "mc_order (MessageCache_remove_expired now c) = filter ?P pre @ i # filter ?P post"
    using o(1) i by (simp add: MessageCache_remove_expired_def)
  moreover have "length (filter ?P post) \<le> n" using o(2) by (meson le_trans length_filter_le)
  moreover have "hm_get (mc_entries (MessageCache_remove_expired now c)) i = Some m"
    using con get i hmap_store.lookup_remove_all [of "mc_entries c" "expired_ids now c" i]
    by (simp add: MessageCache_remove_expired_def cache_consistent_def)
  ultimately show ?thesis
    unfolding held_def using consistent_remove_expired [OF con] by blast
qed

lemma held_evict:
  assumes "held i m n c" and "now < mm_expires_at m" and "Suc n < mc_capacity c"
  shows "held i m n (evict_if_needed now c)"
proof -
  let ?c = "MessageCache_remove_expired now c"
  have h: "held i m n ?c" by (rule held_remove_expired [OF assms(1,2)])
  then obtain pre post where o: "mc_order ?c = pre @ i # post" "length post \<le> n"
    and con: "cache_consistent (mc_order ?c) (mc_entries ?c)" and get: "hm_get (mc_entries ?c) i = Some m"
    by (auto simp: held_def)
  have cap: "mc_capacity ?c = mc_capacity c" by (simp add: MessageCache_remove_expired_def)
  obtain order es where ev: "evict_oldest (mc_capacity ?c) (mc_order ?c) (mc_entries ?c) = (order, es)"
    by fastforce
  then obtain pre' where "order = pre' @ i # post"
    using evict_keeps_recent [of pre i post "mc_entries ?c" "mc_capacity ?c"] o con assms(3) cap by auto
  moreover have "evict_if_needed now c = ?c\<lparr>mc_order := order, mc_entries := es\<rparr>"
    unfolding evict_if_needed_def Let_def ev by simp
  ultimately show ?thesis
    using consistent_evict [OF con ev] o(2) get by (auto simp: held_def)
qed

lemma held_insert:
  assumes "held i m n c" and "now < mm_expires_at m" and "Suc n < mc_capacity c"
  shows "held i m (Suc n) (snd (MessageCache_insert j ttl now c))"
proof (cases "hm_contains (mc_entries c) j")
  case True
  then show ?thesis using held_mono [OF assms(1), of "Suc n"] by (simp add: MessageCache_insert_def)
next
  case False
  let ?c = "evict_if_needed now c"
  have h: "held i m n ?c" by (rule held_evict [OF assms])
  then obtain pre post where "mc_order ?c = pre @ i # post" "length post \<le> n" by (auto simp: held_def)
  then have o: "\<exists>pre' post'. mc_order ?c @ [j] = pre' @ i # post' \<and> length post' \<le> Suc n"
    by (intro exI [of _ pre] exI [of _ "post @ [j]"]) simp
  have con: "cache_consistent (mc_order c) (mc_entries c)" using assms(1) by (simp add: held_def)
  have ji: "j \<noteq> i" using False assms(1) by (auto simp: held_def hm_contains_def)
  have new: "j \<notin> fst ` set (mc_entries ?c)"
    using False evict_keys_subset [OF con, of now] by (auto simp: hm_contains_iff)
  have "cache_consistent (mc_order ?c @ [j]) (hm_insert j (MessageMeta_new ttl now) (mc_entries ?c))"
    using h new by (intro consistent_insert) (simp_all add: held_def)
  moreover have "hm_get (hm_insert j (MessageMeta_new ttl now) (mc_entries ?c)) i = Some m"
    using h ji by (simp add: held_def)
  ultimately show ?thesis
    using False o by (simp add: MessageCache_insert_def Let_def held_def)
qed

lemma insert_capacity:
  assumes "cache_consistent (mc_order c) (mc_entries c)"
  shows "mc_capacity (snd (MessageCache_insert j ttl now c)) = mc_capacity c"
  using evict_if_needed_parts(3) [OF assms] by (simp add: MessageCache_insert_def Let_def)

lemma held_inserts:
  assumes "held i m n c" and "n + length ops < mc_capacity c"
    and "\<forall>(j, ttl, now) \<in> set ops. now < mm_expires_at m"
  shows "held i m (n + length ops) (fold (\<lambda>(j, ttl, now) d. snd (MessageCache_insert j ttl now d)) ops c)"
  using assms
proof (induction ops arbitrary: n c)
  case Nil
  then show ?case by simp
next
  case (Cons p ops)
  obtain j ttl now where p: "p = (j, ttl, now)" by (cases p)
  let ?c = "snd (MessageCache_insert j ttl now c)"
  have h: "held i m (Suc n) ?c" using Cons.prems by (intro held_insert) (auto simp: p)
  have "mc_capacity ?c = mc_capacity c"
    using Cons.prems(1) by (intro insert_capacity) (simp add: held_def)
  with Cons.IH [OF h] Cons.prems show ?case by (simp add: p)
qed

lemma held_after_insert:
  assumes "MessageCache_inv c" and "fst (MessageCache_insert i ttl now c)"
  shows "held i (MessageMeta_new ttl now) 0 (snd (MessageCache_insert i ttl now c))"
proof -
  have "\<not> hm_contains (mc_entries c) i" using assms(2) by (auto simp: MessageCache_insert_def split: if_splits)
  moreover have "cache_consistent (mc_order (snd (MessageCache_insert i ttl now c)))
      (mc_entries (snd (MessageCache_insert i ttl now c)))"
    using inv_cache_insert [OF assms(1)] by (simp add: MessageCache_inv_def)
  ultimately show ?thesis by (auto simp: held_def MessageCache_insert_def Let_def)
qed

section \<open>Properties\<close>

text \<open>
  In every reachable state of the deduplication cache the eviction order lists exactly the
  cached identifiers, each once, and the cache holds at most its capacity (at most one entry
  when the capacity is zero).
\<close>

theorem dedup_cache_reachable_inv:
  "MessageCache_inv (fold MessageCache_step ops (MessageCache_new capacity ttl))"
  by (rule cache_ops.inv_run) blast

text \<open>
  C30. No duplicate gets through early: an identifier that was accepted is rejected again as long
  as it has not expired and fewer than the capacity of other insertions have happened since.
\<close>

theorem accepted_message_is_remembered:
  assumes "MessageCache_inv c" and "fst (MessageCache_insert i ttl t c)"
    and "length ops < mc_capacity c" and "\<forall>(j, ttl', now) \<in> set ops. now < t + ttl"
  shows "fst (MessageCache_insert i ttl2 t2
    (fold (\<lambda>(j, ttl', now) d. snd (MessageCache_insert j ttl' now d)) ops
      (snd (MessageCache_insert i ttl t c)))) = False"
proof -
  let ?c = "snd (MessageCache_insert i ttl t c)"
  have con: "cache_consistent (mc_order c) (mc_entries c)" using assms(1) by (simp add: MessageCache_inv_def)
  have "held i (MessageMeta_new ttl t) (0 + length ops)
      (fold (\<lambda>(j, ttl', now) d. snd (MessageCache_insert j ttl' now d)) ops ?c)"
    using assms(3,4) held_after_insert [OF assms(1,2)]
    by (intro held_inserts) (auto simp: insert_capacity [OF con] MessageMeta_new_def)
  then show ?thesis by (auto simp: held_def MessageCache_insert_def hm_contains_def)
qed

theorem accepted_message_is_remembered_witness:
  "fst (MessageCache_insert ''m1'' 60 9
    (fold (\<lambda>(j, ttl', now) d. snd (MessageCache_insert j ttl' now d)) [(''m2'', 60, 5)]
      (snd (MessageCache_insert ''m1'' 60 0 (MessageCache_new 2 60))))) = False"
  by (rule accepted_message_is_remembered)
    (auto simp: MessageCache_inv_def MessageCache_new_def cache_consistent_def MessageCache_insert_def hm_contains_def Let_def)

text \<open>
  \<^verbatim>\<open>cleanup_expired\<close> of the tracker returns the identifiers whose time has come and forgets
  exactly these.
\<close>

theorem ttl_tracker_cleanup_exact:
  assumes "hm_wf (tt_expirations t)"
  shows "set (fst (TtlTracker_cleanup_expired now t)) = {i. TtlTracker_is_expired i now t} \<and>
    hm_get (tt_expirations (snd (TtlTracker_cleanup_expired now t))) i =
      (if TtlTracker_is_expired i now t then None else hm_get (tt_expirations t) i)"
proof -
  let ?x = "map fst (filter (\<lambda>(_, e). now \<ge> e) (tt_expirations t))"
  have x: "set ?x = {i. TtlTracker_is_expired i now t}"
    using hm_set_eq_get [OF assms]
    by (force simp: TtlTracker_is_expired_def image_iff split: option.splits)
  moreover have "hm_get (fold hm_remove ?x (tt_expirations t)) i =
      (if i \<in> set ?x then None else hm_get (tt_expirations t) i)"
    using hmap_store.lookup_remove_all [OF assms] .
  ultimately show ?thesis
    unfolding TtlTracker_cleanup_expired_def Let_def by (simp only: fst_conv snd_conv ttl_tracker.simps) simp
qed

theorem ttl_tracker_cleanup_exact_witness:
  "hm_get (tt_expirations (snd (TtlTracker_cleanup_expired 10
     (TtlTracker_register ''m'' 5 0 \<lparr>tt_expirations = [], tt_default_ttl = 60\<rparr>)))) ''m'' = None"
  using ttl_tracker_cleanup_exact [of "TtlTracker_register ''m'' 5 0 \<lparr>tt_expirations = [], tt_default_ttl = 60\<rparr>" 10 "''m''"]
  by (simp add: TtlTracker_register_def hm_wf_def TtlTracker_is_expired_def)

end
