(* ===== verification/Gossip_Access.thy ===== *)
theory Gossip_Access
  imports Node
begin

text \<open>
  Access control of gossip rooms (\<^verbatim>\<open>crates/a3net-gossip/src/access.rs\<close>): room policies,
  node and credential checks, legacy and Argon2 password hashes. The Argon2 functions and the
  standard library's \<^verbatim>\<open>DefaultHasher\<close>, whose algorithm is unspecified, are parameters.
\<close>

datatype credential_type = Password string | Psk string | Hmac string | NoCredential

record room_credential =
  rc_room_id :: string
  rc_credential :: credential_type

definition RoomCredential_is_public :: "room_credential \<Rightarrow> bool" where
  "RoomCredential_is_public c = (rc_credential c = NoCredential)"

record room_access_policy =
  ra_is_public :: bool
  ra_password_hash :: "string option"
  ra_allowed_nodes :: "string list"
  ra_blocked_nodes :: "string list"
  ra_allow_node_rotation :: bool
  ra_max_message_size :: nat

definition RoomAccessPolicy_default :: room_access_policy where
  "RoomAccessPolicy_default = \<lparr>ra_is_public = True, ra_password_hash = None, ra_allowed_nodes = [],
     ra_blocked_nodes = [], ra_allow_node_rotation = True, ra_max_message_size = 1024 * 1024\<rparr>"

definition RoomAccessPolicy_with_password :: "string \<Rightarrow> room_access_policy" where
  "RoomAccessPolicy_with_password h =
     RoomAccessPolicy_default\<lparr>ra_is_public := False, ra_password_hash := Some h\<rparr>"

definition RoomAccessPolicy_with_whitelist :: "node_id list \<Rightarrow> room_access_policy" where
  "RoomAccessPolicy_with_whitelist nodes =
     RoomAccessPolicy_default\<lparr>ra_is_public := False, ra_allowed_nodes := nodes\<rparr>"

definition is_node_allowed :: "room_access_policy \<Rightarrow> node_id \<Rightarrow> bool" where
  "is_node_allowed p node =
     (if list_ex (\<lambda>n. n = node) (ra_blocked_nodes p) then False
      else if ra_allowed_nodes p \<noteq> [] then list_ex (\<lambda>n. n = node) (ra_allowed_nodes p)
      else True)"

definition requires_auth :: "room_access_policy \<Rightarrow> bool" where
  "requires_auth p = (\<not> ra_is_public p \<or> ra_password_hash p \<noteq> None \<or> ra_allowed_nodes p \<noteq> [])"

datatype denial = NodeNotAllowed string string | MessageTooLarge nat nat

datatype access_check_result = Allowed | Denied denial | AuthenticationRequired

record access_control =
  ac_policies :: "(string, room_access_policy) hmap"
  ac_credentials :: "(string, string) hmap"

definition AccessControl_new :: access_control where
  "AccessControl_new = \<lparr>ac_policies = [], ac_credentials = []\<rparr>"

definition register_room :: "string \<Rightarrow> room_access_policy \<Rightarrow> access_control \<Rightarrow> access_control" where
  "register_room room p ac = ac\<lparr>ac_policies := hm_insert room p (ac_policies ac)\<rparr>"

definition set_credential :: "string \<Rightarrow> string \<Rightarrow> access_control \<Rightarrow> access_control" where
  "set_credential room h ac = ac\<lparr>ac_credentials := hm_insert room h (ac_credentials ac)\<rparr>"

definition check_node_access :: "access_control \<Rightarrow> string \<Rightarrow> node_id \<Rightarrow> access_check_result" where
  "check_node_access ac room node =
     (case hm_get (ac_policies ac) room of
        Some p \<Rightarrow> if \<not> is_node_allowed p node then Denied (NodeNotAllowed (NodeId_short node) room) else Allowed
      | None \<Rightarrow> Allowed)"

record hash_api =
  argon2id_verify :: "string \<Rightarrow> string \<Rightarrow> bool"
  argon2id_hash :: "string \<Rightarrow> string option"
  default_hasher_hex :: "string \<Rightarrow> string"

definition has_prefix :: "string \<Rightarrow> string \<Rightarrow> bool" where
  "has_prefix pfx s = (take (length pfx) s = pfx)"

definition verify_password :: "hash_api \<Rightarrow> string \<Rightarrow> string \<Rightarrow> bool" where
  "verify_password api pwd h =
     (if has_prefix ''$argon2'' h then argon2id_verify api h pwd
      else if pwd = h then True
      else if length h = 16 then default_hasher_hex api pwd = h
      else False)"

definition verify_credential ::
  "hash_api \<Rightarrow> access_control \<Rightarrow> string \<Rightarrow> credential_type \<Rightarrow> access_check_result" where
  "verify_credential api ac room cred =
     (case hm_get (ac_policies ac) room of
        None \<Rightarrow> Allowed
      | Some p \<Rightarrow>
          if ra_is_public p \<and> ra_password_hash p = None \<and> ra_allowed_nodes p = [] then Allowed
          else (case ra_password_hash p of
                  Some stored \<Rightarrow>
                    (case cred of
                       Password pwd \<Rightarrow> if verify_password api pwd stored then Allowed else AuthenticationRequired
                     | Psk psk \<Rightarrow> if verify_password api psk stored then Allowed else AuthenticationRequired
                     | Hmac psk \<Rightarrow> if verify_password api psk stored then Allowed else AuthenticationRequired
                     | NoCredential \<Rightarrow> AuthenticationRequired)
                | None \<Rightarrow> Allowed))"

definition hash_password :: "hash_api \<Rightarrow> string \<Rightarrow> string option" where
  "hash_password api pwd = argon2id_hash api pwd"

definition is_legacy_hash :: "string \<Rightarrow> bool" where
  "is_legacy_hash h = (\<not> has_prefix ''$argon2'' h \<and> length h \<noteq> 64)"

definition needs_rehash :: "string \<Rightarrow> bool" where
  "needs_rehash h = (has_prefix ''$argon2'' h \<and> True)"

definition upgrade_password :: "hash_api \<Rightarrow> string \<Rightarrow> string \<Rightarrow> string option" where
  "upgrade_password api pwd legacy =
     (if \<not> verify_password api pwd legacy then None else hash_password api pwd)"

definition check_message_size :: "access_control \<Rightarrow> string \<Rightarrow> nat \<Rightarrow> access_check_result" where
  "check_message_size ac room n =
     (case hm_get (ac_policies ac) room of
        Some p \<Rightarrow> if n > ra_max_message_size p then Denied (MessageTooLarge n (ra_max_message_size p)) else Allowed
      | None \<Rightarrow> Allowed)"

definition unregister_room :: "string \<Rightarrow> access_control \<Rightarrow> access_control" where
  "unregister_room room ac = ac\<lparr>ac_policies := hm_remove room (ac_policies ac),
     ac_credentials := hm_remove room (ac_credentials ac)\<rparr>"

definition room_count :: "access_control \<Rightarrow> nat" where
  "room_count ac = length (ac_policies ac)"

section \<open>Behaviour\<close>

lemma is_node_allowed_iff:
  "is_node_allowed p node \<longleftrightarrow>
    node \<notin> set (ra_blocked_nodes p) \<and> (ra_allowed_nodes p = [] \<or> node \<in> set (ra_allowed_nodes p))"
  by (auto simp: is_node_allowed_def list_ex_iff)

lemma verify_password_modern:
  "has_prefix ''$argon2'' h \<Longrightarrow> verify_password api pwd h = argon2id_verify api h pwd"
  by (simp add: verify_password_def)

definition AccessControl_inv :: "access_control \<Rightarrow> bool" where
  "AccessControl_inv ac = (hm_wf (ac_policies ac) \<and> hm_wf (ac_credentials ac))"

interpretation room_policies: keyed_store "\<lambda>ac. hm_get (ac_policies ac)" unregister_room
  AccessControl_inv register_room
  by unfold_locales (auto simp: AccessControl_inv_def register_room_def unregister_room_def)

section \<open>Properties\<close>

definition demo_hash_api :: hash_api where
  "demo_hash_api = \<lparr>argon2id_verify = (\<lambda>_ _. False), argon2id_hash = (\<lambda>_. None), default_hasher_hex = id\<rparr>"

text \<open>
  Node access: a node may enter a room exactly when the room has no policy, or the node is
  not blocked and the allow list is empty or contains it; blocking wins over allowing.
\<close>

theorem check_node_access_iff:
  "check_node_access ac room node = Allowed \<longleftrightarrow>
    (case hm_get (ac_policies ac) room of
       None \<Rightarrow> True
     | Some p \<Rightarrow> node \<notin> set (ra_blocked_nodes p) \<and>
         (ra_allowed_nodes p = [] \<or> node \<in> set (ra_allowed_nodes p)))"
  by (auto simp: check_node_access_def is_node_allowed_iff split: option.splits)

text \<open>
  A stored hash that is not in Argon2 format is itself accepted as the password: whoever
  reads the policy of such a room, which is serialisable and travels with the hash in it, can
  present the hash as a password, a pre-shared key or a MAC.
\<close>

theorem legacy_hash_is_a_password:
  assumes "hm_get (ac_policies ac) room = Some p" and "ra_password_hash p = Some h"
    and "\<not> has_prefix ''$argon2'' h"
  shows "verify_credential api ac room (Password h) = Allowed \<and>
    verify_credential api ac room (Psk h) = Allowed \<and> verify_credential api ac room (Hmac h) = Allowed"
  using assms by (simp add: verify_credential_def verify_password_def)

theorem legacy_hash_is_a_password_witness:
  "verify_credential demo_hash_api (register_room ''r'' (RoomAccessPolicy_with_password ''0123456789abcdef'') AccessControl_new)
     ''r'' (Psk ''0123456789abcdef'') = Allowed"
  using legacy_hash_is_a_password [of
      "register_room ''r'' (RoomAccessPolicy_with_password ''0123456789abcdef'') AccessControl_new" "''r''"
      "RoomAccessPolicy_with_password ''0123456789abcdef''" "''0123456789abcdef''" demo_hash_api]
  by (simp add: register_room_def AccessControl_new_def RoomAccessPolicy_with_password_def
      RoomAccessPolicy_default_def has_prefix_def)

end
