(* ===== verification/Circuit_Breakers.thy ===== *)
theory Circuit_Breakers
  imports Prelude
begin

text \<open>
  The two circuit breakers of the workspace, \<^verbatim>\<open>crates/a3net-resilience/src/circuit_breaker.rs\<close>
  (operations prefixed \<open>rb_\<close>) and \<^verbatim>\<open>crates/a3chat-app/src/group_sync_service/circuit_breaker.rs\<close>
  (prefixed \<open>sb_\<close>). Both are state machines over Closed, Open and HalfOpen. The first holds a
  lock during each operation; the second uses atomics, and an operation is one step here, so
  interleavings inside an operation are not covered. Both satisfy the contract \<open>fail_fast\<close>.
\<close>

datatype circuit_state = Closed | Open | HalfOpen

section \<open>The breaker of the resilience crate\<close>

record rb_config =
  rb_failure_threshold :: u32
  rb_timeout :: duration
  rb_success_threshold :: u32
  rb_window_duration :: duration

definition rb_config_default :: rb_config where
  "rb_config_default = \<lparr>rb_failure_threshold = 5, rb_timeout = 60, rb_success_threshold = 2,
     rb_window_duration = 30\<rparr>"

record rb_inner =
  rb_state :: circuit_state
  rb_failures :: u32
  rb_successes :: u32
  rb_window_start :: instant
  rb_opened_at :: "instant option"

definition rb_new :: "instant \<Rightarrow> rb_inner" where
  "rb_new now = \<lparr>rb_state = Closed, rb_failures = 0, rb_successes = 0, rb_window_start = now,
     rb_opened_at = None\<rparr>"

definition rb_allow_request :: "rb_config \<Rightarrow> instant \<Rightarrow> rb_inner \<Rightarrow> bool \<times> rb_inner" where
  "rb_allow_request cfg now g = (case rb_state g of
     Closed \<Rightarrow> (True, g)
   | Open \<Rightarrow>
       (let elapsed = (case rb_opened_at g of Some t \<Rightarrow> now - t | None \<Rightarrow> 0)
        in if elapsed \<ge> rb_timeout cfg then (True, g\<lparr>rb_state := HalfOpen, rb_successes := 0\<rparr>)
           else (False, g))
   | HalfOpen \<Rightarrow> (rb_successes g = 0, g))"

definition rb_record_success :: "rb_config \<Rightarrow> instant \<Rightarrow> rb_inner \<Rightarrow> rb_inner" where
  "rb_record_success cfg now g = (case rb_state g of
     HalfOpen \<Rightarrow>
       (let g' = g\<lparr>rb_successes := rb_successes g + 1\<rparr>
        in if rb_successes g' \<ge> rb_success_threshold cfg
           then g'\<lparr>rb_state := Closed, rb_failures := 0, rb_opened_at := None\<rparr> else g')
   | Closed \<Rightarrow> g\<lparr>rb_failures := 0, rb_window_start := now\<rparr>
   | Open \<Rightarrow> g)"

definition rb_record_failure :: "rb_config \<Rightarrow> instant \<Rightarrow> rb_inner \<Rightarrow> rb_inner" where
  "rb_record_failure cfg now g = (case rb_state g of
     Closed \<Rightarrow>
       (let g1 = (if now - rb_window_start g > rb_window_duration cfg
                  then g\<lparr>rb_failures := 0, rb_window_start := now\<rparr> else g);
            g2 = g1\<lparr>rb_failures := rb_failures g1 + 1\<rparr>
        in if rb_failures g2 \<ge> rb_failure_threshold cfg
           then g2\<lparr>rb_state := Open, rb_opened_at := Some now\<rparr> else g2)
   | HalfOpen \<Rightarrow> g\<lparr>rb_state := Open, rb_opened_at := Some now\<rparr>
   | Open \<Rightarrow> g)"

section \<open>The breaker of the group synchronisation service\<close>

fun CircuitState_to_u8 :: "circuit_state \<Rightarrow> u8" where
  "CircuitState_to_u8 Closed = 0"
| "CircuitState_to_u8 HalfOpen = 1"
| "CircuitState_to_u8 Open = 2"

definition CircuitState_from_u8 :: "u8 \<Rightarrow> circuit_state" where
  "CircuitState_from_u8 v =
     (if v = 0 then Closed else if v = 1 then HalfOpen else if v = 2 then Open else Closed)"

record sb_config =
  sb_failure_threshold :: u32
  sb_success_threshold :: u32
  sb_timeout_ms :: nat

definition sb_config_default :: sb_config where
  "sb_config_default = \<lparr>sb_failure_threshold = 5, sb_success_threshold = 2, sb_timeout_ms = 60000\<rparr>"

record sb_inner =
  sb_state_u8 :: u8
  sb_consecutive_failures :: u32
  sb_consecutive_successes :: u32
  sb_last_failure_time :: int
  sb_opened_at :: int
  sb_total_opens :: u64
  sb_total_closes :: u64

definition sb_new :: sb_inner where
  "sb_new = \<lparr>sb_state_u8 = CircuitState_to_u8 Closed, sb_consecutive_failures = 0,
     sb_consecutive_successes = 0, sb_last_failure_time = 0, sb_opened_at = 0,
     sb_total_opens = 0, sb_total_closes = 0\<rparr>"

definition i64_saturating_sub :: "int \<Rightarrow> int \<Rightarrow> int" where
  "i64_saturating_sub a b = max (- (2 ^ 63)) (min (2 ^ 63 - 1) (a - b))"

definition sb_state :: "sb_config \<Rightarrow> int \<Rightarrow> sb_inner \<Rightarrow> circuit_state \<times> sb_inner" where
  "sb_state cfg now_ms g =
     (let current = CircuitState_from_u8 (sb_state_u8 g)
      in if current \<noteq> Open then (current, g)
         else if sb_opened_at g = 0 then (Open, g)
         else let elapsed = i64_saturating_sub now_ms (sb_opened_at g);
                  timeout_ms = min (int (sb_timeout_ms cfg)) (2 ^ 63 - 1)
              in if elapsed < timeout_ms then (Open, g)
                 else let g' = g\<lparr>sb_state_u8 := CircuitState_to_u8 HalfOpen, sb_consecutive_failures := 0,
                                 sb_consecutive_successes := 0\<rparr>
                      in (CircuitState_from_u8 (sb_state_u8 g'), g'))"

definition sb_is_request_allowed :: "sb_inner \<Rightarrow> bool" where
  "sb_is_request_allowed g = (case CircuitState_from_u8 (sb_state_u8 g) of
     Closed \<Rightarrow> True | Open \<Rightarrow> False | HalfOpen \<Rightarrow> True)"

definition sb_transition_to_open :: "int \<Rightarrow> sb_inner \<Rightarrow> sb_inner" where
  "sb_transition_to_open now_ms g = g\<lparr>sb_state_u8 := CircuitState_to_u8 Open, sb_opened_at := now_ms,
     sb_total_opens := sb_total_opens g + 1, sb_consecutive_successes := 0\<rparr>"

definition sb_transition_to_half_open :: "sb_inner \<Rightarrow> sb_inner" where
  "sb_transition_to_half_open g = g\<lparr>sb_state_u8 := CircuitState_to_u8 HalfOpen,
     sb_consecutive_failures := 0, sb_consecutive_successes := 0\<rparr>"

definition sb_transition_to_closed :: "sb_inner \<Rightarrow> sb_inner" where
  "sb_transition_to_closed g = g\<lparr>sb_state_u8 := CircuitState_to_u8 Closed,
     sb_total_closes := sb_total_closes g + 1, sb_consecutive_failures := 0,
     sb_consecutive_successes := 0, sb_opened_at := 0\<rparr>"

definition sb_record_success :: "sb_config \<Rightarrow> sb_inner \<Rightarrow> sb_inner" where
  "sb_record_success cfg g0 =
     (let g = g0\<lparr>sb_consecutive_failures := 0, sb_last_failure_time := 0\<rparr>
      in case CircuitState_from_u8 (sb_state_u8 g) of
           Closed \<Rightarrow> g\<lparr>sb_consecutive_successes := 0\<rparr>
         | HalfOpen \<Rightarrow>
             (let successes = sb_consecutive_successes g + 1;
                  g' = g\<lparr>sb_consecutive_successes := successes\<rparr>
              in if successes \<ge> sb_success_threshold cfg then sb_transition_to_closed g' else g')
         | Open \<Rightarrow> (sb_transition_to_half_open g)\<lparr>sb_consecutive_successes := 1\<rparr>)"

definition sb_record_failure :: "sb_config \<Rightarrow> int \<Rightarrow> sb_inner \<Rightarrow> sb_inner" where
  "sb_record_failure cfg now_ms g0 =
     (let failures = sb_consecutive_failures g0 + 1;
          g = g0\<lparr>sb_consecutive_successes := 0, sb_consecutive_failures := failures,
                 sb_last_failure_time := now_ms\<rparr>
      in case CircuitState_from_u8 (sb_state_u8 g) of
           Closed \<Rightarrow> if failures \<ge> sb_failure_threshold cfg then sb_transition_to_open now_ms g else g
         | HalfOpen \<Rightarrow> sb_transition_to_open now_ms g
         | Open \<Rightarrow> g)"

definition sb_allow_request :: "sb_config \<Rightarrow> int \<Rightarrow> sb_inner \<Rightarrow> bool \<times> sb_inner" where
  "sb_allow_request cfg now_ms g =
     (let (st, g') = sb_state cfg now_ms g
      in (case st of Closed \<Rightarrow> True | Open \<Rightarrow> False | HalfOpen \<Rightarrow> True, g'))"

definition sb_reset :: "sb_inner \<Rightarrow> sb_inner" where
  "sb_reset g = g\<lparr>sb_state_u8 := CircuitState_to_u8 Closed, sb_consecutive_failures := 0,
     sb_consecutive_successes := 0, sb_last_failure_time := 0, sb_opened_at := 0\<rparr>"


section \<open>The common contract\<close>

text \<open>
  A sequence of requests (\<open>Inl t\<close>) and failures reported by calls still in flight (\<open>Inr t\<close>),
  and the answers to the requests.
\<close>

fun answers :: "('t \<Rightarrow> 's \<Rightarrow> bool \<times> 's) \<Rightarrow> ('t \<Rightarrow> 's \<Rightarrow> 's) \<Rightarrow> ('t + 't) list \<Rightarrow> 's \<Rightarrow> bool list \<times> 's" where
  "answers allow fail [] s = ([], s)"
| "answers allow fail (Inl t # es) s =
     (let (as, s') = answers allow fail es (snd (allow t s)) in (fst (allow t s) # as, s'))"
| "answers allow fail (Inr t # es) s = answers allow fail es (fail t s)"

definition event_time :: "'t + 't \<Rightarrow> 't" where
  "event_time e = (case e of Inl t \<Rightarrow> t | Inr t \<Rightarrow> t)"

locale fail_fast =
  fixes st :: "'s \<Rightarrow> circuit_state"
    and allow :: "'t \<Rightarrow> 's \<Rightarrow> bool \<times> 's"
    and failure :: "'t \<Rightarrow> 's \<Rightarrow> 's"
    and waiting :: "'t \<Rightarrow> 's \<Rightarrow> bool"
  assumes closed_allows: "st s = Closed \<Longrightarrow> allow t s = (True, s)"
    and open_waiting: "st s = Open \<Longrightarrow> waiting t s \<Longrightarrow> allow t s = (False, s)"
    and open_elapsed: "st s = Open \<Longrightarrow> \<not> waiting t s \<Longrightarrow> fst (allow t s) \<and> st (snd (allow t s)) = HalfOpen"
    and half_open_failure: "st s = HalfOpen \<Longrightarrow> st (failure t s) = Open"
    and open_failure: "st s = Open \<Longrightarrow> st (failure t s) = Open \<and> waiting t' (failure t s) = waiting t' s"
begin

lemma rejects_while_waiting:
  assumes "st s = Open" and "\<forall>e \<in> set es. waiting (event_time e) s"
  shows "set (fst (answers allow failure es s)) \<subseteq> {False} \<and> st (snd (answers allow failure es s)) = Open"
  using assms
proof (induction es arbitrary: s)
  case Nil
  then show ?case by simp
next
  case (Cons e es)
  show ?case
  proof (cases e)
    case (Inl t)
    then have "allow t s = (False, s)" using Cons.prems open_waiting by (simp add: event_time_def)
    moreover have "set (fst (answers allow failure es s)) \<subseteq> {False} \<and>
        st (snd (answers allow failure es s)) = Open"
      using Cons.IH [of s] Cons.prems by simp
    ultimately show ?thesis using Inl by (auto simp: Let_def split: prod.splits)
  next
    case (Inr t)
    then show ?thesis using Cons open_failure [OF Cons.prems(1)] by simp
  qed
qed

end

definition rb_waiting :: "rb_config \<Rightarrow> instant \<Rightarrow> rb_inner \<Rightarrow> bool" where
  "rb_waiting cfg t g = ((case rb_opened_at g of Some t0 \<Rightarrow> t - t0 | None \<Rightarrow> 0) < rb_timeout cfg)"

interpretation rb_contract: fail_fast rb_state "rb_allow_request cfg" "rb_record_failure cfg" "rb_waiting cfg" for cfg
  by unfold_locales
    (auto simp: rb_allow_request_def rb_record_failure_def rb_waiting_def Let_def not_less)

definition sb_waiting :: "sb_config \<Rightarrow> int \<Rightarrow> sb_inner \<Rightarrow> bool" where
  "sb_waiting cfg t g = (sb_opened_at g = 0 \<or>
     i64_saturating_sub t (sb_opened_at g) < min (int (sb_timeout_ms cfg)) (2 ^ 63 - 1))"

abbreviation sb_circuit :: "sb_inner \<Rightarrow> circuit_state" where
  "sb_circuit g \<equiv> CircuitState_from_u8 (sb_state_u8 g)"

lemma from_to_u8 [simp]: "CircuitState_from_u8 (CircuitState_to_u8 c) = c"
  by (cases c) (simp_all add: CircuitState_from_u8_def)

lemma from_u8_values [simp]:
  "CircuitState_from_u8 0 = Closed" "CircuitState_from_u8 1 = HalfOpen" "CircuitState_from_u8 2 = Open"
  by (simp_all add: CircuitState_from_u8_def)

interpretation sb_contract: fail_fast sb_circuit "sb_allow_request cfg" "sb_record_failure cfg" "sb_waiting cfg" for cfg
  by unfold_locales
    (auto simp: sb_allow_request_def sb_state_def sb_record_failure_def sb_waiting_def
      sb_transition_to_open_def Let_def)

section \<open>Clients\<close>

text \<open>
  A client asks before each call and reports the outcome of the calls it was allowed to make.
\<close>

fun rb_calls :: "rb_config \<Rightarrow> (instant \<times> bool) list \<Rightarrow> rb_inner \<Rightarrow> bool list \<times> rb_inner" where
  "rb_calls cfg [] g = ([], g)"
| "rb_calls cfg ((now, good) # cs) g =
     (let (ok, g1) = rb_allow_request cfg now g;
          g2 = (if ok then (if good then rb_record_success cfg now g1 else rb_record_failure cfg now g1) else g1);
          (oks, g3) = rb_calls cfg cs g2
      in (ok # oks, g3))"

fun sb_calls :: "sb_config \<Rightarrow> (int \<times> bool) list \<Rightarrow> sb_inner \<Rightarrow> bool list \<times> sb_inner" where
  "sb_calls cfg [] g = ([], g)"
| "sb_calls cfg ((now, good) # cs) g =
     (let (ok, g1) = sb_allow_request cfg now g;
          g2 = (if ok then (if good then sb_record_success cfg g1 else sb_record_failure cfg now g1) else g1);
          (oks, g3) = sb_calls cfg cs g2
      in (ok # oks, g3))"

lemma rb_stuck:
  "rb_state g = HalfOpen \<Longrightarrow> rb_successes g \<noteq> 0 \<Longrightarrow> rb_calls cfg cs g = (replicate (length cs) False, g)"
  by (induction cs) (auto simp: rb_allow_request_def)

lemma sb_half_open_success:
  assumes "sb_circuit g = HalfOpen"
  shows "sb_allow_request cfg t g = (True, g)"
    and "sb_consecutive_successes g + 1 \<ge> sb_success_threshold cfg \<Longrightarrow> sb_circuit (sb_record_success cfg g) = Closed"
    and "\<not> sb_consecutive_successes g + 1 \<ge> sb_success_threshold cfg \<Longrightarrow>
      sb_circuit (sb_record_success cfg g) = HalfOpen \<and>
      sb_consecutive_successes (sb_record_success cfg g) = sb_consecutive_successes g + 1"
  using assms
  by (simp_all add: sb_allow_request_def sb_state_def sb_record_success_def sb_transition_to_closed_def Let_def)

lemma sb_closing_calls:
  assumes "sb_circuit g = HalfOpen" and "unat (sb_consecutive_successes g) + n = unat (sb_success_threshold cfg)"
    and "0 < n" and "length ts = n"
  shows "fst (sb_calls cfg (map (\<lambda>t. (t, True)) ts) g) = replicate n True \<and>
    sb_circuit (snd (sb_calls cfg (map (\<lambda>t. (t, True)) ts) g)) = Closed"
  using assms
proof (induction n arbitrary: g ts)
  case 0
  then show ?case by simp
next
  case (Suc n)
  then obtain t ts' where ts: "ts = t # ts'" by (cases ts) auto
  note ok = sb_half_open_success [OF Suc.prems(1), of cfg]
  have plus: "unat (sb_consecutive_successes g + 1) = Suc (unat (sb_consecutive_successes g))"
    using Suc.prems(2) unat_bound [of "sb_success_threshold cfg"]
    by (intro unat_plus_one) simp
  show ?case
  proof (cases "n = 0")
    case True
    then have "sb_consecutive_successes g + 1 \<ge> sb_success_threshold cfg"
      using Suc.prems(2) plus by (simp add: word_le_nat_alt)
    with True ok(1,2) Suc.prems(4) ts show ?thesis by simp
  next
    case False
    then have lt: "\<not> sb_consecutive_successes g + 1 \<ge> sb_success_threshold cfg"
      using Suc.prems(2) plus by (simp add: word_le_nat_alt)
    let ?g = "sb_record_success cfg g"
    have "fst (sb_calls cfg (map (\<lambda>t. (t, True)) ts') ?g) = replicate n True \<and>
        sb_circuit (snd (sb_calls cfg (map (\<lambda>t. (t, True)) ts') ?g)) = Closed"
      using Suc.IH [of ?g ts'] ok(3) [OF lt] Suc.prems False plus ts by simp
    with ok(1) ts show ?thesis by (auto simp: Let_def split: prod.splits)
  qed
qed

section \<open>Properties\<close>

text \<open>
  The resilience breaker can lock its caller out for ever, with its default configuration:
  after five failures, the dwell time and one successful probe it stays HalfOpen, and from
  then on every client that asks before calling is refused at any time.
\<close>

theorem rb_default_locks_out_after_one_probe:
  "let g = snd (rb_calls rb_config_default (replicate 5 (0, False) @ [(60, True)]) (rb_new 0))
   in rb_state g = HalfOpen \<and> rb_calls rb_config_default cs g = (replicate (length cs) False, g)"
proof -
  let ?g = "snd (rb_calls rb_config_default (replicate 5 (0, False) @ [(60, True)]) (rb_new 0))"
  have "rb_state ?g = HalfOpen \<and> rb_successes ?g = 1"
    by (simp add: rb_config_default_def rb_new_def rb_allow_request_def rb_record_failure_def
        rb_record_success_def Let_def numeral_eq_Suc)
      (simp add: word_le_nat_alt)
  then show ?thesis unfolding Let_def using rb_stuck by simp
qed

text \<open>
  The synchronisation breaker recovers: once the dwell time is over, as many successful calls
  as the success threshold are all allowed and close the circuit.
\<close>

theorem sb_recovers:
  assumes "sb_circuit g = Open" and "sb_opened_at g \<noteq> 0"
    and "i64_saturating_sub t (sb_opened_at g) \<ge> int (sb_timeout_ms cfg)"
    and "length ts = unat (sb_success_threshold cfg) - 1" and "0 < sb_success_threshold cfg"
  shows "fst (sb_calls cfg (map (\<lambda>t. (t, True)) (t # ts)) g) = replicate (unat (sb_success_threshold cfg)) True \<and>
    sb_circuit (snd (sb_calls cfg (map (\<lambda>t. (t, True)) (t # ts)) g)) = Closed"
proof -
  let ?h = "g\<lparr>sb_state_u8 := CircuitState_to_u8 HalfOpen, sb_consecutive_failures := 0, sb_consecutive_successes := 0\<rparr>"
  have allow: "sb_allow_request cfg t g = (True, ?h)"
    using assms(1-3) by (simp add: sb_allow_request_def sb_state_def Let_def)
  have pos: "0 < unat (sb_success_threshold cfg)" using assms(5) by (simp add: word_less_nat_alt)
  have "fst (sb_calls cfg (map (\<lambda>t. (t, True)) (t # ts)) ?h) = replicate (unat (sb_success_threshold cfg)) True \<and>
      sb_circuit (snd (sb_calls cfg (map (\<lambda>t. (t, True)) (t # ts)) ?h)) = Closed"
    using assms(4) pos by (intro sb_closing_calls) simp_all
  then show ?thesis
    using sb_half_open_success(1) [of ?h cfg t] by (simp add: allow)
qed

theorem sb_recovers_witness:
  "sb_circuit (snd (sb_calls sb_config_default [(70000, True), (70001, True)]
     (sb_transition_to_open 1000 sb_new))) = Closed"
  using sb_recovers [where g = "sb_transition_to_open 1000 sb_new" and t = 70000 and cfg = sb_config_default and ts = "[70001]"]
  by (simp add: sb_transition_to_open_def sb_config_default_def i64_saturating_sub_def)

text \<open>
  The synchronisation breaker fails fast: while it is open and the dwell time is not over,
  every request is refused and it stays open, whatever failures are still reported meanwhile.
\<close>

theorem sb_fails_fast:
  assumes "sb_circuit g = Open" and "\<forall>e \<in> set es. sb_waiting cfg (event_time e) g"
  shows "set (fst (answers (sb_allow_request cfg) (sb_record_failure cfg) es g)) \<subseteq> {False} \<and>
    sb_circuit (snd (answers (sb_allow_request cfg) (sb_record_failure cfg) es g)) = Open"
  using assms by (rule sb_contract.rejects_while_waiting)

theorem sb_fails_fast_witness:
  "set (fst (answers (sb_allow_request sb_config_default) (sb_record_failure sb_config_default)
     [Inl 2000, Inr 2500, Inl 50000] (sb_transition_to_open 1000 sb_new))) \<subseteq> {False}"
  using sb_fails_fast [of "sb_transition_to_open 1000 sb_new" "[Inl 2000, Inr 2500, Inl 50000]" sb_config_default]
  by (simp add: sb_transition_to_open_def sb_waiting_def event_time_def sb_config_default_def i64_saturating_sub_def)

end
