(* ===== verification/Spec2Isabelle.thy ===== *)
theory Spec2Isabelle
  imports Cid Dht_Node Hamt Namespace Wantlist Bitswap Stun Port_Mapping Blob_Transport Jitter_Buffer Mailbox_Server Mailbox_Rate_Limit Mesh_Peering Exit_Transit Exit_Handler Reputation_Store Moderation Firewall_Declarative Dht_Routing Dht_Store Gossip_Dedup Gossip_Access Circuit_Breakers Mesh_Http
begin

text \<open>
  A verification development for A3Net, the Rust workspace under \<^verbatim>\<open>src/crates\<close>: a peer-to-peer
  network with content-addressed storage, a Kademlia table, gossip rooms, block exchange, NAT
  traversal, an offline mailbox and a mesh VPN.

  \<^bold>\<open>The program and its model.\<close> Each theory below models the named files; definitions keep the
  names of the code (a method \<^verbatim>\<open>T::f\<close> is \<open>T_f\<close>, or \<open>f\<close> where no other method has the name).

  \<^bold>\<open>Shared vocabulary.\<close>
  \<^item> \<open>Prelude\<close>: machine integers, hash maps as association lists, results, big-endian bytes,
    decimal text, and the interfaces \<open>keyed_table\<close>, \<open>keyed_store\<close> and \<open>op_machine\<close> (a component as
    a machine over its operations) that the components interpret. \<open>Wire\<close>: the integers of the
    binary codecs.
  \<^item> \<open>Node\<close> (\<^verbatim>\<open>a3net-types/src/node.rs\<close>): node identifiers and their XOR distance.
  \<^item> \<open>Cid\<close> (\<^verbatim>\<open>a3net-types/src/multihash_local.rs\<close>, \<^verbatim>\<open>cid.rs\<close>): multihashes and content identifiers, their
    binary and text forms. Both come back from their bytes and texts, and the loops of the variable-length
    integers end.
  \<^item> \<open>Identity\<close> (\<^verbatim>\<open>a3net-identity/src\<close>): addresses, EIP-191 signatures, sealed envelopes and the treasury. Texts,
    signatures and envelopes round trip; decoding accepts exactly the encodings.

  \<^bold>\<open>Blobs.\<close>
  \<^item> \<open>Bao_Tree\<close> (\<^verbatim>\<open>a3net-blobstore/src/bao_tree.rs\<close>): the hash tree over a blob's 16 KiB chunks,
    Merkle paths, range proofs and the streaming builder. Proofs are complete for every range,
    paths of the genuine shape are sound up to an explicit collision, and the builder equals
    the direct construction whatever the division of the input.
  \<^item> \<open>Chunked\<close> (\<^verbatim>\<open>a3net-types/src/range.rs\<close>, \<^verbatim>\<open>a3net-blobstore/src/chunked.rs\<close>): byte ranges and
    their HTTP form, the arithmetic from ranges to chunks at the widths of the code, the chunk
    writer over any sink (locale \<open>byte_sink\<close>: a vector, and a \<^verbatim>\<open>BufWriter\<close> over any sink) and the
    verifying reader over any source.
  \<^item> \<open>Blob_Store\<close> (\<^verbatim>\<open>a3net-blobstore/src/store.rs\<close>, \<^verbatim>\<open>mem.rs\<close>, \<^verbatim>\<open>pin_set.rs\<close>): the store on disk as a
    data directory changed by sequences of file system calls, each of which may fail after part of
    its effect, removals and fallback copies included; the store in memory; pins and garbage
    collection. A blob marked complete reads back unless one of the operations that \<open>spoils\<close> names
    touched it, and what those do is proved too (\<open>half_removal_poisons_blob\<close>,
    \<open>import_race_poisons_store\<close>). Both stores meet the interface \<open>blob_backend\<close> and agree;
    collection attempts exactly the unpinned blobs and reports exactly those it removed.
  \<^item> \<open>Mesh_Http\<close> (\<^verbatim>\<open>a3net-mesh/src/server.rs\<close>, \<^verbatim>\<open>client.rs\<close>, \<^verbatim>\<open>a3net-types/src/content.rs\<close>): the HTTP
    server over the disk store and the client that fetches from it. A fetch from a genuine
    peer delivers the stored bytes; what the client does not verify is proved too.
  \<^item> \<open>Blob_Transport\<close> (\<^verbatim>\<open>a3net-transport/src/frame.rs\<close>, \<^verbatim>\<open>blob_proto.rs\<close>, \<^verbatim>\<open>a3net-node/src/download.rs\<close>): frames,
    the blob protocol over them and the download of a node, which tries peers in order and then the
    HTTP mesh. A genuine peer's non-empty blob arrives byte for byte, failing peers before it do no harm,
    over the transport and over the mesh it falls back to.
  \<^item> \<open>Hamt\<close> (\<^verbatim>\<open>a3net-blobstore/src/hamt/\<close>): sharded directories. The packed nodes refine a finite map from names
    (locale \<open>panic_free_simulation\<close>), counts are exact, and the iterators are followed entry by entry.
  \<^item> \<open>Namespace\<close> (\<^verbatim>\<open>a3net-blobstore/src/namespace.rs\<close>): request paths, the manifest tree, the audit log,
    trash and versions, with every write that may fail. Decoded paths never leave the root.
  \<^item> \<open>Wantlist\<close>, \<open>Bitswap\<close> (\<^verbatim>\<open>a3net-blobstore/src/bitswap_wantlist.rs\<close>, \<^verbatim>\<open>bitswap.rs\<close>): want lists per peer, the
    ledger, sessions, the want manager and the engine. Two engines exchange what one wants and the other has.

  \<^bold>\<open>The DHT.\<close>
  \<^item> \<open>Dht_Routing\<close> (\<^verbatim>\<open>a3net-dht/src/bucket.rs\<close>): k-buckets and the routing table. Every reachable
    table keeps its capacities and has no duplicates, and every contact is in the bucket of its
    distance unless the local identifier was changed under it; lookups obey the laws of a table, \<open>closest\<close> returns the nearest contacts.
  \<^item> \<open>Dht_Record\<close>, \<open>Dht_Store\<close> (\<^verbatim>\<open>record.rs\<close>, \<^verbatim>\<open>store.rs\<close>): signed provider, name and
    value records and the in-memory, RocksDB and two-level stores, as instances of the
    interfaces \<open>value_store\<close> and \<open>ipns_store\<close>.
  \<^item> \<open>Dht_Handler\<close> (\<^verbatim>\<open>protocol.rs\<close>, \<^verbatim>\<open>handler.rs\<close>, \<^verbatim>\<open>transport.rs\<close>): messages and the handler of inbound messages over
    any store object (locale \<open>storage_object\<close>).
  \<^item> \<open>Dht_Query\<close>, \<open>Dht_Node\<close> (\<^verbatim>\<open>query.rs\<close>; \<^verbatim>\<open>retry.rs\<close>, \<^verbatim>\<open>network.rs\<close>, \<^verbatim>\<open>node.rs\<close>, \<^verbatim>\<open>service.rs\<close>): the iterative lookups over a
    network that is an argument, retries with cooldown, and the node that puts table, store and
    network together. Lookups end within their bound and return peers that answered.

  \<^bold>\<open>Networking.\<close>
  \<^item> \<open>Gossip_Dedup\<close>, \<open>Gossip_Access\<close> (\<^verbatim>\<open>a3net-gossip/src/dedup.rs\<close>, \<^verbatim>\<open>access.rs\<close>, with the message
    identifiers of \<^verbatim>\<open>a3net-types/src/announce.rs\<close>): the bounded cache of seen messages and the
    room policies.
  \<^item> \<open>Firewall_Rule\<close>, \<open>Firewall_Conntrack\<close>, \<open>Firewall_Engine\<close>, \<open>Firewall_Declarative\<close>
    (\<^verbatim>\<open>a3net-mesh-firewall/src\<close>): rules, connection tracking, the decision engine and the loader
    of rule files. Decisions are those of the first matching rule behind connection tracking
    (with any rule set, also a deserialised one), a full connection table is never a reason to deny
    (\<open>full_table_does_not_deny\<close>), inbound packets pass only when solicited or allowed, a rule file is applied whole or not
    at all.
  \<^item> \<open>Stun\<close>, \<open>Port_Mapping\<close> (\<^verbatim>\<open>a3net-nat-traversal/src\<close>): the STUN codec, client and hole punching; NAT-PMP and
    PCP. Messages and addresses survive the wire; what the clients can never accept is proved.
  \<^item> \<open>Circuit_Breakers\<close> (\<^verbatim>\<open>a3net-resilience/src/circuit_breaker.rs\<close> and the breaker of
    \<^verbatim>\<open>a3chat-app/src/group_sync_service\<close>): both breakers as instances of \<open>fail_fast\<close>.
  \<^item> \<open>Jitter_Buffer\<close> (\<^verbatim>\<open>a3net-video/src/jitter_buffer.rs\<close>): the jitter buffer, the reorder buffer and the gap
    detector of the video receiver.

  \<^bold>\<open>The offline mailbox.\<close>
  \<^item> \<open>Mailbox_Store\<close> (\<^verbatim>\<open>a3net-mailbox/src/storage.rs\<close>, \<^verbatim>\<open>sqlite_store.rs\<close>, \<^verbatim>\<open>policy.rs\<close>, \<^verbatim>\<open>error.rs\<close>, and the paging loop of
    \<^verbatim>\<open>client.rs\<close>): both stores of queued envelopes as instances of \<open>paged_queue\<close>; a paging client receives exactly
    the envelopes above its watermark.
  \<^item> \<open>Mailbox_Auth\<close> (\<^verbatim>\<open>auth.rs\<close>): identifiers, canonical messages and signature checks; which fields of a
    request a signature covers, and which it leaves open.
  \<^item> \<open>Mailbox_Server\<close> (\<^verbatim>\<open>server.rs\<close>, \<^verbatim>\<open>config.rs\<close>, \<^verbatim>\<open>metrics.rs\<close>): the handlers over any store (locale \<open>mailbox_backend\<close>);
    queues change only by signed requests or expiry. The check of the quota and the storing are
    two steps that other requests interleave with, and a queue exceeds its quota by at most the deliveries in
    flight.
  \<^item> \<open>Mailbox_Rate_Limit\<close> (\<^verbatim>\<open>rate_limit.rs\<close>): the token bucket per client address and its bound.

  \<^bold>\<open>Admission to a mesh.\<close>
  \<^item> \<open>Mesh_Types\<close> (\<^verbatim>\<open>a3net-types/src/virtual_ip.rs\<close>, \<^verbatim>\<open>mesh.rs\<close>): addresses derived from identities, network
    identifiers, rosters with their signed bytes, invite codes and their URL.
  \<^item> \<open>Mesh_Coordinator\<close> (\<^verbatim>\<open>a3net-mesh-coordinator/src/store.rs\<close>, \<^verbatim>\<open>request.rs\<close>, \<^verbatim>\<open>roster_sign.rs\<close>): invites, join
    requests, rosters and their signatures. Every member of a roster was admitted by an entitled operation, an
    invite is used once, and which bytes of a roster its signature protects.
  \<^item> \<open>Mesh_Peering\<close> (\<^verbatim>\<open>peering.rs\<close>, \<^verbatim>\<open>peering_sign.rs\<close>): grants between meshes, accepted exactly until they expire.

  \<^bold>\<open>Exit nodes.\<close>
  \<^item> \<open>Exit_Transit\<close> (\<^verbatim>\<open>a3net-exit-node/src/transit.rs\<close>, \<^verbatim>\<open>transit_gossip.rs\<close>): the graph of meshes joined by grants
    and its gossip (locale \<open>topology_source\<close>). Traffic is forwarded only along grants that were received,
    verified or not according to the entry point they came through, and not withdrawn since.
  \<^item> \<open>Exit_Billing\<close> (\<^verbatim>\<open>bandwidth.rs\<close>, \<^verbatim>\<open>billing.rs\<close>): meters, quotas and charges. What is charged equals what is
    accounted, tier by tier.
  \<^item> \<open>Exit_Handler\<close> (\<^verbatim>\<open>client.rs\<close>, \<^verbatim>\<open>gateway.rs\<close>, \<^verbatim>\<open>router.rs\<close>, \<^verbatim>\<open>exit_handler.rs\<close>, \<^verbatim>\<open>error.rs\<close>): the client's chosen
    gateway, the gateway, the router and the handler of packets. Traffic outside the mesh leaves only through the
    gateway chosen last (also when the own gateway is disabled, \<open>disabled_gateway_still_forwards\<close>), and
    packets are never charged.

  \<^bold>\<open>Moderation and reputation.\<close>
  \<^item> \<open>Reputation\<close> (\<^verbatim>\<open>a3net-reputation/src/params.rs\<close>, \<^verbatim>\<open>event.rs\<close>, \<^verbatim>\<open>score.rs\<close>, \<^verbatim>\<open>decay.rs\<close>, \<^verbatim>\<open>trust.rs\<close>): the sharded
    table of peer scores, refined to a map from peers to scores, and its fusion with the trust of chat users.
  \<^item> \<open>Reputation_Store\<close> (\<^verbatim>\<open>store.rs\<close>): the log, the snapshot and recovery; what a restart keeps and what it loses.
  \<^item> \<open>Moderation\<close> (\<^verbatim>\<open>a3net-moderation/src\<close>): the blocklist, the policy and takedowns. The policy follows the active
    entries, the list survives a restart, a takedown that succeeds blocks, and erases when it was to.

  \<^bold>\<open>How the parts interact.\<close> The mesh server and the transport server read the disk store through its
  range reader; their clients rely on the responses and on the header form of ranges; the chunks
  of the store are the leaves of the hash tree. The download of a node composes the transport
  client with the mesh client. The firewall engine asks the connection tracker before
  the rules and the loader replaces its rule set. The two-level DHT store combines the other
  two and is, like the store in memory, an object the message handler works on; records refer to
  node identifiers, whose distance orders the routing table, and the DHT node drives the table,
  the store and the lookups. The mailbox handlers check addresses and signatures of \<open>Identity\<close>
  before they reach a store, and the paging client reads the pages of the pull handler. Rosters and
  grants share the Ed25519 record and the addresses of \<open>Mesh_Types\<close>; the transit graph applies grants
  that \<open>Mesh_Peering\<close> verified, and unverified ones through a second entry point, and the exit handler composes router, meter and billing. A takedown acts on the blob store, the pin set
  and the score table. The
  theorems of this theory span the store, the hash tree and the HTTP mesh.

  \<^bold>\<open>Conventions.\<close> Operations return their result with the new state; errors are values of a sum
  type, panics and lost connections \<open>None\<close> where they can occur. Integers have the width of the
  code where an overflow can be reached and wrap as in a release build; lengths of data in
  memory are naturals. Clock readings, random values, BLAKE3, Keccak, secp256k1, hexadecimal, base64 and
  JSON codecs, Argon2, RocksDB, signature checks and HTTP transport are arguments, and what is assumed
  of them is a hypothesis of the theorem that needs it. SQLite tables are the lists of their rows.
  Floating-point rates are rationals, scores are reals, infinities or NaN. A method under a lock is one step; the mailbox
  server, which holds none between the check of the quota and the storing, is also modelled with the two
  as separate steps.

  \<^bold>\<open>Bounds.\<close> Loops of the code are structural or have a termination proof, except the two
  chunking writers, whose loop would not end on a full buffer, and the paging loop of the mailbox
  client: they are partial functions. The writers are proved to return on every reachable state,
  the paging loop for every page size above zero, and never for zero (\<open>zero_page_never_returns\<close>). Blobs are at most
  \<open>MAX_BLOB\<close> bytes, the largest length whose chunk count fits in 32 bits; beyond it the counts of the
  code wrap (\<open>chunk_count_wraps\<close>). Runs of the mailbox store are shorter than \<open>2 ^ 63\<close> operations, where
  its numbers are exact. No fuel is used.

  \<^bold>\<open>Not modelled.\<close> Sockets, async tasks, user interfaces, bindings, metrics registries and
  wrappers of third-party cryptography; SQL stores other than the mailbox; the older copies of the crates under \<^verbatim>\<open>adnet-*\<close>. Access control and
  sessions, pairing, tokens, GraphSync, gossip priorities and tickets have logic of their own that this
  development does not cover yet.
\<close>

section \<open>Properties across components\<close>

lemma run_serves:
  assumes "inj_on H D" and "\<Union> (op_contents ` set ops2) \<subseteq> D" and "c \<in> D" and "length c \<le> MAX_BLOB"
    and "\<not> has_complete (fold (store_step H) ops1 []) (H c)" and "list_all (\<lambda>p. \<not> spoils H (H c) p) ops2"
    and "c \<noteq> []" and "length (H c) = 32" and "has_complete (fold (store_step H) (ops1 @ ops2) []) (H c)"
  shows "serves H (fold (store_step H) (ops1 @ ops2) []) c"
proof -
  let ?fs = "fold (store_step H) (ops1 @ ops2) []"
  have "sound H c ?fs"
    using sound_run [OF assms(1-3,6) sound_incomplete [where H = H, OF assms(5)]] by simp
  moreover obtain d where d: "hm_get ?fs (Blob (H c)) = Some d" "bd_complete d"
    using assms(9) by (auto simp: has_complete_def split: option.splits)
  ultimately have "dir_holds c d" by (simp add: sound_def)
  then show ?thesis using d(1) assms(4,7,8) by (auto simp: serves_def)
qed

text \<open>
  C4. A mesh fetch of a non-empty blob that a peer's store marks complete delivers it byte for byte,
  after any run of stores, imports, finalisations, removals and collections in which every file
  system call may fail after part of its effect, provided that, since the blob was last not marked
  complete (in the empty store, for one), no operation spoiled it in the sense of \<^term>\<open>spoils\<close>: no
  removal of it stopped half-way with the sentinel left, no import of it read a changing file or
  came in short reads, no fallback copy of it was cut short after the sentinel, and its directory
  was not finalised by hand.
\<close>

theorem mesh_fetch_after_crashes:
  assumes "inj_on H D" and "\<Union> (op_contents ` set ops2) \<subseteq> D" and "c \<in> D" and "length c \<le> MAX_BLOB"
    and "\<not> has_complete (fold (store_step H) ops1 []) (H c)" and "list_all (\<lambda>p. \<not> spoils H (H c) p) ops2"
    and "c \<noteq> []" and "length (H c) = 32" and "js_faithful js"
    and "has_complete (fold (store_step H) (ops1 @ ops2) []) (H c)"
  shows "fetch_from_mesh H js [handle_connection js b (fold (store_step H) (ops1 @ ops2) [])] (H c) All dest =
    (Inr (of_nat (length c)), Some c)"
proof -
  note sv = run_serves [OF assms(1-8,10)]
  show ?thesis by (rule fetch_whole [OF assms(9) sv])
qed

theorem mesh_fetch_after_crashes_witness:
  "fetch_from_mesh demo_hash demo_json
     [handle_connection demo_json ''b'' (fold (store_step demo_hash)
       ([PutBytes None [1, 2, 3], RemoveBlob (Some [CompleteFile]) (demo_hash [1, 2, 3])] @
        [PutBytes (Some (2, 0, [])) [1, 2, 3], PutBytes None [1, 2, 3]]) [])]
     (demo_hash [1, 2, 3]) All None = (Inr (of_nat (length [1, 2, 3 :: u8])), Some [1, 2, 3])"
proof -
  let ?ops1 = "[PutBytes None [1, 2, 3 :: u8], RemoveBlob (Some [CompleteFile]) (demo_hash [1, 2, 3])]"
  let ?ops2 = "[PutBytes (Some (2, 0, [])) [1, 2, 3], PutBytes None [1, 2, 3 :: u8]]"
  have ch: "chunks CHUNK_SIZE [1, 2, 3 :: u8] = [[1, 2, 3]]"
    by (rule chunks_short) (simp_all add: CHUNK_SIZE_def)
  note run = put_bytes_sync_def put_ops_def write_chunk_ops_def has_complete_def Let_def BlobStore_remove_def
    remove_dir_all_def dir_upd_def create_dir_all_def hm_contains_def empty_dir_def ch
  have "\<not> has_complete (fold (store_step demo_hash) ?ops1 []) (demo_hash [1, 2, 3])" by (simp add: run)
  moreover have "has_complete (fold (store_step demo_hash) (?ops1 @ ?ops2) []) (demo_hash [1, 2, 3])" by (simp add: run)
  ultimately show ?thesis
    using mesh_fetch_after_crashes [of demo_hash "{[1, 2, 3]}" ?ops2 "[1, 2, 3]" ?ops1 demo_json "''b''" None]
    by (simp add: MAX_BLOB_def CHUNK_SIZE_def demo_json_faithful)
qed

text \<open>
  C8. The chunks the mesh serves are the leaves of the hash tree: the response to a request for
  chunk \<open>i\<close> of a held blob verifies, along the Merkle path of leaf \<open>i\<close>, against the root of the
  tree built over the blob. A client that knew the root could check every chunk on arrival.
\<close>

theorem served_chunk_verifies:
  assumes "serves H fs c" and "i < length (bt_leaves (BaoTree_build H c))"
  shows "\<exists>resp path. handle_connection js b fs (get_request (chunk_path (H c) i) None) = Some resp \<and>
    merkle_path_for_leaf H (BaoTree_build H c) i = Inr path \<and>
    verify_leaf_path H i (BaoLeaf_new H (mp_leaf_offset path) (rs_body resp)) path
      (bt_root_hash (BaoTree_build H c)) = Inr ()"
proof -
  let ?t = "BaoTree_build H c" and ?cs = "chunks CHUNK_SIZE c"
  have leaves: "bt_leaves ?t = build_leaves H 0 ?cs" by (simp add: BaoTree_build_def build_with_def)
  then have i: "i < length ?cs" "i < 2 ^ 32" using assms(2) serves_len(3) [OF assms(1)] by simp_all
  then have "read_chunk_sync fs (H c) (of_nat i) = Some (?cs ! i)"
    using assms(1) by (auto simp: serves_def read_chunk_sync_def dir_holds_def unat_of_nat_small)
  then have resp: "handle_connection js b fs (get_request (chunk_path (H c) i) None) = Some (octets 200 (?cs ! i) [])"
    using i by (simp add: route_chunk serve_chunk_def serves_meta(3) [OF assms(1)])
  obtain path where path: "merkle_path_for_leaf H ?t i = Inr path"
    using assms(2) by (auto simp: merkle_path_for_leaf_def Let_def)
  then have "mp_leaf_offset path = bl_offset (bt_leaves ?t ! i)"
    using assms(2) by (auto simp: merkle_path_for_leaf_def Let_def)
  then have "BaoLeaf_new H (mp_leaf_offset path) (?cs ! i) = bt_leaves ?t ! i"
    using i(1) by (simp add: leaves build_leaves_nth) (simp add: BaoLeaf_new_def)
  then have "verify_leaf_path H i (BaoLeaf_new H (mp_leaf_offset path) (?cs ! i)) path (bt_root_hash ?t) = Inr ()"
    using verify_leaf_path_ok [OF _ path, of i] bao_wf_build by (simp add: BaoTree_build_def)
  with resp path show ?thesis by (auto simp: octets_def)
qed

theorem served_chunk_verifies_witness:
  "\<exists>resp path. handle_connection demo_json ''b'' (snd (put_bytes_sync demo_hash None [1, 2, 3] []))
      (get_request (chunk_path (demo_hash [1, 2, 3]) 0) None) = Some resp \<and>
    merkle_path_for_leaf demo_hash (BaoTree_build demo_hash [1, 2, 3]) 0 = Inr path \<and>
    verify_leaf_path demo_hash 0 (BaoLeaf_new demo_hash (mp_leaf_offset path) (rs_body resp)) path
      (bt_root_hash (BaoTree_build demo_hash [1, 2, 3])) = Inr ()"
proof (rule served_chunk_verifies)
  show "serves demo_hash (snd (put_bytes_sync demo_hash None [1, 2, 3] [])) [1, 2, 3]"
    by (rule serves_demo) (simp_all add: MAX_BLOB_def CHUNK_SIZE_def)
  have "chunks CHUNK_SIZE [1, 2, 3 :: u8] = [[1, 2, 3]]"
    by (rule chunks_short) (simp_all add: CHUNK_SIZE_def)
  then show "0 < length (bt_leaves (BaoTree_build demo_hash [1, 2, 3]))"
    by (simp add: BaoTree_build_def build_with_def)
qed

end
